(* ===== verification/C_Prelude.thy ===== *)
theory C_Prelude
  imports Main "HOL-Library.Word"
begin

unbundle bit_operations_syntax

text \<open>
  Shared vocabulary of the development: the C types the sources compute with, the outcome of a
  C function that may call \<^verbatim>\<open>exit(1)\<close> or run into undefined behaviour, the invariant rule for
  counted loops, and the big exclusive-or.

  A C \<^verbatim>\<open>int\<close> that holds a field element or a bit pattern is a 32-bit word (\<open>cint\<close>); an
  \<^verbatim>\<open>int\<close> that only counts or indexes is a natural number.  A byte of a data block is an 8-bit
  word.  A counted loop \<^verbatim>\<open>for (i = a; i < b; i++)\<close> is \<open>fold\<close> over \<open>[a..<b]\<close>.
\<close>

section \<open>Types\<close>

type_synonym cint = "32 word"
type_synonym byte = "8 word"

text \<open>
  How a run ends when it does not return: \<^verbatim>\<open>exit(1)\<close>, undefined behaviour (an access outside an
  object, a division by zero), or a loop that never ends.
\<close>

datatype fault = Exit | Undefined | Hang

definition run_bind :: "fault + 'a \<Rightarrow> ('a \<Rightarrow> fault + 'b) \<Rightarrow> fault + 'b" where
  "run_bind m f = (case m of Inl e \<Rightarrow> Inl e | Inr x \<Rightarrow> f x)"

section \<open>Collections of facts\<close>

named_theorems bitsimps \<open>bit-level readings of the word operations\<close>

section \<open>Outcomes\<close>

lemma run_bind_simps [simp]:
  "run_bind (Inl e) f = Inl e"
  "run_bind (Inr x) f = f x"
  by (simp_all add: run_bind_def)

lemma run_bind_Inr_conv: "run_bind m f = Inr y \<longleftrightarrow> (\<exists>x. m = Inr x \<and> f x = Inr y)"
  by (cases m) auto

section \<open>Counted loops\<close>

text \<open>The rule every loop proof uses: an invariant indexed by the loop counter.\<close>

lemma fold_upt_inv:
  assumes "P a s"
    and "\<And>i s. a \<le> i \<Longrightarrow> i < b \<Longrightarrow> P i s \<Longrightarrow> P (Suc i) (f i s)"
    and "a \<le> b"
  shows "P b (fold f [a..<b] s)"
  using assms(3,2)
proof (induction b rule: dec_induct)
  case base
  then show ?case using assms(1) by simp
next
  case (step n)
  then have "P n (fold f [a..<n] s)" by simp
  then have "P (Suc n) (f n (fold f [a..<n] s))"
    using step by simp
  then show ?case using step by simp
qed

lemma fold_upt_inv0:
  assumes "P 0 s"
    and "\<And>i s. i < b \<Longrightarrow> P i s \<Longrightarrow> P (Suc i) (f i s)"
  shows "P b (fold f [0..<b] s)"
  by (rule fold_upt_inv [of P 0 s b f]) (use assms in auto)

text \<open>A counted loop whose body may fault stops at the first fault.\<close>

definition cfor :: "nat \<Rightarrow> nat \<Rightarrow> (nat \<Rightarrow> 's \<Rightarrow> fault + 's) \<Rightarrow> 's \<Rightarrow> fault + 's" where
  "cfor a b f s = fold (\<lambda>i r. run_bind r (f i)) [a..<b] (Inr s)"

lemma cfor_empty [simp]: "b \<le> a \<Longrightarrow> cfor a b f s = Inr s"
  by (simp add: cfor_def)

lemma cfor_Suc: "a \<le> b \<Longrightarrow> cfor a (Suc b) f s = run_bind (cfor a b f s) (f b)"
  by (simp add: cfor_def)

text \<open>The loop ends without a fault and establishes its invariant \<dots>\<close>

lemma cfor_total:
  assumes "a \<le> b" "P a s"
    and "\<And>i s. a \<le> i \<Longrightarrow> i < b \<Longrightarrow> P i s \<Longrightarrow> \<exists>s'. f i s = Inr s' \<and> P (Suc i) s'"
  shows "\<exists>s'. cfor a b f s = Inr s' \<and> P b s'"
  using assms(1,3)
proof (induction b rule: dec_induct)
  case base
  then show ?case using assms(2) by simp
next
  case (step n)
  then have "\<exists>s'. cfor a n f s = Inr s' \<and> P n s'" by simp
  then show ?case using step by (fastforce simp: cfor_Suc)
qed

text \<open>\<dots> or, when the body may fault, it establishes the invariant if it ends.\<close>

lemma cfor_inv:
  assumes "cfor a b f s = Inr t" "a \<le> b" "P a s"
    and "\<And>i s s'. a \<le> i \<Longrightarrow> i < b \<Longrightarrow> P i s \<Longrightarrow> f i s = Inr s' \<Longrightarrow> P (Suc i) s'"
  shows "P b t"
  using assms(2,1,4)
proof (induction b arbitrary: t rule: dec_induct)
  case base
  then show ?case using assms(3) by simp
next
  case (step n)
  then obtain s' where "cfor a n f s = Inr s'" "f n s' = Inr t"
    by (auto simp: cfor_Suc run_bind_Inr_conv)
  then show ?case using step by (metis le_Suc_eq lessI less_SucI)
qed

section \<open>Programs on a state\<close>

text \<open>
  A C function that reads and writes a state: it faults, or returns its value and the new state.
\<close>

type_synonym ('s, 'a) prog = "'s \<Rightarrow> fault + ('a \<times> 's)"

definition ret :: "'a \<Rightarrow> ('s, 'a) prog" where
  "ret x s = Inr (x, s)"

definition fail :: "fault \<Rightarrow> ('s, 'a) prog" where
  "fail e s = Inl e"

definition sbind :: "('s, 'a) prog \<Rightarrow> ('a \<Rightarrow> ('s, 'b) prog) \<Rightarrow> ('s, 'b) prog" where
  "sbind m f s = run_bind (m s) (\<lambda>(x, s'). f x s')"

definition lift :: "fault + 'a \<Rightarrow> ('s, 'a) prog" where
  "lift r s = run_bind r (\<lambda>x. Inr (x, s))"

lemma prog_simps [simp]:
  "ret x s = Inr (x, s)"
  "fail e s = Inl e"
  "sbind m f s = run_bind (m s) (\<lambda>(x, s'). f x s')"
  "lift r s = run_bind r (\<lambda>x. Inr (x, s))"
  by (simp_all add: ret_def fail_def sbind_def lift_def)

section \<open>Words\<close>

declare bit_xor_iff [bitsimps] bit_and_iff [bitsimps] bit_or_iff [bitsimps]
  bit_push_bit_iff [bitsimps] bit_take_bit_iff [bitsimps] bit_mask_iff [bitsimps]
  bit_exp_iff [bitsimps]

lemma and_push_bit_1: "x AND push_bit i 1 \<noteq> (0::'a::len word) \<longleftrightarrow> bit x i"
  by (simp only: bit_iff_and_push_bit_not_eq_0)

lemma xor_self_left [simp]: "(a::'a::len word) XOR (a XOR b) = b"
  by (simp flip: xor.assoc)

lemma xor_eq_0_iff [simp]: "(a::'a::len word) XOR b = 0 \<longleftrightarrow> a = b"
proof
  assume "a XOR b = 0"
  then have "a XOR (a XOR b) = a" by simp
  then show "a = b" by simp
qed simp

text \<open>Shifts stay symbolic: bit-level reasoning reads them with \<open>bit_push_bit_iff\<close>.\<close>

declare push_bit_Suc [simp del] push_bit_of_1 [simp del]

section \<open>Big exclusive-or\<close>

text \<open>
  The exclusive-or of a family of words, with the library's laws for finite sums
  (\<open>xs.cong\<close>, \<open>xs.distrib\<close>, \<open>xs.swap\<close>, \<open>xs.lessThan_Suc\<close>).
\<close>

interpretation xs: comm_monoid_set "(XOR) :: 'w::len word \<Rightarrow> 'w word \<Rightarrow> 'w word" 0
  by (unfold_locales) (auto simp: ac_simps)

abbreviation xsum :: "('i \<Rightarrow> 'w::len word) \<Rightarrow> 'i set \<Rightarrow> 'w word" where
  "xsum \<equiv> xs.F"

lemma xsum_hom:
  assumes "h 0 = 0" and "\<And>a b. P a \<Longrightarrow> P b \<Longrightarrow> h (a XOR b) = h a XOR h b"
    and "\<And>a b. P a \<Longrightarrow> P b \<Longrightarrow> P (a XOR b)" and "P 0"
    and "\<And>i. i \<in> A \<Longrightarrow> P (f i)"
  shows "h (xsum f A) = xsum (\<lambda>i. h (f i)) A \<and> P (xsum f A)"
  using assms(5)
  by (induction A rule: infinite_finite_induct) (use assms(1-4) in auto)

lemma xsum_if_xor:
  "xsum (\<lambda>i. if P i \<noteq> Q i then f i else 0) A =
   xsum (\<lambda>i. if P i then f i else 0) A XOR xsum (\<lambda>i. if Q i then f i else 0) A"
  by (simp flip: xs.distrib) (rule xs.cong, auto)

end
