(* ===== verification/Light_Storage.thy ===== *)
theory Light_Storage
  imports C_Prelude
begin

unbundle bit_operations_syntax

text \<open>
  The server of the repository, \<^verbatim>\<open>memcached_light\<close>: its storage (\<^verbatim>\<open>example/storage.cc\<close>), a ring of entries linked in
  both directions, and the handlers of the binary protocol (\<^verbatim>\<open>example/interface_v1.cc\<close>) that work on it.
\<close>

section \<open>The items of the server\<close>

text \<open>
  The storage of the server \<^verbatim>\<open>memcached_light\<close> is a ring of list entries.  An entry starts with its item; the
  memory is a map from addresses to entries, 0 is the null pointer, and using an address that is not allocated
  is undefined.  A key and a value are the bytes they point to.
\<close>

record list_entry =
  item_cas :: "64 word"
  item_key :: string
  item_data :: "byte list"
  item_flags :: "32 word"
  item_exp :: int
  entry_next :: nat
  entry_prev :: nat

text \<open>
  The global variables \<^verbatim>\<open>root\<close> and \<^verbatim>\<open>cas\<close>, the memory, the next address, the outcome of the next allocations
  (after the end of the list they succeed) and the contents of new memory.
\<close>

record storage =
  entries :: "nat \<rightharpoonup> list_entry"
  root :: nat
  cas_count :: "64 word"
  brk :: nat
  allocs :: "bool list"
  fill :: "nat \<Rightarrow> byte"

definition deref :: "nat \<Rightarrow> storage \<Rightarrow> fault + list_entry" where
  "deref a st = (case entries st a of None \<Rightarrow> Inl Undefined | Some e \<Rightarrow> Inr e)"

definition update :: "nat \<Rightarrow> (list_entry \<Rightarrow> list_entry) \<Rightarrow> storage \<Rightarrow> fault + storage" where
  "update a f st = run_bind (deref a st) (\<lambda>e. Inr (st\<lparr>entries := (entries st)(a \<mapsto> f e)\<rparr>))"

definition next_alloc :: "storage \<Rightarrow> bool \<times> storage" where
  "next_alloc st = (case allocs st of [] \<Rightarrow> (True, st) | b # bs \<Rightarrow> (b, st\<lparr>allocs := bs\<rparr>))"

section \<open>storage.cc\<close>

definition update_cas :: "nat \<Rightarrow> storage \<Rightarrow> fault + storage" where
  "update_cas item st =
     (let st = st\<lparr>cas_count := cas_count st + 1\<rparr>
      in update item (\<lambda>e. e\<lparr>item_cas := cas_count st\<rparr>) st)"

definition put_item :: "nat \<Rightarrow> storage \<Rightarrow> fault + storage" where
  "put_item entry st =
     run_bind (update_cas entry st) (\<lambda>st.
     run_bind
       (if root st = 0 then update entry (\<lambda>e. e\<lparr>entry_next := entry, entry_prev := entry\<rparr>) st
        else
          run_bind (deref (root st) st) (\<lambda>r.
          run_bind (update entry (\<lambda>e. e\<lparr>entry_prev := entry_prev r\<rparr>) st) (\<lambda>st.
          run_bind (update entry (\<lambda>e. e\<lparr>entry_next := root st\<rparr>) st) (\<lambda>st.
          run_bind (deref entry st) (\<lambda>e.
          run_bind (update (entry_prev e) (\<lambda>p. p\<lparr>entry_next := entry\<rparr>) st) (\<lambda>st.
          run_bind (deref entry st) (\<lambda>e.
            update (entry_next e) (\<lambda>n. n\<lparr>entry_prev := entry\<rparr>) st)))))))
       (\<lambda>st. Inr (st\<lparr>root := entry\<rparr>)))"

text \<open>
  The search from the root until the root is met again.  A walk over more entries than there are addresses
  has met some entry twice and goes on for ever.
\<close>

fun walk :: "nat \<Rightarrow> storage \<Rightarrow> string \<Rightarrow> nat \<Rightarrow> fault + nat" where
  "walk 0 st key walker = Inl Hang"
| "walk (Suc fuel) st key walker =
     run_bind (deref walker st) (\<lambda>e.
       if item_key e = key then Inr walker
       else
         let walker = entry_next e
         in if walker \<noteq> root st then walk fuel st key walker else Inr 0)"

definition get_item :: "string \<Rightarrow> storage \<Rightarrow> fault + nat" where
  "get_item key st = (if root st = 0 then Inr 0 else walk (brk st) st key (root st))"

text \<open>\<open>data\<close> is \<open>None\<close> for the null pointer: the memory of the value keeps the contents it has.\<close>

definition create_item :: "string \<Rightarrow> byte list option \<Rightarrow> nat \<Rightarrow> 32 word \<Rightarrow> int \<Rightarrow> storage \<Rightarrow> nat \<times> storage" where
  "create_item key data sz flags exptime st =
     (let (ok, st) = next_alloc st
      in if \<not> ok then (0, st)
         else
           let (key_ok, st) = next_alloc st;
               (data_ok, st) = (if sz > 0 then next_alloc st else (True, st))
           in if \<not> key_ok \<or> \<not> data_ok then (0, st)
              else
                let d = (case data of Some d \<Rightarrow> take sz d | None \<Rightarrow> map (fill st) [0..<sz]);
                    a = brk st;
                    e = \<lparr>item_cas = 0, item_key = key, item_data = d, item_flags = flags, item_exp = exptime, entry_next = 0, entry_prev = 0\<rparr>
                in (a, st\<lparr>entries := (entries st)(a \<mapsto> e), brk := brk st + 1\<rparr>))"

definition delete_item :: "string \<Rightarrow> storage \<Rightarrow> fault + (bool \<times> storage)" where
  "delete_item key st =
     run_bind (get_item key st) (\<lambda>item.
       if item = 0 then Inr (False, st)
       else
         run_bind (deref item st) (\<lambda>entry.
         run_bind
           (if entry_next entry = item then Inr (st\<lparr>root := 0\<rparr>)
            else
              let st = st\<lparr>root := entry_next entry\<rparr>
              in run_bind (update (entry_prev entry) (\<lambda>p. p\<lparr>entry_next := entry_next entry\<rparr>) st) (\<lambda>st.
                   update (entry_next entry) (\<lambda>n. n\<lparr>entry_prev := entry_prev entry\<rparr>) st))
           (\<lambda>st. Inr (True, st\<lparr>entries := (entries st)(item := None)\<rparr>))))"

text \<open>The loop of \<^verbatim>\<open>flush\<close>, which frees the entries up to the null pointer.\<close>

fun free_all :: "nat \<Rightarrow> storage \<Rightarrow> fault + storage" where
  "free_all 0 st = (if root st = 0 then Inr st else Inl Hang)"
| "free_all (Suc fuel) st =
     (if root st = 0 then Inr st
      else
        let tmp = root st
        in run_bind (deref tmp st) (\<lambda>e. free_all fuel (st\<lparr>root := entry_next e, entries := (entries st)(tmp := None)\<rparr>)))"

definition flush :: "storage \<Rightarrow> fault + storage" where
  "flush st =
     (if root st = 0 then Inr st
      else
        run_bind (deref (root st) st) (\<lambda>r.
        run_bind (update (entry_prev r) (\<lambda>p. p\<lparr>entry_next := 0\<rparr>) st) (\<lambda>st.
          free_all (brk st) st)))"

section \<open>interface\_v1.cc\<close>

datatype protocol_binary_response_status =
    PROTOCOL_BINARY_RESPONSE_SUCCESS
  | PROTOCOL_BINARY_RESPONSE_KEY_ENOENT
  | PROTOCOL_BINARY_RESPONSE_KEY_EEXISTS
  | PROTOCOL_BINARY_RESPONSE_E2BIG
  | PROTOCOL_BINARY_RESPONSE_EINVAL
  | PROTOCOL_BINARY_RESPONSE_NOT_STORED
  | PROTOCOL_BINARY_RESPONSE_DELTA_BADVAL
  | PROTOCOL_BINARY_RESPONSE_NOT_MY_VBUCKET
  | PROTOCOL_BINARY_RESPONSE_AUTH_ERROR
  | PROTOCOL_BINARY_RESPONSE_AUTH_CONTINUE
  | PROTOCOL_BINARY_RESPONSE_UNKNOWN_COMMAND
  | PROTOCOL_BINARY_RESPONSE_ENOMEM
  | PROTOCOL_BINARY_RESPONSE_NOT_SUPPORTED
  | PROTOCOL_BINARY_RESPONSE_EINTERNAL
  | PROTOCOL_BINARY_RESPONSE_EBUSY
  | PROTOCOL_BINARY_RESPONSE_ETMPFAIL

text \<open>A handler returns its status, the value it stores through \<^verbatim>\<open>result_cas\<close> or \<^verbatim>\<open>cas\<close>, if any, and the storage.\<close>

type_synonym answer = "protocol_binary_response_status \<times> 64 word option \<times> storage"

text \<open>The end of the handlers that store an item: \<^verbatim>\<open>put_item\<close> and \<^verbatim>\<open>*cas = item->cas\<close>, or no memory.\<close>

definition store_new :: "nat \<Rightarrow> storage \<Rightarrow> fault + answer" where
  "store_new item st =
     (if item = 0 then Inr (PROTOCOL_BINARY_RESPONSE_ENOMEM, None, st)
      else
        run_bind (put_item item st) (\<lambda>st.
        run_bind (deref item st) (\<lambda>e.
          Inr (PROTOCOL_BINARY_RESPONSE_SUCCESS, Some (item_cas e), st))))"

definition add_handler :: "string \<Rightarrow> byte list \<Rightarrow> 32 word \<Rightarrow> int \<Rightarrow> storage \<Rightarrow> fault + answer" where
  "add_handler key data flags exptime st =
     run_bind (get_item key st) (\<lambda>item.
       if item = 0 then
         let (item, st) = create_item key (Some data) (length data) flags exptime st
         in store_new item st
       else Inr (PROTOCOL_BINARY_RESPONSE_KEY_EEXISTS, None, st))"

text \<open>\<^verbatim>\<open>append_handler\<close> and \<^verbatim>\<open>prepend_handler\<close> differ in the order of the two parts of the new value.\<close>

definition concat_handler :: "(byte list \<Rightarrow> byte list \<Rightarrow> byte list) \<Rightarrow> string \<Rightarrow> byte list \<Rightarrow> 64 word \<Rightarrow> storage \<Rightarrow> fault + answer" where
  "concat_handler both key val cas st =
     run_bind (get_item key st) (\<lambda>item.
       if item = 0 then Inr (PROTOCOL_BINARY_RESPONSE_KEY_ENOENT, None, st)
       else
         run_bind (deref item st) (\<lambda>e.
         if cas \<noteq> 0 \<and> cas \<noteq> item_cas e then Inr (PROTOCOL_BINARY_RESPONSE_KEY_EEXISTS, None, st)
         else
           let (nitem, st) = create_item key None (length (item_data e) + length val) (item_flags e) (item_exp e) st
           in if nitem = 0 then Inr (PROTOCOL_BINARY_RESPONSE_ENOMEM, None, st)
              else
                run_bind (update nitem (\<lambda>n. n\<lparr>item_data := both (item_data e) val\<rparr>) st) (\<lambda>st.
                run_bind (delete_item key st) (\<lambda>(found, st).
                  store_new nitem st))))"

definition append_handler :: "string \<Rightarrow> byte list \<Rightarrow> 64 word \<Rightarrow> storage \<Rightarrow> fault + answer" where
  "append_handler = concat_handler (\<lambda>old new. old @ new)"

definition prepend_handler :: "string \<Rightarrow> byte list \<Rightarrow> 64 word \<Rightarrow> storage \<Rightarrow> fault + answer" where
  "prepend_handler = concat_handler (\<lambda>old new. new @ old)"

text \<open>
  A counter is the first eight bytes of the value, the lowest first; a shorter value is read beyond its end.
\<close>

fun le_word :: "byte list \<Rightarrow> 64 word" where
  "le_word [] = 0"
| "le_word (b # bs) = ucast b OR push_bit 8 (le_word bs)"

definition counter_value :: "byte list \<Rightarrow> fault + 64 word" where
  "counter_value d = (if length d < 8 then Inl Undefined else Inr (le_word (take 8 d)))"

definition counter_bytes :: "64 word \<Rightarrow> byte list" where
  "counter_bytes v = map (\<lambda>i. ucast (drop_bit (8 * i) v)) [0..<8]"

definition arithmetic_handler ::
  "(64 word \<Rightarrow> 64 word \<Rightarrow> 64 word) \<Rightarrow> string \<Rightarrow> 64 word \<Rightarrow> 64 word \<Rightarrow> 32 word \<Rightarrow> storage \<Rightarrow> fault + (64 word option \<times> answer)" where
  "arithmetic_handler calc key delta initial expiration st =
     run_bind (get_item key st) (\<lambda>item.
     run_bind
       (if item \<noteq> 0 then
          run_bind (deref item st) (\<lambda>e.
          run_bind (counter_value (item_data e)) (\<lambda>old.
          run_bind (delete_item key st) (\<lambda>(found, st).
            Inr (calc old delta, word_of_int (item_exp e), st))))
        else Inr (initial, expiration, st))
       (\<lambda>(val, expiration, st).
         let (item, st) = create_item key None 8 0 (uint (expiration :: 32 word)) st
         in if item = 0 then Inr (None, PROTOCOL_BINARY_RESPONSE_ENOMEM, None, st)
            else
              run_bind (update item (\<lambda>n. n\<lparr>item_data := counter_bytes val\<rparr>) st) (\<lambda>st.
              run_bind (store_new item st) (\<lambda>a. Inr (Some val, a)))))"

definition decrement_handler :: "string \<Rightarrow> 64 word \<Rightarrow> 64 word \<Rightarrow> 32 word \<Rightarrow> storage \<Rightarrow> fault + (64 word option \<times> answer)" where
  "decrement_handler = arithmetic_handler (\<lambda>old delta. if delta > old then 0 else old - delta)"

text \<open>\<^verbatim>\<open>increment_handler\<close> copies the key into a buffer of 1024 bytes that it does not use.\<close>

definition increment_handler :: "string \<Rightarrow> 64 word \<Rightarrow> 64 word \<Rightarrow> 32 word \<Rightarrow> storage \<Rightarrow> fault + (64 word option \<times> answer)" where
  "increment_handler key delta initial expiration st =
     run_bind (arithmetic_handler (\<lambda>old delta. old + delta) key delta initial expiration st) (\<lambda>(val, rval, cas, st).
       if val \<noteq> None \<and> length key > 1024 then Inl Undefined else Inr (val, rval, cas, st))"

definition delete_handler :: "string \<Rightarrow> 64 word \<Rightarrow> storage \<Rightarrow> fault + (protocol_binary_response_status \<times> storage)" where
  "delete_handler key cas st =
     run_bind
       (if cas \<noteq> 0 then
          run_bind (get_item key st) (\<lambda>item.
            if item \<noteq> 0 then run_bind (deref item st) (\<lambda>e. Inr (item_cas e \<noteq> cas)) else Inr False)
        else Inr False)
       (\<lambda>other.
         if other then Inr (PROTOCOL_BINARY_RESPONSE_KEY_EEXISTS, st)
         else
           run_bind (delete_item key st) (\<lambda>(found, st).
             if \<not> found then Inr (PROTOCOL_BINARY_RESPONSE_KEY_ENOENT, st) else Inr (PROTOCOL_BINARY_RESPONSE_SUCCESS, st)))"

text \<open>\<^verbatim>\<open>flush_handler\<close> removes nothing.\<close>

definition flush_handler :: "storage \<Rightarrow> protocol_binary_response_status \<times> storage" where
  "flush_handler st = (PROTOCOL_BINARY_RESPONSE_SUCCESS, st)"

text \<open>What \<^verbatim>\<open>get_handler\<close> gives to the response handler: the value, the flags and the cas of the item.\<close>

definition get_handler :: "string \<Rightarrow> storage \<Rightarrow> fault + (protocol_binary_response_status \<times> (byte list \<times> 32 word \<times> 64 word) option)" where
  "get_handler key st =
     run_bind (get_item key st) (\<lambda>item.
       if item = 0 then Inr (PROTOCOL_BINARY_RESPONSE_KEY_ENOENT, None)
       else
         run_bind (deref item st) (\<lambda>e.
           Inr (PROTOCOL_BINARY_RESPONSE_SUCCESS, Some (item_data e, item_flags e, item_cas e))))"

definition replace_handler :: "string \<Rightarrow> byte list \<Rightarrow> 32 word \<Rightarrow> int \<Rightarrow> 64 word \<Rightarrow> storage \<Rightarrow> fault + answer" where
  "replace_handler key data flags exptime cas st =
     run_bind (get_item key st) (\<lambda>item.
       if item = 0 then Inr (PROTOCOL_BINARY_RESPONSE_KEY_ENOENT, None, st)
       else
         run_bind (deref item st) (\<lambda>e.
         if cas = 0 \<or> cas = item_cas e then
           run_bind (delete_item key st) (\<lambda>(found, st).
             let (item, st) = create_item key (Some data) (length data) flags exptime st
             in store_new item st)
         else Inr (PROTOCOL_BINARY_RESPONSE_KEY_EEXISTS, None, st)))"

definition set_handler :: "string \<Rightarrow> byte list \<Rightarrow> 32 word \<Rightarrow> int \<Rightarrow> 64 word \<Rightarrow> storage \<Rightarrow> fault + answer" where
  "set_handler key data flags exptime cas st =
     run_bind
       (if cas \<noteq> 0 then
          run_bind (get_item key st) (\<lambda>item.
            if item \<noteq> 0 then run_bind (deref item st) (\<lambda>e. Inr (cas \<noteq> item_cas e)) else Inr False)
        else Inr False)
       (\<lambda>other.
         if other then Inr (PROTOCOL_BINARY_RESPONSE_KEY_EEXISTS, None, st)
         else
           run_bind (delete_item key st) (\<lambda>(found, st).
             let (item, st) = create_item key (Some data) (length data) flags exptime st
             in store_new item st))"

end
