(* ===== verification/Light_Storage_Correct.thy ===== *)
theory Light_Storage_Correct
  imports Light_Storage
begin

unbundle bit_operations_syntax

text \<open>
  The storage refines a map: the ring stays well formed, searches end, and every handler does to the map of
  keys what the protocol says, on every branch.
\<close>

section \<open>Segments of the ring\<close>

text \<open>
  \<open>segment h p a xs z b\<close>: from \<open>a\<close> the next pointers run through the entries \<open>xs\<close> to \<open>b\<close>; the previous pointers
  run back to \<open>p\<close>, and \<open>z\<close> is the entry before \<open>b\<close>.
\<close>

fun segment :: "(nat \<rightharpoonup> list_entry) \<Rightarrow> nat \<Rightarrow> nat \<Rightarrow> nat list \<Rightarrow> nat \<Rightarrow> nat \<Rightarrow> bool" where
  "segment h p a [] z b \<longleftrightarrow> a = b \<and> z = p"
| "segment h p a (x # xs) z b \<longleftrightarrow> a = x \<and> (\<exists>e. h x = Some e \<and> entry_prev e = p \<and> segment h x (entry_next e) xs z b)"

lemma segment_append: "segment h p a (xs @ ys) z b \<longleftrightarrow> (\<exists>m c. segment h p a xs m c \<and> segment h m c ys z b)"
  by (induction xs arbitrary: p a) auto

lemma segment_last: "segment h p a xs z b \<Longrightarrow> xs \<noteq> [] \<Longrightarrow> z = last xs"
proof (induction xs arbitrary: p a)
  case (Cons x xs)
  then show ?case by (cases xs) auto
qed simp

lemma segment_hd: "segment h p a xs z b \<Longrightarrow> xs \<noteq> [] \<Longrightarrow> a = hd xs"
  by (cases xs) auto

lemma segment_cong: "segment h p a xs z b \<Longrightarrow> (\<And>x. x \<in> set xs \<Longrightarrow> h' x = h x) \<Longrightarrow> segment h' p a xs z b"
  by (induction xs arbitrary: p a) auto

lemma segment_entries: "segment h p a xs z b \<Longrightarrow> x \<in> set xs \<Longrightarrow> \<exists>e. h x = Some e"
  by (induction xs arbitrary: p a) auto

text \<open>The links at the two ends can be set anew.\<close>

definition relink :: "nat \<Rightarrow> nat \<Rightarrow> nat \<Rightarrow> nat \<Rightarrow> (nat \<rightharpoonup> list_entry) \<Rightarrow> (nat \<rightharpoonup> list_entry)" where
  "relink z b a p h =
     (let h = h(z := map_option (\<lambda>e. e\<lparr>entry_next := b\<rparr>) (h z)) in h(a := map_option (\<lambda>e. e\<lparr>entry_prev := p\<rparr>) (h a)))"

lemma segment_next:
  "segment h p a xs z b \<Longrightarrow> xs \<noteq> [] \<Longrightarrow> distinct xs \<Longrightarrow> segment (h(z := map_option (\<lambda>e. e\<lparr>entry_next := b'\<rparr>) (h z))) p a xs z b'"
proof (induction xs arbitrary: p a)
  case (Cons x xs)
  then obtain e where e: "a = x" "h x = Some e" "entry_prev e = p" "segment h x (entry_next e) xs z b" by auto
  show ?case
  proof (cases "xs = []")
    case True
    then show ?thesis using e by auto
  next
    case False
    then have "z \<noteq> x" using segment_last [OF e(4)] Cons.prems(3) by auto
    then show ?thesis using e Cons.IH [OF e(4) False] Cons.prems(3) by auto
  qed
qed simp

lemma segment_prev:
  assumes "segment h p a xs z b" "xs \<noteq> []" "distinct xs"
  shows "segment (h(a := map_option (\<lambda>e. e\<lparr>entry_prev := p'\<rparr>) (h a))) p' a xs z b"
proof -
  obtain x ys where xs: "xs = x # ys" using assms(2) by (cases xs) auto
  then obtain e where e: "a = x" "h x = Some e" "segment h x (entry_next e) ys z b" using assms(1) by auto
  have "segment (h(x := map_option (\<lambda>e. e\<lparr>entry_prev := p'\<rparr>) (h x))) x (entry_next e) ys z b"
    by (rule segment_cong [OF e(3)]) (use assms(3) xs in auto)
  then show ?thesis using e xs by auto
qed

lemma segment_relink:
  assumes "segment h p a xs z b" "xs \<noteq> []" "distinct xs"
  shows "segment (relink z b' a p' h) p' a xs z b'"
  using segment_prev [OF segment_next [OF assms]] assms(2,3) unfolding relink_def Let_def by blast

lemma relink_other: "x \<noteq> z \<Longrightarrow> x \<noteq> a \<Longrightarrow> relink z b a p h x = h x"
  by (simp add: relink_def Let_def)

lemma relink_item:
  assumes "h x = Some e"
  shows "\<exists>e'. relink z b a p h x = Some e' \<and> item_cas e' = item_cas e \<and> item_key e' = item_key e \<and> item_data e' = item_data e \<and>
    item_flags e' = item_flags e \<and> item_exp e' = item_exp e"
  using assms unfolding relink_def Let_def by auto

lemma relink_dom: "dom (relink z b a p h) = dom h"
  unfolding relink_def Let_def by (auto simp: dom_def)

lemma update_ok: "entries st a = Some e \<Longrightarrow> update a f st = Inr (st\<lparr>entries := (entries st)(a := map_option f (entries st a))\<rparr>)"
  by (simp add: update_def deref_def)

section \<open>The ring\<close>

text \<open>
  The entries in the order of the ring, from the root; the addresses that are in use are below \<^verbatim>\<open>brk\<close>, and no
  two items of the ring have the same key.
\<close>

definition item_at :: "storage \<Rightarrow> nat \<Rightarrow> list_entry" where
  "item_at st a = the (entries st a)"

definition ring :: "storage \<Rightarrow> nat list \<Rightarrow> bool" where
  "ring st as \<longleftrightarrow> (if as = [] then root st = 0 else segment (entries st) (last as) (root st) as (last as) (root st)) \<and> distinct as \<and>
     (\<forall>a \<in> dom (entries st). 0 < a \<and> a < brk st) \<and> 0 < brk st \<and> distinct (map (\<lambda>a. item_key (item_at st a)) as)"

text \<open>What the ring holds for a key.\<close>

definition held :: "storage \<Rightarrow> nat list \<Rightarrow> string \<Rightarrow> nat option" where
  "held st as key = find (\<lambda>a. item_key (item_at st a) = key) as"

lemma ring_entries: "ring st as \<Longrightarrow> a \<in> set as \<Longrightarrow> entries st a = Some (item_at st a) \<and> 0 < a \<and> a < brk st"
proof -
  assume R: "ring st as" and a: "a \<in> set as"
  then have "segment (entries st) (last as) (root st) as (last as) (root st)" by (cases "as = []") (simp_all add: ring_def)
  from segment_entries [OF this a] obtain e where e: "entries st a = Some e" by blast
  then have "a \<in> dom (entries st)" by auto
  then show ?thesis using R e by (auto simp: ring_def item_at_def)
qed

lemma ring_length: "ring st as \<Longrightarrow> length as \<le> brk st"
proof -
  assume R: "ring st as"
  have "set as \<subseteq> {..<brk st}" using ring_entries [OF R] by blast
  then have "card (set as) \<le> brk st" using card_mono [of "{..<brk st}" "set as"] by simp
  then show ?thesis using R distinct_card [of as] by (simp add: ring_def)
qed

lemma walk_ok:
  assumes "segment (entries st) p a xs z (root st)" "xs \<noteq> []" "root st \<notin> set (tl xs)" "distinct xs" "length xs \<le> fuel"
  shows "walk fuel st key a = Inr (case find (\<lambda>x. item_key (item_at st x) = key) xs of None \<Rightarrow> 0 | Some x \<Rightarrow> x)"
  using assms
proof (induction xs arbitrary: p a fuel)
  case (Cons x xs)
  then obtain e where e: "a = x" "entries st x = Some e" "segment (entries st) x (entry_next e) xs z (root st)" by auto
  obtain f where f: "fuel = Suc f" "length xs \<le> f" using Cons.prems(5) by (cases fuel) auto
  have i: "item_at st x = e" using e(2) by (simp add: item_at_def)
  show ?case
  proof (cases "xs = []")
    case True
    then show ?thesis using e f i by (simp add: deref_def)
  next
    case False
    have "entry_next e = hd xs" by (rule segment_hd [OF e(3) False])
    then have n: "entry_next e \<noteq> root st" using Cons.prems(3) hd_in_set [OF False] by auto
    have "walk f st key (entry_next e) = Inr (case find (\<lambda>x. item_key (item_at st x) = key) xs of None \<Rightarrow> 0 | Some x \<Rightarrow> x)"
      by (rule Cons.IH [OF e(3) False]) (use Cons.prems(3,4) f(2) False in \<open>auto dest: list.set_sel(2)\<close>)
    then show ?thesis using e f i n by (simp add: deref_def)
  qed
qed simp

lemma get_item_ok: "ring st as \<Longrightarrow> get_item key st = Inr (case held st as key of None \<Rightarrow> 0 | Some a \<Rightarrow> a)"
proof (cases "as = []")
  case True
  assume "ring st as"
  then show ?thesis using True by (simp add: ring_def get_item_def held_def)
next
  case False
  assume R: "ring st as"
  then have S: "segment (entries st) (last as) (root st) as (last as) (root st)" "distinct as" using False by (auto simp: ring_def)
  have r: "root st = hd as" by (rule segment_hd [OF S(1) False])
  then have "root st \<noteq> 0" using ring_entries [OF R, of "hd as"] False by simp
  moreover have "walk (brk st) st key (root st) = Inr (case find (\<lambda>x. item_key (item_at st x) = key) as of None \<Rightarrow> 0 | Some x \<Rightarrow> x)"
    by (rule walk_ok [OF S(1) False _ S(2) ring_length [OF R]]) (use r S(2) False in \<open>cases as; auto\<close>)
  ultimately show ?thesis by (simp add: get_item_def held_def)
qed

section \<open>The operations on the ring\<close>

definition same_item :: "list_entry \<Rightarrow> list_entry \<Rightarrow> bool" where
  "same_item e e' \<longleftrightarrow> item_cas e' = item_cas e \<and> item_key e' = item_key e \<and> item_data e' = item_data e \<and>
    item_flags e' = item_flags e \<and> item_exp e' = item_exp e"

text \<open>The state keeps the items at \<open>A\<close>, the other entries but those in \<open>B\<close>, and what else it has.\<close>

definition keeps :: "storage \<Rightarrow> storage \<Rightarrow> nat set \<Rightarrow> bool" where
  "keeps st st' A \<longleftrightarrow> (\<forall>x \<in> A. same_item (item_at st x) (item_at st' x)) \<and> allocs st' = allocs st \<and> fill st' = fill st"

text \<open>The state with a new entry in memory, which is not in the ring yet.\<close>

definition new_entry :: "string \<Rightarrow> byte list option \<Rightarrow> nat \<Rightarrow> 32 word \<Rightarrow> int \<Rightarrow> storage \<Rightarrow> list_entry" where
  "new_entry key data sz flags exptime st =
     \<lparr>item_cas = 0, item_key = key, item_data = (case data of Some d \<Rightarrow> take sz d | None \<Rightarrow> map (fill st) [0..<sz]),
       item_flags = flags, item_exp = exptime, entry_next = 0, entry_prev = 0\<rparr>"

definition with_new :: "list_entry \<Rightarrow> storage \<Rightarrow> storage" where
  "with_new e st = st\<lparr>entries := (entries st)(brk st \<mapsto> e), brk := brk st + 1\<rparr>"

lemma create_item_new:
  "allocs st = [] \<Longrightarrow> create_item key data sz flags exptime st = (brk st, with_new (new_entry key data sz flags exptime st) st)"
  by (auto simp: create_item_def next_alloc_def with_new_def new_entry_def Let_def split: option.splits)

lemma with_new_fields [simp]:
  "allocs (with_new e st) = allocs st" "root (with_new e st) = root st" "cas_count (with_new e st) = cas_count st" "fill (with_new e st) = fill st"
  "entries (with_new e st) (brk st) = Some e" "brk (with_new e st) = brk st + 1"
  by (simp_all add: with_new_def)

lemma ring_new:
  assumes R: "ring st as"
  shows "ring (with_new e st) as" "brk st \<notin> set as" "0 < brk st" "keeps st (with_new e st) (set as)"
proof -
  let ?st = "with_new e st"
  have lt: "x < brk st" if "x \<in> set as" for x using ring_entries [OF R that] by simp
  show "brk st \<notin> set as" using lt by blast
  show "0 < brk st" using R by (simp add: ring_def)
  have i: "item_at ?st x = item_at st x" "entries ?st x = entries st x" if "x \<in> set as" for x
    using lt [OF that] by (auto simp: item_at_def with_new_def)
  show "keeps st ?st (set as)" using i by (simp add: keeps_def same_item_def)
  have "segment (entries ?st) (last as) (root st) as (last as) (root st)" if "as \<noteq> []"
  proof (rule segment_cong)
    show "segment (entries st) (last as) (root st) as (last as) (root st)" using R that by (simp add: ring_def)
  qed (rule i(2))
  moreover have "map (\<lambda>a. item_key (item_at ?st a)) as = map (\<lambda>a. item_key (item_at st a)) as" using i by simp
  moreover have "\<forall>a \<in> dom (entries ?st). 0 < a \<and> a < brk ?st"
  proof -
    have "\<forall>a \<in> dom (entries st). 0 < a \<and> a < brk st" "0 < brk st" using R by (simp_all add: ring_def)
    then show ?thesis by (auto simp: with_new_def less_Suc_eq)
  qed
  moreover have "0 < brk ?st" by simp
  moreover have "as = [] \<longrightarrow> root st = 0" "distinct as" "distinct (map (\<lambda>a. item_key (item_at st a)) as)" using R by (auto simp: ring_def)
  ultimately show "ring ?st as" unfolding ring_def with_new_fields by presburger
qed

lemma put_links:
  assumes as: "as \<noteq> []" and S: "segment h (last as) r as (last as) r" and d: "distinct as" and a: "a \<notin> set as" "h a = Some e"
  shows "segment (relink (last as) a r a (h(a \<mapsto> e\<lparr>entry_prev := last as, entry_next := r\<rparr>))) (last as) a (a # as) (last as) a"
proof -
  let ?h = "h(a \<mapsto> e\<lparr>entry_prev := last as, entry_next := r\<rparr>)"
  have "segment ?h (last as) r as (last as) r" by (rule segment_cong [OF S]) (use a in auto)
  from segment_relink [OF this as d, of a a] have "segment (relink (last as) a r a ?h) a r as (last as) a" .
  moreover have "relink (last as) a r a ?h a = ?h a" by (rule relink_other) (use a as segment_hd [OF S as] in auto)
  ultimately show ?thesis by simp
qed

lemma put_item_ok:
  assumes R: "ring st as" and a: "a \<notin> set as" "entries st a = Some e" and k: "item_key e \<notin> (\<lambda>x. item_key (item_at st x)) ` set as"
  shows "\<exists>st'. put_item a st = Inr st' \<and> ring st' (a # as) \<and> keeps st st' (set as) \<and>
    same_item (e\<lparr>item_cas := cas_count st + 1\<rparr>) (item_at st' a) \<and> cas_count st' = cas_count st + 1"
proof -
  let ?c = "cas_count st + 1" let ?e = "e\<lparr>item_cas := ?c\<rparr>"
  have a0: "0 < a" "a < brk st" using R a(2) by (auto simp: ring_def dom_def)
  have D: "distinct as" "distinct (map (\<lambda>x. item_key (item_at st x)) as)" "0 < brk st" "\<forall>x \<in> dom (entries st). 0 < x \<and> x < brk st" using R by (auto simp: ring_def)
  have ne: "entries st x = Some (item_at st x)" if "x \<in> set as" for x using ring_entries [OF R that] by simp
  have main: "\<exists>h. put_item a st = Inr (st\<lparr>cas_count := ?c, entries := h, root := a\<rparr>) \<and> segment h (last (a # as)) a (a # as) (last (a # as)) a \<and>
      dom h = dom (entries st) \<and> (\<forall>x \<in> set as. \<exists>e'. h x = Some e' \<and> same_item (item_at st x) e') \<and> (\<exists>e'. h a = Some e' \<and> same_item ?e e')"
  proof (cases "as = []")
    case True
    let ?h = "(entries st)(a \<mapsto> ?e\<lparr>entry_next := a, entry_prev := a\<rparr>)"
    have "root st = 0" using R True by (simp add: ring_def)
    then have "put_item a st = Inr (st\<lparr>cas_count := ?c, entries := ?h, root := a\<rparr>)"
      using a(2) by (simp add: put_item_def update_cas_def update_def deref_def Let_def)
    moreover have "segment ?h a a [a] a a" by simp
    moreover have "dom ?h = dom (entries st)" using a(2) by auto
    ultimately show ?thesis using True by (intro exI [of _ ?h]) (simp add: same_item_def)
  next
    case False
    have S: "segment (entries st) (last as) (root st) as (last as) (root st)" using R False by (simp add: ring_def)
    have r: "root st \<in> set as" "root st \<noteq> 0" using segment_hd [OF S False] False ring_entries [OF R, of "hd as"] by auto
    obtain x ys where xs: "as = x # ys" using False by (cases as) auto
    then have rp: "entry_prev (item_at st (root st)) = last as" using S by (auto simp: item_at_def)
    let ?h1 = "(entries st)(a \<mapsto> ?e\<lparr>entry_prev := last as, entry_next := root st\<rparr>)"
    let ?h = "relink (last as) a (root st) a ?h1"
    have l: "last as \<in> set as" "last as \<noteq> a" "root st \<noteq> a" using False a(1) r(1) last_in_set by metis+
    have seg: "segment ?h (last as) a (a # as) (last as) a"
      using put_links [OF False S D(1) a] segment_cong put_links [of as "(entries st)(a \<mapsto> ?e)" "root st" a ?e] False S D(1) a
      by (metis (no_types, lifting) fun_upd_same fun_upd_other fun_upd_upd)
    have "put_item a st = Inr (st\<lparr>cas_count := ?c, entries := ?h, root := a\<rparr>)"
      using a(2) r l ne [OF r(1)] ne [OF l(1)] rp
      by (simp add: put_item_def update_cas_def update_def deref_def Let_def relink_def)
    moreover have "dom ?h = dom (entries st)" unfolding relink_dom using a(2) by auto
    moreover have "\<exists>e'. ?h x = Some e' \<and> same_item (item_at st x) e'" if "x \<in> set as" for x
    proof -
      have "x \<noteq> a" using a(1) that by auto
      then have "?h1 x = Some (item_at st x)" using ne [OF that] by simp
      from relink_item [of ?h1, OF this, of "last as" a "root st" a] show ?thesis unfolding same_item_def .
    qed
    moreover have "\<exists>e'. ?h a = Some e' \<and> same_item ?e e'"
      using relink_item [of ?h1 a "?e\<lparr>entry_prev := last as, entry_next := root st\<rparr>" "last as" a "root st" a] by (auto simp: same_item_def)
    ultimately show ?thesis using seg False by (intro exI [of _ ?h]) simp
  qed
  then obtain h where h: "put_item a st = Inr (st\<lparr>cas_count := ?c, entries := h, root := a\<rparr>)" "segment h (last (a # as)) a (a # as) (last (a # as)) a"
      "dom h = dom (entries st)" "\<forall>x \<in> set as. \<exists>e'. h x = Some e' \<and> same_item (item_at st x) e'" "\<exists>e'. h a = Some e' \<and> same_item ?e e'"
    by blast
  let ?st = "st\<lparr>cas_count := ?c, entries := h, root := a\<rparr>"
  have K: "same_item (item_at st x) (item_at ?st x)" if "x \<in> set as" for x using h(4) that by (auto simp: item_at_def)
  have Ka: "same_item ?e (item_at ?st a)" using h(5) by (auto simp: item_at_def)
  have keys: "map (\<lambda>x. item_key (item_at ?st x)) as = map (\<lambda>x. item_key (item_at st x)) as" using K by (simp add: same_item_def)
  have "item_key (item_at ?st a) = item_key e" using Ka by (simp add: same_item_def)
  then have "distinct (map (\<lambda>x. item_key (item_at ?st x)) (a # as))" using D(2) k unfolding list.map keys by simp
  then have "ring ?st (a # as)" unfolding ring_def using h(2,3) D a(1) by simp
  then show ?thesis using h(1) K Ka by (auto simp: keeps_def)
qed

lemma held_split:
  assumes "held st as key = Some a"
  shows "\<exists>us vs. as = us @ a # vs \<and> item_key (item_at st a) = key"
  using assms unfolding held_def find_Some_iff by (metis id_take_nth_drop)

lemma delete_links:
  assumes S: "segment h (last (us @ a # vs)) r (us @ a # vs) (last (us @ a # vs)) r" and d: "distinct (us @ a # vs)" and ne: "vs @ us \<noteq> []"
  shows "\<exists>e. h a = Some e \<and> entry_next e = hd (vs @ us) \<and> entry_prev e = last (vs @ us) \<and> entry_next e \<noteq> a \<and>
    segment (relink (last (vs @ us)) (hd (vs @ us)) (hd (vs @ us)) (last (vs @ us)) h) (last (vs @ us)) (hd (vs @ us)) (vs @ us) (last (vs @ us)) (hd (vs @ us))"
proof -
  let ?l = "last (us @ a # vs)"
  obtain m c where 1: "segment h ?l r us m c" "segment h m c (a # vs) ?l r" using S unfolding segment_append by blast
  then obtain e where e: "c = a" "h a = Some e" "entry_prev e = m" "segment h a (entry_next e) vs ?l r" by auto
  have W: "segment h a (entry_next e) (vs @ us) m a" unfolding segment_append using e 1(1) by blast
  have n: "entry_next e = hd (vs @ us)" by (rule segment_hd [OF W ne])
  have p: "m = last (vs @ us)" by (rule segment_last [OF W ne])
  have dw: "distinct (vs @ us)" "a \<notin> set (vs @ us)" using d by auto
  have "entry_next e \<noteq> a" using n hd_in_set [OF ne] dw(2) by metis
  then show ?thesis using e(2,3) n p segment_relink [OF W ne dw(1), of "hd (vs @ us)" "last (vs @ us)"] by auto
qed

lemma delete_item_ok:
  assumes R: "ring st as" and H: "held st as key = Some a"
  shows "\<exists>st' us vs. as = us @ a # vs \<and> delete_item key st = Inr (True, st') \<and> ring st' (vs @ us) \<and> keeps st st' (set as - {a}) \<and>
    (\<forall>x. x \<notin> set as \<longrightarrow> entries st' x = entries st x) \<and> brk st' = brk st \<and> cas_count st' = cas_count st"
proof -
  obtain us vs where as: "as = us @ a # vs" "item_key (item_at st a) = key" using held_split [OF H] by blast
  have a: "a \<in> set as" using as by simp
  have ae: "entries st a = Some (item_at st a)" "a \<noteq> 0" using ring_entries [OF R a] by auto
  have D: "distinct as" "distinct (map (\<lambda>x. item_key (item_at st x)) as)" "0 < brk st" "\<forall>x \<in> dom (entries st). 0 < x \<and> x < brk st" using R by (auto simp: ring_def)
  have S: "segment (entries st) (last as) (root st) as (last as) (root st)" using R as by (auto simp: ring_def)
  have g: "get_item key st = Inr a" using get_item_ok [OF R] H by simp
  have dw: "distinct (vs @ us)" "a \<notin> set (vs @ us)" "set (vs @ us) = set as - {a}" using D(1) as by auto
  have main: "\<exists>h r. delete_item key st = Inr (True, st\<lparr>root := r, entries := h(a := None)\<rparr>) \<and> dom h = dom (entries st) \<and>
      (\<forall>x \<in> dom (entries st). \<exists>e'. h x = Some e' \<and> same_item (item_at st x) e') \<and> (\<forall>x. x \<notin> set as \<longrightarrow> h x = entries st x) \<and>
      (if vs @ us = [] then r = 0 else segment h (last (vs @ us)) r (vs @ us) (last (vs @ us)) r)"
  proof (cases "vs @ us = []")
    case True
    then have "entry_next (item_at st a) = a" using S ae as by auto
    then have "delete_item key st = Inr (True, st\<lparr>root := 0, entries := (entries st)(a := None)\<rparr>)" using g ae by (simp add: delete_item_def deref_def)
    moreover have "\<exists>e'. entries st x = Some e' \<and> same_item (item_at st x) e'" if "x \<in> dom (entries st)" for x
      using that by (auto simp: item_at_def same_item_def)
    ultimately show ?thesis using True by (intro exI [of _ "entries st"] exI [of _ 0]) simp
  next
    case False
    let ?n = "hd (vs @ us)" and ?p = "last (vs @ us)"
    let ?h = "relink ?p ?n ?n ?p (entries st)"
    have L: "entry_next (item_at st a) = ?n" "entry_prev (item_at st a) = ?p" "?n \<noteq> a" "segment ?h ?p ?n (vs @ us) ?p ?n"
      using delete_links [of "entries st" us a vs "root st"] S D(1) False ae(1) unfolding as(1) by auto
    have np: "?n \<in> set as" "?p \<in> set as" using False dw(3) hd_in_set [OF False] last_in_set [OF False] by auto
    note np' = np [THEN ring_entries [OF R], THEN conjunct1]
    have "delete_item key st = Inr (True, st\<lparr>root := ?n, entries := ?h(a := None)\<rparr>)"
      using g ae L(1-3) np' by (simp add: delete_item_def deref_def update_def Let_def relink_def)
    moreover have "\<exists>e'. ?h x = Some e' \<and> same_item (item_at st x) e'" if "x \<in> dom (entries st)" for x
    proof -
      have "entries st x = Some (item_at st x)" using that by (auto simp: item_at_def)
      from relink_item [of "entries st", OF this, of ?p ?n ?n ?p] show ?thesis unfolding same_item_def .
    qed
    moreover have "?h x = entries st x" if "x \<notin> set as" for x by (rule relink_other) (use np that in auto)
    moreover have "dom ?h = dom (entries st)" by (rule relink_dom)
    ultimately show ?thesis using L(4) False by (intro exI [of _ ?h] exI [of _ ?n]) auto
  qed
  then obtain h r where h: "delete_item key st = Inr (True, st\<lparr>root := r, entries := h(a := None)\<rparr>)" "dom h = dom (entries st)"
      "\<forall>x \<in> dom (entries st). \<exists>e'. h x = Some e' \<and> same_item (item_at st x) e'" "\<forall>x. x \<notin> set as \<longrightarrow> h x = entries st x"
      "if vs @ us = [] then r = 0 else segment h (last (vs @ us)) r (vs @ us) (last (vs @ us)) r" by (elim exE conjE) (rule that)
  let ?st = "st\<lparr>root := r, entries := h(a := None)\<rparr>"
  have K: "same_item (item_at st x) (item_at ?st x)" if x: "x \<in> set (vs @ us)" for x
  proof -
    have "x \<in> set as" "x \<noteq> a" using x dw(2,3) by auto
    moreover from this have "x \<in> dom (entries st)" using ring_entries [OF R] by auto
    ultimately obtain e' where "h x = Some e'" "same_item (item_at st x) e'" "x \<noteq> a" using h(3) by blast
    then show ?thesis by (simp add: item_at_def)
  qed
  have keys: "map (\<lambda>x. item_key (item_at ?st x)) (vs @ us) = map (\<lambda>x. item_key (item_at st x)) (vs @ us)" using K by (simp add: same_item_def)
  have "distinct (map (\<lambda>x. item_key (item_at st x)) (vs @ us))" using D(2) unfolding as(1) by auto
  then have "distinct (map (\<lambda>x. item_key (item_at ?st x)) (vs @ us))" unfolding keys .
  moreover have "segment (h(a := None)) (last (vs @ us)) r (vs @ us) (last (vs @ us)) r" if ne: "vs @ us \<noteq> []"
  proof (rule segment_cong)
    show "segment h (last (vs @ us)) r (vs @ us) (last (vs @ us)) r" using h(5) ne by simp
    fix x assume "x \<in> set (vs @ us)"
    then show "(h(a := None)) x = h x" using dw(2) by auto
  qed
  moreover have "\<forall>x \<in> dom (h(a := None)). 0 < x \<and> x < brk st" using D(4) h(2) by auto
  ultimately have "ring ?st (vs @ us)" using dw(1) D(3) h(5) unfolding ring_def by (cases "vs @ us = []") simp_all
  moreover have "keeps st ?st (set as - {a})" using K unfolding dw(3) [symmetric] by (simp add: keeps_def)
  moreover have "entries ?st x = entries st x" if "x \<notin> set as" for x using h(4) that a by auto
  ultimately show ?thesis using h(1) as(1) by (intro exI [of _ ?st] exI [of _ us] exI [of _ vs]) simp
qed

lemma delete_item_none: "ring st as \<Longrightarrow> held st as key = None \<Longrightarrow> delete_item key st = Inr (False, st)"
  using get_item_ok [of st as key] by (simp add: delete_item_def)

section \<open>The abstract store\<close>

text \<open>
  What the clients of the storage see: a map from keys to values, flags, expiration times and cas numbers.
  \<open>represents st m\<close> says that the ring of \<open>st\<close> is well formed and holds \<open>m\<close>.
\<close>

type_synonym content = "byte list \<times> 32 word \<times> int \<times> 64 word"

definition content :: "list_entry \<Rightarrow> content" where
  "content e = (item_data e, item_flags e, item_exp e, item_cas e)"

definition view :: "storage \<Rightarrow> nat list \<Rightarrow> string \<rightharpoonup> content" where
  "view st as = map_of (map (\<lambda>a. (item_key (item_at st a), content (item_at st a))) as)"

definition represents :: "storage \<Rightarrow> (string \<rightharpoonup> content) \<Rightarrow> bool" where
  "represents st m \<longleftrightarrow> (\<exists>as. ring st as \<and> view st as = m)"

lemma same_content: "same_item e e' \<Longrightarrow> content e' = content e \<and> item_key e' = item_key e"
  by (simp add: same_item_def content_def)

lemma keeps_view:
  assumes "keeps st st' (set as)"
  shows "view st' as = view st as"
proof -
  have "map (\<lambda>a. (item_key (item_at st' a), content (item_at st' a))) as = map (\<lambda>a. (item_key (item_at st a), content (item_at st a))) as"
    using assms same_content by (auto simp: keeps_def)
  then show ?thesis unfolding view_def by (rule arg_cong)
qed

lemma held_view:
  "view st as key = map_option (\<lambda>a. content (item_at st a)) (held st as key)"
  unfolding view_def held_def by (induction as) auto

lemma held_key: "held st as key = Some a \<Longrightarrow> a \<in> set as \<and> item_key (item_at st a) = key"
  unfolding held_def by (auto simp: find_Some_iff)

lemma view_some:
  assumes "ring st as"
  shows "view st as k = Some c \<longleftrightarrow> (\<exists>a \<in> set as. item_key (item_at st a) = k \<and> content (item_at st a) = c)"
proof -
  have "distinct (map fst (map (\<lambda>a. (item_key (item_at st a), content (item_at st a))) as))"
    using assms by (simp add: ring_def comp_def)
  from map_of_eq_Some_iff [OF this, of k c] show ?thesis unfolding view_def by auto
qed

lemma view_delete:
  assumes R: "ring st as" "ring st' bs" and a: "a \<in> set as" "set bs = set as - {a}" and K: "keeps st st' (set bs)"
  shows "view st' bs = (view st as)(item_key (item_at st a) := None)"
proof (rule ext)
  fix k
  have D: "inj_on (\<lambda>x. item_key (item_at st x)) (set as)" using R(1) by (simp add: ring_def distinct_map)
  have "view st' bs k = Some c \<longleftrightarrow> ((view st as)(item_key (item_at st a) := None)) k = Some c" for c
  proof -
    have "view st' bs k = Some c \<longleftrightarrow> (\<exists>x \<in> set bs. item_key (item_at st x) = k \<and> content (item_at st x) = c)"
    proof -
      have "item_key (item_at st' x) = item_key (item_at st x) \<and> content (item_at st' x) = content (item_at st x)" if "x \<in> set bs" for x
        using K that same_content [of "item_at st x" "item_at st' x"] by (simp add: keeps_def)
      then show ?thesis unfolding view_some [OF R(2)] by auto
    qed
    also have "\<dots> \<longleftrightarrow> k \<noteq> item_key (item_at st a) \<and> (\<exists>x \<in> set as. item_key (item_at st x) = k \<and> content (item_at st x) = c)"
      using D a unfolding inj_on_def by auto
    finally show ?thesis unfolding view_some [OF R(1), symmetric] by auto
  qed
  then show "view st' bs k = ((view st as)(item_key (item_at st a) := None)) k" by (metis option.exhaust)
qed

section \<open>The operations refine the map\<close>

lemma delete_item_represents:
  assumes "represents st m"
  shows "\<exists>st'. delete_item key st = Inr (m key \<noteq> None, st') \<and> represents st' (m(key := None)) \<and> allocs st' = allocs st \<and> cas_count st' = cas_count st"
proof -
  obtain as where R: "ring st as" and v: "view st as = m" using assms unfolding represents_def by blast
  show ?thesis
  proof (cases "held st as key")
    case None
    then have "m key = None" using held_view [of st as key] v by simp
    then have "m(key := None) = m" by auto
    then show ?thesis using delete_item_none [OF R None] assms \<open>m key = None\<close> by simp
  next
    case (Some a)
    note K = held_key [OF Some]
    obtain st' us vs where D: "as = us @ a # vs" "delete_item key st = Inr (True, st')" "ring st' (vs @ us)" "keeps st st' (set as - {a})"
        "cas_count st' = cas_count st" using delete_item_ok [OF R Some] by blast
    have s: "set (vs @ us) = set as - {a}" using R unfolding D(1) ring_def by auto
    have "keeps st st' (set (vs @ us))" unfolding s by (rule D(4))
    from view_delete [OF R D(3) conjunct1 [OF K] s this] have "view st' (vs @ us) = m(key := None)" using K v by simp
    then have "represents st' (m(key := None))" using D(3) unfolding represents_def by blast
    moreover have "m key \<noteq> None" using held_view [of st as key] v Some by auto
    ultimately show ?thesis using D(2,4,5) by (auto simp: keeps_def)
  qed
qed

text \<open>The new entry is in memory and not in the ring yet.\<close>

lemma put_represents:
  assumes R: "ring st as" and a: "a \<notin> set as" "entries st a = Some e" and k: "view st as (item_key e) = None" and a0: "0 < a"
  shows "\<exists>st'. store_new a st = Inr (PROTOCOL_BINARY_RESPONSE_SUCCESS, Some (cas_count st + 1), st') \<and>
    represents st' ((view st as)(item_key e \<mapsto> (item_data e, item_flags e, item_exp e, cas_count st + 1))) \<and> allocs st' = allocs st \<and> cas_count st' = cas_count st + 1"
proof -
  have "item_key e \<notin> (\<lambda>x. item_key (item_at st x)) ` set as"
    using k unfolding view_def map_of_eq_None_iff by (simp add: image_image)
  from put_item_ok [OF R a this] obtain st' where P: "put_item a st = Inr st'" "ring st' (a # as)" "keeps st st' (set as)"
    "same_item (e\<lparr>item_cas := cas_count st + 1\<rparr>) (item_at st' a)" "cas_count st' = cas_count st + 1" by blast
  have e: "entries st' a = Some (item_at st' a)" using ring_entries [OF P(2)] by simp
  have "view st' (a # as) = (view st' as)(item_key e \<mapsto> content (e\<lparr>item_cas := cas_count st + 1\<rparr>))"
    using same_content [OF P(4)] unfolding view_def by simp
  also have "view st' as = view st as" by (rule keeps_view [OF P(3)])
  also have "content (e\<lparr>item_cas := cas_count st + 1\<rparr>) = (item_data e, item_flags e, item_exp e, cas_count st + 1)" by (simp add: content_def)
  finally have "represents st' ((view st as)(item_key e \<mapsto> (item_data e, item_flags e, item_exp e, cas_count st + 1)))"
    using P(2) unfolding represents_def by blast
  moreover have "item_cas (item_at st' a) = cas_count st + 1" using P(4) by (simp add: same_item_def)
  ultimately show ?thesis using P(1,3,5) e a0 by (auto simp: store_new_def deref_def keeps_def)
qed

lemma store_represents:
  assumes M: "represents st m" and m: "allocs st = []" "m key = None"
  shows "\<exists>st'. (let (item, st) = create_item key (Some data) (length data) flags exptime st in store_new item st) =
      Inr (PROTOCOL_BINARY_RESPONSE_SUCCESS, Some (cas_count st + 1), st') \<and>
    represents st' (m(key \<mapsto> (data, flags, exptime, cas_count st + 1))) \<and> allocs st' = [] \<and> cas_count st' = cas_count st + 1"
proof -
  obtain as where R: "ring st as" and v: "view st as = m" using M unfolding represents_def by blast
  let ?e = "new_entry key (Some data) (length data) flags exptime st"
  note C = ring_new [OF R]
  have v': "view (with_new ?e st) as = m" using keeps_view [OF C(4) [of ?e]] v by simp
  have e: "item_key ?e = key" "item_data ?e = data" "item_flags ?e = flags" "item_exp ?e = exptime" by (simp_all add: new_entry_def)
  have "view (with_new ?e st) as (item_key ?e) = None" using m(2) v' e(1) by simp
  from put_represents [OF C(1) [of ?e] C(2) with_new_fields(5) this C(3)] show ?thesis using m(1) create_item_new [OF m(1)] v' unfolding e by simp
qed

section \<open>The handlers refine the map\<close>

lemma get_item_represents:
  assumes "represents st m"
  shows "m key = None \<Longrightarrow> get_item key st = Inr 0"
    "m key = Some c \<Longrightarrow> \<exists>item e. get_item key st = Inr item \<and> item \<noteq> 0 \<and> deref item st = Inr e \<and> content e = c \<and> item_key e = key"
proof -
  obtain as where R: "ring st as" and v: "view st as = m" using assms unfolding represents_def by blast
  note G = get_item_ok [OF R, of key] and V = held_view [of st as key, unfolded v]
  show "m key = None \<Longrightarrow> get_item key st = Inr 0" using G V by simp
  show "\<exists>item e. get_item key st = Inr item \<and> item \<noteq> 0 \<and> deref item st = Inr e \<and> content e = c \<and> item_key e = key" if k: "m key = Some c"
  proof -
    obtain a where a: "held st as key = Some a" "content (item_at st a) = c" using V k by (cases "held st as key") auto
    have "entries st a = Some (item_at st a)" "a \<noteq> 0" using ring_entries [OF R conjunct1 [OF held_key [OF a(1)]]] by auto
    then show ?thesis using G a held_key [OF a(1)] by (auto simp: deref_def)
  qed
qed

lemma get_handler_represents:
  assumes "represents st m"
  shows "get_handler key st = Inr (case m key of None \<Rightarrow> (PROTOCOL_BINARY_RESPONSE_KEY_ENOENT, None)
    | Some (d, f, x, c) \<Rightarrow> (PROTOCOL_BINARY_RESPONSE_SUCCESS, Some (d, f, c)))"
proof (cases "m key")
  case None
  then show ?thesis using get_item_represents(1) [OF assms None] by (simp add: get_handler_def)
next
  case (Some c)
  from get_item_represents(2) [OF assms Some] show ?thesis using Some by (auto simp: get_handler_def content_def)
qed

lemma delete_handler_represents:
  assumes M: "represents st m"
  shows "\<exists>st'. delete_handler key cas st =
      Inr (if m key = None then PROTOCOL_BINARY_RESPONSE_KEY_ENOENT
           else if cas \<noteq> 0 \<and> map_option (\<lambda>(d, f, x, c). c) (m key) \<noteq> Some cas then PROTOCOL_BINARY_RESPONSE_KEY_EEXISTS
           else PROTOCOL_BINARY_RESPONSE_SUCCESS, st') \<and>
    represents st' (if cas \<noteq> 0 \<and> map_option (\<lambda>(d, f, x, c). c) (m key) \<noteq> Some cas then m else m(key := None)) \<and> allocs st' = allocs st \<and>
    cas_count st' = cas_count st"
proof -
  obtain st' where D: "delete_item key st = Inr (m key \<noteq> None, st')" "represents st' (m(key := None))" "allocs st' = allocs st" "cas_count st' = cas_count st"
    using delete_item_represents [OF M] by blast
  show ?thesis
  proof (cases "m key")
    case None
    then have e: "m(key := None) = m" by auto
    show ?thesis using None D get_item_represents(1) [OF M None] unfolding e by (auto simp: delete_handler_def)
  next
    case (Some c)
    from get_item_represents(2) [OF M Some] obtain item e where
      G: "get_item key st = Inr item" "item \<noteq> 0" "deref item st = Inr e" "content e = c" by blast
    then have "map_option (\<lambda>(d, f, x, c). c) (m key) = Some (item_cas e)" using Some by (auto simp: content_def)
    then show ?thesis using Some D G M by (cases "cas \<noteq> 0 \<and> item_cas e \<noteq> cas") (auto simp: delete_handler_def)
  qed
qed

lemma delete_store:
  assumes M: "represents st m" and m: "allocs st = []"
  shows "\<exists>st'. run_bind (delete_item key st) (\<lambda>(found, st). let (item, st) = create_item key (Some data) (length data) flags exptime st in store_new item st) =
      Inr (PROTOCOL_BINARY_RESPONSE_SUCCESS, Some (cas_count st + 1), st') \<and>
    represents st' (m(key \<mapsto> (data, flags, exptime, cas_count st + 1))) \<and> allocs st' = [] \<and> cas_count st' = cas_count st + 1"
proof -
  obtain s1 where D: "delete_item key st = Inr (m key \<noteq> None, s1)" "represents s1 (m(key := None))" "allocs s1 = []" "cas_count s1 = cas_count st"
    using delete_item_represents [OF M] m by auto
  show ?thesis using store_represents [OF D(2,3), of key data flags exptime] D(1,4) by simp
qed

definition cas_differs :: "64 word \<Rightarrow> content option \<Rightarrow> bool" where
  "cas_differs cas c \<longleftrightarrow> cas \<noteq> 0 \<and> (case c of None \<Rightarrow> False | Some (d, f, x, c) \<Rightarrow> c \<noteq> cas)"

lemma set_handler_represents:
  assumes M: "represents st m" and m: "allocs st = []"
  shows "\<exists>st'. set_handler key data flags exptime cas st =
      Inr (if cas_differs cas (m key) then (PROTOCOL_BINARY_RESPONSE_KEY_EEXISTS, None, st')
           else (PROTOCOL_BINARY_RESPONSE_SUCCESS, Some (cas_count st + 1), st')) \<and>
    represents st' (if cas_differs cas (m key) then m else m(key \<mapsto> (data, flags, exptime, cas_count st + 1))) \<and> allocs st' = [] \<and>
    cas_count st' = (if cas_differs cas (m key) then cas_count st else cas_count st + 1)"
proof -
  obtain s2 where S: "run_bind (delete_item key st) (\<lambda>(found, st). let (item, st) = create_item key (Some data) (length data) flags exptime st in store_new item st) =
      Inr (PROTOCOL_BINARY_RESPONSE_SUCCESS, Some (cas_count st + 1), s2)"
    "represents s2 (m(key \<mapsto> (data, flags, exptime, cas_count st + 1)))" "allocs s2 = []" "cas_count s2 = cas_count st + 1"
    using delete_store [OF M m] by blast
  show ?thesis
  proof (cases "m key")
    case None
    then show ?thesis using S get_item_represents(1) [OF M None] by (auto simp: set_handler_def cas_differs_def)
  next
    case (Some c)
    from get_item_represents(2) [OF M Some] obtain item e where
      G: "get_item key st = Inr item" "item \<noteq> 0" "deref item st = Inr e" "content e = c" by blast
    then have "cas_differs cas (m key) \<longleftrightarrow> cas \<noteq> 0 \<and> cas \<noteq> item_cas e" using Some by (auto simp: content_def cas_differs_def)
    then show ?thesis using S G M m by (cases "cas \<noteq> 0 \<and> cas \<noteq> item_cas e") (auto simp: set_handler_def)
  qed
qed

lemma add_handler_represents:
  assumes M: "represents st m" and m: "allocs st = []"
  shows "\<exists>st'. add_handler key data flags exptime st =
      Inr (if m key \<noteq> None then (PROTOCOL_BINARY_RESPONSE_KEY_EEXISTS, None, st')
           else (PROTOCOL_BINARY_RESPONSE_SUCCESS, Some (cas_count st + 1), st')) \<and>
    represents st' (if m key \<noteq> None then m else m(key \<mapsto> (data, flags, exptime, cas_count st + 1))) \<and> allocs st' = [] \<and>
    cas_count st' = (if m key \<noteq> None then cas_count st else cas_count st + 1)"
proof (cases "m key")
  case None
  then show ?thesis using store_represents [OF M m None, of data flags exptime] get_item_represents(1) [OF M None]
    by (auto simp: add_handler_def)
next
  case (Some c)
  from get_item_represents(2) [OF M Some] show ?thesis using Some M m by (auto simp: add_handler_def)
qed

lemma replace_handler_represents:
  assumes M: "represents st m" and m: "allocs st = []"
  shows "\<exists>st'. replace_handler key data flags exptime cas st =
      Inr (if m key = None then (PROTOCOL_BINARY_RESPONSE_KEY_ENOENT, None, st')
           else if cas_differs cas (m key) then (PROTOCOL_BINARY_RESPONSE_KEY_EEXISTS, None, st')
           else (PROTOCOL_BINARY_RESPONSE_SUCCESS, Some (cas_count st + 1), st')) \<and>
    represents st' (if m key = None \<or> cas_differs cas (m key) then m else m(key \<mapsto> (data, flags, exptime, cas_count st + 1))) \<and> allocs st' = [] \<and>
    cas_count st' = (if m key = None \<or> cas_differs cas (m key) then cas_count st else cas_count st + 1)"
proof -
  obtain s2 where S: "run_bind (delete_item key st) (\<lambda>(found, st). let (item, st) = create_item key (Some data) (length data) flags exptime st in store_new item st) =
      Inr (PROTOCOL_BINARY_RESPONSE_SUCCESS, Some (cas_count st + 1), s2)"
    "represents s2 (m(key \<mapsto> (data, flags, exptime, cas_count st + 1)))" "allocs s2 = []" "cas_count s2 = cas_count st + 1"
    using delete_store [OF M m] by blast
  show ?thesis
  proof (cases "m key")
    case None
    then show ?thesis using M m get_item_represents(1) [OF M None] by (auto simp: replace_handler_def)
  next
    case (Some c)
    from get_item_represents(2) [OF M Some] obtain item e where
      G: "get_item key st = Inr item" "item \<noteq> 0" "deref item st = Inr e" "content e = c" by blast
    then have "cas_differs cas (m key) \<longleftrightarrow> cas \<noteq> 0 \<and> cas \<noteq> item_cas e" using Some by (auto simp: content_def cas_differs_def)
    then show ?thesis using S G M m Some by (cases "cas \<noteq> 0 \<and> cas \<noteq> item_cas e") (auto simp: replace_handler_def)
  qed
qed

text \<open>A value that is written into the new entry before it is put into the ring.\<close>

lemma update_new: "update (brk st) f (with_new e st) = Inr (with_new (f e) st)"
  by (simp add: update_def deref_def with_new_def)

lemma delete_put:
  assumes R: "ring st as" and a: "a \<notin> set as" "entries st a = Some e" "0 < a" and k: "item_key e = key"
  shows "\<exists>st'. run_bind (delete_item key st) (\<lambda>(found, st). store_new a st) = Inr (PROTOCOL_BINARY_RESPONSE_SUCCESS, Some (cas_count st + 1), st') \<and>
    represents st' ((view st as)(key \<mapsto> (item_data e, item_flags e, item_exp e, cas_count st + 1))) \<and> allocs st' = allocs st \<and> cas_count st' = cas_count st + 1"
proof (cases "held st as key")
  case None
  then have "view st as (item_key e) = None" using held_view [of st as key] k by simp
  from put_represents [OF R a(1,2) this a(3)] show ?thesis using delete_item_none [OF R None] k by simp
next
  case (Some x)
  note K = held_key [OF Some]
  obtain st' us vs where D: "as = us @ x # vs" "delete_item key st = Inr (True, st')" "ring st' (vs @ us)" "keeps st st' (set as - {x})"
      "\<forall>x. x \<notin> set as \<longrightarrow> entries st' x = entries st x" "cas_count st' = cas_count st" using delete_item_ok [OF R Some] by blast
  have s: "set (vs @ us) = set as - {x}" using R unfolding D(1) ring_def by auto
  have "keeps st st' (set (vs @ us))" unfolding s by (rule D(4))
  from view_delete [OF R D(3) conjunct1 [OF K] s this] have v: "view st' (vs @ us) = (view st as)(key := None)" using K by simp
  have a': "a \<notin> set (vs @ us)" "entries st' a = Some e" using a(1,2) s D(5) by auto
  have "view st' (vs @ us) (item_key e) = None" using v k by simp
  from put_represents [OF D(3) a' this a(3)] show ?thesis using D(2,4,6) v k by (auto simp: keeps_def)
qed

lemma concat_handler_represents:
  assumes M: "represents st m" and m: "allocs st = []"
  shows "\<exists>st'. concat_handler both key val cas st =
      Inr (if m key = None then (PROTOCOL_BINARY_RESPONSE_KEY_ENOENT, None, st')
           else if cas_differs cas (m key) then (PROTOCOL_BINARY_RESPONSE_KEY_EEXISTS, None, st')
           else (PROTOCOL_BINARY_RESPONSE_SUCCESS, Some (cas_count st + 1), st')) \<and>
    represents st' (case m key of None \<Rightarrow> m
      | Some (d, f, x, c) \<Rightarrow> if cas_differs cas (m key) then m else m(key \<mapsto> (both d val, f, x, cas_count st + 1))) \<and> allocs st' = [] \<and>
    cas_count st' = (if m key = None \<or> cas_differs cas (m key) then cas_count st else cas_count st + 1)"
proof (cases "m key")
  case None
  then show ?thesis using M m get_item_represents(1) [OF M None] by (auto simp: concat_handler_def)
next
  case (Some c)
  from get_item_represents(2) [OF M Some] obtain item e where
    G: "get_item key st = Inr item" "item \<noteq> 0" "deref item st = Inr e" "content e = c" by blast
  then have c: "c = (item_data e, item_flags e, item_exp e, item_cas e)" "cas_differs cas (m key) \<longleftrightarrow> cas \<noteq> 0 \<and> cas \<noteq> item_cas e"
    using Some by (auto simp: content_def cas_differs_def)
  show ?thesis
  proof (cases "cas_differs cas (m key)")
    case True
    then show ?thesis using G M m Some c by (auto simp: concat_handler_def)
  next
    case False
    obtain as where R: "ring st as" and v: "view st as = m" using M unfolding represents_def by blast
    let ?n = "(new_entry key None (length (item_data e) + length val) (item_flags e) (item_exp e) st)\<lparr>item_data := both (item_data e) val\<rparr>"
    have n: "item_key ?n = key" "item_data ?n = both (item_data e) val" "item_flags ?n = item_flags e" "item_exp ?n = item_exp e" by (simp_all add: new_entry_def)
    note N = ring_new [OF R]
    have v': "view (with_new ?n st) as = m" using keeps_view [OF N(4) [of ?n]] v by simp
    from delete_put [OF N(1) [of ?n] N(2) with_new_fields(5) N(3) n(1)] show ?thesis
      using False Some c G m create_item_new [OF m] N(3) unfolding v' n by (auto simp: concat_handler_def update_new)
  qed
qed

lemma store_counter:
  assumes M: "represents st m" and m: "allocs st = []" "m key = None"
  shows "\<exists>st'. (let (item, st) = create_item key None 8 fl x st
        in if item = 0 then Inr (None, PROTOCOL_BINARY_RESPONSE_ENOMEM, None, st)
           else run_bind (update item (\<lambda>n. n\<lparr>item_data := counter_bytes val\<rparr>) st) (\<lambda>st. run_bind (store_new item st) (\<lambda>a. Inr (Some val, a)))) =
      Inr (Some val, PROTOCOL_BINARY_RESPONSE_SUCCESS, Some (cas_count st + 1), st') \<and>
    represents st' (m(key \<mapsto> (counter_bytes val, fl, x, cas_count st + 1))) \<and> allocs st' = [] \<and> cas_count st' = cas_count st + 1"
proof -
  obtain as where R: "ring st as" and v: "view st as = m" using M unfolding represents_def by blast
  let ?n = "(new_entry key None 8 fl x st)\<lparr>item_data := counter_bytes val\<rparr>"
  have n: "item_key ?n = key" "item_data ?n = counter_bytes val" "item_flags ?n = fl" "item_exp ?n = x" by (simp_all add: new_entry_def)
  note N = ring_new [OF R]
  have v': "view (with_new ?n st) as = m" using keeps_view [OF N(4) [of ?n]] v by simp
  have "view (with_new ?n st) as (item_key ?n) = None" using m(2) v' n(1) by simp
  from put_represents [OF N(1) [of ?n] N(2) with_new_fields(5) this N(3)] show ?thesis
    using m(1) create_item_new [OF m(1)] N(3) unfolding v' n by (auto simp: update_new Let_def)
qed

lemma bit_le_word: "n < 64 \<Longrightarrow> bit (le_word bs) n \<longleftrightarrow> n div 8 < length bs \<and> bit (bs ! (n div 8)) (n mod 8)"
proof (induction bs arbitrary: n)
  case (Cons b bs)
  show ?case
  proof (cases "n < 8")
    case True
    then show ?thesis by (simp add: bit_or_iff bit_push_bit_iff bit_ucast_iff)
  next
    case False
    then have d: "n div 8 = Suc ((n - 8) div 8)" "n mod 8 = (n - 8) mod 8" by (simp_all add: le_div_geq le_mod_geq)
    have "\<not> bit b n" using False bit_imp_le_length [of b n] by auto
    then show ?thesis using Cons.IH [of "n - 8"] Cons.prems False unfolding d by (simp add: bit_or_iff bit_push_bit_iff bit_ucast_iff)
  qed
qed simp

lemma counter_round_trip: "counter_value (counter_bytes v) = Inr v"
proof -
  have l: "length (counter_bytes v) = 8" by (simp add: counter_bytes_def)
  have "le_word (counter_bytes v) = v"
  proof (rule bit_word_eqI)
    fix n assume "n < LENGTH(64)"
    then have n: "n < 64" by simp
    then have d: "n div 8 < 8" by simp
    have "bit (counter_bytes v ! (n div 8)) (n mod 8) = bit v (8 * (n div 8) + n mod 8)"
      using d by (simp add: counter_bytes_def bit_ucast_iff bit_drop_bit_eq)
    then show "bit (le_word (counter_bytes v)) n = bit v n" using bit_le_word [OF n, of "counter_bytes v"] l d by simp
  qed
  then show ?thesis using l by (simp add: counter_value_def)
qed

text \<open>The new value and the new expiration time of a counter, from what was stored.\<close>

definition counter_next :: "(64 word \<Rightarrow> 64 word \<Rightarrow> 64 word) \<Rightarrow> 64 word \<Rightarrow> 64 word \<Rightarrow> content option \<Rightarrow> 64 word" where
  "counter_next calc delta initial old = (case old of None \<Rightarrow> initial | Some (d, f, x, c) \<Rightarrow> calc (le_word (take 8 d)) delta)"

definition counter_expires :: "32 word \<Rightarrow> content option \<Rightarrow> 32 word" where
  "counter_expires expiration old = (case old of None \<Rightarrow> expiration | Some (d, f, x, c) \<Rightarrow> word_of_int x)"

lemma arithmetic_handler_represents:
  assumes M: "represents st m" and m: "allocs st = []"
    and d: "\<And>d f x c. m key = Some (d, f, x, c) \<Longrightarrow> 8 \<le> length d"
    and val: "val = counter_next calc delta initial (m key)" and expires: "expires = counter_expires expiration (m key)"
  shows "\<exists>st'. arithmetic_handler calc key delta initial expiration st = Inr (Some val, PROTOCOL_BINARY_RESPONSE_SUCCESS, Some (cas_count st + 1), st') \<and>
    represents st' (m(key \<mapsto> (counter_bytes val, 0, uint expires, cas_count st + 1))) \<and> allocs st' = [] \<and> cas_count st' = cas_count st + 1"
proof (cases "m key")
  case None
  then have e: "val = initial" "expires = expiration" by (simp_all add: val expires counter_next_def counter_expires_def)
  from store_counter [OF M m None, of 0 "uint expiration" initial] show ?thesis
    using get_item_represents(1) [OF M None] unfolding e by (auto simp: arithmetic_handler_def Let_def)
next
  case (Some c)
  from get_item_represents(2) [OF M Some] obtain item e where
    G: "get_item key st = Inr item" "item \<noteq> 0" "deref item st = Inr e" "content e = c" by blast
  then have c: "m key = Some (item_data e, item_flags e, item_exp e, item_cas e)" using Some by (auto simp: content_def)
  have e: "val = calc (le_word (take 8 (item_data e))) delta" "expires = word_of_int (item_exp e)" using c by (simp_all add: val expires counter_next_def counter_expires_def)
  obtain s1 where D: "delete_item key st = Inr (m key \<noteq> None, s1)" "represents s1 (m(key := None))" "allocs s1 = []" "cas_count s1 = cas_count st"
    using delete_item_represents [OF M] m by auto
  from store_counter [OF D(2,3), of key 0 "uint expires" val] show ?thesis
    using G D d [OF c] unfolding e by (auto simp: arithmetic_handler_def Let_def counter_value_def)
qed

text \<open>A counter that is shorter than eight bytes is read beyond its end.\<close>

lemma arithmetic_handler_short:
  assumes M: "represents st m" and k: "m key = Some (d, f, x, c)" "length d < 8"
  shows "arithmetic_handler calc key delta initial expiration st = Inl Undefined"
  using get_item_represents(2) [OF M k(1)] k(2) by (auto simp: arithmetic_handler_def counter_value_def content_def)

section \<open>Emptying the storage\<close>

lemma free_all_ok:
  assumes "segment (entries st) p (root st) xs z 0" "distinct xs" "0 \<notin> set xs" "length xs \<le> fuel"
  shows "\<exists>h. free_all fuel st = Inr (st\<lparr>root := 0, entries := h\<rparr>) \<and> (\<forall>x. h x = (if x \<in> set xs then None else entries st x))"
  using assms
proof (induction xs arbitrary: st p fuel)
  case Nil
  then have r: "root st = 0" by simp
  then have "free_all fuel st = Inr st" by (cases fuel) simp_all
  moreover have "st\<lparr>root := 0, entries := entries st\<rparr> = st" using r by (cases st) simp
  ultimately show ?case by (intro exI [of _ "entries st"]) simp
next
  case (Cons x xs)
  then obtain e where e: "root st = x" "entries st x = Some e" "segment (entries st) x (entry_next e) xs z 0" by auto
  obtain f where f: "fuel = Suc f" "length xs \<le> f" using Cons.prems(4) by (cases fuel) auto
  let ?st = "st\<lparr>root := entry_next e, entries := (entries st)(x := None)\<rparr>"
  have "segment ((entries st)(x := None)) x (entry_next e) xs z 0" by (rule segment_cong [OF e(3)]) (use Cons.prems(2) in auto)
  then have "segment (entries ?st) x (root ?st) xs z 0" by simp
  then obtain h where h: "free_all f ?st = Inr (?st\<lparr>root := 0, entries := h\<rparr>)" "\<forall>y. h y = (if y \<in> set xs then None else entries ?st y)"
  proof -
    assume S: "segment (entries ?st) x (root ?st) xs z 0"
    have "distinct xs" "0 \<notin> set xs" using Cons.prems(2,3) by auto
    from Cons.IH [OF S this f(2)] show ?thesis by (elim exE conjE) (rule that)
  qed
  have "x \<noteq> 0" using Cons.prems(3) by auto
  then have "free_all fuel st = Inr (st\<lparr>root := 0, entries := h\<rparr>)" using e f h(1) by (simp add: deref_def)
  moreover have "\<forall>y. h y = (if y \<in> set (x # xs) then None else entries st y)"
  proof
    fix y show "h y = (if y \<in> set (x # xs) then None else entries st y)" using h(2) [rule_format, of y] by simp
  qed
  ultimately show ?case by blast
qed

lemma flush_represents:
  assumes M: "represents st m"
  shows "\<exists>st'. flush st = Inr st' \<and> represents st' Map.empty \<and> allocs st' = allocs st \<and> cas_count st' = cas_count st"
proof -
  obtain as where R: "ring st as" using M unfolding represents_def by blast
  show ?thesis
  proof (cases "as = []")
    case True
    then have "root st = 0" "view st as = Map.empty" using R by (simp_all add: ring_def view_def)
    then show ?thesis using R unfolding represents_def by (auto simp: flush_def)
  next
    case False
    have S: "segment (entries st) (last as) (root st) as (last as) (root st)" "distinct as" "\<forall>a \<in> dom (entries st). 0 < a \<and> a < brk st" "0 < brk st"
      using R False by (auto simp: ring_def)
    have r: "root st = hd as" by (rule segment_hd [OF S(1) False])
    have re: "entries st (root st) = Some (item_at st (root st))" "root st \<noteq> 0" using ring_entries [OF R, of "root st"] r False by auto
    have le: "entries st (last as) = Some (item_at st (last as))" using ring_entries [OF R, of "last as"] False by auto
    have p: "entry_prev (item_at st (root st)) = last as" using S(1) re(1) False by (cases as) auto
    let ?st = "st\<lparr>entries := (entries st)(last as := map_option (\<lambda>e. e\<lparr>entry_next := 0\<rparr>) (entries st (last as)))\<rparr>"
    have "segment (entries ?st) (last as) (root ?st) as (last as) 0" using segment_next [OF S(1) False S(2), of 0] by simp
    moreover have "0 \<notin> set as" using ring_entries [OF R] by blast
    ultimately obtain h where h: "free_all (brk ?st) ?st = Inr (?st\<lparr>root := 0, entries := h\<rparr>)" "\<forall>x. h x = (if x \<in> set as then None else entries ?st x)"
      using free_all_ok [of ?st "last as" as "last as" "brk ?st"] S(2) ring_length [OF R] by auto
    have "h x = (if x \<in> set as then None else entries st x)" for x using h(2) last_in_set [OF False] by auto
    then have "\<forall>a \<in> dom h. 0 < a \<and> a < brk st" using S(3) by (auto split: if_splits)
    then have "ring (?st\<lparr>root := 0, entries := h\<rparr>) []" using S(4) by (simp add: ring_def)
    then have "represents (?st\<lparr>root := 0, entries := h\<rparr>) Map.empty" unfolding represents_def by (force simp: view_def)
    moreover have "flush st = Inr (?st\<lparr>root := 0, entries := h\<rparr>)" using re p le h(1) by (simp add: flush_def deref_def update_def)
    ultimately show ?thesis by (intro exI [of _ "?st\<lparr>root := 0, entries := h\<rparr>"]) simp
  qed
qed

end
