(* ===== verification/Galois_Shift.thy ===== *)
theory Galois_Shift
  imports C_Prelude
begin

unbundle bit_operations_syntax

text \<open>
  The table-free half of \<^verbatim>\<open>Jerasure-1.2A/galois.c\<close>: the constants (\<^verbatim>\<open>prim_poly\<close>, \<^verbatim>\<open>mult_type\<close>,
  \<^verbatim>\<open>nw\<close>, \<^verbatim>\<open>nwm1\<close>), the shift-and-add product \<^verbatim>\<open>galois_shift_multiply\<close>, the inversion of a
  binary matrix and the inverse and quotient built on it.

  The lemmas give the product its meaning.  With \<open>T\<close> multiplication by the polynomial \<open>x\<close>
  (\<open>shift_next\<close>), the product of \<open>a\<close> and \<open>b\<close> is the exclusive-or of \<open>T ^ i b\<close> over the bits
  \<open>i\<close> of \<open>a\<close>; it is bilinear, commutative and associative for every width and every polynomial,
  because everything commutes with the linear map \<open>T\<close>.
\<close>

section \<open>Constants\<close>

text \<open>The octal constants of the source, in decimal; entry \<open>w\<close> is the polynomial of width \<open>w\<close>.\<close>

definition prim_poly :: "nat \<Rightarrow> cint" where
  "prim_poly w = [0, 1, 7, 11, 19, 37, 67, 137, 285, 529, 1033, 2053, 4179, 8219, 17475, 32771,
     69643, 131081, 262273, 524327, 1048585, 2097157, 4194307, 8388641, 16777351, 33554441,
     67108935, 134217767, 268435465, 536870917, 1082130439, 2147483657, 4194311] ! w"

datatype mult_kind = NONE | TABLE | SHIFT | LOGS | SPLITW8

definition mult_type :: "nat \<Rightarrow> mult_kind" where
  "mult_type w = [NONE, TABLE, TABLE, TABLE, TABLE, TABLE, TABLE, TABLE, TABLE, TABLE,
     LOGS, LOGS, LOGS, LOGS, LOGS, LOGS, LOGS, LOGS, LOGS, LOGS, LOGS, LOGS, LOGS,
     SHIFT, SHIFT, SHIFT, SHIFT, SHIFT, SHIFT, SHIFT, SHIFT, SHIFT, SPLITW8] ! w"

definition nw :: "nat \<Rightarrow> cint" where
  "nw w = (if w = 0 then 0 else if w = 32 then -1 else push_bit w 1)"

definition nwm1 :: "nat \<Rightarrow> cint" where
  "nwm1 w = (if w = 0 then 0 else if w = 31 then 0x7fffffff
     else if w = 32 then 0xffffffff else push_bit w 1 - 1)"

section \<open>Shift multiplication\<close>

text \<open>One round of the first loop: what becomes of \<^verbatim>\<open>y\<close>.\<close>

definition shift_next :: "nat \<Rightarrow> cint \<Rightarrow> cint" where
  "shift_next w y =
     (if y AND push_bit (w - 1) 1 \<noteq> 0 then (push_bit 1 y XOR prim_poly w) AND nwm1 w
      else push_bit 1 y)"

definition shift_scratch :: "nat \<Rightarrow> cint \<Rightarrow> cint list" where
  "shift_scratch w y =
     snd (fold (\<lambda>i (y, scratch). (shift_next w y, scratch[i := y])) [0..<w] (y, replicate 33 0))"

definition galois_shift_multiply :: "cint \<Rightarrow> cint \<Rightarrow> nat \<Rightarrow> cint" where
  "galois_shift_multiply x y w =
     (let scratch = shift_scratch w y
      in fold (\<lambda>i prod.
           let ind = push_bit i 1
           in if ind AND x \<noteq> 0
              then fst (fold (\<lambda>k (prod, j). (prod XOR (j AND scratch ! i), push_bit 1 j))
                          [0..<w] (prod, 1))
              else prod) [0..<w] 0)"

section \<open>Inversion of a binary matrix, inverse and quotient\<close>

definition swap_at :: "nat \<Rightarrow> nat \<Rightarrow> 'a list \<Rightarrow> 'a list" where
  "swap_at i j xs = xs[i := xs ! j, j := xs ! i]"

text \<open>\<^verbatim>\<open>for (j = i; j < n && !p(j); j++) ;\<close> --- the value of \<^verbatim>\<open>j\<close> after the loop.\<close>

function scan_from :: "(nat \<Rightarrow> bool) \<Rightarrow> nat \<Rightarrow> nat \<Rightarrow> nat" where
  "scan_from p j n = (if j < n \<and> \<not> p j then scan_from p (Suc j) n else j)"
  by pat_completeness auto
termination
  by (relation "measure (\<lambda>(p, j, n). n - j)") auto

definition binmat_column ::
  "nat \<Rightarrow> nat \<Rightarrow> cint list \<times> cint list \<Rightarrow> fault + (cint list \<times> cint list)" where
  "binmat_column rows i mi =
     run_bind
       (case mi of (mat, iv) \<Rightarrow>
         if mat ! i AND push_bit i 1 = 0 then
           let j = scan_from (\<lambda>j. mat ! j AND push_bit i 1 \<noteq> 0) (i + 1) rows
           in if j = rows then Inl Exit else Inr (swap_at i j mat, swap_at i j iv)
         else Inr (mat, iv))
       (\<lambda>mi. Inr (fold (\<lambda>j (mat, iv).
           if mat ! j AND push_bit i 1 \<noteq> 0
           then (mat[j := mat ! j XOR mat ! i], iv[j := iv ! j XOR iv ! i])
           else (mat, iv)) [i + 1..<rows] mi))"

definition galois_invert_binary_matrix ::
  "cint list \<Rightarrow> nat \<Rightarrow> fault + (cint list \<times> cint list)" where
  "galois_invert_binary_matrix mat rows =
     run_bind
       (fold (\<lambda>i r. run_bind r (binmat_column rows i)) [0..<rows]
         (Inr (mat, map (\<lambda>i. push_bit i 1) [0..<rows])))
       (\<lambda>(mat, iv). Inr (mat,
          fold (\<lambda>i iv. fold (\<lambda>j iv.
              if mat ! j AND push_bit i 1 \<noteq> 0 then iv[j := iv ! j XOR iv ! i] else iv)
              [0..<i] iv) (rev [0..<rows]) iv))"

definition galois_shift_inverse :: "cint \<Rightarrow> nat \<Rightarrow> fault + cint" where
  "galois_shift_inverse y w =
     (let mat2 = snd (fold (\<lambda>i (y, mat2).
           ((if y AND nw (w - 1) \<noteq> 0 then (push_bit 1 y XOR prim_poly w) AND nwm1 w
             else push_bit 1 y), mat2[i := y])) [0..<w] (y, replicate 32 0))
      in run_bind (galois_invert_binary_matrix mat2 w) (\<lambda>(mat2, inv2). Inr (inv2 ! 0)))"

definition galois_shift_divide :: "cint \<Rightarrow> cint \<Rightarrow> nat \<Rightarrow> fault + cint" where
  "galois_shift_divide a b w =
     (if b = 0 then Inr (-1)
      else if a = 0 then Inr 0
      else run_bind (galois_shift_inverse b w)
             (\<lambda>inverse. Inr (galois_shift_multiply a inverse w)))"

section \<open>The ring of residues\<close>

definition gf_elem :: "nat \<Rightarrow> cint \<Rightarrow> bool" where
  "gf_elem w x \<longleftrightarrow> take_bit w x = x"

lemma gf_elem_bit: "gf_elem w x \<longleftrightarrow> (\<forall>n. bit x n \<longrightarrow> n < w)"
proof
  assume "gf_elem w x"
  then have "bit x n = bit (take_bit w x) n" for n by (simp add: gf_elem_def)
  then show "\<forall>n. bit x n \<longrightarrow> n < w" by (metis bit_take_bit_iff)
qed (auto simp: gf_elem_def bitsimps intro: bit_word_eqI)

lemma gf_elem_0 [simp]: "gf_elem w 0"
  by (simp add: gf_elem_def)

lemma gf_elem_1 [simp]: "0 < w \<Longrightarrow> gf_elem w 1"
  by (auto simp: gf_elem_bit bit_1_iff)

lemma gf_elem_xor [simp]: "gf_elem w x \<Longrightarrow> gf_elem w y \<Longrightarrow> gf_elem w (x XOR y)"
  by (auto simp: gf_elem_bit bitsimps)

lemma gf_elem_take_bit [simp]: "gf_elem w (take_bit w x)"
  by (simp add: gf_elem_def)

lemma gf_elem_xsum: "(\<And>i. i \<in> A \<Longrightarrow> gf_elem w (f i)) \<Longrightarrow> gf_elem w (xsum f A)"
  by (induction A rule: infinite_finite_induct) auto

lemma nwm1_mask: "1 \<le> w \<Longrightarrow> w \<le> 32 \<Longrightarrow> nwm1 w = mask w"
  by (auto simp: nwm1_def mask_eq_exp_minus_1 push_bit_of_1)

lemma shift_next_eq:
  assumes "1 \<le> w" "w \<le> 32" "gf_elem w y"
  shows "shift_next w y =
    take_bit w (push_bit 1 y XOR (if bit y (w - 1) then prim_poly w else 0))"
proof (cases "bit y (w - 1)")
  case True
  then show ?thesis using assms
    by (simp add: shift_next_def and_push_bit_1 nwm1_mask and_push_bit_1[simplified] flip: take_bit_eq_mask)
next
  case False
  have "n < w" if "bit (push_bit 1 y) n" for n
  proof -
    from that have "1 \<le> n" and b: "bit y (n - 1)"
      by (auto simp: bit_push_bit_iff)
    with assms(3) have "n - 1 < w" by (auto simp: gf_elem_bit)
    moreover have "n - 1 \<noteq> w - 1" using b False by auto
    ultimately show ?thesis using \<open>1 \<le> n\<close> by linarith
  qed
  then have "take_bit w (push_bit 1 y) = push_bit 1 y"
    by (auto intro!: bit_word_eqI simp: bit_take_bit_iff)
  then show ?thesis using False
    by (simp add: shift_next_def and_push_bit_1[simplified])
qed

lemma gf_elem_shift_next [simp]:
  "1 \<le> w \<Longrightarrow> w \<le> 32 \<Longrightarrow> gf_elem w y \<Longrightarrow> gf_elem w (shift_next w y)"
  by (simp add: shift_next_eq)

lemma shift_next_0 [simp]: "shift_next w 0 = 0"
  by (simp add: shift_next_def)

lemma shift_next_xor:
  assumes "1 \<le> w" "w \<le> 32" "gf_elem w x" "gf_elem w y"
  shows "shift_next w (x XOR y) = shift_next w x XOR shift_next w y"
  using assms by (auto intro!: bit_word_eqI simp: shift_next_eq bitsimps)

text \<open>The powers of \<open>T\<close>.\<close>

abbreviation shift_pow :: "nat \<Rightarrow> nat \<Rightarrow> cint \<Rightarrow> cint" where
  "shift_pow w n \<equiv> shift_next w ^^ n"

lemma gf_elem_shift_pow [simp]:
  "1 \<le> w \<Longrightarrow> w \<le> 32 \<Longrightarrow> gf_elem w y \<Longrightarrow> gf_elem w (shift_pow w n y)"
  by (induction n) auto

lemma shift_pow_0_right [simp]: "shift_pow w n 0 = 0"
  by (induction n) auto

lemma shift_pow_xor:
  assumes "1 \<le> w" "w \<le> 32" "gf_elem w x" "gf_elem w y"
  shows "shift_pow w n (x XOR y) = shift_pow w n x XOR shift_pow w n y"
  using assms by (induction n) (auto simp: shift_next_xor)

lemma shift_pow_1:
  assumes "1 \<le> w" "w \<le> 32"
  shows "n < w \<Longrightarrow> shift_pow w n 1 = push_bit n 1"
proof (induction n)
  case (Suc n)
  have "gf_elem w (push_bit n 1)" using Suc.prems
    by (auto simp: gf_elem_bit bitsimps bit_1_iff)
  moreover have "\<not> bit (push_bit n (1::cint)) (w - 1)"
    using Suc.prems by (auto simp: bitsimps bit_1_iff)
  ultimately show ?case using Suc assms
    by (auto intro!: bit_word_eqI simp: shift_next_eq bitsimps bit_1_iff)
qed simp

text \<open>The product of the field, by its bits, in the executable Horner form.\<close>

fun gf_mul_bits :: "nat \<Rightarrow> nat \<Rightarrow> cint \<Rightarrow> cint \<Rightarrow> cint" where
  "gf_mul_bits w 0 x y = 0"
| "gf_mul_bits w (Suc n) x y =
     (if bit x 0 then y else 0) XOR gf_mul_bits w n (drop_bit 1 x) (shift_next w y)"

definition gf_mul :: "nat \<Rightarrow> cint \<Rightarrow> cint \<Rightarrow> cint" where
  "gf_mul w x y = gf_mul_bits w w x y"

lemma gf_mul_bits_xsum:
  "gf_mul_bits w n x y = xsum (\<lambda>i. if bit x i then shift_pow w i y else 0) {..<n}"
proof (induction n arbitrary: x y)
  case (Suc n)
  have "xsum (\<lambda>i. if bit x i then shift_pow w i y else 0) {..<Suc n}
      = (if bit x 0 then y else 0) XOR
        xsum (\<lambda>i. if bit x (Suc i) then shift_pow w i (shift_next w y) else 0) {..<n}"
    by (subst xs.lessThan_Suc_shift) (simp add: funpow_swap1 cong: if_cong)
  also have "\<dots> = gf_mul_bits w (Suc n) x y"
    by (simp add: Suc.IH bit_drop_bit_eq)
  finally show ?case by simp
qed simp

lemma gf_mul_xsum:
  "gf_mul w x y = xsum (\<lambda>i. if bit x i then shift_pow w i y else 0) {..<w}"
  by (simp add: gf_mul_def gf_mul_bits_xsum)

lemma gf_elem_gf_mul [simp]:
  "1 \<le> w \<Longrightarrow> w \<le> 32 \<Longrightarrow> gf_elem w y \<Longrightarrow> gf_elem w (gf_mul w x y)"
  by (auto simp: gf_mul_xsum intro: gf_elem_xsum)

lemma gf_mul_0 [simp]: "gf_mul w 0 y = 0" "gf_mul w x 0 = 0"
  by (simp_all add: gf_mul_xsum cong: if_cong)

lemma gf_mul_xor_left: "gf_mul w (x XOR x') y = gf_mul w x y XOR gf_mul w x' y"
  unfolding gf_mul_xsum bit_xor_iff by (rule xsum_if_xor)

lemma gf_mul_xor_right:
  assumes "1 \<le> w" "w \<le> 32" "gf_elem w y" "gf_elem w y'"
  shows "gf_mul w x (y XOR y') = gf_mul w x y XOR gf_mul w x y'"
  unfolding gf_mul_xsum
  by (subst xs.distrib [symmetric], rule xs.cong) (use assms in \<open>auto simp: shift_pow_xor\<close>)

lemma shift_pow_xsum:
  assumes "1 \<le> w" "w \<le> 32" "\<And>i. i \<in> A \<Longrightarrow> gf_elem w (f i)"
  shows "shift_pow w n (xsum f A) = xsum (\<lambda>i. shift_pow w n (f i)) A"
  by (rule xsum_hom [where P = "gf_elem w", THEN conjunct1])
    (use assms in \<open>auto simp: shift_pow_xor\<close>)

lemma gf_mul_xsum_right:
  assumes "1 \<le> w" "w \<le> 32" "\<And>i. i \<in> A \<Longrightarrow> gf_elem w (f i)"
  shows "gf_mul w x (xsum f A) = xsum (\<lambda>i. gf_mul w x (f i)) A"
  by (rule xsum_hom [where P = "gf_elem w", THEN conjunct1])
    (use assms in \<open>auto simp: gf_mul_xor_right\<close>)

lemma word_xsum_bits:
  "gf_elem w y \<Longrightarrow> xsum (\<lambda>j. if bit y j then push_bit j 1 else 0) {..<w} = y"
proof (induction w arbitrary: y)
  case 0
  then show ?case by (simp add: gf_elem_def)
next
  case (Suc w)
  have "xsum (\<lambda>j. if bit y j then push_bit j 1 else 0) {..<w}
      = xsum (\<lambda>j. if bit (take_bit w y) j then push_bit j 1 else 0) {..<w}"
    by (rule xs.cong) (auto simp: bit_take_bit_iff)
  also have "\<dots> = take_bit w y" by (rule Suc.IH) simp
  finally have eq: "xsum (\<lambda>j. if bit y j then push_bit j 1 else 0) {..<Suc w}
      = take_bit w y XOR (if bit y w then push_bit w 1 else 0)" by simp
  show ?case unfolding eq
  proof (rule bit_word_eqI)
    fix n
    show "bit (take_bit w y XOR (if bit y w then push_bit w 1 else 0)) n = bit y n"
      using Suc.prems
      by (cases "n = w") (auto simp: bitsimps bit_1_iff gf_elem_bit less_Suc_eq dest: bit_imp_le_length)
  qed
qed

lemma gf_mul_1_right:
  assumes "1 \<le> w" "w \<le> 32" "gf_elem w x"
  shows "gf_mul w x 1 = x"
proof -
  have "gf_mul w x 1 = xsum (\<lambda>i. if bit x i then push_bit i 1 else 0) {..<w}"
    unfolding gf_mul_xsum by (rule xs.cong) (use assms in \<open>auto simp: shift_pow_1\<close>)
  also have "\<dots> = x" using assms(3) by (rule word_xsum_bits)
  finally show ?thesis .
qed

lemma gf_mul_shift_pow:
  assumes "1 \<le> w" "w \<le> 32" "gf_elem w y"
  shows "gf_mul w x (shift_pow w n y) = shift_pow w n (gf_mul w x y)"
  using assms
  by (auto simp: gf_mul_xsum shift_pow_xsum simp flip: funpow_add intro!: xs.cong)
    (metis add.commute comp_apply funpow_add)

lemma gf_mul_left_commute:
  assumes "1 \<le> w" "w \<le> 32" "gf_elem w y"
  shows "gf_mul w x (gf_mul w z y) = gf_mul w z (gf_mul w x y)"
  using assms
  by (subst (1 3) gf_mul_xsum)
    (auto simp: gf_mul_xsum_right gf_mul_shift_pow intro!: xs.cong)

lemma gf_mul_commute:
  assumes "1 \<le> w" "w \<le> 32" "gf_elem w x" "gf_elem w y"
  shows "gf_mul w x y = gf_mul w y x"
  using gf_mul_left_commute [of w 1 x y] assms by (simp add: gf_mul_1_right)

lemma gf_mul_1_left: "1 \<le> w \<Longrightarrow> w \<le> 32 \<Longrightarrow> gf_elem w x \<Longrightarrow> gf_mul w 1 x = x"
  by (simp add: gf_mul_commute [of w 1] gf_mul_1_right)

lemma gf_mul_assoc:
  assumes "1 \<le> w" "w \<le> 32" "gf_elem w x" "gf_elem w y" "gf_elem w z"
  shows "gf_mul w (gf_mul w x y) z = gf_mul w x (gf_mul w y z)"
proof -
  have "gf_mul w (gf_mul w x y) z = gf_mul w z (gf_mul w x y)"
    using assms by (simp add: gf_mul_commute)
  also have "\<dots> = gf_mul w x (gf_mul w z y)"
    using assms by (simp add: gf_mul_left_commute [of w y z x])
  also have "gf_mul w z y = gf_mul w y z"
    using assms by (simp add: gf_mul_commute)
  finally show ?thesis .
qed

section \<open>The shift product computes the ring product\<close>

lemma shift_scratch_nth:
  assumes "w \<le> 33" "i < w"
  shows "shift_scratch w y ! i = shift_pow w i y"
proof -
  let ?f = "\<lambda>i (y, scratch). (shift_next w y, scratch[i := y])"
  let ?P = "\<lambda>n s. fst s = shift_pow w n y \<and> length (snd s) = 33 \<and>
      (\<forall>j<n. snd s ! j = shift_pow w j y)"
  have "?P w (fold ?f [0..<w] (y, replicate 33 0))"
  proof (rule fold_upt_inv0 [where P = ?P])
    fix i s assume "i < w" and "?P i s"
    then show "?P (Suc i) (?f i s)"
      using assms(1) by (cases s) (simp add: nth_list_update less_Suc_eq)
  qed simp
  then show ?thesis using assms(2) by (simp add: shift_scratch_def)
qed

lemma shift_copy_loop:
  assumes "n \<le> 32"
  shows "fold (\<lambda>k (prod, j). (prod XOR (j AND s), push_bit 1 j)) [0..<n] (p, 1 :: cint)
     = (p XOR take_bit n s, push_bit n 1)"
proof -
  let ?f = "\<lambda>k (prod, j). (prod XOR (j AND s), push_bit 1 j)"
  let ?P = "\<lambda>n r. r = (p XOR take_bit n s, push_bit n (1::cint))"
  have "?P n (fold ?f [0..<n] (p, 1))"
  proof (rule fold_upt_inv0 [where P = ?P])
    fix i r assume "i < n" and r: "?P i r"
    have "take_bit i s XOR (push_bit i 1 AND s) = take_bit (Suc i) s"
      by (rule bit_word_eqI) (auto simp: bitsimps bit_1_iff less_Suc_eq)
    then show "?P (Suc i) (?f i r)"
      by (simp add: r xor.assoc)
  qed simp
  then show ?thesis .
qed

lemma galois_shift_multiply_eq:
  assumes "1 \<le> w" "w \<le> 32" "gf_elem w y"
  shows "galois_shift_multiply x y w = gf_mul w x y"
proof -
  let ?f = "\<lambda>i prod. let ind = push_bit i 1
           in if ind AND x \<noteq> 0
              then fst (fold (\<lambda>k (prod, j). (prod XOR (j AND shift_scratch w y ! i), push_bit 1 j))
                          [0..<w] (prod, 1))
              else prod"
  let ?P = "\<lambda>n prod. prod = xsum (\<lambda>i. if bit x i then shift_pow w i y else 0) {..<n}"
  have "?P w (fold ?f [0..<w] 0)"
  proof (rule fold_upt_inv0 [where P = ?P])
    fix i prod assume i: "i < w" and p: "?P i prod"
    have "push_bit i 1 AND x \<noteq> 0 \<longleftrightarrow> bit x i"
      by (subst and.commute) (rule and_push_bit_1)
    moreover have "take_bit w (shift_pow w i y) = shift_pow w i y"
      using assms gf_elem_shift_pow [of w y i] by (simp add: gf_elem_def)
    ultimately show "?P (Suc i) (?f i prod)"
      using assms i by (simp add: p shift_copy_loop shift_scratch_nth Let_def del: funpow.simps One_nat_def)
  qed simp
  then show ?thesis by (simp add: galois_shift_multiply_def gf_mul_xsum Let_def)
qed

end
