(* ===== verification/Galois_Field.thy ===== *)
theory Galois_Field
  imports Galois_Shift
begin
unbundle bit_operations_syntax

text \<open>
  The field behind the arithmetic.  For every width the library supports except 31 the
  polynomial of \<open>prim_poly\<close> is primitive: the powers \<open>T ^ n 1\<close>, for \<open>n < 2 ^ w - 1\<close>, are all the
  nonzero elements.  The proof evaluates \<open>T ^ (2 ^ w - 1) 1 = 1\<close> and \<open>T ^ ((2 ^ w - 1) / p) 1 \<noteq> 1\<close>
  for every prime factor \<open>p\<close> of \<open>2 ^ w - 1\<close> inside the logic.  The log tables of
  \<^verbatim>\<open>galois_create_log_tables\<close> rely on it, and every nonzero element has an inverse.

  Width 31 is left out of this theory only: \<open>2 ^ 31 - 1\<close> is a prime whose trial division is too
  long to evaluate here.  The ring laws of \<^verbatim>\<open>Galois_Shift\<close> hold for it.
\<close>

section \<open>Orders\<close>

definition is_prime :: "nat \<Rightarrow> bool" where
  "is_prime p \<longleftrightarrow> 1 < p \<and> (\<forall>d. d dvd p \<longrightarrow> d = 1 \<or> d = p)"

lemma prime_factor: "1 < (n::nat) \<Longrightarrow> \<exists>p. is_prime p \<and> p dvd n"
proof (induction n rule: less_induct)
  case (less n)
  show ?case
  proof (cases "is_prime n")
    case False
    then obtain d where d: "d dvd n" "d \<noteq> 1" "d \<noteq> n" using less.prems by (auto simp: is_prime_def)
    then have "d < n" using less.prems dvd_imp_le [of d n] by linarith
    moreover have "1 < d" using d less.prems by (cases d) auto
    ultimately show ?thesis using less.IH [of d] d(1) dvd_trans by blast
  qed auto
qed

lemma prime_dvd_mult:
  assumes "is_prime p" "p dvd a * b"
  shows "p dvd a \<or> p dvd b"
proof (cases "p dvd a")
  case False
  have "gcd p a dvd p" by simp
  then have "gcd p a = 1 \<or> gcd p a = p" using assms(1) by (auto simp: is_prime_def)
  moreover have "gcd p a \<noteq> p" using False by (metis gcd_dvd2)
  ultimately have "coprime p a" by (simp add: coprime_iff_gcd_eq_1)
  then show ?thesis using assms(2) by (simp add: coprime_dvd_mult_right_iff)
qed simp

lemma prime_dvd_prod_list: "is_prime p \<Longrightarrow> p dvd prod_list ps \<Longrightarrow> \<exists>q \<in> set ps. p dvd q"
proof (induction ps)
  case Nil
  then show ?case by (simp add: is_prime_def)
next
  case (Cons a ps)
  then show ?case using prime_dvd_mult [of p a "prod_list ps"] by auto
qed

text \<open>
  A sequence that returns to its start at exactly the multiples of some period: the powers of an
  invertible element.
\<close>

locale returning =
  fixes ret :: "nat \<Rightarrow> bool"
  assumes ret_0: "ret 0"
    and ret_add: "ret a \<Longrightarrow> ret (a + b) = ret b"
begin

lemma ret_mult: "ret a \<Longrightarrow> ret (a * k)"
  by (induction k) (simp_all add: ret_0 ret_add)

lemma ret_mod: assumes "ret a" shows "ret (n mod a) = ret n"
proof -
  have "ret (a * (n div a) + n mod a) = ret (n mod a)" by (rule ret_add, rule ret_mult, rule assms)
  then show ?thesis by simp
qed

lemma order_exact:
  assumes N: "ret N" "0 < N" "N = prod_list ps"
    and ps: "\<forall>p \<in> set ps. is_prime p \<and> \<not> ret (N div p)"
    and "ret n"
  shows "N dvd n"
proof -
  define d where "d = (LEAST d. 0 < d \<and> ret d)"
  have d: "0 < d" "ret d" unfolding d_def using N(1,2) LeastI [of "\<lambda>d. 0 < d \<and> ret d"] by auto
  have least: "d \<le> e" if "0 < e" "ret e" for e
    unfolding d_def by (rule Least_le) (use that in auto)
  have dvd: "d dvd m" if "ret m" for m
  proof -
    have "ret (m mod d)" using that d(2) by (simp add: ret_mod)
    then have "m mod d = 0" using least [of "m mod d"] d(1) by (metis gr0I mod_less_divisor not_le)
    then show ?thesis by auto
  qed
  then obtain e where e: "N = d * e" using N(1) by blast
  have "e = 1"
  proof (rule ccontr)
    assume "e \<noteq> 1"
    then have "1 < e" using N(2) e by (cases e) auto
    then obtain q where q: "is_prime q" "q dvd e" using prime_factor by blast
    then have "q dvd N" using e by simp
    then obtain p where p: "p \<in> set ps" "q dvd p" using prime_dvd_prod_list q(1) N(3) by metis
    then have "q = p" using ps q(1) by (auto simp: is_prime_def)
    obtain c where c: "e = q * c" using q(2) by blast
    have "q \<noteq> 0" using q(1) by (auto simp: is_prime_def)
    then have "N div p = d * c" using e c \<open>q = p\<close> by simp
    then show False using ret_mult [OF d(2), of c] p(1) ps by auto
  qed
  then show ?thesis using dvd [OF \<open>ret n\<close>] e by simp
qed

end


text \<open>Trial division, on binary integers.\<close>

fun no_divisor :: "nat \<Rightarrow> int \<Rightarrow> int \<Rightarrow> bool" where
  "no_divisor 0 d p \<longleftrightarrow> p < d * d"
| "no_divisor (Suc n) d p \<longleftrightarrow> p < d * d \<or> p mod d \<noteq> 0 \<and> no_divisor n (d + 2) p"

definition trial :: "int \<Rightarrow> bool" where
  "trial p \<longleftrightarrow> 2 < p \<and> p mod 2 = 1 \<and> no_divisor 400 3 p"

lemma square_bound: "p < d * d \<Longrightarrow> 0 < d \<Longrightarrow> e * e \<le> p \<Longrightarrow> 1 < e \<Longrightarrow> e < (d::int)"
  by (rule ccontr) (use mult_mono [of d e d e] in linarith)

lemma no_divisor_least:
  "no_divisor n d p \<Longrightarrow> odd d \<Longrightarrow> 0 < d \<Longrightarrow> (\<And>e. 1 < e \<Longrightarrow> e < d \<Longrightarrow> \<not> e dvd p) \<Longrightarrow> odd p \<Longrightarrow> 1 < e \<Longrightarrow>
   e * e \<le> p \<Longrightarrow> \<not> e dvd p"
proof (induction n arbitrary: d)
  case 0
  then show ?case by (meson no_divisor.simps(1) square_bound)
next
  case (Suc n)
  show ?case
  proof (cases "p < d * d")
    case True
    then show ?thesis using Suc.prems by (meson square_bound)
  next
    case False
    then have *: "p mod d \<noteq> 0" "no_divisor n (d + 2) p" using Suc.prems by auto
    have "\<not> e' dvd p" if e': "1 < e'" "e' < d + 2" for e'
    proof -
      consider "e' < d" | "e' = d" | "e' = d + 1" using e' by linarith
      then show ?thesis
      proof cases
        case 3
        then have "even e'" using Suc.prems by simp
        then show ?thesis using Suc.prems(5) dvd_trans by blast
      qed (use Suc.prems e' *(1) in \<open>auto simp: dvd_eq_mod_eq_0\<close>)
    qed
    then show ?thesis using Suc.IH [OF *(2)] Suc.prems by simp
  qed
qed

lemma trial_prime:
  assumes "trial p"
  shows "is_prime (nat p)"
proof (rule ccontr)
  have p: "2 < p" "odd p" and nd: "no_divisor 400 3 p"
    using assms unfolding trial_def odd_iff_mod_2_eq_one by blast+
  have small: "\<not> e dvd p" if "1 < e" "e < 3" for e :: int
  proof -
    have "e = 2" using that by linarith
    then show ?thesis using p by simp
  qed
  have least: "\<not> e dvd p" if "1 < e" "e * e \<le> p" for e
    using no_divisor_least [OF nd _ _ small p(2) that] by (simp del: no_divisor.simps)
  assume "\<not> is_prime (nat p)"
  then obtain d where "d dvd nat p" "d \<noteq> 1" "d \<noteq> nat p" using p(1) by (auto simp: is_prime_def)
  then have d: "int d dvd p" "int d \<noteq> 1" "int d \<noteq> p"
    using p(1) of_nat_dvd_iff [of d "nat p", where 'a = int] by auto
  obtain e where e: "p = int d * e" using d(1) by blast
  have "0 < int d" using e p(1) by (cases d) auto
  then have "0 < e" using e p(1) zero_less_mult_pos [of "int d" e] by simp
  moreover have "e \<noteq> 1" using e d(3) by simp
  ultimately have "1 < e" "1 < int d" using d(2) \<open>0 < int d\<close> by linarith+
  moreover have "e dvd p" using e by simp
  ultimately have "p < int d * int d" "p < e * e" using least d(1) by (meson not_le)+
  then have "e < int d" "int d < e" using e \<open>0 < int d\<close> \<open>0 < e\<close> by auto
  then show False by simp
qed

section \<open>Elements as bit lists\<close>

text \<open>
  Powers of \<open>T\<close> are evaluated on lists of bits, highest first, by square and multiply; this is what
  makes the evaluation cheap inside the logic.
\<close>

fun bits_xor :: "bool list \<Rightarrow> bool list \<Rightarrow> bool list" where
  "bits_xor (a # as) (b # bs) = (if b then \<not> a else a) # bits_xor as bs"
| "bits_xor _ _ = []"

fun bits_next :: "bool list \<Rightarrow> bool list \<Rightarrow> bool list" where
  "bits_next p [] = []"
| "bits_next p (b # bs) = (if b then bits_xor (bs @ [False]) p else bs @ [False])"

fun bits_mul :: "bool list \<Rightarrow> bool list \<Rightarrow> bool list \<Rightarrow> bool list \<Rightarrow> bool list" where
  "bits_mul p [] y acc = acc"
| "bits_mul p (x # xs) y acc =
     (let a = bits_next p acc in bits_mul p xs y (if x then bits_xor a y else a))"

fun bits_pow :: "bool list \<Rightarrow> bool list \<Rightarrow> bool list \<Rightarrow> bool list \<Rightarrow> bool list" where
  "bits_pow p z [] r = r"
| "bits_pow p z (e # es) r =
     (let s = bits_mul p r r z in bits_pow p z es (if e then bits_next p s else s))"

fun bits_of :: "nat \<Rightarrow> cint \<Rightarrow> bool list" where
  "bits_of 0 x = []"
| "bits_of (Suc n) x = bit x n # bits_of n x"

fun num_bits :: "num \<Rightarrow> bool list" where
  "num_bits num.One = [True]"
| "num_bits (num.Bit0 n) = num_bits n @ [False]"
| "num_bits (num.Bit1 n) = num_bits n @ [True]"

lemma bits_of_eqD: "bits_of n x = bits_of n y \<Longrightarrow> i < n \<Longrightarrow> bit x i = bit y i"
  by (induction n) (auto simp: less_Suc_eq)

lemma bits_of_eq: "gf_elem w x \<Longrightarrow> gf_elem w y \<Longrightarrow> bits_of w x = bits_of w y \<longleftrightarrow> x = y"
  by (auto intro!: bit_word_eqI simp: gf_elem_bit dest: bits_of_eqD)

lemma bits_of_cong: "(\<And>i. i < n \<Longrightarrow> bit x i = bit y i) \<Longrightarrow> bits_of n x = bits_of n y"
  by (induction n) auto

lemma bits_xor_of: "bits_xor (bits_of n x) (bits_of n y) = bits_of n (x XOR y)"
  by (induction n) (auto simp: bitsimps)

lemma bits_of_push: "Suc n \<le> 32 \<Longrightarrow> bits_of n y @ [False] = bits_of (Suc n) (push_bit 1 y)"
  by (induction n) (auto simp: bitsimps)

lemma bits_next_of:
  assumes "1 \<le> w" "w \<le> 32" "gf_elem w y"
  shows "bits_next (bits_of w (prim_poly w)) (bits_of w y) = bits_of w (shift_next w y)"
proof -
  obtain v where v: "w = Suc v" using assms(1) by (cases w) auto
  have "bits_next (bits_of w (prim_poly w)) (bits_of w y)
    = bits_of w (push_bit 1 y XOR (if bit y (w - 1) then prim_poly w else 0))"
    using assms(2) bits_xor_of [of "Suc v"] bits_of_push [of v y] by (simp add: v)
  also have "\<dots> = bits_of w (shift_next w y)"
    using assms by (intro bits_of_cong) (simp add: shift_next_eq bitsimps)
  finally show ?thesis .
qed

lemma bits_mul_of:
  assumes "1 \<le> w" "w \<le> 32" "gf_elem w y"
  shows "gf_elem w a \<Longrightarrow> bits_mul (bits_of w (prim_poly w)) (bits_of n x) (bits_of w y) (bits_of w a)
    = bits_of w (shift_pow w n a XOR gf_mul_bits w n x y)"
proof (induction n arbitrary: a)
  case (Suc n)
  let ?a = "shift_next w a XOR (if bit x n then y else 0)"
  have "shift_pow w n ?a = shift_pow w (Suc n) a XOR (if bit x n then shift_pow w n y else 0)"
    using assms Suc.prems by (simp add: shift_pow_xor funpow_swap1 if_distrib)
  then have "shift_pow w n ?a XOR gf_mul_bits w n x y
      = shift_pow w (Suc n) a XOR gf_mul_bits w (Suc n) x y"
    by (simp add: gf_mul_bits_xsum ac_simps)
  then show ?case using Suc assms
    by (auto simp: bits_next_of bits_xor_of Let_def)
qed simp

lemma bits_square_of:
  assumes "1 \<le> w" "w \<le> 32"
  shows "bits_mul (bits_of w (prim_poly w)) (bits_of w (shift_pow w m 1)) (bits_of w (shift_pow w m 1))
    (bits_of w 0) = bits_of w (shift_pow w (m + m) 1)"
  using assms bits_mul_of [of w "shift_pow w m 1" 0 w "shift_pow w m 1"]
    gf_mul_shift_pow [of w 1 "shift_pow w m 1" m]
  by (simp add: gf_mul_1_right funpow_add flip: gf_mul_def)

lemma bits_pow_append: "bits_pow p z (es @ es') r = bits_pow p z es' (bits_pow p z es r)"
  by (induction es arbitrary: r) (auto simp: Let_def)

lemma bits_pow_of:
  assumes "1 \<le> w" "w \<le> 32"
  shows "bits_pow (bits_of w (prim_poly w)) (bits_of w 0) (num_bits e) (bits_of w 1)
    = bits_of w (shift_pow w (numeral e) 1)"
proof (induction e)
  case One
  then show ?case using assms bits_square_of [of w 0] by (simp add: bits_next_of)
next
  case (Bit0 e)
  then show ?case using assms by (simp add: bits_pow_append bits_square_of numeral_Bit0)
next
  case (Bit1 e)
  have "shift_pow w (numeral (num.Bit1 e)) 1 = shift_next w (shift_pow w (numeral e + numeral e) 1)"
    by (simp only: numeral_Bit1 numeral_One add_Suc_right add_0_right One_nat_def funpow.simps o_apply)
  with Bit1 show ?case using assms
    by (simp add: bits_pow_append bits_square_of bits_next_of del: add_numeral_special numeral_plus_numeral)
qed

section \<open>The polynomials are primitive\<close>

text \<open>The prime factors of \<open>2 ^ w - 1\<close>.\<close>

definition factors :: "nat \<Rightarrow> int list" where
  "factors w =
     [[], [], [3], [7], [3, 5], [31], [3, 3, 7], [127], [3, 5, 17], [7, 73], [3, 11, 31],
     [23, 89], [3, 3, 5, 7, 13], [8191], [3, 43, 127], [7, 31, 151], [3, 5, 17, 257],
     [131071], [3, 3, 3, 7, 19, 73], [524287], [3, 5, 5, 11, 31, 41], [7, 7, 127, 337], [3,
     23, 89, 683], [47, 178481], [3, 3, 5, 7, 13, 17, 241], [31, 601, 1801], [3, 2731, 8191],
     [7, 73, 262657], [3, 5, 29, 43, 113, 127], [233, 1103, 2089], [3, 3, 7, 11, 31, 151,
     331], [], [3, 5, 17, 257, 65537]] ! w"

definition int_bits :: "int \<Rightarrow> bool list" where
  "int_bits e = num_bits (num_of_nat (nat e))"

lemma int_bits_code [code]:
  "int_bits 0 = [True]" "int_bits (Int.Pos n) = num_bits n" "int_bits (Int.Neg n) = [True]"
  by (simp_all add: int_bits_def num_of_nat_numeral_eq)

definition order_cert :: "nat \<Rightarrow> bool" where
  "order_cert w \<longleftrightarrow>
     (let N = 2 ^ w - 1; P = bits_of w (prim_poly w); one = bits_of w 1; zero = bits_of w 0;
          ret = (\<lambda>e. bits_pow P zero (int_bits e) one = one)
      in foldr (*) (factors w) 1 = N \<and> bit (prim_poly w) 0 \<and> ret N \<and>
         list_all (\<lambda>p. \<not> ret (N div p)) (factors w))"
definition gf_width :: "nat \<Rightarrow> bool" where
  "gf_width w \<longleftrightarrow> 1 \<le> w \<and> w \<le> 32 \<and> w \<noteq> 31"

definition factor_primes :: "int list" where
  "factor_primes =
    [3, 5, 7, 11, 13, 17, 19, 23, 29, 31, 41, 43, 47, 73, 89, 113, 127, 151, 233, 241, 257,
    331, 337, 601, 683, 1103, 1801, 2089, 2731, 8191, 65537, 131071, 178481, 262657, 524287]"

lemma trial_factor_primes: "list_all trial factor_primes"
  by code_simp

lemma factors_factor_primes: "list_all (\<lambda>w. list_all (\<lambda>p. p \<in> set factor_primes) (factors w)) [0..<33]"
  by code_simp

lemma order_cert_small: "list_all order_cert [1..<31]"
  by code_simp

lemma order_cert_32: "order_cert 32"
  by code_simp

lemma order_cert_width: "gf_width w \<Longrightarrow> order_cert w"
  using order_cert_small order_cert_32
  by (cases "w = 32") (auto simp: gf_width_def list_all_iff)

lemma trial_factors_width: "gf_width w \<Longrightarrow> p \<in> set (factors w) \<Longrightarrow> trial p"
  using trial_factor_primes factors_factor_primes by (fastforce simp: gf_width_def list_all_iff)

lemma dvd_prod_list: "p \<in> set ps \<Longrightarrow> p dvd prod_list (ps :: nat list)"
  by (induction ps) auto

lemma shift_returning: "returning (\<lambda>n. shift_pow w n 1 = 1)"
proof
  fix a b assume a: "shift_pow w a 1 = 1"
  have "shift_pow w (a + b) 1 = shift_pow w b (shift_pow w a 1)"
    by (subst add.commute) (simp add: funpow_add)
  then show "(shift_pow w (a + b) 1 = 1) = (shift_pow w b 1 = 1)" by (simp add: a)
qed simp

lemma prod_list_nat: "(\<And>p. p \<in> set ps \<Longrightarrow> 0 \<le> p) \<Longrightarrow> prod_list (map nat ps) = nat (foldr (*) ps 1)"
  by (induction ps) (auto simp: nat_mult_distrib)

lemma int_bits_numeral:
  assumes "1 \<le> w" "w \<le> 32" "0 < e"
  shows "bits_pow (bits_of w (prim_poly w)) (bits_of w 0) (int_bits e) (bits_of w 1) = bits_of w 1
    \<longleftrightarrow> shift_pow w (nat e) 1 = 1"
proof -
  have "numeral (num_of_nat (nat e)) = nat e" using assms(3) by (simp add: numeral_num_of_nat)
  then show ?thesis using assms by (simp add: int_bits_def bits_pow_of bits_of_eq)
qed

lemma shift_order:
  assumes "gf_width w"
  shows shift_pow_period: "shift_pow w (2 ^ w - 1) 1 = 1"
    and shift_pow_order: "shift_pow w n 1 = 1 \<Longrightarrow> 2 ^ w - 1 dvd n"
proof -
  have w: "1 \<le> w" "w \<le> 32" using assms by (auto simp: gf_width_def)
  let ?N = "2 ^ w - 1 :: int"
  have N: "0 < ?N" "nat ?N = 2 ^ w - 1" using w
    by (simp_all add: nat_diff_distrib nat_power_eq)
  have cert: "foldr (*) (factors w) 1 = ?N" 
      "bits_pow (bits_of w (prim_poly w)) (bits_of w 0) (int_bits ?N) (bits_of w 1) = bits_of w 1"
      "\<And>p. p \<in> set (factors w) \<Longrightarrow>
        bits_pow (bits_of w (prim_poly w)) (bits_of w 0) (int_bits (?N div p)) (bits_of w 1) \<noteq> bits_of w 1"
    using order_cert_width [OF assms] by (simp_all add: order_cert_def Let_def list_all_iff)
  show period: "shift_pow w (2 ^ w - 1) 1 = 1"
    using cert(2) N int_bits_numeral [OF w N(1)] by simp
  have pos: "2 < p" if "p \<in> set (factors w)" for p
    using trial_factors_width [OF assms that] by (simp add: trial_def)
  have prod: "prod_list (map nat (factors w)) = 2 ^ w - 1"
    using pos cert(1) N(2) by (subst prod_list_nat) force+
  have facs: "is_prime p \<and> shift_pow w ((2 ^ w - 1) div p) 1 \<noteq> 1" if "p \<in> set (map nat (factors w))" for p
  proof -
    from that obtain q where q: "q \<in> set (factors w)" "p = nat q" by auto
    have "p dvd 2 ^ w - 1" using dvd_prod_list [OF that] prod by simp
    moreover have "(2 ^ w - 1 :: nat) \<noteq> 0" using N by linarith
    ultimately have "0 < (2 ^ w - 1) div p" by (metis dvd_div_eq_0_iff gr0I)
    then have "0 < ?N div q" "nat (?N div q) = (2 ^ w - 1) div p"
      using q pos [OF q(1)] N by (simp_all add: nat_div_distrib flip: zero_less_nat_eq)
    then show ?thesis using cert(3) [OF q(1)] int_bits_numeral [OF w] q(2)
        trial_prime [OF trial_factors_width [OF assms q(1)]] by metis
  qed
  show "2 ^ w - 1 dvd n" if "shift_pow w n 1 = 1"
    by (rule returning.order_exact [OF shift_returning period _ prod [symmetric]])
      (use N facs that in auto)
qed

section \<open>The field\<close>

lemma shift_pow_nonzero:
  assumes "gf_width w"
  shows "shift_pow w n 1 \<noteq> 0"
proof
  let ?N = "2 ^ w - 1 :: nat"
  assume 0: "shift_pow w n 1 = 0"
  have "1 \<le> w" using assms by (simp add: gf_width_def)
  then have "2 ^ 1 \<le> (2::nat) ^ w" by (intro power_increasing) auto
  then have "1 \<le> ?N" by (simp del: One_nat_def)
  then have "n \<le> ?N * n" by (metis mult_le_mono1 nat_mult_1)
  then have "shift_pow w (?N * n) 1 = shift_pow w (?N * n - n) (shift_pow w n 1)"
    by (simp flip: funpow_add comp_apply [of "shift_pow w _"])
  moreover have "shift_pow w (?N * n) 1 = 1"
    by (rule returning.ret_mult [OF shift_returning shift_pow_period [OF assms]])
  ultimately show False using 0 by simp
qed

lemma shift_pow_inj:
  assumes "gf_width w"
  shows "inj_on (\<lambda>n. shift_pow w n 1) {..<2 ^ w - 1}"
proof (rule linorder_inj_onI')
  let ?N = "2 ^ w - 1 :: nat"
  fix i j assume ij: "i \<in> {..<?N}" "j \<in> {..<?N}" "i < j"
  show "shift_pow w i 1 \<noteq> shift_pow w j 1"
  proof
    assume "shift_pow w i 1 = shift_pow w j 1"
    then have "shift_pow w (?N - i + i) 1 = shift_pow w (?N - i + j) 1"
      by (simp add: funpow_add)
    moreover have "?N - i + i = ?N" "?N - i + j = ?N + (j - i)" using ij by auto
    ultimately have "shift_pow w (?N + (j - i)) 1 = 1" using shift_pow_period [OF assms] by simp
    then have "shift_pow w (j - i) 1 = 1"
      using returning.ret_add [OF shift_returning shift_pow_period [OF assms]] by blast
    then have "?N dvd j - i" by (rule shift_pow_order [OF assms])
    then show False using ij by (auto dest: dvd_imp_le)
  qed
qed

lemma gf_elem_unat:
  assumes "w \<le> 32"
  shows "gf_elem w x \<longleftrightarrow> unat x < 2 ^ w"
proof -
  have "take_bit w x = x \<longleftrightarrow> take_bit w (unat x) = unat x"
    by (simp add: word_unat_eq_iff unsigned_take_bit_eq)
  then show ?thesis by (simp add: gf_elem_def take_bit_nat_eq_self_iff)
qed

lemma card_gf_elem:
  assumes "w \<le> 32"
  shows "finite {x. gf_elem w x}" and "card {x. gf_elem w x} = 2 ^ w"
proof -
  have le: "(2::nat) ^ w \<le> 2 ^ 32" using assms by (intro power_increasing) auto
  have "inj_on unat {x. gf_elem w x}" by (rule inj_onI) (simp add: word_unat_eq_iff)
  moreover have "unat ` {x. gf_elem w x} = {..<2 ^ w}"
  proof (intro subset_antisym subsetI)
    fix n :: nat assume "n \<in> {..<2 ^ w}"
    then have "unat (of_nat n :: cint) = n" "n < 2 ^ w" using le
      by (auto simp: unat_of_nat take_bit_nat_eq_self_iff)
    then show "n \<in> unat ` {x. gf_elem w x}" using assms by (metis gf_elem_unat image_eqI mem_Collect_eq)
  qed (use assms in \<open>auto simp: gf_elem_unat\<close>)
  ultimately show "card {x. gf_elem w x} = 2 ^ w" by (metis card_image card_lessThan)
qed simp

lemma shift_pow_surj:
  assumes "gf_width w" "gf_elem w x" "x \<noteq> 0"
  shows "\<exists>n < 2 ^ w - 1. x = shift_pow w n 1"
proof -
  have w: "1 \<le> w" "w \<le> 32" using assms by (auto simp: gf_width_def)
  let ?E = "{x. gf_elem w x \<and> x \<noteq> 0}"
  have E: "?E = {x. gf_elem w x} - {0}" by auto
  have "(\<lambda>n. shift_pow w n 1) ` {..<2 ^ w - 1} = ?E"
  proof (rule card_subset_eq)
    show "card ((\<lambda>n. shift_pow w n 1) ` {..<2 ^ w - 1}) = card ?E"
      using card_gf_elem [OF w(2)] card_image [OF shift_pow_inj [OF assms(1)]] by (simp add: E)
  qed (use w card_gf_elem [OF w(2)] assms(1) in \<open>auto simp: shift_pow_nonzero\<close>)
  then show ?thesis using assms by auto
qed

lemma gf_mul_powers:
  assumes "1 \<le> w" "w \<le> 32"
  shows "gf_mul w (shift_pow w m 1) (shift_pow w n 1) = shift_pow w (m + n) 1"
  using assms by (simp add: gf_mul_shift_pow gf_mul_1_right funpow_add add.commute [of m])

lemma gf_inverse_exists:
  assumes "gf_width w" "gf_elem w x" "x \<noteq> 0"
  shows "\<exists>y. gf_elem w y \<and> gf_mul w x y = 1"
proof -
  have w: "1 \<le> w" "w \<le> 32" using assms by (auto simp: gf_width_def)
  obtain n where n: "n < 2 ^ w - 1" "x = shift_pow w n 1" using shift_pow_surj [OF assms] by blast
  have "gf_mul w x (shift_pow w (2 ^ w - 1 - n) 1) = 1"
    using n w shift_pow_period [OF assms(1)] by (simp add: gf_mul_powers)
  then show ?thesis using w by (metis gf_elem_1 gf_elem_shift_pow less_le_trans zero_less_one)
qed

lemma gf_mul_eq_0_iff:
  assumes "gf_width w" "gf_elem w x" "gf_elem w y"
  shows "gf_mul w x y = 0 \<longleftrightarrow> x = 0 \<or> y = 0"
proof -
  have w: "1 \<le> w" "w \<le> 32" using assms by (auto simp: gf_width_def)
  have "y = 0" if 0: "gf_mul w x y = 0" and x: "x \<noteq> 0"
  proof -
    obtain z where z: "gf_elem w z" "gf_mul w x z = 1"
      using gf_inverse_exists [OF assms(1,2) x] by blast
    have "gf_mul w (gf_mul w z x) y = 0" using z(1) w assms 0 by (simp add: gf_mul_assoc)
    moreover have "gf_mul w z x = 1" using z w assms gf_mul_commute by metis
    ultimately show ?thesis using w assms by (simp add: gf_mul_1_left)
  qed
  then show ?thesis by auto
qed

end
