(* ===== verification/Galois_Tables.thy ===== *)
theory Galois_Tables
  imports Galois_Field
begin

unbundle bit_operations_syntax

text \<open>
  The table-driven half of \<^verbatim>\<open>galois.c\<close>: the static table pointers as a record, the functions that
  build the tables on demand, and the products and quotients read from them.

  A table pointer is null, dangling, or points to an offset of an array of \<^verbatim>\<open>int\<close>s
  (\<^verbatim>\<open>galois_ilog_tables[w]\<close> points into the middle of its array).  Reading through a null or
  dangling pointer, or outside the array, is the fault \<open>Undefined\<close>.  The field \<open>mallocs\<close> lists the
  outcomes of the coming calls of \<^verbatim>\<open>malloc\<close>; when the list is empty they succeed.
\<close>

section \<open>State\<close>

datatype table = NULL | Table nat "cint list" | Freed

record galois =
  galois_log_tables :: "nat \<Rightarrow> table"
  galois_ilog_tables :: "nat \<Rightarrow> table"
  galois_mult_tables :: "nat \<Rightarrow> table"
  galois_div_tables :: "nat \<Rightarrow> table"
  galois_split_w8 :: "nat \<Rightarrow> table"
  mallocs :: "bool list"

definition galois_init :: galois where
  "galois_init = \<lparr>galois_log_tables = (\<lambda>_. NULL), galois_ilog_tables = (\<lambda>_. NULL),
     galois_mult_tables = (\<lambda>_. NULL), galois_div_tables = (\<lambda>_. NULL),
     galois_split_w8 = (\<lambda>_. NULL), mallocs = []\<rparr>"

fun tab_get :: "table \<Rightarrow> int \<Rightarrow> fault + cint" where
  "tab_get (Table base xs) i =
     (if 0 \<le> int base + i \<and> int base + i < int (length xs) then Inr (xs ! nat (int base + i))
      else Inl Undefined)"
| "tab_get _ i = Inl Undefined"

definition malloc_table :: "nat \<Rightarrow> (galois, table) prog" where
  "malloc_table n st =
     Inr (if mallocs st = [] \<or> hd (mallocs st) then Table 0 (replicate n 0) else NULL,
          st\<lparr>mallocs := tl (mallocs st)\<rparr>)"

section \<open>Log tables\<close>

definition log_step :: "nat \<Rightarrow> nat \<Rightarrow> cint list \<times> cint list \<times> cint \<Rightarrow>
    fault + (cint list \<times> cint list \<times> cint)" where
  "log_step w j = (\<lambda>(lg, ilg, b).
     if lg ! unat b \<noteq> nwm1 w then Inl Exit
     else Inr (lg[unat b := of_nat j], ilg[j := b],
       (let b = push_bit 1 b
        in if b AND nw w \<noteq> 0 then (b XOR prim_poly w) AND nwm1 w else b)))"

definition log_fill :: "nat \<Rightarrow> cint list \<Rightarrow> cint list \<Rightarrow> fault + (cint list \<times> cint list)" where
  "log_fill w lg ilg =
     (let (lg, ilg) = fold (\<lambda>j (lg, ilg). (lg[j := nwm1 w], ilg[j := 0]))
                        [0..<unat (nw w)] (lg, ilg);
          n = unat (nwm1 w)
      in run_bind (cfor 0 n (log_step w) (lg, ilg, 1)) (\<lambda>(lg, ilg, b).
           Inr (lg, fold (\<lambda>j ilg. let ilg = ilg[j + n := ilg ! j] in ilg[j + n * 2 := ilg ! j])
                      [0..<n] ilg)))"

definition galois_create_log_tables :: "nat \<Rightarrow> (galois, int) prog" where
  "galois_create_log_tables w st =
     (if w > 30 then Inr (-1, st)
      else if galois_log_tables st w \<noteq> NULL then Inr (0, st)
      else run_bind (malloc_table (unat (nw w)) st) (\<lambda>(t, st).
        let st = st\<lparr>galois_log_tables := (galois_log_tables st)(w := t)\<rparr>
        in case t of
             Table _ lg \<Rightarrow>
               run_bind (malloc_table (unat (nw w) * 3) st) (\<lambda>(u, st).
                 let st = st\<lparr>galois_ilog_tables := (galois_ilog_tables st)(w := u)\<rparr>
                 in case u of
                      Table _ ilg \<Rightarrow>
                        run_bind (log_fill w lg ilg) (\<lambda>(lg, ilg).
                          Inr (0, st\<lparr>galois_log_tables := (galois_log_tables st)(w := Table 0 lg),
                                     galois_ilog_tables := (galois_ilog_tables st)
                                        (w := Table (unat (nwm1 w)) ilg)\<rparr>))
                    | _ \<Rightarrow> Inr (-1, st\<lparr>galois_log_tables := (galois_log_tables st)(w := NULL)\<rparr>))
           | _ \<Rightarrow> Inr (-1, st)))"

text \<open>\<^verbatim>\<open>galois_ilog_tables[w][galois_log_tables[w][x] + galois_log_tables[w][y]]\<close> and the difference.\<close>

definition log_sum :: "cint \<Rightarrow> cint \<Rightarrow> nat \<Rightarrow> (galois, cint) prog" where
  "log_sum x y w st =
     run_bind (tab_get (galois_log_tables st w) (sint x)) (\<lambda>lx.
     run_bind (tab_get (galois_log_tables st w) (sint y)) (\<lambda>ly.
     run_bind (tab_get (galois_ilog_tables st w) (sint (lx + ly))) (\<lambda>z. Inr (z, st))))"

definition log_difference :: "cint \<Rightarrow> cint \<Rightarrow> nat \<Rightarrow> (galois, cint) prog" where
  "log_difference x y w st =
     run_bind (tab_get (galois_log_tables st w) (sint x)) (\<lambda>lx.
     run_bind (tab_get (galois_log_tables st w) (sint y)) (\<lambda>ly.
     run_bind (tab_get (galois_ilog_tables st w) (sint (lx - ly))) (\<lambda>z. Inr (z, st))))"

definition galois_logtable_multiply :: "cint \<Rightarrow> cint \<Rightarrow> nat \<Rightarrow> (galois, cint) prog" where
  "galois_logtable_multiply x y w =
     (if x = 0 \<or> y = 0 then ret 0 else log_sum x y w)"

definition galois_logtable_divide :: "cint \<Rightarrow> cint \<Rightarrow> nat \<Rightarrow> (galois, cint) prog" where
  "galois_logtable_divide x y w =
     (if y = 0 then ret (-1) else if x = 0 then ret 0 else log_difference x y w)"

section \<open>Multiplication tables\<close>

definition mult_row ::
  "nat \<Rightarrow> table \<Rightarrow> table \<Rightarrow> nat \<Rightarrow> cint list \<times> cint list \<times> nat \<Rightarrow> fault + (cint list \<times> cint list \<times> nat)" where
  "mult_row w lg ilg x = (\<lambda>(mt, dt, j).
     run_bind (tab_get lg (int x)) (\<lambda>logx.
       cfor 1 (unat (nw w)) (\<lambda>y (mt, dt, j).
         run_bind (tab_get lg (int y)) (\<lambda>logy.
         run_bind (tab_get ilg (sint (logx + logy))) (\<lambda>m.
         run_bind (tab_get ilg (sint (logx - logy))) (\<lambda>d.
           Inr (mt[j := m], dt[j := d], j + 1)))))
         (mt[j := 0], dt[j := -1], j + 1)))"

definition mult_fill ::
  "nat \<Rightarrow> table \<Rightarrow> table \<Rightarrow> cint list \<Rightarrow> cint list \<Rightarrow> fault + (cint list \<times> cint list \<times> nat)" where
  "mult_fill w lg ilg mt dt =
     cfor 1 (unat (nw w)) (mult_row w lg ilg)
       (fold (\<lambda>y (mt, dt, j). (mt[j := 0], dt[j := 0], j + 1)) [1..<unat (nw w)]
         (mt[0 := 0], dt[0 := -1], 1))"

definition galois_create_mult_tables :: "nat \<Rightarrow> (galois, int) prog" where
  "galois_create_mult_tables w st =
     (if w \<ge> 14 then Inr (-1, st)
      else if galois_mult_tables st w \<noteq> NULL then Inr (0, st)
      else run_bind (malloc_table (unat (nw w) * unat (nw w)) st) (\<lambda>(t, st).
        let st = st\<lparr>galois_mult_tables := (galois_mult_tables st)(w := t)\<rparr>
        in case t of
             Table _ mt \<Rightarrow>
               run_bind (malloc_table (unat (nw w) * unat (nw w)) st) (\<lambda>(u, st).
                 let st = st\<lparr>galois_div_tables := (galois_div_tables st)(w := u)\<rparr>
                 in case u of
                      Table _ dt \<Rightarrow>
                        run_bind (if galois_log_tables st w = NULL then galois_create_log_tables w st
                                  else Inr (0, st)) (\<lambda>(rc, st).
                          if rc < 0 then
                            Inr (-1, st\<lparr>galois_mult_tables := (galois_mult_tables st)(w := NULL),
                                        galois_div_tables := (galois_div_tables st)(w := NULL)\<rparr>)
                          else run_bind (mult_fill w (galois_log_tables st w) (galois_ilog_tables st w) mt dt)
                            (\<lambda>(mt, dt, j).
                              Inr (0, st\<lparr>galois_mult_tables := (galois_mult_tables st)(w := Table 0 mt),
                                         galois_div_tables := (galois_div_tables st)(w := Table 0 dt)\<rparr>)))
                    | _ \<Rightarrow> Inr (-1, st\<lparr>galois_mult_tables := (galois_mult_tables st)(w := NULL)\<rparr>))
           | _ \<Rightarrow> Inr (-1, st)))"

text \<open>\<^verbatim>\<open>if (t == NULL) { if (create(w) < 0) { ...; exit(1); } }\<close>\<close>

definition need :: "bool \<Rightarrow> (galois, int) prog \<Rightarrow> (galois, unit) prog" where
  "need isnull create st =
     (if isnull then run_bind (create st) (\<lambda>(rc, st). if rc < 0 then Inl Exit else Inr ((), st))
      else Inr ((), st))"

definition galois_ilog :: "cint \<Rightarrow> nat \<Rightarrow> (galois, cint) prog" where
  "galois_ilog v w st =
     run_bind (need (galois_ilog_tables st w = NULL) (galois_create_log_tables w) st) (\<lambda>(_, st).
     run_bind (tab_get (galois_ilog_tables st w) (sint v)) (\<lambda>z. Inr (z, st)))"

definition galois_log :: "cint \<Rightarrow> nat \<Rightarrow> (galois, cint) prog" where
  "galois_log v w st =
     run_bind (need (galois_log_tables st w = NULL) (galois_create_log_tables w) st) (\<lambda>(_, st).
     run_bind (tab_get (galois_log_tables st w) (sint v)) (\<lambda>z. Inr (z, st)))"

section \<open>Split tables for width 32\<close>

text \<open>The loop that allocates: on a failure the earlier tables are freed, their pointers kept.\<close>

fun split_alloc :: "nat \<Rightarrow> nat \<Rightarrow> (galois, bool) prog" where
  "split_alloc 0 i st = Inr (True, st)"
| "split_alloc (Suc n) i st =
     run_bind (malloc_table 65536 st) (\<lambda>(t, st).
       let st = st\<lparr>galois_split_w8 := (galois_split_w8 st)(i := t)\<rparr>
       in if t = NULL
          then Inr (False, st\<lparr>galois_split_w8 :=
                 (\<lambda>k. if k < i then Freed else galois_split_w8 st k)\<rparr>)
          else split_alloc n (i + 1) st)"

definition split_fill :: "nat \<Rightarrow> nat \<Rightarrow> cint list" where
  "split_fill i j =
     fst (fold (\<lambda>p1 s. fold (\<lambda>p2 (tab, index).
            (tab[index := galois_shift_multiply (push_bit (i * 8) (of_nat p1)) (push_bit (j * 8) (of_nat p2)) 32],
             index + 1)) [0..<256] s)
          [0..<256] (replicate 65536 0, 0))"

definition split_set :: "nat \<Rightarrow> nat \<Rightarrow> galois \<Rightarrow> galois" where
  "split_set i j st = st\<lparr>galois_split_w8 := (galois_split_w8 st)(i + j := Table 0 (split_fill i j))\<rparr>"

definition galois_create_split_w8_tables :: "(galois, int) prog" where
  "galois_create_split_w8_tables st =
     (if galois_split_w8 st 0 \<noteq> NULL then Inr (0, st)
      else run_bind (galois_create_mult_tables 8 st) (\<lambda>(rc, st).
        if rc < 0 then Inr (-1, st)
        else run_bind (split_alloc 7 0 st) (\<lambda>(ok, st).
          if \<not> ok then Inr (-1, st)
          else Inr (0, fold (split_set 3) [1..<4] (fold (split_set 0) [0..<4] st)))))"

definition galois_split_w8_multiply :: "cint \<Rightarrow> cint \<Rightarrow> (galois, cint) prog" where
  "galois_split_w8_multiply x y st =
     run_bind (cfor 0 4 (\<lambda>i acc.
         let a = push_bit 8 (drop_bit (8 * i) x AND 255)
         in cfor 0 4 (\<lambda>j acc.
              let b = drop_bit (8 * j) y AND 255
              in run_bind (tab_get (galois_split_w8 st (i + j)) (sint (a OR b)))
                   (\<lambda>z. Inr (acc XOR z))) acc) 0)
       (\<lambda>acc. Inr (acc, st))"

section \<open>Products, quotients and inverses\<close>

definition galois_multtable_multiply :: "cint \<Rightarrow> cint \<Rightarrow> nat \<Rightarrow> (galois, cint) prog" where
  "galois_multtable_multiply x y w st =
     run_bind (tab_get (galois_mult_tables st w) (sint (push_bit w x OR y))) (\<lambda>z. Inr (z, st))"

definition galois_multtable_divide :: "cint \<Rightarrow> cint \<Rightarrow> nat \<Rightarrow> (galois, cint) prog" where
  "galois_multtable_divide x y w st =
     run_bind (tab_get (galois_div_tables st w) (sint (push_bit w x OR y))) (\<lambda>z. Inr (z, st))"

definition galois_single_multiply :: "cint \<Rightarrow> cint \<Rightarrow> nat \<Rightarrow> (galois, cint) prog" where
  "galois_single_multiply x y w st =
     (if x = 0 \<or> y = 0 then Inr (0, st)
      else case mult_type w of
        TABLE \<Rightarrow> run_bind (need (galois_mult_tables st w = NULL) (galois_create_mult_tables w) st)
                  (\<lambda>(_, st). galois_multtable_multiply x y w st)
      | LOGS \<Rightarrow> run_bind (need (galois_log_tables st w = NULL) (galois_create_log_tables w) st)
                  (\<lambda>(_, st). log_sum x y w st)
      | SPLITW8 \<Rightarrow> run_bind (need (galois_split_w8 st 0 = NULL) galois_create_split_w8_tables st)
                  (\<lambda>(_, st). galois_split_w8_multiply x y st)
      | SHIFT \<Rightarrow> Inr (galois_shift_multiply x y w, st)
      | NONE \<Rightarrow> Inl Exit)"

text \<open>
  \<^verbatim>\<open>galois_single_divide\<close> and \<^verbatim>\<open>galois_inverse\<close> call each other; \<^verbatim>\<open>galois_inverse\<close> calls back only
  for the widths whose quotient is read from a table, so the quotient is written in two steps.
\<close>

definition divide_by_table :: "cint \<Rightarrow> cint \<Rightarrow> nat \<Rightarrow> (galois, cint) prog" where
  "divide_by_table a b w st =
     (if mult_type w = TABLE then
        run_bind (need (galois_div_tables st w = NULL) (galois_create_mult_tables w) st)
          (\<lambda>(_, st). galois_multtable_divide a b w st)
      else if b = 0 then Inr (-1, st)
      else if a = 0 then Inr (0, st)
      else run_bind (need (galois_log_tables st w = NULL) (galois_create_log_tables w) st)
             (\<lambda>(_, st). log_difference a b w st))"

definition galois_inverse :: "cint \<Rightarrow> nat \<Rightarrow> (galois, cint) prog" where
  "galois_inverse y w st =
     (if y = 0 then Inr (-1, st)
      else if mult_type w = SHIFT \<or> mult_type w = SPLITW8
      then run_bind (galois_shift_inverse y w) (\<lambda>z. Inr (z, st))
      else divide_by_table 1 y w st)"

definition galois_single_divide :: "cint \<Rightarrow> cint \<Rightarrow> nat \<Rightarrow> (galois, cint) prog" where
  "galois_single_divide a b w st =
     (if mult_type w = TABLE \<or> mult_type w = LOGS then divide_by_table a b w st
      else if b = 0 then Inr (-1, st)
      else if a = 0 then Inr (0, st)
      else run_bind (galois_inverse b w st)
             (\<lambda>(sum_j, st). galois_single_multiply a sum_j w st))"

section \<open>Access to the tables\<close>

definition galois_get_mult_table :: "nat \<Rightarrow> (galois, table) prog" where
  "galois_get_mult_table w st =
     run_bind (if galois_mult_tables st w = NULL then galois_create_mult_tables w st else Inr (0, st))
       (\<lambda>(rc, st). Inr (if rc \<noteq> 0 then NULL else galois_mult_tables st w, st))"

definition galois_get_div_table :: "nat \<Rightarrow> (galois, table) prog" where
  "galois_get_div_table w st =
     run_bind (if galois_mult_tables st w = NULL then galois_create_mult_tables w st else Inr (0, st))
       (\<lambda>(rc, st). Inr (if rc \<noteq> 0 then NULL else galois_div_tables st w, st))"

definition galois_get_log_table :: "nat \<Rightarrow> (galois, table) prog" where
  "galois_get_log_table w st =
     run_bind (if galois_log_tables st w = NULL then galois_create_log_tables w st else Inr (0, st))
       (\<lambda>(rc, st). Inr (if rc \<noteq> 0 then NULL else galois_log_tables st w, st))"

definition galois_get_ilog_table :: "nat \<Rightarrow> (galois, table) prog" where
  "galois_get_ilog_table w st =
     run_bind (if galois_ilog_tables st w = NULL then galois_create_log_tables w st else Inr (0, st))
       (\<lambda>(rc, st). Inr (if rc \<noteq> 0 then NULL else galois_ilog_tables st w, st))"

end
