(* ===== verification/Galois_Correct.thy ===== *)
theory Galois_Correct
  imports Galois_Tables
begin

unbundle bit_operations_syntax

text \<open>
  Correctness of \<^verbatim>\<open>galois.c\<close>: the log tables hold logarithms and powers of \<open>T\<close>, the multiplication
  and division tables hold products and quotients, the split tables the products of shifted bytes,
  the inversion of a binary matrix inverts it or exits because its rows are dependent.  The
  invariant \<open>galois_ok\<close> says so of the static tables; every operation keeps it, whatever the calls
  of \<^verbatim>\<open>malloc\<close> return, and with memory every product and gf_quotient is that of the field.
\<close>

lemma gf_width_bounds: "gf_width w \<Longrightarrow> 1 \<le> w" "gf_width w \<Longrightarrow> w \<le> 32"
  by (auto simp: gf_width_def)

lemma gf_width_small: "1 \<le> w \<Longrightarrow> w \<le> 30 \<Longrightarrow> gf_width w"
  by (auto simp: gf_width_def)

lemma gf_width_simps [simp]:
  "gf_width w \<Longrightarrow> Suc 0 \<le> w" "gf_width w \<Longrightarrow> 0 < w" "gf_width w \<Longrightarrow> w \<le> 32"
  by (auto simp: gf_width_def)

text \<open>The order of the multiplicative group.\<close>

definition gf_ord :: "nat \<Rightarrow> nat" where
  "gf_ord w = 2 ^ w - 1"

lemma shift_pow_add_ord:
  assumes "gf_width w"
  shows "shift_pow w (n + gf_ord w) 1 = shift_pow w n 1"
  using shift_pow_period [OF assms] by (simp only: funpow_add o_apply gf_ord_def)

lemma pow2_le: "w \<le> k \<Longrightarrow> (2::nat) ^ w \<le> 2 ^ k"
  by (rule power_increasing) auto

lemma unat_of_nat_cint: "n < 2 ^ 32 \<Longrightarrow> unat (of_nat n :: cint) = n"
  by (simp add: unat_of_nat take_bit_nat_eq_self_iff)

lemma unat_exp: "w < 32 \<Longrightarrow> unat (2 ^ w :: cint) = 2 ^ w"
  using unat_of_nat_cint [of "2 ^ w"] power_strict_increasing [of w 32 "2::nat"] by simp

lemma unat_nw: "1 \<le> w \<Longrightarrow> w \<le> 31 \<Longrightarrow> unat (nw w) = 2 ^ w"
  by (auto simp: nw_def push_bit_of_1 unat_exp)

lemma unat_nwm1: "1 \<le> w \<Longrightarrow> w \<le> 31 \<Longrightarrow> unat (nwm1 w) = gf_ord w"
  by (simp add: nwm1_mask mask_eq_exp_minus_1 unat_minus_one unat_exp gf_ord_def)

lemma ord_pos: "1 \<le> w \<Longrightarrow> 1 \<le> gf_ord w" "1 \<le> w \<Longrightarrow> Suc (gf_ord w) = 2 ^ w"
  using pow2_le [of 1 w] by (simp_all add: gf_ord_def)

lemma unat_gf_elem: "gf_elem w x \<Longrightarrow> w \<le> 32 \<Longrightarrow> unat x < 2 ^ w"
  by (simp add: gf_elem_unat)

lemma sint_small: "unat (x::cint) < 2 ^ 31 \<Longrightarrow> sint x = int (unat x)"
proof -
  assume "unat x < 2 ^ 31"
  then have "int (unat x) < 2 ^ 31" using of_nat_less_iff [of "unat x" "2 ^ 31", where 'a = int] by auto
  then have "uint x < 2 ^ 31" unfolding of_nat_unat .
  moreover have "- (2 ^ 31) \<le> uint x" by (rule order_trans [of _ 0]) auto
  ultimately have "sint x = uint x" using signed_take_bit_int_eq_self [of 31 "uint x"] by (simp add: sint_uint)
  then show ?thesis by simp
qed

lemma shift_next_by_nw:
  assumes "1 \<le> w" "w \<le> 30" "gf_elem w b"
  shows "(let b = push_bit 1 b in if b AND nw w \<noteq> 0 then (b XOR prim_poly w) AND nwm1 w else b) = shift_next w b"
proof -
  have "push_bit 1 b AND nw w \<noteq> 0 \<longleftrightarrow> bit b (w - 1)"
    using assms and_push_bit_1 [of "push_bit 1 b" w] by (simp add: nw_def bit_push_bit_iff)
  moreover have "b AND push_bit (w - 1) 1 \<noteq> 0 \<longleftrightarrow> bit b (w - 1)" by (rule and_push_bit_1)
  ultimately show ?thesis by (simp add: shift_next_def Let_def)
qed


text \<open>What the two tables of a width hold.\<close>

definition log_tables_ok :: "nat \<Rightarrow> cint list \<Rightarrow> cint list \<Rightarrow> bool" where
  "log_tables_ok w lg ilg \<longleftrightarrow> length lg = 2 ^ w \<and> length ilg = 3 * 2 ^ w \<and>
     (\<forall>n < gf_ord w. lg ! unat (shift_pow w n 1) = of_nat n) \<and>
     (\<forall>n < 3 * gf_ord w. ilg ! n = shift_pow w n 1)"

definition log_loop_inv :: "nat \<Rightarrow> nat \<Rightarrow> cint list \<times> cint list \<times> cint \<Rightarrow> bool" where
  "log_loop_inv w j = (\<lambda>(lg, ilg, b). length lg = 2 ^ w \<and> length ilg = 3 * 2 ^ w \<and>
     b = shift_pow w j 1 \<and>
     (\<forall>n < j. lg ! unat (shift_pow w n 1) = of_nat n \<and> ilg ! n = shift_pow w n 1) \<and>
     (\<forall>x < 2 ^ w. (\<forall>n < j. x \<noteq> unat (shift_pow w n 1)) \<longrightarrow> lg ! x = nwm1 w))"

lemma log_step_ok:
  assumes "1 \<le> w" "w \<le> 30" "j < gf_ord w" "log_loop_inv w j s"
  shows "\<exists>s'. log_step w j s = Inr s' \<and> log_loop_inv w (Suc j) s'"
proof -
  obtain lg ilg b where s: "s = (lg, ilg, b)" by (cases s)
  have b: "b = shift_pow w j 1" "gf_elem w b" "unat b < 2 ^ w"
    using assms by (auto simp: log_loop_inv_def s unat_gf_elem)
  have fresh: "unat b \<noteq> unat (shift_pow w n 1)" if "n < j" for n
    using inj_onD [OF shift_pow_inj [OF gf_width_small [OF assms(1,2)]], of j n] that assms(3) b(1)
    by (auto simp: gf_ord_def word_unat_eq_iff [symmetric])
  have "lg ! unat b = nwm1 w" using assms(4) b fresh by (auto simp: log_loop_inv_def s)
  then have "log_step w j s = Inr (lg[unat b := of_nat j], ilg[j := b], shift_next w b)"
    using shift_next_by_nw [OF assms(1,2) b(2)] by (simp add: log_step_def s)
  moreover have "log_loop_inv w (Suc j) (lg[unat b := of_nat j], ilg[j := b], shift_next w b)"
    using assms(3,4) b fresh ord_pos(2) [OF assms(1)] unfolding log_loop_inv_def s
    by (auto simp: less_Suc_eq nth_list_update)
  ultimately show ?thesis by blast
qed

lemma log_init:
  assumes "1 \<le> w" "w \<le> 30" "length lg = 2 ^ w" "length ilg = 3 * 2 ^ w"
  shows "\<exists>lg' ilg'. fold (\<lambda>j (lg, ilg). (lg[j := nwm1 w], ilg[j := 0])) [0..<unat (nw w)] (lg, ilg)
    = (lg', ilg') \<and> log_loop_inv w 0 (lg', ilg', 1)"
proof -
  let ?P = "\<lambda>j (lg, ilg). length lg = 2 ^ w \<and> length ilg = 3 * 2 ^ w \<and> (\<forall>x < j. (lg :: cint list) ! x = nwm1 w)"
  have "?P (unat (nw w)) (fold (\<lambda>j (lg, ilg). (lg[j := nwm1 w], ilg[j := 0])) [0..<unat (nw w)] (lg, ilg :: cint list))"
    by (rule fold_upt_inv0 [where P = ?P])
      (use assms in \<open>auto simp: unat_nw nth_list_update less_Suc_eq\<close>)
  then show ?thesis using assms by (auto simp: unat_nw log_loop_inv_def split: prod.splits)
qed

lemma ilog_copy:
  assumes w: "gf_width w" "w \<le> 30" and len: "length ilg = 3 * 2 ^ w"
    and ilg: "\<forall>n < gf_ord w. ilg ! n = shift_pow w n 1"
  shows "let r = fold (\<lambda>j ilg. let ilg = ilg[j + gf_ord w := ilg ! j] in ilg[j + gf_ord w * 2 := ilg ! j])
      [0..<gf_ord w] ilg in length r = 3 * 2 ^ w \<and> (\<forall>n < 3 * gf_ord w. r ! n = shift_pow w n 1)"
proof -
  let ?N = "gf_ord w"
  have Suc: "Suc ?N = 2 ^ w" using w by (simp add: ord_pos)
  let ?P = "\<lambda>j r. length r = 3 * 2 ^ w \<and> (\<forall>n < ?N. r ! n = shift_pow w n 1) \<and>
    (\<forall>n < j. r ! (n + ?N) = shift_pow w n 1 \<and> r ! (n + ?N * 2) = shift_pow w n 1)"
  define r where "r = fold (\<lambda>j ilg. let ilg = ilg[j + ?N := ilg ! j] in ilg[j + ?N * 2 := ilg ! j]) [0..<?N] ilg"
  have P: "?P ?N r" unfolding r_def
  proof (rule fold_upt_inv0 [where P = ?P])
    fix i s assume "i < ?N" "?P i s"
    moreover have "?N * 2 + ?N < 3 * 2 ^ w" using Suc by linarith
    ultimately show "?P (Suc i) (let ilg = s[i + ?N := s ! i] in ilg[i + ?N * 2 := ilg ! i])"
      by (auto simp: Let_def nth_list_update less_Suc_eq)
  qed (use len ilg in simp)
  have per: "shift_pow w (n + ?N) 1 = shift_pow w n 1" for n
    by (rule shift_pow_add_ord [OF w(1)])
  have "r ! n = shift_pow w n 1" if n: "n < 3 * ?N" for n
  proof -
    consider "n < ?N" | m where "m < ?N" "n = m + ?N" | m where "m < ?N" "n = m + ?N + ?N"
    proof -
      have "n < ?N \<or> (n - ?N < ?N \<and> n = n - ?N + ?N) \<or> (n - ?N - ?N < ?N \<and> n = n - ?N - ?N + ?N + ?N)"
        using n by linarith
      then show thesis using that by blast
    qed
    then show ?thesis
    proof cases
      case 3
      then have "n = m + ?N * 2" by simp
      then show ?thesis using P 3 per [of m] per [of "m + ?N"] by metis
    qed (use P per in auto)
  qed
  then show ?thesis using P by (simp add: r_def Let_def)
qed

lemma log_fill_ok:
  assumes "1 \<le> w" "w \<le> 30"
  shows "\<exists>lg ilg. log_fill w (replicate (unat (nw w)) 0) (replicate (unat (nw w) * 3) 0) = Inr (lg, ilg) \<and> log_tables_ok w lg ilg"
proof -
  obtain lg ilg where init: "fold (\<lambda>j (lg, ilg). (lg[j := nwm1 w], ilg[j := 0])) [0..<unat (nw w)]
      (replicate (unat (nw w)) 0, replicate (unat (nw w) * 3) 0) = (lg, ilg)" "log_loop_inv w 0 (lg, ilg, 1)"
    using log_init [of w "replicate (unat (nw w)) 0" "replicate (unat (nw w) * 3) 0"] assms by (auto simp: unat_nw)
  obtain lg' ilg' b where loop: "cfor 0 (gf_ord w) (log_step w) (lg, ilg, 1) = Inr (lg', ilg', b)"
      "log_loop_inv w (gf_ord w) (lg', ilg', b)"
    using cfor_total [of 0 "gf_ord w" "log_loop_inv w" "(lg, ilg, 1)" "log_step w"] init(2) log_step_ok [OF assms]
    by auto
  then show ?thesis
    using ilog_copy [OF gf_width_small [OF assms], of ilg'] assms init(1)
    by (auto simp: log_fill_def unat_nwm1 log_tables_ok_def log_loop_inv_def Let_def)
qed

section \<open>Reading the log tables\<close>

lemma sint_of_nat_cint: "n < 2 ^ 31 \<Longrightarrow> sint (of_nat n :: cint) = int n"
  using sint_small [of "of_nat n"] unat_of_nat_cint [of n] by simp

lemma sint_add_small: "m + n < 2 ^ 31 \<Longrightarrow> sint (of_nat m + of_nat n :: cint) = int (m + n)"
  using sint_of_nat_cint [of "m + n"] by simp

lemma sint_diff_small:
  assumes "m < 2 ^ 31" "n < 2 ^ 31"
  shows "sint (of_nat m - of_nat n :: cint) = int m - int n"
proof -
  have "sint (of_int (int m - int n) :: cint) = int m - int n"
    using assms signed_take_bit_int_eq_self [of 31 "int m - int n"]
    by (simp only: signed_of_int) simp
  then show ?thesis by simp
qed

lemma log_get:
  assumes "log_tables_ok w lg ilg" "gf_width w" "w \<le> 30" "gf_elem w x" "x \<noteq> 0"
  shows "\<exists>n < gf_ord w. x = shift_pow w n 1 \<and> tab_get (Table 0 lg) (int (unat x)) = Inr (of_nat n)"
proof -
  obtain n where n: "n < gf_ord w" "x = shift_pow w n 1" using shift_pow_surj [OF assms(2,4,5)] by (auto simp: gf_ord_def)
  moreover have "unat x < 2 ^ w" using unat_gf_elem assms by simp
  ultimately show ?thesis using assms by (auto simp: log_tables_ok_def simp del: of_nat_unat)
qed

lemma ilog_get:
  assumes "log_tables_ok w lg ilg" "gf_width w" "w \<le> 30"
    and "- int (gf_ord w) \<le> i" "i < 2 * int (gf_ord w)"
  shows "tab_get (Table (gf_ord w) ilg) i = Inr (shift_pow w (nat (int (gf_ord w) + i)) 1)"
proof -
  have *: "nat (int (gf_ord w) + i) < 3 * gf_ord w" using assms(4,5) by linarith
  have "length ilg = 3 * 2 ^ w" "\<forall>n < 3 * gf_ord w. ilg ! n = shift_pow w n 1"
    using assms(1) by (auto simp: log_tables_ok_def)
  moreover have "3 * gf_ord w < 3 * 2 ^ w" using ord_pos(2) [of w] assms(2) by simp
  then have "int (gf_ord w) + i < int (3 * 2 ^ w)" using * assms(4) by linarith
  ultimately show ?thesis using * assms(4) by simp
qed

lemma ord_bound: "w \<le> 30 \<Longrightarrow> 2 * gf_ord w < 2 ^ 31"
  using pow2_le [of w 30] by (simp add: gf_ord_def)

lemma ilog_sum:
  assumes "log_tables_ok w lg ilg" "gf_width w" "w \<le> 30" "m < gf_ord w" "n < gf_ord w"
  shows "tab_get (Table (gf_ord w) ilg) (sint (of_nat m + of_nat n :: cint))
    = Inr (gf_mul w (shift_pow w m 1) (shift_pow w n 1))"
proof -
  have "m + n < 2 ^ 31" using assms(4,5) ord_bound [OF assms(3)] by linarith
  moreover have "nat (int (gf_ord w) + int (m + n)) = m + n + gf_ord w" by simp
  ultimately show ?thesis
    using assms(4,5) ilog_get [OF assms(1-3), of "int (m + n)"]
      shift_pow_add_ord [OF assms(2), of "m + n"] gf_width_bounds [OF assms(2)]
    by (simp only: sint_add_small gf_mul_powers)
qed

definition gf_quotient :: "nat \<Rightarrow> cint \<Rightarrow> cint \<Rightarrow> cint \<Rightarrow> bool" where
  "gf_quotient w x y z \<longleftrightarrow> gf_elem w z \<and> gf_mul w y z = x"

lemma ilog_difference:
  assumes "log_tables_ok w lg ilg" "gf_width w" "w \<le> 30" "m < gf_ord w" "n < gf_ord w"
  shows "\<exists>z. tab_get (Table (gf_ord w) ilg) (sint (of_nat m - of_nat n :: cint)) = Inr z \<and>
    gf_quotient w (shift_pow w m 1) (shift_pow w n 1) z"
proof -
  have w: "1 \<le> w" "w \<le> 32" using assms by simp_all
  have "m < 2 ^ 31" "n < 2 ^ 31" using assms(4,5) ord_bound [OF assms(3)] by linarith+
  then have "tab_get (Table (gf_ord w) ilg) (sint (of_nat m - of_nat n :: cint))
      = Inr (shift_pow w (nat (int (gf_ord w) + (int m - int n))) 1)"
    using ilog_get [OF assms(1-3), of "int m - int n"] assms(4,5) by (simp add: sint_diff_small)
  moreover have "n + nat (int (gf_ord w) + (int m - int n)) = m + gf_ord w" using assms(5) by simp
  then have "gf_mul w (shift_pow w n 1) (shift_pow w (nat (int (gf_ord w) + (int m - int n))) 1)
      = shift_pow w m 1"
    using shift_pow_add_ord [OF assms(2), of m] by (simp only: gf_mul_powers w)
  ultimately show ?thesis using w by (auto simp: gf_quotient_def)
qed

lemma quotient_unique:
  assumes "gf_width w" "gf_elem w y" "y \<noteq> 0" "gf_quotient w x y z" "gf_quotient w x y z'"
  shows "z = z'"
proof -
  have "gf_mul w y (z XOR z') = 0"
    using assms gf_mul_xor_right [of w z z' y] by (simp add: gf_quotient_def)
  then show ?thesis using assms gf_mul_eq_0_iff [of w y "z XOR z'"] by (simp add: gf_quotient_def)
qed

section \<open>The multiplication tables\<close>

definition mult_tables_ok :: "nat \<Rightarrow> cint list \<Rightarrow> cint list \<Rightarrow> bool" where
  "mult_tables_ok w mt dt \<longleftrightarrow> length mt = 2 ^ w * 2 ^ w \<and> length dt = 2 ^ w * 2 ^ w \<and>
     (\<forall>x < 2 ^ w. \<forall>y < 2 ^ w.
        mt ! (x * 2 ^ w + y) = gf_mul w (of_nat x) (of_nat y) \<and>
        (if y = 0 then dt ! (x * 2 ^ w + y) = -1
         else gf_quotient w (of_nat x) (of_nat y) (dt ! (x * 2 ^ w + y))))"

text \<open>The entries of one table cell, and the part of the tables written so far.\<close>

definition mult_cell :: "nat \<Rightarrow> nat \<Rightarrow> nat \<Rightarrow> cint \<Rightarrow> cint \<Rightarrow> bool" where
  "mult_cell w x y m d \<longleftrightarrow> m = gf_mul w (of_nat x) (of_nat y) \<and>
     (if y = 0 then d = -1 else gf_quotient w (of_nat x) (of_nat y) d)"

definition mult_upto :: "nat \<Rightarrow> nat \<Rightarrow> cint list \<times> cint list \<times> nat \<Rightarrow> bool" where
  "mult_upto w k = (\<lambda>(mt, dt, j). j = k \<and> length mt = 2 ^ w * 2 ^ w \<and> length dt = 2 ^ w * 2 ^ w \<and>
     (\<forall>i < k. mult_cell w (i div 2 ^ w) (i mod 2 ^ w) (mt ! i) (dt ! i)))"

lemma mult_upto_write:
  assumes "mult_upto w k (mt, dt, j)" "k = x * 2 ^ w + y" "x < 2 ^ w" "y < 2 ^ w" "mult_cell w x y m d"
  shows "mult_upto w (Suc k) (mt[j := m], dt[j := d], j + 1)"
proof -
  have "k < (x + 1) * 2 ^ w" using assms(2,4) by simp
  also have "\<dots> \<le> 2 ^ w * 2 ^ w" using assms(3) by (intro mult_right_mono) auto
  finally have "k < 2 ^ w * 2 ^ w" .
  moreover have "k div 2 ^ w = x" "k mod 2 ^ w = y" using assms(2,4) by auto
  ultimately show ?thesis using assms(1,5)
    by (auto simp: mult_upto_def nth_list_update less_Suc_eq)
qed

lemma mult_upto_all:
  assumes "mult_upto w (2 ^ w * 2 ^ w) (mt, dt, j)"
  shows "mult_tables_ok w mt dt"
proof -
  have "mult_cell w x y (mt ! (x * 2 ^ w + y)) (dt ! (x * 2 ^ w + y))"
    if "x < 2 ^ w" "y < 2 ^ w" for x y
  proof -
    have "x * 2 ^ w + y < (x + 1) * 2 ^ w" using that by simp
    also have "\<dots> \<le> 2 ^ w * 2 ^ w" using that by (intro mult_right_mono) auto
    finally have lt: "x * 2 ^ w + y < 2 ^ w * 2 ^ w" .
    have "\<forall>i < 2 ^ w * 2 ^ w. mult_cell w (i div 2 ^ w) (i mod 2 ^ w) (mt ! i) (dt ! i)"
      using assms by (simp add: mult_upto_def)
    note this [rule_format, OF lt]
    moreover have "(x * 2 ^ w + y) div 2 ^ w = x" "(x * 2 ^ w + y) mod 2 ^ w = y" using that by auto
    ultimately show ?thesis by simp
  qed
  then show ?thesis using assms by (auto simp: mult_tables_ok_def mult_upto_def mult_cell_def)
qed

lemma gf_elem_of_nat: "w \<le> 32 \<Longrightarrow> x < 2 ^ w \<Longrightarrow> gf_elem w (of_nat x) \<and> unat (of_nat x :: cint) = x"
  using pow2_le [of w 32] unat_of_nat_cint [of x] by (simp add: gf_elem_unat)

lemma mult_row_ok:
  assumes L: "log_tables_ok w lg ilg" and w: "gf_width w" "w \<le> 30"
    and x: "1 \<le> x" "x < 2 ^ w" and s: "mult_upto w (x * 2 ^ w) s"
  shows "\<exists>s'. mult_row w (Table 0 lg) (Table (gf_ord w) ilg) x s = Inr s' \<and> mult_upto w (Suc x * 2 ^ w) s'"
proof -
  obtain mt dt j where [simp]: "s = (mt, dt, j)" by (cases s)
  have get: "\<exists>n < gf_ord w. of_nat y = shift_pow w n 1 \<and> tab_get (Table 0 lg) (int y) = Inr (of_nat n)"
    if "1 \<le> y" "y < 2 ^ w" for y
  proof -
    have "gf_elem w (of_nat y)" "unat (of_nat y :: cint) = y" using gf_elem_of_nat [of w y] w that by simp_all
    moreover from this have "(of_nat y :: cint) \<noteq> 0" using that by (metis not_one_le_zero unat_0)
    ultimately show ?thesis using log_get [OF L w] by metis
  qed
  obtain m where m: "m < gf_ord w" "of_nat x = shift_pow w m 1" "tab_get (Table 0 lg) (int x) = Inr (of_nat m)"
    using get x by blast
  have "\<exists>s'. cfor 1 (2 ^ w) (\<lambda>y (mt, dt, j). run_bind (tab_get (Table 0 lg) (int y)) (\<lambda>logy.
         run_bind (tab_get (Table (gf_ord w) ilg) (sint (of_nat m + logy))) (\<lambda>z.
         run_bind (tab_get (Table (gf_ord w) ilg) (sint (of_nat m - logy))) (\<lambda>d.
           Inr (mt[j := z], dt[j := d], j + 1))))) (mt[j := 0], dt[j := -1], j + 1) = Inr s' \<and>
      mult_upto w (x * 2 ^ w + 2 ^ w) s'"
  proof (rule cfor_total [where P = "\<lambda>y. mult_upto w (x * 2 ^ w + y)"])
    show "mult_upto w (x * 2 ^ w + 1) (mt[j := 0], dt[j := -1], j + 1)"
      using mult_upto_write [of w "x * 2 ^ w" mt dt j x 0 0 "-1"] s x by (simp add: mult_cell_def)
  next
    fix y s assume y: "1 \<le> y" "y < 2 ^ w" and P: "mult_upto w (x * 2 ^ w + y) s"
    obtain mt dt j where [simp]: "s = (mt, dt, j)" by (cases s)
    obtain n where n: "n < gf_ord w" "of_nat y = shift_pow w n 1" "tab_get (Table 0 lg) (int y) = Inr (of_nat n)"
      using get y by blast
    obtain d where d: "tab_get (Table (gf_ord w) ilg) (sint (of_nat m - of_nat n :: cint)) = Inr d"
        "gf_quotient w (of_nat x) (of_nat y) d"
      using ilog_difference [OF L w m(1) n(1)] m(2) n(2) by auto
    have cell: "mult_cell w x y (gf_mul w (of_nat x) (of_nat y)) d" using d y by (simp add: mult_cell_def)
    show "\<exists>s'. (case s of (mt, dt, j) \<Rightarrow> run_bind (tab_get (Table 0 lg) (int y)) (\<lambda>logy.
         run_bind (tab_get (Table (gf_ord w) ilg) (sint (of_nat m + logy))) (\<lambda>z.
         run_bind (tab_get (Table (gf_ord w) ilg) (sint (of_nat m - logy))) (\<lambda>d.
           Inr (mt[j := z], dt[j := d], j + 1))))) = Inr s' \<and> mult_upto w (x * 2 ^ w + Suc y) s'"
      using mult_upto_write [OF P [simplified] refl x(2) y(2) cell] n(3) d(1)
        ilog_sum [OF L w m(1) n(1)] m(2) n(2) by (simp del: tab_get.simps)
  qed simp
  then show ?thesis using m(3) w by (simp add: mult_row_def unat_nw gf_width_bounds algebra_simps del: tab_get.simps)
qed

lemma mult_fill_ok:
  assumes L: "log_tables_ok w lg ilg" and w: "gf_width w" "w \<le> 30"
  shows "\<exists>mt dt j. mult_fill w (Table 0 lg) (Table (gf_ord w) ilg)
      (replicate (unat (nw w) * unat (nw w)) 0) (replicate (unat (nw w) * unat (nw w)) 0) = Inr (mt, dt, j) \<and>
    mult_tables_ok w mt dt"
proof -
  let ?z = "replicate (2 ^ w * 2 ^ w) (0::cint)"
  have w1: "1 \<le> w" "unat (nw w) = 2 ^ w" using w by (simp_all add: unat_nw)
  have row0: "mult_upto w (2 ^ w) (fold (\<lambda>y (mt, dt, j). (mt[j := 0], dt[j := 0], j + 1)) [1..<2 ^ w]
       (?z[0 := 0], ?z[0 := -1], 1))"
  proof (rule fold_upt_inv [where P = "mult_upto w"])
    show "mult_upto w 1 (?z[0 := 0], ?z[0 := -1], 1)"
      using mult_upto_write [of w 0 ?z ?z 0 0 0 0 "-1"] by (simp add: mult_upto_def mult_cell_def)
  next
    fix y s assume "1 \<le> y" "y < 2 ^ w" "mult_upto w y s"
    then show "mult_upto w (Suc y) (case s of (mt, dt, j) \<Rightarrow> (mt[j := 0], dt[j := 0], j + 1))"
      using mult_upto_write [of w y "fst s" "fst (snd s)" "snd (snd s)" 0 y 0 0]
      by (auto simp: mult_cell_def gf_quotient_def split: prod.splits)
  qed simp
  have "\<exists>s'. mult_fill w (Table 0 lg) (Table (gf_ord w) ilg) ?z ?z = Inr s' \<and> mult_upto w (2 ^ w * 2 ^ w) s'"
    unfolding mult_fill_def w1
    by (rule cfor_total [where P = "\<lambda>x. mult_upto w (x * 2 ^ w)"])
      (use row0 mult_row_ok [OF L w] in simp_all)
  then show ?thesis using mult_upto_all w1 by (metis prod_cases3)
qed

lemma fold_downt_inv0:
  "P n s \<Longrightarrow> (\<And>i s. i < n \<Longrightarrow> P (Suc i) s \<Longrightarrow> P i (f i s)) \<Longrightarrow> P 0 (fold f (rev [0..<n]) s)"
  by (induction n arbitrary: s) auto

declare scan_from.simps [simp del]

section \<open>Inversion of a binary matrix\<close>

text \<open>The exclusive-or of the rows of \<open>mat\<close> selected by the bits of \<open>z\<close>, and by a set.\<close>

definition row_comb :: "nat \<Rightarrow> cint list \<Rightarrow> cint \<Rightarrow> cint" where
  "row_comb n mat z = xsum (\<lambda>k. if bit z k then mat ! k else 0) {..<n}"

definition spanning :: "nat \<Rightarrow> cint list \<Rightarrow> bool" where
  "spanning n mat \<longleftrightarrow> (\<forall>k < n. \<exists>S \<subseteq> {..<n}. xsum ((!) mat) S = push_bit k 1)"

lemma row_comb_xor: "row_comb n mat (x XOR y) = row_comb n mat x XOR row_comb n mat y"
  unfolding row_comb_def bit_xor_iff by (rule xsum_if_xor)

lemma row_comb_unit: "k < n \<Longrightarrow> n \<le> 32 \<Longrightarrow> row_comb n mat (push_bit k 1) = mat ! k"
proof -
  assume "k < n" "n \<le> 32"
  then have "row_comb n mat (push_bit k 1) = xsum (\<lambda>i. if i = k then mat ! i else 0) {..<n}"
    unfolding row_comb_def by (intro xs.cong) (auto simp: bitsimps bit_1_iff)
  also have "\<dots> = mat ! k" using \<open>k < n\<close> by (simp add: xs.delta)
  finally show ?thesis .
qed

lemma xsum_toggle:
  assumes "finite S"
  shows "xsum f (if i \<in> S then S - {i} else insert i S) = xsum f S XOR f i"
  using assms by (auto simp: xs.insert_remove xor.commute xor.assoc xs.remove [of S i])

lemma spanning_add:
  assumes "spanning n mat" "i < n" "j < n" "i \<noteq> j" "n \<le> length mat"
  shows "spanning n (mat[j := mat ! j XOR mat ! i])"
  unfolding spanning_def
proof (intro allI impI)
  let ?m = "mat[j := mat ! j XOR mat ! i]"
  fix k assume "k < n"
  then obtain S where S: "S \<subseteq> {..<n}" "xsum ((!) mat) S = push_bit k 1"
    using assms(1) by (auto simp: spanning_def)
  have fin: "finite S" using S(1) finite_subset by blast
  have other: "xsum ((!) ?m) R = xsum ((!) mat) R" if "j \<notin> R" for R
    by (rule xs.cong) (use that in \<open>auto intro!: nth_list_update_neq\<close>)
  show "\<exists>S \<subseteq> {..<n}. xsum ((!) ?m) S = push_bit k 1"
  proof (cases "j \<in> S")
    case True
    let ?S = "if i \<in> S then S - {i} else insert i S"
    have "xsum ((!) ?m) S = xsum ((!) mat) S XOR mat ! i"
      using True fin assms other [of "S - {j}"] by (simp add: xs.remove [of S j] ac_simps)
    moreover have "?m ! i = mat ! i" using assms by simp
    ultimately have "xsum ((!) ?m) ?S = push_bit k 1"
      using xsum_toggle [OF fin, of "(!) ?m" i] S(2) by (simp add: xor.assoc)
    moreover have "?S \<subseteq> {..<n}" using S(1) assms(2) by auto
    ultimately show ?thesis by blast
  qed (use S other in auto)
qed

lemma spanning_swap:
  assumes "spanning n mat" "i < n" "j < n" "n \<le> length mat"
  shows "spanning n (swap_at i j mat)"
  unfolding spanning_def
proof (intro allI impI)
  let ?p = "\<lambda>x. if x = i then j else if x = j then i else x"
  fix k assume "k < n"
  then obtain S where S: "S \<subseteq> {..<n}" "xsum ((!) mat) S = push_bit k 1"
    using assms(1) by (auto simp: spanning_def)
  have "xsum ((!) (swap_at i j mat)) (?p ` S) = xsum ((!) (swap_at i j mat) \<circ> ?p) S"
    by (rule xs.reindex) (auto simp: inj_on_def split: if_splits)
  also have "\<dots> = xsum ((!) mat) S"
    by (rule xs.cong) (use assms S in \<open>auto simp: swap_at_def nth_list_update\<close>)
  finally have "xsum ((!) (swap_at i j mat)) (?p ` S) = push_bit k 1" using S(2) by simp
  moreover have "?p ` S \<subseteq> {..<n}" using S(1) assms by auto
  ultimately show "\<exists>S \<subseteq> {..<n}. xsum ((!) (swap_at i j mat)) S = push_bit k 1" by blast
qed

text \<open>What every row operation keeps, and the echelon form after \<open>i\<close> columns.\<close>

definition binmat_inv :: "nat \<Rightarrow> cint list \<Rightarrow> cint list \<times> cint list \<Rightarrow> bool" where
  "binmat_inv n M = (\<lambda>(mat, iv). n \<le> length mat \<and> length iv = n \<and>
     (\<forall>k < n. gf_elem n (iv ! k) \<and> mat ! k = row_comb n M (iv ! k)) \<and> (spanning n M \<longrightarrow> spanning n mat))"

definition echelon :: "nat \<Rightarrow> nat \<Rightarrow> cint list \<Rightarrow> bool" where
  "echelon n i mat \<longleftrightarrow> (\<forall>k < n. \<forall>c < i. c < k \<longrightarrow> \<not> bit (mat ! k) c) \<and> (\<forall>k < i. bit (mat ! k) k)"

lemma binmat_inv_add:
  assumes "binmat_inv n M (mat, iv)" "i < n" "j < n" "i \<noteq> j"
  shows "binmat_inv n M (mat[j := mat ! j XOR mat ! i], iv[j := iv ! j XOR iv ! i])"
  using assms spanning_add [of n mat i j]
  by (auto simp: binmat_inv_def nth_list_update row_comb_xor)

lemma binmat_inv_swap:
  assumes "binmat_inv n M (mat, iv)" "i < n" "j < n"
  shows "binmat_inv n M (swap_at i j mat, swap_at i j iv)"
  using assms spanning_swap [of n mat i j]
  by (auto simp: binmat_inv_def swap_at_def nth_list_update)

lemma binmat_eliminate:
  assumes "binmat_inv n M s" "echelon n i (fst s)" "bit (fst s ! i) i" "i < n"
  shows "let s' = fold (\<lambda>j (mat, iv). if mat ! j AND push_bit i 1 \<noteq> 0
           then (mat[j := mat ! j XOR mat ! i], iv[j := iv ! j XOR iv ! i]) else (mat, iv)) [i + 1..<n] s
    in binmat_inv n M s' \<and> echelon n (Suc i) (fst s')"
proof -
  let ?P = "\<lambda>j s. binmat_inv n M s \<and> echelon n i (fst s) \<and> bit (fst s ! i) i \<and>
    (\<forall>k. i < k \<longrightarrow> k < j \<longrightarrow> \<not> bit (fst s ! k) i)"
  define s' where "s' = fold (\<lambda>j (mat, iv). if mat ! j AND push_bit i 1 \<noteq> 0
           then (mat[j := mat ! j XOR mat ! i], iv[j := iv ! j XOR iv ! i]) else (mat, iv)) [i + 1..<n] s"
  have "?P n s'" unfolding s'_def
  proof (rule fold_upt_inv [where P = ?P])
    fix j t assume j: "i + 1 \<le> j" "j < n" and P: "?P j t"
    obtain mat iv where t: "t = (mat, iv)" by (cases t)
    show "?P (Suc j) (case t of (mat, iv) \<Rightarrow> if mat ! j AND push_bit i 1 \<noteq> 0
        then (mat[j := mat ! j XOR mat ! i], iv[j := iv ! j XOR iv ! i]) else (mat, iv))"
    proof (cases "bit (mat ! j) i")
      case True
      have "n \<le> length mat" using P by (simp add: t binmat_inv_def)
      then have "echelon n i (mat[j := mat ! j XOR mat ! i])"
        using P j assms(4) by (auto simp: t echelon_def nth_list_update bitsimps)
      then show ?thesis using True P j assms(4) binmat_inv_add [of n M mat iv i j] \<open>n \<le> length mat\<close>
        by (auto simp: t and_push_bit_1 less_Suc_eq nth_list_update bitsimps)
    qed (use P in \<open>auto simp: t and_push_bit_1 less_Suc_eq\<close>)
  qed (use assms in auto)
  then show ?thesis using assms(4) by (auto simp: s'_def Let_def echelon_def less_Suc_eq)
qed

lemma scan_from_spec:
  "j \<le> n \<Longrightarrow> j \<le> scan_from p j n \<and> scan_from p j n \<le> n \<and> (scan_from p j n < n \<longrightarrow> p (scan_from p j n)) \<and>
   (\<forall>k. j \<le> k \<longrightarrow> k < scan_from p j n \<longrightarrow> \<not> p k)"
proof (induction p j n rule: scan_from.induct)
  case (1 p j n)
  show ?case
  proof (cases "j < n \<and> \<not> p j")
    case True
    then have "scan_from p j n = scan_from p (Suc j) n" by (subst scan_from.simps) simp
    moreover have "\<not> p k" if "j \<le> k" "k < scan_from p (Suc j) n" for k
      using that True 1 by (cases "k = j") auto
    ultimately show ?thesis using True 1 by simp
  next
    case False
    then have "scan_from p j n = j" by (subst scan_from.simps) auto
    then show ?thesis using False 1 by auto
  qed
qed

lemma binmat_column_ok:
  assumes "binmat_inv n M s" "echelon n i (fst s)" "i < n"
  shows "case binmat_column n i s of
      Inr s' \<Rightarrow> binmat_inv n M s' \<and> echelon n (Suc i) (fst s')
    | Inl e \<Rightarrow> e = Exit \<and> (\<forall>k < n. i \<le> k \<longrightarrow> \<not> bit (fst s ! k) i)"
proof -
  obtain mat iv where s: "s = (mat, iv)" by (cases s)
  have len: "n \<le> length mat" using assms by (simp add: s binmat_inv_def)
  show ?thesis
  proof (cases "bit (mat ! i) i")
    case True
    then have "mat ! i AND push_bit i 1 \<noteq> 0" by (simp add: and_push_bit_1)
    then show ?thesis using True binmat_eliminate [of n M s i] assms
      by (simp add: binmat_column_def s Let_def)
  next
    case False
    let ?j = "scan_from (\<lambda>j. mat ! j AND push_bit i 1 \<noteq> 0) (i + 1) n"
    have j: "i + 1 \<le> ?j" "?j \<le> n" "?j < n \<Longrightarrow> bit (mat ! ?j) i"
        "\<And>k. i + 1 \<le> k \<Longrightarrow> k < ?j \<Longrightarrow> \<not> bit (mat ! k) i"
      using scan_from_spec [of "i + 1" n "\<lambda>j. mat ! j AND push_bit i 1 \<noteq> 0"] assms(3)
      by (auto simp: and_push_bit_1)
    have test: "mat ! i AND push_bit i 1 = 0" using False and_push_bit_1 by blast
    show ?thesis
    proof (cases "?j = n")
      case True
      have "\<not> bit (mat ! k) i" if "i \<le> k" "k < n" for k
        using that j(4) [of k] True False by (cases "k = i") auto
      then show ?thesis using test True by (simp add: binmat_column_def s)
    next
      case ne: False
      then have jn: "?j < n" using j(2) by simp
      let ?s = "(swap_at i ?j mat, swap_at i ?j iv)"
      have "binmat_inv n M ?s" using binmat_inv_swap assms jn by (auto simp: s)
      moreover have "echelon n i (fst ?s)" using assms(2,3) jn j(1) len
        by (auto simp: s echelon_def swap_at_def nth_list_update)
      moreover have "bit (fst ?s ! i) i" using j(1,3) jn len assms(3)
        by (simp add: swap_at_def nth_list_update)
      ultimately show ?thesis using binmat_eliminate [of n M ?s i] assms(3) test ne
        by (simp add: binmat_column_def s Let_def)
    qed
  qed
qed


lemma spanning_pivot:
  assumes "spanning n mat" "echelon n i mat" "i < n" "n \<le> 32"
  shows "\<exists>k < n. i \<le> k \<and> bit (mat ! k) i"
proof (rule ccontr)
  assume "\<not> ?thesis"
  then have zero: "\<not> bit (mat ! k) i" if "i \<le> k" "k < n" for k using that by blast
  obtain S where S: "S \<subseteq> {..<n}" "xsum ((!) mat) S = push_bit i 1"
    using assms by (auto simp: spanning_def)
  have fin: "finite S" using S(1) finite_subset by blast
  have none: "\<not> bit (xsum ((!) mat) R) c" if "finite R" "\<forall>k \<in> R. \<not> bit (mat ! k) c" for R c
    using that by (induction R rule: finite_induct) (auto simp: bitsimps)
  have "i \<le> k" if "k \<in> S" for k
  proof (rule ccontr)
    assume "\<not> i \<le> k"
    define m where "m = Min S"
    have "m \<le> k" unfolding m_def by (rule Min_le [OF fin that])
    moreover have "m \<in> S" unfolding m_def using Min_in [OF fin] that by blast
    ultimately have m: "m \<in> S" "m < i" "\<And>k. k \<in> S \<Longrightarrow> m \<le> k"
      using \<open>\<not> i \<le> k\<close> fin by (auto simp: m_def)
    have "\<not> bit (xsum ((!) mat) (S - {m})) m"
      using assms(2) m S(1) by (intro none) (auto simp: fin echelon_def le_less)
    moreover have "bit (mat ! m) m" using assms(2) m(2) by (simp add: echelon_def)
    ultimately have "bit (xsum ((!) mat) S) m"
      using m(1) fin by (simp add: xs.remove [of S m] bitsimps)
    then show False using m(2) by (auto simp: S(2) bitsimps bit_1_iff)
  qed
  then have "\<not> bit (xsum ((!) mat) S) i" using S(1) zero by (intro none fin) auto
  then show False using assms(3,4) by (simp add: S(2) bitsimps)
qed

lemma binmat_upper:
  assumes "n \<le> length M" "n \<le> 32"
  shows "case cfor 0 n (binmat_column n) (M, map (\<lambda>i. push_bit i 1) [0..<n]) of
      Inr s \<Rightarrow> binmat_inv n M s \<and> echelon n n (fst s)
    | Inl e \<Rightarrow> e = Exit \<and> \<not> spanning n M"
proof -
  have init: "binmat_inv n M (M, map (\<lambda>i. push_bit i 1) [0..<n])"
    using assms by (auto simp: binmat_inv_def row_comb_unit gf_elem_bit bitsimps bit_1_iff)
  have "i \<le> n \<Longrightarrow> case cfor 0 i (binmat_column n) (M, map (\<lambda>i. push_bit i 1) [0..<n]) of
      Inr s \<Rightarrow> binmat_inv n M s \<and> echelon n i (fst s)
    | Inl e \<Rightarrow> e = Exit \<and> \<not> spanning n M" for i
  proof (induction i)
    case 0
    then show ?case using init by (simp add: echelon_def)
  next
    case (Suc i)
    show ?case
    proof (cases "cfor 0 i (binmat_column n) (M, map (\<lambda>i. push_bit i 1) [0..<n])")
      case (Inr s)
      then have s: "binmat_inv n M s" "echelon n i (fst s)" using Suc by auto
      show ?thesis using Inr binmat_column_ok [OF s] Suc.prems assms(2) s
          spanning_pivot [of n "fst s" i]
        by (auto simp: cfor_Suc binmat_inv_def split: sum.splits)
    qed (use Suc in \<open>auto simp: cfor_Suc\<close>)
  qed
  then show ?thesis by simp
qed

text \<open>
  The whole routine: a row of the result selects the rows of the argument whose exclusive-or is the
  unit vector; it exits exactly when the rows do not span.
\<close>

lemma binmat_back_step:
  assumes "echelon n n mat" "i < n" "n \<le> 32" "length iv = n" "\<forall>j < n. gf_elem n (iv ! j)"
    and iv: "\<forall>j < n. \<forall>c < n. bit (row_comb n M (iv ! j)) c \<longleftrightarrow> bit (mat ! j) c \<and> (c < Suc i \<or> c \<le> j)"
  shows "let iv' = fold (\<lambda>j iv. if mat ! j AND push_bit i 1 \<noteq> 0 then iv[j := iv ! j XOR iv ! i] else iv) [0..<i] iv
    in length iv' = n \<and> (\<forall>j < n. gf_elem n (iv' ! j)) \<and>
      (\<forall>j < n. \<forall>c < n. bit (row_comb n M (iv' ! j)) c \<longleftrightarrow> bit (mat ! j) c \<and> (c < i \<or> c \<le> j))"
proof -
  define r where "r = fold (\<lambda>j iv. if mat ! j AND push_bit i 1 \<noteq> 0 then iv[j := iv ! j XOR iv ! i] else iv) [0..<i] iv"
  let ?P = "\<lambda>k r. length r = n \<and> (\<forall>j < n. r ! j = (if j < k \<and> bit (mat ! j) i then iv ! j XOR iv ! i else iv ! j))"
  have "?P i r" unfolding r_def
    by (rule fold_upt_inv0 [where P = ?P])
      (use assms in \<open>auto simp: and_push_bit_1 nth_list_update less_Suc_eq\<close>)
  moreover have unit: "bit (row_comb n M (iv ! i)) c \<longleftrightarrow> c = i" if "c < n" for c
    using iv assms(1,2) that by (auto simp: echelon_def le_less less_Suc_eq)
  ultimately show ?thesis using iv assms(1,2,5)
    by (auto simp: r_def [symmetric] Let_def row_comb_xor bit_xor_iff less_Suc_eq le_less echelon_def)
qed

theorem invert_binary_matrix_correct:
  assumes "n \<le> length M" "n \<le> 32" "\<forall>k < n. gf_elem n (M ! k)"
  shows "case galois_invert_binary_matrix M n of
      Inr (mat, iv) \<Rightarrow> length iv = n \<and> (\<forall>j < n. gf_elem n (iv ! j) \<and> row_comb n M (iv ! j) = push_bit j 1)
    | Inl e \<Rightarrow> e = Exit \<and> \<not> spanning n M"
proof (cases "cfor 0 n (binmat_column n) (M, map (\<lambda>i. push_bit i 1) [0..<n])")
  case (Inl e)
  then show ?thesis using binmat_upper [OF assms(1,2)]
    by (simp add: galois_invert_binary_matrix_def cfor_def)
next
  case (Inr s)
  obtain mat iv where s: "s = (mat, iv)" by (cases s)
  have inv: "binmat_inv n M (mat, iv)" "echelon n n mat"
    using binmat_upper [OF assms(1,2)] Inr by (auto simp: s)
  let ?P = "\<lambda>i r. length r = n \<and> (\<forall>j < n. gf_elem n (r ! j)) \<and> (\<forall>j < n. \<forall>c < n. bit (row_comb n M (r ! j)) c \<longleftrightarrow> bit (mat ! j) c \<and> (c < i \<or> c \<le> j))"
  define r where "r = fold (\<lambda>i iv. fold (\<lambda>j iv. if mat ! j AND push_bit i 1 \<noteq> 0
      then iv[j := iv ! j XOR iv ! i] else iv) [0..<i] iv) (rev [0..<n]) iv"
  have "?P 0 r" unfolding r_def
    by (rule fold_downt_inv0 [where P = ?P])
      (use inv binmat_back_step [OF inv(2) _ assms(2)] in \<open>auto simp: binmat_inv_def Let_def\<close>)
  have elem: "gf_elem n (row_comb n M z)" for z
    using assms(3) by (auto simp: row_comb_def intro!: gf_elem_xsum)
  have unit: "bit (row_comb n M (r ! j)) c \<longleftrightarrow> c = j" if "j < n" "c < n" for j c
    using that \<open>?P 0 r\<close> inv(2) by (auto simp: echelon_def le_less)
  have "row_comb n M (r ! j) = push_bit j 1" if "j < n" for j
  proof (rule bit_word_eqI)
    fix c assume "c < LENGTH(32)"
    then show "bit (row_comb n M (r ! j)) c = bit (push_bit j (1::cint)) c"
      using elem [of "r ! j"] unit [OF that, of c] that
      by (cases "c < n") (auto simp: bitsimps bit_1_iff gf_elem_bit)
  qed
  then show ?thesis using Inr \<open>?P 0 r\<close>
    by (simp add: galois_invert_binary_matrix_def cfor_def s r_def)
qed

section \<open>The inverse by matrix inversion\<close>

lemma shift_inverse_rows:
  assumes "2 \<le> w" "w \<le> 32" "gf_elem w y"
  shows "let mat2 = snd (fold (\<lambda>i (y, mat2).
           ((if y AND nw (w - 1) \<noteq> 0 then (push_bit 1 y XOR prim_poly w) AND nwm1 w
             else push_bit 1 y), mat2[i := y])) [0..<w] (y, replicate 32 0))
    in length mat2 = 32 \<and> (\<forall>i < w. mat2 ! i = shift_pow w i y)"
proof -
  have "nw (w - 1) = push_bit (w - 1) 1" using assms by (auto simp: nw_def)
  then have step: "(if y AND nw (w - 1) \<noteq> 0 then (push_bit 1 y XOR prim_poly w) AND nwm1 w
      else push_bit 1 y) = shift_next w y" for y by (simp add: shift_next_def)
  let ?P = "\<lambda>i (z, m). z = shift_pow w i y \<and> length m = 32 \<and> (\<forall>k < i. m ! k = shift_pow w k y)"
  have "?P w (fold (\<lambda>i (y, mat2). (shift_next w y, mat2[i := y])) [0..<w] (y, replicate 32 0))"
    by (rule fold_upt_inv0 [where P = ?P]) (use assms in \<open>auto simp: nth_list_update less_Suc_eq\<close>)
  then show ?thesis unfolding step by (auto simp: Let_def split: prod.splits)
qed

lemma row_comb_shift_pow:
  assumes "\<forall>i < w. mat ! i = shift_pow w i y"
  shows "row_comb w mat z = gf_mul w z y"
  unfolding row_comb_def gf_mul_xsum by (rule xs.cong) (use assms in auto)

lemma shift_rows_spanning:
  assumes "gf_width w" "gf_elem w y" "y \<noteq> 0" and rows: "\<forall>i < w. mat ! i = shift_pow w i y"
  shows "spanning w mat"
  unfolding spanning_def
proof (intro allI impI)
  fix k assume "k < w"
  obtain iv where iv: "gf_elem w iv" "gf_mul w y iv = 1" using gf_inverse_exists assms(1-3) by blast
  have k: "gf_elem w (push_bit k 1)" using \<open>k < w\<close> by (auto simp: gf_elem_bit bitsimps bit_1_iff)
  let ?z = "gf_mul w (push_bit k 1) iv"
  have "gf_mul w ?z y = gf_mul w (push_bit k 1) (gf_mul w y iv)"
    using assms iv k gf_mul_assoc [of w "push_bit k 1" iv y] gf_mul_commute [of w iv y] by simp
  then have "row_comb w mat ?z = push_bit k 1"
    using row_comb_shift_pow [OF rows] iv k assms by (simp add: gf_mul_1_right)
  moreover have "row_comb w mat ?z = xsum ((!) mat) {i. i < w \<and> bit ?z i}"
  proof -
    have "xsum ((!) mat) {i. i < w \<and> bit ?z i} = xsum ((!) mat) ({..<w} \<inter> {i. bit ?z i})"
      by (rule arg_cong [where f = "xsum _"]) auto
    then show ?thesis by (simp add: row_comb_def xs.inter_restrict)
  qed
  ultimately show "\<exists>S \<subseteq> {..<w}. xsum ((!) mat) S = push_bit k 1"
    by (intro exI [of _ "{i. i < w \<and> bit ?z i}"]) auto
qed

lemma shift_inverse_correct:
  assumes "gf_width w" "2 \<le> w" "gf_elem w y" "y \<noteq> 0"
  shows "\<exists>z. galois_shift_inverse y w = Inr z \<and> gf_elem w z \<and> gf_mul w y z = 1"
proof -
  define mat2 where "mat2 = snd (fold (\<lambda>i (y, mat2).
           ((if y AND nw (w - 1) \<noteq> 0 then (push_bit 1 y XOR prim_poly w) AND nwm1 w
             else push_bit 1 y), mat2[i := y])) [0..<w] (y, replicate 32 0))"
  have rows: "length mat2 = 32" "\<forall>i < w. mat2 ! i = shift_pow w i y"
    using shift_inverse_rows [of w y] assms by (auto simp: mat2_def Let_def)
  have elems: "\<forall>k < w. gf_elem w (mat2 ! k)" using rows assms by simp
  obtain mat iv where iv: "galois_invert_binary_matrix mat2 w = Inr (mat, iv)"
      "\<forall>j < w. gf_elem w (iv ! j) \<and> row_comb w mat2 (iv ! j) = push_bit j 1"
    using invert_binary_matrix_correct [OF _ _ elems] rows(1) assms
      shift_rows_spanning [OF assms(1,3,4) rows(2)]
    by (cases "galois_invert_binary_matrix mat2 w") (auto split: prod.splits)
  have "galois_shift_inverse y w = Inr (iv ! 0)"
    using iv(1) by (simp add: galois_shift_inverse_def mat2_def)
  moreover have "gf_elem w (iv ! 0) \<and> gf_mul w (iv ! 0) y = 1"
    using iv(2) assms(2) row_comb_shift_pow [OF rows(2)] by force
  ultimately show ?thesis using gf_mul_commute [of w "iv ! 0" y] assms by auto
qed

section \<open>The split tables\<close>

lemma shift_pow_push:
  assumes "1 \<le> w" "w \<le> 32" "gf_elem m y"
  shows "m + n \<le> w \<Longrightarrow> shift_pow w n y = push_bit n y"
proof (induction n)
  case (Suc n)
  have "gf_elem w (push_bit n y)" "\<not> bit (push_bit n y) (w - 1)"
    using assms(3) Suc.prems by (fastforce simp: gf_elem_bit bitsimps)+
  then show ?case using Suc assms
    by (auto intro!: bit_word_eqI simp: shift_next_eq bitsimps gf_elem_bit)
qed simp

lemma gf_mul_shifts:
  assumes "1 \<le> w" "w \<le> 32" "gf_elem w x" "gf_elem w y"
  shows "gf_mul w (shift_pow w a x) (shift_pow w b y) = shift_pow w (a + b) (gf_mul w x y)"
  using assms gf_mul_commute [of w "shift_pow w a x" y] gf_mul_commute [of w x y]
  by (simp add: gf_mul_shift_pow funpow_add add.commute [of a])

definition split_table_ok :: "nat \<Rightarrow> cint list \<Rightarrow> bool" where
  "split_table_ok k tab \<longleftrightarrow> length tab = 65536 \<and>
     (\<forall>p1 < 256. \<forall>p2 < 256. tab ! (p1 * 256 + p2) = shift_pow 32 (8 * k) (gf_mul 32 (of_nat p1) (of_nat p2)))"

lemma gf_elem_32 [simp]: "gf_elem 32 x"
  by (auto simp: gf_elem_bit dest: bit_imp_le_length)

lemma split_entry:
  assumes "p1 < 256" "p2 < 256" "i < 4" "j < 4"
  shows "galois_shift_multiply (push_bit (i * 8) (of_nat p1)) (push_bit (j * 8) (of_nat p2)) 32
    = shift_pow 32 (8 * (i + j)) (gf_mul 32 (of_nat p1) (of_nat p2))"
proof -
  have p: "gf_elem 8 (of_nat p1)" "gf_elem 8 (of_nat p2)"
    using gf_elem_of_nat [of 8] assms by simp_all
  have "push_bit (i * 8) (of_nat p1) = shift_pow 32 (i * 8) (of_nat p1)"
    "push_bit (j * 8) (of_nat p2) = shift_pow 32 (j * 8) (of_nat p2)"
    using shift_pow_push [OF _ _ p(1), of 32 "i * 8"] shift_pow_push [OF _ _ p(2), of 32 "j * 8"] assms(3,4)
    by simp_all
  moreover have "8 * (i + j) = i * 8 + j * 8" by simp
  ultimately show ?thesis by (simp add: galois_shift_multiply_eq gf_mul_shifts algebra_simps)
qed

lemma split_fill_ok:
  assumes "i < 4" "j < 4"
  shows "split_table_ok (i + j) (split_fill i j)"
proof -
  let ?f = "\<lambda>p1 p2. galois_shift_multiply (push_bit (i * 8) (of_nat p1)) (push_bit (j * 8) (of_nat p2)) 32"
  let ?P = "\<lambda>n (tab, index). index = n \<and> length tab = 65536 \<and>
     (\<forall>k < n. tab ! k = ?f (k div 256) (k mod 256))"
  have row: "?P (p1 * 256 + 256) (fold (\<lambda>p2 (tab, index). (tab[index := ?f p1 p2], index + 1)) [0..<256] s)"
    if "p1 < 256" "?P (p1 * 256) s" for p1 s
  proof (rule fold_upt_inv0 [where P = "\<lambda>p2. ?P (p1 * 256 + p2)"])
    show "?P (p1 * 256 + 0) s" using that(2) by simp
  next
    fix p2 s assume p2: "p2 < (256::nat)" and P: "?P (p1 * 256 + p2) s"
    have "(p1 * 256 + p2) div 256 = p1" "(p1 * 256 + p2) mod 256 = p2" using p2 by auto
    then show "?P (p1 * 256 + Suc p2) (case s of (tab, index) \<Rightarrow> (tab[index := ?f p1 p2], index + 1))"
      using P p2 that(1) by (auto simp: nth_list_update less_Suc_eq)
  qed
  have P: "?P (256 * 256) (fold (\<lambda>p1 s. fold (\<lambda>p2 (tab, index). (tab[index := ?f p1 p2], index + 1)) [0..<256] s)
          [0..<256] (replicate 65536 0, 0))"
    by (rule fold_upt_inv0 [where P = "\<lambda>p1. ?P (p1 * 256)"]) (use row in \<open>simp_all add: add.commute\<close>)
  then have len: "length (split_fill i j) = 65536"
    and all: "\<And>k. k < 65536 \<Longrightarrow> split_fill i j ! k = ?f (k div 256) (k mod 256)"
    unfolding split_fill_def by (auto split: prod.splits)
  have "split_fill i j ! (p1 * 256 + p2) = shift_pow 32 (8 * (i + j)) (gf_mul 32 (of_nat p1) (of_nat p2))"
    if "p1 < 256" "p2 < 256" for p1 p2
  proof -
    have "(p1 * 256 + p2) div 256 = p1" "(p1 * 256 + p2) mod 256 = p2" "p1 * 256 + p2 < 65536"
      using that by auto
    then show ?thesis using all [of "p1 * 256 + p2"] split_entry [OF that assms] by simp
  qed
  then show ?thesis using len by (simp add: split_table_ok_def)
qed

lemma take_bit_bytes: "take_bit (8 * k) (x::cint) = xsum (\<lambda>i. push_bit (8 * i) (take_bit 8 (drop_bit (8 * i) x))) {..<k}"
proof (induction k)
  case (Suc k)
  have "take_bit (8 * Suc k) x = take_bit (8 * k) x XOR push_bit (8 * k) (take_bit 8 (drop_bit (8 * k) x))"
    by (rule bit_word_eqI) (auto simp: bitsimps bit_drop_bit_eq)
  then show ?case by (simp add: Suc.IH)
qed simp

lemma take_bit_full: "take_bit 32 (x::cint) = x"
  by (rule bit_word_eqI) (auto simp: bitsimps)

lemma gf_mul_xsum_left: "gf_mul w (xsum f A) y = xsum (\<lambda>i. gf_mul w (f i) y) A"
  by (rule xsum_hom [where P = "\<lambda>_. True", THEN conjunct1]) (auto simp: gf_mul_xor_left)

text \<open>The product of width 32 from the products of the bytes.\<close>

lemma gf_mul_bytes:
  "gf_mul 32 x y = xsum (\<lambda>i. xsum (\<lambda>j. shift_pow 32 (8 * (i + j))
     (gf_mul 32 (take_bit 8 (drop_bit (8 * i) x)) (take_bit 8 (drop_bit (8 * j) y)))) {..<4}) {..<4}"
proof -
  have x: "x = xsum (\<lambda>i. push_bit (8 * i) (take_bit 8 (drop_bit (8 * i) x))) {..<4}" for x :: cint
    using take_bit_bytes [of 4 x] take_bit_full [of x] by simp
  have b: "gf_mul 32 (push_bit (8 * i) (take_bit 8 (drop_bit (8 * i) x))) (push_bit (8 * j) (take_bit 8 (drop_bit (8 * j) y)))
    = shift_pow 32 (8 * (i + j)) (gf_mul 32 (take_bit 8 (drop_bit (8 * i) x)) (take_bit 8 (drop_bit (8 * j) y)))"
    if "i < 4" "j < 4" for i j
    using that shift_pow_push [of 32 8 "take_bit 8 (drop_bit (8 * i) x)" "8 * i"]
      shift_pow_push [of 32 8 "take_bit 8 (drop_bit (8 * j) y)" "8 * j"]
      gf_mul_shifts [of 32 "take_bit 8 (drop_bit (8 * i) x)" "take_bit 8 (drop_bit (8 * j) y)" "8 * i" "8 * j"]
    by (simp add: distrib_left)
  show ?thesis
    by (subst x [of x], subst x [of y])
      (auto simp: gf_mul_xsum_left gf_mul_xsum_right b intro!: xs.cong)
qed

end
