(* ===== verification/Galois_State.thy ===== *)
theory Galois_State
  imports Galois_Correct
begin

unbundle bit_operations_syntax

text \<open>
  The static tables of \<^verbatim>\<open>galois.c\<close> as a state: the invariant \<open>galois_ok\<close>, that every operation keeps
  it whatever \<^verbatim>\<open>malloc\<close> returns, and what the products, quotients and inverses return.  A run that
  needs a table it cannot allocate ends in \<^verbatim>\<open>exit(1)\<close>; every other run returns the value of the field.
  The last section states the interface \<open>xor_field\<close> that the matrix code relies on, and that every
  supported width provides it.
\<close>

section \<open>The invariant of the tables\<close>

fun log_entry_ok :: "nat \<Rightarrow> table \<Rightarrow> table \<Rightarrow> bool" where
  "log_entry_ok w NULL NULL \<longleftrightarrow> True"
| "log_entry_ok w (Table b lg) (Table c ilg) \<longleftrightarrow> b = 0 \<and> c = gf_ord w \<and> log_tables_ok w lg ilg"
| "log_entry_ok w _ _ \<longleftrightarrow> False"

fun mult_entry_ok :: "nat \<Rightarrow> table \<Rightarrow> table \<Rightarrow> bool" where
  "mult_entry_ok w NULL NULL \<longleftrightarrow> True"
| "mult_entry_ok w (Table b mt) (Table c dt) \<longleftrightarrow> b = 0 \<and> c = 0 \<and> mult_tables_ok w mt dt"
| "mult_entry_ok w _ _ \<longleftrightarrow> False"

fun split_entry_ok :: "nat \<Rightarrow> table \<Rightarrow> bool" where
  "split_entry_ok k (Table b tab) \<longleftrightarrow> b = 0 \<and> split_table_ok k tab"
| "split_entry_ok k _ \<longleftrightarrow> False"

definition logs_ok :: "galois \<Rightarrow> bool" where
  "logs_ok st \<longleftrightarrow> (\<forall>w. 1 \<le> w \<longrightarrow> w \<le> 30 \<longrightarrow>
     log_entry_ok w (galois_log_tables st w) (galois_ilog_tables st w))"

definition mults_ok :: "galois \<Rightarrow> bool" where
  "mults_ok st \<longleftrightarrow> (\<forall>w. 1 \<le> w \<longrightarrow> w \<le> 13 \<longrightarrow>
     mult_entry_ok w (galois_mult_tables st w) (galois_div_tables st w))"

definition split_ok :: "galois \<Rightarrow> bool" where
  "split_ok st \<longleftrightarrow> galois_split_w8 st 0 = NULL \<or> (\<forall>k < 7. split_entry_ok k (galois_split_w8 st k))"

definition galois_ok :: "galois \<Rightarrow> bool" where
  "galois_ok st \<longleftrightarrow> logs_ok st \<and> mults_ok st \<and> split_ok st"

lemma log_entry_cases:
  assumes "log_entry_ok w t u"
  obtains "t = NULL" "u = NULL" | lg ilg where "t = Table 0 lg" "u = Table (gf_ord w) ilg" "log_tables_ok w lg ilg"
  using assms by (cases "(w, t, u)" rule: log_entry_ok.cases) auto

lemma mult_entry_cases:
  assumes "mult_entry_ok w t u"
  obtains "t = NULL" "u = NULL" | mt dt where "t = Table 0 mt" "u = Table 0 dt" "mult_tables_ok w mt dt"
  using assms by (cases "(w, t, u)" rule: mult_entry_ok.cases) auto

lemma galois_ok_init: "galois_ok galois_init"
  by (simp add: galois_ok_def logs_ok_def mults_ok_def split_ok_def galois_init_def)

text \<open>
  The outcome of an operation on the tables: the invariant is kept, and when memory does not run
  out the operation succeeds.
\<close>

lemma create_log_tables_ok:
  assumes "logs_ok st" "1 \<le> w" "w \<le> 30"
  shows "\<exists>rc st'. galois_create_log_tables w st = Inr (rc, st') \<and> logs_ok st' \<and> (rc = 0 \<or> rc = -1) \<and>
    (rc = 0 \<longrightarrow> galois_log_tables st' w \<noteq> NULL) \<and> (mallocs st = [] \<longrightarrow> rc = 0 \<and> mallocs st' = []) \<and>
    galois_mult_tables st' = galois_mult_tables st \<and> galois_div_tables st' = galois_div_tables st \<and>
    galois_split_w8 st' = galois_split_w8 st"
proof (cases "galois_log_tables st w")
  case NULL
  then have inull: "galois_ilog_tables st w = NULL"
    using assms by (auto simp: logs_ok_def elim!: log_entry_cases [of w NULL])
  obtain lg ilg where fill: "log_fill w (replicate (unat (nw w)) 0) (replicate (unat (nw w) * 3) 0) = Inr (lg, ilg)"
      "log_tables_ok w lg ilg" using log_fill_ok assms by blast
  show ?thesis using NULL inull fill assms
    by (cases "mallocs st")
      (simp_all add: galois_create_log_tables_def malloc_table_def logs_ok_def unat_nwm1 Let_def)
qed (use assms in \<open>auto simp: galois_create_log_tables_def\<close>)

lemma log_tables_of_ok:
  assumes "logs_ok st" "1 \<le> w" "w \<le> 30" "galois_log_tables st w \<noteq> NULL"
  obtains lg ilg where "galois_log_tables st w = Table 0 lg"
    "galois_ilog_tables st w = Table (gf_ord w) ilg" "log_tables_ok w lg ilg"
  using assms unfolding logs_ok_def by (metis log_entry_cases)

lemma mult_tables_of_ok:
  assumes "mults_ok st" "1 \<le> w" "w \<le> 13" "galois_mult_tables st w \<noteq> NULL \<or> galois_div_tables st w \<noteq> NULL"
  obtains mt dt where "galois_mult_tables st w = Table 0 mt" "galois_div_tables st w = Table 0 dt"
    "mult_tables_ok w mt dt"
  using assms unfolding mults_ok_def by (metis mult_entry_cases)

lemma mults_ok_update:
  assumes "mults_ok st" "mult_entry_ok w t u"
    "galois_mult_tables st' = (galois_mult_tables st)(w := t)" "galois_div_tables st' = (galois_div_tables st)(w := u)"
  shows "mults_ok st'"
  using assms by (simp add: mults_ok_def)

lemma need_log_ok:
  assumes "logs_ok st" "1 \<le> w" "w \<le> 30"
  shows "\<exists>rc st'. (if galois_log_tables st w = NULL then galois_create_log_tables w st else Inr (0, st)) = Inr (rc, st') \<and>
    logs_ok st' \<and> (rc = 0 \<or> rc = -1) \<and>
    (rc = 0 \<longrightarrow> galois_log_tables st' w \<noteq> NULL) \<and> (mallocs st = [] \<longrightarrow> rc = 0 \<and> mallocs st' = []) \<and>
    galois_mult_tables st' = galois_mult_tables st \<and> galois_div_tables st' = galois_div_tables st \<and>
    galois_split_w8 st' = galois_split_w8 st"
  using create_log_tables_ok [OF assms] assms(1) by auto

lemma create_mult_tables_ok:
  assumes "galois_ok st" "1 \<le> w" "w \<le> 13"
  shows "\<exists>rc st'. galois_create_mult_tables w st = Inr (rc, st') \<and> galois_ok st' \<and> (rc = 0 \<or> rc = -1) \<and>
    (rc = 0 \<longrightarrow> galois_mult_tables st' w \<noteq> NULL) \<and> (mallocs st = [] \<longrightarrow> rc = 0 \<and> mallocs st' = []) \<and>
    galois_split_w8 st' = galois_split_w8 st"
proof (cases "galois_mult_tables st w = NULL")
  case True
  have ok: "logs_ok st" "mults_ok st" "split_ok st" using assms(1) by (auto simp: galois_ok_def)
  have dnull: "galois_div_tables st w = NULL"
    using ok(2) assms True by (auto simp: mults_ok_def elim!: mult_entry_cases [of w NULL])
  let ?n = "unat (nw w) * unat (nw w)"
  let ?z = "replicate ?n (0::cint)"
  define st1 where "st1 = st\<lparr>galois_mult_tables := (galois_mult_tables st)(w := Table 0 ?z),
     mallocs := tl (tl (mallocs st)), galois_div_tables := (galois_div_tables st)(w := Table 0 ?z)\<rparr>"
  have "logs_ok st1" using ok by (simp add: st1_def logs_ok_def)
  then obtain rc st2 where lg: "(if galois_log_tables st1 w = NULL then galois_create_log_tables w st1 else Inr (0, st1)) = Inr (rc, st2)"
      "logs_ok st2" "rc = 0 \<or> rc = -1" "rc = 0 \<longrightarrow> galois_log_tables st2 w \<noteq> NULL"
      "mallocs st1 = [] \<longrightarrow> rc = 0 \<and> mallocs st2 = []"
      "galois_mult_tables st2 = galois_mult_tables st1" "galois_div_tables st2 = galois_div_tables st1"
      "galois_split_w8 st2 = galois_split_w8 st1"
    using need_log_ok [of st1 w] assms by auto
  have fill: "\<exists>mt dt j. mult_fill w (galois_log_tables st2 w) (galois_ilog_tables st2 w) ?z ?z = Inr (mt, dt, j) \<and> mult_tables_ok w mt dt"
    if rc: "rc = 0"
  proof -
    obtain lg ilg where "galois_log_tables st2 w = Table 0 lg"
      "galois_ilog_tables st2 w = Table (gf_ord w) ilg" "log_tables_ok w lg ilg"
      by (rule log_tables_of_ok [OF \<open>logs_ok st2\<close> assms(2)]) (use assms lg(4) rc in auto)
    then show ?thesis using mult_fill_ok [of w lg ilg] assms by (simp add: gf_width_small)
  qed
  consider "mallocs st \<noteq> []" "\<not> hd (mallocs st)"
    | "mallocs st = [] \<or> hd (mallocs st)" "tl (mallocs st) \<noteq> []" "\<not> hd (tl (mallocs st))"
    | "mallocs st = [] \<or> hd (mallocs st)" "tl (mallocs st) = [] \<or> hd (tl (mallocs st))" by blast
  then show ?thesis
  proof cases
    case 1
    then show ?thesis using True ok assms
      by (auto simp: galois_create_mult_tables_def malloc_table_def galois_ok_def logs_ok_def mults_ok_def split_ok_def)
  next
    case 2
    then show ?thesis using True dnull ok assms
      by (cases "mallocs st")
        (auto simp: galois_create_mult_tables_def malloc_table_def galois_ok_def logs_ok_def mults_ok_def split_ok_def)
  next
    case 3
    have run: "galois_create_mult_tables w st = run_bind (Inr (rc, st2)) (\<lambda>(rc, st).
        if rc < 0 then Inr (-1, st\<lparr>galois_mult_tables := (galois_mult_tables st)(w := NULL),
                                   galois_div_tables := (galois_div_tables st)(w := NULL)\<rparr>)
        else run_bind (mult_fill w (galois_log_tables st w) (galois_ilog_tables st w) ?z ?z)
               (\<lambda>(mt, dt, j). Inr (0, st\<lparr>galois_mult_tables := (galois_mult_tables st)(w := Table 0 mt),
                                         galois_div_tables := (galois_div_tables st)(w := Table 0 dt)\<rparr>)))"
      unfolding lg(1) [symmetric]
      using True assms 3 by (simp add: galois_create_mult_tables_def malloc_table_def Let_def st1_def)
    have entry: "mults_ok (st2\<lparr>galois_mult_tables := (galois_mult_tables st2)(w := t), galois_div_tables := (galois_div_tables st2)(w := u)\<rparr>)"
      if "mult_entry_ok w t u" for t u
      by (rule mults_ok_update [OF ok(2) that]) (simp_all add: lg(6,7) st1_def)
    have rest: "logs_ok (st2\<lparr>galois_mult_tables := f, galois_div_tables := g\<rparr>)"
      "split_ok (st2\<lparr>galois_mult_tables := f, galois_div_tables := g\<rparr>)" for f g
      using lg(2,8) ok(3) by (simp_all add: logs_ok_def split_ok_def st1_def)
    show ?thesis
    proof (cases "rc = 0")
      case rc: True
      then obtain mt dt j where "mult_fill w (galois_log_tables st2 w) (galois_ilog_tables st2 w) ?z ?z = Inr (mt, dt, j)"
        "mult_tables_ok w mt dt" using fill by blast
      then show ?thesis using run rc entry [of "Table 0 mt" "Table 0 dt"] rest lg(5,8)
        by (simp add: galois_ok_def st1_def)
    next
      case False
      then show ?thesis using run lg(3,5,8) entry [of NULL NULL] rest by (auto simp: galois_ok_def st1_def)
    qed
  qed
qed (use assms in \<open>auto simp: galois_create_mult_tables_def\<close>)


section \<open>Products\<close>

lemma sint_index:
  assumes "gf_elem w x" "gf_elem w y" "w \<le> 15"
  shows "sint (push_bit w x OR y) = int (unat x * 2 ^ w + unat y)"
proof -
  have xy: "unat x < 2 ^ w" "unat y < 2 ^ w" using assms unat_gf_elem by auto
  have le: "(2::nat) ^ w \<le> 2 ^ 15" using assms(3) by (rule pow2_le)
  have "unat x * 2 ^ w + unat y < (unat x + 1) * 2 ^ w" using xy by simp
  also have "\<dots> \<le> 2 ^ 15 * 2 ^ 15" using xy le by (intro mult_mono) auto
  finally have small: "unat x * 2 ^ w + unat y < 2 ^ 30" by simp
  have "push_bit w x AND y = 0"
    using assms by (intro bit_word_eqI) (auto simp: bitsimps gf_elem_bit)
  then have "push_bit w x OR y = push_bit w x + y" by (simp add: disjunctive_add_eq_or)
  also have "\<dots> = of_nat (unat x * 2 ^ w + unat y)"
    by (simp add: push_bit_eq_mult)
  finally show ?thesis using small by (simp add: sint_of_nat_cint del: of_nat_add of_nat_mult)
qed

lemma mult_table_get:
  assumes "mult_tables_ok w mt dt" "gf_elem w x" "gf_elem w y" "w \<le> 13"
  shows "tab_get (Table 0 mt) (sint (push_bit w x OR y)) = Inr (gf_mul w x y)"
    and "y \<noteq> 0 \<Longrightarrow> \<exists>z. tab_get (Table 0 dt) (sint (push_bit w x OR y)) = Inr z \<and> gf_quotient w x y z"
    and "tab_get (Table 0 dt) (sint (push_bit w x OR 0)) = Inr (-1)"
proof -
  have xy: "unat x < 2 ^ w" "unat y < 2 ^ w" using assms unat_gf_elem by auto
  have lt: "unat x * 2 ^ w + u < 2 ^ w * 2 ^ w" if "u < 2 ^ w" for u
  proof -
    have "unat x * 2 ^ w + u < (unat x + 1) * 2 ^ w" using that by simp
    also have "\<dots> \<le> 2 ^ w * 2 ^ w" using xy(1) by (intro mult_right_mono) auto
    finally show ?thesis .
  qed
  note ix = sint_index [OF assms(2)]
  have "\<forall>x < 2 ^ w. \<forall>y < 2 ^ w. mt ! (x * 2 ^ w + y) = gf_mul w (of_nat x) (of_nat y)"
    using assms(1) by (simp add: mult_tables_ok_def)
  from this [rule_format, OF xy] show "tab_get (Table 0 mt) (sint (push_bit w x OR y)) = Inr (gf_mul w x y)"
    using assms lt [OF xy(2)] by (simp add: ix mult_tables_ok_def del: of_nat_add of_nat_mult)
  have d: "\<forall>x < 2 ^ w. \<forall>y < 2 ^ w. if y = 0 then dt ! (x * 2 ^ w + y) = -1
         else gf_quotient w (of_nat x) (of_nat y) (dt ! (x * 2 ^ w + y))"
    using assms(1) unfolding mult_tables_ok_def by blast
  show "\<exists>z. tab_get (Table 0 dt) (sint (push_bit w x OR y)) = Inr z \<and> gf_quotient w x y z" if "y \<noteq> 0"
    using d [rule_format, OF xy] that assms lt [OF xy(2)]
    by (simp add: ix mult_tables_ok_def unat_eq_0 del: of_nat_add of_nat_mult)
  show "tab_get (Table 0 dt) (sint (push_bit w x OR 0)) = Inr (-1)"
    using d [rule_format, OF xy(1), of 0] assms lt [of 0] ix [of 0]
    by (simp add: mult_tables_ok_def del: of_nat_add of_nat_mult)
qed

lemma mult_type_cases:
  "1 \<le> w \<Longrightarrow> w \<le> 9 \<Longrightarrow> mult_type w = TABLE"
  "10 \<le> w \<Longrightarrow> w \<le> 22 \<Longrightarrow> mult_type w = LOGS"
  "23 \<le> w \<Longrightarrow> w \<le> 31 \<Longrightarrow> mult_type w = SHIFT"
  "mult_type 32 = SPLITW8"
proof -
  have "list_all (\<lambda>w. mult_type w = TABLE) [1..<10]" "list_all (\<lambda>w. mult_type w = LOGS) [10..<23]"
    "list_all (\<lambda>w. mult_type w = SHIFT) [23..<32]" "mult_type 32 = SPLITW8"
    by (code_simp)+
  then show "1 \<le> w \<Longrightarrow> w \<le> 9 \<Longrightarrow> mult_type w = TABLE" "10 \<le> w \<Longrightarrow> w \<le> 22 \<Longrightarrow> mult_type w = LOGS"
    "23 \<le> w \<Longrightarrow> w \<le> 31 \<Longrightarrow> mult_type w = SHIFT" "mult_type 32 = SPLITW8"
    unfolding list_all_iff set_upt by auto
qed

section \<open>Split tables on the state\<close>

lemma split_alloc_ok:
  "\<exists>ok st'. split_alloc n i st = Inr (ok, st') \<and>
     galois_log_tables st' = galois_log_tables st \<and> galois_ilog_tables st' = galois_ilog_tables st \<and>
     galois_mult_tables st' = galois_mult_tables st \<and> galois_div_tables st' = galois_div_tables st \<and>
     (mallocs st = [] \<longrightarrow> ok \<and> mallocs st' = [])"
proof (induction n arbitrary: i st)
  case (Suc n)
  let ?st = "\<lambda>t. st\<lparr>mallocs := tl (mallocs st), galois_split_w8 := (galois_split_w8 st)(i := t)\<rparr>"
  show ?case
    using Suc.IH [of "i + 1" "?st (Table 0 (replicate 65536 0))"] by (auto simp: malloc_table_def Let_def)
qed auto

lemma fold_split_set:
  "a \<le> b \<Longrightarrow> fold (split_set i) [a..<b] st = st\<lparr>galois_split_w8 := (\<lambda>k. if i + a \<le> k \<and> k < i + b
     then Table 0 (split_fill i (k - i)) else galois_split_w8 st k)\<rparr>"
proof (induction b rule: dec_induct)
  case (step n)
  then show ?case by (auto simp: split_set_def fun_eq_iff less_Suc_eq intro!: arg_cong [where f = "\<lambda>f. st\<lparr>galois_split_w8 := f\<rparr>"])
next
  case base
  have "(\<lambda>k. if i + a \<le> k \<and> k < i + a then Table 0 (split_fill i (k - i)) else galois_split_w8 st k) = galois_split_w8 st"
    by (rule ext) auto
  then show ?case by simp
qed

lemma create_split_w8_tables_ok:
  assumes "galois_ok st"
  shows "\<exists>rc st'. galois_create_split_w8_tables st = Inr (rc, st') \<and> logs_ok st' \<and> mults_ok st' \<and>
    (rc = 0 \<or> rc = -1) \<and> (rc = 0 \<longrightarrow> split_ok st' \<and> galois_split_w8 st' 0 \<noteq> NULL) \<and>
    (mallocs st = [] \<longrightarrow> rc = 0 \<and> mallocs st' = [])"
proof (cases "galois_split_w8 st 0 = NULL")
  case True
  obtain rc st1 where m: "galois_create_mult_tables 8 st = Inr (rc, st1)" "galois_ok st1" "rc = 0 \<or> rc = -1"
      "mallocs st = [] \<longrightarrow> rc = 0 \<and> mallocs st1 = []"
    using create_mult_tables_ok [OF assms, of 8] by auto
  obtain ok st2 where a: "split_alloc 7 0 st1 = Inr (ok, st2)" "mallocs st1 = [] \<longrightarrow> ok \<and> mallocs st2 = []"
      "galois_log_tables st2 = galois_log_tables st1" "galois_ilog_tables st2 = galois_ilog_tables st1"
      "galois_mult_tables st2 = galois_mult_tables st1" "galois_div_tables st2 = galois_div_tables st1"
    using split_alloc_ok [of 7 0 st1] by auto
  have keep: "logs_ok (st2\<lparr>galois_split_w8 := f\<rparr>)" "mults_ok (st2\<lparr>galois_split_w8 := f\<rparr>)" "logs_ok st2" "mults_ok st2" for f
    using m(2) a by (auto simp: galois_ok_def logs_ok_def mults_ok_def)
  define st3 where "st3 = fold (split_set 3) [Suc 0..<4] (fold (split_set 0) [0..<4] st2)"
  have split: "galois_split_w8 st3 k = Table 0 (if k < 4 then split_fill 0 k else split_fill 3 (k - 3))" if "k < 7" for k
    using that by (auto simp: st3_def fold_split_set)
  have "split_table_ok k (if k < 4 then split_fill 0 k else split_fill 3 (k - 3))" if "k < 7" for k
    using that split_fill_ok [of 0 k] split_fill_ok [of 3 "k - 3"] by auto
  then have "split_ok st3" "galois_split_w8 st3 0 \<noteq> NULL" using split by (auto simp: split_ok_def)
  moreover have "logs_ok st3" "mults_ok st3" "mallocs st3 = mallocs st2" using keep by (simp_all add: st3_def fold_split_set)
  ultimately show ?thesis using True m a(1,2) keep(3,4)
    by (auto simp: galois_create_split_w8_tables_def st3_def [symmetric] galois_ok_def)
next
  case False
  then show ?thesis using assms by (auto simp: galois_create_split_w8_tables_def galois_ok_def)
qed

lemma split_get:
  assumes "split_entry_ok k t"
  shows "tab_get t (sint (push_bit 8 (take_bit 8 x) OR take_bit 8 y)) =
    Inr (shift_pow 32 (8 * k) (gf_mul 32 (take_bit 8 x) (take_bit 8 y)))"
proof -
  obtain tab where t: "t = Table 0 tab" "split_table_ok k tab" using assms by (cases t) auto
  have e: "gf_elem 8 (take_bit 8 x)" "gf_elem 8 (take_bit 8 y)" by simp_all
  have lt: "unat (take_bit 8 x) < 256" "unat (take_bit 8 y) < 256"
    using unat_gf_elem [OF e(1)] unat_gf_elem [OF e(2)] by auto
  have "sint (push_bit 8 (take_bit 8 x) OR take_bit 8 y)
      = int (unat (take_bit 8 x) * 256 + unat (take_bit 8 y))"
    using sint_index [OF e] by simp
  moreover have "unat (take_bit 8 x) * 256 + unat (take_bit 8 y) < 65536" using lt by linarith
  moreover have "tab ! (unat (take_bit 8 x) * 256 + unat (take_bit 8 y))
      = shift_pow 32 (8 * k) (gf_mul 32 (take_bit 8 x) (take_bit 8 y))"
    using t(2) lt by (simp add: split_table_ok_def del: unsigned_take_bit_eq)
  ultimately show ?thesis using t by (simp add: split_table_ok_def del: of_nat_add of_nat_mult unsigned_take_bit_eq)
qed

lemma and_255: "(x::cint) AND 255 = take_bit 8 x"
  by (simp add: take_bit_eq_mask mask_eq_exp_minus_1)

lemma cfor_xor:
  assumes "\<And>i acc. i < n \<Longrightarrow> f i acc = Inr (acc XOR g i)"
  shows "cfor 0 n f a = Inr (a XOR xsum g {..<n})"
  using assms by (induction n) (simp_all add: cfor_Suc xor.assoc xor.commute xor.left_commute)

lemma split_w8_multiply_eq:
  assumes "split_ok st" "galois_split_w8 st 0 \<noteq> NULL"
  shows "galois_split_w8_multiply x y st = Inr (gf_mul 32 x y, st)"
proof -
  have "split_entry_ok k (galois_split_w8 st k)" if "k < 7" for k
    using assms that by (auto simp: split_ok_def)
  then have get: "tab_get (galois_split_w8 st (i + j)) (sint (push_bit 8 (take_bit 8 u) OR take_bit 8 v)) =
      Inr (shift_pow 32 (8 * (i + j)) (gf_mul 32 (take_bit 8 u) (take_bit 8 v)))" if "i < 4" "j < 4" for i j u v
    using that by (intro split_get) simp
  let ?g = "\<lambda>i j. shift_pow 32 (8 * (i + j)) (gf_mul 32 (take_bit 8 (drop_bit (8 * i) x)) (take_bit 8 (drop_bit (8 * j) y)))"
  have inner: "cfor 0 4 (\<lambda>j acc. let b = drop_bit (8 * j) y AND 255
              in run_bind (tab_get (galois_split_w8 st (i + j)) (sint (push_bit 8 (drop_bit (8 * i) x AND 255) OR b)))
                   (\<lambda>z. Inr (acc XOR z))) acc = Inr (acc XOR xsum (?g i) {..<4})" if "i < 4" for i acc
    using that by (intro cfor_xor) (simp add: and_255 get)
  have "cfor 0 4 (\<lambda>i acc. let a = push_bit 8 (drop_bit (8 * i) x AND 255)
         in cfor 0 4 (\<lambda>j acc. let b = drop_bit (8 * j) y AND 255
              in run_bind (tab_get (galois_split_w8 st (i + j)) (sint (a OR b)))
                   (\<lambda>z. Inr (acc XOR z))) acc) 0 = Inr (0 XOR xsum (\<lambda>i. xsum (?g i) {..<4}) {..<4})"
    using inner by (intro cfor_xor) (simp only: Let_def)
  then show ?thesis by (simp add: galois_split_w8_multiply_def gf_mul_bytes [of x y])
qed

section \<open>Products and quotients on the state\<close>

definition computes :: "galois \<Rightarrow> ('a \<Rightarrow> bool) \<Rightarrow> fault + ('a \<times> galois) \<Rightarrow> bool" where
  "computes st P r \<longleftrightarrow> (case r of Inl e \<Rightarrow> e = Exit \<and> mallocs st \<noteq> []
     | Inr (z, st') \<Rightarrow> P z \<and> galois_ok st' \<and> (mallocs st = [] \<longrightarrow> mallocs st' = []))"

lemma computes_mono: "computes st P r \<Longrightarrow> (\<And>z. P z \<Longrightarrow> Q z) \<Longrightarrow> computes st Q r"
  by (auto simp: computes_def split: sum.splits)

lemma computes_bind:
  assumes "computes st P m" "\<And>z st'. galois_ok st' \<Longrightarrow> P z \<Longrightarrow> computes st' Q (f z st')"
  shows "computes st Q (run_bind m (\<lambda>(z, st'). f z st'))"
proof (cases m)
  case (Inr r)
  obtain z st' where r: "r = (z, st')" by (cases r)
  then have "computes st' Q (f z st')" "mallocs st = [] \<longrightarrow> mallocs st' = []"
    using assms Inr by (auto simp: computes_def)
  then show ?thesis by (auto simp: Inr r computes_def split: sum.splits)
qed (use assms in \<open>simp add: computes_def\<close>)

lemma need_logs:
  assumes "galois_ok st" "1 \<le> w" "w \<le> 30"
  shows "case need (galois_log_tables st w = NULL) (galois_create_log_tables w) st of
      Inl e \<Rightarrow> e = Exit \<and> mallocs st \<noteq> []
    | Inr (u, st') \<Rightarrow> galois_ok st' \<and> galois_log_tables st' w \<noteq> NULL \<and> (mallocs st = [] \<longrightarrow> mallocs st' = [])"
proof -
  have "\<exists>rc st'. galois_create_log_tables w st = Inr (rc, st') \<and> galois_ok st' \<and> (rc = 0 \<or> rc = -1) \<and>
    (rc = 0 \<longrightarrow> galois_log_tables st' w \<noteq> NULL) \<and> (mallocs st = [] \<longrightarrow> rc = 0 \<and> mallocs st' = [])"
    using create_log_tables_ok [of st w] assms by (auto simp: galois_ok_def mults_ok_def split_ok_def)
  then show ?thesis using assms by (auto simp: need_def)
qed

lemma need_mults:
  assumes "galois_ok st" "1 \<le> w" "w \<le> 13"
    "isnull \<longleftrightarrow> galois_mult_tables st w = NULL \<or> galois_div_tables st w = NULL"
  shows "case need isnull (galois_create_mult_tables w) st of
      Inl e \<Rightarrow> e = Exit \<and> mallocs st \<noteq> []
    | Inr (u, st') \<Rightarrow> galois_ok st' \<and> galois_mult_tables st' w \<noteq> NULL \<and> (mallocs st = [] \<longrightarrow> mallocs st' = [])"
  using create_mult_tables_ok [of st w] assms by (auto simp: need_def)

lemma mult_null_iff:
  assumes "galois_ok st" "1 \<le> w" "w \<le> 13"
  shows "galois_mult_tables st w = NULL \<longleftrightarrow> galois_div_tables st w = NULL"
  using assms by (auto simp: galois_ok_def mults_ok_def elim!: mult_entry_cases [of w "galois_mult_tables st w"])

lemma log_sum_eq:
  assumes "logs_ok st" "1 \<le> w" "w \<le> 30" "galois_log_tables st w \<noteq> NULL"
    and "gf_elem w x" "gf_elem w y" "x \<noteq> 0" "y \<noteq> 0"
  shows "log_sum x y w st = Inr (gf_mul w x y, st)"
    and "\<exists>z. log_difference x y w st = Inr (z, st) \<and> gf_quotient w x y z"
proof -
  obtain lg ilg where t: "galois_log_tables st w = Table 0 lg" "galois_ilog_tables st w = Table (gf_ord w) ilg"
    "log_tables_ok w lg ilg" by (rule log_tables_of_ok [OF assms(1-4)])
  have w: "gf_width w" by (rule gf_width_small [OF assms(2,3)])
  have s: "sint v = int (unat v)" if "gf_elem w v" for v
  proof -
    have "unat v < 2 ^ w" "(2::nat) ^ w \<le> 2 ^ 30" using unat_gf_elem [OF that] pow2_le [OF assms(3)] assms(3) by auto
    then show ?thesis by (intro sint_small) simp
  qed
  obtain m where m: "m < gf_ord w" "x = shift_pow w m 1" "tab_get (Table 0 lg) (int (unat x)) = Inr (of_nat m)"
    using log_get [OF t(3) w assms(3,5,7)] by blast
  obtain n where n: "n < gf_ord w" "y = shift_pow w n 1" "tab_get (Table 0 lg) (int (unat y)) = Inr (of_nat n)"
    using log_get [OF t(3) w assms(3,6,8)] by blast
  show "log_sum x y w st = Inr (gf_mul w x y, st)"
    using ilog_sum [OF t(3) w assms(3) m(1) n(1)] m(2,3) n(2,3) assms(5,6)
    by (simp add: log_sum_def t(1,2) s del: tab_get.simps of_nat_unat)
  show "\<exists>z. log_difference x y w st = Inr (z, st) \<and> gf_quotient w x y z"
    using ilog_difference [OF t(3) w assms(3) m(1) n(1)] m(2,3) n(2,3) assms(5,6)
    by (auto simp: log_difference_def t(1,2) s simp del: tab_get.simps of_nat_unat)
qed

theorem single_multiply_ok:
  assumes "galois_ok st" "1 \<le> w" "w \<le> 32" "gf_elem w x" "gf_elem w y"
  shows "computes st (\<lambda>z. z = gf_mul w x y) (galois_single_multiply x y w st)"
proof (cases "x = 0 \<or> y = 0")
  case True
  then show ?thesis using assms by (auto simp: galois_single_multiply_def computes_def)
next
  case nz: False
  consider "w \<le> 9" | "10 \<le> w" "w \<le> 22" | "23 \<le> w" "w \<le> 31" | "w = 32" using assms by linarith
  then show ?thesis
  proof cases
    case 1
    have "case need (galois_mult_tables st w = NULL) (galois_create_mult_tables w) st of
      Inl e \<Rightarrow> e = Exit \<and> mallocs st \<noteq> []
    | Inr (u, st') \<Rightarrow> galois_ok st' \<and> galois_mult_tables st' w \<noteq> NULL \<and> (mallocs st = [] \<longrightarrow> mallocs st' = [])"
      by (rule need_mults) (use assms 1 mult_null_iff in auto)
    moreover have "galois_multtable_multiply x y w st' = Inr (gf_mul w x y, st')"
      if st': "galois_ok st'" "galois_mult_tables st' w \<noteq> NULL" for st'
    proof -
      obtain mt dt where "galois_mult_tables st' w = Table 0 mt" "mult_tables_ok w mt dt"
        by (rule mult_tables_of_ok [of st' w]) (use st' 1 assms in \<open>auto simp: galois_ok_def\<close>)
      then show ?thesis using mult_table_get(1) assms 1 by (simp add: galois_multtable_multiply_def del: tab_get.simps)
    qed
    ultimately show ?thesis using nz mult_type_cases(1) [OF assms(2) 1]
      by (auto simp: galois_single_multiply_def computes_def split: sum.splits prod.splits)
  next
    case 2
    have "log_sum x y w st' = Inr (gf_mul w x y, st')"
      if "galois_ok st'" "galois_log_tables st' w \<noteq> NULL" for st'
      using log_sum_eq(1) [of st' w x y] that assms nz 2 by (simp add: galois_ok_def)
    then show ?thesis using need_logs [of st w] assms nz mult_type_cases(2) [OF 2] 2
      by (auto simp: galois_single_multiply_def computes_def split: sum.splits prod.splits)
  next
    case 3
    then show ?thesis using nz assms mult_type_cases(3) [OF 3]
      by (simp add: galois_single_multiply_def computes_def galois_shift_multiply_eq)
  next
    case 4
    have "case need (galois_split_w8 st 0 = NULL) galois_create_split_w8_tables st of
      Inl e \<Rightarrow> e = Exit \<and> mallocs st \<noteq> []
    | Inr (u, st') \<Rightarrow> galois_ok st' \<and> galois_split_w8 st' 0 \<noteq> NULL \<and> (mallocs st = [] \<longrightarrow> mallocs st' = [])"
      using create_split_w8_tables_ok [OF assms(1)] assms(1) by (auto simp: need_def galois_ok_def)
    then show ?thesis using nz mult_type_cases(4) 4 split_w8_multiply_eq
      by (auto simp: galois_single_multiply_def computes_def galois_ok_def split: sum.splits prod.splits)
  qed
qed

lemma divide_by_table_ok:
  assumes "galois_ok st" "1 \<le> w" "w \<le> 22" "gf_elem w x" "gf_elem w y"
  shows "computes st (\<lambda>z. if y = 0 then z = -1 else gf_quotient w x y z) (divide_by_table x y w st)"
proof (cases "w \<le> 9")
  case True
  have "case need (galois_div_tables st w = NULL) (galois_create_mult_tables w) st of
      Inl e \<Rightarrow> e = Exit \<and> mallocs st \<noteq> []
    | Inr (u, st') \<Rightarrow> galois_ok st' \<and> galois_mult_tables st' w \<noteq> NULL \<and> (mallocs st = [] \<longrightarrow> mallocs st' = [])"
    by (rule need_mults) (use assms True mult_null_iff in auto)
  moreover have "\<exists>z. galois_multtable_divide x y w st' = Inr (z, st') \<and> (if y = 0 then z = -1 else gf_quotient w x y z)"
    if st': "galois_ok st'" "galois_mult_tables st' w \<noteq> NULL" for st'
  proof -
    obtain mt dt where "galois_div_tables st' w = Table 0 dt" "mult_tables_ok w mt dt"
      by (rule mult_tables_of_ok [of st' w]) (use st' True assms in \<open>auto simp: galois_ok_def\<close>)
    then show ?thesis using mult_table_get(2,3) [of w mt dt x y] assms True
      by (cases "y = 0") (auto simp: galois_multtable_divide_def simp del: tab_get.simps)
  qed
  ultimately show ?thesis using mult_type_cases(1) [OF assms(2) True]
    by (fastforce simp: divide_by_table_def computes_def split: sum.splits prod.splits)
next
  case False
  then have w: "10 \<le> w" "w \<le> 22" using assms by auto
  have "\<exists>z. log_difference x y w st' = Inr (z, st') \<and> gf_quotient w x y z"
    if "galois_ok st'" "galois_log_tables st' w \<noteq> NULL" "x \<noteq> 0" "y \<noteq> 0" for st'
    using log_sum_eq(2) [of st' w x y] that assms w by (simp add: galois_ok_def)
  then show ?thesis using need_logs [of st w] assms mult_type_cases(2) [OF w] w
    by (fastforce simp: divide_by_table_def computes_def gf_quotient_def split: sum.splits prod.splits)
qed

theorem inverse_ok:
  assumes "galois_ok st" "gf_width w" "gf_elem w y" "y \<noteq> 0"
  shows "computes st (gf_quotient w 1 y) (galois_inverse y w st)"
proof -
  have w: "1 \<le> w" "w \<le> 32" using assms by simp_all
  consider "w \<le> 9" | "10 \<le> w" "w \<le> 22" | "23 \<le> w" "w \<le> 31" | "w = 32" using w by linarith
  then show ?thesis
  proof cases
    case 3
    then show ?thesis using shift_inverse_correct [of w y] assms mult_type_cases(3)
      by (auto simp: galois_inverse_def computes_def gf_quotient_def)
  next
    case 4
    then show ?thesis using shift_inverse_correct [of w y] assms mult_type_cases(4)
      by (auto simp: galois_inverse_def computes_def gf_quotient_def)
  qed (use divide_by_table_ok [of st w 1 y] assms w mult_type_cases(1,2) in \<open>auto simp: galois_inverse_def\<close>)
qed

theorem single_divide_ok:
  assumes "galois_ok st" "gf_width w" "gf_elem w x" "gf_elem w y"
  shows "computes st (\<lambda>z. if y = 0 then z = -1 else gf_quotient w x y z) (galois_single_divide x y w st)"
proof -
  have w: "1 \<le> w" "w \<le> 32" using assms by simp_all
  consider "w \<le> 22" "mult_type w = TABLE \<or> mult_type w = LOGS"
    | "mult_type w \<noteq> TABLE" "mult_type w \<noteq> LOGS"
    using w mult_type_cases(1-3) [of w] mult_type_cases(4)
    by (cases "w = 32"; cases "w \<le> 9"; cases "w \<le> 22") (auto simp: not_le)
  then show ?thesis
  proof cases
    case 1
    then show ?thesis using divide_by_table_ok assms w by (simp add: galois_single_divide_def)
  next
    case 2
    show ?thesis
    proof (cases "x = 0 \<or> y = 0")
      case True
      then show ?thesis using 2 assms by (auto simp: galois_single_divide_def computes_def gf_quotient_def)
    next
      case False
      then have inv: "computes st (gf_quotient w 1 y) (galois_inverse y w st)" using inverse_ok assms by blast
      have "computes st' (\<lambda>z. z = gf_mul w x iv) (galois_single_multiply x iv w st')"
        if "galois_ok st'" "gf_quotient w 1 y iv" for st' iv
        using single_multiply_ok that assms w by (simp add: gf_quotient_def)
      moreover have "gf_quotient w x y (gf_mul w x iv)" if "gf_quotient w 1 y iv" for iv
        using that assms w gf_mul_left_commute [of w iv y x] by (simp add: gf_quotient_def gf_mul_1_right)
      ultimately have "computes st (gf_quotient w x y)
          (run_bind (galois_inverse y w st) (\<lambda>(iv, st). galois_single_multiply x iv w st))"
        by (intro computes_bind [OF inv]) (auto intro: computes_mono)
      then show ?thesis using 2 False by (simp add: galois_single_divide_def)
    qed
  qed
qed

section \<open>A failed allocation of the split tables\<close>

text \<open>
  When the second of the seven allocations fails, the first table is freed but its pointer stays;
  the next call takes the tables for built, and a product reads freed memory.
\<close>

lemma split_w8_dangling:
  assumes "galois_split_w8 st 0 = NULL" "galois_mult_tables st 8 \<noteq> NULL" "mallocs st = True # False # oks"
  shows "\<exists>st'. galois_create_split_w8_tables st = Inr (-1, st') \<and>
    galois_create_split_w8_tables st' = Inr (0, st') \<and>
    (\<forall>x y. x \<noteq> 0 \<longrightarrow> y \<noteq> 0 \<longrightarrow> galois_single_multiply x y 32 st' = Inl Undefined)"
proof -
  have c4: "cfor 0 4 f a = run_bind (f 0 a) (cfor 1 4 f)" for f :: "nat \<Rightarrow> cint \<Rightarrow> fault + cint" and a
    by (cases "f 0 a") (simp_all add: cfor_def upt_conv_Cons)
  have m: "galois_create_mult_tables 8 st = Inr (0, st)" using assms by (simp add: galois_create_mult_tables_def)
  have seven: "(7::nat) = Suc (Suc 5)" by simp
  have "\<exists>st'. split_alloc 7 0 st = Inr (False, st') \<and> galois_split_w8 st' 0 = Freed"
    unfolding seven split_alloc.simps using assms(3) by (simp add: malloc_table_def Let_def)
  then obtain st' where st': "galois_create_split_w8_tables st = Inr (-1, st')" "galois_split_w8 st' 0 = Freed"
    using assms(1) m by (auto simp: galois_create_split_w8_tables_def)
  then show ?thesis
    by (intro exI [of _ st'])
      (simp add: galois_create_split_w8_tables_def galois_single_multiply_def mult_type_cases need_def
        galois_split_w8_multiply_def c4)
qed

section \<open>The operations as functions\<close>

text \<open>
  What the rest of the library computes with: the value that \<^verbatim>\<open>galois_single_multiply\<close> and
  \<^verbatim>\<open>galois_single_divide\<close> return when memory does not run out.  By \<open>single_multiply_ok\<close> and
  \<open>single_divide_ok\<close> it does not depend on the tables built so far.
\<close>

definition gmul :: "nat \<Rightarrow> cint \<Rightarrow> cint \<Rightarrow> cint" where
  "gmul w x y = (case galois_single_multiply x y w galois_init of Inr (z, _) \<Rightarrow> z | Inl _ \<Rightarrow> 0)"

definition gdiv :: "nat \<Rightarrow> cint \<Rightarrow> cint \<Rightarrow> cint" where
  "gdiv w x y = (case galois_single_divide x y w galois_init of Inr (z, _) \<Rightarrow> z | Inl _ \<Rightarrow> 0)"

lemma mallocs_init [simp]: "mallocs galois_init = []"
  by (simp add: galois_init_def)

lemma gmul_eq:
  assumes "1 \<le> w" "w \<le> 32" "gf_elem w x" "gf_elem w y"
  shows "gmul w x y = gf_mul w x y"
  using single_multiply_ok [OF galois_ok_init assms]
  by (auto simp: computes_def gmul_def split: sum.splits prod.splits)

lemma gdiv_quotient:
  assumes "gf_width w" "gf_elem w x" "gf_elem w y"
  shows "if y = 0 then gdiv w x y = -1 else gf_quotient w x y (gdiv w x y)"
  using single_divide_ok [OF galois_ok_init assms]
  by (auto simp: computes_def gdiv_def split: sum.splits prod.splits)

lemma gmul_code [code]:
  "gmul w x y = (if 1 \<le> w \<and> w \<le> 32 \<and> gf_elem w x \<and> gf_elem w y then gf_mul w x y
     else case galois_single_multiply x y w galois_init of Inr (z, _) \<Rightarrow> z | Inl _ \<Rightarrow> 0)"
  using gmul_eq by (auto simp: gmul_def)

lemma gdiv_code [code]:
  "gdiv w x y = (if gf_width w \<and> 2 \<le> w \<and> gf_elem w x \<and> gf_elem w y \<and> y \<noteq> 0
     then (case galois_shift_inverse y w of Inr z \<Rightarrow> gf_mul w x z | Inl _ \<Rightarrow> 0)
     else case galois_single_divide x y w galois_init of Inr (z, _) \<Rightarrow> z | Inl _ \<Rightarrow> 0)"
proof (cases "gf_width w \<and> 2 \<le> w \<and> gf_elem w x \<and> gf_elem w y \<and> y \<noteq> 0")
  case True
  obtain z where z: "galois_shift_inverse y w = Inr z" "gf_elem w z" "gf_mul w y z = 1"
    using shift_inverse_correct [of w y] True by blast
  have "gf_quotient w x y (gf_mul w x z)"
    using z True gf_mul_left_commute [of w z y x] by (simp add: gf_quotient_def gf_mul_1_right)
  moreover have "gf_quotient w x y (gdiv w x y)" using gdiv_quotient [of w x y] True by simp
  ultimately have "gdiv w x y = gf_mul w x z" using quotient_unique [of w y x] True by blast
  then show ?thesis using True z by simp
qed (auto simp: gdiv_def)

section \<open>The interface of the field\<close>

text \<open>
  The laws the matrix code relies on.  Addition is exclusive-or.
\<close>

locale xor_field =
  fixes elem :: "cint \<Rightarrow> bool" and mul :: "cint \<Rightarrow> cint \<Rightarrow> cint" and dv :: "cint \<Rightarrow> cint \<Rightarrow> cint"
  assumes elem_0: "elem 0" and elem_1: "elem 1"
    and elem_xor: "elem a \<Longrightarrow> elem b \<Longrightarrow> elem (a XOR b)"
    and elem_mul: "elem a \<Longrightarrow> elem b \<Longrightarrow> elem (mul a b)"
    and mul_commute: "elem a \<Longrightarrow> elem b \<Longrightarrow> mul a b = mul b a"
    and mul_assoc: "elem a \<Longrightarrow> elem b \<Longrightarrow> elem c \<Longrightarrow> mul (mul a b) c = mul a (mul b c)"
    and mul_1: "elem a \<Longrightarrow> mul 1 a = a"
    and mul_xor: "elem a \<Longrightarrow> elem b \<Longrightarrow> elem c \<Longrightarrow> mul a (b XOR c) = mul a b XOR mul a c"
    and elem_dv: "elem a \<Longrightarrow> elem b \<Longrightarrow> b \<noteq> 0 \<Longrightarrow> elem (dv a b)"
    and mul_dv: "elem a \<Longrightarrow> elem b \<Longrightarrow> b \<noteq> 0 \<Longrightarrow> mul b (dv a b) = a"
begin

lemma mul_0_right [simp]: "elem a \<Longrightarrow> mul a 0 = 0"
  using mul_xor [of a 0 0] elem_0 by simp

lemma mul_0_left [simp]: "elem a \<Longrightarrow> mul 0 a = 0"
  using mul_commute [of 0 a] elem_0 by simp

lemma mul_1_right: "elem a \<Longrightarrow> mul a 1 = a"
  using mul_commute [of a 1] mul_1 elem_1 by simp

lemma mul_xor_left: "elem a \<Longrightarrow> elem b \<Longrightarrow> elem c \<Longrightarrow> mul (a XOR b) c = mul a c XOR mul b c"
  using mul_xor [of c a b] by (simp add: mul_commute [of _ c] elem_xor)

lemma elem_xsum: "(\<And>i. i \<in> A \<Longrightarrow> elem (f i)) \<Longrightarrow> elem (xsum f A)"
  by (induction A rule: infinite_finite_induct) (auto simp: elem_0 elem_xor)

lemma mul_xsum: "elem a \<Longrightarrow> (\<And>i. i \<in> A \<Longrightarrow> elem (f i)) \<Longrightarrow> mul a (xsum f A) = xsum (\<lambda>i. mul a (f i)) A"
  by (rule xsum_hom [where P = elem, THEN conjunct1]) (auto simp: elem_0 elem_xor mul_xor)

lemma mul_eq_0: "elem a \<Longrightarrow> elem b \<Longrightarrow> mul a b = 0 \<Longrightarrow> a = 0 \<or> b = 0"
proof (rule ccontr)
  assume ab: "elem a" "elem b" "mul a b = 0" "\<not> (a = 0 \<or> b = 0)"
  let ?c = "dv 1 a"
  have c: "elem ?c" "mul a ?c = 1" using ab elem_dv mul_dv elem_1 by auto
  have "b = mul (mul ?c a) b" using c ab mul_commute [of a ?c] mul_1 by simp
  also have "\<dots> = 0" using c ab mul_assoc [of ?c a b] by simp
  finally show False using ab by simp
qed

lemma mul_cancel: "elem a \<Longrightarrow> elem b \<Longrightarrow> elem c \<Longrightarrow> a \<noteq> 0 \<Longrightarrow> mul a b = mul a c \<Longrightarrow> b = c"
  using mul_eq_0 [of a "b XOR c"] mul_xor [of a b c] elem_xor by auto

lemma dv_unique: "elem a \<Longrightarrow> elem b \<Longrightarrow> elem c \<Longrightarrow> b \<noteq> 0 \<Longrightarrow> mul b c = a \<Longrightarrow> dv a b = c"
  using mul_cancel [of b "dv a b" c] mul_dv [of a b] elem_dv by auto

end

text \<open>Every supported width provides it.\<close>

locale galois_width =
  fixes w :: nat
  assumes width: "gf_width w"

sublocale galois_width \<subseteq> xor_field "gf_elem w" "gmul w" "gdiv w"
proof
  have w: "1 \<le> w" "w \<le> 32" using width by simp_all
  note eq = gmul_eq [OF w]
  show "gf_elem w 0" "gf_elem w 1" using w by simp_all
  fix a b c
  assume a: "gf_elem w a"
  show "gmul w 1 a = a" using a w by (simp add: eq gf_mul_1_left)
  assume b: "gf_elem w b"
  show "gf_elem w (a XOR b)" "gf_elem w (gmul w a b)" "gmul w a b = gmul w b a"
    using a b w by (simp_all add: eq gf_mul_commute)
  show "gf_elem w (gdiv w a b)" "gmul w b (gdiv w a b) = a" if "b \<noteq> 0"
    using gdiv_quotient [OF width a b] that a b by (auto simp: eq gf_quotient_def)
  assume c: "gf_elem w c"
  show "gmul w (gmul w a b) c = gmul w a (gmul w b c)" "gmul w a (b XOR c) = gmul w a b XOR gmul w a c"
    using a b c w by (simp_all add: eq gf_mul_assoc gf_mul_xor_right)
qed

interpretation gf8: galois_width 8
  by unfold_locales (simp add: gf_width_def)

interpretation gf16: galois_width 16
  by unfold_locales (simp add: gf_width_def)

interpretation gf32: galois_width 32
  by unfold_locales (simp add: gf_width_def)

context galois_width
begin

lemma field: "xor_field (gf_elem w) (gmul w) (gdiv w)"
  by unfold_locales

end

lemmas gf_field = galois_width.field [OF galois_width.intro]

end
