(* ===== verification/Gauss.thy ===== *)
theory Gauss
  imports Galois_State
begin

unbundle bit_operations_syntax

text \<open>
  Linear algebra over an \<open>xor_field\<close>, for the elimination loops of \<^verbatim>\<open>jerasure.c\<close> and
  \<^verbatim>\<open>reed_sol.c\<close>: matrices are functions of row and column, and only the entries below \<open>n\<close> matter.
  The lemmas say what the three row operations keep (\<open>row_inv\<close>), that an invertible matrix in
  echelon form has its next pivot, that back substitution ends in a left inverse, and that a left
  inverse recovers a vector from its image.
\<close>

section \<open>Matrices over the field, as functions\<close>

context xor_field
begin

text \<open>Column \<open>j\<close> of the combination of the rows of \<open>M\<close> with coefficients \<open>c\<close>.\<close>

definition mcomb :: "nat \<Rightarrow> (nat \<Rightarrow> cint) \<Rightarrow> (nat \<Rightarrow> nat \<Rightarrow> cint) \<Rightarrow> nat \<Rightarrow> cint" where
  "mcomb n c M j = xsum (\<lambda>r. mul (c r) (M r j)) {..<n}"

definition elems :: "nat \<Rightarrow> (nat \<Rightarrow> nat \<Rightarrow> cint) \<Rightarrow> bool" where
  "elems n M \<longleftrightarrow> (\<forall>i < n. \<forall>j < n. elem (M i j))"

definition left_inverse :: "nat \<Rightarrow> (nat \<Rightarrow> nat \<Rightarrow> cint) \<Rightarrow> (nat \<Rightarrow> nat \<Rightarrow> cint) \<Rightarrow> bool" where
  "left_inverse n B M \<longleftrightarrow> elems n B \<and> (\<forall>i < n. \<forall>j < n. mcomb n (B i) M j = (if i = j then 1 else 0))"

definition invertible :: "nat \<Rightarrow> (nat \<Rightarrow> nat \<Rightarrow> cint) \<Rightarrow> bool" where
  "invertible n M \<longleftrightarrow> (\<exists>B. left_inverse n B M)"

definition row_inv :: "nat \<Rightarrow> (nat \<Rightarrow> nat \<Rightarrow> cint) \<Rightarrow> (nat \<Rightarrow> nat \<Rightarrow> cint) \<Rightarrow> (nat \<Rightarrow> nat \<Rightarrow> cint) \<Rightarrow> bool" where
  "row_inv n M A B \<longleftrightarrow> elems n A \<and> elems n B \<and> (\<forall>i < n. \<forall>j < n. A i j = mcomb n (B i) M j) \<and>
     (invertible n M \<longrightarrow> invertible n A)"

lemma elem_mcomb: "(\<And>r. r < n \<Longrightarrow> elem (c r)) \<Longrightarrow> elems n M \<Longrightarrow> j < n \<Longrightarrow> elem (mcomb n c M j)"
  by (auto simp: mcomb_def elems_def intro!: elem_xsum elem_mul)

lemma mcomb_cong:
  "(\<And>r. r < n \<Longrightarrow> c r = c' r) \<Longrightarrow> (\<And>r. r < n \<Longrightarrow> M r j = M' r j) \<Longrightarrow> mcomb n c M j = mcomb n c' M' j"
  unfolding mcomb_def by (rule xs.cong) auto

lemma mcomb_add:
  assumes "\<And>r. r < n \<Longrightarrow> elem (c r)" "\<And>r. r < n \<Longrightarrow> elem (d r)" "elem t" "elems n M" "j < n"
  shows "mcomb n (\<lambda>r. c r XOR mul t (d r)) M j = mcomb n c M j XOR mul t (mcomb n d M j)"
proof -
  have "mcomb n (\<lambda>r. c r XOR mul t (d r)) M j
      = xsum (\<lambda>r. mul (c r) (M r j) XOR mul t (mul (d r) (M r j))) {..<n}"
    unfolding mcomb_def using assms
    by (intro xs.cong) (auto simp: elems_def mul_xor_left elem_mul mul_assoc)
  also have "\<dots> = mcomb n c M j XOR mul t (mcomb n d M j)"
    unfolding mcomb_def using assms by (subst mul_xsum) (auto simp: elems_def elem_mul xs.distrib)
  finally show ?thesis .
qed

lemma mcomb_scale:
  assumes "\<And>r. r < n \<Longrightarrow> elem (d r)" "elem t" "elems n M" "j < n"
  shows "mcomb n (\<lambda>r. mul (d r) t) M j = mul (mcomb n d M j) t"
proof -
  have "mcomb n (\<lambda>r. mul (d r) t) M j = mcomb n (\<lambda>r. 0 XOR mul t (d r)) M j"
    by (rule mcomb_cong) (use assms in \<open>auto simp: mul_commute\<close>)
  also have "\<dots> = mcomb n (\<lambda>r. 0) M j XOR mul t (mcomb n d M j)"
    by (rule mcomb_add) (use assms elem_0 in auto)
  also have "mcomb n (\<lambda>r. 0) M j = 0" using assms(3,4)
    by (auto simp: mcomb_def elems_def intro!: xs.neutral)
  finally show ?thesis using assms by (simp add: mul_commute elem_mcomb)
qed

lemma mcomb_unit: "i < n \<Longrightarrow> elems n M \<Longrightarrow> j < n \<Longrightarrow> mcomb n (\<lambda>r. if r = i then 1 else 0) M j = M i j"
proof -
  assume a: "i < n" "elems n M" "j < n"
  then have "mcomb n (\<lambda>r. if r = i then 1 else 0) M j = xsum (\<lambda>r. if r = i then M r j else 0) {..<n}"
    unfolding mcomb_def by (intro xs.cong) (auto simp: elems_def mul_1)
  then show ?thesis using a by (simp add: xs.delta)
qed

text \<open>One change of the coefficients undoes one change of a row.\<close>

lemma mcomb_change:
  assumes "i < n" "\<And>r. r < n \<Longrightarrow> r \<noteq> i \<Longrightarrow> mul (c' r) (M' r j) = mul (c r) (M r j)"
  shows "mcomb n c' M' j = mcomb n c M j XOR (mul (c i) (M i j) XOR mul (c' i) (M' i j))"
proof -
  have "xsum (\<lambda>r. mul (c' r) (M' r j)) ({..<n} - {i}) = xsum (\<lambda>r. mul (c r) (M r j)) ({..<n} - {i})"
    by (rule xs.cong) (use assms in auto)
  then show ?thesis using assms(1)
    by (simp add: mcomb_def xs.remove [of "{..<n}" i] ac_simps)
qed

lemma invertibleI:
  assumes "\<And>k. k < n \<Longrightarrow> \<exists>c. (\<forall>r < n. elem (c r)) \<and> (\<forall>j < n. mcomb n c M j = (if k = j then 1 else 0))"
  shows "invertible n M"
proof -
  obtain B where "\<forall>k < n. (\<forall>r < n. elem (B k r)) \<and> (\<forall>j < n. mcomb n (B k) M j = (if k = j then 1 else 0))"
    using assms by metis
  then show ?thesis unfolding invertible_def left_inverse_def elems_def by blast
qed

lemma invertible_change:
  assumes "invertible n A"
    and "\<And>c. (\<forall>r < n. elem (c r)) \<Longrightarrow> \<exists>c'. (\<forall>r < n. elem (c' r)) \<and> (\<forall>j < n. mcomb n c' A' j = mcomb n c A j)"
  shows "invertible n A'"
proof (rule invertibleI)
  fix k assume "k < n"
  obtain B where "left_inverse n B A" using assms(1) by (auto simp: invertible_def)
  then have "\<forall>r < n. elem (B k r)" "\<forall>j < n. mcomb n (B k) A j = (if k = j then 1 else 0)"
    using \<open>k < n\<close> by (auto simp: left_inverse_def elems_def)
  then show "\<exists>c. (\<forall>r < n. elem (c r)) \<and> (\<forall>j < n. mcomb n c A' j = (if k = j then 1 else 0))"
    using assms(2) [of "B k"] by auto
qed

lemma row_inv_add:
  assumes "row_inv n M A B" "elems n M" "i < n" "j < n" "i \<noteq> j" "elem t"
    and A': "\<And>r c. r < n \<Longrightarrow> c < n \<Longrightarrow> A' r c = (if r = j then A j c XOR mul t (A i c) else A r c)"
    and B': "\<And>r c. r < n \<Longrightarrow> c < n \<Longrightarrow> B' r c = (if r = j then B j c XOR mul t (B i c) else B r c)"
  shows "row_inv n M A' B'"
proof -
  have e: "elem (A r c)" "elem (B r c)" "A r c = mcomb n (B r) M c" if "r < n" "c < n" for r c
    using assms(1) that by (auto simp: row_inv_def elems_def)
  have "elems n A'" "elems n B'"
    using A' B' e assms(3-6) by (auto simp: elems_def intro!: elem_xor elem_mul)
  moreover have "A' r c = mcomb n (B' r) M c" if "r < n" "c < n" for r c
  proof (cases "r = j")
    case True
    have "mcomb n (B' r) M c = mcomb n (\<lambda>x. B j x XOR mul t (B i x)) M c"
      by (rule mcomb_cong) (use B' True that in auto)
    also have "\<dots> = mcomb n (B j) M c XOR mul t (mcomb n (B i) M c)"
      by (rule mcomb_add) (use e assms that in auto)
    finally show ?thesis using e(3) A' True assms(3,4) that by simp
  next
    case False
    then show ?thesis using A' e(3) that mcomb_cong [of n "B' r" "B r" M c M] B' by auto
  qed
  moreover have "invertible n A'" if "invertible n A"
  proof (rule invertible_change [OF that])
    fix c assume c: "\<forall>r < n. elem (c r)"
    let ?c = "\<lambda>r. if r = i then c i XOR mul t (c j) else c r"
    have "mcomb n ?c A' x = mcomb n c A x" if "x < n" for x
    proof -
      have "mcomb n ?c A' x = mcomb n ?c A x XOR (mul (?c j) (A j x) XOR mul (?c j) (A' j x))"
        by (rule mcomb_change) (use A' assms(4) that in auto)
      also have "mul (?c j) (A j x) XOR mul (?c j) (A' j x) = mul (c j) (mul t (A i x))"
        using A' [OF assms(4) that] assms(3-6) e that c by (simp add: mul_xor elem_mul)
      also have "mcomb n ?c A x = mcomb n c A x XOR (mul (c i) (A i x) XOR mul (?c i) (A i x))"
        by (rule mcomb_change) (use assms(3) in auto)
      also have "mul (c i) (A i x) XOR mul (?c i) (A i x) = mul (c j) (mul t (A i x))"
        using assms(3-6) e that c by (simp add: mul_xor_left elem_mul mul_assoc mul_commute [of t "c j"])
      finally show ?thesis by (simp add: xor.assoc)
    qed
    moreover have "\<forall>r < n. elem (?c r)" using c assms(3-6) by (auto intro!: elem_xor elem_mul)
    ultimately have "(\<forall>r < n. elem (?c r)) \<and> (\<forall>j < n. mcomb n ?c A' j = mcomb n c A j)" by simp
    then show "\<exists>c'. (\<forall>r < n. elem (c' r)) \<and> (\<forall>j < n. mcomb n c' A' j = mcomb n c A j)"
      by (rule exI [of _ ?c])
  qed
  ultimately show ?thesis using assms(1) by (auto simp: row_inv_def)
qed

lemma row_inv_scale:
  assumes "row_inv n M A B" "elems n M" "i < n" "elem t" "t \<noteq> 0"
    and A': "\<And>r c. r < n \<Longrightarrow> c < n \<Longrightarrow> A' r c = (if r = i then mul (A i c) t else A r c)"
    and B': "\<And>r c. r < n \<Longrightarrow> c < n \<Longrightarrow> B' r c = (if r = i then mul (B i c) t else B r c)"
  shows "row_inv n M A' B'"
proof -
  have e: "elem (A r c)" "elem (B r c)" "A r c = mcomb n (B r) M c" if "r < n" "c < n" for r c
    using assms(1) that by (auto simp: row_inv_def elems_def)
  have "elems n A'" "elems n B'"
    using A' B' e assms(3-6) by (auto simp: elems_def intro!: elem_mul)
  moreover have "A' r c = mcomb n (B' r) M c" if "r < n" "c < n" for r c
  proof (cases "r = i")
    case True
    have "mcomb n (B' r) M c = mcomb n (\<lambda>x. mul (B i x) t) M c"
      by (rule mcomb_cong) (use B' True that in auto)
    also have "\<dots> = mul (mcomb n (B i) M c) t"
      by (rule mcomb_scale) (use e assms that in auto)
    finally show ?thesis using e(3) A' True assms(3,4) that by simp
  next
    case False
    then show ?thesis using A' e(3) that mcomb_cong [of n "B' r" "B r" M c M] B' by auto
  qed
  moreover have "invertible n A'" if "invertible n A"
  proof (rule invertible_change [OF that])
    fix c assume c: "\<forall>r < n. elem (c r)"
    let ?c = "\<lambda>r. if r = i then mul (c i) (dv 1 t) else c r"
    have t: "elem (dv 1 t)" "mul (dv 1 t) t = 1"
      using assms(4,5) elem_1 mul_dv [of 1 t] by (simp_all add: elem_dv mul_commute)
    have "mcomb n ?c A' x = mcomb n c A x" if "x < n" for x
    proof -
      have "mul (?c i) (A' i x) = mul (mul (c i) (dv 1 t)) (mul t (A i x))"
        using A' assms(3,4) that e by (simp add: mul_commute)
      also have "\<dots> = mul (c i) (mul (mul (dv 1 t) t) (A i x))"
        using c e assms(3,4) that t(1) by (simp add: mul_assoc elem_mul)
      also have "\<dots> = mul (c i) (A i x)" using t e assms(3) that by (simp add: mul_1)
      finally show ?thesis
        using mcomb_change [of i n ?c A' x c A] assms(3) A' that by simp
    qed
    moreover have "\<forall>r < n. elem (?c r)" using c t assms(3) by (auto intro!: elem_mul)
    ultimately have "(\<forall>r < n. elem (?c r)) \<and> (\<forall>j < n. mcomb n ?c A' j = mcomb n c A j)" by simp
    then show "\<exists>c'. (\<forall>r < n. elem (c' r)) \<and> (\<forall>j < n. mcomb n c' A' j = mcomb n c A j)"
      by (rule exI [of _ ?c])
  qed
  ultimately show ?thesis using assms(1) by (auto simp: row_inv_def)
qed

lemma row_inv_swap:
  assumes "row_inv n M A B" "i < n" "j < n"
    and A': "\<And>r c. r < n \<Longrightarrow> c < n \<Longrightarrow> A' r c = A (if r = i then j else if r = j then i else r) c"
    and B': "\<And>r c. r < n \<Longrightarrow> c < n \<Longrightarrow> B' r c = B (if r = i then j else if r = j then i else r) c"
  shows "row_inv n M A' B'"
proof -
  let ?p = "\<lambda>r. if r = i then j else if r = j then i else r"
  have p: "?p r < n" if "r < n" for r using that assms(2,3) by auto
  have e: "elem (A r c)" "elem (B r c)" "A r c = mcomb n (B r) M c" if "r < n" "c < n" for r c
    using assms(1) that by (auto simp: row_inv_def elems_def)
  have "elems n A'" "elems n B'" using A' B' e p by (auto simp: elems_def)
  moreover have "A' r c = mcomb n (B' r) M c" if "r < n" "c < n" for r c
    using A' [OF that] e(3) [OF p that(2)] that mcomb_cong [of n "B' r" "B (?p r)" M c M] B' by auto
  moreover have "invertible n A'" if "invertible n A"
  proof (rule invertible_change [OF that])
    fix c assume c: "\<forall>r < n. elem (c r)"
    have "mcomb n (c \<circ> ?p) A' x = mcomb n c A x" if "x < n" for x
    proof -
      have im: "?p ` {..<n} = {..<n}"
      proof (intro subset_antisym subsetI)
        fix r assume "r \<in> {..<n}"
        then have "r = ?p (?p r)" "?p r \<in> {..<n}" using p [of r] by auto
        then show "r \<in> ?p ` {..<n}" by blast
      next
        fix r assume "r \<in> ?p ` {..<n}"
        then obtain s where "s < n" "r = ?p s" by blast
        then show "r \<in> {..<n}" using p [of s] by simp
      qed
      have "mcomb n (c \<circ> ?p) A' x = xsum ((\<lambda>r. mul (c r) (A r x)) \<circ> ?p) {..<n}"
        unfolding mcomb_def by (rule xs.cong) (use A' that in auto)
      also have "\<dots> = xsum (\<lambda>r. mul (c r) (A r x)) (?p ` {..<n})"
        by (rule xs.reindex [symmetric]) (auto simp: inj_on_def split: if_splits)
      finally show ?thesis unfolding im mcomb_def .
    qed
    moreover have "\<forall>r < n. elem ((c \<circ> ?p) r)" using c p by auto
    ultimately show "\<exists>c'. (\<forall>r < n. elem (c' r)) \<and> (\<forall>j < n. mcomb n c' A' j = mcomb n c A j)" by blast
  qed
  ultimately show ?thesis using assms(1) by (auto simp: row_inv_def)
qed

text \<open>The echelon form after \<open>i\<close> columns, and that an invertible matrix has the next pivot.\<close>

definition gauss :: "nat \<Rightarrow> nat \<Rightarrow> (nat \<Rightarrow> nat \<Rightarrow> cint) \<Rightarrow> bool" where
  "gauss n i A \<longleftrightarrow> (\<forall>r < n. \<forall>c < i. c < r \<longrightarrow> A r c = 0) \<and> (\<forall>r < i. A r r = 1)"

lemma gauss_pivot:
  assumes "invertible n A" "elems n A" "gauss n i A" "i < n"
  shows "\<exists>r < n. i \<le> r \<and> A r i \<noteq> 0"
proof (rule ccontr)
  assume no: "\<not> ?thesis"
  obtain B where "left_inverse n B A" using assms(1) by (auto simp: invertible_def)
  then have b: "\<forall>r < n. elem (B i r)" "\<forall>j < n. mcomb n (B i) A j = (if i = j then 1 else 0)"
    using assms(4) by (auto simp: left_inverse_def elems_def)
  have zero: "r < i \<Longrightarrow> B i r = 0" for r
  proof (induction r rule: less_induct)
    case (less r)
    have rn: "r < n" using less.prems assms(4) by simp
    have "mcomb n (B i) A r = xsum (\<lambda>x. if x = r then B i x else 0) {..<n}"
      unfolding mcomb_def
    proof (rule xs.cong)
      fix x assume x: "x \<in> {..<n}"
      consider "x < r" | "x = r" | "r < x" by linarith
      then show "mul (B i x) (A x r) = (if x = r then B i x else 0)"
      proof cases
        case 1
        then show ?thesis using less assms(2) x rn by (simp add: elems_def)
      next
        case 2
        then show ?thesis using assms(3) less.prems b x by (simp add: gauss_def mul_1_right)
      next
        case 3
        then show ?thesis using assms(3) less.prems b x by (simp add: gauss_def)
      qed
    qed simp
    then show ?case using b(2) rn less.prems by (simp add: xs.delta split: if_splits)
  qed
  have "mcomb n (B i) A i = 0" unfolding mcomb_def
  proof (rule xs.neutral, rule ballI)
    fix x assume x: "x \<in> {..<n}"
    show "mul (B i x) (A x i) = 0"
      using zero [of x] no x b assms(2,4) by (cases "x < i") (auto simp: elems_def)
  qed
  then show False using b(2) assms(4) by simp
qed

lemma row_inv_start: "elems n M \<Longrightarrow> row_inv n M M (\<lambda>i j. if i = j then 1 else 0)"
proof -
  assume M: "elems n M"
  have "mcomb n (\<lambda>j. if i = j then 1 else 0) M c = M i c" if "i < n" "c < n" for i c
    using mcomb_unit [OF that(1) M that(2)] by (simp add: eq_commute [of i])
  then show ?thesis using M elem_0 elem_1 by (auto simp: row_inv_def elems_def)
qed

lemma row_inv_elems: "row_inv n M A B \<Longrightarrow> i < n \<Longrightarrow> j < n \<Longrightarrow> elem (A i j) \<and> elem (B i j)"
  unfolding row_inv_def elems_def by blast

text \<open>Back substitution of one column, for the coefficients alone.\<close>

definition back_done :: "nat \<Rightarrow> (nat \<Rightarrow> nat \<Rightarrow> cint) \<Rightarrow> (nat \<Rightarrow> nat \<Rightarrow> cint) \<Rightarrow> nat \<Rightarrow> (nat \<Rightarrow> nat \<Rightarrow> cint) \<Rightarrow> bool" where
  "back_done n M A i B \<longleftrightarrow> elems n B \<and>
     (\<forall>r < n. \<forall>c < n. mcomb n (B r) M c = (if c < i \<or> c \<le> r then A r c else 0))"

lemma back_done_start: "row_inv n M A B \<Longrightarrow> back_done n M A n B"
  by (auto simp: row_inv_def back_done_def)

lemma back_done_step:
  assumes "back_done n M A (Suc i) B" "elems n M" "elems n A" "gauss n n A" "i < n"
    and B': "\<And>r c. r < n \<Longrightarrow> c < n \<Longrightarrow> B' r c = (if r < i \<and> A r i \<noteq> 0 then B r c XOR mul (A r i) (B i c) else B r c)"
  shows "back_done n M A i B'"
proof -
  have e: "elem (B r c)" "elem (A r c)" if "r < n" "c < n" for r c
    using assms(1,3) that by (auto simp: back_done_def elems_def)
  have b: "mcomb n (B r) M c = (if c < Suc i \<or> c \<le> r then A r c else 0)" if "r < n" "c < n" for r c
    using assms(1) that by (simp add: back_done_def)
  have unit: "mcomb n (B i) M c = (if c = i then 1 else 0)" if "c < n" for c
    using b [OF assms(5) that] assms(4,5) that by (auto simp: gauss_def)
  have "elems n B'" using B' e assms(5) by (auto simp: elems_def intro!: elem_xor elem_mul)
  moreover have "mcomb n (B' r) M c = (if c < i \<or> c \<le> r then A r c else 0)" if rc: "r < n" "c < n" for r c
  proof (cases "r < i \<and> A r i \<noteq> 0")
    case True
    have "mcomb n (B' r) M c = mcomb n (\<lambda>x. B r x XOR mul (A r i) (B i x)) M c"
      by (rule mcomb_cong) (use B' True rc in auto)
    also have "\<dots> = mcomb n (B r) M c XOR mul (A r i) (mcomb n (B i) M c)"
      by (rule mcomb_add) (use e assms rc in auto)
    also have "\<dots> = (if c < Suc i \<or> c \<le> r then A r c else 0) XOR (if c = i then A r i else 0)"
      using b [OF rc] unit [OF rc(2)] e [OF rc(1) assms(5)] by (simp add: mul_1_right)
    also have "\<dots> = (if c < i \<or> c \<le> r then A r c else 0)" using True by auto
    finally show ?thesis .
  next
    case False
    have "mcomb n (B' r) M c = mcomb n (B r) M c"
      by (rule mcomb_cong) (use B' False rc in auto)
    then show ?thesis using b [OF rc] False assms(4,5) rc by (auto simp: less_Suc_eq)
  qed
  ultimately show ?thesis by (simp add: back_done_def)
qed

lemma back_done_inverse:
  assumes "back_done n M A 0 B" "gauss n n A"
  shows "left_inverse n B M"
  using assms by (auto simp: back_done_def left_inverse_def gauss_def)

lemma identity_inverse:
  assumes "row_inv n M A B" "\<And>r c. r < n \<Longrightarrow> c < n \<Longrightarrow> A r c = (if r = c then 1 else 0)"
  shows "left_inverse n B M"
  using assms by (simp add: row_inv_def left_inverse_def)

text \<open>A left inverse recovers a vector from its image.\<close>

lemma left_inverse_solve:
  assumes "left_inverse n B M" "elems n M" "\<And>j. j < n \<Longrightarrow> elem (v j)" "i < n"
  shows "xsum (\<lambda>r. mul (B i r) (xsum (\<lambda>j. mul (M r j) (v j)) {..<n})) {..<n} = v i"
proof -
  have e: "\<And>r. r < n \<Longrightarrow> elem (B i r)" "\<And>r j. r < n \<Longrightarrow> j < n \<Longrightarrow> elem (M r j)"
    using assms by (auto simp: left_inverse_def elems_def)
  have "xsum (\<lambda>r. mul (B i r) (xsum (\<lambda>j. mul (M r j) (v j)) {..<n})) {..<n}
      = xsum (\<lambda>r. xsum (\<lambda>j. mul (mul (B i r) (M r j)) (v j)) {..<n}) {..<n}"
    by (intro xs.cong refl, subst mul_xsum) (use e assms(3) in \<open>auto simp: elem_mul mul_assoc intro!: xs.cong\<close>)
  also have "\<dots> = xsum (\<lambda>j. xsum (\<lambda>r. mul (mul (B i r) (M r j)) (v j)) {..<n}) {..<n}"
    by (rule xs.swap)
  also have "\<dots> = xsum (\<lambda>j. mul (v j) (mcomb n (B i) M j)) {..<n}"
    unfolding mcomb_def
    by (intro xs.cong refl, subst mul_xsum) (use e assms(3) in \<open>auto simp: elem_mul mul_commute intro!: xs.cong\<close>)
  also have "\<dots> = xsum (\<lambda>j. if j = i then v j else 0) {..<n}"
    using assms by (intro xs.cong) (auto simp: left_inverse_def mul_1_right)
  also have "\<dots> = v i" using assms(4) by (simp add: xs.delta)
  finally show ?thesis .
qed

end

end
