(* ===== verification/Jerasure_Matrix.thy ===== *)
theory Jerasure_Matrix
  imports Gauss
begin

unbundle bit_operations_syntax

text \<open>
  The integer matrices of \<^verbatim>\<open>jerasure.c\<close>: row operations, inversion over the field of width \<open>w\<close> and
  over bits, products, the expansion of a matrix into a bit matrix, the erasure list and the decoding
  matrices.  A matrix is the array of the source, row after row, as a list of \<^verbatim>\<open>int\<close>s; the index
  arithmetic is that of the source.  Where a loop of the source updates the matrix and its inverse
  side by side, the two updates are written one after the other: the arrays are distinct.
\<close>

section \<open>Row operations\<close>

definition row_swap :: "nat \<Rightarrow> nat \<Rightarrow> nat \<Rightarrow> cint list \<Rightarrow> cint list" where
  "row_swap cols row_start rs2 mat =
     fold (\<lambda>k mat. let tmp = mat ! (row_start + k);
                       mat = mat[row_start + k := mat ! (rs2 + k)]
                   in mat[rs2 + k := tmp]) [0..<cols] mat"

definition row_map :: "nat \<Rightarrow> nat \<Rightarrow> (cint \<Rightarrow> cint) \<Rightarrow> cint list \<Rightarrow> cint list" where
  "row_map cols row_start f mat =
     fold (\<lambda>j mat. mat[row_start + j := f (mat ! (row_start + j))]) [0..<cols] mat"

definition row_add :: "nat \<Rightarrow> nat \<Rightarrow> nat \<Rightarrow> (cint \<Rightarrow> cint) \<Rightarrow> cint list \<Rightarrow> cint list" where
  "row_add cols row_start rs2 f mat =
     fold (\<lambda>x mat. mat[rs2 + x := mat ! (rs2 + x) XOR f (mat ! (row_start + x))]) [0..<cols] mat"

definition identity_fill :: "nat \<Rightarrow> cint list \<Rightarrow> cint list" where
  "identity_fill rows iv =
     fst (fold (\<lambda>i s. fold (\<lambda>j (iv, k). (iv[k := (if i = j then 1 else 0)], k + 1)) [0..<rows] s)
           [0..<rows] (iv, 0))"

section \<open>Inversion over the field\<close>

text \<open>
  One column of the upper triangular pass: the swap that brings a nonzero pivot up (the flag is false
  when there is none and the function returns -1), the division of the row by the pivot, and the
  elimination from a later row.
\<close>

definition pivot_swap :: "nat \<Rightarrow> nat \<Rightarrow> cint list \<times> cint list \<Rightarrow> bool \<times> cint list \<times> cint list" where
  "pivot_swap cols i = (\<lambda>(mat, iv).
     let row_start = cols * i
     in if mat ! (row_start + i) = 0 then
          let j = scan_from (\<lambda>j. mat ! (cols * j + i) \<noteq> 0) (i + 1) cols
          in if j = cols then (False, mat, iv)
             else let rs2 = j * cols
                  in (True, row_swap cols row_start rs2 mat, row_swap cols row_start rs2 iv)
        else (True, mat, iv))"

definition pivot_scale :: "nat \<Rightarrow> nat \<Rightarrow> nat \<Rightarrow> cint list \<times> cint list \<Rightarrow> cint list \<times> cint list" where
  "pivot_scale w cols i = (\<lambda>(mat, iv).
     let row_start = cols * i;
         tmp = mat ! (row_start + i)
     in if tmp \<noteq> 1 then
          let inverse = gdiv w 1 tmp
          in (row_map cols row_start (\<lambda>v. gmul w v inverse) mat,
              row_map cols row_start (\<lambda>v. gmul w v inverse) iv)
        else (mat, iv))"

definition eliminate_row :: "nat \<Rightarrow> nat \<Rightarrow> nat \<Rightarrow> nat \<Rightarrow> cint list \<times> cint list \<Rightarrow> cint list \<times> cint list" where
  "eliminate_row w cols i j = (\<lambda>(mat, iv).
     let row_start = cols * i;
         tmp = mat ! (cols * j + i);
         rs2 = cols * j
     in if tmp \<noteq> 0 then
          if tmp = 1 then (row_add cols row_start rs2 (\<lambda>v. v) mat, row_add cols row_start rs2 (\<lambda>v. v) iv)
          else (row_add cols row_start rs2 (\<lambda>v. gmul w tmp v) mat,
                row_add cols row_start rs2 (\<lambda>v. gmul w tmp v) iv)
        else (mat, iv))"

definition invert_column :: "nat \<Rightarrow> nat \<Rightarrow> nat \<Rightarrow> cint list \<times> cint list \<Rightarrow> bool \<times> cint list \<times> cint list" where
  "invert_column w cols i s =
     (case pivot_swap cols i s of (ok, s) \<Rightarrow>
        if \<not> ok then (False, s)
        else (True, fold (eliminate_row w cols i) [i + 1..<cols] (pivot_scale w cols i s)))"

definition back_row :: "nat \<Rightarrow> nat \<Rightarrow> nat \<Rightarrow> nat \<Rightarrow> cint list \<times> cint list \<Rightarrow> cint list \<times> cint list" where
  "back_row w cols i j = (\<lambda>(mat, iv).
     let rs2 = j * cols
     in if mat ! (rs2 + i) \<noteq> 0 then
          let tmp = mat ! (rs2 + i)
          in (mat[rs2 + i := 0], row_add cols (i * cols) rs2 (\<lambda>v. gmul w tmp v) iv)
        else (mat, iv))"

definition jerasure_invert_matrix ::
  "cint list \<Rightarrow> cint list \<Rightarrow> nat \<Rightarrow> nat \<Rightarrow> int \<times> cint list \<times> cint list" where
  "jerasure_invert_matrix mat iv rows w =
     (case fold (\<lambda>i (ok, s). if ok then invert_column w rows i s else (ok, s)) [0..<rows]
             (True, mat, identity_fill rows iv) of
        (ok, mat, iv) \<Rightarrow>
          if \<not> ok then (-1, mat, iv)
          else case fold (\<lambda>i s. fold (back_row w rows i) [0..<i] s) (rev [0..<rows]) (mat, iv) of
                 (mat, iv) \<Rightarrow> (0, mat, iv))"

text \<open>The same column on the matrix alone, for \<^verbatim>\<open>jerasure_invertible_matrix\<close>.\<close>

definition swap_only :: "nat \<Rightarrow> nat \<Rightarrow> cint list \<Rightarrow> bool \<times> cint list" where
  "swap_only cols i mat =
     (let row_start = cols * i
      in if mat ! (row_start + i) = 0 then
           let j = scan_from (\<lambda>j. mat ! (cols * j + i) \<noteq> 0) (i + 1) cols
           in if j = cols then (False, mat) else (True, row_swap cols row_start (j * cols) mat)
         else (True, mat))"

definition scale_only :: "nat \<Rightarrow> nat \<Rightarrow> nat \<Rightarrow> cint list \<Rightarrow> cint list" where
  "scale_only w cols i mat =
     (let row_start = cols * i;
          tmp = mat ! (row_start + i)
      in if tmp \<noteq> 1 then
           let inverse = gdiv w 1 tmp in row_map cols row_start (\<lambda>v. gmul w v inverse) mat
         else mat)"

definition eliminate_only :: "nat \<Rightarrow> nat \<Rightarrow> nat \<Rightarrow> nat \<Rightarrow> cint list \<Rightarrow> cint list" where
  "eliminate_only w cols i j mat =
     (let row_start = cols * i;
          tmp = mat ! (cols * j + i);
          rs2 = cols * j
      in if tmp \<noteq> 0 then
           if tmp = 1 then row_add cols row_start rs2 (\<lambda>v. v) mat
           else row_add cols row_start rs2 (\<lambda>v. gmul w tmp v) mat
         else mat)"

definition invertible_column :: "nat \<Rightarrow> nat \<Rightarrow> nat \<Rightarrow> cint list \<Rightarrow> bool \<times> cint list" where
  "invertible_column w cols i mat =
     (case swap_only cols i mat of (ok, mat) \<Rightarrow>
        if \<not> ok then (False, mat)
        else (True, fold (eliminate_only w cols i) [i + 1..<cols] (scale_only w cols i mat)))"

definition jerasure_invertible_matrix :: "cint list \<Rightarrow> nat \<Rightarrow> nat \<Rightarrow> int \<times> cint list" where
  "jerasure_invertible_matrix mat rows w =
     (case fold (\<lambda>i (ok, mat). if ok then invertible_column w rows i mat else (ok, mat)) [0..<rows]
             (True, mat) of
        (ok, mat) \<Rightarrow> (if ok then 1 else 0, mat))"

section \<open>Inversion over bits\<close>

text \<open>
  The search for a pivot and the swap are the loops of \<open>pivot_swap\<close> and \<open>swap_only\<close>; there is no
  division, and back substitution adds whole rows, of the matrix too.
\<close>

definition bit_eliminate_row :: "nat \<Rightarrow> nat \<Rightarrow> nat \<Rightarrow> cint list \<times> cint list \<Rightarrow> cint list \<times> cint list" where
  "bit_eliminate_row cols i j = (\<lambda>(mat, iv).
     if mat ! (j * cols + i) \<noteq> 0
     then (row_add cols (i * cols) (j * cols) (\<lambda>v. v) mat,
           row_add cols (i * cols) (j * cols) (\<lambda>v. v) iv)
     else (mat, iv))"

definition bit_column :: "nat \<Rightarrow> nat \<Rightarrow> cint list \<times> cint list \<Rightarrow> bool \<times> cint list \<times> cint list" where
  "bit_column cols i s =
     (case pivot_swap cols i s of (ok, s) \<Rightarrow>
        if \<not> ok then (False, s)
        else (True, fold (bit_eliminate_row cols i) [i + 1..<cols] s))"

definition jerasure_invert_bitmatrix ::
  "cint list \<Rightarrow> cint list \<Rightarrow> nat \<Rightarrow> int \<times> cint list \<times> cint list" where
  "jerasure_invert_bitmatrix mat iv rows =
     (case fold (\<lambda>i (ok, s). if ok then bit_column rows i s else (ok, s)) [0..<rows]
             (True, mat, identity_fill rows iv) of
        (ok, mat, iv) \<Rightarrow>
          if \<not> ok then (-1, mat, iv)
          else case fold (\<lambda>i s. fold (bit_eliminate_row rows i) [0..<i] s) (rev [0..<rows]) (mat, iv) of
                 (mat, iv) \<Rightarrow> (0, mat, iv))"

definition bit_eliminate_only :: "nat \<Rightarrow> nat \<Rightarrow> nat \<Rightarrow> cint list \<Rightarrow> cint list" where
  "bit_eliminate_only cols i j mat =
     (if mat ! (j * cols + i) \<noteq> 0 then row_add cols (i * cols) (j * cols) (\<lambda>v. v) mat else mat)"

definition invertible_bit_column :: "nat \<Rightarrow> nat \<Rightarrow> cint list \<Rightarrow> bool \<times> cint list" where
  "invertible_bit_column cols i mat =
     (case swap_only cols i mat of (ok, mat) \<Rightarrow>
        if \<not> ok then (False, mat)
        else (True, fold (bit_eliminate_only cols i) [i + 1..<cols] mat))"

definition jerasure_invertible_bitmatrix :: "cint list \<Rightarrow> nat \<Rightarrow> int \<times> cint list" where
  "jerasure_invertible_bitmatrix mat rows =
     (case fold (\<lambda>i (ok, mat). if ok then invertible_bit_column rows i mat else (ok, mat)) [0..<rows]
             (True, mat) of
        (ok, mat) \<Rightarrow> (if ok then 1 else 0, mat))"

section \<open>Products and bit matrices\<close>

definition jerasure_matrix_multiply ::
  "cint list \<Rightarrow> cint list \<Rightarrow> nat \<Rightarrow> nat \<Rightarrow> nat \<Rightarrow> nat \<Rightarrow> nat \<Rightarrow> cint list" where
  "jerasure_matrix_multiply m1 m2 r1 c1 r2 c2 w =
     fold (\<lambda>i product. fold (\<lambda>j product. fold (\<lambda>k product.
         product[i * c2 + j := product ! (i * c2 + j) XOR gmul w (m1 ! (i * c1 + k)) (m2 ! (k * c2 + j))])
       [0..<r2] product) [0..<c2] product) [0..<r1] (replicate (r1 * c2) 0)"

definition jerasure_matrix_to_bitmatrix :: "nat \<Rightarrow> nat \<Rightarrow> nat \<Rightarrow> cint list \<Rightarrow> cint list" where
  "jerasure_matrix_to_bitmatrix k m w matrix =
     (let rowelts = k * w
      in fst (fold (\<lambda>i (bitmatrix, rowindex).
           (fst (fold (\<lambda>j (bitmatrix, colindex).
              (fst (fold (\<lambda>x (bitmatrix, elt).
                 (fold (\<lambda>l bitmatrix.
                    bitmatrix[colindex + x + l * rowelts := (if elt AND push_bit l 1 \<noteq> 0 then 1 else 0)])
                    [0..<w] bitmatrix,
                  gmul w elt 2)) [0..<w] (bitmatrix, matrix ! (i * k + j))),
               colindex + w)) [0..<k] (bitmatrix, rowindex)),
            rowindex + rowelts * w)) [0..<m] (replicate (k * m * w * w) 0, 0)))"

section \<open>Erasures and decoding matrices\<close>

text \<open>
  The list of erased devices, up to its end mark -1.  \<open>None\<close> is the null pointer: fewer than \<open>k\<close>
  devices are left.
\<close>

fun erased_scan :: "nat \<Rightarrow> int list \<Rightarrow> nat list \<times> nat \<Rightarrow> nat list option" where
  "erased_scan k [] (erased, left) = Some erased"
| "erased_scan k (e # es) (erased, left) =
     (if e = -1 then Some erased
      else if erased ! nat e = 0
      then (if left - 1 < k then None else erased_scan k es (erased[nat e := 1], left - 1))
      else erased_scan k es (erased, left))"

definition jerasure_erasures_to_erased :: "nat \<Rightarrow> nat \<Rightarrow> int list \<Rightarrow> nat list option" where
  "jerasure_erasures_to_erased k m erasures = erased_scan k erasures (replicate (k + m) 0, k + m)"

text \<open>The first \<open>k\<close> devices that are not erased: the loop that fills \<^verbatim>\<open>dm_ids\<close>.\<close>

fun survivors :: "nat \<Rightarrow> nat \<Rightarrow> nat list \<Rightarrow> nat list" where
  "survivors 0 i erased = []"
| "survivors (Suc j) i [] = []"
| "survivors (Suc j) i (e # erased) =
     (if e = 0 then i # survivors j (Suc i) erased else survivors (Suc j) (Suc i) erased)"

definition jerasure_make_decoding_matrix ::
  "nat \<Rightarrow> nat \<Rightarrow> nat \<Rightarrow> cint list \<Rightarrow> nat list \<Rightarrow> int \<times> cint list \<times> nat list" where
  "jerasure_make_decoding_matrix k m w matrix erased =
     (let dm_ids = survivors k 0 erased;
          tmpmat = fold (\<lambda>i tmpmat.
            if dm_ids ! i < k then
              (fold (\<lambda>j t. t[i * k + j := 0]) [0..<k] tmpmat)[i * k + dm_ids ! i := 1]
            else fold (\<lambda>j t. t[i * k + j := matrix ! ((dm_ids ! i - k) * k + j)]) [0..<k] tmpmat)
            [0..<k] (replicate (k * k) 0)
      in case jerasure_invert_matrix tmpmat (replicate (k * k) 0) k w of
           (i, tmpmat, decoding_matrix) \<Rightarrow> (i, decoding_matrix, dm_ids))"

definition jerasure_make_decoding_bitmatrix ::
  "nat \<Rightarrow> nat \<Rightarrow> nat \<Rightarrow> cint list \<Rightarrow> nat list \<Rightarrow> int \<times> cint list \<times> nat list" where
  "jerasure_make_decoding_bitmatrix k m w matrix erased =
     (let dm_ids = survivors k 0 erased;
          tmpmat = fold (\<lambda>i tmpmat.
            if dm_ids ! i < k then
              let tmpmat = fold (\<lambda>j t. t[i * k * w * w + j := 0]) [0..<k * w * w] tmpmat
              in fst (fold (\<lambda>j (t, index). (t[index := 1], index + (k * w + 1))) [0..<w]
                       (tmpmat, i * k * w * w + dm_ids ! i * w))
            else fold (\<lambda>j t. t[i * k * w * w + j := matrix ! ((dm_ids ! i - k) * k * w * w + j)])
                   [0..<k * w * w] tmpmat)
            [0..<k] (replicate (k * k * w * w) 0)
      in case jerasure_invert_bitmatrix tmpmat (replicate (k * k * w * w) 0) (k * w) of
           (i, tmpmat, decoding_matrix) \<Rightarrow> (i, decoding_matrix, dm_ids))"

end
