(* ===== verification/Jerasure_Inverse.thy ===== *)
theory Jerasure_Inverse
  imports Jerasure_Matrix
begin

unbundle bit_operations_syntax

text \<open>
  The inversion routines of \<^verbatim>\<open>jerasure.c\<close> are correct: over the field of every supported width, and
  over bits, the routine returns 0 and a left inverse exactly when the matrix has one, and -1
  otherwise; the two tests of invertibility answer the same question.
\<close>

section \<open>Entries of a flat matrix\<close>

definition ent :: "nat \<Rightarrow> cint list \<Rightarrow> nat \<Rightarrow> nat \<Rightarrow> cint" where
  "ent n mat i j = mat ! (n * i + j)"

lemma flat_index: "c < n \<Longrightarrow> x < n \<Longrightarrow> n * r + c = n * i + x \<longleftrightarrow> r = i \<and> c = (x::nat)"
proof
  assume "c < n" "x < n" "n * r + c = n * i + x"
  then have "(n * r + c) div n = (n * i + x) div n" "(n * r + c) mod n = (n * i + x) mod n" by simp_all
  then show "r = i \<and> c = x" using \<open>c < n\<close> \<open>x < n\<close> by simp
qed simp

lemma flat_bound: "r < m \<Longrightarrow> c < n \<Longrightarrow> n * r + c < n * (m::nat)"
proof -
  assume "r < m" "c < n"
  then have "n * r + c < n * Suc r" by simp
  also have "\<dots> \<le> n * m" using \<open>r < m\<close> by (intro mult_le_mono2) simp
  finally show ?thesis .
qed

lemma ent_update:
  assumes "length mat = n * m" "r < m" "c < n" "i < m" "x < n"
  shows "ent n (mat[n * i + x := v]) r c = (if r = i \<and> c = x then v else ent n mat r c)"
  using assms flat_index [of c n x r i] flat_bound [of i m x n] by (auto simp: ent_def nth_list_update)

lemma row_add_ent:
  assumes "length mat = n * m" "i < m" "j < m" "i \<noteq> j"
  shows "length (row_add n (n * i) (n * j) f mat) = n * m \<and>
    (\<forall>r < m. \<forall>c < n. ent n (row_add n (n * i) (n * j) f mat) r c =
       (if r = j then ent n mat j c XOR f (ent n mat i c) else ent n mat r c))"
proof -
  let ?P = "\<lambda>x t. length t = n * m \<and> (\<forall>r < m. \<forall>c < n. ent n t r c =
       (if r = j \<and> c < x then ent n mat j c XOR f (ent n mat i c) else ent n mat r c))"
  have "?P n (row_add n (n * i) (n * j) f mat)" unfolding row_add_def
  proof (rule fold_upt_inv0 [where P = ?P])
    fix x t assume x: "x < n" and P: "?P x t"
    have "t ! (n * j + x) = ent n mat j x" "t ! (n * i + x) = ent n mat i x"
      using P x assms by (simp_all add: ent_def [symmetric])
    then show "?P (Suc x) (t[n * j + x := t ! (n * j + x) XOR f (t ! (n * i + x))])"
      using P x assms by (auto simp: ent_update less_Suc_eq)
  qed (use assms in simp)
  then show ?thesis by auto
qed

lemma row_map_ent:
  assumes "length mat = n * m" "i < m"
  shows "length (row_map n (n * i) f mat) = n * m \<and>
    (\<forall>r < m. \<forall>c < n. ent n (row_map n (n * i) f mat) r c =
       (if r = i then f (ent n mat i c) else ent n mat r c))"
proof -
  let ?P = "\<lambda>x t. length t = n * m \<and> (\<forall>r < m. \<forall>c < n. ent n t r c =
       (if r = i \<and> c < x then f (ent n mat i c) else ent n mat r c))"
  have "?P n (row_map n (n * i) f mat)" unfolding row_map_def
  proof (rule fold_upt_inv0 [where P = ?P])
    fix x t assume x: "x < n" and P: "?P x t"
    have "t ! (n * i + x) = ent n mat i x" using P x assms by (simp add: ent_def [symmetric])
    then show "?P (Suc x) (t[n * i + x := f (t ! (n * i + x))])"
      using P x assms by (auto simp: ent_update less_Suc_eq)
  qed (use assms in simp)
  then show ?thesis by auto
qed

lemma row_swap_ent:
  assumes "length mat = n * m" "i < m" "j < m" "i \<noteq> j"
  shows "length (row_swap n (n * i) (n * j) mat) = n * m \<and>
    (\<forall>r < m. \<forall>c < n. ent n (row_swap n (n * i) (n * j) mat) r c =
       ent n mat (if r = i then j else if r = j then i else r) c)"
proof -
  let ?P = "\<lambda>x t. length t = n * m \<and> (\<forall>r < m. \<forall>c < n. ent n t r c =
       ent n mat (if c < x then if r = i then j else if r = j then i else r else r) c)"
  have "?P n (row_swap n (n * i) (n * j) mat)" unfolding row_swap_def
  proof (rule fold_upt_inv0 [where P = ?P])
    fix x t assume x: "x < n" and P: "?P x t"
    have "t ! (n * i + x) = ent n mat i x" "t ! (n * j + x) = ent n mat j x"
      using P x assms by (simp_all add: ent_def [symmetric])
    then show "?P (Suc x) (let tmp = t ! (n * i + x); t = t[n * i + x := t ! (n * j + x)] in t[n * j + x := tmp])"
      using P x assms by (auto simp: ent_update less_Suc_eq Let_def)
  qed (use assms in simp)
  then show ?thesis by auto
qed

lemma identity_fill_ent:
  assumes "length iv = n * n"
  shows "length (identity_fill n iv) = n * n \<and>
    (\<forall>r < n. \<forall>c < n. ent n (identity_fill n iv) r c = (if r = c then 1 else 0))"
proof -
  let ?P = "\<lambda>i x (t, k). k = n * i + x \<and> length t = n * n \<and>
     (\<forall>r < n. \<forall>c < n. r < i \<or> r = i \<and> c < x \<longrightarrow> ent n t r c = (if r = c then 1 else 0))"
  have row: "?P i n (fold (\<lambda>j (iv, k). (iv[k := (if i = j then 1 else 0)], k + 1)) [0..<n] s)"
    if "i < n" "?P i 0 s" for i s
  proof (rule fold_upt_inv0 [where P = "?P i"])
    fix x s assume "x < n" "?P i x s"
    then show "?P i (Suc x) (case s of (iv, k) \<Rightarrow> (iv[k := (if i = x then 1 else 0)], k + 1))"
      using that(1) by (auto simp: ent_update less_Suc_eq)
  qed (use that in simp)
  have "?P n 0 (fold (\<lambda>i s. fold (\<lambda>j (iv, k). (iv[k := (if i = j then 1 else 0)], k + 1)) [0..<n] s)
           [0..<n] (iv, 0))"
  proof (rule fold_upt_inv0 [where P = "\<lambda>i. ?P i 0"])
    fix i s assume "i < n" "?P i 0 s"
    from row [OF this] show "?P (Suc i) 0 (fold (\<lambda>j (iv, k). (iv[k := (if i = j then 1 else 0)], k + 1)) [0..<n] s)"
      by (auto simp: less_Suc_eq split: prod.splits)
  qed (use assms in simp)
  then show ?thesis by (auto simp: identity_fill_def split: prod.splits)
qed

section \<open>Inversion over the field is correct\<close>

text \<open>The elimination state: both arrays are square, and related by row operations to the start.\<close>

context xor_field
begin

definition elim :: "nat \<Rightarrow> (nat \<Rightarrow> nat \<Rightarrow> cint) \<Rightarrow> cint list \<times> cint list \<Rightarrow> bool" where
  "elim n M = (\<lambda>(mat, iv). length mat = n * n \<and> length iv = n * n \<and> row_inv n M (ent n mat) (ent n iv))"

lemma elim_elem: "elim n M (mat, iv) \<Longrightarrow> r < n \<Longrightarrow> c < n \<Longrightarrow> elem (ent n mat r c)"
  by (auto simp: elim_def dest: row_inv_elems)

lemma elim_add:
  assumes "elim n M (mat, iv)" "elems n M" "i < n" "j < n" "i \<noteq> j" "elem t"
    and f: "\<And>v. elem v \<Longrightarrow> f v = mul t v"
  shows "elim n M (row_add n (n * i) (n * j) f mat, row_add n (n * i) (n * j) f iv)"
proof -
  have l: "length mat = n * n" "length iv = n * n" "row_inv n M (ent n mat) (ent n iv)"
    using assms(1) by (simp_all add: elim_def)
  note A = row_add_ent [OF l(1) assms(3,4,5), of f] and B = row_add_ent [OF l(2) assms(3,4,5), of f]
  have "row_inv n M (ent n (row_add n (n * i) (n * j) f mat)) (ent n (row_add n (n * i) (n * j) f iv))"
    by (rule row_inv_add [OF l(3) assms(2-6)])
      (use A B f row_inv_elems [OF l(3) assms(3)] in auto)
  then show ?thesis using A B by (simp add: elim_def)
qed

lemma elim_start:
  assumes "length mat = n * n" "length iv = n * n" "elems n (ent n mat)"
  shows "elim n (ent n mat) (mat, identity_fill n iv)"
proof -
  have "mcomb n (ent n (identity_fill n iv) i) (ent n mat) c = mcomb n (\<lambda>j. if i = j then 1 else 0) (ent n mat) c"
    if "i < n" for i c
    by (rule mcomb_cong) (use identity_fill_ent [OF assms(2)] that in auto)
  then show ?thesis using row_inv_start [OF assms(3)] identity_fill_ent [OF assms(2)] elem_0 elem_1 assms(1)
    by (auto simp: elim_def row_inv_def elems_def)
qed

lemma elim_swap:
  assumes "elim n M (mat, iv)" "i < n" "j < n" "i < j" "gauss n i (ent n mat)" "ent n mat j i \<noteq> 0"
  shows "elim n M (row_swap n (n * i) (n * j) mat, row_swap n (n * i) (n * j) iv) \<and>
    gauss n i (ent n (row_swap n (n * i) (n * j) mat)) \<and> ent n (row_swap n (n * i) (n * j) mat) i i \<noteq> 0"
proof -
  have l: "length mat = n * n" "length iv = n * n" "row_inv n M (ent n mat) (ent n iv)"
    using assms(1) by (simp_all add: elim_def)
  have ij: "i \<noteq> j" using assms(4) by simp
  note A = row_swap_ent [OF l(1) assms(2,3) ij] and B = row_swap_ent [OF l(2) assms(2,3) ij]
  have "row_inv n M (ent n (row_swap n (n * i) (n * j) mat)) (ent n (row_swap n (n * i) (n * j) iv))"
    by (rule row_inv_swap [OF l(3) assms(2,3)]) (use A B in auto)
  moreover have "gauss n i (ent n (row_swap n (n * i) (n * j) mat))"
    using assms(2-5) A by (auto simp: gauss_def)
  ultimately show ?thesis using A B assms(2,6) by (simp add: elim_def)
qed

lemma pivot_swap_ok:
  assumes "elim n M s" "i < n" "gauss n i (ent n (fst s))"
  shows "case pivot_swap n i s of (ok, s') \<Rightarrow>
    if ok then elim n M s' \<and> gauss n i (ent n (fst s')) \<and> ent n (fst s') i i \<noteq> 0 else \<not> invertible n M"
proof -
  obtain mat iv where s: "s = (mat, iv)" by (cases s)
  let ?j = "scan_from (\<lambda>j. mat ! (n * j + i) \<noteq> 0) (i + 1) n"
  have j: "i + 1 \<le> ?j" "?j \<le> n" "?j < n \<Longrightarrow> ent n mat ?j i \<noteq> 0"
      "\<And>k. i + 1 \<le> k \<Longrightarrow> k < ?j \<Longrightarrow> ent n mat k i = 0"
    using scan_from_spec [of "i + 1" n "\<lambda>j. mat ! (n * j + i) \<noteq> 0"] assms(2) by (auto simp: ent_def)
  have run: "pivot_swap n i (mat, iv) = (if ent n mat i i \<noteq> 0 then (True, mat, iv) else if ?j = n then (False, mat, iv)
      else (True, row_swap n (n * i) (n * ?j) mat, row_swap n (n * i) (n * ?j) iv))"
    by (simp add: pivot_swap_def ent_def Let_def mult.commute [of _ n])
  have "\<not> invertible n M" if z: "ent n mat i i = 0" "?j = n"
  proof
    assume inv: "invertible n M"
    have "ent n mat r i = 0" if "i \<le> r" "r < n" for r
      using that z j(4) [of r] by (cases "r = i") auto
    moreover have "row_inv n M (ent n mat) (ent n iv)" using assms(1) by (simp add: s elim_def)
    ultimately show False using gauss_pivot [of n "ent n mat" i] inv assms(2,3)
      by (auto simp: s row_inv_def)
  qed
  then show ?thesis using j assms elim_swap [of n M mat iv i ?j] by (auto simp: run s)
qed

end

context galois_width
begin

lemma elim_eliminate:
  assumes "elim n M s" "elems n M" "gauss n i (ent n (fst s))" "ent n (fst s) i i = 1" "i < n"
  shows "let s' = fold (eliminate_row w n i) [i + 1..<n] s
    in elim n M s' \<and> gauss n (Suc i) (ent n (fst s'))"
proof -
  let ?P = "\<lambda>j s. elim n M s \<and> gauss n i (ent n (fst s)) \<and> ent n (fst s) i i = 1 \<and>
    (\<forall>k < n. i < k \<longrightarrow> k < j \<longrightarrow> ent n (fst s) k i = 0)"
  have "?P n (fold (eliminate_row w n i) [i + 1..<n] s)"
  proof (rule fold_upt_inv [where P = ?P])
    fix j s assume j: "i + 1 \<le> j" "j < n" and P: "?P j s"
    obtain mat iv where s: "s = (mat, iv)" by (cases s)
    let ?t = "ent n mat j i"
    have t: "gf_elem w ?t" using P elim_elem [of n M mat iv j i] j assms(5) by (simp add: s)
    have len: "length mat = n * n" using P by (simp add: s elim_def)
    define g where "g = (if ?t = 1 then (\<lambda>v. v) else gmul w ?t)"
    have g: "g v = gmul w ?t v" if "gf_elem w v" for v using that by (simp add: g_def mul_1)
    have run: "eliminate_row w n i j (mat, iv) =
        (if ?t = 0 then (mat, iv) else (row_add n (n * i) (n * j) g mat, row_add n (n * i) (n * j) g iv))"
      by (simp add: eliminate_row_def g_def ent_def Let_def)
    show "?P (Suc j) (eliminate_row w n i j s)"
    proof (cases "?t = 0")
      case True
      then show ?thesis using P by (auto simp: run less_Suc_eq s)
    next
      case False
      have "elim n M (row_add n (n * i) (n * j) g mat, row_add n (n * i) (n * j) g iv)"
        using P j assms(2,5) t g by (intro elim_add) (auto simp: s)
      moreover have A: "ent n (row_add n (n * i) (n * j) g mat) r c =
          (if r = j then ent n mat j c XOR g (ent n mat i c) else ent n mat r c)" if "r < n" "c < n" for r c
        using row_add_ent [OF len, of i j g] j assms(5) that by auto
      moreover have "gauss n i (ent n (row_add n (n * i) (n * j) g mat))"
        using P j assms(5) A g elem_0 t by (auto simp: gauss_def s)
      moreover have "g (ent n mat i i) = ?t" using P g elem_1 t by (simp add: s mul_1_right)
      ultimately show ?thesis using P False j assms(5) by (auto simp: run s less_Suc_eq)
    qed
  qed (use assms in auto)
  then show ?thesis using assms(5) by (auto simp: Let_def gauss_def less_Suc_eq)
qed

lemma elim_scale:
  assumes "elim n M s" "elems n M" "i < n" "gauss n i (ent n (fst s))" "ent n (fst s) i i \<noteq> 0"
  shows "elim n M (pivot_scale w n i s) \<and> gauss n i (ent n (fst (pivot_scale w n i s))) \<and>
    ent n (fst (pivot_scale w n i s)) i i = 1"
proof -
  obtain mat iv where s: "s = (mat, iv)" by (cases s)
  show ?thesis
  proof (cases "ent n mat i i = 1")
    case True
    then show ?thesis using assms by (simp add: pivot_scale_def s ent_def)
  next
    case False
    let ?v = "gdiv w 1 (ent n mat i i)"
    have e: "gf_elem w (ent n mat i i)" using elim_elem assms by (auto simp: s)
    then have v: "gf_elem w ?v" "gmul w (ent n mat i i) ?v = 1" using elem_dv mul_dv elem_1 assms(5) by (auto simp: s)
    then have v0: "?v \<noteq> 0" using e by auto
    have l: "length mat = n * n" "length iv = n * n" "row_inv n M (ent n mat) (ent n iv)"
      using assms(1) by (simp_all add: elim_def s)
    note A = row_map_ent [OF l(1) assms(3), of "\<lambda>v. gmul w v ?v"]
      and B = row_map_ent [OF l(2) assms(3), of "\<lambda>v. gmul w v ?v"]
    have run: "pivot_scale w n i (mat, iv) = (row_map n (n * i) (\<lambda>v. gmul w v ?v) mat, row_map n (n * i) (\<lambda>v. gmul w v ?v) iv)"
      using False by (simp add: pivot_scale_def Let_def ent_def [symmetric])
    have "row_inv n M (ent n (row_map n (n * i) (\<lambda>v. gmul w v ?v) mat)) (ent n (row_map n (n * i) (\<lambda>v. gmul w v ?v) iv))"
      by (rule row_inv_scale [OF l(3) assms(2,3) v(1) v0]) (use A B in auto)
    then have "elim n M (pivot_scale w n i s)" using A B by (simp add: elim_def run s)
    moreover have "gauss n i (ent n (row_map n (n * i) (\<lambda>v. gmul w v ?v) mat))"
      using assms(3,4) A v(1) by (auto simp: gauss_def s)
    ultimately show ?thesis using A v(2) assms(3) by (simp add: run s)
  qed
qed

lemma invert_column_ok:
  assumes "elim n M s" "elems n M" "i < n" "gauss n i (ent n (fst s))"
  shows "case invert_column w n i s of (ok, s') \<Rightarrow>
    if ok then elim n M s' \<and> gauss n (Suc i) (ent n (fst s')) else \<not> invertible n M"
proof -
  obtain ok s1 where Pair: "pivot_swap n i s = (ok, s1)" by (cases "pivot_swap n i s") 
  show ?thesis
  proof (cases ok)
    case True
    then have "elim n M s1" "gauss n i (ent n (fst s1))" "ent n (fst s1) i i \<noteq> 0"
      using pivot_swap_ok [OF assms(1,3,4)] Pair by auto
    then show ?thesis using elim_eliminate [of n M "pivot_scale w n i s1" i] elim_scale [of n M s1 i]
        assms(2,3) True Pair by (simp add: invert_column_def Let_def)
  next
    case False
    then show ?thesis using pivot_swap_ok [OF assms(1,3,4)] Pair by (simp add: invert_column_def)
  qed
qed

lemma invert_columns_ok:
  assumes "length mat = n * n" "length iv = n * n" "elems n (ent n mat)"
  shows "case fold (\<lambda>i (ok, s). if ok then invert_column w n i s else (ok, s)) [0..<n] (True, mat, identity_fill n iv) of
    (ok, s) \<Rightarrow> if ok then elim n (ent n mat) s \<and> gauss n n (ent n (fst s)) else \<not> invertible n (ent n mat)"
proof -
  let ?P = "\<lambda>i (ok, s). if ok then elim n (ent n mat) s \<and> gauss n i (ent n (fst s)) else \<not> invertible n (ent n mat)"
  have "?P n (fold (\<lambda>i (ok, s). if ok then invert_column w n i s else (ok, s)) [0..<n] (True, mat, identity_fill n iv))"
  proof (rule fold_upt_inv0 [where P = ?P])
    show "?P 0 (True, mat, identity_fill n iv)"
      using elim_start [OF assms] by (simp add: gauss_def)
  next
    fix i t assume i: "i < n" and P: "?P i t"
    obtain ok s where t: "t = (ok, s)" by (cases t)
    show "?P (Suc i) (case t of (ok, s) \<Rightarrow> if ok then invert_column w n i s else (ok, s))"
      using P invert_column_ok [OF _ assms(3) i, of s] by (cases ok) (simp_all add: t)
  qed
  then show ?thesis .
qed

lemma back_rows_ok:
  assumes A: "elems n A" "gauss n n A" and M: "elems n M" and i: "i < n"
    and s: "length (fst s) = n * n" "length (snd s) = n * n" "back_done n M A (Suc i) (ent n (snd s))"
      "\<forall>r < n. \<forall>c \<le> i. ent n (fst s) r c = A r c"
  shows "let s' = fold (back_row w n i) [0..<i] s in length (fst s') = n * n \<and> length (snd s') = n * n \<and>
    back_done n M A i (ent n (snd s')) \<and> (\<forall>r < n. \<forall>c < i. ent n (fst s') r c = A r c)"
proof -
  let ?B = "ent n (snd s)"
  let ?P = "\<lambda>j t. length (fst t) = n * n \<and> length (snd t) = n * n \<and>
    (\<forall>r < n. \<forall>c < i. ent n (fst t) r c = A r c) \<and> (\<forall>r < n. j \<le> r \<longrightarrow> ent n (fst t) r i = A r i) \<and>
    (\<forall>r < n. \<forall>c < n. ent n (snd t) r c =
       (if r < j \<and> A r i \<noteq> 0 then ?B r c XOR gmul w (A r i) (?B i c) else ?B r c))"
  have P: "?P i (fold (back_row w n i) [0..<i] s)"
  proof (rule fold_upt_inv0 [where P = ?P])
    fix j t assume j: "j < i" and P: "?P j t"
    obtain mat iv where t: "t = (mat, iv)" by (cases t)
    have v: "mat ! (n * j + i) = A j i" using P j i by (simp add: t ent_def)
    have run: "back_row w n i j (mat, iv) = (if A j i = 0 then (mat, iv) else
        (mat[n * j + i := 0], row_add n (n * i) (n * j) (\<lambda>v. gmul w (A j i) v) iv))"
      by (simp add: back_row_def v Let_def mult.commute [of _ n])
    show "?P (Suc j) (back_row w n i j t)"
    proof (cases "A j i = 0")
      case True
      then show ?thesis using P by (auto simp: run t less_Suc_eq)
    next
      case False
      have len: "length mat = n * n" "length iv = n * n" using P by (simp_all add: t)
      have "\<forall>r < n. \<forall>c < n. ent n (mat[n * j + i := 0]) r c = (if r = j \<and> c = i then 0 else ent n mat r c)"
        using ent_update [OF len(1)] i j by auto
      then show ?thesis using False P row_add_ent [OF len(2), of i j "\<lambda>v. gmul w (A j i) v"] i j len
        by (auto simp: run t less_Suc_eq)
    qed
  qed (use s in auto)
  moreover have "back_done n M A i (ent n (snd (fold (back_row w n i) [0..<i] s)))"
    by (rule back_done_step [OF s(3) M A i]) (use P in auto)
  ultimately show ?thesis by (simp add: Let_def)
qed

lemma invert_matrix_correct:
  assumes "length mat = n * n" "length iv = n * n" "elems n (ent n mat)"
  shows "case jerasure_invert_matrix mat iv n w of (rc, mat', iv') \<Rightarrow>
    if invertible n (ent n mat) then rc = 0 \<and> length iv' = n * n \<and> left_inverse n (ent n iv') (ent n mat) else rc = -1"
proof (cases "fold (\<lambda>i (ok, s). if ok then invert_column w n i s else (ok, s)) [0..<n] (True, mat, identity_fill n iv)")
  case (fields ok mat1 iv1)
  show ?thesis
  proof (cases ok)
    case False
    then show ?thesis using invert_columns_ok [OF assms] fields by (simp add: jerasure_invert_matrix_def)
  next
    case True
    then have e: "elim n (ent n mat) (mat1, iv1)" "gauss n n (ent n mat1)"
      using invert_columns_ok [OF assms] fields by auto
    let ?A = "ent n mat1"
    have A: "elems n ?A" using e(1) by (simp add: elim_def row_inv_def)
    let ?P = "\<lambda>i s. length (fst s) = n * n \<and> length (snd s) = n * n \<and>
      back_done n (ent n mat) ?A i (ent n (snd s)) \<and> (\<forall>r < n. \<forall>c < i. ent n (fst s) r c = ?A r c)"
    have "?P 0 (fold (\<lambda>i s. fold (back_row w n i) [0..<i] s) (rev [0..<n]) (mat1, iv1))"
    proof (rule fold_downt_inv0 [where P = ?P])
      show "?P n (mat1, iv1)" using e back_done_start by (auto simp: elim_def)
    next
      fix i s assume "i < n" "?P (Suc i) s"
      then show "?P i (fold (back_row w n i) [0..<i] s)"
        using back_rows_ok [OF A e(2) assms(3), of i s] by (simp add: less_Suc_eq_le Let_def)
    qed
    then have "left_inverse n (ent n (snd (fold (\<lambda>i s. fold (back_row w n i) [0..<i] s) (rev [0..<n]) (mat1, iv1)))) (ent n mat)"
      using back_done_inverse e(2) by blast
    then show ?thesis using fields True \<open>?P 0 _\<close>
      by (auto simp: jerasure_invert_matrix_def invertible_def split: prod.splits)
  qed
qed

end

section \<open>Invertibility without the inverse\<close>

lemma fold_fst:
  assumes "\<And>j s. fst (f j s) = g j (fst s)"
  shows "fst (fold f l s) = fold g l (fst s)"
  using assms by (induction l arbitrary: s) simp_all

lemma swap_only_eq:
  "swap_only n i mat = (case pivot_swap n i (mat, iv) of (ok, mat', iv') \<Rightarrow> (ok, mat'))"
  by (simp add: swap_only_def pivot_swap_def Let_def)

lemma invertible_column_eq:
  "invertible_column w n i mat = (case invert_column w n i (mat, iv) of (ok, mat', iv') \<Rightarrow> (ok, mat'))"
proof -
  have "fst (eliminate_row w n i j s) = eliminate_only w n i j (fst s)" for j s
    by (cases s) (simp add: eliminate_row_def eliminate_only_def Let_def)
  then have "fst (fold (eliminate_row w n i) l s) = fold (eliminate_only w n i) l (fst s)" for l s
    by (rule fold_fst)
  moreover have "fst (pivot_scale w n i s) = scale_only w n i (fst s)" for s
    by (cases s) (simp add: pivot_scale_def scale_only_def Let_def)
  ultimately show ?thesis
    by (simp add: invertible_column_def invert_column_def swap_only_eq [of n i mat iv] case_prod_beta)
qed

lemma invertible_bit_column_eq:
  "invertible_bit_column n i mat = (case bit_column n i (mat, iv) of (ok, mat', iv') \<Rightarrow> (ok, mat'))"
proof -
  have "fst (bit_eliminate_row n i j s) = bit_eliminate_only n i j (fst s)" for j s
    by (cases s) (simp add: bit_eliminate_row_def bit_eliminate_only_def Let_def)
  then have "fst (fold (bit_eliminate_row n i) l s) = fold (bit_eliminate_only n i) l (fst s)" for l s
    by (rule fold_fst)
  then show ?thesis
    by (simp add: invertible_bit_column_def bit_column_def swap_only_eq [of n i mat iv] case_prod_beta)
qed

lemma columns_project:
  assumes "\<And>i mat iv. g i mat = (case f i (mat, iv) of (ok, mat', iv') \<Rightarrow> (ok, mat'))"
  shows "fold (\<lambda>i (ok, mat). if ok then g i mat else (ok, mat)) l (ok, mat) =
    (case fold (\<lambda>i (ok, s). if ok then f i s else (ok, s)) l (ok, mat, iv) of (ok, mat', iv') \<Rightarrow> (ok, mat'))"
proof (induction l arbitrary: ok mat iv)
  case (Cons i l)
  show ?case
  proof (cases ok)
    case True
    obtain ok' mat' iv' where f: "f i (mat, iv) = (ok', mat', iv')" by (cases "f i (mat, iv)")
    then have "g i mat = (ok', mat')" using assms [of i mat iv] by simp
    then show ?thesis using Cons [of ok' mat' iv'] True f by simp
  next
    case False
    then show ?thesis using Cons [of False mat iv] by simp
  qed
qed simp

text \<open>The function answers 1 exactly for the invertible matrices.\<close>

context galois_width
begin

lemma invertible_matrix_correct:
  assumes "length mat = n * n" "elems n (ent n mat)"
  shows "fst (jerasure_invertible_matrix mat n w) = (if invertible n (ent n mat) then 1 else 0)"
proof -
  define r where "r = fold (\<lambda>i (ok, s). if ok then invert_column w n i s else (ok, s)) [0..<n]
    (True, mat, identity_fill n (replicate (n * n) 0))"
  have "fold (\<lambda>i (ok, mat). if ok then invertible_column w n i mat else (ok, mat)) [0..<n] (True, mat)
      = (case r of (ok, mat', iv') \<Rightarrow> (ok, mat'))"
    unfolding r_def by (rule columns_project) (rule invertible_column_eq)
  moreover have "if fst r then invertible n (ent n mat) else \<not> invertible n (ent n mat)"
  proof -
    have len: "length (replicate (n * n) 0) = n * n" by simp
    have "fst r \<longleftrightarrow> fst (jerasure_invert_matrix mat (replicate (n * n) 0) n w) = 0"
      by (simp add: jerasure_invert_matrix_def r_def [symmetric] case_prod_beta)
    then show ?thesis using invert_matrix_correct [OF assms(1) len assms(2)]
      by (auto simp: case_prod_beta split: if_splits)
  qed
  ultimately show ?thesis by (simp add: jerasure_invertible_matrix_def case_prod_beta)
qed

end

section \<open>Inversion over bits is correct\<close>

definition is_bit :: "cint \<Rightarrow> bool" where
  "is_bit x \<longleftrightarrow> x = 0 \<or> x = 1"

interpretation gf2: xor_field is_bit "(AND)" "\<lambda>a b. a"
  by unfold_locales (auto simp: is_bit_def)

lemma bit_eliminate_step:
  assumes "gf2.elim n M (mat, iv)" "gf2.elems n M" "i < n" "j < n" "i \<noteq> j"
  shows "gf2.elim n M (bit_eliminate_row n i j (mat, iv)) \<and>
    (\<forall>r < n. \<forall>c < n. ent n (fst (bit_eliminate_row n i j (mat, iv))) r c =
       (if r = j \<and> ent n mat j i \<noteq> 0 then ent n mat j c XOR ent n mat i c else ent n mat r c))"
proof (cases "ent n mat j i = 0")
  case True
  then show ?thesis using assms by (simp add: bit_eliminate_row_def ent_def mult.commute [of j n])
next
  case False
  have len: "length mat = n * n" using assms(1) by (simp add: gf2.elim_def)
  have "gf2.elim n M (row_add n (n * i) (n * j) (\<lambda>v. v) mat, row_add n (n * i) (n * j) (\<lambda>v. v) iv)"
    by (rule gf2.elim_add [where t = 1]) (use assms in \<open>auto simp: is_bit_def\<close>)
  then show ?thesis using False row_add_ent [OF len assms(3-5), of "\<lambda>v. v"]
    by (simp add: bit_eliminate_row_def ent_def [symmetric] mult.commute [of i n] mult.commute [of j n])
qed

lemma bit_column_ok:
  assumes "gf2.elim n M s" "gf2.elems n M" "i < n" "gf2.gauss n i (ent n (fst s))"
  shows "case bit_column n i s of (ok, s') \<Rightarrow>
    if ok then gf2.elim n M s' \<and> gf2.gauss n (Suc i) (ent n (fst s')) else \<not> gf2.invertible n M"
proof -
  obtain ok s1 where p: "pivot_swap n i s = (ok, s1)" by (cases "pivot_swap n i s")
  show ?thesis
  proof (cases ok)
    case True
    have s1: "gf2.elim n M s1" "gf2.gauss n i (ent n (fst s1))" "ent n (fst s1) i i \<noteq> 0"
      using gf2.pivot_swap_ok [OF assms(1,3,4)] p True by auto
    then have one: "ent n (fst s1) i i = 1"
      using gf2.elim_elem [of n M "fst s1" "snd s1" i i] assms(3) by (auto simp: is_bit_def)
    let ?P = "\<lambda>j s. gf2.elim n M s \<and> gf2.gauss n i (ent n (fst s)) \<and> ent n (fst s) i i = 1 \<and>
      (\<forall>k < n. i < k \<longrightarrow> k < j \<longrightarrow> ent n (fst s) k i = 0)"
    have "?P n (fold (bit_eliminate_row n i) [i + 1..<n] s1)"
    proof (rule fold_upt_inv [where P = ?P])
      fix j s assume j: "i + 1 \<le> j" "j < n" and P: "?P j s"
      obtain mat iv where s: "s = (mat, iv)" by (cases s)
      have "ent n mat j i = 0 \<or> ent n mat j i = 1"
        using P gf2.elim_elem [of n M mat iv j i] j assms(3) by (auto simp: s is_bit_def)
      then show "?P (Suc j) (bit_eliminate_row n i j s)"
        using P j assms(2,3) bit_eliminate_step [of n M mat iv i j]
        by (auto simp: s gf2.gauss_def less_Suc_eq)
    qed (use s1 one assms(3) in auto)
    then show ?thesis using p True by (auto simp: bit_column_def gf2.gauss_def less_Suc_eq)
  next
    case False
    then show ?thesis using gf2.pivot_swap_ok [OF assms(1,3,4)] p by (simp add: bit_column_def)
  qed
qed

lemma bit_back_ok:
  assumes "gf2.elim n M s" "gf2.elems n M" "gf2.gauss n n (ent n (fst s))" "i < n"
    and "\<forall>r < n. \<forall>c < n. i < c \<longrightarrow> c \<noteq> r \<longrightarrow> ent n (fst s) r c = 0"
  shows "let s' = fold (bit_eliminate_row n i) [0..<i] s in gf2.elim n M s' \<and> gf2.gauss n n (ent n (fst s')) \<and>
    (\<forall>r < n. \<forall>c < n. i \<le> c \<longrightarrow> c \<noteq> r \<longrightarrow> ent n (fst s') r c = 0)"
proof -
  let ?P = "\<lambda>j s. gf2.elim n M s \<and> gf2.gauss n n (ent n (fst s)) \<and>
    (\<forall>r < n. \<forall>c < n. i < c \<longrightarrow> c \<noteq> r \<longrightarrow> ent n (fst s) r c = 0) \<and> (\<forall>r < j. ent n (fst s) r i = 0)"
  have "?P i (fold (bit_eliminate_row n i) [0..<i] s)"
  proof (rule fold_upt_inv0 [where P = ?P])
    fix j s assume j: "j < i" and P: "?P j s"
    obtain mat iv where s: "s = (mat, iv)" by (cases s)
    have bit: "ent n mat j i = 0 \<or> ent n mat j i = 1"
      using P gf2.elim_elem [of n M mat iv j i] j assms(4) by (auto simp: s is_bit_def)
    have row: "ent n mat i c = (if c = i then 1 else 0)" if "c < n" for c
      using P that assms(4) by (cases "c < i") (auto simp: s gf2.gauss_def)
    have "\<forall>r < n. \<forall>c < n. ent n (fst (bit_eliminate_row n i j (mat, iv))) r c =
        (if r = j \<and> c = i then 0 else ent n mat r c)"
      using bit_eliminate_step [of n M mat iv i j] P j assms(2,4) row bit by (auto simp: s)
    moreover have "gf2.elim n M (bit_eliminate_row n i j (mat, iv))"
      using P j assms(2,4) bit_eliminate_step [of n M mat iv i j] by (simp add: s)
    ultimately show "?P (Suc j) (bit_eliminate_row n i j s)"
      using P j assms(4) by (auto simp: s gf2.gauss_def less_Suc_eq)
  qed (use assms in auto)
  then show ?thesis using assms(4) by (auto simp: Let_def gf2.gauss_def le_less nat_neq_iff)
qed

lemma bit_columns_ok:
  assumes "length mat = n * n" "length iv = n * n" "gf2.elems n (ent n mat)"
  shows "case fold (\<lambda>i (ok, s). if ok then bit_column n i s else (ok, s)) [0..<n] (True, mat, identity_fill n iv) of
    (ok, s) \<Rightarrow> if ok then gf2.elim n (ent n mat) s \<and> gf2.gauss n n (ent n (fst s)) else \<not> gf2.invertible n (ent n mat)"
proof -
  let ?P = "\<lambda>i (ok, s). if ok then gf2.elim n (ent n mat) s \<and> gf2.gauss n i (ent n (fst s)) else \<not> gf2.invertible n (ent n mat)"
  have "?P n (fold (\<lambda>i (ok, s). if ok then bit_column n i s else (ok, s)) [0..<n] (True, mat, identity_fill n iv))"
  proof (rule fold_upt_inv0 [where P = ?P])
    show "?P 0 (True, mat, identity_fill n iv)" using gf2.elim_start [OF assms] by (simp add: gf2.gauss_def)
  next
    fix i t assume i: "i < n" and P: "?P i t"
    obtain ok s where t: "t = (ok, s)" by (cases t)
    show "?P (Suc i) (case t of (ok, s) \<Rightarrow> if ok then bit_column n i s else (ok, s))"
      using P bit_column_ok [OF _ assms(3) i, of s] by (cases ok) (simp_all add: t)
  qed
  then show ?thesis .
qed

lemma invert_bitmatrix_correct:
  assumes "length mat = n * n" "length iv = n * n" "gf2.elems n (ent n mat)"
  shows "case jerasure_invert_bitmatrix mat iv n of (rc, mat', iv') \<Rightarrow>
    if gf2.invertible n (ent n mat) then rc = 0 \<and> length iv' = n * n \<and> gf2.left_inverse n (ent n iv') (ent n mat) else rc = -1"
proof (cases "fold (\<lambda>i (ok, s). if ok then bit_column n i s else (ok, s)) [0..<n] (True, mat, identity_fill n iv)")
  case (fields ok mat1 iv1)
  show ?thesis
  proof (cases ok)
    case False
    then show ?thesis using bit_columns_ok [OF assms] fields by (simp add: jerasure_invert_bitmatrix_def)
  next
    case True
    let ?P = "\<lambda>i s. gf2.elim n (ent n mat) s \<and> gf2.gauss n n (ent n (fst s)) \<and>
      (\<forall>r < n. \<forall>c < n. i \<le> c \<longrightarrow> c \<noteq> r \<longrightarrow> ent n (fst s) r c = 0)"
    have P: "?P 0 (fold (\<lambda>i s. fold (bit_eliminate_row n i) [0..<i] s) (rev [0..<n]) (mat1, iv1))"
    proof (rule fold_downt_inv0 [where P = ?P])
      show "?P n (mat1, iv1)" using bit_columns_ok [OF assms] fields True by auto
    next
      fix i s assume "i < n" "?P (Suc i) s"
      then show "?P i (fold (bit_eliminate_row n i) [0..<i] s)"
        using bit_back_ok [of n "ent n mat" s i] assms(3) by (simp add: Suc_le_eq Let_def)
    qed
    obtain mat2 iv2 where r: "fold (\<lambda>i s. fold (bit_eliminate_row n i) [0..<i] s) (rev [0..<n]) (mat1, iv1) = (mat2, iv2)"
      by fastforce
    have "gf2.left_inverse n (ent n iv2) (ent n mat)"
      by (rule gf2.identity_inverse [where A = "ent n mat2"])
        (use P in \<open>auto simp: r gf2.elim_def gf2.gauss_def\<close>)
    then show ?thesis using fields True P
      by (auto simp: jerasure_invert_bitmatrix_def gf2.invertible_def r gf2.elim_def)
  qed
qed

lemma invertible_bitmatrix_correct:
  assumes "length mat = n * n" "gf2.elems n (ent n mat)"
  shows "fst (jerasure_invertible_bitmatrix mat n) = (if gf2.invertible n (ent n mat) then 1 else 0)"
proof -
  define r where "r = fold (\<lambda>i (ok, s). if ok then bit_column n i s else (ok, s)) [0..<n]
    (True, mat, identity_fill n (replicate (n * n) 0))"
  have "fold (\<lambda>i (ok, mat). if ok then invertible_bit_column n i mat else (ok, mat)) [0..<n] (True, mat)
      = (case r of (ok, mat', iv') \<Rightarrow> (ok, mat'))"
    unfolding r_def by (rule columns_project) (rule invertible_bit_column_eq)
  moreover have "fst r \<longleftrightarrow> gf2.invertible n (ent n mat)"
  proof -
    have len: "length (replicate (n * n) 0) = n * n" by simp
    have "fst r \<longleftrightarrow> fst (jerasure_invert_bitmatrix mat (replicate (n * n) 0) n) = 0"
      by (simp add: jerasure_invert_bitmatrix_def r_def [symmetric] case_prod_beta)
    then show ?thesis using invert_bitmatrix_correct [OF assms(1) len assms(2)]
      by (auto simp: case_prod_beta split: if_splits)
  qed
  ultimately show ?thesis by (simp add: jerasure_invertible_bitmatrix_def case_prod_beta)
qed

end
