(* ===== verification/Galois_Regions.thy ===== *)
theory Galois_Regions
  imports Galois_State
begin

unbundle bit_operations_syntax

text \<open>
  The region operations of \<^verbatim>\<open>galois.c\<close>: a buffer multiplied by a constant, or added to another.
  A buffer is its list of bytes.  The source reads it as elements of one, two or four bytes, lowest
  byte first, and in one branch as \<^verbatim>\<open>long\<close>s of eight bytes; an access past the end of the buffer is
  the fault \<open>Undefined\<close>.  The exclusive-or of two \<^verbatim>\<open>long\<close>s is that of their bytes.
\<close>

section \<open>Buffers\<close>

definition load :: "byte list \<Rightarrow> nat \<Rightarrow> fault + byte" where
  "load r i = (if i < length r then Inr (r ! i) else Inl Undefined)"

definition store :: "byte list \<Rightarrow> nat \<Rightarrow> byte \<Rightarrow> fault + byte list" where
  "store r i b = (if i < length r then Inr (r[i := b]) else Inl Undefined)"

text \<open>The element of \<open>s\<close> bytes at index \<open>i\<close>, and its update.\<close>

definition rd :: "nat \<Rightarrow> byte list \<Rightarrow> nat \<Rightarrow> cint" where
  "rd s r i = fold (\<lambda>b v. v OR push_bit (8 * b) (ucast (r ! (s * i + b)))) [0..<s] 0"

definition wr :: "nat \<Rightarrow> byte list \<Rightarrow> nat \<Rightarrow> cint \<Rightarrow> byte list" where
  "wr s r i v = fold (\<lambda>b r. r[s * i + b := ucast (drop_bit (8 * b) v)]) [0..<s] r"

definition load_elt :: "nat \<Rightarrow> byte list \<Rightarrow> nat \<Rightarrow> fault + cint" where
  "load_elt s r i = (if s * i + s \<le> length r then Inr (rd s r i) else Inl Undefined)"

definition store_elt :: "nat \<Rightarrow> byte list \<Rightarrow> nat \<Rightarrow> cint \<Rightarrow> fault + byte list" where
  "store_elt s r i v = (if s * i + s \<le> length r then Inr (wr s r i v) else Inl Undefined)"

section \<open>Sum\<close>

definition galois_region_xor :: "byte list \<Rightarrow> byte list \<Rightarrow> byte list \<Rightarrow> nat \<Rightarrow> fault + byte list" where
  "galois_region_xor r1 r2 r3 nbytes =
     cfor 0 ((nbytes + 7) div 8) (\<lambda>l. cfor 0 8 (\<lambda>j r3.
       run_bind (load r1 (8 * l + j)) (\<lambda>a.
       run_bind (load r2 (8 * l + j)) (\<lambda>b.
         store r3 (8 * l + j) (a XOR b))))) r3"

section \<open>Products\<close>

text \<open>
  \<open>r2 = None\<close> is the null pointer: the product replaces the region.  In that case the loop reads the
  buffer it writes.
\<close>

definition galois_w08_region_multiply ::
  "byte list \<Rightarrow> cint \<Rightarrow> nat \<Rightarrow> byte list option \<Rightarrow> bool \<Rightarrow> (galois, byte list) prog" where
  "galois_w08_region_multiply region multby nbytes r2 add st =
     run_bind (need (galois_mult_tables st 8 = NULL) (galois_create_mult_tables 8) st) (\<lambda>(_, st).
     let ur2 = (case r2 of None \<Rightarrow> region | Some r \<Rightarrow> r);
         ur1 = (\<lambda>ur2. if r2 = None then ur2 else region);
         srow = multby * nw 8;
         mt = galois_mult_tables st 8
     in run_bind
          (if r2 = None \<or> \<not> add then
             cfor 0 nbytes (\<lambda>i ur2.
               run_bind (load (ur1 ur2) i) (\<lambda>a.
               run_bind (tab_get mt (sint (srow + ucast a))) (\<lambda>prod.
                 store ur2 i (ucast prod)))) ur2
           else
             cfor 0 ((nbytes + 7) div 8) (\<lambda>l. cfor 0 8 (\<lambda>j ur2.
               run_bind (load region (8 * l + j)) (\<lambda>a.
               run_bind (tab_get mt (sint (srow + ucast a))) (\<lambda>prod.
               run_bind (load ur2 (8 * l + j)) (\<lambda>b.
                 store ur2 (8 * l + j) (b XOR ucast prod)))))) ur2)
          (\<lambda>ur2. Inr (ur2, st)))"

text \<open>\<^verbatim>\<open>(a == 0) ? 0 : ilog[log[a] + log1]\<close>\<close>

definition w16_product :: "galois \<Rightarrow> cint \<Rightarrow> cint \<Rightarrow> fault + cint" where
  "w16_product st log1 a =
     (if a = 0 then Inr 0
      else run_bind (tab_get (galois_log_tables st 16) (sint a)) (\<lambda>log2.
             tab_get (galois_ilog_tables st 16) (sint (log2 + log1))))"

definition galois_w16_region_multiply ::
  "byte list \<Rightarrow> cint \<Rightarrow> nat \<Rightarrow> byte list option \<Rightarrow> bool \<Rightarrow> (galois, byte list) prog" where
  "galois_w16_region_multiply region multby nbytes r2 add st =
     (let ur2 = (case r2 of None \<Rightarrow> region | Some r \<Rightarrow> r);
          ur1 = (\<lambda>ur2. if r2 = None then ur2 else region);
          n = nbytes div 2
      in if multby = 0 then
           (if add then Inr (ur2, st)
            else run_bind (cfor 0 ((2 * n + 7) div 8) (\<lambda>l. cfor 0 8 (\<lambda>j ur2. store ur2 (8 * l + j) 0)) ur2)
                   (\<lambda>ur2. Inr (ur2, st)))
         else
           run_bind (need (galois_log_tables st 16 = NULL) (galois_create_log_tables 16) st) (\<lambda>(_, st).
           run_bind (tab_get (galois_log_tables st 16) (sint multby)) (\<lambda>log1.
           run_bind
             (if r2 = None \<or> \<not> add then
                cfor 0 n (\<lambda>i ur2.
                  run_bind (load_elt 2 (ur1 ur2) i) (\<lambda>a.
                  run_bind (w16_product st log1 a) (\<lambda>prod.
                    store_elt 2 ur2 i prod))) ur2
              else
                cfor 0 ((n + 3) div 4) (\<lambda>l. cfor 0 4 (\<lambda>j ur2.
                  run_bind (load_elt 2 region (4 * l + j)) (\<lambda>a.
                  run_bind (w16_product st log1 a) (\<lambda>prod.
                  run_bind (load_elt 2 ur2 (4 * l + j)) (\<lambda>b.
                    store_elt 2 ur2 (4 * l + j) (b XOR prod)))))) ur2)
             (\<lambda>ur2. Inr (ur2, st)))))"

text \<open>The inlined product by the split tables, with \<^verbatim>\<open>multby\<close> cut into bytes beforehand.\<close>

definition w32_product :: "galois \<Rightarrow> cint \<Rightarrow> cint \<Rightarrow> fault + cint" where
  "w32_product st multby v =
     (let acache = map (\<lambda>i. push_bit 8 (drop_bit (8 * i) multby AND 255)) [0..<4]
      in cfor 0 4 (\<lambda>i accumulator. cfor 0 4 (\<lambda>j accumulator.
           let a = acache ! i; b = drop_bit (8 * j) v AND 255
           in run_bind (tab_get (galois_split_w8 st (i + j)) (sint (a OR b)))
                (\<lambda>z. Inr (accumulator XOR z))) accumulator) 0)"

definition galois_w32_region_multiply ::
  "byte list \<Rightarrow> cint \<Rightarrow> nat \<Rightarrow> byte list option \<Rightarrow> bool \<Rightarrow> (galois, byte list) prog" where
  "galois_w32_region_multiply region multby nbytes r2 add st =
     (let ur2 = (case r2 of None \<Rightarrow> region | Some r \<Rightarrow> r);
          ur1 = (\<lambda>ur2. if r2 = None then ur2 else region);
          n = nbytes div 4
      in run_bind (need (galois_split_w8 st 0 = NULL) galois_create_split_w8_tables st) (\<lambda>(_, st).
         run_bind
           (if \<not> add then
              cfor 0 n (\<lambda>k ur2.
                run_bind (load_elt 4 (ur1 ur2) k) (\<lambda>v.
                run_bind (w32_product st multby v) (\<lambda>accumulator.
                  store_elt 4 ur2 k accumulator))) ur2
            else
              cfor 0 n (\<lambda>k ur2.
                run_bind (load_elt 4 (ur1 ur2) k) (\<lambda>v.
                run_bind (w32_product st multby v) (\<lambda>accumulator.
                run_bind (load_elt 4 ur2 k) (\<lambda>o2.
                  store_elt 4 ur2 k (o2 XOR accumulator))))) ur2)
           (\<lambda>ur2. Inr (ur2, st))))"

end
