(* ===== verification/Regions_Correct.thy ===== *)
theory Regions_Correct
  imports Galois_Regions
begin

unbundle bit_operations_syntax

text \<open>
  What the region operations compute, element by element: with tables of width 8, 16 or 32 the result
  holds the products of the elements by the constant, added to the old contents where the caller
  asks for it.  For the branches that step by \<^verbatim>\<open>long\<close> the length is a multiple of eight bytes;
  without that they run past the buffer.
\<close>

section \<open>Elements of a buffer\<close>

lemma bit_rd:
  assumes "s \<le> 4"
  shows "bit (rd s r i) n \<longleftrightarrow> n < 8 * s \<and> bit (r ! (s * i + n div 8)) (n mod 8)"
proof -
  let ?P = "\<lambda>b (v::cint). \<forall>n. bit v n \<longleftrightarrow> n < 8 * b \<and> bit (r ! (s * i + n div 8)) (n mod 8)"
  have "?P s (rd s r i)" unfolding rd_def
  proof (rule fold_upt_inv0 [where P = ?P])
    fix b v assume b: "b < s" and P: "?P b v"
    show "?P (Suc b) (v OR push_bit (8 * b) (ucast (r ! (s * i + b))))"
    proof
      fix n
      have byte: "bit (push_bit (8 * b) (ucast (r ! (s * i + b)) :: cint)) n \<longleftrightarrow>
          8 * b \<le> n \<and> n < 8 * b + 8 \<and> bit (r ! (s * i + b)) (n - 8 * b)"
        using b assms by (auto simp: bitsimps bit_ucast_iff dest: bit_imp_le_length)
      consider "n < 8 * b" | "8 * b \<le> n" "n < 8 * Suc b" | "8 * Suc b \<le> n" by linarith
      then show "bit (v OR push_bit (8 * b) (ucast (r ! (s * i + b)))) n \<longleftrightarrow>
          n < 8 * Suc b \<and> bit (r ! (s * i + n div 8)) (n mod 8)"
      proof cases
        case 2
        then have d: "n div 8 = b" by auto
        moreover have "n mod 8 = n - 8 * b" using minus_mult_div_eq_mod [of n 8] d by simp
        ultimately have "n div 8 = b" "n mod 8 = n - 8 * b" by simp_all
        then show ?thesis using P 2 byte by (simp add: bit_or_iff)
      qed (use P byte in \<open>auto simp: bit_or_iff\<close>)
    qed
  qed simp
  then show ?thesis by blast
qed

lemma rd_elem [simp]: "s \<le> 4 \<Longrightarrow> gf_elem (8 * s) (rd s r i)"
  by (auto simp: gf_elem_bit bit_rd)

lemma length_wr [simp]: "length (wr s r i v) = length r"
proof -
  have "length (fold (\<lambda>b r. r[s * i + b := f b]) xs r) = length r" for f :: "nat \<Rightarrow> byte" and xs
    by (induction xs arbitrary: r) simp_all
  then show ?thesis by (simp add: wr_def)
qed

lemma nth_wr:
  assumes "s * i + s \<le> length r"
  shows "wr s r i v ! p = (if s * i \<le> p \<and> p < s * i + s then ucast (drop_bit (8 * (p - s * i)) v) else r ! p)"
proof -
  let ?P = "\<lambda>b t. length t = length r \<and> (\<forall>p. t ! p =
    (if s * i \<le> p \<and> p < s * i + b then ucast (drop_bit (8 * (p - s * i)) v) else r ! p))"
  have "?P s (wr s r i v)" unfolding wr_def
    by (rule fold_upt_inv0 [where P = ?P]) (use assms in \<open>auto simp: nth_list_update less_Suc_eq\<close>)
  then show ?thesis by blast
qed

lemma elt_index: "b < s \<Longrightarrow> s * i \<le> s * j + b \<and> s * j + b < s * i + s \<longleftrightarrow> i = (j::nat)"
proof
  assume b: "b < s" and "s * i \<le> s * j + b \<and> s * j + b < s * i + s"
  then have "s * i < s * Suc j" "s * j < s * Suc i" by simp_all
  then show "i = j" using b by (metis Suc_leI le_antisym less_Suc_eq_le mult_less_cancel1)
qed simp

lemma rd_wr:
  assumes "s \<le> 4" "s * i + s \<le> length r" "gf_elem (8 * s) v"
  shows "rd s (wr s r i v) j = (if i = j then v else rd s r j)"
proof (rule bit_word_eqI)
  fix n assume "n < LENGTH(32)"
  show "bit (rd s (wr s r i v) j) n = bit (if i = j then v else rd s r j) n"
  proof (cases "n < 8 * s")
    case True
    then have b: "n div 8 < s" by (simp add: div_less_iff_less_mult)
    have at: "wr s r i v ! (s * j + n div 8) = (if i = j then ucast (drop_bit (8 * (n div 8)) v) else r ! (s * j + n div 8))"
      using nth_wr [OF assms(2)] elt_index [OF b, of i j] by auto
    have "n mod 8 < 8" "8 * (n div 8) + n mod 8 = n" by simp_all
    then have "bit (ucast (drop_bit (8 * (n div 8)) v) :: byte) (n mod 8) = bit v n"
      by (simp add: bit_ucast_iff bit_drop_bit_eq)
    then show ?thesis using True assms(1) at by (simp add: bit_rd)
  next
    case False
    then show ?thesis using assms by (auto simp: bit_rd gf_elem_bit)
  qed
qed

lemma rd_ext:
  assumes "s \<le> 4" "0 < s" "length r = s * n" "length r' = s * n" "\<And>i. i < n \<Longrightarrow> rd s r i = rd s r' i"
  shows "r = r'"
proof (rule nth_equalityI)
  fix p assume p: "p < length r"
  let ?i = "p div s" and ?b = "p mod s"
  have i: "?i < n" using p assms(2,3) by (simp add: less_mult_imp_div_less mult.commute)
  have pe: "s * ?i + ?b = p" by simp
  show "r ! p = r' ! p"
  proof (rule bit_word_eqI)
    fix n :: nat assume n: "n < LENGTH(8)"
    have "(8 * ?b + n) div 8 = ?b" "(8 * ?b + n) mod 8 = n" using n by simp_all
    moreover have "8 * ?b + n < 8 * s"
    proof -
      have "?b < s" using assms(2) by simp
      then have "8 * Suc ?b \<le> 8 * s" by (intro mult_le_mono2) simp
      then show ?thesis using n by simp
    qed
    ultimately have "bit (rd s t ?i) (8 * ?b + n) = bit (t ! p) n" for t
      using assms(1) pe by (simp add: bit_rd)
    then show "bit (r ! p) n = bit (r' ! p) n" using assms(5) [OF i] by metis
  qed
qed (use assms in simp)

text \<open>A buffer as a vector of elements: what an elementwise loop leaves.\<close>

definition elts_ok :: "nat \<Rightarrow> nat \<Rightarrow> byte list \<Rightarrow> (nat \<Rightarrow> cint) \<Rightarrow> bool" where
  "elts_ok s n r f \<longleftrightarrow> length r = s * n \<and> (\<forall>i < n. rd s r i = f i)"

lemma elt_bound: "i < n \<Longrightarrow> s * i + s \<le> s * (n::nat)"
proof -
  assume "i < n"
  then have "s * Suc i \<le> s * n" by (intro mult_le_mono2) simp
  then show ?thesis by simp
qed

lemma elt_loop:
  assumes "s \<le> 4" "length r = s * n"
    and body: "\<And>i t. i < n \<Longrightarrow> length t = s * n \<Longrightarrow> rd s t i = rd s r i \<Longrightarrow>
      body i t = Inr (wr s t i (f i)) \<and> gf_elem (8 * s) (f i)"
  shows "\<exists>t. cfor 0 n body r = Inr t \<and> elts_ok s n t f"
proof -
  have "\<exists>t. cfor 0 n body r = Inr t \<and> length t = s * n \<and> (\<forall>i < n. rd s t i = (if i < n then f i else rd s r i))"
  proof (rule cfor_total [where P = "\<lambda>k t. length t = s * n \<and> (\<forall>i < n. rd s t i = (if i < k then f i else rd s r i))"])
    fix k t assume k: "k < n" and P: "length t = s * n \<and> (\<forall>i < n. rd s t i = (if i < k then f i else rd s r i))"
    have "body k t = Inr (wr s t k (f k))" "gf_elem (8 * s) (f k)" using body [of k t] P k by auto
    moreover have "s * k + s \<le> length t" using P elt_bound [OF k, of s] by simp
    ultimately show "\<exists>t'. body k t = Inr t' \<and> length t' = s * n \<and> (\<forall>i < n. rd s t' i = (if i < Suc k then f i else rd s r i))"
      using P assms(1) by (auto simp: rd_wr less_Suc_eq)
  qed (use assms in auto)
  then show ?thesis by (auto simp: elts_ok_def)
qed

lemma cfor_cong: "(\<And>i s. a \<le> i \<Longrightarrow> i < b \<Longrightarrow> f i s = g i s) \<Longrightarrow> cfor a b f s = cfor a b g s"
proof (induction b)
  case (Suc b)
  then show ?case by (cases "a \<le> b") (simp_all add: cfor_Suc run_bind_def split: sum.splits)
qed simp

text \<open>Nested loops over blocks are one loop.\<close>

lemma cfor_append: "cfor 0 (a + b) f s = run_bind (cfor 0 a f s) (cfor a (a + b) f)"
  by (induction b) (auto simp: cfor_Suc run_bind_def split: sum.splits)

lemma cfor_shift: "cfor a (a + b) f s = cfor 0 b (\<lambda>j. f (a + j)) s"
  by (induction b) (simp_all add: cfor_Suc)

lemma cfor_blocks: "cfor 0 n (\<lambda>l. cfor 0 c (\<lambda>j. f (c * l + j))) s = cfor 0 (c * n) f s"
proof (induction n)
  case (Suc n)
  have "cfor 0 (c * Suc n) f s = cfor 0 (c * n + c) f s" by (simp add: add.commute)
  also have "\<dots> = run_bind (cfor 0 (c * n) f s) (cfor (c * n) (c * n + c) f)" by (rule cfor_append)
  also have "cfor (c * n) (c * n + c) f = cfor 0 c (\<lambda>j. f (c * n + j))"
    by (rule ext) (rule cfor_shift)
  finally show ?case using Suc by (simp add: cfor_Suc)
qed simp


section \<open>What the region operations compute\<close>

lemma ucast_byte_xor: "ucast (x XOR y :: cint) = (ucast x XOR ucast y :: byte)"
  by (rule bit_word_eqI) (simp add: bit_ucast_iff bit_xor_iff)

lemma ucast_ucast_byte [simp]: "ucast (ucast b :: cint) = (b :: byte)"
  by (rule bit_word_eqI) (simp add: bit_ucast_iff)

lemma ucast_byte_inject [simp]: "(ucast (a :: byte) :: cint) = ucast b \<longleftrightarrow> a = b"
  by (metis ucast_ucast_byte)

lemma gf_elem_ucast [simp]: "gf_elem 8 (ucast (b :: byte))"
  by (auto simp: gf_elem_bit bit_ucast_iff dest: bit_imp_le_length)

lemma rd_1: "rd 1 r i = ucast (r ! i)"
  by (simp add: rd_def)

lemma wr_1: "wr 1 r i v = r[i := ucast v]"
  by (simp add: wr_def)

text \<open>The elements of the result of a product: added to the old contents, or in their place.\<close>

definition region_result :: "nat \<Rightarrow> nat \<Rightarrow> cint \<Rightarrow> byte list \<Rightarrow> byte list \<Rightarrow> bool \<Rightarrow> nat \<Rightarrow> cint" where
  "region_result w s m r1 r2 add i = (if add then rd s r2 i else 0) XOR gf_mul w m (rd s r1 i)"

lemma gf_elem_region_result:
  "w = 8 * s \<Longrightarrow> 0 < s \<Longrightarrow> s \<le> 4 \<Longrightarrow> gf_elem (8 * s) (region_result w s m r1 r2 add i)"
  by (auto simp: region_result_def)

lemma w08_index:
  assumes "gf_elem 8 m" "gf_elem 8 y"
  shows "m * nw 8 + y = push_bit 8 m OR y"
proof -
  have "push_bit 8 m AND y = 0" using assms by (intro bit_word_eqI) (auto simp: bitsimps gf_elem_bit)
  then have "push_bit 8 m OR y = push_bit 8 m + y" by (simp add: disjunctive_add_eq_or)
  moreover have "push_bit 8 m = m * nw 8" by (simp add: push_bit_eq_mult nw_def push_bit_of_1)
  ultimately show ?thesis by simp
qed

lemma galois_region_xor_ok:
  assumes "length r1 = 8 * k" "length r2 = 8 * k" "length r3 = 8 * k"
  shows "\<exists>t. galois_region_xor r1 r2 r3 (8 * k) = Inr t \<and> elts_ok 1 (8 * k) t (\<lambda>i. rd 1 r1 i XOR rd 1 r2 i)"
proof -
  let ?body = "\<lambda>i r3. run_bind (load r1 i) (\<lambda>a. run_bind (load r2 i) (\<lambda>b. store r3 i (a XOR b)))"
  have "galois_region_xor r1 r2 r3 (8 * k) = cfor 0 (8 * k) ?body r3"
    using cfor_blocks [of k 8 ?body r3] by (simp add: galois_region_xor_def)
  moreover have "\<exists>t. cfor 0 (8 * k) ?body r3 = Inr t \<and> elts_ok 1 (8 * k) t (\<lambda>i. rd 1 r1 i XOR rd 1 r2 i)"
    by (rule elt_loop)
      (use assms in \<open>auto simp: load_def store_def wr_1 [simplified] rd_1 [simplified] ucast_byte_xor\<close>)
  ultimately show ?thesis by simp
qed

lemma run_bind_assoc: "run_bind (run_bind m f) g = run_bind m (\<lambda>x. run_bind (f x) g)"
  by (cases m) simp_all

lemma computes_then:
  assumes "case N of Inl e \<Rightarrow> e = Exit \<and> mallocs st \<noteq> []
      | Inr (u, st') \<Rightarrow> galois_ok st' \<and> Q st' \<and> (mallocs st = [] \<longrightarrow> mallocs st' = [])"
    and "\<And>st'. galois_ok st' \<Longrightarrow> Q st' \<Longrightarrow> \<exists>out. body st' = Inr out \<and> P out"
  shows "computes st P (run_bind N (\<lambda>(u, st'). run_bind (body st') (\<lambda>out. Inr (out, st'))))"
  using assms by (fastforce simp: computes_def split: sum.splits prod.splits)

lemma w08_region_multiply_ok:
  assumes st: "galois_ok st" and m: "gf_elem 8 m" and len: "length r1 = n" "length r2 = n" and add: "add \<Longrightarrow> 8 dvd n"
  shows "computes st (\<lambda>out. elts_ok 1 n out (region_result 8 1 m r1 r2 add))
    (galois_w08_region_multiply r1 m n (Some r2) add st)"
proof -
  have "case need (galois_mult_tables st 8 = NULL) (galois_create_mult_tables 8) st of
      Inl e \<Rightarrow> e = Exit \<and> mallocs st \<noteq> []
    | Inr (u, st') \<Rightarrow> galois_ok st' \<and> galois_mult_tables st' 8 \<noteq> NULL \<and> (mallocs st = [] \<longrightarrow> mallocs st' = [])"
    by (rule need_mults) (use st mult_null_iff in auto)
  moreover have "\<exists>out. (if Some r2 = None \<or> \<not> add then
             cfor 0 n (\<lambda>i ur2.
               run_bind (load (if Some r2 = None then ur2 else r1) i) (\<lambda>a.
               run_bind (tab_get (galois_mult_tables st' 8) (sint (m * nw 8 + ucast a))) (\<lambda>prod.
                 store ur2 i (ucast prod)))) r2
           else
             cfor 0 ((n + 7) div 8) (\<lambda>l. cfor 0 8 (\<lambda>j ur2.
               run_bind (load r1 (8 * l + j)) (\<lambda>a.
               run_bind (tab_get (galois_mult_tables st' 8) (sint (m * nw 8 + ucast a))) (\<lambda>prod.
               run_bind (load ur2 (8 * l + j)) (\<lambda>b.
                 store ur2 (8 * l + j) (b XOR ucast prod)))))) r2) = Inr out \<and>
      elts_ok 1 n out (region_result 8 1 m r1 r2 add)"
    if st': "galois_ok st'" "galois_mult_tables st' 8 \<noteq> NULL" for st'
  proof -
    obtain mt dt where mt: "galois_mult_tables st' 8 = Table 0 mt" "mult_tables_ok 8 mt dt"
      by (rule mult_tables_of_ok [of st' 8]) (use st' in \<open>auto simp: galois_ok_def\<close>)
    have get: "tab_get (galois_mult_tables st' 8) (sint (m * nw 8 + ucast (a :: byte))) = Inr (gf_mul 8 m (ucast a))" for a
      using mult_table_get(1) [OF mt(2) m, of "ucast a"] m by (simp add: mt(1) w08_index del: tab_get.simps)
    show ?thesis
    proof (cases add)
      case False
      have "\<exists>out. cfor 0 n (\<lambda>i ur2. run_bind (load r1 i) (\<lambda>a.
               run_bind (tab_get (galois_mult_tables st' 8) (sint (m * nw 8 + ucast a))) (\<lambda>prod.
                 store ur2 i (ucast prod)))) r2 = Inr out \<and> elts_ok 1 n out (region_result 8 1 m r1 r2 add)"
        by (rule elt_loop)
          (use len False in \<open>auto simp: load_def store_def get wr_1 [simplified] region_result_def rd_1 [simplified]\<close>)
      then show ?thesis using False by simp
    next
      case True
      obtain k where k: "n = 8 * k" using add True by blast
      let ?body = "\<lambda>i ur2. run_bind (load r1 i) (\<lambda>a.
               run_bind (tab_get (galois_mult_tables st' 8) (sint (m * nw 8 + ucast a))) (\<lambda>prod.
               run_bind (load ur2 i) (\<lambda>b. store ur2 i (b XOR ucast prod))))"
      have "\<exists>out. cfor 0 n ?body r2 = Inr out \<and> elts_ok 1 n out (region_result 8 1 m r1 r2 add)"
        by (rule elt_loop)
          (use len True in \<open>auto simp: load_def store_def get wr_1 [simplified] region_result_def rd_1 [simplified]
             ucast_byte_xor\<close>)
      then show ?thesis using True cfor_blocks [of k 8 ?body r2] by (simp add: k)
    qed
  qed
  ultimately show ?thesis unfolding galois_w08_region_multiply_def Let_def option.case by (rule computes_then)
qed

lemma w16_product_ok:
  assumes "galois_ok st" "galois_log_tables st 16 \<noteq> NULL" "gf_elem 16 m" "m \<noteq> 0"
  shows "\<exists>log1. tab_get (galois_log_tables st 16) (sint m) = Inr log1 \<and>
    (\<forall>a. gf_elem 16 a \<longrightarrow> w16_product st log1 a = Inr (gf_mul 16 m a))"
proof -
  have sum: "log_sum a m 16 st = Inr (gf_mul 16 m a, st)" if "gf_elem 16 a" "a \<noteq> 0" for a
    using log_sum_eq(1) [of st 16 a m] assms that gf_mul_commute [of 16 a m] by (simp add: galois_ok_def)
  then obtain log1 where log1: "tab_get (galois_log_tables st 16) (sint m) = Inr log1"
    using assms(3,4) by (auto simp: log_sum_def run_bind_Inr_conv)
  have "w16_product st log1 a = Inr (gf_mul 16 m a)" if "gf_elem 16 a" for a
    using sum [OF that] log1 by (cases "a = 0") (auto simp: w16_product_def log_sum_def run_bind_Inr_conv)
  then show ?thesis using log1 by blast
qed

lemma zero_loop:
  assumes "length r = n"
  shows "cfor 0 n (\<lambda>i r. store r i 0) r = Inr (replicate n 0)"
proof -
  have "\<exists>t. cfor 0 n (\<lambda>i r. store r i 0) r = Inr t \<and> elts_ok 1 n t (\<lambda>i. 0)"
    by (rule elt_loop) (use assms in \<open>auto simp: store_def wr_1 [simplified]\<close>)
  then obtain t where t: "cfor 0 n (\<lambda>i r. store r i 0) r = Inr t" "elts_ok 1 n t (\<lambda>i. 0)" by blast
  have "t = replicate n 0"
    by (rule rd_ext [of 1 _ n]) (use t(2) in \<open>auto simp: elts_ok_def rd_1 [simplified]\<close>)
  then show ?thesis using t(1) by simp
qed

lemma rd_replicate_0: "s \<le> 4 \<Longrightarrow> i < n \<Longrightarrow> rd s (replicate (s * n) 0) i = 0"
proof (rule bit_word_eqI)
  fix k assume "s \<le> 4" "i < n" "k < LENGTH(32)"
  have "s * i + k div 8 < s * n" if "k < 8 * s"
  proof -
    have "k div 8 < s" using that by (simp add: div_less_iff_less_mult)
    then show ?thesis using elt_bound [OF \<open>i < n\<close>, of s] by linarith
  qed
  then show "bit (rd s (replicate (s * n) 0) i) k = bit (0::cint) k"
    using \<open>s \<le> 4\<close> by (auto simp: bit_rd)
qed

lemma w16_region_multiply_ok:
  assumes st: "galois_ok st" and m: "gf_elem 16 m" and len: "length r1 = 8 * k" "length r2 = 8 * k"
  shows "computes st (\<lambda>out. elts_ok 2 (4 * k) out (region_result 16 2 m r1 r2 add))
    (galois_w16_region_multiply r1 m (8 * k) (Some r2) add st)"
proof (cases "m = 0")
  case True
  have zero: "cfor 0 ((2 * (8 * k div 2) + 7) div 8) (\<lambda>l. cfor 0 8 (\<lambda>j ur2. store ur2 (8 * l + j) 0)) r2 = Inr (replicate (8 * k) 0)"
    using cfor_blocks [of k 8 "\<lambda>i r. store r i 0" r2] zero_loop [OF len(2)] by simp
  have "elts_ok 2 (4 * k) r2 (\<lambda>i. rd 2 r2 i)" "elts_ok 2 (4 * k) (replicate (8 * k) 0) (\<lambda>i. 0)"
    using len(2) rd_replicate_0 [of 2 _ "4 * k"] by (auto simp: elts_ok_def)
  then show ?thesis using st zero True
    by (simp add: galois_w16_region_multiply_def computes_def region_result_def elts_ok_def)
next
  case m0: False
  have "case need (galois_log_tables st 16 = NULL) (galois_create_log_tables 16) st of
      Inl e \<Rightarrow> e = Exit \<and> mallocs st \<noteq> []
    | Inr (u, st') \<Rightarrow> galois_ok st' \<and> galois_log_tables st' 16 \<noteq> NULL \<and> (mallocs st = [] \<longrightarrow> mallocs st' = [])"
    by (rule need_logs) (use st in auto)
  moreover have "\<exists>out. run_bind (tab_get (galois_log_tables st' 16) (sint m)) (\<lambda>log1.
       if Some r2 = None \<or> \<not> add then
                cfor 0 (4 * k) (\<lambda>i ur2.
                  run_bind (load_elt 2 (if Some r2 = None then ur2 else r1) i) (\<lambda>a.
                  run_bind (w16_product st' log1 a) (\<lambda>prod.
                    store_elt 2 ur2 i prod))) r2
              else
                cfor 0 ((4 * k + 3) div 4) (\<lambda>l. cfor 0 4 (\<lambda>j ur2.
                  run_bind (load_elt 2 r1 (4 * l + j)) (\<lambda>a.
                  run_bind (w16_product st' log1 a) (\<lambda>prod.
                  run_bind (load_elt 2 ur2 (4 * l + j)) (\<lambda>b.
                    store_elt 2 ur2 (4 * l + j) (b XOR prod)))))) r2) = Inr out \<and>
      elts_ok 2 (4 * k) out (region_result 16 2 m r1 r2 add)"
    if st': "galois_ok st'" "galois_log_tables st' 16 \<noteq> NULL" for st'
  proof -
    obtain log1 where log1: "tab_get (galois_log_tables st' 16) (sint m) = Inr log1"
      and prod: "\<And>a. gf_elem 16 a \<Longrightarrow> w16_product st' log1 a = Inr (gf_mul 16 m a)"
      using w16_product_ok [OF st' m m0] by blast
    have e: "gf_elem 16 (rd 2 r i)" for r i using rd_elem [of 2 r i] by simp
    have b: "2 * i + 2 \<le> 8 * k" if "i < 4 * k" for i using that by simp
    show ?thesis
    proof (cases add)
      case False
      have "\<exists>out. cfor 0 (4 * k) (\<lambda>i ur2. run_bind (load_elt 2 r1 i) (\<lambda>a.
                  run_bind (w16_product st' log1 a) (\<lambda>prod. store_elt 2 ur2 i prod))) r2 = Inr out \<and>
            elts_ok 2 (4 * k) out (region_result 16 2 m r1 r2 add)"
        by (rule elt_loop)
          (use len False b e in \<open>auto simp: load_elt_def store_elt_def prod region_result_def\<close>)
      then show ?thesis using False log1 by simp
    next
      case True
      let ?body = "\<lambda>i ur2. run_bind (load_elt 2 r1 i) (\<lambda>a. run_bind (w16_product st' log1 a) (\<lambda>prod.
                  run_bind (load_elt 2 ur2 i) (\<lambda>b. store_elt 2 ur2 i (b XOR prod))))"
      have "\<exists>out. cfor 0 (4 * k) ?body r2 = Inr out \<and> elts_ok 2 (4 * k) out (region_result 16 2 m r1 r2 add)"
        by (rule elt_loop)
          (use len True b e in \<open>auto simp: load_elt_def store_elt_def prod region_result_def\<close>)
      then show ?thesis using True log1 cfor_blocks [of k 4 ?body r2] by simp
    qed
  qed
  ultimately have "computes st (\<lambda>out. elts_ok 2 (4 * k) out (region_result 16 2 m r1 r2 add))
      (run_bind (need (galois_log_tables st 16 = NULL) (galois_create_log_tables 16) st) (\<lambda>(u, st').
        run_bind (run_bind (tab_get (galois_log_tables st' 16) (sint m)) (\<lambda>log1.
       if Some r2 = None \<or> \<not> add then
                cfor 0 (4 * k) (\<lambda>i ur2.
                  run_bind (load_elt 2 (if Some r2 = None then ur2 else r1) i) (\<lambda>a.
                  run_bind (w16_product st' log1 a) (\<lambda>prod.
                    store_elt 2 ur2 i prod))) r2
              else
                cfor 0 ((4 * k + 3) div 4) (\<lambda>l. cfor 0 4 (\<lambda>j ur2.
                  run_bind (load_elt 2 r1 (4 * l + j)) (\<lambda>a.
                  run_bind (w16_product st' log1 a) (\<lambda>prod.
                  run_bind (load_elt 2 ur2 (4 * l + j)) (\<lambda>b.
                    store_elt 2 ur2 (4 * l + j) (b XOR prod)))))) r2)) (\<lambda>out. Inr (out, st'))))"
    by (rule computes_then)
  then show ?thesis using m0 by (simp add: galois_w16_region_multiply_def Let_def run_bind_assoc cong: if_cong)
qed

lemma w32_product_eq:
  assumes "split_ok st" "galois_split_w8 st 0 \<noteq> NULL"
  shows "w32_product st m v = Inr (gf_mul 32 m v)"
proof -
  have "run_bind (w32_product st m v) (\<lambda>acc. Inr (acc, st)) = galois_split_w8_multiply m v st"
    unfolding w32_product_def galois_split_w8_multiply_def Let_def
    by (intro arg_cong [where f = "\<lambda>x. run_bind x (\<lambda>acc. Inr (acc, st))"] cfor_cong) simp
  also have "\<dots> = Inr (gf_mul 32 m v, st)" by (rule split_w8_multiply_eq [OF assms])
  finally show ?thesis by (auto simp: run_bind_Inr_conv)
qed

lemma w32_region_multiply_ok:
  assumes st: "galois_ok st" and len: "length r1 = 4 * n" "length r2 = 4 * n"
  shows "computes st (\<lambda>out. elts_ok 4 n out (region_result 32 4 m r1 r2 add))
    (galois_w32_region_multiply r1 m (4 * n) (Some r2) add st)"
proof -
  have "case need (galois_split_w8 st 0 = NULL) galois_create_split_w8_tables st of
      Inl e \<Rightarrow> e = Exit \<and> mallocs st \<noteq> []
    | Inr (u, st') \<Rightarrow> galois_ok st' \<and> galois_split_w8 st' 0 \<noteq> NULL \<and> (mallocs st = [] \<longrightarrow> mallocs st' = [])"
    using create_split_w8_tables_ok [OF st] st by (auto simp: need_def galois_ok_def)
  moreover have "\<exists>out. (if \<not> add then
              cfor 0 n (\<lambda>k ur2.
                run_bind (load_elt 4 (if Some r2 = None then ur2 else r1) k) (\<lambda>v.
                run_bind (w32_product st' m v) (\<lambda>accumulator.
                  store_elt 4 ur2 k accumulator))) r2
            else
              cfor 0 n (\<lambda>k ur2.
                run_bind (load_elt 4 (if Some r2 = None then ur2 else r1) k) (\<lambda>v.
                run_bind (w32_product st' m v) (\<lambda>accumulator.
                run_bind (load_elt 4 ur2 k) (\<lambda>o2.
                  store_elt 4 ur2 k (o2 XOR accumulator))))) r2) = Inr out \<and>
      elts_ok 4 n out (region_result 32 4 m r1 r2 add)"
    if st': "galois_ok st'" "galois_split_w8 st' 0 \<noteq> NULL" for st'
  proof -
    have prod: "w32_product st' m v = Inr (gf_mul 32 m v)" for v
      using w32_product_eq st' by (simp add: galois_ok_def)
    have b: "4 * i + 4 \<le> 4 * n" if "i < n" for i using elt_bound [OF that, of 4] by simp
    show ?thesis
    proof (cases add)
      case False
      then show ?thesis
        using elt_loop [of 4 r2 n "\<lambda>k ur2. run_bind (load_elt 4 r1 k) (\<lambda>v.
                run_bind (w32_product st' m v) (\<lambda>acc. store_elt 4 ur2 k acc))" "region_result 32 4 m r1 r2 add"] len b
        by (simp add: load_elt_def store_elt_def prod region_result_def)
    next
      case True
      then show ?thesis
        using elt_loop [of 4 r2 n "\<lambda>k ur2. run_bind (load_elt 4 r1 k) (\<lambda>v.
                run_bind (w32_product st' m v) (\<lambda>acc. run_bind (load_elt 4 ur2 k) (\<lambda>o2.
                  store_elt 4 ur2 k (o2 XOR acc))))" "region_result 32 4 m r1 r2 add"] len b
        by (simp add: load_elt_def store_elt_def prod region_result_def)
    qed
  qed
  ultimately have "computes st (\<lambda>out. elts_ok 4 n out (region_result 32 4 m r1 r2 add))
      (run_bind (need (galois_split_w8 st 0 = NULL) galois_create_split_w8_tables st) (\<lambda>(u, st').
        run_bind (if \<not> add then
              cfor 0 n (\<lambda>k ur2.
                run_bind (load_elt 4 (if Some r2 = None then ur2 else r1) k) (\<lambda>v.
                run_bind (w32_product st' m v) (\<lambda>accumulator.
                  store_elt 4 ur2 k accumulator))) r2
            else
              cfor 0 n (\<lambda>k ur2.
                run_bind (load_elt 4 (if Some r2 = None then ur2 else r1) k) (\<lambda>v.
                run_bind (w32_product st' m v) (\<lambda>accumulator.
                run_bind (load_elt 4 ur2 k) (\<lambda>o2.
                  store_elt 4 ur2 k (o2 XOR accumulator))))) r2) (\<lambda>out. Inr (out, st'))))"
    by (rule computes_then)
  then show ?thesis by (simp add: galois_w32_region_multiply_def Let_def cong: if_cong)
qed

end
