(* ===== verification/Jerasure_Codec.thy ===== *)
theory Jerasure_Codec
  imports Jerasure_Inverse Regions_Correct
begin

unbundle bit_operations_syntax

text \<open>
  Encoding and decoding of \<^verbatim>\<open>jerasure.c\<close> on the buffers of the devices.  The state holds the tables
  of \<^verbatim>\<open>galois.c\<close>, the three byte counters, and the buffers behind \<^verbatim>\<open>data_ptrs\<close> and
  \<^verbatim>\<open>coding_ptrs\<close>, which are distinct objects.  Device \<open>id\<close> is data buffer \<open>id\<close> when \<open>id < k\<close> and
  coding buffer \<open>id - k\<close> otherwise.
\<close>

section \<open>State\<close>

record coder =
  tables :: galois
  jerasure_total_xor_bytes :: nat
  jerasure_total_gf_bytes :: nat
  jerasure_total_memcpy_bytes :: nat
  data_ptrs :: "byte list list"
  coding_ptrs :: "byte list list"

definition buf :: "nat \<Rightarrow> coder \<Rightarrow> nat \<Rightarrow> fault + byte list" where
  "buf k st i =
     (if i < k then (if i < length (data_ptrs st) then Inr (data_ptrs st ! i) else Inl Undefined)
      else (if i - k < length (coding_ptrs st) then Inr (coding_ptrs st ! (i - k)) else Inl Undefined))"

definition set_buf :: "nat \<Rightarrow> nat \<Rightarrow> byte list \<Rightarrow> coder \<Rightarrow> coder" where
  "set_buf k i b st =
     (if i < k then st\<lparr>data_ptrs := (data_ptrs st)[i := b]\<rparr>
      else st\<lparr>coding_ptrs := (coding_ptrs st)[i - k := b]\<rparr>)"

definition memcpy :: "byte list \<Rightarrow> byte list \<Rightarrow> nat \<Rightarrow> fault + byte list" where
  "memcpy dst src sz =
     (if sz \<le> length dst \<and> sz \<le> length src then Inr (take sz src @ drop sz dst) else Inl Undefined)"

definition jerasure_get_stats :: "coder \<Rightarrow> (nat \<times> nat \<times> nat) \<times> coder" where
  "jerasure_get_stats st =
     ((jerasure_total_xor_bytes st, jerasure_total_gf_bytes st, jerasure_total_memcpy_bytes st),
      st\<lparr>jerasure_total_xor_bytes := 0, jerasure_total_gf_bytes := 0, jerasure_total_memcpy_bytes := 0\<rparr>)"

section \<open>Dot product of a matrix row and the devices\<close>

definition src_id :: "nat list option \<Rightarrow> nat \<Rightarrow> nat" where
  "src_id src_ids i = (case src_ids of None \<Rightarrow> i | Some ids \<Rightarrow> ids ! i)"

text \<open>The devices whose factor is one are copied or added.\<close>

definition dot_ones ::
  "nat \<Rightarrow> cint list \<Rightarrow> nat list option \<Rightarrow> nat \<Rightarrow> nat \<Rightarrow> nat \<Rightarrow> bool \<times> coder \<Rightarrow> fault + (bool \<times> coder)" where
  "dot_ones k matrix_row src_ids dest_id sz i = (\<lambda>(init, st).
     if matrix_row ! i = 1 then
       run_bind (buf k st dest_id) (\<lambda>dptr.
       run_bind (buf k st (src_id src_ids i)) (\<lambda>sptr.
         if \<not> init then
           run_bind (memcpy dptr sptr sz) (\<lambda>d.
             Inr (True, set_buf k dest_id d
               (st\<lparr>jerasure_total_memcpy_bytes := jerasure_total_memcpy_bytes st + sz\<rparr>)))
         else
           run_bind (galois_region_xor sptr dptr dptr sz) (\<lambda>d.
             Inr (True, set_buf k dest_id d
               (st\<lparr>jerasure_total_xor_bytes := jerasure_total_xor_bytes st + sz\<rparr>)))))
     else Inr (init, st))"

text \<open>The region product of the width; for width 1 the \<^verbatim>\<open>switch\<close> has no case.\<close>

definition region_multiply ::
  "nat \<Rightarrow> byte list \<Rightarrow> cint \<Rightarrow> nat \<Rightarrow> byte list \<Rightarrow> bool \<Rightarrow> (galois, byte list) prog" where
  "region_multiply w sptr multby sz dptr add =
     (if w = 8 then galois_w08_region_multiply sptr multby sz (Some dptr) add
      else if w = 16 then galois_w16_region_multiply sptr multby sz (Some dptr) add
      else if w = 32 then galois_w32_region_multiply sptr multby sz (Some dptr) add
      else ret dptr)"

definition dot_factors ::
  "nat \<Rightarrow> nat \<Rightarrow> cint list \<Rightarrow> nat list option \<Rightarrow> nat \<Rightarrow> nat \<Rightarrow> nat \<Rightarrow> bool \<times> coder \<Rightarrow> fault + (bool \<times> coder)" where
  "dot_factors k w matrix_row src_ids dest_id sz i = (\<lambda>(init, st).
     if matrix_row ! i \<noteq> 0 \<and> matrix_row ! i \<noteq> 1 then
       run_bind (buf k st dest_id) (\<lambda>dptr.
       run_bind (buf k st (src_id src_ids i)) (\<lambda>sptr.
       run_bind (region_multiply w sptr (matrix_row ! i) sz dptr init (tables st)) (\<lambda>(d, g).
         Inr (True, set_buf k dest_id d
           (st\<lparr>tables := g, jerasure_total_gf_bytes := jerasure_total_gf_bytes st + sz\<rparr>)))))
     else Inr (init, st))"

definition jerasure_matrix_dotprod ::
  "nat \<Rightarrow> nat \<Rightarrow> cint list \<Rightarrow> nat list option \<Rightarrow> nat \<Rightarrow> nat \<Rightarrow> coder \<Rightarrow> fault + coder" where
  "jerasure_matrix_dotprod k w matrix_row src_ids dest_id sz st =
     (if w \<noteq> 1 \<and> w \<noteq> 8 \<and> w \<noteq> 16 \<and> w \<noteq> 32 then Inl Exit
      else run_bind (buf k st dest_id) (\<lambda>_.
           run_bind (cfor 0 k (dot_ones k matrix_row src_ids dest_id sz) (False, st)) (\<lambda>s.
           run_bind (cfor 0 k (dot_factors k w matrix_row src_ids dest_id sz) s) (\<lambda>(init, st). Inr st))))"

definition jerasure_do_parity :: "nat \<Rightarrow> byte list list \<Rightarrow> byte list \<Rightarrow> nat \<Rightarrow> coder \<Rightarrow> fault + (byte list \<times> coder)" where
  "jerasure_do_parity k data parity_ptr sz st =
     (if data = [] then Inl Undefined
      else run_bind (memcpy parity_ptr (data ! 0) sz) (\<lambda>p.
        cfor 1 k (\<lambda>i (p, st).
          if i < length data then
            run_bind (galois_region_xor (data ! i) p p sz) (\<lambda>p.
              Inr (p, st\<lparr>jerasure_total_xor_bytes := jerasure_total_xor_bytes st + sz\<rparr>))
          else Inl Undefined)
          (p, st\<lparr>jerasure_total_memcpy_bytes := jerasure_total_memcpy_bytes st + sz\<rparr>)))"

section \<open>Encoding and decoding\<close>

definition jerasure_matrix_encode :: "nat \<Rightarrow> nat \<Rightarrow> nat \<Rightarrow> cint list \<Rightarrow> nat \<Rightarrow> coder \<Rightarrow> fault + coder" where
  "jerasure_matrix_encode k m w matrix sz st =
     (if w \<noteq> 8 \<and> w \<noteq> 16 \<and> w \<noteq> 32 then Inl Exit
      else cfor 0 m (\<lambda>i. jerasure_matrix_dotprod k w (drop (i * k) matrix) None (k + i) sz) st)"

text \<open>The number of erased data devices and the last of them (or \<open>k\<close>).\<close>

definition count_erased :: "nat \<Rightarrow> nat list \<Rightarrow> nat \<times> nat" where
  "count_erased k erased =
     fold (\<lambda>i (edd, lastdrive). if erased ! i \<noteq> 0 then (edd + 1, i) else (edd, lastdrive)) [0..<k] (0, k)"

text \<open>
  \<^verbatim>\<open>for (i = 0; edd > 0 && i < lastdrive; i++)\<close>: once \<^verbatim>\<open>edd\<close> is zero the remaining rounds do
  nothing.
\<close>

definition decode_data ::
  "nat \<Rightarrow> nat \<Rightarrow> nat list \<Rightarrow> cint list \<Rightarrow> nat list \<Rightarrow> nat \<Rightarrow> nat \<Rightarrow> nat \<times> coder \<Rightarrow> fault + (nat \<times> coder)" where
  "decode_data k w erased decoding_matrix dm_ids sz i = (\<lambda>(edd, st).
     if 0 < edd \<and> erased ! i \<noteq> 0 then
       run_bind (jerasure_matrix_dotprod k w (drop (i * k) decoding_matrix) (Some dm_ids) i sz st)
         (\<lambda>st. Inr (edd - 1, st))
     else Inr (edd, st))"

definition jerasure_matrix_decode ::
  "nat \<Rightarrow> nat \<Rightarrow> nat \<Rightarrow> cint list \<Rightarrow> bool \<Rightarrow> int list \<Rightarrow> nat \<Rightarrow> coder \<Rightarrow> fault + (int \<times> coder)" where
  "jerasure_matrix_decode k m w matrix row_k_ones erasures sz st =
     (if w \<noteq> 8 \<and> w \<noteq> 16 \<and> w \<noteq> 32 then Inr (-1, st)
      else case jerasure_erasures_to_erased k m erasures of
        None \<Rightarrow> Inr (-1, st)
      | Some erased \<Rightarrow>
          let (edd, lastdrive) = count_erased k erased;
              lastdrive = (if \<not> row_k_ones \<or> erased ! k \<noteq> 0 then k else lastdrive);
              (rc, decoding_matrix, dm_ids) =
                (if edd > 1 \<or> (edd > 0 \<and> (\<not> row_k_ones \<or> erased ! k \<noteq> 0))
                 then jerasure_make_decoding_matrix k m w matrix erased else (0, [], []))
          in if rc < 0 then Inr (-1, st)
             else
               run_bind (cfor 0 lastdrive (decode_data k w erased decoding_matrix dm_ids sz) (edd, st)) (\<lambda>(edd, st).
               run_bind
                 (if edd > 0 then
                    jerasure_matrix_dotprod k w matrix
                      (Some (map (\<lambda>i. if i < lastdrive then i else i + 1) [0..<k])) lastdrive sz st
                  else Inr st) (\<lambda>st.
               run_bind
                 (cfor 0 m (\<lambda>i st.
                    if erased ! (k + i) \<noteq> 0
                    then jerasure_matrix_dotprod k w (drop (i * k) matrix) None (i + k) sz st
                    else Inr st) st) (\<lambda>st.
               Inr (0, st)))))"

section \<open>Bit matrices\<close>

text \<open>
  One packet of the destination: the flag says whether it has been written.  A region operation on
  part of a buffer sees the rest of the buffer.
\<close>

definition at_offset :: "nat \<Rightarrow> (byte list \<Rightarrow> fault + byte list) \<Rightarrow> byte list \<Rightarrow> fault + byte list" where
  "at_offset off f b = run_bind (f (drop off b)) (\<lambda>r. Inr (take off b @ r))"

definition bit_packet ::
  "nat \<Rightarrow> nat \<Rightarrow> nat list option \<Rightarrow> nat \<Rightarrow> nat \<Rightarrow> nat \<Rightarrow> nat \<Rightarrow> nat \<Rightarrow> nat \<Rightarrow> bool \<times> coder \<Rightarrow> fault + (bool \<times> coder)" where
  "bit_packet k x src_ids dest_id sindex j y packetsize b = (\<lambda>(pstarted, st).
     if b = 0 then Inr (pstarted, st)
     else
       run_bind (buf k st dest_id) (\<lambda>bpptr.
       run_bind (buf k st (src_id src_ids x)) (\<lambda>bdptr.
         let dptr = drop (sindex + y * packetsize) bdptr;
             off = sindex + j * packetsize
         in if \<not> pstarted then
              run_bind (at_offset off (\<lambda>pptr. memcpy pptr dptr packetsize) bpptr) (\<lambda>d.
                Inr (True, set_buf k dest_id d
                  (st\<lparr>jerasure_total_memcpy_bytes := jerasure_total_memcpy_bytes st + packetsize\<rparr>)))
            else
              run_bind (at_offset off (\<lambda>pptr. galois_region_xor pptr dptr pptr packetsize) bpptr) (\<lambda>d.
                Inr (True, set_buf k dest_id d
                  (st\<lparr>jerasure_total_xor_bytes := jerasure_total_xor_bytes st + packetsize\<rparr>))))))"

definition jerasure_bitmatrix_dotprod ::
  "nat \<Rightarrow> nat \<Rightarrow> cint list \<Rightarrow> nat list option \<Rightarrow> nat \<Rightarrow> nat \<Rightarrow> nat \<Rightarrow> coder \<Rightarrow> fault + coder" where
  "jerasure_bitmatrix_dotprod k w bitmatrix_row src_ids dest_id sz packetsize st =
     (if w * packetsize = 0 then Inl Undefined
      else if sz mod (w * packetsize) \<noteq> 0 then Inl Exit
      else
        cfor 0 (sz div (w * packetsize)) (\<lambda>t.
          let sindex = t * (packetsize * w)
          in cfor 0 w (\<lambda>j st.
               run_bind
                 (cfor 0 k (\<lambda>x. cfor 0 w (\<lambda>y.
                    bit_packet k x src_ids dest_id sindex j y packetsize
                      (unat (bitmatrix_row ! (j * (k * w) + x * w + y))))) (False, st))
                 (\<lambda>(pstarted, st). Inr st))) st)"

definition jerasure_bitmatrix_encode ::
  "nat \<Rightarrow> nat \<Rightarrow> nat \<Rightarrow> cint list \<Rightarrow> nat \<Rightarrow> nat \<Rightarrow> coder \<Rightarrow> fault + coder" where
  "jerasure_bitmatrix_encode k m w bitmatrix sz packetsize st =
     (if packetsize mod 8 \<noteq> 0 then Inl Exit
      else if packetsize * w = 0 then Inl Undefined
      else if sz mod (packetsize * w) \<noteq> 0 then Inl Exit
      else cfor 0 m (\<lambda>i. jerasure_bitmatrix_dotprod k w (drop (i * k * w * w) bitmatrix) None (k + i) sz packetsize) st)"

definition bit_decode_data ::
  "nat \<Rightarrow> nat \<Rightarrow> nat list \<Rightarrow> cint list \<Rightarrow> nat list \<Rightarrow> nat \<Rightarrow> nat \<Rightarrow> nat \<Rightarrow> nat \<times> coder \<Rightarrow> fault + (nat \<times> coder)" where
  "bit_decode_data k w erased decoding_matrix dm_ids sz packetsize i = (\<lambda>(edd, st).
     if 0 < edd \<and> erased ! i \<noteq> 0 then
       run_bind (jerasure_bitmatrix_dotprod k w (drop (i * k * w * w) decoding_matrix) (Some dm_ids) i sz packetsize st)
         (\<lambda>st. Inr (edd - 1, st))
     else Inr (edd, st))"

definition jerasure_bitmatrix_decode ::
  "nat \<Rightarrow> nat \<Rightarrow> nat \<Rightarrow> cint list \<Rightarrow> bool \<Rightarrow> int list \<Rightarrow> nat \<Rightarrow> nat \<Rightarrow> coder \<Rightarrow> fault + (int \<times> coder)" where
  "jerasure_bitmatrix_decode k m w bitmatrix row_k_ones erasures sz packetsize st =
     (case jerasure_erasures_to_erased k m erasures of
        None \<Rightarrow> Inr (-1, st)
      | Some erased \<Rightarrow>
          let (edd, lastdrive) = count_erased k erased;
              lastdrive = (if \<not> row_k_ones \<or> erased ! k \<noteq> 0 then k else lastdrive);
              (rc, decoding_matrix, dm_ids) =
                (if edd > 1 \<or> (edd > 0 \<and> (\<not> row_k_ones \<or> erased ! k \<noteq> 0))
                 then jerasure_make_decoding_bitmatrix k m w bitmatrix erased else (0, [], []))
          in if rc < 0 then Inr (-1, st)
             else
               run_bind (cfor 0 lastdrive (bit_decode_data k w erased decoding_matrix dm_ids sz packetsize) (edd, st)) (\<lambda>(edd, st).
               run_bind
                 (if edd > 0 then
                    jerasure_bitmatrix_dotprod k w bitmatrix
                      (Some (map (\<lambda>i. if i < lastdrive then i else i + 1) [0..<k])) lastdrive sz packetsize st
                  else Inr st) (\<lambda>st.
               run_bind
                 (cfor 0 m (\<lambda>i st.
                    if erased ! (k + i) \<noteq> 0
                    then jerasure_bitmatrix_dotprod k w (drop (i * k * w * w) bitmatrix) None (k + i) sz packetsize st
                    else Inr st) st) (\<lambda>st.
               Inr (0, st)))))"

end
