(* ===== verification/Codec_Correct.thy ===== *)
theory Codec_Correct
  imports Jerasure_Codec
begin

unbundle bit_operations_syntax

text \<open>
  The codec of \<^verbatim>\<open>jerasure.c\<close> is correct: the dot product of a matrix row and the devices is the
  field combination of the elements, encoding makes the devices a codeword, and decoding restores a
  codeword from any set of surviving devices whose generator rows are invertible.
\<close>

section \<open>Devices\<close>

definition dev :: "nat \<Rightarrow> coder \<Rightarrow> nat \<Rightarrow> byte list" where
  "dev k st i = (if i < k then data_ptrs st ! i else coding_ptrs st ! (i - k))"

definition coder_ok :: "nat \<Rightarrow> nat \<Rightarrow> nat \<Rightarrow> coder \<Rightarrow> bool" where
  "coder_ok k m sz st \<longleftrightarrow> length (data_ptrs st) = k \<and> length (coding_ptrs st) = m \<and>
     (\<forall>i < k + m. length (dev k st i) = sz) \<and> galois_ok (tables st) \<and> mallocs (tables st) = []"

text \<open>The widths of the matrix codes, by the bytes of an element.\<close>

definition code_width :: "nat \<Rightarrow> nat \<Rightarrow> bool" where
  "code_width w s \<longleftrightarrow> w = 8 * s \<and> (s = 1 \<or> s = 2 \<or> s = 4)"

lemma code_width_simps:
  assumes "code_width w s"
  shows "gf_width w" "0 < s" "s \<le> 4" "w = 8 * s" "w = 8 \<or> w = 16 \<or> w = 32" "s dvd 8"
proof -
  have "s = 1 \<and> w = 8 \<or> s = 2 \<and> w = 16 \<or> s = 4 \<and> w = 32" using assms by (auto simp: code_width_def)
  then show "gf_width w" "0 < s" "s \<le> 4" "w = 8 * s" "w = 8 \<or> w = 16 \<or> w = 32" "s dvd 8"
    by (elim disjE; simp add: gf_width_def)+
qed

lemma coder_ok_dev: "coder_ok k m sz st \<Longrightarrow> i < k + m \<Longrightarrow> length (dev k st i) = sz"
  by (simp add: coder_ok_def)

lemma buf_dev: "coder_ok k m sz st \<Longrightarrow> i < k + m \<Longrightarrow> buf k st i = Inr (dev k st i)"
  by (auto simp: coder_ok_def buf_def dev_def)

lemma dev_counters [simp]:
  "dev k (st\<lparr>jerasure_total_xor_bytes := a\<rparr>) i = dev k st i"
  "dev k (st\<lparr>jerasure_total_gf_bytes := a\<rparr>) i = dev k st i"
  "dev k (st\<lparr>jerasure_total_memcpy_bytes := a\<rparr>) i = dev k st i"
  "dev k (st\<lparr>tables := g\<rparr>) i = dev k st i"
  by (simp_all add: dev_def)

lemma coder_ok_counters [simp]:
  "coder_ok k m sz (st\<lparr>jerasure_total_xor_bytes := a\<rparr>) = coder_ok k m sz st"
  "coder_ok k m sz (st\<lparr>jerasure_total_gf_bytes := a\<rparr>) = coder_ok k m sz st"
  "coder_ok k m sz (st\<lparr>jerasure_total_memcpy_bytes := a\<rparr>) = coder_ok k m sz st"
  by (simp_all add: coder_ok_def)

lemma coder_ok_tables:
  "coder_ok k m sz st \<Longrightarrow> galois_ok g \<Longrightarrow> mallocs g = [] \<Longrightarrow> coder_ok k m sz (st\<lparr>tables := g\<rparr>)"
  by (simp add: coder_ok_def)

lemma dev_set_buf:
  assumes "coder_ok k m sz st" "i < k + m" "j < k + m"
  shows "dev k (set_buf k i b st) j = (if j = i then b else dev k st j)"
proof -
  have "length (data_ptrs st) = k" "length (coding_ptrs st) = m" using assms(1) by (auto simp: coder_ok_def)
  then show ?thesis using assms(2,3) by (auto simp: dev_def set_buf_def nth_list_update)
qed

lemma coder_ok_set_buf:
  assumes "coder_ok k m sz st" "i < k + m" "length b = sz"
  shows "coder_ok k m sz (set_buf k i b st)"
proof -
  have "\<forall>j < k + m. length (dev k (set_buf k i b st) j) = sz"
    using assms dev_set_buf [OF assms(1,2)] by (simp add: coder_ok_def)
  then show ?thesis using assms(1) by (auto simp: coder_ok_def set_buf_def)
qed

section \<open>Region operations on devices\<close>

lemma rd_bytes_xor:
  assumes "s \<le> 4" "length t = s * n" "\<And>i. i < s * n \<Longrightarrow> t ! i = a ! i XOR b ! i" "p < n"
  shows "rd s t p = rd s a p XOR rd s b p"
proof (rule bit_word_eqI)
  fix c
  have "s * p + c div 8 < s * n" if "c < 8 * s"
  proof -
    have "c div 8 < s" using that by (simp add: div_less_iff_less_mult)
    then show ?thesis using elt_bound [OF assms(4), of s] by linarith
  qed
  then show "bit (rd s t p) c = bit (rd s a p XOR rd s b p) c"
    using assms(1,3) by (auto simp: bit_rd bit_xor_iff)
qed

lemma region_xor_elements:
  assumes "s \<le> 4" "length a = sz" "length b = sz" "length r = sz" "8 dvd sz" "sz = s * n"
  shows "\<exists>t. galois_region_xor a b r sz = Inr t \<and> length t = sz \<and> (\<forall>p < n. rd s t p = rd s a p XOR rd s b p)"
proof -
  obtain c where c: "sz = 8 * c" using assms(5) by blast
  obtain t where t: "galois_region_xor a b r sz = Inr t" "elts_ok 1 sz t (\<lambda>i. rd 1 a i XOR rd 1 b i)"
    using galois_region_xor_ok [of a c b r] assms(2-4) c by auto
  have "t ! i = a ! i XOR b ! i" if "i < sz" for i
  proof -
    have "rd 1 t i = rd 1 a i XOR rd 1 b i" using t(2) that by (simp add: elts_ok_def)
    then have "(ucast (rd 1 t i) :: byte) = ucast (rd 1 a i XOR rd 1 b i)" by simp
    then show ?thesis by (simp add: rd_1 [simplified] ucast_byte_xor)
  qed
  then show ?thesis using t assms rd_bytes_xor [of s t n a b] by (auto simp: elts_ok_def)
qed

lemma region_xor_words:
  assumes "s \<le> 4" "length a = sz" "length b = sz" "8 dvd sz" "sz = s * n"
  shows "\<exists>t. galois_region_xor a b b sz = Inr t \<and> length t = sz \<and> (\<forall>p < n. rd s t p = rd s a p XOR rd s b p)"
  by (rule region_xor_elements [OF assms(1-3) assms(3-5)])

lemma region_multiply_ok:
  assumes "code_width w s" "galois_ok g" "mallocs g = []" "gf_elem w c" "length a = sz" "length b = sz"
    "8 dvd sz" "sz = s * n"
  shows "\<exists>t g'. region_multiply w a c sz b add g = Inr (t, g') \<and> galois_ok g' \<and> mallocs g' = [] \<and> length t = sz \<and>
    (\<forall>p < n. rd s t p = (if add then rd s b p else 0) XOR gmul w c (rd s a p))"
proof -
  have out: "\<exists>t g'. r = Inr (t, g') \<and> galois_ok g' \<and> mallocs g' = [] \<and> length t = sz \<and>
      (\<forall>p < n. rd s t p = (if add then rd s b p else 0) XOR gmul w c (rd s a p))"
    if "computes g (\<lambda>out. elts_ok s n out (region_result w s c a b add)) r" for r
  proof -
    have "gmul w c (rd s a p) = gf_mul w c (rd s a p)" for p
      using code_width_simps [OF assms(1)] assms(4) by (simp add: gmul_eq)
    then show ?thesis using that assms(3,8)
      by (auto simp: computes_def elts_ok_def region_result_def split: sum.splits prod.splits)
  qed
  obtain c8 where c8: "sz = 8 * c8" using assms(7) by blast
  consider "s = 1" "w = 8" | "s = 2" "w = 16" | "s = 4" "w = 32" using assms(1) by (auto simp: code_width_def)
  then show ?thesis
  proof cases
    case 1
    then show ?thesis using w08_region_multiply_ok [OF assms(2), of c a sz b add] assms out
      by (simp add: region_multiply_def)
  next
    case 2
    then have "n = 4 * c8" using c8 assms(8) by simp
    then show ?thesis using 2 w16_region_multiply_ok [OF assms(2), of c a c8 b add] assms c8 out
      by (simp add: region_multiply_def)
  next
    case 3
    then show ?thesis using w32_region_multiply_ok [OF assms(2), of a n b c add] assms out
      by (simp add: region_multiply_def)
  qed
qed

section \<open>The dot product\<close>

text \<open>
  After the devices of \<open>S\<close> have been accumulated: the destination holds their combination when \<open>S\<close> is
  not empty, everything else is as before.
\<close>

definition dot_acc ::
  "nat \<Rightarrow> nat \<Rightarrow> nat \<Rightarrow> nat \<Rightarrow> nat \<Rightarrow> cint list \<Rightarrow> nat list option \<Rightarrow> nat \<Rightarrow> nat \<Rightarrow> coder \<Rightarrow> nat set \<Rightarrow> bool \<times> coder \<Rightarrow> bool" where
  "dot_acc k m w s n row src dest sz st0 S = (\<lambda>(init, st). coder_ok k m sz st \<and>
     (\<forall>j < k + m. j \<noteq> dest \<longrightarrow> dev k st j = dev k st0 j) \<and> (init \<longleftrightarrow> S \<noteq> {}) \<and> (\<not> init \<longrightarrow> st = st0) \<and>
     (init \<longrightarrow> (\<forall>p < n. rd s (dev k st dest) p =
        xsum (\<lambda>j. gmul w (row ! j) (rd s (dev k st0 (src_id src j)) p)) S)))"

lemma dot_acc_insert:
  assumes w: "code_width w s" and sz: "8 dvd sz" "sz = s * n" and ids: "dest < k + m" "src_id src i < k + m" "src_id src i \<noteq> dest"
    and i: "gf_elem w (row ! i)" "i \<notin> S" "finite S" and acc: "dot_acc k m w s n row src dest sz st0 S (init, st)"
    and ok0: "coder_ok k m sz st0"
    and d: "length d = sz" "\<And>p. p < n \<Longrightarrow> rd s d p =
      (if init then rd s (dev k st dest) p else 0) XOR gmul w (row ! i) (rd s (dev k st (src_id src i)) p)"
    and st': "coder_ok k m sz st'" "\<And>j. dev k st' j = dev k st j"
  shows "dot_acc k m w s n row src dest sz st0 (insert i S) (True, set_buf k dest d st')"
proof -
  have A: "coder_ok k m sz st" "\<forall>j < k + m. j \<noteq> dest \<longrightarrow> dev k st j = dev k st0 j" "init \<longleftrightarrow> S \<noteq> {}"
    "init \<Longrightarrow> \<forall>p < n. rd s (dev k st dest) p = xsum (\<lambda>j. gmul w (row ! j) (rd s (dev k st0 (src_id src j)) p)) S"
    using acc by (auto simp: dot_acc_def)
  have src: "dev k st (src_id src i) = dev k st0 (src_id src i)" using A(2) ids by simp
  have "rd s d p = xsum (\<lambda>j. gmul w (row ! j) (rd s (dev k st0 (src_id src j)) p)) (insert i S)" if "p < n" for p
    using d(2) [OF that] A(3,4) that i(2,3) by (cases init) (simp_all add: src xor.commute)
  then show ?thesis using st' d(1) ids A(2) dev_set_buf [OF st'(1) ids(1)] coder_ok_set_buf [OF st'(1) ids(1) d(1)]
    by (auto simp: dot_acc_def)
qed

lemma dot_ones_step:
  assumes w: "code_width w s" and sz: "8 dvd sz" "sz = s * n" and ids: "dest < k + m" "src_id src i < k + m" "src_id src i \<noteq> dest"
    and i: "i \<notin> S" "finite S" and acc: "dot_acc k m w s n row src dest sz st0 S (init, st)" and ok0: "coder_ok k m sz st0"
    and one: "row ! i = 1"
  shows "\<exists>r. dot_ones k row src dest sz i (init, st) = Inr r \<and> dot_acc k m w s n row src dest sz st0 (insert i S) r"
proof -
  note W = code_width_simps [OF w]
  have ok: "coder_ok k m sz st" using acc by (simp add: dot_acc_def)
  note bufs = buf_dev [OF ok ids(1)] buf_dev [OF ok ids(2)] and lens = coder_ok_dev [OF ok ids(1)] coder_ok_dev [OF ok ids(2)]
  have e: "gf_elem w (row ! i)" using one W(1) by simp
  have mul: "gmul w 1 (rd s r p) = rd s r p" for r p
    using W by (simp add: gmul_eq gf_mul_1_left)
  note ins = dot_acc_insert [OF w sz ids e i acc ok0]
  show ?thesis
  proof (cases init)
    case True
    obtain t where t: "galois_region_xor (dev k st (src_id src i)) (dev k st dest) (dev k st dest) sz = Inr t" "length t = sz"
        "\<forall>p < n. rd s t p = rd s (dev k st (src_id src i)) p XOR rd s (dev k st dest) p"
      using region_xor_words [OF W(3) lens(2,1) sz] by blast
    show ?thesis using one bufs True t
      ins [of t "st\<lparr>jerasure_total_xor_bytes := jerasure_total_xor_bytes st + sz\<rparr>"] ok
      by (simp add: dot_ones_def mul xor.commute)
  next
    case False
    have cp: "memcpy (dev k st dest) (dev k st (src_id src i)) sz = Inr (dev k st (src_id src i))"
      using lens by (simp add: memcpy_def)
    show ?thesis using one bufs False cp lens
      ins [of "dev k st (src_id src i)" "st\<lparr>jerasure_total_memcpy_bytes := jerasure_total_memcpy_bytes st + sz\<rparr>"] ok
      by (simp add: dot_ones_def mul)
  qed
qed

lemma dot_factors_step:
  assumes w: "code_width w s" and sz: "8 dvd sz" "sz = s * n" and ids: "dest < k + m" "src_id src i < k + m" "src_id src i \<noteq> dest"
    and i: "gf_elem w (row ! i)" "i \<notin> S" "finite S" and acc: "dot_acc k m w s n row src dest sz st0 S (init, st)" and ok0: "coder_ok k m sz st0"
    and f: "row ! i \<noteq> 0" "row ! i \<noteq> 1"
  shows "\<exists>r. dot_factors k w row src dest sz i (init, st) = Inr r \<and> dot_acc k m w s n row src dest sz st0 (insert i S) r"
proof -
  have ok: "coder_ok k m sz st" using acc by (simp add: dot_acc_def)
  note bufs = buf_dev [OF ok ids(1)] buf_dev [OF ok ids(2)] and lens = coder_ok_dev [OF ok ids(1)] coder_ok_dev [OF ok ids(2)]
  have g: "galois_ok (tables st)" "mallocs (tables st) = []" using ok by (auto simp: coder_ok_def)
  obtain t g' where t: "region_multiply w (dev k st (src_id src i)) (row ! i) sz (dev k st dest) init (tables st) = Inr (t, g')"
      "galois_ok g'" "mallocs g' = []" "length t = sz"
      "\<forall>p < n. rd s t p = (if init then rd s (dev k st dest) p else 0) XOR gmul w (row ! i) (rd s (dev k st (src_id src i)) p)"
    using region_multiply_ok [OF w g i(1) lens(2,1) sz] by blast
  have "dot_acc k m w s n row src dest sz st0 (insert i S)
      (True, set_buf k dest t (st\<lparr>tables := g', jerasure_total_gf_bytes := jerasure_total_gf_bytes st + sz\<rparr>))"
    by (rule dot_acc_insert [OF w sz ids i acc ok0]) (use t coder_ok_tables [OF ok t(2,3)] in auto)
  then show ?thesis using f bufs t(1) by (simp add: dot_factors_def)
qed

lemma matrix_dotprod_ok:
  assumes w: "code_width w s" and sz: "8 dvd sz" "sz = s * n" and ok: "coder_ok k m sz st" and dest: "dest < k + m"
    and src: "\<And>i. i < k \<Longrightarrow> row ! i \<noteq> 0 \<Longrightarrow> src_id src i < k + m \<and> src_id src i \<noteq> dest"
    and row: "\<And>i. i < k \<Longrightarrow> gf_elem w (row ! i)" and nz: "\<exists>i < k. row ! i \<noteq> 0"
  shows "\<exists>st'. jerasure_matrix_dotprod k w row src dest sz st = Inr st' \<and> coder_ok k m sz st' \<and>
    (\<forall>j < k + m. j \<noteq> dest \<longrightarrow> dev k st' j = dev k st j) \<and>
    (\<forall>p < n. rd s (dev k st' dest) p = xsum (\<lambda>j. gmul w (row ! j) (rd s (dev k st (src_id src j)) p)) {..<k})"
proof -
  let ?A = "dot_acc k m w s n row src dest sz st"
  note W = code_width_simps [OF w]
  have one: "\<exists>r. cfor 0 k (dot_ones k row src dest sz) (False, st) = Inr r \<and> ?A {j. j < k \<and> row ! j = 1} r"
  proof (rule cfor_total [where P = "\<lambda>i. ?A {j. j < i \<and> row ! j = 1}"])
    fix i t assume i: "i < k" and A: "?A {j. j < i \<and> row ! j = 1} t"
    show "\<exists>t'. dot_ones k row src dest sz i t = Inr t' \<and> ?A {j. j < Suc i \<and> row ! j = 1} t'"
    proof (cases "row ! i = 1")
      case True
      have S: "{j. j < Suc i \<and> row ! j = 1} = insert i {j. j < i \<and> row ! j = 1}" using True by (auto simp: less_Suc_eq)
      obtain init u where t: "t = (init, u)" by (cases t)
      show ?thesis unfolding S t
        by (rule dot_ones_step [OF w sz dest _ _ _ _ A [unfolded t] ok True]) (use src [OF i] True in auto)
    next
      case False
      have "{j. j < Suc i \<and> row ! j = 1} = {j. j < i \<and> row ! j = 1}" using False by (auto simp: less_Suc_eq)
      then show ?thesis using A False by (cases t) (simp add: dot_ones_def)
    qed
  qed (use ok in \<open>simp_all add: dot_acc_def\<close>)
  then obtain r where r: "cfor 0 k (dot_ones k row src dest sz) (False, st) = Inr r" "?A {j. j < k \<and> row ! j = 1} r" by blast
  have "\<exists>r'. cfor 0 k (dot_factors k w row src dest sz) r = Inr r' \<and> ?A ({j. j < k \<and> row ! j = 1} \<union> {j. j < k \<and> row ! j \<noteq> 0 \<and> row ! j \<noteq> 1}) r'"
  proof (rule cfor_total [where P = "\<lambda>i. ?A ({j. j < k \<and> row ! j = 1} \<union> {j. j < i \<and> row ! j \<noteq> 0 \<and> row ! j \<noteq> 1})"])
    fix i t assume i: "i < k" and A: "?A ({j. j < k \<and> row ! j = 1} \<union> {j. j < i \<and> row ! j \<noteq> 0 \<and> row ! j \<noteq> 1}) t"
    let ?S = "{j. j < k \<and> row ! j = 1} \<union> {j. j < i \<and> row ! j \<noteq> 0 \<and> row ! j \<noteq> 1}"
    show "\<exists>t'. dot_factors k w row src dest sz i t = Inr t' \<and> ?A ({j. j < k \<and> row ! j = 1} \<union> {j. j < Suc i \<and> row ! j \<noteq> 0 \<and> row ! j \<noteq> 1}) t'"
    proof (cases "row ! i \<noteq> 0 \<and> row ! i \<noteq> 1")
      case True
      have S: "{j. j < k \<and> row ! j = 1} \<union> {j. j < Suc i \<and> row ! j \<noteq> 0 \<and> row ! j \<noteq> 1} = insert i ?S"
        using True by (auto simp: less_Suc_eq)
      obtain init u where t: "t = (init, u)" by (cases t)
      show ?thesis unfolding S t
        by (rule dot_factors_step [OF w sz dest _ _ row [OF i] _ _ A [unfolded t] ok]) (use src [OF i] True in auto)
    next
      case False
      have "{j. j < k \<and> row ! j = 1} \<union> {j. j < Suc i \<and> row ! j \<noteq> 0 \<and> row ! j \<noteq> 1} = ?S"
        using False by (auto simp: less_Suc_eq)
      then show ?thesis using A False by (cases t) (auto simp: dot_factors_def)
    qed
  qed (use r in auto)
  moreover have "{j. j < k \<and> row ! j = 1} \<union> {j. j < k \<and> row ! j \<noteq> 0 \<and> row ! j \<noteq> 1} = {j. j < k \<and> row ! j \<noteq> 0}" by auto
  ultimately obtain st' where st': "cfor 0 k (dot_factors k w row src dest sz) r = Inr (True, st')"
      "?A {j. j < k \<and> row ! j \<noteq> 0} (True, st')" using nz by (fastforce simp: dot_acc_def)
  have "xsum (\<lambda>j. gmul w (row ! j) (f j)) {j. j < k \<and> row ! j \<noteq> 0} = xsum (\<lambda>j. gmul w (row ! j) (f j)) {..<k}"
    if "\<And>j. gf_elem w (f j)" for f
    by (rule xs.mono_neutral_left) (use that W in \<open>auto simp: gmul_eq\<close>)
  then have "\<forall>p < n. rd s (dev k st' dest) p = xsum (\<lambda>j. gmul w (row ! j) (rd s (dev k st (src_id src j)) p)) {..<k}"
    using st'(2) W(3,4) by (simp add: dot_acc_def)
  then show ?thesis using r(1) st' W(5) buf_dev [OF ok dest]
    by (auto simp: jerasure_matrix_dotprod_def dot_acc_def)
qed

section \<open>Encoding\<close>

text \<open>The generator matrix: the identity above the coding matrix.\<close>

definition gen :: "nat \<Rightarrow> cint list \<Rightarrow> nat \<Rightarrow> nat \<Rightarrow> cint" where
  "gen k matrix i j = (if i < k then (if i = j then 1 else 0) else matrix ! ((i - k) * k + j))"

definition coding_matrix :: "nat \<Rightarrow> nat \<Rightarrow> nat \<Rightarrow> cint list \<Rightarrow> bool" where
  "coding_matrix k m w matrix \<longleftrightarrow> length matrix = k * m \<and> (\<forall>i < k * m. gf_elem w (matrix ! i)) \<and>
     (\<forall>i < m. \<exists>j < k. matrix ! (i * k + j) \<noteq> 0)"

lemma row_index: "i < m \<Longrightarrow> j < k \<Longrightarrow> i * k + j < k * (m::nat)"
  using flat_bound [of i m j k] by (simp add: mult.commute)

lemma coding_row:
  assumes "coding_matrix k m w matrix" "i < m"
  shows "\<And>j. j < k \<Longrightarrow> drop (i * k) matrix ! j = matrix ! (i * k + j)"
    "\<And>j. j < k \<Longrightarrow> gf_elem w (drop (i * k) matrix ! j)" "\<exists>j < k. drop (i * k) matrix ! j \<noteq> 0"
proof -
  have len: "length matrix = k * m" using assms(1) by (simp add: coding_matrix_def)
  have le: "i * k \<le> length matrix" using assms(2) len by (simp add: mult.commute)
  show at: "drop (i * k) matrix ! j = matrix ! (i * k + j)" if "j < k" for j
    using le by simp
  show "gf_elem w (drop (i * k) matrix ! j)" if "j < k" for j
    using at [OF that] assms row_index [OF assms(2) that] by (simp add: coding_matrix_def)
  show "\<exists>j < k. drop (i * k) matrix ! j \<noteq> 0" using at assms by (auto simp: coding_matrix_def)
qed

text \<open>One coding device from the data devices.\<close>

lemma encode_row_ok:
  assumes w: "code_width w s" and sz: "8 dvd sz" "sz = s * n" and ok: "coder_ok k m sz st"
    and matrix: "coding_matrix k m w matrix" and i: "i < m"
  shows "\<exists>st'. jerasure_matrix_dotprod k w (drop (i * k) matrix) None (k + i) sz st = Inr st' \<and> coder_ok k m sz st' \<and>
    (\<forall>j < k + m. j \<noteq> k + i \<longrightarrow> dev k st' j = dev k st j) \<and>
    (\<forall>p < n. rd s (dev k st' (k + i)) p = xsum (\<lambda>j. gmul w (matrix ! (i * k + j)) (rd s (dev k st j) p)) {..<k})"
proof -
  have sum: "xsum (\<lambda>j. gmul w (drop (i * k) matrix ! j) (rd s (dev k st (src_id None j)) p)) {..<k}
      = xsum (\<lambda>j. gmul w (matrix ! (i * k + j)) (rd s (dev k st j) p)) {..<k}" for p
    by (rule xs.cong) (use coding_row(1) [OF matrix i] in \<open>auto simp: src_id_def\<close>)
  show ?thesis
    using matrix_dotprod_ok [OF w sz ok, of "k + i" "drop (i * k) matrix" None] coding_row [OF matrix i] i sum
    by (auto simp: src_id_def)
qed

lemma matrix_encode_ok:
  assumes w: "code_width w s" and sz: "8 dvd sz" "sz = s * n" and ok: "coder_ok k m sz st"
    and matrix: "coding_matrix k m w matrix"
  shows "\<exists>st'. jerasure_matrix_encode k m w matrix sz st = Inr st' \<and> coder_ok k m sz st' \<and>
    (\<forall>j < k. dev k st' j = dev k st j) \<and>
    (\<forall>i < m. \<forall>p < n. rd s (dev k st' (k + i)) p = xsum (\<lambda>j. gmul w (matrix ! (i * k + j)) (rd s (dev k st j) p)) {..<k})"
proof -
  let ?P = "\<lambda>c st'. coder_ok k m sz st' \<and> (\<forall>j < k. dev k st' j = dev k st j) \<and>
    (\<forall>i < c. \<forall>p < n. rd s (dev k st' (k + i)) p = xsum (\<lambda>j. gmul w (matrix ! (i * k + j)) (rd s (dev k st j) p)) {..<k})"
  have "\<exists>st'. cfor 0 m (\<lambda>i. jerasure_matrix_dotprod k w (drop (i * k) matrix) None (k + i) sz) st = Inr st' \<and> ?P m st'"
  proof (rule cfor_total [where P = ?P])
    fix i u assume i: "i < m" and P: "?P i u"
    obtain st' where st': "jerasure_matrix_dotprod k w (drop (i * k) matrix) None (k + i) sz u = Inr st'" "coder_ok k m sz st'"
        "\<forall>j < k + m. j \<noteq> k + i \<longrightarrow> dev k st' j = dev k u j"
        "\<forall>p < n. rd s (dev k st' (k + i)) p = xsum (\<lambda>j. gmul w (matrix ! (i * k + j)) (rd s (dev k u j) p)) {..<k}"
      using encode_row_ok [OF w sz _ matrix i, of u] P by blast
    have "xsum (\<lambda>j. gmul w (matrix ! (i * k + j)) (rd s (dev k u j) p)) {..<k}
        = xsum (\<lambda>j. gmul w (matrix ! (i * k + j)) (rd s (dev k st j) p)) {..<k}" for p
      by (rule xs.cong) (use P in auto)
    then have "?P (Suc i) st'" using st'(2-4) P i by (auto simp: less_Suc_eq)
    then show "\<exists>s'. jerasure_matrix_dotprod k w (drop (i * k) matrix) None (k + i) sz u = Inr s' \<and> ?P (Suc i) s'"
      using st'(1) by blast
  qed (use ok in auto)
  then show ?thesis using code_width_simps(5) [OF w] by (auto simp: jerasure_matrix_encode_def)
qed

section \<open>Erasures\<close>

definition valid_erasures :: "nat \<Rightarrow> nat \<Rightarrow> int list \<Rightarrow> bool" where
  "valid_erasures k m es \<longleftrightarrow> (\<forall>e \<in> set es. 0 \<le> e \<and> e < int (k + m))"

lemma erased_scan_ok:
  assumes "valid_erasures k m es" "length erased = k + m" "E \<subseteq> {..<k + m}" "card E \<le> m"
    "\<forall>i < k + m. erased ! i = (if i \<in> E then 1 else 0)"
  shows "case erased_scan k (es @ (-1) # rest) (erased, k + m - card E) of
      Some r \<Rightarrow> length r = k + m \<and> (\<forall>i < k + m. r ! i = (if i \<in> E \<union> nat ` set es then 1 else 0)) \<and> card (E \<union> nat ` set es) \<le> m
    | None \<Rightarrow> m < card (E \<union> nat ` set es)"
  using assms
proof (induction es arbitrary: erased E)
  case (Cons e es)
  have e: "0 \<le> e" "nat e < k + m" "e \<noteq> -1" using Cons.prems(1) by (auto simp: valid_erasures_def nat_less_iff)
  have fin: "finite E" using Cons.prems(3) finite_subset by blast
  have valid: "valid_erasures k m es" using Cons.prems(1) by (simp add: valid_erasures_def)
  show ?case
  proof (cases "nat e \<in> E")
    case True
    then have "erased ! nat e \<noteq> 0" "E \<union> nat ` set (e # es) = E \<union> nat ` set es" using Cons.prems(5) e by auto
    then have z: "erased ! nat e \<noteq> 0" and U: "E \<union> nat ` set (e # es) = E \<union> nat ` set es" by auto
    show ?thesis unfolding U using Cons.IH [OF valid Cons.prems(2-5)] e z by simp
  next
    case False
    have z: "erased ! nat e = 0" using False Cons.prems(5) e by simp
    have U: "E \<union> nat ` set (e # es) = insert (nat e) E \<union> nat ` set es" by auto
    have c: "card (insert (nat e) E) = Suc (card E)" using False fin by simp
    have left: "k + m - card E - 1 = k + m - card (insert (nat e) E)" using c by simp
    show ?thesis
    proof (cases "card E = m")
      case True
      then have "0 < k" using False e(2) Cons.prems(3) card_subset_eq [of "{..<k + m}" E] by (cases k) auto
      then have "k + m - card E - 1 < k" using True by simp
      moreover have "card (insert (nat e) E) \<le> card (insert (nat e) E \<union> nat ` set es)" by (intro card_mono) (auto simp: fin)
      ultimately show ?thesis unfolding U using z e c True by simp
    next
      case ne: False
      then have le: "card (insert (nat e) E) \<le> m" using Cons.prems(4) c by simp
      then have "\<not> k + m - card E - 1 < k" using c by simp
      moreover have "\<forall>i < k + m. erased[nat e := 1] ! i = (if i \<in> insert (nat e) E then 1 else 0)"
        using Cons.prems(2,5) e by (auto simp: nth_list_update)
      ultimately show ?thesis unfolding U
        using Cons.IH [OF valid, of "erased[nat e := 1]" "insert (nat e) E"] Cons.prems(2,3) e z le left by simp
    qed
  qed
qed simp

definition erased_set :: "int list \<Rightarrow> nat set" where
  "erased_set es = nat ` set es"

lemma erasures_to_erased_ok:
  assumes "valid_erasures k m es"
  shows "case jerasure_erasures_to_erased k m (es @ (-1) # rest) of
      Some r \<Rightarrow> length r = k + m \<and> (\<forall>i < k + m. r ! i = (if i \<in> erased_set es then 1 else 0)) \<and> card (erased_set es) \<le> m
    | None \<Rightarrow> m < card (erased_set es)"
  using erased_scan_ok [OF assms, of "replicate (k + m) 0" "{}" rest]
  unfolding jerasure_erasures_to_erased_def erased_set_def Un_empty_left by simp

lemma survivors_ok:
  "j \<le> length (filter (\<lambda>e. e = 0) xs) \<Longrightarrow> length (survivors j i xs) = j \<and> distinct (survivors j i xs) \<and>
   (\<forall>d \<in> set (survivors j i xs). i \<le> d \<and> d < i + length xs \<and> xs ! (d - i) = 0)"
proof (induction j i xs rule: survivors.induct)
  case (3 j i e xs)
  have shift: "i \<le> d \<and> d < i + length (e # xs) \<and> (e # xs) ! (d - i) = 0"
    if "Suc i \<le> d \<and> d < Suc i + length xs \<and> xs ! (d - Suc i) = 0" for d
  proof -
    have "d - i = Suc (d - Suc i)" using that by arith
    then show ?thesis using that by simp
  qed
  show ?case
  proof (cases "e = 0")
    case True
    then show ?thesis using 3 shift by fastforce
  next
    case False
    then have "length (survivors (Suc j) (Suc i) xs) = Suc j \<and> distinct (survivors (Suc j) (Suc i) xs) \<and>
        (\<forall>d \<in> set (survivors (Suc j) (Suc i) xs). Suc i \<le> d \<and> d < Suc i + length xs \<and> xs ! (d - Suc i) = 0)"
      using 3 by simp
    then show ?thesis using False shift by (simp only: survivors.simps if_False simp_thms) blast
  qed
qed simp_all

section \<open>The decoding matrix\<close>

abbreviation gf_invertible :: "nat \<Rightarrow> nat \<Rightarrow> (nat \<Rightarrow> nat \<Rightarrow> cint) \<Rightarrow> bool" where
  "gf_invertible w \<equiv> xor_field.invertible (gf_elem w) (gmul w)"

abbreviation gf_left_inverse :: "nat \<Rightarrow> nat \<Rightarrow> (nat \<Rightarrow> nat \<Rightarrow> cint) \<Rightarrow> (nat \<Rightarrow> nat \<Rightarrow> cint) \<Rightarrow> bool" where
  "gf_left_inverse w \<equiv> xor_field.left_inverse (gf_elem w) (gmul w)"

text \<open>A row of a matrix is written entry by entry.\<close>

lemma row_write_ent:
  assumes "length t = k * k" "i < k"
  shows "length (fold (\<lambda>j t. t[i * k + j := f j]) [0..<k] t) = k * k \<and>
    (\<forall>r < k. \<forall>c < k. ent k (fold (\<lambda>j t. t[i * k + j := f j]) [0..<k] t) r c = (if r = i then f c else ent k t r c))"
proof -
  let ?P = "\<lambda>b u. length u = k * k \<and> (\<forall>r < k. \<forall>c < k. ent k u r c = (if r = i \<and> c < b then f c else ent k t r c))"
  have "?P k (fold (\<lambda>j t. t[i * k + j := f j]) [0..<k] t)"
  proof (rule fold_upt_inv0 [where P = ?P])
    fix j u assume "j < k" "?P j u"
    then show "?P (Suc j) (u[i * k + j := f j])"
      using assms(2) by (auto simp: ent_update mult.commute [of i k] less_Suc_eq)
  qed (use assms in auto)
  then show ?thesis by auto
qed

definition decoding_rows :: "nat \<Rightarrow> cint list \<Rightarrow> nat list \<Rightarrow> cint list" where
  "decoding_rows k matrix dm_ids = fold (\<lambda>i tmpmat.
            if dm_ids ! i < k then
              (fold (\<lambda>j t. t[i * k + j := 0]) [0..<k] tmpmat)[i * k + dm_ids ! i := 1]
            else fold (\<lambda>j t. t[i * k + j := matrix ! ((dm_ids ! i - k) * k + j)]) [0..<k] tmpmat)
            [0..<k] (replicate (k * k) 0)"

lemma decoding_rows_ent:
  "length (decoding_rows k matrix ids) = k * k \<and>
   (\<forall>i < k. \<forall>j < k. ent k (decoding_rows k matrix ids) i j = gen k matrix (ids ! i) j)"
proof -
  let ?P = "\<lambda>b t. length t = k * k \<and> (\<forall>i < b. \<forall>j < k. ent k t i j = gen k matrix (ids ! i) j)"
  have "?P k (decoding_rows k matrix ids)"
    unfolding decoding_rows_def
  proof (rule fold_upt_inv0 [where P = ?P])
    fix i t assume i: "i < k" and P: "?P i t"
    show "?P (Suc i) (if ids ! i < k then (fold (\<lambda>j t. t[i * k + j := 0]) [0..<k] t)[i * k + ids ! i := 1]
        else fold (\<lambda>j t. t[i * k + j := matrix ! ((ids ! i - k) * k + j)]) [0..<k] t)"
    proof (cases "ids ! i < k")
      case True
      have Z: "length (fold (\<lambda>j t. t[i * k + j := 0]) [0..<k] t) = k * k"
        "\<forall>r < k. \<forall>c < k. ent k (fold (\<lambda>j t. t[i * k + j := 0]) [0..<k] t) r c = (if r = i then 0 else ent k t r c)"
        using row_write_ent [of t k i "\<lambda>j. 0"] P i by auto
      then have "\<forall>r < k. \<forall>c < k. ent k ((fold (\<lambda>j t. t[i * k + j := 0]) [0..<k] t)[i * k + ids ! i := 1]) r c
          = (if r = i then (if ids ! i = c then 1 else 0) else ent k t r c)"
        using True i by (auto simp: ent_update mult.commute [of i k])
      then show ?thesis using True P Z i by (auto simp: gen_def less_Suc_eq)
    next
      case False
      then show ?thesis using row_write_ent [of t k i "\<lambda>j. matrix ! ((ids ! i - k) * k + j)"] P i
        by (auto simp: gen_def less_Suc_eq)
    qed
  qed auto
  then show ?thesis .
qed

lemma gen_elem:
  assumes "coding_matrix k m w matrix" "gf_width w" "i < k + m" "j < k"
  shows "gf_elem w (gen k matrix i j)"
proof -
  have "gf_elem w 0" "gf_elem w 1" using assms(2) by simp_all
  moreover have "gf_elem w (matrix ! ((i - k) * k + j))" if "\<not> i < k"
    using assms(1,3,4) row_index [of "i - k" m j k] that by (simp add: coding_matrix_def)
  ultimately show ?thesis by (simp add: gen_def)
qed

lemma make_decoding_matrix_ok:
  assumes w: "gf_width w" and matrix: "coding_matrix k m w matrix" and ids: "\<And>i. i < k \<Longrightarrow> survivors k 0 erased ! i < k + m"
  shows "case jerasure_make_decoding_matrix k m w matrix erased of (rc, dm, dm_ids) \<Rightarrow> dm_ids = survivors k 0 erased \<and>
    (if gf_invertible w k (\<lambda>i. gen k matrix (dm_ids ! i))
     then rc = 0 \<and> length dm = k * k \<and> gf_left_inverse w k (ent k dm) (\<lambda>i. gen k matrix (dm_ids ! i))
     else rc = -1)"
proof -
  let ?ids = "survivors k 0 erased" and ?t = "decoding_rows k matrix (survivors k 0 erased)"
  have gw: "galois_width w" using w by (rule galois_width.intro)
  have f: "xor_field (gf_elem w) (gmul w) (gdiv w)" using w by (rule gf_field)
  have E: "\<And>i j. i < k \<Longrightarrow> j < k \<Longrightarrow> ent k ?t i j = gen k matrix (?ids ! i) j"
    using decoding_rows_ent by blast
  have el: "xor_field.elems (gf_elem w) k (ent k ?t)"
    using E gen_elem [OF matrix w ids] by (simp add: xor_field.elems_def [OF f])
  have same: "gf_left_inverse w k B (ent k ?t) \<longleftrightarrow> gf_left_inverse w k B (\<lambda>i. gen k matrix (?ids ! i))" for B
    using xor_field.mcomb_cong [OF f, of k _ _ "ent k ?t" _ "\<lambda>i. gen k matrix (?ids ! i)"] E
    by (simp add: xor_field.left_inverse_def [OF f])
  show ?thesis
    using galois_width.invert_matrix_correct [OF gw _ _ el, of "replicate (k * k) 0"] decoding_rows_ent [of k matrix ?ids]
    by (auto simp: jerasure_make_decoding_matrix_def decoding_rows_def [symmetric] Let_def xor_field.invertible_def [OF f] same
        split: prod.splits if_splits)
qed

section \<open>Decoding\<close>

lemma count_erased_ok:
  "case count_erased k erased of (edd, lastdrive) \<Rightarrow> edd = card {j. j < k \<and> erased ! j \<noteq> 0} \<and>
     (if edd = 0 then lastdrive = k else lastdrive < k \<and> erased ! lastdrive \<noteq> 0 \<and> (\<forall>j < k. erased ! j \<noteq> 0 \<longrightarrow> j \<le> lastdrive))"
proof -
  let ?P = "\<lambda>b (edd, lastdrive). edd = card {j. j < b \<and> erased ! j \<noteq> 0} \<and>
     (if edd = 0 then lastdrive = k else lastdrive < b \<and> erased ! lastdrive \<noteq> 0 \<and> (\<forall>j < b. erased ! j \<noteq> 0 \<longrightarrow> j \<le> lastdrive))"
  have "?P k (count_erased k erased)"
    unfolding count_erased_def
  proof (rule fold_upt_inv0 [where P = ?P])
    fix i s assume P: "?P i s"
    obtain edd l where s: "s = (edd, l)" by (cases s)
    show "?P (Suc i) (case s of (edd, lastdrive) \<Rightarrow> if erased ! i \<noteq> 0 then (edd + 1, i) else (edd, lastdrive))"
    proof (cases "erased ! i = 0")
      case True
      then have "{j. j < Suc i \<and> erased ! j \<noteq> 0} = {j. j < i \<and> erased ! j \<noteq> 0}" by (auto simp: less_Suc_eq)
      then show ?thesis using P s True by (auto simp: less_Suc_eq split: if_splits)
    next
      case False
      then have "{j. j < Suc i \<and> erased ! j \<noteq> 0} = insert i {j. j < i \<and> erased ! j \<noteq> 0}" by (auto simp: less_Suc_eq)
      then show ?thesis using P s False by (auto simp: less_Suc_eq)
    qed
  qed simp
  then show ?thesis .
qed

text \<open>The contents of the devices form a codeword of the generator matrix.\<close>

definition codeword :: "nat \<Rightarrow> nat \<Rightarrow> nat \<Rightarrow> nat \<Rightarrow> nat \<Rightarrow> cint list \<Rightarrow> (nat \<Rightarrow> byte list) \<Rightarrow> bool" where
  "codeword k m w s n matrix D \<longleftrightarrow> (\<forall>i < k + m. length (D i) = s * n) \<and>
     (\<forall>i < m. \<forall>p < n. rd s (D (k + i)) p = xsum (\<lambda>j. gmul w (matrix ! (i * k + j)) (rd s (D j) p)) {..<k})"

text \<open>The devices below \<open>b\<close> and those that were never lost hold their codeword.\<close>

definition restored :: "nat \<Rightarrow> nat \<Rightarrow> nat \<Rightarrow> nat set \<Rightarrow> (nat \<Rightarrow> byte list) \<Rightarrow> nat \<Rightarrow> coder \<Rightarrow> bool" where
  "restored k m sz E D b st \<longleftrightarrow> coder_ok k m sz st \<and> (\<forall>j < k + m. j \<notin> E \<or> j < b \<longrightarrow> dev k st j = D j)"

lemma codeword_gen:
  assumes w: "code_width w s" and D: "codeword k m w s n matrix D" and i: "i < k + m" and p: "p < n"
  shows "xsum (\<lambda>j. gmul w (gen k matrix i j) (rd s (D j) p)) {..<k} = rd s (D i) p"
proof (cases "i < k")
  case True
  note W = code_width_simps [OF w]
  have "gmul w 0 (rd s (D j) p) = 0" "gmul w 1 (rd s (D j) p) = rd s (D j) p" for j
    using W by (simp_all add: gmul_eq gf_mul_1_left)
  then have "xsum (\<lambda>j. gmul w (gen k matrix i j) (rd s (D j) p)) {..<k} = xsum (\<lambda>j. if j = i then rd s (D j) p else 0) {..<k}"
    using True by (intro xs.cong) (auto simp: gen_def)
  then show ?thesis using True by (simp add: xs.delta)
next
  case False
  then obtain c where c: "i = k + c" "c < m" using i by (metis add_less_cancel_left le_add_diff_inverse not_less)
  then show ?thesis using D p by (simp add: codeword_def gen_def)
qed

lemma restored_dest:
  assumes w: "code_width w s" and D: "codeword k m w s n matrix D" and st: "restored k m (s * n) E D b st" and d: "d < k + m"
    and ok: "coder_ok k m (s * n) st'" and same: "\<forall>j < k + m. j \<noteq> d \<longrightarrow> dev k st' j = dev k st j"
    and dest: "\<And>p. p < n \<Longrightarrow> rd s (dev k st' d) p = rd s (D d) p"
  shows "dev k st' d = D d" "restored k m (s * n) E D b st'" "b = d \<Longrightarrow> restored k m (s * n) E D (Suc b) st'"
proof -
  show eq: "dev k st' d = D d"
    by (rule rd_ext [of s _ n]) (use code_width_simps [OF w] ok d D dest in \<open>auto simp: coder_ok_def codeword_def\<close>)
  show "restored k m (s * n) E D b st'" "b = d \<Longrightarrow> restored k m (s * n) E D (Suc b) st'"
    using eq st ok same by (auto simp: restored_def less_Suc_eq)
qed

text \<open>One data device from the survivors, with a row of the decoding matrix.\<close>

lemma decode_row_ok:
  assumes w: "code_width w s" and sz: "8 dvd s * n" and matrix: "coding_matrix k m w matrix" and D: "codeword k m w s n matrix D"
    and st: "restored k m (s * n) E D i st" and i: "i < k" "i \<in> E"
    and ids: "\<And>r. r < k \<Longrightarrow> ids ! r < k + m \<and> ids ! r \<notin> E"
    and dm: "length dm = k * k" "gf_left_inverse w k (ent k dm) (\<lambda>i. gen k matrix (ids ! i))"
  shows "\<exists>st'. jerasure_matrix_dotprod k w (drop (i * k) dm) (Some ids) i (s * n) st = Inr st' \<and> restored k m (s * n) E D (Suc i) st'"
proof -
  note W = code_width_simps [OF w]
  have f: "xor_field (gf_elem w) (gmul w) (gdiv w)" using W(1) by (rule gf_field)
  have at: "drop (i * k) dm ! r = ent k dm i r" if "r < k" for r
  proof -
    have "i * k \<le> length dm" using i(1) dm(1) by simp
    then show ?thesis by (simp add: ent_def mult.commute)
  qed
  have el: "gf_elem w (ent k dm i r)" if "r < k" for r
    using dm(2) i(1) that by (simp add: xor_field.left_inverse_def [OF f] xor_field.elems_def [OF f])
  have nz: "\<exists>r < k. ent k dm i r \<noteq> 0"
  proof (rule ccontr)
    assume "\<not> ?thesis"
    then have z: "\<forall>r < k. ent k dm i r = 0" by blast
    have "xsum (\<lambda>r. gmul w (ent k dm i r) (gen k matrix (ids ! r) i)) {..<k} = 0"
      using z gen_elem [OF matrix W(1)] ids i(1) W(1) by (intro xs.neutral) (auto simp: gmul_eq)
    then show False using dm(2) i(1) by (simp add: xor_field.left_inverse_def [OF f] xor_field.mcomb_def [OF f])
  qed
  have els: "xor_field.elems (gf_elem w) k (\<lambda>i. gen k matrix (ids ! i))"
    using gen_elem [OF matrix W(1)] ids by (simp add: xor_field.elems_def [OF f])
  obtain st' where st': "jerasure_matrix_dotprod k w (drop (i * k) dm) (Some ids) i (s * n) st = Inr st'" "coder_ok k m (s * n) st'"
      "\<forall>j < k + m. j \<noteq> i \<longrightarrow> dev k st' j = dev k st j"
      "\<forall>p < n. rd s (dev k st' i) p = xsum (\<lambda>j. gmul w (drop (i * k) dm ! j) (rd s (dev k st (ids ! j)) p)) {..<k}"
    using matrix_dotprod_ok [OF w sz refl, of k m st i "drop (i * k) dm" "Some ids"] st i ids at el nz
    by (fastforce simp: src_id_def restored_def)
  have "rd s (dev k st' i) p = rd s (D i) p" if p: "p < n" for p
  proof -
    have "xsum (\<lambda>j. gmul w (drop (i * k) dm ! j) (rd s (dev k st (ids ! j)) p)) {..<k}
        = xsum (\<lambda>r. gmul w (ent k dm i r) (xsum (\<lambda>j. gmul w (gen k matrix (ids ! r) j) (rd s (D j) p)) {..<k})) {..<k}"
      using at ids st codeword_gen [OF w D _ p] by (intro xs.cong) (auto simp: restored_def)
    also have "\<dots> = rd s (D i) p"
      by (rule xor_field.left_inverse_solve [OF f dm(2) els]) (use i W(3,4) in auto)
    finally show ?thesis using st'(4) p by simp
  qed
  then show ?thesis using st' restored_dest(3) [OF w D st _ st'(2,3)] i(1) by auto
qed

text \<open>The last lost data device from the others and the parity device.\<close>

lemma decode_last_ok:
  assumes w: "code_width w s" and sz: "8 dvd s * n" and matrix: "coding_matrix k m w matrix" and D: "codeword k m w s n matrix D"
    and ones: "\<And>j. j < k \<Longrightarrow> matrix ! j = 1" "0 < m" and l: "l < k" "k \<notin> E"
    and st: "restored k m (s * n) E D l st" "\<And>j. l < j \<Longrightarrow> j < k \<Longrightarrow> j \<notin> E"
  shows "\<exists>st'. jerasure_matrix_dotprod k w matrix (Some (map (\<lambda>i. if i < l then i else i + 1) [0..<k])) l (s * n) st = Inr st' \<and>
    restored k m (s * n) E D k st'"
proof -
  note W = code_width_simps [OF w]
  let ?g = "\<lambda>i. if i < l then i else i + 1" let ?ids = "map ?g [0..<k]"
  have mul: "gmul w 1 (rd s r p) = rd s r p" for r p using W by (simp add: gmul_eq gf_mul_1_left)
  have src: "src_id (Some ?ids) i < k + m \<and> src_id (Some ?ids) i \<noteq> l" if "i < k" for i
    using that ones(2) l by (auto simp: src_id_def)
  have ok: "coder_ok k m (s * n) st" using st(1) by (simp add: restored_def)
  have row: "gf_elem w (matrix ! i)" if "i < k" for i using ones(1) [OF that] W(1) by simp
  have nz: "\<exists>i < k. matrix ! i \<noteq> 0" using ones(1) [OF l(1)] l(1) by (intro exI [of _ l]) simp
  obtain st' where st': "jerasure_matrix_dotprod k w matrix (Some ?ids) l (s * n) st = Inr st'" "coder_ok k m (s * n) st'"
      "\<forall>j < k + m. j \<noteq> l \<longrightarrow> dev k st' j = dev k st j"
      "\<forall>p < n. rd s (dev k st' l) p = xsum (\<lambda>j. gmul w (matrix ! j) (rd s (dev k st (src_id (Some ?ids) j)) p)) {..<k}"
    using matrix_dotprod_ok [OF w sz refl ok trans_less_add1 [OF l(1)] src row nz] by blast
  have dev: "dev k st (?g j) = D (?g j)" if "j < k" for j
  proof -
    have "Suc j \<notin> E" if "\<not> j < l"
      using st(2) [of "Suc j"] l(2) \<open>j < k\<close> that by (cases "Suc j = k") auto
    then have "?g j < k + m \<and> (?g j \<notin> E \<or> ?g j < l)" using \<open>j < k\<close> ones(2) by auto
    then show ?thesis using st(1) by (simp only: restored_def)
  qed
  have "rd s (dev k st' l) p = rd s (D l) p" if p: "p < n" for p
  proof -
    have "xsum (\<lambda>j. gmul w (matrix ! j) (rd s (dev k st (src_id (Some ?ids) j)) p)) {..<k} = xsum (\<lambda>j. rd s (D (?g j)) p) {..<k}"
    proof (rule xs.cong)
      fix j assume "j \<in> {..<k}"
      then have j: "j < k" by simp
      then have "src_id (Some ?ids) j = ?g j" by (simp add: src_id_def)
      then show "gmul w (matrix ! j) (rd s (dev k st (src_id (Some ?ids) j)) p) = rd s (D (?g j)) p"
        by (simp only: dev [OF j] ones(1) [OF j] mul)
    qed simp
    also have "\<dots> = xsum (\<lambda>j. rd s (D j) p) ({..<Suc k} - {l})"
      by (rule xs.reindex_bij_witness [of _ "\<lambda>j. if j < l then j else j - 1" ?g]) (use l in auto)
    also have "\<dots> = rd s (D l) p XOR xsum (\<lambda>j. rd s (D j) p) {..<Suc k}"
      using xs.remove [of "{..<Suc k}" l "\<lambda>j. rd s (D j) p"] l(1) by (simp del: xs.lessThan_Suc)
    also have "xsum (\<lambda>j. rd s (D j) p) {..<Suc k} = 0"
    proof -
      have "rd s (D k) p = xsum (\<lambda>j. gmul w (matrix ! j) (rd s (D j) p)) {..<k}"
        using D ones(2) p by (auto simp: codeword_def)
      also have "\<dots> = xsum (\<lambda>j. rd s (D j) p) {..<k}" by (rule xs.cong) (use ones mul in auto)
      finally show ?thesis by (simp add: lessThan_Suc)
    qed
    finally show ?thesis using st'(4) p by simp
  qed
  then have "dev k st' l = D l" using restored_dest(1) [OF w D st(1) _ st'(2,3)] l(1) by simp
  moreover have "dev k st' j = D j" if "j < k + m" "j \<noteq> l" "j \<notin> E \<or> j < k" for j
  proof -
    have "j \<notin> E \<or> j < l" using st(2) [of j] that by linarith
    then show ?thesis using st(1) st'(3) that by (simp add: restored_def)
  qed
  ultimately have "dev k st' j = D j" if "j < k + m" "j \<notin> E \<or> j < k" for j using that by (cases "j = l") auto
  then have "restored k m (s * n) E D k st'" using st'(2) by (simp add: restored_def)
  then show ?thesis using st'(1) by blast
qed

text \<open>
  The erasure list describes the set \<open>E\<close>; the survivors the decoder picks are \<open>k\<close> distinct devices
  outside it.
\<close>

lemma survivors_erased:
  assumes "length erased = k + m" "\<And>i. i < k + m \<Longrightarrow> erased ! i \<noteq> 0 \<longleftrightarrow> i \<in> E" "E \<subseteq> {..<k + m}" "card E \<le> m"
  shows "length (survivors k 0 erased) = k" "distinct (survivors k 0 erased)" "set (survivors k 0 erased) \<subseteq> {..<k + m} - E"
proof -
  have "length (filter (\<lambda>e. e = 0) erased) = card {i. i < k + m \<and> erased ! i = 0}"
    using assms(1) by (simp add: length_filter_conv_card)
  also have "{i. i < k + m \<and> erased ! i = 0} = {..<k + m} - E" using assms(2) by blast
  also have "card \<dots> = k + m - card E" using assms(3) by (simp add: card_Diff_subset finite_subset)
  finally have "k \<le> length (filter (\<lambda>e. e = 0) erased)" using assms(4) by simp
  from survivors_ok [OF this, of 0] show "length (survivors k 0 erased) = k" "distinct (survivors k 0 erased)"
      "set (survivors k 0 erased) \<subseteq> {..<k + m} - E" using assms(1,2) by fastforce+
qed

text \<open>
  The decoder needs the decoding matrix for a lost device below \<open>l\<close>, where \<open>l\<close> is \<open>k\<close>, or the last
  lost data device when the parity device can rebuild it.
\<close>

lemma decoding_needed:
  assumes "edd = card {j. j < k \<and> j \<in> E}" "i < (l::nat)" "i \<in> E" "l \<le> k" "byrow \<Longrightarrow> edd = 0 \<or> l < k \<and> l \<in> E"
  shows "edd > 1 \<or> (edd > 0 \<and> \<not> byrow)"
proof -
  have fin: "finite {j. j < k \<and> j \<in> E}" by (rule finite_subset [of _ "{..<k}"]) auto
  have "{i} \<subseteq> {j. j < k \<and> j \<in> E}" using assms by auto
  then have pos: "0 < edd" using card_mono [OF fin] unfolding assms(1) by force
  show ?thesis
  proof (cases byrow)
    case True
    then have "{i, l} \<subseteq> {j. j < k \<and> j \<in> E}" "i \<noteq> l" using assms pos by auto
    then have "1 < edd" using card_mono [OF fin, of "{i, l}"] unfolding assms(1) by simp
    then show ?thesis ..
  qed (use pos in simp)
qed

section \<open>The phases of a decoder\<close>

text \<open>
  \<^verbatim>\<open>jerasure_matrix_decode\<close> and \<^verbatim>\<open>jerasure_bitmatrix_decode\<close> differ only in how they prepare the decoding matrix and compute a
  device; what they share.
\<close>

definition decode_with ::
  "nat \<Rightarrow> nat \<Rightarrow> bool \<Rightarrow> (nat list \<Rightarrow> int \<times> cint list \<times> nat list) \<Rightarrow> (cint list \<Rightarrow> nat list \<Rightarrow> nat \<Rightarrow> coder \<Rightarrow> fault + coder) \<Rightarrow>
   (nat \<Rightarrow> coder \<Rightarrow> fault + coder) \<Rightarrow> (nat \<Rightarrow> coder \<Rightarrow> fault + coder) \<Rightarrow> int list \<Rightarrow> coder \<Rightarrow> fault + (int \<times> coder)" where
  "decode_with k m row_k_ones prepare row final recode erasures st =
     (case jerasure_erasures_to_erased k m erasures of
        None \<Rightarrow> Inr (-1, st)
      | Some erased \<Rightarrow>
          let (edd, lastdrive) = count_erased k erased;
              lastdrive = (if \<not> row_k_ones \<or> erased ! k \<noteq> 0 then k else lastdrive);
              (rc, dm, ids) = (if edd > 1 \<or> (edd > 0 \<and> (\<not> row_k_ones \<or> erased ! k \<noteq> 0)) then prepare erased else (0, [], []))
          in if rc < 0 then Inr (-1, st)
             else
               run_bind
                 (cfor 0 lastdrive (\<lambda>i (edd, st).
                    if 0 < edd \<and> erased ! i \<noteq> 0 then run_bind (row dm ids i st) (\<lambda>st. Inr (edd - 1, st)) else Inr (edd, st)) (edd, st))
                 (\<lambda>(edd, st).
               run_bind (if edd > 0 then final lastdrive st else Inr st) (\<lambda>st.
               run_bind (cfor 0 m (\<lambda>i st. if erased ! (k + i) \<noteq> 0 then recode i st else Inr st) st) (\<lambda>st. Inr (0, st)))))"

lemma decode_loop:
  assumes E: "\<And>i. i < k \<Longrightarrow> erased ! i \<noteq> 0 \<longleftrightarrow> i \<in> E" and l: "l \<le> k" and R: "R 0 st"
    and skip: "\<And>i st. i \<notin> E \<Longrightarrow> R i st \<Longrightarrow> R (Suc i) st"
    and row: "\<And>i st. i < l \<Longrightarrow> i \<in> E \<Longrightarrow> R i st \<Longrightarrow> \<exists>st'. row i st = Inr st' \<and> R (Suc i) st'"
  shows "\<exists>st'. cfor 0 l (\<lambda>i (edd, st). if 0 < edd \<and> erased ! i \<noteq> 0 then run_bind (row i st) (\<lambda>st. Inr (edd - 1, st)) else Inr (edd, st))
      (card {j. j < k \<and> j \<in> E}, st) = Inr (card {j. l \<le> j \<and> j < k \<and> j \<in> E}, st') \<and> R l st'"
proof -
  let ?P = "\<lambda>i (edd, st). edd = card {j. i \<le> j \<and> j < k \<and> j \<in> E} \<and> R i st"
  let ?f = "\<lambda>i (edd, st). if 0 < edd \<and> erased ! i \<noteq> 0 then run_bind (row i st) (\<lambda>st. Inr (edd - 1, st)) else Inr (edd, st)"
  have "\<exists>r. cfor 0 l ?f (card {j. j < k \<and> j \<in> E}, st) = Inr r \<and> ?P l r"
  proof (rule cfor_total [where P = ?P])
    fix i r assume i: "i < l" and P: "?P i r"
    obtain edd u where r: "r = (edd, u)" by (cases r)
    have ik: "i < k" using i l by simp
    show "\<exists>r'. ?f i r = Inr r' \<and> ?P (Suc i) r'"
    proof (cases "i \<in> E")
      case True
      have S: "{j. i \<le> j \<and> j < k \<and> j \<in> E} = insert i {j. Suc i \<le> j \<and> j < k \<and> j \<in> E}" using True ik by auto
      then have c: "edd = Suc (card {j. Suc i \<le> j \<and> j < k \<and> j \<in> E})" using P r by simp
      obtain st' where "row i u = Inr st'" "R (Suc i) st'" using row [OF i True, of u] P r by auto
      then show ?thesis using c r E [OF ik] True by simp
    next
      case False
      have "{j. i \<le> j \<and> j < k \<and> j \<in> E} = {j. Suc i \<le> j \<and> j < k \<and> j \<in> E}"
        using False by (auto simp: Suc_le_eq le_less)
      then show ?thesis using P r False E [OF ik] skip [of i u] by auto
    qed
  qed (use R in auto)
  then show ?thesis by auto
qed

lemma decode_with_ok:
  assumes es: "valid_erasures k m es" and few: "card (erased_set es) \<le> m" and E: "E = erased_set es"
    and R: "R 0 st" "\<And>i st. i \<notin> E \<Longrightarrow> R i st \<Longrightarrow> R (Suc i) st"
    and prepare: "\<And>erased. (\<And>i. i < k + m \<Longrightarrow> erased ! i \<noteq> 0 \<longleftrightarrow> i \<in> E) \<Longrightarrow> length erased = k + m \<Longrightarrow>
      \<exists>dm. prepare erased = (0, dm, survivors k 0 erased) \<and> good dm (survivors k 0 erased)"
    and row: "\<And>dm ids i st. good dm ids \<Longrightarrow> i < k \<Longrightarrow> i \<in> E \<Longrightarrow> R i st \<Longrightarrow> \<exists>st'. row dm ids i st = Inr st' \<and> R (Suc i) st'"
    and final: "\<And>l st. row_k_ones \<Longrightarrow> k \<notin> E \<Longrightarrow> l < k \<Longrightarrow> l \<in> E \<Longrightarrow> (\<And>j. l < j \<Longrightarrow> j < k \<Longrightarrow> j \<notin> E) \<Longrightarrow> R l st \<Longrightarrow>
      \<exists>st'. final l st = Inr st' \<and> R k st'"
    and ones: "row_k_ones \<Longrightarrow> 0 < m"
    and recode: "\<And>i st. i < m \<Longrightarrow> k + i \<in> E \<Longrightarrow> R (k + i) st \<Longrightarrow> \<exists>st'. recode i st = Inr st' \<and> R (Suc (k + i)) st'"
  shows "\<exists>st'. decode_with k m row_k_ones prepare row final recode (es @ (-1) # rest) st = Inr (0, st') \<and> R (k + m) st'"
proof -
  obtain erased where er: "jerasure_erasures_to_erased k m (es @ (-1) # rest) = Some erased" "length erased = k + m"
      and e01: "\<forall>i < k + m. erased ! i = (if i \<in> E then 1 else 0)"
    using erasures_to_erased_ok [OF es, of rest] few E by (auto split: option.splits)
  have E': "erased ! i \<noteq> 0 \<longleftrightarrow> i \<in> E" if "i < k + m" for i using e01 that by simp
  obtain edd final' where cnt: "count_erased k erased = (edd, final')" by (cases "count_erased k erased")
  have "{j. j < k \<and> erased ! j \<noteq> 0} = {j. j < k \<and> j \<in> E}" using E' by auto
  then have edd: "edd = card {j. j < k \<and> j \<in> E}" using count_erased_ok [of k erased] cnt by simp
  have lst: "if edd = 0 then final' = k else final' < k \<and> final' \<in> E \<and> (\<forall>j < k. j \<in> E \<longrightarrow> j \<le> final')"
    using count_erased_ok [of k erased] cnt E' by (auto split: if_splits)
  define byrow where "byrow \<longleftrightarrow> row_k_ones \<and> erased ! k = 0"
  define l where "l = (if byrow then final' else k)"
  have lk: "l \<le> k" using lst by (auto simp: l_def split: if_splits)
  define need where "need \<longleftrightarrow> edd > 1 \<or> (edd > 0 \<and> \<not> byrow)"
  obtain dm where mk: "prepare erased = (0, dm, survivors k 0 erased)" "good dm (survivors k 0 erased)" using prepare [OF E' er(2)] by blast
  define dm' where "dm' = (if need then dm else [])"
  define ids' where "ids' = (if need then survivors k 0 erased else [])"
  have needed: "good dm' ids'" if "i < l" "i \<in> E" for i
    using decoding_needed [OF edd that lk, of byrow] lst mk(2) by (auto simp: dm'_def ids'_def need_def l_def split: if_splits)
  obtain st1 where st1: "cfor 0 l (\<lambda>i (edd, st). if 0 < edd \<and> erased ! i \<noteq> 0 then run_bind (row dm' ids' i st) (\<lambda>st. Inr (edd - 1, st)) else Inr (edd, st))
      (edd, st) = Inr (card {j. l \<le> j \<and> j < k \<and> j \<in> E}, st1)" "R l st1"
  proof -
    have "\<exists>st'. row dm' ids' i st = Inr st' \<and> R (Suc i) st'" if "i < l" "i \<in> E" "R i st" for i st
      using row [OF needed [OF that(1,2)] _ that(2,3)] that(1) lk by simp
    then have "\<exists>st1. cfor 0 l (\<lambda>i (edd, st). if 0 < edd \<and> erased ! i \<noteq> 0 then run_bind (row dm' ids' i st) (\<lambda>st. Inr (edd - 1, st)) else Inr (edd, st))
        (edd, st) = Inr (card {j. l \<le> j \<and> j < k \<and> j \<in> E}, st1) \<and> R l st1"
      unfolding edd by (intro decode_loop E' lk R) simp_all
    then show ?thesis using that by blast
  qed
  obtain st2 where st2: "(if card {j. l \<le> j \<and> j < k \<and> j \<in> E} > 0 then final l st1 else Inr st1) = Inr st2" "R k st2"
  proof (cases "l = k")
    case True
    then have "{j. l \<le> j \<and> j < k \<and> j \<in> E} = {}" by auto
    then show ?thesis using that [of st1] st1(2) True by (simp only: card.empty) simp
  next
    case False
    then have b: "byrow" "l = final'" "edd \<noteq> 0" using lst by (auto simp: l_def split: if_splits)
    then have l: "l < k" "l \<in> E" "\<And>j. l < j \<Longrightarrow> j < k \<Longrightarrow> j \<notin> E" "row_k_ones" "k \<notin> E"
      using lst ones E' [of k] by (auto simp: byrow_def)
    then have "{j. l \<le> j \<and> j < k \<and> j \<in> E} = {l}" by (auto simp: le_less)
    then show ?thesis using that final [OF l(4,5,1,2,3) st1(2)] by auto
  qed
  obtain st3 where st3: "cfor 0 m (\<lambda>i st. if erased ! (k + i) \<noteq> 0 then recode i st else Inr st) st2 = Inr st3" "R (k + m) st3"
  proof -
    have "\<exists>st3. cfor 0 m (\<lambda>i st. if erased ! (k + i) \<noteq> 0 then recode i st else Inr st) st2 = Inr st3 \<and> R (k + m) st3"
      by (rule cfor_total [where P = "\<lambda>i. R (k + i)"]) (use st2(2) E' recode R(2) in auto)
    then show ?thesis using that by blast
  qed
  have A: "(if \<not> row_k_ones \<or> erased ! k \<noteq> 0 then k else final') = l" by (simp add: l_def byrow_def)
  have B: "(if edd > 1 \<or> (edd > 0 \<and> (\<not> row_k_ones \<or> erased ! k \<noteq> 0)) then prepare erased else (0, [], [])) = (0, dm', ids')"
    by (auto simp: need_def byrow_def mk(1) dm'_def ids'_def)
  have "decode_with k m row_k_ones prepare row final recode (es @ (-1) # rest) st = Inr (0, st3)"
    unfolding decode_with_def er(1) option.case cnt Let_def prod.case A B st1(1) run_bind_simps st2(1) st3(1) by simp
  then show ?thesis using st3(2) by blast
qed



definition decoder :: "nat \<Rightarrow> nat \<Rightarrow> nat \<Rightarrow> cint list \<Rightarrow> nat set \<Rightarrow> cint list \<Rightarrow> nat list \<Rightarrow> bool" where
  "decoder k m w matrix E dm ids \<longleftrightarrow> length dm = k * k \<and> (\<forall>r < k. ids ! r < k + m \<and> ids ! r \<notin> E) \<and>
     gf_left_inverse w k (ent k dm) (\<lambda>i. gen k matrix (ids ! i))"

lemma decode_coding_ok:
  assumes w: "code_width w s" and sz: "8 dvd s * n" and matrix: "coding_matrix k m w matrix" and D: "codeword k m w s n matrix D"
    and i: "i < m" and P: "restored k m (s * n) E D (k + i) u"
  shows "\<exists>st'. jerasure_matrix_dotprod k w (drop (i * k) matrix) None (i + k) (s * n) u = Inr st' \<and> restored k m (s * n) E D (Suc (k + i)) st'"
proof -
  obtain st' where st': "jerasure_matrix_dotprod k w (drop (i * k) matrix) None (k + i) (s * n) u = Inr st'" "coder_ok k m (s * n) st'"
      "\<forall>j < k + m. j \<noteq> k + i \<longrightarrow> dev k st' j = dev k u j"
      "\<forall>p < n. rd s (dev k st' (k + i)) p = xsum (\<lambda>j. gmul w (matrix ! (i * k + j)) (rd s (dev k u j) p)) {..<k}"
    using encode_row_ok [OF w sz refl _ matrix i, of u] P by (auto simp: restored_def)
  have "xsum (\<lambda>j. gmul w (matrix ! (i * k + j)) (rd s (dev k u j) p)) {..<k}
      = xsum (\<lambda>j. gmul w (matrix ! (i * k + j)) (rd s (D j) p)) {..<k}" for p
    by (rule xs.cong) (use P in \<open>auto simp: restored_def\<close>)
  then have "restored k m (s * n) E D (Suc (k + i)) st'"
    using restored_dest(3) [OF w D P _ st'(2,3)] st'(4) i D by (simp add: codeword_def)
  then show ?thesis using st'(1) by (simp add: add.commute)
qed

lemma matrix_decode_ok:
  assumes w: "code_width w s" and sz: "8 dvd s * n" and matrix: "coding_matrix k m w matrix" and D: "codeword k m w s n matrix D"
    and es: "valid_erasures k m es" and ones: "row_k_ones \<Longrightarrow> 0 < m \<and> (\<forall>j < k. matrix ! j = 1)"
    and st: "coder_ok k m (s * n) st" "\<And>i. i < k + m \<Longrightarrow> i \<notin> erased_set es \<Longrightarrow> dev k st i = D i"
    and few: "card (erased_set es) \<le> m"
    and dec: "\<And>ids. length ids = k \<Longrightarrow> distinct ids \<Longrightarrow> set ids \<subseteq> {..<k + m} - erased_set es \<Longrightarrow>
       gf_invertible w k (\<lambda>i. gen k matrix (ids ! i))"
  shows "\<exists>st'. jerasure_matrix_decode k m w matrix row_k_ones (es @ (-1) # rest) (s * n) st = Inr (0, st') \<and>
    coder_ok k m (s * n) st' \<and> (\<forall>i < k + m. dev k st' i = D i)"
proof -
  let ?E = "erased_set es" and ?R = "restored k m (s * n) (erased_set es) D"
  note W = code_width_simps [OF w]
  have sub: "?E \<subseteq> {..<k + m}" using es by (auto simp: valid_erasures_def erased_set_def nat_less_iff)
  have eq: "jerasure_matrix_decode k m w matrix row_k_ones erasures sz = decode_with k m row_k_ones (jerasure_make_decoding_matrix k m w matrix)
      (\<lambda>dm ids i. jerasure_matrix_dotprod k w (drop (i * k) dm) (Some ids) i sz)
      (\<lambda>l. jerasure_matrix_dotprod k w matrix (Some (map (\<lambda>i. if i < l then i else i + 1) [0..<k])) l sz)
      (\<lambda>i. jerasure_matrix_dotprod k w (drop (i * k) matrix) None (i + k) sz) erasures" for erasures sz
  proof -
    have "(w \<noteq> 8 \<and> w \<noteq> 16 \<and> w \<noteq> 32) = False" using W(5) by blast
    moreover have "decode_data k w erased dm ids sz = (\<lambda>i (edd, st). if 0 < edd \<and> erased ! i \<noteq> 0 then
        run_bind (jerasure_matrix_dotprod k w (drop (i * k) dm) (Some ids) i sz st) (\<lambda>st. Inr (edd - 1, st)) else Inr (edd, st))" for erased dm ids
      by (intro ext) (simp add: decode_data_def)
    ultimately show ?thesis by (intro ext) (simp only: jerasure_matrix_decode_def decode_with_def if_False)
  qed
  have "\<exists>st'. jerasure_matrix_decode k m w matrix row_k_ones (es @ (-1) # rest) (s * n) st = Inr (0, st') \<and> ?R (k + m) st'"
    unfolding eq
  proof (rule decode_with_ok [OF es few refl, where R = ?R and good = "decoder k m w matrix ?E"])
    show "?R 0 st" using st by (simp add: restored_def)
    show "?R (Suc i) st" if "i \<notin> ?E" "?R i st" for i st using that by (auto simp: restored_def less_Suc_eq)
    fix erased :: "nat list" assume E: "\<And>i. i < k + m \<Longrightarrow> erased ! i \<noteq> 0 \<longleftrightarrow> i \<in> ?E" "length erased = k + m"
    note S = survivors_erased [OF E(2,1) sub few]
    have ids: "survivors k 0 erased ! r < k + m \<and> survivors k 0 erased ! r \<notin> ?E" if "r < k" for r
      using subsetD [OF S(3) nth_mem, of r] S(1) that by simp
    show "\<exists>dm. jerasure_make_decoding_matrix k m w matrix erased = (0, dm, survivors k 0 erased) \<and> decoder k m w matrix ?E dm (survivors k 0 erased)"
      using make_decoding_matrix_ok [OF W(1) matrix, of erased] dec [OF S] ids by (auto simp: decoder_def split: prod.splits)
  next
    fix dm ids i st assume "decoder k m w matrix ?E dm ids" "i < k" "i \<in> ?E" "?R i st"
    then show "\<exists>st'. jerasure_matrix_dotprod k w (drop (i * k) dm) (Some ids) i (s * n) st = Inr st' \<and> ?R (Suc i) st'"
      by (intro decode_row_ok [OF w sz matrix D]) (auto simp: decoder_def)
  next
    fix l st assume "row_k_ones" "k \<notin> ?E" "l < k" "\<And>j. l < j \<Longrightarrow> j < k \<Longrightarrow> j \<notin> ?E" "?R l st"
    then show "\<exists>st'. jerasure_matrix_dotprod k w matrix (Some (map (\<lambda>i. if i < l then i else i + 1) [0..<k])) l (s * n) st = Inr st' \<and> ?R k st'"
      using ones by (intro decode_last_ok [OF w sz matrix D]) auto
  next
    fix i st assume "i < m" "k + i \<in> ?E" "?R (k + i) st"
    then show "\<exists>st'. jerasure_matrix_dotprod k w (drop (i * k) matrix) None (i + k) (s * n) st = Inr st' \<and> ?R (Suc (k + i)) st'"
      by (intro decode_coding_ok [OF w sz matrix D])
  qed (use ones in simp)
  then show ?thesis by (auto simp: restored_def)
qed

end
