(* ===== verification/Jerasure_Schedule.thy ===== *)
theory Jerasure_Schedule
  imports Codec_Correct
begin

unbundle bit_operations_syntax

text \<open>
  Scheduled coding of \<^verbatim>\<open>jerasure.c\<close>: the schedules of packet copies and sums that a bit matrix is turned
  into, their execution on the buffers of the devices, and the schedules that decode a set of erasures,
  made on demand or looked up in a cache.  The memory that the source takes and frees for schedules and
  temporary arrays is not modelled.
\<close>

section \<open>Schedules\<close>

text \<open>
  One operation of a schedule, the five \<^verbatim>\<open>int\<close>s of the source in their order: source device and
  packet, destination device and packet, and whether the packet is added or copied.  A schedule is the
  list of its operations; the array of the source ends with a mark whose first entry is -1.
\<close>

datatype operation = Op (op_src: nat) (op_src_packet: nat) (op_dest: nat) (op_dest_packet: nat) (op_xor: bool)

text \<open>A \<^verbatim>\<open>char *\<close> into the buffer of a device: the device and the offset.\<close>

type_synonym ptr = "nat \<times> nat"

definition do_operation :: "nat \<Rightarrow> ptr list \<Rightarrow> nat \<Rightarrow> operation \<Rightarrow> coder \<Rightarrow> fault + coder" where
  "do_operation k ptrs packetsize oper st =
     (if op_src oper < length ptrs \<and> op_dest oper < length ptrs then
        let (sid, soff) = ptrs ! op_src oper;
            (did, doff) = ptrs ! op_dest oper
        in run_bind (buf k st sid) (\<lambda>sbuf.
           run_bind (buf k st did) (\<lambda>dbuf.
             let sptr = drop (soff + op_src_packet oper * packetsize) sbuf;
                 off = doff + op_dest_packet oper * packetsize
             in if op_xor oper then
                  run_bind (at_offset off (\<lambda>dptr. galois_region_xor sptr dptr dptr packetsize) dbuf) (\<lambda>d.
                    Inr (set_buf k did d
                      (st\<lparr>jerasure_total_xor_bytes := jerasure_total_xor_bytes st + packetsize\<rparr>)))
                else
                  run_bind (at_offset off (\<lambda>dptr. memcpy dptr sptr packetsize) dbuf) (\<lambda>d.
                    Inr (set_buf k did d
                      (st\<lparr>jerasure_total_memcpy_bytes := jerasure_total_memcpy_bytes st + packetsize\<rparr>)))))
      else Inl Undefined)"

fun jerasure_do_scheduled_operations :: "nat \<Rightarrow> ptr list \<Rightarrow> operation list \<Rightarrow> nat \<Rightarrow> coder \<Rightarrow> fault + coder" where
  "jerasure_do_scheduled_operations k ptrs [] packetsize st = Inr st"
| "jerasure_do_scheduled_operations k ptrs (oper # operations) packetsize st =
     run_bind (do_operation k ptrs packetsize oper st)
       (jerasure_do_scheduled_operations k ptrs operations packetsize)"

text \<open>
  \<^verbatim>\<open>for (tdone = 0; tdone < size; tdone += packetsize*w)\<close>: one round per stripe of \<^verbatim>\<open>packetsize*w\<close>
  bytes, the pointers moved on after each.
\<close>

definition move_ptrs :: "nat \<Rightarrow> ptr list \<Rightarrow> ptr list" where
  "move_ptrs n ptrs = map (\<lambda>(id, off). (id, off + n)) ptrs"

definition run_stripes :: "nat \<Rightarrow> nat \<Rightarrow> ptr list \<Rightarrow> operation list \<Rightarrow> nat \<Rightarrow> nat \<Rightarrow> coder \<Rightarrow> fault + coder" where
  "run_stripes k w ptrs schedule sz packetsize st =
     (if sz = 0 then Inr st
      else if packetsize * w = 0 then Inl Hang
      else run_bind
        (cfor 0 ((sz + packetsize * w - 1) div (packetsize * w)) (\<lambda>t (ptrs, st).
           run_bind (jerasure_do_scheduled_operations k ptrs schedule packetsize st)
             (\<lambda>st. Inr (move_ptrs (packetsize * w) ptrs, st)))
          (ptrs, st))
        (\<lambda>(ptrs, st). Inr st))"

definition jerasure_schedule_encode ::
  "nat \<Rightarrow> nat \<Rightarrow> nat \<Rightarrow> operation list \<Rightarrow> nat \<Rightarrow> nat \<Rightarrow> coder \<Rightarrow> fault + coder" where
  "jerasure_schedule_encode k m w schedule sz packetsize st =
     run_stripes k w (map (\<lambda>i. (i, 0)) [0..<k] @ map (\<lambda>i. (i + k, 0)) [0..<m]) schedule sz packetsize st"

section \<open>Schedules of a bit matrix\<close>

definition jerasure_dumb_bitmatrix_to_schedule :: "nat \<Rightarrow> nat \<Rightarrow> nat \<Rightarrow> cint list \<Rightarrow> operation list" where
  "jerasure_dumb_bitmatrix_to_schedule k m w bitmatrix =
     fst (fold (\<lambda>i (operations, index).
       case fold (\<lambda>j (operations, optodo, index).
              if bitmatrix ! index \<noteq> 0
              then (operations @ [Op (j div w) (j mod w) (k + i div w) (i mod w) optodo], True, index + 1)
              else (operations, optodo, index + 1))
            [0..<k * w] (operations, False, index)
       of (operations, optodo, index) \<Rightarrow> (operations, index))
       [0..<m * w] ([], 0))"

text \<open>
  The scheduler that may start a row from one it has done before.  The rows left are a doubly linked
  list in \<^verbatim>\<open>flink\<close> and \<^verbatim>\<open>blink\<close>, -1 its end; \<^verbatim>\<open>from\<close> is the row to start from, or -1.
\<close>

record smart =
  operations :: "operation list"
  diff :: "int list"
  from_row :: "int list"
  flink :: "int list"
  blink :: "int list"
  top :: int
  bestdiff :: int
  bestrow :: nat

text \<open>The sum of the entries of a row, and of its difference to another.\<close>

definition row_ones :: "nat \<Rightarrow> cint list \<Rightarrow> nat \<Rightarrow> int" where
  "row_ones c bitmatrix row = fold (\<lambda>j no. no + sint (bitmatrix ! (row * c + j))) [0..<c] 0"

definition row_diff :: "nat \<Rightarrow> cint list \<Rightarrow> nat \<Rightarrow> nat \<Rightarrow> int" where
  "row_diff c bitmatrix row i =
     fold (\<lambda>j no. no + sint (bitmatrix ! (row * c + j) XOR bitmatrix ! (i * c + j))) [0..<c] 1"

definition smart_start :: "nat \<Rightarrow> nat \<Rightarrow> nat \<Rightarrow> cint list \<Rightarrow> smart" where
  "smart_start k m w bitmatrix =
     (let s = fold (\<lambda>i s.
           let no = row_ones (k * w) bitmatrix i;
               s = s\<lparr>diff := (diff s)[i := no], from_row := (from_row s)[i := -1],
                     flink := (flink s)[i := int i + 1], blink := (blink s)[i := int i - 1]\<rparr>
           in if no < bestdiff s then s\<lparr>bestdiff := no, bestrow := i\<rparr> else s)
         [0..<m * w]
         \<lparr>operations = [], diff = replicate (m * w) 0, from_row = replicate (m * w) 0,
          flink = replicate (m * w) 0, blink = replicate (m * w) 0, top = 0,
          bestdiff = int (k * w) + 1, bestrow = 0\<rparr>
      in s\<lparr>flink := (flink s)[m * w - 1 := -1]\<rparr>)"

definition smart_unlink :: "nat \<Rightarrow> smart \<Rightarrow> smart" where
  "smart_unlink row s =
     (if blink s ! row = -1 then
        let s = s\<lparr>top := flink s ! row\<rparr>
        in if top s \<noteq> -1 then s\<lparr>blink := (blink s)[nat (top s) := -1]\<rparr> else s
      else
        let s = s\<lparr>flink := (flink s)[nat (blink s ! row) := flink s ! row]\<rparr>
        in if flink s ! row \<noteq> -1
           then s\<lparr>blink := (blink s)[nat (flink s ! row) := blink s ! row]\<rparr> else s)"

definition smart_emit :: "nat \<Rightarrow> nat \<Rightarrow> cint list \<Rightarrow> nat \<Rightarrow> smart \<Rightarrow> smart" where
  "smart_emit k w bitmatrix row s =
     (let c = k * w
      in if from_row s ! row = -1 then
           s\<lparr>operations := fst (fold (\<lambda>j (ops, optodo).
               if bitmatrix ! (row * c + j) \<noteq> 0
               then (ops @ [Op (j div w) (j mod w) (k + row div w) (row mod w) optodo], True)
               else (ops, optodo)) [0..<c] (operations s, False))\<rparr>
         else
           let fr = nat (from_row s ! row);
               ops = operations s @ [Op (k + fr div w) (fr mod w) (k + row div w) (row mod w) False]
           in s\<lparr>operations := fold (\<lambda>j ops.
               if bitmatrix ! (row * c + j) XOR bitmatrix ! (fr * c + j) \<noteq> 0
               then ops @ [Op (j div w) (j mod w) (k + row div w) (row mod w) True]
               else ops) [0..<c] ops\<rparr>)"

definition smart_visit :: "nat \<Rightarrow> cint list \<Rightarrow> nat \<Rightarrow> nat \<Rightarrow> smart \<Rightarrow> smart" where
  "smart_visit c bitmatrix row i s =
     (let no = row_diff c bitmatrix row i;
          s = (if no < diff s ! i
               then s\<lparr>from_row := (from_row s)[i := int row], diff := (diff s)[i := no]\<rparr> else s)
      in if diff s ! i < bestdiff s then s\<lparr>bestdiff := diff s ! i, bestrow := i\<rparr> else s)"

text \<open>
  \<^verbatim>\<open>for (i = top; i != -1; i = flink[i])\<close> and \<^verbatim>\<open>while (top != -1)\<close>, with the number of rounds bounded
  by \<open>fuel\<close>; \<open>None\<close> when it is used up.
\<close>

fun smart_scan :: "nat \<Rightarrow> nat \<Rightarrow> cint list \<Rightarrow> nat \<Rightarrow> int \<Rightarrow> smart \<Rightarrow> smart option" where
  "smart_scan 0 c bitmatrix row i s = (if i = -1 then Some s else None)"
| "smart_scan (Suc fuel) c bitmatrix row i s =
     (if i = -1 then Some s
      else smart_scan fuel c bitmatrix row (flink s ! nat i) (smart_visit c bitmatrix row (nat i) s))"

fun smart_rows :: "nat \<Rightarrow> nat \<Rightarrow> nat \<Rightarrow> nat \<Rightarrow> cint list \<Rightarrow> smart \<Rightarrow> smart option" where
  "smart_rows 0 k m w bitmatrix s = (if top s = -1 then Some s else None)"
| "smart_rows (Suc fuel) k m w bitmatrix s =
     (if top s = -1 then Some s
      else
        let row = bestrow s;
            s = smart_emit k w bitmatrix row (smart_unlink row s);
            s = s\<lparr>bestdiff := int (k * w) + 1\<rparr>
        in case smart_scan (m * w) (k * w) bitmatrix row (top s) s of
             None \<Rightarrow> None
           | Some s \<Rightarrow> smart_rows fuel k m w bitmatrix s)"

definition jerasure_smart_bitmatrix_to_schedule ::
  "nat \<Rightarrow> nat \<Rightarrow> nat \<Rightarrow> cint list \<Rightarrow> fault + operation list" where
  "jerasure_smart_bitmatrix_to_schedule k m w bitmatrix =
     (if m * w = 0 then Inl Undefined
      else case smart_rows (m * w) k m w bitmatrix (smart_start k m w bitmatrix) of
        None \<Rightarrow> Inl Hang
      | Some s \<Rightarrow> Inr (operations s))"

section \<open>Schedules for decoding\<close>

text \<open>The numbers of erased data and coding devices, up to the end mark of the list.\<close>

fun count_failed :: "nat \<Rightarrow> int list \<Rightarrow> nat \<times> nat \<Rightarrow> nat \<times> nat" where
  "count_failed k [] (ddf, cdf) = (ddf, cdf)"
| "count_failed k (e # erasures) (ddf, cdf) =
     (if e = -1 then (ddf, cdf)
      else if e < int k then count_failed k erasures (ddf + 1, cdf)
      else count_failed k erasures (ddf, cdf + 1))"

text \<open>
  \<^verbatim>\<open>data_ptrs[i]\<close> is the buffer of device \<open>i\<close> and \<^verbatim>\<open>coding_ptrs[j-k]\<close> that of device \<open>j\<close>.  The scan
  \<^verbatim>\<open>while (erased[j]) j++\<close> ends at a device that is left, since at least \<open>k\<close> are.
\<close>

definition set_up_ptrs_for_scheduled_decoding :: "nat \<Rightarrow> nat \<Rightarrow> int list \<Rightarrow> ptr list option" where
  "set_up_ptrs_for_scheduled_decoding k m erasures =
     (case jerasure_erasures_to_erased k m erasures of
        None \<Rightarrow> None
      | Some erased \<Rightarrow>
          case fold (\<lambda>i (ptrs, j, x).
                 if erased ! i = 0 then (ptrs[i := (i, 0)], j, x)
                 else let j = scan_from (\<lambda>j. erased ! j = 0) j (k + m)
                      in (ptrs[i := (j, 0), x := (i, 0)], j + 1, x + 1))
               [0..<k] (replicate (k + m) (0, 0), k, k)
          of (ptrs, j, x) \<Rightarrow>
            Some (fst (fold (\<lambda>i (ptrs, x).
              if erased ! i \<noteq> 0 then (ptrs[x := (i, 0)], x + 1) else (ptrs, x)) [k..<k + m] (ptrs, x))))"

definition set_up_ids_for_scheduled_decoding :: "nat \<Rightarrow> nat \<Rightarrow> int list \<Rightarrow> (nat list \<times> nat list) option" where
  "set_up_ids_for_scheduled_decoding k m erasures =
     (case jerasure_erasures_to_erased k m erasures of
        None \<Rightarrow> None
      | Some erased \<Rightarrow>
          case fold (\<lambda>i (row_ids, ind_to_row, j, x).
                 if erased ! i = 0 then (row_ids[i := i], ind_to_row[i := i], j, x)
                 else let j = scan_from (\<lambda>j. erased ! j = 0) j (k + m)
                      in (row_ids[i := j, x := i], ind_to_row[j := i, i := x], j + 1, x + 1))
               [0..<k] (replicate (k + m) 0, replicate (k + m) 0, k, k)
          of (row_ids, ind_to_row, j, x) \<Rightarrow>
            case fold (\<lambda>i (row_ids, ind_to_row, x).
                   if erased ! i \<noteq> 0 then (row_ids[x := i], ind_to_row[i := x], x + 1)
                   else (row_ids, ind_to_row, x)) [k..<k + m] (row_ids, ind_to_row, x)
            of (row_ids, ind_to_row, x) \<Rightarrow> Some (row_ids, ind_to_row))"

text \<open>\<^verbatim>\<open>memcpy\<close> and \<^verbatim>\<open>bzero\<close> on \<open>n\<close> entries of an \<^verbatim>\<open>int\<close> array.\<close>

definition copy_ints :: "cint list \<Rightarrow> nat \<Rightarrow> cint list \<Rightarrow> nat \<Rightarrow> nat \<Rightarrow> cint list" where
  "copy_ints dst doff src soff n = fold (\<lambda>j dst. dst[doff + j := src ! (soff + j)]) [0..<n] dst"

definition zero_ints :: "cint list \<Rightarrow> nat \<Rightarrow> nat \<Rightarrow> cint list" where
  "zero_ints dst off n = fold (\<lambda>j dst. dst[off + j := 0]) [0..<n] dst"

text \<open>The square matrix of the devices that stand in for the data devices.\<close>

definition survivor_bitmatrix :: "nat \<Rightarrow> nat \<Rightarrow> cint list \<Rightarrow> nat list \<Rightarrow> cint list" where
  "survivor_bitmatrix k w bitmatrix row_ids =
     fold (\<lambda>i dm.
       let ptr = i * (k * w * w)
       in if row_ids ! i = i then
            fold (\<lambda>x dm. dm[ptr + (x + i * w + x * k * w) := 1]) [0..<w] (zero_ints dm ptr (k * w * w))
          else copy_ints dm ptr bitmatrix (k * w * w * (row_ids ! i - k)) (k * w * w))
       [0..<k] (replicate (k * k * w * w) 0)"

definition decode_data_rows :: "nat \<Rightarrow> nat \<Rightarrow> cint list \<Rightarrow> nat list \<Rightarrow> nat \<Rightarrow> cint list \<Rightarrow> cint list" where
  "decode_data_rows k w bitmatrix row_ids ddf real =
     (if ddf > 0 then
        case jerasure_invert_bitmatrix (survivor_bitmatrix k w bitmatrix row_ids) (replicate (k * k * w * w) 0) (k * w)
        of (rc, dm, invmat) \<Rightarrow>
          fold (\<lambda>i real. copy_ints real (i * (k * w * w)) invmat (k * w * w * row_ids ! (k + i)) (k * w * w))
            [0..<ddf] real
      else real)"

text \<open>The rows of an erased coding device, with the columns of erased data devices replaced.\<close>

definition decode_coding_row ::
  "nat \<Rightarrow> nat \<Rightarrow> cint list \<Rightarrow> nat list \<Rightarrow> nat list \<Rightarrow> nat \<Rightarrow> nat \<Rightarrow> cint list \<Rightarrow> cint list" where
  "decode_coding_row k w bitmatrix row_ids ind_to_row ddf x real =
     (let drive = row_ids ! (x + ddf + k) - k;
          ptr = k * w * w * (ddf + x);
          real = copy_ints real ptr bitmatrix (drive * k * w * w) (k * w * w);
          real = fold (\<lambda>i real.
            if row_ids ! i \<noteq> i then fold (\<lambda>j real. zero_ints real (ptr + j * k * w + i * w) w) [0..<w] real
            else real) [0..<k] real;
          index = drive * k * w * w
      in fold (\<lambda>i real.
           if row_ids ! i \<noteq> i then
             let b1 = (ind_to_row ! i - k) * k * w * w
             in fold (\<lambda>j real.
                  let b2 = ptr + j * k * w
                  in fold (\<lambda>y real.
                       if bitmatrix ! (index + j * k * w + i * w + y) \<noteq> 0 then
                         fold (\<lambda>z real. real[b2 + z := real ! (b2 + z) XOR real ! (b1 + (z + y * k * w))])
                           [0..<k * w] real
                       else real) [0..<w] real) [0..<w] real
           else real) [0..<k] real)"

definition jerasure_generate_decoding_schedule ::
  "nat \<Rightarrow> nat \<Rightarrow> nat \<Rightarrow> cint list \<Rightarrow> int list \<Rightarrow> bool \<Rightarrow> fault + operation list option" where
  "jerasure_generate_decoding_schedule k m w bitmatrix erasures smart =
     (case count_failed k erasures (0, 0) of (ddf, cdf) \<Rightarrow>
      case set_up_ids_for_scheduled_decoding k m erasures of
        None \<Rightarrow> Inr None
      | Some (row_ids, ind_to_row) \<Rightarrow>
          let real = decode_data_rows k w bitmatrix row_ids ddf (replicate (k * w * (cdf + ddf) * w) 0);
              real = fold (decode_coding_row k w bitmatrix row_ids ind_to_row ddf) [0..<cdf] real
          in if smart then
               run_bind (jerasure_smart_bitmatrix_to_schedule k (ddf + cdf) w real) (\<lambda>s. Inr (Some s))
             else Inr (Some (jerasure_dumb_bitmatrix_to_schedule k (ddf + cdf) w real)))"

definition jerasure_schedule_decode_lazy ::
  "nat \<Rightarrow> nat \<Rightarrow> nat \<Rightarrow> cint list \<Rightarrow> int list \<Rightarrow> nat \<Rightarrow> nat \<Rightarrow> bool \<Rightarrow> coder \<Rightarrow> fault + (int \<times> coder)" where
  "jerasure_schedule_decode_lazy k m w bitmatrix erasures sz packetsize smart st =
     (case set_up_ptrs_for_scheduled_decoding k m erasures of
        None \<Rightarrow> Inr (-1, st)
      | Some ptrs \<Rightarrow>
          run_bind (jerasure_generate_decoding_schedule k m w bitmatrix erasures smart) (\<lambda>schedule.
            case schedule of
              None \<Rightarrow> Inr (-1, st)
            | Some schedule \<Rightarrow>
                run_bind (run_stripes k w ptrs schedule sz packetsize st) (\<lambda>st. Inr (0, st))))"

text \<open>
  The cache of all schedules for two coding devices.  \<open>None\<close> as an entry is a null pointer or an entry
  that was never set; an index outside the array is undefined, as is a list of no erasures.
\<close>

definition jerasure_schedule_decode_cache ::
  "nat \<Rightarrow> nat \<Rightarrow> nat \<Rightarrow> operation list option list \<Rightarrow> int list \<Rightarrow> nat \<Rightarrow> nat \<Rightarrow> coder \<Rightarrow> fault + (int \<times> coder)" where
  "jerasure_schedule_decode_cache k m w scache erasures sz packetsize st =
     (if length erasures < 2 then Inl Undefined
      else if erasures ! 1 \<noteq> -1 \<and> length erasures < 3 then Inl Undefined
      else if erasures ! 1 \<noteq> -1 \<and> erasures ! 2 \<noteq> -1 then Inr (-1, st)
      else
        let index = (if erasures ! 1 = -1 then erasures ! 0 * int (k + m) + erasures ! 0
                     else erasures ! 0 * int (k + m) + erasures ! 1)
        in if index < 0 \<or> int (length scache) \<le> index then Inl Undefined
           else case set_up_ptrs_for_scheduled_decoding k m erasures of
                  None \<Rightarrow> Inr (-1, st)
                | Some ptrs \<Rightarrow>
                    case scache ! nat index of
                      None \<Rightarrow> if sz = 0 then Inr (0, st) else Inl Undefined
                    | Some schedule \<Rightarrow> run_bind (run_stripes k w ptrs schedule sz packetsize st) (\<lambda>st. Inr (0, st)))"

definition jerasure_generate_schedule_cache ::
  "nat \<Rightarrow> nat \<Rightarrow> nat \<Rightarrow> cint list \<Rightarrow> bool \<Rightarrow> fault + operation list option list option" where
  "jerasure_generate_schedule_cache k m w bitmatrix smart =
     (if m \<noteq> 2 then Inr None
      else run_bind
        (cfor 0 (k + m) (\<lambda>e1 scache.
           run_bind
             (cfor 0 e1 (\<lambda>e2 scache.
                run_bind (jerasure_generate_decoding_schedule k m w bitmatrix [int e1, int e2, -1] smart) (\<lambda>s.
                  Inr (scache[e1 * (k + m) + e2 := s, e2 * (k + m) + e1 := s]))) scache) (\<lambda>scache.
           run_bind (jerasure_generate_decoding_schedule k m w bitmatrix [int e1, -1] smart) (\<lambda>s.
             Inr (scache[e1 * (k + m) + e1 := s]))))
          (replicate ((k + m) * (k + m + 1)) None))
        (\<lambda>scache. Inr (Some scache)))"

end
