(* ===== verification/Schedule_Correct.thy ===== *)
theory Schedule_Correct
  imports Jerasure_Schedule
begin

unbundle bit_operations_syntax

text \<open>
  Both schedulers of \<^verbatim>\<open>jerasure.c\<close> are correct: the operations leave in every coding packet the
  combination that its row of the bit matrix asks for.  The smart scheduler always ends, keeps its
  doubly linked list of rows sound, and never emits more operations than the plain one.
\<close>

section \<open>Schedules on abstract packets\<close>

text \<open>
  A packet is one value; an operation copies or adds it.  The buffers of the devices refine this at
  every byte of a packet.
\<close>

type_synonym 'w packets = "nat \<Rightarrow> nat \<Rightarrow> 'w word"

definition packet_step :: "operation \<Rightarrow> 'w::len packets \<Rightarrow> 'w packets" where
  "packet_step oper f =
     (let v = f (op_src oper) (op_src_packet oper); d = op_dest oper; p = op_dest_packet oper
      in f(d := (f d)(p := (if op_xor oper then f d p XOR v else v))))"

definition packet_run :: "operation list \<Rightarrow> 'w::len packets \<Rightarrow> 'w packets" where
  "packet_run ops f = fold packet_step ops f"

lemma packet_run_snoc [simp]: "packet_run (ops @ [oper]) f = packet_step oper (packet_run ops f)"
  by (simp add: packet_run_def)

lemma packet_run_Nil [simp]: "packet_run [] f = f"
  by (simp add: packet_run_def)

text \<open>The combination of data packets that a row of the bit matrix asks for.\<close>

definition row_sum :: "nat \<Rightarrow> nat \<Rightarrow> (nat \<Rightarrow> bool) \<Rightarrow> 'w::len packets \<Rightarrow> 'w word" where
  "row_sum w c P f = xsum (\<lambda>j. if P j then f (j div w) (j mod w) else 0) {..<c}"

definition set_packet :: "nat \<Rightarrow> nat \<Rightarrow> 'w::len word \<Rightarrow> 'w packets \<Rightarrow> 'w packets" where
  "set_packet d p v f = f(d := (f d)(p := v))"

lemma set_packet_simps [simp]:
  "set_packet d p v f d p = v" "d' \<noteq> d \<Longrightarrow> set_packet d p v f d' = f d'"
  "set_packet d p v (set_packet d p u f) = set_packet d p v f" "set_packet d p (f d p) f = f"
  by (auto simp: set_packet_def)

lemma packet_step_set: "packet_step (Op s sp d dp x) f = set_packet d dp ((if x then f d dp else 0) XOR f s sp) f"
  by (simp add: packet_step_def set_packet_def Let_def)

lemma row_sum_set [simp]: "c \<le> k * w \<Longrightarrow> k \<le> d \<Longrightarrow> row_sum w c P (set_packet d p v f) = row_sum w c P f"
proof -
  assume "c \<le> k * w" "k \<le> d"
  then have "j div w \<noteq> d" if "j < c" for j using that less_mult_imp_div_less [of j k w] by linarith
  then show ?thesis unfolding row_sum_def by (intro xs.cong) auto
qed

text \<open>The loop that emits the operations of one row, adding to what is there when \<open>optodo\<close> is set.\<close>

lemma emit_row:
  assumes "fold (\<lambda>j (ops, optodo). if P j then (ops @ [Op (j div w) (j mod w) d dp optodo], True) else (ops, optodo))
      [0..<c] (ops, optodo) = (ops', optodo')" "c \<le> k * w" "k \<le> d"
  shows "optodo' \<longleftrightarrow> optodo \<or> (\<exists>j < c. P j)"
    "packet_run ops' f = (if \<exists>j < c. P j
       then set_packet d dp ((if optodo then packet_run ops f d dp else 0) XOR row_sum w c P (packet_run ops f)) (packet_run ops f)
       else packet_run ops f)"
    "length ops' = length ops + card {j. j < c \<and> P j}"
    "\<forall>oper \<in> set ops'. oper \<in> set ops \<or> op_src oper < k \<and> op_src_packet oper < w \<and> op_dest oper = d \<and> op_dest_packet oper = dp"
proof -
  let ?g = "packet_run ops f"
  let ?I = "\<lambda>b (ops', optodo'). (optodo' \<longleftrightarrow> optodo \<or> (\<exists>j < b. P j)) \<and>
    packet_run ops' f = (if \<exists>j < b. P j then set_packet d dp ((if optodo then ?g d dp else 0) XOR row_sum w b P ?g) ?g else ?g) \<and>
    length ops' = length ops + card {j. j < b \<and> P j} \<and>
    (\<forall>oper \<in> set ops'. oper \<in> set ops \<or> op_src oper < k \<and> op_src_packet oper < w \<and> op_dest oper = d \<and> op_dest_packet oper = dp)"
  have "?I c (fold (\<lambda>j (ops, optodo). if P j then (ops @ [Op (j div w) (j mod w) d dp optodo], True) else (ops, optodo))
      [0..<c] (ops, optodo))"
  proof (rule fold_upt_inv0 [where P = ?I])
    fix b s assume b: "b < c" and I: "?I b s"
    obtain o1 t1 where s: "s = (o1, t1)" by (cases s)
    have src: "b div w < k" using b assms(2) less_mult_imp_div_less [of b k w] by linarith
    have z: "row_sum w b P ?g = 0" if "\<not> (\<exists>j < b. P j)" using that unfolding row_sum_def by (intro xs.neutral) auto
    show "?I (Suc b) (case s of (ops, optodo) \<Rightarrow> if P b then (ops @ [Op (b div w) (b mod w) d dp optodo], True) else (ops, optodo))"
    proof (cases "P b")
      case True
      have S: "{j. j < Suc b \<and> P j} = insert b {j. j < b \<and> P j}" using True by (auto simp: less_Suc_eq)
      have run: "packet_run (o1 @ [Op (b div w) (b mod w) d dp t1]) f
          = set_packet d dp ((if optodo then ?g d dp else 0) XOR row_sum w (Suc b) P ?g) ?g"
        using I s True src assms(3) z by (auto simp: packet_step_set row_sum_def lessThan_Suc xor.commute xor.left_commute)
      have "b mod w < w" using b assms(2) by (cases w) auto
      then show ?thesis using I s True run src by (auto simp: S)
    next
      case False
      have S: "{j. j < Suc b \<and> P j} = {j. j < b \<and> P j}" "(\<exists>j < Suc b. P j) \<longleftrightarrow> (\<exists>j < b. P j)"
        "row_sum w (Suc b) P ?g = row_sum w b P ?g" using False by (auto simp: less_Suc_eq row_sum_def)
      show ?thesis using I s False unfolding S by simp
    qed
  qed auto
  then show "optodo' \<longleftrightarrow> optodo \<or> (\<exists>j < c. P j)"
    "packet_run ops' f = (if \<exists>j < c. P j
       then set_packet d dp ((if optodo then packet_run ops f d dp else 0) XOR row_sum w c P (packet_run ops f)) (packet_run ops f)
       else packet_run ops f)"
    "length ops' = length ops + card {j. j < c \<and> P j}"
    "\<forall>oper \<in> set ops'. oper \<in> set ops \<or> op_src oper < k \<and> op_src_packet oper < w \<and> op_dest oper = d \<and> op_dest_packet oper = dp"
    using assms(1) by auto
qed

section \<open>What a schedule has to do\<close>

definition row_bit :: "nat \<Rightarrow> cint list \<Rightarrow> nat \<Rightarrow> nat \<Rightarrow> bool" where
  "row_bit c bitmatrix row j \<longleftrightarrow> bitmatrix ! (row * c + j) \<noteq> 0"

text \<open>The packets of the rows in \<open>Done\<close> hold their combination, all others what they held.\<close>

definition filled :: "nat \<Rightarrow> nat \<Rightarrow> cint list \<Rightarrow> nat set \<Rightarrow> 'w::len packets \<Rightarrow> 'w packets" where
  "filled k w bitmatrix Done f = (\<lambda>d p. if k \<le> d \<and> p < w \<and> (d - k) * w + p \<in> Done
     then row_sum w (k * w) (row_bit (k * w) bitmatrix ((d - k) * w + p)) f else f d p)"

definition op_valid :: "nat \<Rightarrow> nat \<Rightarrow> nat \<Rightarrow> operation \<Rightarrow> bool" where
  "op_valid k m w oper \<longleftrightarrow> op_src oper < k + m \<and> op_src_packet oper < w \<and> op_dest oper < k + m \<and> op_dest_packet oper < w \<and>
     (op_src oper, op_src_packet oper) \<noteq> (op_dest oper, op_dest_packet oper)"

definition schedules :: "nat \<Rightarrow> nat \<Rightarrow> nat \<Rightarrow> cint list \<Rightarrow> operation list \<Rightarrow> bool" where
  "schedules k m w bitmatrix ops \<longleftrightarrow> (\<forall>oper \<in> set ops. op_valid k m w oper) \<and>
     (\<forall>f :: 8 packets. packet_run ops f = filled k w bitmatrix {..<m * w} f)"

definition rows_nonzero :: "nat \<Rightarrow> nat \<Rightarrow> cint list \<Rightarrow> bool" where
  "rows_nonzero rows c bitmatrix \<longleftrightarrow> (\<forall>i < rows. \<exists>j < c. row_bit c bitmatrix i j)"

lemma filled_empty [simp]: "filled k w bitmatrix {} f = f"
  by (simp add: filled_def)

lemma row_sum_filled [simp]: "row_sum w (k * w) P (filled k w bitmatrix Done f) = row_sum w (k * w) P f"
proof -
  have "\<not> k \<le> j div w" if "j < k * w" for j using that less_mult_imp_div_less [of j k w] by linarith
  then show ?thesis unfolding row_sum_def by (intro xs.cong) (auto simp: filled_def)
qed

lemma filled_at: "p < w \<Longrightarrow> row = i * w + p \<Longrightarrow> row \<in> Done \<Longrightarrow>
   filled k w bitmatrix Done f (k + i) p = row_sum w (k * w) (row_bit (k * w) bitmatrix row) f"
  by (simp add: filled_def)

lemma filled_insert:
  assumes "0 < w"
  shows "set_packet (k + row div w) (row mod w) (row_sum w (k * w) (row_bit (k * w) bitmatrix row) f) (filled k w bitmatrix Done f)
    = filled k w bitmatrix (insert row Done) f"
proof (intro ext)
  fix d p
  show "set_packet (k + row div w) (row mod w) (row_sum w (k * w) (row_bit (k * w) bitmatrix row) f) (filled k w bitmatrix Done f) d p
      = filled k w bitmatrix (insert row Done) f d p"
  proof (cases "k \<le> d \<and> p < w \<and> (d - k) * w + p = row")
    case True
    then have "row div w = d - k" "row mod w = p" by auto
    then show ?thesis using True by (auto simp: set_packet_def filled_def)
  next
    case False
    then have "\<not> (d = k + row div w \<and> p = row mod w)" using assms by (auto simp: mult.commute)
    then show ?thesis using False by (auto simp: set_packet_def filled_def)
  qed
qed

lemma row_dest: "row < m * w \<Longrightarrow> k + row div w < k + m \<and> row mod w < (w::nat)"
  using less_mult_imp_div_less [of row m w] by (cases w) auto

section \<open>The plain schedule\<close>

lemma fold_index:
  "fold (\<lambda>j (ops, optodo, index). if P index then (ops @ [g j optodo], True, index + 1) else (ops, optodo, index + 1))
     [0..<c] (ops, optodo, index) =
   (case fold (\<lambda>j (ops, optodo). if P (index + j) then (ops @ [g j optodo], True) else (ops, optodo)) [0..<c] (ops, optodo) of
      (ops, optodo) \<Rightarrow> (ops, optodo, index + c))"
  by (induction c) (auto split: prod.splits)

lemma fresh_row:
  assumes "fold (\<lambda>j (ops, optodo). if row_bit (k * w) bitmatrix row j
        then (ops @ [Op (j div w) (j mod w) (k + row div w) (row mod w) optodo], True) else (ops, optodo))
      [0..<k * w] (ops, False) = (ops', optodo')"
    and row: "row < m * w" "\<exists>j < k * w. row_bit (k * w) bitmatrix row j"
    and ops: "\<forall>oper \<in> set ops. op_valid k m w oper" "packet_run ops f = filled k w bitmatrix Done f"
  shows "\<forall>oper \<in> set ops'. op_valid k m w oper" "packet_run ops' f = filled k w bitmatrix (insert row Done) f"
    "length ops' = length ops + card {j. j < k * w \<and> row_bit (k * w) bitmatrix row j}"
proof -
  note E = emit_row [OF assms(1) order.refl, simplified]
  have w: "0 < w" using row(1) by (cases w) auto
  show "\<forall>oper \<in> set ops'. op_valid k m w oper" using E(4) ops(1) row_dest [OF row(1)] by (fastforce simp: op_valid_def)
  show "packet_run ops' f = filled k w bitmatrix (insert row Done) f"
    using E(2) [of f] row(2) ops(2) filled_insert [OF w] by simp
  show "length ops' = length ops + card {j. j < k * w \<and> row_bit (k * w) bitmatrix row j}" by (rule E(3))
qed

lemma dumb_schedule_run:
  assumes nz: "rows_nonzero (m * w) (k * w) bitmatrix"
  shows "(\<forall>oper \<in> set (jerasure_dumb_bitmatrix_to_schedule k m w bitmatrix). op_valid k m w oper) \<and>
    packet_run (jerasure_dumb_bitmatrix_to_schedule k m w bitmatrix) f = filled k w bitmatrix {..<m * w} f \<and>
    length (jerasure_dumb_bitmatrix_to_schedule k m w bitmatrix)
      = (\<Sum>i < m * w. card {j. j < k * w \<and> row_bit (k * w) bitmatrix i j})"
proof -
  let ?I = "\<lambda>b (ops, index). index = b * (k * w) \<and> (\<forall>oper \<in> set ops. op_valid k m w oper) \<and>
    packet_run ops f = filled k w bitmatrix {..<b} f \<and>
    length ops = (\<Sum>i < b. card {j. j < k * w \<and> row_bit (k * w) bitmatrix i j})"
  have "?I (m * w) (fold (\<lambda>i (ops, index).
       case fold (\<lambda>j (ops, optodo, index).
              if bitmatrix ! index \<noteq> 0
              then (ops @ [Op (j div w) (j mod w) (k + i div w) (i mod w) optodo], True, index + 1)
              else (ops, optodo, index + 1))
            [0..<k * w] (ops, False, index)
       of (ops, optodo, index) \<Rightarrow> (ops, index)) [0..<m * w] ([], 0))"
  proof (rule fold_upt_inv0 [where P = ?I])
    fix i s assume i: "i < m * w" and I: "?I i s"
    obtain ops where s: "s = (ops, i * (k * w))" using I by (cases s) auto
    obtain ops' t' where r: "fold (\<lambda>j (ops, optodo). if row_bit (k * w) bitmatrix i j
        then (ops @ [Op (j div w) (j mod w) (k + i div w) (i mod w) optodo], True) else (ops, optodo))
      [0..<k * w] (ops, False) = (ops', t')" by (meson surj_pair)
    have "\<exists>j < k * w. row_bit (k * w) bitmatrix i j" using nz i by (simp add: rows_nonzero_def)
    note F = fresh_row [OF r i this, of f "{..<i}"]
    show "?I (Suc i) (case s of (ops, index) \<Rightarrow>
       case fold (\<lambda>j (ops, optodo, index).
              if bitmatrix ! index \<noteq> 0
              then (ops @ [Op (j div w) (j mod w) (k + i div w) (i mod w) optodo], True, index + 1)
              else (ops, optodo, index + 1))
            [0..<k * w] (ops, False, index)
       of (ops, optodo, index) \<Rightarrow> (ops, index))"
      using I s F r [unfolded row_bit_def] unfolding s prod.case fold_index [where P = "\<lambda>i. bitmatrix ! i \<noteq> 0"]
      by (simp add: lessThan_Suc)
  qed auto
  then show ?thesis by (auto simp: jerasure_dumb_bitmatrix_to_schedule_def split: prod.splits)
qed

section \<open>The linked list of rows\<close>

text \<open>
  \<open>chain fl bl p rows e\<close>: the rows are linked one after the other, the first back to \<open>p\<close> and the last
  forward to \<open>e\<close>.
\<close>

definition chain_next :: "nat list \<Rightarrow> int \<Rightarrow> int" where
  "chain_next rows e = (case rows of [] \<Rightarrow> e | r # _ \<Rightarrow> int r)"

definition chain_last :: "nat list \<Rightarrow> int \<Rightarrow> int" where
  "chain_last rows p = (if rows = [] then p else int (last rows))"

fun chain :: "int list \<Rightarrow> int list \<Rightarrow> int \<Rightarrow> nat list \<Rightarrow> int \<Rightarrow> bool" where
  "chain fl bl p [] e = True"
| "chain fl bl p (r # rows) e = (bl ! r = p \<and> fl ! r = chain_next rows e \<and> chain fl bl (int r) rows e)"

lemma chain_next_simps [simp]: "chain_next [] e = e" "chain_next (r # rows) e = int r"
  by (simp_all add: chain_next_def)

lemma chain_last_simps [simp]: "chain_last [] p = p" "chain_last (r # rows) p = chain_last rows (int r)"
  "chain_last (rows @ [r]) p = int r"
  by (simp_all add: chain_last_def)

lemma chain_append:
  "chain fl bl p (xs @ ys) e \<longleftrightarrow> chain fl bl p xs (chain_next ys e) \<and> chain fl bl (chain_last xs p) ys e"
  by (induction xs arbitrary: p) (auto simp: chain_next_def split: list.splits)

lemma chain_cong:
  "chain fl bl p rows e \<Longrightarrow> (\<And>r. r \<in> set rows \<Longrightarrow> fl' ! r = fl ! r \<and> bl' ! r = bl ! r) \<Longrightarrow> chain fl' bl' p rows e"
  by (induction rows arbitrary: p) auto

lemma nth_update_notin: "r \<in> A \<Longrightarrow> l \<notin> A \<Longrightarrow> xs[l := v] ! r = xs ! r"
  by (metis nth_list_update_neq)

lemma chain_set_last:
  assumes "chain fl bl p (xs @ [r]) e" "distinct (xs @ [r])" "r < length fl"
  shows "chain (fl[r := e']) bl p (xs @ [r]) e'"
  using assms chain_cong [of fl bl p xs "int r" "fl[r := e']" bl] by (auto simp: chain_append nth_update_notin)

lemma chain_set_first:
  assumes "chain fl bl p (r # ys) e" "distinct (r # ys)" "r < length bl"
  shows "chain fl (bl[r := p']) p' (r # ys) e"
  using assms chain_cong [of fl bl "int r" ys e fl "bl[r := p']"] by (auto simp: nth_update_notin)

definition linked :: "nat \<Rightarrow> nat list \<Rightarrow> smart \<Rightarrow> bool" where
  "linked n rows s \<longleftrightarrow> distinct rows \<and> set rows \<subseteq> {..<n} \<and> length (flink s) = n \<and> length (blink s) = n \<and>
     top s = chain_next rows (-1) \<and> chain (flink s) (blink s) (-1) rows (-1)"

lemma linked_top: "linked n rows s \<Longrightarrow> top s = -1 \<longleftrightarrow> rows = []"
  by (auto simp: linked_def chain_next_def split: list.splits)

lemma smart_unlink_linked:
  assumes "linked n (xs @ row # ys) s"
  shows "linked n (xs @ ys) (smart_unlink row s)"
proof -
  let ?fl = "flink s" and ?bl = "blink s"
  have D: "distinct (xs @ row # ys)" "set (xs @ row # ys) \<subseteq> {..<n}" "length ?fl = n" "length ?bl = n"
    and T: "top s = chain_next (xs @ row # ys) (-1)"
    and C: "chain ?fl ?bl (-1) xs (int row)" "?bl ! row = chain_last xs (-1)" "?fl ! row = chain_next ys (-1)" "chain ?fl ?bl (int row) ys (-1)"
    using assms by (auto simp: linked_def chain_append)
  have fwd: "chain ?fl (if ys = [] then ?bl else ?bl[hd ys := p]) p ys (-1)" for p
    using C(4) chain_set_first [of ?fl ?bl "int row" "hd ys" "tl ys" "-1" p] D by (cases ys) auto
  show ?thesis
  proof (cases "xs = []")
    case True
    then show ?thesis using D T C(2,3) fwd [of "-1"]
      by (cases ys) (auto simp: linked_def smart_unlink_def Let_def)
  next
    case False
    then obtain zs l where xs: "xs = zs @ [l]" by (metis rev_exhaust)
    let ?fl' = "?fl[l := chain_next ys (-1)]" and ?bl' = "if ys = [] then ?bl else ?bl[hd ys := int l]"
    have l: "l < n" "l \<noteq> row" "l \<notin> set zs" "l \<notin> set ys" using D xs by auto
    have "chain ?fl' ?bl (-1) (zs @ [l]) (chain_next ys (-1))"
      by (rule chain_set_last) (use C(1) D xs in auto)
    then have 1: "chain ?fl' ?bl' (-1) xs (chain_next ys (-1))"
      unfolding xs by (rule chain_cong) (use D xs in \<open>cases ys, auto simp: nth_list_update\<close>)
    have 2: "chain ?fl' ?bl' (int l) ys (-1)"
      by (rule chain_cong [OF fwd [of "int l"]]) (use l nth_update_notin [of _ "set ys"] in auto)
    have "smart_unlink row s = s\<lparr>flink := ?fl', blink := ?bl'\<rparr>"
      using C(2,3) xs l D by (cases ys) (auto simp: smart_unlink_def Let_def)
    moreover have "top s = chain_next (xs @ ys) (-1)" using T xs by (cases zs) auto
    moreover have "chain ?fl' ?bl' (-1) (xs @ ys) (-1)" using 1 2 xs by (simp only: chain_append chain_last_simps simp_thms)
    ultimately show ?thesis using D by (simp add: linked_def)
  qed
qed

lemma smart_unlink_same [simp]:
  "operations (smart_unlink row s) = operations s" "diff (smart_unlink row s) = diff s"
  "from_row (smart_unlink row s) = from_row s"
  by (auto simp: smart_unlink_def Let_def)

lemma smart_emit_same [simp]:
  "diff (smart_emit k w bitmatrix row s) = diff s" "from_row (smart_emit k w bitmatrix row s) = from_row s"
  "flink (smart_emit k w bitmatrix row s) = flink s" "blink (smart_emit k w bitmatrix row s) = blink s"
  "top (smart_emit k w bitmatrix row s) = top s"
  by (auto simp: smart_emit_def Let_def)

lemma smart_visit_same [simp]:
  "operations (smart_visit c bitmatrix row i s) = operations s" "flink (smart_visit c bitmatrix row i s) = flink s"
  "blink (smart_visit c bitmatrix row i s) = blink s" "top (smart_visit c bitmatrix row i s) = top s"
  by (auto simp: smart_visit_def Let_def)

lemma linked_emit [simp]: "linked n rows (smart_emit k w bitmatrix row s) = linked n rows s"
  by (simp add: linked_def)

lemma linked_bestdiff [simp]: "linked n rows (s\<lparr>bestdiff := b\<rparr>) = linked n rows s"
  by (simp add: linked_def)

section \<open>The smart schedule\<close>

definition bit_count :: "nat \<Rightarrow> (nat \<Rightarrow> bool) \<Rightarrow> nat" where
  "bit_count c P = card {j. j < c \<and> P j}"

definition bit_rows :: "nat \<Rightarrow> nat \<Rightarrow> cint list \<Rightarrow> bool" where
  "bit_rows rows c bitmatrix \<longleftrightarrow> (\<forall>i < rows. \<forall>j < c. is_bit (bitmatrix ! (i * c + j)))"

lemma bit_count_Suc [simp]: "bit_count 0 P = 0" "bit_count (Suc c) P = bit_count c P + (if P c then 1 else 0)"
proof -
  show "bit_count (Suc c) P = bit_count c P + (if P c then 1 else 0)"
  proof (cases "P c")
    case True
    then have "{j. j < Suc c \<and> P j} = insert c {j. j < c \<and> P j}" by (auto simp: less_Suc_eq)
    then show ?thesis using True by (simp add: bit_count_def)
  next
    case False
    then have "{j. j < Suc c \<and> P j} = {j. j < c \<and> P j}" by (auto simp: less_Suc_eq)
    then show ?thesis using False by (simp add: bit_count_def)
  qed
qed (simp add: bit_count_def)

lemma bit_count_le: "bit_count c P \<le> c"
  by (induction c) auto

lemma count_fold: "(\<And>j. j < c \<Longrightarrow> v j = (if P j then 1 else 0)) \<Longrightarrow> fold (\<lambda>j no. no + v j) [0..<c] a = a + int (bit_count c P)"
  by (induction c) auto

lemma sint_bit: "is_bit b \<Longrightarrow> sint b = (if b \<noteq> 0 then 1 else 0)"
  by (auto simp: is_bit_def)

lemma row_ones_eq:
  assumes "bit_rows n c bitmatrix" "i < n"
  shows "row_ones c bitmatrix i = int (bit_count c (row_bit c bitmatrix i))"
  using count_fold [of c "\<lambda>j. sint (bitmatrix ! (i * c + j))" "row_bit c bitmatrix i" 0] assms
  by (simp add: row_ones_def row_bit_def bit_rows_def sint_bit)

lemma row_diff_eq:
  assumes "bit_rows n c bitmatrix" "i < n" "r < n"
  shows "row_diff c bitmatrix r i = 1 + int (bit_count c (\<lambda>j. row_bit c bitmatrix r j \<noteq> row_bit c bitmatrix i j))"
proof -
  have "sint (bitmatrix ! (r * c + j) XOR bitmatrix ! (i * c + j)) = (if row_bit c bitmatrix r j \<noteq> row_bit c bitmatrix i j then 1 else 0)" if "j < c" for j
  proof -
    have "is_bit (bitmatrix ! (r * c + j))" "is_bit (bitmatrix ! (i * c + j))" using assms that by (auto simp: bit_rows_def)
    then show ?thesis by (auto simp: row_bit_def is_bit_def)
  qed
  then show ?thesis by (simp add: row_diff_def count_fold)
qed

text \<open>What is known of the rows left: the number of operations noted for a row is what emitting it costs.\<close>

definition row_plan :: "nat \<Rightarrow> nat \<Rightarrow> cint list \<Rightarrow> nat set \<Rightarrow> smart \<Rightarrow> nat \<Rightarrow> bool" where
  "row_plan n c bitmatrix Done s i \<longleftrightarrow> diff s ! i \<le> int (bit_count c (row_bit c bitmatrix i)) \<and>
     (from_row s ! i = -1 \<and> diff s ! i = int (bit_count c (row_bit c bitmatrix i)) \<or>
      (\<exists>r. r < n \<and> r \<in> Done \<and> from_row s ! i = int r \<and>
         diff s ! i = 1 + int (bit_count c (\<lambda>j. row_bit c bitmatrix r j \<noteq> row_bit c bitmatrix i j))))"

lemma row_plan_visit:
  assumes "bit_rows n c bitmatrix" "i < n" "row < n" "row \<in> Done" "length (diff s) = n" "length (from_row s) = n"
    "j < n" "row_plan n c bitmatrix Done s j"
  shows "row_plan n c bitmatrix Done (smart_visit c bitmatrix row i s) j"
  using assms row_diff_eq [OF assms(1,2,3)]
  by (cases "j = i") (auto simp: row_plan_def smart_visit_def Let_def)

lemma emit_started:
  "fold (\<lambda>j (ops, optodo). if P j then (ops @ [g j optodo], True) else (ops, optodo)) [0..<c] (ops, True) =
   (fold (\<lambda>j ops. if P j then ops @ [g j True] else ops) [0..<c] ops, True)"
  by (induction c) auto

lemma row_sum_xor: "row_sum w c P f XOR row_sum w c (\<lambda>j. P j \<noteq> Q j) f = row_sum w c Q f"
  unfolding row_sum_def by (simp flip: xs.distrib) (rule xs.cong, auto)

lemma row_sum_none: "\<not> (\<exists>j < c. P j) \<Longrightarrow> row_sum w c P f = 0"
  unfolding row_sum_def by (intro xs.neutral) auto

lemma copied_row:
  assumes bits: "bit_rows (m * w) (k * w) bitmatrix" and row: "row < m * w" and r: "r < m * w" "r \<in> Done" "r \<noteq> row"
    and ops: "\<forall>oper \<in> set ops. op_valid k m w oper" "packet_run ops f = filled k w bitmatrix Done f"
    and ops': "ops' = fold (\<lambda>j ops. if bitmatrix ! (row * (k * w) + j) XOR bitmatrix ! (r * (k * w) + j) \<noteq> 0
        then ops @ [Op (j div w) (j mod w) (k + row div w) (row mod w) True] else ops) [0..<k * w]
        (ops @ [Op (k + r div w) (r mod w) (k + row div w) (row mod w) False])"
  shows "\<forall>oper \<in> set ops'. op_valid k m w oper" "packet_run ops' f = filled k w bitmatrix (insert row Done) f"
    "length ops' = length ops + 1 + bit_count (k * w) (\<lambda>j. row_bit (k * w) bitmatrix r j \<noteq> row_bit (k * w) bitmatrix row j)"
proof -
  let ?c = "k * w" let ?P = "\<lambda>j. row_bit ?c bitmatrix r j \<noteq> row_bit ?c bitmatrix row j"
  let ?d = "k + row div w" and ?p = "row mod w" let ?o1 = "ops @ [Op (k + r div w) (r mod w) ?d ?p False]"
  let ?g = "packet_run ?o1 f"
  have w: "0 < w" using row by (cases w) auto
  have P: "bitmatrix ! (row * ?c + j) XOR bitmatrix ! (r * ?c + j) \<noteq> 0 \<longleftrightarrow> ?P j" if "j < ?c" for j
  proof -
    have "is_bit (bitmatrix ! (row * ?c + j))" "is_bit (bitmatrix ! (r * ?c + j))" using bits row r(1) that by (auto simp: bit_rows_def)
    then show ?thesis by (auto simp: is_bit_def row_bit_def)
  qed
  have "ops' = fold (\<lambda>j ops. if ?P j then ops @ [Op (j div w) (j mod w) ?d ?p True] else ops) [0..<?c] ?o1"
    unfolding ops' by (rule fold_cong) (use P in auto)
  then have em: "fold (\<lambda>j (ops, optodo). if ?P j then (ops @ [Op (j div w) (j mod w) ?d ?p optodo], True) else (ops, optodo))
      [0..<?c] (?o1, True) = (ops', True)" by (simp add: emit_started)
  note E = emit_row [OF em order.refl, simplified]
  have ne: "(k + r div w, r mod w) \<noteq> (?d, ?p)" using r(3) by (metis add_left_cancel div_mult_mod_eq prod.inject)
  show "\<forall>oper \<in> set ops'. op_valid k m w oper"
    using E(4) ops(1) row_dest [OF row, of k] row_dest [OF r(1), of k] ne by (fastforce simp: op_valid_def)
  have src: "filled k w bitmatrix Done f (k + r div w) (r mod w) = row_sum w ?c (row_bit ?c bitmatrix r) f"
    by (rule filled_at) (use w r(2) in auto)
  have g: "?g = set_packet ?d ?p (row_sum w ?c (row_bit ?c bitmatrix r) f) (filled k w bitmatrix Done f)"
    using ops(2) src by (simp add: packet_step_set)
  have "row_sum w ?c ?P ?g = row_sum w ?c ?P f" unfolding g by (subst row_sum_set [of _ k]) simp_all
  then have "packet_run ops' f = set_packet ?d ?p (row_sum w ?c (row_bit ?c bitmatrix r) f XOR row_sum w ?c ?P f) (filled k w bitmatrix Done f)"
    using E(2) [of f] row_sum_none [of ?c ?P w f] g by (auto simp del: packet_run_snoc)
  then show "packet_run ops' f = filled k w bitmatrix (insert row Done) f"
    using row_sum_xor [of w ?c "row_bit ?c bitmatrix r" f] filled_insert [OF w] by simp
  show "length ops' = length ops + 1 + bit_count (k * w) ?P" using E(3) by (simp add: bit_count_def)
qed

text \<open>The invariant of the scheduler between two rows.\<close>

definition smart_inv :: "nat \<Rightarrow> nat \<Rightarrow> nat \<Rightarrow> cint list \<Rightarrow> 'w::len packets \<Rightarrow> nat list \<Rightarrow> smart \<Rightarrow> bool" where
  "smart_inv k m w bitmatrix f rows s \<longleftrightarrow> linked (m * w) rows s \<and> length (diff s) = m * w \<and> length (from_row s) = m * w \<and>
     (\<forall>i \<in> set rows. row_plan (m * w) (k * w) bitmatrix ({..<m * w} - set rows) s i) \<and>
     (\<forall>oper \<in> set (operations s). op_valid k m w oper) \<and>
     packet_run (operations s) f = filled k w bitmatrix ({..<m * w} - set rows) f \<and>
     length (operations s) \<le> (\<Sum>i \<in> {..<m * w} - set rows. bit_count (k * w) (row_bit (k * w) bitmatrix i))"

lemma smart_emit_ok:
  assumes bits: "bit_rows (m * w) (k * w) bitmatrix" and nz: "rows_nonzero (m * w) (k * w) bitmatrix"
    and row: "row < m * w" "row \<notin> Done" and plan: "row_plan (m * w) (k * w) bitmatrix Done s row"
    and ops: "\<forall>oper \<in> set (operations s). op_valid k m w oper" "packet_run (operations s) f = filled k w bitmatrix Done f"
  shows "\<forall>oper \<in> set (operations (smart_emit k w bitmatrix row s)). op_valid k m w oper"
    "packet_run (operations (smart_emit k w bitmatrix row s)) f = filled k w bitmatrix (insert row Done) f"
    "length (operations (smart_emit k w bitmatrix row s)) \<le> length (operations s) + bit_count (k * w) (row_bit (k * w) bitmatrix row)"
proof -
  let ?s = "smart_emit k w bitmatrix row s"
  have "(\<forall>oper \<in> set (operations ?s). op_valid k m w oper) \<and> packet_run (operations ?s) f = filled k w bitmatrix (insert row Done) f \<and>
    length (operations ?s) \<le> length (operations s) + bit_count (k * w) (row_bit (k * w) bitmatrix row)"
  proof (cases "from_row s ! row = -1")
    case True
    obtain ops' t where e: "fold (\<lambda>j (ops, optodo). if row_bit (k * w) bitmatrix row j
        then (ops @ [Op (j div w) (j mod w) (k + row div w) (row mod w) optodo], True) else (ops, optodo))
      [0..<k * w] (operations s, False) = (ops', t)" by (meson surj_pair)
    have "operations ?s = ops'" using True e by (simp add: smart_emit_def Let_def row_bit_def)
    then show ?thesis using fresh_row [OF e row(1) _ ops] nz row(1) by (auto simp: rows_nonzero_def bit_count_def)
  next
    case False
    then obtain r where r: "r < m * w" "r \<in> Done" "from_row s ! row = int r"
        "1 + bit_count (k * w) (\<lambda>j. row_bit (k * w) bitmatrix r j \<noteq> row_bit (k * w) bitmatrix row j) \<le> bit_count (k * w) (row_bit (k * w) bitmatrix row)"
      using plan by (auto simp: row_plan_def)
    have ne: "r \<noteq> row" using r(2) row(2) by auto
    show ?thesis using copied_row [OF bits row(1) r(1,2) ne ops refl] False r(3,4) by (auto simp: smart_emit_def Let_def)
  qed
  then show "\<forall>oper \<in> set (operations ?s). op_valid k m w oper"
    "packet_run (operations ?s) f = filled k w bitmatrix (insert row Done) f"
    "length (operations ?s) \<le> length (operations s) + bit_count (k * w) (row_bit (k * w) bitmatrix row)" by auto
qed

text \<open>The scan over the rows left finds the cheapest, and never runs out of rounds.\<close>

lemma smart_visit_best:
  assumes "i < length (diff s)" "diff s ! i \<le> c" "bestdiff s \<le> c \<longrightarrow> bestrow s \<in> R" "i \<in> R"
  shows "bestdiff (smart_visit n bitmatrix row i s) \<le> c \<and> bestrow (smart_visit n bitmatrix row i s) \<in> R"
  using assms by (auto simp: smart_visit_def Let_def)

lemma smart_scan_ok:
  assumes bits: "bit_rows n c bitmatrix" and row: "row < n" "row \<in> Done"
  shows "chain (flink s) (blink s) p suf (-1) \<Longrightarrow> length suf \<le> fuel \<Longrightarrow> set suf \<subseteq> set R \<Longrightarrow> set R \<subseteq> {..<n} \<Longrightarrow>
    length (diff s) = n \<Longrightarrow> length (from_row s) = n \<Longrightarrow> \<forall>i \<in> set R. row_plan n c bitmatrix Done s i \<Longrightarrow>
    (bestdiff s \<le> int c \<longrightarrow> bestrow s \<in> set R) \<Longrightarrow>
    \<exists>s'. smart_scan fuel c bitmatrix row (chain_next suf (-1)) s = Some s' \<and> operations s' = operations s \<and>
      flink s' = flink s \<and> blink s' = blink s \<and> top s' = top s \<and> length (diff s') = n \<and> length (from_row s') = n \<and>
      (\<forall>i \<in> set R. row_plan n c bitmatrix Done s' i) \<and> (suf \<noteq> [] \<or> bestdiff s \<le> int c \<longrightarrow> bestrow s' \<in> set R)"
proof (induction suf arbitrary: fuel s p)
  case Nil
  then show ?case by (cases fuel) auto
next
  case (Cons i suf)
  then obtain fuel' where fuel: "fuel = Suc fuel'" by (cases fuel) auto
  let ?s = "smart_visit c bitmatrix row i s"
  have i: "i \<in> set R" "i < n" using Cons.prems by auto
  have "diff s ! i \<le> int (bit_count c (row_bit c bitmatrix i))" using Cons.prems(7) i(1) by (auto simp: row_plan_def)
  then have d: "diff s ! i \<le> int c" using bit_count_le [of c "row_bit c bitmatrix i"] by linarith
  have best: "bestdiff ?s \<le> int c \<and> bestrow ?s \<in> set R"
    by (rule smart_visit_best) (use Cons.prems(5,8) i d in auto)
  have plan: "\<forall>j \<in> set R. row_plan n c bitmatrix Done ?s j"
    using row_plan_visit [OF bits i(2) row Cons.prems(5,6)] Cons.prems(4,7) by blast
  have len: "length (diff ?s) = n" "length (from_row ?s) = n" using Cons.prems(5,6) by (auto simp: smart_visit_def Let_def)
  have ch: "chain (flink ?s) (blink ?s) (int i) suf (-1)" using Cons.prems(1) by simp
  obtain s' where "smart_scan fuel' c bitmatrix row (chain_next suf (-1)) ?s = Some s'" "operations s' = operations ?s"
      "flink s' = flink ?s" "blink s' = blink ?s" "top s' = top ?s" "length (diff s') = n" "length (from_row s') = n"
      "\<forall>i \<in> set R. row_plan n c bitmatrix Done s' i" "bestrow s' \<in> set R"
    using Cons.IH [OF ch _ _ Cons.prems(4) len plan, of fuel'] Cons.prems(2,3) fuel best by auto
  then show ?case using fuel Cons.prems(1) by auto
qed

text \<open>One row: the invariant holds for the rows left, and the next row is one of them.\<close>

lemma smart_row_ok:
  assumes bits: "bit_rows (m * w) (k * w) bitmatrix" and nz: "rows_nonzero (m * w) (k * w) bitmatrix"
    and inv: "smart_inv k m w bitmatrix f rows s" and row: "row \<in> set rows"
  shows "\<exists>s' rows'. smart_scan (m * w) (k * w) bitmatrix row (top (smart_unlink row s))
      ((smart_emit k w bitmatrix row (smart_unlink row s))\<lparr>bestdiff := int (k * w) + 1\<rparr>) = Some s' \<and>
    length rows = Suc (length rows') \<and> smart_inv k m w bitmatrix f rows' s' \<and> (rows' \<noteq> [] \<longrightarrow> bestrow s' \<in> set rows')"
proof -
  let ?n = "m * w" and ?c = "k * w" let ?u = "smart_unlink row s" let ?e = "smart_emit k w bitmatrix row ?u"
  obtain xs ys where R: "rows = xs @ row # ys" using row by (meson split_list)
  let ?R = "xs @ ys" let ?D = "{..<?n} - set rows" and ?D' = "{..<?n} - set ?R"
  have L: "linked ?n ?R ?u" and dist: "distinct rows" "set rows \<subseteq> {..<?n}"
    using smart_unlink_linked [of ?n xs row ys s] inv R by (auto simp: smart_inv_def linked_def)
  have rn: "row < ?n" "row \<notin> ?D" "row \<in> ?D'" using dist R by auto
  have D': "?D' = insert row ?D" using dist R by auto
  have plan: "row_plan ?n ?c bitmatrix ?D s i" if "i \<in> set rows" for i using inv that by (auto simp: smart_inv_def)
  have I: "\<forall>oper \<in> set (operations ?u). op_valid k m w oper" "packet_run (operations ?u) f = filled k w bitmatrix ?D f"
    "row_plan ?n ?c bitmatrix ?D ?u row" "length (operations s) \<le> (\<Sum>i \<in> ?D. bit_count ?c (row_bit ?c bitmatrix i))"
    using inv plan [OF row] by (auto simp: smart_inv_def row_plan_def)
  note E = smart_emit_ok [OF bits nz rn(1,2) I(3,1,2)]
  have len: "(\<Sum>i \<in> ?D'. bit_count ?c (row_bit ?c bitmatrix i))
      = bit_count ?c (row_bit ?c bitmatrix row) + (\<Sum>i \<in> ?D. bit_count ?c (row_bit ?c bitmatrix i))"
    unfolding D' using rn(2) by simp
  let ?b = "?e\<lparr>bestdiff := int ?c + 1\<rparr>"
  have ch: "chain (flink ?b) (blink ?b) (-1) ?R (-1)" "top ?u = chain_next ?R (-1)" "length ?R \<le> ?n" "set ?R \<subseteq> {..<?n}"
    using L card_mono [of "{..<?n}" "set ?R"] distinct_card [of ?R] by (auto simp: linked_def)
  have "row_plan ?n ?c bitmatrix ?D' ?b i" if "i \<in> set ?R" for i
    using plan [of i] that R unfolding D' by (auto simp: row_plan_def)
  then obtain s' where s': "smart_scan ?n ?c bitmatrix row (top ?u) ?b = Some s'" "operations s' = operations ?e"
      "flink s' = flink ?u" "blink s' = blink ?u" "top s' = top ?u" "length (diff s') = ?n" "length (from_row s') = ?n"
      "\<forall>i \<in> set ?R. row_plan ?n ?c bitmatrix ?D' s' i" "?R \<noteq> [] \<longrightarrow> bestrow s' \<in> set ?R"
    using smart_scan_ok [OF bits rn(1,3) ch(1) ch(3) order.refl ch(4)] inv ch(2) by (auto simp: smart_inv_def)
  have "smart_inv k m w bitmatrix f ?R s'"
    using L s' E I(4) len unfolding smart_inv_def linked_def D' by auto
  then show ?thesis using s'(1,9) R by (intro exI [of _ s'] exI [of _ ?R]) auto
qed

lemma smart_rows_ok:
  assumes bits: "bit_rows (m * w) (k * w) bitmatrix" and nz: "rows_nonzero (m * w) (k * w) bitmatrix"
  shows "smart_inv k m w bitmatrix f rows s \<Longrightarrow> (rows \<noteq> [] \<longrightarrow> bestrow s \<in> set rows) \<Longrightarrow> length rows \<le> fuel \<Longrightarrow>
    \<exists>s'. smart_rows fuel k m w bitmatrix s = Some s' \<and> smart_inv k m w bitmatrix f [] s'"
proof (induction fuel arbitrary: s rows)
  case 0
  then have "rows = []" by simp
  then show ?case using 0 linked_top [of "m * w" rows s] by (auto simp: smart_inv_def)
next
  case (Suc fuel)
  have L: "top s = -1 \<longleftrightarrow> rows = []" using Suc.prems(1) linked_top [of "m * w" rows s] by (auto simp: smart_inv_def)
  show ?case
  proof (cases "rows = []")
    case True
    then show ?thesis using L Suc.prems(1) by auto
  next
    case False
    then obtain s' rows' where S: "smart_scan (m * w) (k * w) bitmatrix (bestrow s) (top (smart_unlink (bestrow s) s))
        ((smart_emit k w bitmatrix (bestrow s) (smart_unlink (bestrow s) s))\<lparr>bestdiff := int (k * w) + 1\<rparr>) = Some s'"
        "length rows = Suc (length rows')" "smart_inv k m w bitmatrix f rows' s'" "rows' \<noteq> [] \<longrightarrow> bestrow s' \<in> set rows'"
      using smart_row_ok [OF bits nz Suc.prems(1)] Suc.prems(2) by blast
    show ?thesis using Suc.IH [OF S(3,4)] S(1,2) Suc.prems(3) False L by (simp add: Let_def)
  qed
qed

lemma chain_upt:
  assumes "\<And>i. i < n \<Longrightarrow> fl ! i = (if Suc i = n then -1 else int i + 1) \<and> bl ! i = int i - 1"
  shows "chain fl bl (int a - 1) [a..<n] (-1)"
proof (induction "n - a" arbitrary: a)
  case (Suc d)
  then have a: "a < n" by simp
  have "d = n - Suc a" using Suc.hyps(2) by simp
  from Suc.hyps(1) [OF this] have "chain fl bl (int a) [Suc a..<n] (-1)" by simp
  then show ?case using a assms [OF a] by (cases "Suc a = n") (auto simp: upt_conv_Cons)
qed simp

lemma smart_start_ok:
  assumes bits: "bit_rows (m * w) (k * w) bitmatrix" and n: "0 < m * w"
  shows "smart_inv k m w bitmatrix f [0..<m * w] (smart_start k m w bitmatrix)" "bestrow (smart_start k m w bitmatrix) < m * w"
proof -
  let ?n = "m * w" and ?c = "k * w"
  let ?body = "\<lambda>i s. let no = row_ones ?c bitmatrix i;
               s = s\<lparr>diff := (diff s)[i := no], from_row := (from_row s)[i := -1],
                     flink := (flink s)[i := int i + 1], blink := (blink s)[i := int i - 1]\<rparr>
           in if no < bestdiff s then s\<lparr>bestdiff := no, bestrow := i\<rparr> else s"
  define s0 :: smart where "s0 = \<lparr>operations = [], diff = replicate ?n 0, from_row = replicate ?n 0,
          flink = replicate ?n 0, blink = replicate ?n 0, top = 0, bestdiff = int ?c + 1, bestrow = 0\<rparr>"
  let ?I = "\<lambda>b s. operations s = [] \<and> top s = 0 \<and> length (diff s) = ?n \<and> length (from_row s) = ?n \<and>
    length (flink s) = ?n \<and> length (blink s) = ?n \<and>
    (\<forall>i < b. diff s ! i = int (bit_count ?c (row_bit ?c bitmatrix i)) \<and> from_row s ! i = -1 \<and> flink s ! i = int i + 1 \<and> blink s ! i = int i - 1) \<and>
    (bestdiff s \<le> int ?c \<longrightarrow> bestrow s < b) \<and> (0 < b \<longrightarrow> bestdiff s \<le> int ?c)"
  define s where "s = fold ?body [0..<?n] s0"
  have I: "?I ?n s"
    unfolding s_def
  proof (rule fold_upt_inv0 [where P = ?I])
    fix b s assume b: "b < ?n" and I: "?I b s"
    have "row_ones ?c bitmatrix b = int (bit_count ?c (row_bit ?c bitmatrix b))" by (rule row_ones_eq [OF bits b])
    moreover have "int (bit_count ?c (row_bit ?c bitmatrix b)) \<le> int ?c" unfolding of_nat_le_iff by (rule bit_count_le)
    ultimately show "?I (Suc b) (?body b s)" using I b by (auto simp: Let_def less_Suc_eq nth_list_update simp del: of_nat_mult)
  qed (simp add: s0_def)
  have st: "smart_start k m w bitmatrix = s\<lparr>flink := (flink s)[?n - 1 := -1]\<rparr>"
    by (simp add: smart_start_def Let_def s_def s0_def)
  have "chain ((flink s)[?n - 1 := -1]) (blink s) (int 0 - 1) [0..<?n] (-1)"
    by (rule chain_upt) (use I n in \<open>auto simp: nth_list_update\<close>)
  then have "linked ?n [0..<?n] (smart_start k m w bitmatrix)"
    using I n by (auto simp: st linked_def upt_conv_Cons)
  then show "smart_inv k m w bitmatrix f [0..<?n] (smart_start k m w bitmatrix)"
    using I by (simp add: st smart_inv_def row_plan_def lessThan_atLeast0)
  show "bestrow (smart_start k m w bitmatrix) < ?n" using I n by (simp add: st)
qed

lemma smart_schedule_run:
  assumes bits: "bit_rows (m * w) (k * w) bitmatrix" and nz: "rows_nonzero (m * w) (k * w) bitmatrix" and n: "0 < m * w"
  shows "\<exists>ops. jerasure_smart_bitmatrix_to_schedule k m w bitmatrix = Inr ops \<and> (\<forall>oper \<in> set ops. op_valid k m w oper) \<and>
    packet_run ops f = filled k w bitmatrix {..<m * w} f \<and>
    length ops \<le> length (jerasure_dumb_bitmatrix_to_schedule k m w bitmatrix)"
proof -
  have "smart_inv k m w bitmatrix f [0..<m * w] (smart_start k m w bitmatrix)" "bestrow (smart_start k m w bitmatrix) < m * w"
    using smart_start_ok [OF bits n] by auto
  then obtain s where s: "smart_rows (m * w) k m w bitmatrix (smart_start k m w bitmatrix) = Some s" "smart_inv k m w bitmatrix f [] s"
    using smart_rows_ok [OF bits nz, of f "[0..<m * w]" "smart_start k m w bitmatrix" "m * w"] by auto
  have "length (operations s) \<le> length (jerasure_dumb_bitmatrix_to_schedule k m w bitmatrix)"
    using s(2) dumb_schedule_run [OF nz, where f = f] by (simp add: smart_inv_def bit_count_def)
  then show ?thesis using s n by (auto simp: jerasure_smart_bitmatrix_to_schedule_def smart_inv_def)
qed

end
