(* ===== verification/Bitmatrix_Correct.thy ===== *)
theory Bitmatrix_Correct
  imports Schedule_Correct
begin

unbundle bit_operations_syntax

text \<open>
  Coding with bit matrices on the buffers of the devices: executing a schedule refines its run on
  abstract packets at every byte of every stripe, the dot product with rows of a bit matrix is their
  combination of packets, and encoding by either kind of schedule leaves the same devices as encoding
  with the bit matrix itself.
\<close>

section \<open>Packets of a buffer\<close>

lemma region_xor_bytes:
  assumes "8 * c \<le> length a" "8 * c \<le> length b" "8 * c \<le> length r"
  shows "\<exists>t. galois_region_xor a b r (8 * c) = Inr t \<and> length t = length r \<and>
    (\<forall>i < length r. t ! i = (if i < 8 * c then a ! i XOR b ! i else r ! i))"
proof -
  let ?body = "\<lambda>i r3. run_bind (load a i) (\<lambda>x. run_bind (load b i) (\<lambda>y. store r3 i (x XOR y)))"
  let ?P = "\<lambda>n t. length t = length r \<and> (\<forall>i < length r. t ! i = (if i < n then a ! i XOR b ! i else r ! i))"
  have "galois_region_xor a b r (8 * c) = cfor 0 (8 * c) ?body r"
    using cfor_blocks [of c 8 ?body r] by (simp add: galois_region_xor_def)
  moreover have "\<exists>t. cfor 0 (8 * c) ?body r = Inr t \<and> ?P (8 * c) t"
    by (rule cfor_total [where P = ?P]) (use assms in \<open>auto simp: load_def store_def nth_list_update\<close>)
  ultimately show ?thesis by simp
qed

text \<open>A packet of \<open>n\<close> bytes at offset \<open>off\<close> is copied from \<open>s\<close>, or \<open>s\<close> is added to it.\<close>

definition packet_update :: "bool \<Rightarrow> nat \<Rightarrow> nat \<Rightarrow> byte list \<Rightarrow> byte list \<Rightarrow> byte list \<Rightarrow> bool" where
  "packet_update add off n s b t \<longleftrightarrow> length t = length b \<and>
     (\<forall>i < length b. t ! i = (if off \<le> i \<and> i < off + n then (if add then b ! i else 0) XOR s ! (i - off) else b ! i))"

lemma packet_copy:
  assumes "off + n \<le> length b" "n \<le> length s"
  shows "\<exists>t. at_offset off (\<lambda>p. memcpy p s n) b = Inr t \<and> packet_update False off n s b t"
  using assms by (auto simp: at_offset_def memcpy_def packet_update_def nth_append min_def)

lemma packet_add:
  assumes "off + n \<le> length b" "n \<le> length s" "8 dvd n"
  shows "\<exists>t. at_offset off (\<lambda>p. galois_region_xor s p p n) b = Inr t \<and> packet_update True off n s b t"
    "\<exists>t. at_offset off (\<lambda>p. galois_region_xor p s p n) b = Inr t \<and> packet_update True off n s b t"
proof -
  obtain c where c: "n = 8 * c" using assms(3) by blast
  have "8 * c \<le> length s" "8 * c \<le> length (drop off b)" using assms c by auto
  from region_xor_bytes [OF this this(2)] region_xor_bytes [OF this(2,1) this(2)]
  show "\<exists>t. at_offset off (\<lambda>p. galois_region_xor s p p n) b = Inr t \<and> packet_update True off n s b t"
    "\<exists>t. at_offset off (\<lambda>p. galois_region_xor p s p n) b = Inr t \<and> packet_update True off n s b t"
    using assms(1) c by (auto simp: at_offset_def packet_update_def nth_append xor.commute min_def)
qed

section \<open>A schedule on the buffers of the devices\<close>

definition packet_view :: "nat \<Rightarrow> nat list \<Rightarrow> nat \<Rightarrow> nat \<Rightarrow> coder \<Rightarrow> nat \<Rightarrow> 8 packets" where
  "packet_view k ids base n st b = (\<lambda>d p. dev k st (ids ! d) ! (base + p * n + b))"

definition stripe_run :: "nat \<Rightarrow> nat \<Rightarrow> nat \<Rightarrow> nat list \<Rightarrow> nat \<Rightarrow> nat \<Rightarrow> nat \<Rightarrow> (nat \<Rightarrow> 8 packets) \<Rightarrow> coder \<Rightarrow> coder \<Rightarrow> bool" where
  "stripe_run k m w ids base n sz F st st' \<longleftrightarrow> coder_ok k m sz st' \<and>
     (\<forall>b < n. \<forall>d < k + m. \<forall>p < w. packet_view k ids base n st' b d p = F b d p) \<and>
     (\<forall>d < k + m. \<forall>i < sz. \<not> (base \<le> i \<and> i < base + n * w) \<longrightarrow> dev k st' d ! i = dev k st d ! i)"

lemma packet_index:
  assumes "b < (n::nat)" "b' < n"
  shows "p * n + b = p' * n + b' \<longleftrightarrow> p = p' \<and> b = b'"
  using flat_index [OF assms, of p p'] by (simp add: mult.commute)

lemma packet_bound: "p < w \<Longrightarrow> b < (n::nat) \<Longrightarrow> p * n + b < n * w"
  using flat_bound [of p w b n] by (simp add: mult.commute)

lemma packet_offset:
  assumes "b < (n::nat)"
  shows "base + dp * n \<le> base + p * n + b \<and> base + p * n + b < base + dp * n + n \<longleftrightarrow> p = dp"
proof
  assume a: "base + dp * n \<le> base + p * n + b \<and> base + p * n + b < base + dp * n + n"
  then obtain c where c: "p * n + b = dp * n + c" "c < n" by (metis add.assoc add_less_cancel_left le_Suc_ex add_le_cancel_left)
  then show "p = dp" using packet_index [OF assms c(2)] by blast
qed (use assms in auto)

lemma do_operation_ok:
  assumes ok: "coder_ok k m sz st" and ids: "length ids = k + m" "distinct ids" "set ids \<subseteq> {..<k + m}"
    and base: "base + n * w \<le> sz" and n: "8 dvd n" and oper: "op_valid k m w oper"
  shows "\<exists>st'. do_operation k (map (\<lambda>id. (id, base)) ids) n oper st = Inr st' \<and>
    stripe_run k m w ids base n sz (\<lambda>b. packet_step oper (packet_view k ids base n st b)) st st'"
proof -
  obtain s sp d dp x where o: "oper = Op s sp d dp x" by (cases oper)
  have v: "s < k + m" "sp < w" "d < k + m" "dp < w" using oper o by (auto simp: op_valid_def)
  have sid: "ids ! s < k + m" "ids ! d < k + m" using ids v nth_mem [of _ ids] by fastforce+
  note B = buf_dev [OF ok sid(1)] buf_dev [OF ok sid(2)]
  have len: "length (dev k st (ids ! i)) = sz" if "i < k + m" for i
    using coder_ok_dev [OF ok, of "ids ! i"] ids nth_mem [of i ids] that by fastforce
  have "sp * n + n \<le> n * w" "dp * n + n \<le> n * w"
    using v mult_le_mono1 [of "Suc sp" w n] mult_le_mono1 [of "Suc dp" w n] by (auto simp: mult.commute)
  then have fit: "base + dp * n + n \<le> length (dev k st (ids ! d))" "n \<le> length (drop (base + sp * n) (dev k st (ids ! s)))"
    using base len [OF v(1)] len [OF v(3)] by auto
  let ?sptr = "drop (base + sp * n) (dev k st (ids ! s))" and ?off = "base + dp * n" and ?dbuf = "dev k st (ids ! d)"
  obtain t st1 where t: "do_operation k (map (\<lambda>id. (id, base)) ids) n oper st = Inr (set_buf k (ids ! d) t st1)"
      "packet_update x ?off n ?sptr ?dbuf t" "coder_ok k m sz st1" "\<And>j. dev k st1 j = dev k st j"
    using packet_copy [OF fit] packet_add(1) [OF fit n] ok v o ids(1) B
    by (cases x) (fastforce simp: do_operation_def Let_def)+
  let ?st' = "set_buf k (ids ! d) t st1"
  have dev': "dev k ?st' j = (if j = ids ! d then t else dev k st j)" if "j < k + m" for j
    using dev_set_buf [OF t(3) sid(2) that] t(4) by simp
  have "packet_view k ids base n ?st' b i p = packet_step oper (packet_view k ids base n st b) i p"
    if b: "b < n" "i < k + m" "p < w" for b i p
  proof (cases "i = d")
    case True
    have "base + p * n + b < length ?dbuf" using packet_bound [OF b(3,1)] base len [OF v(3)] by simp
    then have "t ! (base + p * n + b) = (if p = dp then (if x then ?dbuf ! (base + p * n + b) else 0) XOR ?sptr ! b else ?dbuf ! (base + p * n + b))"
      using t(2) packet_offset [OF b(1), of base dp p] by (auto simp: packet_update_def)
    moreover have "?sptr ! b = dev k st (ids ! s) ! (base + sp * n + b)"
      using base len [OF v(1)] \<open>sp * n + n \<le> n * w\<close> by simp
    ultimately show ?thesis using True o dev' sid(2) by (auto simp: packet_view_def packet_step_def Let_def)
  next
    case False
    then have "ids ! i \<noteq> ids ! d" using ids(1,2) b(2) v(3) by (simp add: nth_eq_iff_index_eq)
    moreover have "ids ! i < k + m" using ids nth_mem [of i ids] b(2) by fastforce
    ultimately show ?thesis using False o dev' by (simp add: packet_view_def packet_step_def Let_def)
  qed
  moreover have "dev k ?st' j ! i = dev k st j ! i" if "j < k + m" "i < sz" "\<not> (base \<le> i \<and> i < base + n * w)" for j i
    using that dev' [OF that(1)] t(2) len [OF v(3)] \<open>dp * n + n \<le> n * w\<close> by (auto simp: packet_update_def)
  moreover have "coder_ok k m sz ?st'" using t(2,3) coder_ok_set_buf [OF t(3) sid(2)] len [OF v(3)] by (simp add: packet_update_def)
  ultimately show ?thesis using t(1) by (auto simp: stripe_run_def)
qed

lemma packet_step_cong:
  assumes "op_valid k m w oper" "\<And>d p. d < k + m \<Longrightarrow> p < w \<Longrightarrow> f d p = g d p" "d < k + m" "p < w"
  shows "packet_step oper f d p = packet_step oper g d p"
  using assms by (auto simp: packet_step_def op_valid_def Let_def)

lemma packet_run_cong:
  assumes "\<forall>oper \<in> set ops. op_valid k m w oper" "\<And>d p. d < k + m \<Longrightarrow> p < w \<Longrightarrow> f d p = g d p" "d < k + m" "p < w"
  shows "packet_run ops f d p = packet_run ops g d p"
  using assms
proof (induction ops arbitrary: f g)
  case (Cons oper ops)
  have "packet_run ops (packet_step oper f) d p = packet_run ops (packet_step oper g) d p"
    using Cons.prems packet_step_cong [of k m w oper f g] by (intro Cons.IH) auto
  then show ?case by (simp add: packet_run_def)
qed simp

lemma scheduled_operations_ok:
  assumes ids: "length ids = k + m" "distinct ids" "set ids \<subseteq> {..<k + m}" and base: "base + n * w \<le> sz" and n: "8 dvd n"
  shows "coder_ok k m sz st \<Longrightarrow> \<forall>oper \<in> set ops. op_valid k m w oper \<Longrightarrow>
    \<exists>st'. jerasure_do_scheduled_operations k (map (\<lambda>id. (id, base)) ids) ops n st = Inr st' \<and>
      stripe_run k m w ids base n sz (\<lambda>b. packet_run ops (packet_view k ids base n st b)) st st'"
proof (induction ops arbitrary: st)
  case Nil
  then show ?case by (simp add: stripe_run_def)
next
  case (Cons oper ops)
  obtain st1 where st1: "do_operation k (map (\<lambda>id. (id, base)) ids) n oper st = Inr st1"
      "stripe_run k m w ids base n sz (\<lambda>b. packet_step oper (packet_view k ids base n st b)) st st1"
    using do_operation_ok [OF Cons.prems(1) ids base n] Cons.prems(2) by auto
  then have ok1: "coder_ok k m sz st1" by (simp add: stripe_run_def)
  have valid: "\<forall>oper \<in> set ops. op_valid k m w oper" using Cons.prems(2) by simp
  obtain st2 where st2: "jerasure_do_scheduled_operations k (map (\<lambda>id. (id, base)) ids) ops n st1 = Inr st2"
      "stripe_run k m w ids base n sz (\<lambda>b. packet_run ops (packet_view k ids base n st1 b)) st1 st2"
    using Cons.IH [OF ok1 valid] by blast
  have "packet_run ops (packet_view k ids base n st1 b) d p = packet_run (oper # ops) (packet_view k ids base n st b) d p"
    if "b < n" "d < k + m" "p < w" for b d p
    using packet_run_cong [OF valid, of "packet_view k ids base n st1 b"] st1(2) that
    by (simp add: packet_run_def stripe_run_def)
  then have "stripe_run k m w ids base n sz (\<lambda>b. packet_run (oper # ops) (packet_view k ids base n st b)) st st2"
    using st1(2) st2(2) by (simp add: stripe_run_def)
  then show ?case using st1(1) st2(1) by auto
qed

text \<open>
  All stripes of the buffers: in every stripe below \<open>t\<close> the packets hold what the schedule computes from
  the packets of that stripe, everything behind it is as before.
\<close>

definition stripes_done ::
  "nat \<Rightarrow> nat \<Rightarrow> nat \<Rightarrow> nat list \<Rightarrow> nat \<Rightarrow> nat \<Rightarrow> (8 packets \<Rightarrow> 8 packets) \<Rightarrow> nat \<Rightarrow> coder \<Rightarrow> coder \<Rightarrow> bool" where
  "stripes_done k m w ids n sz F t st st' \<longleftrightarrow> coder_ok k m sz st' \<and>
     (\<forall>u < t. \<forall>b < n. \<forall>d < k + m. \<forall>p < w. packet_view k ids (u * (n * w)) n st' b d p = F (packet_view k ids (u * (n * w)) n st b) d p) \<and>
     (\<forall>d < k + m. \<forall>i < sz. t * (n * w) \<le> i \<longrightarrow> dev k st' d ! i = dev k st d ! i)"

lemma stripe_position:
  assumes "p < w" "b < (n::nat)"
  shows "u * (n * w) + p * n + b < Suc u * (n * w)" "u < t \<Longrightarrow> u * (n * w) + p * n + b < t * (n * w)"
proof -
  show a: "u * (n * w) + p * n + b < Suc u * (n * w)" using packet_bound [OF assms] by simp
  show "u < t \<Longrightarrow> u * (n * w) + p * n + b < t * (n * w)"
    using a mult_le_mono1 [of "Suc u" t "n * w"] by linarith
qed

lemma stripes_done_Suc:
  assumes ids: "length ids = k + m" "set ids \<subseteq> {..<k + m}" and base: "t * (n * w) + n * w \<le> sz"
    and ops: "\<forall>oper \<in> set ops. op_valid k m w oper" and D: "stripes_done k m w ids n sz (packet_run ops) t st u"
    and u': "stripe_run k m w ids (t * (n * w)) n sz (\<lambda>b. packet_run ops (packet_view k ids (t * (n * w)) n u b)) u u'"
  shows "stripes_done k m w ids n sz (packet_run ops) (Suc t) st u'"
proof -
  let ?N = "n * w"
  have id: "ids ! d < k + m" if "d < k + m" for d using ids nth_mem [of d ids] that by fastforce
  have old: "packet_view k ids (v * ?N) n u' b d p = packet_view k ids (v * ?N) n u b d p"
    if "v < t" "b < n" "d < k + m" "p < w" for v b d p
  proof -
    have pos: "v * ?N + p * n + b < t * ?N" using stripe_position(2) [OF that(4,2,1)] .
    then have "v * ?N + p * n + b < sz" using base by linarith
    then show ?thesis using u' pos id [OF that(3)] by (simp add: stripe_run_def packet_view_def)
  qed
  have new: "packet_view k ids (t * ?N) n u b d p = packet_view k ids (t * ?N) n st b d p"
    if "b < n" "d < k + m" "p < w" for b d p
  proof -
    have "t * ?N + p * n + b < sz" using stripe_position(1) [OF that(3,1), of t] base by simp
    then show ?thesis using D id [OF that(2)] by (simp add: stripes_done_def packet_view_def)
  qed
  have "packet_view k ids (v * ?N) n u' b d p = packet_run ops (packet_view k ids (v * ?N) n st b) d p"
    if "v < Suc t" "b < n" "d < k + m" "p < w" for v b d p
  proof (cases "v = t")
    case True
    have "packet_run ops (packet_view k ids (t * ?N) n u b) d p = packet_run ops (packet_view k ids (t * ?N) n st b) d p"
      by (rule packet_run_cong [OF ops]) (use new that in auto)
    then show ?thesis using True u' that by (simp add: stripe_run_def)
  next
    case False
    then show ?thesis using old [of v b d p] D that by (simp add: stripes_done_def)
  qed
  moreover have "dev k u' d ! i = dev k st d ! i" if "d < k + m" "i < sz" "Suc t * ?N \<le> i" for d i
    using u' D that by (auto simp: stripe_run_def stripes_done_def)
  ultimately show ?thesis using u' by (simp add: stripes_done_def stripe_run_def)
qed

lemma run_stripes_ok:
  assumes ok: "coder_ok k m sz st" and ids: "length ids = k + m" "distinct ids" "set ids \<subseteq> {..<k + m}"
    and sz: "sz = T * (n * w)" "0 < n * w" and n: "8 dvd n" and ops: "\<forall>oper \<in> set ops. op_valid k m w oper"
  shows "\<exists>st'. run_stripes k w (map (\<lambda>id. (id, 0)) ids) ops sz n st = Inr st' \<and>
    stripes_done k m w ids n sz (packet_run ops) T st st'"
proof -
  let ?N = "n * w"
  let ?P = "\<lambda>t (ptrs, st'). ptrs = map (\<lambda>id. (id, t * ?N)) ids \<and> stripes_done k m w ids n sz (packet_run ops) t st st'"
  let ?body = "\<lambda>t (ptrs, st). run_bind (jerasure_do_scheduled_operations k ptrs ops n st) (\<lambda>st. Inr (move_ptrs ?N ptrs, st))"
  have "\<exists>r. cfor 0 T ?body (map (\<lambda>id. (id, 0)) ids, st) = Inr r \<and> ?P T r"
  proof (rule cfor_total [where P = ?P])
    fix t r assume t: "t < T" and P: "?P t r"
    then obtain u where r: "r = (map (\<lambda>id. (id, t * ?N)) ids, u)" and D: "stripes_done k m w ids n sz (packet_run ops) t st u" by auto
    have base: "t * ?N + ?N \<le> sz" using t sz(1) mult_le_mono1 [of "Suc t" T ?N] by simp
    obtain u' where u': "jerasure_do_scheduled_operations k (map (\<lambda>id. (id, t * ?N)) ids) ops n u = Inr u'"
        "stripe_run k m w ids (t * ?N) n sz (\<lambda>b. packet_run ops (packet_view k ids (t * ?N) n u b)) u u'"
      using scheduled_operations_ok [OF ids base n _ ops, of u] D by (auto simp: stripes_done_def)
    have "stripes_done k m w ids n sz (packet_run ops) (Suc t) st u'"
      by (rule stripes_done_Suc [OF ids(1,3) base ops D u'(2)])
    then show "\<exists>r'. ?body t r = Inr r' \<and> ?P (Suc t) r'" using u'(1) r by (auto simp: move_ptrs_def add.commute)
  qed (use ok in \<open>auto simp: stripes_done_def\<close>)
  moreover have "(sz + ?N - 1) div ?N = T" if "sz \<noteq> 0"
  proof -
    have "sz + ?N - 1 = (?N - 1) + T * ?N" using sz by simp
    also have "\<dots> div ?N = T" using sz(2) by (subst div_mult_self1) auto
    finally show ?thesis .
  qed
  ultimately show ?thesis using sz by (auto simp: run_stripes_def stripes_done_def)
qed

section \<open>Encoding with a schedule\<close>

text \<open>
  The specification of coding with a bit matrix: the data devices are unchanged, and packet \<open>p\<close> of coding
  device \<open>i\<close> is, in every stripe, the combination of data packets of row \<open>i * w + p\<close>.
\<close>

definition stripe_packets :: "nat \<Rightarrow> nat \<Rightarrow> (nat \<Rightarrow> byte list) \<Rightarrow> nat \<Rightarrow> nat \<Rightarrow> 8 packets" where
  "stripe_packets w n D t b = (\<lambda>d p. D d ! (t * (n * w) + p * n + b))"

definition bit_coded :: "nat \<Rightarrow> nat \<Rightarrow> nat \<Rightarrow> cint list \<Rightarrow> nat \<Rightarrow> nat \<Rightarrow> (nat \<Rightarrow> byte list) \<Rightarrow> bool" where
  "bit_coded k m w bitmatrix n T D \<longleftrightarrow> (\<forall>t < T. \<forall>i < m. \<forall>p < w. \<forall>b < n.
     D (k + i) ! (t * (n * w) + p * n + b) = row_sum w (k * w) (row_bit (k * w) bitmatrix (i * w + p)) (stripe_packets w n D t b))"

lemma stripe_decompose:
  assumes "i < T * (n * (w::nat))"
  obtains t p b where "t < T" "p < w" "b < n" "i = t * (n * w) + p * n + b"
proof
  have pos: "0 < n" "0 < w" "0 < n * w" using assms by (auto intro: Nat.gr0I)
  show "i div (n * w) < T" using assms by (simp add: less_mult_imp_div_less)
  have "i mod (n * w) < w * n" using pos by (simp add: mult.commute)
  then show "i mod (n * w) div n < w" by (rule less_mult_imp_div_less)
  show "i mod (n * w) mod n < n" using pos(1) by simp
  show "i = i div (n * w) * (n * w) + i mod (n * w) div n * n + i mod (n * w) mod n" by (simp only: add.assoc div_mult_mod_eq)
qed

lemma stripe_ext:
  assumes "length r = T * (n * w)" "length r' = T * (n * w)"
    "\<And>t p b. t < T \<Longrightarrow> p < w \<Longrightarrow> b < n \<Longrightarrow> r ! (t * (n * w) + p * n + b) = r' ! (t * (n * w) + p * n + b)"
  shows "r = r'"
proof (rule nth_equalityI)
  fix i assume "i < length r"
  then obtain t p b where "t < T" "p < w" "b < n" "i = t * (n * w) + p * n + b" using assms(1) stripe_decompose by metis
  then show "r ! i = r' ! i" using assms(3) by simp
qed (use assms in simp)

lemma row_sum_cong: "(\<And>d p. d < k \<Longrightarrow> p < w \<Longrightarrow> f d p = g d p) \<Longrightarrow> row_sum w (k * w) P f = row_sum w (k * w) P g"
  unfolding row_sum_def using less_mult_imp_div_less
  by (intro xs.cong) (auto, metis less_mult_imp_div_less mod_less_divisor mult_0_right neq0_conv not_less_zero)

lemma bit_coded_unique:
  assumes "bit_coded k m w bitmatrix n T D" "bit_coded k m w bitmatrix n T D'" "\<And>i. i < k \<Longrightarrow> D i = D' i"
    "\<And>i. i < k + m \<Longrightarrow> length (D i) = T * (n * w) \<and> length (D' i) = T * (n * w)" "i < k + m"
  shows "D i = D' i"
proof (cases "i < k")
  case False
  then obtain c where c: "i = k + c" "c < m" using assms(5) by (metis add_less_cancel_left le_add_diff_inverse not_less)
  show ?thesis
  proof (rule stripe_ext [of _ T n w])
    fix t p b assume tpb: "t < T" "p < w" "b < n"
    have "row_sum w (k * w) (row_bit (k * w) bitmatrix (c * w + p)) (stripe_packets w n D t b)
        = row_sum w (k * w) (row_bit (k * w) bitmatrix (c * w + p)) (stripe_packets w n D' t b)"
      by (rule row_sum_cong) (use assms(3) in \<open>simp add: stripe_packets_def\<close>)
    then show "D i ! (t * (n * w) + p * n + b) = D' i ! (t * (n * w) + p * n + b)"
      using assms(1,2) tpb c by (simp add: bit_coded_def)
  qed (use assms(4,5) in auto)
qed (use assms(3) in simp)

lemma schedule_encode_ok:
  assumes ok: "coder_ok k m (T * (n * w)) st" and n: "0 < n * w" "8 dvd n" and ops: "schedules k m w bitmatrix ops"
  shows "\<exists>st'. jerasure_schedule_encode k m w ops (T * (n * w)) n st = Inr st' \<and> coder_ok k m (T * (n * w)) st' \<and>
    (\<forall>i < k. dev k st' i = dev k st i) \<and> bit_coded k m w bitmatrix n T (dev k st')"
proof -
  let ?sz = "T * (n * w)"
  have ptrs: "map (\<lambda>i. (i, 0)) [0..<k] @ map (\<lambda>i. (i + k, 0)) [0..<m] = map (\<lambda>id. (id, 0::nat)) [0..<k + m]"
    by (rule nth_equalityI) (auto simp: nth_append)
  obtain st' where st': "jerasure_schedule_encode k m w ops ?sz n st = Inr st'"
      "stripes_done k m w [0..<k + m] n ?sz (packet_run ops) T st st'"
    using run_stripes_ok [OF ok, of "[0..<k + m]" T n w ops] n ops
    by (auto simp: jerasure_schedule_encode_def ptrs schedules_def lessThan_atLeast0)
  have D: "dev k st' d ! (t * (n * w) + p * n + b) = filled k w bitmatrix {..<m * w} (stripe_packets w n (dev k st) t b) d p"
    if "t < T" "b < n" "d < k + m" "p < w" for t b d p
  proof -
    have "filled k w bitmatrix {..<m * w} (packet_view k [0..<k + m] (t * (n * w)) n st b) d p
        = filled k w bitmatrix {..<m * w} (stripe_packets w n (dev k st) t b) d p"
    proof -
      have "row_sum w (k * w) P (packet_view k [0..<k + m] (t * (n * w)) n st b) = row_sum w (k * w) P (stripe_packets w n (dev k st) t b)" for P
        by (rule row_sum_cong) (simp add: packet_view_def stripe_packets_def)
      then show ?thesis using that by (simp add: filled_def) (simp add: packet_view_def stripe_packets_def)
    qed
    then show ?thesis using st'(2) ops that by (simp add: stripes_done_def schedules_def packet_view_def)
  qed
  have ok': "coder_ok k m ?sz st'" using st'(2) by (simp add: stripes_done_def)
  have data: "dev k st' i = dev k st i" if "i < k" for i
  proof (rule stripe_ext [of _ T n w])
    fix t p b assume "t < T" "p < w" "b < n"
    then show "dev k st' i ! (t * (n * w) + p * n + b) = dev k st i ! (t * (n * w) + p * n + b)"
      using D [of t b i p] that by (simp add: filled_def stripe_packets_def)
  qed (use coder_ok_dev [OF ok] coder_ok_dev [OF ok'] that in auto)
  have "bit_coded k m w bitmatrix n T (dev k st')"
    unfolding bit_coded_def
  proof (intro allI impI)
    fix t i p b assume a: "t < T" "i < m" "p < w" "b < n"
    have row: "i * w + p < m * w" using packet_bound [of i m p w] a by (simp add: mult.commute)
    have "row_sum w (k * w) (row_bit (k * w) bitmatrix (i * w + p)) (stripe_packets w n (dev k st) t b)
        = row_sum w (k * w) (row_bit (k * w) bitmatrix (i * w + p)) (stripe_packets w n (dev k st') t b)"
      by (rule row_sum_cong) (simp add: stripe_packets_def data)
    then show "dev k st' (k + i) ! (t * (n * w) + p * n + b)
        = row_sum w (k * w) (row_bit (k * w) bitmatrix (i * w + p)) (stripe_packets w n (dev k st') t b)"
      using D [of t b "k + i" p] a row by (simp add: filled_def)
  qed
  then show ?thesis using st'(1) ok' data by blast
qed

lemma dumb_schedules: "rows_nonzero (m * w) (k * w) bitmatrix \<Longrightarrow> schedules k m w bitmatrix (jerasure_dumb_bitmatrix_to_schedule k m w bitmatrix)"
  using dumb_schedule_run unfolding schedules_def by blast

lemma smart_schedules:
  assumes "bit_rows (m * w) (k * w) bitmatrix" "rows_nonzero (m * w) (k * w) bitmatrix" "0 < m * w"
  shows "\<exists>ops. jerasure_smart_bitmatrix_to_schedule k m w bitmatrix = Inr ops \<and> schedules k m w bitmatrix ops \<and>
    length ops \<le> length (jerasure_dumb_bitmatrix_to_schedule k m w bitmatrix)"
  using smart_schedule_run [OF assms] unfolding schedules_def by (metis Inr_inject)

section \<open>The dot product with rows of a bit matrix\<close>

text \<open>The packets of the first \<open>c\<close> columns have been accumulated into the packet at \<open>off\<close>.\<close>

definition bit_acc :: "nat \<Rightarrow> nat \<Rightarrow> nat \<Rightarrow> nat \<Rightarrow> nat \<Rightarrow> nat list option \<Rightarrow> nat \<Rightarrow> nat \<Rightarrow> nat \<Rightarrow> (nat \<Rightarrow> bool) \<Rightarrow> coder \<Rightarrow> nat \<Rightarrow> bool \<times> coder \<Rightarrow> bool" where
  "bit_acc k m w n sz src dest base off P st0 c = (\<lambda>(started, st). coder_ok k m sz st \<and>
     (\<forall>d < k + m. d \<noteq> dest \<longrightarrow> dev k st d = dev k st0 d) \<and> (started \<longleftrightarrow> (\<exists>j < c. P j)) \<and>
     (\<forall>i < sz. dev k st dest ! i = (if started \<and> off \<le> i \<and> i < off + n
        then row_sum w c P (\<lambda>x y. dev k st0 (src_id src x) ! (base + y * n + (i - off))) else dev k st0 dest ! i)))"

lemma bit_acc_step:
  assumes dest: "dest < k + m" and src: "\<And>x. x < k \<Longrightarrow> src_id src x < k + m \<and> src_id src x \<noteq> dest"
    and fit: "base + n * w \<le> sz" "off + n \<le> sz" "off = base + j * n" and n: "8 dvd n" and c: "c < k * w"
    and acc: "bit_acc k m w n sz src dest base off P st0 c s" and b: "b \<noteq> 0 \<longleftrightarrow> P c"
  shows "\<exists>s'. bit_packet k (c div w) src dest base j (c mod w) n b s = Inr s' \<and> bit_acc k m w n sz src dest base off P st0 (Suc c) s'"
proof -
  obtain started st where s: "s = (started, st)" by (cases s)
  have A: "coder_ok k m sz st" "\<forall>d < k + m. d \<noteq> dest \<longrightarrow> dev k st d = dev k st0 d" "started \<longleftrightarrow> (\<exists>j < c. P j)"
    "\<forall>i < sz. dev k st dest ! i = (if started \<and> off \<le> i \<and> i < off + n
        then row_sum w c P (\<lambda>x y. dev k st0 (src_id src x) ! (base + y * n + (i - off))) else dev k st0 dest ! i)"
    using acc s by (auto simp: bit_acc_def)
  show ?thesis
  proof (cases "P c")
    case False
    then have "(\<exists>j < Suc c. P j) \<longleftrightarrow> (\<exists>j < c. P j)" "\<And>f :: 8 packets. row_sum w (Suc c) P f = row_sum w c P f"
      by (auto simp: less_Suc_eq row_sum_def)
    then have "bit_acc k m w n sz src dest base off P st0 (Suc c) s" using acc by (simp only: bit_acc_def)
    then show ?thesis using b False s by (simp add: bit_packet_def)
  next
    case True
    let ?x = "c div w" and ?y = "c mod w" let ?sid = "src_id src ?x" let ?sp = "drop (base + ?y * n) (dev k st ?sid)"
    have x: "?x < k" and y: "?y < w" using c by (auto simp: less_mult_imp_div_less) (metis mod_less_divisor mult_0_right neq0_conv not_less_zero)
    note S = src [OF x]
    have len: "length (dev k st dest) = sz" "length (dev k st ?sid) = sz" using A(1) dest S by (auto simp: coder_ok_def)
    have sp: "?y * n + n \<le> n * w" using y mult_le_mono1 [of "Suc ?y" w n] by (simp add: mult.commute)
    then have fits: "off + n \<le> length (dev k st dest)" "n \<le> length ?sp" using fit len by auto
    obtain t st1 where t: "bit_packet k ?x src dest base j ?y n b (started, st) = Inr (True, set_buf k dest t st1)"
        "packet_update started off n ?sp (dev k st dest) t" "coder_ok k m sz st1" "\<And>j. dev k st1 j = dev k st j"
      using packet_copy [OF fits] packet_add(2) [OF fits n] A(1) b True buf_dev [OF A(1) dest] buf_dev [OF A(1), of ?sid] S fit(3)
      by (cases started) (fastforce simp: bit_packet_def Let_def)+
    have len': "length t = sz" using t(2) len by (simp add: packet_update_def)
    have z: "row_sum w c P f = 0" if "\<not> started" for f :: "8 packets" using that A(3) row_sum_none by blast
    have "t ! i = (if off \<le> i \<and> i < off + n
        then row_sum w (Suc c) P (\<lambda>x y. dev k st0 (src_id src x) ! (base + y * n + (i - off))) else dev k st0 dest ! i)" if i: "i < sz" for i
    proof (cases "off \<le> i \<and> i < off + n")
      case True
      have "?sp ! (i - off) = dev k st0 ?sid ! (base + ?y * n + (i - off))" using A(2) S fit len sp by simp
      moreover have "t ! i = (if started then dev k st dest ! i else 0) XOR ?sp ! (i - off)"
        using t(2) True i len by (simp add: packet_update_def)
      moreover have "(if started then dev k st dest ! i else 0) = row_sum w c P (\<lambda>x y. dev k st0 (src_id src x) ! (base + y * n + (i - off)))"
        using A(4) i True z by simp
      ultimately show ?thesis using True \<open>P c\<close> by (simp add: row_sum_def xor.commute)
    next
      case False
      then show ?thesis using t(2) i len A(4) by (auto simp: packet_update_def)
    qed
    moreover have "dev k (set_buf k dest t st1) d = (if d = dest then t else dev k st d)" if "d < k + m" for d
      using dev_set_buf [OF t(3) dest that] t(4) by simp
    ultimately have "bit_acc k m w n sz src dest base off P st0 (Suc c) (True, set_buf k dest t st1)"
      using A(2) dest \<open>P c\<close> coder_ok_set_buf [OF t(3) dest len'] by (auto simp: bit_acc_def)
    then show ?thesis using t(1) s by blast
  qed
qed

lemma bit_row_ok:
  assumes dest: "dest < k + m" and src: "\<And>x. x < k \<Longrightarrow> src_id src x < k + m \<and> src_id src x \<noteq> dest"
    and fit: "base + n * w \<le> sz" "j < w" and n: "8 dvd n" and ok: "coder_ok k m sz st"
    and nz: "\<exists>c < k * w. row_bit (k * w) row j c"
  shows "\<exists>st'. cfor 0 k (\<lambda>x. cfor 0 w (\<lambda>y. bit_packet k x src dest base j y n (unat (row ! (j * (k * w) + x * w + y))))) (False, st)
      = Inr (True, st') \<and> bit_acc k m w n sz src dest base (base + j * n) (row_bit (k * w) row j) st (k * w) (True, st')"
proof -
  let ?P = "row_bit (k * w) row j"
  let ?f = "\<lambda>c. bit_packet k (c div w) src dest base j (c mod w) n (unat (row ! (j * (k * w) + c)))"
  have w: "0 < w" using fit(2) by simp
  have "cfor 0 k (\<lambda>x. cfor 0 w (\<lambda>y. bit_packet k x src dest base j y n (unat (row ! (j * (k * w) + x * w + y))))) (False, st)
      = cfor 0 k (\<lambda>x. cfor 0 w (\<lambda>y. ?f (w * x + y))) (False, st)"
    by (intro cfor_cong) (simp add: mult.commute [of w] add.assoc)
  also have "\<dots> = cfor 0 (w * k) ?f (False, st)" by (rule cfor_blocks)
  finally have eq: "cfor 0 k (\<lambda>x. cfor 0 w (\<lambda>y. bit_packet k x src dest base j y n (unat (row ! (j * (k * w) + x * w + y))))) (False, st)
      = cfor 0 (k * w) ?f (False, st)" by (simp add: mult.commute)
  have "j * n + n \<le> n * w" using fit(2) mult_le_mono1 [of "Suc j" w n] by (simp add: mult.commute)
  then have off: "base + j * n + n \<le> sz" using fit(1) by linarith
  have "\<exists>s. cfor 0 (k * w) ?f (False, st) = Inr s \<and> bit_acc k m w n sz src dest base (base + j * n) ?P st (k * w) s"
  proof (rule cfor_total [where P = "bit_acc k m w n sz src dest base (base + j * n) ?P st"])
    fix c s assume "c < k * w" "bit_acc k m w n sz src dest base (base + j * n) ?P st c s"
    then show "\<exists>s'. ?f c s = Inr s' \<and> bit_acc k m w n sz src dest base (base + j * n) ?P st (Suc c) s'"
      by (intro bit_acc_step [OF dest src fit(1) off refl n]) (auto simp: row_bit_def unat_eq_0)
  qed (use ok in \<open>auto simp: bit_acc_def\<close>)
  then show ?thesis using nz unfolding eq by (fastforce simp: bit_acc_def)
qed

text \<open>Byte \<open>i\<close> of the destination, and the destination written up to byte \<open>e\<close>.\<close>

definition bit_target :: "nat \<Rightarrow> nat \<Rightarrow> nat \<Rightarrow> cint list \<Rightarrow> nat list option \<Rightarrow> coder \<Rightarrow> nat \<Rightarrow> byte" where
  "bit_target k w n row src st i =
     row_sum w (k * w) (row_bit (k * w) row (i mod (n * w) div n))
       (\<lambda>x y. dev k st (src_id src x) ! (i div (n * w) * (n * w) + y * n + i mod (n * w) mod n))"

definition bit_written :: "nat \<Rightarrow> nat \<Rightarrow> nat \<Rightarrow> nat \<Rightarrow> nat \<Rightarrow> cint list \<Rightarrow> nat list option \<Rightarrow> nat \<Rightarrow> coder \<Rightarrow> nat \<Rightarrow> coder \<Rightarrow> bool" where
  "bit_written k m w n sz row src dest st e st' \<longleftrightarrow> coder_ok k m sz st' \<and> (\<forall>d < k + m. d \<noteq> dest \<longrightarrow> dev k st' d = dev k st d) \<and>
     (\<forall>i < sz. dev k st' dest ! i = (if i < e then bit_target k w n row src st i else dev k st dest ! i))"

lemma block_index: "x < N \<Longrightarrow> (t * N + x) div N = t \<and> (t * N + x) mod N = (x::nat)"
  by (simp add: div_mult_self3 [of N, simplified])

lemma bit_written_row:
  assumes dest: "dest < k + m" and src: "\<And>x. x < k \<Longrightarrow> src_id src x < k + m \<and> src_id src x \<noteq> dest"
    and fit: "t * (n * w) + n * w \<le> sz" "j < w" and n: "8 dvd n"
    and nz: "\<exists>c < k * w. row_bit (k * w) row j c" and W: "bit_written k m w n sz row src dest st (t * (n * w) + j * n) u"
  shows "\<exists>u'. run_bind (cfor 0 k (\<lambda>x. cfor 0 w (\<lambda>y. bit_packet k x src dest (t * (n * w)) j y n (unat (row ! (j * (k * w) + x * w + y))))) (False, u))
      (\<lambda>(started, st). Inr st) = Inr u' \<and> bit_written k m w n sz row src dest st (t * (n * w) + Suc j * n) u'"
proof -
  have ok: "coder_ok k m sz u" and U: "\<forall>d < k + m. d \<noteq> dest \<longrightarrow> dev k u d = dev k st d"
    "\<forall>i < sz. dev k u dest ! i = (if i < t * (n * w) + j * n then bit_target k w n row src st i else dev k st dest ! i)"
    using W by (auto simp: bit_written_def)
  let ?off = "t * (n * w) + j * n"
  obtain u' where u': "cfor 0 k (\<lambda>x. cfor 0 w (\<lambda>y. bit_packet k x src dest (t * (n * w)) j y n (unat (row ! (j * (k * w) + x * w + y))))) (False, u) = Inr (True, u')"
      "bit_acc k m w n sz src dest (t * (n * w)) ?off (row_bit (k * w) row j) u (k * w) (True, u')"
    using bit_row_ok [OF dest src fit n ok nz] by blast
  have "dev k u' dest ! i = (if i < ?off + n then bit_target k w n row src st i else dev k st dest ! i)" if i: "i < sz" for i
  proof (cases "?off \<le> i \<and> i < ?off + n")
    case True
    then obtain b where b: "i = t * (n * w) + (j * n + b)" "b < n" by (metis add.assoc add_less_cancel_left le_Suc_ex)
    have lt: "j * n + b < n * w" using packet_bound [OF fit(2) b(2)] .
    have idx: "i div (n * w) = t" "i mod (n * w) = j * n + b" unfolding b(1) using block_index [OF lt] by blast+
    have "row_sum w (k * w) (row_bit (k * w) row j) (\<lambda>x y. dev k u (src_id src x) ! (t * (n * w) + y * n + (i - ?off)))
        = row_sum w (k * w) (row_bit (k * w) row j) (\<lambda>x y. dev k st (src_id src x) ! (t * (n * w) + y * n + b))"
      by (rule row_sum_cong) (use U(1) src b(1) in simp)
    then show ?thesis using u'(2) True i b(2) idx by (simp add: bit_acc_def bit_target_def)
  next
    case False
    then show ?thesis using u'(2) i U(2) by (auto simp: bit_acc_def)
  qed
  then have "bit_written k m w n sz row src dest st (t * (n * w) + Suc j * n) u'"
    using u'(2) U(1) by (auto simp: bit_written_def bit_acc_def add.commute add.left_commute)
  then show ?thesis using u'(1) by auto
qed

lemma bitmatrix_dotprod_ok:
  assumes ok: "coder_ok k m (T * (n * w)) st" and dest: "dest < k + m" and src: "\<And>x. x < k \<Longrightarrow> src_id src x < k + m \<and> src_id src x \<noteq> dest"
    and n: "8 dvd n" "0 < n * w" and nz: "\<And>j. j < w \<Longrightarrow> \<exists>c < k * w. row_bit (k * w) row j c"
  shows "\<exists>st'. jerasure_bitmatrix_dotprod k w row src dest (T * (n * w)) n st = Inr st' \<and> coder_ok k m (T * (n * w)) st' \<and>
    (\<forall>d < k + m. d \<noteq> dest \<longrightarrow> dev k st' d = dev k st d) \<and>
    (\<forall>t < T. \<forall>p < w. \<forall>b < n. dev k st' dest ! (t * (n * w) + p * n + b) =
       row_sum w (k * w) (row_bit (k * w) row p) (stripe_packets w n (\<lambda>x. dev k st (src_id src x)) t b))"
proof -
  let ?N = "n * w" let ?sz = "T * ?N"
  let ?rowf = "\<lambda>t j st. run_bind (cfor 0 k (\<lambda>x. cfor 0 w (\<lambda>y. bit_packet k x src dest (t * ?N) j y n (unat (row ! (j * (k * w) + x * w + y))))) (False, st))
      (\<lambda>(started, st). Inr st)"
  let ?B = "bit_written k m w n ?sz row src dest st"
  have "\<exists>st'. cfor 0 T (\<lambda>t. cfor 0 w (?rowf t)) st = Inr st' \<and> ?B (T * ?N) st'"
  proof (rule cfor_total [where P = "\<lambda>t. ?B (t * ?N)"])
    fix t u assume t: "t < T" and B: "?B (t * ?N) u"
    have fit: "t * ?N + ?N \<le> ?sz" using t mult_le_mono1 [of "Suc t" T ?N] by simp
    have "\<exists>u'. cfor 0 w (?rowf t) u = Inr u' \<and> ?B (t * ?N + w * n) u'"
      by (rule cfor_total [where P = "\<lambda>j. ?B (t * ?N + j * n)"])
        (use B bit_written_row [OF dest src fit _ n(1) nz] in auto)
    then show "\<exists>u'. cfor 0 w (?rowf t) u = Inr u' \<and> ?B (Suc t * ?N) u'" by (simp add: add.commute mult.commute [of w n])
  qed (use ok in \<open>auto simp: bit_written_def\<close>)
  then obtain st' where st': "cfor 0 T (\<lambda>t. cfor 0 w (?rowf t)) st = Inr st'" "?B ?sz st'" by blast
  have run: "jerasure_bitmatrix_dotprod k w row src dest ?sz n st = Inr st'"
    using st'(1) n(2) by (simp add: jerasure_bitmatrix_dotprod_def Let_def mult.commute [of w n])
  have "dev k st' dest ! (t * ?N + p * n + b) = row_sum w (k * w) (row_bit (k * w) row p) (stripe_packets w n (\<lambda>x. dev k st (src_id src x)) t b)"
    if a: "t < T" "p < w" "b < n" for t p b
  proof -
    have lt: "p * n + b < ?N" by (rule packet_bound [OF a(2,3)])
    have "(t * ?N + (p * n + b)) div ?N = t" "(t * ?N + (p * n + b)) mod ?N = p * n + b" using block_index [OF lt] by blast+
    then show ?thesis using st'(2) stripe_position(2) [OF a(2,3,1)] a(3)
      by (simp add: bit_written_def bit_target_def stripe_packets_def add.assoc)
  qed
  then show ?thesis using run st'(2) by (simp add: bit_written_def)
qed

section \<open>Encoding with a bit matrix\<close>

lemma row_bit_drop:
  assumes "i * k * w * w \<le> length bitmatrix"
  shows "row_bit (k * w) (drop (i * k * w * w) bitmatrix) p = row_bit (k * w) bitmatrix (i * w + p)"
  using assms by (auto simp: row_bit_def fun_eq_iff algebra_simps)

lemma bitmatrix_encode_ok:
  assumes ok: "coder_ok k m (T * (n * w)) st" and n: "8 dvd n" "0 < n * w" and len: "length bitmatrix = k * m * w * w"
    and nz: "rows_nonzero (m * w) (k * w) bitmatrix"
  shows "\<exists>st'. jerasure_bitmatrix_encode k m w bitmatrix (T * (n * w)) n st = Inr st' \<and> coder_ok k m (T * (n * w)) st' \<and>
    (\<forall>i < k. dev k st' i = dev k st i) \<and> bit_coded k m w bitmatrix n T (dev k st')"
proof -
  let ?sz = "T * (n * w)"
  let ?I = "\<lambda>c st'. coder_ok k m ?sz st' \<and> (\<forall>i < k. dev k st' i = dev k st i) \<and> bit_coded k c w bitmatrix n T (dev k st')"
  have "\<exists>st'. cfor 0 m (\<lambda>i. jerasure_bitmatrix_dotprod k w (drop (i * k * w * w) bitmatrix) None (k + i) ?sz n) st = Inr st' \<and> ?I m st'"
  proof (rule cfor_total [where P = ?I])
    fix i u assume i: "i < m" and I: "?I i u"
    let ?row = "drop (i * k * w * w) bitmatrix"
    have "i * k * w * w \<le> length bitmatrix" using i len by (simp add: mult.commute mult.left_commute)
    then have rb: "row_bit (k * w) ?row p = row_bit (k * w) bitmatrix (i * w + p)" for p by (rule row_bit_drop)
    have "\<exists>c < k * w. row_bit (k * w) ?row j c" if "j < w" for j
      using nz packet_bound [OF i that] unfolding rb rows_nonzero_def by (simp add: mult.commute [of w m])
    then obtain u' where u': "jerasure_bitmatrix_dotprod k w ?row None (k + i) ?sz n u = Inr u'" "coder_ok k m ?sz u'"
        "\<forall>d < k + m. d \<noteq> k + i \<longrightarrow> dev k u' d = dev k u d"
        "\<forall>t < T. \<forall>p < w. \<forall>b < n. dev k u' (k + i) ! (t * (n * w) + p * n + b) =
           row_sum w (k * w) (row_bit (k * w) ?row p) (stripe_packets w n (\<lambda>x. dev k u (src_id None x)) t b)"
      using bitmatrix_dotprod_ok [of k m T n w u "k + i" None ?row] I i n by (auto simp: src_id_def)
    have same: "row_sum w (k * w) P (stripe_packets w n (dev k u') t b) = row_sum w (k * w) P (stripe_packets w n (dev k u) t b)" for P t b
      by (rule row_sum_cong) (use u'(3) in \<open>simp add: stripe_packets_def\<close>)
    have "bit_coded k (Suc i) w bitmatrix n T (dev k u')"
      using u'(3,4) I i by (auto simp: bit_coded_def less_Suc_eq same rb src_id_def)
    then show "\<exists>u'. jerasure_bitmatrix_dotprod k w ?row None (k + i) ?sz n u = Inr u' \<and> ?I (Suc i) u'" using u' I by auto
  qed (use ok in \<open>auto simp: bit_coded_def\<close>)
  moreover have "n mod 8 = 0" using n(1) by simp
  ultimately show ?thesis using n(2) by (auto simp: jerasure_bitmatrix_encode_def mult.commute)
qed

lemma schedule_encode_equiv:
  assumes ok: "coder_ok k m (T * (n * w)) st" and n: "8 dvd n" "0 < n * w" and len: "length bitmatrix = k * m * w * w"
    and nz: "rows_nonzero (m * w) (k * w) bitmatrix" and ops: "schedules k m w bitmatrix ops"
  shows "\<exists>st1 st2. jerasure_schedule_encode k m w ops (T * (n * w)) n st = Inr st1 \<and>
    jerasure_bitmatrix_encode k m w bitmatrix (T * (n * w)) n st = Inr st2 \<and> (\<forall>i < k + m. dev k st1 i = dev k st2 i)"
proof -
  obtain st1 where 1: "jerasure_schedule_encode k m w ops (T * (n * w)) n st = Inr st1" "coder_ok k m (T * (n * w)) st1"
      "\<forall>i < k. dev k st1 i = dev k st i" "bit_coded k m w bitmatrix n T (dev k st1)"
    using schedule_encode_ok [OF ok n(2,1) ops] by blast
  obtain st2 where 2: "jerasure_bitmatrix_encode k m w bitmatrix (T * (n * w)) n st = Inr st2" "coder_ok k m (T * (n * w)) st2"
      "\<forall>i < k. dev k st2 i = dev k st i" "bit_coded k m w bitmatrix n T (dev k st2)"
    using bitmatrix_encode_ok [OF ok n len nz] by blast
  have "dev k st1 i = dev k st2 i" if "i < k + m" for i
    by (rule bit_coded_unique [OF 1(4) 2(4)]) (use 1 2 coder_ok_dev that in auto)
  then show ?thesis using 1(1) 2(1) by blast
qed

end
