(* ===== verification/Bitmatrix_Decode.thy ===== *)
theory Bitmatrix_Decode
  imports Bitmatrix_Correct
begin

unbundle bit_operations_syntax

text \<open>
  Decoding with a bit matrix: \<^verbatim>\<open>jerasure_make_decoding_bitmatrix\<close> inverts the rows of the survivors over the
  field with two elements, and \<^verbatim>\<open>jerasure_bitmatrix_decode\<close> restores every device from them.
\<close>

section \<open>The rows of the survivors\<close>

lemma block_write:
  assumes "B + L \<le> length t"
  shows "length (fold (\<lambda>j t. t[B + j := f j]) [0..<L] t) = length t \<and>
    (\<forall>q < length t. fold (\<lambda>j t. t[B + j := f j]) [0..<L] t ! q = (if B \<le> q \<and> q < B + L then f (q - B) else t ! q))"
proof -
  let ?P = "\<lambda>b u. length u = length t \<and> (\<forall>q < length t. u ! q = (if B \<le> q \<and> q < B + b then f (q - B) else t ! q))"
  have "?P L (fold (\<lambda>j t. t[B + j := f j]) [0..<L] t)"
  proof (rule fold_upt_inv0 [where P = ?P])
    fix j u assume "j < L" "?P j u"
    then show "?P (Suc j) (u[B + j := f j])" using assms by (auto simp: nth_list_update)
  qed auto
  then show ?thesis .
qed

lemma diagonal_write:
  "length (fst (fold (\<lambda>j (t, index). (t[index := 1], index + N)) [0..<w] (t, s))) = length t \<and>
   (\<forall>q < length t. fst (fold (\<lambda>j (t, index). (t[index := 1], index + N)) [0..<w] (t, s)) ! q = (if \<exists>j < w. q = s + j * N then 1 else t ! q))"
proof -
  let ?P = "\<lambda>b (u, index). index = s + b * N \<and> length u = length t \<and> (\<forall>q < length t. u ! q = (if \<exists>j < b. q = s + j * N then 1 else t ! q))"
  have "?P w (fold (\<lambda>j (t, index). (t[index := 1], index + N)) [0..<w] (t, s))"
  proof (rule fold_upt_inv0 [where P = ?P])
    fix b r assume P: "?P b r"
    obtain u where u: "r = (u, s + b * N)" "length u = length t" "\<forall>q < length t. u ! q = (if \<exists>j < b. q = s + j * N then 1 else t ! q)"
      using P by (cases r) auto
    have "u[s + b * N := 1] ! q = (if \<exists>j < Suc b. q = s + j * N then 1 else t ! q)" if "q < length t" for q
      using u(2,3) that by (cases "q = s + b * N") (auto simp: less_Suc_eq)
    then show "?P (Suc b) (case r of (t, index) \<Rightarrow> (t[index := 1], index + N))" using u(1,2) by simp
  qed auto
  then show ?thesis by (auto split: prod.splits)
qed

definition bit_decoding_rows :: "nat \<Rightarrow> nat \<Rightarrow> cint list \<Rightarrow> nat list \<Rightarrow> cint list" where
  "bit_decoding_rows k w matrix dm_ids = fold (\<lambda>i tmpmat.
            if dm_ids ! i < k then
              let tmpmat = fold (\<lambda>j t. t[i * k * w * w + j := 0]) [0..<k * w * w] tmpmat
              in fst (fold (\<lambda>j (t, index). (t[index := 1], index + (k * w + 1))) [0..<w]
                       (tmpmat, i * k * w * w + dm_ids ! i * w))
            else fold (\<lambda>j t. t[i * k * w * w + j := matrix ! ((dm_ids ! i - k) * k * w * w + j)])
                   [0..<k * w * w] tmpmat)
            [0..<k] (replicate (k * k * w * w) 0)"

text \<open>Row \<open>i * w + p\<close> of the system is row \<open>p\<close> of device \<open>ids ! i\<close> of the generator matrix of bits.\<close>

abbreviation bit_system :: "nat \<Rightarrow> nat \<Rightarrow> cint list \<Rightarrow> nat list \<Rightarrow> nat \<Rightarrow> nat \<Rightarrow> cint" where
  "bit_system k w bitmatrix ids r \<equiv> gen (k * w) bitmatrix (ids ! (r div w) * w + r mod w)"

text \<open>Cell \<open>e\<close> of the block of device \<open>d\<close>.\<close>

abbreviation gen_cell :: "nat \<Rightarrow> nat \<Rightarrow> cint list \<Rightarrow> nat \<Rightarrow> nat \<Rightarrow> cint" where
  "gen_cell k w matrix d e \<equiv> gen (k * w) matrix (d * w + e div (k * w)) (e mod (k * w))"

lemma gen_cell_data:
  assumes "e < k * w * w" "d < k"
  shows "gen_cell k w matrix d e = (if \<exists>j < w. e = d * w + j * (k * w + 1) then 1 else 0)"
proof -
  have p: "e div (k * w) < w" using assms(1) by (simp add: less_mult_imp_div_less mult.commute)
  have c: "e mod (k * w) < k * w" using assms(1) by (metis mod_less_divisor mult_0 neq0_conv not_less_zero)
  have r: "d * w + j < k * w" if "j < w" for j using packet_bound [OF assms(2) that] by (simp add: mult.commute)
  have "e = d * w + j * (k * w + 1) \<longleftrightarrow> e div (k * w) = j \<and> e mod (k * w) = d * w + j" if "j < w" for j
  proof -
    have "d * w + j * (k * w + 1) = j * (k * w) + (d * w + j)" by simp
    then show ?thesis using block_index [OF r [OF that], of j] by (metis div_mult_mod_eq)
  qed
  then show ?thesis using p r [OF p] by (auto simp: gen_def)
qed

lemma gen_cell_coding:
  assumes "\<not> d < k" "0 < w"
  shows "gen_cell k w matrix d e = matrix ! ((d - k) * (k * w * w) + e)"
proof -
  obtain i where i: "d = k + i" using assms(1) by (metis le_add_diff_inverse not_less)
  have "(d * w + e div (k * w) - k * w) * (k * w) + e mod (k * w) = (i * w) * (k * w) + (e div (k * w) * (k * w) + e mod (k * w))"
    by (simp add: i algebra_simps)
  also have "\<dots> = i * (k * w * w) + e" by (simp only: div_mult_mod_eq) (simp add: algebra_simps)
  finally have "(d * w + e div (k * w) - k * w) * (k * w) + e mod (k * w) = (d - k) * (k * w * w) + e" by (simp add: i)
  moreover have "(d * w + e div (k * w) < k * w) = False" by (simp add: i add_mult_distrib)
  ultimately show ?thesis by (simp only: gen_def if_False)
qed

lemma bit_decoding_rows_cells:
  assumes "0 < w"
  shows "length (bit_decoding_rows k w matrix ids) = k * (k * w * w) \<and>
   (\<forall>q < k * (k * w * w). bit_decoding_rows k w matrix ids ! q = gen_cell k w matrix (ids ! (q div (k * w * w))) (q mod (k * w * w)))"
proof -
  let ?N = "k * w" let ?L = "?N * w"
  let ?P = "\<lambda>b t. length t = k * ?L \<and> (\<forall>q < b * ?L. t ! q = gen_cell k w matrix (ids ! (q div ?L)) (q mod ?L))"
  let ?step = "\<lambda>i t. if ids ! i < k then
              let t = fold (\<lambda>j t. t[i * ?L + j := 0]) [0..<?L] t
              in fst (fold (\<lambda>j (t, index). (t[index := 1], index + (?N + 1))) [0..<w] (t, i * ?L + ids ! i * w))
            else fold (\<lambda>j t. t[i * ?L + j := matrix ! ((ids ! i - k) * ?L + j)]) [0..<?L] t"
  have R: "?P k (fold ?step [0..<k] (replicate (k * ?L) 0))"
  proof (rule fold_upt_inv0 [where P = ?P])
    fix i t assume i: "i < k" and P: "?P i t"
    have fit: "i * ?L + ?L \<le> length t" using P i mult_le_mono1 [of "Suc i" k ?L] by simp
    have R: "length (?step i t) = length t \<and> (\<forall>q < i * ?L + ?L. ?step i t ! q =
        (if i * ?L \<le> q then gen_cell k w matrix (ids ! i) (q - i * ?L) else t ! q))"
    proof (cases "ids ! i < k")
      case True
      define u where "u = fold (\<lambda>j t. t[i * ?L + j := 0]) [0..<?L] t"
      have u: "length u = length t" "\<forall>q < length t. u ! q = (if i * ?L \<le> q \<and> q < i * ?L + ?L then 0 else t ! q)"
        using block_write [OF fit, of "\<lambda>_. 0"] by (auto simp: u_def)
      have "(\<exists>j < w. q = i * ?L + ids ! i * w + j * (?N + 1)) \<longleftrightarrow> i * ?L \<le> q \<and> (\<exists>j < w. q - i * ?L = ids ! i * w + j * (?N + 1))" for q
        by (auto simp: add.assoc)
      then show ?thesis using diagonal_write [of "?N + 1" w u "i * ?L + ids ! i * w"] u fit True gen_cell_data [OF _ True, of _ w matrix]
        by (auto simp: u_def [symmetric] Let_def)
    next
      case False
      then show ?thesis using block_write [OF fit, of "\<lambda>j. matrix ! ((ids ! i - k) * ?L + j)"] fit gen_cell_coding [OF False assms, of matrix]
        by simp
    qed
    have "?step i t ! q = gen_cell k w matrix (ids ! (q div ?L)) (q mod ?L)" if q: "q < Suc i * ?L" for q
    proof (cases "i * ?L \<le> q")
      case True
      then obtain e where e: "q = i * ?L + e" "e < ?L" using q by (metis add.commute add_less_cancel_left le_Suc_ex mult_Suc)
      then show ?thesis using R block_index [OF e(2), of i] by simp
    next
      case False
      then show ?thesis using R P q by simp
    qed
    then show "?P (Suc i) (?step i t)" using P R by simp
  qed auto
  have A: "a * k * w * w = a * ?L" for a by (simp only: mult.assoc)
  show ?thesis unfolding bit_decoding_rows_def A by (rule R)
qed

lemma bit_decoding_rows_ent:
  assumes "0 < w" "r < k * w" "c < k * w"
  shows "ent (k * w) (bit_decoding_rows k w matrix ids) r c = bit_system k w matrix ids r c"
proof -
  have p: "r mod w < w" "r div w < k" using assms less_mult_imp_div_less [of r k w] by auto
  let ?e = "r mod w * (k * w) + c"
  have e: "?e < k * w * w" using packet_bound [OF p(1) assms(3)] .
  have q: "k * w * r + c = r div w * (k * w * w) + ?e"
    by (subst div_mult_mod_eq [of r w, symmetric]) (simp only: algebra_simps)
  have "Suc (r div w) * (k * w * w) \<le> k * (k * w * w)" using p(2) by (intro mult_le_mono1) simp
  then have "k * w * r + c < k * (k * w * w)" using q e by simp
  then show ?thesis using bit_decoding_rows_cells [OF assms(1), of k matrix ids] block_index [OF e, of "r div w"] block_index [OF assms(3), of "r mod w"]
    by (simp add: ent_def q)
qed


definition bit_matrix :: "nat \<Rightarrow> nat \<Rightarrow> nat \<Rightarrow> cint list \<Rightarrow> bool" where
  "bit_matrix k m w bitmatrix \<longleftrightarrow> 0 < w \<and> length bitmatrix = k * m * w * w \<and> (\<forall>i < k * m * w * w. is_bit (bitmatrix ! i)) \<and>
     rows_nonzero (m * w) (k * w) bitmatrix"

lemma gen_bit:
  assumes B: "bit_matrix k m w bitmatrix" and r: "d < k + m" "p < w" "c < k * w"
  shows "is_bit (gen (k * w) bitmatrix (d * w + p) c)"
proof (cases "d * w + p < k * w")
  case False
  have "\<not> d < k" using False packet_bound [of d k p w] r(2) by (auto simp: mult.commute)
  then obtain i where i: "d = k + i" "i < m" using r(1) by (metis add_less_cancel_left le_add_diff_inverse not_less)
  have "(i * w + p) * (k * w) + c < (k * w) * (m * w)" using packet_bound [of "i * w + p" "m * w" c "k * w"] packet_bound [OF i(2) r(2)] r(3)
    by (simp add: mult.commute)
  then have "(i * w + p) * (k * w) + c < k * m * w * w" by (simp add: ac_simps)
  moreover have "d * w + p - k * w = i * w + p" by (simp add: i(1) add_mult_distrib)
  ultimately show ?thesis using False B by (simp add: gen_def bit_matrix_def)
qed (simp add: gen_def is_bit_def)

lemma bit_inverse_ok:
  assumes B: "bit_matrix k m w bitmatrix" and ids: "\<And>i. i < k \<Longrightarrow> ids ! i < k + m"
  shows "case jerasure_invert_bitmatrix (bit_decoding_rows k w bitmatrix ids) (replicate (k * k * w * w) 0) (k * w) of (rc, t, dm) \<Rightarrow>
    if gf2.invertible (k * w) (bit_system k w bitmatrix ids)
    then rc = 0 \<and> length dm = k * w * (k * w) \<and> gf2.left_inverse (k * w) (ent (k * w) dm) (bit_system k w bitmatrix ids)
    else rc = -1"
proof -
  let ?t = "bit_decoding_rows k w bitmatrix ids" and ?N = "k * w"
  have w: "0 < w" using B by (simp add: bit_matrix_def)
  have E: "ent ?N ?t i j = bit_system k w bitmatrix ids i j" if "i < ?N" "j < ?N" for i j
    using bit_decoding_rows_ent [OF w that] .
  have el: "gf2.elems ?N (ent ?N ?t)"
    using E gen_bit [OF B ids] w less_mult_imp_div_less by (auto simp: gf2.elems_def)
  have same: "gf2.left_inverse ?N Bm (ent ?N ?t) \<longleftrightarrow> gf2.left_inverse ?N Bm (bit_system k w bitmatrix ids)" for Bm
    using gf2.mcomb_cong [of ?N _ _ "ent ?N ?t" _ "bit_system k w bitmatrix ids"] E by (simp add: gf2.left_inverse_def)
  have len: "length ?t = ?N * ?N" using bit_decoding_rows_cells [OF w, of k bitmatrix ids] by (simp add: ac_simps)
  have "length (replicate (k * k * w * w) (0 :: cint)) = ?N * ?N" by (simp add: ac_simps)
  from invert_bitmatrix_correct [OF len this el] show ?thesis
    by (auto simp: gf2.invertible_def same split: prod.splits if_splits)
qed

lemma make_decoding_bitmatrix_ok:
  assumes B: "bit_matrix k m w bitmatrix" and ids: "\<And>i. i < k \<Longrightarrow> survivors k 0 erased ! i < k + m"
  shows "case jerasure_make_decoding_bitmatrix k m w bitmatrix erased of (rc, dm, dm_ids) \<Rightarrow> dm_ids = survivors k 0 erased \<and>
    (if gf2.invertible (k * w) (bit_system k w bitmatrix dm_ids)
     then rc = 0 \<and> length dm = k * w * (k * w) \<and> gf2.left_inverse (k * w) (ent (k * w) dm) (bit_system k w bitmatrix dm_ids)
     else rc = -1)"
  using bit_inverse_ok [OF B ids]
  by (auto simp: jerasure_make_decoding_bitmatrix_def bit_decoding_rows_def [symmetric] Let_def split: prod.splits)

section \<open>Packets bit by bit\<close>

text \<open>Bit \<open>q\<close> of every packet, as a vector over the field with two elements.\<close>

definition slice :: "nat \<Rightarrow> nat \<Rightarrow> 8 packets \<Rightarrow> nat \<Rightarrow> cint" where
  "slice w q f j = of_bool (bit (f (j div w) (j mod w)) q)"

lemma slice_bit [simp]: "is_bit (slice w q f j)"
  by (simp add: slice_def is_bit_def)

lemma of_bool_xor: "(of_bool (a \<noteq> b) :: cint) = of_bool a XOR of_bool b"
  by simp

lemma bit_xsum: "(of_bool (bit (xsum f A) q) :: cint) = xsum (\<lambda>i. of_bool (bit (f i) q)) A"
proof (induction A rule: infinite_finite_induct)
  case (insert x A)
  then show ?case using of_bool_xor [of "bit (f x) q" "bit (xsum f A) q"] by (simp add: bit_xor_iff)
qed auto

lemma bit_row_sum:
  "(of_bool (bit (row_sum w c P f) q) :: cint) = xsum (\<lambda>j. of_bool (P j) AND slice w q f j) {..<c}"
  unfolding row_sum_def bit_xsum slice_def by (rule xs.cong) auto

lemma is_bit_of_bool: "is_bit x \<Longrightarrow> of_bool (x \<noteq> 0) = x"
  by (auto simp: is_bit_def)

lemma bytes_eqI: "(\<And>q. q < 8 \<Longrightarrow> (of_bool (bit x q) :: cint) = of_bool (bit y q)) \<Longrightarrow> x = (y :: byte)"
  by (rule bit_word_eqI) (simp add: of_bool_eq_iff)

lemma slice_cell: "p < w \<Longrightarrow> slice w q f (x * w + p) = of_bool (bit (f x p) q)"
  by (simp add: slice_def)

text \<open>Every device is the combination of the data that its rows of the generator matrix ask for.\<close>

lemma bit_coded_gen:
  assumes B: "bit_matrix k m w bitmatrix" and D: "bit_coded k m w bitmatrix n T D" and d: "d < k + m" and at: "t < T" "p < w" "b < n"
  shows "xsum (\<lambda>j. gen (k * w) bitmatrix (d * w + p) j AND slice w q (stripe_packets w n D t b) j) {..<k * w}
    = of_bool (bit (stripe_packets w n D t b d p) q)"
proof (cases "d < k")
  case True
  then have r: "d * w + p < k * w" using packet_bound [OF True at(2)] by (simp add: mult.commute)
  then have "xsum (\<lambda>j. gen (k * w) bitmatrix (d * w + p) j AND slice w q (stripe_packets w n D t b) j) {..<k * w}
      = xsum (\<lambda>j. if j = d * w + p then slice w q (stripe_packets w n D t b) j else 0) {..<k * w}"
    by (intro xs.cong) (auto simp: gen_def slice_def)
  then show ?thesis using r at(2) by (simp add: xs.delta slice_cell)
next
  case False
  then obtain i where i: "d = k + i" "i < m" using d by (metis add_less_cancel_left le_add_diff_inverse not_less)
  have g: "gen (k * w) bitmatrix (d * w + p) j = of_bool (row_bit (k * w) bitmatrix (i * w + p) j)" if "j < k * w" for j
    using is_bit_of_bool [OF gen_bit [OF B d at(2) that]] i by (simp add: gen_def row_bit_def add_mult_distrib)
  have "stripe_packets w n D t b d p = row_sum w (k * w) (row_bit (k * w) bitmatrix (i * w + p)) (stripe_packets w n D t b)"
    using D at i by (simp add: bit_coded_def stripe_packets_def)
  then show ?thesis using g by (simp add: bit_row_sum)
qed


section \<open>Decoding with a bit matrix\<close>

definition bit_codeword :: "nat \<Rightarrow> nat \<Rightarrow> nat \<Rightarrow> cint list \<Rightarrow> nat \<Rightarrow> nat \<Rightarrow> (nat \<Rightarrow> byte list) \<Rightarrow> bool" where
  "bit_codeword k m w bitmatrix n T D \<longleftrightarrow> (\<forall>i < k + m. length (D i) = T * (n * w)) \<and> bit_coded k m w bitmatrix n T D"

definition bit_decoder :: "nat \<Rightarrow> nat \<Rightarrow> nat \<Rightarrow> cint list \<Rightarrow> nat set \<Rightarrow> cint list \<Rightarrow> nat list \<Rightarrow> bool" where
  "bit_decoder k m w bitmatrix E dm ids \<longleftrightarrow> length dm = k * w * (k * w) \<and> (\<forall>r < k. ids ! r < k + m \<and> ids ! r \<notin> E) \<and>
     gf2.left_inverse (k * w) (ent (k * w) dm) (bit_system k w bitmatrix ids)"

lemma bit_restored_dest:
  assumes D: "bit_codeword k m w bitmatrix n T D" and st: "restored k m (T * (n * w)) E D b st" and d: "d < k + m"
    and ok: "coder_ok k m (T * (n * w)) st'" and same: "\<forall>j < k + m. j \<noteq> d \<longrightarrow> dev k st' j = dev k st j"
    and dest: "\<And>t p c. t < T \<Longrightarrow> p < w \<Longrightarrow> c < n \<Longrightarrow> dev k st' d ! (t * (n * w) + p * n + c) = stripe_packets w n D t c d p"
  shows "dev k st' d = D d" "b = d \<Longrightarrow> restored k m (T * (n * w)) E D (Suc b) st'"
proof -
  show eq: "dev k st' d = D d"
    by (rule stripe_ext [of _ T n w]) (use ok d D dest in \<open>auto simp: coder_ok_def bit_codeword_def stripe_packets_def\<close>)
  show "b = d \<Longrightarrow> restored k m (T * (n * w)) E D (Suc b) st'"
    using eq st ok same by (auto simp: restored_def less_Suc_eq)
qed

text \<open>
  A row \<open>c\<close> over the devices that stand in for the data computes packet \<open>p\<close> of device \<open>d\<close>: its product with their
  rows of the generator matrix is the row of that packet.
\<close>

definition rep_row :: "nat \<Rightarrow> nat \<Rightarrow> cint list \<Rightarrow> nat list \<Rightarrow> (nat \<Rightarrow> cint) \<Rightarrow> nat \<Rightarrow> nat \<Rightarrow> bool" where
  "rep_row k w bitmatrix ids c d p \<longleftrightarrow> (\<forall>z < k * w. is_bit (c z)) \<and>
     (\<forall>j < k * w. gf2.mcomb (k * w) c (bit_system k w bitmatrix ids) j = gen (k * w) bitmatrix (d * w + p) j)"

lemma rep_row_cong:
  "rep_row k w bitmatrix ids c' d p \<Longrightarrow> (\<And>z. z < k * w \<Longrightarrow> c z = c' z) \<Longrightarrow> rep_row k w bitmatrix ids c d p"
  using gf2.mcomb_cong [of "k * w" c c' "bit_system k w bitmatrix ids" _ "bit_system k w bitmatrix ids"] by (simp add: rep_row_def)

text \<open>The rows of an inverse compute the data devices.\<close>

lemma inverse_rep_row:
  assumes "gf2.left_inverse (k * w) (ent (k * w) dm) (bit_system k w bitmatrix ids)" "d < k" "p < w"
  shows "rep_row k w bitmatrix ids (ent (k * w) dm (d * w + p)) d p"
proof -
  have "d * w + p < k * w" using packet_bound [OF assms(2,3)] by (simp add: mult.commute)
  then show ?thesis using assms(1) by (simp add: rep_row_def gf2.left_inverse_def gf2.elems_def gen_def)
qed

lemma and_xor_left: "(x XOR y) AND c = (x AND c) XOR (y AND c)" for x y c :: "'w::len word"
  by (rule bit_word_eqI) (auto simp: bit_simps)

lemma and_xsum: "xsum f A AND (c :: 'w::len word) = xsum (\<lambda>i. f i AND c) A"
  by (induction A rule: infinite_finite_induct) (simp_all add: and_xor_left)

lemma xsum_blocks: "xsum f {..<k * (w::nat)} = xsum (\<lambda>j. xsum (\<lambda>x. f (j * w + x)) {..<w}) {..<k}"
proof -
  have "xsum f {j * w..<j * w + w} = xsum (\<lambda>x. f (j * w + x)) {..<w}" for j
    by (rule xs.reindex_bij_witness [of _ "\<lambda>x. j * w + x" "\<lambda>c. c - j * w"]) auto
  then show ?thesis unfolding xs.nat_group [of f w k, symmetric] by simp
qed

lemma and_xsum_right: "(c :: 'w::len word) AND xsum f A = xsum (\<lambda>i. c AND f i) A"
  using and_xsum [of f A c] by (simp add: and.commute)

lemma rep_solve:
  assumes B: "bit_matrix k m w bitmatrix" and D: "bit_coded k m w bitmatrix n T D" and ids: "\<And>x. x < k \<Longrightarrow> ids ! x < k + m"
    and rep: "rep_row k w bitmatrix ids c d p" and at: "t < T" "p < w" "b < n" "d < k + m"
  shows "row_sum w (k * w) (\<lambda>z. c z \<noteq> 0) (stripe_packets w n (\<lambda>x. D (ids ! x)) t b) = stripe_packets w n D t b d p"
proof (rule bytes_eqI)
  fix q :: nat
  let ?N = "k * w" let ?S = "stripe_packets w n D t b" let ?M = "bit_system k w bitmatrix ids"
  have rc: "r div w < k" "r mod w < w" if "r < ?N" for r using that at(2) less_mult_imp_div_less [of r k w] by auto
  have img: "slice w q (stripe_packets w n (\<lambda>x. D (ids ! x)) t b) r = xsum (\<lambda>j. ?M r j AND slice w q ?S j) {..<?N}" if "r < ?N" for r
    using bit_coded_gen [OF B D ids [OF rc(1) [OF that]] at(1) rc(2) [OF that] at(3), of q]
    by (simp add: slice_def stripe_packets_def)
  have cz: "of_bool (c r \<noteq> 0) = c r" if "r < ?N" for r using rep that is_bit_of_bool by (simp add: rep_row_def)
  have "(of_bool (bit (row_sum w ?N (\<lambda>z. c z \<noteq> 0) (stripe_packets w n (\<lambda>x. D (ids ! x)) t b)) q) :: cint)
      = xsum (\<lambda>r. xsum (\<lambda>j. (c r AND ?M r j) AND slice w q ?S j) {..<?N}) {..<?N}"
    unfolding bit_row_sum by (intro xs.cong refl) (use cz img in \<open>simp add: and_xsum_right and.assoc\<close>)
  also have "\<dots> = xsum (\<lambda>j. gf2.mcomb ?N c ?M j AND slice w q ?S j) {..<?N}" unfolding gf2.mcomb_def and_xsum by (rule xs.swap)
  also have "\<dots> = xsum (\<lambda>j. gen ?N bitmatrix (d * w + p) j AND slice w q ?S j) {..<?N}"
    by (intro xs.cong refl) (use rep in \<open>simp add: rep_row_def\<close>)
  also have "\<dots> = of_bool (bit (?S d p) q)" by (rule bit_coded_gen [OF B D at(4,1-3)])
  finally show "(of_bool (bit (row_sum w ?N (\<lambda>z. c z \<noteq> 0) (stripe_packets w n (\<lambda>x. D (ids ! x)) t b)) q) :: cint) = of_bool (bit (?S d p) q)" .
qed

lemma rep_nonzero:
  assumes B: "bit_matrix k m w bitmatrix" and rep: "rep_row k w bitmatrix ids c d p" and d: "d < k + m" "p < w"
  shows "\<exists>z < k * w. c z \<noteq> 0"
proof (rule ccontr)
  assume "\<not> ?thesis"
  then have "gf2.mcomb (k * w) c (bit_system k w bitmatrix ids) j = 0" for j
    unfolding gf2.mcomb_def by (intro xs.neutral) auto
  then have z: "gen (k * w) bitmatrix (d * w + p) j = 0" if "j < k * w" for j using rep that by (simp add: rep_row_def)
  show False
  proof (cases "d < k")
    case True
    then have "d * w + p < k * w" using packet_bound [OF True d(2)] by (simp add: mult.commute)
    then show False using z [of "d * w + p"] by (simp add: gen_def)
  next
    case False
    then obtain i where i: "d = k + i" "i < m" using d(1) by (metis add_less_cancel_left le_add_diff_inverse not_less)
    have "i * w + p < m * w" using packet_bound [OF i(2) d(2)] by (simp add: mult.commute)
    then obtain j where "j < k * w" "row_bit (k * w) bitmatrix (i * w + p) j" using B by (auto simp: bit_matrix_def rows_nonzero_def)
    then show False using z [of j] i(1) by (simp add: gen_def row_bit_def add_mult_distrib)
  qed
qed

lemma bit_decoder_row:
  assumes dm: "bit_decoder k m w bitmatrix E dm ids" and i: "i < k" "p < w"
  shows "rep_row k w bitmatrix ids (ent (k * w) dm (i * w + p)) i p" "row_bit (k * w) dm (i * w + p) = (\<lambda>z. ent (k * w) dm (i * w + p) z \<noteq> 0)"
proof -
  show "rep_row k w bitmatrix ids (ent (k * w) dm (i * w + p)) i p"
    by (rule inverse_rep_row [OF _ i]) (use dm in \<open>simp add: bit_decoder_def\<close>)
  show "row_bit (k * w) dm (i * w + p) = (\<lambda>z. ent (k * w) dm (i * w + p) z \<noteq> 0)"
    by (rule ext) (simp only: row_bit_def ent_def mult.commute [of "i * w + p" "k * w"])
qed

lemma bit_decode_row_ok:
  assumes B: "bit_matrix k m w bitmatrix" and n: "8 dvd n" "0 < n" and D: "bit_codeword k m w bitmatrix n T D"
    and dm: "bit_decoder k m w bitmatrix E dm ids" and i: "i < k" "i \<in> E" and st: "restored k m (T * (n * w)) E D i st"
  shows "\<exists>st'. jerasure_bitmatrix_dotprod k w (drop (i * k * w * w) dm) (Some ids) i (T * (n * w)) n st = Inr st' \<and>
    restored k m (T * (n * w)) E D (Suc i) st'"
proof -
  have w: "0 < w" using B by (simp add: bit_matrix_def)
  have ids: "ids ! r < k + m" "ids ! r \<notin> E" "ids ! r \<noteq> i" if "r < k" for r using dm that i(2) by (auto simp: bit_decoder_def)
  have "i * (k * w * w) \<le> k * (k * w * w)" using i(1) by (intro mult_le_mono1) simp
  then have le: "i * k * w * w \<le> length dm" using dm by (simp add: bit_decoder_def ac_simps)
  note rb = row_bit_drop [OF le]
  have nz: "\<exists>c < k * w. row_bit (k * w) dm (i * w + p) c" if "p < w" for p
    using rep_nonzero [OF B bit_decoder_row(1) [OF dm i(1) that] _ that] i(1) by (simp add: bit_decoder_row(2) [OF dm i(1) that])
  obtain st' where st': "jerasure_bitmatrix_dotprod k w (drop (i * k * w * w) dm) (Some ids) i (T * (n * w)) n st = Inr st'"
      "coder_ok k m (T * (n * w)) st'" "\<forall>d < k + m. d \<noteq> i \<longrightarrow> dev k st' d = dev k st d"
      "\<forall>t < T. \<forall>p < w. \<forall>b < n. dev k st' i ! (t * (n * w) + p * n + b) =
         row_sum w (k * w) (row_bit (k * w) dm (i * w + p)) (stripe_packets w n (\<lambda>x. dev k st (src_id (Some ids) x)) t b)"
    using bitmatrix_dotprod_ok [of k m T n w st i "Some ids" "drop (i * k * w * w) dm"] st i ids n w nz
    by (auto simp: restored_def src_id_def rb)
  have "row_sum w (k * w) P (stripe_packets w n (\<lambda>x. dev k st (src_id (Some ids) x)) t b)
      = row_sum w (k * w) P (stripe_packets w n (\<lambda>x. D (ids ! x)) t b)" for P t b
    by (rule row_sum_cong) (use st ids in \<open>simp add: stripe_packets_def src_id_def restored_def\<close>)
  then have "dev k st' i ! (t * (n * w) + p * n + b) = stripe_packets w n D t b i p" if "t < T" "p < w" "b < n" for t p b
    using st'(4) that rep_solve [OF B _ ids(1) bit_decoder_row(1) [OF dm i(1) that(2)] that] D i(1)
    by (simp add: bit_codeword_def bit_decoder_row(2) [OF dm i(1) that(2)])
  then show ?thesis using st' bit_restored_dest(2) [OF D st _ st'(2,3)] i(1) by auto
qed


text \<open>The last lost data device from the others and the parity device, whose blocks are identities.\<close>

definition parity_rows :: "nat \<Rightarrow> nat \<Rightarrow> cint list \<Rightarrow> bool" where
  "parity_rows k w bitmatrix \<longleftrightarrow> (\<forall>p < w. \<forall>c < k * w. row_bit (k * w) bitmatrix p c \<longleftrightarrow> c mod w = p)"

lemma row_sum_parity:
  assumes "parity_rows k w bitmatrix" "p < w"
  shows "row_sum w (k * w) (row_bit (k * w) bitmatrix p) f = xsum (\<lambda>x. f x p) {..<k}"
proof -
  have "row_sum w (k * w) (row_bit (k * w) bitmatrix p) f = xsum (\<lambda>j. if j mod w = p then f (j div w) p else 0) {..<k * w}"
    unfolding row_sum_def by (rule xs.cong) (use assms in \<open>auto simp: parity_rows_def\<close>)
  also have "\<dots> = xsum (\<lambda>j. f (j div w) p) ({..<k * w} \<inter> {j. j mod w = p})" by (simp add: xs.inter_restrict)
  also have "\<dots> = xsum (\<lambda>x. f x p) {..<k}"
    by (rule xs.reindex_bij_witness [of _ "\<lambda>x. x * w + p" "\<lambda>j. j div w"])
      (use assms(2) packet_bound [of _ k p w] in \<open>auto simp: less_mult_imp_div_less mult.commute [of w k]\<close>)
  finally show ?thesis .
qed

lemma bit_decode_last_ok:
  assumes B: "bit_matrix k m w bitmatrix" and n: "8 dvd n" "0 < n" and D: "bit_codeword k m w bitmatrix n T D"
    and ones: "parity_rows k w bitmatrix" "0 < m" and l: "l < k" "k \<notin> E"
    and st: "restored k m (T * (n * w)) E D l st" "\<And>j. l < j \<Longrightarrow> j < k \<Longrightarrow> j \<notin> E"
  shows "\<exists>st'. jerasure_bitmatrix_dotprod k w bitmatrix (Some (map (\<lambda>i. if i < l then i else i + 1) [0..<k])) l (T * (n * w)) n st = Inr st' \<and>
    restored k m (T * (n * w)) E D k st'"
proof -
  let ?g = "\<lambda>i. if i < l then i else i + 1" let ?ids = "map ?g [0..<k]"
  have w: "0 < w" using B by (simp add: bit_matrix_def)
  have src: "src_id (Some ?ids) i < k + m \<and> src_id (Some ?ids) i \<noteq> l" if "i < k" for i
    using that ones(2) l by (auto simp: src_id_def)
  have ok: "coder_ok k m (T * (n * w)) st" using st(1) by (simp add: restored_def)
  have nz: "\<exists>c < k * w. row_bit (k * w) bitmatrix p c" if "p < w" for p
  proof -
    have "p < k * w" using packet_bound [of 0 k p w] that l(1) by (simp add: mult.commute)
    then show ?thesis using ones(1) that by (intro exI [of _ p]) (simp add: parity_rows_def)
  qed
  obtain st' where st': "jerasure_bitmatrix_dotprod k w bitmatrix (Some ?ids) l (T * (n * w)) n st = Inr st'" "coder_ok k m (T * (n * w)) st'"
      "\<forall>j < k + m. j \<noteq> l \<longrightarrow> dev k st' j = dev k st j"
      "\<forall>t < T. \<forall>p < w. \<forall>b < n. dev k st' l ! (t * (n * w) + p * n + b) =
         row_sum w (k * w) (row_bit (k * w) bitmatrix p) (stripe_packets w n (\<lambda>x. dev k st (src_id (Some ?ids) x)) t b)"
    using bitmatrix_dotprod_ok [OF ok trans_less_add1 [OF l(1)] src n(1) _ nz] n(2) w by auto
  have dev: "dev k st (?g j) = D (?g j)" if "j < k" for j
  proof -
    have "Suc j \<notin> E" if "\<not> j < l"
      using st(2) [of "Suc j"] l(2) \<open>j < k\<close> that by (cases "Suc j = k") auto
    then have "?g j < k + m \<and> (?g j \<notin> E \<or> ?g j < l)" using \<open>j < k\<close> ones(2) by auto
    then show ?thesis using st(1) by (simp only: restored_def)
  qed
  have "dev k st' l ! (t * (n * w) + p * n + b) = stripe_packets w n D t b l p" if at: "t < T" "p < w" "b < n" for t p b
  proof -
    let ?S = "stripe_packets w n D t b"
    have "dev k st' l ! (t * (n * w) + p * n + b) = xsum (\<lambda>x. stripe_packets w n (\<lambda>x. dev k st (src_id (Some ?ids) x)) t b x p) {..<k}"
      using st'(4) at row_sum_parity [OF ones(1) at(2)] by simp
    also have "\<dots> = xsum (\<lambda>x. ?S (?g x) p) {..<k}"
    proof (rule xs.cong)
      fix x assume "x \<in> {..<k}"
      then have x: "x < k" by simp
      then have "src_id (Some ?ids) x = ?g x" by (simp add: src_id_def)
      then show "stripe_packets w n (\<lambda>x. dev k st (src_id (Some ?ids) x)) t b x p = ?S (?g x) p"
        by (simp only: stripe_packets_def dev [OF x])
    qed simp
    also have "\<dots> = xsum (\<lambda>x. ?S x p) ({..<Suc k} - {l})"
      by (rule xs.reindex_bij_witness [of _ "\<lambda>j. if j < l then j else j - 1" ?g]) (use l in auto)
    also have "\<dots> = ?S l p XOR xsum (\<lambda>x. ?S x p) {..<Suc k}"
      using xs.remove [of "{..<Suc k}" l "\<lambda>x. ?S x p"] l(1) by (simp del: xs.lessThan_Suc)
    also have "xsum (\<lambda>x. ?S x p) {..<Suc k} = 0"
    proof -
      have "?S k p = row_sum w (k * w) (row_bit (k * w) bitmatrix (0 * w + p)) ?S"
        using D [unfolded bit_codeword_def bit_coded_def, THEN conjunct2, rule_format, OF at(1) ones(2) at(2,3)]
        by (simp add: stripe_packets_def)
      then show ?thesis using row_sum_parity [OF ones(1) at(2)] by (simp add: lessThan_Suc)
    qed
    finally show ?thesis by simp
  qed
  then have "dev k st' l = D l" using bit_restored_dest(1) [OF D st(1) _ st'(2,3)] l(1) by simp
  moreover have "dev k st' j = D j" if "j < k + m" "j \<noteq> l" "j \<notin> E \<or> j < k" for j
  proof -
    have "j \<notin> E \<or> j < l" using st(2) [of j] that by linarith
    then show ?thesis using st(1) st'(3) that by (simp add: restored_def)
  qed
  ultimately have "dev k st' j = D j" if "j < k + m" "j \<notin> E \<or> j < k" for j using that by (cases "j = l") auto
  then have "restored k m (T * (n * w)) E D k st'" using st'(2) by (simp add: restored_def)
  then show ?thesis using st'(1) by blast
qed

lemma bit_coding_row_ok:
  assumes B: "bit_matrix k m w bitmatrix" and n: "8 dvd n" "0 < n" and D: "bit_codeword k m w bitmatrix n T D"
    and i: "i < m" and st: "restored k m (T * (n * w)) E D (k + i) st"
  shows "\<exists>st'. jerasure_bitmatrix_dotprod k w (drop (i * k * w * w) bitmatrix) None (k + i) (T * (n * w)) n st = Inr st' \<and>
    restored k m (T * (n * w)) E D (Suc (k + i)) st'"
proof -
  have w: "0 < w" using B by (simp add: bit_matrix_def)
  have "i * (k * w * w) \<le> m * (k * w * w)" using i by (intro mult_le_mono1) simp
  then have le: "i * k * w * w \<le> length bitmatrix" using B by (simp add: bit_matrix_def ac_simps)
  note rb = row_bit_drop [OF le]
  have nz: "\<exists>c < k * w. row_bit (k * w) bitmatrix (i * w + p) c" if "p < w" for p
    using B packet_bound [OF i that] by (simp add: bit_matrix_def rows_nonzero_def mult.commute)
  obtain st' where st': "jerasure_bitmatrix_dotprod k w (drop (i * k * w * w) bitmatrix) None (k + i) (T * (n * w)) n st = Inr st'"
      "coder_ok k m (T * (n * w)) st'" "\<forall>d < k + m. d \<noteq> k + i \<longrightarrow> dev k st' d = dev k st d"
      "\<forall>t < T. \<forall>p < w. \<forall>b < n. dev k st' (k + i) ! (t * (n * w) + p * n + b) =
         row_sum w (k * w) (row_bit (k * w) bitmatrix (i * w + p)) (stripe_packets w n (dev k st) t b)"
    using bitmatrix_dotprod_ok [of k m T n w st "k + i" None "drop (i * k * w * w) bitmatrix"] st i n w nz
    by (auto simp: restored_def src_id_def rb)
  have "row_sum w (k * w) P (stripe_packets w n (dev k st) t b) = row_sum w (k * w) P (stripe_packets w n D t b)" for P t b
    by (rule row_sum_cong) (use st in \<open>simp add: stripe_packets_def restored_def\<close>)
  then have "dev k st' (k + i) ! (t * (n * w) + p * n + b) = stripe_packets w n D t b (k + i) p" if "t < T" "p < w" "b < n" for t p b
    using st'(4) that D i by (simp add: bit_codeword_def bit_coded_def stripe_packets_def)
  then show ?thesis using st' bit_restored_dest(2) [OF D st _ st'(2,3)] i by auto
qed

lemma bitmatrix_decode_ok:
  assumes B: "bit_matrix k m w bitmatrix" and n: "8 dvd n" "0 < n" and D: "bit_codeword k m w bitmatrix n T D"
    and es: "valid_erasures k m es" and ones: "row_k_ones \<Longrightarrow> 0 < m \<and> parity_rows k w bitmatrix"
    and st: "coder_ok k m (T * (n * w)) st" "\<And>i. i < k + m \<Longrightarrow> i \<notin> erased_set es \<Longrightarrow> dev k st i = D i"
    and few: "card (erased_set es) \<le> m"
    and dec: "\<And>ids. length ids = k \<Longrightarrow> distinct ids \<Longrightarrow> set ids \<subseteq> {..<k + m} - erased_set es \<Longrightarrow>
       gf2.invertible (k * w) (bit_system k w bitmatrix ids)"
  shows "\<exists>st'. jerasure_bitmatrix_decode k m w bitmatrix row_k_ones (es @ (-1) # rest) (T * (n * w)) n st = Inr (0, st') \<and>
    coder_ok k m (T * (n * w)) st' \<and> (\<forall>i < k + m. dev k st' i = D i)"
proof -
  let ?sz = "T * (n * w)" let ?E = "erased_set es" and ?R = "restored k m ?sz (erased_set es) D"
  have sub: "?E \<subseteq> {..<k + m}" using es by (auto simp: valid_erasures_def erased_set_def nat_less_iff)
  have eq: "jerasure_bitmatrix_decode k m w bitmatrix row_k_ones erasures ?sz n = decode_with k m row_k_ones (jerasure_make_decoding_bitmatrix k m w bitmatrix)
      (\<lambda>dm ids i. jerasure_bitmatrix_dotprod k w (drop (i * k * w * w) dm) (Some ids) i ?sz n)
      (\<lambda>l. jerasure_bitmatrix_dotprod k w bitmatrix (Some (map (\<lambda>i. if i < l then i else i + 1) [0..<k])) l ?sz n)
      (\<lambda>i. jerasure_bitmatrix_dotprod k w (drop (i * k * w * w) bitmatrix) None (k + i) ?sz n) erasures" for erasures
  proof -
    have "bit_decode_data k w erased dm ids ?sz n = (\<lambda>i (edd, st). if 0 < edd \<and> erased ! i \<noteq> 0 then
        run_bind (jerasure_bitmatrix_dotprod k w (drop (i * k * w * w) dm) (Some ids) i ?sz n st) (\<lambda>st. Inr (edd - 1, st)) else Inr (edd, st))" for erased dm ids
      by (intro ext) (simp add: bit_decode_data_def)
    then show ?thesis by (intro ext) (simp only: jerasure_bitmatrix_decode_def decode_with_def)
  qed
  have "\<exists>st'. jerasure_bitmatrix_decode k m w bitmatrix row_k_ones (es @ (-1) # rest) ?sz n st = Inr (0, st') \<and> ?R (k + m) st'"
    unfolding eq
  proof (rule decode_with_ok [OF es few refl, where R = ?R and good = "bit_decoder k m w bitmatrix ?E"])
    show "?R 0 st" using st by (simp add: restored_def)
    show "?R (Suc i) st" if "i \<notin> ?E" "?R i st" for i st using that by (auto simp: restored_def less_Suc_eq)
    fix erased :: "nat list" assume E: "\<And>i. i < k + m \<Longrightarrow> erased ! i \<noteq> 0 \<longleftrightarrow> i \<in> ?E" "length erased = k + m"
    note S = survivors_erased [OF E(2,1) sub few]
    have ids: "survivors k 0 erased ! r < k + m \<and> survivors k 0 erased ! r \<notin> ?E" if "r < k" for r
      using subsetD [OF S(3) nth_mem, of r] S(1) that by simp
    show "\<exists>dm. jerasure_make_decoding_bitmatrix k m w bitmatrix erased = (0, dm, survivors k 0 erased) \<and> bit_decoder k m w bitmatrix ?E dm (survivors k 0 erased)"
      using make_decoding_bitmatrix_ok [OF B, of erased] dec [OF S] ids by (auto simp: bit_decoder_def split: prod.splits)
  next
    fix dm ids i st assume "bit_decoder k m w bitmatrix ?E dm ids" "i < k" "i \<in> ?E" "?R i st"
    then show "\<exists>st'. jerasure_bitmatrix_dotprod k w (drop (i * k * w * w) dm) (Some ids) i ?sz n st = Inr st' \<and> ?R (Suc i) st'"
      by (rule bit_decode_row_ok [OF B n D])
  next
    fix l st assume "row_k_ones" "k \<notin> ?E" "l < k" "\<And>j. l < j \<Longrightarrow> j < k \<Longrightarrow> j \<notin> ?E" "?R l st"
    then show "\<exists>st'. jerasure_bitmatrix_dotprod k w bitmatrix (Some (map (\<lambda>i. if i < l then i else i + 1) [0..<k])) l ?sz n st = Inr st' \<and> ?R k st'"
      using ones by (intro bit_decode_last_ok [OF B n D]) auto
  next
    fix i st assume "i < m" "k + i \<in> ?E" "?R (k + i) st"
    then show "\<exists>st'. jerasure_bitmatrix_dotprod k w (drop (i * k * w * w) bitmatrix) None (k + i) ?sz n st = Inr st' \<and> ?R (Suc (k + i)) st'"
      by (intro bit_coding_row_ok [OF B n D])
  qed (use ones in simp)
  then show ?thesis by (auto simp: restored_def)
qed

end
