(* ===== verification/Mds.thy ===== *)
theory Mds
  imports Gauss "HOL-Library.FuncSet"
begin

unbundle bit_operations_syntax

text \<open>
  Maximum distance separable matrices over an \<open>xor_field\<close>: a square matrix with a trivial kernel is
  invertible, the row and column operations of \<^verbatim>\<open>reed_sol.c\<close> keep every choice of rows independent, and
  the extended Vandermonde matrix has this property because a polynomial has fewer roots than
  coefficients.
\<close>

section \<open>Trivial kernel and invertibility\<close>

context xor_field
begin

text \<open>The product of row \<open>i\<close> of \<open>M\<close> and the column \<open>v\<close>.\<close>

definition app :: "nat \<Rightarrow> (nat \<Rightarrow> nat \<Rightarrow> cint) \<Rightarrow> (nat \<Rightarrow> cint) \<Rightarrow> nat \<Rightarrow> cint" where
  "app n M v i = xsum (\<lambda>j. mul (M i j) (v j)) {..<n}"

lemma elem_app: "(\<And>j. j < n \<Longrightarrow> elem (M i j)) \<Longrightarrow> (\<And>j. j < n \<Longrightarrow> elem (v j)) \<Longrightarrow> elem (app n M v i)"
  by (auto simp: app_def intro!: elem_xsum elem_mul)

lemma app_cong: "(\<And>j. j < n \<Longrightarrow> M i j = M' i' j) \<Longrightarrow> (\<And>j. j < n \<Longrightarrow> v j = v' j) \<Longrightarrow> app n M v i = app n M' v' i'"
  unfolding app_def by (rule xs.cong) auto

lemma app_add:
  assumes "\<And>j. j < n \<Longrightarrow> elem (M i j)" "\<And>j. j < n \<Longrightarrow> elem (u j)" "\<And>j. j < n \<Longrightarrow> elem (v j)"
  shows "app n M (\<lambda>j. u j XOR v j) i = app n M u i XOR app n M v i"
  unfolding app_def using assms by (simp flip: xs.distrib) (intro xs.cong, auto simp: mul_xor)

lemma app_unit: "elem (M i c) \<Longrightarrow> c < n \<Longrightarrow> (\<And>j. j < n \<Longrightarrow> elem (M i j)) \<Longrightarrow> app n M (\<lambda>j. if j = c then 1 else 0) i = M i c"
proof -
  assume a: "elem (M i c)" "c < n" "\<And>j. j < n \<Longrightarrow> elem (M i j)"
  have "app n M (\<lambda>j. if j = c then 1 else 0) i = xsum (\<lambda>j. if j = c then M i j else 0) {..<n}"
    unfolding app_def using a by (intro xs.cong) (auto simp: mul_commute [of _ 1] mul_1 elem_1 elem_0 mul_commute [of _ 0])
  then show ?thesis using a(2) by (simp add: xs.delta)
qed

text \<open>
  A square matrix whose kernel is trivial is invertible: the map it describes is injective on the finite
  set of vectors, hence onto, and the preimages of the unit vectors are the columns of its inverse.
\<close>

definition trivial_kernel :: "nat \<Rightarrow> (nat \<Rightarrow> nat \<Rightarrow> cint) \<Rightarrow> bool" where
  "trivial_kernel n N \<longleftrightarrow> (\<forall>v. (\<forall>j < n. elem (v j)) \<longrightarrow> (\<forall>i < n. app n N v i = 0) \<longrightarrow> (\<forall>j < n. v j = 0))"

lemma trivial_kernelD:
  assumes "trivial_kernel n N" "\<forall>j < n. elem (v j)" "\<forall>i < n. app n N v i = 0" "j < n"
  shows "v j = 0"
  using assms unfolding trivial_kernel_def by blast

lemma kernel_surj:
  assumes el: "\<And>i j. i < n \<Longrightarrow> j < n \<Longrightarrow> elem (N i j)"
    and ker: "trivial_kernel n N"
    and b: "\<And>i. i < n \<Longrightarrow> elem (b i)"
  shows "\<exists>v. (\<forall>j < n. elem (v j)) \<and> (\<forall>i < n. app n N v i = b i)"
proof -
  let ?V = "PiE {..<n} (\<lambda>_. {x. elem x})" let ?f = "\<lambda>v. \<lambda>i \<in> {..<n}. app n N v i"
  have fin: "finite ?V" by (rule finite_PiE) auto
  have el': "elem (v j)" if "v \<in> ?V" "j < n" for v j using that by (auto simp: PiE_iff)
  have maps: "?f ` ?V \<subseteq> ?V" using el el' by (auto simp: PiE_iff intro!: elem_app)
  have "inj_on ?f ?V"
  proof (rule inj_onI)
    fix u v assume u: "u \<in> ?V" and v: "v \<in> ?V" and eq: "?f u = ?f v"
    have "app n N (\<lambda>j. u j XOR v j) i = 0" if "i < n" for i
      using fun_cong [OF eq, of i] that app_add [of n N i u v] el el' u v by simp
    then have "u j XOR v j = 0" if "j < n" for j
      by (intro trivial_kernelD [OF ker _ _ that, of "\<lambda>j. u j XOR v j"]) (use el' u v in \<open>auto intro: elem_xor\<close>)
    then show "u = v" using u v by (intro PiE_ext [of u _ _ v]) auto
  qed
  then have "?f ` ?V = ?V" using endo_inj_surj [OF fin maps] by blast
  moreover have "(\<lambda>i \<in> {..<n}. b i) \<in> ?V" using b by auto
  ultimately obtain v where v: "v \<in> ?V" "?f v = (\<lambda>i \<in> {..<n}. b i)" by (metis (no_types, lifting) imageE)
  have "app n N v i = b i" if "i < n" for i using fun_cong [OF v(2), of i] that by simp
  then show ?thesis using v(1) el' by blast
qed

lemma mul_rotate: "elem a \<Longrightarrow> elem c \<Longrightarrow> elem x \<Longrightarrow> mul a (mul c x) = mul x (mul a c)"
  using mul_assoc [of a c x] mul_commute [of "mul a c" x] elem_mul by auto

lemma trivial_kernel_invertible:
  assumes el: "elems n N"
    and ker: "trivial_kernel n N"
  shows "invertible n N"
proof -
  have elN: "elem (N i j)" if "i < n" "j < n" for i j using el that by (simp add: elems_def)
  have "\<exists>c. (\<forall>j < n. elem (c j)) \<and> (\<forall>i < n. app n N c i = (if i = r then 1 else 0))" for r
    by (rule kernel_surj [OF elN ker]) (auto simp: elem_0 elem_1)
  then obtain C where C: "\<And>r j. j < n \<Longrightarrow> elem (C r j)" "\<And>r i. i < n \<Longrightarrow> app n N (C r) i = (if i = r then 1 else 0)"
    by metis
  have "mcomb n (\<lambda>r. C r i) N j = (if i = j then 1 else 0)" if ij: "i < n" "j < n" for i j
  proof -
    let ?v = "\<lambda>i. mcomb n (\<lambda>r. C r i) N j" let ?e = "\<lambda>i. if i = j then 1 else (0::cint)"
    have ev: "elem (?v i)" if "i < n" for i by (rule elem_mcomb [OF _ el ij(2)]) (use C(1) that in auto)
    have "app n N ?v i = N i j" if i: "i < n" for i
    proof -
      have "app n N ?v i = xsum (\<lambda>l. xsum (\<lambda>r. mul (N r j) (mul (N i l) (C r l))) {..<n}) {..<n}"
        unfolding app_def mcomb_def
        by (intro xs.cong refl, subst mul_xsum) (use elN C(1) ij(2) i mul_rotate in \<open>auto simp: elem_mul intro!: xs.cong\<close>)
      also have "\<dots> = xsum (\<lambda>r. xsum (\<lambda>l. mul (N r j) (mul (N i l) (C r l))) {..<n}) {..<n}" by (rule xs.swap)
      also have "\<dots> = xsum (\<lambda>r. mul (N r j) (app n N (C r) i)) {..<n}"
        unfolding app_def by (intro xs.cong refl, subst mul_xsum) (use elN C(1) ij(2) i in \<open>auto simp: elem_mul\<close>)
      also have "\<dots> = xsum (\<lambda>r. if r = i then N r j else 0) {..<n}"
        using C(2) i elN ij(2) by (intro xs.cong) (auto simp: mul_commute [of _ 1] mul_1 elem_1 elem_0 mul_commute [of _ 0])
      finally show ?thesis using i by (simp add: xs.delta)
    qed
    then have "app n N (\<lambda>i. ?v i XOR ?e i) i = 0" if "i < n" for i
      using app_add [of n N i ?v ?e] app_unit [of N i j n] elN that ij(2) ev by (simp add: elem_0 elem_1)
    then have "?v i XOR ?e i = 0"
      by (intro trivial_kernelD [OF ker _ _ ij(1), of "\<lambda>i. ?v i XOR ?e i"]) (use ev in \<open>auto intro!: elem_xor simp: elem_0 elem_1\<close>)
    then show ?thesis by (simp split: if_splits)
  qed
  then have "left_inverse n (\<lambda>i r. C r i) N" using C(1) by (simp add: left_inverse_def elems_def)
  then show ?thesis by (auto simp: invertible_def)
qed

end

section \<open>Maximum distance separable matrices\<close>

context xor_field
begin

text \<open>
  No vector but zero is annihilated by as many rows as it has entries; equivalently any \<open>cols\<close> rows are
  independent.
\<close>

definition zeros :: "nat \<Rightarrow> nat \<Rightarrow> (nat \<Rightarrow> nat \<Rightarrow> cint) \<Rightarrow> (nat \<Rightarrow> cint) \<Rightarrow> nat set" where
  "zeros rows cols M v = {i. i < rows \<and> app cols M v i = 0}"

definition nonzero_vec :: "nat \<Rightarrow> (nat \<Rightarrow> cint) \<Rightarrow> bool" where
  "nonzero_vec cols v \<longleftrightarrow> (\<forall>j < cols. elem (v j)) \<and> (\<exists>j < cols. v j \<noteq> 0)"

definition mds :: "nat \<Rightarrow> nat \<Rightarrow> (nat \<Rightarrow> nat \<Rightarrow> cint) \<Rightarrow> bool" where
  "mds rows cols M \<longleftrightarrow> (\<forall>i < rows. \<forall>j < cols. elem (M i j)) \<and>
     (\<forall>v. nonzero_vec cols v \<longrightarrow> card (zeros rows cols M v) < cols)"

lemma finite_zeros [simp]: "finite (zeros rows cols M v)"
  by (simp add: zeros_def)

lemma mdsD: "mds rows cols M \<Longrightarrow> nonzero_vec cols v \<Longrightarrow> card (zeros rows cols M v) < cols"
  by (simp add: mds_def)

lemma mds_elem: "mds rows cols M \<Longrightarrow> i < rows \<Longrightarrow> j < cols \<Longrightarrow> elem (M i j)"
  by (simp add: mds_def)

lemma mds_invertible:
  assumes "mds rows cols M" "length ids = cols" "distinct ids" "set ids \<subseteq> {..<rows}"
  shows "invertible cols (\<lambda>i. M (ids ! i))"
proof (rule trivial_kernel_invertible)
  have id: "ids ! i < rows" if "i < cols" for i using assms(2,4) that nth_mem [of i ids] by blast
  show "elems cols (\<lambda>i. M (ids ! i))" using mds_elem [OF assms(1)] id by (simp add: elems_def)
  show "trivial_kernel cols (\<lambda>i. M (ids ! i))"
    unfolding trivial_kernel_def
  proof (intro allI impI, rule ccontr)
    fix v j assume v: "\<forall>j < cols. elem (v j)" "\<forall>i < cols. app cols (\<lambda>i. M (ids ! i)) v i = 0" "j < cols" "v j \<noteq> 0"
    have "app cols M v (ids ! i) = 0" if "i < cols" for i using v(2) that by (simp add: app_def)
    then have "set ids \<subseteq> zeros rows cols M v" using assms(2) id by (auto simp: zeros_def in_set_conv_nth)
    from card_mono [OF finite_zeros this] have "cols \<le> card (zeros rows cols M v)" using distinct_card [OF assms(3)] assms(2) by simp
    moreover have "nonzero_vec cols v" using v by (auto simp: nonzero_vec_def)
    ultimately show False using mdsD [OF assms(1), of v] by simp
  qed
qed

text \<open>Another matrix with the same zeros, after a change of the vector and of the order of rows.\<close>

lemma mds_change:
  assumes M: "mds rows cols M" and el: "\<And>i j. i < rows \<Longrightarrow> j < cols \<Longrightarrow> elem (M' i j)"
    and g: "\<And>v. nonzero_vec cols v \<Longrightarrow> nonzero_vec cols (g v)"
    and \<pi>: "inj_on \<pi> {..<rows}" "\<And>i. i < rows \<Longrightarrow> \<pi> i < rows"
    and z: "\<And>v i. nonzero_vec cols v \<Longrightarrow> i < rows \<Longrightarrow> app cols M' v i = 0 \<Longrightarrow> app cols M (g v) (\<pi> i) = 0"
  shows "mds rows cols M'"
  unfolding mds_def
proof (intro conjI allI impI)
  fix v assume v: "nonzero_vec cols v"
  have "\<pi> ` zeros rows cols M' v \<subseteq> zeros rows cols M (g v)" using z [OF v] \<pi>(2) by (auto simp: zeros_def)
  moreover have "card (\<pi> ` zeros rows cols M' v) = card (zeros rows cols M' v)"
    by (rule card_image) (use \<pi>(1) in \<open>auto simp: zeros_def intro: inj_on_subset\<close>)
  ultimately have "card (zeros rows cols M' v) \<le> card (zeros rows cols M (g v))" by (metis card_mono finite_zeros)
  then show "card (zeros rows cols M' v) < cols" using mdsD [OF M g [OF v]] by linarith
qed (use el in auto)

lemma mds_cong:
  assumes "mds rows cols M" "\<And>i j. i < rows \<Longrightarrow> j < cols \<Longrightarrow> M' i j = M i j"
  shows "mds rows cols M'"
proof (rule mds_change [OF assms(1), where g = "\<lambda>v. v" and \<pi> = "\<lambda>i. i"])
  fix v i assume "i < rows" "app cols M' v i = 0"
  then show "app cols M v i = 0" using app_cong [of cols M' i M i v v] assms(2) by auto
qed (use assms mds_elem [OF assms(1)] in auto)

lemma mds_swap:
  assumes "mds rows cols M" "a < rows" "b < rows"
    and "\<And>i j. i < rows \<Longrightarrow> j < cols \<Longrightarrow> M' i j = M (if i = a then b else if i = b then a else i) j"
  shows "mds rows cols M'"
proof (rule mds_change [OF assms(1), where g = "\<lambda>v. v" and \<pi> = "\<lambda>i. if i = a then b else if i = b then a else i"])
  show "inj_on (\<lambda>i. if i = a then b else if i = b then a else i) {..<rows}" by (auto simp: inj_on_def split: if_splits)
  fix v i assume "i < rows" "app cols M' v i = 0"
  then show "app cols M v (if i = a then b else if i = b then a else i) = 0"
    using app_cong [of cols M' i M "if i = a then b else if i = b then a else i" v v] assms(4) by auto
qed (use assms mds_elem [OF assms(1)] in auto)

lemma mds_scale_row:
  assumes "mds rows cols M" "a < rows" "elem t" "t \<noteq> 0"
    and M': "\<And>i j. i < rows \<Longrightarrow> j < cols \<Longrightarrow> M' i j = (if i = a then mul t (M i j) else M i j)"
  shows "mds rows cols M'"
proof (rule mds_change [OF assms(1), where g = "\<lambda>v. v" and \<pi> = "\<lambda>i. i"])
  fix v i assume v: "nonzero_vec cols v" and i: "i < rows" "app cols M' v i = 0"
  show "app cols M v i = 0"
  proof (cases "i = a")
    case True
    have "app cols M' v i = xsum (\<lambda>j. mul t (mul (M i j) (v j))) {..<cols}"
      unfolding app_def using True i(1) M' v mds_elem [OF assms(1)] assms(3)
      by (intro xs.cong) (auto simp: mul_assoc nonzero_vec_def)
    also have "\<dots> = mul t (app cols M v i)"
      unfolding app_def by (rule mul_xsum [symmetric]) (use v i mds_elem [OF assms(1)] assms(3) in \<open>auto simp: nonzero_vec_def elem_mul\<close>)
    finally show ?thesis using i mul_eq_0 [of t "app cols M v i"] assms(3,4) elem_app mds_elem [OF assms(1)] v
      by (auto simp: nonzero_vec_def)
  next
    case False
    then show ?thesis using i M' app_cong [of cols M' i M i v v] by auto
  qed
qed (use assms mds_elem [OF assms(1)] elem_mul in auto)

lemma app_add_column:
  assumes "\<And>j. j < n \<Longrightarrow> elem (M i j)" "\<And>j. j < n \<Longrightarrow> elem (v j)" "elem t" "a < n" "b < n" "a \<noteq> b"
  shows "app n (\<lambda>i j. if j = b then M i b XOR mul t (M i a) else M i j) v i = app n M (v(a := v a XOR mul t (v b))) i"
proof -
  have "app n (\<lambda>i j. if j = b then M i b XOR mul t (M i a) else M i j) v i
      = xsum (\<lambda>j. mul (M i j) (v j) XOR (if j = b then mul (mul t (M i a)) (v b) else 0)) {..<n}"
    unfolding app_def using assms by (intro xs.cong) (auto simp: mul_xor_left elem_mul)
  also have "\<dots> = app n M v i XOR mul (mul t (M i a)) (v b)"
    using assms(5) by (simp add: xs.distrib xs.delta app_def)
  also have "mul (mul t (M i a)) (v b) = mul (M i a) (mul t (v b))"
    using assms mul_assoc [of "M i a" t "v b"] mul_commute [of t "M i a"] by simp
  also have "app n M v i XOR mul (M i a) (mul t (v b)) = xsum (\<lambda>j. mul (M i j) (v j) XOR (if j = a then mul (M i a) (mul t (v b)) else 0)) {..<n}"
    using assms(4) by (simp add: xs.distrib xs.delta app_def)
  also have "\<dots> = app n M (v(a := v a XOR mul t (v b))) i"
    unfolding app_def using assms by (intro xs.cong) (auto simp: mul_xor elem_mul)
  finally show ?thesis .
qed

lemma app_scale_column:
  assumes "\<And>j. j < n \<Longrightarrow> elem (M i j)" "\<And>j. j < n \<Longrightarrow> elem (v j)" "elem t"
  shows "app n (\<lambda>i j. if j = a then mul t (M i j) else M i j) v i = app n M (v(a := mul t (v a))) i"
  unfolding app_def using assms mul_assoc [of "M i a" t "v a"] mul_commute [of t "M i a"] by (intro xs.cong) auto

lemma nonzero_scale: "nonzero_vec n v \<Longrightarrow> elem t \<Longrightarrow> t \<noteq> 0 \<Longrightarrow> a < n \<Longrightarrow> nonzero_vec n (v(a := mul t (v a)))"
  using mul_eq_0 [of t] elem_mul [of t] unfolding nonzero_vec_def by (metis fun_upd_def)

lemma nonzero_add:
  assumes "nonzero_vec n v" "elem t" "a < n" "b < n" "a \<noteq> b"
  shows "nonzero_vec n (v(a := v a XOR mul t (v b)))"
proof (cases "v b = 0")
  case True
  then have "v(a := v a XOR mul t (v b)) = v" using assms(2) by auto
  then show ?thesis using assms(1) by simp
next
  case False
  then show ?thesis using assms by (auto simp: nonzero_vec_def elem_xor elem_mul intro!: exI [of _ b])
qed

lemma mds_scale_column:
  assumes "mds rows cols M" "a < cols" "elem t" "t \<noteq> 0"
    and M': "\<And>i j. i < rows \<Longrightarrow> j < cols \<Longrightarrow> M' i j = (if j = a then mul t (M i j) else M i j)"
  shows "mds rows cols M'"
proof (rule mds_change [OF assms(1), where g = "\<lambda>v. v(a := mul t (v a))" and \<pi> = "\<lambda>i. i"])
  fix v i assume v: "nonzero_vec cols v" and i: "i < rows" "app cols M' v i = 0"
  have "app cols M' v i = app cols (\<lambda>i j. if j = a then mul t (M i j) else M i j) v i"
    by (rule app_cong) (use M' i in auto)
  then show "app cols M (v(a := mul t (v a))) i = 0"
    using app_scale_column [of cols M i v t a] mds_elem [OF assms(1) i(1)] v assms(3) i(2) by (simp add: nonzero_vec_def)
qed (use assms mds_elem [OF assms(1)] elem_mul nonzero_scale in auto)

lemma mds_add_column:
  assumes "mds rows cols M" "a < cols" "b < cols" "a \<noteq> b" "elem t"
    and M': "\<And>i j. i < rows \<Longrightarrow> j < cols \<Longrightarrow> M' i j = (if j = b then M i b XOR mul t (M i a) else M i j)"
  shows "mds rows cols M'"
proof (rule mds_change [OF assms(1), where g = "\<lambda>v. v(a := v a XOR mul t (v b))" and \<pi> = "\<lambda>i. i"])
  fix v i assume v: "nonzero_vec cols v" and i: "i < rows" "app cols M' v i = 0"
  have "app cols M' v i = app cols (\<lambda>i j. if j = b then M i b XOR mul t (M i a) else M i j) v i"
    by (rule app_cong) (use M' i in auto)
  then show "app cols M (v(a := v a XOR mul t (v b))) i = 0"
    using app_add_column [of cols M i v t a b] mds_elem [OF assms(1) i(1)] v assms(2-5) i(2) by (simp add: nonzero_vec_def)
qed (use assms mds_elem [OF assms(1)] elem_mul elem_xor nonzero_add in auto)

text \<open>When the first \<open>cols\<close> rows are those of the identity, a column may be scaled in the rows below.\<close>

definition identity_top :: "nat \<Rightarrow> (nat \<Rightarrow> nat \<Rightarrow> cint) \<Rightarrow> bool" where
  "identity_top n M \<longleftrightarrow> (\<forall>i < n. \<forall>j < n. M i j = (if i = j then 1 else 0))"

lemma app_identity_top:
  assumes "identity_top n M" "i < n" "\<And>j. j < n \<Longrightarrow> elem (v j)"
  shows "app n M v i = v i"
proof -
  have "app n M v i = xsum (\<lambda>j. if j = i then v j else 0) {..<n}"
    unfolding app_def using assms by (intro xs.cong) (auto simp: identity_top_def mul_1)
  then show ?thesis using assms(2) by (simp add: xs.delta)
qed

lemma mds_scale_lower:
  assumes M: "mds rows cols M" and top: "identity_top cols M" and t: "a < cols" "elem t" "t \<noteq> 0"
    and M': "\<And>i j. i < rows \<Longrightarrow> j < cols \<Longrightarrow> M' i j = (if j = a \<and> cols \<le> i then mul t (M i j) else M i j)" "cols \<le> rows"
  shows "mds rows cols M'"
proof (rule mds_change [OF M, where g = "\<lambda>v. v(a := mul t (v a))" and \<pi> = "\<lambda>i. i"])
  fix v i assume v: "nonzero_vec cols v" and i: "i < rows" "app cols M' v i = 0"
  have el: "\<And>j. j < cols \<Longrightarrow> elem (v j)" using v by (simp add: nonzero_vec_def)
  show "app cols M (v(a := mul t (v a))) i = 0"
  proof (cases "i < cols")
    case True
    have "app cols M' v i = app cols M v i" by (rule app_cong) (use M' i True in auto)
    then have "v i = 0" using app_identity_top [OF top True el] i(2) by simp
    then show ?thesis using app_identity_top [OF top True, of "v(a := mul t (v a))"] el t elem_mul by auto
  next
    case False
    have "app cols M' v i = app cols (\<lambda>i j. if j = a then mul t (M i j) else M i j) v i"
      by (rule app_cong) (use M' i False in auto)
    then show ?thesis using app_scale_column [of cols M i v t a] mds_elem [OF M i(1)] el t(2) i(2) by simp
  qed
qed (use assms mds_elem [OF M] elem_mul nonzero_scale in auto)

lemma mds_column:
  assumes "mds rows cols M" "j < cols"
  shows "card {r. r < rows \<and> M r j = 0} < cols"
proof -
  have "nonzero_vec cols (\<lambda>c. if c = j then 1 else 0)" using assms(2) by (auto simp: nonzero_vec_def elem_0 elem_1)
  moreover have "zeros rows cols M (\<lambda>c. if c = j then 1 else 0) = {r. r < rows \<and> M r j = 0}"
    using app_unit [of M _ j cols] mds_elem [OF assms(1)] assms(2) by (auto simp: zeros_def)
  ultimately show ?thesis using mdsD [OF assms(1), of "\<lambda>c. if c = j then 1 else 0"] by simp
qed

lemma mds_lower_nonzero:
  assumes "mds rows cols M" "identity_top cols M" "cols \<le> r" "r < rows" "j < cols"
  shows "M r j \<noteq> 0"
proof
  assume "M r j = 0"
  then have "insert r ({..<cols} - {j}) \<subseteq> {r. r < rows \<and> M r j = 0}" using assms by (auto simp: identity_top_def)
  moreover have "card (insert r ({..<cols} - {j})) = cols" using assms(3,5) by (simp add: card_insert_disjoint)
  ultimately have "cols \<le> card {r. r < rows \<and> M r j = 0}"
    using card_mono [of "{r. r < rows \<and> M r j = 0}" "insert r ({..<cols} - {j})"] by simp
  then show False using mds_column [OF assms(1,5)] by simp
qed

end

section \<open>Roots of polynomials\<close>

context xor_field
begin

fun ev :: "cint list \<Rightarrow> cint \<Rightarrow> cint" where
  "ev [] x = 0"
| "ev (c # cs) x = c XOR mul x (ev cs x)"

text \<open>Division by \<open>x - a\<close>.\<close>

fun quot :: "cint \<Rightarrow> cint list \<Rightarrow> cint list" where
  "quot a [] = []"
| "quot a [c] = []"
| "quot a (c # d # cs) = ev (d # cs) a # quot a (d # cs)"

lemma elem_ev: "elem x \<Longrightarrow> \<forall>c \<in> set cs. elem c \<Longrightarrow> elem (ev cs x)"
  by (induction cs) (auto simp: elem_0 elem_xor elem_mul)

lemma quot_elem: "elem a \<Longrightarrow> \<forall>c \<in> set cs. elem c \<Longrightarrow> \<forall>c \<in> set (quot a cs). elem c"
proof (induction a cs rule: quot.induct)
  case (3 a c d cs)
  then have "elem (ev (d # cs) a)" by (intro elem_ev) auto
  then show ?case using 3 by (metis list.set_intros(2) quot.simps(3) set_ConsD)
qed auto

lemma length_quot: "length (quot a cs) = length cs - 1"
  by (induction a cs rule: quot.induct) auto

lemma horner_diff:
  "elem x \<Longrightarrow> elem a \<Longrightarrow> elem p \<Longrightarrow> elem q \<Longrightarrow> mul x p XOR mul a q = mul x (p XOR q) XOR mul (x XOR a) q"
  by (simp add: mul_xor mul_xor_left xor.assoc)

lemma ev_quot: "elem a \<Longrightarrow> elem x \<Longrightarrow> \<forall>c \<in> set cs. elem c \<Longrightarrow> ev cs x XOR ev cs a = mul (x XOR a) (ev (quot a cs) x)"
proof (induction a cs rule: quot.induct)
  case (3 a c d cs)
  let ?r = "\<lambda>y. ev (d # cs) y" and ?q = "ev (quot a (d # cs)) x"
  have el: "elem (?r x)" "elem (?r a)" by (rule elem_ev; use 3(2-4) in auto)+
  have dcs: "\<forall>c \<in> set (d # cs). elem c" using 3(4) by auto
  have elq: "elem ?q" by (rule elem_ev [OF 3(3) quot_elem [OF 3(2) dcs]])
  have IH: "?r x XOR ?r a = mul (x XOR a) ?q" by (rule 3(1) [OF 3(2,3) dcs])
  have "mul x (?r x) XOR mul a (?r a) = mul x (?r x XOR ?r a) XOR mul (x XOR a) (?r a)"
    by (rule horner_diff [OF 3(3,2) el])
  also have "mul x (?r x XOR ?r a) = mul (x XOR a) (mul x ?q)"
    unfolding IH using 3(2,3) elq mul_assoc [of x "x XOR a" ?q] mul_assoc [of "x XOR a" x ?q] mul_commute [of x "x XOR a"]
    by (simp add: elem_xor)
  also have "\<dots> XOR mul (x XOR a) (?r a) = mul (x XOR a) (mul x ?q XOR ?r a)"
    using mul_xor [of "x XOR a" "mul x ?q" "?r a"] 3(2,3) el elq by (simp add: elem_xor elem_mul)
  finally show ?case by (simp add: xor.commute xor.left_commute xor.assoc)
next
  case (2 a c)
  then show ?case by (simp add: mul_0_right elem_xor)
qed (simp add: elem_xor)

lemma quot_zero: "elem a \<Longrightarrow> \<forall>c \<in> set (quot a cs). c = 0 \<Longrightarrow> ev cs a = 0 \<Longrightarrow> \<forall>c \<in> set cs. c = 0"
proof (induction a cs rule: quot.induct)
  case (3 a c d cs)
  have z: "ev (d # cs) a = 0" "\<forall>c \<in> set (quot a (d # cs)). c = 0" using 3(3) by auto
  have "\<forall>c \<in> set (d # cs). c = 0" using 3(1) [OF 3(2) z(2,1)] .
  moreover have "c = 0" using 3(2,4) z(1) by simp
  ultimately show ?case by simp
qed auto

text \<open>A polynomial with as many roots as coefficients is zero.\<close>

lemma roots_bound:
  assumes "\<forall>c \<in> set cs. elem c" "finite R" "\<forall>r \<in> R. elem r \<and> ev cs r = 0" "length cs \<le> card R"
  shows "\<forall>c \<in> set cs. c = 0"
  using assms
proof (induction "length cs" arbitrary: cs R)
  case (Suc n)
  then have "R \<noteq> {}" by auto
  then obtain a where a: "a \<in> R" by blast
  have ea: "elem a" "ev cs a = 0" using a Suc.prems(3) by auto
  have "ev (quot a cs) r = 0" if r: "r \<in> R - {a}" for r
  proof -
    have "mul (r XOR a) (ev (quot a cs) r) = 0" using ev_quot [of a r cs] r ea Suc.prems(1,3) by simp
    moreover have "elem (ev (quot a cs) r)" by (rule elem_ev) (use r Suc.prems quot_elem [OF ea(1) Suc.prems(1)] in auto)
    ultimately have "r XOR a = 0 \<or> ev (quot a cs) r = 0" using mul_eq_0 [of "r XOR a"] r Suc.prems(3) ea elem_xor by blast
    then show ?thesis using r by auto
  qed
  then have "\<forall>c \<in> set (quot a cs). c = 0"
    using Suc.hyps(1) [of "quot a cs" "R - {a}"] Suc.hyps(2) Suc.prems quot_elem [OF ea(1) Suc.prems(1)] a
    by (simp add: length_quot card_Diff_singleton)
  then show ?case using quot_zero ea by blast
qed simp

section \<open>The extended Vandermonde matrix\<close>

fun pw :: "cint \<Rightarrow> nat \<Rightarrow> cint" where
  "pw x 0 = 1"
| "pw x (Suc n) = mul (pw x n) x"

lemma elem_pw: "elem x \<Longrightarrow> elem (pw x n)"
  by (induction n) (auto simp: elem_1 elem_mul)

lemma ev_app:
  assumes "elem x" "\<And>j. j < n \<Longrightarrow> elem (v j)"
  shows "ev (map v [0..<n]) x = xsum (\<lambda>j. mul (pw x j) (v j)) {..<n}"
  using assms(2)
proof (induction n arbitrary: v)
  case (Suc n)
  have "ev (map v [0..<Suc n]) x = v 0 XOR mul x (ev (map (\<lambda>j. v (Suc j)) [0..<n]) x)"
    by (simp add: upt_conv_Cons map_Suc_upt [symmetric] comp_def del: upt_Suc)
  also have "ev (map (\<lambda>j. v (Suc j)) [0..<n]) x = xsum (\<lambda>j. mul (pw x j) (v (Suc j))) {..<n}" by (rule Suc.IH) (use Suc.prems in auto)
  also have "mul x \<dots> = xsum (\<lambda>j. mul (pw x (Suc j)) (v (Suc j))) {..<n}"
    by (subst mul_xsum) (use assms(1) Suc.prems elem_pw in \<open>auto simp: elem_mul mul_assoc [symmetric] mul_commute [of x] intro!: xs.cong\<close>)
  finally show ?case using Suc.prems by (simp add: xs.lessThan_Suc_shift mul_1 del: pw.simps(2) xs.lessThan_Suc)
qed simp

definition vandermonde :: "nat \<Rightarrow> nat \<Rightarrow> (nat \<Rightarrow> cint) \<Rightarrow> nat \<Rightarrow> nat \<Rightarrow> cint" where
  "vandermonde rows cols x i j = (if Suc i = rows then (if Suc j = cols then 1 else 0) else pw (x i) j)"

lemma vandermonde_mds:
  assumes x: "\<And>i. i < rows \<Longrightarrow> elem (x i)" "inj_on x {..<rows}" and cols: "0 < cols"
  shows "mds rows cols (vandermonde rows cols x)"
  unfolding mds_def
proof (intro conjI allI impI)
  let ?M = "vandermonde rows cols x"
  show "elem (?M i j)" if "i < rows" "j < cols" for i j
    using that x(1) elem_pw by (simp add: vandermonde_def elem_0 elem_1)
  fix v assume v: "nonzero_vec cols v"
  let ?Z = "{i. Suc i < rows \<and> app cols ?M v i = 0}"
  have el: "\<And>j. j < cols \<Longrightarrow> elem (v j)" using v by (simp add: nonzero_vec_def)
  have inner: "app cols ?M v i = ev (map v [0..<cols]) (x i)" if "Suc i < rows" for i
    using ev_app [of "x i" cols v] x(1) el that by (simp add: app_def vandermonde_def)
  have fin: "finite ?Z" by (rule finite_subset [of _ "{..<rows}"]) auto
  have inj: "card (x ` ?Z) = card ?Z" by (rule card_image) (use x(2) in \<open>auto intro: inj_on_subset\<close>)
  have bound: "card ?Z < length cs"
    if cs: "\<forall>c \<in> set cs. elem c" "\<And>i. i \<in> ?Z \<Longrightarrow> ev cs (x i) = 0" "\<exists>c \<in> set cs. c \<noteq> 0" for cs
  proof (rule ccontr)
    assume "\<not> card ?Z < length cs"
    then have len: "length cs \<le> card (x ` ?Z)" using inj by simp
    have roots: "\<forall>r \<in> x ` ?Z. elem r \<and> ev cs r = 0"
    proof
      fix r assume "r \<in> x ` ?Z"
      then obtain i where i: "i \<in> ?Z" "r = x i" by (rule imageE)
      then have "i < rows" by simp
      then show "elem r \<and> ev cs r = 0" using x(1) cs(2) [OF i(1)] i(2) by simp
    qed
    have "\<forall>c \<in> set cs. c = 0" by (rule roots_bound [OF cs(1) finite_imageI [OF fin] roots len])
    then show False using cs(3) by blast
  qed
  obtain j where j: "j < cols" "v j \<noteq> 0" using v by (auto simp: nonzero_vec_def)
  obtain c where c: "cols = Suc c" using cols by (cases cols) auto
  have last: "app cols ?M v i = v c" if "Suc i = rows" for i
  proof -
    have "app cols ?M v i = xsum (\<lambda>j. if j = c then v j else 0) {..<cols}"
      unfolding app_def using that el c by (intro xs.cong) (auto simp: vandermonde_def mul_1)
    then show ?thesis using c by (simp add: xs.delta)
  qed
  show "card (zeros rows cols ?M v) < cols"
  proof (cases "v c = 0")
    case False
    then have "zeros rows cols ?M v \<subseteq> ?Z" using last by (auto simp: zeros_def) (metis Suc_lessI)
    then have "card (zeros rows cols ?M v) \<le> card ?Z" using card_mono [OF fin] by blast
    also have "\<dots> < length (map v [0..<cols])"
    proof (rule bound)
      show "\<exists>c \<in> set (map v [0..<cols]). c \<noteq> 0" using j by (intro bexI [of _ "v j"]) auto
    qed (use el inner in auto)
    finally show ?thesis by simp
  next
    case True
    have "zeros rows cols ?M v \<subseteq> insert (rows - 1) ?Z" by (auto simp: zeros_def)
    then have "card (zeros rows cols ?M v) \<le> card (insert (rows - 1) ?Z)" by (rule card_mono [OF finite.insertI [OF fin]])
    also have "\<dots> \<le> Suc (card ?Z)" using fin by (simp add: card_insert_if)
    also have "card ?Z < c"
    proof -
      have "ev (map v [0..<c]) (x i) = ev (map v [0..<cols]) (x i)" if "Suc i < rows" for i
        using ev_app [of "x i" cols v] ev_app [of "x i" c v] x(1) el that c True elem_pw by (simp add: mul_0_right)
      then have "ev (map v [0..<c]) (x i) = 0" if "i \<in> ?Z" for i using that inner by auto
      moreover have "\<exists>a \<in> set (map v [0..<c]). a \<noteq> 0"
        using j c True by (intro bexI [of _ "v j"]) (auto simp: less_Suc_eq)
      ultimately have "card ?Z < length (map v [0..<c])" by (intro bound) (use el c in auto)
      then show ?thesis by simp
    qed
    finally show ?thesis using c by simp
  qed
qed

end

end
