(* ===== verification/Mds_Cauchy.thy ===== *)
theory Mds_Cauchy
  imports Mds
begin

unbundle bit_operations_syntax

text \<open>
  Two ways to show that a matrix with the identity on top keeps its rank after any losses: a row of ones
  with a row of distinct nonzero elements below it, and the inverses of sums of two families of distinct
  elements.  Both count the zero entries of a product against the nonzero entries of the vector.
\<close>

section \<open>Two coding rows\<close>

context xor_field
begin

text \<open>The support of a vector; the rows of the identity annihilate it outside.\<close>

lemma zeros_identity_top:
  assumes "identity_top k M" "nonzero_vec k v"
  shows "zeros (k + m) k M v = {j. j < k \<and> v j = 0} \<union> {i. k \<le> i \<and> i < k + m \<and> app k M v i = 0}"
  using assms app_identity_top [OF assms(1), of _ v] by (auto simp: zeros_def nonzero_vec_def)

lemma card_zero_entries:
  fixes v :: "nat \<Rightarrow> cint"
  shows "card {j. j < k \<and> v j = 0} + card {j. j < k \<and> v j \<noteq> 0} = k"
proof -
  have "card ({j. j < k \<and> v j = 0} \<union> {j. j < k \<and> v j \<noteq> 0}) = card {j. j < k \<and> v j = 0} + card {j. j < k \<and> v j \<noteq> 0}"
    by (intro card_Un_disjoint) auto
  moreover have "{j. j < k \<and> v j = 0} \<union> {j. j < k \<and> v j \<noteq> 0} = {..<k}" by auto
  ultimately show ?thesis by simp
qed

text \<open>
  A matrix with the identity on top is separable when fewer of its other rows annihilate a vector than
  the vector has nonzero entries.
\<close>

lemma mds_by_support:
  assumes top: "identity_top k M" and el: "\<And>i j. i < k + m \<Longrightarrow> j < k \<Longrightarrow> elem (M i j)"
    and few: "\<And>v. nonzero_vec k v \<Longrightarrow> card {i. k \<le> i \<and> i < k + m \<and> app k M v i = 0} < card {j. j < k \<and> v j \<noteq> 0}"
  shows "mds (k + m) k M"
  unfolding mds_def
proof (intro conjI allI impI)
  fix v assume v: "nonzero_vec k v"
  have "card (zeros (k + m) k M v) \<le> card {j. j < k \<and> v j = 0} + card {i. k \<le> i \<and> i < k + m \<and> app k M v i = 0}"
    unfolding zeros_identity_top [OF top v] by (rule card_Un_le)
  also have "\<dots> < card {j. j < k \<and> v j = 0} + card {j. j < k \<and> v j \<noteq> 0}" using few [OF v] by simp
  finally show "card (zeros (k + m) k M v) < k" unfolding card_zero_entries .
qed (use el in auto)

lemma app_support:
  assumes "\<And>j. j < k \<Longrightarrow> elem (M i j)" "\<And>j. j < k \<Longrightarrow> elem (v j)"
  shows "app k M v i = xsum (\<lambda>j. mul (M i j) (v j)) {j. j < k \<and> v j \<noteq> 0}"
  unfolding app_def by (rule xs.mono_neutral_right) (use assms in auto)

lemma two_rows_mds:
  assumes top: "identity_top k M" and ones: "\<And>j. j < k \<Longrightarrow> M k j = 1"
    and c: "\<And>j. j < k \<Longrightarrow> elem (M (k + 1) j) \<and> M (k + 1) j \<noteq> 0" "inj_on (M (k + 1)) {..<k}"
  shows "mds (k + 2) k M"
proof (rule mds_by_support [OF top])
  show el: "elem (M i j)" if "i < k + 2" "j < k" for i j
  proof -
    have "i < k \<or> i = k \<or> i = k + 1" using that(1) by auto
    then show ?thesis using top ones c(1) that(2) elem_0 elem_1 by (auto simp: identity_top_def)
  qed
  fix v assume v: "nonzero_vec k v"
  have ev: "\<And>j. j < k \<Longrightarrow> elem (v j)" using v by (simp add: nonzero_vec_def)
  let ?S = "{j. j < k \<and> v j \<noteq> 0}" and ?Z = "{i. k \<le> i \<and> i < k + 2 \<and> app k M v i = 0}"
  have sub: "?Z \<subseteq> {k, k + 1}" by auto
  have fin: "finite ?S" by simp
  have ne: "?S \<noteq> {}" using v by (auto simp: nonzero_vec_def)
  have P: "app k M v k = xsum v ?S" "app k M v (k + 1) = xsum (\<lambda>j. mul (M (k + 1) j) (v j)) ?S"
    using app_support [of k M k v] app_support [of k M "k + 1" v] el ev ones elem_1 by (auto simp: mul_1 intro!: xs.cong)
  have "card ?S \<noteq> 0" using ne fin by simp
  then consider "card ?S = 1" | "card ?S = 2" | "2 < card ?S" by linarith
  then show "card ?Z < card ?S"
  proof cases
    case 1
    then obtain a where a: "?S = {a}" by (auto simp: card_1_singleton_iff)
    then have aS: "a < k" "v a \<noteq> 0" by auto
    have "app k M v k \<noteq> 0" "app k M v (k + 1) \<noteq> 0"
      using P a aS mul_eq_0 [of "M (k + 1) a" "v a"] c(1) [OF aS(1)] ev by auto
    then have "?Z = {}" using sub by auto
    then show ?thesis using 1 by simp
  next
    case 2
    then obtain a b where ab: "?S = {a, b}" "a \<noteq> b" by (auto simp: card_2_iff)
    then have S: "a < k" "v a \<noteq> 0" "b < k" "v b \<noteq> 0" by auto
    have "\<not> (app k M v k = 0 \<and> app k M v (k + 1) = 0)"
    proof
      assume z: "app k M v k = 0 \<and> app k M v (k + 1) = 0"
      then have "v a = v b" using P(1) ab by simp
      then have "mul (M (k + 1) a XOR M (k + 1) b) (v a) = 0"
        using z P(2) ab mul_xor_left [of "M (k + 1) a" "M (k + 1) b" "v a"] c(1) S ev by simp
      then have "M (k + 1) a = M (k + 1) b" using mul_eq_0 [of "M (k + 1) a XOR M (k + 1) b" "v a"] S ev c(1) elem_xor by auto
      then show False using c(2) S ab(2) by (auto dest: inj_onD)
    qed
    then have "k \<notin> ?Z \<or> k + 1 \<notin> ?Z" by auto
    then have "?Z \<subseteq> {k} \<or> ?Z \<subseteq> {k + 1}" using sub by auto
    then have "card ?Z \<le> 1" using card_mono [of "{k}" ?Z] card_mono [of "{k + 1}" ?Z] by auto
    then show ?thesis using 2 by simp
  next
    case 3
    have "card ?Z \<le> card {k, k + 1}" by (rule card_mono [OF _ sub]) simp
    then show ?thesis using 3 by simp
  qed
qed

section \<open>Cauchy matrices\<close>

definition poly_fun :: "nat \<Rightarrow> (cint \<Rightarrow> cint) \<Rightarrow> bool" where
  "poly_fun n f \<longleftrightarrow> (\<exists>cs. length cs = n \<and> (\<forall>c \<in> set cs. elem c) \<and> (\<forall>x. elem x \<longrightarrow> f x = ev cs x))"

lemma ev_replicate_0 [simp]: "elem x \<Longrightarrow> ev (replicate n 0) x = 0"
  by (induction n) auto

lemma poly_fun_0: "poly_fun n (\<lambda>x. 0)"
  unfolding poly_fun_def by (rule exI [of _ "replicate n 0"]) (auto simp: elem_0)

lemma ev_map2_xor:
  "length as = length bs \<Longrightarrow> elem x \<Longrightarrow> \<forall>c \<in> set as. elem c \<Longrightarrow> \<forall>c \<in> set bs. elem c \<Longrightarrow>
   ev (map2 (XOR) as bs) x = ev as x XOR ev bs x \<and> (\<forall>c \<in> set (map2 (XOR) as bs). elem c)"
  by (induction as bs rule: list_induct2) (auto simp: elem_ev mul_xor elem_xor xor.assoc xor.left_commute)

lemma poly_fun_add: "poly_fun n f \<Longrightarrow> poly_fun n g \<Longrightarrow> poly_fun n (\<lambda>x. f x XOR g x)"
  unfolding poly_fun_def
proof (elim exE conjE)
  fix as bs assume a: "length as = n" "\<forall>c \<in> set as. elem c" "\<forall>x. elem x \<longrightarrow> f x = ev as x"
    and b: "length bs = n" "\<forall>c \<in> set bs. elem c" "\<forall>x. elem x \<longrightarrow> g x = ev bs x"
  then show "\<exists>cs. length cs = n \<and> (\<forall>c \<in> set cs. elem c) \<and> (\<forall>x. elem x \<longrightarrow> f x XOR g x = ev cs x)"
    using ev_map2_xor [of as bs] elem_0 by (intro exI [of _ "map2 (XOR) as bs"]) (metis length_map length_zip min.idem)
qed

lemma ev_scale: "elem t \<Longrightarrow> elem x \<Longrightarrow> \<forall>c \<in> set cs. elem c \<Longrightarrow> ev (map (mul t) cs) x = mul t (ev cs x)"
proof (induction cs)
  case (Cons c cs)
  then show ?case using mul_rotate [of t x "ev cs x"] mul_assoc [of x t "ev cs x"] mul_commute [of x t] mul_assoc [of t x "ev cs x"]
    by (simp add: mul_xor elem_mul elem_ev)
qed simp

lemma poly_fun_scale: "poly_fun n f \<Longrightarrow> elem t \<Longrightarrow> poly_fun n (\<lambda>x. mul t (f x))"
  unfolding poly_fun_def
proof (elim exE conjE)
  fix cs assume t: "elem t" and c: "length cs = n" "\<forall>c \<in> set cs. elem c" "\<forall>x. elem x \<longrightarrow> f x = ev cs x"
  then show "\<exists>cs. length cs = n \<and> (\<forall>c \<in> set cs. elem c) \<and> (\<forall>x. elem x \<longrightarrow> mul t (f x) = ev cs x)"
    using ev_scale [OF t] by (intro exI [of _ "map (mul t) cs"]) (auto simp: elem_mul)
qed

lemma poly_fun_Suc: "poly_fun n f \<Longrightarrow> poly_fun (Suc n) f"
  unfolding poly_fun_def
proof (elim exE conjE)
  fix cs assume c: "length cs = n" "\<forall>c \<in> set cs. elem c" "\<forall>x. elem x \<longrightarrow> f x = ev cs x"
  have "elem x \<Longrightarrow> ev (cs @ [0]) x = ev cs x" for x by (induction cs) auto
  then show "\<exists>cs. length cs = Suc n \<and> (\<forall>c \<in> set cs. elem c) \<and> (\<forall>x. elem x \<longrightarrow> f x = ev cs x)"
    using c by (intro exI [of _ "cs @ [0]"]) (auto simp: elem_0)
qed

lemma poly_fun_factor:
  assumes "poly_fun n f" "elem a"
  shows "poly_fun (Suc n) (\<lambda>x. mul (x XOR a) (f x))"
proof -
  obtain cs where c: "length cs = n" "\<forall>c \<in> set cs. elem c" "\<forall>x. elem x \<longrightarrow> f x = ev cs x"
    using assms(1) by (auto simp: poly_fun_def)
  have "poly_fun (Suc n) (\<lambda>x. mul x (f x))"
    unfolding poly_fun_def using c by (intro exI [of _ "0 # cs"]) (auto simp: elem_0)
  moreover have "poly_fun (Suc n) (\<lambda>x. mul a (f x))" by (intro poly_fun_Suc poly_fun_scale assms)
  ultimately have "poly_fun (Suc n) (\<lambda>x. mul x (f x) XOR mul a (f x))" by (rule poly_fun_add)
  then show ?thesis unfolding poly_fun_def using c(2,3) assms(2) mul_xor_left elem_ev by (metis (no_types, lifting))
qed

lemma poly_fun_roots:
  assumes "poly_fun n f" "finite R" "\<forall>r \<in> R. elem r \<and> f r = 0" "n \<le> card R" "elem x"
  shows "f x = 0"
proof -
  obtain cs where c: "length cs = n" "\<forall>c \<in> set cs. elem c" "\<forall>x. elem x \<longrightarrow> f x = ev cs x"
    using assms(1) by (auto simp: poly_fun_def)
  have "\<forall>c \<in> set cs. c = 0" by (rule roots_bound [of cs R]) (use c assms in auto)
  then have "cs = replicate n 0" using c(1) by (metis replicate_eqI)
  then show ?thesis using c(3) assms(5) by simp
qed

text \<open>
  The numerator \<open>f\<close> and denominator \<open>g\<close> of \<open>\<Sum>\<^sub>j v\<^sub>j / (x + y\<^sub>j)\<close>.
\<close>

definition fraction :: "(nat \<Rightarrow> cint) \<Rightarrow> (nat \<Rightarrow> cint) \<Rightarrow> nat set \<Rightarrow> (cint \<Rightarrow> cint) \<Rightarrow> (cint \<Rightarrow> cint) \<Rightarrow> bool" where
  "fraction y v S f g \<longleftrightarrow> poly_fun (card S) f \<and> poly_fun (Suc (card S)) g \<and>
     (\<forall>x. elem x \<longrightarrow> elem (f x) \<and> elem (g x) \<and> (g x = 0 \<longleftrightarrow> x \<in> y ` S)) \<and> (\<forall>j \<in> S. f (y j) \<noteq> 0) \<and>
     (\<forall>x. elem x \<longrightarrow> x \<notin> y ` S \<longrightarrow> f x = mul (g x) (xsum (\<lambda>j. mul (dv 1 (x XOR y j)) (v j)) S))"

lemma fraction_insert:
  assumes fr: "fraction y v S f g" and fin: "finite S" "a \<notin> S" "inj_on y (insert a S)"
    and el: "elem (y a)" "elem (v a)" "v a \<noteq> 0" "\<And>j. j \<in> S \<Longrightarrow> elem (y j) \<and> elem (v j)"
  shows "fraction y v (insert a S) (\<lambda>x. mul (x XOR y a) (f x) XOR mul (v a) (g x)) (\<lambda>x. mul (x XOR y a) (g x))"
proof -
  let ?f = "\<lambda>x. mul (x XOR y a) (f x) XOR mul (v a) (g x)" and ?g = "\<lambda>x. mul (x XOR y a) (g x)"
  have e: "elem (f x)" "elem (g x)" "g x = 0 \<longleftrightarrow> x \<in> y ` S" if "elem x" for x using fr that by (auto simp: fraction_def)
  have card: "card (insert a S) = Suc (card S)" using fin by simp
  have new: "y a \<notin> y ` S" using fin by auto
  have "poly_fun (Suc (card S)) ?f" "poly_fun (Suc (Suc (card S))) ?g"
    using fr el by (auto simp: fraction_def intro!: poly_fun_add poly_fun_scale poly_fun_factor)
  moreover have "?g x = 0 \<longleftrightarrow> x \<in> y ` insert a S" if "elem x" for x
    using e [OF that] mul_eq_0 [of "x XOR y a" "g x"] that el(1) elem_xor by auto
  moreover have "?f (y j) \<noteq> 0" if "j \<in> insert a S" for j
  proof (cases "j = a")
    case True
    have "g (y a) \<noteq> 0" using e(3) [OF el(1)] new by simp
    then show ?thesis using True e [OF el(1)] mul_eq_0 [of "v a" "g (y a)"] el by auto
  next
    case False
    then have j: "j \<in> S" "elem (y j)" using that el(4) by auto
    then have ya: "y j \<noteq> y a" using new by (metis imageI)
    have "f (y j) \<noteq> 0" "g (y j) = 0" using fr j e(3) [OF j(2)] by (auto simp: fraction_def)
    then show ?thesis using mul_eq_0 [of "y j XOR y a" "f (y j)"] j ya e [OF j(2)] el elem_xor by auto
  qed
  moreover have "?f x = mul (?g x) (xsum (\<lambda>j. mul (dv 1 (x XOR y j)) (v j)) (insert a S))" if x: "elem x" "x \<notin> y ` insert a S" for x
  proof -
    let ?s = "xsum (\<lambda>j. mul (dv 1 (x XOR y j)) (v j)) S" and ?t = "x XOR y a"
    have d: "elem ?t" "?t \<noteq> 0" "elem (dv 1 ?t)" using x el elem_xor elem_dv elem_1 by auto
    have es: "elem ?s"
      by (rule elem_xsum, rule elem_mul, rule elem_dv [OF elem_1]) (use x el elem_xor in auto)
    have "mul (?g x) (mul (dv 1 ?t) (v a)) = mul (v a) (g x)"
    proof -
      have "mul (?g x) (mul (dv 1 ?t) (v a)) = mul (mul (g x) ?t) (mul (dv 1 ?t) (v a))"
        using mul_commute [OF d(1) e(2) [OF x(1)]] by simp
      also have "\<dots> = mul (g x) (mul ?t (mul (dv 1 ?t) (v a)))"
        using mul_assoc [OF e(2) [OF x(1)] d(1)] elem_mul [OF d(3) el(2)] by simp
      also have "mul ?t (mul (dv 1 ?t) (v a)) = v a"
        using mul_assoc [OF d(1,3) el(2)] mul_dv [OF elem_1 d(1,2)] mul_1 el(2) by simp
      finally show ?thesis using mul_commute [OF e(2) [OF x(1)] el(2)] by simp
    qed
    moreover have "f x = mul (g x) ?s" using fr x by (simp add: fraction_def)
    then have "mul ?t (f x) = mul (?g x) ?s" using mul_assoc [OF d(1) e(2) [OF x(1)] es] by simp
    moreover have "mul (?g x) (mul (dv 1 ?t) (v a) XOR ?s) = mul (?g x) (mul (dv 1 ?t) (v a)) XOR mul (?g x) ?s"
      by (rule mul_xor) (use d e [OF x(1)] el es elem_mul in auto)
    ultimately show ?thesis using fin by (simp add: xor.commute)
  qed
  ultimately show ?thesis unfolding fraction_def card using e el(1,2) elem_mul elem_xor by simp
qed

lemma fraction_exists:
  assumes "finite S" "inj_on y S" "\<And>j. j \<in> S \<Longrightarrow> elem (y j) \<and> elem (v j) \<and> v j \<noteq> 0"
  shows "\<exists>f g. fraction y v S f g"
  using assms
proof (induction S rule: finite_induct)
  case empty
  have "poly_fun 1 (\<lambda>x. 1)" unfolding poly_fun_def by (rule exI [of _ "[1]"]) (auto simp: elem_1)
  then have "fraction y v {} (\<lambda>x. 0) (\<lambda>x. 1)" using poly_fun_0 by (simp add: fraction_def elem_0 elem_1)
  then show ?case by blast
next
  case (insert a S)
  then obtain f g where fr: "fraction y v S f g" by (auto simp: inj_on_insert)
  show ?case using fraction_insert [OF fr insert.hyps insert.prems(1)] insert.prems(2) by blast
qed

lemma cauchy_mds:
  assumes top: "identity_top k M" and xy: "\<And>i. i < m \<Longrightarrow> elem (x i)" "\<And>j. j < k \<Longrightarrow> elem (y j)" "inj_on x {..<m}" "inj_on y {..<k}"
      "\<And>i j. i < m \<Longrightarrow> j < k \<Longrightarrow> x i \<noteq> y j"
    and M: "\<And>i j. i < m \<Longrightarrow> j < k \<Longrightarrow> M (k + i) j = dv 1 (x i XOR y j)"
  shows "mds (k + m) k M"
proof (rule mds_by_support [OF top])
  have low: "\<exists>c < m. i = k + c" if "k \<le> i" "i < k + m" for i using that by (intro exI [of _ "i - k"]) auto
  show el: "elem (M i j)" if ij: "i < k + m" "j < k" for i j
  proof (cases "i < k")
    case True
    then show ?thesis using top ij(2) elem_0 elem_1 by (simp add: identity_top_def)
  next
    case False
    then obtain c where c: "c < m" "i = k + c" using low [OF _ ij(1)] by auto
    then show ?thesis using M xy ij(2) elem_dv [OF elem_1] elem_xor by simp
  qed
  fix v assume v: "nonzero_vec k v"
  have ev: "\<And>j. j < k \<Longrightarrow> elem (v j)" using v by (simp add: nonzero_vec_def)
  let ?S = "{j. j < k \<and> v j \<noteq> 0}" and ?Z = "{i. k \<le> i \<and> i < k + m \<and> app k M v i = 0}"
  have inj: "inj_on y ?S" using xy(4) by (rule inj_on_subset) auto
  have "\<exists>f g. fraction y v ?S f g" by (rule fraction_exists [OF _ inj]) (use xy(2) ev in auto)
  then obtain f g where fr: "fraction y v ?S f g" by blast
  obtain j where j: "j < k" "v j \<noteq> 0" using v by (auto simp: nonzero_vec_def)
  show "card ?Z < card ?S"
  proof (rule ccontr)
    assume n: "\<not> card ?Z < card ?S"
    let ?R = "(\<lambda>i. x (i - k)) ` ?Z"
    have ix: "inj_on (\<lambda>i. x (i - k)) ?Z"
    proof (rule inj_onI)
      fix i i' assume "i \<in> ?Z" "i' \<in> ?Z" "x (i - k) = x (i' - k)"
      then have "i - k = i' - k" using inj_onD [OF xy(3), of "i - k" "i' - k"] by auto
      then show "i = i'" using \<open>i \<in> ?Z\<close> \<open>i' \<in> ?Z\<close> by auto
    qed
    have "f (x c) = 0" if c: "c < m" "app k M v (k + c) = 0" for c
    proof -
      have "app k M v (k + c) = xsum (\<lambda>j. mul (dv 1 (x c XOR y j)) (v j)) ?S"
      proof -
        have "app k M v (k + c) = xsum (\<lambda>j. mul (M (k + c) j) (v j)) ?S"
          by (rule app_support) (use el ev c(1) in auto)
        also have "\<dots> = xsum (\<lambda>j. mul (dv 1 (x c XOR y j)) (v j)) ?S" by (rule xs.cong) (use c(1) M in auto)
        finally show ?thesis .
      qed
      moreover have "x c \<notin> y ` ?S" using xy(5) c(1) by auto
      ultimately show ?thesis using fr xy(1) [OF c(1)] c(2) by (simp add: fraction_def)
    qed
    then have "\<forall>r \<in> ?R. elem r \<and> f r = 0" using low xy(1) by fastforce
    moreover have "card ?S \<le> card ?R" using n card_image [OF ix] by simp
    moreover have "finite ?R" by (rule finite_imageI, rule finite_subset [of _ "{..<k + m}"]) auto
    ultimately have "f (y j) = 0" using poly_fun_roots [of "card ?S" f ?R "y j"] fr xy(2) j(1) by (simp add: fraction_def)
    then show False using fr j by (auto simp: fraction_def)
  qed
qed

end

end
