(* ===== verification/Reed_Sol.thy ===== *)
theory Reed_Sol
  imports Jerasure_Codec
begin

unbundle bit_operations_syntax

text \<open>
  The matrices of \<^verbatim>\<open>reed_sol.c\<close>: the RAID-6 matrix, the extended Vandermonde matrix and the distribution
  matrix derived from it, and the RAID-6 encoder with its region doubling, whose masks are static
  variables computed at the first call.  Memory is always available to these functions.
\<close>

section \<open>Coding matrices\<close>

text \<open>\<open>None\<close> is the null pointer the functions return for a width or a size they do not support.\<close>

definition reed_sol_r6_coding_matrix :: "nat \<Rightarrow> nat \<Rightarrow> cint list option" where
  "reed_sol_r6_coding_matrix k w =
     (if w \<noteq> 8 \<and> w \<noteq> 16 \<and> w \<noteq> 32 then None
      else
        let matrix = fold (\<lambda>i matrix. matrix[i := 1]) [0..<k] (replicate (2 * k) 0);
            matrix = matrix[k := 1]
        in Some (fst (fold (\<lambda>i (matrix, tmp).
             let tmp = gmul w tmp 2 in (matrix[k + i := tmp], tmp)) [1..<k] (matrix, 1))))"

definition reed_sol_extended_vandermonde_matrix :: "nat \<Rightarrow> nat \<Rightarrow> nat \<Rightarrow> cint list option" where
  "reed_sol_extended_vandermonde_matrix rows cols w =
     (if w < 30 \<and> 2 ^ w < rows then None
      else if w < 30 \<and> 2 ^ w < cols then None
      else
        let vdm = replicate (rows * cols) 0;
            vdm = vdm[0 := 1];
            vdm = fold (\<lambda>j vdm. vdm[j := 0]) [1..<cols] vdm
        in if rows = 1 then Some vdm
           else
             let i = (rows - 1) * cols;
                 vdm = fold (\<lambda>j vdm. vdm[i + j := 0]) [0..<cols - 1] vdm;
                 vdm = vdm[i + (cols - 1) := 1]
             in if rows = 2 then Some vdm
                else Some (fold (\<lambda>i vdm.
                       fst (fold (\<lambda>j (vdm, k). (vdm[i * cols + j := k], gmul w k (of_nat i)))
                              [0..<cols] (vdm, 1))) [1..<rows - 1] vdm))"

text \<open>The steps for one column of the distribution matrix: the swap, the scaling, the elimination.\<close>

definition vdm_scale_column :: "nat \<Rightarrow> nat \<Rightarrow> nat \<Rightarrow> nat \<Rightarrow> cint list \<Rightarrow> cint list" where
  "vdm_scale_column w rows cols i dist =
     (let sindex = i * cols
      in if dist ! (sindex + i) \<noteq> 1 then
           let tmp = gdiv w 1 (dist ! (sindex + i))
           in fold (\<lambda>j dist. dist[i + j * cols := gmul w tmp (dist ! (i + j * cols))]) [0..<rows] dist
         else dist)"

definition vdm_clear_column :: "nat \<Rightarrow> nat \<Rightarrow> nat \<Rightarrow> nat \<Rightarrow> nat \<Rightarrow> cint list \<Rightarrow> cint list" where
  "vdm_clear_column w rows cols i j dist =
     (let tmp = dist ! (i * cols + j)
      in if j \<noteq> i \<and> tmp \<noteq> 0 then
           fold (\<lambda>k dist. dist[j + k * cols := dist ! (j + k * cols) XOR gmul w tmp (dist ! (i + k * cols))])
             [0..<rows] dist
         else dist)"

definition vdm_column :: "nat \<Rightarrow> nat \<Rightarrow> nat \<Rightarrow> nat \<Rightarrow> cint list \<Rightarrow> fault + cint list" where
  "vdm_column w rows cols i dist =
     (let sindex = i * cols;
          j = scan_from (\<lambda>j. dist ! (j * cols + i) \<noteq> 0) i rows
      in if j \<ge> rows then Inl Exit
         else
           let dist = (if j \<noteq> i then row_swap cols (j * cols) sindex dist else dist);
               dist = vdm_scale_column w rows cols i dist
           in Inr (fold (vdm_clear_column w rows cols i) [0..<cols] dist))"

text \<open>The last two passes: row \<^verbatim>\<open>cols\<close> becomes all ones, then the first column of the rows below.\<close>

definition vdm_ones_column :: "nat \<Rightarrow> nat \<Rightarrow> nat \<Rightarrow> nat \<Rightarrow> cint list \<Rightarrow> cint list" where
  "vdm_ones_column w rows cols j dist =
     (let sindex = cols * cols + j;
          tmp = dist ! sindex
      in if tmp \<noteq> 1 then
           let tmp = gdiv w 1 tmp
           in fold (\<lambda>i dist. let srindex = sindex + (i - cols) * cols
                             in dist[srindex := gmul w tmp (dist ! srindex)]) [cols..<rows] dist
         else dist)"

definition vdm_ones_row :: "nat \<Rightarrow> nat \<Rightarrow> nat \<Rightarrow> cint list \<Rightarrow> cint list" where
  "vdm_ones_row w cols i dist =
     (let sindex = cols * i;
          tmp = dist ! sindex
      in if tmp \<noteq> 1 then
           let tmp = gdiv w 1 tmp
           in fold (\<lambda>j dist. dist[sindex + j := gmul w (dist ! (sindex + j)) tmp]) [0..<cols] dist
         else dist)"

definition reed_sol_big_vandermonde_distribution_matrix :: "nat \<Rightarrow> nat \<Rightarrow> nat \<Rightarrow> fault + cint list option" where
  "reed_sol_big_vandermonde_distribution_matrix rows cols w =
     (if cols \<ge> rows then Inr None
      else case reed_sol_extended_vandermonde_matrix rows cols w of
        None \<Rightarrow> Inr None
      | Some dist \<Rightarrow>
          run_bind (cfor 1 cols (vdm_column w rows cols) dist) (\<lambda>dist.
            let dist = fold (vdm_ones_column w rows cols) [0..<cols] dist;
                dist = fold (vdm_ones_row w cols) [cols + 1..<rows] dist
            in Inr (Some dist)))"

definition reed_sol_vandermonde_coding_matrix :: "nat \<Rightarrow> nat \<Rightarrow> nat \<Rightarrow> fault + cint list option" where
  "reed_sol_vandermonde_coding_matrix k m w =
     run_bind (reed_sol_big_vandermonde_distribution_matrix (k + m) k w) (\<lambda>vdm.
       case vdm of
         None \<Rightarrow> Inr None
       | Some vdm \<Rightarrow>
           Inr (Some (fold (\<lambda>j dist. dist[j := vdm ! (k * k + j)]) [0..<m * k] (replicate (m * k) 0))))"

section \<open>Multiplying a region by two\<close>

text \<open>The static variables of \<^verbatim>\<open>reed_sol.c\<close>, -1 until their first use.\<close>

record r6 =
  prim32 :: cint
  prim08 :: cint
  mask08_1 :: cint
  mask08_2 :: cint
  prim16 :: cint
  mask16_1 :: cint
  mask16_2 :: cint

definition r6_init :: r6 where
  "r6_init = \<lparr>prim32 = -1, prim08 = -1, mask08_1 = -1, mask08_2 = -1, prim16 = -1, mask16_1 = -1, mask16_2 = -1\<rparr>"

text \<open>
  \<^verbatim>\<open>while (tmp != 0) { acc |= tmp; tmp = (tmp << n); }\<close> with the number of rounds bounded; an
  \<^verbatim>\<open>unsigned int\<close> is shifted to zero by \<open>32 / n\<close> rounds.
\<close>

fun smear :: "nat \<Rightarrow> nat \<Rightarrow> cint \<Rightarrow> cint \<Rightarrow> fault + cint" where
  "smear 0 n acc tmp = (if tmp = 0 then Inr acc else Inl Hang)"
| "smear (Suc fuel) n acc tmp = (if tmp = 0 then Inr acc else smear fuel n (acc OR tmp) (push_bit n tmp))"

definition reed_sol_galois_w32_region_multby_2 :: "byte list \<Rightarrow> nat \<Rightarrow> (r6, byte list) prog" where
  "reed_sol_galois_w32_region_multby_2 region nbytes s =
     (let s = (if prim32 s = -1 then s\<lparr>prim32 := gmul 32 (push_bit 31 1) 2\<rparr> else s)
      in run_bind
           (cfor 0 ((nbytes + 3) div 4) (\<lambda>i region.
              run_bind (load_elt 4 region i) (\<lambda>v.
                store_elt 4 region i (push_bit 1 v XOR (if v AND 0x80000000 \<noteq> 0 then prim32 s else 0)))) region)
           (\<lambda>region. Inr (region, s)))"

definition w08_masks :: "r6 \<Rightarrow> fault + r6" where
  "w08_masks s =
     (if prim08 s = -1 then
        run_bind (smear 4 8 0 (gmul 8 (push_bit 7 1) 2)) (\<lambda>p.
        run_bind (smear 4 8 0 (push_bit 8 1 - 2)) (\<lambda>m1.
        run_bind (smear 4 8 0 (push_bit 7 1)) (\<lambda>m2.
          Inr (s\<lparr>prim08 := p, mask08_1 := m1, mask08_2 := m2\<rparr>))))
      else Inr s)"

definition reed_sol_galois_w08_region_multby_2 :: "byte list \<Rightarrow> nat \<Rightarrow> (r6, byte list) prog" where
  "reed_sol_galois_w08_region_multby_2 region nbytes s =
     run_bind (w08_masks s) (\<lambda>s.
     run_bind
       (cfor 0 ((nbytes + 3) div 4) (\<lambda>i region.
          run_bind (load_elt 4 region i) (\<lambda>v.
            let tmp = push_bit 1 v AND mask08_1 s;
                tmp2 = v AND mask08_2 s;
                tmp2 = push_bit 1 tmp2 - drop_bit 7 tmp2
            in store_elt 4 region i (tmp XOR (tmp2 AND prim08 s)))) region)
       (\<lambda>region. Inr (region, s)))"

definition w16_masks :: "r6 \<Rightarrow> fault + r6" where
  "w16_masks s =
     (if prim16 s = -1 then
        run_bind (smear 2 16 0 (gmul 16 (push_bit 15 1) 2)) (\<lambda>p.
        run_bind (smear 2 16 0 (push_bit 16 1 - 2)) (\<lambda>m1.
        run_bind (smear 2 16 0 (push_bit 15 1)) (\<lambda>m2.
          Inr (s\<lparr>prim16 := p, mask16_1 := m1, mask16_2 := m2\<rparr>))))
      else Inr s)"

definition reed_sol_galois_w16_region_multby_2 :: "byte list \<Rightarrow> nat \<Rightarrow> (r6, byte list) prog" where
  "reed_sol_galois_w16_region_multby_2 region nbytes s =
     run_bind (w16_masks s) (\<lambda>s.
     run_bind
       (cfor 0 ((nbytes + 3) div 4) (\<lambda>i region.
          run_bind (load_elt 4 region i) (\<lambda>v.
            let tmp = push_bit 1 v AND mask16_1 s;
                tmp2 = v AND mask16_2 s;
                tmp2 = push_bit 1 tmp2 - drop_bit 15 tmp2
            in store_elt 4 region i (tmp XOR (tmp2 AND prim16 s)))) region)
       (\<lambda>region. Inr (region, s)))"

section \<open>Encoding for RAID-6\<close>

definition r6_double :: "nat \<Rightarrow> byte list \<Rightarrow> nat \<Rightarrow> (r6, byte list option) prog" where
  "r6_double w region sz s =
     (if w = 8 then run_bind (reed_sol_galois_w08_region_multby_2 region sz s) (\<lambda>(r, s). Inr (Some r, s))
      else if w = 16 then run_bind (reed_sol_galois_w16_region_multby_2 region sz s) (\<lambda>(r, s). Inr (Some r, s))
      else if w = 32 then run_bind (reed_sol_galois_w32_region_multby_2 region sz s) (\<lambda>(r, s). Inr (Some r, s))
      else Inr (None, s))"

text \<open>The second pass, from device \<open>i - 1\<close> down to 0; it returns 0 at once for another width.\<close>

fun r6_second :: "nat \<Rightarrow> nat \<Rightarrow> nat \<Rightarrow> nat \<Rightarrow> r6 \<times> coder \<Rightarrow> fault + (int \<times> r6 \<times> coder)" where
  "r6_second k w sz 0 (s, st) = Inr (1, s, st)"
| "r6_second k w sz (Suc i) (s, st) =
     run_bind (buf k st (k + 1)) (\<lambda>q.
     run_bind (r6_double w q sz s) (\<lambda>(r, s).
       case r of
         None \<Rightarrow> Inr (0, s, st)
       | Some q \<Rightarrow>
           run_bind (buf k st i) (\<lambda>d.
           run_bind (galois_region_xor q d q sz) (\<lambda>q.
             r6_second k w sz i (s, set_buf k (k + 1) q st)))))"

definition reed_sol_r6_encode :: "nat \<Rightarrow> nat \<Rightarrow> nat \<Rightarrow> r6 \<times> coder \<Rightarrow> fault + (int \<times> r6 \<times> coder)" where
  "reed_sol_r6_encode k w sz = (\<lambda>(s, st).
     if k = 0 then Inl Undefined
     else
       run_bind (buf k st k) (\<lambda>p.
       run_bind (buf k st 0) (\<lambda>d.
       run_bind (memcpy p d sz) (\<lambda>p.
       run_bind
         (cfor 1 k (\<lambda>i st.
            run_bind (buf k st k) (\<lambda>p.
            run_bind (buf k st i) (\<lambda>d.
            run_bind (galois_region_xor p d p sz) (\<lambda>p.
              Inr (set_buf k k p st))))) (set_buf k k p st)) (\<lambda>st.
       run_bind (buf k st (k + 1)) (\<lambda>q.
       run_bind (buf k st (k - 1)) (\<lambda>d.
       run_bind (memcpy q d sz) (\<lambda>q.
         r6_second k w sz (k - 1) (s, set_buf k (k + 1) q st)))))))))"

end
