(* ===== verification/Reed_Sol_Correct.thy ===== *)
theory Reed_Sol_Correct
  imports Reed_Sol Mds Codec_Correct
begin

unbundle bit_operations_syntax

text \<open>
  \<^verbatim>\<open>reed_sol_vandermonde_coding_matrix\<close> is correct: for every supported size it returns a matrix whose
  first row is all ones and with which any \<open>k\<close> of the \<open>k + m\<close> devices determine the data.
\<close>

section \<open>The extended Vandermonde matrix\<close>

lemma nth_update_cases: "xs[i := v] ! j = (if i = j \<and> j < length xs then v else xs ! j)"
  by (cases "i < length xs") (auto simp: nth_list_update list_update_beyond)

lemma row_fill_ent:
  assumes "length t = cols * rows" "i < rows" "b \<le> cols"
  shows "length (fold (\<lambda>j t. t[i * cols + j := f j]) [0..<b] t) = cols * rows \<and>
    (\<forall>r < rows. \<forall>c < cols. ent cols (fold (\<lambda>j t. t[i * cols + j := f j]) [0..<b] t) r c = (if r = i \<and> c < b then f c else ent cols t r c))"
proof -
  let ?P = "\<lambda>b u. length u = cols * rows \<and> (\<forall>r < rows. \<forall>c < cols. ent cols u r c = (if r = i \<and> c < b then f c else ent cols t r c))"
  have "?P b (fold (\<lambda>j t. t[i * cols + j := f j]) [0..<b] t)"
  proof (rule fold_upt_inv0 [where P = ?P])
    fix j u assume "j < b" "?P j u"
    then show "?P (Suc j) (u[i * cols + j := f j])"
      using assms(2,3) by (auto simp: ent_update mult.commute [of i cols] less_Suc_eq)
  qed (use assms in auto)
  then show ?thesis .
qed

context galois_width
begin

lemma pw_0: "pw 0 j = (if j = 0 then 1 else 0)"
  by (induction j) (use elem_0 elem_1 in \<open>auto simp: mul_1\<close>)

text \<open>A row of powers.\<close>

lemma power_row_ent:
  assumes "length t = cols * rows" "i < rows"
  shows "length (fst (fold (\<lambda>j (t, k). (t[i * cols + j := k], gmul w k x)) [0..<cols] (t, 1))) = cols * rows \<and>
    (\<forall>r < rows. \<forall>c < cols. ent cols (fst (fold (\<lambda>j (t, k). (t[i * cols + j := k], gmul w k x)) [0..<cols] (t, 1))) r c
      = (if r = i then pw x c else ent cols t r c))"
proof -
  let ?P = "\<lambda>b (u, k). k = pw x b \<and> length u = cols * rows \<and>
    (\<forall>r < rows. \<forall>c < cols. ent cols u r c = (if r = i \<and> c < b then pw x c else ent cols t r c))"
  have "?P cols (fold (\<lambda>j (t, k). (t[i * cols + j := k], gmul w k x)) [0..<cols] (t, 1))"
  proof (rule fold_upt_inv0 [where P = ?P])
    fix j s assume "j < cols" "?P j s"
    then show "?P (Suc j) (case s of (t, k) \<Rightarrow> (t[i * cols + j := k], gmul w k x))"
      using assms(2) by (auto simp: ent_update mult.commute [of i cols] less_Suc_eq split: prod.splits)
  qed (use assms in auto)
  then show ?thesis by (auto split: prod.splits)
qed

lemma extended_vandermonde_ok:
  assumes fit: "w < 30 \<Longrightarrow> rows \<le> 2 ^ w \<and> cols \<le> 2 ^ w" and rc: "2 \<le> rows" "0 < cols"
  shows "\<exists>vdm. reed_sol_extended_vandermonde_matrix rows cols w = Some vdm \<and> length vdm = cols * rows \<and>
    (\<forall>i < rows. \<forall>j < cols. ent cols vdm i j = vandermonde rows cols of_nat i j)"
proof -
  define z :: "cint list" where "z = replicate (rows * cols) 0"
  define v0 where "v0 = fold (\<lambda>j vdm. vdm[j := 0]) [1..<cols] (z[0 := 1])"
  define u where "u = fold (\<lambda>j vdm. vdm[(rows - 1) * cols + j := 0]) [0..<cols - 1] v0"
  define v1 where "v1 = u[(rows - 1) * cols + (cols - 1) := 1]"
  have z: "z ! j = 0" if "j < rows * cols" for j using that by (simp add: z_def)
  have v0: "length v0 = rows * cols \<and> (\<forall>j < rows * cols. v0 ! j = (if j = 0 then 1 else 0))"
  proof -
    let ?P = "\<lambda>b v. length v = rows * cols \<and> (\<forall>j < rows * cols. v ! j = (if j = 0 then 1 else (0::cint)))"
    show ?thesis unfolding v0_def
      by (rule fold_upt_inv [where P = ?P]) (use rc in \<open>auto simp: z_def nth_update_cases\<close>)
  qed
  have e0: "ent cols v0 i j = (if i = 0 \<and> j = 0 then 1 else 0)" if "i < rows" "j < cols" for i j
    using v0 flat_bound [OF that] rc by (auto simp: ent_def mult.commute)
  have F: "length u = cols * rows"
    "\<And>r c. r < rows \<Longrightarrow> c < cols \<Longrightarrow> ent cols u r c = (if r = rows - 1 \<and> c < cols - 1 then 0 else ent cols v0 r c)"
    using row_fill_ent [of v0 cols rows "rows - 1" "cols - 1" "\<lambda>_. 0"] v0 rc by (auto simp: u_def mult.commute)
  have v1: "length v1 = cols * rows" using F by (simp add: v1_def)
  have e1: "ent cols v1 i j = (if Suc i = rows then (if Suc j = cols then 1 else 0) else if i = 0 \<and> j = 0 then 1 else 0)"
    if ij: "i < rows" "j < cols" for i j
  proof -
    have "ent cols v1 i j = (if i = rows - 1 \<and> j = cols - 1 then 1 else ent cols u i j)"
      unfolding v1_def mult.commute [of "rows - 1" cols] by (rule ent_update) (use F rc ij in auto)
    then show ?thesis using F(2) [OF ij] e0 [OF ij] rc ij by (auto split: if_splits)
  qed
  let ?body = "\<lambda>i vdm. fst (fold (\<lambda>j (vdm, k). (vdm[i * cols + j := k], gmul w k (of_nat i))) [0..<cols] (vdm, 1))"
  define v2 where "v2 = fold ?body [1..<rows - 1] v1"
  let ?P = "\<lambda>b v. length v = cols * rows \<and> (\<forall>i < rows. \<forall>j < cols. ent cols v i j
      = (if i < b \<or> Suc i = rows then vandermonde rows cols of_nat i j else ent cols v1 i j))"
  have v2: "?P (rows - 1) v2"
    unfolding v2_def
  proof (rule fold_upt_inv [where P = ?P])
    show "?P 1 v1" using v1 e1 by (auto simp: vandermonde_def pw_0)
    fix b v assume b: "1 \<le> b" "b < rows - 1" and P: "?P b v"
    have "b < rows" using b by simp
    from power_row_ent [OF _ this, of v cols "of_nat b"] show "?P (Suc b) (?body b v)"
      using P b by (auto simp: vandermonde_def less_Suc_eq)
  qed (use rc in simp)
  have same: "v2 = v1" if "rows = 2" using that by (simp add: v2_def)
  have "\<forall>i < rows. \<forall>j < cols. ent cols v2 i j = vandermonde rows cols of_nat i j"
    using v2 rc by (auto simp: less_diff_conv)
  moreover have "reed_sol_extended_vandermonde_matrix rows cols w = Some v2"
  proof -
    have c: "\<not> (w < 30 \<and> 2 ^ w < rows)" "\<not> (w < 30 \<and> 2 ^ w < cols)" "rows \<noteq> 1" using fit rc by auto
    show ?thesis
      unfolding reed_sol_extended_vandermonde_matrix_def Let_def if_not_P [OF c(1)] if_not_P [OF c(2)] if_not_P [OF c(3)]
      using same by (auto simp: v2_def v1_def u_def v0_def z_def)
  qed
  ultimately show ?thesis using v2 by blast
qed

end

section \<open>Column operations\<close>

lemma column_fold_ent:
  assumes "length t = cols * rows" "j < cols" "i < cols" "b \<le> rows" "a \<le> b"
  shows "length (fold (\<lambda>k d. d[j + k * cols := F (d ! (j + k * cols)) (d ! (i + k * cols))]) [a..<b] t) = cols * rows \<and>
    (\<forall>r < rows. \<forall>c < cols. ent cols (fold (\<lambda>k d. d[j + k * cols := F (d ! (j + k * cols)) (d ! (i + k * cols))]) [a..<b] t) r c
      = (if c = j \<and> a \<le> r \<and> r < b then F (ent cols t r j) (ent cols t r i) else ent cols t r c))"
proof -
  have idx: "x + k * cols = cols * k + x" for x k by (simp add: mult.commute)
  let ?P = "\<lambda>b u. length u = cols * rows \<and> (\<forall>r < rows. \<forall>c < cols. ent cols u r c
      = (if c = j \<and> a \<le> r \<and> r < b then F (ent cols t r j) (ent cols t r i) else ent cols t r c))"
  have "?P b (fold (\<lambda>k d. d[j + k * cols := F (d ! (j + k * cols)) (d ! (i + k * cols))]) [a..<b] t)"
  proof (rule fold_upt_inv [where P = ?P])
    fix k u assume k: "a \<le> k" "k < b" and P: "?P k u"
    have "u ! (j + k * cols) = ent cols t k j" "u ! (i + k * cols) = ent cols t k i"
      using P k assms(2-4) unfolding idx ent_def [symmetric] by auto
    then show "?P (Suc k) (u[j + k * cols := F (u ! (j + k * cols)) (u ! (i + k * cols))])"
      using P k assms(2,4) unfolding idx by (auto simp: ent_update less_Suc_eq)
  qed (use assms in auto)
  then show ?thesis .
qed

context galois_width
begin

text \<open>The matrix after \<open>k\<close> columns: still separable, its first \<open>k\<close> rows those of the identity.\<close>

definition vdm_inv :: "nat \<Rightarrow> nat \<Rightarrow> nat \<Rightarrow> cint list \<Rightarrow> bool" where
  "vdm_inv rows cols k dist \<longleftrightarrow> length dist = cols * rows \<and> mds rows cols (ent cols dist) \<and>
     (\<forall>r < k. \<forall>c < cols. ent cols dist r c = (if r = c then 1 else 0))"

lemma vdm_pivot:
  assumes "vdm_inv rows cols i dist" "i < cols" "cols < rows"
  shows "\<exists>j. i \<le> j \<and> j < rows \<and> ent cols dist j i \<noteq> 0"
proof (rule ccontr)
  assume no: "\<not> ?thesis"
  have "{..<cols} \<subseteq> {r. r < rows \<and> ent cols dist r i = 0}"
    using no assms by (auto simp: vdm_inv_def) (metis leI less_irrefl less_trans)
  then have "cols \<le> card {r. r < rows \<and> ent cols dist r i = 0}" using card_mono [of "{r. r < rows \<and> ent cols dist r i = 0}" "{..<cols}"] by simp
  moreover have "card {r. r < rows \<and> ent cols dist r i = 0} < cols" by (rule mds_column) (use assms in \<open>auto simp: vdm_inv_def\<close>)
  ultimately show False by simp
qed

lemma vdm_swap_ok:
  assumes I: "vdm_inv rows cols i dist" and ij: "i < cols" "cols < rows" "i < j" "j < rows"
  shows "vdm_inv rows cols i (row_swap cols (j * cols) (i * cols) dist) \<and>
    ent cols (row_swap cols (j * cols) (i * cols) dist) i i = ent cols dist j i"
proof -
  let ?d = "row_swap cols (j * cols) (i * cols) dist"
  have S: "length ?d = cols * rows" "\<forall>r < rows. \<forall>c < cols. ent cols ?d r c = ent cols dist (if r = j then i else if r = i then j else r) c"
    using row_swap_ent [of dist cols rows j i] I ij by (auto simp: vdm_inv_def mult.commute)
  have "mds rows cols (ent cols ?d)"
    by (rule mds_swap [of rows cols "ent cols dist" j i]) (use I ij S in \<open>auto simp: vdm_inv_def\<close>)
  then show ?thesis using I S ij by (auto simp: vdm_inv_def)
qed

lemma vdm_scale_ok:
  assumes I: "vdm_inv rows cols i dist" and i: "i < cols" "cols < rows" "ent cols dist i i \<noteq> 0"
  shows "vdm_inv rows cols i (vdm_scale_column w rows cols i dist) \<and> ent cols (vdm_scale_column w rows cols i dist) i i = 1"
proof -
  let ?t = "gdiv w 1 (ent cols dist i i)" let ?d = "vdm_scale_column w rows cols i dist"
  have el: "gf_elem w (ent cols dist r c)" if "r < rows" "c < cols" for r c using I that mds_elem by (auto simp: vdm_inv_def)
  have e: "gf_elem w (ent cols dist i i)" using el i by simp
  have t: "gf_elem w ?t" "?t \<noteq> 0" "gmul w ?t (ent cols dist i i) = 1"
  proof -
    show "gf_elem w ?t" using elem_dv [OF elem_1 e i(3)] .
    have "gmul w (ent cols dist i i) ?t = 1" by (rule mul_dv [OF elem_1 e i(3)])
    then show "gmul w ?t (ent cols dist i i) = 1" "?t \<noteq> 0" using mul_commute [OF e \<open>gf_elem w ?t\<close>] e by auto
  qed
  have D: "length ?d = cols * rows" "\<forall>r < rows. \<forall>c < cols. ent cols ?d r c = (if c = i then gmul w ?t (ent cols dist r c) else ent cols dist r c)"
    if "ent cols dist i i \<noteq> 1"
    using column_fold_ent [of dist cols rows i i rows 0 "\<lambda>x y. gmul w ?t x"] I i that
    by (auto simp: vdm_scale_column_def Let_def vdm_inv_def ent_def mult.commute [of i cols])
  show ?thesis
  proof (cases "ent cols dist i i = 1")
    case True
    then show ?thesis using I by (simp add: vdm_scale_column_def Let_def ent_def mult.commute)
  next
    case False
    have "mds rows cols (ent cols ?d)"
      by (rule mds_scale_column [of rows cols "ent cols dist" i ?t]) (use I i t D [OF False] in \<open>auto simp: vdm_inv_def\<close>)
    moreover have "ent cols ?d r c = (if r = c then 1 else 0)" if "r < i" "c < cols" for r c
      using I D(2) [OF False] that i t by (auto simp: vdm_inv_def)
    ultimately show ?thesis using D [OF False] i t(3) by (auto simp: vdm_inv_def)
  qed
qed

lemma vdm_clear_ok:
  assumes I: "vdm_inv rows cols i dist" and i: "i < cols" "cols < rows" "ent cols dist i i = 1"
  shows "vdm_inv rows cols (Suc i) (fold (vdm_clear_column w rows cols i) [0..<cols] dist)"
proof -
  let ?P = "\<lambda>b d. vdm_inv rows cols i d \<and> ent cols d i i = 1 \<and> (\<forall>c < b. c \<noteq> i \<longrightarrow> ent cols d i c = 0)"
  have "?P cols (fold (vdm_clear_column w rows cols i) [0..<cols] dist)"
  proof (rule fold_upt_inv0 [where P = ?P])
    fix j d assume j: "j < cols" and P: "?P j d"
    let ?d = "vdm_clear_column w rows cols i j d" let ?t = "ent cols d i j"
    have el: "gf_elem w (ent cols d r c)" if "r < rows" "c < cols" for r c using P that mds_elem by (auto simp: vdm_inv_def)
    show "?P (Suc j) ?d"
    proof (cases "j \<noteq> i \<and> ?t \<noteq> 0")
      case False
      then have "?d = d" by (auto simp: vdm_clear_column_def Let_def ent_def mult.commute)
      then show ?thesis using P False by (auto simp: less_Suc_eq)
    next
      case True
      then have D: "length ?d = cols * rows" "\<forall>r < rows. \<forall>c < cols. ent cols ?d r c
          = (if c = j then ent cols d r j XOR gmul w ?t (ent cols d r i) else ent cols d r c)"
        using column_fold_ent [of d cols rows j i rows 0 "\<lambda>x y. x XOR gmul w ?t y"] P i j
        by (auto simp: vdm_clear_column_def Let_def vdm_inv_def ent_def mult.commute [of i cols])
      have m: "mds rows cols (ent cols ?d)"
        by (rule mds_add_column [of rows cols "ent cols d" i j ?t]) (use P i j True el D in \<open>auto simp: vdm_inv_def\<close>)
      have "ent cols ?d r c = (if r = c then 1 else 0)" if "r < i" "c < cols" for r c
        using P D(2) that i j el by (auto simp: vdm_inv_def)
      moreover have "ent cols ?d i i = 1" "ent cols ?d i j = 0" "\<And>c. c < j \<Longrightarrow> c \<noteq> i \<Longrightarrow> ent cols ?d i c = 0"
        using P D(2) i j True el mul_1_right by auto
      ultimately show ?thesis using m D(1) True by (auto simp: vdm_inv_def less_Suc_eq)
    qed
  qed (use I i in auto)
  then show ?thesis by (auto simp: vdm_inv_def less_Suc_eq)
qed

lemma vdm_column_ok:
  assumes I: "vdm_inv rows cols i dist" and i: "i < cols" "cols < rows"
  shows "\<exists>d. vdm_column w rows cols i dist = Inr d \<and> vdm_inv rows cols (Suc i) d"
proof -
  let ?j = "scan_from (\<lambda>j. dist ! (j * cols + i) \<noteq> 0) i rows"
  have "\<exists>j \<ge> i. j < rows \<and> dist ! (j * cols + i) \<noteq> 0" using vdm_pivot [OF I i] by (simp add: ent_def mult.commute)
  then have j: "i \<le> ?j" "?j < rows" "dist ! (?j * cols + i) \<noteq> 0" using scan_from_spec [of i rows "\<lambda>j. dist ! (j * cols + i) \<noteq> 0"] i by force+
  define d1 where "d1 = (if ?j \<noteq> i then row_swap cols (?j * cols) (i * cols) dist else dist)"
  have "vdm_inv rows cols i d1" "ent cols d1 i i \<noteq> 0"
    using vdm_swap_ok [OF I i, of ?j] j I by (auto simp: d1_def ent_def mult.commute)
  then have "vdm_inv rows cols i (vdm_scale_column w rows cols i d1)" "ent cols (vdm_scale_column w rows cols i d1) i i = 1"
    using vdm_scale_ok [OF _ i] by auto
  then have "vdm_inv rows cols (Suc i) (fold (vdm_clear_column w rows cols i) [0..<cols] (vdm_scale_column w rows cols i d1))"
    using vdm_clear_ok [OF _ i] by auto
  then show ?thesis using j(2) by (simp add: vdm_column_def Let_def d1_def)
qed

end

section \<open>The distribution matrix\<close>

context galois_width
begin

lemma inverse_factor:
  assumes "gf_elem w e" "e \<noteq> 0"
  shows "gf_elem w (gdiv w 1 e)" "gdiv w 1 e \<noteq> 0" "gmul w (gdiv w 1 e) e = 1"
proof -
  have m: "gmul w e (gdiv w 1 e) = 1" by (rule mul_dv [OF elem_1 assms])
  show t: "gf_elem w (gdiv w 1 e)" by (rule elem_dv [OF elem_1 assms])
  show "gmul w (gdiv w 1 e) e = 1" "gdiv w 1 e \<noteq> 0" using m mul_commute [OF assms(1) t] assms(1) by auto
qed

text \<open>The passes that make row \<open>cols\<close> and then the first column below it all ones.\<close>

lemma vdm_ones_column_ok:
  assumes I: "vdm_inv rows cols cols dist" and j: "j < cols" "cols < rows" and ones: "\<forall>c < j. ent cols dist cols c = 1"
  shows "vdm_inv rows cols cols (vdm_ones_column w rows cols j dist) \<and> (\<forall>c < Suc j. ent cols (vdm_ones_column w rows cols j dist) cols c = 1)"
proof -
  let ?e = "ent cols dist cols j" let ?t = "gdiv w 1 ?e" let ?d = "vdm_ones_column w rows cols j dist"
  have M: "mds rows cols (ent cols dist)" "identity_top cols (ent cols dist)" using I by (auto simp: vdm_inv_def identity_top_def)
  have e: "gf_elem w ?e" "?e \<noteq> 0" using mds_elem [OF M(1)] mds_lower_nonzero [OF M] j by auto
  note t = inverse_factor [OF e]
  show ?thesis
  proof (cases "?e = 1")
    case True
    then have "?d = dist" by (simp add: vdm_ones_column_def Let_def ent_def)
    then show ?thesis using I ones True by (simp add: less_Suc_eq)
  next
    case False
    have "?d = fold (\<lambda>k d. d[j + k * cols := gmul w ?t (d ! (j + k * cols))]) [cols..<rows] dist"
    proof -
      have "cols * cols + j + (i - cols) * cols = j + i * cols" if "cols \<le> i" for i
        using that by (simp add: diff_mult_distrib)
      then have "fold (\<lambda>i d. d[cols * cols + j + (i - cols) * cols := gmul w ?t (d ! (cols * cols + j + (i - cols) * cols))]) [cols..<rows] dist
          = fold (\<lambda>k d. d[j + k * cols := gmul w ?t (d ! (j + k * cols))]) [cols..<rows] dist"
        by (intro fold_cong refl) (simp only: set_upt atLeastLessThan_iff)
      then show ?thesis using False by (simp add: vdm_ones_column_def Let_def ent_def)
    qed
    then have D: "length ?d = cols * rows" "\<forall>r < rows. \<forall>c < cols. ent cols ?d r c
        = (if c = j \<and> cols \<le> r then gmul w ?t (ent cols dist r c) else ent cols dist r c)"
      using column_fold_ent [of dist cols rows j j rows cols "\<lambda>x y. gmul w ?t x"] I j by (auto simp: vdm_inv_def)
    have "mds rows cols (ent cols ?d)"
      by (rule mds_scale_lower [OF M j(1) t(1,2)]) (use D j in auto)
    then show ?thesis using D I j t(3) ones by (auto simp: vdm_inv_def less_Suc_eq)
  qed
qed

lemma vdm_ones_row_ok:
  assumes I: "vdm_inv rows cols cols dist" and i: "cols < i" "i < rows" "0 < cols"
  shows "vdm_inv rows cols cols (vdm_ones_row w cols i dist) \<and> ent cols (vdm_ones_row w cols i dist) i 0 = 1 \<and>
    (\<forall>r < rows. r \<noteq> i \<longrightarrow> (\<forall>c < cols. ent cols (vdm_ones_row w cols i dist) r c = ent cols dist r c))"
proof -
  let ?e = "ent cols dist i 0" let ?t = "gdiv w 1 ?e" let ?d = "vdm_ones_row w cols i dist"
  have M: "mds rows cols (ent cols dist)" "identity_top cols (ent cols dist)" using I by (auto simp: vdm_inv_def identity_top_def)
  have e: "gf_elem w ?e" "?e \<noteq> 0" using mds_elem [OF M(1)] mds_lower_nonzero [OF M] i by auto
  note t = inverse_factor [OF e]
  show ?thesis
  proof (cases "?e = 1")
    case True
    then have "?d = dist" by (simp add: vdm_ones_row_def Let_def ent_def)
    then show ?thesis using I True by simp
  next
    case False
    then have "?d = row_map cols (cols * i) (\<lambda>v. gmul w v ?t) dist" by (simp add: vdm_ones_row_def Let_def ent_def row_map_def)
    then have D: "length ?d = cols * rows" "\<forall>r < rows. \<forall>c < cols. ent cols ?d r c
        = (if r = i then gmul w (ent cols dist r c) ?t else ent cols dist r c)"
      using row_map_ent [of dist cols rows i "\<lambda>v. gmul w v ?t"] I i by (auto simp: vdm_inv_def)
    have D': "ent cols ?d r c = (if r = i then gmul w ?t (ent cols dist r c) else ent cols dist r c)" if "r < rows" "c < cols" for r c
      using D(2) that mul_commute [OF mds_elem [OF M(1) that] t(1)] by (cases "r = i") simp_all
    have "mds rows cols (ent cols ?d)"
      by (rule mds_scale_row [OF M(1) i(2) t(1,2)]) (use D' in auto)
    then show ?thesis using D(1) D' I i t(3) by (auto simp: vdm_inv_def)
  qed
qed

text \<open>
  The distribution matrix exists for every supported size: its top is the identity, any \<open>cols\<close> of its
  rows are independent, row \<open>cols\<close> and the first column below it are all ones.
\<close>

lemma distribution_matrix_ok:
  assumes fit: "rows \<le> 2 ^ w" and rc: "0 < cols" "cols < rows"
  shows "\<exists>dist. reed_sol_big_vandermonde_distribution_matrix rows cols w = Inr (Some dist) \<and> vdm_inv rows cols cols dist \<and>
    (\<forall>c < cols. ent cols dist cols c = 1) \<and> (\<forall>r. cols \<le> r \<longrightarrow> r < rows \<longrightarrow> ent cols dist r 0 = 1)"
proof -
  have w: "w \<le> 32" using width by simp
  obtain vdm where vdm: "reed_sol_extended_vandermonde_matrix rows cols w = Some vdm" "length vdm = cols * rows"
      "\<forall>i < rows. \<forall>j < cols. ent cols vdm i j = vandermonde rows cols of_nat i j"
    using extended_vandermonde_ok [of rows cols] fit rc by auto
  have el: "gf_elem w (of_nat i) \<and> unat (of_nat i :: cint) = i" if "i < rows" for i
    using gf_elem_of_nat [OF w] that fit by simp
  have inj: "inj_on (of_nat :: nat \<Rightarrow> cint) {..<rows}" using el by (metis inj_onI lessThan_iff)
  have "mds rows cols (vandermonde rows cols of_nat)" by (rule vandermonde_mds) (use el inj rc in auto)
  then have "mds rows cols (ent cols vdm)" by (rule mds_cong) (use vdm(3) in auto)
  then have I1: "vdm_inv rows cols 1 vdm" using vdm(2,3) rc
    by (auto simp: vdm_inv_def vandermonde_def pw_0)
  have "\<exists>d. cfor 1 cols (vdm_column w rows cols) vdm = Inr d \<and> vdm_inv rows cols cols d"
    by (rule cfor_total [where P = "vdm_inv rows cols"]) (use I1 rc vdm_column_ok in auto)
  then obtain d where d: "cfor 1 cols (vdm_column w rows cols) vdm = Inr d" "vdm_inv rows cols cols d" by blast
  let ?o = "fold (vdm_ones_column w rows cols) [0..<cols] d"
  have o: "vdm_inv rows cols cols ?o \<and> (\<forall>c < cols. ent cols ?o cols c = 1)"
    by (rule fold_upt_inv0 [where P = "\<lambda>j t. vdm_inv rows cols cols t \<and> (\<forall>c < j. ent cols t cols c = 1)"])
      (use d(2) vdm_ones_column_ok rc in auto)
  let ?P = "\<lambda>i t. vdm_inv rows cols cols t \<and> (\<forall>c < cols. ent cols t cols c = 1) \<and> (\<forall>r. cols \<le> r \<longrightarrow> r < i \<longrightarrow> ent cols t r 0 = 1)"
  have "?P rows (fold (vdm_ones_row w cols) [cols + 1..<rows] ?o)"
  proof (rule fold_upt_inv [where P = ?P])
    fix i t assume i: "cols + 1 \<le> i" "i < rows" and P: "?P i t"
    then show "?P (Suc i) (vdm_ones_row w cols i t)"
      using vdm_ones_row_ok [of rows cols t i] rc by (auto simp: less_Suc_eq)
  qed (use o rc in \<open>auto simp: less_Suc_eq le_less\<close>)
  moreover have "reed_sol_big_vandermonde_distribution_matrix rows cols w = Inr (Some (fold (vdm_ones_row w cols) [cols + 1..<rows] ?o))"
    using rc vdm(1) d(1) by (simp add: reed_sol_big_vandermonde_distribution_matrix_def Let_def)
  ultimately show ?thesis by blast
qed

end

section \<open>The coding matrix\<close>

definition mds_matrix :: "nat \<Rightarrow> nat \<Rightarrow> nat \<Rightarrow> cint list \<Rightarrow> bool" where
  "mds_matrix k m w matrix \<longleftrightarrow> (\<forall>ids. length ids = k \<longrightarrow> distinct ids \<longrightarrow> set ids \<subseteq> {..<k + m} \<longrightarrow>
     gf_invertible w k (\<lambda>i. gen k matrix (ids ! i)))"

lemma copy_fold: "n \<le> length t \<Longrightarrow> fold (\<lambda>j t. t[j := f j]) [0..<n] t = map f [0..<n] @ drop n t"
proof (induction n)
  case (Suc n)
  then show ?case by (simp add: list_update_append Cons_nth_drop_Suc [symmetric])
qed simp

lemma vandermonde_coding_ok:
  assumes w: "gf_width w" and fit: "k + m \<le> 2 ^ w" and km: "0 < k" "0 < m"
  shows "\<exists>matrix. reed_sol_vandermonde_coding_matrix k m w = Inr (Some matrix) \<and> coding_matrix k m w matrix \<and>
    mds_matrix k m w matrix \<and> (\<forall>j < k. matrix ! j = 1)"
proof -
  have gw: "galois_width w" using w by (rule galois_width.intro)
  have f: "xor_field (gf_elem w) (gmul w) (gdiv w)" using w by (rule gf_field)
  obtain vdm where vdm: "reed_sol_big_vandermonde_distribution_matrix (k + m) k w = Inr (Some vdm)"
      "galois_width.vdm_inv w (k + m) k k vdm" "\<forall>c < k. ent k vdm k c = 1"
      "\<forall>r. k \<le> r \<longrightarrow> r < k + m \<longrightarrow> ent k vdm r 0 = 1"
    using galois_width.distribution_matrix_ok [OF gw fit, of k] km by auto
  have V: "length vdm = k * (k + m)" "xor_field.mds (gf_elem w) (gmul w) (k + m) k (ent k vdm)"
    "\<forall>r < k. \<forall>c < k. ent k vdm r c = (if r = c then 1 else 0)"
    using vdm(2) by (auto simp: galois_width.vdm_inv_def [OF gw])
  define matrix where "matrix = map (\<lambda>j. vdm ! (k * k + j)) [0..<m * k]"
  have run: "reed_sol_vandermonde_coding_matrix k m w = Inr (Some matrix)"
    using vdm(1) by (simp add: reed_sol_vandermonde_coding_matrix_def copy_fold matrix_def)
  have at: "matrix ! (i * k + j) = ent k vdm (k + i) j" if "i < m" "j < k" for i j
    using row_index [OF that] that by (simp add: matrix_def ent_def algebra_simps)
  have el: "gf_elem w (ent k vdm i j)" if "i < k + m" "j < k" for i j using xor_field.mds_elem [OF f V(2) that] .
  have "coding_matrix k m w matrix"
    unfolding coding_matrix_def
  proof (intro conjI allI impI)
    show "length matrix = k * m" by (simp add: matrix_def)
    show "gf_elem w (matrix ! i)" if "i < k * m" for i
    proof -
      have "i div k < m" "i mod k < k" "i = i div k * k + i mod k" using that km by (auto simp: less_mult_imp_div_less mult.commute)
      then show ?thesis using at el by (metis nat_add_left_cancel_less)
    qed
    show "\<exists>j < k. matrix ! (i * k + j) \<noteq> 0" if "i < m" for i
      using at [OF that km(1)] vdm(4) that km by (intro exI [of _ 0]) auto
  qed
  moreover have "gen k matrix i j = ent k vdm i j" if "i < k + m" "j < k" for i j
    using at [of "i - k" j] V(3) that by (auto simp: gen_def)
  then have "xor_field.mds (gf_elem w) (gmul w) (k + m) k (gen k matrix)"
    by (intro xor_field.mds_cong [OF f V(2)]) auto
  then have "mds_matrix k m w matrix" using xor_field.mds_invertible [OF f] by (auto simp: mds_matrix_def)
  moreover have "matrix ! j = 1" if "j < k" for j using at [of 0 j] vdm(3) that km by auto
  ultimately show ?thesis using run by blast
qed

end
