(* ===== verification/Cauchy.thy ===== *)
theory Cauchy
  imports Jerasure_Codec Cauchy_Tables
begin

unbundle bit_operations_syntax

text \<open>
  The matrices of \<^verbatim>\<open>cauchy_best_r6.c\<close>, the version of the file that is linked: the Cauchy matrix, its
  improvement by scaling rows and columns so that the bit matrices get fewer ones, the counting of those
  ones, and the choice of the prepared tables for two coding devices.  Memory is always available.
\<close>

section \<open>State\<close>

text \<open>
  The static variables of \<^verbatim>\<open>cauchy_best_r6.c\<close>: for every width the product of the highest bit and two
  (-1 before the first use), its number of ones and the ones themselves, and the table of tables.
\<close>

record cauchy =
  PPs :: "nat \<Rightarrow> cint"
  NOs :: "nat \<Rightarrow> nat"
  ONEs :: "nat \<Rightarrow> cint list"
  cbest_init :: bool

definition cauchy_start :: cauchy where
  "cauchy_start = \<lparr>PPs = (\<lambda>_. -1), NOs = (\<lambda>_. 0), ONEs = (\<lambda>_. replicate 33 0), cbest_init = False\<rparr>"

definition cbest_max_k :: "nat \<Rightarrow> int" where
  "cbest_max_k w =
     [-1, -1, 3, 7, 15, 31, 63, 127, 255, 511, 1023, 1023,
      1023, 1023, 1023, 1023, 1023, 1023, 1023, 1023, 1023, 1023, 1023, 1023, 1023, 1023, 1023, 1023, 1023,
      1023, 1023, 1023, 1023] ! w"

text \<open>\<^verbatim>\<open>cbest_0\<close> and \<^verbatim>\<open>cbest_1\<close> are pointers that are never set.\<close>

definition cbest_all :: "nat \<Rightarrow> int list" where
  "cbest_all w =
     [[], [], cbest_2, cbest_3, cbest_4, cbest_5, cbest_6, cbest_7, cbest_8, cbest_9, cbest_10, cbest_11, cbest_12,
      cbest_13, cbest_14, cbest_15, cbest_16, cbest_17, cbest_18, cbest_19, cbest_20, cbest_21, cbest_22, cbest_23,
      cbest_24, cbest_25, cbest_26, cbest_27, cbest_28, cbest_29, cbest_30, cbest_31, cbest_32] ! w"

section \<open>The number of ones of an element\<close>

text \<open>\<^verbatim>\<open>PPs[w]\<close> and its ones, computed at the first call for the width.\<close>

definition ones_setup :: "nat \<Rightarrow> cauchy \<Rightarrow> cauchy" where
  "ones_setup w s =
     (let highbit = push_bit (w - 1) 1
      in if PPs s w = -1 then
           let pp = gmul w highbit 2;
               (ones, nones) = fold (\<lambda>i (ones, nones).
                   if pp AND push_bit i 1 \<noteq> 0 then (ones[nones := push_bit i 1], nones + 1) else (ones, nones))
                 [0..<w] (ONEs s w, 0)
           in s\<lparr>PPs := (PPs s)(w := pp), ONEs := (ONEs s)(w := ones), NOs := (NOs s)(w := nones)\<rparr>
         else s)"

definition n_ones_step :: "cauchy \<Rightarrow> nat \<Rightarrow> cint \<times> int \<times> int \<Rightarrow> cint \<times> int \<times> int" where
  "n_ones_step s w = (\<lambda>(n, no, cno).
     let highbit = push_bit (w - 1) 1;
         (n, cno) =
           (if n AND highbit \<noteq> 0 then
              let n = push_bit 1 (n XOR highbit) XOR PPs s w
              in (n, fold (\<lambda>j cno. cno + (if n AND ONEs s w ! j \<noteq> 0 then 1 else -1)) [0..<NOs s w] (cno - 1))
            else (push_bit 1 n, cno))
     in (n, no + cno, cno))"

definition cauchy_n_ones :: "cint \<Rightarrow> nat \<Rightarrow> cauchy \<Rightarrow> int \<times> cauchy" where
  "cauchy_n_ones n w s =
     (let s = ones_setup w s;
          no = fold (\<lambda>i no. if n AND push_bit i 1 \<noteq> 0 then no + 1 else no) [0..<w] 0
      in case fold (\<lambda>i. n_ones_step s w) [1..<w] (n, no, no) of (n, no, cno) \<Rightarrow> (no, s))"

section \<open>Coding matrices\<close>

definition cauchy_original_coding_matrix :: "nat \<Rightarrow> nat \<Rightarrow> nat \<Rightarrow> cint list option" where
  "cauchy_original_coding_matrix k m w =
     (if w < 31 \<and> k + m > 2 ^ w then None
      else Some (fst (fold (\<lambda>i s. fold (\<lambda>j (matrix, index).
               (matrix[index := gdiv w 1 (of_nat i XOR of_nat (m + j))], index + 1)) [0..<k] s)
             [0..<m] (replicate (k * m) 0, 0))))"

definition cauchy_xy_coding_matrix :: "nat \<Rightarrow> nat \<Rightarrow> nat \<Rightarrow> cint list \<Rightarrow> cint list \<Rightarrow> cint list" where
  "cauchy_xy_coding_matrix k m w X Y =
     fst (fold (\<lambda>i s. fold (\<lambda>j (matrix, index).
            (matrix[index := gdiv w 1 (X ! i XOR Y ! j)], index + 1)) [0..<k] s)
          [0..<m] (replicate (k * m) 0, 0))"

definition improve_column :: "nat \<Rightarrow> nat \<Rightarrow> nat \<Rightarrow> nat \<Rightarrow> cint list \<Rightarrow> cint list" where
  "improve_column k m w j matrix =
     (if matrix ! j \<noteq> 1 then
        let tmp = gdiv w 1 (matrix ! j)
        in fold (\<lambda>i matrix. matrix[j + i * k := gmul w (matrix ! (j + i * k)) tmp]) [0..<m] matrix
      else matrix)"

text \<open>The ones of a row after a factor, and the best factor among the inverses of its entries.\<close>

definition row_cost :: "nat \<Rightarrow> nat \<Rightarrow> (nat \<Rightarrow> cint) \<Rightarrow> cauchy \<Rightarrow> int \<times> cauchy" where
  "row_cost k w f s =
     fold (\<lambda>j (no, s). case cauchy_n_ones (f j) w s of (n, s) \<Rightarrow> (no + n, s)) [0..<k] (0, s)"

definition improve_row :: "nat \<Rightarrow> nat \<Rightarrow> nat \<Rightarrow> cint list \<times> cauchy \<Rightarrow> cint list \<times> cauchy" where
  "improve_row k w i = (\<lambda>(matrix, s).
     let index = i * k;
         (bno, s) = row_cost k w (\<lambda>j. matrix ! (index + j)) s;
         (bno, bno_index, s) = fold (\<lambda>j (bno, bno_index, s).
             if matrix ! (index + j) \<noteq> 1 then
               let tmp = gdiv w 1 (matrix ! (index + j));
                   (tno, s) = row_cost k w (\<lambda>x. gmul w (matrix ! (index + x)) tmp) s
               in if tno < bno then (tno, Some j, s) else (bno, bno_index, s)
             else (bno, bno_index, s)) [0..<k] (bno, None, s)
     in case bno_index of
          None \<Rightarrow> (matrix, s)
        | Some b \<Rightarrow>
            let tmp = gdiv w 1 (matrix ! (index + b))
            in (fold (\<lambda>j matrix. matrix[index + j := gmul w (matrix ! (index + j)) tmp]) [0..<k] matrix, s))"

definition cauchy_improve_coding_matrix :: "nat \<Rightarrow> nat \<Rightarrow> nat \<Rightarrow> cint list \<Rightarrow> cauchy \<Rightarrow> cint list \<times> cauchy" where
  "cauchy_improve_coding_matrix k m w matrix s =
     fold (improve_row k w) [1..<m] (fold (improve_column k m w) [0..<k] matrix, s)"

text \<open>\<^verbatim>\<open>cbest_max_k[w]\<close> and \<^verbatim>\<open>cbest_all[w]\<close> are arrays of 33 entries.\<close>

definition cauchy_good_general_coding_matrix ::
  "nat \<Rightarrow> nat \<Rightarrow> nat \<Rightarrow> cauchy \<Rightarrow> fault + (cint list option \<times> cauchy)" where
  "cauchy_good_general_coding_matrix k m w s =
     (if m = 2 \<and> w > 32 then Inl Undefined
      else if m = 2 \<and> int k \<le> cbest_max_k w then
        let s = s\<lparr>cbest_init := True\<rparr>
        in Inr (Some (fold (\<lambda>i matrix. matrix[i := 1, i + k := of_int (cbest_all w ! i)]) [0..<k]
                        (replicate (k * m) 0)), s)
      else case cauchy_original_coding_matrix k m w of
        None \<Rightarrow> Inr (None, s)
      | Some matrix \<Rightarrow>
          case cauchy_improve_coding_matrix k m w matrix s of (matrix, s) \<Rightarrow> Inr (Some matrix, s))"

end
