(* ===== verification/Cauchy_Correct.thy ===== *)
theory Cauchy_Correct
  imports Mds_Cauchy Reed_Sol_Correct Cauchy
begin

unbundle bit_operations_syntax

text \<open>
  The matrices of \<^verbatim>\<open>cauchy_best_r6.c\<close> and the matrix of \<^verbatim>\<open>reed_sol_r6_coding_matrix\<close>: all of them
  generate codes that survive the loss of any \<open>m\<close> devices, \<^verbatim>\<open>cauchy_n_ones\<close> counts the ones of the bit
  matrix of an element, and the improvement of a matrix makes its first row ones and no row heavier.
\<close>

section \<open>Matrices of codes that survive every loss\<close>

lemma gen_lower: "gen k matrix (k + i) j = matrix ! (i * k + j)"
  by (simp add: gen_def)

context galois_width
begin

text \<open>A flat matrix whose generator, the identity above it, is MDS.\<close>

definition mds_gen :: "nat \<Rightarrow> nat \<Rightarrow> cint list \<Rightarrow> bool" where
  "mds_gen k m matrix \<longleftrightarrow> length matrix = k * m \<and> mds (k + m) k (gen k matrix)"

lemma identity_top_gen: "identity_top k (gen k matrix)"
  by (simp add: identity_top_def gen_def)

lemma mds_gen_entry:
  assumes "mds_gen k m matrix" "i < m" "j < k"
  shows "gf_elem w (ent k matrix i j)" "ent k matrix i j \<noteq> 0"
  using assms mds_elem [of "k + m" k "gen k matrix" "k + i" j] mds_lower_nonzero [OF _ identity_top_gen, of "k + m" k matrix "k + i" j]
  by (simp_all add: mds_gen_def gen_lower ent_def mult.commute)

lemma mds_gen_coding:
  assumes M: "mds_gen k m matrix" and k: "0 < k"
  shows "coding_matrix k m w matrix" "mds_matrix k m w matrix"
proof -
  show "coding_matrix k m w matrix"
    unfolding coding_matrix_def
  proof (intro conjI allI impI)
    show "length matrix = k * m" using M by (simp add: mds_gen_def)
    show "gf_elem w (matrix ! i)" if "i < k * m" for i
    proof -
      have "i div k < m" "i mod k < k" "i = k * (i div k) + i mod k" using that k by (auto simp: less_mult_imp_div_less mult.commute)
      then show ?thesis using mds_gen_entry [OF M] by (metis ent_def)
    qed
    show "\<exists>j < k. matrix ! (i * k + j) \<noteq> 0" if "i < m" for i
      using mds_gen_entry(2) [OF M that k] k by (intro exI [of _ 0]) (simp add: ent_def mult.commute)
  qed
  show "mds_matrix k m w matrix" using M mds_invertible by (auto simp: mds_matrix_def mds_gen_def)
qed

lemma mds_gen_by_rows:
  assumes M: "mds_gen k m matrix" and len: "length matrix' = k * m" and i: "i < m" and t: "gf_elem w t" "t \<noteq> 0"
    and at: "\<And>r c. r < m \<Longrightarrow> c < k \<Longrightarrow> ent k matrix' r c = (if r = i then gmul w t (ent k matrix r c) else ent k matrix r c)"
  shows "mds_gen k m matrix'"
proof -
  have "gen k matrix' r c = (if r = k + i then gmul w t (gen k matrix r c) else gen k matrix r c)" if "r < k + m" "c < k" for r c
    using at [of "r - k" c] that by (auto simp: gen_def ent_def mult.commute)
  then have "mds (k + m) k (gen k matrix')"
    using M i t mds_scale_row [of "k + m" k "gen k matrix" "k + i" t "gen k matrix'"] by (auto simp: mds_gen_def)
  then show ?thesis using len by (simp add: mds_gen_def)
qed

lemma mds_gen_by_columns:
  assumes M: "mds_gen k m matrix" and len: "length matrix' = k * m" and j: "j < k" and t: "gf_elem w t" "t \<noteq> 0"
    and at: "\<And>r c. r < m \<Longrightarrow> c < k \<Longrightarrow> ent k matrix' r c = (if c = j then gmul w t (ent k matrix r c) else ent k matrix r c)"
  shows "mds_gen k m matrix'"
proof -
  have "gen k matrix' r c = (if c = j \<and> k \<le> r then gmul w t (gen k matrix r c) else gen k matrix r c)" if "r < k + m" "c < k" for r c
    using at [of "r - k" c] that by (auto simp: gen_def ent_def mult.commute)
  then have "mds (k + m) k (gen k matrix')"
    using M j t mds_scale_lower [of "k + m" k "gen k matrix" j t "gen k matrix'"] identity_top_gen by (auto simp: mds_gen_def)
  then show ?thesis using len by (simp add: mds_gen_def)
qed

section \<open>The matrix of inverses of sums\<close>

lemma index_fill_row:
  assumes "length t = k * m" "i < m" "b \<le> k"
  shows "\<exists>u. fold (\<lambda>j (t, index). (t[index := F j], index + 1)) [0..<b] (t, k * i) = (u, k * i + b) \<and> length u = k * m \<and>
    (\<forall>r < m. \<forall>c < k. ent k u r c = (if r = i \<and> c < b then F c else ent k t r c))"
  using assms(3)
proof (induction b)
  case (Suc b)
  then obtain u where u: "fold (\<lambda>j (t, index). (t[index := F j], index + 1)) [0..<b] (t, k * i) = (u, k * i + b)" "length u = k * m"
    "\<forall>r < m. \<forall>c < k. ent k u r c = (if r = i \<and> c < b then F c else ent k t r c)" by auto
  have "k * i + b < k * m" using flat_bound [of i m b k] assms(2) Suc.prems by (simp add: mult.commute)
  then show ?case using u Suc.prems by (auto simp: ent_def nth_list_update flat_index less_Suc_eq)
qed (use assms in auto)

lemma index_fill:
  assumes "length t = k * m"
  shows "\<exists>u. fst (fold (\<lambda>i s. fold (\<lambda>j (t, index). (t[index := F i j], index + 1)) [0..<k] s) [0..<m] (t, 0)) = u \<and> length u = k * m \<and>
    (\<forall>r < m. \<forall>c < k. ent k u r c = F r c)"
proof -
  let ?P = "\<lambda>i s. snd s = k * i \<and> length (fst s) = k * m \<and> (\<forall>r < i. r < m \<longrightarrow> (\<forall>c < k. ent k (fst s) r c = F r c))"
  have "?P m (fold (\<lambda>i s. fold (\<lambda>j (t, index). (t[index := F i j], index + 1)) [0..<k] s) [0..<m] (t, 0))"
  proof (rule fold_upt_inv0 [where P = ?P])
    fix i s assume i: "i < m" and P: "?P i s"
    then obtain u where "s = (u, k * i)" "length u = k * m" by (cases s) auto
    then show "?P (Suc i) (fold (\<lambda>j (t, index). (t[index := F i j], index + 1)) [0..<k] s)"
      using index_fill_row [of u k m i k "F i"] i P by (auto simp: less_Suc_eq)
  qed (use assms in auto)
  then show ?thesis by auto
qed

lemma inverse_sums_mds:
  assumes len: "length matrix = k * m" and X: "length X = m" "distinct X" and Y: "length Y = k" "distinct Y"
    and XY: "set X \<inter> set Y = {}" "\<forall>x \<in> set X \<union> set Y. gf_elem w x"
    and at: "\<forall>r < m. \<forall>c < k. ent k matrix r c = gdiv w 1 (X ! r XOR Y ! c)"
  shows "mds_gen k m matrix"
proof -
  have "mds (k + m) k (gen k matrix)"
  proof (rule cauchy_mds [OF identity_top_gen, where x = "(!) X" and y = "(!) Y"])
    show "inj_on ((!) X) {..<m}" "inj_on ((!) Y) {..<k}" using X Y by (auto simp: inj_on_def nth_eq_iff_index_eq)
    show "X ! i \<noteq> Y ! j" if "i < m" "j < k" for i j using XY(1) X(1) Y(1) that nth_mem by (metis IntI empty_iff)
    show "gen k matrix (k + i) j = gdiv w 1 (X ! i XOR Y ! j)" if "i < m" "j < k" for i j
      using at that by (simp add: gen_lower ent_def mult.commute)
  qed (use X(1) Y(1) XY(2) in auto)
  then show ?thesis using len by (simp add: mds_gen_def)
qed

lemma xy_matrix_mds:
  assumes X: "length X = m" "distinct X" and Y: "length Y = k" "distinct Y"
    and XY: "set X \<inter> set Y = {}" "\<forall>x \<in> set X \<union> set Y. gf_elem w x"
  shows "mds_gen k m (cauchy_xy_coding_matrix k m w X Y)"
  using index_fill [of "replicate (k * m) 0" k m "\<lambda>i j. gdiv w 1 (X ! i XOR Y ! j)"]
  by (intro inverse_sums_mds [OF _ assms]) (auto simp: cauchy_xy_coding_matrix_def)

lemma original_matrix_mds:
  assumes fit: "k + m \<le> 2 ^ w"
  shows "\<exists>matrix. cauchy_original_coding_matrix k m w = Some matrix \<and> mds_gen k m matrix"
proof -
  let ?X = "map of_nat [0..<m] :: cint list" and ?Y = "map of_nat [m..<k + m] :: cint list"
  have w: "w \<le> 32" using width by simp
  have el: "gf_elem w (of_nat i) \<and> unat (of_nat i :: cint) = i" if "i < k + m" for i using gf_elem_of_nat [OF w] that fit by simp
  have inj: "inj_on (of_nat :: nat \<Rightarrow> cint) {..<k + m}" using el by (metis inj_onI lessThan_iff)
  have "?X @ ?Y = map of_nat [0..<k + m]" using upt_add_eq_append [of 0 m k] by (simp add: add.commute)
  then have d: "distinct (?X @ ?Y)" using inj by (simp only: distinct_map) (simp add: atLeast0LessThan)
  obtain u where u: "fst (fold (\<lambda>i s. fold (\<lambda>j (t, index). (t[index := gdiv w 1 (of_nat i XOR of_nat (m + j))], index + 1)) [0..<k] s)
      [0..<m] (replicate (k * m) 0, 0)) = u" "length u = k * m" "\<forall>r < m. \<forall>c < k. ent k u r c = gdiv w 1 (of_nat r XOR of_nat (m + c))"
    using index_fill [of "replicate (k * m) 0" k m "\<lambda>i j. gdiv w 1 (of_nat i XOR of_nat (m + j))"] by auto
  have "mds_gen k m u" by (rule inverse_sums_mds [where X = ?X and Y = ?Y]) (use d u el in auto)
  moreover have "\<not> (w < 31 \<and> 2 ^ w < k + m)" using fit by simp
  ultimately show ?thesis using u(1) by (simp add: cauchy_original_coding_matrix_def)
qed

end

lemma original_matrix_none: "w < 31 \<Longrightarrow> 2 ^ w < k + m \<Longrightarrow> cauchy_original_coding_matrix k m w = None"
  by (simp add: cauchy_original_coding_matrix_def)

section \<open>The number of ones of an element\<close>

text \<open>The ones of the \<open>w\<close> columns of the bit matrix of \<open>n\<close>: of \<open>n\<close> times the powers of two.\<close>

definition word_ones :: "cint \<Rightarrow> nat" where
  "word_ones n = card {b. bit n b}"

definition block_ones :: "nat \<Rightarrow> cint \<Rightarrow> nat" where
  "block_ones w n = (\<Sum>i < w. word_ones (shift_pow w i n))"

lemma finite_bits [simp]: "finite {b. bit (n :: cint) b}"
  by (rule finite_subset [of _ "{..<32}"]) (auto dest: bit_imp_le_length)

lemma bit_push_1: "bit (push_bit k (1 :: cint)) n \<longleftrightarrow> n = k \<and> k < 32"
  unfolding bit_push_bit_iff bit_1_iff by (auto simp: le_less)

lemma and_exp: "(n :: cint) AND push_bit i 1 \<noteq> 0 \<longleftrightarrow> bit n i"
  using and_push_bit_1 [of n i] by simp

lemma shift_next_gmul:
  assumes "gf_width w" "2 \<le> w" "gf_elem w x"
  shows "gmul w x 2 = shift_next w x"
proof -
  have w: "1 \<le> w" "w \<le> 32" using assms(1) by simp_all
  have b: "bit (2 :: cint) n \<longleftrightarrow> n = 1" for n
  proof -
    have "bit (push_bit 1 1 :: cint) n \<longleftrightarrow> n = 1" using bit_push_1 [of 1 n] by auto
    then show ?thesis by simp
  qed
  then have e: "gf_elem w 2" using assms(2) by (auto simp: gf_elem_bit)
  have "gf_mul w 2 x = xsum (\<lambda>i. if i = 1 then shift_pow w i x else 0) {..<w}"
    unfolding gf_mul_xsum b ..
  also have "\<dots> = shift_next w x" using assms(2) by (subst xs.delta) auto
  finally show ?thesis using gmul_eq [OF w assms(3) e] gf_mul_commute [OF w assms(3) e] by simp
qed

lemma card_bits_xor:
  assumes "finite A" "finite P"
  shows "int (card (A - P \<union> (P - A))) = int (card A) + (\<Sum>b \<in> P. if b \<in> A - P \<union> (P - A) then 1 else -1)"
  using assms(2)
proof (induction P rule: finite_induct)
  case (insert p P)
  let ?D = "A - P \<union> (P - A)" let ?D' = "A - insert p P \<union> (insert p P - A)"
  have s: "(\<Sum>b \<in> P. if b \<in> ?D' then 1 else -1 :: int) = (\<Sum>b \<in> P. if b \<in> ?D then 1 else -1)"
    by (rule sum.cong) (use insert.hyps in auto)
  have f: "finite ?D" using assms(1) insert.hyps by auto
  have "int (card ?D') = int (card ?D) + (if p \<in> ?D' then 1 else -1)"
  proof (cases "p \<in> A")
    case True
    then have "?D = insert p ?D'" "p \<notin> ?D'" using insert.hyps by auto
    moreover have "finite ?D'" using f by (rule rev_finite_subset) (use insert.hyps True in auto)
    ultimately have "card ?D = Suc (card ?D')" by simp
    then show ?thesis using \<open>p \<notin> ?D'\<close> by simp
  next
    case False
    then have "?D' = insert p ?D" "p \<notin> ?D" using insert.hyps by auto
    then show ?thesis using f by simp
  qed
  then show ?case using insert s by simp
qed simp

lemma word_ones_xor: "int (word_ones (m XOR p)) = int (word_ones m) + (\<Sum>b | bit p b. if bit (m XOR p) b then 1 else -1)"
proof -
  let ?A = "{b. bit m b}" and ?P = "{b. bit p b}"
  have e: "{b. bit (m XOR p) b} = ?A - ?P \<union> (?P - ?A)" by (auto simp: bitsimps)
  have "(\<Sum>b \<in> ?P. if b \<in> ?A - ?P \<union> (?P - ?A) then 1 else -1 :: int) = (\<Sum>b \<in> ?P. if bit (m XOR p) b then 1 else -1)"
    by (rule sum.cong) (auto simp: bitsimps)
  then show ?thesis using card_bits_xor [OF finite_bits finite_bits, of m p] unfolding word_ones_def e by simp
qed

lemma word_ones_push: "gf_elem w n \<Longrightarrow> w < 32 \<or> \<not> bit n 31 \<Longrightarrow> w \<le> 32 \<Longrightarrow> word_ones (push_bit 1 n) = word_ones n"
proof -
  assume n: "gf_elem w n" "w < 32 \<or> \<not> bit n 31" "w \<le> 32"
  have "b < 31" if "bit n b" for b
  proof -
    have "b < w" using n(1) that by (simp add: gf_elem_bit)
    then show ?thesis using n that by (cases "b = 31") auto
  qed
  then have "bit (push_bit 1 n) b \<longleftrightarrow> (\<exists>c. b = Suc c \<and> bit n c)" for b
    unfolding bit_push_bit_iff by (cases b) (use bit_imp_le_length in force)+
  then have "{b. bit (push_bit 1 n) b} = Suc ` {b. bit n b}" by auto
  then show ?thesis by (simp add: word_ones_def card_image)
qed

lemma shift_next_ones:
  assumes w: "gf_width w" "2 \<le> w" and n: "gf_elem w n"
  defines "high \<equiv> push_bit (w - 1) 1 :: cint"
  defines "p \<equiv> shift_next w high"
  shows "shift_next w n = (if bit n (w - 1) then push_bit 1 (n XOR high) XOR p else push_bit 1 n)"
    "int (word_ones (shift_next w n)) = (if bit n (w - 1)
       then int (word_ones n) - 1 + (\<Sum>b | bit p b. if bit (shift_next w n) b then 1 else -1) else int (word_ones n))"
proof -
  have b: "1 \<le> w" "w \<le> 32" using w by simp_all
  have bh: "bit high i \<longleftrightarrow> i = w - 1" for i using b unfolding high_def bit_push_1 by auto
  have h: "gf_elem w high" using b by (auto simp: gf_elem_bit bh)
  have low: "shift_next w y = push_bit 1 y" if "gf_elem w y" "\<not> bit y (w - 1)" for y
    
  proof -
    have "y AND push_bit (w - 1) 1 = 0" using that and_exp by blast
    then show ?thesis unfolding shift_next_def by simp
  qed
  have sn: "shift_next w n = (if bit n (w - 1) then push_bit 1 (n XOR high) XOR p else push_bit 1 n)"
  proof (cases "bit n (w - 1)")
    case True
    have "\<not> bit (n XOR high) (w - 1)" using True by (simp add: bitsimps bh)
    moreover have "shift_next w n = shift_next w ((n XOR high) XOR high)" by (simp add: xor.assoc)
    ultimately show ?thesis using True shift_next_xor [OF b gf_elem_xor [OF n h] h] low [OF gf_elem_xor [OF n h]] by (simp add: p_def)
  qed (use low n in auto)
  then show "shift_next w n = (if bit n (w - 1) then push_bit 1 (n XOR high) XOR p else push_bit 1 n)" .
  show "int (word_ones (shift_next w n)) = (if bit n (w - 1)
       then int (word_ones n) - 1 + (\<Sum>b | bit p b. if bit (shift_next w n) b then 1 else -1) else int (word_ones n))"
  proof (cases "bit n (w - 1)")
    case True
    let ?m = "n XOR high"
    have "{b. bit n b} = insert (w - 1) {b. bit ?m b}" "w - 1 \<notin> {b. bit ?m b}" using True by (auto simp: bitsimps bh)
    then have "word_ones n = Suc (word_ones ?m)" unfolding word_ones_def by simp
    moreover have "word_ones (push_bit 1 ?m) = word_ones ?m"
      by (rule word_ones_push [of w]) (use True n h b in \<open>auto simp: bitsimps bh le_less\<close>)
    ultimately show ?thesis using True sn word_ones_xor [of "push_bit 1 ?m" p] by simp
  next
    case False
    then show ?thesis using sn word_ones_push [OF n, of] b by (auto simp: le_less)
  qed
qed

section \<open>Counting with the static tables\<close>

text \<open>
  The entries of a width that has been set up: the product of the highest bit and two, and each of its
  ones once.
\<close>

definition width_set_up :: "nat \<Rightarrow> cauchy \<Rightarrow> bool" where
  "width_set_up w s \<longleftrightarrow> PPs s w = shift_next w (push_bit (w - 1) 1) \<and> NOs s w \<le> length (ONEs s w) \<and>
     distinct (take (NOs s w) (ONEs s w)) \<and> set (take (NOs s w) (ONEs s w)) = (\<lambda>i. push_bit i 1) ` {b. bit (PPs s w) b}"

definition cauchy_ok :: "cauchy \<Rightarrow> bool" where
  "cauchy_ok s \<longleftrightarrow> (\<forall>w. length (ONEs s w) = 33 \<and> (gf_width w \<longrightarrow> 2 \<le> w \<longrightarrow> PPs s w \<noteq> -1 \<longrightarrow> width_set_up w s))"

lemma cauchy_ok_start: "cauchy_ok cauchy_start"
  by (simp add: cauchy_ok_def cauchy_start_def)

lemma cauchy_ok_init [simp]: "cauchy_ok (s\<lparr>cbest_init := b\<rparr>) = cauchy_ok s"
  by (simp add: cauchy_ok_def width_set_up_def)

lemma push_1_inj: "i < 32 \<Longrightarrow> push_bit i (1 :: cint) = push_bit j 1 \<Longrightarrow> i = j"
  using bit_push_1 [of i i] bit_push_1 [of j i] by simp

lemma collect_ones:
  fixes p :: cint and ones :: "cint list"
  assumes "b \<le> 32" "length ones = 33"
  shows "\<exists>os n. fold (\<lambda>i (ones, nones). if p AND push_bit i 1 \<noteq> 0 then (ones[nones := push_bit i 1], nones + 1) else (ones, nones))
      [0..<b] (ones, 0) = (os, n) \<and> n \<le> b \<and> length os = 33 \<and> distinct (take n os) \<and>
    set (take n os) = (\<lambda>i. push_bit i (1 :: cint)) ` {i. i < b \<and> bit p i}"
  using assms(1)
proof (induction b)
  case (Suc b)
  let ?f = "\<lambda>i (ones, nones). if p AND push_bit i 1 \<noteq> 0 then (ones[nones := push_bit i 1], nones + 1) else (ones, nones)"
  obtain os n where I: "fold ?f [0..<b] (ones, 0) = (os, n)" "n \<le> b" "length os = 33" "distinct (take n os)"
      "set (take n os) = (\<lambda>i. push_bit i (1 :: cint)) ` {i. i < b \<and> bit p i}" using Suc by auto
  show ?case
  proof (cases "bit p b")
    case True
    have "push_bit b (1 :: cint) \<notin> set (take n os)" using I(5) push_1_inj [of b] Suc.prems by auto
    moreover have "take (Suc n) (os[n := push_bit b 1]) = take n os @ [push_bit b 1]"
      using I(2,3) Suc.prems by (simp add: take_Suc_conv_app_nth)
    moreover have "{i. i < Suc b \<and> bit p i} = insert b {i. i < b \<and> bit p i}" using True by (auto simp: less_Suc_eq)
    ultimately show ?thesis using I True and_exp [of p b] by (simp del: push_bit_of_1)
  next
    case False
    then have "{i. i < Suc b \<and> bit p i} = {i. i < b \<and> bit p i}" by (auto simp: less_Suc_eq)
    then show ?thesis using I False and_exp [of p b] by (simp del: push_bit_of_1)
  qed
qed (use assms in auto)

lemma gf_elem_high: "1 \<le> w \<Longrightarrow> w \<le> 32 \<Longrightarrow> gf_elem w (push_bit (w - 1) 1)"
  unfolding gf_elem_bit bit_push_1 by auto

lemma shift_next_high_not_minus_1:
  assumes "gf_width w" "2 \<le> w"
  shows "shift_next w (push_bit (w - 1) 1) \<noteq> -1"
proof
  assume e: "shift_next w (push_bit (w - 1) 1) = -1"
  have w: "1 \<le> w" "w \<le> 32" using assms by simp_all
  have "bit (shift_next w (push_bit (w - 1) 1)) 31" using e by simp
  then have "31 < w" using gf_elem_shift_next [OF w gf_elem_high [OF w]] unfolding gf_elem_bit by blast
  then have "w = 32" using w by simp
  then show False using e by (simp add: shift_next_def nwm1_def prim_poly_def)
qed

lemma ones_setup_ok:
  assumes s: "cauchy_ok s" and w: "gf_width w" "2 \<le> w"
  shows "cauchy_ok (ones_setup w s)" "width_set_up w (ones_setup w s)"
proof -
  have b: "1 \<le> w" "w \<le> 32" using w by simp_all
  let ?p = "shift_next w (push_bit (w - 1) 1)"
  have pp: "gmul w (push_bit (w - 1) 1) 2 = ?p" by (rule shift_next_gmul [OF w gf_elem_high [OF b]])
  have "cauchy_ok (ones_setup w s) \<and> width_set_up w (ones_setup w s)"
  proof (cases "PPs s w = -1")
    case True
    obtain os n where I: "fold (\<lambda>i (ones, nones). if ?p AND push_bit i 1 \<noteq> 0 then (ones[nones := push_bit i 1], nones + 1) else (ones, nones))
        [0..<w] (ONEs s w, 0) = (os, n)" "n \<le> w" "length os = 33" "distinct (take n os)"
        "set (take n os) = (\<lambda>i. push_bit i (1 :: cint)) ` {i. i < w \<and> bit ?p i}"
      using collect_ones [OF b(2), of "ONEs s w" ?p] s by (auto simp: cauchy_ok_def)
    have "{i. i < w \<and> bit ?p i} = {i. bit ?p i}"
      using gf_elem_shift_next [OF b gf_elem_high [OF b]] unfolding gf_elem_bit by auto
    moreover have "ones_setup w s = s\<lparr>PPs := (PPs s)(w := ?p), ONEs := (ONEs s)(w := os), NOs := (NOs s)(w := n)\<rparr>"
      using True I(1) pp unfolding ones_setup_def Let_def by (simp del: push_bit_of_1)
    ultimately show ?thesis using s I b by (auto simp: cauchy_ok_def width_set_up_def)
  next
    case False
    then show ?thesis using s w by (simp add: ones_setup_def cauchy_ok_def)
  qed
  then show "cauchy_ok (ones_setup w s)" "width_set_up w (ones_setup w s)" by auto
qed

lemma ones_sum:
  assumes "distinct (take n os)" "n \<le> length os"
  shows "fold (\<lambda>j cno. cno + (if x AND os ! j \<noteq> 0 then 1 else -1)) [0..<n] a = a + (\<Sum>o' \<in> set (take n os). if (x :: cint) AND o' \<noteq> 0 then 1 else (-1 :: int))"
  using assms
proof (induction n)
  case (Suc n)
  have t: "take (Suc n) os = take n os @ [os ! n]" using Suc.prems by (simp add: take_Suc_conv_app_nth)
  then have "os ! n \<notin> set (take n os)" "distinct (take n os)" using Suc.prems(1) by auto
  then show ?case using Suc t by simp
qed simp

lemma n_ones_step_ok:
  assumes s: "width_set_up w s" and w: "gf_width w" "2 \<le> w" and n: "gf_elem w n" and cno: "cno = int (word_ones n)"
  shows "n_ones_step s w (n, no, cno) = (shift_next w n, no + int (word_ones (shift_next w n)), int (word_ones (shift_next w n)))"
proof -
  let ?p = "shift_next w (push_bit (w - 1) 1)"
  have P: "PPs s w = ?p" "set (take (NOs s w) (ONEs s w)) = (\<lambda>i. push_bit i 1) ` {b. bit ?p b}"
    "distinct (take (NOs s w) (ONEs s w))" "NOs s w \<le> length (ONEs s w)" using s by (auto simp: width_set_up_def)
  have inj: "inj_on (\<lambda>i. push_bit i (1 :: cint)) {b. bit ?p b}"
  proof (rule inj_onI)
    fix i j assume "i \<in> {b. bit ?p b}" "push_bit i (1 :: cint) = push_bit j 1"
    then show "i = j" using push_1_inj [of i j] bit_imp_le_length [of ?p i] by (simp del: push_bit_of_1)
  qed
  note N = shift_next_ones [OF w n]
  have "(\<Sum>o' \<in> set (take (NOs s w) (ONEs s w)). if shift_next w n AND o' \<noteq> 0 then 1 else (-1 :: int))
      = (\<Sum>b | bit ?p b. if bit (shift_next w n) b then 1 else -1)"
    unfolding P(2) by (subst sum.reindex [OF inj]) (simp add: and_exp del: push_bit_of_1)
  then show ?thesis using N cno ones_sum [OF P(3,4), of "shift_next w n"] P(1) and_exp [of n "w - 1"]
    unfolding n_ones_step_def Let_def by (auto simp del: push_bit_of_1)
qed

lemma count_bits:
  assumes "gf_elem w n"
  shows "fold (\<lambda>i no. if n AND push_bit i 1 \<noteq> 0 then no + 1 else no) [0..<w] 0 = int (word_ones n)"
proof -
  have "fold (\<lambda>i no. if n AND push_bit i 1 \<noteq> 0 then no + 1 else no) [0..<w] 0 = int (card {i. i < w \<and> bit n i})"
  proof (rule fold_upt_inv0 [where P = "\<lambda>i no. no = int (card {j. j < i \<and> bit n j})"])
    fix i no assume "no = int (card {j. j < i \<and> bit n j})"
    moreover have "{j. j < Suc i \<and> bit n j} = (if bit n i then insert i {j. j < i \<and> bit n j} else {j. j < i \<and> bit n j})"
      by (auto simp: less_Suc_eq)
    ultimately show "(if n AND push_bit i 1 \<noteq> 0 then no + 1 else no) = int (card {j. j < Suc i \<and> bit n j})"
      unfolding and_exp by simp
  qed simp
  moreover have "{i. i < w \<and> bit n i} = {b. bit n b}" using assms unfolding gf_elem_bit by auto
  ultimately show ?thesis by (simp add: word_ones_def)
qed

lemma cauchy_n_ones_ok:
  assumes s: "cauchy_ok s" and w: "gf_width w" "2 \<le> w" and n: "gf_elem w n"
  shows "cauchy_n_ones n w s = (int (block_ones w n), ones_setup w s)"
proof -
  have b: "1 \<le> w" "w \<le> 32" using w by simp_all
  let ?s = "ones_setup w s"
  let ?P = "\<lambda>i (x, no, cno). x = shift_pow w (i - 1) n \<and> no = (\<Sum>j < i. int (word_ones (shift_pow w j n))) \<and> cno = int (word_ones x)"
  have "?P w (fold (\<lambda>i. n_ones_step ?s w) [1..<w] (n, int (word_ones n), int (word_ones n)))"
  proof (rule fold_upt_inv [where P = ?P])
    fix i t assume i: "1 \<le> i" "i < w" and t: "?P i t"
    obtain x no cno where x: "t = (x, no, cno)" by (cases t)
    have "shift_next w (shift_pow w (i - 1) n) = shift_pow w i n" using i by (cases i) auto
    then show "?P (Suc i) (n_ones_step ?s w t)"
      using t n_ones_step_ok [OF ones_setup_ok(2) [OF s w] w, of "shift_pow w (i - 1) n" cno no] b n x by simp
  qed (use w in auto)
  then show ?thesis using count_bits [OF n]
    unfolding cauchy_n_ones_def Let_def by (auto simp: block_ones_def split: prod.splits simp del: push_bit_of_1)
qed

section \<open>Improving a matrix\<close>

text \<open>The ones of the bit matrix of a row.\<close>

definition row_block_ones :: "nat \<Rightarrow> nat \<Rightarrow> cint list \<Rightarrow> nat \<Rightarrow> nat" where
  "row_block_ones k w matrix i = (\<Sum>j < k. block_ones w (ent k matrix i j))"

lemma row_cost_ok:
  assumes s: "cauchy_ok s" and w: "gf_width w" "2 \<le> w" and f: "\<And>j. j < k \<Longrightarrow> gf_elem w (f j)"
  shows "\<exists>s'. row_cost k w f s = (int (\<Sum>j < k. block_ones w (f j)), s') \<and> cauchy_ok s'"
proof -
  let ?P = "\<lambda>i (no, s). no = int (\<Sum>j < i. block_ones w (f j)) \<and> cauchy_ok s"
  have "?P k (row_cost k w f s)" unfolding row_cost_def
  proof (rule fold_upt_inv0 [where P = ?P])
    fix i t assume i: "i < k" and P: "?P i t"
    obtain no s where t: "t = (no, s)" by (cases t)
    then have s: "cauchy_ok s" using P by simp
    show "?P (Suc i) (case t of (no, s) \<Rightarrow> case cauchy_n_ones (f i) w s of (n, s) \<Rightarrow> (no + n, s))"
      using P t cauchy_n_ones_ok [OF s w f [OF i]] ones_setup_ok(1) [OF s w] by simp
  qed (use s in auto)
  then show ?thesis by auto
qed

context galois_width
begin

lemma improve_column_ok:
  assumes M: "mds_gen k m matrix" and j: "j < k" and m: "0 < m"
  shows "mds_gen k m (improve_column k m w j matrix) \<and> ent k (improve_column k m w j matrix) 0 j = 1 \<and>
    (\<forall>r < m. \<forall>c < k. c \<noteq> j \<longrightarrow> ent k (improve_column k m w j matrix) r c = ent k matrix r c)"
proof (cases "matrix ! j = 1")
  case True
  then show ?thesis using M by (simp add: improve_column_def ent_def)
next
  case False
  let ?e = "ent k matrix 0 j" let ?t = "gdiv w 1 ?e" let ?m = "improve_column k m w j matrix"
  note e = mds_gen_entry [OF M m j]
  note t = inverse_factor [OF e]
  have run: "?m = fold (\<lambda>i matrix. matrix[j + i * k := gmul w (matrix ! (j + i * k)) ?t]) [0..<m] matrix"
    using False by (simp add: improve_column_def ent_def Let_def)
  have len: "length matrix = k * m" using M by (simp add: mds_gen_def)
  have A: "length ?m = k * m" "\<forall>r < m. \<forall>c < k. ent k ?m r c = (if c = j then gmul w (ent k matrix r j) ?t else ent k matrix r c)"
    using column_fold_ent [OF len j j, of m 0 "\<lambda>a b. gmul w a ?t"] unfolding run by auto
  have at: "ent k ?m r c = (if c = j then gmul w ?t (ent k matrix r c) else ent k matrix r c)" if "r < m" "c < k" for r c
    using A(2) that mul_commute [OF mds_gen_entry(1) [OF M that] t(1)] by auto
  have "mds_gen k m ?m" by (rule mds_gen_by_columns [OF M A(1) j t(1,2) at])
  then show ?thesis using at [OF m j] t(3) at by auto
qed

lemma improve_columns_ok:
  assumes M: "mds_gen k m matrix" and m: "0 < m"
  shows "mds_gen k m (fold (improve_column k m w) [0..<k] matrix) \<and> (\<forall>c < k. ent k (fold (improve_column k m w) [0..<k] matrix) 0 c = 1)"
  by (rule fold_upt_inv0 [where P = "\<lambda>j t. mds_gen k m t \<and> (\<forall>c < j. ent k t 0 c = 1)"])
    (use M m improve_column_ok in \<open>auto simp: less_Suc_eq\<close>)

lemma improve_search_ok:
  assumes row: "\<And>j. j < k \<Longrightarrow> gf_elem w (f j) \<and> f j \<noteq> 0" and w2: "2 \<le> w" and s: "cauchy_ok s"
    and bno: "bno = int (\<Sum>x < k. block_ones w (f x))"
  shows "\<exists>b i s'. fold (\<lambda>j (bno, bno_index, s).
             if f j \<noteq> 1 then
               let tmp = gdiv w 1 (f j);
                   (tno, s) = row_cost k w (\<lambda>x. gmul w (f x) tmp) s
               in if tno < bno then (tno, Some j, s) else (bno, bno_index, s)
             else (bno, bno_index, s)) [0..<k] (bno, None, s) = (b, i, s') \<and> cauchy_ok s' \<and> b \<le> bno \<and>
    (case i of None \<Rightarrow> True | Some j \<Rightarrow> j < k \<and> b = int (\<Sum>x < k. block_ones w (gmul w (f x) (gdiv w 1 (f j)))))"
proof -
  let ?P = "\<lambda>n (b, i, s). cauchy_ok s \<and> b \<le> bno \<and>
    (case i of None \<Rightarrow> True | Some j \<Rightarrow> j < k \<and> b = int (\<Sum>x < k. block_ones w (gmul w (f x) (gdiv w 1 (f j)))))"
  let ?step = "\<lambda>j (bno, bno_index, s).
             if f j \<noteq> 1 then
               let tmp = gdiv w 1 (f j);
                   (tno, s) = row_cost k w (\<lambda>x. gmul w (f x) tmp) s
               in if tno < bno then (tno, Some j, s) else (bno, bno_index, s)
             else (bno, bno_index, s)"
  have "?P k (fold ?step [0..<k] (bno, None, s))"
  proof (rule fold_upt_inv0 [where P = ?P])
    fix j t assume j: "j < k" and P: "?P j t"
    obtain b i s where t: "t = (b, i, s)" by (cases t)
    have s: "cauchy_ok s" using P t by simp
    have "gf_elem w (gmul w (f x) (gdiv w 1 (f j)))" if "x < k" for x
      using row [OF j] row [OF that] inverse_factor(1) elem_mul by blast
    then obtain s' where "row_cost k w (\<lambda>x. gmul w (f x) (gdiv w 1 (f j))) s
        = (int (\<Sum>x < k. block_ones w (gmul w (f x) (gdiv w 1 (f j)))), s')" "cauchy_ok s'"
      using row_cost_ok [OF s width w2, of k "\<lambda>x. gmul w (f x) (gdiv w 1 (f j))"] by auto
    then show "?P (Suc j) (?step j t)" using P t j by (auto simp: Let_def)
  qed (use s in auto)
  then show ?thesis by (metis (lifting) case_prodE)
qed

lemma improve_row_ok:
  assumes M: "mds_gen k m matrix" and i: "0 < i" "i < m" and w2: "2 \<le> w" and s: "cauchy_ok s"
  shows "\<exists>matrix' s'. improve_row k w i (matrix, s) = (matrix', s') \<and> mds_gen k m matrix' \<and> cauchy_ok s' \<and>
    row_block_ones k w matrix' i \<le> row_block_ones k w matrix i \<and>
    (\<forall>r < m. r \<noteq> i \<longrightarrow> (\<forall>c < k. ent k matrix' r c = ent k matrix r c))"
proof -
  let ?f = "\<lambda>j. matrix ! (i * k + j)"
  have fe: "?f j = ent k matrix i j" for j by (simp add: ent_def mult.commute)
  have row: "gf_elem w (?f j) \<and> ?f j \<noteq> 0" if "j < k" for j using mds_gen_entry [OF M i(2) that] fe by simp
  obtain s1 where s1: "row_cost k w ?f s = (int (\<Sum>j < k. block_ones w (?f j)), s1)" "cauchy_ok s1"
    using row_cost_ok [OF s width w2, of k ?f] row by auto
  obtain b bi s2 where S: "fold (\<lambda>j (bno, bno_index, s).
             if ?f j \<noteq> 1 then
               let tmp = gdiv w 1 (?f j);
                   (tno, s) = row_cost k w (\<lambda>x. gmul w (?f x) tmp) s
               in if tno < bno then (tno, Some j, s) else (bno, bno_index, s)
             else (bno, bno_index, s)) [0..<k] (int (\<Sum>j < k. block_ones w (?f j)), None, s1) = (b, bi, s2)"
      "cauchy_ok s2" "b \<le> int (\<Sum>j < k. block_ones w (?f j))"
      "case bi of None \<Rightarrow> True | Some j \<Rightarrow> j < k \<and> b = int (\<Sum>x < k. block_ones w (gmul w (?f x) (gdiv w 1 (?f j))))"
    using improve_search_ok [of k ?f s1, OF row w2 s1(2) refl] by blast
  have len: "length matrix = k * m" using M by (simp add: mds_gen_def)
  show ?thesis
  proof (cases bi)
    case None
    then have "improve_row k w i (matrix, s) = (matrix, s2)" using s1(1) S(1) by (simp add: improve_row_def Let_def)
    then show ?thesis using M S(2) by auto
  next
    case (Some j)
    let ?t = "gdiv w 1 (?f j)" let ?m = "row_map k (k * i) (\<lambda>v. gmul w v ?t) matrix"
    have j: "j < k" "(\<Sum>x < k. block_ones w (gmul w (?f x) ?t)) \<le> (\<Sum>x < k. block_ones w (?f x))"
      using S(3,4) Some by (simp_all del: of_nat_sum)
    have t: "gf_elem w ?t" "?t \<noteq> 0" using inverse_factor row [OF j(1)] by auto
    note A = row_map_ent [OF len i(2), of "\<lambda>v. gmul w v ?t"]
    have at: "ent k ?m r c = (if r = i then gmul w ?t (ent k matrix r c) else ent k matrix r c)" if "r < m" "c < k" for r c
      using A that mul_commute [OF mds_gen_entry(1) [OF M that] t(1)] by auto
    have "mds_gen k m ?m" by (rule mds_gen_by_rows [OF M _ i(2) t at]) (use A in auto)
    moreover have "improve_row k w i (matrix, s) = (?m, s2)"
      using s1(1) S(1) Some by (simp add: improve_row_def Let_def row_map_def mult.commute [of k i])
    moreover have "row_block_ones k w ?m i = (\<Sum>x < k. block_ones w (gmul w (?f x) ?t))"
      unfolding row_block_ones_def by (rule sum.cong) (use A i fe in auto)
    moreover have "row_block_ones k w matrix i = (\<Sum>x < k. block_ones w (?f x))" by (simp add: row_block_ones_def fe)
    ultimately show ?thesis using j(2) S(2) at by auto
  qed
qed

lemma row_block_ones_cong: "(\<And>c. c < k \<Longrightarrow> ent k a r c = ent k b r c) \<Longrightarrow> row_block_ones k v a r = row_block_ones k v b r"
  unfolding row_block_ones_def by (rule sum.cong) auto

lemma improve_matrix_ok:
  assumes M: "mds_gen k m matrix" and m: "0 < m" and w2: "2 \<le> w" and s: "cauchy_ok s"
  shows "\<exists>matrix' s'. cauchy_improve_coding_matrix k m w matrix s = (matrix', s') \<and> mds_gen k m matrix' \<and> cauchy_ok s' \<and>
    (\<forall>c < k. ent k matrix' 0 c = 1) \<and>
    (\<forall>r < m. row_block_ones k w matrix' r \<le> row_block_ones k w (fold (improve_column k m w) [0..<k] matrix) r)"
proof -
  let ?m = "fold (improve_column k m w) [0..<k] matrix"
  let ?P = "\<lambda>i (t, s). mds_gen k m t \<and> cauchy_ok s \<and> (\<forall>c < k. ent k t 0 c = 1) \<and>
    (\<forall>r < m. row_block_ones k w t r \<le> row_block_ones k w ?m r)"
  have "?P m (fold (improve_row k w) [1..<m] (?m, s))"
  proof (rule fold_upt_inv [where P = ?P])
    fix i u assume i: "1 \<le> i" "i < m" and P: "?P i u"
    obtain t s where u: "u = (t, s)" by (cases u)
    then obtain t' s' where R: "improve_row k w i (t, s) = (t', s')" "mds_gen k m t'" "cauchy_ok s'"
        "row_block_ones k w t' i \<le> row_block_ones k w t i" "\<forall>r < m. r \<noteq> i \<longrightarrow> (\<forall>c < k. ent k t' r c = ent k t r c)"
      using improve_row_ok [of k m t i s] P i w2 by auto
    have "row_block_ones k w t' r \<le> row_block_ones k w ?m r" if "r < m" for r
    proof (cases "r = i")
      case True
      then show ?thesis using R(4) P u that by (metis (no_types, lifting) case_prodD le_trans)
    next
      case False
      then show ?thesis using R(5) P u that row_block_ones_cong [of k t' r t w] by auto
    qed
    then show "?P (Suc i) (improve_row k w i u)" using R P u i by auto
  qed (use improve_columns_ok [OF M m] s m in auto)
  then show ?thesis unfolding cauchy_improve_coding_matrix_def by (cases "fold (improve_row k w) [1..<m] (?m, s)") auto
qed

end

section \<open>Two coding devices\<close>

context galois_width
begin

lemma two_rows_gen:
  assumes len: "length matrix = k * 2" and ones: "\<And>j. j < k \<Longrightarrow> matrix ! j = 1"
    and c: "\<And>j. j < k \<Longrightarrow> gf_elem w (matrix ! (k + j)) \<and> matrix ! (k + j) \<noteq> 0" "inj_on (\<lambda>j. matrix ! (k + j)) {..<k}"
  shows "mds_gen k 2 matrix"
proof -
  have g: "gen k matrix k j = matrix ! j" "gen k matrix (k + 1) j = matrix ! (k + j)" for j by (simp_all add: gen_def)
  have inj: "inj_on (gen k matrix (k + 1)) {..<k}" using c(2) unfolding inj_on_def g .
  have "mds (k + 2) k (gen k matrix)" by (rule two_rows_mds [OF identity_top_gen _ _ inj]) (use ones c(1) in \<open>simp_all only: g simp_thms\<close>)
  then show ?thesis using len by (simp add: mds_gen_def)
qed

end

lemma cbest_all_ok:
  assumes "2 \<le> w" "w \<le> 8"
  shows "table_ok w (cbest_all w)" "length (cbest_all w) = 2 ^ w - 1" "cbest_max_k w = int (2 ^ w) - 1"
proof -
  have l: "length cbest_2 = 3" "length cbest_3 = 7" "length cbest_4 = 15" "length cbest_5 = 31" "length cbest_6 = 63"
    "length cbest_7 = 127" "length cbest_8 = 255" by code_simp+
  consider "w = 2" | "w = 3" | "w = 4" | "w = 5" | "w = 6" | "w = 7" | "w = 8" using assms by linarith
  then have "table_ok w (cbest_all w) \<and> length (cbest_all w) = 2 ^ w - 1 \<and> cbest_max_k w = int (2 ^ w) - 1"
    by cases (simp_all add: cbest_all_def cbest_max_k_def cbest_ok l)
  then show "table_ok w (cbest_all w)" "length (cbest_all w) = 2 ^ w - 1" "cbest_max_k w = int (2 ^ w) - 1" by auto
qed

lemma two_rows_fill:
  assumes "length t = k * 2" "b \<le> k"
  shows "length (fold (\<lambda>i t. t[i := 1, i + k := f i]) [0..<b] t) = k * 2 \<and>
    (\<forall>j < b. fold (\<lambda>i t. t[i := 1, i + k := f i]) [0..<b] t ! j = 1 \<and> fold (\<lambda>i t. t[i := 1, i + k := f i]) [0..<b] t ! (k + j) = f j)"
  using assms(2)
proof (induction b)
  case (Suc b)
  then show ?case using assms(1) by (auto simp: nth_list_update less_Suc_eq add.commute)
qed (use assms in auto)

lemma good_table_ok:
  assumes w: "2 \<le> w" "w \<le> 8" and k: "k < 2 ^ w"
  shows "\<exists>matrix. cauchy_good_general_coding_matrix k 2 w s = Inr (Some matrix, s\<lparr>cbest_init := True\<rparr>) \<and>
    galois_width.mds_gen w k 2 matrix \<and> (\<forall>j < k. matrix ! j = 1)"
proof -
  have gw: "galois_width w" using w unfolding galois_width_def gf_width_def by auto
  note T = cbest_all_ok [OF w]
  let ?m = "fold (\<lambda>i matrix. matrix[i := 1, i + k := of_int (cbest_all w ! i)]) [0..<k] (replicate (k * 2) 0) :: cint list"
  have A: "length ?m = k * 2" "\<forall>j < k. ?m ! j = 1 \<and> ?m ! (k + j) = of_int (cbest_all w ! j)"
    using two_rows_fill [of "replicate (k * 2) 0" k k "\<lambda>i. of_int (cbest_all w ! i)"] by auto
  define v where "v j = nat (cbest_all w ! j)" for j
  have v: "0 < v j" "v j < 2 ^ w" "of_int (cbest_all w ! j) = (of_nat (v j) :: cint)" if "j < k" for j
  proof -
    have "j < length (cbest_all w)" using T(2) k that by simp
    then have "0 < cbest_all w ! j" "cbest_all w ! j < 2 ^ w" using T(1) by (auto simp: table_ok_def)
    then show "0 < v j" "v j < 2 ^ w" "of_int (cbest_all w ! j) = (of_nat (v j) :: cint)" by (auto simp: v_def nat_less_iff)
  qed
  have el: "gf_elem w (of_nat (v j)) \<and> unat (of_nat (v j) :: cint) = v j" if "j < k" for j
    using gf_elem_of_nat [of w "v j"] v(2) [OF that] w by simp
  have nz: "(of_nat (v j) :: cint) \<noteq> 0" if "j < k" for j using el [OF that] v(1) [OF that] by (metis not_less_zero unat_0)
  have inj: "i = j" if "i < k" "j < k" "(of_nat (v i) :: cint) = of_nat (v j)" for i j
  proof -
    have "v i = v j" using el that by metis
    then have "cbest_all w ! i = cbest_all w ! j" using v(1) that by (metis v_def nat_0_less_mult_iff nat_eq_iff2 zero_less_nat_eq int_nat_eq less_le)
    then show ?thesis using T(1,2) that k by (auto simp: table_ok_def nth_eq_iff_index_eq)
  qed
  have "galois_width.mds_gen w k 2 ?m"
    by (rule galois_width.two_rows_gen [OF gw A(1)]) (use A(2) v(3) el nz inj in \<open>auto simp: inj_on_def\<close>)
  moreover have "cauchy_good_general_coding_matrix k 2 w s = Inr (Some ?m, s\<lparr>cbest_init := True\<rparr>)"
  proof -
    have "int k < 2 ^ w" using k by (metis of_nat_less_iff of_nat_numeral of_nat_power)
    then show ?thesis using w T(3) by (simp add: cauchy_good_general_coding_matrix_def Let_def)
  qed
  ultimately show ?thesis using A(2) by auto
qed

lemma good_general_ok:
  assumes w: "gf_width w" "2 \<le> w" and km: "0 < m" "k + m \<le> 2 ^ w" and s: "cauchy_ok s" and m: "m = 2 \<longrightarrow> w \<le> 8 \<or> cbest_max_k w < int k"
  shows "\<exists>matrix s'. cauchy_good_general_coding_matrix k m w s = Inr (Some matrix, s') \<and>
    galois_width.mds_gen w k m matrix \<and> (\<forall>j < k. matrix ! j = 1) \<and> cauchy_ok s'"
proof (cases "m = 2 \<and> int k \<le> cbest_max_k w")
  case True
  then have "w \<le> 8" using m by auto
  then show ?thesis using good_table_ok [OF w(2), of k s] True km s by auto
next
  case False
  have gw: "galois_width w" using w(1) by (rule galois_width.intro)
  obtain t where t: "cauchy_original_coding_matrix k m w = Some t" "galois_width.mds_gen w k m t"
    using galois_width.original_matrix_mds [OF gw km(2)] by blast
  obtain u s' where u: "cauchy_improve_coding_matrix k m w t s = (u, s')" "galois_width.mds_gen w k m u" "cauchy_ok s'"
      "\<forall>c < k. ent k u 0 c = 1"
    using galois_width.improve_matrix_ok [OF gw t(2) km(1) w(2) s] by blast
  have "\<not> (m = 2 \<and> 32 < w)" using w unfolding gf_width_def by auto
  then have "cauchy_good_general_coding_matrix k m w s = Inr (Some u, s')"
    using False t(1) u(1) by (auto simp: cauchy_good_general_coding_matrix_def)
  then show ?thesis using u by (auto simp: ent_def)
qed

section \<open>The matrix of RAID-6\<close>

lemma r6_matrix_entries:
  assumes w: "w = 8 \<or> w = 16 \<or> w = 32" and k: "0 < k"
  shows "\<exists>matrix. reed_sol_r6_coding_matrix k w = Some matrix \<and> length matrix = k * 2 \<and>
    (\<forall>j < k. matrix ! j = 1 \<and> matrix ! (k + j) = shift_pow w j 1)"
proof -
  have gw: "gf_width w" "2 \<le> w" "1 \<le> w" "w \<le> 32" using w unfolding gf_width_def by auto
  define t0 where "t0 = (fold (\<lambda>i matrix. matrix[i := 1]) [0..<k] (replicate (2 * k) (0 :: cint)))[k := 1]"
  have t0: "t0 = (replicate k 1 @ replicate k 0)[k := 1]"
    unfolding t0_def by (subst copy_fold) (auto simp: map_replicate_trivial mult_2 intro: nth_equalityI)
  let ?P = "\<lambda>i (t, x). length t = 2 * k \<and> x = shift_pow w (i - 1) 1 \<and> (\<forall>j < k. t ! j = 1) \<and> (\<forall>j < i. t ! (k + j) = shift_pow w j 1)"
  have "?P k (fold (\<lambda>i (t, x). let x = gmul w x 2 in (t[k + i := x], x)) [1..<k] (t0, 1))"
  proof (rule fold_upt_inv [where P = ?P])
    fix i s assume i: "1 \<le> i" "i < k" and P: "?P i s"
    obtain t x where s: "s = (t, x)" by (cases s)
    have "gmul w (shift_pow w (i - 1) 1) 2 = shift_pow w i 1"
      using shift_next_gmul [OF gw(1,2), of "shift_pow w (i - 1) 1"] gw i by (cases i) auto
    then show "?P (Suc i) (case s of (t, x) \<Rightarrow> let x = gmul w x 2 in (t[k + i := x], x))"
      using P s i by (auto simp: Let_def nth_list_update less_Suc_eq)
  qed (use k t0 in \<open>auto simp: nth_append nth_list_update\<close>)
  then show ?thesis using w by (auto simp: reed_sol_r6_coding_matrix_def Let_def t0_def split: prod.splits)
qed

lemma r6_matrix_ok:
  assumes w: "w = 8 \<or> w = 16 \<or> w = 32" and k: "0 < k" "k < 2 ^ w"
  shows "\<exists>matrix. reed_sol_r6_coding_matrix k w = Some matrix \<and> galois_width.mds_gen w k 2 matrix"
proof -
  have gw: "gf_width w" "1 \<le> w" "w \<le> 32" using w unfolding gf_width_def by auto
  obtain t where t: "reed_sol_r6_coding_matrix k w = Some t" "length t = k * 2" "\<forall>j < k. t ! j = 1 \<and> t ! (k + j) = shift_pow w j 1"
    using r6_matrix_entries [OF w k(1)] by blast
  have "inj_on (\<lambda>j. shift_pow w j 1) {..<k}" by (rule inj_on_subset [OF shift_pow_inj [OF gw(1)]]) (use k(2) in auto)
  then have "inj_on (\<lambda>j. t ! (k + j)) {..<k}" using t(3) by (simp add: inj_on_def)
  moreover have "gf_elem w (shift_pow w j 1) \<and> shift_pow w j 1 \<noteq> 0" for j using shift_pow_nonzero [OF gw(1)] gw by simp
  ultimately have "galois_width.mds_gen w k 2 t"
    using galois_width.two_rows_gen [OF galois_width.intro [OF gw(1)] t(2)] t(3) by auto
  then show ?thesis using t(1) by blast
qed

end
