(* ===== verification/Bitmatrix_Make.thy ===== *)
theory Bitmatrix_Make
  imports Bitmatrix_Decode Cauchy_Correct
begin

unbundle bit_operations_syntax

text \<open>
  \<^verbatim>\<open>jerasure_matrix_to_bitmatrix\<close>: its entries, that the bit matrix computes on packets what the matrix computes on
  elements, and that it survives every loss the matrix survives.
\<close>

section \<open>The bit matrix of a matrix of elements\<close>

text \<open>Bit \<open>l\<close> of the entry \<open>(i, j)\<close> times the \<open>x\<close>-th power of two, and where it is stored.\<close>

definition bit_cell :: "nat \<Rightarrow> nat \<Rightarrow> cint list \<Rightarrow> nat \<times> nat \<times> nat \<times> nat \<Rightarrow> cint" where
  "bit_cell k w matrix = (\<lambda>(i, j, x, l). of_bool (bit (shift_pow w x (matrix ! (i * k + j))) l))"

definition cell_pos :: "nat \<Rightarrow> nat \<Rightarrow> nat \<times> nat \<times> nat \<times> nat \<Rightarrow> nat" where
  "cell_pos k w = (\<lambda>(i, j, x, l). (i * w + l) * (k * w) + (j * w + x))"

definition cells :: "nat \<Rightarrow> nat \<Rightarrow> nat \<Rightarrow> (nat \<times> nat \<times> nat \<times> nat) set" where
  "cells k m w = {..<m} \<times> {..<k} \<times> {..<w} \<times> {..<w}"

lemma cell_pos_bound: "c \<in> cells k m w \<Longrightarrow> cell_pos k w c < k * m * w * w"
proof -
  assume "c \<in> cells k m w"
  then obtain i j x l where c: "c = (i, j, x, l)" "i < m" "j < k" "x < w" "l < w" by (auto simp: cells_def)
  have "i * w + l < m * w" "j * w + x < k * w" using packet_bound [of i m l w] packet_bound [of j k x w] c by (simp_all add: mult.commute)
  from packet_bound [OF this] have "(i * w + l) * (k * w) + (j * w + x) < k * w * (m * w)" .
  then show ?thesis by (simp add: c cell_pos_def ac_simps)
qed

lemma cell_pos_inj: "inj_on (cell_pos k w) (cells k m w)"
proof (rule inj_onI)
  fix c d assume c: "c \<in> cells k m w" and d: "d \<in> cells k m w" and eq: "cell_pos k w c = cell_pos k w d"
  obtain i j x l where ci: "c = (i, j, x, l)" "i < m" "j < k" "x < w" "l < w" using c by (auto simp: cells_def)
  obtain i' j' x' l' where di: "d = (i', j', x', l')" "i' < m" "j' < k" "x' < w" "l' < w" using d by (auto simp: cells_def)
  have b: "j * w + x < k * w" "j' * w + x' < k * w" using packet_bound [of j k x w] packet_bound [of j' k x' w] ci di by (simp_all add: mult.commute)
  have "i * w + l = i' * w + l' \<and> j * w + x = j' * w + x'"
    using eq flat_index [OF b, of "i * w + l" "i' * w + l'"] by (simp add: ci di cell_pos_def mult.commute)
  then show "c = d" using flat_index [of l w l' i i'] flat_index [of x w x' j j'] ci di by (simp add: mult.commute)
qed

definition cells_done :: "nat \<Rightarrow> nat \<Rightarrow> nat \<Rightarrow> cint list \<Rightarrow> (nat \<times> nat \<times> nat \<times> nat) set \<Rightarrow> cint list \<Rightarrow> bool" where
  "cells_done k m w matrix S bm \<longleftrightarrow> length bm = k * m * w * w \<and> (\<forall>c \<in> cells k m w. c \<in> S \<longrightarrow> bm ! cell_pos k w c = bit_cell k w matrix c)"

lemma cells_done_write:
  assumes "cells_done k m w matrix S bm" "c \<in> cells k m w"
  shows "cells_done k m w matrix (insert c S) (bm[cell_pos k w c := bit_cell k w matrix c])"
  using assms cell_pos_bound [OF assms(2)] inj_onD [OF cell_pos_inj, of k w _ c m]
  by (auto simp: cells_done_def nth_list_update)

text \<open>The cells written before \<open>(i, j, x, l)\<close> in the order of the loops.\<close>

definition before :: "nat \<Rightarrow> nat \<Rightarrow> nat \<Rightarrow> nat \<Rightarrow> (nat \<times> nat \<times> nat \<times> nat) set" where
  "before i j x l = {(i', j', x', l'). i' < i \<or> i' = i \<and> (j' < j \<or> j' = j \<and> (x' < x \<or> x' = x \<and> l' < l))}"

lemma before_step:
  "insert (i, j, x, l) (before i j x l) = before i j x (Suc l)"
  "cells k m w \<inter> before i j x w = cells k m w \<inter> before i j (Suc x) 0"
  "cells k m w \<inter> before i j w 0 = cells k m w \<inter> before i (Suc j) 0 0"
  "cells k m w \<inter> before i k 0 0 = cells k m w \<inter> before (Suc i) 0 0 0"
  by (auto simp: before_def cells_def)

lemma cells_done_cong:
  "cells_done k m w matrix S bm \<Longrightarrow> cells k m w \<inter> S = cells k m w \<inter> S' \<Longrightarrow> cells_done k m w matrix S' bm"
  by (auto simp: cells_done_def)

lemma matrix_to_bitmatrix_cells:
  assumes w: "gf_width w" and matrix: "\<forall>i < k * m. gf_elem w (matrix ! i)"
  shows "cells_done k m w matrix UNIV (jerasure_matrix_to_bitmatrix k m w matrix)"
proof -
  let ?D = "cells_done k m w matrix"
  have elts: "gmul w (shift_pow w x (matrix ! (i * k + j))) 2 = shift_pow w (Suc x) (matrix ! (i * k + j))"
    if "i < m" "j < k" "Suc x < w" for i j x
    using shift_next_gmul [OF w, of "shift_pow w x (matrix ! (i * k + j))"] matrix row_index [OF that(1,2)] that(3) w by simp
  have inner: "?D (before i j (Suc x) 0) (fold (\<lambda>l bm. bm[i * (k * w * w) + j * w + x + l * (k * w) := (if elt AND push_bit l 1 \<noteq> 0 then 1 else 0)]) [0..<w] bm)"
    if "i < m" "j < k" "x < w" "?D (before i j x 0) bm" "elt = shift_pow w x (matrix ! (i * k + j))" for i j x bm elt
  proof -
    have "?D (before i j x w) (fold (\<lambda>l bm. bm[i * (k * w * w) + j * w + x + l * (k * w) := (if elt AND push_bit l 1 \<noteq> 0 then 1 else 0)]) [0..<w] bm)"
    proof (rule fold_upt_inv0 [where P = "\<lambda>l. ?D (before i j x l)"])
      fix l bm assume l: "l < w" and D: "?D (before i j x l) bm"
      have c: "(i, j, x, l) \<in> cells k m w" using that l by (simp add: cells_def)
      have p: "i * (k * w * w) + j * w + x + l * (k * w) = cell_pos k w (i, j, x, l)" by (simp add: cell_pos_def algebra_simps)
      have v: "(if elt AND push_bit l 1 \<noteq> 0 then 1 else 0) = bit_cell k w matrix (i, j, x, l)"
        using and_exp [of elt l] that(5) by (simp add: bit_cell_def)
      show "?D (before i j x (Suc l)) (bm[i * (k * w * w) + j * w + x + l * (k * w) := (if elt AND push_bit l 1 \<noteq> 0 then 1 else 0)])"
        using cells_done_write [OF D c] unfolding before_step(1) p v .
    qed (use that in simp)
    then show ?thesis by (rule cells_done_cong) (rule before_step(2))
  qed
  have block: "?D (before i (Suc j) 0 0) (fst (fold (\<lambda>x (bm, elt).
      (fold (\<lambda>l bm. bm[i * (k * w * w) + j * w + x + l * (k * w) := (if elt AND push_bit l 1 \<noteq> 0 then 1 else 0)]) [0..<w] bm, gmul w elt 2))
      [0..<w] (bm, matrix ! (i * k + j))))"
    if ij: "i < m" "j < k" and D: "?D (before i j 0 0) bm" for i j bm
  proof -
    let ?P = "\<lambda>x (bm, elt). ?D (before i j x 0) bm \<and> (x < w \<longrightarrow> elt = shift_pow w x (matrix ! (i * k + j)))"
    have "?P w (fold (\<lambda>x (bm, elt).
      (fold (\<lambda>l bm. bm[i * (k * w * w) + j * w + x + l * (k * w) := (if elt AND push_bit l 1 \<noteq> 0 then 1 else 0)]) [0..<w] bm, gmul w elt 2))
      [0..<w] (bm, matrix ! (i * k + j)))"
      by (rule fold_upt_inv0 [where P = ?P]) (use D inner [OF ij] elts [OF ij] in auto)
    then have "?D (before i j w 0) (fst (fold (\<lambda>x (bm, elt).
      (fold (\<lambda>l bm. bm[i * (k * w * w) + j * w + x + l * (k * w) := (if elt AND push_bit l 1 \<noteq> 0 then 1 else 0)]) [0..<w] bm, gmul w elt 2))
      [0..<w] (bm, matrix ! (i * k + j))))" by (simp add: case_prod_beta)
    then show ?thesis by (rule cells_done_cong) (rule before_step(3))
  qed
  let ?block = "\<lambda>i j bm colindex. fst (fold (\<lambda>x (bm, elt).
      (fold (\<lambda>l bm. bm[colindex + x + l * (k * w) := (if elt AND push_bit l 1 \<noteq> 0 then 1 else 0)]) [0..<w] bm, gmul w elt 2))
      [0..<w] (bm, matrix ! (i * k + j)))"
  have row: "?D (before (Suc i) 0 0 0) (fst (fold (\<lambda>j (bm, colindex). (?block i j bm colindex, colindex + w)) [0..<k] (bm, i * (k * w * w))))"
    if i: "i < m" and D: "?D (before i 0 0 0) bm" for i bm
  proof -
    let ?P = "\<lambda>j (bm, colindex). ?D (before i j 0 0) bm \<and> colindex = i * (k * w * w) + j * w"
    have "?P k (fold (\<lambda>j (bm, colindex). (?block i j bm colindex, colindex + w)) [0..<k] (bm, i * (k * w * w)))"
      by (rule fold_upt_inv0 [where P = ?P]) (use D block [OF i] in auto)
    then have "?D (before i k 0 0) (fst (fold (\<lambda>j (bm, colindex). (?block i j bm colindex, colindex + w)) [0..<k] (bm, i * (k * w * w))))"
      by (simp add: case_prod_beta)
    then show ?thesis by (rule cells_done_cong) (rule before_step(4))
  qed
  let ?P = "\<lambda>i (bm, rowindex). ?D (before i 0 0 0) bm \<and> rowindex = i * (k * w * w)"
  have "?P m (fold (\<lambda>i (bm, rowindex). (fst (fold (\<lambda>j (bm, colindex). (?block i j bm colindex, colindex + w)) [0..<k] (bm, rowindex)), rowindex + k * w * w))
      [0..<m] (replicate (k * m * w * w) 0, 0))"
    by (rule fold_upt_inv0 [where P = ?P]) (use row in \<open>auto simp: cells_done_def before_def\<close>)
  then have "?D (before m 0 0 0) (jerasure_matrix_to_bitmatrix k m w matrix)"
    by (simp add: jerasure_matrix_to_bitmatrix_def Let_def case_prod_beta)
  then show ?thesis by (rule cells_done_cong) (auto simp: cells_def before_def)
qed

lemma to_bitmatrix_nth:
  assumes "gf_width w" "\<forall>i < k * m. gf_elem w (matrix ! i)" "i < m" "l < w" "j < k" "x < w"
  shows "jerasure_matrix_to_bitmatrix k m w matrix ! ((i * w + l) * (k * w) + (j * w + x)) = of_bool (bit (shift_pow w x (matrix ! (i * k + j))) l)"
proof -
  have "(i, j, x, l) \<in> cells k m w" using assms by (simp add: cells_def)
  then have "jerasure_matrix_to_bitmatrix k m w matrix ! cell_pos k w (i, j, x, l) = bit_cell k w matrix (i, j, x, l)"
    using matrix_to_bitmatrix_cells [OF assms(1,2)] unfolding cells_done_def by blast
  then show ?thesis by (simp only: cell_pos_def bit_cell_def prod.case)
qed

lemma length_to_bitmatrix:
  assumes "gf_width w" "\<forall>i < k * m. gf_elem w (matrix ! i)"
  shows "length (jerasure_matrix_to_bitmatrix k m w matrix) = k * m * w * w"
  using matrix_to_bitmatrix_cells [OF assms] by (simp add: cells_done_def)

section \<open>Products with elements, bit by bit\<close>

lemma bit_gmul:
  assumes "gf_width w" "gf_elem w a" "gf_elem w y"
  shows "(of_bool (bit (gmul w a y) l) :: cint) = xsum (\<lambda>x. of_bool (bit (shift_pow w x a) l) AND of_bool (bit y x)) {..<w}"
proof -
  have w: "1 \<le> w" "w \<le> 32" using assms(1) by simp_all
  have "gmul w a y = gf_mul w y a" using gmul_eq [OF w assms(2,3)] gf_mul_commute [OF w assms(2,3)] by simp
  then have "(of_bool (bit (gmul w a y) l) :: cint) = xsum (\<lambda>i. of_bool (bit (if bit y i then shift_pow w i a else 0) l)) {..<w}"
    by (simp only: gf_mul_xsum bit_xsum)
  also have "\<dots> = xsum (\<lambda>x. of_bool (bit (shift_pow w x a) l) AND of_bool (bit y x)) {..<w}" by (rule xs.cong) auto
  finally show ?thesis .
qed

text \<open>The element whose bits are the entries \<open>j * w\<close> to \<open>j * w + w - 1\<close> of a vector of bits.\<close>

definition pack :: "nat \<Rightarrow> (nat \<Rightarrow> cint) \<Rightarrow> nat \<Rightarrow> cint" where
  "pack w v j = xsum (\<lambda>x. if v (j * w + x) \<noteq> 0 then push_bit x 1 else 0) {..<w}"

lemma bit_pack:
  assumes "w \<le> 32"
  shows "bit (pack w v j) q \<longleftrightarrow> q < w \<and> v (j * w + q) \<noteq> 0"
proof -
  have "(of_bool (bit (pack w v j) q) :: cint) = xsum (\<lambda>x. of_bool (bit (if v (j * w + x) \<noteq> 0 then push_bit x 1 else 0 :: cint) q)) {..<w}"
    unfolding pack_def bit_xsum ..
  also have "\<dots> = xsum (\<lambda>x. if x = q then of_bool (v (j * w + q) \<noteq> 0) else 0) {..<w}"
  proof (rule xs.cong)
    fix x assume x: "x \<in> {..<w}"
    have "bit (if v (j * w + x) \<noteq> 0 then push_bit x 1 else 0 :: cint) q \<longleftrightarrow> v (j * w + x) \<noteq> 0 \<and> q = x"
      using bit_push_1 [of x q] x assms by (cases "v (j * w + x) = 0") (simp_all del: push_bit_of_1)
    then show "(of_bool (bit (if v (j * w + x) \<noteq> 0 then push_bit x 1 else 0 :: cint) q) :: cint) = (if x = q then of_bool (v (j * w + q) \<noteq> 0) else 0)"
      by auto
  qed simp
  also have "\<dots> = of_bool (q < w \<and> v (j * w + q) \<noteq> 0)" by (simp add: xs.delta)
  finally show ?thesis by (simp only: of_bool_eq_iff)
qed

lemma pack_elem: "w \<le> 32 \<Longrightarrow> gf_elem w (pack w v j)"
  by (simp add: gf_elem_bit bit_pack)

text \<open>The generator matrix of bits computes what the generator matrix of elements computes.\<close>

lemma gen_bits:
  assumes w: "gf_width w" and matrix: "coding_matrix k m w matrix" and d: "d < k + m" "l < w" and v: "\<And>c. c < k * w \<Longrightarrow> is_bit (v c)"
  shows "xsum (\<lambda>c. gen (k * w) (jerasure_matrix_to_bitmatrix k m w matrix) (d * w + l) c AND v c) {..<k * w}
    = of_bool (bit (xsum (\<lambda>j. gmul w (gen k matrix d j) (pack w v j)) {..<k}) l)"
proof -
  let ?bm = "jerasure_matrix_to_bitmatrix k m w matrix"
  have w32: "1 \<le> w" "w \<le> 32" using w by simp_all
  have cell: "j * w + x < k * w" if "j < k" "x < w" for j x using packet_bound [OF that] by (simp add: mult.commute)
  have v': "v (j * w + x) = of_bool (bit (pack w v j) x)" if "j < k" "x < w" for j x
    using is_bit_of_bool [OF v [OF cell [OF that]]] that(2) bit_pack [OF w32(2)] by simp
  have g: "gen (k * w) ?bm (d * w + l) (j * w + x) = of_bool (bit (shift_pow w x (gen k matrix d j)) l)" if jx: "j < k" "x < w" for j x
  proof (cases "d < k")
    case True
    have s: "shift_pow w x (1 :: cint) = push_bit x 1" using shift_pow_push [OF w32, of 1 1 x] jx(2) by (simp del: push_bit_of_1)
    have "d * w + l = j * w + x \<longleftrightarrow> d = j \<and> l = x" using flat_index [of l w x d j] d(2) jx(2) by (simp add: mult.commute)
    then show ?thesis using True cell [OF True d(2)] bit_push_1 [of x l] jx(2) w32(2) by (auto simp: gen_def s simp del: push_bit_of_1)
  next
    case False
    then obtain i where i: "d = k + i" "i < m" using d(1) by (metis add_less_cancel_left le_add_diff_inverse not_less)
    have "\<forall>i < k * m. gf_elem w (matrix ! i)" using matrix by (simp add: coding_matrix_def)
    from to_bitmatrix_nth [OF w this i(2) d(2) jx] show ?thesis using i(1) by (simp add: gen_def add_mult_distrib)
  qed
  have "xsum (\<lambda>c. gen (k * w) ?bm (d * w + l) c AND v c) {..<k * w}
      = xsum (\<lambda>j. xsum (\<lambda>x. of_bool (bit (shift_pow w x (gen k matrix d j)) l) AND of_bool (bit (pack w v j) x)) {..<w}) {..<k}"
    unfolding xsum_blocks by (intro xs.cong refl) (use g v' in auto)
  also have "\<dots> = xsum (\<lambda>j. of_bool (bit (gmul w (gen k matrix d j) (pack w v j)) l)) {..<k}"
    by (intro xs.cong refl bit_gmul [OF w, symmetric]) (use gen_elem [OF matrix w d(1)] pack_elem [OF w32(2)] in auto)
  finally show ?thesis by (simp only: bit_xsum)
qed

section \<open>The bit matrix survives what the matrix survives\<close>

lemma zero_elem: "gf_elem w y \<Longrightarrow> (\<And>l. l < w \<Longrightarrow> \<not> bit y l) \<Longrightarrow> y = 0"
  by (rule bit_word_eqI) (auto simp: gf_elem_bit)

lemma bit_system_elems:
  assumes B: "bit_matrix k m w bitmatrix" and ids: "\<And>i. i < k \<Longrightarrow> ids ! i < k + m"
  shows "gf2.elems (k * w) (bit_system k w bitmatrix ids)"
  using gen_bit [OF B ids] B less_mult_imp_div_less by (auto simp: gf2.elems_def bit_matrix_def)

lemma to_bitmatrix_bit_matrix:
  assumes w: "gf_width w" and matrix: "coding_matrix k m w matrix"
  shows "bit_matrix k m w (jerasure_matrix_to_bitmatrix k m w matrix)"
proof -
  let ?bm = "jerasure_matrix_to_bitmatrix k m w matrix"
  have w32: "1 \<le> w" "w \<le> 32" using w by simp_all
  have el: "\<forall>i < k * m. gf_elem w (matrix ! i)" using matrix by (simp add: coding_matrix_def)
  have f: "xor_field (gf_elem w) (gmul w) (gdiv w)" using w by (rule gf_field)
  note nth = to_bitmatrix_nth [OF w el]
  have "is_bit (?bm ! q)" if q: "q < k * m * w * w" for q
  proof -
    have "q < (m * w) * (k * w)" using q by (simp add: ac_simps)
    then have r: "q div (k * w) < m * w" by (rule less_mult_imp_div_less)
    have c: "q mod (k * w) < k * w" using q by (metis mod_less_divisor mult_0 mult_is_0 neq0_conv not_less_zero)
    have at: "(q div (k * w) div w * w + q div (k * w) mod w) * (k * w) + (q mod (k * w) div w * w + q mod (k * w) mod w) = q"
      by (simp only: div_mult_mod_eq)
    have "q div (k * w) div w < m" "q div (k * w) mod w < w" "q mod (k * w) div w < k" "q mod (k * w) mod w < w"
      using r c w32 by (simp_all add: less_mult_imp_div_less)
    from nth [OF this] show ?thesis unfolding at by (simp add: is_bit_def)
  qed
  moreover have "\<exists>c < k * w. row_bit (k * w) ?bm r c" if r: "r < m * w" for r
  proof (rule ccontr)
    assume none: "\<not> ?thesis"
    have i: "r div w < m" "r mod w < w" using r w32 by (simp_all add: less_mult_imp_div_less)
    obtain j where j: "j < k" "matrix ! (r div w * k + j) \<noteq> 0" using matrix i(1) by (auto simp: coding_matrix_def)
    let ?a = "matrix ! (r div w * k + j)" and ?b = "push_bit (r mod w) (1 :: cint)"
    have ea: "gf_elem w ?a" using el row_index [OF i(1) j(1)] by simp
    have eb: "gf_elem w ?b" unfolding gf_elem_bit bit_push_1 using i(2) by auto
    have z: "\<not> bit (shift_pow w x ?a) (r mod w)" if x: "x < w" for x
    proof -
      have c: "j * w + x < k * w" using packet_bound [OF j(1) x] by (simp add: mult.commute)
      have "(r div w * w + r mod w) * (k * w) + (j * w + x) = r * (k * w) + (j * w + x)" by (simp only: div_mult_mod_eq)
      then show ?thesis using none c nth [OF i j(1) x] by (auto simp: row_bit_def split: if_splits)
    qed
    have "(of_bool (bit (gmul w ?a (gdiv w ?b ?a)) (r mod w)) :: cint) = 0"
      unfolding bit_gmul [OF w ea xor_field.elem_dv [OF f eb ea j(2)]] by (rule xs.neutral) (use z in auto)
    moreover have "gmul w ?a (gdiv w ?b ?a) = ?b" by (rule xor_field.mul_dv [OF f eb ea j(2)])
    moreover have "bit ?b (r mod w)" unfolding bit_push_1 using i(2) w32(2) by simp
    ultimately show False by simp
  qed
  ultimately show ?thesis using w32 length_to_bitmatrix [OF w el] by (simp add: bit_matrix_def rows_nonzero_def)
qed

lemma to_bitmatrix_invertible:
  assumes w: "gf_width w" and matrix: "coding_matrix k m w matrix" and ids: "\<And>i. i < k \<Longrightarrow> ids ! i < k + m"
    and inv: "gf_invertible w k (\<lambda>i. gen k matrix (ids ! i))"
  shows "gf2.invertible (k * w) (bit_system k w (jerasure_matrix_to_bitmatrix k m w matrix) ids)"
proof (rule xor_field.trivial_kernel_invertible [OF gf2.xor_field_axioms bit_system_elems [OF to_bitmatrix_bit_matrix [OF w matrix] ids]])
  have w32: "1 \<le> w" "w \<le> 32" using w by simp_all
  have f: "xor_field (gf_elem w) (gmul w) (gdiv w)" using w by (rule gf_field)
  obtain Bi where Bi: "gf_left_inverse w k Bi (\<lambda>i. gen k matrix (ids ! i))" using inv by (auto simp: xor_field.invertible_def [OF f])
  have el: "xor_field.elems (gf_elem w) k (\<lambda>i. gen k matrix (ids ! i))"
    using gen_elem [OF matrix w ids] by (simp add: xor_field.elems_def [OF f])
  have "v c = 0" if v: "\<forall>j < k * w. is_bit (v j)"
    and ker: "\<forall>r < k * w. xor_field.app (AND) (k * w) (bit_system k w (jerasure_matrix_to_bitmatrix k m w matrix) ids) v r = 0" and c: "c < k * w" for v c
  proof -
    have z: "xsum (\<lambda>j. gmul w (gen k matrix (ids ! i) j) (pack w v j)) {..<k} = 0" if i: "i < k" for i
    proof (rule zero_elem)
      show "gf_elem w (xsum (\<lambda>j. gmul w (gen k matrix (ids ! i) j) (pack w v j)) {..<k})"
        by (rule gf_elem_xsum) (use gen_elem [OF matrix w ids [OF i]] pack_elem [OF w32(2)] xor_field.elem_mul [OF f] in auto)
      fix l assume l: "l < w"
      have "i * w + l < k * w" using packet_bound [OF i l] by (simp add: mult.commute)
      then have "xor_field.app (AND) (k * w) (bit_system k w (jerasure_matrix_to_bitmatrix k m w matrix) ids) v (i * w + l) = 0" using ker by blast
      moreover have "(i * w + l) div w = i" "(i * w + l) mod w = l" using block_index [OF l] by blast+
      ultimately show "\<not> bit (xsum (\<lambda>j. gmul w (gen k matrix (ids ! i) j) (pack w v j)) {..<k}) l"
        using gen_bits [OF w matrix ids [OF i] l, of v] v by (simp add: xor_field.app_def [OF gf2.xor_field_axioms] split: if_splits)
    qed
    have "pack w v j = 0" if j: "j < k" for j
    proof -
      have "xsum (\<lambda>r. gmul w (Bi j r) (xsum (\<lambda>i. gmul w (gen k matrix (ids ! r) i) (pack w v i)) {..<k})) {..<k} = pack w v j"
        by (rule xor_field.left_inverse_solve [OF f Bi el _ j]) (rule pack_elem [OF w32(2)])
      moreover have "xsum (\<lambda>r. gmul w (Bi j r) (xsum (\<lambda>i. gmul w (gen k matrix (ids ! r) i) (pack w v i)) {..<k})) {..<k} = 0"
        by (rule xs.neutral) (use z Bi j xor_field.mul_0_right [OF f] in \<open>auto simp: xor_field.left_inverse_def [OF f] xor_field.elems_def [OF f]\<close>)
      ultimately show ?thesis by simp
    qed
    moreover have "c div w < k" "c mod w < w" using c w32 by (simp_all add: less_mult_imp_div_less)
    ultimately show ?thesis using bit_pack [OF w32(2), of v "c div w" "c mod w"] by simp
  qed
  then show "xor_field.trivial_kernel is_bit (AND) (k * w) (bit_system k w (jerasure_matrix_to_bitmatrix k m w matrix) ids)"
    unfolding xor_field.trivial_kernel_def [OF gf2.xor_field_axioms] by blast
qed

lemma to_bitmatrix_parity:
  assumes w: "gf_width w" and matrix: "coding_matrix k m w matrix" and ones: "0 < m" "\<And>j. j < k \<Longrightarrow> matrix ! j = 1"
  shows "parity_rows k w (jerasure_matrix_to_bitmatrix k m w matrix)"
proof -
  have w32: "1 \<le> w" "w \<le> 32" using w by simp_all
  have el: "\<forall>i < k * m. gf_elem w (matrix ! i)" using matrix by (simp add: coding_matrix_def)
  have "row_bit (k * w) (jerasure_matrix_to_bitmatrix k m w matrix) p c \<longleftrightarrow> c mod w = p" if p: "p < w" and c: "c < k * w" for p c
  proof -
    have jx: "c div w < k" "c mod w < w" using c w32 by (simp_all add: less_mult_imp_div_less)
    have "shift_pow w (c mod w) (1 :: cint) = push_bit (c mod w) 1"
      using shift_pow_push [OF w32, of 1 1 "c mod w"] jx(2) by (simp del: push_bit_of_1)
    then show ?thesis using to_bitmatrix_nth [OF w el ones(1) p jx] ones(2) [OF jx(1)] bit_push_1 [of "c mod w" p] jx(2) w32(2)
      by (auto simp: row_bit_def simp del: push_bit_of_1)
  qed
  then show ?thesis by (simp add: parity_rows_def)
qed

lemma xsum_parity: "finite A \<Longrightarrow> (xsum (\<lambda>c. of_bool (P c)) A :: cint) = of_bool (odd (card {c \<in> A. P c}))"
proof (induction A rule: finite_induct)
  case (insert a A)
  have "{c \<in> insert a A. P c} = (if P a then insert a {c \<in> A. P c} else {c \<in> A. P c})" by auto
  then show ?case using insert by (auto simp: of_bool_def)
qed simp

text \<open>In terms of the bits of the elements.\<close>

lemma to_bitmatrix_product:
  assumes w: "gf_width w" and matrix: "coding_matrix k m w matrix" and i: "i < m" "l < w" and y: "\<forall>j < k. gf_elem w (y j)"
  shows "bit (xsum (\<lambda>j. gmul w (matrix ! (i * k + j)) (y j)) {..<k}) l \<longleftrightarrow>
    odd (card {c. c < k * w \<and> jerasure_matrix_to_bitmatrix k m w matrix ! ((i * w + l) * (k * w) + c) \<noteq> 0 \<and> bit (y (c div w)) (c mod w)})"
proof -
  let ?v = "\<lambda>c. of_bool (bit (y (c div w)) (c mod w)) :: cint" and ?bm = "jerasure_matrix_to_bitmatrix k m w matrix"
  have w32: "w \<le> 32" using w by simp
  have d: "k + i < k + m" using i(1) by simp
  have g: "gen (k * w) ?bm ((k + i) * w + l) c = ?bm ! ((i * w + l) * (k * w) + c)" "gen k matrix (k + i) j = matrix ! (i * k + j)" for c j
    by (simp_all add: gen_def add_mult_distrib)
  have p: "pack w ?v j = y j" if "j < k" for j
  proof (rule bit_word_eqI)
    show "bit (pack w ?v j) q \<longleftrightarrow> bit (y j) q" for q
      using y that block_index [of q w j] by (cases "q < w") (auto simp: bit_pack [OF w32] gf_elem_bit)
  qed
  have b: "is_bit (?bm ! ((i * w + l) * (k * w) + c))" if "c < k * w" for c
    using gen_bit [OF to_bitmatrix_bit_matrix [OF w matrix] d i(2) that] unfolding g .
  have "(of_bool (bit (xsum (\<lambda>j. gmul w (matrix ! (i * k + j)) (y j)) {..<k}) l) :: cint)
      = of_bool (bit (xsum (\<lambda>j. gmul w (gen k matrix (k + i) j) (pack w ?v j)) {..<k}) l)"
    unfolding g using xs.cong [OF refl, of "{..<k}" "\<lambda>j. gmul w (matrix ! (i * k + j)) (pack w ?v j)" "\<lambda>j. gmul w (matrix ! (i * k + j)) (y j)"] p
    by simp
  also have "\<dots> = xsum (\<lambda>c. gen (k * w) ?bm ((k + i) * w + l) c AND ?v c) {..<k * w}"
    by (rule gen_bits [OF w matrix d i(2), symmetric]) (simp add: is_bit_def)
  also have "\<dots> = xsum (\<lambda>c. of_bool (?bm ! ((i * w + l) * (k * w) + c) \<noteq> 0 \<and> bit (y (c div w)) (c mod w))) {..<k * w}"
    unfolding g
  proof (rule xs.cong)
    fix c assume "c \<in> {..<k * w}"
    then have "is_bit (?bm ! ((i * w + l) * (k * w) + c))" using b by simp
    then show "?bm ! ((i * w + l) * (k * w) + c) AND ?v c = of_bool (?bm ! ((i * w + l) * (k * w) + c) \<noteq> 0 \<and> bit (y (c div w)) (c mod w))"
      by (auto simp: is_bit_def)
  qed simp
  also have "\<dots> = of_bool (odd (card {c \<in> {..<k * w}. ?bm ! ((i * w + l) * (k * w) + c) \<noteq> 0 \<and> bit (y (c div w)) (c mod w)}))"
    by (rule xsum_parity) simp
  finally show ?thesis by (simp only: of_bool_eq_iff lessThan_iff mem_Collect_eq Collect_conj_eq)
qed

end
