(* ===== verification/Schedule_Plan.thy ===== *)
theory Schedule_Plan
  imports Bitmatrix_Decode
begin

unbundle bit_operations_syntax

text \<open>
  The devices of a decoding schedule: which surviving coding devices \<^verbatim>\<open>set_up_ids_for_scheduled_decoding\<close> puts in the place of
  lost data devices, and where it keeps the lost ones.
\<close>

section \<open>The devices of a decoding schedule\<close>

text \<open>
  The pointers are the buffers of the devices in \<^verbatim>\<open>row_ids\<close>.
\<close>

lemma set_up_ptrs_ids:
  "set_up_ptrs_for_scheduled_decoding k m erasures =
    map_option (\<lambda>(row_ids, ind_to_row). map (\<lambda>id. (id, 0)) row_ids) (set_up_ids_for_scheduled_decoding k m erasures)"
proof (cases "jerasure_erasures_to_erased k m erasures")
  case (Some erased)
  let ?f = "\<lambda>i (ptrs, j, x). if erased ! i = 0 then (ptrs[i := (i, 0::nat)], j, x)
      else let j = scan_from (\<lambda>j. erased ! j = 0) j (k + m) in (ptrs[i := (j, 0), x := (i, 0)], j + 1, x + 1)"
  let ?g = "\<lambda>i (row_ids, ind_to_row, j, x). if erased ! i = 0 then (row_ids[i := i], ind_to_row[i := i], j, x)
      else let j = scan_from (\<lambda>j. erased ! j = 0) j (k + m) in (row_ids[i := j, x := i], ind_to_row[j := i, i := x], j + 1, x + 1)"
  let ?h = "\<lambda>(row_ids, ind_to_row, j, x). (map (\<lambda>id. (id, 0::nat)) row_ids, j, x)"
  let ?f2 = "\<lambda>i (ptrs, x). if erased ! i \<noteq> 0 then (ptrs[x := (i, 0::nat)], x + 1) else (ptrs, x)"
  let ?g2 = "\<lambda>i (row_ids, ind_to_row, x). if erased ! i \<noteq> 0 then (row_ids[x := i], ind_to_row[i := x], x + 1) else (row_ids, ind_to_row, x)"
  let ?h2 = "\<lambda>(row_ids, ind_to_row, x). (map (\<lambda>id. (id, 0::nat)) row_ids, x)"
  have a: "?f i (?h s) = ?h (?g i s)" for i s by (auto simp: map_update Let_def split: prod.splits)
  have b: "?f2 i (?h2 s) = ?h2 (?g2 i s)" for i s by (auto simp: map_update split: prod.splits)
  have A: "fold ?f xs (?h s) = ?h (fold ?g xs s)" for xs s by (induction xs arbitrary: s) (simp_all only: fold.simps o_apply id_apply a)
  have B: "fold ?f2 xs (?h2 s) = ?h2 (fold ?g2 xs s)" for xs s by (induction xs arbitrary: s) (simp_all only: fold.simps o_apply id_apply b)
  obtain r d j x where 1: "fold ?g [0..<k] (replicate (k + m) 0, replicate (k + m) 0, k, k) = (r, d, j, x)" by (rule prod_cases4)
  obtain r2 d2 x2 where 2: "fold ?g2 [k..<k + m] (r, d, x) = (r2, d2, x2)" by (rule prod_cases3)
  have "fold ?f [0..<k] (replicate (k + m) (0, 0), k, k) = (map (\<lambda>id. (id, 0)) r, j, x)"
    using A [of "[0..<k]" "(replicate (k + m) 0, replicate (k + m) 0, k, k)"] 1 by simp
  moreover have "fold ?f2 [k..<k + m] (map (\<lambda>id. (id, 0)) r, x) = (map (\<lambda>id. (id, 0)) r2, x2)"
    using B [of "[k..<k + m]" "(r, d, x)"] 2 by simp
  ultimately show ?thesis using Some 1 2
    by (simp add: set_up_ptrs_for_scheduled_decoding_def set_up_ids_for_scheduled_decoding_def)
qed (simp add: set_up_ptrs_for_scheduled_decoding_def set_up_ids_for_scheduled_decoding_def)

text \<open>
  \<^verbatim>\<open>row_ids\<close> puts a surviving coding device in the place of every lost data device, and behind them the lost data
  devices, then the lost coding devices; \<^verbatim>\<open>ind_to_row\<close> finds a lost data device there.
\<close>

definition stand_ins :: "nat \<Rightarrow> nat \<Rightarrow> nat set \<Rightarrow> nat \<Rightarrow> nat \<Rightarrow> nat \<Rightarrow> nat list \<Rightarrow> nat list \<Rightarrow> bool" where
  "stand_ins k m E i j x r d \<longleftrightarrow> length r = k + m \<and> length d = k + m \<and> (\<forall>a < i. a \<notin> E \<longrightarrow> r ! a = a) \<and>
     (\<forall>a < i. a \<in> E \<longrightarrow> k \<le> r ! a \<and> r ! a < j \<and> r ! a \<notin> E \<and> k \<le> d ! a \<and> d ! a < x \<and> r ! (d ! a) = a) \<and>
     (\<forall>a < i. \<forall>b < a. a \<in> E \<longrightarrow> b \<in> E \<longrightarrow> r ! b < r ! a)"

definition losses :: "nat \<Rightarrow> nat set \<Rightarrow> nat \<Rightarrow> nat \<Rightarrow> nat list \<Rightarrow> nat list \<Rightarrow> bool" where
  "losses k E i x r d \<longleftrightarrow> x = k + card (E \<inter> {..<i}) \<and> (\<forall>t. k \<le> t \<longrightarrow> t < x \<longrightarrow> r ! t \<in> E \<and> r ! t < i \<and> d ! (r ! t) = t)"

lemma card_Int_Suc: "card (E \<inter> {..<Suc i}) = card (E \<inter> {..<i}) + (if i \<in> E then 1 else 0)"
proof -
  have "E \<inter> {..<Suc i} = (if i \<in> E then insert i (E \<inter> {..<i}) else E \<inter> {..<i})" by (auto simp: less_Suc_eq)
  then show ?thesis by simp
qed

lemma card_Int_less: "i \<in> E \<Longrightarrow> finite E \<Longrightarrow> card (E \<inter> {..<i}) < card E" for i :: nat
  by (rule psubset_card_mono) (auto simp: psubset_eq set_eq_iff)

lemma stand_in_step:
  assumes E: "E \<subseteq> {..<k + m}" "card E \<le> m" and i: "i < k" "i \<in> E" and j: "k \<le> j" "j \<le> k + m" "card ({k..<j} - E) = card (E \<inter> {..<i})"
    and S: "stand_ins k m E i j x r d" "losses k E i x r d" and s: "s = scan_from p j (k + m)" and p: "\<And>a. a < k + m \<Longrightarrow> p a \<longleftrightarrow> a \<notin> E"
  shows "stand_ins k m E (Suc i) (s + 1) (x + 1) (r[i := s, x := i]) (d[s := i, i := x])"
    "losses k E (Suc i) (x + 1) (r[i := s, x := i]) (d[s := i, i := x])"
    "k \<le> s + 1" "s + 1 \<le> k + m" "card ({k..<s + 1} - E) = card (E \<inter> {..<Suc i})"
proof -
  have fin: "finite E" using E(1) finite_subset by blast
  have x: "x = k + card (E \<inter> {..<i})" "x < k + m" using S(2) card_Int_less [OF i(2) fin] E(2) by (auto simp: losses_def)
  have sc: "j \<le> s" "s \<le> k + m" "s < k + m \<Longrightarrow> s \<notin> E" "\<And>a. j \<le> a \<Longrightarrow> a < s \<Longrightarrow> a \<in> E"
    using scan_from_spec [OF j(2), of p] s p by auto
  have lt: "s < k + m"
  proof (rule ccontr)
    assume "\<not> s < k + m"
    then have "a < j" if "a < k + m" "a \<notin> E" for a using sc(2) sc(4) [of a] that by (meson le_less_trans not_le not_less)
    then have "{k..<k + m} - E \<subseteq> {k..<j} - E" by auto
    then have "card ({k..<k + m} - E) \<le> card (E \<inter> {..<i})" using card_mono [of "{k..<j} - E"] j(3) by simp
    moreover have "card ({k..<k + m} - E) = m - card (E \<inter> {k..<k + m})" by (subst card_Diff_subset_Int) (auto simp: Int_commute)
    moreover have "card E = card (E \<inter> {..<k}) + card (E \<inter> {k..<k + m})"
      by (subst card_Un_disjoint [symmetric]) (use fin E(1) in \<open>auto intro!: arg_cong [where f = card]\<close>)
    moreover have "card (E \<inter> {..<i}) < card (E \<inter> {..<k})" by (rule psubset_card_mono) (use i in \<open>auto simp: psubset_eq set_eq_iff\<close>)
    ultimately show False using E(2) by linarith
  qed
  have "a < j" if "a < s" "a \<notin> E" for a using sc(4) [of a] that not_le by blast
  then have "{k..<s + 1} - E = insert s ({k..<j} - E)" using sc(1) sc(3) [OF lt] j(1) by (auto simp: less_Suc_eq)
  moreover have "s \<notin> {k..<j} - E" using sc(1) by auto
  ultimately show "card ({k..<s + 1} - E) = card (E \<inter> {..<Suc i})" using j(3) i(2) by (simp add: card_Int_Suc)
  show "k \<le> s + 1" "s + 1 \<le> k + m" using j(1) sc(1) lt by auto
  have len: "length r = k + m" "length d = k + m" using S(1) by (auto simp: stand_ins_def)
  have ne: "i \<noteq> x" "s \<noteq> i" "i < length r" "x < length r" "i < length d" "s < length d" using x i(1) j(1) sc(1) len lt by auto
  have xk: "k \<le> x" using x(1) by simp
  have r: "(r[i := s, x := i]) ! a = (if a = x then i else if a = i then s else r ! a)" for a using ne by (auto simp: nth_list_update)
  have d: "(d[s := i, i := x]) ! a = (if a = i then x else if a = s then i else d ! a)" for a using ne by (auto simp: nth_list_update)
  have old: "k \<le> r ! a" "r ! a < j" "r ! a \<notin> E" "k \<le> d ! a" "d ! a < x" "r ! (d ! a) = a" if "a < i" "a \<in> E" for a
    using S(1) that by (auto simp: stand_ins_def)
  have low: "a \<noteq> x" "a \<noteq> s" if "a < Suc i" for a using that x i(1) j(1) sc(1) by auto
  have "\<forall>a < Suc i. a \<notin> E \<longrightarrow> (r[i := s, x := i]) ! a = a"
    using S(1) i(2) low(1) by (auto simp: r stand_ins_def less_Suc_eq)
  moreover have "k \<le> (r[i := s, x := i]) ! a \<and> (r[i := s, x := i]) ! a < s + 1 \<and> (r[i := s, x := i]) ! a \<notin> E \<and>
      k \<le> (d[s := i, i := x]) ! a \<and> (d[s := i, i := x]) ! a < x + 1 \<and> (r[i := s, x := i]) ! ((d[s := i, i := x]) ! a) = a"
    if a: "a < Suc i" "a \<in> E" for a
  proof (cases "a = i")
    case True
    then show ?thesis using ne j(1) sc(1) sc(3) [OF lt] xk by (simp add: r d)
  next
    case False
    then have "a < i" using a by simp
    then show ?thesis using old [OF _ a(2)] low [OF a(1)] False sc(1) i(1) by (auto simp: r d)
  qed
  moreover have "(r[i := s, x := i]) ! b < (r[i := s, x := i]) ! a" if a: "a < Suc i" "b < a" "a \<in> E" "b \<in> E" for a b
  proof (cases "a = i")
    case True
    then show ?thesis using old(2) [of b] a low [of b] sc(1) ne by (simp add: r)
  next
    case False
    then show ?thesis using a low [of b] low [of a] S(1) by (simp add: r stand_ins_def)
  qed
  ultimately show "stand_ins k m E (Suc i) (s + 1) (x + 1) (r[i := s, x := i]) (d[s := i, i := x])" using len by (simp add: stand_ins_def)
  have "(r[i := s, x := i]) ! t \<in> E \<and> (r[i := s, x := i]) ! t < Suc i \<and> (d[s := i, i := x]) ! ((r[i := s, x := i]) ! t) = t"
    if t: "k \<le> t" "t < x + 1" for t
  proof (cases "t = x")
    case False
    then have "r ! t \<in> E" "r ! t < i" "d ! (r ! t) = t" using S(2) t by (auto simp: losses_def)
    then show ?thesis using False t i(1) low(2) [of "r ! t"] by (auto simp: r d)
  qed (use i in \<open>simp add: r d\<close>)
  then show "losses k E (Suc i) (x + 1) (r[i := s, x := i]) (d[s := i, i := x])"
    using x(1) i(2) by (simp add: losses_def card_Int_Suc)
qed

lemma stand_in_skip:
  assumes "stand_ins k m E i j x r d" "losses k E i x r d" "i < k" "i \<notin> E"
  shows "stand_ins k m E (Suc i) j x (r[i := i]) (d[i := i]) \<and> losses k E (Suc i) x (r[i := i]) (d[i := i])"
proof -
  have len: "length r = k + m" "length d = k + m" using assms(1) by (auto simp: stand_ins_def)
  then have r: "(r[i := i]) ! a = (if a = i then i else r ! a)" "(d[i := i]) ! a = (if a = i then i else d ! a)" for a
    using assms(3) by (auto simp: nth_list_update)
  have ne: "a \<noteq> i" if "a \<in> E" for a using that assms(4) by auto
  have "d ! a \<noteq> i" if "a < i" "a \<in> E" for a using assms(1,3) that by (auto simp: stand_ins_def)
  then have "stand_ins k m E (Suc i) j x (r[i := i]) (d[i := i])"
    using assms(1) len ne assms(4) by (auto simp: stand_ins_def r less_Suc_eq)
  moreover have "losses k E (Suc i) x (r[i := i]) (d[i := i])"
    using assms(2-4) by (auto simp: losses_def r card_Int_Suc less_Suc_eq)
  ultimately show ?thesis by blast
qed

definition row_plan_ok :: "nat \<Rightarrow> nat \<Rightarrow> nat set \<Rightarrow> nat list \<Rightarrow> nat list \<Rightarrow> bool" where
  "row_plan_ok k m E r d \<longleftrightarrow> length r = k + m \<and> (\<forall>a < k. a \<notin> E \<longrightarrow> r ! a = a) \<and>
     (\<forall>a < k. a \<in> E \<longrightarrow> k \<le> r ! a \<and> r ! a < k + m \<and> r ! a \<notin> E \<and> k \<le> d ! a \<and> d ! a < k + card (E \<inter> {..<k}) \<and> r ! (d ! a) = a) \<and>
     inj_on ((!) r) {..<k + card E} \<and>
     (\<forall>t < card (E \<inter> {..<k}). r ! (k + t) \<in> E \<and> r ! (k + t) < k) \<and>
     (\<forall>t < card E. card (E \<inter> {..<k}) \<le> t \<longrightarrow> r ! (k + t) \<in> E \<and> k \<le> r ! (k + t))"

lemma set_up_ids_ok:
  assumes es: "valid_erasures k m es" and few: "card (erased_set es) \<le> m"
  shows "\<exists>r d. set_up_ids_for_scheduled_decoding k m (es @ (-1) # rest) = Some (r, d) \<and> row_plan_ok k m (erased_set es) r d"
proof -
  let ?E = "erased_set es"
  obtain erased where er: "jerasure_erasures_to_erased k m (es @ (-1) # rest) = Some erased"
      and e01: "\<forall>i < k + m. erased ! i = (if i \<in> ?E then 1 else 0)"
    using erasures_to_erased_ok [OF es, of rest] few by (auto split: option.splits)
  have e: "erased ! i = 0 \<longleftrightarrow> i \<notin> ?E" if "i < k + m" for i using e01 that by simp
  have sub: "?E \<subseteq> {..<k + m}" using es by (auto simp: valid_erasures_def erased_set_def nat_less_iff)
  have fin: "finite ?E" using sub finite_subset by blast
  let ?g = "\<lambda>i (row_ids, ind_to_row, j, x). if erased ! i = 0 then (row_ids[i := i], ind_to_row[i := i], j, x)
      else let j = scan_from (\<lambda>j. erased ! j = 0) j (k + m) in (row_ids[i := j, x := i], ind_to_row[j := i, i := x], j + 1, x + 1)"
  let ?g2 = "\<lambda>i (row_ids, ind_to_row, x). if erased ! i \<noteq> 0 then (row_ids[x := i], ind_to_row[i := x], x + 1) else (row_ids, ind_to_row, x)"
  let ?P = "\<lambda>i (r, d, j, x). stand_ins k m ?E i j x r d \<and> losses k ?E i x r d \<and> k \<le> j \<and> j \<le> k + m \<and> card ({k..<j} - ?E) = card (?E \<inter> {..<i})"
  have "?P k (fold ?g [0..<k] (replicate (k + m) 0, replicate (k + m) 0, k, k))"
  proof (rule fold_upt_inv0 [where P = ?P])
    fix i s assume i: "i < k" and P: "?P i s"
    obtain r d j x where s: "s = (r, d, j, x)" by (rule prod_cases4)
    note P = P [unfolded s prod.case]
    show "?P (Suc i) (?g i s)"
    proof (cases "i \<in> ?E")
      case True
      have b: "(erased ! i = 0) = False" using e [of i] i True by simp
      have J: "k \<le> j" "j \<le> k + m" "card ({k..<j} - ?E) = card (?E \<inter> {..<i})" "stand_ins k m ?E i j x r d" "losses k ?E i x r d"
        using P by auto
      note S = stand_in_step [where p = "\<lambda>j. erased ! j = 0", OF sub few i True J refl e]
      show ?thesis unfolding s prod.case b if_False Let_def using S by (intro conjI)
    next
      case False
      have b: "(erased ! i = 0) = True" using e [of i] i False by simp
      show ?thesis unfolding s prod.case b if_True
        using stand_in_skip [OF _ _ i False, of m j x r d] P False by (simp add: card_Int_Suc)
    qed
  qed (auto simp: stand_ins_def losses_def)
  then obtain r d j x where 1: "fold ?g [0..<k] (replicate (k + m) 0, replicate (k + m) 0, k, k) = (r, d, j, x)"
      and S: "stand_ins k m ?E k j x r d" "losses k ?E k x r d" "j \<le> k + m" by auto
  let ?c = "k + card (?E \<inter> {..<k})"
  let ?Q = "\<lambda>i (r, d, x). stand_ins k m ?E k (k + m) ?c r d \<and> losses k ?E i x r d \<and> (\<forall>t. k \<le> t \<longrightarrow> t < ?c \<longrightarrow> r ! t < k) \<and> (\<forall>t. ?c \<le> t \<longrightarrow> t < x \<longrightarrow> k \<le> r ! t)"
  have "?Q (k + m) (fold ?g2 [k..<k + m] (r, d, x))"
  proof (rule fold_upt_inv [where P = ?Q])
    show "?Q k (r, d, x)" using S by (auto simp: stand_ins_def losses_def intro: less_le_trans)
    fix i s assume i: "k \<le> i" "i < k + m" and Q: "?Q i s"
    obtain r d x where s: "s = (r, d, x)" by (rule prod_cases3)
    note Q = Q [unfolded s prod.case]
    show "?Q (Suc i) (?g2 i s)"
    proof (cases "i \<in> ?E")
      case True
      have b: "(erased ! i \<noteq> 0) = True" using e [OF i(2)] True by simp
      have x: "x = k + card (?E \<inter> {..<i})" "x < k + m" using Q card_Int_less [OF True fin] few by (auto simp: losses_def)
      have len: "length r = k + m" "length d = k + m" using Q by (auto simp: stand_ins_def)
      have c: "?c \<le> x" unfolding x(1) using i(1) fin by (auto intro!: card_mono)
      have r: "(r[x := i]) ! a = (if a = x then i else r ! a)" "(d[i := x]) ! a = (if a = i then x else d ! a)" for a
        using x(2) i(2) len by (auto simp: nth_list_update)
      have low: "d ! a \<noteq> x" "a \<noteq> x" "a \<noteq> i" if "a < k" "a \<in> ?E" for a using Q that c i(1) by (auto simp: stand_ins_def)
      have xk: "k \<le> x" using c by simp
      have "stand_ins k m ?E k (k + m) ?c (r[x := i]) (d[i := x])"
        using Q low i(1) xk by (simp add: stand_ins_def r)
      moreover have "losses k ?E (Suc i) (x + 1) (r[x := i]) (d[i := x])"
        unfolding losses_def
      proof (intro conjI allI impI)
        show "x + 1 = k + card (?E \<inter> {..<Suc i})" using x(1) True by (simp add: card_Int_Suc)
        fix t assume t: "k \<le> t" "t < x + 1"
        have "t < x \<Longrightarrow> r ! t \<in> ?E \<and> r ! t < i \<and> d ! (r ! t) = t" using Q t(1) unfolding losses_def by blast
        then show "(r[x := i]) ! t \<in> ?E" "(r[x := i]) ! t < Suc i" "(d[i := x]) ! ((r[x := i]) ! t) = t"
          using t(2) True by (auto simp: r less_Suc_eq)
      qed
      ultimately show ?thesis unfolding s prod.case b if_True using Q c i(1) by (auto simp: r less_Suc_eq)
    next
      case False
      have b: "(erased ! i \<noteq> 0) = False" using e [OF i(2)] False by simp
      show ?thesis unfolding s prod.case b if_False using Q False by (auto simp: losses_def card_Int_Suc less_Suc_eq)
    qed
  qed simp
  then obtain r2 d2 x2 where 2: "fold ?g2 [k..<k + m] (r, d, x) = (r2, d2, x2)"
      and Q: "stand_ins k m ?E k (k + m) ?c r2 d2" "losses k ?E (k + m) x2 r2 d2" "\<forall>t. k \<le> t \<longrightarrow> t < ?c \<longrightarrow> r2 ! t < k" "\<forall>t. ?c \<le> t \<longrightarrow> t < x2 \<longrightarrow> k \<le> r2 ! t" by auto
  have "?E \<inter> {..<k + m} = ?E" using sub by blast
  then have x2: "x2 = k + card ?E" using Q(2) by (simp add: losses_def)
  have c2: "?c \<le> x2" unfolding x2 using fin by (auto intro!: card_mono)
  have "inj_on ((!) r2) {..<k + card ?E}"
  proof (rule inj_onI)
    fix a b assume ab: "a \<in> {..<k + card ?E}" "b \<in> {..<k + card ?E}" and eq: "r2 ! a = r2 ! b"
    have high: "r2 ! t \<in> ?E" "d2 ! (r2 ! t) = t" if "k \<le> t" "t < k + card ?E" for t using Q(2) x2 that by (auto simp: losses_def)
    have low: "t \<notin> ?E \<Longrightarrow> r2 ! t = t" "r2 ! t \<notin> ?E" "t \<in> ?E \<Longrightarrow> k \<le> r2 ! t" if "t < k" for t
      using Q(1) that by (auto simp: stand_ins_def)
    have mono: "r2 ! s < r2 ! t" if "t < k" "s < t" "t \<in> ?E" "s \<in> ?E" for s t using Q(1) that by (auto simp: stand_ins_def)
    show "a = b"
    proof (cases "a < k")
      case True
      then have "b < k" using low(2) [OF True] high(1) [of b] ab eq by (metis lessThan_iff not_less)
      then show ?thesis using True low [OF True] low [of b] mono [of a b] mono [of b a] eq
        by (metis less_irrefl linorder_neqE_nat not_less)
    next
      case False
      then have "\<not> b < k" using low(2) [of b] high(1) [of a] ab eq by (metis lessThan_iff not_less)
      then show ?thesis using False high(2) [of a] high(2) [of b] ab eq by (metis lessThan_iff not_less)
    qed
  qed
  then have "row_plan_ok k m ?E r2 d2"
    using Q x2 c2 by (auto simp: row_plan_ok_def stand_ins_def losses_def)
  moreover have "set_up_ids_for_scheduled_decoding k m (es @ (-1) # rest) = Some (r2, d2)"
    using er 1 2 by (simp add: set_up_ids_for_scheduled_decoding_def)
  ultimately show ?thesis by blast
qed

end
