(* ===== verification/Schedule_Rows.thy ===== *)
theory Schedule_Rows
  imports Schedule_Plan
begin

unbundle bit_operations_syntax

text \<open>
  The one matrix with which \<^verbatim>\<open>jerasure_generate_decoding_schedule\<close> decodes everything: each of its rows computes a packet of a
  lost device from the packets of the devices that stand in for the data.
\<close>

section \<open>The real decoding matrix\<close>

lemma diagonal_fold: "fst (fold (\<lambda>j (t, index). (t[index := v], index + (d::nat))) [0..<n] (t, s)) = fold (\<lambda>j t. t[s + j * d := v]) [0..<n] t"
proof -
  have "fold (\<lambda>j (t, index). (t[index := v], index + d)) [0..<n] (t, s) = (fold (\<lambda>j t. t[s + j * d := v]) [0..<n] t, s + n * d)"
    by (induction n) auto
  then show ?thesis by simp
qed

lemma survivor_bitmatrix_rows:
  assumes "\<And>i. i < k \<Longrightarrow> ids ! i = i \<or> k \<le> ids ! i"
  shows "survivor_bitmatrix k w bitmatrix ids = bit_decoding_rows k w bitmatrix ids"
  unfolding survivor_bitmatrix_def bit_decoding_rows_def
proof (rule fold_cong [OF refl refl])
  fix i assume "i \<in> set [0..<k]"
  then have i: "i < k" by simp
  have c: "ids ! i = i \<longleftrightarrow> ids ! i < k" using assms [OF i] i by auto
  have a: "i * k * w * w + (x + i * w + x * k * w) = i * k * w * w + i * w + x * (k * w + 1)" for x by (simp add: algebra_simps)
  have b: "i * (k * w * w) = i * k * w * w" "k * w * w * (ids ! i - k) = (ids ! i - k) * k * w * w" by (simp_all add: ac_simps)
  show "(\<lambda>dm. let ptr = i * (k * w * w)
       in if ids ! i = i then
            fold (\<lambda>x dm. dm[ptr + (x + i * w + x * k * w) := 1]) [0..<w] (zero_ints dm ptr (k * w * w))
          else copy_ints dm ptr bitmatrix (k * w * w * (ids ! i - k)) (k * w * w)) =
    (\<lambda>tmpmat. if ids ! i < k then
              let tmpmat = fold (\<lambda>j t. t[i * k * w * w + j := 0]) [0..<k * w * w] tmpmat
              in fst (fold (\<lambda>j (t, index). (t[index := 1], index + (k * w + 1))) [0..<w]
                       (tmpmat, i * k * w * w + ids ! i * w))
            else fold (\<lambda>j t. t[i * k * w * w + j := bitmatrix ! ((ids ! i - k) * k * w * w + j)])
                   [0..<k * w * w] tmpmat)"
    unfolding Let_def diagonal_fold zero_ints_def copy_ints_def b a c using c by (auto simp only: fun_eq_iff if_True if_False)
qed

definition real_rows :: "nat \<Rightarrow> nat \<Rightarrow> nat \<Rightarrow> cint list \<Rightarrow> nat list \<Rightarrow> nat \<Rightarrow> cint list \<Rightarrow> bool" where
  "real_rows k w e bitmatrix ids b real \<longleftrightarrow> length real = e * (k * w * w) \<and>
     (\<forall>i < b. \<forall>p < w. rep_row k w bitmatrix ids (\<lambda>z. real ! (i * (k * w * w) + p * (k * w) + z)) (ids ! (k + i)) p)"

text \<open>Block \<open>q\<close> of a matrix given as a function of row and column, the other blocks as in \<open>t\<close>.\<close>

definition block_is :: "nat \<Rightarrow> nat \<Rightarrow> nat \<Rightarrow> cint list \<Rightarrow> (nat \<Rightarrow> nat \<Rightarrow> cint) \<Rightarrow> cint list \<Rightarrow> bool" where
  "block_is N w q t F u \<longleftrightarrow> length u = length t \<and> (\<forall>i < length t. u ! i =
     (if q * (N * w) \<le> i \<and> i < q * (N * w) + N * w then F ((i - q * (N * w)) div N) ((i - q * (N * w)) mod N) else t ! i))"

lemma block_is_cell:
  assumes "block_is N w q t F u" "p < w" "z < N" "q * (N * w) + N * w \<le> length t"
  shows "u ! (q * (N * w) + p * N + z) = F p z"
proof -
  have b: "p * N + z < N * w" by (rule packet_bound [OF assms(2,3)])
  let ?i = "q * (N * w) + (p * N + z)"
  have "?i < length t" "q * (N * w) \<le> ?i" "?i < q * (N * w) + N * w" "?i - q * (N * w) = p * N + z" using b assms(4) by simp_all
  then have "u ! ?i = F ((p * N + z) div N) ((p * N + z) mod N)" using assms(1) unfolding block_is_def by metis
  then show ?thesis using block_index [OF assms(3), of p] by (simp add: add.assoc)
qed

lemma block_is_other:
  assumes "block_is N w q t F u" "i < length t" "\<not> (q * (N * w) \<le> i \<and> i < q * (N * w) + N * w)"
  shows "u ! i = t ! i"
  using assms unfolding block_is_def by presburger

lemma block_is_write:
  assumes "block_is N w q t F u" "p < w" "z < N" "q * (N * w) + N * w \<le> length t"
  shows "block_is N w q t (\<lambda>p' z'. if p' = p \<and> z' = z then v else F p' z') (u[q * (N * w) + p * N + z := v])"
proof -
  have b: "p * N + z < N * w" by (rule packet_bound [OF assms(2,3)])
  let ?c = "q * (N * w) + p * N + z"
  have lt: "?c < length u" using assms(1,4) b by (simp add: block_is_def)
  have "(i - q * (N * w)) div N = p \<and> (i - q * (N * w)) mod N = z \<longleftrightarrow> i = ?c" if "q * (N * w) \<le> i" for i
  proof
    assume a: "(i - q * (N * w)) div N = p \<and> (i - q * (N * w)) mod N = z"
    have "i - q * (N * w) = p * N + z" using a by (metis div_mult_mod_eq)
    then show "i = ?c" using that by simp
  next
    assume "i = ?c"
    then have "i - q * (N * w) = p * N + z" by simp
    then show "(i - q * (N * w)) div N = p \<and> (i - q * (N * w)) mod N = z" using block_index [OF assms(3), of p] by simp
  qed
  moreover have "q * (N * w) \<le> ?c \<and> ?c < q * (N * w) + N * w" using b by simp
  ultimately show ?thesis using assms(1) lt by (auto simp: block_is_def nth_list_update)
qed

lemma block_is_cong:
  assumes "block_is N w q t F u" "\<And>p z. p < w \<Longrightarrow> z < N \<Longrightarrow> F p z = G p z"
  shows "block_is N w q t G u"
proof -
  have "F ((i - q * (N * w)) div N) ((i - q * (N * w)) mod N) = G ((i - q * (N * w)) div N) ((i - q * (N * w)) mod N)"
    if "q * (N * w) \<le> i" "i < q * (N * w) + N * w" for i
  proof (rule assms(2))
    have "i - q * (N * w) < w * N" using that by (simp add: mult.commute less_diff_conv2 add.commute)
    then show "(i - q * (N * w)) div N < w" "(i - q * (N * w)) mod N < N" by (auto simp: less_mult_imp_div_less intro!: mod_less_divisor Nat.gr0I)
  qed
  then show ?thesis using assms(1) by (simp add: block_is_def)
qed

lemma block_is_copy:
  assumes "q * (N * w) + N * w \<le> length t"
  shows "block_is N w q t (\<lambda>p z. src ! (soff + p * N + z)) (copy_ints t (q * (N * w)) src soff (N * w))"
  using block_write [OF assms, of "\<lambda>j. src ! (soff + j)"] by (simp add: block_is_def copy_ints_def add.assoc)

lemma block_is_zero:
  assumes "block_is (k * w) w q t F u" "q * (k * w * w) + k * w * w \<le> length t" "j < w" "i < k"
  shows "block_is (k * w) w q t (\<lambda>p z. if p = j \<and> z div w = i then 0 else F p z) (zero_ints u (q * (k * w * w) + j * (k * w) + i * w) w)"
proof -
  let ?F = "\<lambda>x p z. if p = j \<and> i * w \<le> z \<and> z < i * w + x then 0 else F p z"
  have "block_is (k * w) w q t (?F w) (zero_ints u (q * (k * w * w) + j * (k * w) + i * w) w)"
    unfolding zero_ints_def
  proof (rule fold_upt_inv0 [where P = "\<lambda>x u. block_is (k * w) w q t (?F x) u"])
    fix x u assume x: "x < w" and B: "block_is (k * w) w q t (?F x) u"
    have z: "i * w + x < k * w" using packet_bound [OF assms(4) x] by (simp add: mult.commute)
    have "block_is (k * w) w q t (\<lambda>p' z'. if p' = j \<and> z' = i * w + x then 0 else ?F x p' z') (u[q * (k * w * w) + j * (k * w) + i * w + x := 0])"
      using block_is_write [OF B assms(3) z assms(2), of 0] by (simp add: add.assoc)
    then show "block_is (k * w) w q t (?F (Suc x)) (u[q * (k * w * w) + j * (k * w) + i * w + x := 0])"
      by (rule block_is_cong) auto
  qed (rule block_is_cong [OF assms(1)], auto)
  moreover have "i * w \<le> z \<and> z < i * w + w \<longleftrightarrow> z div w = i" for z
  proof
    assume "i * w \<le> z \<and> z < i * w + w"
    then show "z div w = i" using div_nat_eqI [of w i z] by (simp add: mult.commute)
  next
    assume "z div w = i"
    then have "z = i * w + z mod w" using div_mult_mod_eq [of z w] by simp
    moreover have "z mod w < w" using assms(3) by simp
    ultimately show "i * w \<le> z \<and> z < i * w + w" by linarith
  qed
  ultimately show ?thesis by (simp only: conj_assoc)
qed

text \<open>The loops of \<^verbatim>\<open>jerasure_generate_decoding_schedule\<close> over the columns of the lost data devices.\<close>

lemma block_zero_columns:
  assumes "block_is (k * w) w q t F u" "q * (k * w * w) + k * w * w \<le> length t"
  shows "block_is (k * w) w q t (\<lambda>p z. if bad (z div w) then 0 else F p z)
    (fold (\<lambda>i u. if bad i then fold (\<lambda>j u. zero_ints u (q * (k * w * w) + j * (k * w) + i * w) w) [0..<w] u else u) [0..<k] u)"
proof -
  let ?F = "\<lambda>i p z. if z div w < i \<and> bad (z div w) then 0 else F p z"
  have "block_is (k * w) w q t (?F k)
    (fold (\<lambda>i u. if bad i then fold (\<lambda>j u. zero_ints u (q * (k * w * w) + j * (k * w) + i * w) w) [0..<w] u else u) [0..<k] u)"
  proof (rule fold_upt_inv0 [where P = "\<lambda>i. block_is (k * w) w q t (?F i)"])
    fix i u assume i: "i < k" and B: "block_is (k * w) w q t (?F i) u"
    show "block_is (k * w) w q t (?F (Suc i)) (if bad i then fold (\<lambda>j u. zero_ints u (q * (k * w * w) + j * (k * w) + i * w) w) [0..<w] u else u)"
    proof (cases "bad i")
      case True
      have "block_is (k * w) w q t (\<lambda>p z. if p < w \<and> z div w = i then 0 else ?F i p z)
          (fold (\<lambda>j u. zero_ints u (q * (k * w * w) + j * (k * w) + i * w) w) [0..<w] u)"
      proof (rule fold_upt_inv0 [where P = "\<lambda>j. block_is (k * w) w q t (\<lambda>p z. if p < j \<and> z div w = i then 0 else ?F i p z)"])
        fix j u assume j: "j < w" and B: "block_is (k * w) w q t (\<lambda>p z. if p < j \<and> z div w = i then 0 else ?F i p z) u"
        show "block_is (k * w) w q t (\<lambda>p z. if p < Suc j \<and> z div w = i then 0 else ?F i p z) (zero_ints u (q * (k * w * w) + j * (k * w) + i * w) w)"
          by (rule block_is_cong [OF block_is_zero [OF B assms(2) j i]]) (auto simp: less_Suc_eq)
      qed (use B in simp)
      then show ?thesis unfolding if_P [OF True] by (rule block_is_cong) (use True in \<open>auto simp: less_Suc_eq\<close>)
    next
      case False
      then show ?thesis by simp (rule block_is_cong [OF B], auto simp: less_Suc_eq)
    qed
  qed (use assms(1) in simp)
  then show ?thesis by (rule block_is_cong) (auto simp: less_mult_imp_div_less)
qed

lemma block_add_row:
  assumes B: "block_is N w q t F u" and fit: "q * (N * w) + N * w \<le> length t" and j: "j < w" "y < w" and b: "b < q"
  shows "block_is N w q t (\<lambda>p z. F p z XOR (if p = j then t ! (b * (N * w) + y * N + z) else 0))
    (fold (\<lambda>z u. u[q * (N * w) + j * N + z := u ! (q * (N * w) + j * N + z) XOR u ! (b * (N * w) + (z + y * N))]) [0..<N] u)"
proof -
  let ?F = "\<lambda>x p z. F p z XOR (if p = j \<and> z < x then t ! (b * (N * w) + y * N + z) else 0)"
  have "block_is N w q t (?F N)
    (fold (\<lambda>z u. u[q * (N * w) + j * N + z := u ! (q * (N * w) + j * N + z) XOR u ! (b * (N * w) + (z + y * N))]) [0..<N] u)"
  proof (rule fold_upt_inv0 [where P = "\<lambda>x. block_is N w q t (?F x)"])
    fix x u assume x: "x < N" and I: "block_is N w q t (?F x) u"
    have lt: "y * N + x < N * w" by (rule packet_bound [OF j(2) x])
    have "Suc b * (N * w) \<le> q * (N * w)" using b by (intro mult_le_mono1) simp
    then have "b * (N * w) + y * N + x < q * (N * w)" using lt by simp
    then have src: "u ! (b * (N * w) + (x + y * N)) = t ! (b * (N * w) + y * N + x)"
      using block_is_other [OF I, of "b * (N * w) + y * N + x"] fit by (simp add: ac_simps)
    have dst: "u ! (q * (N * w) + j * N + x) = F j x" using block_is_cell [OF I j(1) x fit] by simp
    show "block_is N w q t (?F (Suc x)) (u[q * (N * w) + j * N + x := u ! (q * (N * w) + j * N + x) XOR u ! (b * (N * w) + (x + y * N))])"
      unfolding src dst by (rule block_is_cong [OF block_is_write [OF I j(1) x fit]]) (auto simp: less_Suc_eq)
  qed (use B in simp)
  then show ?thesis by (rule block_is_cong) auto
qed

lemma block_add_columns:
  assumes B: "block_is (k * w) w q t F u" and fit: "q * (k * w * w) + k * w * w \<le> length t" and r: "\<And>i. i < k \<Longrightarrow> bad i \<Longrightarrow> row i < q"
  shows "block_is (k * w) w q t (\<lambda>p z. F p z XOR xsum (\<lambda>i. if bad i then xsum (\<lambda>y. if one p i y then t ! (row i * (k * w * w) + y * (k * w) + z) else 0) {..<w} else 0) {..<k})
    (fold (\<lambda>i u. if bad i then fold (\<lambda>j u. fold (\<lambda>y u. if one j i y
        then fold (\<lambda>z u. u[q * (k * w * w) + j * (k * w) + z := u ! (q * (k * w * w) + j * (k * w) + z) XOR u ! (row i * (k * w * w) + (z + y * (k * w)))]) [0..<k * w] u
        else u) [0..<w] u) [0..<w] u else u) [0..<k] u)"
proof -
  let ?T = "\<lambda>p i z n. xsum (\<lambda>y. if one p i y then t ! (row i * (k * w * w) + y * (k * w) + z) else 0) {..<n}"
  let ?add = "\<lambda>i j y u. if one j i y
        then fold (\<lambda>z u. u[q * (k * w * w) + j * (k * w) + z := u ! (q * (k * w * w) + j * (k * w) + z) XOR u ! (row i * (k * w * w) + (z + y * (k * w)))]) [0..<k * w] u
        else u"
  have ys: "block_is (k * w) w q t (\<lambda>p z. G p z XOR (if p = j then ?T p i z w else 0)) (fold (?add i j) [0..<w] u)"
    if "i < k" "bad i" "j < w" "block_is (k * w) w q t G u" for i j G u
  proof (rule fold_upt_inv0 [where P = "\<lambda>n. block_is (k * w) w q t (\<lambda>p z. G p z XOR (if p = j then ?T p i z n else 0))"])
    fix y u assume y: "y < w" and I: "block_is (k * w) w q t (\<lambda>p z. G p z XOR (if p = j then ?T p i z y else 0)) u"
    show "block_is (k * w) w q t (\<lambda>p z. G p z XOR (if p = j then ?T p i z (Suc y) else 0)) (?add i j y u)"
    proof (cases "one j i y")
      case True
      show ?thesis unfolding if_P [OF True]
        by (rule block_is_cong [OF block_add_row [OF I fit that(3) y r [OF that(1,2)]]]) (use True in \<open>auto simp: ac_simps\<close>)
    next
      case False
      then show ?thesis by simp (rule block_is_cong [OF I], auto)
    qed
  qed (rule block_is_cong [OF that(4)], simp)
  have js: "block_is (k * w) w q t (\<lambda>p z. G p z XOR ?T p i z w) (fold (\<lambda>j. fold (?add i j) [0..<w]) [0..<w] u)"
    if "i < k" "bad i" "block_is (k * w) w q t G u" for i G u
  proof -
    have "block_is (k * w) w q t (\<lambda>p z. G p z XOR (if p < w then ?T p i z w else 0)) (fold (\<lambda>j. fold (?add i j) [0..<w]) [0..<w] u)"
    proof (rule fold_upt_inv0 [where P = "\<lambda>n. block_is (k * w) w q t (\<lambda>p z. G p z XOR (if p < n then ?T p i z w else 0))"])
      fix j u assume j: "j < w" and I: "block_is (k * w) w q t (\<lambda>p z. G p z XOR (if p < j then ?T p i z w else 0)) u"
      show "block_is (k * w) w q t (\<lambda>p z. G p z XOR (if p < Suc j then ?T p i z w else 0)) (fold (?add i j) [0..<w] u)"
        by (rule block_is_cong [OF ys [OF that(1,2) j I]]) (auto simp: less_Suc_eq)
    qed (use that in simp)
    then show ?thesis by (rule block_is_cong) auto
  qed
  show ?thesis
  proof (rule fold_upt_inv0 [where P = "\<lambda>n. block_is (k * w) w q t (\<lambda>p z. F p z XOR xsum (\<lambda>i. if bad i then ?T p i z w else 0) {..<n})"])
    fix i u assume i: "i < k" and I: "block_is (k * w) w q t (\<lambda>p z. F p z XOR xsum (\<lambda>i. if bad i then ?T p i z w else 0) {..<i}) u"
    show "block_is (k * w) w q t (\<lambda>p z. F p z XOR xsum (\<lambda>i. if bad i then ?T p i z w else 0) {..<Suc i})
      (if bad i then fold (\<lambda>j. fold (?add i j) [0..<w]) [0..<w] u else u)"
    proof (cases "bad i")
      case True
      show ?thesis unfolding if_P [OF True] by (rule block_is_cong [OF js [OF i True I]]) (use True in \<open>auto simp: ac_simps\<close>)
    next
      case False
      then show ?thesis by simp (rule block_is_cong [OF I], auto)
    qed
  qed (use B in simp)
qed

lemma mcomb_xor: "gf2.mcomb N (\<lambda>z. f z XOR g z) M j = gf2.mcomb N f M j XOR gf2.mcomb N g M j"
  by (simp add: gf2.mcomb_def xs.distrib and_xor_left)

lemma mcomb_xsum: "gf2.mcomb N (\<lambda>z. xsum (\<lambda>i. f i z) A) M j = xsum (\<lambda>i. gf2.mcomb N (f i) M j) A"
  unfolding gf2.mcomb_def and_xsum by (rule xs.swap)

lemma is_bit_xor: "is_bit a \<Longrightarrow> is_bit b \<Longrightarrow> is_bit (a XOR b)"
  by (rule gf2.elem_xor)

lemma is_bit_xsum: "(\<And>i. i \<in> A \<Longrightarrow> is_bit (f i)) \<Longrightarrow> is_bit (xsum f A)"
  by (rule gf2.elem_xsum)

text \<open>
  The row of a coding device over the devices that stand in for the data: the columns of the survivors, and for every one in a
  column of a lost data device the row that computes it.
\<close>

lemma coding_rep_row:
  assumes w: "0 < w" and ids: "\<And>i. i < k \<Longrightarrow> \<not> bad i \<Longrightarrow> ids ! i = i"
    and rows: "\<And>i y. i < k \<Longrightarrow> bad i \<Longrightarrow> y < w \<Longrightarrow> rep_row k w bitmatrix ids (R i y) i y"
    and g: "\<And>z. z < k * w \<Longrightarrow> g z = gen (k * w) bitmatrix (d * w + p) z" "\<And>z. z < k * w \<Longrightarrow> is_bit (g z)"
  shows "rep_row k w bitmatrix ids (\<lambda>z. (if bad (z div w) then 0 else g z) XOR
    xsum (\<lambda>i. if bad i then xsum (\<lambda>y. if g (i * w + y) \<noteq> 0 then R i y z else 0) {..<w} else 0) {..<k}) d p"
  unfolding rep_row_def
proof (intro conjI allI impI)
  let ?N = "k * w" let ?S = "bit_system k w bitmatrix ids"
  have div: "z div w < k" "z mod w < w" if "z < ?N" for z using that w by (simp_all add: less_mult_imp_div_less)
  fix z assume z: "z < ?N"
  have "is_bit (R i y z)" if "i < k" "bad i" "y < w" for i y using rows [OF that] z by (simp add: rep_row_def)
  then show "is_bit ((if bad (z div w) then 0 else g z) XOR
      xsum (\<lambda>i. if bad i then xsum (\<lambda>y. if g (i * w + y) \<noteq> 0 then R i y z else 0) {..<w} else 0) {..<k})"
    using g(2) [OF z] by (intro is_bit_xor is_bit_xsum) (auto intro!: is_bit_xsum simp: gf2.elem_0)
next
  let ?N = "k * w" let ?S = "bit_system k w bitmatrix ids"
  have div: "z div w < k" "z mod w < w" if "z < ?N" for z using that w by (simp_all add: less_mult_imp_div_less)
  fix j assume j: "j < ?N"
  have S: "?S z j = (if z = j then 1 else 0)" if "z < ?N" "\<not> bad (z div w)" for z
    using ids [OF div(1) [OF that(1)] that(2)] that(1) by (simp add: gen_def)
  have "gf2.mcomb ?N (\<lambda>z. if bad (z div w) then 0 else g z) ?S j = xsum (\<lambda>z. if z = j then (if bad (z div w) then 0 else g z) else 0) {..<?N}"
    unfolding gf2.mcomb_def by (rule xs.cong) (use S g(2) gf2.mul_1_right in auto)
  then have a: "gf2.mcomb ?N (\<lambda>z. if bad (z div w) then 0 else g z) ?S j = (if bad (j div w) then 0 else g j)" using j by (simp add: xs.delta)
  have R: "gf2.mcomb ?N (R i y) ?S j = (if i * w + y = j then 1 else 0)" if "i < k" "bad i" "y < w" for i y
  proof -
    have "i * w + y < ?N" using packet_bound [OF that(1,3)] by (simp add: mult.commute)
    then show ?thesis using rows [OF that] j by (simp add: rep_row_def gen_def)
  qed
  have z0: "gf2.mcomb ?N (\<lambda>z. 0) ?S j = 0" by (simp add: gf2.mcomb_def)
  have "gf2.mcomb ?N (\<lambda>z. xsum (\<lambda>i. if bad i then xsum (\<lambda>y. if g (i * w + y) \<noteq> 0 then R i y z else 0) {..<w} else 0) {..<k}) ?S j
      = xsum (\<lambda>i. xsum (\<lambda>y. if i * w + y = j then (if bad i then g j else 0) else 0) {..<w}) {..<k}"
    unfolding mcomb_xsum
  proof (rule xs.cong)
    fix i assume "i \<in> {..<k}"
    then have i: "i < k" by simp
    show "gf2.mcomb ?N (\<lambda>z. if bad i then xsum (\<lambda>y. if g (i * w + y) \<noteq> 0 then R i y z else 0) {..<w} else 0) ?S j
        = xsum (\<lambda>y. if i * w + y = j then (if bad i then g j else 0) else 0) {..<w}"
    proof (cases "bad i")
      case True
      have "gf2.mcomb ?N (\<lambda>z. if g (i * w + y) \<noteq> 0 then R i y z else 0) ?S j = (if i * w + y = j then g j else 0)" if y: "y < w" for y
        using R [OF i True y] z0 g(2) [OF j] by (cases "g (i * w + y) = 0") (auto simp: is_bit_def)
      then show ?thesis using True unfolding if_P [OF True] mcomb_xsum by (intro xs.cong refl) simp
    next
      case False
      then show ?thesis using z0 by simp
    qed
  qed simp
  also have "\<dots> = xsum (\<lambda>c. if c = j then (if bad (c div w) then g j else 0) else 0) {..<?N}"
    unfolding xsum_blocks by (intro xs.cong refl) auto
  also have "\<dots> = (if bad (j div w) then g j else 0)" using j by (simp add: xs.delta)
  finally show "gf2.mcomb ?N (\<lambda>z. (if bad (z div w) then 0 else g z) XOR
      xsum (\<lambda>i. if bad i then xsum (\<lambda>y. if g (i * w + y) \<noteq> 0 then R i y z else 0) {..<w} else 0) {..<k}) ?S j = gen ?N bitmatrix (d * w + p) j"
    unfolding mcomb_xor a using g(1) [OF j] by simp
qed

text \<open>One more coding device.\<close>

lemma decode_coding_row_ok:
  assumes B: "bit_matrix k m w bitmatrix" and plan: "row_plan_ok k m E ids ind" and e: "ddf = card (E \<inter> {..<k})" "e \<le> card E"
    and x: "ddf + x < e" and I: "real_rows k w e bitmatrix ids (ddf + x) real" and E: "E \<subseteq> {..<k + m}"
  shows "real_rows k w e bitmatrix ids (Suc (ddf + x)) (decode_coding_row k w bitmatrix ids ind ddf x real)"
proof -
  let ?N = "k * w" let ?L = "?N * w" and ?q = "ddf + x" let ?d = "ids ! (k + (ddf + x))" let ?drive = "?d - k"
  let ?bad = "\<lambda>i. ids ! i \<noteq> i" let ?row = "\<lambda>i. ind ! i - k"
  let ?g = "\<lambda>p z. bitmatrix ! (?drive * ?L + p * ?N + z)"
  have w: "0 < w" using B by (simp add: bit_matrix_def)
  have d: "?d \<in> E" "k \<le> ?d" using plan e x by (auto simp: row_plan_ok_def)
  then have dm: "?d < k + m" using E by blast
  have bad: "a \<in> E" if "a < k" "?bad a" for a using plan that by (auto simp: row_plan_ok_def)
  have ind: "?row a < ddf" "ids ! (k + ?row a) = a" if "a < k" "?bad a" for a
    using plan bad [OF that] that(1) e(1) by (auto simp: row_plan_ok_def)
  have len: "length real = e * ?L" using I by (simp add: real_rows_def)
  have fit: "?q * ?L + ?L \<le> length real" using mult_le_mono1 [of "Suc ?q" e ?L] x len by simp
  have g: "?g p z = gen ?N bitmatrix (?d * w + p) z" if "p < w" "z < ?N" for p z
  proof -
    have "gen_cell k w bitmatrix ?d (p * ?N + z) = bitmatrix ! (?drive * ?L + (p * ?N + z))" by (rule gen_cell_coding) (use d(2) w in auto)
    then show ?thesis using block_index [OF that(2), of p] by (simp add: add.assoc)
  qed
  have gb: "is_bit (?g p z)" if "p < w" "z < ?N" for p z unfolding g [OF that] by (rule gen_bit [OF B dm that])
  define F where "F = (\<lambda>p z. (if ?bad (z div w) then 0 else ?g p z) XOR
    xsum (\<lambda>i. if ?bad i then xsum (\<lambda>y. if ?g p (i * w + y) \<noteq> 0 then real ! (?row i * ?L + y * ?N + z) else 0) {..<w} else 0) {..<k})"
  have run: "block_is ?N w ?q real F (decode_coding_row k w bitmatrix ids ind ddf x real)"
  proof -
    have a: "ids ! (x + ddf + k) = ?d" "k * w * w * (ddf + x) = ?q * ?L" by (simp_all add: ac_simps)
    have b: "y * k * w = y * ?N" "y * ?N * w = y * ?L" for y by (simp_all add: ac_simps)
    have c: "?drive * ?L + j * ?N + i * w + y = ?drive * ?L + j * ?N + (i * w + y)" for i j y by simp
    show ?thesis unfolding decode_coding_row_def Let_def a b c F_def
      by (rule block_add_columns [OF block_zero_columns [OF block_is_copy [OF fit] fit] fit]) (rule trans_less_add1, rule ind(1))
  qed
  have keep: "decode_coding_row k w bitmatrix ids ind ddf x real ! (i * ?L + p * ?N + z) = real ! (i * ?L + p * ?N + z)"
    if "i < ?q" "p < w" "z < ?N" for i p z
  proof -
    have "p * ?N + z < ?L" by (rule packet_bound [OF that(2,3)])
    moreover have "Suc i * ?L \<le> ?q * ?L" using that(1) by (intro mult_le_mono1) simp
    ultimately have "i * ?L + p * ?N + z < ?q * ?L" by simp
    then show ?thesis using fit by (intro block_is_other [OF run]) auto
  qed
  have old: "rep_row k w bitmatrix ids (\<lambda>z. real ! (i * ?L + p * ?N + z)) (ids ! (k + i)) p" if "i < ?q" "p < w" for i p
    using I that by (simp add: real_rows_def)
  have "rep_row k w bitmatrix ids (F p) ?d p" if p: "p < w" for p
    unfolding F_def
  proof (rule coding_rep_row [OF w])
    show "rep_row k w bitmatrix ids (\<lambda>z. real ! (?row i * ?L + y * ?N + z)) i y" if "i < k" "?bad i" "y < w" for i y
      using old [of "?row i" y] ind [OF that(1,2)] that(3) by simp
  qed (use g [OF p] gb [OF p] in auto)
  then have "rep_row k w bitmatrix ids (\<lambda>z. decode_coding_row k w bitmatrix ids ind ddf x real ! (i * ?L + p * ?N + z)) (ids ! (k + i)) p"
    if "i < Suc ?q" "p < w" for i p
  proof (cases "i = ?q")
    case True
    show ?thesis unfolding True by (rule rep_row_cong [OF \<open>p < w \<Longrightarrow> rep_row k w bitmatrix ids (F p) ?d p\<close> [OF that(2)]]) (rule block_is_cell [OF run that(2) _ fit])
  next
    case False
    then show ?thesis using that keep by (intro rep_row_cong [OF old]) auto
  qed
  moreover have "length (decode_coding_row k w bitmatrix ids ind ddf x real) = e * ?L" using run len by (simp add: block_is_def)
  ultimately show ?thesis by (simp add: real_rows_def)
qed

end
