(* ===== verification/Schedule_Decode.thy ===== *)
theory Schedule_Decode
  imports Schedule_Rows
begin

unbundle bit_operations_syntax

text \<open>
  Decoding with a schedule made on demand restores every device; the cache of schedules for two coding devices is made without a
  fault, and decoding with it is decoding on demand.
\<close>

section \<open>Pointers that a schedule does not use\<close>

definition same_ptrs :: "nat \<Rightarrow> ptr list \<Rightarrow> ptr list \<Rightarrow> bool" where
  "same_ptrs b ps qs \<longleftrightarrow> b \<le> length ps \<and> b \<le> length qs \<and> (\<forall>i < b. ps ! i = qs ! i)"

lemma scheduled_operations_same:
  assumes "same_ptrs (k + e) ps qs" "\<forall>oper \<in> set ops. op_valid k e w oper"
  shows "jerasure_do_scheduled_operations k ps ops n st = jerasure_do_scheduled_operations k qs ops n st"
  using assms(2)
proof (induction ops arbitrary: st)
  case (Cons oper ops)
  have "op_src oper < k + e" "op_dest oper < k + e" using Cons.prems by (auto simp: op_valid_def)
  then have "do_operation k ps n oper st = do_operation k qs n oper st"
    using assms(1) by (auto simp: do_operation_def same_ptrs_def)
  then show ?case using Cons by (cases "do_operation k qs n oper st") auto
qed simp

lemma run_stripes_same:
  assumes ps: "same_ptrs (k + e) ps qs" and ops: "\<forall>oper \<in> set ops. op_valid k e w oper" and run: "run_stripes k w qs ops sz n st = Inr st'"
  shows "run_stripes k w ps ops sz n st = Inr st'"
proof -
  let ?body = "\<lambda>t (ptrs, st). run_bind (jerasure_do_scheduled_operations k ptrs ops n st) (\<lambda>st. Inr (move_ptrs (n * w) ptrs, st))"
  have "\<exists>ps'. cfor 0 T ?body (ps, st) = Inr (ps', u) \<and> same_ptrs (k + e) ps' qs'" if "cfor 0 T ?body (qs, st) = Inr (qs', u)" for T qs' u
    using that
  proof (induction T arbitrary: qs' u)
    case 0
    then show ?case using ps by simp
  next
    case (Suc T)
    obtain q0 u0 where q0: "cfor 0 T ?body (qs, st) = Inr (q0, u0)" "jerasure_do_scheduled_operations k q0 ops n u0 = Inr u" "qs' = move_ptrs (n * w) q0"
      using Suc.prems by (auto simp: cfor_Suc run_bind_Inr_conv)
    obtain p0 where p0: "cfor 0 T ?body (ps, st) = Inr (p0, u0)" "same_ptrs (k + e) p0 q0" using Suc.IH [OF q0(1)] by blast
    have "same_ptrs (k + e) (move_ptrs (n * w) p0) qs'" using p0(2) q0(3) by (auto simp: same_ptrs_def move_ptrs_def)
    then show ?case using p0 q0(2) scheduled_operations_same [OF p0(2) ops] by (auto simp: cfor_Suc)
  qed
  then show ?thesis using run by (fastforce simp: run_stripes_def run_bind_Inr_conv split: if_splits)
qed

section \<open>The schedule of a set of losses\<close>

lemma count_failed_ok:
  assumes "valid_erasures k m es" "distinct es"
  shows "count_failed k (es @ (-1) # rest) (a, b) = (a + card (erased_set es \<inter> {..<k}), b + card (erased_set es - {..<k}))"
  using assms
proof (induction es arbitrary: a b)
  case (Cons e es)
  have e: "0 \<le> e" "e \<noteq> -1" using Cons.prems(1) by (auto simp: valid_erasures_def)
  have fin: "finite (erased_set es)" by (simp add: erased_set_def)
  have new: "nat e \<notin> erased_set es" using Cons.prems e by (auto simp: erased_set_def valid_erasures_def eq_nat_nat_iff)
  have S: "erased_set (e # es) = insert (nat e) (erased_set es)" by (simp add: erased_set_def)
  have IH: "count_failed k (es @ (-1) # rest) (a, b) = (a + card (erased_set es \<inter> {..<k}), b + card (erased_set es - {..<k}))" for a b
    using Cons.IH [of a b] Cons.prems by (simp add: valid_erasures_def)
  show ?case
  proof (cases "e < int k")
    case True
    then have "insert (nat e) (erased_set es) \<inter> {..<k} = insert (nat e) (erased_set es \<inter> {..<k})"
      "insert (nat e) (erased_set es) - {..<k} = erased_set es - {..<k}" using e(1) by auto
    then show ?thesis using True e new fin IH by (simp add: S)
  next
    case False
    then have "insert (nat e) (erased_set es) \<inter> {..<k} = erased_set es \<inter> {..<k}"
      "insert (nat e) (erased_set es) - {..<k} = insert (nat e) (erased_set es - {..<k})" using e(1) by auto
    then show ?thesis using False e new fin IH by (simp add: S)
  qed
qed (simp add: erased_set_def)

lemma decode_data_rows_ok:
  assumes B: "bit_matrix k m w bitmatrix" and plan: "row_plan_ok k m E ids ind" and e: "ddf = card (E \<inter> {..<k})" "ddf \<le> e"
    and inv: "gf2.invertible (k * w) (bit_system k w bitmatrix ids)"
  shows "real_rows k w e bitmatrix ids ddf (decode_data_rows k w bitmatrix ids ddf (replicate (e * (k * w * w)) 0))"
proof (cases "ddf = 0")
  case True
  then show ?thesis by (simp add: decode_data_rows_def real_rows_def)
next
  case False
  let ?N = "k * w" let ?L = "?N * w"
  have ids: "ids ! i < k + m" "ids ! i = i \<or> k \<le> ids ! i" if "i < k" for i using plan that by (auto simp: row_plan_ok_def)
  obtain rc t im where I: "jerasure_invert_bitmatrix (survivor_bitmatrix k w bitmatrix ids) (replicate (k * k * w * w) 0) ?N = (rc, t, im)"
    by (rule prod_cases3)
  have L: "gf2.left_inverse ?N (ent ?N im) (bit_system k w bitmatrix ids)"
  proof -
    have "survivor_bitmatrix k w bitmatrix ids = bit_decoding_rows k w bitmatrix ids" by (rule survivor_bitmatrix_rows) (rule ids(2))
    then show ?thesis using bit_inverse_ok [OF B ids(1)] inv I by simp
  qed
  have row: "rep_row k w bitmatrix ids (\<lambda>z. im ! (?L * d + p * ?N + z)) d p" if d: "d < k" "p < w" for d p
    by (rule rep_row_cong [OF inverse_rep_row [OF L d]]) (simp add: ent_def algebra_simps)
  have "real_rows k w e bitmatrix ids ddf (fold (\<lambda>i real. copy_ints real (i * ?L) im (?L * ids ! (k + i)) ?L) [0..<ddf] (replicate (e * ?L) 0))"
  proof (rule fold_upt_inv0 [where P = "real_rows k w e bitmatrix ids"])
    fix i real assume i: "i < ddf" and R: "real_rows k w e bitmatrix ids i real"
    have len: "length real = e * ?L" using R by (simp add: real_rows_def)
    have fit: "i * ?L + ?L \<le> length real" using mult_le_mono1 [of "Suc i" e ?L] i e(2) len by simp
    let ?u = "copy_ints real (i * ?L) im (?L * ids ! (k + i)) ?L"
    note Bl = block_is_copy [OF fit, of im "?L * ids ! (k + i)"]
    have d: "ids ! (k + i) < k" using plan i e(1) by (simp add: row_plan_ok_def)
    have "rep_row k w bitmatrix ids (\<lambda>z. ?u ! (a * ?L + p * ?N + z)) (ids ! (k + a)) p" if ap: "a < Suc i" "p < w" for a p
    proof (cases "a = i")
      case True
      show ?thesis unfolding True by (rule rep_row_cong [OF row [OF d ap(2)]]) (rule block_is_cell [OF Bl ap(2) _ fit])
    next
      case False
      have "?u ! (a * ?L + p * ?N + z) = real ! (a * ?L + p * ?N + z)" if "z < ?N" for z
      proof -
        have "p * ?N + z < ?L" by (rule packet_bound [OF ap(2) that])
        moreover have "Suc a * ?L \<le> i * ?L" using ap(1) False by (intro mult_le_mono1) simp
        ultimately have "a * ?L + p * ?N + z < i * ?L" by simp
        then show ?thesis using fit by (intro block_is_other [OF Bl]) auto
      qed
      moreover have "rep_row k w bitmatrix ids (\<lambda>z. real ! (a * ?L + p * ?N + z)) (ids ! (k + a)) p" using R ap False by (simp add: real_rows_def)
      ultimately show ?thesis by (rule rep_row_cong [rotated])
    qed
    then show "real_rows k w e bitmatrix ids (Suc i) ?u" using Bl len by (simp add: real_rows_def block_is_def)
  qed (simp add: real_rows_def)
  then show ?thesis using False I by (simp add: decode_data_rows_def)
qed

lemma row_plan_dest:
  assumes "row_plan_ok k m E ids ind" "E \<subseteq> {..<k + m}" "card E \<le> m" "i < k + card E"
  shows "ids ! i < k + m" "i < k \<Longrightarrow> ids ! i \<notin> E" "k \<le> i \<Longrightarrow> ids ! i \<in> E"
proof -
  have high: "ids ! (k + t) \<in> E" if "t < card E" for t
    using assms(1) that by (cases "t < card (E \<inter> {..<k})") (auto simp: row_plan_ok_def)
  show "k \<le> i \<Longrightarrow> ids ! i \<in> E" using high [of "i - k"] assms(4) by simp
  then show "ids ! i < k + m" using assms(1,2) by (cases "i < k") (auto simp: row_plan_ok_def)
  show "i < k \<Longrightarrow> ids ! i \<notin> E" using assms(1) by (auto simp: row_plan_ok_def)
qed

lemma generate_decoding_schedule_ok:
  assumes B: "bit_matrix k m w bitmatrix" and es: "valid_erasures k m es" "distinct es" and few: "card (erased_set es) \<le> m"
    and ids: "set_up_ids_for_scheduled_decoding k m (es @ (-1) # rest) = Some (ids, ind)" "row_plan_ok k m (erased_set es) ids ind"
    and smart: "smart \<Longrightarrow> es \<noteq> []"
    and inv: "gf2.invertible (k * w) (bit_system k w bitmatrix ids)"
  shows "\<exists>real ops. jerasure_generate_decoding_schedule k m w bitmatrix (es @ (-1) # rest) smart = Inr (Some ops) \<and>
    schedules k (card (erased_set es)) w real ops \<and>
    real_rows k w (card (erased_set es)) bitmatrix ids (card (erased_set es)) real"
proof -
  let ?E = "erased_set es" let ?e = "card ?E" and ?ddf = "card (?E \<inter> {..<k})" and ?cdf = "card (?E - {..<k})"
  have fin: "finite ?E" by (simp add: erased_set_def)
  have sub: "?E \<subseteq> {..<k + m}" using es(1) by (auto simp: valid_erasures_def erased_set_def nat_less_iff)
  have e: "?ddf + ?cdf = ?e" using fin by (simp add: card_Un_disjoint [symmetric] Int_Diff_Un Int_Diff_disjoint)
  have cf: "count_failed k (es @ (-1) # rest) (0, 0) = (?ddf, ?cdf)" using count_failed_ok [OF es, of rest 0 0] by simp
  define real where "real = fold (decode_coding_row k w bitmatrix ids ind ?ddf) [0..<?cdf]
      (decode_data_rows k w bitmatrix ids ?ddf (replicate (?e * (k * w * w)) 0))"
  have "real_rows k w ?e bitmatrix ids (?ddf + ?cdf) real"
    unfolding real_def
  proof (rule fold_upt_inv0 [where P = "\<lambda>x. real_rows k w ?e bitmatrix ids (?ddf + x)"])
    show "real_rows k w ?e bitmatrix ids (?ddf + 0) (decode_data_rows k w bitmatrix ids ?ddf (replicate (?e * (k * w * w)) 0))"
      using decode_data_rows_ok [OF B ids(2) refl _ inv, of ?e] e by simp
    show "real_rows k w ?e bitmatrix ids (?ddf + Suc x) (decode_coding_row k w bitmatrix ids ind ?ddf x r)"
      if "x < ?cdf" "real_rows k w ?e bitmatrix ids (?ddf + x) r" for x r
      using decode_coding_row_ok [OF B ids(2) refl order.refl _ that(2) sub] that(1) e by simp
  qed
  then have R: "real_rows k w ?e bitmatrix ids ?e real" unfolding e .
  have w: "0 < w" using B by (simp add: bit_matrix_def)
  have cell: "real ! (r * (k * w) + z) = real ! (r div w * (k * w * w) + r mod w * (k * w) + z)" for r z
  proof -
    have "r * (k * w) = (r div w * w + r mod w) * (k * w)" by (simp only: div_mult_mod_eq)
    also have "\<dots> = r div w * (k * w * w) + r mod w * (k * w)" by (simp only: algebra_simps)
    finally show ?thesis by simp
  qed
  have rep: "rep_row k w bitmatrix ids (\<lambda>z. real ! (r * (k * w) + z)) (ids ! (k + r div w)) (r mod w)" if "r < ?e * w" for r
    using R that w unfolding cell by (simp add: real_rows_def less_mult_imp_div_less)
  have bits: "bit_rows (?e * w) (k * w) real" using rep by (auto simp: bit_rows_def rep_row_def)
  have nz: "rows_nonzero (?e * w) (k * w) real"
    unfolding rows_nonzero_def row_bit_def
  proof (intro allI impI)
    fix r assume r: "r < ?e * w"
    have "ids ! (k + r div w) < k + m" using row_plan_dest(1) [OF ids(2) sub few, of "k + r div w"] r by (simp add: less_mult_imp_div_less)
    then show "\<exists>j < k * w. real ! (r * (k * w) + j) \<noteq> 0" using rep_nonzero [OF B rep [OF r]] w by simp
  qed
  have len: "k * w * (?cdf + ?ddf) * w = ?e * (k * w * w)" using e by (simp add: ac_simps)
  have gen: "jerasure_generate_decoding_schedule k m w bitmatrix (es @ (-1) # rest) smart =
      (if smart then run_bind (jerasure_smart_bitmatrix_to_schedule k ?e w real) (\<lambda>s. Inr (Some s))
       else Inr (Some (jerasure_dumb_bitmatrix_to_schedule k ?e w real)))"
    by (simp only: jerasure_generate_decoding_schedule_def cf prod.case ids(1) option.case len Let_def real_def e)
  show ?thesis
  proof (cases smart)
    case True
    then have "erased_set es \<noteq> {}" using smart by (cases es) (auto simp: erased_set_def)
    then have "0 < ?e * w" using fin w by (simp add: card_gt_0_iff)
    then show ?thesis using smart_schedules [OF bits nz] R True gen by auto
  next
    case False
    then show ?thesis using dumb_schedules [OF nz] R gen by auto
  qed
qed

section \<open>Decoding with a schedule\<close>

lemma extend_ids:
  assumes "inj_on ((!) ids) {..<b}" "b \<le> length ids" "b \<le> n" "\<And>i. i < b \<Longrightarrow> ids ! i < n"
  obtains full where "length full = n" "distinct full" "set full = {..<n}" "\<And>i. i < b \<Longrightarrow> full ! i = ids ! i"
proof -
  let ?p = "take b ids" let ?q = "sorted_list_of_set ({..<n} - set ?p)"
  have p: "length ?p = b" "distinct ?p" using assms(1,2) by (auto simp: distinct_conv_nth inj_on_def)
  have s: "set ?p \<subseteq> {..<n}" using assms(2,4) by (auto simp: in_set_conv_nth)
  have "length ?q = n - b" using s p distinct_card [OF p(2)] by (simp add: card_Diff_subset)
  then have "length (?p @ ?q) = n" using p(1) assms(3) by simp
  moreover have "distinct (?p @ ?q)" "set (?p @ ?q) = {..<n}" using p(2) s by auto
  moreover have "(?p @ ?q) ! i = ids ! i" if "i < b" for i using that p(1) by (simp add: nth_append)
  ultimately show ?thesis using that by blast
qed

lemma run_decoding_schedule_ok:
  assumes B: "bit_matrix k m w bitmatrix" and n: "8 dvd n" "0 < n" and D: "bit_codeword k m w bitmatrix n T D"
    and E: "E \<subseteq> {..<k + m}" "card E \<le> m" and plan: "row_plan_ok k m E ids ind"
    and ops: "schedules k (card E) w real ops" "real_rows k w (card E) bitmatrix ids (card E) real"
    and st: "coder_ok k m (T * (n * w)) st" "\<And>i. i < k + m \<Longrightarrow> i \<notin> E \<Longrightarrow> dev k st i = D i"
  shows "\<exists>st'. run_stripes k w (map (\<lambda>id. (id, 0)) ids) ops (T * (n * w)) n st = Inr st' \<and> coder_ok k m (T * (n * w)) st' \<and>
    (\<forall>i < k + m. dev k st' i = D i)"
proof -
  let ?e = "card E" and ?sz = "T * (n * w)"
  have w: "0 < w" "0 < n * w" using B n(2) by (simp_all add: bit_matrix_def)
  have fin: "finite E" using E(1) finite_subset by blast
  note pd = row_plan_dest [OF plan E]
  have inj: "inj_on ((!) ids) {..<k + ?e}" and len: "length ids = k + m" using plan by (auto simp: row_plan_ok_def)
  obtain full where full: "length full = k + m" "distinct full" "set full = {..<k + m}" "\<And>i. i < k + ?e \<Longrightarrow> full ! i = ids ! i"
    by (rule extend_ids [OF inj, of "k + m"]) (use len E(2) pd(1) in auto)
  have valid: "\<forall>oper \<in> set ops. op_valid k ?e w oper" using ops(1) by (simp add: schedules_def)
  have validm: "\<forall>oper \<in> set ops. op_valid k m w oper" using valid E(2) by (fastforce simp: op_valid_def)
  obtain st' where st': "run_stripes k w (map (\<lambda>id. (id, 0)) full) ops ?sz n st = Inr st'" "stripes_done k m w full n ?sz (packet_run ops) T st st'"
    using run_stripes_ok [OF st(1) full(1,2) _ refl w(2) n(1) validm] full(3) by auto
  have "same_ptrs (k + ?e) (map (\<lambda>id. (id, 0)) ids) (map (\<lambda>id. (id, 0)) full)" using len full(1,4) E(2) by (simp add: same_ptrs_def)
  then have run: "run_stripes k w (map (\<lambda>id. (id, 0)) ids) ops ?sz n st = Inr st'" by (rule run_stripes_same [OF _ valid st'(1)])
  have ok: "coder_ok k m ?sz st'" using st'(2) by (simp add: stripes_done_def)
  have img: "(!) ids ` {k..<k + ?e} = E"
  proof (rule card_subset_eq [OF fin])
    show "(!) ids ` {k..<k + ?e} \<subseteq> E" using pd(3) by auto
    show "card ((!) ids ` {k..<k + ?e}) = ?e" using inj by (subst card_image) (auto intro: inj_on_subset)
  qed
  have surv: "dev k st (ids ! x) = D (ids ! x)" if "x < k" for x using st(2) pd(1,2) [of x] that by simp
  have cell: "dev k st' (full ! d) ! (t * (n * w) + p * n + b) = D (full ! d) ! (t * (n * w) + p * n + b)"
    if a: "d < k + m" "t < T" "p < w" "b < n" for d t p b
  proof -
    let ?V = "packet_view k full (t * (n * w)) n st b"
    have "dev k st' (full ! d) ! (t * (n * w) + p * n + b) = filled k w real {..<?e * w} ?V d p"
      using st'(2) ops(1) a by (simp add: stripes_done_def schedules_def packet_view_def)
    moreover have "filled k w real {..<?e * w} ?V d p = D (full ! d) ! (t * (n * w) + p * n + b)"
    proof (cases "k \<le> d \<and> d < k + ?e")
      case True
      then obtain i where i: "d = k + i" "i < ?e" by (metis add_less_cancel_left le_Suc_ex)
      have row: "i * w + p < ?e * w" using packet_bound [OF i(2) a(3)] by (simp add: mult.commute)
      have d: "full ! d = ids ! (k + i)" "ids ! (k + i) < k + m" using full(4) pd(1) i by simp_all
      have rep: "rep_row k w bitmatrix ids (\<lambda>z. real ! (i * (k * w * w) + p * (k * w) + z)) (ids ! (k + i)) p" using ops(2) i(2) a(3) by (simp add: real_rows_def)
      have rb: "row_bit (k * w) real (i * w + p) = (\<lambda>z. real ! (i * (k * w * w) + p * (k * w) + z) \<noteq> 0)"
        by (simp add: row_bit_def fun_eq_iff algebra_simps)
      have "filled k w real {..<?e * w} ?V d p = row_sum w (k * w) (row_bit (k * w) real (i * w + p)) ?V"
        using filled_at [OF a(3) refl, of i "{..<?e * w}" k real ?V] row i(1) by simp
      also have "\<dots> = row_sum w (k * w) (row_bit (k * w) real (i * w + p)) (stripe_packets w n (\<lambda>x. D (ids ! x)) t b)"
        by (rule row_sum_cong) (use surv full(4) in \<open>simp add: packet_view_def stripe_packets_def\<close>)
      also have "\<dots> = stripe_packets w n D t b (ids ! (k + i)) p"
        unfolding rb by (rule rep_solve [OF B _ _ rep a(2-4) d(2)]) (use D pd(1) in \<open>auto simp: bit_codeword_def\<close>)
      finally show ?thesis using d(1) by (simp add: stripe_packets_def)
    next
      case False
      have "full ! d \<notin> E"
      proof
        assume "full ! d \<in> E"
        then have "full ! d \<in> (!) ids ` {k..<k + ?e}" by (simp only: img)
        then obtain i where i: "k \<le> i" "i < k + ?e" "full ! d = ids ! i" by auto
        then have "full ! d = full ! i" using full(4) by simp
        then have "d = i" using full(1,2) a(1) i(2) E(2) by (simp add: nth_eq_iff_index_eq)
        then show False using False i by simp
      qed
      then have "dev k st (full ! d) = D (full ! d)" using st(2) full(1,3) a(1) nth_mem [of d full] by auto
      moreover have "\<not> (k \<le> d \<and> p < w \<and> (d - k) * w + p \<in> {..<?e * w})"
      proof
        assume h: "k \<le> d \<and> p < w \<and> (d - k) * w + p \<in> {..<?e * w}"
        then have "(d - k) * w < ?e * w" by (metis lessThan_iff add_lessD1)
        then have "d - k < ?e" by (simp only: mult_less_cancel2)
        then show False using False h by simp
      qed
      ultimately show ?thesis by (simp only: filled_def if_False packet_view_def)
    qed
    ultimately show ?thesis by simp
  qed
  have "dev k st' i = D i" if i: "i < k + m" for i
  proof -
    obtain d where d: "d < k + m" "i = full ! d" using full(1,3) i by (metis in_set_conv_nth lessThan_iff)
    show ?thesis unfolding d(2)
      by (rule stripe_ext [of _ T n w]) (use cell [OF d(1)] coder_ok_dev [OF ok] D i d in \<open>auto simp: bit_codeword_def\<close>)
  qed
  then show ?thesis using run ok by blast
qed

lemma plan_invertible:
  assumes plan: "row_plan_ok k m E ids ind" and E: "E \<subseteq> {..<k + m}" "card E \<le> m"
    and dec: "\<And>ids. length ids = k \<Longrightarrow> distinct ids \<Longrightarrow> set ids \<subseteq> {..<k + m} - E \<Longrightarrow> gf2.invertible (k * w) (bit_system k w bitmatrix ids)"
  shows "gf2.invertible (k * w) (bit_system k w bitmatrix ids)"
proof -
  let ?t = "take k ids"
  have len: "length ids = k + m" "inj_on ((!) ids) {..<k + card E}" using plan by (auto simp: row_plan_ok_def)
  have "length ?t = k" "distinct ?t" "set ?t \<subseteq> {..<k + m} - E"
    using len row_plan_dest(1,2) [OF plan E] by (auto simp: distinct_conv_nth inj_on_def in_set_conv_nth)
  then have i: "gf2.invertible (k * w) (bit_system k w bitmatrix ?t)" by (rule dec)
  have "bit_system k w bitmatrix ?t r = bit_system k w bitmatrix ids r" if "r < k * w" for r
    using that by (simp add: less_mult_imp_div_less)
  then have "gf2.left_inverse (k * w) A (bit_system k w bitmatrix ?t) = gf2.left_inverse (k * w) A (bit_system k w bitmatrix ids)" for A
    using gf2.mcomb_cong [of "k * w" _ _ "bit_system k w bitmatrix ?t" _ "bit_system k w bitmatrix ids"] by (simp add: gf2.left_inverse_def)
  then show ?thesis using i by (simp add: gf2.invertible_def)
qed

lemma schedule_decode_lazy_ok:
  assumes B: "bit_matrix k m w bitmatrix" and n: "8 dvd n" "0 < n" and D: "bit_codeword k m w bitmatrix n T D"
    and es: "valid_erasures k m es" "distinct es" and smart: "smart \<Longrightarrow> es \<noteq> []" and few: "card (erased_set es) \<le> m"
    and st: "coder_ok k m (T * (n * w)) st" "\<And>i. i < k + m \<Longrightarrow> i \<notin> erased_set es \<Longrightarrow> dev k st i = D i"
    and dec: "\<And>ids. length ids = k \<Longrightarrow> distinct ids \<Longrightarrow> set ids \<subseteq> {..<k + m} - erased_set es \<Longrightarrow>
       gf2.invertible (k * w) (bit_system k w bitmatrix ids)"
  shows "\<exists>st'. jerasure_schedule_decode_lazy k m w bitmatrix (es @ (-1) # rest) (T * (n * w)) n smart st = Inr (0, st') \<and>
    coder_ok k m (T * (n * w)) st' \<and> (\<forall>i < k + m. dev k st' i = D i)"
proof -
  let ?E = "erased_set es"
  have sub: "?E \<subseteq> {..<k + m}" using es(1) by (auto simp: valid_erasures_def erased_set_def nat_less_iff)
  obtain ids ind where I: "set_up_ids_for_scheduled_decoding k m (es @ (-1) # rest) = Some (ids, ind)" "row_plan_ok k m ?E ids ind"
    using set_up_ids_ok [OF es(1) few] by blast
  note pd = row_plan_dest [OF I(2) sub few]
  have inv: "gf2.invertible (k * w) (bit_system k w bitmatrix ids)" by (rule plan_invertible [OF I(2) sub few]) (use dec in blast)
  obtain real ops where O: "jerasure_generate_decoding_schedule k m w bitmatrix (es @ (-1) # rest) smart = Inr (Some ops)"
      "schedules k (card ?E) w real ops" "real_rows k w (card ?E) bitmatrix ids (card ?E) real"
    using generate_decoding_schedule_ok [OF B es few I smart inv] by blast
  have ptrs: "set_up_ptrs_for_scheduled_decoding k m (es @ (-1) # rest) = Some (map (\<lambda>id. (id, 0)) ids)"
    using I(1) by (simp add: set_up_ptrs_ids)
  show ?thesis using run_decoding_schedule_ok [OF B n D sub few I(2) O(2,3) st] O(1) ptrs by (auto simp: jerasure_schedule_decode_lazy_def)
qed

section \<open>The cache of schedules\<close>

text \<open>A decoding schedule depends on the set of the losses only.\<close>

lemma erasures_set:
  assumes "valid_erasures k m es" "valid_erasures k m es'" "erased_set es = erased_set es'"
  shows "jerasure_erasures_to_erased k m (es @ (-1) # rest) = jerasure_erasures_to_erased k m (es' @ (-1) # rest')"
proof (cases "jerasure_erasures_to_erased k m (es @ (-1) # rest)")
  case None
  then show ?thesis using erasures_to_erased_ok [OF assms(1), of rest] erasures_to_erased_ok [OF assms(2), of rest'] assms(3)
    by (auto split: option.splits)
next
  case (Some r)
  then obtain r' where r': "jerasure_erasures_to_erased k m (es' @ (-1) # rest') = Some r'"
    using erasures_to_erased_ok [OF assms(1), of rest] erasures_to_erased_ok [OF assms(2), of rest'] assms(3) by (auto split: option.splits)
  have "r = r'"
    by (rule nth_equalityI)
      (use erasures_to_erased_ok [OF assms(1), of rest] erasures_to_erased_ok [OF assms(2), of rest'] Some r' assms(3) in auto)
  then show ?thesis using Some r' by simp
qed

lemma generate_schedule_set:
  assumes "valid_erasures k m es" "valid_erasures k m es'" "distinct es" "distinct es'" "erased_set es = erased_set es'"
  shows "jerasure_generate_decoding_schedule k m w bitmatrix (es @ (-1) # rest) smart = jerasure_generate_decoding_schedule k m w bitmatrix (es' @ (-1) # rest') smart"
proof -
  have "set_up_ids_for_scheduled_decoding k m (es @ (-1) # rest) = set_up_ids_for_scheduled_decoding k m (es' @ (-1) # rest')"
    unfolding set_up_ids_for_scheduled_decoding_def erasures_set [OF assms(1,2,5), of rest rest'] ..
  moreover have "count_failed k (es @ (-1) # rest) (0, 0) = count_failed k (es' @ (-1) # rest') (0, 0)"
    unfolding count_failed_ok [OF assms(1,3)] count_failed_ok [OF assms(2,4)] assms(5) ..
  ultimately show ?thesis by (simp only: jerasure_generate_decoding_schedule_def)
qed

text \<open>The entry for a pair of devices; a single loss is the pair of the device with itself.\<close>

definition cache_at :: "nat \<Rightarrow> 'a list \<Rightarrow> nat \<Rightarrow> nat \<Rightarrow> 'a" where
  "cache_at n sc a b = sc ! (a * n + b)"

lemma cache_at_update:
  assumes "n * n \<le> length sc" "a < n" "b < n" "c < n" "d < n"
  shows "cache_at n (sc[c * n + d := v]) a b = (if a = c \<and> b = d then v else cache_at n sc a b)"
proof -
  have "n * c + d < n * n" using flat_bound [of c n d n] assms by simp
  then have "c * n + d < length sc" using assms(1) by (simp add: mult.commute)
  then show ?thesis using flat_index [of b n d a c] assms by (auto simp: cache_at_def nth_list_update mult.commute)
qed

definition cached :: "nat \<Rightarrow> (int list \<Rightarrow> fault + 'a) \<Rightarrow> nat \<Rightarrow> nat \<Rightarrow> 'a list \<Rightarrow> bool" where
  "cached n make_schedule e1 e2 sc \<longleftrightarrow> n * n \<le> length sc \<and> (\<forall>a < e1. make_schedule [int a, -1] = Inr (cache_at n sc a a)) \<and>
     (\<forall>a b. b < a \<longrightarrow> a < e1 \<or> a = e1 \<and> b < e2 \<longrightarrow> make_schedule [int a, int b, -1] = Inr (cache_at n sc a b) \<and> cache_at n sc b a = cache_at n sc a b)"

lemma generate_schedule_cache_ok:
  assumes one: "\<And>a. a < k + 2 \<Longrightarrow> \<exists>s. jerasure_generate_decoding_schedule k 2 w bitmatrix [int a, -1] smart = Inr s"
    and two: "\<And>a b. a < k + 2 \<Longrightarrow> b < a \<Longrightarrow> \<exists>s. jerasure_generate_decoding_schedule k 2 w bitmatrix [int a, int b, -1] smart = Inr s"
  shows "\<exists>scache. jerasure_generate_schedule_cache k 2 w bitmatrix smart = Inr (Some scache) \<and>
    cached (k + 2) (\<lambda>es. jerasure_generate_decoding_schedule k 2 w bitmatrix es smart) (k + 2) 0 scache"
proof -
  let ?n = "k + 2" let ?gen = "\<lambda>es. jerasure_generate_decoding_schedule k 2 w bitmatrix es smart"
  let ?inner = "\<lambda>e1 e2 scache. run_bind (?gen [int e1, int e2, -1]) (\<lambda>s. Inr (scache[e1 * ?n + e2 := s, e2 * ?n + e1 := s]))"
  let ?outer = "\<lambda>e1 scache. run_bind (cfor 0 e1 (?inner e1) scache) (\<lambda>scache. run_bind (?gen [int e1, -1]) (\<lambda>s. Inr (scache[e1 * ?n + e1 := s])))"
  have inner: "\<exists>sc'. cfor 0 e1 (?inner e1) sc = Inr sc' \<and> cached ?n ?gen e1 e1 sc'" if e1: "e1 < ?n" and C: "cached ?n ?gen e1 0 sc" for e1 sc
  proof (rule cfor_total [where P = "\<lambda>e2. cached ?n ?gen e1 e2"])
    fix e2 sc assume e2: "e2 < e1" and C: "cached ?n ?gen e1 e2 sc"
    obtain s where s: "?gen [int e1, int e2, -1] = Inr s" using two [OF e1 e2] by blast
    let ?sc = "sc[e1 * ?n + e2 := s, e2 * ?n + e1 := s]"
    have l: "?n * ?n \<le> length sc" using C by (simp add: cached_def)
    have at: "cache_at ?n ?sc a b = (if a = e1 \<and> b = e2 \<or> a = e2 \<and> b = e1 then s else cache_at ?n sc a b)" if "a < ?n" "b < ?n" for a b
      using cache_at_update [of ?n sc a b e1 e2 s] cache_at_update [of ?n "sc[e1 * ?n + e2 := s]" a b e2 e1 s] l that e1 e2 by auto
    have "cached ?n ?gen e1 (Suc e2) ?sc" unfolding cached_def
    proof (intro conjI allI impI)
      show "?n * ?n \<le> length ?sc" using l by simp
      show "?gen [int a, -1] = Inr (cache_at ?n ?sc a a)" if "a < e1" for a using C that e1 e2 at [of a a] by (auto simp: cached_def)
      fix a b assume b: "b < a" and a: "a < e1 \<or> a = e1 \<and> b < Suc e2"
      have lt: "a < ?n" "b < ?n" using a b e1 by auto
      have old: "?gen [int a, int b, -1] = Inr (cache_at ?n sc a b) \<and> cache_at ?n sc b a = cache_at ?n sc a b" if "\<not> (a = e1 \<and> b = e2)"
      proof -
        have "a < e1 \<or> a = e1 \<and> b < e2" using a that by linarith
        then show ?thesis using C b unfolding cached_def by blast
      qed
      show "?gen [int a, int b, -1] = Inr (cache_at ?n ?sc a b)" "cache_at ?n ?sc b a = cache_at ?n ?sc a b"
        unfolding at [OF lt] at [OF lt(2,1)] using old s a b e2 by auto
    qed
    then show "\<exists>sc'. ?inner e1 e2 sc = Inr sc' \<and> cached ?n ?gen e1 (Suc e2) sc'" using s by simp
  qed (use C in simp_all)
  have "\<exists>sc. cfor 0 ?n ?outer (replicate (?n * (?n + 1)) None) = Inr sc \<and> cached ?n ?gen ?n 0 sc"
  proof (rule cfor_total [where P = "\<lambda>e1. cached ?n ?gen e1 0"])
    fix e1 sc assume e1: "e1 < ?n" and C: "cached ?n ?gen e1 0 sc"
    obtain sc' where sc': "cfor 0 e1 (?inner e1) sc = Inr sc'" "cached ?n ?gen e1 e1 sc'" using inner [OF e1 C] by blast
    obtain s where s: "?gen [int e1, -1] = Inr s" using one [OF e1] by blast
    let ?sc = "sc'[e1 * ?n + e1 := s]"
    have l: "?n * ?n \<le> length sc'" using sc'(2) by (simp add: cached_def)
    have at: "cache_at ?n ?sc a b = (if a = e1 \<and> b = e1 then s else cache_at ?n sc' a b)" if "a < ?n" "b < ?n" for a b
      using cache_at_update [OF l that e1 e1] .
    have "cached ?n ?gen (Suc e1) 0 ?sc" unfolding cached_def
    proof (intro conjI allI impI)
      show "?n * ?n \<le> length ?sc" using l by simp
      show "?gen [int a, -1] = Inr (cache_at ?n ?sc a a)" if "a < Suc e1" for a
        using sc'(2) s that e1 at [of a a] by (auto simp: cached_def less_Suc_eq)
      fix a b assume b: "b < a" and a: "a < Suc e1 \<or> a = Suc e1 \<and> b < 0"
      have lt: "a < ?n" "b < ?n" using a b e1 by auto
      have "a < e1 \<or> a = e1 \<and> b < e1" using a b by linarith
      then have "?gen [int a, int b, -1] = Inr (cache_at ?n sc' a b) \<and> cache_at ?n sc' b a = cache_at ?n sc' a b"
        using sc'(2) b unfolding cached_def by blast
      then show "?gen [int a, int b, -1] = Inr (cache_at ?n ?sc a b)" "cache_at ?n ?sc b a = cache_at ?n ?sc a b"
        unfolding at [OF lt] at [OF lt(2,1)] using b by auto
    qed
    then show "\<exists>sc'. ?outer e1 sc = Inr sc' \<and> cached ?n ?gen (Suc e1) 0 sc'" using s sc'(1) by simp
  qed (simp_all add: cached_def)
  then show ?thesis by (auto simp: jerasure_generate_schedule_cache_def)
qed

lemma schedule_decode_cache_equiv:
  assumes C: "cached (k + 2) (\<lambda>es. jerasure_generate_decoding_schedule k 2 w bitmatrix es smart) (k + 2) 0 scache"
    and es: "valid_erasures k 2 es" "distinct es" "length es = 1 \<or> length es = 2"
    and sched: "jerasure_generate_decoding_schedule k 2 w bitmatrix (es @ [-1]) smart = Inr (Some ops)"
  shows "jerasure_schedule_decode_cache k 2 w scache (es @ [-1]) sz n st = jerasure_schedule_decode_lazy k 2 w bitmatrix (es @ [-1]) sz n smart st"
proof -
  let ?gen = "\<lambda>es. jerasure_generate_decoding_schedule k 2 w bitmatrix es smart"
  have entry: "\<exists>a b. a < k + 2 \<and> b < k + 2 \<and> length (es @ [-1]) \<ge> 2 \<and> (es = [int a] \<and> b = a \<or> es = [int a, int b] \<and> a \<noteq> b) \<and> cache_at (k + 2) scache a b = Some ops"
  proof -
    from es(3) consider e where "es = [e]" | e f where "es = [e, f]" by (auto simp: length_Suc_conv numeral_2_eq_2)
    then show ?thesis
    proof cases
      case 1
      then obtain a where a: "es = [int a]" "a < k + 2" using es(1) by (auto simp: valid_erasures_def intro: nonneg_int_cases)
      have "?gen [int a, -1] = Inr (cache_at (k + 2) scache a a)" using C a(2) unfolding cached_def by blast
      then show ?thesis using a sched by auto
    next
      case 2
      have "0 \<le> e" "0 \<le> f" using es(1) 2 by (auto simp: valid_erasures_def)
      then obtain a b where ab: "e = int a" "f = int b" by (metis nonneg_int_cases)
      have lt: "a < k + 2" "b < k + 2" "a \<noteq> b" using es(1,2) 2 ab by (auto simp: valid_erasures_def)
      have "cache_at (k + 2) scache a b = Some ops"
      proof (cases "b < a")
        case True
        then have "?gen [int a, int b, -1] = Inr (cache_at (k + 2) scache a b)" using C lt(1) unfolding cached_def by blast
        then show ?thesis using sched 2 ab by simp
      next
        case False
        then have ba: "a < b" using lt(3) by simp
        have "valid_erasures k 2 [int b, int a]" "erased_set [int a, int b] = erased_set [int b, int a]"
          using lt by (auto simp: valid_erasures_def erased_set_def)
        then have "?gen ([int a, int b] @ (-1) # []) = ?gen ([int b, int a] @ (-1) # [])"
          using es(1,2) 2 ab lt(3) by (intro generate_schedule_set) auto
        moreover have "?gen [int b, int a, -1] = Inr (cache_at (k + 2) scache b a)" "cache_at (k + 2) scache a b = cache_at (k + 2) scache b a"
          using C lt(2) ba unfolding cached_def by blast+
        ultimately show ?thesis using sched 2 ab by simp
      qed
      then show ?thesis using 2 ab lt by auto
    qed
  qed
  then obtain a b where ab: "a < k + 2" "b < k + 2" "es = [int a] \<and> b = a \<or> es = [int a, int b] \<and> a \<noteq> b" "cache_at (k + 2) scache a b = Some ops"
    by blast
  have "a * (k + 2) + b < (k + 2) * (k + 2)" using flat_bound [of a "k + 2" b "k + 2"] ab by (simp add: mult.commute)
  then have lt: "a * (k + 2) + b < length scache" using C by (simp add: cached_def)
  define index where "index = (if (es @ [-1]) ! 1 = -1 then (es @ [-1]) ! 0 * int (k + 2) + (es @ [-1]) ! 0 else (es @ [-1]) ! 0 * int (k + 2) + (es @ [-1]) ! 1)"
  have index: "index = int (a * (k + 2) + b)" using ab(3) by (auto simp: index_def algebra_simps)
  have i: "\<not> (index < 0 \<or> int (length scache) \<le> index)" "scache ! nat index = Some ops"
    unfolding index using lt ab(4) by (auto simp: cache_at_def simp del: of_nat_add of_nat_mult)
  have l: "\<not> length (es @ [-1]) < 2" "\<not> ((es @ [-1]) ! 1 \<noteq> -1 \<and> length (es @ [-1]) < 3)" "\<not> ((es @ [-1]) ! 1 \<noteq> -1 \<and> (es @ [-1]) ! 2 \<noteq> -1)"
    using ab(3) by auto
  show ?thesis
    unfolding jerasure_schedule_decode_cache_def jerasure_schedule_decode_lazy_def Let_def index_def [symmetric] if_not_P [OF l(1)] if_not_P [OF l(2)] if_not_P [OF l(3)]
      if_not_P [OF i(1)] i(2) sched run_bind_simps option.case ..
qed

lemma generate_schedule_total:
  assumes B: "bit_matrix k m w bitmatrix" and es: "valid_erasures k m es" "distinct es" "es \<noteq> []" "card (erased_set es) \<le> m"
    and inv: "\<And>ids. length ids = k \<Longrightarrow> distinct ids \<Longrightarrow> set ids \<subseteq> {..<k + m} \<Longrightarrow> gf2.invertible (k * w) (bit_system k w bitmatrix ids)"
  shows "\<exists>ops. jerasure_generate_decoding_schedule k m w bitmatrix (es @ (-1) # rest) smart = Inr (Some ops)"
proof -
  have sub: "erased_set es \<subseteq> {..<k + m}" using es(1) by (auto simp: valid_erasures_def erased_set_def nat_less_iff)
  obtain ids ind where I: "set_up_ids_for_scheduled_decoding k m (es @ (-1) # rest) = Some (ids, ind)" "row_plan_ok k m (erased_set es) ids ind"
    using set_up_ids_ok [OF es(1,4)] by blast
  show ?thesis using generate_decoding_schedule_ok [OF B es(1,2,4) I es(3) plan_invertible [OF I(2) sub es(4) inv]] by blast
qed

lemma schedule_cache_equivalent:
  assumes B: "bit_matrix k 2 w bitmatrix" and es: "valid_erasures k 2 es" "distinct es" "es \<noteq> []" "card (erased_set es) \<le> 2"
    and inv: "\<And>ids. length ids = k \<Longrightarrow> distinct ids \<Longrightarrow> set ids \<subseteq> {..<k + 2} \<Longrightarrow> gf2.invertible (k * w) (bit_system k w bitmatrix ids)"
  shows "\<exists>scache. jerasure_generate_schedule_cache k 2 w bitmatrix smart = Inr (Some scache) \<and>
    (\<forall>sz st. jerasure_schedule_decode_cache k 2 w scache (es @ [-1]) sz n st = jerasure_schedule_decode_lazy k 2 w bitmatrix (es @ [-1]) sz n smart st)"
proof -
  note total = generate_schedule_total [OF B _ _ _ _ inv]
  have one: "\<exists>s. jerasure_generate_decoding_schedule k 2 w bitmatrix [int a, -1] smart = Inr s" if "a < k + 2" for a
    using total [of "[int a]" "[]" smart] that by (auto simp: valid_erasures_def erased_set_def)
  have two: "\<exists>s. jerasure_generate_decoding_schedule k 2 w bitmatrix [int a, int b, -1] smart = Inr s" if "a < k + 2" "b < a" for a b
    using total [of "[int a, int b]" "[]" smart] that by (auto simp: valid_erasures_def erased_set_def)
  obtain scache where sc: "jerasure_generate_schedule_cache k 2 w bitmatrix smart = Inr (Some scache)"
      "cached (k + 2) (\<lambda>es. jerasure_generate_decoding_schedule k 2 w bitmatrix es smart) (k + 2) 0 scache"
    using generate_schedule_cache_ok [OF one two] by blast
  obtain ops where ops: "jerasure_generate_decoding_schedule k 2 w bitmatrix (es @ [-1]) smart = Inr (Some ops)" using total [OF es, of "[]" smart] by auto
  have "inj_on nat (set es)"
  proof (rule inj_onI)
    fix x y assume "x \<in> set es" "y \<in> set es" "nat x = nat y"
    moreover from this have "0 \<le> x" "0 \<le> y" using es(1) by (auto simp: valid_erasures_def)
    ultimately show "x = y" by (simp add: eq_nat_nat_iff)
  qed
  then have "card (erased_set es) = length es" using es(2) by (simp add: erased_set_def card_image distinct_card)
  then have "length es = 1 \<or> length es = 2" using es(3,4) by (cases es) (auto simp: le_Suc_eq numeral_2_eq_2)
  then show ?thesis using sc(1) schedule_decode_cache_equiv [OF sc(2) es(1,2) _ ops] by blast
qed

end
