(* ===== verification/Round_Trip.thy ===== *)
theory Round_Trip
  imports Bitmatrix_Make Schedule_Decode
begin

unbundle bit_operations_syntax

text \<open>
  The use of the coders: an interface for the functions that make coding matrices, the round trips of
  encoding, loss and decoding with elements and with bits proved once from it, and its instances for the four makers of
  \<^verbatim>\<open>reed_sol.c\<close> and \<^verbatim>\<open>cauchy_best_r6.c\<close>.
\<close>

section \<open>A fresh coder\<close>

text \<open>The library before its first use, with the buffers of the data and the coding devices.\<close>

definition fresh_coder :: "byte list list \<Rightarrow> byte list list \<Rightarrow> coder" where
  "fresh_coder ds cs = \<lparr>tables = galois_init, jerasure_total_xor_bytes = 0, jerasure_total_gf_bytes = 0,
     jerasure_total_memcpy_bytes = 0, data_ptrs = ds, coding_ptrs = cs\<rparr>"

lemma coder_ok_fresh:
  assumes "\<forall>b \<in> set ds \<union> set cs. length b = sz"
  shows "coder_ok (length ds) (length cs) sz (fresh_coder ds cs)"
  using assms galois_ok_init by (auto simp: coder_ok_def fresh_coder_def dev_def)

section \<open>Encoding packets with the smart schedule\<close>

lemma bit_encoded:
  assumes B: "bit_matrix k m w bitmatrix" and n: "8 dvd n" "0 < n" and m: "0 < m" and st: "coder_ok k m (T * (n * w)) st"
  shows "\<exists>ops st1. jerasure_smart_bitmatrix_to_schedule k m w bitmatrix = Inr ops \<and>
    jerasure_schedule_encode k m w ops (T * (n * w)) n st = Inr st1 \<and> coder_ok k m (T * (n * w)) st1 \<and> (\<forall>j < k. dev k st1 j = dev k st j) \<and>
    bit_codeword k m w bitmatrix n T (dev k st1)"
proof -
  have w: "0 < w" "0 < n * w" using B n(2) by (simp_all add: bit_matrix_def)
  have "is_bit (bitmatrix ! (i * (k * w) + j))" if "i < m * w" "j < k * w" for i j
    using B row_index [OF that] by (simp add: bit_matrix_def ac_simps)
  then have "bit_rows (m * w) (k * w) bitmatrix" "rows_nonzero (m * w) (k * w) bitmatrix" "0 < m * w"
    using B w m by (simp_all add: bit_rows_def bit_matrix_def)
  then obtain ops where ops: "jerasure_smart_bitmatrix_to_schedule k m w bitmatrix = Inr ops" "schedules k m w bitmatrix ops"
    using smart_schedules by blast
  obtain st1 where s1: "jerasure_schedule_encode k m w ops (T * (n * w)) n st = Inr st1" "coder_ok k m (T * (n * w)) st1"
      "\<forall>j < k. dev k st1 j = dev k st j" "bit_coded k m w bitmatrix n T (dev k st1)"
    using schedule_encode_ok [OF st w(2) n(1) ops(2)] by blast
  then have "bit_codeword k m w bitmatrix n T (dev k st1)" using coder_ok_dev [OF s1(2)] by (simp add: bit_codeword_def)
  then show ?thesis using ops(1) s1 by blast
qed

section \<open>Coders of a matrix that survives every loss\<close>

text \<open>
  What a user of the matrix coder relies on: for the sizes it accepts, the function that makes the matrix
  returns one, its rows are rows of elements, none of them zero, and any \<open>k\<close> rows of its generator are
  invertible.  \<open>fits k m w\<close> are the sizes.
\<close>

locale code_maker =
  fixes make :: "nat \<Rightarrow> nat \<Rightarrow> nat \<Rightarrow> cint list option"
    and fits_code :: "nat \<Rightarrow> nat \<Rightarrow> nat \<Rightarrow> bool"
  assumes made: "gf_width w \<Longrightarrow> fits_code k m w \<Longrightarrow>
    \<exists>matrix. make k m w = Some matrix \<and> coding_matrix k m w matrix \<and> mds_matrix k m w matrix"
begin

lemma encode_codeword:
  assumes w: "code_width w s" and sz: "8 dvd s * n" and matrix: "coding_matrix k m w matrix"
    and st: "coder_ok k m (s * n) st" "jerasure_matrix_encode k m w matrix (s * n) st = Inr st'"
  shows "codeword k m w s n matrix (dev k st') \<and> coder_ok k m (s * n) st' \<and> (\<forall>j < k. dev k st' j = dev k st j)"
proof -
  obtain u where u: "jerasure_matrix_encode k m w matrix (s * n) st = Inr u" "coder_ok k m (s * n) u" "\<forall>j < k. dev k u j = dev k st j"
    "\<forall>i < m. \<forall>p < n. rd s (dev k u (k + i)) p = xsum (\<lambda>j. gmul w (matrix ! (i * k + j)) (rd s (dev k st j) p)) {..<k}"
    using matrix_encode_ok [OF w sz refl st(1) matrix] by blast
  have "xsum (\<lambda>j. gmul w (matrix ! (i * k + j)) (rd s (dev k st j) p)) {..<k} = xsum (\<lambda>j. gmul w (matrix ! (i * k + j)) (rd s (dev k u j) p)) {..<k}" for i p
    by (rule xs.cong) (use u(3) in auto)
  then show ?thesis using u st(2) by (auto simp: codeword_def coder_ok_def)
qed

text \<open>
  Encoding keeps the data, and after the loss of any \<open>m\<close> devices, whatever the lost buffers hold,
  decoding returns 0 with every device as it was encoded.
\<close>

lemma round_trip:
  assumes w: "code_width w s" and sz: "8 dvd s * n" and fit: "fits_code k m w" and st: "coder_ok k m (s * n) st"
    and es: "valid_erasures k m es" "card (erased_set es) \<le> m"
    and ones: "\<And>matrix. row_k_ones \<Longrightarrow> make k m w = Some matrix \<Longrightarrow> 0 < m \<and> (\<forall>j < k. matrix ! j = 1)"
  shows "\<exists>matrix st1. make k m w = Some matrix \<and> jerasure_matrix_encode k m w matrix (s * n) st = Inr st1 \<and>
    (\<forall>j < k. dev k st1 j = dev k st j) \<and>
    (\<forall>st2. coder_ok k m (s * n) st2 \<longrightarrow> (\<forall>i < k + m. i \<notin> erased_set es \<longrightarrow> dev k st2 i = dev k st1 i) \<longrightarrow>
      (\<exists>st3. jerasure_matrix_decode k m w matrix row_k_ones (es @ (-1) # rest) (s * n) st2 = Inr (0, st3) \<and>
        coder_ok k m (s * n) st3 \<and> (\<forall>i < k + m. dev k st3 i = dev k st1 i)))"
proof -
  obtain matrix where M: "make k m w = Some matrix" "coding_matrix k m w matrix" "mds_matrix k m w matrix"
    using made [OF code_width_simps(1) [OF w] fit] by blast
  obtain st1 where s1: "jerasure_matrix_encode k m w matrix (s * n) st = Inr st1"
    using matrix_encode_ok [OF w sz refl st M(2)] by blast
  note C = encode_codeword [OF w sz M(2) st s1]
  have inv: "gf_invertible w k (\<lambda>i. gen k matrix (ids ! i))"
    if "length ids = k" "distinct ids" "set ids \<subseteq> {..<k + m} - erased_set es" for ids
    using M(3) that unfolding mds_matrix_def by blast
  have "\<exists>st3. jerasure_matrix_decode k m w matrix row_k_ones (es @ (-1) # rest) (s * n) st2 = Inr (0, st3) \<and>
      coder_ok k m (s * n) st3 \<and> (\<forall>i < k + m. dev k st3 i = dev k st1 i)"
    if st2: "coder_ok k m (s * n) st2" "\<forall>i < k + m. i \<notin> erased_set es \<longrightarrow> dev k st2 i = dev k st1 i" for st2
    by (rule matrix_decode_ok [OF w sz M(2) conjunct1 [OF C] es(1) _ st2(1) _ es(2)]) (use st2(2) inv ones M(1) in auto)
  then show ?thesis using M(1) s1 C by blast
qed

text \<open>
  The same with bits: the matrix is turned into a bit matrix, the bit matrix into a schedule, and the
  schedule encodes packets of \<open>n\<close> bytes; decoding with the bit matrix restores every device.
\<close>

lemma bits_made:
  assumes w: "gf_width w" and fit: "fits_code k m w"
  shows "\<exists>matrix. make k m w = Some matrix \<and> coding_matrix k m w matrix \<and> bit_matrix k m w (jerasure_matrix_to_bitmatrix k m w matrix) \<and>
    (\<forall>ids. length ids = k \<longrightarrow> distinct ids \<longrightarrow> set ids \<subseteq> {..<k + m} \<longrightarrow>
      gf2.invertible (k * w) (bit_system k w (jerasure_matrix_to_bitmatrix k m w matrix) ids))"
proof -
  obtain matrix where M: "make k m w = Some matrix" "coding_matrix k m w matrix" "mds_matrix k m w matrix"
    using made [OF w fit] by blast
  have "gf2.invertible (k * w) (bit_system k w (jerasure_matrix_to_bitmatrix k m w matrix) ids)"
    if ids: "length ids = k" "distinct ids" "set ids \<subseteq> {..<k + m}" for ids
  proof (rule to_bitmatrix_invertible [OF w M(2)])
    show "ids ! i < k + m" if "i < k" for i using subsetD [OF ids(3) nth_mem, of i] ids(1) that by simp
    show "gf_invertible w k (\<lambda>i. gen k matrix (ids ! i))" using M(3) ids unfolding mds_matrix_def by blast
  qed
  then show ?thesis using M(1,2) to_bitmatrix_bit_matrix [OF w M(2)] by blast
qed

lemma bit_round_trip:
  assumes w: "gf_width w" and n: "8 dvd n" "0 < n" and fit: "fits_code k m w" "0 < m" and st: "coder_ok k m (T * (n * w)) st"
    and es: "valid_erasures k m es" "card (erased_set es) \<le> m"
    and ones: "\<And>matrix. row_k_ones \<Longrightarrow> make k m w = Some matrix \<Longrightarrow> \<forall>j < k. matrix ! j = 1"
  shows "\<exists>matrix ops st1. make k m w = Some matrix \<and>
    jerasure_smart_bitmatrix_to_schedule k m w (jerasure_matrix_to_bitmatrix k m w matrix) = Inr ops \<and>
    jerasure_schedule_encode k m w ops (T * (n * w)) n st = Inr st1 \<and> coder_ok k m (T * (n * w)) st1 \<and> (\<forall>j < k. dev k st1 j = dev k st j) \<and>
    (\<forall>st2. coder_ok k m (T * (n * w)) st2 \<longrightarrow> (\<forall>i < k + m. i \<notin> erased_set es \<longrightarrow> dev k st2 i = dev k st1 i) \<longrightarrow>
      (\<exists>st3. jerasure_bitmatrix_decode k m w (jerasure_matrix_to_bitmatrix k m w matrix) row_k_ones (es @ (-1) # rest) (T * (n * w)) n st2 = Inr (0, st3) \<and>
        coder_ok k m (T * (n * w)) st3 \<and> (\<forall>i < k + m. dev k st3 i = dev k st1 i)))"
proof -
  obtain matrix where M: "make k m w = Some matrix" "coding_matrix k m w matrix" and B: "bit_matrix k m w (jerasure_matrix_to_bitmatrix k m w matrix)"
      and inv: "\<forall>ids. length ids = k \<longrightarrow> distinct ids \<longrightarrow> set ids \<subseteq> {..<k + m} \<longrightarrow> gf2.invertible (k * w) (bit_system k w (jerasure_matrix_to_bitmatrix k m w matrix) ids)"
    using bits_made [OF w fit(1)] by blast
  let ?bm = "jerasure_matrix_to_bitmatrix k m w matrix"
  obtain ops st1 where s1: "jerasure_smart_bitmatrix_to_schedule k m w ?bm = Inr ops" "jerasure_schedule_encode k m w ops (T * (n * w)) n st = Inr st1"
      "coder_ok k m (T * (n * w)) st1" "\<forall>j < k. dev k st1 j = dev k st j" "bit_codeword k m w ?bm n T (dev k st1)"
    using bit_encoded [OF B n fit(2) st] by blast
  have par: "0 < m \<and> parity_rows k w ?bm" if row_k_ones
    using to_bitmatrix_parity [OF w M(2) fit(2)] ones [OF that M(1)] fit(2) by simp
  have "\<exists>st3. jerasure_bitmatrix_decode k m w ?bm row_k_ones (es @ (-1) # rest) (T * (n * w)) n st2 = Inr (0, st3) \<and>
      coder_ok k m (T * (n * w)) st3 \<and> (\<forall>i < k + m. dev k st3 i = dev k st1 i)"
    if st2: "coder_ok k m (T * (n * w)) st2" "\<forall>i < k + m. i \<notin> erased_set es \<longrightarrow> dev k st2 i = dev k st1 i" for st2
  proof (rule bitmatrix_decode_ok [OF B n s1(5) es(1) par st2(1) _ es(2)])
    show "dev k st2 i = dev k st1 i" if "i < k + m" "i \<notin> erased_set es" for i using st2(2) that by blast
    show "gf2.invertible (k * w) (bit_system k w ?bm ids)"
      if "length ids = k" "distinct ids" "set ids \<subseteq> {..<k + m} - erased_set es" for ids using inv that by blast
  qed
  then show ?thesis using M(1) s1 by blast
qed

text \<open>
  Decoding with a schedule made for the losses, by either scheduler, restores every device as well; for two coding devices so does
  decoding with the cache of schedules.
\<close>

lemma schedule_round_trip:
  assumes w: "gf_width w" and n: "8 dvd n" "0 < n" and fit: "fits_code k m w" "0 < m" and st: "coder_ok k m (T * (n * w)) st"
    and es: "valid_erasures k m es" "card (erased_set es) \<le> m" "distinct es" "es \<noteq> []"
  shows "\<exists>matrix ops st1. make k m w = Some matrix \<and>
    jerasure_smart_bitmatrix_to_schedule k m w (jerasure_matrix_to_bitmatrix k m w matrix) = Inr ops \<and>
    jerasure_schedule_encode k m w ops (T * (n * w)) n st = Inr st1 \<and> coder_ok k m (T * (n * w)) st1 \<and> (\<forall>j < k. dev k st1 j = dev k st j) \<and>
    (\<forall>smart st2. coder_ok k m (T * (n * w)) st2 \<longrightarrow> (\<forall>i < k + m. i \<notin> erased_set es \<longrightarrow> dev k st2 i = dev k st1 i) \<longrightarrow>
      (\<exists>st3. jerasure_schedule_decode_lazy k m w (jerasure_matrix_to_bitmatrix k m w matrix) (es @ [-1]) (T * (n * w)) n smart st2 = Inr (0, st3) \<and>
        coder_ok k m (T * (n * w)) st3 \<and> (\<forall>i < k + m. dev k st3 i = dev k st1 i) \<and>
        (m = 2 \<longrightarrow> (\<exists>scache. jerasure_generate_schedule_cache k m w (jerasure_matrix_to_bitmatrix k m w matrix) smart = Inr (Some scache) \<and>
          jerasure_schedule_decode_cache k m w scache (es @ [-1]) (T * (n * w)) n st2 = Inr (0, st3)))))"
proof -
  obtain matrix where M: "make k m w = Some matrix" and B: "bit_matrix k m w (jerasure_matrix_to_bitmatrix k m w matrix)"
      and inv: "\<forall>ids. length ids = k \<longrightarrow> distinct ids \<longrightarrow> set ids \<subseteq> {..<k + m} \<longrightarrow> gf2.invertible (k * w) (bit_system k w (jerasure_matrix_to_bitmatrix k m w matrix) ids)"
    using bits_made [OF w fit(1)] by blast
  let ?bm = "jerasure_matrix_to_bitmatrix k m w matrix"
  obtain ops st1 where s1: "jerasure_smart_bitmatrix_to_schedule k m w ?bm = Inr ops" "jerasure_schedule_encode k m w ops (T * (n * w)) n st = Inr st1"
      "coder_ok k m (T * (n * w)) st1" "\<forall>j < k. dev k st1 j = dev k st j" "bit_codeword k m w ?bm n T (dev k st1)"
    using bit_encoded [OF B n fit(2) st] by blast
  have lazy: "\<exists>st3. jerasure_schedule_decode_lazy k m w ?bm (es @ [-1]) (T * (n * w)) n smart st2 = Inr (0, st3) \<and>
      coder_ok k m (T * (n * w)) st3 \<and> (\<forall>i < k + m. dev k st3 i = dev k st1 i)"
    if st2: "coder_ok k m (T * (n * w)) st2" "\<forall>i < k + m. i \<notin> erased_set es \<longrightarrow> dev k st2 i = dev k st1 i" for smart st2
  proof (rule schedule_decode_lazy_ok [OF B n s1(5) es(1,3) es(4) es(2) st2(1)])
    show "dev k st2 i = dev k st1 i" if "i < k + m" "i \<notin> erased_set es" for i using st2(2) that by blast
    show "gf2.invertible (k * w) (bit_system k w ?bm ids)"
      if "length ids = k" "distinct ids" "set ids \<subseteq> {..<k + m} - erased_set es" for ids using inv that by blast
  qed
  have cache: "\<exists>scache. jerasure_generate_schedule_cache k m w ?bm smart = Inr (Some scache) \<and>
      (\<forall>sz st. jerasure_schedule_decode_cache k m w scache (es @ [-1]) sz n st = jerasure_schedule_decode_lazy k m w ?bm (es @ [-1]) sz n smart st)"
    if "m = 2" for smart
    using schedule_cache_equivalent [OF B [unfolded that], of es smart n] inv es that by auto
  have both: "\<exists>st3. jerasure_schedule_decode_lazy k m w ?bm (es @ [-1]) (T * (n * w)) n smart st2 = Inr (0, st3) \<and>
      coder_ok k m (T * (n * w)) st3 \<and> (\<forall>i < k + m. dev k st3 i = dev k st1 i) \<and>
      (m = 2 \<longrightarrow> (\<exists>scache. jerasure_generate_schedule_cache k m w ?bm smart = Inr (Some scache) \<and>
        jerasure_schedule_decode_cache k m w scache (es @ [-1]) (T * (n * w)) n st2 = Inr (0, st3)))"
    if st2: "coder_ok k m (T * (n * w)) st2" "\<forall>i < k + m. i \<notin> erased_set es \<longrightarrow> dev k st2 i = dev k st1 i" for smart st2
  proof -
    obtain st3 where st3: "jerasure_schedule_decode_lazy k m w ?bm (es @ [-1]) (T * (n * w)) n smart st2 = Inr (0, st3)"
        "coder_ok k m (T * (n * w)) st3" "\<forall>i < k + m. dev k st3 i = dev k st1 i" using lazy [OF st2] by blast
    have "m = 2 \<longrightarrow> (\<exists>scache. jerasure_generate_schedule_cache k m w ?bm smart = Inr (Some scache) \<and>
        jerasure_schedule_decode_cache k m w scache (es @ [-1]) (T * (n * w)) n st2 = Inr (0, st3))"
      using cache [of smart] st3(1) by auto
    then show ?thesis using st3 by blast
  qed
  show ?thesis
  proof (rule exI [of _ matrix], rule exI [of _ ops], rule exI [of _ st1], intro conjI)
    show "\<forall>smart st2. coder_ok k m (T * (n * w)) st2 \<longrightarrow> (\<forall>i < k + m. i \<notin> erased_set es \<longrightarrow> dev k st2 i = dev k st1 i) \<longrightarrow>
      (\<exists>st3. jerasure_schedule_decode_lazy k m w ?bm (es @ [-1]) (T * (n * w)) n smart st2 = Inr (0, st3) \<and>
        coder_ok k m (T * (n * w)) st3 \<and> (\<forall>i < k + m. dev k st3 i = dev k st1 i) \<and>
        (m = 2 \<longrightarrow> (\<exists>scache. jerasure_generate_schedule_cache k m w ?bm smart = Inr (Some scache) \<and>
          jerasure_schedule_decode_cache k m w scache (es @ [-1]) (T * (n * w)) n st2 = Inr (0, st3))))"
      by (intro allI impI) (rule both)
  qed (use M s1 in simp_all)
qed

end

text \<open>
  Makers whose first coding row is all ones: then the decoder may rebuild one lost data device from it,
  as \<^verbatim>\<open>row_k_ones\<close> tells it to.
\<close>

locale ones_maker = code_maker +
  assumes ones: "gf_width w \<Longrightarrow> fits_code k m w \<Longrightarrow> make k m w = Some matrix \<Longrightarrow> 0 < m \<and> (\<forall>j < k. matrix ! j = 1)"
begin

lemmas bit_round_trip_ones = bit_round_trip [OF _ _ _ _ _ _ _ _ ones [THEN conjunct2]]

lemmas round_trip_ones = round_trip [OF _ _ _ _ _ _ ones [OF code_width_simps(1)]]

end

text \<open>The four functions that make matrices.\<close>

definition vandermonde_maker :: "nat \<Rightarrow> nat \<Rightarrow> nat \<Rightarrow> cint list option" where
  "vandermonde_maker k m w = (case reed_sol_vandermonde_coding_matrix k m w of Inr r \<Rightarrow> r | Inl e \<Rightarrow> None)"

definition good_maker :: "nat \<Rightarrow> nat \<Rightarrow> nat \<Rightarrow> cint list option" where
  "good_maker k m w = (case cauchy_good_general_coding_matrix k m w cauchy_start of Inr (r, s) \<Rightarrow> r | Inl e \<Rightarrow> None)"

interpretation vdm: ones_maker vandermonde_maker "\<lambda>k m w. 0 < k \<and> 0 < m \<and> k + m \<le> 2 ^ w"
proof
  fix w k m :: nat assume "gf_width w" "0 < k \<and> 0 < m \<and> k + m \<le> 2 ^ w"
  then show "\<exists>matrix. vandermonde_maker k m w = Some matrix \<and> coding_matrix k m w matrix \<and> mds_matrix k m w matrix"
    using vandermonde_coding_ok [of w k m] by (auto simp: vandermonde_maker_def)
next
  fix w k m :: nat and matrix assume "gf_width w" "0 < k \<and> 0 < m \<and> k + m \<le> 2 ^ w" "vandermonde_maker k m w = Some matrix"
  then show "0 < m \<and> (\<forall>j < k. matrix ! j = 1)"
    using vandermonde_coding_ok [of w k m] by (auto simp: vandermonde_maker_def)
qed

interpretation original: code_maker cauchy_original_coding_matrix "\<lambda>k m w. 0 < k \<and> k + m \<le> 2 ^ w"
proof
  fix w k m :: nat assume w: "gf_width w" and km: "0 < k \<and> k + m \<le> 2 ^ w"
  have gw: "galois_width w" using w by (rule galois_width.intro)
  show "\<exists>matrix. cauchy_original_coding_matrix k m w = Some matrix \<and> coding_matrix k m w matrix \<and> mds_matrix k m w matrix"
    using galois_width.original_matrix_mds [OF gw] galois_width.mds_gen_coding [OF gw] km by blast
qed

interpretation good: ones_maker good_maker "\<lambda>k m w. 0 < k \<and> 0 < m \<and> 2 \<le> w \<and> k + m \<le> 2 ^ w \<and> (m = 2 \<longrightarrow> w \<le> 8 \<or> cbest_max_k w < int k)"
proof
  fix w k m :: nat assume w: "gf_width w" and km: "0 < k \<and> 0 < m \<and> 2 \<le> w \<and> k + m \<le> 2 ^ w \<and> (m = 2 \<longrightarrow> w \<le> 8 \<or> cbest_max_k w < int k)"
  have gw: "galois_width w" using w by (rule galois_width.intro)
  show "\<exists>matrix. good_maker k m w = Some matrix \<and> coding_matrix k m w matrix \<and> mds_matrix k m w matrix"
    using good_general_ok [OF w, of m k cauchy_start] cauchy_ok_start galois_width.mds_gen_coding [OF gw] km
    by (fastforce simp: good_maker_def)
next
  fix w k m :: nat and matrix assume w: "gf_width w" and km: "0 < k \<and> 0 < m \<and> 2 \<le> w \<and> k + m \<le> 2 ^ w \<and> (m = 2 \<longrightarrow> w \<le> 8 \<or> cbest_max_k w < int k)"
    and made: "good_maker k m w = Some matrix"
  then show "0 < m \<and> (\<forall>j < k. matrix ! j = 1)"
    using good_general_ok [OF w, of m k cauchy_start] cauchy_ok_start by (fastforce simp: good_maker_def)
qed

interpretation raid6: ones_maker "\<lambda>k m. reed_sol_r6_coding_matrix k" "\<lambda>k m w. 0 < k \<and> m = 2 \<and> k < 2 ^ w \<and> (w = 8 \<or> w = 16 \<or> w = 32)"
proof
  fix w k m :: nat assume w: "gf_width w" and km: "0 < k \<and> m = 2 \<and> k < 2 ^ w \<and> (w = 8 \<or> w = 16 \<or> w = (32 :: nat))"
  have gw: "galois_width w" using w by (rule galois_width.intro)
  show "\<exists>matrix. reed_sol_r6_coding_matrix k w = Some matrix \<and> coding_matrix k m w matrix \<and> mds_matrix k m w matrix"
    using r6_matrix_ok [of w k] galois_width.mds_gen_coding [OF gw] km by blast
next
  fix w k m :: nat and matrix assume "gf_width w" "0 < k \<and> m = 2 \<and> k < 2 ^ w \<and> (w = 8 \<or> w = 16 \<or> w = 32)"
    "reed_sol_r6_coding_matrix k w = Some matrix"
  then show "0 < m \<and> (\<forall>j < k. matrix ! j = 1)" using r6_matrix_entries [of w k] by auto
qed

end
