(* ===== verification/Lrc_Blocks.thy ===== *)
theory Lrc_Blocks
  imports Round_Trip
begin

unbundle bit_operations_syntax

text \<open>
  The blocks of a value in the locally repairable code of \<^verbatim>\<open>libmemcached/storage.cc\<close> and \<^verbatim>\<open>libmemcached/get.cc\<close>:
  the size of a block, the keys of the blocks, the global parity blocks and the local groups with their parity
  blocks.
\<close>

section \<open>Blocks and keys\<close>

text \<open>
  \<^verbatim>\<open>size_t\<close> has 64 bits and \<^verbatim>\<open>uint32_t\<close> and \<^verbatim>\<open>int\<close> have 32: \<^verbatim>\<open>k*size_of_long\<close> wraps at 32 bits, the
  remainder is cut to an \<^verbatim>\<open>int\<close> and extended with its sign when it is subtracted again, and a divisor
  that is zero is undefined.
\<close>

definition determine_block_size_rs :: "64 word \<Rightarrow> 32 word \<Rightarrow> fault + 64 word" where
  "determine_block_size_rs value_length k =
     (let kl = k * 8
      in if kl = 0 then Inl Undefined
         else
           let md = ucast (value_length mod ucast kl) :: 32 word
           in if md = 0 then Inr (value_length div ucast k)
              else
                let temp_value_length = value_length + ucast kl - scast md
                in Inr (temp_value_length div ucast k))"

definition fill_data_ptrs :: "byte list list \<Rightarrow> nat \<Rightarrow> nat \<Rightarrow> byte list \<Rightarrow> fault + byte list list" where
  "fill_data_ptrs blocks sz block_size value =
     run_bind
       (cfor 0 sz (\<lambda>i (blocks, bytes_remained).
          if block_size \<le> bytes_remained then
            run_bind (memcpy (blocks ! i) (drop (i * block_size) value) block_size) (\<lambda>b.
              Inr (blocks[i := b], bytes_remained - block_size))
          else
            run_bind (memcpy (blocks ! i) (drop (i * block_size) value) bytes_remained) (\<lambda>b.
              Inr (blocks[i := b], bytes_remained - bytes_remained)))
          (blocks, length value))
       (\<lambda>(blocks, bytes_remained). Inr blocks)"

text \<open>The two digits after the key; a \<^verbatim>\<open>char\<close> holds the character code modulo 256.\<close>

definition block_key :: "string \<Rightarrow> nat \<Rightarrow> string" where
  "block_key key i =
     (let ten = i div 10;
          one = i - ten * 10
      in key @ [char_of (48 + ten), char_of (48 + one)])"

definition generate_new_keys_rs :: "nat \<Rightarrow> string \<Rightarrow> string list" where
  "generate_new_keys_rs sz key = map (block_key key) [0..<sz]"

section \<open>Parity\<close>

text \<open>
  The library's global state \<open>jer\<close> with the buffers of this call.  A null matrix is read unless there is no
  coding device.
\<close>

definition calculate_parity_ptrs_rs ::
  "byte list list \<Rightarrow> nat \<Rightarrow> byte list list \<Rightarrow> nat \<Rightarrow> nat \<Rightarrow> coder \<Rightarrow> fault + coder" where
  "calculate_parity_ptrs_rs blocks k parities m block_size jer =
     (let st = jer\<lparr>data_ptrs := blocks, coding_ptrs := parities\<rparr>
      in run_bind (reed_sol_vandermonde_coding_matrix k m 8) (\<lambda>matrix.
           case matrix of
             None \<Rightarrow> if m = 0 then Inr st else Inl Undefined
           | Some matrix \<Rightarrow> jerasure_matrix_encode k m 8 matrix block_size st))"

definition decoding_parity_ptrs_lrc ::
  "byte list list \<Rightarrow> nat \<Rightarrow> byte list list \<Rightarrow> nat \<Rightarrow> nat \<Rightarrow> int list \<Rightarrow> coder \<Rightarrow> fault + coder" where
  "decoding_parity_ptrs_lrc blocks k parities m block_size erasures jer =
     run_bind (reed_sol_vandermonde_coding_matrix k m 8) (\<lambda>matrix.
       case matrix of
         None \<Rightarrow> Inl Undefined
       | Some matrix \<Rightarrow>
           run_bind (jerasure_matrix_decode k m 8 matrix True erasures block_size
               (jer\<lparr>data_ptrs := blocks, coding_ptrs := parities\<rparr>)) (\<lambda>(i, st). Inr st))"

section \<open>The blocks of a value\<close>

text \<open>
  The local groups.  Block \<open>index\<close> of the code is a data block or a global parity block; \<open>r\<close> of them, or the
  \<open>remain\<close> left, and their local parity block are laid out side by side.  A group with no members asks for
  a matrix of no columns, whose first entry is then written.
\<close>

definition lrc_member :: "nat \<Rightarrow> byte list list \<Rightarrow> byte list list \<Rightarrow> nat \<Rightarrow> byte list" where
  "lrc_member k blocks globals index = (if index < k then blocks ! index else globals ! (index - k))"

definition lrc_group ::
  "nat \<Rightarrow> nat \<Rightarrow> nat \<Rightarrow> nat \<Rightarrow> byte list list \<Rightarrow> byte list list \<Rightarrow> nat \<Rightarrow>
   byte list list \<times> nat \<times> coder \<Rightarrow> fault + (byte list list \<times> nat \<times> coder)" where
  "lrc_group n k r block_size blocks globals i = (\<lambda>(all_blocks, remain, jer).
     if remain \<ge> r then
       let local_group = map (\<lambda>ii. lrc_member k blocks globals (i * r + ii)) [0..<r];
           all_blocks = fold (\<lambda>ii a. a[i * (r + 1) + ii := local_group ! ii]) [0..<r] all_blocks
       in run_bind (calculate_parity_ptrs_rs local_group r [replicate block_size 0] 1 block_size jer) (\<lambda>jer.
            Inr (all_blocks[i * (r + 1) + r := coding_ptrs jer ! 0], remain - r, jer))
     else if remain = 0 then Inl Undefined
     else
       let local_group = map (\<lambda>ii. lrc_member k blocks globals (i * r + ii)) [0..<remain];
           all_blocks = fold (\<lambda>ii a. a[i * (r + 1) + ii := local_group ! ii]) [0..<remain] all_blocks
       in run_bind (calculate_parity_ptrs_rs local_group remain [replicate block_size 0] 1 block_size jer) (\<lambda>jer.
            Inr (all_blocks[n - 1 := coding_ptrs jer ! 0], remain, jer)))"

text \<open>
  The number of local groups and of global parity blocks; the latter wraps when \<open>n\<close> is too small, and the
  arrays of that size cannot be used.
\<close>

definition local_group_number :: "nat \<Rightarrow> nat \<Rightarrow> nat" where
  "local_group_number n r = (n + r) div (r + 1)"

definition lrc_blocks ::
  "nat \<Rightarrow> nat \<Rightarrow> nat \<Rightarrow> byte list \<Rightarrow> coder \<Rightarrow> fault + (nat \<times> byte list list \<times> byte list list \<times> coder)" where
  "lrc_blocks n k r value jer =
     (if n < local_group_number n r + k then Inl Undefined
      else
        let g = n - local_group_number n r - k
        in run_bind (determine_block_size_rs (of_nat (length value)) (of_nat k)) (\<lambda>bs.
           let block_size = unat bs
           in run_bind (fill_data_ptrs (replicate k (replicate block_size 0)) k block_size value) (\<lambda>blocks.
              run_bind (calculate_parity_ptrs_rs blocks k (replicate g (replicate block_size 0)) g block_size jer) (\<lambda>jer.
              let globals = coding_ptrs jer
              in run_bind
                   (cfor 0 (local_group_number n r) (lrc_group n k r block_size blocks globals)
                     (replicate n (replicate block_size 0), k + g, jer))
                   (\<lambda>(all_blocks, remain, jer). Inr (block_size, blocks, all_blocks, jer))))))"

end
