(* ===== verification/Lrc_Client.thy ===== *)
theory Lrc_Client
  imports Lrc_Blocks
begin

unbundle bit_operations_syntax

text \<open>
  The client: \<^verbatim>\<open>memcached_set\<close>, \<^verbatim>\<open>memcached_get\<close>, \<^verbatim>\<open>memcached_repair\<close> and \<^verbatim>\<open>memcached_delete_by_key_lrc\<close> as they were
  changed for the code, with the reading of the rack file and the placement of the nodes.  Lists stand for C
  arrays; an index outside the array, a pointer that was never set and a division by zero are \<open>Undefined\<close>.
\<close>

section \<open>The servers\<close>

datatype memcached_return_t =
  MEMCACHED_SUCCESS | MEMCACHED_CONNECTION_FAILURE | MEMCACHED_NOTFOUND | MEMCACHED_INVALID_ARGUMENTS | MEMCACHED_NO_SERVERS |
  MEMCACHED_DATA_EXISTS | MEMCACHED_MEMORY_ALLOCATION_FAILURE | MEMCACHED_NOTSTORED | MEMCACHED_E2BIG |
  MEMCACHED_AUTH_CONTINUE | MEMCACHED_AUTH_FAILURE | MEMCACHED_UNKNOWN_READ_FAILURE

text \<open>
  The memcached servers are programs of their own, used through the binary protocol.  A \<open>service\<close> is what a
  client sees of them: whether a connection to a server succeeds, the effect of a SET and of a DELETE, the
  answer to a GET, the status of the last request that changed a server, as \<^verbatim>\<open>memcached_response\<close> reads it,
  and the order in which the answers of several servers arrive.
\<close>

record 'srv service =
  srv_up :: "nat \<Rightarrow> 'srv \<Rightarrow> bool"
  srv_set :: "nat \<Rightarrow> string \<Rightarrow> byte list \<Rightarrow> 'srv \<Rightarrow> 'srv"
  srv_delete :: "nat \<Rightarrow> string \<Rightarrow> 'srv \<Rightarrow> 'srv"
  srv_get :: "nat \<Rightarrow> string \<Rightarrow> 'srv \<Rightarrow> byte list option"
  srv_response :: "nat \<Rightarrow> 'srv \<Rightarrow> memcached_return_t"
  arrival :: "(string \<times> byte list) list \<Rightarrow> (string \<times> byte list) list"

section \<open>The client\<close>

text \<open>
  The fields of \<^verbatim>\<open>struct memcached_st\<close> that the code reads, the state of the coding library and the servers.
  \<open>instances\<close> are the host names and ports of the servers.  A rack is the linked list of its servers, each with
  its number and its mark of use; a node that was allocated and not filled in is \<open>None\<close>, and only the racks that
  were read are there.  \<open>zeroed\<close> tells whether the memory that \<^verbatim>\<open>new\<close> returns is filled with zeros: the code frees
  pointers of new arrays that it has not set.  The client uses the binary protocol over TCP and neither buffers nor
  encrypts.
\<close>

type_synonym rack = "(nat \<times> bool) option list"

record 'srv memcached =
  number_of_replicas :: nat
  number_of_n :: nat
  number_of_k :: nat
  number_of_r :: nat
  number_of_b :: nat
  rack_group :: "rack list"
  network_core_server_key :: nat
  rack_is_add :: bool
  node2rack :: "nat list"
  node_rack :: "nat list"
  is_core :: bool
  fail_node_index :: nat
  encoding_scheme :: nat
  instances :: "(string \<times> int) list"
  replying :: bool
  zeroed :: bool
  jer :: coder
  servers :: 'srv

section \<open>Sending\<close>

text \<open>
  The requests to the replicas stay in the output buffers of their servers until the next flush; here they
  take effect at once.
\<close>

fun replicate_set :: "'srv service \<Rightarrow> nat \<Rightarrow> nat \<Rightarrow> nat \<Rightarrow> string \<Rightarrow> byte list \<Rightarrow> 'srv \<Rightarrow> 'srv" where
  "replicate_set svc count 0 server_key key value s = s"
| "replicate_set svc count (Suc x) server_key key value s =
     (let server_key = server_key + 1;
          server_key = (if server_key = count then 0 else server_key)
      in replicate_set svc count x server_key key value
           (if srv_up svc server_key s then srv_set svc server_key key value s else s))"

definition memcached_send_binary ::
  "'srv service \<Rightarrow> nat \<Rightarrow> string \<Rightarrow> byte list \<Rightarrow> 'srv memcached \<Rightarrow> memcached_return_t \<times> 'srv memcached" where
  "memcached_send_binary svc server_key key value ptr =
     (if \<not> srv_up svc server_key (servers ptr) then (MEMCACHED_CONNECTION_FAILURE, ptr)
      else
        let s = srv_set svc server_key key value (servers ptr);
            s = replicate_set svc (length (instances ptr)) (number_of_replicas ptr) server_key key value s
        in (if replying ptr then srv_response svc server_key s else MEMCACHED_SUCCESS, ptr\<lparr>servers := s\<rparr>))"

text \<open>
  \<^verbatim>\<open>memcached_send\<close> for a SET when the value is not coded: to the network core while \<^verbatim>\<open>is_core\<close> is set, otherwise
  to the server of the node \<^verbatim>\<open>fail_node_index\<close>, which is read from the table in either case.
\<close>

definition memcached_send_plain ::
  "'srv service \<Rightarrow> string \<Rightarrow> byte list \<Rightarrow> 'srv memcached \<Rightarrow> fault + (memcached_return_t \<times> 'srv memcached)" where
  "memcached_send_plain svc key value ptr =
     (if instances ptr = [] then Inr (MEMCACHED_NO_SERVERS, ptr)
      else if length (node2rack ptr) \<le> fail_node_index ptr then Inl Undefined
      else if is_core ptr then
        Inr (memcached_send_binary svc (network_core_server_key ptr) key value ptr)
      else
        Inr (memcached_send_binary svc (node2rack ptr ! fail_node_index ptr) key value ptr))"

text \<open>The block is set at the network core and read back; the read leaves nothing behind.\<close>

definition cross_networkcore_libmemcached ::
  "'srv service \<Rightarrow> string \<Rightarrow> byte list \<Rightarrow> 'srv memcached \<Rightarrow> fault + 'srv memcached" where
  "cross_networkcore_libmemcached svc key value ptr =
     run_bind (memcached_send_plain svc key value (ptr\<lparr>is_core := True\<rparr>)) (\<lambda>(rc, ptr).
       Inr (ptr\<lparr>is_core := False\<rparr>))"

section \<open>The racks\<close>

text \<open>
  The file \<^verbatim>\<open>rack.txt\<close> is the list of its words.  \<^verbatim>\<open>fscanf\<close> with \<^verbatim>\<open>%d\<close> takes a word that is a decimal number and
  leaves any other where it is.
\<close>

fun scan_digits :: "nat \<Rightarrow> string \<Rightarrow> nat option" where
  "scan_digits acc [] = Some acc"
| "scan_digits acc (c # cs) =
     (let d = of_char c :: nat
      in if 48 \<le> d \<and> d \<le> 57 then scan_digits (acc * 10 + (d - 48)) cs else None)"

definition scan_int :: "string list \<Rightarrow> int option \<times> string list" where
  "scan_int words =
     (case words of
        [] \<Rightarrow> (None, [])
      | w # ws \<Rightarrow>
          (case w of
             [] \<Rightarrow> (None, words)
           | c # cs \<Rightarrow>
               (case (if c = CHR ''-'' \<and> cs \<noteq> [] then map_option (\<lambda>n. - int n) (scan_digits 0 cs)
                      else map_option int (scan_digits 0 w)) of
                  None \<Rightarrow> (None, words)
                | Some v \<Rightarrow> (Some v, ws))))"

text \<open>\<^verbatim>\<open>fscanf(fp,"%d",&x)\<close> into an unsigned variable keeps the old value when nothing was converted.\<close>

definition scan_uint :: "nat \<Rightarrow> string list \<Rightarrow> nat \<times> string list" where
  "scan_uint x words = (case scan_int words of (None, ws) \<Rightarrow> (x, ws) | (Some v, ws) \<Rightarrow> (nat (v mod 2 ^ 32), ws))"

fun read_nodes :: "nat \<Rightarrow> nat \<Rightarrow> string list \<Rightarrow> nat list \<times> nat \<times> string list" where
  "read_nodes 0 node_id words = ([], node_id, words)"
| "read_nodes (Suc c) node_id words =
     (let (node_id, words) = scan_uint node_id words;
          (ids, last_id, words) = read_nodes c node_id words
      in (node_id # ids, last_id, words))"

text \<open>The server with the name and the port; a port that was never read is not known.\<close>

fun find_instance :: "string \<Rightarrow> int option \<Rightarrow> nat \<Rightarrow> (string \<times> int) list \<Rightarrow> fault + nat option" where
  "find_instance name host ii [] = Inr None"
| "find_instance name host ii ((h, port) # rest) =
     (if h = name then
        (case host of
           None \<Rightarrow> Inl Undefined
         | Some p \<Rightarrow> if p = port then Inr (Some ii) else find_instance name host (ii + 1) rest)
      else find_instance name host (ii + 1) rest)"

text \<open>
  The node \<^verbatim>\<open>p\<close> at the end of the rack in work is filled in, and the next one is allocated until the count is
  used up; there is no such node before the first rack and after the last server of a rack.
\<close>

definition add_server :: "nat \<Rightarrow> nat \<Rightarrow> rack list \<Rightarrow> fault + rack list" where
  "add_server ii node_count racks =
     (if racks = [] \<or> last racks = [] \<or> last (last racks) \<noteq> None then Inl Undefined
      else Inr (butlast racks @ [butlast (last racks) @ [Some (ii, False)] @ (if node_count = 0 then [] else [None])]))"

text \<open>
  One turn of the loop after the word \<open>data\<close> was read: the nodes after an \<^verbatim>\<open>@\<close>, a new rack after a \<^verbatim>\<open>#\<close>, and a
  server otherwise, also after the nodes.
\<close>

type_synonym rack_state = "nat list \<times> nat \<times> nat \<times> int option \<times> rack list"

definition rack_word ::
  "(string \<times> int) list \<Rightarrow> nat \<Rightarrow> string \<Rightarrow> string list \<Rightarrow> rack_state \<Rightarrow> fault + (string list \<times> rack_state)" where
  "rack_word insts n data words = (\<lambda>(node2rack, node_id, node_count, host, racks).
     if 20 \<le> length data then Inl Undefined
     else
       let (ids, node_id, words) = (if take 1 data = ''@'' then read_nodes n node_id words else ([], node_id, words))
       in if length node2rack < length ids then Inl Undefined
          else
            let node2rack = ids @ drop (length ids) node2rack
            in if take 1 data = ''#'' then
                 let (node_count, words) = scan_uint node_count words
                 in if 20 \<le> length racks then Inl Undefined
                    else Inr (words, (node2rack, node_id, node_count, host, racks @ [[None]]))
               else
                 let (h, words) = scan_int words;
                     host = (case h of None \<Rightarrow> host | Some v \<Rightarrow> Some v)
                 in run_bind (find_instance data host 0 insts) (\<lambda>found.
                      case found of
                        None \<Rightarrow> Inr (words, (node2rack, node_id, node_count, host, racks))
                      | Some ii \<Rightarrow>
                          let node_count = (node_count + 2 ^ 32 - 1) mod 2 ^ 32
                          in run_bind (add_server ii node_count racks) (\<lambda>racks.
                               Inr (words, (node2rack, node_id, node_count, host, racks)))))"

lemma scan_int_length: "length (snd (scan_int words)) \<le> length words"
  by (auto simp: scan_int_def split: list.split option.split)

lemma scan_uint_length: "length (snd (scan_uint x words)) \<le> length words"
  using scan_int_length [of words] by (auto simp: scan_uint_def split: prod.split option.split)

lemma read_nodes_length: "length (snd (snd (read_nodes c x words))) \<le> length words"
proof (induction c arbitrary: x words)
  case (Suc c)
  then show ?case using scan_uint_length [of x words] by (auto simp: Let_def split: prod.split) (metis le_trans snd_conv)
qed simp

lemma rack_word_length:
  assumes "rack_word insts n data words s = Inr (words', s')"
  shows "length words' \<le> length words"
proof -
  obtain nr id c h racks where s: "s = (nr, id, c, h, racks)" by (cases s)
  obtain ids id' w where N: "(if take 1 data = ''@'' then read_nodes n id words else ([], id, words)) = (ids, id', w)" by (metis prod_cases3)
  then have "length w \<le> length words" using read_nodes_length [of n id words] by (auto split: if_splits)
  moreover have "length words' \<le> length w"
    using assms N scan_uint_length [of c w] scan_int_length [of w] unfolding rack_word_def s Let_def
    by (auto split: if_splits prod.splits option.splits simp: run_bind_Inr_conv)
  ultimately show ?thesis by simp
qed

function rack_loop :: "(string \<times> int) list \<Rightarrow> nat \<Rightarrow> string list \<Rightarrow> rack_state \<Rightarrow> fault + rack_state" where
  "rack_loop insts n [] s = Inr s"
| "rack_loop insts n (data # words) s =
     (case rack_word insts n data words s of
        Inl e \<Rightarrow> Inl e
      | Inr (words', s') \<Rightarrow> rack_loop insts n words' s')"
  by pat_completeness auto
termination by (relation "measure (\<lambda>(insts, n, words, s). length words)") (auto dest!: rack_word_length)

text \<open>The number of the network core: the last server with its name and port.\<close>

definition core_server :: "string \<Rightarrow> int \<Rightarrow> (string \<times> int) list \<Rightarrow> nat \<Rightarrow> nat" where
  "core_server ip host insts x = fold (\<lambda>ii x. if insts ! ii = (ip, host) then ii else x) [0..<length insts] x"

definition add_rack :: "string list option \<Rightarrow> 'srv memcached \<Rightarrow> fault + 'srv memcached" where
  "add_rack file ptr =
     (case file of
        None \<Rightarrow> Inl Undefined
      | Some [] \<Rightarrow> Inl Undefined
      | Some (network_core_ip # words) \<Rightarrow>
          if 20 \<le> length network_core_ip then Inl Undefined
          else
            (case scan_int words of
               (None, words) \<Rightarrow> Inl Undefined
             | (Some network_core_host, words) \<Rightarrow>
                 let ptr = ptr\<lparr>network_core_server_key :=
                       core_server network_core_ip network_core_host (instances ptr) (network_core_server_key ptr)\<rparr>
                 in run_bind (rack_loop (instances ptr) (number_of_n ptr) words (node2rack ptr, 0, 0, None, []))
                      (\<lambda>(node2rack', node_id, node_count, host, racks).
                        Inr (ptr\<lparr>node2rack := node2rack', rack_group := racks, rack_is_add := True\<rparr>))))"

text \<open>
  The nodes get their servers: node \<open>i\<close> the first unused server of its rack, and its rack is kept aside.
  When the rack is used up the entry stays what it was.
\<close>

fun take_unused :: "rack \<Rightarrow> fault + (nat \<times> rack) option" where
  "take_unused [] = Inr None"
| "take_unused (None # p) = Inl Undefined"
| "take_unused (Some (sk, use) # p) =
     (if \<not> use then Inr (Some (sk, Some (sk, True) # p))
      else run_bind (take_unused p) (\<lambda>x.
        Inr (case x of None \<Rightarrow> None | Some (s, p') \<Rightarrow> Some (s, Some (sk, use) # p'))))"

definition place_node :: "nat \<Rightarrow> 'srv memcached \<Rightarrow> fault + 'srv memcached" where
  "place_node i ptr =
     (if length (node2rack ptr) \<le> i \<or> length (node_rack ptr) \<le> i then Inl Undefined
      else
        let rack = node2rack ptr ! i
        in if length (rack_group ptr) \<le> rack then Inl Undefined
           else
             let ptr = ptr\<lparr>node_rack := (node_rack ptr)[i := rack]\<rparr>
             in run_bind (take_unused (rack_group ptr ! rack)) (\<lambda>x.
                  case x of
                    None \<Rightarrow> Inr ptr
                  | Some (sk, p) \<Rightarrow>
                      Inr (ptr\<lparr>node2rack := (node2rack ptr)[i := sk], rack_group := (rack_group ptr)[rack := p]\<rparr>)))"

section \<open>Storing\<close>

text \<open>The blocks that cross the network core before they are stored.\<close>

definition core_traffic ::
  "'srv service \<Rightarrow> (nat \<Rightarrow> string) \<Rightarrow> byte list list \<Rightarrow> 'srv memcached \<Rightarrow> fault + 'srv memcached" where
  "core_traffic svc key_ptrs all_blocks ptr =
     (let n = number_of_n ptr; r = number_of_r ptr
      in if encoding_scheme ptr = 1 then
           run_bind
             (cfor 0 n (\<lambda>i (first_rack, cross_rack, ptr).
                let first_rack = (if i mod (r + 1) = 0 then node_rack ptr ! i else first_rack);
                    cross_rack = (cross_rack \<or> first_rack \<noteq> node_rack ptr ! i)
                in if (i + 1) mod (r + 1) \<noteq> 0 \<and> i + 1 \<noteq> n \<or> cross_rack then
                     run_bind (cross_networkcore_libmemcached svc (key_ptrs i) (all_blocks ! i) ptr) (\<lambda>ptr.
                       Inr (first_rack, cross_rack, ptr))
                   else Inr (first_rack, cross_rack, ptr))
               (node_rack ptr ! 0, False, ptr))
             (\<lambda>(first_rack, cross_rack, ptr). Inr ptr)
         else cfor 0 n (\<lambda>i. cross_networkcore_libmemcached svc (key_ptrs i) (all_blocks ! i)) ptr)"

text \<open>The requests to the servers of the nodes; the first that cannot be sent ends the operation.\<close>

fun send_blocks ::
  "'srv service \<Rightarrow> (nat \<times> string \<times> byte list) list \<Rightarrow> 'srv \<Rightarrow> memcached_return_t \<times> 'srv" where
  "send_blocks svc [] s = (MEMCACHED_SUCCESS, s)"
| "send_blocks svc ((storage_key, key, block) # rest) s =
     (if srv_up svc storage_key s then send_blocks svc rest (srv_set svc storage_key key block s)
      else (MEMCACHED_CONNECTION_FAILURE, s))"

text \<open>
  The table of nodes has twenty entries.  \<^verbatim>\<open>value_length - block_size * (k - 1)\<close> wraps when the value does not
  reach into the last data block; the array of that size cannot be had, and the program ends.  The answer that
  is read at the end is that of \<open>server_key\<close>, the server the caller chose.
\<close>

definition memcached_lrc_send_binary ::
  "'srv service \<Rightarrow> string list option \<Rightarrow> nat \<Rightarrow> string \<Rightarrow> byte list \<Rightarrow> 'srv memcached \<Rightarrow>
   fault + (memcached_return_t \<times> 'srv memcached)" where
  "memcached_lrc_send_binary svc file server_key key value ptr =
     (let n = number_of_n ptr; k = number_of_k ptr; r = number_of_r ptr
      in run_bind (lrc_blocks n k r value (jer ptr)) (\<lambda>(block_size, blocks, all_blocks, j).
         let ptr = ptr\<lparr>jer := j\<rparr>
         in run_bind (if rack_is_add ptr then Inr ptr else run_bind (add_rack file ptr) (cfor 0 n place_node)) (\<lambda>ptr.
            let ptr = ptr\<lparr>rack_is_add := True\<rparr>;
                last_data_index = k + (k - 1) div r - 1
            in if length value < block_size * (k - 1) then Inl Exit
               else
                 let last_data_request_size = length value - block_size * (k - 1)
                 in run_bind (memcpy (replicate last_data_request_size 0) (blocks ! (k - 1)) last_data_request_size) (\<lambda>last_data_request.
                    if length (node_rack ptr) < n \<or> length (node2rack ptr) < n then Inl Undefined
                    else
                      run_bind (core_traffic svc (block_key key) all_blocks ptr) (\<lambda>ptr.
                      case send_blocks svc
                        (map (\<lambda>i. (node2rack ptr ! i, block_key key i, if i = last_data_index then last_data_request else all_blocks ! i))
                          [0..<n]) (servers ptr) of
                        (rc, s) \<Rightarrow>
                          let ptr = ptr\<lparr>servers := s\<rparr>
                          in if rc \<noteq> MEMCACHED_SUCCESS then Inr (rc, ptr)
                             else if \<not> replying ptr then Inr (MEMCACHED_SUCCESS, ptr)
                             else Inr (srv_response svc server_key s, ptr))))))"

text \<open>\<^verbatim>\<open>memcached_set\<close>, which is \<^verbatim>\<open>memcached_send\<close> with the verb SET.\<close>

definition memcached_set ::
  "'srv service \<Rightarrow> string list option \<Rightarrow> string \<Rightarrow> byte list \<Rightarrow> 'srv memcached \<Rightarrow>
   fault + (memcached_return_t \<times> 'srv memcached)" where
  "memcached_set svc file key value ptr =
     (if instances ptr = [] then Inr (MEMCACHED_NO_SERVERS, ptr)
      else if length (node2rack ptr) \<le> fail_node_index ptr then Inl Undefined
      else if number_of_n ptr > 0 \<and> number_of_k ptr > 0 \<and> number_of_r ptr > 0 \<and> number_of_b ptr > 0 \<and> \<not> is_core ptr
      then memcached_lrc_send_binary svc file (node2rack ptr ! fail_node_index ptr) key value ptr
      else memcached_send_plain svc key value ptr)"

section \<open>Reading several keys\<close>

text \<open>
  The server of a key: the two characters at its end, each a signed \<^verbatim>\<open>char\<close> less 48, give the node.
  \<open>None\<close> is an index outside the array \<^verbatim>\<open>node2rack\<close>.
\<close>

definition char_value :: "char \<Rightarrow> int" where
  "char_value c = (let x = int (of_char c) in (if x < 128 then x else x - 256) - 48)"

definition key_index :: "string \<Rightarrow> int" where
  "key_index key = char_value (last (butlast key)) * 10 + char_value (last key)"

definition key_server :: "'srv memcached \<Rightarrow> string \<Rightarrow> nat option" where
  "key_server ptr key =
     (if is_core ptr then Some (network_core_server_key ptr)
      else if 0 \<le> key_index key \<and> key_index key < int (length (node2rack ptr)) then Some (node2rack ptr ! nat (key_index key))
      else None)"

text \<open>
  \<^verbatim>\<open>simple_binary_mget\<close>: a server without a pending request is connected to first, and the result of the last
  such attempt is the result of the function; the requests of a server that cannot be reached are left out.
\<close>

fun mget_send ::
  "'srv service \<Rightarrow> 'srv memcached \<Rightarrow> string list \<Rightarrow> memcached_return_t \<times> nat list \<times> (nat \<times> string) list \<Rightarrow>
   fault + (memcached_return_t \<times> nat list \<times> (nat \<times> string) list)" where
  "mget_send svc ptr [] (rc, pending, sent) = Inr (rc, pending, sent)"
| "mget_send svc ptr (key # keys) (rc, pending, sent) =
     (case key_server ptr key of
        None \<Rightarrow> Inl Undefined
      | Some sk \<Rightarrow>
          if sk \<in> set pending then mget_send svc ptr keys (rc, pending, sent @ [(sk, key)])
          else if srv_up svc sk (servers ptr)
          then mget_send svc ptr keys (MEMCACHED_SUCCESS, sk # pending, sent @ [(sk, key)])
          else mget_send svc ptr keys (MEMCACHED_CONNECTION_FAILURE, pending, sent))"

text \<open>The requests are quiet: a key that a server does not have gets no answer.\<close>

definition mget_results :: "'srv service \<Rightarrow> 'srv \<Rightarrow> (nat \<times> string) list \<Rightarrow> (string \<times> byte list) list" where
  "mget_results svc s sent =
     concat (map (\<lambda>(sk, key). case srv_get svc sk key s of None \<Rightarrow> [] | Some v \<Rightarrow> [(key, v)]) sent)"

text \<open>
  \<^verbatim>\<open>memcached_mget\<close> in the binary protocol without replicas.  The answers that are still to come from a server
  are read off first, so that no request is pending at the start.
\<close>

definition memcached_mget ::
  "'srv service \<Rightarrow> 'srv memcached \<Rightarrow> string list \<Rightarrow> fault + (memcached_return_t \<times> (string \<times> byte list) list)" where
  "memcached_mget svc ptr keys =
     (if instances ptr = [] then Inr (MEMCACHED_NO_SERVERS, [])
      else if keys = [] then Inr (MEMCACHED_INVALID_ARGUMENTS, [])
      else
        run_bind (mget_send svc ptr keys (MEMCACHED_SUCCESS, [], [])) (\<lambda>(rc, pending, sent).
          Inr (rc, arrival svc (mget_results svc (servers ptr) sent))))"

text \<open>One key, without a callback for a missing one; the answer that a key is not there is the end of the answers.\<close>

definition memcached_get_by_key ::
  "'srv service \<Rightarrow> string \<Rightarrow> 'srv memcached \<Rightarrow> fault + (byte list option \<times> memcached_return_t)" where
  "memcached_get_by_key svc key ptr =
     run_bind (memcached_mget svc ptr [key]) (\<lambda>(rc, results).
       if rc \<noteq> MEMCACHED_SUCCESS then Inr (None, rc)
       else
         (case results of
            [] \<Rightarrow> Inr (None, MEMCACHED_NOTFOUND)
          | (item_key, v) # rest \<Rightarrow> Inr (Some v, MEMCACHED_SUCCESS)))"

text \<open>\<^verbatim>\<open>for (i = 0; i < k; ++i) if (strcmp(temp_key, key_ptrs[i]) == 0) break;\<close>\<close>

definition find_key :: "string \<Rightarrow> string list \<Rightarrow> nat" where
  "find_key key keys = scan_from (\<lambda>i. keys ! i = key) 0 (length keys)"

text \<open>A new array of \<open>sz\<close> zeros into which \<open>v\<close> is copied.\<close>

definition copy_block :: "nat \<Rightarrow> byte list \<Rightarrow> fault + byte list" where
  "copy_block sz v = memcpy (replicate sz 0) v (length v)"

section \<open>Reading a value\<close>

text \<open>
  The answers to the first request.  The size of a block is taken from block 0 and that of the last data
  request from block \<open>k - 1\<close>; an array of pointers starts uninitialised (\<open>None\<close>).
\<close>

fun get_results ::
  "nat \<Rightarrow> string list \<Rightarrow> (string \<times> byte list) list \<Rightarrow> byte list option list \<times> nat \<times> nat \<Rightarrow>
   fault + (byte list option list \<times> nat \<times> nat)" where
  "get_results k key_ptrs [] (sub_values, block_size, last_size) = Inr (sub_values, block_size, last_size)"
| "get_results k key_ptrs ((item_key, v) # results) (sub_values, block_size, last_size) =
     (let i = find_key item_key key_ptrs
      in if k \<le> i then Inl Undefined
         else
           let block_size = (if i = 0 then length v else block_size);
               last_size = (if i = k - 1 then length v else last_size)
           in run_bind (copy_block block_size v) (\<lambda>b.
                get_results k key_ptrs results (sub_values[i := Some b], block_size, last_size)))"

text \<open>\<^verbatim>\<open>fail_index\<close>: the last data block without an answer, or \<open>n\<close>.\<close>

definition find_failed :: "nat \<Rightarrow> byte list option list \<Rightarrow> nat" where
  "find_failed n sub_values = fold (\<lambda>i f. if sub_values ! i = None then i else f) [0..<length sub_values] n"

text \<open>The use of a pointer that was never set is undefined.\<close>

definition get_ptr :: "'a option \<Rightarrow> fault + 'a" where
  "get_ptr p = (case p of None \<Rightarrow> Inl Undefined | Some v \<Rightarrow> Inr v)"

text \<open>
  The blocks of the local group that were read already; the loop ends at the first block after the last
  data block.  \<open>cross\<close> counts the changes of rack on the way.
\<close>

fun group_ptrs ::
  "nat list \<Rightarrow> nat \<Rightarrow> byte list option list \<Rightarrow> nat \<Rightarrow> nat \<Rightarrow> nat list \<Rightarrow> byte list option list \<times> nat \<times> nat \<Rightarrow>
   byte list option list \<times> nat \<times> nat" where
  "group_ptrs racks last_block_index sub_values base off [] (ptrs, first_rack, cross) = (ptrs, first_rack, cross)"
| "group_ptrs racks last_block_index sub_values base off (bi # bis) (ptrs, first_rack, cross) =
     (let cross = (if first_rack \<noteq> racks ! bi then cross + 1 else cross);
          first_rack = racks ! bi
      in if bi \<le> last_block_index
         then group_ptrs racks last_block_index sub_values base off bis (ptrs[bi - base := sub_values ! (bi - base + off)], first_rack, cross)
         else (ptrs, first_rack, cross))"

text \<open>The answers to the second request; the last key is the parity block, the others members of the group.\<close>

fun parity_results ::
  "nat \<Rightarrow> nat \<Rightarrow> string list \<Rightarrow> nat \<Rightarrow> (string \<times> byte list) list \<Rightarrow> byte list option list \<times> byte list option \<Rightarrow>
   fault + (byte list option list \<times> byte list option)" where
  "parity_results to_fetch repair_number keys block_size [] (ptrs, coding) = Inr (ptrs, coding)"
| "parity_results to_fetch repair_number keys block_size ((item_key, v) # results) (ptrs, coding) =
     (let i = find_key item_key keys
      in if i = to_fetch - 1 then
           if length v < block_size then Inl Undefined
           else parity_results to_fetch repair_number keys block_size results (ptrs, Some v)
         else if repair_number - to_fetch + i < length ptrs then
           run_bind (copy_block block_size v) (\<lambda>b.
             parity_results to_fetch repair_number keys block_size results (ptrs[repair_number - to_fetch + i := Some b], coding))
         else Inl Undefined)"

text \<open>The repair of data block \<open>fail_index\<close>: the new block, and the client after it was stored again.\<close>

definition get_repair ::
  "'srv service \<Rightarrow> string \<Rightarrow> nat \<Rightarrow> nat \<Rightarrow> nat \<Rightarrow> byte list option list \<Rightarrow> 'srv memcached \<Rightarrow>
   fault + (byte list \<times> 'srv memcached)" where
  "get_repair svc key fail_index block_size last_size sub_values ptr =
     (let n = number_of_n ptr; k = number_of_k ptr; r = number_of_r ptr;
          ptr = ptr\<lparr>fail_node_index := fail_index + fail_index div r\<rparr>;
          group_id = fail_index div r;
          last_block_index = k + (k - 1) div r - 1;
          repair_number = (if (group_id + 1) * (r + 1) > n then n - group_id * (r + 1) else r + 1);
          base = group_id * (r + 1);
          sub_values = sub_values[fail_index := Some (replicate block_size 0)];
          (ptrs, first_rack, cross) = group_ptrs (node_rack ptr) last_block_index sub_values base (group_id * r)
            [base..<base + repair_number - 1] (replicate repair_number None, node_rack ptr ! base, 0);
          cross = (if first_rack \<noteq> node_rack ptr ! (base + repair_number - 1) then cross + 1 else cross);
          to_fetch = (if k mod r \<noteq> 0 \<and> fail_index div r = (k - 1) div r then repair_number - (k - group_id * r) else 1);
          keys = map (\<lambda>bi. block_key key (fail_index div r * (r + 1) + r + bi)) [0..<to_fetch]
      in if length (node_rack ptr) < base + repair_number then Inl Undefined
         else run_bind (memcached_mget svc ptr keys) (\<lambda>(rc, results).
         run_bind (if rc \<noteq> MEMCACHED_SUCCESS then Inr (ptrs, None)
                   else parity_results to_fetch repair_number keys block_size results (ptrs, None)) (\<lambda>(ptrs, coding).
         run_bind (cfor 0 cross (\<lambda>bi ptr.
             run_bind (get_ptr coding) (\<lambda>c. cross_networkcore_libmemcached svc (keys ! 0) (take block_size c) ptr)) ptr) (\<lambda>ptr.
           let e = fail_index - r * (fail_index div r);
               ptrs = ptrs[e := Some (replicate block_size 0)]
           in run_bind (get_ptr coding) (\<lambda>c.
              if \<exists>p \<in> set (take (repair_number - 1) ptrs). p = None then Inl Undefined
              else
                run_bind (decoding_parity_ptrs_lrc (map the (take (repair_number - 1) ptrs)) (repair_number - 1) [c] 1 block_size
                    [int e, -1] (jer ptr)) (\<lambda>j.
                let b = data_ptrs j ! e;
                    sz = (if fail_index = k - 1 then last_size else block_size)
                in run_bind (memcached_send_plain svc (block_key key (fail_index + fail_index div r)) (take sz b) 
                     (ptr\<lparr>jer := j, number_of_b := 0\<rparr>)) (\<lambda>(rc, ptr).
                     Inr (b, ptr\<lparr>number_of_b := 1\<rparr>))))))))"

text \<open>
  The whole read.  The caller gives the length of the value.  A first request that fails returns the null
  pointer.  At the end the arrays are freed: the pointer to the parity block is set only when a block was lost, and
  no pointer is set when the first request fails.
\<close>

definition memcached_get_lrc ::
  "'srv service \<Rightarrow> string \<Rightarrow> nat \<Rightarrow> 'srv memcached \<Rightarrow> fault + (byte list option \<times> 'srv memcached)" where
  "memcached_get_lrc svc key value_length ptr =
     (let n = number_of_n ptr; k = number_of_k ptr; r = number_of_r ptr
      in run_bind (determine_block_size_rs (of_nat value_length) (of_nat k)) (\<lambda>bs.
         let last_size = unat (of_nat value_length - bs * of_nat (k - 1));
             key_ptrs = map (\<lambda>i. block_key key (i + i div r)) [0..<k]
         in run_bind (memcached_mget svc ptr key_ptrs) (\<lambda>(rc, results).
            if rc \<noteq> MEMCACHED_SUCCESS then (if zeroed ptr then Inr (None, ptr) else Inl Undefined)
            else
              run_bind (get_results k key_ptrs results (replicate k None, unat bs, last_size)) (\<lambda>(sub_values, block_size, last_size).
              let fail_index = find_failed n sub_values
              in run_bind (cfor 0 k (\<lambda>i ptr.
                     if i \<noteq> fail_index then
                       run_bind (get_ptr (sub_values ! i)) (\<lambda>v.
                         cross_networkcore_libmemcached svc (key_ptrs ! i) (take block_size v) ptr)
                     else Inr ptr) ptr) (\<lambda>ptr.
                 run_bind (if fail_index \<noteq> n then
                     run_bind (get_repair svc key fail_index block_size last_size sub_values ptr) (\<lambda>(b, ptr).
                       Inr (sub_values[fail_index := Some b], ptr))
                   else Inr (sub_values, ptr)) (\<lambda>(sub_values, ptr).
                 run_bind (cfor 0 k (\<lambda>i temp_value.
                     run_bind (get_ptr (sub_values ! i)) (\<lambda>v.
                       at_offset (i * block_size) (\<lambda>dst. memcpy dst v (if i < k - 1 then block_size else last_size)) temp_value))
                   (replicate value_length 0)) (\<lambda>temp_value.
                   if fail_index = n \<and> \<not> zeroed ptr then Inl Undefined else Inr (Some temp_value, ptr))))))))"

definition memcached_get ::
  "'srv service \<Rightarrow> string \<Rightarrow> nat \<Rightarrow> 'srv memcached \<Rightarrow> fault + (byte list option \<times> 'srv memcached)" where
  "memcached_get svc key value_length ptr =
     (if number_of_n ptr > 0 \<and> number_of_k ptr > 0 \<and> number_of_r ptr > 0 \<and> number_of_b ptr > 0 \<and> \<not> is_core ptr
      then memcached_get_lrc svc key value_length ptr
      else run_bind (memcached_get_by_key svc key ptr) (\<lambda>(v, rc). Inr (v, ptr)))"

section \<open>Repairing and deleting a block\<close>

text \<open>The answers for the blocks of a group; the last one is the parity block.\<close>

fun repair_results ::
  "nat \<Rightarrow> nat \<Rightarrow> nat \<Rightarrow> string list \<Rightarrow> (string \<times> byte list) list \<Rightarrow> byte list option list \<times> byte list option \<times> nat \<times> nat \<Rightarrow>
   fault + (byte list option list \<times> byte list option \<times> nat \<times> nat)" where
  "repair_results group_number base last_block keys [] (sub_values, coding, block_size, last_size) =
     Inr (sub_values, coding, block_size, last_size)"
| "repair_results group_number base last_block keys ((item_key, v) # results) (sub_values, coding, block_size, last_size) =
     (let i = find_key item_key keys;
          last_size = (if i + base = last_block then length v else last_size);
          block_size = (if i + base = last_block then block_size else length v)
      in run_bind (copy_block block_size v) (\<lambda>b.
           if i = group_number - 1 then
             repair_results group_number base last_block keys results (sub_values, Some b, block_size, last_size)
           else if i < length sub_values then
             repair_results group_number base last_block keys results (sub_values[i := Some b], coding, block_size, last_size)
           else Inl Undefined))"

definition count_racks :: "nat list \<Rightarrow> nat \<Rightarrow> nat \<Rightarrow> nat" where
  "count_racks racks base len =
     snd (fold (\<lambda>i (first_rack, cross). if first_rack \<noteq> racks ! (i + base) then (racks ! (i + base), cross + 1) else (first_rack, cross))
       [0..<len] (racks ! base, 0))"

text \<open>When the request fails, the loop that frees the blocks reads one entry beyond the end of its array.\<close>

definition memcached_repair_by_index ::
  "'srv service \<Rightarrow> string \<Rightarrow> nat \<Rightarrow> nat \<Rightarrow> bool \<Rightarrow> 'srv memcached \<Rightarrow> fault + 'srv memcached" where
  "memcached_repair_by_index svc key value_length fail_index inner ptr =
     (let n = number_of_n ptr; k = number_of_k ptr; r = number_of_r ptr;
          group_id = fail_index div (r + 1);
          base = group_id * (r + 1);
          group_number = (if (r + 1) * (group_id + 1) > n then n - base else r + 1);
          keys = map (\<lambda>i. block_key key (i + base)) [0..<group_number];
          e = fail_index - base;
          last_block = k + (k - 1) div r - 1
      in if n \<le> base \<or> length (node_rack ptr) < base + group_number then Inl Undefined
         else run_bind (determine_block_size_rs (of_nat value_length) (of_nat k)) (\<lambda>bs.
         let last_size = unat (of_nat value_length - bs * of_nat (k - 1))
         in run_bind (memcached_mget svc ptr keys) (\<lambda>(rc, results).
            if rc \<noteq> MEMCACHED_SUCCESS then Inl Undefined
            else
              run_bind (repair_results group_number base last_block keys results (replicate (group_number - 1) None, None, unat bs, last_size))
                (\<lambda>(sub_values, coding, block_size, last_size).
              let cross = count_racks (node_rack ptr) base group_number;
                  coding = (if e = group_number - 1 then Some (replicate block_size 0) else coding);
                  sub_values = (if e = group_number - 1 then sub_values else sub_values[e := Some (replicate block_size 0)])
              in if group_number \<le> e then Inl Undefined
                 else run_bind (if cross \<noteq> 0 \<and> inner then
                     cfor 0 cross (\<lambda>bi ptr. run_bind (get_ptr coding) (\<lambda>c.
                       cross_networkcore_libmemcached svc (keys ! (group_number - 1)) (take block_size c) ptr)) ptr
                   else Inr ptr) (\<lambda>ptr.
                 run_bind (get_ptr coding) (\<lambda>c.
                 if \<exists>p \<in> set sub_values. p = None then Inl Undefined
                 else
                   run_bind (decoding_parity_ptrs_lrc (map the sub_values) (group_number - 1) [c] 1 block_size [int e, -1] (jer ptr)) (\<lambda>j.
                   let b = (if e = group_number - 1 then coding_ptrs j ! 0
                            else if fail_index = last_block then take last_size (data_ptrs j ! e)
                            else take block_size (data_ptrs j ! e))
                   in run_bind (memcached_send_plain svc (keys ! e) b 
                        (ptr\<lparr>jer := j, fail_node_index := fail_index, number_of_b := 0\<rparr>)) (\<lambda>(rc, ptr).
                        Inr (ptr\<lparr>number_of_b := 1\<rparr>)))))))))"

definition memcached_repair :: "'srv service \<Rightarrow> string \<Rightarrow> nat \<Rightarrow> nat \<Rightarrow> 'srv memcached \<Rightarrow> fault + 'srv memcached" where
  "memcached_repair svc key value_length fail_index ptr = memcached_repair_by_index svc key value_length fail_index True ptr"

text \<open>
  \<^verbatim>\<open>memcached_delete_by_key_lrc\<close> in the binary protocol, without buffering and without a delete trigger: the
  block of one node is removed, and then its copies.
\<close>

fun replicate_delete :: "'srv service \<Rightarrow> nat \<Rightarrow> nat \<Rightarrow> nat \<Rightarrow> string \<Rightarrow> 'srv \<Rightarrow> 'srv" where
  "replicate_delete svc count 0 server_key key s = s"
| "replicate_delete svc count (Suc x) server_key key s =
     (let server_key = server_key + 1;
          server_key = (if server_key = count then 0 else server_key)
      in replicate_delete svc count x server_key key
           (if srv_up svc server_key s then srv_delete svc server_key key s else s))"

definition memcached_delete_by_key_lrc ::
  "'srv service \<Rightarrow> string \<Rightarrow> nat \<Rightarrow> nat \<Rightarrow> 'srv memcached \<Rightarrow> fault + (memcached_return_t \<times> 'srv memcached)" where
  "memcached_delete_by_key_lrc svc key expiration index ptr =
     (if instances ptr = [] then Inr (MEMCACHED_NO_SERVERS, ptr)
      else if expiration \<noteq> 0 then Inr (MEMCACHED_INVALID_ARGUMENTS, ptr)
      else if length (node2rack ptr) \<le> index then Inl Undefined
      else
        let new_key = block_key key index;
            server_key = node2rack ptr ! index;
            up = srv_up svc server_key (servers ptr);
            s = (if up then srv_delete svc server_key new_key (servers ptr) else servers ptr);
            s = replicate_delete svc (length (instances ptr)) (number_of_replicas ptr) server_key new_key s
        in Inr (if \<not> up then MEMCACHED_CONNECTION_FAILURE
                else if \<not> replying ptr then MEMCACHED_SUCCESS else srv_response svc server_key s, ptr\<lparr>servers := s\<rparr>))"

end
