(* ===== verification/Lrc_Blocks_Correct.thy ===== *)
theory Lrc_Blocks_Correct
  imports Lrc_Blocks
begin

unbundle bit_operations_syntax

text \<open>
  The blocks of a value are a coding of it: the size of a block is a multiple of eight that covers the value,
  the data blocks joined are the padded value, the keys of the blocks are distinct, and the members of every
  local group with their parity block add up to zero, so that any one of them can be computed from the rest.
\<close>

section \<open>The size of a block\<close>

lemma unat_ucast_64: "unat (ucast (x :: 32 word) :: 64 word) = unat x"
proof -
  have "unat x < 2 ^ LENGTH(32)" by (rule unsigned_less)
  then have "unat x < 2 ^ 64" by simp
  then show ?thesis by (simp add: unsigned_ucast_eq take_bit_nat_eq_self)
qed

lemma scast_small:
  assumes "unat (x :: 32 word) < 2 ^ 31"
  shows "(scast x :: 64 word) = of_nat (unat x)"
proof -
  have u: "uint x = int (unat x)" by simp
  have "int (unat x) < 2 ^ 31" using assms by (metis of_nat_less_iff of_nat_numeral of_nat_power)
  then have "sint x = int (unat x)" unfolding sint_uint u using signed_take_bit_int_eq_self [of 31 "int (unat x)"] uint_ge_0 [of x] by simp
  moreover have "(scast x :: 64 word) = of_int (sint x)" by (rule scast_eq)
  ultimately show ?thesis by simp
qed

lemma block_size_ok:
  assumes k: "0 < unat k" "unat k < 2 ^ 28" and len: "unat value_length + 8 * unat k < 2 ^ 64"
  shows "\<exists>bs. determine_block_size_rs value_length k = Inr bs \<and> 8 dvd unat bs \<and> unat value_length \<le> unat k * unat bs \<and>
    unat k * unat bs < unat value_length + 8 * unat k"
proof -
  let ?l = "unat value_length" and ?k = "unat k" let ?t = "?l mod (8 * ?k)"
  have "unat k * unat (8 :: 32 word) < 2 ^ 32" using k by simp
  then have kl: "unat (k * 8) = 8 * ?k" by (subst unat_mult_lem [THEN iffD1]) auto
  then have nz: "k * 8 \<noteq> 0" using k by (metis mult_is_0 neq0_conv unat_0 zero_neq_numeral)
  note u64 = unat_ucast_64 [of "k * 8", unfolded kl] unat_ucast_64 [of k]
  have small: "?t < 2 ^ 31"
  proof -
    have "?t < 8 * ?k" using k by simp
    then show ?thesis using k(2) by simp
  qed
  let ?md = "ucast (value_length mod ucast (k * 8)) :: 32 word"
  have "unat (value_length mod ucast (k * 8)) = ?t" by (simp add: unat_mod u64)
  then have umd: "unat ?md = ?t" using small by (simp add: unsigned_ucast_eq take_bit_nat_eq_self)
  show ?thesis
  proof (cases "?t = 0")
    case True
    then obtain c where c: "?l = 8 * ?k * c" by (metis mod_0_imp_dvd dvd_def)
    then have "unat (value_length div ucast k) = 8 * c" using k by (simp add: unat_div u64)
    moreover have "?md = 0" using umd True by (simp add: unat_eq_zero)
    ultimately show ?thesis using c k nz by (simp add: determine_block_size_rs_def Let_def)
  next
    case False
    then have md: "?md \<noteq> 0" using umd by (metis unat_0)
    have sc: "(scast ?md :: 64 word) = of_nat ?t" using scast_small [of ?md] umd small by simp
    let ?c = "?l div (8 * ?k) + 1"
    have l: "?l + 8 * ?k - ?t = 8 * ?k * ?c" using div_mult_mod_eq [of ?l "8 * ?k"] by (simp add: algebra_simps)
    have a: "unat (value_length + ucast (k * 8)) = ?l + 8 * ?k"
      using len u64(1) by (subst unat_add_lem [THEN iffD1]) auto
    have "unat (of_nat ?t :: 64 word) = ?t" using small by (simp add: unsigned_of_nat take_bit_nat_eq_self)
    then have "unat (value_length + ucast (k * 8) - scast ?md) = 8 * ?k * ?c"
      unfolding sc using a l by (subst unat_sub_if') auto
    then have "unat ((value_length + ucast (k * 8) - scast ?md) div ucast k) = 8 * ?c" using k by (simp add: unat_div u64)
    moreover have "?l < 8 * ?k * ?c" "8 * ?k * ?c < ?l + 8 * ?k" 
    proof -
      have "?t < 8 * ?k" "?t \<le> ?l" "0 < ?t" using k False by auto
      then have "?l < ?l + 8 * ?k - ?t" "?l + 8 * ?k - ?t < ?l + 8 * ?k" by linarith+
      then show "?l < 8 * ?k * ?c" "8 * ?k * ?c < ?l + 8 * ?k" unfolding l by auto
    qed
    moreover have "8 * ?k * ?c = ?k * (8 * ?c)" by (simp add: algebra_simps)
    moreover have "determine_block_size_rs value_length k = Inr ((value_length + ucast (k * 8) - scast ?md) div ucast k)"
      using nz md by (simp add: determine_block_size_rs_def Let_def)
    ultimately show ?thesis by (metis dvd_triv_left less_imp_le)
  qed
qed

section \<open>Filling the data blocks\<close>

text \<open>The blocks are consecutive pieces of the value followed by zeros.\<close>

definition padded :: "nat \<Rightarrow> nat \<Rightarrow> byte list \<Rightarrow> byte list" where
  "padded k bs value = value @ replicate (k * bs - length value) 0"

definition piece :: "nat \<Rightarrow> nat \<Rightarrow> byte list \<Rightarrow> nat \<Rightarrow> byte list" where
  "piece k bs value i = take bs (drop (i * bs) (padded k bs value))"

lemma length_piece: "i < k \<Longrightarrow> length value \<le> k * bs \<Longrightarrow> length (piece k bs value i) = bs"
proof -
  assume i: "i < k" and l: "length value \<le> k * bs"
  have "(i + 1) * bs \<le> k * bs" using i by (intro mult_le_mono1) simp
  then show ?thesis using l by (simp add: piece_def padded_def)
qed

lemma fill_step:
  assumes i: "i < k" and l: "length value \<le> k * bs"
  shows "take (min bs (length value - i * bs)) (drop (i * bs) value) @ drop (min bs (length value - i * bs)) (replicate bs 0)
    = piece k bs value i"
proof -
  have b: "(i + 1) * bs \<le> k * bs" using i by (intro mult_le_mono1) simp
  show ?thesis
  proof (cases "(i + 1) * bs \<le> length value")
    case True
    then show ?thesis by (simp add: piece_def padded_def min_def)
  next
    case False
    then show ?thesis using b l by (cases "i * bs \<le> length value") (auto simp: piece_def padded_def min_def drop_replicate)
  qed
qed

lemma fill_data_ptrs_ok:
  assumes l: "length value \<le> k * bs"
  shows "fill_data_ptrs (replicate k (replicate bs 0)) k bs value = Inr (map (piece k bs value) [0..<k])"
proof -
  let ?P = "\<lambda>i (b, rem). b = map (piece k bs value) [0..<i] @ replicate (k - i) (replicate bs 0) \<and> rem = length value - i * bs"
  let ?f = "\<lambda>i (blocks, bytes_remained).
          if bs \<le> bytes_remained then
            run_bind (memcpy (blocks ! i) (drop (i * bs) value) bs) (\<lambda>b.
              Inr (blocks[i := b], bytes_remained - bs))
          else
            run_bind (memcpy (blocks ! i) (drop (i * bs) value) bytes_remained) (\<lambda>b.
              Inr (blocks[i := b], bytes_remained - bytes_remained))"
  have "\<exists>s. cfor 0 k ?f (replicate k (replicate bs 0), length value) = Inr s \<and> ?P k s"
  proof (rule cfor_total [where P = ?P])
    fix i s assume i: "i < k" and P: "?P i s"
    obtain b rem where s: "s = (b, rem)" by (cases s)
    have b: "b = map (piece k bs value) [0..<i] @ replicate (k - i) (replicate bs 0)" "rem = length value - i * bs" using P s by auto
    have n: "b ! i = replicate bs 0" using b i by (simp add: nth_append)
    have u: "b[i := piece k bs value i] = map (piece k bs value) [0..<Suc i] @ replicate (k - Suc i) (replicate bs 0)"
      using b i by (simp add: list_update_append Suc_diff_Suc [symmetric])
    note F = fill_step [OF i l]
    show "\<exists>s'. ?f i s = Inr s' \<and> ?P (Suc i) s'"
    proof (cases "bs \<le> rem")
      case True
      then show ?thesis using s n u F b(2) by (simp add: memcpy_def min_def)
    next
      case False
      then show ?thesis using s n u F b(2) by (simp add: memcpy_def min_def)
    qed
  qed auto
  then show ?thesis by (auto simp: fill_data_ptrs_def)
qed

lemma concat_pieces:
  assumes l: "length value \<le> k * bs"
  shows "concat (map (piece k bs value) [0..<k]) = padded k bs value"
proof -
  have "concat (map (piece k bs value) [0..<i]) = take (i * bs) (padded k bs value)" if "i \<le> k" for i
    using that
  proof (induction i)
    case (Suc i)
    have "take (i * bs + bs) (padded k bs value) = take (i * bs) (padded k bs value) @ take bs (drop (i * bs) (padded k bs value))"
      by (rule take_add)
    then show ?case using Suc by (simp add: piece_def add.commute)
  qed simp
  from this [of k] show ?thesis using l by (simp add: padded_def)
qed

section \<open>Keys\<close>

lemma block_key_digits:
  assumes "i < 100"
  shows "of_char (last (block_key key i)) = 48 + i mod 10" "of_char (last (butlast (block_key key i))) = 48 + i div 10"
proof -
  have m: "i - i div 10 * 10 = i mod 10" by (rule minus_div_mult_eq_mod)
  have "i div 10 < 10" "i mod 10 < 10" using assms by auto
  then show "of_char (last (block_key key i)) = 48 + i mod 10" "of_char (last (butlast (block_key key i))) = 48 + i div 10"
    unfolding block_key_def Let_def m by (simp_all add: butlast_append)
qed

lemma block_key_inj:
  assumes "i < 100" "j < 100" "block_key key i = block_key key j"
  shows "i = j"
proof -
  have "i mod 10 = j mod 10" "i div 10 = j div 10"
    using block_key_digits [of i key] block_key_digits [of j key] assms by (metis add_left_cancel)+
  then show ?thesis by (metis div_mult_mod_eq)
qed

section \<open>Parity blocks\<close>

text \<open>The library between two calls: valid tables, and memory is available.\<close>

definition jer_ok :: "coder \<Rightarrow> bool" where
  "jer_ok jer \<longleftrightarrow> galois_ok (tables jer) \<and> mallocs (tables jer) = []"

lemma coder_ok_jer:
  assumes "jer_ok jer" "length ds = k" "length cs = m" "\<forall>b \<in> set ds \<union> set cs. length b = bs"
  shows "coder_ok k m bs (jer\<lparr>data_ptrs := ds, coding_ptrs := cs\<rparr>)"
  using assms by (auto simp: coder_ok_def jer_ok_def dev_def)

lemma jer_ok_coder: "coder_ok k m bs st \<Longrightarrow> jer_ok st"
  by (simp add: coder_ok_def jer_ok_def)

lemma gf_width_8: "gf_width 8"
  unfolding gf_width_def by auto

lemma code_width_8: "code_width 8 1"
  by (simp add: code_width_def)

lemma nth_dev:
  assumes "coder_ok k m bs st"
  shows "i < k \<Longrightarrow> data_ptrs st ! i = dev k st i" "i < m \<Longrightarrow> coding_ptrs st ! i = dev k st (k + i)"
  using assms by (auto simp: dev_def)

lemma calculate_parity_ok:
  assumes jer: "jer_ok jer" and ds: "length ds = k" "length cs = m" "\<forall>b \<in> set ds \<union> set cs. length b = bs"
    and k: "0 < k" "k + m \<le> 256" and bs: "8 dvd bs"
  shows "\<exists>jer'. calculate_parity_ptrs_rs ds k cs m bs jer = Inr jer' \<and> jer_ok jer' \<and> length (coding_ptrs jer') = m \<and>
    (\<forall>i < m. length (coding_ptrs jer' ! i) = bs)"
proof (cases "m = 0")
  case True
  then have "reed_sol_vandermonde_coding_matrix k m 8 = Inr None"
    by (simp add: reed_sol_vandermonde_coding_matrix_def reed_sol_big_vandermonde_distribution_matrix_def)
  then show ?thesis using jer ds True by (simp add: calculate_parity_ptrs_rs_def jer_ok_def)
next
  case False
  obtain matrix where M: "reed_sol_vandermonde_coding_matrix k m 8 = Inr (Some matrix)" "coding_matrix k m 8 matrix"
    using vandermonde_coding_ok [OF gf_width_8, of k m] k False by auto
  note c = coder_ok_jer [OF jer ds]
  obtain st where st: "jerasure_matrix_encode k m 8 matrix bs (jer\<lparr>data_ptrs := ds, coding_ptrs := cs\<rparr>) = Inr st" "coder_ok k m bs st"
    using matrix_encode_ok [OF code_width_8 bs _ c M(2), of bs] by auto
  then show ?thesis using M(1) jer_ok_coder [OF st(2)] nth_dev(2) [OF st(2)] coder_ok_dev [OF st(2)]
    by (auto simp: calculate_parity_ptrs_rs_def Let_def coder_ok_def)
qed

text \<open>A group whose bytes add up to zero at every position.\<close>

definition parity_group :: "nat \<Rightarrow> nat \<Rightarrow> (nat \<Rightarrow> byte list) \<Rightarrow> bool" where
  "parity_group bs n D \<longleftrightarrow> (\<forall>i < n. length (D i) = bs) \<and> (\<forall>b < bs. xsum (\<lambda>i. D i ! b) {..<n} = 0)"

lemma xor_zero_iff: "a XOR b = 0 \<longleftrightarrow> a = (b :: byte)"
proof
  assume "a XOR b = 0"
  then have "(a XOR b) XOR b = b" by simp
  then show "a = b" by (simp add: xor.assoc)
qed simp

lemma ucast_xor_up: "(ucast (a XOR b :: byte) :: cint) = ucast a XOR ucast b"
  by (rule bit_word_eqI) (auto simp: bitsimps bit_ucast_iff)

lemma ucast_xsum: "(ucast (xsum f A) :: cint) = xsum (\<lambda>i. ucast (f i :: byte)) A"
  by (induction A rule: infinite_finite_induct) (simp_all add: ucast_xor_up)

lemma ucast_byte_inj:
  assumes "(ucast (a :: byte) :: cint) = ucast b"
  shows "a = b"
proof (rule bit_word_eqI)
  fix n assume "n < LENGTH(8)"
  then have "bit (ucast a :: cint) n = bit a n" "bit (ucast b :: cint) n = bit b n" by (simp_all add: bit_ucast_iff)
  then show "bit a n = bit b n" using assms by simp
qed

lemma one_row_matrix:
  assumes "0 < k" "k < 256"
  shows "reed_sol_vandermonde_coding_matrix k 1 8 = Inr (Some (replicate k 1))" "coding_matrix k 1 8 (replicate k 1)"
    "mds_matrix k 1 8 (replicate k 1)"
proof -
  obtain matrix where M: "reed_sol_vandermonde_coding_matrix k 1 8 = Inr (Some matrix)" "coding_matrix k 1 8 matrix"
      "mds_matrix k 1 8 matrix" "\<forall>j < k. matrix ! j = 1"
    using vandermonde_coding_ok [OF gf_width_8, of k 1] assms by auto
  have "length matrix = k" using M(2) by (simp add: coding_matrix_def)
  then have "matrix = replicate k 1" using M(4) by (intro nth_equalityI) auto
  then show "reed_sol_vandermonde_coding_matrix k 1 8 = Inr (Some (replicate k 1))" "coding_matrix k 1 8 (replicate k 1)"
    "mds_matrix k 1 8 (replicate k 1)" using M by auto
qed

lemma one_row_codeword:
  assumes k: "0 < k" "k < 256"
  shows "codeword k 1 8 1 bs (replicate k 1) D \<longleftrightarrow> parity_group bs (k + 1) D"
proof -
  have one: "gmul 8 1 (ucast b) = ucast (b :: byte)" for b
  proof -
    have "gf_elem 8 (ucast b)" unfolding gf_elem_bit bit_ucast_iff using bit_imp_le_length [of b] by auto
    then show ?thesis using gmul_eq [of 8 1 "ucast b"] gf_mul_1_left [of 8 "ucast b"] by simp
  qed
  have "(rd 1 (D k) p = xsum (\<lambda>j. gmul 8 (replicate k 1 ! j) (rd 1 (D j) p)) {..<k}) \<longleftrightarrow> xsum (\<lambda>i. D i ! p) {..<k + 1} = 0" for p
  proof -
    have "xsum (\<lambda>j. gmul 8 (replicate k 1 ! j) (rd 1 (D j) p)) {..<k} = ucast (xsum (\<lambda>i. D i ! p) {..<k})"
      unfolding ucast_xsum by (rule xs.cong) (simp_all add: rd_1 [simplified] one)
    moreover have "xsum (\<lambda>i. D i ! p) {..<k + 1} = D k ! p XOR xsum (\<lambda>i. D i ! p) {..<k}" by (simp add: lessThan_Suc)
    moreover have "D k ! p XOR xsum (\<lambda>i. D i ! p) {..<k} = 0 \<longleftrightarrow> D k ! p = xsum (\<lambda>i. D i ! p) {..<k}"
      by (rule xor_zero_iff)
    ultimately show ?thesis using ucast_byte_inj by (auto simp: rd_1 [simplified])
  qed
  then show ?thesis by (auto simp: codeword_def parity_group_def)
qed

text \<open>The local parity block completes the group, and any one block of a group can be decoded.\<close>

lemma local_parity_ok:
  assumes jer: "jer_ok jer" and ds: "length ds = k" "\<forall>b \<in> set ds. length b = bs" and k: "0 < k" "k < 256" and bs: "8 dvd bs"
  shows "\<exists>jer'. calculate_parity_ptrs_rs ds k [replicate bs 0] 1 bs jer = Inr jer' \<and> jer_ok jer' \<and>
    parity_group bs (k + 1) (\<lambda>i. (ds @ [coding_ptrs jer' ! 0]) ! i)"
proof -
  note M = one_row_matrix [OF k]
  have c: "coder_ok k 1 (1 * bs) (jer\<lparr>data_ptrs := ds, coding_ptrs := [replicate bs 0]\<rparr>)" using coder_ok_jer [OF jer ds(1)] ds(2) by simp
  obtain st where st: "jerasure_matrix_encode k 1 8 (replicate k 1) (1 * bs) (jer\<lparr>data_ptrs := ds, coding_ptrs := [replicate bs 0]\<rparr>) = Inr st"
    using matrix_encode_ok [OF code_width_8 _ refl c M(2)] bs by auto
  have C: "codeword k 1 8 1 bs (replicate k 1) (dev k st) \<and> coder_ok k 1 (1 * bs) st \<and>
      (\<forall>j < k. dev k st j = dev k (jer\<lparr>data_ptrs := ds, coding_ptrs := [replicate bs 0]\<rparr>) j)"
    by (rule vdm.encode_codeword [OF code_width_8 _ M(2) c st]) (use bs in simp)
  have "dev k st i = (ds @ [coding_ptrs st ! 0]) ! i" if "i < k + 1" for i
    using C that ds(1) by (auto simp: dev_def nth_append less_Suc_eq)
  then have "parity_group bs (k + 1) (\<lambda>i. (ds @ [coding_ptrs st ! 0]) ! i)"
    using C one_row_codeword [OF k, of bs "dev k st"] by (auto simp: parity_group_def cong: xs.cong_simp)
  then show ?thesis using st M(1) jer_ok_coder C by (auto simp: calculate_parity_ptrs_rs_def)
qed

lemma decoding_parity_ok:
  assumes jer: "jer_ok jer" and D: "parity_group bs (k + 1) D" and k: "0 < k" "k < 256" and bs: "8 dvd bs"
    and e: "e < k + 1" and ds: "length ds = k" "length c = bs" "\<forall>i < k. length (ds ! i) = bs"
      "\<forall>i < k. i \<noteq> e \<longrightarrow> ds ! i = D i" "k \<noteq> e \<longrightarrow> c = D k"
  shows "\<exists>jer'. decoding_parity_ptrs_lrc ds k [c] 1 bs (int e # -1 # rest) jer = Inr jer' \<and> jer_ok jer' \<and>
    data_ptrs jer' = map D [0..<k] \<and> coding_ptrs jer' = [D k]"
proof -
  note M = one_row_matrix [OF k]
  let ?st = "jer\<lparr>data_ptrs := ds, coding_ptrs := [c]\<rparr>"
  have c: "coder_ok k 1 (1 * bs) ?st" 
  proof -
    have "\<forall>b \<in> set ds \<union> set [c]. length b = bs" using ds(1-3) by (auto simp: in_set_conv_nth)
    then show ?thesis using coder_ok_jer [OF jer ds(1), of "[c]" 1 bs] by simp
  qed
  have cw: "codeword k 1 8 1 bs (replicate k 1) D" using D one_row_codeword [OF k] by blast
  have es: "valid_erasures k 1 [int e]" "erased_set [int e] = {e}" using e by (auto simp: valid_erasures_def erased_set_def)
  have "\<exists>st'. jerasure_matrix_decode k 1 8 (replicate k 1) True ([int e] @ (-1) # rest) (1 * bs) ?st = Inr (0, st') \<and>
      coder_ok k 1 (1 * bs) st' \<and> (\<forall>i < k + 1. dev k st' i = D i)"
    by (rule matrix_decode_ok [OF code_width_8 _ M(2) cw es(1) _ c])
      (use bs ds e M(3) in \<open>auto simp: es(2) dev_def less_Suc_eq mds_matrix_def\<close>)
  then obtain st' where st': "jerasure_matrix_decode k 1 8 (replicate k 1) True (int e # (-1) # rest) bs ?st = Inr (0, st')"
      "coder_ok k 1 bs st'" "\<forall>i < k + 1. dev k st' i = D i" by auto
  have "data_ptrs st' = map D [0..<k]"
    using st'(2,3) nth_dev(1) [OF st'(2)] by (intro nth_equalityI) (auto simp: coder_ok_def)
  moreover have "coding_ptrs st' = [D k]"
    using st'(2,3) nth_dev(2) [OF st'(2), of 0] by (intro nth_equalityI) (auto simp: coder_ok_def)
  ultimately show ?thesis using st'(1) M(1) jer_ok_coder [OF st'(2)] by (simp add: decoding_parity_ptrs_lrc_def)
qed

section \<open>The layout of the groups\<close>

text \<open>The blocks of local group \<open>j\<close> in the layout, its parity block the last of them.\<close>

definition group_size :: "nat \<Rightarrow> nat \<Rightarrow> nat \<Rightarrow> nat" where
  "group_size n r j = min (r + 1) (n - j * (r + 1))"

text \<open>
  The parameters the code is made for: \<open>k\<close> data blocks, at least no negative number of global parities, no
  group of a parity block alone, and a field large enough.
\<close>

definition lrc_params :: "nat \<Rightarrow> nat \<Rightarrow> nat \<Rightarrow> bool" where
  "lrc_params n k r \<longleftrightarrow> 0 < k \<and> 0 < r \<and> r < 256 \<and> local_group_number n r + k \<le> n \<and> n mod (r + 1) \<noteq> 1 \<and> n \<le> 256"

lemma groups_decompose:
  assumes P: "lrc_params n k r" and i: "i < local_group_number n r"
  obtains d t where "local_group_number n r = i + d + 1" "n = i * (r + 1) + d * (r + 1) + t" "2 \<le> t" "t \<le> r + 1"
    "n - local_group_number n r = i * r + d * r + (t - 1)"
proof -
  let ?L = "local_group_number n r"
  have n: "0 < n" "0 < r" using P by (auto simp: lrc_params_def)
  define q where "q = (n - 1) div (r + 1)"
  define t where "t = (n - 1) mod (r + 1) + 1"
  have qt: "n = q * (r + 1) + t" using n div_mult_mod_eq [of "n - 1" "r + 1"] unfolding q_def t_def by simp
  have t: "1 \<le> t" "t \<le> r + 1" by (auto simp: t_def mod_Suc_le_divisor)
  have "n + r = (n - 1) + (r + 1)" using n by simp
  then have L: "?L = q + 1" unfolding local_group_number_def q_def by (metis div_add_self2 add_is_0 one_neq_zero)
  have t2: "2 \<le> t"
  proof (rule ccontr)
    assume "\<not> 2 \<le> t"
    then have "t = 1" using t by simp
    then have "n mod (r + 1) = 1 mod (r + 1)" unfolding qt by (metis mod_mult_self3)
    then have "n mod (r + 1) = 1" using n by simp
    then show False using P by (simp add: lrc_params_def)
  qed
  obtain d where d: "q = i + d" using i L by (metis less_Suc_eq_le Suc_eq_plus1 le_Suc_ex)
  have "n - ?L = i * r + d * r + (t - 1)" using qt L d t2 by (simp add: algebra_simps)
  then show ?thesis using that [of d t] L d qt t t2 by (simp add: algebra_simps)
qed

lemma group_layout:
  assumes P: "lrc_params n k r" and i: "i < local_group_number n r"
  defines "remain \<equiv> n - local_group_number n r - i * r"
  shows "group_size n r i = min r remain + 1" "0 < remain" "i * (r + 1) + group_size n r i \<le> n"
    "remain < r \<Longrightarrow> i * (r + 1) + remain = n - 1" "remain < r \<Longrightarrow> Suc i = local_group_number n r"
proof -
  obtain d t where D: "local_group_number n r = i + d + 1" "n = i * (r + 1) + d * (r + 1) + t" "2 \<le> t" "t \<le> r + 1"
    "n - local_group_number n r = i * r + d * r + (t - 1)" using groups_decompose [OF P i] .
  have rem: "remain = d * r + (t - 1)" using D(5) by (simp add: remain_def)
  have "group_size n r i = min r remain + 1 \<and> 0 < remain \<and> i * (r + 1) + group_size n r i \<le> n \<and>
    (remain < r \<longrightarrow> i * (r + 1) + remain = n - 1 \<and> Suc i = local_group_number n r)"
  proof (cases "d = 0")
    case True
    then show ?thesis using D rem by (auto simp: group_size_def)
  next
    case False
    then obtain d' where d': "d = Suc d'" by (cases d) auto
    then have "r \<le> remain" using rem by simp
    moreover have "r + 1 \<le> n - i * (r + 1)" "i * (r + 1) + (r + 1) \<le> n" using D(2) d' by simp_all
    ultimately show ?thesis using P by (simp add: group_size_def lrc_params_def)
  qed
  then show "group_size n r i = min r remain + 1" "0 < remain" "i * (r + 1) + group_size n r i \<le> n"
    "remain < r \<Longrightarrow> i * (r + 1) + remain = n - 1" "remain < r \<Longrightarrow> Suc i = local_group_number n r" by auto
qed

lemma data_position:
  assumes P: "lrc_params n k r" and d: "d < n - local_group_number n r"
  shows "d div r < local_group_number n r" "d mod r + 1 < group_size n r (d div r)" "d div r * (r + 1) + d mod r = d + d div r"
proof -
  have r: "0 < r" using P by (simp add: lrc_params_def)
  have e: "d div r * r + d mod r = d" by (rule div_mult_mod_eq)
  show g: "d div r < local_group_number n r"
  proof (rule ccontr)
    assume a: "\<not> d div r < local_group_number n r"
    have "0 < local_group_number n r" using P r by (auto simp: lrc_params_def local_group_number_def div_greater_zero_iff)
    then have "local_group_number n r - 1 < local_group_number n r" by simp
    then obtain d' t where D: "local_group_number n r = local_group_number n r - 1 + d' + 1" "t \<le> r + 1"
      "n - local_group_number n r = (local_group_number n r - 1) * r + d' * r + (t - 1)" using groups_decompose [OF P] by metis
    have "d' = 0" using D(1) \<open>0 < local_group_number n r\<close> by linarith
    then have "n - local_group_number n r \<le> (local_group_number n r - 1) * r + r" using D(2,3) by simp
    also have "\<dots> = local_group_number n r * r" using \<open>0 < local_group_number n r\<close> by (metis Suc_pred mult_Suc add.commute Suc_eq_plus1 One_nat_def diff_Suc_1)
    also have "\<dots> \<le> d div r * r" using a by (intro mult_le_mono1) simp
    finally show False using d e by linarith
  qed
  show "d mod r + 1 < group_size n r (d div r)"
  proof -
    have "d mod r < n - local_group_number n r - d div r * r" using d e by linarith
    moreover have "d mod r < r" using r by simp
    ultimately show ?thesis unfolding group_layout(1) [OF P g] by simp
  qed
  show "d div r * (r + 1) + d mod r = d + d div r" using e by (simp add: algebra_simps)
qed

section \<open>Encoding the groups\<close>

lemma fold_put:
  assumes "o' + c \<le> length a" "c \<le> length gl"
  shows "length (fold (\<lambda>ii a. a[o' + ii := gl ! ii]) [0..<c] a) = length a \<and>
    (\<forall>j < length a. fold (\<lambda>ii a. a[o' + ii := gl ! ii]) [0..<c] a ! j = (if o' \<le> j \<and> j < o' + c then gl ! (j - o') else a ! j))"
  using assms
proof (induction c)
  case (Suc c)
  then show ?case by (auto simp: nth_list_update less_Suc_eq)
qed auto

definition group_coded :: "nat \<Rightarrow> nat \<Rightarrow> nat \<Rightarrow> (nat \<Rightarrow> byte list) \<Rightarrow> byte list list \<Rightarrow> nat \<Rightarrow> bool" where
  "group_coded n r bs src all_blocks j \<longleftrightarrow> parity_group bs (group_size n r j) (\<lambda>x. all_blocks ! (j * (r + 1) + x)) \<and>
     (\<forall>x. x + 1 < group_size n r j \<longrightarrow> all_blocks ! (j * (r + 1) + x) = src (j * r + x))"

lemma parity_group_cong: "(\<And>i. i < n \<Longrightarrow> D i = D' i) \<Longrightarrow> parity_group bs n D = parity_group bs n D'"
  by (auto simp: parity_group_def cong: xs.cong_simp)

lemma group_coded_keep:
  assumes "group_coded n r bs src a j" "j < i" "\<And>p. p < i * (r + 1) \<Longrightarrow> a' ! p = a ! p"
  shows "group_coded n r bs src a' j"
proof -
  have "j * (r + 1) + x < i * (r + 1)" if "x < group_size n r j" for x
  proof -
    have "(j + 1) * (r + 1) \<le> i * (r + 1)" using assms(2) by (intro mult_le_mono1) simp
    then show ?thesis using that by (simp add: group_size_def)
  qed
  then have "a' ! (j * (r + 1) + x) = a ! (j * (r + 1) + x)" if "x < group_size n r j" for x using assms(3) that by blast
  then show ?thesis using assms(1) parity_group_cong [of "group_size n r j" "\<lambda>x. a' ! (j * (r + 1) + x)" "\<lambda>x. a ! (j * (r + 1) + x)" bs]
    unfolding group_coded_def by simp
qed

lemma group_put:
  assumes gl: "length gl = c" "\<forall>x < c. gl ! x = src (i * r + x)" and size: "group_size n r i = c + 1" and fit: "i * (r + 1) + c < length a"
    and par: "parity_group bs (c + 1) (\<lambda>x. (gl @ [p]) ! x)"
  defines "a' \<equiv> (fold (\<lambda>ii a. a[i * (r + 1) + ii := gl ! ii]) [0..<c] a)[i * (r + 1) + c := p]"
  shows "length a' = length a" "group_coded n r bs src a' i" "\<And>q. q < i * (r + 1) \<Longrightarrow> a' ! q = a ! q"
proof -
  note F = fold_put [of "i * (r + 1)" c a gl]
  show len: "length a' = length a" using F fit gl(1) by (simp add: a'_def)
  show "a' ! q = a ! q" if "q < i * (r + 1)" for q using F fit gl(1) that by (simp add: a'_def)
  have at: "a' ! (i * (r + 1) + x) = (gl @ [p]) ! x" if "x < c + 1" for x
    using F fit gl(1) that unfolding a'_def by (auto simp: nth_append nth_list_update less_Suc_eq)
  have "parity_group bs (c + 1) (\<lambda>x. a' ! (i * (r + 1) + x))" using par parity_group_cong [of "c + 1" "\<lambda>x. a' ! (i * (r + 1) + x)" "\<lambda>x. (gl @ [p]) ! x" bs, OF at] by blast
  then show "group_coded n r bs src a' i" using at gl size by (auto simp: group_coded_def nth_append)
qed

lemma lrc_group_ok:
  assumes P: "lrc_params n k r" and i: "i < local_group_number n r" and jer: "jer_ok jer" and bs: "8 dvd bs" and len: "length a = n"
    and mem: "\<forall>x < n - local_group_number n r. length (lrc_member k blocks globals x) = bs"
  defines "remain \<equiv> n - local_group_number n r - i * r"
  shows "\<exists>a' jer'. lrc_group n k r bs blocks globals i (a, remain, jer)
      = Inr (a', (if r \<le> remain then remain - r else remain), jer') \<and>
    length a' = n \<and> group_coded n r bs (lrc_member k blocks globals) a' i \<and> (\<forall>q < i * (r + 1). a' ! q = a ! q) \<and> jer_ok jer'"
proof -
  note G = group_layout [OF P i, folded remain_def]
  let ?c = "min r remain"
  let ?gl = "map (\<lambda>ii. lrc_member k blocks globals (i * r + ii)) [0..<?c]"
  have r: "0 < r" "r < 256" using P by (auto simp: lrc_params_def)
  have c: "0 < ?c" "?c < 256" using r G(2) by auto
  have gl: "\<forall>b \<in> set ?gl. length b = bs" using mem by (auto simp: remain_def)
  obtain jer' where J: "calculate_parity_ptrs_rs ?gl ?c [replicate bs 0] 1 bs jer = Inr jer'" "jer_ok jer'"
      "parity_group bs (?c + 1) (\<lambda>x. (?gl @ [coding_ptrs jer' ! 0]) ! x)"
    using local_parity_ok [OF jer _ gl c bs] by auto
  let ?a = "(fold (\<lambda>ii a. a[i * (r + 1) + ii := ?gl ! ii]) [0..<?c] a)[i * (r + 1) + ?c := coding_ptrs jer' ! 0]"
  have fit: "i * (r + 1) + ?c < length a" using G(1,3) len by simp
  note A = group_put [OF _ _ G(1) fit J(3), of "lrc_member k blocks globals"]
  have "lrc_group n k r bs blocks globals i (a, remain, jer) = Inr (?a, (if r \<le> remain then remain - r else remain), jer')"
  proof (cases "r \<le> remain")
    case True
    then have "?c = r" by simp
    then show ?thesis using J(1) True by (simp add: lrc_group_def Let_def)
  next
    case False
    then have c: "?c = remain" "remain < r" by simp_all
    then show ?thesis using J(1) False G(2) G(4) [OF c(2)] by (simp add: lrc_group_def Let_def)
  qed
  then show ?thesis using A len J(2) by auto
qed

lemma lrc_groups_ok:
  assumes P: "lrc_params n k r" and jer: "jer_ok jer" and bs: "8 dvd bs" and len: "length a = n"
    and mem: "\<forall>x < n - local_group_number n r. length (lrc_member k blocks globals x) = bs"
  shows "\<exists>a' rem jer'. cfor 0 (local_group_number n r) (lrc_group n k r bs blocks globals) (a, n - local_group_number n r, jer) = Inr (a', rem, jer') \<and>
    length a' = n \<and> jer_ok jer' \<and> (\<forall>j < local_group_number n r. group_coded n r bs (lrc_member k blocks globals) a' j)"
proof -
  let ?L = "local_group_number n r"
  let ?P = "\<lambda>i (a, rem, jer). length a = n \<and> jer_ok jer \<and> (i < ?L \<longrightarrow> rem = n - ?L - i * r) \<and>
    (\<forall>j < i. group_coded n r bs (lrc_member k blocks globals) a j)"
  have "\<exists>s. cfor 0 ?L (lrc_group n k r bs blocks globals) (a, n - ?L, jer) = Inr s \<and> ?P ?L s"
  proof (rule cfor_total [where P = ?P])
    fix i s assume i: "i < ?L" and I: "?P i s"
    obtain a rem jer where s: "s = (a, rem, jer)" by (cases s)
    have I': "length a = n" "jer_ok jer" "rem = n - ?L - i * r" "\<forall>j < i. group_coded n r bs (lrc_member k blocks globals) a j"
      using I s i by auto
    obtain a' jer' where S: "lrc_group n k r bs blocks globals i s = Inr (a', (if r \<le> rem then rem - r else rem), jer')"
      "length a' = n" "group_coded n r bs (lrc_member k blocks globals) a' i" "\<forall>q < i * (r + 1). a' ! q = a ! q" "jer_ok jer'"
      using lrc_group_ok [OF P i I'(2) bs I'(1) mem] s I'(3) by auto
    have "\<forall>j < Suc i. group_coded n r bs (lrc_member k blocks globals) a' j"
      using S(3,4) I'(4) group_coded_keep [of n r bs "lrc_member k blocks globals" a _ i a'] by (auto simp: less_Suc_eq)
    moreover have "Suc i < ?L \<longrightarrow> (if r \<le> rem then rem - r else rem) = n - ?L - Suc i * r"
      using group_layout(5) [OF P i] I'(3) by auto
    ultimately show "\<exists>s'. lrc_group n k r bs blocks globals i s = Inr s' \<and> ?P (Suc i) s'" using S by auto
  qed (use jer len in auto)
  then show ?thesis by fastforce
qed

section \<open>Encoding a value\<close>

text \<open>
  A coded value: \<open>n\<close> blocks of equal size, a multiple of eight and no larger than needed; data block \<open>d\<close> of
  the padded value at place \<open>d + d div r\<close>; the bytes of every local group add up to zero.
\<close>

definition lrc_coded :: "nat \<Rightarrow> nat \<Rightarrow> nat \<Rightarrow> byte list \<Rightarrow> nat \<Rightarrow> byte list list \<Rightarrow> bool" where
  "lrc_coded n k r value bs all_blocks \<longleftrightarrow> 8 dvd bs \<and> length value \<le> k * bs \<and> k * bs < length value + 8 * k \<and> length all_blocks = n \<and>
     (\<forall>d < k. all_blocks ! (d + d div r) = piece k bs value d) \<and>
     (\<forall>j < local_group_number n r. parity_group bs (group_size n r j) (\<lambda>x. all_blocks ! (j * (r + 1) + x)))"

lemma lrc_blocks_ok:
  assumes P: "lrc_params n k r" and jer: "jer_ok jer" and len: "length value < 2 ^ 63"
  shows "\<exists>bs all_blocks jer'. lrc_blocks n k r value jer = Inr (bs, map (piece k bs value) [0..<k], all_blocks, jer') \<and> jer_ok jer' \<and>
    determine_block_size_rs (of_nat (length value)) (of_nat k) = Inr (of_nat bs) \<and> bs < 2 ^ 64 \<and> lrc_coded n k r value bs all_blocks"
proof -
  let ?L = "local_group_number n r" let ?g = "n - ?L - k"
  have p: "0 < k" "0 < r" "?L + k \<le> n" "n \<le> 256" using P by (auto simp: lrc_params_def)
  have uk: "unat (of_nat k :: 32 word) = k" using p by (simp add: unsigned_of_nat take_bit_nat_eq_self)
  have ul: "unat (of_nat (length value) :: 64 word) = length value" using len by (simp add: unsigned_of_nat take_bit_nat_eq_self)
  obtain w where w: "determine_block_size_rs (of_nat (length value)) (of_nat k) = Inr w" "8 dvd unat w" "length value \<le> k * unat w"
      "k * unat w < length value + 8 * k"
    using block_size_ok [of "of_nat k" "of_nat (length value)"] uk ul len p by auto
  define bs where "bs = unat w"
  let ?blocks = "map (piece k bs value) [0..<k]"
  have pl: "\<forall>b \<in> set ?blocks. length b = bs" using length_piece w(3) by (auto simp: bs_def)
  have "\<exists>jer1. calculate_parity_ptrs_rs ?blocks k (replicate ?g (replicate bs 0)) ?g bs jer = Inr jer1 \<and> jer_ok jer1 \<and>
      length (coding_ptrs jer1) = ?g \<and> (\<forall>i < ?g. length (coding_ptrs jer1 ! i) = bs)"
    by (rule calculate_parity_ok [OF jer]) (use pl p w(2) in \<open>auto simp: bs_def\<close>)
  then obtain jer1 where J: "calculate_parity_ptrs_rs ?blocks k (replicate ?g (replicate bs 0)) ?g bs jer = Inr jer1" "jer_ok jer1"
      "length (coding_ptrs jer1) = ?g" "\<forall>i < ?g. length (coding_ptrs jer1 ! i) = bs" by blast
  have mem: "\<forall>x < n - ?L. length (lrc_member k ?blocks (coding_ptrs jer1) x) = bs"
    using pl J(4) p by (auto simp: lrc_member_def length_piece [OF _ w(3), folded bs_def])
  have "8 dvd bs" using w(2) by (simp add: bs_def)
  then obtain a rem jer' where A: "cfor 0 ?L (lrc_group n k r bs ?blocks (coding_ptrs jer1)) (replicate n (replicate bs 0), n - ?L, jer1) = Inr (a, rem, jer')"
      "length a = n" "jer_ok jer'" "\<forall>j < ?L. group_coded n r bs (lrc_member k ?blocks (coding_ptrs jer1)) a j"
    using lrc_groups_ok [OF P J(2) _ _ mem, of "replicate n (replicate bs 0)"] by auto
  have "a ! (d + d div r) = piece k bs value d" if d: "d < k" for d
  proof -
    have "d < n - ?L" using d p by simp
    note D = data_position [OF P this]
    have "a ! (d div r * (r + 1) + d mod r) = lrc_member k ?blocks (coding_ptrs jer1) (d div r * r + d mod r)"
      using A(4) D(1,2) unfolding group_coded_def by blast
    then show ?thesis using D(3) d by (simp add: lrc_member_def)
  qed
  then have "lrc_coded n k r value bs a" using A(2,4) w(2-4) by (simp add: lrc_coded_def group_coded_def bs_def)
  moreover have "lrc_blocks n k r value jer = Inr (bs, ?blocks, a, jer')"
  proof -
    have "k + ?g = n - ?L" "\<not> n < ?L + k" using p by auto
    then show ?thesis using w(1) J(1) A(1) fill_data_ptrs_ok [OF w(3)] by (simp add: lrc_blocks_def Let_def bs_def [symmetric])
  qed
  moreover have "bs < 2 ^ LENGTH(64)" unfolding bs_def by (rule unsigned_less)
  ultimately show ?thesis using w(1) A(3) by (auto simp: bs_def)
qed

text \<open>The value is the beginning of its data blocks in order.\<close>

lemma coded_value:
  assumes "lrc_coded n k r value bs a"
  shows "take (length value) (concat (map (\<lambda>d. a ! (d + d div r)) [0..<k])) = value"
proof -
  have m: "map (\<lambda>d. a ! (d + d div r)) [0..<k] = map (piece k bs value) [0..<k]" using assms by (simp add: lrc_coded_def)
  have "length value \<le> k * bs" using assms by (simp add: lrc_coded_def)
  then show ?thesis unfolding m by (simp add: concat_pieces padded_def)
qed

end
