(* ===== verification/Lrc_Store.thy ===== *)
theory Lrc_Store
  imports Lrc_Client Lrc_Blocks_Correct "HOL-Library.Multiset"
begin

unbundle bit_operations_syntax

text \<open>
  Storing a value: what the client relies on (the interface \<open>kv_service\<close> of the servers), the states it works
  in, the abstract statement that a value is stored up to a set of lost blocks, and that \<^verbatim>\<open>memcached_set\<close>
  establishes it.
\<close>

section \<open>What the client relies on\<close>

text \<open>
  The documented behaviour of the servers: a GET answers with the value of the last SET of the key at that
  server that was not deleted since; SET and DELETE do not make a server unreachable, a SET succeeds and a
  DELETE tells whether the key was there; every answer arrives once, in some order.
\<close>

definition service_ok :: "'srv service \<Rightarrow> bool" where
  "service_ok svc \<longleftrightarrow>
     (\<forall>a key v s b key'. srv_get svc b key' (srv_set svc a key v s) = (if b = a \<and> key' = key then Some v else srv_get svc b key' s)) \<and>
     (\<forall>a key s b key'. srv_get svc b key' (srv_delete svc a key s) = (if b = a \<and> key' = key then None else srv_get svc b key' s)) \<and>
     (\<forall>a key v s b. srv_up svc b (srv_set svc a key v s) = srv_up svc b s) \<and>
     (\<forall>a key s b. srv_up svc b (srv_delete svc a key s) = srv_up svc b s) \<and>
     (\<forall>a key v s b. srv_response svc b (srv_set svc a key v s) = (if b = a then MEMCACHED_SUCCESS else srv_response svc b s)) \<and>
     (\<forall>a key s b. srv_response svc b (srv_delete svc a key s) =
        (if b = a then if srv_get svc a key s = None then MEMCACHED_NOTFOUND else MEMCACHED_SUCCESS else srv_response svc b s)) \<and>
     (\<forall>xs. mset (arrival svc xs) = mset xs)"

text \<open>
  A client that is set up: sizes, twenty entries in the tables of nodes, servers that can be reached, and a
  network core that is none of them.
\<close>

definition client_ok :: "'srv service \<Rightarrow> 'srv memcached \<Rightarrow> bool" where
  "client_ok svc ptr \<longleftrightarrow> lrc_params (number_of_n ptr) (number_of_k ptr) (number_of_r ptr) \<and> number_of_n ptr \<le> 20 \<and>
     instances ptr \<noteq> [] \<and> length (node2rack ptr) = 20 \<and> length (node_rack ptr) = 20 \<and> fail_node_index ptr < 20 \<and> number_of_replicas ptr = 0 \<and>
     \<not> is_core ptr \<and> jer_ok (jer ptr) \<and>
     (\<forall>i < number_of_n ptr. node2rack ptr ! i \<noteq> network_core_server_key ptr \<and> srv_up svc (node2rack ptr ! i) (servers ptr))"

text \<open>Two clients that differ at most in what the network core holds.\<close>

definition core_only :: "'srv service \<Rightarrow> 'srv memcached \<Rightarrow> 'srv memcached \<Rightarrow> bool" where
  "core_only svc ptr ptr' \<longleftrightarrow> (\<exists>s. ptr' = ptr\<lparr>servers := s\<rparr> \<and> (\<forall>b. srv_up svc b s = srv_up svc b (servers ptr)) \<and>
     (\<forall>b key. b \<noteq> network_core_server_key ptr \<longrightarrow> srv_get svc b key s = srv_get svc b key (servers ptr)))"

locale kv_service =
  fixes svc :: "'srv service"
  assumes service: "service_ok svc"
begin

lemma get_set [simp]: "srv_get svc b key' (srv_set svc a key v s) = (if b = a \<and> key' = key then Some v else srv_get svc b key' s)"
  and get_delete [simp]: "srv_get svc b key' (srv_delete svc a key s) = (if b = a \<and> key' = key then None else srv_get svc b key' s)"
  and up_set [simp]: "srv_up svc b (srv_set svc a key v s) = srv_up svc b s"
  and up_delete [simp]: "srv_up svc b (srv_delete svc a key s) = srv_up svc b s"
  and response_set [simp]: "srv_response svc b (srv_set svc a key v s) = (if b = a then MEMCACHED_SUCCESS else srv_response svc b s)"
  and response_delete [simp]: "srv_response svc b (srv_delete svc a key s) =
    (if b = a then if srv_get svc a key s = None then MEMCACHED_NOTFOUND else MEMCACHED_SUCCESS else srv_response svc b s)"
  and mset_arrival: "mset (arrival svc xs) = mset xs"
  using service unfolding service_ok_def by simp_all

lemma set_arrival [simp]: "set (arrival svc xs) = set xs"
  using mset_arrival [of xs] by (metis set_mset_mset)

lemma core_only_refl [simp]: "core_only svc ptr ptr"
  unfolding core_only_def by (rule exI [of _ "servers ptr"]) simp

lemma core_only_trans: "core_only svc a b \<Longrightarrow> core_only svc b c \<Longrightarrow> core_only svc a c"
proof -
  assume ab: "core_only svc a b" and bc: "core_only svc b c"
  obtain s where s: "b = a\<lparr>servers := s\<rparr>" "\<forall>x. srv_up svc x s = srv_up svc x (servers a)"
    "\<forall>x key. x \<noteq> network_core_server_key a \<longrightarrow> srv_get svc x key s = srv_get svc x key (servers a)" using ab unfolding core_only_def by auto
  obtain t where t: "c = b\<lparr>servers := t\<rparr>" "\<forall>x. srv_up svc x t = srv_up svc x (servers b)"
    "\<forall>x key. x \<noteq> network_core_server_key b \<longrightarrow> srv_get svc x key t = srv_get svc x key (servers b)" using bc unfolding core_only_def by auto
  show ?thesis unfolding core_only_def by (rule exI [of _ t]) (use s t in simp)
qed

lemma core_only_fields:
  assumes "core_only svc ptr ptr'"
  shows "number_of_n ptr' = number_of_n ptr" "number_of_k ptr' = number_of_k ptr" "number_of_r ptr' = number_of_r ptr"
    "number_of_b ptr' = number_of_b ptr" "node2rack ptr' = node2rack ptr" "node_rack ptr' = node_rack ptr" "is_core ptr' = is_core ptr"
    "network_core_server_key ptr' = network_core_server_key ptr" "jer ptr' = jer ptr" "fail_node_index ptr' = fail_node_index ptr"
    "number_of_replicas ptr' = number_of_replicas ptr" "encoding_scheme ptr' = encoding_scheme ptr" "rack_is_add ptr' = rack_is_add ptr"
    "replying ptr' = replying ptr" "zeroed ptr' = zeroed ptr"
  using assms unfolding core_only_def by auto

lemma core_only_get:
  assumes "core_only svc ptr ptr'" "b \<noteq> network_core_server_key ptr"
  shows "srv_get svc b key (servers ptr') = srv_get svc b key (servers ptr)"
  using assms unfolding core_only_def by auto

lemma core_only_client: "core_only svc ptr ptr' \<Longrightarrow> client_ok svc ptr \<Longrightarrow> client_ok svc ptr'"
  unfolding core_only_def client_ok_def by auto

lemma cross_core_ok:
  assumes "client_ok svc ptr"
  shows "\<exists>ptr'. cross_networkcore_libmemcached svc key v ptr = Inr ptr' \<and> core_only svc ptr ptr'"
proof -
  have c: "fail_node_index ptr < length (node2rack ptr)" "number_of_replicas ptr = 0" "\<not> is_core ptr" "instances ptr \<noteq> []"
    using assms by (auto simp: client_ok_def)
  let ?c = "network_core_server_key ptr"
  let ?s = "if srv_up svc ?c (servers ptr) then srv_set svc ?c key v (servers ptr) else servers ptr"
  have "cross_networkcore_libmemcached svc key v ptr = Inr (ptr\<lparr>servers := ?s\<rparr>)"
    using c by (cases ptr) (auto simp: cross_networkcore_libmemcached_def memcached_send_plain_def memcached_send_binary_def Let_def)
  moreover have "core_only svc ptr (ptr\<lparr>servers := ?s\<rparr>)" unfolding core_only_def by (rule exI [of _ ?s]) auto
  ultimately show ?thesis by blast
qed

lemma core_loop_ok:
  assumes ok: "client_ok svc ptr" and f: "\<And>i p. i < b \<Longrightarrow> core_only svc ptr p \<Longrightarrow> \<exists>p'. f i p = Inr p' \<and> core_only svc p p'"
  shows "\<exists>ptr'. cfor 0 b f ptr = Inr ptr' \<and> core_only svc ptr ptr'"
proof (rule cfor_total [where P = "\<lambda>i. core_only svc ptr"])
  fix i p assume "i < b" "core_only svc ptr p"
  then show "\<exists>p'. f i p = Inr p' \<and> core_only svc ptr p'" using f [of i p] core_only_trans by blast
qed auto

section \<open>Several keys\<close>

lemma char_value_digit: "x < 80 \<Longrightarrow> char_value (char_of (48 + x)) = int x"
  by (simp add: char_value_def Let_def)

lemma key_index_block_key: "i < 800 \<Longrightarrow> key_index (block_key key i) = int i"
proof -
  assume i: "i < 800"
  have m: "i - i div 10 * 10 = i mod 10" by (rule minus_div_mult_eq_mod)
  have "i div 10 < 80" "i mod 10 < 80" using i by auto
  then have "key_index (block_key key i) = int (i div 10) * 10 + int (i mod 10)"
    unfolding key_index_def block_key_def Let_def m by (simp add: butlast_append char_value_digit del: of_nat_mod of_nat_div)
  also have "\<dots> = int i" by (metis div_mult_mod_eq of_nat_add of_nat_mult of_nat_numeral)
  finally show ?thesis .
qed

lemma key_server_block_key:
  assumes "client_ok svc ptr" "i < number_of_n ptr"
  shows "key_server ptr (block_key key i) = Some (node2rack ptr ! i)"
  using assms key_index_block_key [of i key] by (auto simp: client_ok_def key_server_def)

lemma mget_send_up:
  assumes "\<forall>key \<in> set keys. \<exists>sk. key_server ptr key = Some sk \<and> srv_up svc sk (servers ptr)"
  shows "\<exists>pending'. mget_send svc ptr keys (MEMCACHED_SUCCESS, pending, sent) =
    Inr (MEMCACHED_SUCCESS, pending', sent @ map (\<lambda>key. (the (key_server ptr key), key)) keys)"
  using assms
proof (induction keys arbitrary: pending sent)
  case (Cons key keys)
  then obtain sk where sk: "key_server ptr key = Some sk" "srv_up svc sk (servers ptr)" by auto
  have IH: "\<exists>p. mget_send svc ptr keys (MEMCACHED_SUCCESS, pending', sent @ [(sk, key)]) =
      Inr (MEMCACHED_SUCCESS, p, (sent @ [(sk, key)]) @ map (\<lambda>key. (the (key_server ptr key), key)) keys)" for pending'
    by (rule Cons.IH) (use Cons.prems in simp)
  show ?case using sk IH [of pending] IH [of "sk # pending"] by (cases "sk \<in> set pending") simp_all
qed simp

lemma mget_ok:
  assumes ok: "client_ok svc ptr" and ids: "\<forall>i \<in> set ids. i < number_of_n ptr" and ne: "ids \<noteq> []"
  shows "\<exists>results. memcached_mget svc ptr (map (block_key key) ids) = Inr (MEMCACHED_SUCCESS, results) \<and>
    set results = {(block_key key i, v) |i v. i \<in> set ids \<and> srv_get svc (node2rack ptr ! i) (block_key key i) (servers ptr) = Some v}"
proof -
  let ?keys = "map (block_key key) ids"
  have "\<forall>x \<in> set ?keys. \<exists>sk. key_server ptr x = Some sk \<and> srv_up svc sk (servers ptr)"
    using key_server_block_key [OF ok] ids ok by (auto simp: client_ok_def)
  then obtain pending where p: "mget_send svc ptr ?keys (MEMCACHED_SUCCESS, [], []) =
      Inr (MEMCACHED_SUCCESS, pending, map (\<lambda>key. (the (key_server ptr key), key)) ?keys)"
    using mget_send_up [of ?keys ptr "[]" "[]"] by auto
  have e: "map (\<lambda>key. (the (key_server ptr key), key)) ?keys = map (\<lambda>i. (node2rack ptr ! i, block_key key i)) ids"
    using key_server_block_key [OF ok] ids by simp
  have "memcached_mget svc ptr ?keys = Inr (MEMCACHED_SUCCESS,
      arrival svc (mget_results svc (servers ptr) (map (\<lambda>i. (node2rack ptr ! i, block_key key i)) ids)))"
    using p ne ok unfolding e by (simp add: memcached_mget_def client_ok_def)
  moreover have "set (mget_results svc (servers ptr) (map (\<lambda>i. (node2rack ptr ! i, block_key key i)) ids)) =
      {(block_key key i, v) |i v. i \<in> set ids \<and> srv_get svc (node2rack ptr ! i) (block_key key i) (servers ptr) = Some v}"
    unfolding mget_results_def by (induction ids) (auto split: option.splits)
  ultimately show ?thesis by simp
qed

end

lemma find_key_nth:
  assumes "distinct keys" "i < length keys"
  shows "find_key (keys ! i) keys = i"
proof -
  let ?j = "find_key (keys ! i) keys"
  have S: "?j \<le> length keys" "?j < length keys \<longrightarrow> keys ! ?j = keys ! i" "\<forall>k < ?j. keys ! k \<noteq> keys ! i"
    using scan_from_spec [of 0 "length keys" "\<lambda>j. keys ! j = keys ! i"] by (auto simp: find_key_def)
  have "?j \<le> i" using S(3) by (metis not_le)
  then show ?thesis using S(2) assms nth_eq_iff_index_eq by fastforce
qed

section \<open>The stored blocks\<close>

text \<open>The last data block is stored without its padding.\<close>

definition stored_block :: "nat \<Rightarrow> nat \<Rightarrow> byte list \<Rightarrow> nat \<Rightarrow> byte list list \<Rightarrow> nat \<Rightarrow> byte list" where
  "stored_block k r value bs all_blocks i =
     (if i = k + (k - 1) div r - 1 then take (length value - bs * (k - 1)) (all_blocks ! i) else all_blocks ! i)"

text \<open>A value that reaches into its last data block.\<close>

definition lrc_value :: "nat \<Rightarrow> nat \<Rightarrow> nat \<Rightarrow> byte list \<Rightarrow> nat \<Rightarrow> byte list list \<Rightarrow> bool" where
  "lrc_value n k r value bs all_blocks \<longleftrightarrow> lrc_params n k r \<and> lrc_coded n k r value bs all_blocks \<and> bs * (k - 1) \<le> length value \<and>
     2 \<le> k \<and> determine_block_size_rs (of_nat (length value)) (of_nat k) = Inr (of_nat bs) \<and> bs < 2 ^ 64 \<and> length value < 2 ^ 63"

lemma block_position:
  assumes P: "lrc_params n k r" and i: "i < n"
  shows "i div (r + 1) < local_group_number n r" "i mod (r + 1) < group_size n r (i div (r + 1))"
    "i div (r + 1) * (r + 1) + i mod (r + 1) = i"
proof -
  have e: "i div (r + 1) * (r + 1) + i mod (r + 1) = i" by (rule div_mult_mod_eq)
  then show "i div (r + 1) * (r + 1) + i mod (r + 1) = i" .
  have "(i + (r + 1)) div (r + 1) \<le> (n + r) div (r + 1)" using i by (intro div_le_mono) simp
  moreover have "(i + (r + 1)) div (r + 1) = i div (r + 1) + 1" by (rule div_add_self2) simp
  ultimately show "i div (r + 1) < local_group_number n r" unfolding local_group_number_def by linarith
  have "i mod (r + 1) < r + 1" by simp
  moreover have "i mod (r + 1) < n - i div (r + 1) * (r + 1)" using e i by linarith
  ultimately show "i mod (r + 1) < group_size n r (i div (r + 1))" by (simp add: group_size_def)
qed

lemma length_block:
  assumes "lrc_params n k r" "lrc_coded n k r value bs a" "i < n"
  shows "length (a ! i) = bs"
  using assms block_position [OF assms(1,3)] unfolding lrc_coded_def parity_group_def by metis

lemma data_index:
  assumes "lrc_params n k r" "d < k"
  shows "d + d div r < n"
proof -
  have d: "d < n - local_group_number n r" using assms by (auto simp: lrc_params_def)
  note D = data_position [OF assms(1) d]
  show ?thesis using D group_layout(3) [OF assms(1) D(1)] by linarith
qed

lemma last_data_index: "0 < (k :: nat) \<Longrightarrow> k + (k - 1) div r - 1 = (k - 1) + (k - 1) div r"
  by (cases k) simp_all

lemma data_index_mono: "d < d' \<Longrightarrow> d + d div r < d' + d' div (r :: nat)"
  using div_le_mono [of d d' r] by linarith

lemma last_piece:
  assumes "bs * (k - 1) \<le> length value" "length value \<le> k * bs" "0 < k"
  shows "piece k bs value (k - 1) = drop ((k - 1) * bs) value @ replicate (k * bs - length value) 0"
proof -
  have "k * bs = (k - 1) * bs + bs" using assms(3) by (cases k) auto
  then show ?thesis using assms by (simp add: piece_def padded_def mult.commute)
qed

lemma stored_padded:
  assumes V: "lrc_value n k r value bs a" and i: "i < n"
  shows "copy_block bs (stored_block k r value bs a i) = Inr (a ! i)"
proof -
  have P: "lrc_params n k r" and C: "lrc_coded n k r value bs a" and l: "bs * (k - 1) \<le> length value" "length value \<le> k * bs" "0 < k"
    using V by (auto simp: lrc_value_def lrc_coded_def)
  have len: "length (a ! i) = bs" by (rule length_block [OF P C i])
  show ?thesis
  proof (cases "i = k + (k - 1) div r - 1")
    case True
    then have "a ! i = piece k bs value (k - 1)" using C l(3) unfolding lrc_coded_def by (metis last_data_index diff_less zero_less_one)
    then have e: "a ! i = drop ((k - 1) * bs) value @ replicate (k * bs - length value) 0" using last_piece [OF l] by simp
    have kb: "k * bs = (k - 1) * bs + bs" using l(3) by (cases k) auto
    have m: "bs * (k - 1) = (k - 1) * bs" by (rule mult.commute)
    have t: "take (length value - bs * (k - 1)) (a ! i) = drop ((k - 1) * bs) value" unfolding e m by (simp del: diff_mult_distrib)
    have q: "bs - (length value - (k - 1) * bs) = k * bs - length value" "length value - (k - 1) * bs \<le> bs"
      using kb l(2) l(1)[unfolded m] by linarith+
    have "stored_block k r value bs a i = drop ((k - 1) * bs) value" using True t by (simp add: stored_block_def)
    then show ?thesis using q unfolding e copy_block_def memcpy_def by (simp del: diff_mult_distrib)
  next
    case False
    then show ?thesis using len by (simp add: copy_block_def memcpy_def stored_block_def)
  qed
qed

lemma length_stored:
  assumes V: "lrc_value n k r value bs a" and i: "i < n"
  shows "length (stored_block k r value bs a i) = (if i = k + (k - 1) div r - 1 then length value - bs * (k - 1) else bs)"
proof -
  have P: "lrc_params n k r" and C: "lrc_coded n k r value bs a" and l: "bs * (k - 1) \<le> length value" "length value \<le> k * bs" "0 < k"
    using V by (auto simp: lrc_value_def lrc_coded_def)
  have kb: "k * bs = (k - 1) * bs + bs" using l(3) by (cases k) auto
  have m: "bs * (k - 1) = (k - 1) * bs" by (rule mult.commute)
  have q: "length value - bs * (k - 1) \<le> bs" unfolding m using kb l(2) by linarith
  show ?thesis using length_block [OF P C i] q unfolding stored_block_def by (cases "i = k + (k - 1) div r - 1") auto
qed

section \<open>Reading the answers\<close>

lemma get_results_ok:
  assumes keys: "distinct keys" "length keys = k" and k: "2 \<le> k"
    and V: "\<And>d. d < k \<Longrightarrow> copy_block bs (V d) = Inr (B d)" "\<And>d. d < k - 1 \<Longrightarrow> length (V d) = bs" "length (V (k - 1)) = ls"
  shows "\<forall>(x, v) \<in> set rs. \<exists>d < k. x = keys ! d \<and> v = V d \<Longrightarrow> length sv = k \<Longrightarrow>
    get_results k keys rs (sv, bs, ls) = Inr (map (\<lambda>d. if keys ! d \<in> fst ` set rs then Some (B d) else sv ! d) [0..<k], bs, ls)"
proof (induction rs arbitrary: sv)
  case Nil
  have "map (\<lambda>d. sv ! d) [0..<k] = sv" using Nil by (metis map_nth)
  then show ?case by simp
next
  case (Cons xv rs)
  obtain x v where xv: "xv = (x, v)" by (cases xv)
  then obtain d where d: "d < k" "x = keys ! d" "v = V d" using Cons.prems(1) by auto
  have f: "find_key x keys = d" using find_key_nth [OF keys(1), of d] keys(2) d by simp
  have b: "(if d = 0 then length v else bs) = bs" "(if d = k - 1 then length v else ls) = ls" using V(2) [of d] V(3) d k by auto
  have "get_results k keys (xv # rs) (sv, bs, ls) = get_results k keys rs (sv[d := Some (B d)], bs, ls)"
    using d(1) V(1) [OF d(1)] unfolding xv get_results.simps Let_def f b d(3) [symmetric] by (simp add: d(3))
  also have "\<dots> = Inr (map (\<lambda>e. if keys ! e \<in> fst ` set rs then Some (B e) else sv[d := Some (B d)] ! e) [0..<k], bs, ls)"
    using Cons by simp
  also have "map (\<lambda>e. if keys ! e \<in> fst ` set rs then Some (B e) else sv[d := Some (B d)] ! e) [0..<k]
      = map (\<lambda>e. if keys ! e \<in> fst ` set (xv # rs) then Some (B e) else sv ! e) [0..<k]"
    using keys d xv Cons.prems(2) by (auto simp: nth_list_update nth_eq_iff_index_eq)
  finally show ?case .
qed

lemma find_failed_none:
  assumes "\<forall>i < length sv. sv ! i \<noteq> None"
  shows "find_failed n sv = n"
  unfolding find_failed_def by (rule fold_upt_inv0 [where P = "\<lambda>i f. f = n"]) (use assms in auto)

lemma find_failed_one:
  assumes "d < length sv" "\<forall>i < length sv. sv ! i = None \<longleftrightarrow> i = d"
  shows "find_failed n sv = d"
proof -
  have "(if d < length sv then find_failed n sv = d else find_failed n sv = n)"
    unfolding find_failed_def by (rule fold_upt_inv0 [where P = "\<lambda>i f. if d < i then f = d else f = n"]) (use assms in auto)
  then show ?thesis using assms(1) by simp
qed

lemma assemble_ok:
  assumes l: "(k - 1) * bs \<le> length value" "length value \<le> k * bs" "0 < k"
    and sv: "\<forall>i < k. sv ! i = Some (piece k bs value i)"
  shows "cfor 0 k (\<lambda>i temp_value. run_bind (get_ptr (sv ! i)) (\<lambda>v.
       at_offset (i * bs) (\<lambda>dst. memcpy dst v (if i < k - 1 then bs else length value - bs * (k - 1))) temp_value))
     (replicate (length value) 0) = Inr value"
proof -
  let ?f = "\<lambda>i temp_value. run_bind (get_ptr (sv ! i)) (\<lambda>v.
       at_offset (i * bs) (\<lambda>dst. memcpy dst v (if i < k - 1 then bs else length value - bs * (k - 1))) temp_value)"
  let ?P = "\<lambda>i t. t = take (i * bs) value @ replicate (length value - i * bs) 0"
  have kb: "k * bs = (k - 1) * bs + bs" using l(3) by (cases k) auto
  have "\<exists>t. cfor 0 k ?f (replicate (length value) 0) = Inr t \<and> ?P k t"
  proof (rule cfor_total [where P = ?P])
    fix i t assume i: "i < k" and P: "?P i t"
    show "\<exists>t'. ?f i t = Inr t' \<and> ?P (Suc i) t'"
    proof (cases "i < k - 1")
      case True
      then have "(i + 1) * bs \<le> (k - 1) * bs" by (intro mult_le_mono1) simp
      then have b: "i * bs + bs \<le> length value" using l(1) by simp
      then have "piece k bs value i = take bs (drop (i * bs) value)" by (simp add: piece_def padded_def)
      moreover have "take (Suc i * bs) value = take (i * bs) value @ take bs (drop (i * bs) value)" by (metis add.commute mult_Suc take_add)
      ultimately show ?thesis using P b True sv i by (auto simp: get_ptr_def at_offset_def memcpy_def)
    next
      case False
      then have ik: "i = k - 1" using i by simp
      have "piece k bs value i = drop (i * bs) value @ replicate (k * bs - length value) 0"
        using last_piece [of bs k "value"] l ik by (simp add: mult.commute)
      moreover have "length value \<le> Suc i * bs" using l(2) ik l(3) by simp
      ultimately show ?thesis using P False sv i l(1) ik by (auto simp: get_ptr_def at_offset_def memcpy_def mult.commute)
    qed
  qed auto
  then show ?thesis using l(2) by auto
qed

section \<open>A stored value\<close>

text \<open>
  The value of \<open>key\<close> is stored: the blocks of a coding of the value are at the servers of their nodes, except
  those of the nodes in \<open>E\<close>, which are lost.
\<close>

definition lrc_holds :: "'srv service \<Rightarrow> string \<Rightarrow> byte list \<Rightarrow> nat \<Rightarrow> byte list list \<Rightarrow> nat set \<Rightarrow> 'srv memcached \<Rightarrow> bool" where
  "lrc_holds svc key value bs all_blocks E ptr \<longleftrightarrow> lrc_value (number_of_n ptr) (number_of_k ptr) (number_of_r ptr) value bs all_blocks \<and>
     (\<forall>i < number_of_n ptr. srv_get svc (node2rack ptr ! i) (block_key key i) (servers ptr) =
        (if i \<in> E then None else Some (stored_block (number_of_k ptr) (number_of_r ptr) value bs all_blocks i)))"

definition lrc_stored :: "'srv service \<Rightarrow> string \<Rightarrow> byte list \<Rightarrow> nat set \<Rightarrow> 'srv memcached \<Rightarrow> bool" where
  "lrc_stored svc key value E ptr \<longleftrightarrow> (\<exists>bs all_blocks. lrc_holds svc key value bs all_blocks E ptr)"

lemma holds_cong:
  assumes "lrc_holds svc key value bs a E ptr" "number_of_n ptr' = number_of_n ptr" "number_of_k ptr' = number_of_k ptr"
    "number_of_r ptr' = number_of_r ptr" "node2rack ptr' = node2rack ptr"
    "\<And>i. i < number_of_n ptr \<Longrightarrow> srv_get svc (node2rack ptr ! i) (block_key key i) (servers ptr') = srv_get svc (node2rack ptr ! i) (block_key key i) (servers ptr)"
  shows "lrc_holds svc key value bs a E ptr'"
  using assms by (simp add: lrc_holds_def)

text \<open>What an operation on \<open>key\<close> leaves alone: the setup of the client, and the blocks of every other key.\<close>

definition only_key :: "'srv service \<Rightarrow> string \<Rightarrow> 'srv memcached \<Rightarrow> 'srv memcached \<Rightarrow> bool" where
  "only_key svc key ptr ptr' \<longleftrightarrow> number_of_n ptr' = number_of_n ptr \<and> number_of_k ptr' = number_of_k ptr \<and> number_of_r ptr' = number_of_r ptr \<and>
     node2rack ptr' = node2rack ptr \<and> node_rack ptr' = node_rack ptr \<and> network_core_server_key ptr' = network_core_server_key ptr \<and>
     rack_is_add ptr' = rack_is_add ptr \<and> replying ptr' = replying ptr \<and> zeroed ptr' = zeroed ptr \<and> instances ptr' = instances ptr \<and> (0 < number_of_b ptr \<longrightarrow> 0 < number_of_b ptr') \<and>
     (fail_node_index ptr < number_of_n ptr \<longrightarrow> fail_node_index ptr' < number_of_n ptr) \<and>
     (\<forall>b key'. b \<noteq> network_core_server_key ptr \<longrightarrow> (\<forall>i < number_of_n ptr. key' \<noteq> block_key key i) \<longrightarrow>
        srv_get svc b key' (servers ptr') = srv_get svc b key' (servers ptr))"

lemma block_key_other: "key \<noteq> key' \<Longrightarrow> block_key key i \<noteq> block_key key' j"
  by (simp add: block_key_def Let_def)

lemma only_key_refl [simp]: "only_key svc key ptr ptr"
  by (simp add: only_key_def)

lemma only_key_trans: "only_key svc key a b \<Longrightarrow> only_key svc key b c \<Longrightarrow> only_key svc key a c"
  unfolding only_key_def by simp

lemma only_key_core: "core_only svc ptr ptr' \<Longrightarrow> only_key svc key ptr ptr'"
  unfolding only_key_def core_only_def by auto

lemma stored_other:
  assumes "only_key svc key ptr ptr'" "client_ok svc ptr" "key' \<noteq> key" "lrc_stored svc key' value E ptr"
  shows "lrc_stored svc key' value E ptr'"
proof -
  obtain bs a where a: "lrc_holds svc key' value bs a E ptr" using assms(4) unfolding lrc_stored_def by blast
  have "lrc_holds svc key' value bs a E ptr'"
    by (rule holds_cong [OF a])
      (use assms(1,2) block_key_other [OF assms(3)] in \<open>simp_all add: only_key_def client_ok_def\<close>)
  then show ?thesis unfolding lrc_stored_def by blast
qed

lemma holds_core:
  assumes "core_only svc ptr ptr'" "client_ok svc ptr" "lrc_holds svc key value bs a E ptr"
  shows "lrc_holds svc key value bs a E ptr'"
  by (rule holds_cong [OF assms(3)]) (use assms(1,2) in \<open>auto simp: core_only_def client_ok_def\<close>)

text \<open>A value of \<open>8 * k * (k - 1)\<close> bytes reaches into its last block.\<close>

lemma reaches_last:
  assumes "8 dvd bs" "k * bs < len + 8 * k" "8 * k * (k - 1) \<le> (len :: nat)" "0 < k"
  shows "bs * (k - 1) \<le> len"
proof (rule ccontr)
  assume a: "\<not> bs * (k - 1) \<le> len"
  obtain q where q: "bs = 8 * q" using assms(1) by (elim dvdE)
  obtain k' where k: "k = Suc k'" using assms(4) gr0_implies_Suc by blast
  have "k * bs = bs + bs * k'" unfolding k by simp
  moreover have "len < bs * k'" using a unfolding k by simp
  ultimately have "bs < 8 * k" using assms(2) by linarith
  then have "q \<le> k'" unfolding q k by simp
  then have "bs * (k - 1) \<le> 8 * k' * k'" unfolding q k by simp
  also have "\<dots> \<le> 8 * k * (k - 1)" unfolding k by simp
  finally show False using a assms(3) by linarith
qed

section \<open>Storing\<close>

context kv_service
begin

lemma core_traffic_ok:
  assumes ok: "client_ok svc ptr"
  shows "\<exists>ptr'. core_traffic svc keys blocks ptr = Inr ptr' \<and> core_only svc ptr ptr'"
proof (cases "encoding_scheme ptr = 1")
  case False
  have "\<exists>ptr'. cfor 0 (number_of_n ptr) (\<lambda>i. cross_networkcore_libmemcached svc (keys i) (blocks ! i)) ptr = Inr ptr' \<and> core_only svc ptr ptr'"
    by (rule core_loop_ok [OF ok]) (blast intro: cross_core_ok core_only_client ok)
  then show ?thesis using False by (simp add: core_traffic_def Let_def)
next
  case True
  let ?f = "\<lambda>i (first_rack, cross_rack, p).
                let first_rack = (if i mod (number_of_r ptr + 1) = 0 then node_rack p ! i else first_rack);
                    cross_rack = (cross_rack \<or> first_rack \<noteq> node_rack p ! i)
                in if (i + 1) mod (number_of_r ptr + 1) \<noteq> 0 \<and> i + 1 \<noteq> number_of_n ptr \<or> cross_rack then
                     run_bind (cross_networkcore_libmemcached svc (keys i) (blocks ! i) p) (\<lambda>ptr.
                       Inr (first_rack, cross_rack, ptr))
                   else Inr (first_rack, cross_rack, p)"
  let ?P = "\<lambda>i (x :: nat \<times> bool \<times> 'srv memcached). core_only svc ptr (snd (snd x))"
  have "\<exists>x. cfor 0 (number_of_n ptr) ?f (node_rack ptr ! 0, False, ptr) = Inr x \<and> ?P (number_of_n ptr) x"
  proof (rule cfor_total [where P = ?P])
    fix i x assume x: "?P i x"
    obtain f c p where p: "x = (f, c, p)" by (cases x)
    have "client_ok svc p" using x p ok core_only_client by auto
    then obtain p' where p': "cross_networkcore_libmemcached svc (keys i) (blocks ! i) p = Inr p'" "core_only svc p p'" using cross_core_ok by blast
    have "core_only svc ptr p'" using p'(2) x p core_only_trans by auto
    then show "\<exists>x'. ?f i x = Inr x' \<and> ?P (Suc i) x'" using p'(1) x p by (auto simp: Let_def)
  qed simp_all
  then show ?thesis using True unfolding core_traffic_def Let_def by (auto simp: case_prod_beta)
qed

lemma send_blocks_ok:
  assumes "\<forall>(a, key, v) \<in> set reqs. srv_up svc a s" "distinct (map (fst \<circ> snd) reqs)"
  shows "\<exists>s'. send_blocks svc reqs s = (MEMCACHED_SUCCESS, s') \<and> (\<forall>b. srv_up svc b s' = srv_up svc b s) \<and>
    (\<forall>(a, key, v) \<in> set reqs. srv_get svc a key s' = Some v) \<and>
    (\<forall>b. srv_response svc b s' = (if b \<in> fst ` set reqs then MEMCACHED_SUCCESS else srv_response svc b s)) \<and>
    (\<forall>b key. key \<notin> (fst \<circ> snd) ` set reqs \<longrightarrow> srv_get svc b key s' = srv_get svc b key s)"
  using assms
proof (induction reqs arbitrary: s)
  case (Cons q reqs)
  obtain a key v where q: "q = (a, key, v)" by (cases q)
  let ?s = "srv_set svc a key v s"
  have up: "srv_up svc a s" using Cons.prems(1) q by auto
  obtain s' where s': "send_blocks svc reqs ?s = (MEMCACHED_SUCCESS, s')" "\<forall>b. srv_up svc b s' = srv_up svc b ?s"
    "\<forall>(a, key, v) \<in> set reqs. srv_get svc a key s' = Some v"
    "\<forall>b key. key \<notin> (fst \<circ> snd) ` set reqs \<longrightarrow> srv_get svc b key s' = srv_get svc b key ?s"
    "\<forall>b. srv_response svc b s' = (if b \<in> fst ` set reqs then MEMCACHED_SUCCESS else srv_response svc b ?s)"
    using Cons.IH [of ?s] Cons.prems by auto
  have k: "key \<notin> (fst \<circ> snd) ` set reqs" using Cons.prems(2) q by auto
  have g: "srv_get svc a key s' = Some v" using s'(4) k by simp
  have "send_blocks svc (q # reqs) s = (MEMCACHED_SUCCESS, s')" using up s'(1) q by simp
  moreover have "\<forall>(a, key, v) \<in> set (q # reqs). srv_get svc a key s' = Some v" using g s'(3) q by auto
  moreover have "\<forall>b key. key \<notin> (fst \<circ> snd) ` set (q # reqs) \<longrightarrow> srv_get svc b key s' = srv_get svc b key s" using s'(4) q by auto
  moreover have "\<forall>b. srv_response svc b s' = (if b \<in> fst ` set (q # reqs) then MEMCACHED_SUCCESS else srv_response svc b s)"
    using s'(5) q by simp
  ultimately show ?case using s'(2) by auto
qed simp

end

lemma block_key_distinct: "n \<le> 100 \<Longrightarrow> distinct (map (block_key key) [0..<n])"
  using block_key_inj [of _ _ key] by (fastforce simp: distinct_map inj_on_def)

lemma last_request:
  assumes V: "lrc_value n k r value bs a"
  shows "memcpy (replicate (length value - bs * (k - 1)) 0) (map (piece k bs value) [0..<k] ! (k - 1)) (length value - bs * (k - 1))
    = Inr (stored_block k r value bs a (k + (k - 1) div r - 1))"
proof -
  have P: "lrc_params n k r" and C: "lrc_coded n k r value bs a" and l: "bs * (k - 1) \<le> length value" "length value \<le> k * bs" "0 < k"
    using V by (auto simp: lrc_value_def lrc_coded_def)
  have kb: "k * bs = bs * (k - 1) + bs" using l(3) by (cases k) auto
  have i: "k + (k - 1) div r - 1 = (k - 1) + (k - 1) div r" by (rule last_data_index [OF l(3)])
  have "\<forall>d < k. a ! (d + d div r) = piece k bs value d" using C by (simp add: lrc_coded_def)
  then have "a ! (k + (k - 1) div r - 1) = piece k bs value (k - 1)" unfolding i using l(3) by (metis diff_less zero_less_one)
  moreover have "length (piece k bs value (k - 1)) = bs" using length_piece [of "k - 1" k "value" bs] l by simp
  moreover have "length value - bs * (k - 1) \<le> bs" using kb l(2) by linarith
  ultimately show ?thesis using l(3) by (simp add: memcpy_def stored_block_def)
qed

context kv_service
begin

lemma set_placed_ok:
  assumes ok: "client_ok svc ptr" and k: "2 \<le> number_of_k ptr" and add: "rack_is_add ptr"
    and len: "length value < 2 ^ 63" "8 * number_of_k ptr * (number_of_k ptr - 1) \<le> length value"
  shows "\<exists>rc ptr'. memcached_lrc_send_binary svc file server_key key value ptr = Inr (rc, ptr') \<and>
    (\<not> replying ptr \<or> (\<exists>i < number_of_n ptr. server_key = node2rack ptr ! i) \<longrightarrow> rc = MEMCACHED_SUCCESS) \<and>
    client_ok svc ptr' \<and> lrc_stored svc key value {} ptr' \<and> only_key svc key ptr ptr' \<and> fail_node_index ptr' = fail_node_index ptr"
proof -
  let ?n = "number_of_n ptr" and ?k = "number_of_k ptr" and ?r = "number_of_r ptr"
  have P: "lrc_params ?n ?k ?r" and J: "jer_ok (jer ptr)" and n: "?n \<le> 100" using ok by (auto simp: client_ok_def)
  obtain bs a j where B: "lrc_blocks ?n ?k ?r value (jer ptr) = Inr (bs, map (piece ?k bs value) [0..<?k], a, j)" "jer_ok j"
    "determine_block_size_rs (of_nat (length value)) (of_nat ?k) = Inr (of_nat bs)" "bs < 2 ^ 64" "lrc_coded ?n ?k ?r value bs a"
    using lrc_blocks_ok [OF P J len(1)] by (elim exE conjE) (rule that)
  have last: "bs * (?k - 1) \<le> length value" using reaches_last [of bs ?k "length value"] B(5) len(2) k by (simp add: lrc_coded_def)
  have V: "lrc_value ?n ?k ?r value bs a" using P B k last len(1) by (simp add: lrc_value_def)
  let ?p = "ptr\<lparr>jer := j\<rparr>"
  have okp: "client_ok svc ?p" using ok B(2) by (simp add: client_ok_def)
  obtain q where q: "core_traffic svc (block_key key) a ?p = Inr q" "core_only svc ?p q" using core_traffic_ok [OF okp, of "block_key key" a] by (elim exE conjE) (rule that)
  have qf: "number_of_n q = ?n" "number_of_k q = ?k" "number_of_r q = ?r" "node2rack q = node2rack ptr" using core_only_fields [OF q(2)] by simp_all
  let ?reqs = "map (\<lambda>i. (node2rack q ! i, block_key key i, stored_block ?k ?r value bs a i)) [0..<?n]"
  have okq: "client_ok svc q" by (rule core_only_client [OF q(2) okp])
  obtain s where s: "send_blocks svc ?reqs (servers q) = (MEMCACHED_SUCCESS, s)" "\<forall>b. srv_up svc b s = srv_up svc b (servers q)"
    "\<forall>(a, key, v) \<in> set ?reqs. srv_get svc a key s = Some v"
    "\<forall>b. srv_response svc b s = (if b \<in> fst ` set ?reqs then MEMCACHED_SUCCESS else srv_response svc b (servers q))"
    "\<forall>b key. key \<notin> (fst \<circ> snd) ` set ?reqs \<longrightarrow> srv_get svc b key s = srv_get svc b key (servers q)"
  proof -
    have "\<forall>(a, key, v) \<in> set ?reqs. srv_up svc a (servers q)" using okq qf(1) by (auto simp: client_ok_def)
    moreover have "distinct (map (fst \<circ> snd) ?reqs)" using block_key_distinct [OF n, of key] by (simp add: comp_def)
    ultimately show ?thesis by (rule exE [OF send_blocks_ok]) (elim conjE, rule that)
  qed
  have ei: "ptr\<lparr>jer := j, rack_is_add := True\<rparr> = ?p" using add by simp
  have last_if: "(\<lambda>i. (node2rack q ! i, block_key key i, if i = ?k + (?k - 1) div ?r - 1 then stored_block ?k ?r value bs a (?k + (?k - 1) div ?r - 1) else a ! i))
      = (\<lambda>i. (node2rack q ! i, block_key key i, stored_block ?k ?r value bs a i))"
    by (auto simp: stored_block_def)
  let ?rc = "if replying ptr then srv_response svc server_key s else MEMCACHED_SUCCESS"
  have tab: "\<not> (length (node_rack ptr) < ?n \<or> length (node2rack ptr) < ?n)" using ok by (auto simp: client_ok_def)
  have rp: "replying q = replying ptr" using core_only_fields [OF q(2)] by simp
  have "\<not> replying ptr \<or> (\<exists>i < ?n. server_key = node2rack ptr ! i) \<longrightarrow> ?rc = MEMCACHED_SUCCESS"
  proof
    assume a: "\<not> replying ptr \<or> (\<exists>i < ?n. server_key = node2rack ptr ! i)"
    show "?rc = MEMCACHED_SUCCESS"
    proof (cases "replying ptr")
      case True
      then obtain i where "i < ?n" "server_key = node2rack q ! i" using a qf(4) by auto
      then have "server_key \<in> fst ` set ?reqs" by (force simp: image_image)
      then show ?thesis using s(4) by simp
    qed simp
  qed
  moreover have "memcached_lrc_send_binary svc file server_key key value ptr = Inr (?rc, q\<lparr>servers := s\<rparr>)"
    using tab rp add last last_request [OF V] q(1) s(1) unfolding memcached_lrc_send_binary_def Let_def B(1)
    by (simp add: ei last_if del: One_nat_def)
  moreover have "client_ok svc (q\<lparr>servers := s\<rparr>)" using okq s(2) by (simp add: client_ok_def)
  moreover have "lrc_holds svc key value bs a {} (q\<lparr>servers := s\<rparr>)" using s(3) V qf by (simp add: lrc_holds_def)
  moreover have "only_key svc key ?p (q\<lparr>servers := s\<rparr>)"
  proof -
    have "only_key svc key ?p q" by (rule only_key_core [OF q(2)])
    moreover have "srv_get svc b key' s = srv_get svc b key' (servers q)" if "\<forall>i < ?n. key' \<noteq> block_key key i" for b key'
    proof -
      have "key' \<notin> (fst \<circ> snd) ` set ?reqs" using that by auto
      then show ?thesis using s(5) by blast
    qed
    ultimately show ?thesis unfolding only_key_def by simp
  qed
  then have "only_key svc key ptr (q\<lparr>servers := s\<rparr>)" by (simp add: only_key_def)
  ultimately show ?thesis using core_only_fields(10) [OF q(2)] unfolding lrc_stored_def by auto
qed

end

end
