(* ===== verification/Lrc_Read.thy ===== *)
theory Lrc_Read
  imports Lrc_Store
begin

unbundle bit_operations_syntax

text \<open>
  Reading a value, repairing a block and deleting one: a read returns the value, with all blocks there or with
  one lost, and a repair puts any one block back.
\<close>

section \<open>Putting a block back\<close>

context kv_service
begin

lemma restore_block:
  assumes ok: "client_ok svc q" and j: "jer_ok j" and i: "i < number_of_n q" and E: "E \<subseteq> {i}"
    and H: "lrc_holds svc key value bs a E q" and v: "v = stored_block (number_of_k q) (number_of_r q) value bs a i"
  shows "\<exists>q'. memcached_send_plain svc (block_key key i) v (q\<lparr>jer := j, fail_node_index := i, number_of_b := 0\<rparr>) = Inr (MEMCACHED_SUCCESS, q') \<and>
    client_ok svc (q'\<lparr>number_of_b := 1\<rparr>) \<and> lrc_holds svc key value bs a {} (q'\<lparr>number_of_b := 1\<rparr>) \<and> only_key svc key q (q'\<lparr>number_of_b := 1\<rparr>)"
proof -
  let ?s = "srv_set svc (node2rack q ! i) (block_key key i) v (servers q)"
  let ?q = "q\<lparr>jer := j, fail_node_index := i, number_of_b := 0, servers := ?s\<rparr>"
  have c: "number_of_n q \<le> 20" "length (node2rack q) = 20" "number_of_replicas q = 0" "\<not> is_core q" "srv_up svc (node2rack q ! i) (servers q)" "instances q \<noteq> []"
    using ok i by (auto simp: client_ok_def)
  have "memcached_send_plain svc (block_key key i) v (q\<lparr>jer := j, fail_node_index := i, number_of_b := 0\<rparr>) = Inr (MEMCACHED_SUCCESS, ?q)"
    using c i by (simp add: memcached_send_plain_def memcached_send_binary_def Let_def)
  moreover have "client_ok svc (?q\<lparr>number_of_b := 1\<rparr>)" using ok j i by (simp add: client_ok_def)
  moreover have "lrc_holds svc key value bs a {} (?q\<lparr>number_of_b := 1\<rparr>)"
  proof -
    have "block_key key x \<noteq> block_key key i" if "x < number_of_n q" "x \<noteq> i" for x
      using block_key_inj [of x i key] that i c(1) by linarith
    then show ?thesis using H v E by (auto simp: lrc_holds_def)
  qed
  moreover have "only_key svc key q (?q\<lparr>number_of_b := 1\<rparr>)" using i by (simp add: only_key_def)
  ultimately show ?thesis by blast
qed

section \<open>Reading a value\<close>

lemma answers:
  assumes ok: "client_ok svc ptr" and H: "lrc_holds svc key value bs a E ptr"
    and ix: "\<forall>d < m. ix d < number_of_n ptr" "inj_on ix {..<m}" and m: "0 < m"
  defines "keys \<equiv> map (\<lambda>d. block_key key (ix d)) [0..<m]"
    and "V \<equiv> \<lambda>d. stored_block (number_of_k ptr) (number_of_r ptr) value bs a (ix d)"
  shows "distinct keys" "length keys = m"
    "\<exists>results. memcached_mget svc ptr keys = Inr (MEMCACHED_SUCCESS, results) \<and>
      (\<forall>(x, v) \<in> set results. \<exists>d < m. x = keys ! d \<and> v = V d) \<and> (\<forall>d < m. keys ! d \<in> fst ` set results \<longleftrightarrow> ix d \<notin> E)"
proof -
  have n: "number_of_n ptr \<le> 20" using ok by (simp add: client_ok_def)
  have inj: "d = e" if "d < m" "e < m" "block_key key (ix d) = block_key key (ix e)" for d e
  proof -
    have "ix d = ix e" using block_key_inj [OF _ _ that(3)] ix(1) [rule_format, OF that(1)] ix(1) [rule_format, OF that(2)] n by linarith
    then show ?thesis using ix(2) that(1,2) by (simp add: inj_on_def)
  qed
  show "distinct keys" unfolding keys_def distinct_map by (auto simp: inj_on_def intro: inj)
  show "length keys = m" by (simp add: keys_def)
  have k: "keys ! d = block_key key (ix d)" if "d < m" for d using that by (simp add: keys_def)
  have mk: "map (block_key key) (map ix [0..<m]) = keys" by (simp add: keys_def)
  have "\<forall>i \<in> set (map ix [0..<m]). i < number_of_n ptr" "map ix [0..<m] \<noteq> []" using ix(1) m by auto
  from mget_ok [OF ok this, of key] obtain results where R: "memcached_mget svc ptr keys = Inr (MEMCACHED_SUCCESS, results)"
    "set results = {(block_key key i, v) |i v. i \<in> set (map ix [0..<m]) \<and> srv_get svc (node2rack ptr ! i) (block_key key i) (servers ptr) = Some v}"
    unfolding mk by blast
  have got: "(x, v) \<in> set results \<longleftrightarrow> (\<exists>d < m. ix d \<notin> E \<and> x = block_key key (ix d) \<and> v = V d)" for x v
  proof -
    have "(x, v) \<in> set results \<longleftrightarrow> (\<exists>d < m. x = block_key key (ix d) \<and> srv_get svc (node2rack ptr ! ix d) (block_key key (ix d)) (servers ptr) = Some v)"
      unfolding R(2) by auto
    also have "\<dots> \<longleftrightarrow> (\<exists>d < m. x = block_key key (ix d) \<and> (if ix d \<in> E then None else Some (V d)) = Some v)"
      using H ix(1) by (simp add: lrc_holds_def V_def cong: conj_cong)
    also have "\<dots> \<longleftrightarrow> (\<exists>d < m. ix d \<notin> E \<and> x = block_key key (ix d) \<and> v = V d)" by (auto split: if_splits)
    finally show ?thesis .
  qed
  have "\<exists>d < m. x = keys ! d \<and> v = V d" if xv: "(x, v) \<in> set results" for x v
  proof -
    obtain d where "d < m" "x = block_key key (ix d)" "v = V d" using got xv by blast
    then show ?thesis using k [of d] by (intro exI [of _ d]) simp
  qed
  moreover have "keys ! d \<in> fst ` set results \<longleftrightarrow> ix d \<notin> E" if d: "d < m" for d
  proof -
    have "keys ! d \<in> fst ` set results \<longleftrightarrow> (\<exists>v. (block_key key (ix d), v) \<in> set results)" using d k by force
    also have "\<dots> \<longleftrightarrow> ix d \<notin> E" unfolding got using inj d by metis
    finally show ?thesis .
  qed
  ultimately show "\<exists>results. memcached_mget svc ptr keys = Inr (MEMCACHED_SUCCESS, results) \<and>
      (\<forall>(x, v) \<in> set results. \<exists>d < m. x = keys ! d \<and> v = V d) \<and> (\<forall>d < m. keys ! d \<in> fst ` set results \<longleftrightarrow> ix d \<notin> E)"
    using R(1) by blast
qed

lemma get_prefix:
  assumes ok: "client_ok svc ptr" and H: "lrc_holds svc key value bs a E ptr"
  shows "\<exists>results. memcached_mget svc ptr (map (\<lambda>i. block_key key (i + i div number_of_r ptr)) [0..<number_of_k ptr]) = Inr (MEMCACHED_SUCCESS, results) \<and>
    get_results (number_of_k ptr) (map (\<lambda>i. block_key key (i + i div number_of_r ptr)) [0..<number_of_k ptr]) results
      (replicate (number_of_k ptr) None, bs, length value - bs * (number_of_k ptr - 1)) =
    Inr (map (\<lambda>d. if d + d div number_of_r ptr \<in> E then None else Some (piece (number_of_k ptr) bs value d)) [0..<number_of_k ptr],
      bs, length value - bs * (number_of_k ptr - 1))"
proof -
  let ?n = "number_of_n ptr" and ?k = "number_of_k ptr" and ?r = "number_of_r ptr"
  let ?ix = "\<lambda>d. d + d div ?r" and ?last = "number_of_k ptr + (number_of_k ptr - 1) div number_of_r ptr - 1"
  let ?keys = "map (\<lambda>i. block_key key (?ix i)) [0..<?k]" and ?V = "\<lambda>d. stored_block ?k ?r value bs a (?ix d)"
  have V: "lrc_value ?n ?k ?r value bs a" using H by (simp add: lrc_holds_def)
  then have P: "lrc_params ?n ?k ?r" and C: "lrc_coded ?n ?k ?r value bs a" and k: "2 \<le> ?k" by (auto simp: lrc_value_def)
  have ix: "\<forall>d < ?k. ?ix d < ?n" using data_index [OF P] by blast
  have inj: "inj_on ?ix {..<?k}"
    using data_index_mono [of _ _ ?r] by (intro linorder_inj_onI) (metis less_irrefl, metis linear)
  have k0: "0 < ?k" using k by simp
  note A = answers [OF ok H ix inj k0]
  obtain results where R: "memcached_mget svc ptr ?keys = Inr (MEMCACHED_SUCCESS, results)"
    "\<forall>(x, v) \<in> set results. \<exists>d < ?k. x = ?keys ! d \<and> v = ?V d" "\<forall>d < ?k. ?keys ! d \<in> fst ` set results \<longleftrightarrow> ?ix d \<notin> E"
    using A(3) by (elim exE conjE) (rule that)
  have "get_results ?k ?keys results (replicate ?k None, bs, length value - bs * (?k - 1)) =
    Inr (map (\<lambda>d. if ?keys ! d \<in> fst ` set results then Some (piece ?k bs value d) else replicate ?k None ! d) [0..<?k], bs, length value - bs * (?k - 1))"
  proof (rule get_results_ok [where V = ?V])
    show "distinct ?keys" by (rule A(1))
    show "copy_block bs (?V d) = Inr (piece ?k bs value d)" if "d < ?k" for d
      using stored_padded [OF V ix [rule_format, OF that]] C that by (simp add: lrc_coded_def)
    show "length (?V d) = bs" if "d < ?k - 1" for d
    proof -
      have "?ix d \<noteq> ?last" using data_index_mono [of d "?k - 1" ?r] that last_data_index [of ?k ?r] k by linarith
      then show ?thesis using length_stored [OF V ix [rule_format]] that by simp
    qed
    show "length (?V (?k - 1)) = length value - bs * (?k - 1)" using length_stored [OF V ix [rule_format, of "?k - 1"]] last_data_index [of ?k ?r] k by simp
    show "\<forall>(x, v) \<in> set results. \<exists>d < ?k. x = ?keys ! d \<and> v = ?V d" by (rule R(2))
  qed (use k in simp_all)
  also have "map (\<lambda>d. if ?keys ! d \<in> fst ` set results then Some (piece ?k bs value d) else replicate ?k None ! d) [0..<?k]
      = map (\<lambda>d. if ?ix d \<in> E then None else Some (piece ?k bs value d)) [0..<?k]"
    using R(3) by simp
  finally show ?thesis using R(1) by blast
qed

end

lemma size_words:
  assumes "bs < 2 ^ 64" "len < 2 ^ 63" "bs * m \<le> len"
  shows "unat (of_nat bs :: 64 word) = bs" "unat (of_nat len - of_nat bs * of_nat m :: 64 word) = len - bs * m"
proof -
  show "unat (of_nat bs :: 64 word) = bs" using assms(1) by (simp add: unsigned_of_nat take_bit_nat_eq_self)
  have "(of_nat len - of_nat bs * of_nat m :: 64 word) = of_nat (len - bs * m)" using assms(3) by (simp add: of_nat_diff)
  then show "unat (of_nat len - of_nat bs * of_nat m :: 64 word) = len - bs * m" using assms(2) by (simp add: unsigned_of_nat take_bit_nat_eq_self)
qed

context kv_service
begin

lemma get_traffic:
  assumes ok: "client_ok svc ptr" and sv: "\<forall>i < k. i \<noteq> f \<longrightarrow> sv ! i \<noteq> None"
  shows "\<exists>ptr'. cfor 0 k (\<lambda>i ptr. if i \<noteq> f then run_bind (get_ptr (sv ! i)) (\<lambda>v.
      cross_networkcore_libmemcached svc (keys ! i) (take bs v) ptr) else Inr ptr) ptr = Inr ptr' \<and> core_only svc ptr ptr'"
proof (rule core_loop_ok [OF ok])
  fix i p assume i: "i < k" "core_only svc ptr p"
  obtain p' where p': "cross_networkcore_libmemcached svc (keys ! i) (take bs (the (sv ! i))) p = Inr p'" "core_only svc p p'"
    using cross_core_ok [OF core_only_client [OF i(2) ok]] by blast
  show "\<exists>p'. (if i \<noteq> f then run_bind (get_ptr (sv ! i)) (\<lambda>v. cross_networkcore_libmemcached svc (keys ! i) (take bs v) p) else Inr p) = Inr p' \<and>
      core_only svc p p'"
    using p' i sv by (cases "i = f") (auto simp: get_ptr_def)
qed

lemma count_traffic:
  assumes ok: "client_ok svc ptr"
  shows "\<exists>ptr'. cfor 0 m (\<lambda>i. cross_networkcore_libmemcached svc key v) ptr = Inr ptr' \<and> core_only svc ptr ptr'"
  by (rule core_loop_ok [OF ok]) (blast intro: cross_core_ok core_only_client ok)

lemma get_start:
  assumes H: "lrc_holds svc key value bs a E ptr"
  shows "determine_block_size_rs (of_nat (length value)) (of_nat (number_of_k ptr)) = Inr (of_nat bs)"
    "unat (of_nat bs :: 64 word) = bs"
    "unat (of_nat (length value) - of_nat bs * of_nat (number_of_k ptr - 1) :: 64 word) = length value - bs * (number_of_k ptr - 1)"
    "(number_of_k ptr - 1) * bs \<le> length value" "length value \<le> number_of_k ptr * bs" "0 < number_of_k ptr"
    "lrc_params (number_of_n ptr) (number_of_k ptr) (number_of_r ptr)" "lrc_coded (number_of_n ptr) (number_of_k ptr) (number_of_r ptr) value bs a"
proof -
  let ?k = "number_of_k ptr"
  have V: "lrc_value (number_of_n ptr) ?k (number_of_r ptr) value bs a" using H by (simp add: lrc_holds_def)
  show "determine_block_size_rs (of_nat (length value)) (of_nat ?k) = Inr (of_nat bs)" using V unfolding lrc_value_def by blast
  have l: "bs < 2 ^ 64" "length value < 2 ^ 63" "bs * (?k - 1) \<le> length value" using V unfolding lrc_value_def by blast+
  show "unat (of_nat bs :: 64 word) = bs"
    "unat (of_nat (length value) - of_nat bs * of_nat (number_of_k ptr - 1) :: 64 word) = length value - bs * (number_of_k ptr - 1)"
    by (rule size_words [OF l])+
  show "(?k - 1) * bs \<le> length value" using l(3) by (simp only: mult.commute)
  show "length value \<le> ?k * bs" "0 < ?k" using V by (auto simp: lrc_value_def lrc_coded_def)
  show "lrc_params (number_of_n ptr) ?k (number_of_r ptr)" "lrc_coded (number_of_n ptr) ?k (number_of_r ptr) value bs a"
    using V unfolding lrc_value_def by blast+
qed

lemma get_whole:
  assumes ok: "client_ok svc ptr" and H: "lrc_holds svc key value bs a E ptr"
    and E: "\<forall>d < number_of_k ptr. d + d div number_of_r ptr \<notin> E"
  shows "\<exists>ptr'. memcached_get_lrc svc key (length value) ptr = (if zeroed ptr then Inr (Some value, ptr') else Inl Undefined) \<and> core_only svc ptr ptr'"
proof -
  let ?n = "number_of_n ptr" and ?k = "number_of_k ptr" and ?r = "number_of_r ptr"
  let ?keys = "map (\<lambda>i. block_key key (i + i div ?r)) [0..<?k]"
  let ?ls = "length value - bs * (?k - 1)" and ?sv = "map (\<lambda>d. Some (piece ?k bs value d)) [0..<?k]"
  note S = get_start [OF H]
  have svE: "map (\<lambda>d. if d + d div ?r \<in> E then None else Some (piece ?k bs value d)) [0..<?k] = ?sv" using E by simp
  obtain results where R: "memcached_mget svc ptr ?keys = Inr (MEMCACHED_SUCCESS, results)"
    "get_results ?k ?keys results (replicate ?k None, bs, ?ls) = Inr (?sv, bs, ?ls)"
    using get_prefix [OF ok H] unfolding svE by (elim exE conjE) (rule that)
  have f: "find_failed ?n ?sv = ?n" by (rule find_failed_none) simp
  obtain p where p: "cfor 0 ?k (\<lambda>i ptr. if i \<noteq> ?n then run_bind (get_ptr (?sv ! i)) (\<lambda>v.
      cross_networkcore_libmemcached svc (?keys ! i) (take bs v) ptr) else Inr ptr) ptr = Inr p" "core_only svc ptr p"
    using get_traffic [OF ok, of ?k ?n ?sv ?keys bs] by auto
  have z: "zeroed p = zeroed ptr" by (rule core_only_fields(15) [OF p(2)])
  have "memcached_get_lrc svc key (length value) ptr = (if zeroed ptr then Inr (Some value, p) else Inl Undefined)"
    using assemble_ok [OF S(4-6), of ?sv] unfolding memcached_get_lrc_def Let_def S(1) by (simp add: S(2,3) R f p z del: One_nat_def)
  then show ?thesis using p(2) by blast
qed

end

lemma full_data_group:
  assumes d: "d < k" and r: "0 < r" and full: "k mod r = 0 \<or> d div r \<noteq> (k - 1) div (r :: nat)"
  shows "(d div r + 1) * r \<le> k"
proof -
  have "d div r + 1 \<le> k div r"
  proof (cases "k mod r = 0")
    case True
    then obtain q where "k = r * q" by (metis mod_0_imp_dvd dvdE)
    then show ?thesis using d r by (simp add: div_less_iff_less_mult mult.commute less_eq_Suc_le [symmetric])
  next
    case False
    have "d div r \<le> (k - 1) div r" "(k - 1) div r \<le> k div r" using d by (simp_all add: div_le_mono)
    then show ?thesis using full False by linarith
  qed
  then have "(d div r + 1) * r \<le> k div r * r" by (rule mult_le_mono1)
  also have "\<dots> \<le> k" by simp
  finally show ?thesis .
qed

lemma group_ptrs_ok:
  assumes "\<forall>bi \<in> set bis. bi \<le> last_block"
  shows "\<exists>f' c'. group_ptrs racks last_block sv base off bis (ptrs, f, c) = (fold (\<lambda>bi p. p[bi - base := sv ! (bi - base + off)]) bis ptrs, f', c')"
  using assms
proof (induction bis arbitrary: ptrs f c)
  case (Cons b bis)
  then show ?case by (simp add: Let_def)
qed simp

lemma fold_ptrs:
  assumes "c \<le> m"
  shows "fold (\<lambda>bi p. p[bi - base := sv ! (bi - base + off)]) [base..<base + c] (replicate m None) =
    map (\<lambda>x. sv ! (x + off)) [0..<c] @ replicate (m - c) None"
  using assms
proof (induction c)
  case (Suc c)
  have "[base..<base + Suc c] = [base..<base + c] @ [base + c]" by simp
  moreover have "replicate (m - c) (None :: 'a option) = None # replicate (m - Suc c) None" using Suc.prems by (simp add: Suc_diff_Suc [symmetric])
  ultimately show ?case using Suc by (simp add: list_update_append)
qed simp

lemma parity_results_one:
  assumes "\<forall>x \<in> set results. x = (key, v)" "bs \<le> length v"
  shows "parity_results 1 rn [key] bs results (ptrs, c) = Inr (ptrs, if results = [] then c else Some v)"
proof -
  have f: "find_key key [key] = 0" using find_key_nth [of "[key]" 0] by simp
  show ?thesis using assms by (induction results arbitrary: c) (auto simp: f Let_def)
qed

lemma data_not_parity: "0 < r \<Longrightarrow> d + d div r \<noteq> g * (r + 1) + (r :: nat)"
proof
  assume r: "0 < r" and a: "d + d div r = g * (r + 1) + r"
  have "d + d div r = d div r * (r + 1) + d mod r" using div_mult_mod_eq [of d r] by simp
  then have "(d + d div r) mod (r + 1) = d mod r" using r by (metis less_add_one mod_less mod_less_divisor mod_mult_self3 order_less_trans)
  moreover have "(g * (r + 1) + r) mod (r + 1) = r" by (metis less_add_one mod_less mod_mult_self3)
  ultimately have "d mod r = r" using a by simp
  then show False using r mod_less_divisor [of r d] by linarith
qed

lemma decode_group:
  assumes "jer_ok st" and D: "parity_group bs (k + 1) D" and "0 < k" "k < 256" "8 dvd bs" "e < k + 1"
  defines "x \<equiv> \<lambda>i. if i = e then replicate bs 0 else D i"
  shows "\<exists>jer'. decoding_parity_ptrs_lrc (map x [0..<k]) k [x k] 1 bs [int e, -1] st = Inr jer' \<and> jer_ok jer' \<and>
    data_ptrs jer' = map D [0..<k] \<and> coding_ptrs jer' = [D k]"
proof -
  have l: "length (x i) = bs" if "i < k + 1" for i using D that by (simp add: x_def parity_group_def)
  have b: "length (map x [0..<k]) = k" "length (x k) = bs" "\<forall>i < k. length (map x [0..<k] ! i) = bs" using l by simp_all
  have "\<forall>i < k. i \<noteq> e \<longrightarrow> map x [0..<k] ! i = D i" "k \<noteq> e \<longrightarrow> x k = D k" by (simp_all add: x_def)
  then show ?thesis by (rule decoding_parity_ok [OF assms(1-6) b])
qed

context kv_service
begin

lemma mget_one:
  assumes ok: "client_ok svc ptr" and i: "i < number_of_n ptr" and g: "srv_get svc (node2rack ptr ! i) (block_key key i) (servers ptr) = Some v"
  shows "\<exists>results. memcached_mget svc ptr [block_key key i] = Inr (MEMCACHED_SUCCESS, results) \<and> set results = {(block_key key i, v)}"
proof -
  have "i < 100" using ok i by (simp add: client_ok_def)
  show ?thesis using mget_ok [OF ok, of "[i]" key] i g by auto
qed

lemma get_repair_ok:
  assumes ok: "client_ok svc ptr" and H: "lrc_holds svc key value bs a {d + d div number_of_r ptr} ptr" and d: "d < number_of_k ptr"
    and full: "number_of_k ptr mod number_of_r ptr = 0 \<or> d div number_of_r ptr \<noteq> (number_of_k ptr - 1) div number_of_r ptr"
    and sv: "\<forall>x < number_of_k ptr. x \<noteq> d \<longrightarrow> sv ! x = Some (piece (number_of_k ptr) bs value x)" "length sv = number_of_k ptr"
  shows "\<exists>ptr'. get_repair svc key d bs (length value - bs * (number_of_k ptr - 1)) sv ptr = Inr (piece (number_of_k ptr) bs value d, ptr') \<and>
    client_ok svc ptr' \<and> lrc_holds svc key value bs a {} ptr' \<and> only_key svc key ptr ptr'"
proof -
  let ?n = "number_of_n ptr" and ?k = "number_of_k ptr" and ?r = "number_of_r ptr"
  define g where "g = d div ?r"
  define e where "e = d - ?r * g"
  let ?base = "g * (?r + 1)" and ?i = "d + g"
  let ?D = "\<lambda>x. a ! (?base + x)"
  let ?p = "ptr\<lparr>fail_node_index := ?i\<rparr>"
  note S = get_start [OF H]
  have r: "0 < ?r" "?r < 256" using S(7) by (auto simp: lrc_params_def)
  have dn: "d < ?n - local_group_number ?n ?r" "?k \<le> ?n - local_group_number ?n ?r" using S(7) d by (auto simp: lrc_params_def)
  note L = data_position [OF S(7) dn(1), folded g_def]
  have gr: "(g + 1) * ?r \<le> ?k" unfolding g_def by (rule full_data_group [OF d r(1) full])
  have ed: "e = d mod ?r" "e < ?r" "d = g * ?r + e" using r(1) by (simp_all add: e_def g_def minus_mult_div_eq_mod)
  have gs: "group_size ?n ?r g = ?r + 1" using group_layout(1) [OF S(7) L(1)] gr dn(2) by simp
  have bn: "?base + ?r < ?n" using group_layout(3) [OF S(7) L(1)] gs by simp
  then have rn: "(if (g + 1) * (?r + 1) > ?n then ?n - ?base else ?r + 1) = ?r + 1" by simp
  have pos: "?base + x = (g * ?r + x) + (g * ?r + x) div ?r" if "x < ?r" for x using that by simp
  have dx: "g * ?r + x < ?k" if "x < ?r" for x using gr that by simp
  have Dx: "?D x = piece ?k bs value (g * ?r + x)" if "x < ?r" for x using S(8) dx [OF that] unfolding pos [OF that] lrc_coded_def by blast
  have PG: "parity_group bs (?r + 1) ?D" using S(8) L(1) gs unfolding lrc_coded_def by metis
  let ?last = "?k + (?k - 1) div ?r - 1" and ?sv = "sv[d := Some (replicate bs 0)]" and ?ls = "length value - bs * (?k - 1)"
  have tf: "(if ?k mod ?r \<noteq> 0 \<and> g = (?k - 1) div ?r then ?r + 1 - (?k - g * ?r) else 1) = 1" using full unfolding g_def by auto
  have "\<forall>bi \<in> set [?base..<?base + (?r + 1) - 1]. bi \<le> ?last"
  proof
    fix bi assume "bi \<in> set [?base..<?base + (?r + 1) - 1]"
    then obtain x where x: "bi = ?base + x" "x < ?r" by (metis (no_types, lifting) add_diff_cancel_right' atLeastLessThan_iff group_cancel.add1 le_Suc_ex nat_add_left_cancel_less set_upt)
    have "(g * ?r + x) + (g * ?r + x) div ?r \<le> (?k - 1) + (?k - 1) div ?r" using dx [OF x(2)] by (intro add_mono div_le_mono) auto
    then show "bi \<le> ?last" using pos [OF x(2)] x(1) last_data_index [OF S(6), of ?r] by linarith
  qed
  then obtain f c where "group_ptrs (node_rack ptr) ?last ?sv ?base (g * ?r) [?base..<?base + (?r + 1) - 1] (replicate (?r + 1) None, node_rack ptr ! ?base, 0) =
      (fold (\<lambda>bi p. p[bi - ?base := ?sv ! (bi - ?base + g * ?r)]) [?base..<?base + (?r + 1) - 1] (replicate (?r + 1) None), f, c)"
    using group_ptrs_ok by blast
  then have G: "group_ptrs (node_rack ptr) ?last ?sv ?base (g * ?r) [?base..<?base + (?r + 1) - 1] (replicate (?r + 1) None, node_rack ptr ! ?base, 0) =
      (map (\<lambda>x. ?sv ! (x + g * ?r)) [0..<?r] @ [None], f, c)"
    using fold_ptrs [of ?r "?r + 1" ?base ?sv "g * ?r"] by simp
  have okp: "client_ok svc ?p" using ok data_index [OF S(7) d] by (simp add: client_ok_def g_def)
  have par: "?base + ?r \<noteq> ?i" "?base + ?r \<noteq> ?last"
    using data_not_parity [OF r(1), of d g] data_not_parity [OF r(1), of "?k - 1" g] last_data_index [OF S(6), of ?r] unfolding g_def by metis+
  have "srv_get svc (node2rack ptr ! (?base + ?r)) (block_key key (?base + ?r)) (servers ptr) = Some (?D ?r)"
    using H bn par unfolding lrc_holds_def g_def [symmetric] stored_block_def by simp
  then obtain results where R: "memcached_mget svc ?p [block_key key (?base + ?r)] = Inr (MEMCACHED_SUCCESS, results)"
      "set results = {(block_key key (?base + ?r), ?D ?r)}"
    using mget_one [OF okp, of "?base + ?r" key "?D ?r"] bn by auto
  have lD: "length (?D x) = bs" if "x < ?r + 1" for x using PG that by (simp add: parity_group_def)
  have PR: "parity_results 1 (?r + 1) [block_key key (?base + ?r)] bs results (ptrs, None) = Inr (ptrs, Some (?D ?r))" for ptrs
    using parity_results_one [of results "block_key key (?base + ?r)" "?D ?r" bs "?r + 1" ptrs None] R(2) lD [of ?r] by auto
  let ?ds = "map (\<lambda>x. if x = e then replicate bs 0 else ?D x) [0..<?r]"
  have T: "take ?r ((map (\<lambda>x. ?sv ! (x + g * ?r)) [0..<?r] @ [None])[e := Some (replicate bs 0)]) = map Some ?ds"
  proof (rule nth_equalityI)
    fix x assume "x < length (take ?r ((map (\<lambda>x. ?sv ! (x + g * ?r)) [0..<?r] @ [None])[e := Some (replicate bs 0)]))"
    then have x: "x < ?r" by simp
    have "?sv ! (x + g * ?r) = Some (?D x)" if "x \<noteq> e" using sv dx [OF x] Dx [OF x] ed(3) that by (simp add: add.commute)
    then show "take ?r ((map (\<lambda>x. ?sv ! (x + g * ?r)) [0..<?r] @ [None])[e := Some (replicate bs 0)]) ! x = map Some ?ds ! x"
      using x by (auto simp: nth_list_update nth_append)
  qed simp
  define cr where "cr = (if f \<noteq> node_rack ptr ! (?base + (?r + 1) - 1) then c + 1 else c)"
  obtain q where q: "cfor 0 cr (\<lambda>i. cross_networkcore_libmemcached svc (block_key key (?base + ?r)) (take bs (?D ?r))) ?p = Inr q" "core_only svc ?p q"
    using count_traffic [OF okp] by blast
  have okq: "client_ok svc q" by (rule core_only_client [OF q(2) okp])
  have qf: "number_of_n q = ?n" "number_of_k q = ?k" "number_of_r q = ?r" "fail_node_index q = ?i" using core_only_fields [OF q(2)] by simp_all
  have Hp: "lrc_holds svc key value bs a {?i} ?p" by (rule holds_cong [OF H [folded g_def]]) simp_all
  have Hq: "lrc_holds svc key value bs a {?i} q" by (rule holds_core [OF q(2) okp Hp])
  obtain j where j: "decoding_parity_ptrs_lrc ?ds ?r [?D ?r] 1 bs [int e, -1] (jer q) = Inr j" "jer_ok j" "data_ptrs j = map ?D [0..<?r]"
  proof -
    have "jer_ok (jer q)" "8 dvd bs" using okq S(8) unfolding client_ok_def lrc_coded_def by blast+
    from decode_group [OF this(1) PG r this(2), of e] show ?thesis using that ed(2) by auto
  qed
  have b: "data_ptrs j ! e = piece ?k bs value d" using j(3) ed Dx [OF ed(2)] by simp
  have v: "take (if d = ?k - 1 then ?ls else bs) (piece ?k bs value d) = stored_block ?k ?r value bs a ?i"
  proof -
    have ai: "a ! ?i = piece ?k bs value d" using S(8) d unfolding lrc_coded_def g_def by blast
    have "d = ?k - 1 \<longleftrightarrow> ?i = ?last"
    proof (cases "d = ?k - 1")
      case True
      then show ?thesis using last_data_index [OF S(6), of ?r] unfolding g_def by (metis)
    next
      case False
      then have "d + d div ?r < (?k - 1) + (?k - 1) div ?r" using d by (intro data_index_mono) linarith
      then show ?thesis using False last_data_index [OF S(6), of ?r] unfolding g_def by linarith
    qed
    then show ?thesis using length_piece [OF d S(5)] unfolding stored_block_def ai by simp
  qed
  obtain q' where q': "memcached_send_plain svc (block_key key ?i) (stored_block ?k ?r value bs a ?i) 
      (q\<lparr>jer := j, fail_node_index := ?i, number_of_b := 0\<rparr>) = Inr (MEMCACHED_SUCCESS, q')"
    "client_ok svc (q'\<lparr>number_of_b := 1\<rparr>)" "lrc_holds svc key value bs a {} (q'\<lparr>number_of_b := 1\<rparr>)" "only_key svc key q (q'\<lparr>number_of_b := 1\<rparr>)"
    using restore_block [OF okq j(2) _ subset_refl Hq refl] data_index [OF S(7) d] unfolding qf g_def [symmetric] by blast
  have qs: "q\<lparr>jer := j, fail_node_index := ?i, number_of_b := 0\<rparr> = q\<lparr>jer := j, number_of_b := 0\<rparr>" using qf(4) by (cases q) simp
  have nr: "node_rack ?p = node_rack ptr" by simp
  have km: "map (\<lambda>bi. block_key key (?base + ?r + bi)) [0..<1] = [block_key key (?base + ?r)]" by simp
  have r1: "?r + 1 - 1 = ?r" by simp
  have none: "(\<exists>p \<in> set (map Some ?ds). p = None) = False" "map the (map Some ?ds) = ?ds" by auto
  have gp: "get_ptr (Some x) = Inr x" for x :: "byte list" by (simp add: get_ptr_def)
  have tab: "(length (node_rack ptr) < ?base + (?r + 1)) = False" using ok bn by (auto simp: client_ok_def)
  have "get_repair svc key d bs ?ls sv ptr = Inr (piece ?k bs value d, q'\<lparr>number_of_b := 1\<rparr>)"
    unfolding get_repair_def Let_def g_def [symmetric] e_def [symmetric]
    by (simp only: rn tf nr km tab G prod.case R(1) run_bind_simps PR simp_thms if_False if_True nth_Cons_0 gp cr_def [symmetric] q(1) r1 T none j(1) b v q'(1) [unfolded qs])
  moreover have "only_key svc key ptr (q'\<lparr>number_of_b := 1\<rparr>)"
  proof -
    have "only_key svc key ptr ?p" using data_index [OF S(7) d] by (simp add: only_key_def g_def)
    then show ?thesis using only_key_trans only_key_core [OF q(2)] q'(4) by blast
  qed
  ultimately show ?thesis using q'(2,3) by blast
qed

end

section \<open>Repairing a block\<close>

lemma repair_results_ok:
  assumes keys: "distinct keys" "length keys = gn" and gn: "0 < gn"
    and V: "\<And>x. x < gn \<Longrightarrow> copy_block bs (V x) = Inr (B x)" "\<And>x. x < gn \<Longrightarrow> length (V x) = (if x + base = last_block then ls else bs)"
  shows "\<forall>(x, v) \<in> set rs. \<exists>d < gn. x = keys ! d \<and> v = V d \<Longrightarrow> length sv = gn - 1 \<Longrightarrow>
    repair_results gn base last_block keys rs (sv, c, bs, ls) =
      Inr (map (\<lambda>d. if keys ! d \<in> fst ` set rs then Some (B d) else sv ! d) [0..<gn - 1],
        if keys ! (gn - 1) \<in> fst ` set rs then Some (B (gn - 1)) else c, bs, ls)"
proof (induction rs arbitrary: sv c)
  case Nil
  have "map (\<lambda>d. sv ! d) [0..<gn - 1] = sv" using Nil by (metis map_nth)
  then show ?case by simp
next
  case (Cons xv rs)
  obtain x v where xv: "xv = (x, v)" by (cases xv)
  then obtain d where d: "d < gn" "x = keys ! d" "v = V d" using Cons.prems(1) by auto
  have f: "find_key x keys = d" using find_key_nth [OF keys(1), of d] keys(2) d by simp
  have b: "(if d + base = last_block then length v else ls) = ls" "(if d + base = last_block then bs else length v) = bs"
    using V(2) [OF d(1)] d by auto
  let ?sv = "if d = gn - 1 then sv else sv[d := Some (B d)]" and ?c = "if d = gn - 1 then Some (B d) else c"
  have "repair_results gn base last_block keys (xv # rs) (sv, c, bs, ls) = repair_results gn base last_block keys rs (?sv, ?c, bs, ls)"
    using V(1) [OF d(1)] d(1) Cons.prems(2) unfolding xv repair_results.simps Let_def f b by (auto simp: d(3))
  also have "\<dots> = Inr (map (\<lambda>e. if keys ! e \<in> fst ` set rs then Some (B e) else ?sv ! e) [0..<gn - 1],
        if keys ! (gn - 1) \<in> fst ` set rs then Some (B (gn - 1)) else ?c, bs, ls)"
    by (rule Cons.IH) (use Cons.prems in simp_all)
  also have "map (\<lambda>e. if keys ! e \<in> fst ` set rs then Some (B e) else ?sv ! e) [0..<gn - 1]
      = map (\<lambda>e. if keys ! e \<in> fst ` set (xv # rs) then Some (B e) else sv ! e) [0..<gn - 1]"
    using keys d xv Cons.prems(2) by (auto simp: nth_list_update nth_eq_iff_index_eq)
  also have "(if keys ! (gn - 1) \<in> fst ` set rs then Some (B (gn - 1)) else ?c)
      = (if keys ! (gn - 1) \<in> fst ` set (xv # rs) then Some (B (gn - 1)) else c)"
    using keys d xv gn by (auto simp: nth_eq_iff_index_eq)
  finally show ?case .
qed

lemma div_block: "x < r + 1 \<Longrightarrow> (g * (r + 1) + x) div (r + 1) = (g :: nat)"
proof -
  assume x: "x < r + 1"
  have "(g * (r + 1) + x) div (r + 1) = g + x div (r + 1)" by (rule div_mult_self3) simp
  then show ?thesis using x by simp
qed

lemma last_not_parity:
  assumes P: "lrc_params n k r" and g: "g < local_group_number n r"
  shows "g * (r + 1) + (group_size n r g - 1) \<noteq> k + (k - 1) div r - 1"
proof
  assume a: "g * (r + 1) + (group_size n r g - 1) = k + (k - 1) div r - 1"
  have k: "0 < k" "k - 1 < n - local_group_number n r" using P by (auto simp: lrc_params_def)
  note L = data_position [OF P k(2)]
  have e: "g * (r + 1) + (group_size n r g - 1) = (k - 1) div r * (r + 1) + (k - 1) mod r" using a L(3) last_data_index [OF k(1), of r] by linarith
  have s: "group_size n r g \<le> r + 1" "group_size n r ((k - 1) div r) \<le> r + 1" "0 < group_size n r g"
    using group_layout(1) [OF P g] by (simp_all add: group_size_def)
  have "g = (g * (r + 1) + (group_size n r g - 1)) div (r + 1)" by (rule div_block [symmetric]) (use s in simp)
  also have "\<dots> = (k - 1) div r" unfolding e by (rule div_block) (use L(2) s(2) in simp)
  finally have "g = (k - 1) div r" .
  then have "g * (r + 1) + (group_size n r g - 1) = g * (r + 1) + (k - 1) mod r" "(k - 1) mod r + 1 < group_size n r g"
    using e L(2) by (simp_all only:)
  then show False by linarith
qed

context kv_service
begin

lemma repair_answers:
  assumes ok: "client_ok svc ptr" and H: "lrc_holds svc key value bs a E ptr" and g: "g < local_group_number (number_of_n ptr) (number_of_r ptr)"
  defines "base \<equiv> g * (number_of_r ptr + 1)" and "gn \<equiv> group_size (number_of_n ptr) (number_of_r ptr) g"
    and "last_block \<equiv> number_of_k ptr + (number_of_k ptr - 1) div number_of_r ptr - 1"
  shows "\<exists>results. memcached_mget svc ptr (map (\<lambda>i. block_key key (i + base)) [0..<gn]) = Inr (MEMCACHED_SUCCESS, results) \<and>
    repair_results gn base last_block (map (\<lambda>i. block_key key (i + base)) [0..<gn]) results
      (replicate (gn - 1) None, None, bs, length value - bs * (number_of_k ptr - 1)) =
    Inr (map (\<lambda>x. if x + base \<in> E then None else Some (a ! (base + x))) [0..<gn - 1],
      if gn - 1 + base \<in> E then None else Some (a ! (base + (gn - 1))), bs, length value - bs * (number_of_k ptr - 1))"
proof -
  let ?n = "number_of_n ptr" and ?k = "number_of_k ptr" and ?r = "number_of_r ptr"
  let ?keys = "map (\<lambda>i. block_key key (i + base)) [0..<gn]" and ?V = "\<lambda>x. stored_block ?k ?r value bs a (x + base)"
  have V: "lrc_value ?n ?k ?r value bs a" using H by (simp add: lrc_holds_def)
  have P: "lrc_params ?n ?k ?r" by (rule get_start(7) [OF H])
  have gn: "0 < gn" "base + gn \<le> ?n" using group_layout [OF P g] by (simp_all add: gn_def base_def)
  have ix: "\<forall>d < gn. d + base < ?n" using gn by simp
  note A = answers [OF ok H ix inj_on_add' gn(1)]
  obtain results where R: "memcached_mget svc ptr ?keys = Inr (MEMCACHED_SUCCESS, results)"
    "\<forall>(x, v) \<in> set results. \<exists>d < gn. x = ?keys ! d \<and> v = ?V d" "\<forall>d < gn. ?keys ! d \<in> fst ` set results \<longleftrightarrow> d + base \<notin> E"
    using A(3) by (elim exE conjE) (rule that)
  let ?ls = "length value - bs * (?k - 1)"
  have "repair_results gn base last_block ?keys results (replicate (gn - 1) None, None, bs, ?ls) =
    Inr (map (\<lambda>d. if ?keys ! d \<in> fst ` set results then Some (a ! (d + base)) else replicate (gn - 1) None ! d) [0..<gn - 1],
        if ?keys ! (gn - 1) \<in> fst ` set results then Some (a ! (gn - 1 + base)) else None, bs, ?ls)"
  proof (rule repair_results_ok [where V = ?V])
    show "distinct ?keys" by (rule A(1))
    show "copy_block bs (?V d) = Inr (a ! (d + base))" if "d < gn" for d by (rule stored_padded [OF V ix [rule_format, OF that]])
    show "length (?V d) = (if d + base = last_block then ?ls else bs)" if "d < gn" for d
      using length_stored [OF V ix [rule_format, OF that]] unfolding last_block_def .
    show "\<forall>(x, v) \<in> set results. \<exists>d < gn. x = ?keys ! d \<and> v = ?V d" by (rule R(2))
  qed (use gn in simp_all)
  also have "map (\<lambda>d. if ?keys ! d \<in> fst ` set results then Some (a ! (d + base)) else replicate (gn - 1) None ! d) [0..<gn - 1]
      = map (\<lambda>x. if x + base \<in> E then None else Some (a ! (base + x))) [0..<gn - 1]"
    using R(3) by (simp add: add.commute)
  also have "(if ?keys ! (gn - 1) \<in> fst ` set results then Some (a ! (gn - 1 + base)) else None)
      = (if gn - 1 + base \<in> E then None else Some (a ! (base + (gn - 1))))"
  proof -
    have t: "?keys ! (gn - 1) \<in> fst ` set results \<longleftrightarrow> gn - 1 + base \<notin> E" using R(3) gn(1) by (metis diff_less zero_less_one)
    show ?thesis unfolding t add.commute [of base] by simp
  qed
  finally show ?thesis using R(1) by blast
qed

end

context kv_service
begin

lemma repair_ok:
  assumes ok: "client_ok svc ptr" and H: "lrc_holds svc key value bs a E ptr" and i: "i < number_of_n ptr" and E: "E \<subseteq> {i}"
  shows "\<exists>ptr'. memcached_repair_by_index svc key (length value) i inner ptr = Inr ptr' \<and>
    client_ok svc ptr' \<and> lrc_holds svc key value bs a {} ptr' \<and> only_key svc key ptr ptr'"
proof -
  let ?n = "number_of_n ptr" and ?k = "number_of_k ptr" and ?r = "number_of_r ptr"
  define g where "g = i div (?r + 1)"
  define base where "base = g * (?r + 1)"
  define e where "e = i - base"
  define gn where "gn = group_size ?n ?r g"
  define m where "m = gn - 1"
  let ?last = "?k + (?k - 1) div ?r - 1" and ?ls = "length value - bs * (?k - 1)" and ?D = "\<lambda>x. a ! (base + x)"
  let ?keys = "map (\<lambda>i. block_key key (i + base)) [0..<gn]"
  note S = get_start [OF H]
  note B = block_position [OF S(7) i, folded g_def, folded base_def gn_def]
  have em: "e < gn" "i = base + e" using B(2,3) by (simp_all add: e_def)
  have gm: "gn = m + 1" "0 < m" "m < 256" "base + gn \<le> ?n"
    using group_layout [OF S(7) B(1), folded base_def gn_def] S(7) by (auto simp: m_def lrc_params_def)
  have size: "(if (?r + 1) * (g + 1) > ?n then ?n - base else ?r + 1) = gn"
  proof -
    have "(?r + 1) * (g + 1) = base + (?r + 1)" by (simp add: base_def)
    then show ?thesis using gm(4) unfolding gn_def group_size_def base_def [symmetric] by auto
  qed
  have PG: "parity_group bs (m + 1) ?D" using S(8) B(1) unfolding lrc_coded_def base_def gm(1) [symmetric] gn_def by blast
  obtain results where R: "memcached_mget svc ptr ?keys = Inr (MEMCACHED_SUCCESS, results)"
    "repair_results gn base ?last ?keys results (replicate (gn - 1) None, None, bs, ?ls) =
     Inr (map (\<lambda>x. if x + base \<in> E then None else Some (?D x)) [0..<gn - 1], if gn - 1 + base \<in> E then None else Some (?D (gn - 1)), bs, ?ls)"
    using repair_answers [OF ok H B(1), folded base_def gn_def] by (elim exE conjE) (rule that)
  let ?x = "\<lambda>i. if i = e then replicate bs 0 else ?D i"
  have Ee: "x + base \<in> E \<Longrightarrow> x = e" for x using E em(2) by auto
  have sub: "(if e = m then map (\<lambda>x. if x + base \<in> E then None else Some (?D x)) [0..<m]
      else (map (\<lambda>x. if x + base \<in> E then None else Some (?D x)) [0..<m])[e := Some (replicate bs 0)]) = map Some (map ?x [0..<m])"
    using Ee em(1) gm(1) by (auto simp: list_eq_iff_nth_eq nth_list_update)
  have cod: "(if e = m then Some (replicate bs 0) else if m + base \<in> E then None else Some (?D m)) = Some (?x m)" using Ee by auto
  obtain q where q: "(if count_racks (node_rack ptr) base gn \<noteq> 0 \<and> inner then
         cfor 0 (count_racks (node_rack ptr) base gn) (\<lambda>bi. cross_networkcore_libmemcached svc (?keys ! m) (take bs (?x m))) ptr
       else Inr ptr) = Inr q" "core_only svc ptr q"
    using count_traffic [OF ok, of "count_racks (node_rack ptr) base gn" "?keys ! m" "take bs (?x m)"] by (cases "count_racks (node_rack ptr) base gn \<noteq> 0 \<and> inner") auto
  have okq: "client_ok svc q" by (rule core_only_client [OF q(2) ok])
  have Hq: "lrc_holds svc key value bs a E q" by (rule holds_core [OF q(2) ok H])
  have qf: "number_of_n q = ?n" "number_of_k q = ?k" "number_of_r q = ?r" using core_only_fields [OF q(2)] by simp_all
  have "jer_ok (jer q)" "8 dvd bs" "e < m + 1" using okq S(8) em(1) gm(1) unfolding client_ok_def lrc_coded_def by blast+
  from decode_group [OF this(1) PG gm(2,3) this(2,3)] obtain j where
    j: "decoding_parity_ptrs_lrc (map ?x [0..<m]) m [?x m] 1 bs [int e, -1] (jer q) = Inr j" "jer_ok j" "data_ptrs j = map ?D [0..<m]" "coding_ptrs j = [?D m]"
    by blast
  have v: "(if e = m then coding_ptrs j ! 0 else if i = ?last then take ?ls (data_ptrs j ! e) else take bs (data_ptrs j ! e)) = stored_block ?k ?r value bs a i"
  proof (cases "e = m")
    case True
    then have "i \<noteq> ?last" using last_not_parity [OF S(7) B(1), folded base_def gn_def m_def] em(2) by simp
    then show ?thesis using True em(2) j(4) by (simp add: stored_block_def)
  next
    case False
    then have "data_ptrs j ! e = a ! i" "length (a ! i) = bs" using j(3) em gm(1) length_block [OF S(7,8) i] by auto
    then show ?thesis using False by (simp add: stored_block_def)
  qed
  obtain q' where q': "memcached_send_plain svc (block_key key i) (stored_block ?k ?r value bs a i) 
      (q\<lparr>jer := j, fail_node_index := i, number_of_b := 0\<rparr>) = Inr (MEMCACHED_SUCCESS, q')"
    "client_ok svc (q'\<lparr>number_of_b := 1\<rparr>)" "lrc_holds svc key value bs a {} (q'\<lparr>number_of_b := 1\<rparr>)" "only_key svc key q (q'\<lparr>number_of_b := 1\<rparr>)"
    using restore_block [OF okq j(2) _ E Hq refl] i unfolding qf by blast
  have ke: "?keys ! e = block_key key i" using em by (simp add: add.commute)
  have none: "(\<exists>p \<in> set (map Some (map ?x [0..<m])). p = None) = False" "map the (map Some (map ?x [0..<m])) = map ?x [0..<m]" by auto
  have gp: "get_ptr (Some x) = Inr x" for x :: "byte list" by (simp add: get_ptr_def)
  have tab: "(?n \<le> base \<or> length (node_rack ptr) < base + gn) = False" "(gn \<le> e) = False" using ok gm em by (auto simp: client_ok_def)
  have "memcached_repair_by_index svc key (length value) i inner ptr = Inr (q'\<lparr>number_of_b := 1\<rparr>)"
    unfolding memcached_repair_by_index_def Let_def g_def [symmetric] base_def [symmetric] size tab(1) S(1) run_bind_simps S(2,3) R(1)
    by (simp only: tab(2) prod.case R(2) [folded m_def] simp_thms if_False if_True run_bind_simps e_def [symmetric] m_def [symmetric] sub cod gp q(1) none j(1) v ke q'(1))
  then show ?thesis using q'(2,3) only_key_trans [OF only_key_core [OF q(2)] q'(4)] by blast
qed

end

context kv_service
begin

lemma get_one_lost:
  assumes ok: "client_ok svc ptr" and H: "lrc_holds svc key value bs a {d + d div number_of_r ptr} ptr" and d: "d < number_of_k ptr"
    and full: "number_of_k ptr mod number_of_r ptr = 0 \<or> d div number_of_r ptr \<noteq> (number_of_k ptr - 1) div number_of_r ptr"
  shows "\<exists>ptr'. memcached_get_lrc svc key (length value) ptr = Inr (Some value, ptr') \<and>
    client_ok svc ptr' \<and> lrc_holds svc key value bs a {} ptr' \<and> only_key svc key ptr ptr'"
proof -
  let ?n = "number_of_n ptr" and ?k = "number_of_k ptr" and ?r = "number_of_r ptr"
  let ?keys = "map (\<lambda>i. block_key key (i + i div ?r)) [0..<?k]"
  let ?ls = "length value - bs * (?k - 1)" and ?sv = "map (\<lambda>x. if x = d then None else Some (piece ?k bs value x)) [0..<?k]"
  note S = get_start [OF H]
  have "x + x div ?r = d + d div ?r \<longleftrightarrow> x = d" for x using data_index_mono [of x d ?r] data_index_mono [of d x ?r] by (metis less_irrefl nat_neq_iff)
  then have svE: "map (\<lambda>x. if x + x div ?r \<in> {d + d div ?r} then None else Some (piece ?k bs value x)) [0..<?k] = ?sv" by simp
  obtain results where R: "memcached_mget svc ptr ?keys = Inr (MEMCACHED_SUCCESS, results)"
    "get_results ?k ?keys results (replicate ?k None, bs, ?ls) = Inr (?sv, bs, ?ls)"
    using get_prefix [OF ok H] unfolding svE by (elim exE conjE) (rule that)
  have f: "find_failed ?n ?sv = d" by (rule find_failed_one) (use d in auto)
  have dn: "d \<noteq> ?n" using data_index [OF S(7) d] by linarith
  obtain p where p: "cfor 0 ?k (\<lambda>i ptr. if i \<noteq> d then run_bind (get_ptr (?sv ! i)) (\<lambda>v.
      cross_networkcore_libmemcached svc (?keys ! i) (take bs v) ptr) else Inr ptr) ptr = Inr p" "core_only svc ptr p"
    using get_traffic [OF ok, of ?k d ?sv ?keys bs] by auto
  note pf = core_only_fields [OF p(2)] and okp = core_only_client [OF p(2) ok] and Hp = holds_core [OF p(2) ok H]
  obtain q where q: "get_repair svc key d bs ?ls ?sv p = Inr (piece ?k bs value d, q)" "client_ok svc q" "lrc_holds svc key value bs a {} q" "only_key svc key p q"
    using get_repair_ok [OF okp, unfolded pf, OF Hp d full, of ?sv] by (auto simp del: One_nat_def)
  have full_sv: "\<forall>i < ?k. ?sv[d := Some (piece ?k bs value d)] ! i = Some (piece ?k bs value i)" using d by (simp add: nth_list_update)
  note as = assemble_ok [OF S(4-6) full_sv]
  have "memcached_get_lrc svc key (length value) ptr = Inr (Some value, q)"
    unfolding memcached_get_lrc_def Let_def S(1) run_bind_simps S(2,3) R(1)
    by (simp only: prod.case R(2) f p(1) dn simp_thms if_True if_False run_bind_simps q(1) as not_False_eq_True)
  then show ?thesis using q(2,3) only_key_trans [OF only_key_core [OF p(2)] q(4)] by blast
qed

section \<open>Losing a block\<close>

lemma delete_ok:
  assumes ok: "client_ok svc ptr" and H: "lrc_holds svc key value bs a E ptr" and i: "i < number_of_n ptr"
  shows "\<exists>ptr'. memcached_delete_by_key_lrc svc key 0 i ptr =
      Inr (if replying ptr \<and> i \<in> E then MEMCACHED_NOTFOUND else MEMCACHED_SUCCESS, ptr') \<and>
    client_ok svc ptr' \<and> lrc_holds svc key value bs a (insert i E) ptr' \<and> only_key svc key ptr ptr'"
proof -
  let ?s = "srv_delete svc (node2rack ptr ! i) (block_key key i) (servers ptr)"
  have c: "number_of_n ptr \<le> 20" "length (node2rack ptr) = 20" "number_of_replicas ptr = 0" "srv_up svc (node2rack ptr ! i) (servers ptr)" "instances ptr \<noteq> []"
    using ok i by (auto simp: client_ok_def)
  have "srv_get svc (node2rack ptr ! i) (block_key key i) (servers ptr) = None \<longleftrightarrow> i \<in> E" using H i by (simp add: lrc_holds_def)
  then have "memcached_delete_by_key_lrc svc key 0 i ptr = Inr (if replying ptr \<and> i \<in> E then MEMCACHED_NOTFOUND else MEMCACHED_SUCCESS, ptr\<lparr>servers := ?s\<rparr>)"
    using c i by (simp add: memcached_delete_by_key_lrc_def Let_def)
  moreover have "client_ok svc (ptr\<lparr>servers := ?s\<rparr>)" using ok by (simp add: client_ok_def)
  moreover have "lrc_holds svc key value bs a (insert i E) (ptr\<lparr>servers := ?s\<rparr>)"
  proof -
    have "block_key key x \<noteq> block_key key i" if "x < number_of_n ptr" "x \<noteq> i" for x
      using block_key_inj [of x i key] that i c(1) by linarith
    then show ?thesis using H by (auto simp: lrc_holds_def)
  qed
  moreover have "only_key svc key ptr (ptr\<lparr>servers := ?s\<rparr>)" using i by (auto simp: only_key_def)
  ultimately show ?thesis by blast
qed

end

end
