(* ===== verification/Lrc_Placement.thy ===== *)
theory Lrc_Placement
  imports Lrc_Read
begin

unbundle bit_operations_syntax

text \<open>
  The rack file and the placement: the loop of \<^verbatim>\<open>add_rack\<close> reads what a well-formed file says, every node gets
  a server of its own in its rack, and the first \<^verbatim>\<open>memcached_set\<close> of a client works on the nodes so placed.
\<close>

section \<open>The rack file\<close>

text \<open>
  The file for a network core, the racks of the nodes and the servers of the racks, and the loop of
  \<^verbatim>\<open>add_rack\<close> on it.
\<close>

fun dec :: "nat \<Rightarrow> string" where
  "dec n = (if n < 10 then [char_of (48 + n)] else dec (n div 10) @ [char_of (48 + n mod 10)])"

declare dec.simps [simp del]

definition server_text :: "(string \<times> int) list \<Rightarrow> nat \<Rightarrow> string list" where
  "server_text insts s = [fst (insts ! s), dec (nat (snd (insts ! s)))]"

definition rack_line :: "(string \<times> int) list \<Rightarrow> nat list \<Rightarrow> string list" where
  "rack_line insts rack = ''#'' # dec (length rack) # concat (map (server_text insts) rack)"

definition rack_text :: "(string \<times> int) list \<Rightarrow> nat \<Rightarrow> nat list \<Rightarrow> nat list list \<Rightarrow> string list" where
  "rack_text insts core nodes racks = server_text insts core @ ''@'' # map dec nodes @ concat (map (rack_line insts) racks)"

definition text_ok :: "(string \<times> int) list \<Rightarrow> nat \<Rightarrow> nat \<Rightarrow> nat list \<Rightarrow> nat list list \<Rightarrow> bool" where
  "text_ok insts n core nodes racks \<longleftrightarrow> distinct insts \<and>
     (\<forall>(h, p) \<in> set insts. h \<noteq> [] \<and> hd h \<noteq> CHR ''@'' \<and> hd h \<noteq> CHR ''#'' \<and> length h < 20 \<and> 0 \<le> p) \<and>
     core < length insts \<and> length nodes = n \<and> (\<forall>x \<in> set nodes. x < 2 ^ 32) \<and> length racks \<le> 20 \<and>
     (\<forall>rack \<in> set racks. rack \<noteq> [] \<and> length rack < 2 ^ 32 \<and> (\<forall>s \<in> set rack. s < length insts))"

lemma scan_digits_snoc:
  "scan_digits acc (cs @ [c]) = (case scan_digits acc cs of None \<Rightarrow> None
     | Some a \<Rightarrow> if 48 \<le> (of_char c :: nat) \<and> (of_char c :: nat) \<le> 57 then Some (a * 10 + (of_char c - 48)) else None)"
  by (induction cs arbitrary: acc) (auto simp: Let_def)

lemma scan_digits_dec: "scan_digits 0 (dec n) = Some n"
proof (induction n rule: dec.induct)
  case (1 n)
  have d: "of_char (char_of (48 + x) :: char) = 48 + x" if "x < 10" for x :: nat using that by simp
  show ?case
  proof (cases "n < 10")
    case True
    then show ?thesis using d [OF True] by (subst dec.simps) (simp add: Let_def)
  next
    case False
    have m: "n mod 10 < 10" by simp
    have "scan_digits 0 (dec n) = scan_digits 0 (dec (n div 10) @ [char_of (48 + n mod 10)])" using False by (subst dec.simps) simp
    also have "\<dots> = Some (n div 10 * 10 + n mod 10)" unfolding scan_digits_snoc d [OF m] using 1 [OF False] by simp
    finally show ?thesis by simp
  qed
qed

lemma dec_first: "\<exists>c cs. dec n = c # cs \<and> c \<noteq> CHR ''-''"
proof (induction n rule: dec.induct)
  case (1 n)
  show ?case
  proof (cases "n < 10")
    case True
    have "char_of (48 + n) \<noteq> CHR ''-''"
    proof
      assume "char_of (48 + n) = CHR ''-''"
      then have "(of_char (char_of (48 + n) :: char) :: nat) = of_char (CHR ''-'')" by simp
      then show False using True by simp
    qed
    then show ?thesis using True by (subst dec.simps) simp
  next
    case False
    then show ?thesis using 1 [OF False] by (subst dec.simps) auto
  qed
qed

lemma scan_int_dec [simp]: "scan_int (dec n # ws) = (Some (int n), ws)"
proof -
  obtain c cs where c: "dec n = c # cs" "c \<noteq> CHR ''-''" using dec_first by blast
  then show ?thesis using scan_digits_dec [of n] by (simp add: scan_int_def)
qed

lemma scan_uint_dec [simp]: "n < 2 ^ 32 \<Longrightarrow> scan_uint x (dec n # ws) = (n, ws)"
  by (simp add: scan_uint_def nat_mod_distrib)

lemma scan_int_hash [simp]: "scan_int (''#'' # ws) = (None, ''#'' # ws)" "scan_int [] = (None, [])"
  by (simp_all add: scan_int_def Let_def)

lemma read_nodes_dec:
  "\<forall>x \<in> set nodes. x < 2 ^ 32 \<Longrightarrow> \<exists>last_id. read_nodes (length nodes) node_id (map dec nodes @ ws) = (nodes, last_id, ws)"
proof (induction nodes arbitrary: node_id)
  case (Cons x nodes)
  then obtain l where "read_nodes (length nodes) x (map dec nodes @ ws) = (nodes, l, ws)" by fastforce
  then show ?case using Cons.prems by (simp add: Let_def)
qed simp

lemma find_instance_nth:
  "distinct insts \<Longrightarrow> s < length insts \<Longrightarrow> find_instance (fst (insts ! s)) (Some (snd (insts ! s))) ii insts = Inr (Some (ii + s))"
proof (induction insts arbitrary: s ii)
  case (Cons x insts)
  obtain h p where x: "x = (h, p)" by (cases x)
  show ?case
  proof (cases s)
    case 0
    then show ?thesis using x by simp
  next
    case (Suc s')
    then have s': "s' < length insts" using Cons.prems by simp
    have ne: "insts ! s' \<noteq> (h, p)" using Cons.prems(1) x nth_mem [OF s'] by auto
    have "find_instance (fst (insts ! s')) (Some (snd (insts ! s'))) (ii + 1) insts = Inr (Some (ii + 1 + s'))"
      by (rule Cons.IH) (use Cons.prems s' in auto)
    moreover have "fst (insts ! s') \<noteq> h \<or> snd (insts ! s') \<noteq> p" using ne by (cases "insts ! s'") auto
    ultimately show ?thesis using Suc unfolding x by auto
  qed
qed simp

lemma find_instance_none: "\<forall>(h, p) \<in> set insts. h \<noteq> name \<Longrightarrow> find_instance name host ii insts = Inr None"
  by (induction insts arbitrary: ii) auto

lemma core_server_nth:
  assumes "distinct insts" "core < length insts"
  shows "core_server (fst (insts ! core)) (snd (insts ! core)) insts x = core"
proof -
  have "if core < length insts then core_server (fst (insts ! core)) (snd (insts ! core)) insts x = core else True"
    unfolding core_server_def
    by (rule fold_upt_inv0 [where P = "\<lambda>i y. if core < i then y = core else True"]) (use assms in \<open>auto simp: nth_eq_iff_index_eq less_Suc_eq\<close>)
  then show ?thesis using assms(2) by simp
qed

section \<open>Reading the rack file\<close>

lemma rack_word_nodes:
  assumes T: "text_ok insts n core nodes racks" and len: "n \<le> length nr" and ws: "fst (scan_int ws) = None"
  shows "\<exists>last_id. rack_word insts n ''@'' (map dec nodes @ ws) (nr, 0, 0, None, []) =
    Inr (ws, (nodes @ drop n nr, last_id, 0, None, []))"
proof -
  have n: "length nodes = n" "\<forall>x \<in> set nodes. x < 2 ^ 32" using T by (auto simp: text_ok_def)
  obtain l where l: "read_nodes n 0 (map dec nodes @ ws) = (nodes, l, ws)" using read_nodes_dec [OF n(2), of 0 ws] n(1) by auto
  have "\<forall>(h, p) \<in> set insts. h \<noteq> ''@''" using T by (auto simp: text_ok_def)
  from find_instance_none [OF this] have f: "find_instance ''@'' None 0 insts = Inr None" .
  have w: "scan_int ws = (None, ws)" using ws by (auto simp: scan_int_def split: list.splits option.splits)
  show ?thesis using n(1) len by (simp add: rack_word_def l f w)
qed

lemma rack_word_server:
  assumes T: "text_ok insts n core nodes racks" and s: "s < length insts" and c: "0 < c" "c < 2 ^ 32"
  shows "rack_word insts n (fst (insts ! s)) (dec (nat (snd (insts ! s))) # ws) (nr, x, c, host, rs @ [made @ [None]]) =
    Inr (ws, (nr, x, c - 1, Some (snd (insts ! s)), rs @ [made @ Some (s, False) # (if c = 1 then [] else [None])]))"
proof -
  obtain h p where hp: "insts ! s = (h, p)" by (cases "insts ! s")
  have "(h, p) \<in> set insts" using s hp nth_mem by metis
  then have h: "h \<noteq> []" "hd h \<noteq> CHR ''@''" "hd h \<noteq> CHR ''#''" "length h < 20" "0 \<le> p" using T by (auto simp: text_ok_def)
  then have t: "take 1 h \<noteq> ''@''" "take 1 h \<noteq> ''#''" by (cases h; simp)+
  have f: "find_instance h (Some p) 0 insts = Inr (Some s)" using find_instance_nth [of insts s 0] T s hp by (simp add: text_ok_def)
  have m: "(c + 2 ^ 32 - 1) mod 2 ^ 32 = c - 1"
  proof -
    have e: "c + 2 ^ 32 - 1 = (c - 1) + 2 ^ 32" using c(1) by simp
    show ?thesis unfolding e mod_add_self2 by (rule mod_less) (use c(2) in simp)
  qed
  then have m': "(4294967295 + c) mod 4294967296 = c - Suc 0" by simp
  show ?thesis using h t f c m' unfolding rack_word_def Let_def hp by (simp add: add_server_def)
qed

lemma rack_loop_servers:
  assumes T: "text_ok insts n core nodes racks"
  shows "\<forall>s \<in> set todo. s < length insts \<Longrightarrow> todo \<noteq> [] \<Longrightarrow> length todo < 2 ^ 32 \<Longrightarrow>
    \<exists>host'. rack_loop insts n (concat (map (server_text insts) todo) @ ws) (nr, x, length todo, host, rs @ [made @ [None]]) =
      rack_loop insts n ws (nr, x, 0, host', rs @ [made @ map (\<lambda>s. Some (s, False)) todo])"
proof (induction todo arbitrary: host made)
  case (Cons s todo)
  have s: "s < length insts" using Cons.prems by simp
  note W = rack_word_server [OF T s, of "Suc (length todo)" "concat (map (server_text insts) todo) @ ws" nr x host rs made]
  show ?case
  proof (cases "todo = []")
    case True
    then show ?thesis using W by (auto simp: server_text_def [of insts s])
  next
    case False
    have "\<exists>host'. rack_loop insts n (concat (map (server_text insts) todo) @ ws) (nr, x, length todo, Some (snd (insts ! s)), rs @ [(made @ [Some (s, False)]) @ [None]]) =
        rack_loop insts n ws (nr, x, 0, host', rs @ [(made @ [Some (s, False)]) @ map (\<lambda>s. Some (s, False)) todo])"
      by (rule Cons.IH) (use Cons.prems False in simp_all)
    then show ?thesis using W False Cons.prems(3) by (simp add: server_text_def [of insts s])
  qed
qed simp

lemma rack_loop_racks:
  assumes T: "text_ok insts n core nodes racks'"
  shows "\<forall>rack \<in> set racks. rack \<noteq> [] \<and> length rack < 2 ^ 32 \<and> (\<forall>s \<in> set rack. s < length insts) \<Longrightarrow> length rs + length racks \<le> 20 \<Longrightarrow>
    \<exists>c' host'. rack_loop insts n (concat (map (rack_line insts) racks)) (nr, x, c, host, rs) =
      Inr (nr, x, c', host', rs @ map (map (\<lambda>s. Some (s, False))) racks)"
proof (induction racks arbitrary: c host rs)
  case (Cons rack racks)
  let ?ws = "concat (map (rack_line insts) racks)"
  have R: "rack \<noteq> []" "length rack < 2 ^ 32" "\<forall>s \<in> set rack. s < length insts" using Cons.prems by auto
  have W: "rack_word insts n ''#'' (dec (length rack) # concat (map (server_text insts) rack) @ ?ws) (nr, x, c, host, rs) =
      Inr (concat (map (server_text insts) rack) @ ?ws, (nr, x, length rack, host, rs @ [[None]]))"
    using R(2) Cons.prems(2) by (simp add: rack_word_def)
  obtain h where h: "rack_loop insts n (concat (map (server_text insts) rack) @ ?ws) (nr, x, length rack, host, rs @ [[] @ [None]]) =
      rack_loop insts n ?ws (nr, x, 0, h, rs @ [[] @ map (\<lambda>s. Some (s, False)) rack])"
    using rack_loop_servers [OF T R(3,1,2), of ?ws nr x host rs "[]"] by blast
  have "\<exists>c' host'. rack_loop insts n ?ws (nr, x, 0, h, rs @ [map (\<lambda>s. Some (s, False)) rack]) =
      Inr (nr, x, c', host', (rs @ [map (\<lambda>s. Some (s, False)) rack]) @ map (map (\<lambda>s. Some (s, False))) racks)"
    by (rule Cons.IH) (use Cons.prems in simp_all)
  then show ?case using h by (simp add: rack_line_def [of insts rack] W)
qed simp

lemma add_rack_ok:
  assumes T: "text_ok (instances ptr) (number_of_n ptr) core nodes racks" and n: "number_of_n ptr \<le> length (node2rack ptr)"
  shows "add_rack (Some (rack_text (instances ptr) core nodes racks)) ptr =
    Inr (ptr\<lparr>network_core_server_key := core, node2rack := nodes @ drop (number_of_n ptr) (node2rack ptr),
      rack_group := map (map (\<lambda>s. Some (s, False))) racks, rack_is_add := True\<rparr>)"
proof -
  let ?insts = "instances ptr" and ?ws = "concat (map (rack_line (instances ptr)) racks)"
  have c: "core < length ?insts" "distinct ?insts" using T by (auto simp: text_ok_def)
  obtain h p where hp: "?insts ! core = (h, p)" by (cases "?insts ! core")
  have "(h, p) \<in> set ?insts" using c(1) hp nth_mem by metis
  then have h: "length h < 20" "0 \<le> p" using T by (auto simp: text_ok_def)
  have "fst (scan_int ?ws) = None" by (cases racks) (simp_all add: rack_line_def)
  from rack_word_nodes [OF T n this] obtain l where
    L: "rack_word ?insts (number_of_n ptr) ''@'' (map dec nodes @ ?ws) (node2rack ptr, 0, 0, None, []) =
      Inr (?ws, (nodes @ drop (number_of_n ptr) (node2rack ptr), l, 0, None, []))" by blast
  obtain c' h' where R: "rack_loop ?insts (number_of_n ptr) ?ws (nodes @ drop (number_of_n ptr) (node2rack ptr), l, 0, None, []) =
      Inr (nodes @ drop (number_of_n ptr) (node2rack ptr), l, c', h', [] @ map (map (\<lambda>s. Some (s, False))) racks)"
    using rack_loop_racks [OF T, of racks "[]"] T by (fastforce simp: text_ok_def)
  have "core_server h p ?insts x = core" for x using core_server_nth [OF c(2,1), of x] hp by simp
  then show ?thesis using h L R by (simp add: add_rack_def rack_text_def server_text_def hp Let_def)
qed

section \<open>Placing the nodes\<close>

text \<open>The number of the first \<open>i\<close> nodes that are in rack \<open>q\<close>; the server of a node; a rack with \<open>c\<close> servers in use.\<close>

definition in_rack :: "nat list \<Rightarrow> nat \<Rightarrow> nat \<Rightarrow> nat" where
  "in_rack nodes i q = length (filter (\<lambda>x. nodes ! x = q) [0..<i])"

definition node_server :: "nat list \<Rightarrow> nat list list \<Rightarrow> nat \<Rightarrow> nat" where
  "node_server nodes racks i = racks ! (nodes ! i) ! in_rack nodes i (nodes ! i)"

definition used_rack :: "nat \<Rightarrow> nat list \<Rightarrow> rack" where
  "used_rack c rack = map (\<lambda>s. Some (s, True)) (take c rack) @ map (\<lambda>s. Some (s, False)) (drop c rack)"

text \<open>Every node has a rack, and every rack servers enough, none of them the network core.\<close>

definition racks_ok :: "nat \<Rightarrow> nat \<Rightarrow> nat list \<Rightarrow> nat list list \<Rightarrow> bool" where
  "racks_ok n core nodes racks \<longleftrightarrow> length nodes = n \<and> n \<le> 20 \<and> (\<forall>i < n. nodes ! i < length racks) \<and>
     (\<forall>q < length racks. in_rack nodes n q \<le> length (racks ! q)) \<and> distinct (concat racks) \<and> core \<notin> set (concat racks)"

lemma take_unused_used:
  "c < length rack \<Longrightarrow> take_unused (used_rack c rack) = Inr (Some (rack ! c, used_rack (Suc c) rack))"
proof (induction rack arbitrary: c)
  case (Cons s rack)
  then show ?case by (cases c) (auto simp: used_rack_def)
qed simp

lemma in_rack_Suc: "in_rack nodes (Suc i) q = (if nodes ! i = q then in_rack nodes i q + 1 else in_rack nodes i q)"
  by (simp add: in_rack_def)

lemma in_rack_mono: "i \<le> j \<Longrightarrow> in_rack nodes i q \<le> in_rack nodes j q"
  by (induction j rule: dec_induct) (auto simp: in_rack_Suc)

lemma in_rack_less:
  assumes "i < j" "nodes ! i = q"
  shows "in_rack nodes i q < in_rack nodes j q"
  using in_rack_mono [of "Suc i" j nodes q] assms by (simp add: in_rack_Suc)

lemma node_server_in:
  assumes "racks_ok n core nodes racks" "i < n"
  shows "nodes ! i < length racks" "in_rack nodes i (nodes ! i) < length (racks ! (nodes ! i))" "node_server nodes racks i \<in> set (racks ! (nodes ! i))"
proof -
  show q: "nodes ! i < length racks" using assms by (simp add: racks_ok_def)
  show "in_rack nodes i (nodes ! i) < length (racks ! (nodes ! i))"
    using in_rack_less [OF assms(2) refl, of nodes] q assms(1) by (auto simp: racks_ok_def intro: less_le_trans)
  then show "node_server nodes racks i \<in> set (racks ! (nodes ! i))" by (simp add: node_server_def)
qed

lemma concat_disjoint:
  assumes "distinct (concat xs)" "i < j" "j < length xs"
  shows "set (xs ! i) \<inter> set (xs ! j) = {}"
  using assms
proof (induction xs arbitrary: i j)
  case (Cons x xs)
  then obtain j' where j: "j = Suc j'" "j' < length xs" by (cases j) auto
  have "set (xs ! j') \<subseteq> \<Union> (set ` set xs)" using nth_mem [OF j(2)] by auto
  then show ?case using Cons j by (cases i) auto
qed simp

lemma node_server_inj:
  assumes R: "racks_ok n core nodes racks" and i: "i < n" "j < n" and e: "node_server nodes racks i = node_server nodes racks j"
  shows "i = j"
proof -
  note I = node_server_in [OF R i(1)] and J = node_server_in [OF R i(2)]
  have D: "distinct (concat racks)" using R by (simp add: racks_ok_def)
  have q: "nodes ! i = nodes ! j"
  proof (rule ccontr)
    assume ne: "nodes ! i \<noteq> nodes ! j"
    have "set (racks ! (nodes ! i)) \<inter> set (racks ! (nodes ! j)) = {}"
      using concat_disjoint [OF D, of "nodes ! i" "nodes ! j"] concat_disjoint [OF D, of "nodes ! j" "nodes ! i"] I(1) J(1) ne by fastforce
    then show False using I(3) J(3) e by auto
  qed
  have "distinct (racks ! (nodes ! i))" using D I(1) distinct_concat_iff by (metis nth_mem)
  then have "in_rack nodes i (nodes ! i) = in_rack nodes j (nodes ! i)"
    using e I(2) J(2) unfolding node_server_def q by (simp add: nth_eq_iff_index_eq)
  then show ?thesis using in_rack_less [of i j nodes] in_rack_less [of j i nodes] q by (metis less_irrefl nat_neq_iff)
qed

text \<open>The client after the first \<open>i\<close> nodes were placed.\<close>

definition placed :: "nat \<Rightarrow> nat list \<Rightarrow> nat list list \<Rightarrow> 'srv memcached \<Rightarrow> nat \<Rightarrow> 'srv memcached" where
  "placed core nodes racks ptr i = ptr\<lparr>network_core_server_key := core,
     node2rack := map (\<lambda>x. if x < i then node_server nodes racks x else (nodes @ drop (length nodes) (node2rack ptr)) ! x) [0..<length (node_rack ptr)],
     node_rack := map (\<lambda>x. if x < i then nodes ! x else node_rack ptr ! x) [0..<length (node_rack ptr)],
     rack_group := map (\<lambda>q. used_rack (in_rack nodes i q) (racks ! q)) [0..<length racks], rack_is_add := True\<rparr>"

lemma place_node_placed:
  assumes R: "racks_ok n core nodes racks" and i: "i < n" and L: "length (node_rack ptr) = 20"
  shows "place_node i (placed core nodes racks ptr i) = Inr (placed core nodes racks ptr (Suc i))"
proof -
  let ?p = "placed core nodes racks ptr"
  note I = node_server_in [OF R i]
  have n: "n \<le> length nodes" "i < 20" "i < length nodes" using R i by (auto simp: racks_ok_def)
  have rack: "node2rack (?p i) ! i = nodes ! i" using n L by (simp add: placed_def nth_append)
  have un: "take_unused (rack_group (?p i) ! (nodes ! i)) = Inr (Some (node_server nodes racks i, used_rack (Suc (in_rack nodes i (nodes ! i))) (racks ! (nodes ! i))))"
    using take_unused_used [OF I(2)] I(1) by (simp add: placed_def node_server_def)
  have "(node2rack (?p i))[i := node_server nodes racks i] = node2rack (?p (Suc i))"
    "(node_rack (?p i))[i := nodes ! i] = node_rack (?p (Suc i))"
    "(rack_group (?p i))[nodes ! i := used_rack (Suc (in_rack nodes i (nodes ! i))) (racks ! (nodes ! i))] = rack_group (?p (Suc i))"
    by (rule nth_equalityI; auto simp: placed_def nth_list_update in_rack_Suc less_Suc_eq)+
  then have U: "(?p i)\<lparr>node_rack := (node_rack (?p i))[i := nodes ! i], node2rack := (node2rack (?p i))[i := node_server nodes racks i],
      rack_group := (rack_group (?p i))[nodes ! i := used_rack (Suc (in_rack nodes i (nodes ! i))) (racks ! (nodes ! i))]\<rparr> = ?p (Suc i)"
    by (simp add: placed_def)
  have len: "length (node2rack (?p i)) = 20" "length (node_rack (?p i)) = 20" "length (rack_group (?p i)) = length racks" using L by (simp_all add: placed_def)
  show ?thesis using n I(1) un U unfolding place_node_def Let_def rack len by simp
qed

lemma place_nodes_ok:
  assumes R: "racks_ok (number_of_n ptr) core nodes racks" and T: "text_ok (instances ptr) (number_of_n ptr) core nodes racks"
    and len: "length (node2rack ptr) = 20" "length (node_rack ptr) = 20"
  shows "run_bind (add_rack (Some (rack_text (instances ptr) core nodes racks)) ptr) (cfor 0 (number_of_n ptr) place_node) =
    Inr (placed core nodes racks ptr (number_of_n ptr))"
proof -
  let ?n = "number_of_n ptr"
  have n: "?n \<le> 20" "length nodes = ?n" using R by (auto simp: racks_ok_def)
  have z: "ptr\<lparr>network_core_server_key := core, node2rack := nodes @ drop ?n (node2rack ptr),
      rack_group := map (map (\<lambda>s. Some (s, False))) racks, rack_is_add := True\<rparr> = placed core nodes racks ptr 0"
  proof -
    have "map (\<lambda>x. (nodes @ drop (length nodes) (node2rack ptr)) ! x) [0..<length (node_rack ptr)] = nodes @ drop (length nodes) (node2rack ptr)"
      using map_nth [of "nodes @ drop (length nodes) (node2rack ptr)"] n len unfolding len(2) by simp
    moreover have "map (\<lambda>x. node_rack ptr ! x) [0..<length (node_rack ptr)] = node_rack ptr" by (rule map_nth)
    moreover have "map (\<lambda>q. used_rack (in_rack nodes 0 q) (racks ! q)) [0..<length racks] = map (map (\<lambda>s. Some (s, False))) racks"
      by (rule nth_equalityI) (auto simp: in_rack_def used_rack_def)
    ultimately show ?thesis using n by (simp add: placed_def)
  qed
  have "\<exists>p. cfor 0 ?n place_node (placed core nodes racks ptr 0) = Inr p \<and> p = placed core nodes racks ptr ?n"
    by (rule cfor_total [where P = "\<lambda>i p. p = placed core nodes racks ptr i"]) (use place_node_placed [OF R _ len(2)] in auto)
  then show ?thesis using add_rack_ok [OF T] n(1) len(1) unfolding z by simp
qed

text \<open>A client that has not placed its nodes yet.\<close>

definition client_new :: "'srv service \<Rightarrow> nat \<Rightarrow> nat list \<Rightarrow> nat list list \<Rightarrow> 'srv memcached \<Rightarrow> bool" where
  "client_new svc core nodes racks ptr \<longleftrightarrow> lrc_params (number_of_n ptr) (number_of_k ptr) (number_of_r ptr) \<and>
     length (node2rack ptr) = 20 \<and> length (node_rack ptr) = 20 \<and> fail_node_index ptr < 20 \<and> number_of_replicas ptr = 0 \<and>
     \<not> is_core ptr \<and> \<not> rack_is_add ptr \<and> jer_ok (jer ptr) \<and> racks_ok (number_of_n ptr) core nodes racks \<and>
     text_ok (instances ptr) (number_of_n ptr) core nodes racks \<and> (\<forall>s \<in> set (concat racks). srv_up svc s (servers ptr))"

lemma placed_fields:
  "number_of_n (placed core nodes racks ptr i) = number_of_n ptr" "number_of_k (placed core nodes racks ptr i) = number_of_k ptr"
  "number_of_r (placed core nodes racks ptr i) = number_of_r ptr" "servers (placed core nodes racks ptr i) = servers ptr"
  "jer (placed core nodes racks ptr i) = jer ptr" "is_core (placed core nodes racks ptr i) = is_core ptr"
  "number_of_replicas (placed core nodes racks ptr i) = number_of_replicas ptr" "fail_node_index (placed core nodes racks ptr i) = fail_node_index ptr"
  "number_of_b (placed core nodes racks ptr i) = number_of_b ptr" "instances (placed core nodes racks ptr i) = instances ptr"
  "replying (placed core nodes racks ptr i) = replying ptr" "rack_is_add (placed core nodes racks ptr i)"
  "zeroed (placed core nodes racks ptr i) = zeroed ptr"
  by (simp_all add: placed_def)

lemma placed_node2rack:
  assumes "length (node_rack ptr) = 20" "n \<le> 20" "i < n"
  shows "node2rack (placed core nodes racks ptr n) ! i = node_server nodes racks i" "node_rack (placed core nodes racks ptr n) ! i = nodes ! i"
    "network_core_server_key (placed core nodes racks ptr n) = core"
  using assms by (simp_all add: placed_def)

lemma placed_client:
  assumes N: "client_new svc core nodes racks ptr"
  shows "client_ok svc (placed core nodes racks ptr (number_of_n ptr))"
proof -
  let ?n = "number_of_n ptr" and ?p = "placed core nodes racks ptr (number_of_n ptr)"
  have R: "racks_ok ?n core nodes racks" and n: "length (node_rack ptr) = 20" and up: "\<forall>s \<in> set (concat racks). srv_up svc s (servers ptr)"
    and T: "text_ok (instances ptr) ?n core nodes racks" using N unfolding client_new_def by blast+
  have n20: "?n \<le> 20" using R by (simp add: racks_ok_def)
  have "node2rack ?p ! i \<noteq> network_core_server_key ?p \<and> srv_up svc (node2rack ?p ! i) (servers ?p)" if i: "i < ?n" for i
  proof -
    have "node_server nodes racks i \<in> set (concat racks)" using node_server_in [OF R i] by (auto intro: nth_mem)
    then show ?thesis using placed_node2rack [OF n n20 i] up R unfolding placed_fields by (auto simp: racks_ok_def)
  qed
  moreover have "length (node2rack ?p) = 20" "length (node_rack ?p) = 20" using n by (simp_all add: placed_def)
  moreover have "instances ptr \<noteq> []" using T by (auto simp: text_ok_def)
  ultimately show ?thesis using N n20 unfolding client_ok_def client_new_def placed_fields by simp
qed

context kv_service
begin

lemma set_new_ok:
  assumes N: "client_new svc core nodes racks ptr" and k: "2 \<le> number_of_k ptr"
    and len: "length value < 2 ^ 63" "8 * number_of_k ptr * (number_of_k ptr - 1) \<le> length value"
  shows "\<exists>rc ptr'. memcached_lrc_send_binary svc (Some (rack_text (instances ptr) core nodes racks)) server_key key value ptr = Inr (rc, ptr') \<and>
    (\<not> replying ptr \<longrightarrow> rc = MEMCACHED_SUCCESS) \<and> client_ok svc ptr' \<and> lrc_stored svc key value {} ptr' \<and> only_key svc key (placed core nodes racks ptr (number_of_n ptr)) ptr'"
proof -
  let ?p = "placed core nodes racks ptr (number_of_n ptr)" and ?file = "Some (rack_text (instances ptr) core nodes racks)"
  have P: "run_bind (add_rack ?file (ptr\<lparr>jer := j\<rparr>)) (cfor 0 (number_of_n ptr) place_node) = Inr (?p\<lparr>jer := j\<rparr>)" for j
  proof -
    have "placed core nodes racks (ptr\<lparr>jer := j\<rparr>) (number_of_n ptr) = ?p\<lparr>jer := j\<rparr>" by (simp add: placed_def)
    then show ?thesis using place_nodes_ok [of "ptr\<lparr>jer := j\<rparr>" core nodes racks] N by (simp add: client_new_def)
  qed
  have add: "\<not> rack_is_add ptr" using N by (simp add: client_new_def)
  have "memcached_lrc_send_binary svc ?file server_key key value ptr = memcached_lrc_send_binary svc ?file server_key key value ?p"
    unfolding memcached_lrc_send_binary_def Let_def placed_fields by (simp add: add P placed_fields)
  then show ?thesis using set_placed_ok [OF placed_client [OF N], unfolded placed_fields(1-11), OF k placed_fields(12) len, of ?file server_key key] by auto
qed

end

end
