(* ===== verification/Lrc_Session.thy ===== *)
theory Lrc_Session
  imports Lrc_Placement
begin

text \<open>
  Sessions of a client.  The abstract store is a map from keys to values and sets of lost blocks; a client
  \<open>tracks\<close> it.  Every request that the abstract store permits is served with the reply of the abstract store, and
  this holds along every interleaving of requests with blocks that servers drop by themselves.
\<close>

section \<open>Requests and the abstract store\<close>

text \<open>The operations of the client as requests: the caller of a read or of a repair passes the length of the value.\<close>

datatype request = Set string "byte list" | Get string nat | Delete string nat | Repair string nat nat

datatype reply = Status memcached_return_t | Value "byte list option" | Done

fun serve :: "'srv service \<Rightarrow> string list option \<Rightarrow> request \<Rightarrow> 'srv memcached \<Rightarrow> fault + (reply \<times> 'srv memcached)" where
  "serve svc file (Set key v) ptr = run_bind (memcached_set svc file key v ptr) (\<lambda>(rc, ptr). Inr (Status rc, ptr))"
| "serve svc file (Get key len) ptr = run_bind (memcached_get svc key len ptr) (\<lambda>(v, ptr). Inr (Value v, ptr))"
| "serve svc file (Delete key i) ptr = run_bind (memcached_delete_by_key_lrc svc key 0 i ptr) (\<lambda>(rc, ptr). Inr (Status rc, ptr))"
| "serve svc file (Repair key len i) ptr = run_bind (memcached_repair svc key len i ptr) (\<lambda>ptr. Inr (Done, ptr))"

text \<open>
  A value and the nodes whose blocks are lost.  A value can be read when no data block is lost, or when one data
  block is the only loss and its group is full of data blocks.
\<close>

type_synonym lrc_map = "string \<rightharpoonup> byte list \<times> nat set"

definition data_lost :: "nat \<Rightarrow> nat \<Rightarrow> nat set \<Rightarrow> bool" where
  "data_lost k r E \<longleftrightarrow> (\<exists>d < k. d + d div r \<in> E)"

definition full_group :: "nat \<Rightarrow> nat \<Rightarrow> nat \<Rightarrow> bool" where
  "full_group k r d \<longleftrightarrow> k mod r = 0 \<or> d div r \<noteq> (k - 1) div r"

definition readable :: "nat \<Rightarrow> nat \<Rightarrow> nat set \<Rightarrow> bool" where
  "readable k r E \<longleftrightarrow> \<not> data_lost k r E \<or>
     (\<exists>d < k. E = {d + d div r} \<and> full_group k r d)"

fun permitted :: "nat \<Rightarrow> nat \<Rightarrow> nat \<Rightarrow> lrc_map \<Rightarrow> request \<Rightarrow> bool" where
  "permitted n k r m (Set key v) \<longleftrightarrow> 8 * k * (k - 1) \<le> length v \<and> length v < 2 ^ 63"
| "permitted n k r m (Get key len) \<longleftrightarrow> (case m key of None \<Rightarrow> False | Some (v, E) \<Rightarrow> len = length v \<and> readable k r E)"
| "permitted n k r m (Delete key i) \<longleftrightarrow> i < n \<and> m key \<noteq> None"
| "permitted n k r m (Repair key len i) \<longleftrightarrow> (case m key of None \<Rightarrow> False | Some (v, E) \<Rightarrow> len = length v \<and> i < n \<and> E \<subseteq> {i})"

fun spec :: "nat \<Rightarrow> nat \<Rightarrow> bool \<Rightarrow> lrc_map \<Rightarrow> request \<Rightarrow> reply \<times> lrc_map" where
  "spec k r ack m (Set key v) = (Status MEMCACHED_SUCCESS, m(key \<mapsto> (v, {})))"
| "spec k r ack m (Get key len) =
     (case m key of None \<Rightarrow> (Value None, m)
      | Some (v, E) \<Rightarrow> (Value (Some v), if data_lost k r E then m(key \<mapsto> (v, {})) else m))"
| "spec k r ack m (Delete key i) =
     (case m key of None \<Rightarrow> (Status MEMCACHED_NOTFOUND, m)
      | Some (v, E) \<Rightarrow> (Status (if ack \<and> i \<in> E then MEMCACHED_NOTFOUND else MEMCACHED_SUCCESS), m(key \<mapsto> (v, insert i E))))"
| "spec k r ack m (Repair key len i) =
     (case m key of None \<Rightarrow> (Done, m) | Some (v, E) \<Rightarrow> (Done, m(key \<mapsto> (v, {}))))"

text \<open>A client in use that holds the abstract store, on a machine where new memory is filled with zeros.\<close>

definition tracks :: "'srv service \<Rightarrow> 'srv memcached \<Rightarrow> lrc_map \<Rightarrow> bool" where
  "tracks svc ptr m \<longleftrightarrow> client_ok svc ptr \<and> 2 \<le> number_of_k ptr \<and> rack_is_add ptr \<and> zeroed ptr \<and> 0 < number_of_b ptr \<and>
     fail_node_index ptr < number_of_n ptr \<and> (\<forall>key v E. m key = Some (v, E) \<longrightarrow> lrc_stored svc key v E ptr)"

text \<open>What no request changes: the parameters of the code and whether the servers reply.\<close>

definition code_setup :: "'srv memcached \<Rightarrow> nat \<times> nat \<times> nat \<times> bool" where
  "code_setup ptr = (number_of_n ptr, number_of_k ptr, number_of_r ptr, replying ptr)"

lemma tracks_update:
  assumes T: "tracks svc ptr m" and ok: "client_ok svc ptr'" and O: "only_key svc key ptr ptr'" and S: "lrc_stored svc key v E ptr'"
  shows "tracks svc ptr' (m(key \<mapsto> (v, E))) \<and> code_setup ptr' = code_setup ptr"
proof -
  have "client_ok svc ptr" "2 \<le> number_of_k ptr" "rack_is_add ptr" "zeroed ptr" "0 < number_of_b ptr" "fail_node_index ptr < number_of_n ptr"
    using T by (auto simp: tracks_def)
  moreover have "lrc_stored svc key' v' E' ptr'" if "key' \<noteq> key" "m key' = Some (v', E')" for key' v' E'
    using stored_other [OF O _ that(1)] T that(2) by (simp add: tracks_def)
  ultimately show ?thesis using ok O S by (auto simp: tracks_def only_key_def code_setup_def)
qed

context kv_service
begin

lemma tracks_core:
  assumes T: "tracks svc ptr m" and C: "core_only svc ptr ptr'"
  shows "tracks svc ptr' m \<and> code_setup ptr' = code_setup ptr"
proof -
  have ok: "client_ok svc ptr" using T by (simp add: tracks_def)
  have "lrc_stored svc key v E ptr'" if "m key = Some (v, E)" for key v E
    using holds_core [OF C ok] T that unfolding tracks_def lrc_stored_def by metis
  then show ?thesis using T core_only_client [OF C ok] core_only_fields [OF C] by (auto simp: tracks_def code_setup_def)
qed

lemma serve_set:
  assumes T: "tracks svc ptr m" and P: "permitted (number_of_n ptr) (number_of_k ptr) (number_of_r ptr) m (Set key v)"
  shows "\<exists>ptr'. serve svc file (Set key v) ptr = Inr (Status MEMCACHED_SUCCESS, ptr') \<and> tracks svc ptr' (m(key \<mapsto> (v, {}))) \<and> code_setup ptr' = code_setup ptr"
proof -
  have t: "client_ok svc ptr" "2 \<le> number_of_k ptr" "rack_is_add ptr" "0 < number_of_b ptr" "fail_node_index ptr < number_of_n ptr"
    using T by (auto simp: tracks_def)
  have l: "length v < 2 ^ 63" "8 * number_of_k ptr * (number_of_k ptr - 1) \<le> length v" using P by simp_all
  obtain rc ptr' where R: "memcached_lrc_send_binary svc file (node2rack ptr ! fail_node_index ptr) key v ptr = Inr (rc, ptr')"
    "\<not> replying ptr \<or> (\<exists>i < number_of_n ptr. node2rack ptr ! fail_node_index ptr = node2rack ptr ! i) \<longrightarrow> rc = MEMCACHED_SUCCESS"
    "client_ok svc ptr'" "lrc_stored svc key v {} ptr'" "only_key svc key ptr ptr'"
    using set_placed_ok [OF t(1-3) l, of "file" "node2rack ptr ! fail_node_index ptr" key] by (elim exE conjE) (rule that)
  have "rc = MEMCACHED_SUCCESS" using R(2) t(5) by blast
  then have "memcached_set svc file key v ptr = Inr (MEMCACHED_SUCCESS, ptr')"
    using R(1) t unfolding client_ok_def lrc_params_def memcached_set_def by simp
  then show ?thesis using tracks_update [OF T R(3,5,4)] by simp
qed

lemma memcached_get_lrc_eq: "client_ok svc ptr \<Longrightarrow> 0 < number_of_b ptr \<Longrightarrow> memcached_get svc key len ptr = memcached_get_lrc svc key len ptr"
  by (simp add: memcached_get_def client_ok_def lrc_params_def)

lemma serve_get:
  assumes T: "tracks svc ptr m" and m: "m key = Some (v, E)" and P: "readable (number_of_k ptr) (number_of_r ptr) E"
  shows "\<exists>ptr'. serve svc file (Get key (length v)) ptr = Inr (Value (Some v), ptr') \<and>
    tracks svc ptr' (if data_lost (number_of_k ptr) (number_of_r ptr) E then m(key \<mapsto> (v, {})) else m) \<and> code_setup ptr' = code_setup ptr"
proof -
  have t: "client_ok svc ptr" "0 < number_of_b ptr" and z: "zeroed ptr" using T by (auto simp: tracks_def)
  obtain bs a where H: "lrc_holds svc key v bs a E ptr" using T m unfolding tracks_def lrc_stored_def by blast
  show ?thesis
  proof (cases "data_lost (number_of_k ptr) (number_of_r ptr) E")
    case False
    then have "\<forall>d < number_of_k ptr. d + d div number_of_r ptr \<notin> E" by (auto simp: data_lost_def)
    from get_whole [OF t(1) H this] obtain ptr' where
      G: "memcached_get_lrc svc key (length v) ptr = Inr (Some v, ptr')" "core_only svc ptr ptr'" using z by auto
    show ?thesis using False G(1) tracks_core [OF T G(2)] by (simp add: memcached_get_lrc_eq [OF t])
  next
    case True
    then obtain d where d: "d < number_of_k ptr" "E = {d + d div number_of_r ptr}" "full_group (number_of_k ptr) (number_of_r ptr) d"
      using P unfolding readable_def by blast
    from get_one_lost [OF t(1) H [unfolded d(2)] d(1) d(3) [unfolded full_group_def]] obtain ptr' where
      G: "memcached_get_lrc svc key (length v) ptr = Inr (Some v, ptr')" "client_ok svc ptr'" "lrc_holds svc key v bs a {} ptr'" "only_key svc key ptr ptr'"
      by blast
    have st: "lrc_stored svc key v {} ptr'" using G(3) unfolding lrc_stored_def by blast
    show ?thesis using G(1) True tracks_update [OF T G(2,4) st] by (simp add: memcached_get_lrc_eq [OF t])
  qed
qed

lemma serve_delete:
  assumes T: "tracks svc ptr m" and m: "m key = Some (v, E)" and i: "i < number_of_n ptr"
  shows "\<exists>ptr'. serve svc file (Delete key i) ptr =
      Inr (Status (if replying ptr \<and> i \<in> E then MEMCACHED_NOTFOUND else MEMCACHED_SUCCESS), ptr') \<and> tracks svc ptr' (m(key \<mapsto> (v, insert i E))) \<and> code_setup ptr' = code_setup ptr"
proof -
  have t: "client_ok svc ptr" using T by (auto simp: tracks_def)
  obtain bs a where H: "lrc_holds svc key v bs a E ptr" using T m unfolding tracks_def lrc_stored_def by blast
  from delete_ok [OF t H i] obtain ptr' where
    D: "memcached_delete_by_key_lrc svc key 0 i ptr = Inr (if replying ptr \<and> i \<in> E then MEMCACHED_NOTFOUND else MEMCACHED_SUCCESS, ptr')"
    "client_ok svc ptr'" "lrc_holds svc key v bs a (insert i E) ptr'" "only_key svc key ptr ptr'" by blast
  have "lrc_stored svc key v (insert i E) ptr'" using D(3) unfolding lrc_stored_def by blast
  from tracks_update [OF T D(2,4) this] show ?thesis using D(1) by auto
qed

lemma serve_repair:
  assumes T: "tracks svc ptr m" and m: "m key = Some (v, E)" and i: "i < number_of_n ptr" "E \<subseteq> {i}"
  shows "\<exists>ptr'. serve svc file (Repair key (length v) i) ptr = Inr (Done, ptr') \<and> tracks svc ptr' (m(key \<mapsto> (v, {}))) \<and> code_setup ptr' = code_setup ptr"
proof -
  have t: "client_ok svc ptr" using T by (auto simp: tracks_def)
  obtain bs a where H: "lrc_holds svc key v bs a E ptr" using T m unfolding tracks_def lrc_stored_def by blast
  from repair_ok [OF t H i, of True] obtain ptr' where
    D: "memcached_repair svc key (length v) i ptr = Inr ptr'"
    "client_ok svc ptr'" "lrc_holds svc key v bs a {} ptr'" "only_key svc key ptr ptr'" unfolding memcached_repair_def by blast
  have "lrc_stored svc key v {} ptr'" using D(3) unfolding lrc_stored_def by blast
  from tracks_update [OF T D(2,4) this] show ?thesis using D(1) by auto
qed

lemma serve_ok:
  assumes T: "tracks svc ptr m" and P: "permitted (number_of_n ptr) (number_of_k ptr) (number_of_r ptr) m req"
    and s: "spec (number_of_k ptr) (number_of_r ptr) (replying ptr) m req = (reply, m')"
  shows "\<exists>ptr'. serve svc file req ptr = Inr (reply, ptr') \<and> tracks svc ptr' m' \<and> code_setup ptr' = code_setup ptr"
proof (cases req)
  case (Set key v)
  then show ?thesis using serve_set [OF T, of key v "file"] P s by (simp del: serve.simps permitted.simps)
next
  case (Get key len)
  then show ?thesis using serve_get [OF T] P s by (auto split: option.splits simp del: serve.simps)
next
  case (Delete key i)
  then show ?thesis using serve_delete [OF T] P s by (auto split: option.splits simp del: serve.simps)
next
  case (Repair key len i)
  then show ?thesis using serve_repair [OF T] P s by (auto split: option.splits simp del: serve.simps)
qed

end

section \<open>Sessions\<close>

text \<open>
  A session interleaves requests of the client and blocks that a server drops by itself.  \<open>permitted_trace\<close>
  says that every request is permitted when its turn comes, \<open>obeys\<close> that the replies are those of the
  abstract store, and \<open>after\<close> gives the abstract store at the end.
\<close>

datatype event = Answer request reply | Evict string nat

definition evicted :: "'srv service \<Rightarrow> nat \<Rightarrow> string \<Rightarrow> 'srv \<Rightarrow> 'srv \<Rightarrow> bool" where
  "evicted svc a key s s' \<longleftrightarrow> (\<forall>b. srv_up svc b s' = srv_up svc b s) \<and>
     (\<forall>b key'. srv_get svc b key' s' = (if b = a \<and> key' = key then None else srv_get svc b key' s))"

inductive session :: "'srv service \<Rightarrow> string list option \<Rightarrow> 'srv memcached \<Rightarrow> event list \<Rightarrow> 'srv memcached \<Rightarrow> bool" for svc "file" where
  idle: "session svc file ptr [] ptr"
| answer: "serve svc file req ptr = Inr (reply, p) \<Longrightarrow> session svc file p es q \<Longrightarrow> session svc file ptr (Answer req reply # es) q"
| evict: "i < number_of_n ptr \<Longrightarrow> evicted svc (node2rack ptr ! i) (block_key key i) (servers ptr) s \<Longrightarrow>
    session svc file (ptr\<lparr>servers := s\<rparr>) es q \<Longrightarrow> session svc file ptr (Evict key i # es) q"

inductive_cases session_NilE: "session svc file ptr [] q"
inductive_cases session_AnswerE: "session svc file ptr (Answer req reply # es) q"
inductive_cases session_EvictE: "session svc file ptr (Evict key i # es) q"

definition lose :: "lrc_map \<Rightarrow> string \<Rightarrow> nat \<Rightarrow> lrc_map" where
  "lose m key i = (case m key of None \<Rightarrow> m | Some (v, E) \<Rightarrow> m(key \<mapsto> (v, insert i E)))"

fun permitted_trace :: "nat \<times> nat \<times> nat \<times> bool \<Rightarrow> lrc_map \<Rightarrow> event list \<Rightarrow> bool" where
  "permitted_trace c m [] \<longleftrightarrow> True"
| "permitted_trace (n, k, r, ack) m (Answer req reply # es) \<longleftrightarrow> permitted n k r m req \<and> permitted_trace (n, k, r, ack) (snd (spec k r ack m req)) es"
| "permitted_trace c m (Evict key i # es) \<longleftrightarrow> permitted_trace c (lose m key i) es"

fun obeys :: "nat \<times> nat \<times> nat \<times> bool \<Rightarrow> lrc_map \<Rightarrow> event list \<Rightarrow> bool" where
  "obeys c m [] \<longleftrightarrow> True"
| "obeys (n, k, r, ack) m (Answer req reply # es) \<longleftrightarrow> reply = fst (spec k r ack m req) \<and> obeys (n, k, r, ack) (snd (spec k r ack m req)) es"
| "obeys c m (Evict key i # es) \<longleftrightarrow> obeys c (lose m key i) es"

fun after :: "nat \<times> nat \<times> nat \<times> bool \<Rightarrow> lrc_map \<Rightarrow> event list \<Rightarrow> lrc_map" where
  "after c m [] = m"
| "after (n, k, r, ack) m (Answer req reply # es) = after (n, k, r, ack) (snd (spec k r ack m req)) es"
| "after c m (Evict key i # es) = after c (lose m key i) es"

lemma evict_holds:
  assumes ok: "client_ok svc ptr" and H: "lrc_holds svc key' v bs a E ptr" and i: "i < number_of_n ptr"
    and V: "evicted svc (node2rack ptr ! i) (block_key key i) (servers ptr) s"
  shows "lrc_holds svc key' v bs a (if key' = key then insert i E else E) (ptr\<lparr>servers := s\<rparr>)"
proof -
  have "number_of_n ptr \<le> 20" using ok by (simp add: client_ok_def)
  then have "block_key key x = block_key key i \<longleftrightarrow> x = i" if "x < number_of_n ptr" for x
    using block_key_inj [of x i key] that i by auto
  moreover have "block_key key' x \<noteq> block_key key i" if "key' \<noteq> key" for x using that by (rule block_key_other)
  ultimately show ?thesis using H V i by (cases "key' = key") (simp_all add: lrc_holds_def evicted_def)
qed

lemma tracks_evict:
  assumes T: "tracks svc ptr m" and i: "i < number_of_n ptr"
    and V: "evicted svc (node2rack ptr ! i) (block_key key i) (servers ptr) s"
  shows "tracks svc (ptr\<lparr>servers := s\<rparr>) (lose m key i)"
proof -
  have ok: "client_ok svc ptr" using T by (simp add: tracks_def)
  have "lrc_stored svc key' v' (if key' = key then insert i E' else E') (ptr\<lparr>servers := s\<rparr>)" if "m key' = Some (v', E')" for key' v' E'
    using evict_holds [OF ok _ i V] T that unfolding tracks_def lrc_stored_def by metis
  moreover have "client_ok svc (ptr\<lparr>servers := s\<rparr>)" using ok V by (simp add: client_ok_def evicted_def)
  ultimately show ?thesis using T by (fastforce simp: tracks_def lose_def split: option.splits if_splits prod.splits)
qed

context kv_service
begin

lemma session_ok:
  assumes "session svc file ptr es q" "tracks svc ptr m" "permitted_trace (code_setup ptr) m es"
  shows "obeys (code_setup ptr) m es \<and> tracks svc q (after (code_setup ptr) m es) \<and> code_setup q = code_setup ptr"
  using assms
proof (induction arbitrary: m rule: session.induct)
  case (answer req ptr reply p es q)
  obtain reply' m' where s: "spec (number_of_k ptr) (number_of_r ptr) (replying ptr) m req = (reply', m')" by (cases "spec (number_of_k ptr) (number_of_r ptr) (replying ptr) m req")
  have pm: "permitted (number_of_n ptr) (number_of_k ptr) (number_of_r ptr) m req" "permitted_trace (code_setup ptr) m' es"
    using answer.prems(2) s by (simp_all add: code_setup_def)
  obtain p' where p': "serve svc file req ptr = Inr (reply', p')" "tracks svc p' m'" "code_setup p' = code_setup ptr"
    using serve_ok [OF answer.prems(1) pm(1) s, of "file"] by blast
  then have e: "reply = reply'" "p' = p" using answer.hyps(1) by simp_all
  show ?case using answer.IH [of m'] p'(2,3) pm(2) s unfolding e by (simp add: code_setup_def)
next
  case (evict i ptr key s es q)
  have "code_setup (ptr\<lparr>servers := s\<rparr>) = code_setup ptr" by (simp add: code_setup_def)
  then show ?case using evict.IH [OF tracks_evict [OF evict.prems(1) evict.hyps(1,2)]] evict.prems(2) by simp
qed simp

lemma session_extends:
  assumes "session svc file ptr es q" "tracks svc ptr m" "permitted_trace (code_setup ptr) m (es @ [Answer req reply])"
    "reply = fst (spec (number_of_k ptr) (number_of_r ptr) (replying ptr) (after (code_setup ptr) m es) req)"
  shows "\<exists>q'. session svc file ptr (es @ [Answer req reply]) q'"
  using assms
proof (induction arbitrary: m rule: session.induct)
  case (idle ptr)
  obtain m' where s: "spec (number_of_k ptr) (number_of_r ptr) (replying ptr) m req = (reply, m')" using idle.prems(3) by (simp add: prod_eq_iff)
  have pm: "permitted (number_of_n ptr) (number_of_k ptr) (number_of_r ptr) m req" using idle.prems(2) by (simp add: code_setup_def)
  obtain p' where "serve svc file req ptr = Inr (reply, p')" using serve_ok [OF idle.prems(1) pm s, of "file"] by blast
  then show ?case by (auto intro: session.intros)
next
  case (answer rq ptr rp p es q)
  obtain reply' m' where s: "spec (number_of_k ptr) (number_of_r ptr) (replying ptr) m rq = (reply', m')" by (cases "spec (number_of_k ptr) (number_of_r ptr) (replying ptr) m rq")
  have pm: "permitted (number_of_n ptr) (number_of_k ptr) (number_of_r ptr) m rq" "permitted_trace (code_setup ptr) m' (es @ [Answer req reply])"
    using answer.prems(2) s by (simp_all add: code_setup_def)
  obtain p' where p': "serve svc file rq ptr = Inr (reply', p')" "tracks svc p' m'" "code_setup p' = code_setup ptr"
    using serve_ok [OF answer.prems(1) pm(1) s, of "file"] by blast
  then have e: "rp = reply'" "p' = p" using answer.hyps(1) by simp_all
  have "reply = fst (spec (number_of_k p) (number_of_r p) (replying p) (after (code_setup p) m' es) req)"
    using answer.prems(3) p'(3) s unfolding e by (simp add: code_setup_def)
  from answer.IH [OF _ _ this] show ?case using p'(2,3) pm(2) answer.hyps(1) unfolding e by (auto intro: session.answer)
next
  case (evict i ptr key s es q)
  have u: "code_setup (ptr\<lparr>servers := s\<rparr>) = code_setup ptr" by (simp add: code_setup_def)
  from evict.IH [OF tracks_evict [OF evict.prems(1) evict.hyps(1,2)]] evict.prems(2,3) u evict.hyps(1,2)
  show ?case by (auto intro: session.evict)
qed

end

end
