(* ===== verification/Lrc_Limits.thy ===== *)
theory Lrc_Limits
  imports Lrc_Read
begin

text \<open>
  Where the operations of the client do not do their work: a value that does not reach into its last data
  block ends the program, and a lost data block in a group that also holds global parity blocks cannot be read.
\<close>

section \<open>Short values\<close>

lemma short_block:
  assumes "8 dvd bs" "length value \<le> k * bs" "value \<noteq> []" "length value < 8 * (k - 1)"
  shows "length value < bs * (k - 1)"
proof -
  have "0 < bs" using assms(2,3) by (cases "bs = 0") auto
  then have "8 \<le> bs" using assms(1) by (auto elim: dvdE)
  then have "8 * (k - 1) \<le> bs * (k - 1)" by (rule mult_le_mono1)
  then show ?thesis using assms(4) by linarith
qed

context kv_service
begin

lemma set_short:
  assumes ok: "client_ok svc ptr" and b: "0 < number_of_b ptr" and add: "rack_is_add ptr"
    and v: "value \<noteq> []" "length value < 8 * (number_of_k ptr - 1)" "length value < 2 ^ 63"
  shows "memcached_set svc file key value ptr = Inl Exit"
proof -
  let ?n = "number_of_n ptr" and ?k = "number_of_k ptr" and ?r = "number_of_r ptr"
  have P: "lrc_params ?n ?k ?r" and J: "jer_ok (jer ptr)" and c: "instances ptr \<noteq> []" "fail_node_index ptr < length (node2rack ptr)" "\<not> is_core ptr"
    using ok by (auto simp: client_ok_def)
  obtain bs a j where B: "lrc_blocks ?n ?k ?r value (jer ptr) = Inr (bs, map (piece ?k bs value) [0..<?k], a, j)" "lrc_coded ?n ?k ?r value bs a"
    using lrc_blocks_ok [OF P J v(3)] by (elim exE conjE) (rule that)
  have "length value < bs * (?k - 1)" using short_block [of bs "value" ?k] B(2) v(1,2) by (simp add: lrc_coded_def)
  then have "memcached_lrc_send_binary svc file sk key value ptr = Inl Exit" for sk
    unfolding memcached_lrc_send_binary_def Let_def B(1) run_bind_simps prod.case using add by simp
  then show ?thesis using P c b unfolding memcached_set_def lrc_params_def by simp
qed

end

section \<open>A data block of a group that is not full of data blocks\<close>

lemma find_key_eq: "find_key x keys < length keys \<Longrightarrow> keys ! find_key x keys = x"
  using scan_from_spec [of 0 "length keys" "\<lambda>j. keys ! j = x"] by (auto simp: find_key_def)

text \<open>When the answers never hold the last key, no parity block is known.\<close>

lemma parity_results_none:
  assumes "\<forall>xv \<in> set results. fst xv \<noteq> keys ! (to_fetch - 1)" "length keys = to_fetch" "0 < to_fetch"
  shows "(\<exists>ptrs'. parity_results to_fetch rn keys bs results (ptrs, None) = Inr (ptrs', None)) \<or>
    parity_results to_fetch rn keys bs results (ptrs, None) = Inl Undefined"
  using assms
proof (induction results arbitrary: ptrs)
  case (Cons x results)
  obtain item_key v where x: "x = (item_key, v)" by (cases x)
  have "find_key item_key keys \<noteq> to_fetch - 1" using find_key_eq [of item_key keys] Cons.prems x by auto
  moreover have "copy_block bs v = Inl Undefined \<or> (\<exists>b. copy_block bs v = Inr b)" by (auto simp: copy_block_def memcpy_def)
  ultimately show ?case using Cons.IH Cons.prems unfolding x by (auto simp: Let_def) metis
qed simp

lemma mget_send_known:
  assumes "\<forall>(sk, key) \<in> set sent. key \<in> K \<and> key_server ptr key = Some sk" "set keys \<subseteq> K"
  shows "case mget_send svc ptr keys (rc, pending, sent) of Inl e \<Rightarrow> e = Undefined
    | Inr (rc', pending', sent') \<Rightarrow> \<forall>(sk, key) \<in> set sent'. key \<in> K \<and> key_server ptr key = Some sk"
  using assms
proof (induction keys arbitrary: rc pending sent)
  case (Cons key keys)
  show ?case
  proof (cases "key_server ptr key")
    case (Some sk)
    have K: "\<forall>(sk, key) \<in> set (sent @ [(sk, key)]). key \<in> K \<and> key_server ptr key = Some sk" "set keys \<subseteq> K" using Cons.prems Some by auto
    show ?thesis using Cons.IH [OF K(1,2)] Cons.IH [OF Cons.prems(1) K(2)] Some by auto
  qed simp
qed auto

lemma last_group:
  assumes P: "lrc_params n k r" and last: "local_group_number n r = g + 1" and d: "g * r < k"
  shows "n \<le> (g + 1) * (r + 1)" "g * (r + 1) + (k - g * r) < n"
proof -
  have n: "local_group_number n r + k \<le> n" "0 < r" using P by (auto simp: lrc_params_def)
  have "n + r < (local_group_number n r + 1) * (r + 1)" unfolding local_group_number_def
    by (metis Suc_eq_plus1 add.commute dividend_less_div_times mult_Suc zero_less_Suc)
  then show "n \<le> (g + 1) * (r + 1)" unfolding last by (simp add: algebra_simps)
  show "g * (r + 1) + (k - g * r) < n" using n last d by (simp add: algebra_simps)
qed

context kv_service
begin

lemma mget_known:
  "case memcached_mget svc ptr keys of Inl e \<Rightarrow> e = Undefined
   | Inr (rc, results) \<Rightarrow> \<forall>(key, v) \<in> set results. key \<in> set keys \<and> (\<exists>sk. key_server ptr key = Some sk \<and> srv_get svc sk key (servers ptr) = Some v)"
  using mget_send_known [of "[]" "set keys" ptr keys svc MEMCACHED_SUCCESS "[]"]
  by (force simp: memcached_mget_def mget_results_def split: sum.splits option.splits)

text \<open>Without a parity block the repair uses a pointer that was never set.\<close>

lemma get_repair_none:
  assumes "k = number_of_k ptr" "r = number_of_r ptr" "k mod r \<noteq> 0" "d div r = (k - 1) div r" "d < k" "0 < r" "number_of_n ptr + r \<le> 800"
    and last: "number_of_n ptr \<le> (d div r + 1) * (r + 1)" "d div r * (r + 1) + (k - d div r * r) < number_of_n ptr"
    and none: "\<forall>i. number_of_n ptr \<le> i \<longrightarrow> i < 800 \<longrightarrow> key_server ptr (block_key key i) = None \<or>
      srv_get svc (the (key_server ptr (block_key key i))) (block_key key i) (servers ptr) = None"
  shows "get_repair svc key d bs ls sv ptr = Inl Undefined"
proof -
  let ?n = "number_of_n ptr" and ?p = "ptr\<lparr>fail_node_index := d + d div r\<rparr>"
  define g where "g = d div r"
  let ?base = "g * (r + 1)"
  define tf where "tf = ?n - ?base - (k - g * r)"
  define keys where "keys = map (\<lambda>bi. block_key key (?base + r + bi)) [0..<tf]"
  have kr: "k - g * r < r"
  proof -
    have "(k - 1) div r = k div r" using assms(3,5,6) by (metis Suc_diff_1 div_Suc gr_implies_not0 less_imp_Suc_add mod_Suc mod_less_divisor nat.distinct(1) neq0_conv)
    then have "g * r = k div r * r" using assms(4) by (simp add: g_def)
    then have "k - g * r = k mod r" by (simp only: minus_div_mult_eq_mod)
    then show ?thesis using assms(6) by simp
  qed
  have tf: "0 < tf" "length keys = tf" "?n \<le> ?base + r + (tf - 1)" "?base + r + (tf - 1) < 800" using last kr assms(7) unfolding tf_def keys_def g_def by auto
  have rn: "(if (g + 1) * (r + 1) > ?n then ?n - ?base else r + 1) = ?n - ?base" using last(1) unfolding g_def by auto
  have tfe: "(if k mod r \<noteq> 0 \<and> g = (k - 1) div r then ?n - ?base - (k - g * r) else 1) = tf" using assms(3,4) by (simp add: tf_def g_def)
  have ks: "key_server ?p x = key_server ptr x" for x by (simp add: key_server_def)
  have M: "memcached_mget svc ?p keys = Inl Undefined \<or> (\<exists>rc results. memcached_mget svc ?p keys = Inr (rc, results) \<and>
      (\<forall>xv \<in> set results. fst xv \<noteq> keys ! (tf - 1)))"
  proof (cases "memcached_mget svc ?p keys")
    case (Inr x)
    obtain rc results where x: "x = (rc, results)" by (cases x)
    have K: "keys ! (tf - 1) = block_key key (?base + r + (tf - 1))" using tf(1) by (simp add: keys_def)
    have "fst xv \<noteq> keys ! (tf - 1)" if "xv \<in> set results" for xv
      using mget_known [where ptr = ?p and keys = keys] that none [rule_format, OF tf(3,4)] unfolding Inr x K by (force simp: ks)
    then show ?thesis using Inr x by blast
  qed (use mget_known [where ptr = ?p and keys = keys] in simp)
  have C: "run_bind (cfor 0 c (\<lambda>bi ptr. run_bind (get_ptr None) (F bi ptr)) q) (\<lambda>ptr. run_bind (get_ptr None) (G ptr)) = Inl Undefined"
    for c q and F :: "nat \<Rightarrow> 'srv memcached \<Rightarrow> byte list \<Rightarrow> fault + 'srv memcached" and G :: "'srv memcached \<Rightarrow> byte list \<Rightarrow> fault + (byte list \<times> 'srv memcached)"
  proof (induction c)
    case (Suc c)
    then show ?case by (cases "cfor 0 c (\<lambda>bi ptr. run_bind (get_ptr None) (F bi ptr)) q") (auto simp: cfor_Suc get_ptr_def)
  qed (simp add: get_ptr_def)
  have nr: "node_rack (ptr\<lparr>fail_node_index := x\<rparr>) = node_rack ptr" for x by simp
  obtain ptrs f c where G: "group_ptrs (node_rack ptr) (k + (k - 1) div r - 1) (sv[d := Some (replicate bs 0)]) ?base (g * r)
      [?base..<?base + (?n - ?base) - 1] (replicate (?n - ?base) None, node_rack ptr ! ?base, 0) = (ptrs, f, c)"
    by (metis prod_cases3)
  note unfold = get_repair_def Let_def assms(1,2) [symmetric] g_def [symmetric] nr rn tfe keys_def [symmetric] G prod.case
  show ?thesis
  proof (cases "memcached_mget svc ?p keys")
    case (Inl e)
    then have "e = Undefined" using M by simp
    then show ?thesis unfolding unfold Inl [folded g_def] by (simp only: run_bind_simps if_cancel)
  next
    case (Inr x)
    obtain rc results where x: "x = (rc, results)" by (cases x)
    have R: "\<forall>xv \<in> set results. fst xv \<noteq> keys ! (tf - 1)" using M Inr x by auto
    have "(\<exists>ptrs'. (if rc \<noteq> MEMCACHED_SUCCESS then Inr (ptrs, None) else parity_results tf (?n - ?base) keys bs results (ptrs, None)) = Inr (ptrs', None)) \<or>
        (if rc \<noteq> MEMCACHED_SUCCESS then Inr (ptrs, None) else parity_results tf (?n - ?base) keys bs results (ptrs, None)) = Inl Undefined"
      using parity_results_none [OF R tf(2,1)] by auto
    then show ?thesis unfolding unfold Inr [folded g_def] x run_bind_simps
      by (elim disjE exE) (simp_all only: run_bind_simps prod.case C if_cancel)
  qed
qed

lemma get_partial_group:
  assumes ok: "client_ok svc ptr" and H: "lrc_holds svc key value bs a {d + d div number_of_r ptr} ptr" and d: "d < number_of_k ptr"
    and part: "number_of_k ptr mod number_of_r ptr \<noteq> 0" "d div number_of_r ptr = (number_of_k ptr - 1) div number_of_r ptr"
    and last: "local_group_number (number_of_n ptr) (number_of_r ptr) = d div number_of_r ptr + 1"
    and none: "\<forall>i. number_of_n ptr \<le> i \<longrightarrow> i < 20 \<longrightarrow> node2rack ptr ! i \<noteq> network_core_server_key ptr \<and>
      srv_get svc (node2rack ptr ! i) (block_key key i) (servers ptr) = None"
  shows "memcached_get_lrc svc key (length value) ptr = Inl Undefined"
proof -
  let ?n = "number_of_n ptr" and ?k = "number_of_k ptr" and ?r = "number_of_r ptr"
  let ?keys = "map (\<lambda>i. block_key key (i + i div ?r)) [0..<?k]"
  let ?ls = "length value - bs * (?k - 1)" and ?sv = "map (\<lambda>x. if x = d then None else Some (piece ?k bs value x)) [0..<?k]"
  note S = get_start [OF H]
  have "x + x div ?r = d + d div ?r \<longleftrightarrow> x = d" for x using data_index_mono [of x d ?r] data_index_mono [of d x ?r] by (metis less_irrefl nat_neq_iff)
  then have svE: "map (\<lambda>x. if x + x div ?r \<in> {d + d div ?r} then None else Some (piece ?k bs value x)) [0..<?k] = ?sv" by simp
  obtain results where R: "memcached_mget svc ptr ?keys = Inr (MEMCACHED_SUCCESS, results)"
    "get_results ?k ?keys results (replicate ?k None, bs, ?ls) = Inr (?sv, bs, ?ls)"
    using get_prefix [OF ok H] unfolding svE by (elim exE conjE) (rule that)
  have f: "find_failed ?n ?sv = d" by (rule find_failed_one) (use d in auto)
  have dn: "d \<noteq> ?n" using data_index [OF S(7) d] by linarith
  obtain p where p: "cfor 0 ?k (\<lambda>i ptr. if i \<noteq> d then run_bind (get_ptr (?sv ! i)) (\<lambda>v.
      cross_networkcore_libmemcached svc (?keys ! i) (take bs v) ptr) else Inr ptr) ptr = Inr p" "core_only svc ptr p"
    using get_traffic [OF ok, of ?k d ?sv ?keys bs] by auto
  note pf = core_only_fields [OF p(2)]
  have r: "0 < ?r" using S(7) by (simp add: lrc_params_def)
  have L: "?n \<le> (d div ?r + 1) * (?r + 1)" "d div ?r * (?r + 1) + (?k - d div ?r * ?r) < ?n"
    using last_group [OF S(7) last] d div_times_less_eq_dividend [of d ?r] by (meson le_less_trans)+
  have c: "?n \<le> 20" "length (node2rack ptr) = 20" "\<not> is_core ptr" "?r < 256" using ok by (auto simp: client_ok_def lrc_params_def)
  have N: "\<forall>i. number_of_n p \<le> i \<longrightarrow> i < 800 \<longrightarrow> key_server p (block_key key i) = None \<or>
      srv_get svc (the (key_server p (block_key key i))) (block_key key i) (servers p) = None"
  proof (intro allI impI)
    fix i assume i: "number_of_n p \<le> i" "i < 800"
    show "key_server p (block_key key i) = None \<or> srv_get svc (the (key_server p (block_key key i))) (block_key key i) (servers p) = None"
      using key_index_block_key [OF i(2), of key] none i(1) core_only_get [OF p(2)] c pf by (cases "i < 20") (auto simp: key_server_def)
  qed
  have "get_repair svc key d bs ?ls ?sv p = Inl Undefined"
    by (rule get_repair_none [where k = ?k and r = ?r]) (use pf part d r L N c in simp_all)
  then show ?thesis
    unfolding memcached_get_lrc_def Let_def S(1) run_bind_simps S(2,3) R(1)
    by (simp only: prod.case R(2) f p(1) dn simp_thms if_True if_False run_bind_simps not_False_eq_True)
qed

end

end
