(* ===== verification/Light_Service.thy ===== *)
theory Light_Service
  imports Light_Storage_Correct Lrc_Session Lrc_Limits
begin

unbundle bit_operations_syntax

text \<open>
  Servers that run \<^verbatim>\<open>memcached_light\<close> are servers the client can rely on: the interface \<open>kv_service\<close> holds of them.
\<close>

section \<open>The servers of a client\<close>

text \<open>The status of an answer as the client reads it.\<close>

fun status_return :: "protocol_binary_response_status \<Rightarrow> memcached_return_t" where
  "status_return PROTOCOL_BINARY_RESPONSE_SUCCESS = MEMCACHED_SUCCESS"
| "status_return PROTOCOL_BINARY_RESPONSE_KEY_ENOENT = MEMCACHED_NOTFOUND"
| "status_return PROTOCOL_BINARY_RESPONSE_KEY_EEXISTS = MEMCACHED_DATA_EXISTS"
| "status_return PROTOCOL_BINARY_RESPONSE_NOT_STORED = MEMCACHED_NOTSTORED"
| "status_return PROTOCOL_BINARY_RESPONSE_E2BIG = MEMCACHED_E2BIG"
| "status_return PROTOCOL_BINARY_RESPONSE_ENOMEM = MEMCACHED_MEMORY_ALLOCATION_FAILURE"
| "status_return PROTOCOL_BINARY_RESPONSE_AUTH_CONTINUE = MEMCACHED_AUTH_CONTINUE"
| "status_return PROTOCOL_BINARY_RESPONSE_AUTH_ERROR = MEMCACHED_AUTH_FAILURE"
| "status_return _ = MEMCACHED_UNKNOWN_READ_FAILURE"

text \<open>A storage that the operations keep well formed, on a machine with memory enough.\<close>

definition empty_storage :: storage where
  "empty_storage = \<lparr>entries = Map.empty, root = 0, cas_count = 0, brk = 1, allocs = [], fill = (\<lambda>_. 0)\<rparr>"

lemma empty_represents: "represents empty_storage Map.empty"
  unfolding represents_def by (intro exI [of _ "[]"]) (simp add: ring_def view_def empty_storage_def)

typedef light = "{st. (\<exists>m. represents st m) \<and> allocs st = []}"
  morphisms storage_of Light
proof (rule exI [of _ empty_storage])
  have "allocs empty_storage = []" by (simp add: empty_storage_def)
  then show "empty_storage \<in> {st. (\<exists>m. represents st m) \<and> allocs st = []}" using empty_represents by blast
qed

definition light_get :: "string \<Rightarrow> light \<Rightarrow> byte list option" where
  "light_get key s = (case get_handler key (storage_of s) of Inr (rc, Some (d, f, c)) \<Rightarrow> Some d | _ \<Rightarrow> None)"

definition light_set :: "string \<Rightarrow> byte list \<Rightarrow> light \<Rightarrow> memcached_return_t \<times> light" where
  "light_set key v s =
     (case set_handler key v 0 0 0 (storage_of s) of
        Inr (rc, c, st) \<Rightarrow> (status_return rc, Light st)
      | Inl e \<Rightarrow> (MEMCACHED_CONNECTION_FAILURE, s))"

definition light_delete :: "string \<Rightarrow> light \<Rightarrow> memcached_return_t \<times> light" where
  "light_delete key s =
     (case delete_handler key 0 (storage_of s) of
        Inr (rc, st) \<Rightarrow> (status_return rc, Light st)
      | Inl e \<Rightarrow> (MEMCACHED_CONNECTION_FAILURE, s))"

lemma light_rep: "\<exists>m. represents (storage_of s) m \<and> allocs (storage_of s) = []"
  using storage_of [of s] by blast

lemma light_get_represents: "represents (storage_of s) m \<Longrightarrow> light_get key s = map_option (\<lambda>(d, f, x, c). d) (m key)"
  using get_handler_represents [of "storage_of s" m key] by (auto simp: light_get_def split: option.splits)

lemma light_set_ok: "\<exists>s'. light_set key v s = (MEMCACHED_SUCCESS, s') \<and> (\<forall>key'. light_get key' s' = (if key' = key then Some v else light_get key' s))"
proof -
  obtain m where m: "represents (storage_of s) m" "allocs (storage_of s) = []" using light_rep by blast
  obtain st' c where S: "set_handler key v 0 0 0 (storage_of s) = Inr (PROTOCOL_BINARY_RESPONSE_SUCCESS, c, st')"
    "represents st' (m(key \<mapsto> (v, 0, 0, cas_count (storage_of s) + 1)))" "allocs st' = []"
    using set_handler_represents [OF m, of key v 0 0 0] by (auto simp: cas_differs_def)
  have l: "storage_of (Light st') = st'" using S(2,3) by (intro Light_inverse) auto
  have "light_get key' (Light st') = (if key' = key then Some v else light_get key' s)" for key'
    using light_get_represents [of "Light st'", unfolded l, OF S(2)] light_get_represents [OF m(1)] by simp
  then show ?thesis using S(1) by (simp add: light_set_def)
qed

lemma light_delete_ok:
  "\<exists>s'. light_delete key s = (if light_get key s = None then MEMCACHED_NOTFOUND else MEMCACHED_SUCCESS, s') \<and>
    (\<forall>key'. light_get key' s' = (if key' = key then None else light_get key' s))"
proof -
  obtain m where m: "represents (storage_of s) m" "allocs (storage_of s) = []" using light_rep by blast
  obtain st' where S: "delete_handler key 0 (storage_of s) =
      Inr (if m key = None then PROTOCOL_BINARY_RESPONSE_KEY_ENOENT else PROTOCOL_BINARY_RESPONSE_SUCCESS, st')"
    "represents st' (m(key := None))" "allocs st' = []"
    using delete_handler_represents [OF m(1), of key 0] m(2) by auto
  have l: "storage_of (Light st') = st'" using S(2,3) by (intro Light_inverse) auto
  have "light_get key' (Light st') = (if key' = key then None else light_get key' s)" for key'
    using light_get_represents [of "Light st'", unfolded l, OF S(2)] light_get_represents [OF m(1)] by simp
  moreover have "light_get key s = None \<longleftrightarrow> m key = None" using light_get_represents [OF m(1)] by simp
  ultimately show ?thesis using S(1) by (simp add: light_delete_def)
qed

text \<open>
  Servers that run \<^verbatim>\<open>memcached_light\<close>: the storage of each, its last answer, and whether it can be reached.  The
  answers to several requests arrive in the order of the requests.
\<close>

record light_servers =
  stores :: "nat \<Rightarrow> light"
  answers :: "nat \<Rightarrow> memcached_return_t"
  reachable :: "nat \<Rightarrow> bool"

definition light_service :: "light_servers service" where
  "light_service =
     \<lparr>srv_up = (\<lambda>a s. reachable s a),
      srv_set = (\<lambda>a key v s. case light_set key v (stores s a) of
         (rc, s') \<Rightarrow> s\<lparr>stores := (stores s)(a := s'), answers := (answers s)(a := rc)\<rparr>),
      srv_delete = (\<lambda>a key s. case light_delete key (stores s a) of
         (rc, s') \<Rightarrow> s\<lparr>stores := (stores s)(a := s'), answers := (answers s)(a := rc)\<rparr>),
      srv_get = (\<lambda>a key s. light_get key (stores s a)),
      srv_response = (\<lambda>a s. answers s a),
      arrival = (\<lambda>xs. xs)\<rparr>"

lemma light_service_set:
  "\<exists>s'. srv_set light_service a key v s = s\<lparr>stores := (stores s)(a := s'), answers := (answers s)(a := MEMCACHED_SUCCESS)\<rparr> \<and>
    (\<forall>key'. light_get key' s' = (if key' = key then Some v else light_get key' (stores s a)))"
  using light_set_ok [of key v "stores s a"] by (auto simp: light_service_def)

lemma light_service_delete:
  "\<exists>s'. srv_delete light_service a key s = s\<lparr>stores := (stores s)(a := s'),
      answers := (answers s)(a := if light_get key (stores s a) = None then MEMCACHED_NOTFOUND else MEMCACHED_SUCCESS)\<rparr> \<and>
    (\<forall>key'. light_get key' s' = (if key' = key then None else light_get key' (stores s a)))"
  using light_delete_ok [of key "stores s a"] by (auto simp: light_service_def)

lemma light_service_fields:
  "srv_up light_service a s = reachable s a" "srv_get light_service a key s = light_get key (stores s a)"
  "srv_response light_service a s = answers s a" "arrival light_service xs = xs"
  by (simp_all add: light_service_def)

lemma light_service_ok: "service_ok light_service"
proof -
  have S: "srv_get light_service b key' (srv_set light_service a key v s) = (if b = a \<and> key' = key then Some v else srv_get light_service b key' s)"
    "srv_up light_service b (srv_set light_service a key v s) = srv_up light_service b s"
    "srv_response light_service b (srv_set light_service a key v s) = (if b = a then MEMCACHED_SUCCESS else srv_response light_service b s)"
    for a b key key' v s
    using light_service_set [of a key v s] by (auto simp: light_service_fields)
  have D: "srv_get light_service b key' (srv_delete light_service a key s) = (if b = a \<and> key' = key then None else srv_get light_service b key' s)"
    "srv_up light_service b (srv_delete light_service a key s) = srv_up light_service b s"
    "srv_response light_service b (srv_delete light_service a key s) =
      (if b = a then if srv_get light_service a key s = None then MEMCACHED_NOTFOUND else MEMCACHED_SUCCESS else srv_response light_service b s)"
    for a b key key' s
    using light_service_delete [of a key s] by (auto simp: light_service_fields)
  show ?thesis unfolding service_ok_def using S D by (simp add: light_service_fields(4))
qed

interpretation light: kv_service light_service
  by unfold_locales (rule light_service_ok)

end
