(* ===== verification/Light_Cache.thy ===== *)
theory Light_Cache
  imports Light_Storage_Correct
begin

text \<open>
  The handlers of \<^verbatim>\<open>example/interface_v1.cc\<close> as one machine.  The abstract server is a map from keys to items
  and the last cas number; \<open>handle_ok\<close> is the simulation, for every command and every branch.
\<close>

section \<open>Commands\<close>

datatype command =
    Add string "byte list" "32 word" int
  | Append string "byte list" "64 word"
  | Prepend string "byte list" "64 word"
  | Replace string "byte list" "32 word" int "64 word"
  | Store string "byte list" "32 word" int "64 word"
  | Remove string "64 word"
  | Fetch string
  | Increment string "64 word" "64 word" "32 word"
  | Decrement string "64 word" "64 word" "32 word"
  | Flush

text \<open>What a handler gives back: the status, the new cas number, the counter and the item that was read.\<close>

type_synonym result = "protocol_binary_response_status \<times> 64 word option \<times> 64 word option \<times> (byte list \<times> 32 word \<times> 64 word) option"

definition answered :: "fault + answer \<Rightarrow> fault + (result \<times> storage)" where
  "answered a = run_bind a (\<lambda>(rc, cas, st). Inr ((rc, cas, None, None), st))"

definition counted :: "fault + (64 word option \<times> answer) \<Rightarrow> fault + (result \<times> storage)" where
  "counted a = run_bind a (\<lambda>(val, rc, cas, st). Inr ((rc, cas, val, None), st))"

fun handle :: "command \<Rightarrow> storage \<Rightarrow> fault + (result \<times> storage)" where
  "handle (Add key data flags exptime) st = answered (add_handler key data flags exptime st)"
| "handle (Append key val cas) st = answered (append_handler key val cas st)"
| "handle (Prepend key val cas) st = answered (prepend_handler key val cas st)"
| "handle (Replace key data flags exptime cas) st = answered (replace_handler key data flags exptime cas st)"
| "handle (Store key data flags exptime cas) st = answered (set_handler key data flags exptime cas st)"
| "handle (Remove key cas) st = run_bind (delete_handler key cas st) (\<lambda>(rc, st). Inr ((rc, None, None, None), st))"
| "handle (Fetch key) st = run_bind (get_handler key st) (\<lambda>(rc, item). Inr ((rc, None, None, item), st))"
| "handle (Increment key delta initial expiration) st = counted (increment_handler key delta initial expiration st)"
| "handle (Decrement key delta initial expiration) st = counted (decrement_handler key delta initial expiration st)"
| "handle Flush st = (case flush_handler st of (rc, st) \<Rightarrow> Inr ((rc, None, None, None), st))"

section \<open>The cache\<close>

text \<open>The abstract server: a map and the last cas number that was given out.\<close>

type_synonym cache = "(string \<rightharpoonup> content) \<times> 64 word"

definition failed :: "protocol_binary_response_status \<Rightarrow> cache \<Rightarrow> result \<times> cache" where
  "failed rc c = ((rc, None, None, None), c)"

definition keep_item :: "string \<Rightarrow> byte list \<Rightarrow> 32 word \<Rightarrow> int \<Rightarrow> 64 word option \<Rightarrow> cache \<Rightarrow> result \<times> cache" where
  "keep_item key data flags exptime val = (\<lambda>(m, c).
     ((PROTOCOL_BINARY_RESPONSE_SUCCESS, Some (c + 1), val, None), (m(key \<mapsto> (data, flags, exptime, c + 1)), c + 1)))"

text \<open>A key that has to be there, and whose cas number has to be \<open>cas\<close> unless that is 0.\<close>

definition guarded :: "string \<Rightarrow> 64 word \<Rightarrow> (content \<Rightarrow> cache \<Rightarrow> result \<times> cache) \<Rightarrow> cache \<Rightarrow> result \<times> cache" where
  "guarded key cas k = (\<lambda>(m, c).
     case m key of
       None \<Rightarrow> failed PROTOCOL_BINARY_RESPONSE_KEY_ENOENT (m, c)
     | Some i \<Rightarrow> if cas_differs cas (Some i) then failed PROTOCOL_BINARY_RESPONSE_KEY_EEXISTS (m, c) else k i (m, c))"

definition counts :: "(64 word \<Rightarrow> 64 word \<Rightarrow> 64 word) \<Rightarrow> string \<Rightarrow> 64 word \<Rightarrow> 64 word \<Rightarrow> 32 word \<Rightarrow> cache \<Rightarrow> result \<times> cache" where
  "counts calc key delta initial expiration = (\<lambda>(m, c).
     let val = counter_next calc delta initial (m key)
     in keep_item key (counter_bytes val) 0 (uint (counter_expires expiration (m key))) (Some val) (m, c))"

fun cache_step :: "command \<Rightarrow> cache \<Rightarrow> result \<times> cache" where
  "cache_step (Add key data flags exptime) (m, c) =
     (if m key = None then keep_item key data flags exptime None (m, c) else failed PROTOCOL_BINARY_RESPONSE_KEY_EEXISTS (m, c))"
| "cache_step (Append key val cas) s = guarded key cas (\<lambda>(d, f, x, i). keep_item key (d @ val) f x None) s"
| "cache_step (Prepend key val cas) s = guarded key cas (\<lambda>(d, f, x, i). keep_item key (val @ d) f x None) s"
| "cache_step (Replace key data flags exptime cas) s = guarded key cas (\<lambda>i. keep_item key data flags exptime None) s"
| "cache_step (Store key data flags exptime cas) (m, c) =
     (if cas_differs cas (m key) then failed PROTOCOL_BINARY_RESPONSE_KEY_EEXISTS (m, c) else keep_item key data flags exptime None (m, c))"
| "cache_step (Remove key cas) s = guarded key cas (\<lambda>i (m, c). ((PROTOCOL_BINARY_RESPONSE_SUCCESS, None, None, None), (m(key := None), c))) s"
| "cache_step (Fetch key) s = guarded key 0 (\<lambda>(d, f, x, i) s. ((PROTOCOL_BINARY_RESPONSE_SUCCESS, None, None, Some (d, f, i)), s)) s"
| "cache_step (Increment key delta initial expiration) s = counts (\<lambda>old delta. old + delta) key delta initial expiration s"
| "cache_step (Decrement key delta initial expiration) s = counts (\<lambda>old delta. if delta > old then 0 else old - delta) key delta initial expiration s"
| "cache_step Flush s = ((PROTOCOL_BINARY_RESPONSE_SUCCESS, None, None, None), s)"

text \<open>A counter has eight bytes, and the key of an increment fits into the buffer it is copied to.\<close>

definition counter_ok :: "string \<Rightarrow> cache \<Rightarrow> bool" where
  "counter_ok key = (\<lambda>(m, c). case m key of None \<Rightarrow> True | Some (d, f, x, i) \<Rightarrow> 8 \<le> length d)"

fun sane :: "command \<Rightarrow> cache \<Rightarrow> bool" where
  "sane (Increment key delta initial expiration) s \<longleftrightarrow> counter_ok key s \<and> length key \<le> 1024"
| "sane (Decrement key delta initial expiration) s \<longleftrightarrow> counter_ok key s"
| "sane _ s \<longleftrightarrow> True"

definition caches :: "storage \<Rightarrow> cache \<Rightarrow> bool" where
  "caches st s \<longleftrightarrow> represents st (fst s) \<and> allocs st = [] \<and> cas_count st = snd s"

lemmas cache_defs = answered_def counted_def failed_def keep_item_def guarded_def caches_def

lemma handle_ok:
  assumes C: "caches st s" and S: "sane cmd s" and r: "cache_step cmd s = (result, s')"
  shows "\<exists>st'. handle cmd st = Inr (result, st') \<and> caches st' s'"
proof -
  obtain m c where s: "s = (m, c)" by (cases s)
  have M: "represents st m" "allocs st = []" and c: "cas_count st = c" using C by (auto simp: caches_def s)
  show ?thesis
  proof (cases cmd)
    case (Add key data flags exptime)
    then show ?thesis using add_handler_represents [OF M, of key data flags exptime] r c by (auto simp: s cache_defs split: if_splits)
  next
    case (Append key val cas)
    then show ?thesis using concat_handler_represents [OF M, of "\<lambda>old new. old @ new" key val cas] r c
      by (auto simp: s cache_defs append_handler_def split: if_splits option.splits)
  next
    case (Prepend key val cas)
    then show ?thesis using concat_handler_represents [OF M, of "\<lambda>old new. new @ old" key val cas] r c
      by (auto simp: s cache_defs prepend_handler_def split: if_splits option.splits)
  next
    case (Replace key data flags exptime cas)
    then show ?thesis using replace_handler_represents [OF M, of key data flags exptime cas] r c
      by (auto simp: s cache_defs split: if_splits option.splits)
  next
    case (Store key data flags exptime cas)
    then show ?thesis using set_handler_represents [OF M, of key data flags exptime cas] r c by (auto simp: s cache_defs split: if_splits)
  next
    case (Remove key cas)
    have d: "m key \<noteq> None \<Longrightarrow> (cas \<noteq> 0 \<and> map_option (\<lambda>(d, f, x, c). c) (m key) \<noteq> Some cas) = cas_differs cas (m key)"
      by (auto simp: cas_differs_def split: option.splits)
    have e: "m key = None \<Longrightarrow> m(key := None) = m" by auto
    show ?thesis using Remove delete_handler_represents [OF M(1), of key cas] r c M d e
      by (auto simp: s cache_defs split: if_splits option.splits)
  next
    case (Fetch key)
    then show ?thesis using get_handler_represents [OF M(1), of key] r c M by (auto simp: s cache_defs cas_differs_def split: option.splits)
  next
    case (Increment key delta initial expiration)
    then have "\<And>d f x i. m key = Some (d, f, x, i) \<Longrightarrow> 8 \<le> length d" "length key \<le> 1024" using S by (auto simp: s counter_ok_def)
    then show ?thesis using Increment arithmetic_handler_represents [OF M _ refl refl, of key "\<lambda>old delta. old + delta" delta initial expiration] r c
      by (auto simp: s cache_defs increment_handler_def counts_def Let_def)
  next
    case (Decrement key delta initial expiration)
    then have "\<And>d f x i. m key = Some (d, f, x, i) \<Longrightarrow> 8 \<le> length d" using S by (auto simp: s counter_ok_def)
    then show ?thesis using Decrement arithmetic_handler_represents [OF M _ refl refl, of key "\<lambda>old delta. if delta > old then 0 else old - delta" delta initial expiration] r c
      by (auto simp: s cache_defs decrement_handler_def counts_def Let_def)
  next
    case Flush
    then show ?thesis using r C by (auto simp: flush_handler_def)
  qed
qed

text \<open>Commands one after the other.\<close>

fun handle_all :: "command list \<Rightarrow> storage \<Rightarrow> fault + (result list \<times> storage)" where
  "handle_all [] st = Inr ([], st)"
| "handle_all (cmd # cmds) st =
     run_bind (handle cmd st) (\<lambda>(result, st).
     run_bind (handle_all cmds st) (\<lambda>(results, st). Inr (result # results, st)))"

fun cache_all :: "command list \<Rightarrow> cache \<Rightarrow> result list \<times> cache" where
  "cache_all [] s = ([], s)"
| "cache_all (cmd # cmds) s =
     (let (result, s) = cache_step cmd s; (results, s) = cache_all cmds s in (result # results, s))"

fun sane_all :: "command list \<Rightarrow> cache \<Rightarrow> bool" where
  "sane_all [] s \<longleftrightarrow> True"
| "sane_all (cmd # cmds) s \<longleftrightarrow> sane cmd s \<and> sane_all cmds (snd (cache_step cmd s))"

lemma handle_all_ok:
  assumes "caches st s" "sane_all cmds s" "cache_all cmds s = (results, s')"
  shows "\<exists>st'. handle_all cmds st = Inr (results, st') \<and> caches st' s'"
  using assms
proof (induction cmds arbitrary: st s results)
  case (Cons cmd cmds)
  obtain result s1 where r: "cache_step cmd s = (result, s1)" by (cases "cache_step cmd s")
  obtain rs where rs: "cache_all cmds s1 = (rs, s')" "results = result # rs" using Cons.prems(3) r by (auto split: prod.splits)
  obtain st1 where h: "handle cmd st = Inr (result, st1)" "caches st1 s1"
    using handle_ok [OF Cons.prems(1) _ r] Cons.prems(2) by auto
  have "sane_all cmds s1" using Cons.prems(2) r by simp
  from Cons.IH [OF h(2) this rs(1)] show ?case using h(1) rs(2) by auto
qed simp

end
