(* ===== verification/Lrc_Example.thy ===== *)
theory Lrc_Example
  imports Light_Service Light_Cache
begin

text \<open>A concrete client and servers of \<^verbatim>\<open>memcached_light\<close>, on which the properties of the client are applied.\<close>

section \<open>A client of five nodes\<close>

text \<open>Two data blocks in one group and a global parity block in the other, on five servers in two racks behind server 0.\<close>

definition demo_servers :: light_servers where
  "demo_servers = \<lparr>stores = (\<lambda>_. Light empty_storage), answers = (\<lambda>_. MEMCACHED_SUCCESS), reachable = (\<lambda>_. True)\<rparr>"

definition demo_client :: "light_servers memcached" where
  "demo_client =
     \<lparr>number_of_replicas = 0, number_of_n = 5, number_of_k = 2, number_of_r = 2, number_of_b = 1, rack_group = [],
      network_core_server_key = 0, rack_is_add = False, node2rack = replicate 20 0, node_rack = replicate 20 0,
      is_core = False, fail_node_index = 0, encoding_scheme = 1,
      instances = [(''h'', 0), (''h'', 1), (''h'', 2), (''h'', 3), (''h'', 4), (''h'', 5)], replying = False, zeroed = True,
      jer = fresh_coder [] [], servers = demo_servers\<rparr>"

definition demo_file :: "string list" where
  "demo_file = rack_text (instances demo_client) 0 [0, 0, 0, 1, 1] [[1, 2, 3], [4, 5]]"

definition demo_value :: "byte list" where
  "demo_value = replicate 20 65"

lemma demo_new: "client_new light_service 0 [0, 0, 0, 1, 1] [[1, 2, 3], [4, 5]] demo_client"
proof -
  have a: "lrc_params 5 2 2" by (simp add: lrc_params_def local_group_number_def)
  have c: "racks_ok 5 0 [0, 0, 0, 1, 1] [[1, 2, 3], [4, 5]]" 
    by (simp add: racks_ok_def in_rack_def All_less_Suc numeral_eq_Suc)
  have d: "text_ok (instances demo_client) 5 0 [0, 0, 0, 1, 1] [[1, 2, 3], [4, 5]]" 
    by (simp add: text_ok_def demo_client_def)
  have e: "jer_ok (fresh_coder [] [])" using galois_ok_init by (simp add: jer_ok_def fresh_coder_def galois_init_def)
  show ?thesis using a c d e unfolding client_new_def by (simp add: demo_client_def demo_servers_def light_service_fields)
qed

lemma demo_fields: "number_of_k demo_client = 2" "number_of_b demo_client = 1" "\<not> replying demo_client" "length demo_value = 20" "fail_node_index demo_client = 0"
  "number_of_n demo_client = 5" "number_of_r demo_client = 2" "zeroed demo_client"
  by (simp_all add: demo_client_def demo_value_def)

lemma demo_stored: "\<exists>ptr. tracks light_service ptr [''k'' \<mapsto> (demo_value, {})] \<and> code_setup ptr = (5, 2, 2, False)"
proof -
  let ?p = "placed 0 [0, 0, 0, 1, 1] [[1, 2, 3], [4, 5]] demo_client (number_of_n demo_client)"
  obtain rc ptr where S: "client_ok light_service ptr" "lrc_stored light_service ''k'' demo_value {} ptr" "only_key light_service ''k'' ?p ptr"
    using light.set_new_ok [OF demo_new, of demo_value 0 "''k''"] demo_fields by auto
  have "2 \<le> number_of_k ptr" "rack_is_add ptr" "zeroed ptr" "0 < number_of_b ptr" "fail_node_index ptr < number_of_n ptr" "code_setup ptr = (5, 2, 2, False)"
    using S(3) demo_fields unfolding only_key_def placed_fields(1-11) code_setup_def by (auto simp: placed_fields(12,13))
  then show ?thesis using S(1,2) by (auto simp: tracks_def)
qed

section \<open>A group of data and global parity blocks\<close>

text \<open>Three data blocks in groups of two: the last data block shares its group with the global parity block.\<close>

definition partial_client :: "light_servers memcached" where
  "partial_client = demo_client\<lparr>number_of_n := 6, number_of_k := 3, node2rack := replicate 20 9,
     instances := [(''h'', 0), (''h'', 1), (''h'', 2), (''h'', 3), (''h'', 4), (''h'', 5), (''h'', 6)]\<rparr>"

lemma partial_new: "client_new light_service 0 [0, 0, 0, 1, 1, 1] [[1, 2, 3], [4, 5, 6]] partial_client"
proof -
  have a: "lrc_params 6 3 2" by (simp add: lrc_params_def local_group_number_def)
  have c: "racks_ok 6 0 [0, 0, 0, 1, 1, 1] [[1, 2, 3], [4, 5, 6]]"
    by (simp add: racks_ok_def in_rack_def All_less_Suc numeral_eq_Suc)
  have d: "text_ok (instances partial_client) 6 0 [0, 0, 0, 1, 1, 1] [[1, 2, 3], [4, 5, 6]]"
    by (simp add: text_ok_def partial_client_def)
  have e: "jer_ok (fresh_coder [] [])" using demo_new by (simp add: client_new_def demo_client_def)
  show ?thesis using a c d e unfolding client_new_def by (simp add: partial_client_def demo_client_def demo_servers_def light_service_fields)
qed

lemma empty_light: "light_get key (Light empty_storage) = None"
proof -
  have "storage_of (Light empty_storage) = empty_storage" using empty_represents by (intro Light_inverse) (auto simp: empty_storage_def)
  then show ?thesis using light_get_represents [of "Light empty_storage" Map.empty key] empty_represents by simp
qed

lemma partial_fields: "number_of_n partial_client = 6" "number_of_k partial_client = 3" "number_of_r partial_client = 2" "number_of_b partial_client = 1"
  "srv_get light_service b key (servers partial_client) = None"
  by (simp_all add: partial_client_def demo_client_def demo_servers_def light_service_fields empty_light)

lemma partial_lost:
  "\<exists>ptr. client_ok light_service ptr \<and> 0 < number_of_b ptr \<and> lrc_stored light_service ''k'' (replicate 48 65) {3} ptr \<and>
    number_of_n ptr = 6 \<and> number_of_k ptr = 3 \<and> number_of_r ptr = 2 \<and>
    (\<forall>i. 6 \<le> i \<longrightarrow> i < 20 \<longrightarrow> node2rack ptr ! i \<noteq> network_core_server_key ptr \<and>
      srv_get light_service (node2rack ptr ! i) (block_key ''k'' i) (servers ptr) = None)"
proof -
  let ?p = "placed 0 [0, 0, 0, 1, 1, 1] [[1, 2, 3], [4, 5, 6]] partial_client (number_of_n partial_client)" and ?v = "replicate 48 65 :: byte list"
  obtain q where q: "client_ok light_service q" "lrc_stored light_service ''k'' ?v {} q" "only_key light_service ''k'' ?p q"
    using light.set_new_ok [OF partial_new, of ?v 0 "''k''"] partial_fields by auto
  obtain bs a where H: "lrc_holds light_service ''k'' ?v bs a {} q" using q(2) unfolding lrc_stored_def by blast
  have qn: "number_of_n q = 6" "number_of_k q = 3" "number_of_r q = 2" "0 < number_of_b q"
    using q(3) partial_fields unfolding only_key_def placed_fields(1-11) by auto
  obtain ptr where P: "client_ok light_service ptr" "lrc_holds light_service ''k'' ?v bs a {3} ptr" "only_key light_service ''k'' q ptr"
    using light.delete_ok [OF q(1) H, of 3] qn by auto
  have O: "only_key light_service ''k'' ?p ptr" by (rule only_key_trans [OF q(3) P(3)])
  have n2: "node2rack ptr ! i = 9 \<and> network_core_server_key ptr = 0" if "6 \<le> i" "i < 20" for i
    using O that by (simp add: only_key_def placed_def partial_client_def demo_client_def nth_append)
  have g: "srv_get light_service 9 (block_key ''k'' i) (servers ptr) = None" if i: "6 \<le> i" "i < 20" for i
  proof -
    have "block_key ''k'' i \<noteq> block_key ''k'' j" if "j < 6" for j using block_key_inj [of i j "''k''"] that i by auto
    moreover have "network_core_server_key ?p = 0" by (simp add: placed_def)
    ultimately show ?thesis using O partial_fields(1,5) unfolding only_key_def placed_fields(1-11) by auto
  qed
  have "number_of_n ptr = 6" "number_of_k ptr = 3" "number_of_r ptr = 2" "0 < number_of_b ptr" using P(3) qn by (auto simp: only_key_def)
  moreover have "lrc_stored light_service ''k'' ?v {3} ptr" using P(2) unfolding lrc_stored_def by blast
  ultimately show ?thesis using P(1) n2 g by auto
qed

end
