(* ===== verification/Protocol_Packet.thy ===== *)
theory Protocol_Packet
  imports Light_Storage
begin

unbundle bit_operations_syntax

text \<open>
  The packets of the binary protocol (\<^verbatim>\<open>libmemcachedprotocol-0.0/binary.h\<close>): the headers of requests and responses as
  the 24 bytes they take on the wire, and the tests of \<^verbatim>\<open>libmemcachedprotocol/pedantic.c\<close>.
\<close>

section \<open>Network order\<close>

text \<open>
  A field of a packet has the value that \<^verbatim>\<open>ntohs\<close>, \<^verbatim>\<open>ntohl\<close> or \<^verbatim>\<open>memcached_ntohll\<close> gives; on the wire its highest byte
  comes first.
\<close>

definition be_bytes :: "nat \<Rightarrow> 'a::len word \<Rightarrow> byte list" where
  "be_bytes n x = map (\<lambda>i. ucast (drop_bit (8 * i) x)) (rev [0..<n])"

definition be_word :: "byte list \<Rightarrow> 'a::len word" where
  "be_word bs = fold (\<lambda>b x. push_bit 8 x OR ucast b) bs 0"

lemma length_be_bytes [simp]: "length (be_bytes n x) = n"
  by (simp add: be_bytes_def)

lemma be_bytes_Suc: "be_bytes (Suc n) x = be_bytes n (drop_bit 8 x) @ [ucast x]"
proof -
  have "rev [0..<Suc n] = map Suc (rev [0..<n]) @ [0]"
    by (simp add: upt_conv_Cons flip: rev_map map_Suc_upt del: upt_Suc)
  then show ?thesis by (simp add: be_bytes_def drop_bit_drop_bit add.commute)
qed

lemma be_word_snoc: "be_word (bs @ [b]) = push_bit 8 (be_word bs) OR ucast b"
  by (simp add: be_word_def)

lemma be_word_bytes: "be_word (be_bytes n x) = take_bit (8 * n) (x :: 'a::len word)"
proof (induction n arbitrary: x)
  case 0
  show ?case by (simp add: be_word_def be_bytes_def)
next
  case (Suc n)
  have "push_bit 8 (take_bit (8 * n) (drop_bit 8 x)) OR ucast (ucast x :: byte) = take_bit (8 * Suc n) x"
    by (rule bit_word_eqI) (auto simp: bit_simps)
  then show ?case using Suc.IH [of "drop_bit 8 x"] by (simp add: be_bytes_Suc be_word_snoc)
qed

lemma be_round_trip: "8 * n = LENGTH('a) \<Longrightarrow> be_word (be_bytes n x) = (x :: 'a::len word)"
  by (simp add: be_word_bytes)

lemma be_word_bit: "bit (be_word bs :: 'a::len word) i \<Longrightarrow> i < 8 * length bs"
proof (induction bs arbitrary: i rule: rev_induct)
  case (snoc c cs)
  then have "(8 \<le> i \<and> bit (be_word cs :: 'a word) (i - 8)) \<or> bit c i" by (auto simp: be_word_snoc bit_simps)
  then show ?case
  proof
    assume "8 \<le> i \<and> bit (be_word cs :: 'a word) (i - 8)"
    then show ?case using snoc.IH [of "i - 8"] by auto
  next
    assume "bit c i"
    then have "i < 8" using bit_imp_le_length by force
    then show ?case by simp
  qed
qed (simp add: be_word_def)

lemma be_bytes_word_le: "8 * length bs \<le> LENGTH('a) \<Longrightarrow> be_bytes (length bs) (be_word bs :: 'a::len word) = bs"
proof (induction bs rule: rev_induct)
  case (snoc b bs)
  let ?w = "be_word bs :: 'a word"
  have u: "(ucast (push_bit 8 ?w OR ucast b) :: byte) = b"
    using snoc.prems by (intro bit_word_eqI) (auto simp: bit_simps)
  have "bit ?w i \<Longrightarrow> 8 + i < LENGTH('a)" for i using be_word_bit [where 'a = 'a, of bs i] snoc.prems by simp
  then have d: "drop_bit 8 (push_bit 8 ?w OR ucast b) = ?w"
    by (intro bit_word_eqI) (auto simp: bit_simps dest: bit_imp_le_length)
  have "be_bytes (length (bs @ [b])) (be_word (bs @ [b]) :: 'a word) = be_bytes (length bs) ?w @ [b]"
    unfolding be_word_snoc length_append_singleton be_bytes_Suc u d ..
  then show ?case using snoc by simp
qed (simp add: be_bytes_def)

section \<open>Headers\<close>

record request_header =
  req_magic :: byte
  req_opcode :: byte
  req_keylen :: "16 word"
  req_extlen :: byte
  req_datatype :: byte
  req_vbucket :: "16 word"
  req_bodylen :: "32 word"
  req_opaque :: "32 word"
  req_cas :: "64 word"

record response_header =
  res_magic :: byte
  res_opcode :: byte
  res_keylen :: "16 word"
  res_extlen :: byte
  res_datatype :: byte
  res_status :: "16 word"
  res_bodylen :: "32 word"
  res_opaque :: "32 word"
  res_cas :: "64 word"

text \<open>The number of bytes of a header, \<^verbatim>\<open>sizeof(protocol_binary_request_header)\<close>, is 24.\<close>

definition request_bytes :: "request_header \<Rightarrow> byte list" where
  "request_bytes h =
     [req_magic h, req_opcode h] @ be_bytes 2 (req_keylen h) @ [req_extlen h, req_datatype h] @ be_bytes 2 (req_vbucket h) @
     be_bytes 4 (req_bodylen h) @ be_bytes 4 (req_opaque h) @ be_bytes 8 (req_cas h)"

definition request_of :: "byte list \<Rightarrow> request_header" where
  "request_of p =
     \<lparr>req_magic = p ! 0, req_opcode = p ! 1, req_keylen = be_word (take 2 (drop 2 p)), req_extlen = p ! 4, req_datatype = p ! 5,
      req_vbucket = be_word (take 2 (drop 6 p)), req_bodylen = be_word (take 4 (drop 8 p)), req_opaque = be_word (take 4 (drop 12 p)),
      req_cas = be_word (take 8 (drop 16 p))\<rparr>"

definition response_bytes :: "response_header \<Rightarrow> byte list" where
  "response_bytes h =
     [res_magic h, res_opcode h] @ be_bytes 2 (res_keylen h) @ [res_extlen h, res_datatype h] @ be_bytes 2 (res_status h) @
     be_bytes 4 (res_bodylen h) @ be_bytes 4 (res_opaque h) @ be_bytes 8 (res_cas h)"

definition response_of :: "byte list \<Rightarrow> response_header" where
  "response_of p =
     \<lparr>res_magic = p ! 0, res_opcode = p ! 1, res_keylen = be_word (take 2 (drop 2 p)), res_extlen = p ! 4, res_datatype = p ! 5,
      res_status = be_word (take 2 (drop 6 p)), res_bodylen = be_word (take 4 (drop 8 p)), res_opaque = be_word (take 4 (drop 12 p)),
      res_cas = be_word (take 8 (drop 16 p))\<rparr>"

lemma length_request_bytes [simp]: "length (request_bytes h) = 24"
  by (simp add: request_bytes_def)

lemma length_response_bytes [simp]: "length (response_bytes h) = 24"
  by (simp add: response_bytes_def)

lemma request_of_bytes: "request_of (request_bytes h @ rest) = h"
  by (simp add: request_of_def request_bytes_def be_round_trip nth_append)

lemma response_of_bytes: "response_of (response_bytes h @ rest) = h"
  by (simp add: response_of_def response_bytes_def be_round_trip nth_append)

lemmas be_fields =
  be_bytes_word_le [where 'a = 16, of "[a, b]" for a b, simplified]
  be_bytes_word_le [where 'a = 32, of "[a, b, c, d]" for a b c d, simplified]
  be_bytes_word_le [where 'a = 64, of "[a, b, c, d, e, f, g, h]" for a b c d e f g h, simplified]

lemma request_bytes_of: "length p = 24 \<Longrightarrow> request_bytes (request_of p) = p"
  by (auto simp: length_Suc_conv numeral_eq_Suc request_bytes_def request_of_def be_fields)

section \<open>Numbers of the protocol\<close>

abbreviation PROTOCOL_BINARY_REQ :: byte where "PROTOCOL_BINARY_REQ \<equiv> 0x80"
abbreviation PROTOCOL_BINARY_RES :: byte where "PROTOCOL_BINARY_RES \<equiv> 0x81"
abbreviation PROTOCOL_BINARY_RAW_BYTES :: byte where "PROTOCOL_BINARY_RAW_BYTES \<equiv> 0x00"

abbreviation PROTOCOL_BINARY_CMD_GET :: byte where "PROTOCOL_BINARY_CMD_GET \<equiv> 0x00"
abbreviation PROTOCOL_BINARY_CMD_SET :: byte where "PROTOCOL_BINARY_CMD_SET \<equiv> 0x01"
abbreviation PROTOCOL_BINARY_CMD_ADD :: byte where "PROTOCOL_BINARY_CMD_ADD \<equiv> 0x02"
abbreviation PROTOCOL_BINARY_CMD_REPLACE :: byte where "PROTOCOL_BINARY_CMD_REPLACE \<equiv> 0x03"
abbreviation PROTOCOL_BINARY_CMD_DELETE :: byte where "PROTOCOL_BINARY_CMD_DELETE \<equiv> 0x04"
abbreviation PROTOCOL_BINARY_CMD_INCREMENT :: byte where "PROTOCOL_BINARY_CMD_INCREMENT \<equiv> 0x05"
abbreviation PROTOCOL_BINARY_CMD_DECREMENT :: byte where "PROTOCOL_BINARY_CMD_DECREMENT \<equiv> 0x06"
abbreviation PROTOCOL_BINARY_CMD_QUIT :: byte where "PROTOCOL_BINARY_CMD_QUIT \<equiv> 0x07"
abbreviation PROTOCOL_BINARY_CMD_FLUSH :: byte where "PROTOCOL_BINARY_CMD_FLUSH \<equiv> 0x08"
abbreviation PROTOCOL_BINARY_CMD_GETQ :: byte where "PROTOCOL_BINARY_CMD_GETQ \<equiv> 0x09"
abbreviation PROTOCOL_BINARY_CMD_NOOP :: byte where "PROTOCOL_BINARY_CMD_NOOP \<equiv> 0x0a"
abbreviation PROTOCOL_BINARY_CMD_VERSION :: byte where "PROTOCOL_BINARY_CMD_VERSION \<equiv> 0x0b"
abbreviation PROTOCOL_BINARY_CMD_GETK :: byte where "PROTOCOL_BINARY_CMD_GETK \<equiv> 0x0c"
abbreviation PROTOCOL_BINARY_CMD_GETKQ :: byte where "PROTOCOL_BINARY_CMD_GETKQ \<equiv> 0x0d"
abbreviation PROTOCOL_BINARY_CMD_APPEND :: byte where "PROTOCOL_BINARY_CMD_APPEND \<equiv> 0x0e"
abbreviation PROTOCOL_BINARY_CMD_PREPEND :: byte where "PROTOCOL_BINARY_CMD_PREPEND \<equiv> 0x0f"
abbreviation PROTOCOL_BINARY_CMD_STAT :: byte where "PROTOCOL_BINARY_CMD_STAT \<equiv> 0x10"
abbreviation PROTOCOL_BINARY_CMD_SETQ :: byte where "PROTOCOL_BINARY_CMD_SETQ \<equiv> 0x11"
abbreviation PROTOCOL_BINARY_CMD_ADDQ :: byte where "PROTOCOL_BINARY_CMD_ADDQ \<equiv> 0x12"
abbreviation PROTOCOL_BINARY_CMD_REPLACEQ :: byte where "PROTOCOL_BINARY_CMD_REPLACEQ \<equiv> 0x13"
abbreviation PROTOCOL_BINARY_CMD_DELETEQ :: byte where "PROTOCOL_BINARY_CMD_DELETEQ \<equiv> 0x14"
abbreviation PROTOCOL_BINARY_CMD_INCREMENTQ :: byte where "PROTOCOL_BINARY_CMD_INCREMENTQ \<equiv> 0x15"
abbreviation PROTOCOL_BINARY_CMD_DECREMENTQ :: byte where "PROTOCOL_BINARY_CMD_DECREMENTQ \<equiv> 0x16"
abbreviation PROTOCOL_BINARY_CMD_QUITQ :: byte where "PROTOCOL_BINARY_CMD_QUITQ \<equiv> 0x17"
abbreviation PROTOCOL_BINARY_CMD_FLUSHQ :: byte where "PROTOCOL_BINARY_CMD_FLUSHQ \<equiv> 0x18"
abbreviation PROTOCOL_BINARY_CMD_APPENDQ :: byte where "PROTOCOL_BINARY_CMD_APPENDQ \<equiv> 0x19"
abbreviation PROTOCOL_BINARY_CMD_PREPENDQ :: byte where "PROTOCOL_BINARY_CMD_PREPENDQ \<equiv> 0x1a"

fun status_code :: "protocol_binary_response_status \<Rightarrow> 16 word" where
  "status_code PROTOCOL_BINARY_RESPONSE_SUCCESS = 0x00"
| "status_code PROTOCOL_BINARY_RESPONSE_KEY_ENOENT = 0x01"
| "status_code PROTOCOL_BINARY_RESPONSE_KEY_EEXISTS = 0x02"
| "status_code PROTOCOL_BINARY_RESPONSE_E2BIG = 0x03"
| "status_code PROTOCOL_BINARY_RESPONSE_EINVAL = 0x04"
| "status_code PROTOCOL_BINARY_RESPONSE_NOT_STORED = 0x05"
| "status_code PROTOCOL_BINARY_RESPONSE_DELTA_BADVAL = 0x06"
| "status_code PROTOCOL_BINARY_RESPONSE_NOT_MY_VBUCKET = 0x07"
| "status_code PROTOCOL_BINARY_RESPONSE_AUTH_ERROR = 0x20"
| "status_code PROTOCOL_BINARY_RESPONSE_AUTH_CONTINUE = 0x21"
| "status_code PROTOCOL_BINARY_RESPONSE_UNKNOWN_COMMAND = 0x81"
| "status_code PROTOCOL_BINARY_RESPONSE_ENOMEM = 0x82"
| "status_code PROTOCOL_BINARY_RESPONSE_NOT_SUPPORTED = 0x83"
| "status_code PROTOCOL_BINARY_RESPONSE_EINTERNAL = 0x84"
| "status_code PROTOCOL_BINARY_RESPONSE_EBUSY = 0x85"
| "status_code PROTOCOL_BINARY_RESPONSE_ETMPFAIL = 0x86"

lemma status_code_zero [simp]: "status_code rc = 0 \<longleftrightarrow> rc = PROTOCOL_BINARY_RESPONSE_SUCCESS"
  by (cases rc) simp_all

section \<open>pedantic.c\<close>

definition memcached_binary_protocol_pedantic_check_request :: "request_header \<Rightarrow> bool" where
  "memcached_binary_protocol_pedantic_check_request h \<longleftrightarrow>
     (let opcode = req_opcode h; keylen = unat (req_keylen h); extlen = unat (req_extlen h); bodylen = unat (req_bodylen h)
      in req_magic h = PROTOCOL_BINARY_REQ \<and> req_datatype h = PROTOCOL_BINARY_RAW_BYTES \<and> req_vbucket h = 0 \<and>
         bodylen \<ge> keylen + extlen \<and>
         (if opcode \<in> {PROTOCOL_BINARY_CMD_GET, PROTOCOL_BINARY_CMD_GETK, PROTOCOL_BINARY_CMD_GETKQ, PROTOCOL_BINARY_CMD_GETQ} then
            extlen = 0 \<and> keylen > 0 \<and> keylen = bodylen \<and> req_cas h = 0
          else if opcode \<in> {PROTOCOL_BINARY_CMD_ADD, PROTOCOL_BINARY_CMD_ADDQ} then
            req_cas h = 0 \<and> keylen > 0 \<and> extlen = 8
          else if opcode \<in> {PROTOCOL_BINARY_CMD_SET, PROTOCOL_BINARY_CMD_SETQ, PROTOCOL_BINARY_CMD_REPLACE, PROTOCOL_BINARY_CMD_REPLACEQ} then
            keylen > 0 \<and> extlen = 8
          else if opcode \<in> {PROTOCOL_BINARY_CMD_DELETE, PROTOCOL_BINARY_CMD_DELETEQ} then
            extlen = 0 \<and> keylen > 0 \<and> keylen = bodylen
          else if opcode \<in> {PROTOCOL_BINARY_CMD_INCREMENT, PROTOCOL_BINARY_CMD_INCREMENTQ, PROTOCOL_BINARY_CMD_DECREMENT, PROTOCOL_BINARY_CMD_DECREMENTQ} then
            extlen = 20 \<and> keylen > 0 \<and> keylen + extlen = bodylen
          else if opcode \<in> {PROTOCOL_BINARY_CMD_QUIT, PROTOCOL_BINARY_CMD_QUITQ, PROTOCOL_BINARY_CMD_NOOP, PROTOCOL_BINARY_CMD_VERSION} then
            extlen = 0 \<and> keylen = 0 \<and> bodylen = 0
          else if opcode \<in> {PROTOCOL_BINARY_CMD_FLUSH, PROTOCOL_BINARY_CMD_FLUSHQ} then
            (extlen = 0 \<or> extlen = 4) \<and> keylen = 0 \<and> bodylen = extlen
          else if opcode = PROTOCOL_BINARY_CMD_STAT then
            extlen = 0 \<and> keylen = bodylen
          else if opcode \<in> {PROTOCOL_BINARY_CMD_APPEND, PROTOCOL_BINARY_CMD_APPENDQ, PROTOCOL_BINARY_CMD_PREPEND, PROTOCOL_BINARY_CMD_PREPENDQ} then
            extlen = 0 \<and> keylen > 0
          else True))"

definition memcached_binary_protocol_pedantic_check_response :: "request_header \<Rightarrow> response_header \<Rightarrow> bool" where
  "memcached_binary_protocol_pedantic_check_response request response \<longleftrightarrow>
     (let opcode = res_opcode response; keylen = res_keylen response; extlen = res_extlen response;
          bodylen = res_bodylen response; cas = res_cas response
      in res_magic response = PROTOCOL_BINARY_RES \<and> res_datatype response = PROTOCOL_BINARY_RAW_BYTES \<and>
         res_opaque response = req_opaque request \<and>
         (if res_status response = status_code PROTOCOL_BINARY_RESPONSE_SUCCESS then
            opcode \<notin> {PROTOCOL_BINARY_CMD_ADDQ, PROTOCOL_BINARY_CMD_APPENDQ, PROTOCOL_BINARY_CMD_DECREMENTQ, PROTOCOL_BINARY_CMD_DELETEQ,
              PROTOCOL_BINARY_CMD_FLUSHQ, PROTOCOL_BINARY_CMD_INCREMENTQ, PROTOCOL_BINARY_CMD_PREPENDQ, PROTOCOL_BINARY_CMD_QUITQ,
              PROTOCOL_BINARY_CMD_REPLACEQ, PROTOCOL_BINARY_CMD_SETQ} \<and>
            (if opcode \<in> {PROTOCOL_BINARY_CMD_ADD, PROTOCOL_BINARY_CMD_REPLACE, PROTOCOL_BINARY_CMD_SET, PROTOCOL_BINARY_CMD_APPEND, PROTOCOL_BINARY_CMD_PREPEND} then
               keylen = 0 \<and> extlen = 0 \<and> bodylen = 0 \<and> cas \<noteq> 0
             else if opcode \<in> {PROTOCOL_BINARY_CMD_FLUSH, PROTOCOL_BINARY_CMD_NOOP, PROTOCOL_BINARY_CMD_QUIT, PROTOCOL_BINARY_CMD_DELETE} then
               keylen = 0 \<and> extlen = 0 \<and> bodylen = 0 \<and> cas = 0
             else if opcode \<in> {PROTOCOL_BINARY_CMD_DECREMENT, PROTOCOL_BINARY_CMD_INCREMENT} then
               keylen = 0 \<and> extlen = 0 \<and> bodylen = 8 \<and> cas \<noteq> 0
             else if opcode = PROTOCOL_BINARY_CMD_STAT then
               extlen = 0 \<and> cas = 0
             else if opcode = PROTOCOL_BINARY_CMD_VERSION then
               keylen = 0 \<and> extlen = 0 \<and> bodylen \<noteq> 0 \<and> cas = 0
             else if opcode \<in> {PROTOCOL_BINARY_CMD_GET, PROTOCOL_BINARY_CMD_GETQ} then
               keylen = 0 \<and> extlen = 4 \<and> cas \<noteq> 0
             else if opcode \<in> {PROTOCOL_BINARY_CMD_GETK, PROTOCOL_BINARY_CMD_GETKQ} then
               keylen \<noteq> 0 \<and> extlen = 4 \<and> cas \<noteq> 0
             else True)
          else cas = 0 \<and> extlen = 0 \<and> (opcode \<noteq> PROTOCOL_BINARY_CMD_GETK \<longrightarrow> keylen = 0)))"

end
