(* ===== verification/Protocol_Output.thy ===== *)
theory Protocol_Output
  imports Protocol_Packet
begin

text \<open>
  The output of a connection (\<^verbatim>\<open>libmemcachedprotocol/handler.c\<close>): the chunks of bytes that wait for the socket,
  \<^verbatim>\<open>spool_output\<close> that adds to them and \<^verbatim>\<open>drain_output\<close> that sends them.
\<close>

section \<open>Connections\<close>

text \<open>
  A chunk has room for 2048 bytes; \<open>chunk_data\<close> are the bytes before \<^verbatim>\<open>nbytes\<close> and \<open>chunk_offset\<close> counts those that
  were sent.
\<close>

record chunk =
  chunk_data :: "byte list"
  chunk_offset :: nat

definition CHUNK_BUFFERSIZE :: nat where
  "CHUNK_BUFFERSIZE = 2048"

text \<open>What a call of \<^verbatim>\<open>send\<close> does: it takes at most so many bytes, or fails with \<^verbatim>\<open>EWOULDBLOCK\<close>, \<^verbatim>\<open>EINTR\<close> or another error.\<close>

datatype send_outcome = Sent nat | Send_would_block | Send_interrupted | Send_failed int

text \<open>Which function \<^verbatim>\<open>work\<close> points to.\<close>

datatype work = Determine_protocol | Binary_protocol | Ascii_protocol

text \<open>
  A connection: the fields of \<^verbatim>\<open>struct memcached_protocol_client_st\<close>, the fields \<^verbatim>\<open>pedantic\<close> and \<^verbatim>\<open>input_buffer\<close> of
  \<^verbatim>\<open>struct memcached_protocol_st\<close>, and the state \<open>app\<close> of the application behind the callbacks.  \<open>chunks\<close> is the chain
  from \<^verbatim>\<open>output\<close> to \<^verbatim>\<open>output_tail\<close>, \<open>saved\<close> the first \<^verbatim>\<open>input_buffer_offset\<close> bytes of the client's own input buffer.
  \<open>sends\<close> are the outcomes of the next calls of \<^verbatim>\<open>send\<close> (after the end of the list they take all bytes), \<open>wire\<close> the
  bytes that were sent, and \<open>chunk_allocs\<close> the outcomes of the next allocations.
\<close>

record 's connection =
  conn_error :: int
  chunks :: "chunk list"
  saved :: "byte list"
  work_func :: work
  mute :: bool
  current_command :: nat
  pedantic :: bool
  input_buffer :: "byte list"
  sends :: "send_outcome list"
  wire :: "byte list"
  chunk_allocs :: "bool list"
  app :: 's

definition sock_send :: "byte list \<Rightarrow> 's connection \<Rightarrow> send_outcome \<times> 's connection" where
  "sock_send bs c =
     (case sends c of
        [] \<Rightarrow> (Sent (length bs), c\<lparr>wire := wire c @ bs\<rparr>)
      | Sent n # rest \<Rightarrow> (Sent (min n (length bs)), c\<lparr>sends := rest, wire := wire c @ take n bs\<rparr>)
      | outcome # rest \<Rightarrow> (outcome, c\<lparr>sends := rest\<rparr>))"

definition next_chunk :: "'s connection \<Rightarrow> bool \<times> 's connection" where
  "next_chunk c = (case chunk_allocs c of [] \<Rightarrow> (True, c) | b # bs \<Rightarrow> (b, c\<lparr>chunk_allocs := bs\<rparr>))"

text \<open>
  A new client of an instance with the given settings: all fields are zero, except for \<^verbatim>\<open>work\<close>; without memory there is
  no client.
\<close>

definition memcached_protocol_create_client :: "bool \<Rightarrow> bool \<Rightarrow> byte list \<Rightarrow> send_outcome list \<Rightarrow> bool list \<Rightarrow> 's \<Rightarrow> 's connection option" where
  "memcached_protocol_create_client memory pedantic_instance buffer outcomes allocations st =
     (if \<not> memory then None
      else Some \<lparr>conn_error = 0, chunks = [], saved = [], work_func = Determine_protocol, mute = False, current_command = 0,
        pedantic = pedantic_instance, input_buffer = buffer, sends = outcomes, wire = [], chunk_allocs = allocations, app = st\<rparr>)"

section \<open>drain\_output\<close>

text \<open>A chunk that was sent beyond its end has a huge number of bytes left.\<close>

function drain_output :: "'s connection \<Rightarrow> fault + (bool \<times> 's connection)" where
  "drain_output c =
     (case chunks c of
        [] \<Rightarrow> Inr (True, c)
      | chunk # rest \<Rightarrow>
          if chunk_offset chunk > length (chunk_data chunk) then Inl Undefined
          else
            case sock_send (drop (chunk_offset chunk) (chunk_data chunk)) c of
              (Send_would_block, c) \<Rightarrow> Inr (True, c)
            | (Send_interrupted, c) \<Rightarrow> drain_output c
            | (Send_failed e, c) \<Rightarrow> Inr (False, c\<lparr>conn_error := e\<rparr>)
            | (Sent len, c) \<Rightarrow>
                let chunk = chunk\<lparr>chunk_offset := chunk_offset chunk + len\<rparr>
                in if chunk_offset chunk = length (chunk_data chunk) then drain_output (c\<lparr>chunks := rest\<rparr>)
                   else drain_output (c\<lparr>chunks := chunk # rest\<rparr>))"
  by pat_completeness auto

termination drain_output
  by (relation "measures [\<lambda>c. length (sends c), \<lambda>c. length (chunks c)]")
    (auto simp: sock_send_def split: list.splits send_outcome.splits)

declare drain_output.simps [simp del]

section \<open>spool\_output\<close>

text \<open>The result is the place of the new chunk in the chain.\<close>

definition allocate_output_chunk :: "'s connection \<Rightarrow> nat option \<times> 's connection" where
  "allocate_output_chunk c =
     (let (ok, c) = next_chunk c
      in if \<not> ok then (None, c)
         else (Some (length (chunks c)), c\<lparr>chunks := chunks c @ [\<lparr>chunk_data = [], chunk_offset = 0\<rparr>]\<rparr>))"

text \<open>
  The loop of \<^verbatim>\<open>spool_output\<close> with the number of bytes it has copied and the place of the chunk it copies to.  The
  bytes it copies start at \<^verbatim>\<open>data\<close> in every round.
\<close>

function spool_loop :: "byte list \<Rightarrow> nat \<Rightarrow> nat option \<Rightarrow> 's connection \<Rightarrow> protocol_binary_response_status \<times> 's connection" where
  "spool_loop data offset chunk c =
     (if offset < length data then
        case (if chunk = None \<or> CHUNK_BUFFERSIZE - length (chunk_data (chunks c ! the chunk)) = 0
              then allocate_output_chunk c else (chunk, c)) of
          (None, c) \<Rightarrow> (PROTOCOL_BINARY_RESPONSE_ENOMEM, c)
        | (Some i, c) \<Rightarrow>
            let ch = chunks c ! i;
                room = CHUNK_BUFFERSIZE - length (chunk_data ch);
                bulk = (if length data - offset > room then room else length data - offset)
            in spool_loop data (offset + bulk) (Some i)
                 (c\<lparr>chunks := (chunks c)[i := ch\<lparr>chunk_data := chunk_data ch @ take bulk data\<rparr>]\<rparr>)
      else (PROTOCOL_BINARY_RESPONSE_SUCCESS, c))"
  by pat_completeness auto

termination spool_loop
  by (relation "measure (\<lambda>(data, offset, chunk, c). length data - offset)")
    (auto simp: allocate_output_chunk_def next_chunk_def CHUNK_BUFFERSIZE_def nth_append Let_def split: if_splits prod.splits list.splits)

declare spool_loop.simps [simp del]

definition spool_output :: "byte list \<Rightarrow> 's connection \<Rightarrow> protocol_binary_response_status \<times> 's connection" where
  "spool_output data c =
     (if mute c then (PROTOCOL_BINARY_RESPONSE_SUCCESS, c)
      else spool_loop data 0 (if chunks c = [] then None else Some 0) c)"

section \<open>The queue of the bytes that wait\<close>

definition pending :: "'s connection \<Rightarrow> byte list" where
  "pending c = concat (map (\<lambda>ch. drop (chunk_offset ch) (chunk_data ch)) (chunks c))"

definition chunks_ok :: "'s connection \<Rightarrow> bool" where
  "chunks_ok c \<longleftrightarrow> (\<forall>ch \<in> set (chunks c). chunk_offset ch \<le> length (chunk_data ch))"

text \<open>What \<open>drain_output\<close> may change of a connection.\<close>

definition sends_only :: "'s connection \<Rightarrow> 's connection \<Rightarrow> bool" where
  "sends_only c c' \<longleftrightarrow> c' = c\<lparr>chunks := chunks c', wire := wire c', sends := sends c', conn_error := conn_error c'\<rparr>"

lemma sends_only_trans: "sends_only c c' \<Longrightarrow> sends_only c' c'' \<Longrightarrow> sends_only c c''"
  unfolding sends_only_def by (cases c; cases c'; cases c'') auto

lemma sends_only_fields:
  assumes "sends_only c c'"
  shows "saved c' = saved c" "work_func c' = work_func c" "mute c' = mute c" "current_command c' = current_command c"
    "pedantic c' = pedantic c" "input_buffer c' = input_buffer c" "chunk_allocs c' = chunk_allocs c" "app c' = app c"
  using assms unfolding sends_only_def by (cases c; cases c'; auto)+

lemma sock_send_cases:
  obtains n where "sock_send bs c = (Sent n, c\<lparr>sends := tl (sends c), wire := wire c @ take n bs\<rparr>)" "n \<le> length bs"
      "sends c = [] \<Longrightarrow> n = length bs"
  | outcome where "sock_send bs c = (outcome, c\<lparr>sends := tl (sends c)\<rparr>)" "\<And>n. outcome \<noteq> Sent n" "sends c \<noteq> []"
proof (cases "sends c")
  case Nil
  then show ?thesis by (intro that(1) [of "length bs"]) (simp_all add: sock_send_def)
next
  case (Cons outcome rest)
  show ?thesis
  proof (cases outcome)
    case (Sent n)
    have "take n bs = take (min n (length bs)) bs" by (simp add: min_def)
    then show ?thesis using Cons Sent by (intro that(1) [of "min n (length bs)"]) (simp_all add: sock_send_def)
  qed (use Cons in \<open>intro that(2) [of outcome]; simp add: sock_send_def\<close>)+
qed

text \<open>
  Whatever the socket does, nothing is lost, repeated or reordered; and a socket that takes all bytes takes the
  whole queue.
\<close>

lemma drain_output_ok:
  assumes "chunks_ok c"
  shows "\<exists>ok c'. drain_output c = Inr (ok, c') \<and> chunks_ok c' \<and> wire c' @ pending c' = wire c @ pending c \<and> sends_only c c' \<and>
    (sends c = [] \<longrightarrow> ok \<and> chunks c' = [] \<and> sends c' = [] \<and> conn_error c' = conn_error c)"
  using assms
proof (induction "length (sends c) + length (chunks c)" arbitrary: c rule: less_induct)
  case less
  show ?case
  proof (cases "chunks c")
    case Nil
    then show ?thesis using less.prems by (intro exI [of _ True] exI [of _ c]) (simp add: drain_output.simps sends_only_def)
  next
    case (Cons ch rest)
    let ?bs = "drop (chunk_offset ch) (chunk_data ch)"
    have ok: "chunk_offset ch \<le> length (chunk_data ch)" "\<forall>ch \<in> set rest. chunk_offset ch \<le> length (chunk_data ch)"
      using less.prems Cons by (auto simp: chunks_ok_def)
    have step: "\<exists>ok c'. drain_output c1 = Inr (ok, c') \<and> chunks_ok c' \<and> wire c' @ pending c' = wire c @ pending c \<and> sends_only c c' \<and>
        (sends c = [] \<longrightarrow> ok \<and> chunks c' = [] \<and> sends c' = [] \<and> conn_error c' = conn_error c)"
      if c1: "length (sends c1) + length (chunks c1) < length (sends c) + length (chunks c)" "chunks_ok c1" "sends_only c c1"
        "wire c1 @ pending c1 = wire c @ pending c" "sends c1 = tl (sends c)" "conn_error c1 = conn_error c" for c1
      using less.hyps [OF c1(1,2)] c1(4-6) sends_only_trans [OF c1(3)] by (metis list.sel(2))
    show ?thesis
    proof (cases rule: sock_send_cases [of ?bs c])
      case (1 n)
      define c1 where "c1 = c\<lparr>sends := tl (sends c), wire := wire c @ take n ?bs,
        chunks := (if chunk_offset ch + n = length (chunk_data ch) then rest else ch\<lparr>chunk_offset := chunk_offset ch + n\<rparr> # rest)\<rparr>"
      have d: "drain_output c = drain_output c1"
        using Cons ok 1(1) by (subst drain_output.simps) (simp add: c1_def Let_def)
      have n: "chunk_offset ch + n \<le> length (chunk_data ch)" using 1(2) ok by simp
      have "take n ?bs @ drop n ?bs = ?bs" by (rule append_take_drop_id)
      then have p: "wire c1 @ pending c1 = wire c @ pending c"
        using Cons n by (auto simp: c1_def pending_def add.commute)
      have "length (sends c1) + length (chunks c1) < length (sends c) + length (chunks c)"
        using Cons ok 1(3) by (cases "sends c") (auto simp: c1_def)
      then show ?thesis unfolding d using ok n p Cons
        by (intro step) (auto simp: c1_def chunks_ok_def sends_only_def)
    next
      case (2 outcome)
      define c1 where "c1 = c\<lparr>sends := tl (sends c)\<rparr>"
      have c1: "chunks_ok c1" "sends_only c c1" "wire c1 @ pending c1 = wire c @ pending c"
        using less.prems by (simp_all add: c1_def chunks_ok_def sends_only_def pending_def)
      show ?thesis
      proof (cases outcome)
        case Send_interrupted
        then have d: "drain_output c = drain_output c1"
          using Cons ok 2 by (subst drain_output.simps) (simp add: c1_def)
        have "length (sends c1) + length (chunks c1) < length (sends c) + length (chunks c)"
          using 2(3) by (simp add: c1_def)
        then show ?thesis unfolding d by (intro step c1) (simp_all add: c1_def)
      next
        case (Send_failed e)
        have "drain_output c = Inr (False, c1\<lparr>conn_error := e\<rparr>)"
          using Cons ok 2 Send_failed by (subst drain_output.simps) (simp add: c1_def)
        then show ?thesis using less.prems 2(3)
          by (intro exI [of _ False] exI [of _ "c1\<lparr>conn_error := e\<rparr>"]) (simp add: c1_def chunks_ok_def sends_only_def pending_def)
      next
        case Send_would_block
        have "drain_output c = Inr (True, c1)"
          using Cons ok 2 Send_would_block by (subst drain_output.simps) (simp add: c1_def)
        then show ?thesis using less.prems 2(3)
          by (intro exI [of _ True] exI [of _ c1]) (simp add: c1_def chunks_ok_def sends_only_def pending_def)
      qed (use 2 in simp)
    qed
  qed
qed

text \<open>
  Data that fits behind the bytes of the only chunk is added to the queue.  \<open>filled_to n c\<close>: there is no chunk
  but one, filled up to byte \<open>n\<close>.
\<close>

definition filled_to :: "nat \<Rightarrow> 's connection \<Rightarrow> bool" where
  "filled_to n c \<longleftrightarrow> (case chunks c of [] \<Rightarrow> n = 0 | [ch] \<Rightarrow> length (chunk_data ch) = n \<and> chunk_offset ch \<le> n | _ \<Rightarrow> False)"

lemma filled_to_ok: "filled_to n c \<Longrightarrow> chunks_ok c"
  by (auto simp: filled_to_def chunks_ok_def split: list.splits)

lemma spool_output_fits:
  assumes "filled_to n c" "n + length data \<le> CHUNK_BUFFERSIZE" "\<not> mute c" "chunk_allocs c = []"
  shows "\<exists>c'. spool_output data c = (PROTOCOL_BINARY_RESPONSE_SUCCESS, c') \<and> c' = c\<lparr>chunks := chunks c'\<rparr> \<and>
    filled_to (n + length data) c' \<and> pending c' = pending c @ data"
proof (cases "data = []")
  case True
  then show ?thesis using assms by (intro exI [of _ c]) (simp add: spool_output_def spool_loop.simps)
next
  case False
  have l: "0 < length data" "\<not> length data > CHUNK_BUFFERSIZE - n" "n < CHUNK_BUFFERSIZE"
    using length_greater_0_conv [THEN iffD2, OF False] assms(2) by linarith+
  show ?thesis
  proof (cases "chunks c")
    case Nil
    let ?c' = "c\<lparr>chunks := [\<lparr>chunk_data = data, chunk_offset = 0\<rparr>]\<rparr>"
    have n: "n = 0" using assms(1) Nil by (simp add: filled_to_def)
    have "spool_output data c = (PROTOCOL_BINARY_RESPONSE_SUCCESS, ?c')"
      using Nil assms(3,4) l n
      by (simp add: spool_output_def spool_loop.simps [of data 0] spool_loop.simps [of data "length data"]
          allocate_output_chunk_def next_chunk_def Let_def)
    then show ?thesis using Nil n by (intro exI [of _ ?c']) (simp add: filled_to_def pending_def)
  next
    case (Cons ch rest)
    let ?c' = "c\<lparr>chunks := [ch\<lparr>chunk_data := chunk_data ch @ data\<rparr>]\<rparr>"
    have n: "rest = []" "length (chunk_data ch) = n" "chunk_offset ch \<le> n" using assms(1) Cons by (auto simp: filled_to_def split: list.splits)
    have "spool_output data c = (PROTOCOL_BINARY_RESPONSE_SUCCESS, ?c')"
      using Cons assms(3) l n
      by (simp add: spool_output_def spool_loop.simps [of data 0] spool_loop.simps [of data "length data"] Let_def)
    then show ?thesis using Cons n by (intro exI [of _ ?c']) (simp add: filled_to_def pending_def)
  qed
qed

text \<open>
  Data that needs more than one chunk is not: every chunk starts with the first byte of the data again.  The
  chunks of \<open>m\<close> bytes:
\<close>

function pieces :: "byte list \<Rightarrow> nat \<Rightarrow> byte list list" where
  "pieces data m = (if m = 0 then [] else take (min m CHUNK_BUFFERSIZE) data # pieces data (m - CHUNK_BUFFERSIZE))"
  by pat_completeness auto

termination pieces
  by (relation "measure snd") (auto simp: CHUNK_BUFFERSIZE_def)

declare pieces.simps [simp del]

lemma spool_loop_pieces:
  assumes "chunk_allocs c = []" "chunk = None \<or> (\<exists>i. chunk = Some i \<and> length (chunk_data (chunks c ! i)) = CHUNK_BUFFERSIZE)"
  shows "spool_loop data offset chunk c = (PROTOCOL_BINARY_RESPONSE_SUCCESS,
    c\<lparr>chunks := chunks c @ map (\<lambda>d. \<lparr>chunk_data = d, chunk_offset = 0\<rparr>) (pieces data (length data - offset))\<rparr>)"
  using assms
proof (induction "length data - offset" arbitrary: offset chunk c rule: less_induct)
  case less
  show ?case
  proof (cases "offset < length data")
    case True
    define bulk where "bulk = min (length data - offset) CHUNK_BUFFERSIZE"
    define c1 where "c1 = c\<lparr>chunks := chunks c @ [\<lparr>chunk_data = take bulk data, chunk_offset = 0\<rparr>]\<rparr>"
    have b: "0 < bulk" "bulk \<le> length data" using True by (auto simp: bulk_def CHUNK_BUFFERSIZE_def)
    have s: "spool_loop data offset chunk c = spool_loop data (offset + bulk) (Some (length (chunks c))) c1"
      using less.prems True
      by (subst spool_loop.simps) (auto simp: allocate_output_chunk_def next_chunk_def c1_def bulk_def Let_def min_def)
    have p: "pieces data (length data - offset) = take bulk data # pieces data (length data - (offset + bulk))"
      using True by (subst pieces.simps) (auto simp: bulk_def min_def pieces.simps [of data 0])
    show ?thesis
    proof (cases "bulk = CHUNK_BUFFERSIZE")
      case bulk: True
      have "spool_loop data (offset + bulk) (Some (length (chunks c))) c1 = (PROTOCOL_BINARY_RESPONSE_SUCCESS,
          c1\<lparr>chunks := chunks c1 @ map (\<lambda>d. \<lparr>chunk_data = d, chunk_offset = 0\<rparr>) (pieces data (length data - (offset + bulk)))\<rparr>)"
        using less.prems(1) b bulk True by (intro less.hyps) (auto simp: c1_def)
      then show ?thesis by (simp add: s p c1_def)
    next
      case False
      then have "offset + bulk = length data" using True by (auto simp: bulk_def min_def split: if_splits)
      then show ?thesis by (simp add: s p c1_def spool_loop.simps [of data "length data"] pieces.simps [of data 0])
    qed
  next
    case False
    then show ?thesis by (simp add: spool_loop.simps [of data offset] pieces.simps [of data 0])
  qed
qed

lemma pieces_nth:
  "m \<le> length data \<Longrightarrow> length (concat (pieces data m)) = m \<and> (\<forall>i < m. concat (pieces data m) ! i = data ! (i mod CHUNK_BUFFERSIZE))"
proof (induction m rule: less_induct)
  case (less m)
  show ?case
  proof (cases "m = 0")
    case True
    then show ?thesis by (simp add: pieces.simps)
  next
    case False
    define k where "k = min m CHUNK_BUFFERSIZE"
    have k: "0 < k" "k \<le> length data" "k \<le> m" "m - k < m" using False less.prems by (auto simp: k_def CHUNK_BUFFERSIZE_def)
    have p: "pieces data m = take k data # pieces data (m - k)"
      using False by (subst pieces.simps) (auto simp: k_def min_def)
    have IH: "length (concat (pieces data (m - k))) = m - k" "\<And>i. i < m - k \<Longrightarrow> concat (pieces data (m - k)) ! i = data ! (i mod CHUNK_BUFFERSIZE)"
      using less.IH [OF k(4)] less.prems by auto
    have "concat (pieces data m) ! i = data ! (i mod CHUNK_BUFFERSIZE)" if "i < m" for i
    proof (cases "i < k")
      case True
      then show ?thesis using k by (simp add: p nth_append k_def)
    next
      case False
      then have "k = CHUNK_BUFFERSIZE" using that by (auto simp: k_def)
      then have "(i - k) mod CHUNK_BUFFERSIZE = i mod CHUNK_BUFFERSIZE" using False by (simp add: le_mod_geq)
      then show ?thesis using False that IH(2) [of "i - k"] k by (simp add: p nth_append min_def)
    qed
    then show ?thesis using IH(1) k by (simp add: p)
  qed
qed

lemma spool_output_long:
  assumes "chunks c = []" "\<not> mute c" "chunk_allocs c = []"
  shows "\<exists>c'. spool_output data c = (PROTOCOL_BINARY_RESPONSE_SUCCESS, c') \<and>
    pending c' = map (\<lambda>i. data ! (i mod CHUNK_BUFFERSIZE)) [0..<length data]"
proof -
  let ?c' = "c\<lparr>chunks := map (\<lambda>d. \<lparr>chunk_data = d, chunk_offset = 0\<rparr>) (pieces data (length data))\<rparr>"
  have "spool_output data c = (PROTOCOL_BINARY_RESPONSE_SUCCESS, ?c')"
    using assms spool_loop_pieces [of c None data 0] by (simp add: spool_output_def)
  moreover have "pending ?c' = concat (pieces data (length data))"
    by (simp add: pending_def comp_def)
  moreover have "concat (pieces data (length data)) = map (\<lambda>i. data ! (i mod CHUNK_BUFFERSIZE)) [0..<length data]"
    using pieces_nth [of "length data" data] by (intro nth_equalityI) auto
  ultimately show ?thesis by simp
qed

end
