(* ===== verification/Protocol_Binary.thy ===== *)
theory Protocol_Binary
  imports Protocol_Output
begin

text \<open>
  The binary protocol of a connection: \<^verbatim>\<open>libmemcachedprotocol/binary_handler.c\<close>, which decodes the packets of a client,
  calls the application and sends its answers, and \<^verbatim>\<open>memcached_protocol_client_work\<close> of \<^verbatim>\<open>handler.c\<close>, which receives them.
  A header is known by its place in the input buffer.
\<close>

section \<open>Reading a packet\<close>

text \<open>
  The bytes \<open>i\<close> to \<open>i + n\<close> behind the start of a header.  The input buffer ends where the list ends; a packet whose
  key or value goes beyond that is taken as undefined even where the application would not look at it.
\<close>

definition bytes_at :: "byte list \<Rightarrow> nat \<Rightarrow> nat \<Rightarrow> fault + byte list" where
  "bytes_at p i n = (if i + n \<le> length p then Inr (take n (drop i p)) else Inl Undefined)"

definition packet_at :: "nat \<Rightarrow> 's connection \<Rightarrow> byte list" where
  "packet_at hdr c = drop hdr (input_buffer c)"

definition header_at :: "nat \<Rightarrow> 's connection \<Rightarrow> request_header" where
  "header_at hdr c = request_of (packet_at hdr c)"

text \<open>Keys are strings for the application.\<close>

definition key_text :: "byte list \<Rightarrow> string" where
  "key_text bs = map (\<lambda>b. char_of (unat b)) bs"

section \<open>raw\_response\_handler\<close>

text \<open>The direct way to the socket: the offset it ends with, and whether an error ended it.\<close>

function direct_send :: "byte list \<Rightarrow> nat \<Rightarrow> 's connection \<Rightarrow> bool \<times> nat \<times> 's connection" where
  "direct_send ptr offset c =
     (case sock_send (drop offset ptr) c of
        (Send_would_block, c) \<Rightarrow> (True, offset, c)
      | (Send_interrupted, c) \<Rightarrow> if offset < length ptr then direct_send ptr offset c else (True, offset, c)
      | (Send_failed e, c) \<Rightarrow> (False, offset, c\<lparr>conn_error := e\<rparr>)
      | (Sent nw, c) \<Rightarrow> if offset + nw < length ptr then direct_send ptr (offset + nw) c else (True, offset + nw, c))"
  by pat_completeness auto

termination direct_send
  by (relation "measure (\<lambda>(ptr, offset, c). length (sends c))")
    (auto simp: sock_send_def split: list.splits send_outcome.splits if_splits)

declare direct_send.simps [simp del]

text \<open>\<open>response\<close> are the bytes of the object that the response points to.\<close>

definition raw_response_handler :: "nat \<Rightarrow> byte list \<Rightarrow> ('s connection, protocol_binary_response_status) prog" where
  "raw_response_handler hdr response c =
     (if pedantic c \<and> \<not> memcached_binary_protocol_pedantic_check_response (header_at hdr c) (response_of response)
      then Inr (PROTOCOL_BINARY_RESPONSE_EINVAL, c)
      else
        run_bind (drain_output c) (\<lambda>(ok, c).
          if \<not> ok then Inr (PROTOCOL_BINARY_RESPONSE_EINTERNAL, c)
          else
            let len = 24 + unat (res_bodylen (response_of response))
            in if len > length response then Inl Undefined
               else
                 case (if chunks c = [] then direct_send (take len response) 0 c else (True, 0, c)) of (ok, offset, c) \<Rightarrow>
                   if \<not> ok then Inr (PROTOCOL_BINARY_RESPONSE_EINTERNAL, c)
                   else Inr (spool_output (take (len - offset) response) c)))"

text \<open>A response without key and extras, with the body.\<close>

definition response_packet :: "byte \<Rightarrow> protocol_binary_response_status \<Rightarrow> 32 word \<Rightarrow> 64 word \<Rightarrow> byte list \<Rightarrow> byte list" where
  "response_packet opcode status opaque cas body =
     response_bytes \<lparr>res_magic = PROTOCOL_BINARY_RES, res_opcode = opcode, res_keylen = 0, res_extlen = 0,
       res_datatype = PROTOCOL_BINARY_RAW_BYTES, res_status = status_code status, res_bodylen = word_of_nat (length body),
       res_opaque = opaque, res_cas = cas\<rparr> @ body"

section \<open>The responses with a value\<close>

definition get_packet :: "byte \<Rightarrow> 32 word \<Rightarrow> 16 word \<Rightarrow> 32 word \<Rightarrow> 32 word \<Rightarrow> 64 word \<Rightarrow> byte list" where
  "get_packet opcode opaque keylen bodylen flags cas =
     response_bytes \<lparr>res_magic = PROTOCOL_BINARY_RES, res_opcode = opcode, res_keylen = keylen, res_extlen = 4,
       res_datatype = PROTOCOL_BINARY_RAW_BYTES, res_status = status_code PROTOCOL_BINARY_RESPONSE_SUCCESS,
       res_bodylen = bodylen + ucast keylen + 4, res_opaque = opaque, res_cas = cas\<rparr> @ be_bytes 4 flags"

text \<open>The calls of \<^verbatim>\<open>spool\<close> one after the other, up to the first that fails.\<close>

fun spool_all :: "byte list list \<Rightarrow> 's connection \<Rightarrow> protocol_binary_response_status \<times> 's connection" where
  "spool_all [] c = (PROTOCOL_BINARY_RESPONSE_SUCCESS, c)"
| "spool_all (d # ds) c =
     (case spool_output d c of (rval, c) \<Rightarrow> if rval \<noteq> PROTOCOL_BINARY_RESPONSE_SUCCESS then (rval, c) else spool_all ds c)"

definition get_response_handler :: "byte list \<Rightarrow> byte list \<Rightarrow> 32 word \<Rightarrow> 64 word \<Rightarrow> 's connection \<Rightarrow> protocol_binary_response_status \<times> 's connection" where
  "get_response_handler key body flags cas c =
     (let header = header_at (current_command c) c;
          opcode = req_opcode header;
          keylen = (if opcode = PROTOCOL_BINARY_CMD_GET \<or> opcode = PROTOCOL_BINARY_CMD_GETQ then 0 else length key)
      in spool_all [get_packet opcode (req_opaque header) (word_of_nat keylen) (word_of_nat (length body)) flags cas, take keylen key, body] c)"

definition stat_response_handler :: "byte list \<Rightarrow> byte list \<Rightarrow> 's connection \<Rightarrow> protocol_binary_response_status \<times> 's connection" where
  "stat_response_handler key body c =
     (let header = header_at (current_command c) c
      in spool_all
           [response_bytes \<lparr>res_magic = PROTOCOL_BINARY_RES, res_opcode = req_opcode header, res_keylen = word_of_nat (length key), res_extlen = 0,
              res_datatype = PROTOCOL_BINARY_RAW_BYTES, res_status = status_code PROTOCOL_BINARY_RESPONSE_SUCCESS,
              res_bodylen = word_of_nat (length body) + word_of_nat (length key), res_opaque = req_opaque header, res_cas = 0\<rparr>, key, body] c)"

definition version_response_handler :: "byte list \<Rightarrow> 's connection \<Rightarrow> protocol_binary_response_status \<times> 's connection" where
  "version_response_handler txt c =
     (let header = header_at (current_command c) c
      in spool_all
           [response_bytes \<lparr>res_magic = PROTOCOL_BINARY_RES, res_opcode = req_opcode header, res_keylen = 0, res_extlen = 0,
              res_datatype = PROTOCOL_BINARY_RAW_BYTES, res_status = status_code PROTOCOL_BINARY_RESPONSE_SUCCESS,
              res_bodylen = word_of_nat (length txt), res_opaque = req_opaque header, res_cas = 0\<rparr>, txt] c)"

section \<open>Version 1 of the interface\<close>

text \<open>
  The functions of the application, with its state; a null pointer is \<open>None\<close>.  A function that stores gives the status
  and what it wrote through its pointer to the cas number, one that reads gives what it passes to the response handler.
\<close>

type_synonym 's stored = "fault + (protocol_binary_response_status \<times> 64 word option \<times> 's)"
type_synonym 's calculated = "fault + (64 word option \<times> protocol_binary_response_status \<times> 64 word option \<times> 's)"

record 's interface_v1 =
  v1_add :: "(string \<Rightarrow> byte list \<Rightarrow> 32 word \<Rightarrow> int \<Rightarrow> 's \<Rightarrow> 's stored) option"
  v1_append :: "(string \<Rightarrow> byte list \<Rightarrow> 64 word \<Rightarrow> 's \<Rightarrow> 's stored) option"
  v1_decrement :: "(string \<Rightarrow> 64 word \<Rightarrow> 64 word \<Rightarrow> 32 word \<Rightarrow> 's \<Rightarrow> 's calculated) option"
  v1_delete_object :: "(string \<Rightarrow> 64 word \<Rightarrow> 's \<Rightarrow> fault + (protocol_binary_response_status \<times> 's)) option"
  v1_flush_object :: "(32 word \<Rightarrow> 's \<Rightarrow> protocol_binary_response_status \<times> 's) option"
  v1_get :: "(string \<Rightarrow> 's \<Rightarrow> fault + (protocol_binary_response_status \<times> (byte list \<times> 32 word \<times> 64 word) option)) option"
  v1_increment :: "(string \<Rightarrow> 64 word \<Rightarrow> 64 word \<Rightarrow> 32 word \<Rightarrow> 's \<Rightarrow> 's calculated) option"
  v1_noop :: "('s \<Rightarrow> 's) option"
  v1_prepend :: "(string \<Rightarrow> byte list \<Rightarrow> 64 word \<Rightarrow> 's \<Rightarrow> 's stored) option"
  v1_quit :: "('s \<Rightarrow> 's) option"
  v1_replace :: "(string \<Rightarrow> byte list \<Rightarrow> 32 word \<Rightarrow> int \<Rightarrow> 64 word \<Rightarrow> 's \<Rightarrow> 's stored) option"
  v1_set :: "(string \<Rightarrow> byte list \<Rightarrow> 32 word \<Rightarrow> int \<Rightarrow> 64 word \<Rightarrow> 's \<Rightarrow> 's stored) option"
  v1_stat :: "(string \<Rightarrow> 's \<Rightarrow> byte list \<times> byte list) option"
  v1_version :: "('s \<Rightarrow> byte list) option"

type_synonym 's command_handler = "nat \<Rightarrow> ('s connection, protocol_binary_response_status) prog"

text \<open>The fields of the requests that store: key, value, flags and expiration, for a value of \<open>datalen\<close> bytes; those without
  extras; those that calculate.\<close>

definition storage_fields :: "nat \<Rightarrow> byte list \<Rightarrow> fault + (byte list \<times> byte list \<times> 32 word \<times> int)" where
  "storage_fields datalen p =
     (let keylen = unat (req_keylen (request_of p))
      in run_bind (bytes_at p 24 8) (\<lambda>extras.
         run_bind (bytes_at p 32 keylen) (\<lambda>key.
         run_bind (bytes_at p (32 + keylen) datalen) (\<lambda>data.
           Inr (key, data, be_word (take 4 extras), uint (be_word (drop 4 extras) :: 32 word))))))"

definition storage_length :: "request_header \<Rightarrow> nat" where
  "storage_length h = unat (req_bodylen h - ucast (req_keylen h) - 8)"

definition concat_fields :: "byte list \<Rightarrow> fault + (byte list \<times> byte list)" where
  "concat_fields p =
     (let keylen = unat (req_keylen (request_of p));
          datalen = unat (req_bodylen (request_of p) - ucast (req_keylen (request_of p)))
      in run_bind (bytes_at p 24 keylen) (\<lambda>key.
         run_bind (bytes_at p (24 + keylen) datalen) (\<lambda>data. Inr (key, data))))"

definition counter_fields :: "byte list \<Rightarrow> fault + (byte list \<times> 64 word \<times> 64 word \<times> 32 word)" where
  "counter_fields p =
     run_bind (bytes_at p 24 20) (\<lambda>extras.
     run_bind (bytes_at p 44 (unat (req_keylen (request_of p)))) (\<lambda>key.
       Inr (key, be_word (take 8 extras), be_word (take 8 (drop 8 extras)), be_word (drop 16 extras))))"

text \<open>The answer to a request that was a success: a number that was not stored is read uninitialised.\<close>

definition reply_cas :: "nat \<Rightarrow> byte \<Rightarrow> 64 word option \<Rightarrow> byte list \<Rightarrow> ('s connection, protocol_binary_response_status) prog" where
  "reply_cas hdr opcode cas body c =
     (case cas of
        None \<Rightarrow> Inl Undefined
      | Some cas \<Rightarrow> raw_response_handler hdr (response_packet opcode PROTOCOL_BINARY_RESPONSE_SUCCESS (req_opaque (header_at hdr c)) cas body) c)"

definition add_command_handler :: "'s interface_v1 \<Rightarrow> 's command_handler" where
  "add_command_handler v1 hdr c =
     (case v1_add v1 of
        None \<Rightarrow> Inr (PROTOCOL_BINARY_RESPONSE_UNKNOWN_COMMAND, c)
      | Some f \<Rightarrow>
          run_bind (storage_fields (storage_length (header_at hdr c)) (packet_at hdr c)) (\<lambda>(key, data, flags, timeout).
          run_bind (f (key_text key) data flags timeout (app c)) (\<lambda>(rval, cas, s).
            if rval = PROTOCOL_BINARY_RESPONSE_SUCCESS \<and> req_opcode (header_at hdr c) = PROTOCOL_BINARY_CMD_ADD
            then reply_cas hdr PROTOCOL_BINARY_CMD_ADD cas [] (c\<lparr>app := s\<rparr>)
            else Inr (rval, c\<lparr>app := s\<rparr>))))"

definition decrement_command_handler :: "'s interface_v1 \<Rightarrow> 's command_handler" where
  "decrement_command_handler v1 hdr c =
     (case v1_decrement v1 of
        None \<Rightarrow> Inr (PROTOCOL_BINARY_RESPONSE_UNKNOWN_COMMAND, c)
      | Some f \<Rightarrow>
          run_bind (counter_fields (packet_at hdr c)) (\<lambda>(key, delta, initial, timeout).
          run_bind (f (key_text key) delta initial timeout (app c)) (\<lambda>(val, rval, cas, s).
            if rval = PROTOCOL_BINARY_RESPONSE_SUCCESS \<and> req_opcode (header_at hdr c) = PROTOCOL_BINARY_CMD_DECREMENT
            then
              case val of
                None \<Rightarrow> Inl Undefined
              | Some val \<Rightarrow> reply_cas hdr PROTOCOL_BINARY_CMD_DECREMENT cas (be_bytes 8 val) (c\<lparr>app := s\<rparr>)
            else Inr (rval, c\<lparr>app := s\<rparr>))))"

definition delete_command_handler :: "'s interface_v1 \<Rightarrow> 's command_handler" where
  "delete_command_handler v1 hdr c =
     (case v1_delete_object v1 of
        None \<Rightarrow> Inr (PROTOCOL_BINARY_RESPONSE_UNKNOWN_COMMAND, c)
      | Some f \<Rightarrow>
          run_bind (bytes_at (packet_at hdr c) 24 (unat (req_keylen (header_at hdr c)))) (\<lambda>key.
          run_bind (f (key_text key) (req_cas (header_at hdr c)) (app c)) (\<lambda>(rval, s).
            if rval = PROTOCOL_BINARY_RESPONSE_SUCCESS \<and> req_opcode (header_at hdr c) = PROTOCOL_BINARY_CMD_DELETE
            then reply_cas hdr PROTOCOL_BINARY_CMD_DELETE (Some 0) [] (c\<lparr>app := s\<rparr>)
            else Inr (rval, c\<lparr>app := s\<rparr>))))"

definition flush_command_handler :: "'s interface_v1 \<Rightarrow> 's command_handler" where
  "flush_command_handler v1 hdr c =
     (case v1_flush_object v1 of
        None \<Rightarrow> Inr (PROTOCOL_BINARY_RESPONSE_UNKNOWN_COMMAND, c)
      | Some f \<Rightarrow>
          run_bind (if req_bodylen (header_at hdr c) = 4 then bytes_at (packet_at hdr c) 24 4 else Inr []) (\<lambda>timeout.
          case f (be_word timeout) (app c) of (rval, s) \<Rightarrow>
            if rval = PROTOCOL_BINARY_RESPONSE_SUCCESS \<and> req_opcode (header_at hdr c) = PROTOCOL_BINARY_CMD_FLUSH
            then reply_cas hdr PROTOCOL_BINARY_CMD_FLUSH (Some 0) [] (c\<lparr>app := s\<rparr>)
            else Inr (rval, c\<lparr>app := s\<rparr>)))"

definition get_command_handler :: "'s interface_v1 \<Rightarrow> 's command_handler" where
  "get_command_handler v1 hdr c =
     (case v1_get v1 of
        None \<Rightarrow> Inr (PROTOCOL_BINARY_RESPONSE_UNKNOWN_COMMAND, c)
      | Some f \<Rightarrow>
          run_bind (bytes_at (packet_at hdr c) 24 (unat (req_keylen (header_at hdr c)))) (\<lambda>key.
          run_bind (f (key_text key) (app c)) (\<lambda>(rc, item).
            let (rval, c) = (case item of None \<Rightarrow> (rc, c) | Some (data, flags, cas) \<Rightarrow> get_response_handler key data flags cas c)
            in if rval = PROTOCOL_BINARY_RESPONSE_KEY_ENOENT \<and>
                  (req_opcode (header_at hdr c) = PROTOCOL_BINARY_CMD_GETQ \<or> req_opcode (header_at hdr c) = PROTOCOL_BINARY_CMD_GETKQ)
               then Inr (PROTOCOL_BINARY_RESPONSE_SUCCESS, c) else Inr (rval, c))))"

definition increment_command_handler :: "'s interface_v1 \<Rightarrow> 's command_handler" where
  "increment_command_handler v1 hdr c =
     (case v1_increment v1 of
        None \<Rightarrow> Inr (PROTOCOL_BINARY_RESPONSE_UNKNOWN_COMMAND, c)
      | Some f \<Rightarrow>
          run_bind (counter_fields (packet_at hdr c)) (\<lambda>(key, delta, initial, timeout).
          run_bind (f (key_text key) delta initial timeout (app c)) (\<lambda>(val, rval, cas, s).
            if rval = PROTOCOL_BINARY_RESPONSE_SUCCESS \<and> req_opcode (header_at hdr c) = PROTOCOL_BINARY_CMD_INCREMENT
            then
              case val of
                None \<Rightarrow> Inl Undefined
              | Some val \<Rightarrow> reply_cas hdr PROTOCOL_BINARY_CMD_INCREMENT cas (be_bytes 8 val) (c\<lparr>app := s\<rparr>)
            else Inr (rval, c\<lparr>app := s\<rparr>))))"

definition noop_command_handler :: "'s interface_v1 \<Rightarrow> 's command_handler" where
  "noop_command_handler v1 hdr c =
     reply_cas hdr PROTOCOL_BINARY_CMD_NOOP (Some 0) [] (case v1_noop v1 of None \<Rightarrow> c | Some f \<Rightarrow> c\<lparr>app := f (app c)\<rparr>)"

definition append_command_handler :: "'s interface_v1 \<Rightarrow> 's command_handler" where
  "append_command_handler v1 hdr c =
     (case v1_append v1 of
        None \<Rightarrow> Inr (PROTOCOL_BINARY_RESPONSE_UNKNOWN_COMMAND, c)
      | Some f \<Rightarrow>
          run_bind (concat_fields (packet_at hdr c)) (\<lambda>(key, data).
          run_bind (f (key_text key) data (req_cas (header_at hdr c)) (app c)) (\<lambda>(rval, cas, s).
            if rval = PROTOCOL_BINARY_RESPONSE_SUCCESS \<and> req_opcode (header_at hdr c) = PROTOCOL_BINARY_CMD_APPEND
            then reply_cas hdr PROTOCOL_BINARY_CMD_APPEND cas [] (c\<lparr>app := s\<rparr>)
            else Inr (rval, c\<lparr>app := s\<rparr>))))"

definition prepend_command_handler :: "'s interface_v1 \<Rightarrow> 's command_handler" where
  "prepend_command_handler v1 hdr c =
     (case v1_prepend v1 of
        None \<Rightarrow> Inr (PROTOCOL_BINARY_RESPONSE_UNKNOWN_COMMAND, c)
      | Some f \<Rightarrow>
          run_bind (concat_fields (packet_at hdr c)) (\<lambda>(key, data).
          run_bind (f (key_text key) data (req_cas (header_at hdr c)) (app c)) (\<lambda>(rval, cas, s).
            if rval = PROTOCOL_BINARY_RESPONSE_SUCCESS \<and> req_opcode (header_at hdr c) = PROTOCOL_BINARY_CMD_PREPEND
            then reply_cas hdr PROTOCOL_BINARY_CMD_PREPEND cas [] (c\<lparr>app := s\<rparr>)
            else Inr (rval, c\<lparr>app := s\<rparr>))))"

definition quit_command_handler :: "'s interface_v1 \<Rightarrow> 's command_handler" where
  "quit_command_handler v1 hdr c =
     (let c = (case v1_quit v1 of None \<Rightarrow> c | Some f \<Rightarrow> c\<lparr>app := f (app c)\<rparr>)
      in if req_opcode (header_at hdr c) = PROTOCOL_BINARY_CMD_QUIT then
           run_bind (reply_cas hdr PROTOCOL_BINARY_CMD_QUIT (Some 0) [] c) (\<lambda>(rval, c). Inr (PROTOCOL_BINARY_RESPONSE_EINTERNAL, c))
         else Inr (PROTOCOL_BINARY_RESPONSE_EINTERNAL, c))"

definition replace_command_handler :: "'s interface_v1 \<Rightarrow> 's command_handler" where
  "replace_command_handler v1 hdr c =
     (case v1_replace v1 of
        None \<Rightarrow> Inr (PROTOCOL_BINARY_RESPONSE_UNKNOWN_COMMAND, c)
      | Some f \<Rightarrow>
          run_bind (storage_fields (storage_length (header_at hdr c)) (packet_at hdr c)) (\<lambda>(key, data, flags, timeout).
          run_bind (f (key_text key) data flags timeout (req_cas (header_at hdr c)) (app c)) (\<lambda>(rval, cas, s).
            if rval = PROTOCOL_BINARY_RESPONSE_SUCCESS \<and> req_opcode (header_at hdr c) = PROTOCOL_BINARY_CMD_REPLACE
            then reply_cas hdr PROTOCOL_BINARY_CMD_REPLACE cas [] (c\<lparr>app := s\<rparr>)
            else Inr (rval, c\<lparr>app := s\<rparr>))))"

definition set_command_handler :: "'s interface_v1 \<Rightarrow> 's command_handler" where
  "set_command_handler v1 hdr c =
     (case v1_set v1 of
        None \<Rightarrow> Inr (PROTOCOL_BINARY_RESPONSE_UNKNOWN_COMMAND, c)
      | Some f \<Rightarrow>
          run_bind (storage_fields (storage_length (header_at hdr c)) (packet_at hdr c)) (\<lambda>(key, data, flags, timeout).
          run_bind (f (key_text key) data flags timeout (req_cas (header_at hdr c)) (app c)) (\<lambda>(rval, cas, s).
            if rval = PROTOCOL_BINARY_RESPONSE_SUCCESS \<and> req_opcode (header_at hdr c) = PROTOCOL_BINARY_CMD_SET
            then reply_cas hdr PROTOCOL_BINARY_CMD_SET cas [] (c\<lparr>app := s\<rparr>)
            else Inr (rval, c\<lparr>app := s\<rparr>))))"

definition stat_command_handler :: "'s interface_v1 \<Rightarrow> 's command_handler" where
  "stat_command_handler v1 hdr c =
     (case v1_stat v1 of
        None \<Rightarrow> Inr (PROTOCOL_BINARY_RESPONSE_UNKNOWN_COMMAND, c)
      | Some f \<Rightarrow>
          run_bind (bytes_at (packet_at hdr c) 24 (unat (req_keylen (header_at hdr c)))) (\<lambda>key.
          case f (key_text key) (app c) of (name, val) \<Rightarrow> Inr (stat_response_handler name val c)))"

definition version_command_handler :: "'s interface_v1 \<Rightarrow> 's command_handler" where
  "version_command_handler v1 hdr c =
     (case v1_version v1 of
        None \<Rightarrow> Inr (PROTOCOL_BINARY_RESPONSE_UNKNOWN_COMMAND, c)
      | Some f \<Rightarrow> Inr (version_response_handler (f (app c)) c))"

definition comcode_v0_v1_remap :: "'s interface_v1 \<Rightarrow> byte \<Rightarrow> 's command_handler option" where
  "comcode_v0_v1_remap v1 cc =
     (if cc = PROTOCOL_BINARY_CMD_ADDQ \<or> cc = PROTOCOL_BINARY_CMD_ADD then Some (add_command_handler v1)
      else if cc = PROTOCOL_BINARY_CMD_APPENDQ \<or> cc = PROTOCOL_BINARY_CMD_APPEND then Some (append_command_handler v1)
      else if cc = PROTOCOL_BINARY_CMD_DECREMENTQ \<or> cc = PROTOCOL_BINARY_CMD_DECREMENT then Some (decrement_command_handler v1)
      else if cc = PROTOCOL_BINARY_CMD_DELETEQ \<or> cc = PROTOCOL_BINARY_CMD_DELETE then Some (delete_command_handler v1)
      else if cc = PROTOCOL_BINARY_CMD_FLUSHQ \<or> cc = PROTOCOL_BINARY_CMD_FLUSH then Some (flush_command_handler v1)
      else if cc = PROTOCOL_BINARY_CMD_GETKQ \<or> cc = PROTOCOL_BINARY_CMD_GETK \<or> cc = PROTOCOL_BINARY_CMD_GETQ \<or> cc = PROTOCOL_BINARY_CMD_GET
      then Some (get_command_handler v1)
      else if cc = PROTOCOL_BINARY_CMD_INCREMENTQ \<or> cc = PROTOCOL_BINARY_CMD_INCREMENT then Some (increment_command_handler v1)
      else if cc = PROTOCOL_BINARY_CMD_NOOP then Some (noop_command_handler v1)
      else if cc = PROTOCOL_BINARY_CMD_PREPENDQ \<or> cc = PROTOCOL_BINARY_CMD_PREPEND then Some (prepend_command_handler v1)
      else if cc = PROTOCOL_BINARY_CMD_QUITQ \<or> cc = PROTOCOL_BINARY_CMD_QUIT then Some (quit_command_handler v1)
      else if cc = PROTOCOL_BINARY_CMD_REPLACEQ \<or> cc = PROTOCOL_BINARY_CMD_REPLACE then Some (replace_command_handler v1)
      else if cc = PROTOCOL_BINARY_CMD_SETQ \<or> cc = PROTOCOL_BINARY_CMD_SET then Some (set_command_handler v1)
      else if cc = PROTOCOL_BINARY_CMD_STAT then Some (stat_command_handler v1)
      else if cc = PROTOCOL_BINARY_CMD_VERSION then Some (version_command_handler v1)
      else None)"

section \<open>Commands\<close>

text \<open>
  The callbacks of an instance.  \<^verbatim>\<open>pre_execute\<close> and \<^verbatim>\<open>post_execute\<close> are told of every command and change nothing, and the
  result of the pedantic test of the request is not used.
\<close>

datatype 's interface = V0 "byte \<Rightarrow> 's command_handler option" | V1 "'s interface_v1"

record 's callback =
  interface :: "'s interface"
  unknown_command :: "'s command_handler option"

definition execute_command :: "'s callback \<Rightarrow> 's command_handler" where
  "execute_command cb hdr c =
     (let cc = req_opcode (header_at hdr c);
          handler = (case interface cb of V0 comcode \<Rightarrow> comcode cc | V1 v1 \<Rightarrow> comcode_v0_v1_remap v1 cc)
      in run_bind (case handler of None \<Rightarrow> Inr (PROTOCOL_BINARY_RESPONSE_UNKNOWN_COMMAND, c) | Some f \<Rightarrow> f hdr c) (\<lambda>(rval, c).
         run_bind
           (case unknown_command cb of
              None \<Rightarrow> Inr (rval, c)
            | Some f \<Rightarrow> if rval = PROTOCOL_BINARY_RESPONSE_UNKNOWN_COMMAND then f hdr c else Inr (rval, c)) (\<lambda>(rval, c).
           if rval \<noteq> PROTOCOL_BINARY_RESPONSE_SUCCESS \<and> rval \<noteq> PROTOCOL_BINARY_RESPONSE_EINTERNAL \<and> rval \<noteq> PROTOCOL_BINARY_RESPONSE_NOT_SUPPORTED
           then raw_response_handler hdr (response_packet cc rval (req_opaque (header_at hdr c)) 0 []) c
           else Inr (rval, c))))"

section \<open>Receiving\<close>

datatype memcached_protocol_event_t =
  MEMCACHED_PROTOCOL_ERROR_EVENT | MEMCACHED_PROTOCOL_READ_EVENT | MEMCACHED_PROTOCOL_WRITE_EVENT | MEMCACHED_PROTOCOL_PAUSE_EVENT

text \<open>
  The loop over the packets in the input buffer: \<open>hdr\<close> is the place of the header, \<open>len\<close> the number of bytes from there
  and \<open>endptr\<close> what was stored through \<^verbatim>\<open>endptr\<close>, if anything.  The input buffer starts at an address that is a
  multiple of 8.
\<close>

definition total_at :: "nat \<Rightarrow> 's connection \<Rightarrow> nat" where
  "total_at hdr c = 24 + unat (req_bodylen (header_at hdr c))"

definition next_header :: "nat \<Rightarrow> nat \<Rightarrow> 's connection \<Rightarrow> nat \<times> 's connection" where
  "next_header ptr len c =
     (if ptr mod 8 = 0 then (ptr, c)
      else (0, c\<lparr>input_buffer := take len (drop ptr (input_buffer c)) @ drop len (input_buffer c)\<rparr>))"

function process_loop :: "'s callback \<Rightarrow> nat \<Rightarrow> nat \<Rightarrow> nat option \<Rightarrow> 's connection \<Rightarrow> fault + ((memcached_protocol_event_t \<times> nat \<times> nat option) \<times> 's connection)" where
  "process_loop cb hdr len endptr c =
     (if len \<ge> 24 \<and> len \<ge> total_at hdr c then
        case execute_command cb hdr (c\<lparr>current_command := hdr\<rparr>) of
          Inl e \<Rightarrow> Inl e
        | Inr (rv, c) \<Rightarrow>
            if rv = PROTOCOL_BINARY_RESPONSE_EINTERNAL then Inr ((MEMCACHED_PROTOCOL_ERROR_EVENT, len, Some hdr), c)
            else if rv = PROTOCOL_BINARY_RESPONSE_NOT_SUPPORTED then Inr ((MEMCACHED_PROTOCOL_PAUSE_EVENT, len, endptr), c)
            else
              let total = total_at hdr c
              in if len - total > 0 then
                   case next_header (hdr + total) (len - total) c of (hdr, c) \<Rightarrow> process_loop cb hdr (len - total) (Some hdr) c
                 else process_loop cb hdr (len - total) (Some hdr) c
      else Inr ((MEMCACHED_PROTOCOL_READ_EVENT, len, endptr), c))"
  by pat_completeness auto

termination process_loop
  by (relation "measure (\<lambda>(cb, hdr, len, endptr, c). len)") (auto simp: total_at_def)

declare process_loop.simps [simp del]

text \<open>\<^verbatim>\<open>EINVAL\<close> is 22.\<close>

definition memcached_binary_protocol_process_data ::
  "'s callback \<Rightarrow> nat \<Rightarrow> 's connection \<Rightarrow> fault + ((memcached_protocol_event_t \<times> nat \<times> nat option) \<times> 's connection)" where
  "memcached_binary_protocol_process_data cb len c =
     (if req_magic (header_at 0 c) \<noteq> PROTOCOL_BINARY_REQ then Inr ((MEMCACHED_PROTOCOL_ERROR_EVENT, len, None), c\<lparr>conn_error := 22\<rparr>)
      else process_loop cb 0 len None c)"

text \<open>The ASCII protocol (\<^verbatim>\<open>ascii_handler.c\<close>) is the parameter \<open>ascii\<close>.\<close>

type_synonym 's process = "nat \<Rightarrow> 's connection \<Rightarrow> fault + ((memcached_protocol_event_t \<times> nat \<times> nat option) \<times> 's connection)"

definition unsupported_protocol :: "byte list" where
  "unsupported_protocol = map (\<lambda>ch. word_of_nat (of_char ch)) (''CLIENT_ERROR: Unsupported protocol'' @ [CHR 0x0D, CHR 0x0A])"

definition determine_protocol :: "'s callback \<Rightarrow> 's process \<Rightarrow> 's process" where
  "determine_protocol cb ascii len c =
     (if input_buffer c ! 0 = PROTOCOL_BINARY_REQ then memcached_binary_protocol_process_data cb len (c\<lparr>work_func := Binary_protocol\<rparr>)
      else
        case interface cb of
          V1 v1 \<Rightarrow> ascii len (c\<lparr>work_func := Ascii_protocol\<rparr>)
        | V0 comcode \<Rightarrow>
            run_bind (drain_output (snd (spool_output unsupported_protocol c))) (\<lambda>(ok, c).
              Inr ((MEMCACHED_PROTOCOL_ERROR_EVENT, len, None), c)))"

definition client_work :: "'s callback \<Rightarrow> 's process \<Rightarrow> 's process" where
  "client_work cb ascii len c =
     (case work_func c of
        Determine_protocol \<Rightarrow> determine_protocol cb ascii len c
      | Binary_protocol \<Rightarrow> memcached_binary_protocol_process_data cb len c
      | Ascii_protocol \<Rightarrow> ascii len c)"

text \<open>What a call of \<^verbatim>\<open>recv\<close> does: it delivers bytes, none at the end of the stream, or fails.  After the end of the list it would block.\<close>

datatype recv_outcome = Received "byte list" | Recv_would_block | Recv_failed int

text \<open>The bytes that were received are put behind the \<open>saved\<close> ones.  \<^verbatim>\<open>ENOMEM\<close> is 12.\<close>

definition put_received :: "byte list \<Rightarrow> 's connection \<Rightarrow> 's connection" where
  "put_received bs c =
     c\<lparr>input_buffer := saved c @ bs @ drop (length (saved c) + length bs) (input_buffer c), saved := []\<rparr>"

definition save_rest :: "nat \<Rightarrow> nat option \<Rightarrow> 's connection \<Rightarrow> fault + (bool \<times> 's connection)" where
  "save_rest len endptr c =
     (let (ok, c) = next_chunk c
      in if \<not> ok then Inr (False, c\<lparr>conn_error := 12\<rparr>)
         else
           case endptr of
             None \<Rightarrow> Inl Undefined
           | Some ptr \<Rightarrow> run_bind (bytes_at (drop ptr (input_buffer c)) 0 len) (\<lambda>bs. Inr (True, c\<lparr>saved := bs\<rparr>)))"

text \<open>The loop of \<^verbatim>\<open>memcached_protocol_client_work\<close>: whether the connection goes on, and what is left to receive.\<close>

function receive_loop :: "'s callback \<Rightarrow> 's process \<Rightarrow> recv_outcome list \<Rightarrow> 's connection \<Rightarrow> fault + (bool \<times> recv_outcome list \<times> 's connection)" where
  "receive_loop cb ascii net c =
     (case net of
        [] \<Rightarrow> Inr (True, [], c)
      | Recv_would_block # net \<Rightarrow> Inr (True, net, c)
      | Recv_failed e # net \<Rightarrow> Inr (False, net, c\<lparr>conn_error := e\<rparr>)
      | Received bs # net \<Rightarrow>
          let room = length (input_buffer c) - length (saved c);
              more = (if length bs > room then Received (drop room bs) # net else net);
              bs = take room bs
          in if bs = [] then run_bind (drain_output c) (\<lambda>(ok, c). Inr (False, more, c))
             else
               case client_work cb ascii (length (saved c) + length bs) (put_received bs c) of
                 Inl e \<Rightarrow> Inl e
               | Inr ((event, len, endptr), c) \<Rightarrow>
                   if event = MEMCACHED_PROTOCOL_ERROR_EVENT then Inr (False, more, c)
                   else if len > 0 then run_bind (save_rest len endptr c) (\<lambda>(ok, c). Inr (ok, more, c))
                   else receive_loop cb ascii more c)"
  by pat_completeness auto

termination receive_loop
  by (relation "measure (\<lambda>(cb, ascii, net, c). sum_list (map (\<lambda>r. case r of Received bs \<Rightarrow> Suc (length bs) | _ \<Rightarrow> 1) net))")
    (auto split: if_splits)

declare receive_loop.simps [simp del]

text \<open>\<^verbatim>\<open>ret |= MEMCACHED_PROTOCOL_READ_EVENT\<close>: the result does not tell whether there is output left.\<close>

definition memcached_protocol_client_work ::
  "'s callback \<Rightarrow> 's process \<Rightarrow> recv_outcome list \<Rightarrow> 's connection \<Rightarrow> fault + (memcached_protocol_event_t \<times> recv_outcome list \<times> 's connection)" where
  "memcached_protocol_client_work cb ascii net c =
     run_bind (receive_loop cb ascii net c) (\<lambda>(ok, net, c).
       if \<not> ok then Inr (MEMCACHED_PROTOCOL_ERROR_EVENT, net, c)
       else
         run_bind (drain_output c) (\<lambda>(ok, c).
           Inr (if ok then MEMCACHED_PROTOCOL_READ_EVENT else MEMCACHED_PROTOCOL_ERROR_EVENT, net, c)))"

end
