(* ===== verification/Protocol_Correct.thy ===== *)
theory Protocol_Correct
  imports Protocol_Binary Light_Cache
begin

text \<open>
  What a server with version 1 of the interface does with the packets it receives: every command of the packet is a
  step of the abstract cache, and the bytes that leave the socket are the answers, in the order of the packets.
  The application enters through the interface \<open>v1_application\<close>.
\<close>

section \<open>Responses on a socket that takes everything\<close>

text \<open>A connection whose socket takes everything, with room for more output behind byte \<open>n\<close> of its only chunk.\<close>

definition idle :: "nat \<Rightarrow> 's connection \<Rightarrow> bool" where
  "idle n c \<longleftrightarrow> filled_to n c \<and> sends c = [] \<and> \<not> mute c \<and> chunk_allocs c = []"

text \<open>\<open>answers bs c c'\<close>: from \<open>c\<close> to \<open>c'\<close> the bytes \<open>bs\<close> were sent or queued, in this order behind the others.\<close>

definition answers :: "byte list \<Rightarrow> nat \<Rightarrow> 's connection \<Rightarrow> 's connection \<Rightarrow> bool" where
  "answers bs n c c' \<longleftrightarrow>
     c' = c\<lparr>chunks := chunks c', wire := wire c', app := app c'\<rparr> \<and>
     wire c' @ pending c' = wire c @ pending c @ bs \<and> (\<exists>n' \<le> n + length bs. idle n' c')"

lemma answers_fields:
  assumes "answers bs n c c'"
  shows "saved c' = saved c" "work_func c' = work_func c" "current_command c' = current_command c" "pedantic c' = pedantic c"
    "input_buffer c' = input_buffer c" "conn_error c' = conn_error c"
  using assms unfolding answers_def by (cases c; cases c'; simp)+

lemma answers_none: "idle n c \<Longrightarrow> answers [] n c (c\<lparr>app := s\<rparr>)"
  by (auto simp: answers_def idle_def filled_to_def pending_def)

lemma answers_app: "answers bs n (c\<lparr>app := s\<rparr>) c' \<longleftrightarrow> answers bs n c c'"
  unfolding answers_def by (cases c; cases c') (simp add: pending_def)

lemma drain_idle:
  assumes "idle n c"
  shows "drain_output c = Inr (True, c\<lparr>chunks := [], wire := wire c @ pending c\<rparr>)"
proof -
  have ok: "chunks_ok c" "sends c = []" using assms filled_to_ok by (auto simp: idle_def)
  obtain c' where d: "drain_output c = Inr (True, c')" "wire c' @ pending c' = wire c @ pending c" "sends_only c c'"
    "chunks c' = []" "sends c' = []" "conn_error c' = conn_error c"
    using drain_output_ok [OF ok(1)] ok(2) by auto
  then have "c' = c\<lparr>chunks := [], wire := wire c @ pending c\<rparr>"
    using assms by (cases c; cases c') (auto simp: sends_only_def pending_def idle_def)
  then show ?thesis using d(1) by simp
qed

lemma spool_idle:
  assumes "idle n c" "n + length data \<le> CHUNK_BUFFERSIZE"
  shows "\<exists>c'. spool_output data c = (PROTOCOL_BINARY_RESPONSE_SUCCESS, c') \<and> idle (n + length data) c' \<and> c' = c\<lparr>chunks := chunks c'\<rparr> \<and>
    pending c' = pending c @ data"
proof -
  obtain c' where c': "spool_output data c = (PROTOCOL_BINARY_RESPONSE_SUCCESS, c')" "c' = c\<lparr>chunks := chunks c'\<rparr>"
    "filled_to (n + length data) c'" "pending c' = pending c @ data"
    using spool_output_fits [of n c data] assms by (auto simp: idle_def)
  then have "idle (n + length data) c'" using assms unfolding idle_def by (cases c; cases c') simp
  then show ?thesis using c' by blast
qed

lemma spool_all_idle:
  assumes "idle n c" "n + length (concat ds) \<le> CHUNK_BUFFERSIZE"
  shows "\<exists>c'. spool_all ds c = (PROTOCOL_BINARY_RESPONSE_SUCCESS, c') \<and> answers (concat ds) n c c' \<and> app c' = app c"
  using assms
proof (induction ds arbitrary: n c)
  case Nil
  then show ?case using answers_none [of n c "app c"] by simp
next
  case (Cons d ds)
  obtain c1 where c1: "spool_output d c = (PROTOCOL_BINARY_RESPONSE_SUCCESS, c1)" "idle (n + length d) c1" "c1 = c\<lparr>chunks := chunks c1\<rparr>"
    "pending c1 = pending c @ d"
    using spool_idle [OF Cons.prems(1), of d] Cons.prems(2) by auto
  obtain c' where c': "spool_all ds c1 = (PROTOCOL_BINARY_RESPONSE_SUCCESS, c')" "answers (concat ds) (n + length d) c1 c'" "app c' = app c1"
    using Cons.IH [OF c1(2)] Cons.prems(2) by auto
  have "answers (concat (d # ds)) n c c' \<and> app c' = app c"
    using c'(2,3) c1(3,4) unfolding answers_def by (cases c; cases c1; cases c') (auto simp: add.assoc)
  then show ?case using c1(1) c'(1) by simp
qed

lemma raw_response_idle:
  assumes "idle n c" "response = response_bytes h @ body" "length body = unat (res_bodylen h)"
    and "pedantic c \<Longrightarrow> memcached_binary_protocol_pedantic_check_response (header_at hdr c) h"
  shows "\<exists>c'. raw_response_handler hdr (response @ rest) c = Inr (PROTOCOL_BINARY_RESPONSE_SUCCESS, c') \<and> answers response n c c' \<and> app c' = app c"
proof -
  let ?c' = "c\<lparr>chunks := [], wire := wire c @ pending c @ response\<rparr>"
  have h: "response_of (response @ rest) = h" using assms(2) response_of_bytes [of h "body @ rest"] by simp
  have l: "24 + unat (res_bodylen h) = length response" using assms(2,3) by simp
  have s: "direct_send response 0 (c\<lparr>chunks := [], wire := wire c @ pending c\<rparr>) = (True, length response, ?c')"
    using assms(1) by (subst direct_send.simps) (simp add: sock_send_def idle_def)
  have "spool_output [] ?c' = (PROTOCOL_BINARY_RESPONSE_SUCCESS, ?c')" by (simp add: spool_output_def spool_loop.simps)
  then have "raw_response_handler hdr (response @ rest) c = Inr (PROTOCOL_BINARY_RESPONSE_SUCCESS, ?c')"
    using assms(4) by (simp add: raw_response_handler_def h l drain_idle [OF assms(1)] s)
  moreover have "answers response n c ?c'"
    using assms(1) by (auto simp: answers_def idle_def filled_to_def pending_def)
  ultimately show ?thesis by (intro exI [of _ ?c']) simp
qed

text \<open>The responses without key and extras, and which of them pass the pedantic test.\<close>

definition quiet :: "byte \<Rightarrow> bool" where
  "quiet opcode \<longleftrightarrow> opcode \<in> {PROTOCOL_BINARY_CMD_ADDQ, PROTOCOL_BINARY_CMD_APPENDQ, PROTOCOL_BINARY_CMD_DECREMENTQ, PROTOCOL_BINARY_CMD_DELETEQ,
    PROTOCOL_BINARY_CMD_FLUSHQ, PROTOCOL_BINARY_CMD_INCREMENTQ, PROTOCOL_BINARY_CMD_PREPENDQ, PROTOCOL_BINARY_CMD_QUITQ,
    PROTOCOL_BINARY_CMD_REPLACEQ, PROTOCOL_BINARY_CMD_SETQ}"

definition proper :: "byte \<Rightarrow> protocol_binary_response_status \<Rightarrow> 64 word \<Rightarrow> byte list \<Rightarrow> bool" where
  "proper opcode status cas body \<longleftrightarrow> length body < 2 ^ 32 \<and>
     (if status \<noteq> PROTOCOL_BINARY_RESPONSE_SUCCESS then cas = 0
      else if opcode \<in> {PROTOCOL_BINARY_CMD_ADD, PROTOCOL_BINARY_CMD_REPLACE, PROTOCOL_BINARY_CMD_SET, PROTOCOL_BINARY_CMD_APPEND, PROTOCOL_BINARY_CMD_PREPEND}
      then cas \<noteq> 0 \<and> body = []
      else if opcode \<in> {PROTOCOL_BINARY_CMD_DECREMENT, PROTOCOL_BINARY_CMD_INCREMENT} then cas \<noteq> 0 \<and> length body = 8
      else opcode \<in> {PROTOCOL_BINARY_CMD_FLUSH, PROTOCOL_BINARY_CMD_NOOP, PROTOCOL_BINARY_CMD_QUIT, PROTOCOL_BINARY_CMD_DELETE} \<and> cas = 0 \<and> body = [])"

lemma response_packet_idle:
  assumes "idle n c" "proper opcode status cas body" "opaque = req_opaque (header_at hdr c)"
  shows "\<exists>c'. raw_response_handler hdr (response_packet opcode status opaque cas body) c = Inr (PROTOCOL_BINARY_RESPONSE_SUCCESS, c') \<and>
    answers (response_packet opcode status opaque cas body) n c c' \<and> app c' = app c"
  unfolding response_packet_def
  by (rule raw_response_idle [OF assms(1) refl, where rest = "[]", unfolded append_Nil2])
    (use assms(2,3) in \<open>auto simp: proper_def unat_of_nat memcached_binary_protocol_pedantic_check_response_def Let_def
      split: if_splits\<close>)

section \<open>Requests\<close>

text \<open>A packet that passes the pedantic test and has the length that its header tells.\<close>

definition request_ok :: "byte list \<Rightarrow> bool" where
  "request_ok p \<longleftrightarrow> 24 \<le> length p \<and> length p = 24 + unat (req_bodylen (request_of p)) \<and>
     memcached_binary_protocol_pedantic_check_request (request_of p)"

definition request_key :: "byte list \<Rightarrow> byte list" where
  "request_key p = take (unat (req_keylen (request_of p))) (drop (24 + unat (req_extlen (request_of p))) p)"

definition request_value :: "byte list \<Rightarrow> byte list" where
  "request_value p = drop (24 + unat (req_extlen (request_of p)) + unat (req_keylen (request_of p))) p"

text \<open>The command a packet asks for, if it is one on the items.\<close>

definition command_of :: "byte list \<Rightarrow> command option" where
  "command_of p =
     (let h = request_of p; opcode = req_opcode h; key = key_text (request_key p); data = request_value p; cas = req_cas h;
          flags = be_word (take 4 (drop 24 p)); timeout = uint (be_word (take 4 (drop 28 p)) :: 32 word);
          delta = be_word (take 8 (drop 24 p)); initial = be_word (take 8 (drop 32 p)); expiration = be_word (take 4 (drop 40 p))
      in if opcode \<in> {PROTOCOL_BINARY_CMD_GET, PROTOCOL_BINARY_CMD_GETQ, PROTOCOL_BINARY_CMD_GETK, PROTOCOL_BINARY_CMD_GETKQ} then Some (Fetch key)
         else if opcode \<in> {PROTOCOL_BINARY_CMD_SET, PROTOCOL_BINARY_CMD_SETQ} then Some (Store key data flags timeout cas)
         else if opcode \<in> {PROTOCOL_BINARY_CMD_ADD, PROTOCOL_BINARY_CMD_ADDQ} then Some (Add key data flags timeout)
         else if opcode \<in> {PROTOCOL_BINARY_CMD_REPLACE, PROTOCOL_BINARY_CMD_REPLACEQ} then Some (Replace key data flags timeout cas)
         else if opcode \<in> {PROTOCOL_BINARY_CMD_APPEND, PROTOCOL_BINARY_CMD_APPENDQ} then Some (Append key data cas)
         else if opcode \<in> {PROTOCOL_BINARY_CMD_PREPEND, PROTOCOL_BINARY_CMD_PREPENDQ} then Some (Prepend key data cas)
         else if opcode \<in> {PROTOCOL_BINARY_CMD_DELETE, PROTOCOL_BINARY_CMD_DELETEQ} then Some (Remove key cas)
         else if opcode \<in> {PROTOCOL_BINARY_CMD_INCREMENT, PROTOCOL_BINARY_CMD_INCREMENTQ} then Some (Increment key delta initial expiration)
         else if opcode \<in> {PROTOCOL_BINARY_CMD_DECREMENT, PROTOCOL_BINARY_CMD_DECREMENTQ} then Some (Decrement key delta initial expiration)
         else if opcode \<in> {PROTOCOL_BINARY_CMD_FLUSH, PROTOCOL_BINARY_CMD_FLUSHQ} then Some Flush
         else None)"

text \<open>The bytes of the answer to a request with the result of its command.\<close>

definition answer_bytes :: "byte list \<Rightarrow> result \<Rightarrow> byte list" where
  "answer_bytes p = (\<lambda>(rc, cas, val, item).
     let opcode = req_opcode (request_of p); opaque = req_opaque (request_of p)
     in if rc \<noteq> PROTOCOL_BINARY_RESPONSE_SUCCESS then
          (if rc = PROTOCOL_BINARY_RESPONSE_KEY_ENOENT \<and> opcode \<in> {PROTOCOL_BINARY_CMD_GETQ, PROTOCOL_BINARY_CMD_GETKQ} then []
           else response_packet opcode rc opaque 0 [])
        else
          case item of
            Some (data, flags, i) \<Rightarrow>
              let key = (if opcode \<in> {PROTOCOL_BINARY_CMD_GET, PROTOCOL_BINARY_CMD_GETQ} then [] else request_key p)
              in get_packet opcode opaque (word_of_nat (length key)) (word_of_nat (length data)) flags i @ key @ data
          | None \<Rightarrow>
              if quiet opcode then []
              else response_packet opcode rc opaque (case cas of None \<Rightarrow> 0 | Some i \<Rightarrow> i) (case val of None \<Rightarrow> [] | Some v \<Rightarrow> be_bytes 8 v))"

text \<open>The packet at a place of the input buffer.\<close>

definition at_packet :: "byte list \<Rightarrow> nat \<Rightarrow> 's connection \<Rightarrow> bool" where
  "at_packet p hdr c \<longleftrightarrow> (\<exists>rest. packet_at hdr c = p @ rest) \<and> current_command c = hdr"

lemma request_of_append: "24 \<le> length p \<Longrightarrow> request_of (p @ rest) = request_of p"
  by (cases p) (auto simp: request_of_def nth_append)

lemma header_at_packet: "at_packet p hdr c \<Longrightarrow> 24 \<le> length p \<Longrightarrow> header_at hdr c = request_of p"
  by (auto simp: at_packet_def header_at_def request_of_append)

lemma bytes_at_packet: "at_packet p hdr c \<Longrightarrow> i + n \<le> length p \<Longrightarrow> bytes_at (packet_at hdr c) i n = Inr (take n (drop i p))"
  by (auto simp: at_packet_def bytes_at_def)

lemma packet_at_fields:
  "packet_at hdr (c\<lparr>app := s\<rparr>) = packet_at hdr c" "header_at hdr (c\<lparr>app := s\<rparr>) = header_at hdr c"
  "at_packet p hdr (c\<lparr>app := s\<rparr>) = at_packet p hdr c" "idle n (c\<lparr>app := s\<rparr>) = idle n c" "pending (c\<lparr>app := s\<rparr>) = pending c"
  by (simp_all add: packet_at_def header_at_def at_packet_def idle_def filled_to_def pending_def)

lemma answers_packet:
  assumes "answers bs n c c'" "at_packet p hdr c"
  shows "at_packet p hdr c'" "header_at hdr c' = header_at hdr c"
  using assms(2) answers_fields [OF assms(1)] by (simp_all add: at_packet_def packet_at_def header_at_def)

lemma request_lengths:
  assumes "request_ok p"
  shows "24 \<le> length p" "unat (req_bodylen (request_of p)) = length p - 24"
    "24 + unat (req_extlen (request_of p)) + unat (req_keylen (request_of p)) \<le> length p"
  using assms by (auto simp: request_ok_def memcached_binary_protocol_pedantic_check_request_def Let_def)

lemma unat_ucast_16_32 [simp]: "unat (ucast (k :: 16 word) :: 32 word) = unat k"
proof -
  have "unat k < 2 ^ 16" using unsigned_less [of k] by simp
  then show ?thesis by (simp add: unsigned_ucast_eq take_bit_nat_eq_self)
qed

lemma word_le_diff:
  assumes "unat (k :: 16 word) + e \<le> unat (b :: 32 word)"
  shows "unat (b - ucast k - word_of_nat e) = unat b - unat k - e"
proof -
  have "unat b < 2 ^ 32" using unsigned_less [of b] by simp
  then have "unat (word_of_nat e :: 32 word) = e" using assms by (simp add: unat_of_nat)
  then show ?thesis using assms by (simp add: unat_sub_if_size)
qed

lemma storage_fields_packet:
  assumes "at_packet p hdr c" "request_ok p" "req_extlen (request_of p) = 8"
  shows "storage_fields (storage_length (request_of p)) (packet_at hdr c) =
    Inr (request_key p, request_value p, be_word (take 4 (drop 24 p)), uint (be_word (take 4 (drop 28 p)) :: 32 word))"
proof -
  note l = request_lengths [OF assms(2)]
  have r: "request_of (packet_at hdr c) = request_of p" using header_at_packet [OF assms(1) l(1)] by (simp add: header_at_def)
  have k: "32 + unat (req_keylen (request_of p)) \<le> length p" using l(3) assms(3) by simp
  have d: "storage_length (request_of p) = length p - (32 + unat (req_keylen (request_of p)))"
    using word_le_diff [of "req_keylen (request_of p)" 8 "req_bodylen (request_of p)"] l k by (simp add: storage_length_def)
  have b: "bytes_at (packet_at hdr c) 24 8 = Inr (take 8 (drop 24 p))"
    "bytes_at (packet_at hdr c) 32 (unat (req_keylen (request_of p))) = Inr (take (unat (req_keylen (request_of p))) (drop 32 p))"
    "bytes_at (packet_at hdr c) (32 + unat (req_keylen (request_of p))) (storage_length (request_of p)) = Inr (drop (32 + unat (req_keylen (request_of p))) p)"
    using bytes_at_packet [OF assms(1)] k by (simp_all add: d)
  have "take 4 (take 8 (drop 24 p)) = take 4 (drop 24 p)" "drop 4 (take 8 (drop 24 p)) = take 4 (drop 28 p)"
    by (simp_all add: drop_take)
  then show ?thesis using assms(3) by (simp add: storage_fields_def r b request_key_def request_value_def Let_def)
qed

lemma concat_fields_packet:
  assumes "at_packet p hdr c" "request_ok p" "req_extlen (request_of p) = 0"
  shows "concat_fields (packet_at hdr c) = Inr (request_key p, request_value p)"
proof -
  note l = request_lengths [OF assms(2)]
  have r: "request_of (packet_at hdr c) = request_of p" using header_at_packet [OF assms(1) l(1)] by (simp add: header_at_def)
  have k: "24 + unat (req_keylen (request_of p)) \<le> length p" using l(3) assms(3) by simp
  have d: "unat (req_bodylen (request_of p) - ucast (req_keylen (request_of p))) = length p - (24 + unat (req_keylen (request_of p)))"
    using word_le_diff [of "req_keylen (request_of p)" 0 "req_bodylen (request_of p)"] l k by simp
  show ?thesis using assms(3) bytes_at_packet [OF assms(1)] k
    by (simp add: concat_fields_def r d request_key_def request_value_def Let_def)
qed

lemma counter_fields_packet:
  assumes "at_packet p hdr c" "request_ok p" "req_extlen (request_of p) = 20"
  shows "counter_fields (packet_at hdr c) =
    Inr (request_key p, be_word (take 8 (drop 24 p)), be_word (take 8 (drop 32 p)), be_word (take 4 (drop 40 p)))"
proof -
  note l = request_lengths [OF assms(2)]
  have r: "request_of (packet_at hdr c) = request_of p" using header_at_packet [OF assms(1) l(1)] by (simp add: header_at_def)
  have k: "44 + unat (req_keylen (request_of p)) \<le> length p" using l(3) assms(3) by simp
  have "take 8 (take 20 (drop 24 p)) = take 8 (drop 24 p)" "take 8 (drop 8 (take 20 (drop 24 p))) = take 8 (drop 32 p)"
    "drop 16 (take 20 (drop 24 p)) = take 4 (drop 40 p)"
    by (simp_all add: drop_take)
  then show ?thesis using assms(3) bytes_at_packet [OF assms(1)] k by (simp add: counter_fields_def r request_key_def)
qed

lemma key_bytes_packet:
  assumes "at_packet p hdr c" "request_ok p" "req_extlen (request_of p) = 0"
  shows "bytes_at (packet_at hdr c) 24 (unat (req_keylen (header_at hdr c))) = Inr (request_key p)"
  using bytes_at_packet [OF assms(1)] request_lengths [OF assms(2)] header_at_packet [OF assms(1)] assms(3) by (simp add: request_key_def)

text \<open>What a cache answers with: a failure, or the new number, with the counter of a calculation, or the item.\<close>

lemma cache_step_result:
  assumes "cache_step cmd (m, i) = ((rc, cas, val, item), s')"
  shows "rc \<noteq> PROTOCOL_BINARY_RESPONSE_SUCCESS \<Longrightarrow> rc \<in> {PROTOCOL_BINARY_RESPONSE_KEY_ENOENT, PROTOCOL_BINARY_RESPONSE_KEY_EEXISTS} \<and> item = None"
    and "rc = PROTOCOL_BINARY_RESPONSE_SUCCESS \<Longrightarrow>
      (case cmd of Fetch key \<Rightarrow> cas = None \<and> val = None \<and> (\<exists>d f x j. m key = Some (d, f, x, j) \<and> item = Some (d, f, j))
       | Remove _ _ \<Rightarrow> cas = None \<and> val = None \<and> item = None | Flush \<Rightarrow> cas = None \<and> val = None \<and> item = None
       | Increment _ _ _ _ \<Rightarrow> cas = Some (i + 1) \<and> (\<exists>v. val = Some v) \<and> item = None
       | Decrement _ _ _ _ \<Rightarrow> cas = Some (i + 1) \<and> (\<exists>v. val = Some v) \<and> item = None
       | _ \<Rightarrow> cas = Some (i + 1) \<and> val = None \<and> item = None)"
  using assms by (cases cmd; auto simp: failed_def keep_item_def guarded_def counts_def Let_def split: if_splits option.splits)+

text \<open>What a server answers to a request, and its cache afterwards.\<close>

definition served :: "byte list \<Rightarrow> byte list \<Rightarrow> cache \<Rightarrow> byte list \<times> cache" where
  "served version p s =
     (case command_of p of
        Some cmd \<Rightarrow> (case cache_step cmd s of (r, s') \<Rightarrow> (answer_bytes p r, s'))
      | None \<Rightarrow>
          let opcode = req_opcode (request_of p); opaque = req_opaque (request_of p)
          in (if opcode \<in> {PROTOCOL_BINARY_CMD_NOOP, PROTOCOL_BINARY_CMD_STAT} then response_packet opcode PROTOCOL_BINARY_RESPONSE_SUCCESS opaque 0 []
              else if opcode = PROTOCOL_BINARY_CMD_VERSION then response_packet opcode PROTOCOL_BINARY_RESPONSE_SUCCESS opaque 0 version
              else response_packet opcode PROTOCOL_BINARY_RESPONSE_UNKNOWN_COMMAND opaque 0 [], s))"

text \<open>A request in a state of the cache: well formed, no request to end the connection, and no overflow of the numbers.\<close>

definition request_in :: "cache \<Rightarrow> byte list \<Rightarrow> bool" where
  "request_in s p \<longleftrightarrow> request_ok p \<and> req_opcode (request_of p) \<notin> {PROTOCOL_BINARY_CMD_QUIT, PROTOCOL_BINARY_CMD_QUITQ} \<and>
     (case command_of p of None \<Rightarrow> True | Some cmd \<Rightarrow> sane cmd s) \<and> snd s + 1 \<noteq> 0"

text \<open>Several requests, for any server.\<close>

fun served_all :: "(byte list \<Rightarrow> cache \<Rightarrow> byte list \<times> cache) \<Rightarrow> byte list list \<Rightarrow> cache \<Rightarrow> byte list \<times> cache" where
  "served_all serve [] s = ([], s)"
| "served_all serve (p # ps) s =
     (let (bs, s) = serve p s; (bss, s) = served_all serve ps s in (bs @ bss, s))"

fun requests_in :: "(cache \<Rightarrow> byte list \<Rightarrow> bool) \<Rightarrow> (byte list \<Rightarrow> cache \<Rightarrow> byte list \<times> cache) \<Rightarrow> cache \<Rightarrow> byte list list \<Rightarrow> bool" where
  "requests_in ok serve s [] \<longleftrightarrow> True"
| "requests_in ok serve s (p # ps) \<longleftrightarrow> ok s p \<and> requests_in ok serve (snd (serve p s)) ps"

section \<open>Handlers\<close>

text \<open>
  What the handler of a command leaves: a failure is left to \<open>execute_command\<close>, except for a miss of a quiet get;
  otherwise the answer is on its way.
\<close>

definition handled :: "byte list \<Rightarrow> result \<Rightarrow> nat \<Rightarrow> 's connection \<Rightarrow> protocol_binary_response_status \<Rightarrow> 's connection \<Rightarrow> bool" where
  "handled p r n c rval c' \<longleftrightarrow>
     (if fst r \<noteq> PROTOCOL_BINARY_RESPONSE_SUCCESS \<and> answer_bytes p r \<noteq> [] then rval = fst r \<and> c' = c\<lparr>app := app c'\<rparr>
      else rval = PROTOCOL_BINARY_RESPONSE_SUCCESS \<and> answers (answer_bytes p r) n c c')"

lemma response_packet_nonempty [simp]: "response_packet opcode status opaque cas body \<noteq> []"
  by (metis append_is_Nil_conv length_0_conv length_response_bytes response_packet_def zero_neq_numeral)

lemma reply_handled:
  assumes c: "idle n c" "at_packet p hdr c" "24 \<le> length p"
    and op: "req_opcode (request_of p) = loud \<or> req_opcode (request_of p) = hushed" "quiet hushed" "\<not> quiet loud"
      "loud \<notin> {PROTOCOL_BINARY_CMD_GETQ, PROTOCOL_BINARY_CMD_GETKQ}"
    and success: "rc = PROTOCOL_BINARY_RESPONSE_SUCCESS \<Longrightarrow> cas' = Some (case cas of None \<Rightarrow> 0 | Some i \<Rightarrow> i) \<and>
      body = (case val of None \<Rightarrow> [] | Some v \<Rightarrow> be_bytes 8 v) \<and> proper loud rc (the cas') body"
  shows "\<exists>rval c'. (if rc = PROTOCOL_BINARY_RESPONSE_SUCCESS \<and> req_opcode (header_at hdr c) = loud
      then reply_cas hdr loud cas' body (c\<lparr>app := s\<rparr>) else Inr (rc, c\<lparr>app := s\<rparr>)) = Inr (rval, c') \<and>
    app c' = s \<and> handled p (rc, cas, val, None) n c rval c'"
proof -
  have h: "header_at hdr c = request_of p" using header_at_packet [OF c(2,3)] .
  have hush: "hushed \<noteq> loud" "hushed \<notin> {PROTOCOL_BINARY_CMD_GETQ, PROTOCOL_BINARY_CMD_GETKQ}" using op(2,3) by (auto simp: quiet_def)
  show ?thesis
  proof (cases "rc = PROTOCOL_BINARY_RESPONSE_SUCCESS \<and> req_opcode (request_of p) = loud")
    case True
    obtain c' where "raw_response_handler hdr (response_packet loud rc (req_opaque (request_of p)) (the cas') body) (c\<lparr>app := s\<rparr>) =
        Inr (PROTOCOL_BINARY_RESPONSE_SUCCESS, c')"
      "answers (response_packet loud rc (req_opaque (request_of p)) (the cas') body) n c c'" "app c' = s"
      using response_packet_idle [of n "c\<lparr>app := s\<rparr>" loud rc "the cas'" body "req_opaque (request_of p)" hdr] c(1) success True
      by (auto simp: packet_at_fields h answers_app)
    then show ?thesis using True success op(3)
      by (intro exI [of _ PROTOCOL_BINARY_RESPONSE_SUCCESS] exI [of _ c'])
        (simp add: reply_cas_def h packet_at_fields handled_def answer_bytes_def Let_def)
  next
    case False
    have "handled p (rc, cas, val, None) n c rc (c\<lparr>app := s\<rparr>)"
      using False op hush answers_none [OF c(1), of s] by (auto simp: handled_def answer_bytes_def Let_def)
    then show ?thesis using False by (intro exI [of _ rc] exI [of _ "c\<lparr>app := s\<rparr>"]) (auto simp: h)
  qed
qed

lemma unat_byte: "unat (b :: byte) = 8 \<longleftrightarrow> b = 8" "unat (b :: byte) = 20 \<longleftrightarrow> b = 20"
  by (simp_all add: word_unat_eq_iff)

lemma request_extlen:
  assumes "request_ok p"
  shows "req_opcode (request_of p) \<in> {0, 9, 12, 13, 4, 20, 14, 15, 25, 26} \<Longrightarrow> req_extlen (request_of p) = 0"
    and "req_opcode (request_of p) \<in> {1, 2, 3, 17, 18, 19} \<Longrightarrow> req_extlen (request_of p) = 8"
    and "req_opcode (request_of p) \<in> {5, 6, 21, 22} \<Longrightarrow> req_extlen (request_of p) = 20"
  using assms by (auto simp: request_ok_def memcached_binary_protocol_pedantic_check_request_def Let_def unat_eq_0 unat_byte
      split: if_splits)

end
