(* ===== verification/Protocol_Stream.thy ===== *)
theory Protocol_Stream
  imports Protocol_Correct
begin

text \<open>
  The loops of \<^verbatim>\<open>memcached_binary_protocol_process_data\<close> and \<^verbatim>\<open>memcached_protocol_client_work\<close>: a server that answers every
  packet (the interface \<open>packet_server\<close>) answers the packets of a stream in their order, however the stream is cut behind
  its first packet.
\<close>

section \<open>The loops over a stream\<close>

lemma client_work_binary:
  assumes "work_func c \<noteq> Ascii_protocol" "input_buffer c ! 0 = PROTOCOL_BINARY_REQ"
  shows "client_work cb ascii len c = process_loop cb 0 len None (c\<lparr>work_func := Binary_protocol\<rparr>)"
proof -
  have d: "input_buffer c ! 0 = PROTOCOL_BINARY_REQ \<Longrightarrow> memcached_binary_protocol_process_data cb len c = process_loop cb 0 len None c" for c :: "'a connection"
    by (simp add: memcached_binary_protocol_process_data_def header_at_def packet_at_def request_of_def)
  show ?thesis
  proof (cases "work_func c")
    case Binary_protocol
    then have "c\<lparr>work_func := Binary_protocol\<rparr> = c" by (cases c) simp
    then show ?thesis unfolding client_work_def Binary_protocol using d [of c] assms(2) by (metis work.simps(8))
  qed (use assms d [of "c\<lparr>work_func := Binary_protocol\<rparr>"] in \<open>simp_all add: client_work_def determine_protocol_def\<close>)
qed

lemma receive_step:
  assumes "b \<noteq> []" "length (saved c) + length b \<le> length (input_buffer c)"
  shows "receive_loop cb ascii [Received b] c =
    (case client_work cb ascii (length (saved c) + length b) (put_received b c) of
       Inl e \<Rightarrow> Inl e
     | Inr ((event, len, endptr), c) \<Rightarrow>
         if event = MEMCACHED_PROTOCOL_ERROR_EVENT then Inr (False, [], c)
         else if len > 0 then run_bind (save_rest len endptr c) (\<lambda>(ok, c). Inr (ok, [], c))
         else Inr (True, [], c))"
proof -
  have "0 < length b" using assms(1) by simp
  then have "\<not> length (input_buffer c) - length (saved c) < length b" "\<not> length (input_buffer c) \<le> length (saved c)"
    using assms(2) by linarith+
  moreover have "receive_loop cb ascii [] c = Inr (True, [], c)" for c by (simp add: receive_loop.simps)
  ultimately show ?thesis using assms(1) by (subst receive_loop.simps) (simp add: Let_def split: sum.split prod.split)
qed

lemma request_magic: "request_ok p \<Longrightarrow> req_magic (request_of p) = PROTOCOL_BINARY_REQ"
  by (simp add: request_ok_def memcached_binary_protocol_pedantic_check_request_def Let_def)

text \<open>Bytes that are not yet a packet.\<close>

definition incomplete :: "byte list \<Rightarrow> bool" where
  "incomplete q \<longleftrightarrow> length q < 24 \<or> length q < 24 + unat (req_bodylen (request_of q))"

text \<open>What the packets of a stream leave: \<open>bs\<close> was sent or queued.\<close>

definition worked :: "byte list \<Rightarrow> nat \<Rightarrow> 's connection \<Rightarrow> 's connection \<Rightarrow> bool" where
  "worked bs n c c' \<longleftrightarrow> wire c' @ pending c' = wire c @ pending c @ bs \<and> (\<exists>n' \<le> n + length bs. idle n' c') \<and>
     saved c' = saved c \<and> work_func c' = work_func c \<and> length (input_buffer c') = length (input_buffer c) \<and> pedantic c' = pedantic c"

lemma worked_trans:
  assumes "worked b1 n c c1" "worked b2 n1 c1 c2" "n1 \<le> n + length b1"
  shows "worked (b1 @ b2) n c c2"
proof -
  obtain n' where "n' \<le> n1 + length b2" "idle n' c2" using assms(2) unfolding worked_def by blast
  then have "\<exists>n' \<le> n + length (b1 @ b2). idle n' c2" using assms(3) by (intro exI [of _ n']) simp
  then show ?thesis using assms(1,2) by (simp add: worked_def)
qed

section \<open>Servers of packets\<close>

text \<open>
  What the loops rely on: a request that is \<open>ok\<close> in the state of the server is executed without an error, and the bytes
  \<open>serve\<close> tells are its answer.
\<close>

locale packet_server =
  fixes cb :: "'s callback" and rel :: "'s \<Rightarrow> cache \<Rightarrow> bool" and ok :: "cache \<Rightarrow> byte list \<Rightarrow> bool"
    and serve :: "byte list \<Rightarrow> cache \<Rightarrow> byte list \<times> cache"
  assumes ok_request: "ok s p \<Longrightarrow> request_ok p"
    and execute_served: "idle n c \<Longrightarrow> at_packet p hdr c \<Longrightarrow> rel (app c) s \<Longrightarrow> ok s p \<Longrightarrow> serve p s = (bs, s') \<Longrightarrow> n + length bs \<le> CHUNK_BUFFERSIZE \<Longrightarrow>
      \<exists>c'. execute_command cb hdr c = Inr (PROTOCOL_BINARY_RESPONSE_SUCCESS, c') \<and> rel (app c') s' \<and> answers bs n c c'"
begin

lemma served_process:
  assumes "idle n c" "packet_at hdr c = concat ps @ q @ rest" "rel (app c) s" "requests_in ok serve s ps"
    and "served_all serve ps s = (bs, s')" "n + length bs \<le> CHUNK_BUFFERSIZE" "incomplete q"
    and "ps = [] \<Longrightarrow> endptr = Some hdr"
  shows "\<exists>hdr' c'. process_loop cb hdr (length (concat ps @ q)) endptr c = Inr ((MEMCACHED_PROTOCOL_READ_EVENT, length q, Some hdr'), c') \<and>
    take (length q) (packet_at hdr' c') = q \<and> length q \<le> length (packet_at hdr' c') \<and> rel (app c') s' \<and> worked bs n c c'"
  using assms
proof (induction ps arbitrary: n c hdr rest s bs endptr)
  case Nil
  have "header_at hdr c = request_of q" if "24 \<le> length q" using Nil(2) that by (simp add: header_at_def request_of_append)
  then have "process_loop cb hdr (length q) endptr c = Inr ((MEMCACHED_PROTOCOL_READ_EVENT, length q, endptr), c)"
    using Nil(7) by (subst process_loop.simps) (auto simp: incomplete_def total_at_def)
  then show ?case using Nil by (intro exI [of _ hdr] exI [of _ c]) (auto simp: worked_def)
next
  case (Cons p ps)
  obtain b1 s1 b2 where b: "serve p s = (b1, s1)" "served_all serve ps s1 = (b2, s')" "bs = b1 @ b2"
    using Cons.prems(5) by (auto simp: Let_def split: prod.splits)
  define c0 where "c0 = c\<lparr>current_command := hdr\<rparr>"
  have r: "ok s p" "requests_in ok serve s1 ps" "request_ok p" using Cons.prems(4) b(1) ok_request [of s p] by auto
  note l = request_lengths [OF r(3)]
  have c0: "idle n c0" "at_packet p hdr c0" "rel (app c0) s" using Cons.prems(1-3)
    by (auto simp: c0_def idle_def filled_to_def at_packet_def packet_at_def)
  obtain c1 where c1: "execute_command cb hdr c0 = Inr (PROTOCOL_BINARY_RESPONSE_SUCCESS, c1)" "rel (app c1) s1" "answers b1 n c0 c1"
    using execute_served [OF c0 r(1) b(1)] Cons.prems(6) b(3) by auto
  obtain n1 where n1: "idle n1 c1" "n1 \<le> n + length b1" using c1(3) by (auto simp: answers_def)
  have buf: "input_buffer c1 = input_buffer c" "packet_at hdr c1 = packet_at hdr c" using answers_fields [OF c1(3)] by (simp_all add: c0_def packet_at_def)
  have t: "total_at hdr c = length p" "total_at hdr c1 = length p"
    using l Cons.prems(2) buf(2) by (simp_all add: total_at_def header_at_def request_of_append)
  have w1: "worked b1 n c c1" using c1(3) n1 answers_fields [OF c1(3)] by (auto simp: worked_def answers_def c0_def pending_def)
  define len where "len = length (concat ps @ q)"
  have step: "process_loop cb hdr (length (concat (p # ps) @ q)) endptr c =
      (if len > 0 then case next_header (hdr + length p) len c1 of (hdr, c) \<Rightarrow> process_loop cb hdr len (Some hdr) c
       else process_loop cb hdr len (Some hdr) c1)"
    using l(1) t c1(1) by (subst process_loop.simps) (simp add: len_def c0_def Let_def)
  have p2: "drop (hdr + length p) (input_buffer c1) = concat ps @ q @ rest"
    using arg_cong [OF Cons.prems(2), of "drop (length p)"] buf(1) by (simp add: packet_at_def add.commute)
  show ?case
  proof (cases "len > 0")
    case True
    obtain h2 c2 where h2: "next_header (hdr + length p) len c1 = (h2, c2)" by (cases "next_header (hdr + length p) len c1")
    have "take len (concat ps @ q @ rest) = concat ps @ q" by (simp add: len_def)
    then obtain rest2 where p3: "packet_at h2 c2 = concat ps @ q @ rest2"
      using h2 p2 by (auto simp: next_header_def packet_at_def split: if_splits)
    have "len \<le> length (input_buffer c1)" using arg_cong [OF p2, of length] by (simp add: len_def)
    then have c2: "idle n1 c2" "rel (app c2) s1" "worked b1 n c c2"
      using h2 n1(1) c1(2) w1 p2 by (auto simp: next_header_def idle_def filled_to_def worked_def pending_def len_def split: if_splits)
    have "\<exists>hdr' c'. process_loop cb h2 (length (concat ps @ q)) (Some h2) c2 = Inr ((MEMCACHED_PROTOCOL_READ_EVENT, length q, Some hdr'), c') \<and>
        take (length q) (packet_at hdr' c') = q \<and> length q \<le> length (packet_at hdr' c') \<and> rel (app c') s' \<and> worked b2 n1 c2 c'"
      using Cons.prems(6,7) b(3) n1(2) by (intro Cons.IH [OF c2(1) p3 c2(2) r(2) b(2)]) auto
    then show ?thesis using step True h2 worked_trans [OF c2(3) _ n1(2)] b(3) by (auto simp: len_def)
  next
    case False
    then have e: "concat ps = []" "q = []" by (auto simp: len_def)
    have "ps = []"
    proof (rule ccontr)
      assume "ps \<noteq> []"
      then have "request_ok (hd ps)" "hd ps = []" using r(2) e(1) ok_request [of s1 "hd ps"] by (cases ps; simp)+
      then show False using request_lengths(1) [of "hd ps"] by simp
    qed
    moreover have "process_loop cb hdr 0 (Some hdr) c1 = Inr ((MEMCACHED_PROTOCOL_READ_EVENT, 0, Some hdr), c1)"
      by (simp add: process_loop.simps)
    ultimately show ?thesis using step False e b c1(2) w1 by (auto simp: len_def)
  qed
qed

text \<open>
  One call of \<open>memcached_protocol_client_work\<close> on the bytes \<open>b\<close>.  Together with the bytes that were saved before they are
  packets \<open>ps\<close>, at least one, and the start \<open>q\<close> of the next: all packets are answered and \<open>q\<close> is saved.
\<close>

lemma served_work:
  assumes c: "idle n c" "work_func c \<noteq> Ascii_protocol" "rel (app c) s" "length (saved c) + length b \<le> length (input_buffer c)"
    and ps: "saved c @ b = concat ps @ q" "ps \<noteq> []" "b \<noteq> []" "incomplete q" "requests_in ok serve s ps"
    and bs: "served_all serve ps s = (bs, s')" "n + length bs \<le> CHUNK_BUFFERSIZE"
  shows "\<exists>c'. memcached_protocol_client_work cb ascii [Received b] c = Inr (MEMCACHED_PROTOCOL_READ_EVENT, [], c') \<and> rel (app c') s' \<and>
    wire c' = wire c @ pending c @ bs \<and> idle 0 c' \<and> saved c' = q \<and> work_func c' = Binary_protocol \<and> length (input_buffer c') = length (input_buffer c)"
proof -
  define c0 where "c0 = (put_received b c)\<lparr>work_func := Binary_protocol\<rparr>"
  let ?len = "length (saved c) + length b"
  have len: "?len = length (concat ps @ q)" using arg_cong [OF ps(1), of length] by simp
  have buf: "input_buffer c0 = concat ps @ q @ drop ?len (input_buffer c)"
    using ps(1) by (simp add: c0_def put_received_def flip: append_assoc)
  have c0: "idle n c0" "packet_at 0 c0 = concat ps @ q @ drop ?len (input_buffer c)" "rel (app c0) s"
    using c(1,3) buf by (simp_all add: c0_def put_received_def idle_def filled_to_def packet_at_def)
  obtain p ps' where p: "ps = p # ps'" "request_ok p" using ps(2,5) ok_request [of s "hd ps"] by (cases ps) auto
  have hd: "header_at 0 c0 = request_of p" using c0(2) p request_lengths(1) [OF p(2)] by (simp add: header_at_def request_of_append)
  have magic: "input_buffer (put_received b c) ! 0 = PROTOCOL_BINARY_REQ"
    using request_magic [OF p(2)] hd by (simp add: header_at_def packet_at_def request_of_def c0_def)
  obtain hdr' c1 where w: "process_loop cb 0 ?len None c0 = Inr ((MEMCACHED_PROTOCOL_READ_EVENT, length q, Some hdr'), c1)"
    "take (length q) (packet_at hdr' c1) = q" "length q \<le> length (packet_at hdr' c1)" "rel (app c1) s'" "worked bs n c0 c1"
    using served_process [OF c0 ps(5) bs ps(4), of None] ps(2) unfolding len by blast
  have work: "client_work cb ascii ?len (put_received b c) = Inr ((MEMCACHED_PROTOCOL_READ_EVENT, length q, Some hdr'), c1)"
    using client_work_binary [of "put_received b c"] magic c(2) w(1) by (simp add: c0_def put_received_def)
  obtain n1 where n1: "idle n1 c1" using w(5) by (auto simp: worked_def)
  define c2 where "c2 = c1\<lparr>saved := q\<rparr>"
  have saved: "saved c1 = []" using w(5) by (simp add: worked_def c0_def put_received_def)
  have "receive_loop cb ascii [Received b] c = Inr (True, [], c2)"
  proof (cases "q = []")
    case True
    then have "c2 = c1" using saved by (simp add: c2_def)
    then show ?thesis using True work receive_step [OF ps(3) c(4)] by simp
  next
    case False
    have "save_rest (length q) (Some hdr') c1 = Inr (True, c2)"
      using n1 w(2,3) by (simp add: save_rest_def next_chunk_def idle_def bytes_at_def c2_def packet_at_def)
    then show ?thesis using False work receive_step [OF ps(3) c(4)] by simp
  qed
  moreover have "idle n1 c2" using n1 by (simp add: c2_def idle_def filled_to_def)
  ultimately have "memcached_protocol_client_work cb ascii [Received b] c =
      Inr (MEMCACHED_PROTOCOL_READ_EVENT, [], c2\<lparr>chunks := [], wire := wire c2 @ pending c2\<rparr>)"
    using drain_idle [of n1 c2] by (simp add: memcached_protocol_client_work_def)
  moreover have "wire c2 @ pending c2 = wire c @ pending c @ bs" "length (input_buffer c2) = length (input_buffer c)" "work_func c2 = Binary_protocol"
    using w(5) c(4) len buf by (simp_all add: worked_def c0_def c2_def pending_def put_received_def)
  moreover have "idle 0 (c2\<lparr>chunks := [], wire := wire c2 @ pending c2\<rparr>)" using n1 by (simp add: idle_def filled_to_def c2_def)
  ultimately show ?thesis using w(4) by (intro exI [of _ "c2\<lparr>chunks := [], wire := wire c2 @ pending c2\<rparr>"]) (simp add: c2_def)
qed

end

text \<open>
  The first packet of a connection has to arrive at once: of an incomplete one the start cannot be saved, because
  nothing was stored through \<^verbatim>\<open>endptr\<close>.
\<close>

lemma incomplete_work:
  assumes "work_func c \<noteq> Ascii_protocol" "chunk_allocs c = []" "saved c = []" "b \<noteq> []" "hd b = PROTOCOL_BINARY_REQ"
    and "length b \<le> length (input_buffer c)" "incomplete b"
  shows "memcached_protocol_client_work cb ascii [Received b] c = Inl Undefined"
proof -
  define c0 where "c0 = (put_received b c)\<lparr>work_func := Binary_protocol\<rparr>"
  have p: "packet_at 0 c0 = b @ drop (length b) (input_buffer c)" using assms(3) by (simp add: c0_def put_received_def packet_at_def)
  have m: "input_buffer (put_received b c) ! 0 = PROTOCOL_BINARY_REQ"
    using assms(3-5) by (cases b) (auto simp: put_received_def)
  have "24 \<le> length b \<Longrightarrow> header_at 0 c0 = request_of b" by (simp add: header_at_def p request_of_append)
  then have "process_loop cb 0 (length b) None c0 = Inr ((MEMCACHED_PROTOCOL_READ_EVENT, length b, None), c0)"
    using assms(7) by (subst process_loop.simps) (auto simp: incomplete_def total_at_def)
  then have "client_work cb ascii (length b) (put_received b c) = Inr ((MEMCACHED_PROTOCOL_READ_EVENT, length b, None), c0)"
    using client_work_binary [of "put_received b c" cb ascii] m assms(1) by (simp add: c0_def put_received_def)
  moreover have "save_rest (length b) None c0 = Inl Undefined"
    using assms(2) by (simp add: save_rest_def next_chunk_def c0_def put_received_def)
  ultimately have "receive_loop cb ascii [Received b] c = Inl Undefined"
    using receive_step [OF assms(4), of c] assms(3,4,6) by simp
  then show ?thesis by (simp add: memcached_protocol_client_work_def)
qed

end
