(* ===== verification/Protocol_V1.thy ===== *)
theory Protocol_V1
  imports Protocol_Stream
begin

text \<open>
  Version 1 of the interface: within \<open>v1_application\<close> every handler of \<^verbatim>\<open>binary_handler.c\<close> is a step of the cache and
  \<open>execute_command\<close> answers every request, so such a server is a \<open>packet_server\<close>.
\<close>

section \<open>The interface to the application\<close>

text \<open>What the application does for a command, as \<open>handle\<close> does it for \<^verbatim>\<open>memcached_light\<close>.\<close>

fun v1_call :: "'s interface_v1 \<Rightarrow> command \<Rightarrow> ('s \<Rightarrow> fault + (result \<times> 's)) option" where
  "v1_call v1 (Add key data flags exptime) =
     map_option (\<lambda>f s. run_bind (f key data flags exptime s) (\<lambda>(rc, cas, s). Inr ((rc, cas, None, None), s))) (v1_add v1)"
| "v1_call v1 (Append key val cas) =
     map_option (\<lambda>f s. run_bind (f key val cas s) (\<lambda>(rc, cas, s). Inr ((rc, cas, None, None), s))) (v1_append v1)"
| "v1_call v1 (Prepend key val cas) =
     map_option (\<lambda>f s. run_bind (f key val cas s) (\<lambda>(rc, cas, s). Inr ((rc, cas, None, None), s))) (v1_prepend v1)"
| "v1_call v1 (Replace key data flags exptime cas) =
     map_option (\<lambda>f s. run_bind (f key data flags exptime cas s) (\<lambda>(rc, cas, s). Inr ((rc, cas, None, None), s))) (v1_replace v1)"
| "v1_call v1 (Store key data flags exptime cas) =
     map_option (\<lambda>f s. run_bind (f key data flags exptime cas s) (\<lambda>(rc, cas, s). Inr ((rc, cas, None, None), s))) (v1_set v1)"
| "v1_call v1 (Remove key cas) = map_option (\<lambda>f s. run_bind (f key cas s) (\<lambda>(rc, s). Inr ((rc, None, None, None), s))) (v1_delete_object v1)"
| "v1_call v1 (Fetch key) = map_option (\<lambda>f s. run_bind (f key s) (\<lambda>(rc, item). Inr ((rc, None, None, item), s))) (v1_get v1)"
| "v1_call v1 (Increment key delta initial expiration) =
     map_option (\<lambda>f s. run_bind (f key delta initial expiration s) (\<lambda>(val, rc, cas, s). Inr ((rc, cas, val, None), s))) (v1_increment v1)"
| "v1_call v1 (Decrement key delta initial expiration) =
     map_option (\<lambda>f s. run_bind (f key delta initial expiration s) (\<lambda>(val, rc, cas, s). Inr ((rc, cas, val, None), s))) (v1_decrement v1)"
| "v1_call v1 Flush = map_option (\<lambda>f s. case f 0 s of (rc, s) \<Rightarrow> Inr ((rc, None, None, None), s)) (v1_flush_object v1)"

text \<open>
  What the protocol relies on: the state \<open>s\<close> of the application stands for a cache, its functions are the steps of the
  cache, and the other callbacks do not change it.
\<close>

locale v1_application =
  fixes v1 :: "'s interface_v1" and unknown :: "'s command_handler option" and rel :: "'s \<Rightarrow> cache \<Rightarrow> bool" and version :: "byte list"
  assumes call_step: "rel s m \<Longrightarrow> sane cmd m \<Longrightarrow> cache_step cmd m = (r, m') \<Longrightarrow> \<exists>f s'. v1_call v1 cmd = Some f \<and> f s = Inr (r, s') \<and> rel s' m'"
    and flush_any: "v1_flush_object v1 = Some flush_object \<Longrightarrow> flush_object t = flush_object 0"
    and noop_same: "v1_noop v1 = Some noop \<Longrightarrow> noop s = s"
    and stat_empty: "\<exists>stat. v1_stat v1 = Some stat \<and> stat key s = ([], [])"
    and version_text: "\<exists>f. v1_version v1 = Some f \<and> f s = version" "length version < 2 ^ 32"
    and unknown_sends: "unknown = Some u \<Longrightarrow> u hdr c =
      raw_response_handler hdr (response_packet (req_opcode (header_at hdr c)) PROTOCOL_BINARY_RESPONSE_UNKNOWN_COMMAND (req_opaque (header_at hdr c)) 0 []) c"

text \<open>A failure that a handler returns is sent by \<open>execute_command\<close>.\<close>

lemma execute_handled:
  assumes c: "idle n c" "at_packet p hdr c" "request_ok p" and r: "cache_step cmd (m, i) = (r, s')"
    and h: "(case interface cb of V0 comcode \<Rightarrow> comcode (req_opcode (request_of p)) | V1 v1 \<Rightarrow> comcode_v0_v1_remap v1 (req_opcode (request_of p))) = Some h"
      "h hdr c = Inr (rval, c')" "handled p r n c rval c'"
  shows "\<exists>c''. execute_command cb hdr c = Inr (PROTOCOL_BINARY_RESPONSE_SUCCESS, c'') \<and> app c'' = app c' \<and> answers (answer_bytes p r) n c c''"
proof -
  obtain rc cas val item where rr: "r = (rc, cas, val, item)" by (cases r)
  have hd: "header_at hdr c = request_of p" using header_at_packet [OF c(2) request_lengths(1) [OF c(3)]] .
  show ?thesis
  proof (cases "rc \<noteq> PROTOCOL_BINARY_RESPONSE_SUCCESS \<and> answer_bytes p r \<noteq> []")
    case True
    then have f: "rval = rc" "c' = c\<lparr>app := app c'\<rparr>" "rc \<in> {PROTOCOL_BINARY_RESPONSE_KEY_ENOENT, PROTOCOL_BINARY_RESPONSE_KEY_EEXISTS}"
      using h(3) rr cache_step_result [OF r [unfolded rr]] by (auto simp: handled_def)
    have a: "answer_bytes p r = response_packet (req_opcode (request_of p)) rc (req_opaque (request_of p)) 0 []"
      using True by (auto simp: answer_bytes_def rr Let_def split: if_splits)
    have c': "idle n c'" "header_at hdr c' = request_of p" using c(1) f(2) packet_at_fields hd by metis+
    obtain c'' where "raw_response_handler hdr (answer_bytes p r) c' = Inr (PROTOCOL_BINARY_RESPONSE_SUCCESS, c'')" "answers (answer_bytes p r) n c' c''" "app c'' = app c'"
      using response_packet_idle [OF c'(1), of "req_opcode (request_of p)" rc 0 "[]" "req_opaque (request_of p)" hdr] True c'(2)
      unfolding a by (auto simp: proper_def)
    moreover have "answers (answer_bytes p r) n c c''" using calculation(2) f(2) answers_app by metis
    ultimately show ?thesis using h(1,2) f(1,3) c'(2) hd
      by (intro exI [of _ c'']) (cases "unknown_command cb"; auto simp: execute_command_def a)
  next
    case False
    then show ?thesis using h rr by (intro exI [of _ c']) (cases "unknown_command cb"; auto simp: execute_command_def hd handled_def)
  qed
qed

context v1_application
begin

text \<open>The handlers of the commands that store an item end alike.\<close>

lemma stored_handled:
  assumes c: "idle n c" "at_packet p hdr c" "24 \<le> length p" "rel (app c) (m, i)" "i + 1 \<noteq> 0"
    and op: "req_opcode (request_of p) \<in> {loud, hushed}" "quiet hushed"
      "loud \<in> {PROTOCOL_BINARY_CMD_ADD, PROTOCOL_BINARY_CMD_REPLACE, PROTOCOL_BINARY_CMD_SET, PROTOCOL_BINARY_CMD_APPEND, PROTOCOL_BINARY_CMD_PREPEND}"
    and s: "sane cmd (m, i)" "cache_step cmd (m, i) = (r, s')"
      "\<And>f. v1_call v1 cmd = Some f \<Longrightarrow> \<exists>g. f = (\<lambda>s. run_bind (g s) (\<lambda>(rc, cas, s). Inr ((rc, cas, None, None), s))) \<and>
        handler hdr c = run_bind (g (app c)) (\<lambda>(rval, cas, s).
          if rval = PROTOCOL_BINARY_RESPONSE_SUCCESS \<and> req_opcode (header_at hdr c) = loud
          then reply_cas hdr loud cas [] (c\<lparr>app := s\<rparr>) else Inr (rval, c\<lparr>app := s\<rparr>))"
      "fst r = PROTOCOL_BINARY_RESPONSE_SUCCESS \<Longrightarrow> fst (snd r) = Some (i + 1)"
  shows "\<exists>rval c'. handler hdr c = Inr (rval, c') \<and> rel (app c') s' \<and> handled p r n c rval c'"
proof -
  obtain f st' where f: "v1_call v1 cmd = Some f" "f (app c) = Inr (r, st')" "rel st' s'" using call_step [OF c(4) s(1,2)] by blast
  obtain g where g: "f = (\<lambda>s. run_bind (g s) (\<lambda>(rc, cas, s). Inr ((rc, cas, None, None), s)))"
    "handler hdr c = run_bind (g (app c)) (\<lambda>(rval, cas, s).
       if rval = PROTOCOL_BINARY_RESPONSE_SUCCESS \<and> req_opcode (header_at hdr c) = loud
       then reply_cas hdr loud cas [] (c\<lparr>app := s\<rparr>) else Inr (rval, c\<lparr>app := s\<rparr>))"
    using s(3) [OF f(1)] by blast
  obtain rc cas where r: "r = (rc, cas, None, None)" "g (app c) = Inr (rc, cas, st')"
    using f(2) g(1) by (auto simp: run_bind_Inr_conv)
  have op1: "req_opcode (request_of p) = loud \<or> req_opcode (request_of p) = hushed" using op(1) by simp
  have loud: "\<not> quiet loud" "loud \<notin> {PROTOCOL_BINARY_CMD_GETQ, PROTOCOL_BINARY_CMD_GETKQ}"
      "proper loud PROTOCOL_BINARY_RESPONSE_SUCCESS (i + 1) []"
    using op(3) c(5) by (auto simp: quiet_def proper_def)
  show ?thesis
    using reply_handled [OF c(1-3) op1 op(2) loud(1,2), of rc cas cas "[]" None st'] loud(3) f(3) s(4)
    by (auto simp: g r)
qed

lemma counted_handled:
  assumes c: "idle n c" "at_packet p hdr c" "24 \<le> length p" "rel (app c) (m, i)" "i + 1 \<noteq> 0"
    and op: "req_opcode (request_of p) \<in> {loud, hushed}" "quiet hushed" "loud \<in> {PROTOCOL_BINARY_CMD_INCREMENT, PROTOCOL_BINARY_CMD_DECREMENT}"
    and s: "sane cmd (m, i)" "cache_step cmd (m, i) = (r, s')"
      "\<And>f. v1_call v1 cmd = Some f \<Longrightarrow> \<exists>g. f = (\<lambda>s. run_bind (g s) (\<lambda>(val, rc, cas, s). Inr ((rc, cas, val, None), s))) \<and>
        handler hdr c = run_bind (g (app c)) (\<lambda>(val, rval, cas, s).
          if rval = PROTOCOL_BINARY_RESPONSE_SUCCESS \<and> req_opcode (header_at hdr c) = loud
          then case val of None \<Rightarrow> Inl Undefined | Some val \<Rightarrow> reply_cas hdr loud cas (be_bytes 8 val) (c\<lparr>app := s\<rparr>)
          else Inr (rval, c\<lparr>app := s\<rparr>))"
      "fst (snd r) = Some (i + 1) \<and> (\<exists>v. fst (snd (snd r)) = Some v)"
  shows "\<exists>rval c'. handler hdr c = Inr (rval, c') \<and> rel (app c') s' \<and> handled p r n c rval c'"
proof -
  obtain f st' where f: "v1_call v1 cmd = Some f" "f (app c) = Inr (r, st')" "rel st' s'" using call_step [OF c(4) s(1,2)] by blast
  obtain g where g: "f = (\<lambda>s. run_bind (g s) (\<lambda>(val, rc, cas, s). Inr ((rc, cas, val, None), s)))"
    "handler hdr c = run_bind (g (app c)) (\<lambda>(val, rval, cas, s).
       if rval = PROTOCOL_BINARY_RESPONSE_SUCCESS \<and> req_opcode (header_at hdr c) = loud
       then case val of None \<Rightarrow> Inl Undefined | Some val \<Rightarrow> reply_cas hdr loud cas (be_bytes 8 val) (c\<lparr>app := s\<rparr>)
       else Inr (rval, c\<lparr>app := s\<rparr>))"
    using s(3) [OF f(1)] by blast
  obtain rc v where r: "r = (rc, Some (i + 1), Some v, None)" "g (app c) = Inr (Some v, rc, Some (i + 1), st')"
    using f(2) g(1) s(4) by (auto simp: run_bind_Inr_conv)
  have op1: "req_opcode (request_of p) = loud \<or> req_opcode (request_of p) = hushed" using op(1) by simp
  have loud: "\<not> quiet loud" "loud \<notin> {PROTOCOL_BINARY_CMD_GETQ, PROTOCOL_BINARY_CMD_GETKQ}"
      "proper loud PROTOCOL_BINARY_RESPONSE_SUCCESS (i + 1) (be_bytes 8 v)"
    using op(3) c(5) by (auto simp: quiet_def proper_def)
  show ?thesis
    using reply_handled [OF c(1-3) op1 op(2) loud(1,2), of rc "Some (i + 1)" "Some (i + 1)" "be_bytes 8 v" "Some v" st'] loud(3) f(3)
    by (auto simp: g r)
qed

lemma set_handled:
  assumes c: "idle n c" "at_packet p hdr c" "request_ok p" "rel (app c) (m, i)" "i + 1 \<noteq> 0"
    and op: "req_opcode (request_of p) \<in> {PROTOCOL_BINARY_CMD_SET, PROTOCOL_BINARY_CMD_SETQ}"
    and s: "sane (Store (key_text (request_key p)) (request_value p) (be_word (take 4 (drop 24 p))) (uint (be_word (take 4 (drop 28 p)) :: 32 word)) (req_cas (request_of p))) (m, i)" "cache_step (Store (key_text (request_key p)) (request_value p) (be_word (take 4 (drop 24 p))) (uint (be_word (take 4 (drop 28 p)) :: 32 word)) (req_cas (request_of p))) (m, i) = (r, s')"
  shows "\<exists>rval c'. set_command_handler v1 hdr c = Inr (rval, c') \<and> rel (app c') s' \<and> handled p r n c rval c'"
proof -
  note l = request_lengths [OF c(3)] request_extlen [OF c(3)] header_at_packet [OF c(2)]
  have e: "req_extlen (request_of p) = 8" using op l by auto
  obtain rc cas val item where r: "r = (rc, cas, val, item)" by (cases r)
  show ?thesis using op l(1) storage_fields_packet [OF c(2,3) e] cache_step_result [OF s(2) [unfolded r]]
    by (intro stored_handled [OF c(1,2) _ c(4,5) op _ _ s])
      (auto simp: set_command_handler_def l(7) quiet_def r)
qed

lemma add_handled:
  assumes c: "idle n c" "at_packet p hdr c" "request_ok p" "rel (app c) (m, i)" "i + 1 \<noteq> 0"
    and op: "req_opcode (request_of p) \<in> {PROTOCOL_BINARY_CMD_ADD, PROTOCOL_BINARY_CMD_ADDQ}"
    and s: "sane (Add (key_text (request_key p)) (request_value p) (be_word (take 4 (drop 24 p))) (uint (be_word (take 4 (drop 28 p)) :: 32 word))) (m, i)" "cache_step (Add (key_text (request_key p)) (request_value p) (be_word (take 4 (drop 24 p))) (uint (be_word (take 4 (drop 28 p)) :: 32 word))) (m, i) = (r, s')"
  shows "\<exists>rval c'. add_command_handler v1 hdr c = Inr (rval, c') \<and> rel (app c') s' \<and> handled p r n c rval c'"
proof -
  note l = request_lengths [OF c(3)] request_extlen [OF c(3)] header_at_packet [OF c(2)]
  have e: "req_extlen (request_of p) = 8" using op l by auto
  obtain rc cas val item where r: "r = (rc, cas, val, item)" by (cases r)
  show ?thesis using op l(1) storage_fields_packet [OF c(2,3) e] cache_step_result [OF s(2) [unfolded r]]
    by (intro stored_handled [OF c(1,2) _ c(4,5) op _ _ s])
      (auto simp: add_command_handler_def l(7) quiet_def r)
qed

lemma replace_handled:
  assumes c: "idle n c" "at_packet p hdr c" "request_ok p" "rel (app c) (m, i)" "i + 1 \<noteq> 0"
    and op: "req_opcode (request_of p) \<in> {PROTOCOL_BINARY_CMD_REPLACE, PROTOCOL_BINARY_CMD_REPLACEQ}"
    and s: "sane (Replace (key_text (request_key p)) (request_value p) (be_word (take 4 (drop 24 p))) (uint (be_word (take 4 (drop 28 p)) :: 32 word)) (req_cas (request_of p))) (m, i)" "cache_step (Replace (key_text (request_key p)) (request_value p) (be_word (take 4 (drop 24 p))) (uint (be_word (take 4 (drop 28 p)) :: 32 word)) (req_cas (request_of p))) (m, i) = (r, s')"
  shows "\<exists>rval c'. replace_command_handler v1 hdr c = Inr (rval, c') \<and> rel (app c') s' \<and> handled p r n c rval c'"
proof -
  note l = request_lengths [OF c(3)] request_extlen [OF c(3)] header_at_packet [OF c(2)]
  have e: "req_extlen (request_of p) = 8" using op l by auto
  obtain rc cas val item where r: "r = (rc, cas, val, item)" by (cases r)
  show ?thesis using op l(1) storage_fields_packet [OF c(2,3) e] cache_step_result [OF s(2) [unfolded r]]
    by (intro stored_handled [OF c(1,2) _ c(4,5) op _ _ s])
      (auto simp: replace_command_handler_def l(7) quiet_def r)
qed

lemma append_handled:
  assumes c: "idle n c" "at_packet p hdr c" "request_ok p" "rel (app c) (m, i)" "i + 1 \<noteq> 0"
    and op: "req_opcode (request_of p) \<in> {PROTOCOL_BINARY_CMD_APPEND, PROTOCOL_BINARY_CMD_APPENDQ}"
    and s: "sane (Append (key_text (request_key p)) (request_value p) (req_cas (request_of p))) (m, i)" "cache_step (Append (key_text (request_key p)) (request_value p) (req_cas (request_of p))) (m, i) = (r, s')"
  shows "\<exists>rval c'. append_command_handler v1 hdr c = Inr (rval, c') \<and> rel (app c') s' \<and> handled p r n c rval c'"
proof -
  note l = request_lengths [OF c(3)] request_extlen [OF c(3)] header_at_packet [OF c(2)]
  have e: "req_extlen (request_of p) = 0" using op l by auto
  obtain rc cas val item where r: "r = (rc, cas, val, item)" by (cases r)
  show ?thesis using op l(1) concat_fields_packet [OF c(2,3) e] cache_step_result [OF s(2) [unfolded r]]
    by (intro stored_handled [OF c(1,2) _ c(4,5) op _ _ s])
      (auto simp: append_command_handler_def l(7) quiet_def r)
qed

lemma prepend_handled:
  assumes c: "idle n c" "at_packet p hdr c" "request_ok p" "rel (app c) (m, i)" "i + 1 \<noteq> 0"
    and op: "req_opcode (request_of p) \<in> {PROTOCOL_BINARY_CMD_PREPEND, PROTOCOL_BINARY_CMD_PREPENDQ}"
    and s: "sane (Prepend (key_text (request_key p)) (request_value p) (req_cas (request_of p))) (m, i)" "cache_step (Prepend (key_text (request_key p)) (request_value p) (req_cas (request_of p))) (m, i) = (r, s')"
  shows "\<exists>rval c'. prepend_command_handler v1 hdr c = Inr (rval, c') \<and> rel (app c') s' \<and> handled p r n c rval c'"
proof -
  note l = request_lengths [OF c(3)] request_extlen [OF c(3)] header_at_packet [OF c(2)]
  have e: "req_extlen (request_of p) = 0" using op l by auto
  obtain rc cas val item where r: "r = (rc, cas, val, item)" by (cases r)
  show ?thesis using op l(1) concat_fields_packet [OF c(2,3) e] cache_step_result [OF s(2) [unfolded r]]
    by (intro stored_handled [OF c(1,2) _ c(4,5) op _ _ s])
      (auto simp: prepend_command_handler_def l(7) quiet_def r)
qed

lemma increment_handled:
  assumes c: "idle n c" "at_packet p hdr c" "request_ok p" "rel (app c) (m, i)" "i + 1 \<noteq> 0"
    and op: "req_opcode (request_of p) \<in> {PROTOCOL_BINARY_CMD_INCREMENT, PROTOCOL_BINARY_CMD_INCREMENTQ}"
    and s: "sane (Increment (key_text (request_key p)) (be_word (take 8 (drop 24 p))) (be_word (take 8 (drop 32 p))) (be_word (take 4 (drop 40 p)))) (m, i)" "cache_step (Increment (key_text (request_key p)) (be_word (take 8 (drop 24 p))) (be_word (take 8 (drop 32 p))) (be_word (take 4 (drop 40 p)))) (m, i) = (r, s')"
  shows "\<exists>rval c'. increment_command_handler v1 hdr c = Inr (rval, c') \<and> rel (app c') s' \<and> handled p r n c rval c'"
proof -
  note l = request_lengths [OF c(3)] request_extlen [OF c(3)] header_at_packet [OF c(2)]
  have e: "req_extlen (request_of p) = 20" using op l by auto
  obtain rc cas val item where r: "r = (rc, cas, val, item)" by (cases r)
  show ?thesis using op l(1) counter_fields_packet [OF c(2,3) e] cache_step_result [OF s(2) [unfolded r]] s(2)
    by (intro counted_handled [OF c(1,2) _ c(4,5) op _ _ s])
      (auto simp: increment_command_handler_def l(7) quiet_def r counts_def keep_item_def Let_def)
qed

lemma decrement_handled:
  assumes c: "idle n c" "at_packet p hdr c" "request_ok p" "rel (app c) (m, i)" "i + 1 \<noteq> 0"
    and op: "req_opcode (request_of p) \<in> {PROTOCOL_BINARY_CMD_DECREMENT, PROTOCOL_BINARY_CMD_DECREMENTQ}"
    and s: "sane (Decrement (key_text (request_key p)) (be_word (take 8 (drop 24 p))) (be_word (take 8 (drop 32 p))) (be_word (take 4 (drop 40 p)))) (m, i)" "cache_step (Decrement (key_text (request_key p)) (be_word (take 8 (drop 24 p))) (be_word (take 8 (drop 32 p))) (be_word (take 4 (drop 40 p)))) (m, i) = (r, s')"
  shows "\<exists>rval c'. decrement_command_handler v1 hdr c = Inr (rval, c') \<and> rel (app c') s' \<and> handled p r n c rval c'"
proof -
  note l = request_lengths [OF c(3)] request_extlen [OF c(3)] header_at_packet [OF c(2)]
  have e: "req_extlen (request_of p) = 20" using op l by auto
  obtain rc cas val item where r: "r = (rc, cas, val, item)" by (cases r)
  show ?thesis using op l(1) counter_fields_packet [OF c(2,3) e] cache_step_result [OF s(2) [unfolded r]] s(2)
    by (intro counted_handled [OF c(1,2) _ c(4,5) op _ _ s])
      (auto simp: decrement_command_handler_def l(7) quiet_def r counts_def keep_item_def Let_def)
qed

lemma delete_handled:
  assumes c: "idle n c" "at_packet p hdr c" "request_ok p" "rel (app c) (m, i)"
    and op: "req_opcode (request_of p) \<in> {PROTOCOL_BINARY_CMD_DELETE, PROTOCOL_BINARY_CMD_DELETEQ}"
    and s: "cache_step (Remove (key_text (request_key p)) (req_cas (request_of p))) (m, i) = (r, s')"
  shows "\<exists>rval c'. delete_command_handler v1 hdr c = Inr (rval, c') \<and> rel (app c') s' \<and> handled p r n c rval c'"
proof -
  note l = request_lengths [OF c(3)] request_extlen [OF c(3)] header_at_packet [OF c(2)]
  have e: "req_extlen (request_of p) = 0" using op l by auto
  obtain f rc st' where f: "v1_delete_object v1 = Some f" "f (key_text (request_key p)) (req_cas (request_of p)) (app c) = Inr (rc, st')" "rel st' s'"
    "r = (rc, None, None, None)"
    using call_step [OF c(4) _ s] by (auto simp: run_bind_Inr_conv)
  show ?thesis
    using reply_handled [OF c(1,2) l(1), of PROTOCOL_BINARY_CMD_DELETE PROTOCOL_BINARY_CMD_DELETEQ rc "Some 0" None "[]" None st'] op f l(1)
      key_bytes_packet [OF c(2,3) e]
    by (auto simp: delete_command_handler_def l(7) quiet_def proper_def)
qed

lemma flush_handled:
  assumes c: "idle n c" "at_packet p hdr c" "request_ok p" "rel (app c) (m, i)"
    and op: "req_opcode (request_of p) \<in> {PROTOCOL_BINARY_CMD_FLUSH, PROTOCOL_BINARY_CMD_FLUSHQ}"
    and s: "cache_step Flush (m, i) = (r, s')"
  shows "\<exists>rval c'. flush_command_handler v1 hdr c = Inr (rval, c') \<and> rel (app c') s' \<and> handled p r n c rval c'"
proof -
  note l = request_lengths [OF c(3)] header_at_packet [OF c(2)]
  obtain f rc st' where f: "v1_flush_object v1 = Some f" "f 0 (app c) = (rc, st')" "rel st' s'" "r = (rc, None, None, None)"
    using call_step [OF c(4) _ s] by (auto split: prod.splits)
  have "\<exists>timeout. (if req_bodylen (request_of p) = 4 then bytes_at (packet_at hdr c) 24 4 else Inr []) = Inr timeout"
    using bytes_at_packet [OF c(2), of 24 4] l(1,2) by auto
  then obtain timeout where "(if req_bodylen (request_of p) = 4 then bytes_at (packet_at hdr c) 24 4 else Inr []) = Inr timeout" ..
  then have "flush_command_handler v1 hdr c =
      (if rc = PROTOCOL_BINARY_RESPONSE_SUCCESS \<and> req_opcode (header_at hdr c) = PROTOCOL_BINARY_CMD_FLUSH
       then reply_cas hdr PROTOCOL_BINARY_CMD_FLUSH (Some 0) [] (c\<lparr>app := st'\<rparr>) else Inr (rc, c\<lparr>app := st'\<rparr>))"
    using f(1,2) flush_any [OF f(1), of "be_word timeout"] l by (simp add: flush_command_handler_def)
  then show ?thesis
    using reply_handled [OF c(1,2) l(1), of PROTOCOL_BINARY_CMD_FLUSH PROTOCOL_BINARY_CMD_FLUSHQ rc "Some 0" None "[]" None st'] op f(3,4)
    by (auto simp: quiet_def proper_def)
qed

lemma get_handled:
  assumes c: "idle n c" "at_packet p hdr c" "request_ok p" "rel (app c) (m, i)"
    and op: "req_opcode (request_of p) \<in> {PROTOCOL_BINARY_CMD_GET, PROTOCOL_BINARY_CMD_GETQ, PROTOCOL_BINARY_CMD_GETK, PROTOCOL_BINARY_CMD_GETKQ}"
    and s: "cache_step (Fetch (key_text (request_key p))) (m, i) = (r, s')" "n + length (answer_bytes p r) \<le> CHUNK_BUFFERSIZE"
  shows "\<exists>rval c'. get_command_handler v1 hdr c = Inr (rval, c') \<and> rel (app c') s' \<and> handled p r n c rval c'"
proof -
  note l = request_lengths [OF c(3)] request_extlen [OF c(3)]
  have e: "req_extlen (request_of p) = 0" using op l by auto
  have h: "header_at hdr c = request_of p" "current_command c = hdr" using header_at_packet [OF c(2) l(1)] c(2) by (simp_all add: at_packet_def)
  obtain f rc item where f: "v1_get v1 = Some f" "f (key_text (request_key p)) (app c) = Inr (rc, item)" "rel (app c) s'"
    "r = (rc, None, None, item)"
    using call_step [OF c(4) _ s(1)] by (auto simp: run_bind_Inr_conv)
  note res = cache_step_result [OF s(1) [unfolded f(4)]]
  show ?thesis
  proof (cases item)
    case None
    then have "rc \<noteq> PROTOCOL_BINARY_RESPONSE_SUCCESS" "rc \<in> {PROTOCOL_BINARY_RESPONSE_KEY_ENOENT, PROTOCOL_BINARY_RESPONSE_KEY_EEXISTS}" using res by auto
    then show ?thesis using f None op key_bytes_packet [OF c(2,3) e] answers_none [OF c(1), of "app c"]
      by (auto simp: get_command_handler_def h handled_def answer_bytes_def Let_def)
  next
    case (Some it)
    obtain d fl j where it: "it = (d, fl, j)" by (cases it)
    have rc: "rc = PROTOCOL_BINARY_RESPONSE_SUCCESS" using res(1) Some by auto
    define key where "key = (if req_opcode (request_of p) \<in> {PROTOCOL_BINARY_CMD_GET, PROTOCOL_BINARY_CMD_GETQ} then [] else request_key p)"
    have a: "answer_bytes p r = concat [get_packet (req_opcode (request_of p)) (req_opaque (request_of p)) (word_of_nat (length key)) (word_of_nat (length d)) fl j, key, d]"
      by (simp add: answer_bytes_def f(4) rc Some it Let_def key_def)
    obtain c' where c': "spool_all [get_packet (req_opcode (request_of p)) (req_opaque (request_of p)) (word_of_nat (length key)) (word_of_nat (length d)) fl j, key, d] c =
        (PROTOCOL_BINARY_RESPONSE_SUCCESS, c')" "answers (answer_bytes p r) n c c'" "app c' = app c"
      using spool_all_idle [OF c(1)] s(2) unfolding a by blast
    have "get_response_handler (request_key p) d fl j c = (PROTOCOL_BINARY_RESPONSE_SUCCESS, c')"
      using c'(1) by (auto simp: get_response_handler_def h Let_def key_def simp del: spool_all.simps split: if_splits)
    then show ?thesis using f Some it rc c'(2,3) key_bytes_packet [OF c(2,3) e]
      by (intro exI [of _ PROTOCOL_BINARY_RESPONSE_SUCCESS] exI [of _ c']) (simp add: get_command_handler_def h handled_def)
  qed
qed
section \<open>Commands\<close>

text \<open>The callbacks with version 1 of the interface and the function for unknown commands.\<close>

abbreviation v1_callback :: "'s callback" where
  "v1_callback \<equiv> \<lparr>interface = V1 v1, unknown_command = unknown\<rparr>"

lemma command_handled:
  assumes c: "idle n c" "at_packet p hdr c" "request_ok p" "rel (app c) (m, i)" "i + 1 \<noteq> 0"
    and s: "command_of p = Some cmd" "sane cmd (m, i)" "cache_step cmd (m, i) = (r, s')" "n + length (answer_bytes p r) \<le> CHUNK_BUFFERSIZE"
  shows "\<exists>h rval c'. comcode_v0_v1_remap v1 (req_opcode (request_of p)) = Some h \<and> h hdr c = Inr (rval, c') \<and> rel (app c') s' \<and> handled p r n c rval c'"
proof -
  let ?op = "req_opcode (request_of p)"
  have "?op \<in> {0, 9, 12, 13} \<or> ?op \<in> {1, 17} \<or> ?op \<in> {2, 18} \<or> ?op \<in> {3, 19} \<or> ?op \<in> {14, 25} \<or> ?op \<in> {15, 26} \<or> ?op \<in> {4, 20} \<or>
      ?op \<in> {5, 21} \<or> ?op \<in> {6, 22} \<or> ?op \<in> {8, 24}"
    using s(1) by (auto simp: command_of_def Let_def split: if_splits)
  then show ?thesis
  proof (elim disjE)
    assume op: "?op \<in> {0, 9, 12, 13}"
    then have "cmd = Fetch (key_text (request_key p))" "comcode_v0_v1_remap v1 ?op = Some (get_command_handler v1)"
      using s(1) by (auto simp: command_of_def comcode_v0_v1_remap_def Let_def)
    then show ?thesis using get_handled [OF c(1-4) op] s by auto
  next
    assume op: "?op \<in> {1, 17}"
    then have "cmd = Store (key_text (request_key p)) (request_value p) (be_word (take 4 (drop 24 p))) (uint (be_word (take 4 (drop 28 p)) :: 32 word)) (req_cas (request_of p))" "comcode_v0_v1_remap v1 ?op = Some (set_command_handler v1)"
      using s(1) by (auto simp: command_of_def comcode_v0_v1_remap_def Let_def)
    then show ?thesis using set_handled [OF c op] s by auto
  next
    assume op: "?op \<in> {2, 18}"
    then have "cmd = Add (key_text (request_key p)) (request_value p) (be_word (take 4 (drop 24 p))) (uint (be_word (take 4 (drop 28 p)) :: 32 word))" "comcode_v0_v1_remap v1 ?op = Some (add_command_handler v1)"
      using s(1) by (auto simp: command_of_def comcode_v0_v1_remap_def Let_def)
    then show ?thesis using add_handled [OF c op] s by auto
  next
    assume op: "?op \<in> {3, 19}"
    then have "cmd = Replace (key_text (request_key p)) (request_value p) (be_word (take 4 (drop 24 p))) (uint (be_word (take 4 (drop 28 p)) :: 32 word)) (req_cas (request_of p))" "comcode_v0_v1_remap v1 ?op = Some (replace_command_handler v1)"
      using s(1) by (auto simp: command_of_def comcode_v0_v1_remap_def Let_def)
    then show ?thesis using replace_handled [OF c op] s by auto
  next
    assume op: "?op \<in> {14, 25}"
    then have "cmd = Append (key_text (request_key p)) (request_value p) (req_cas (request_of p))" "comcode_v0_v1_remap v1 ?op = Some (append_command_handler v1)"
      using s(1) by (auto simp: command_of_def comcode_v0_v1_remap_def Let_def)
    then show ?thesis using append_handled [OF c op] s by auto
  next
    assume op: "?op \<in> {15, 26}"
    then have "cmd = Prepend (key_text (request_key p)) (request_value p) (req_cas (request_of p))" "comcode_v0_v1_remap v1 ?op = Some (prepend_command_handler v1)"
      using s(1) by (auto simp: command_of_def comcode_v0_v1_remap_def Let_def)
    then show ?thesis using prepend_handled [OF c op] s by auto
  next
    assume op: "?op \<in> {4, 20}"
    then have "cmd = Remove (key_text (request_key p)) (req_cas (request_of p))" "comcode_v0_v1_remap v1 ?op = Some (delete_command_handler v1)"
      using s(1) by (auto simp: command_of_def comcode_v0_v1_remap_def Let_def)
    then show ?thesis using delete_handled [OF c(1-4) op] s by auto
  next
    assume op: "?op \<in> {5, 21}"
    then have "cmd = Increment (key_text (request_key p)) (be_word (take 8 (drop 24 p))) (be_word (take 8 (drop 32 p))) (be_word (take 4 (drop 40 p)))" "comcode_v0_v1_remap v1 ?op = Some (increment_command_handler v1)"
      using s(1) by (auto simp: command_of_def comcode_v0_v1_remap_def Let_def)
    then show ?thesis using increment_handled [OF c op] s by auto
  next
    assume op: "?op \<in> {6, 22}"
    then have "cmd = Decrement (key_text (request_key p)) (be_word (take 8 (drop 24 p))) (be_word (take 8 (drop 32 p))) (be_word (take 4 (drop 40 p)))" "comcode_v0_v1_remap v1 ?op = Some (decrement_command_handler v1)"
      using s(1) by (auto simp: command_of_def comcode_v0_v1_remap_def Let_def)
    then show ?thesis using decrement_handled [OF c op] s by auto
  next
    assume op: "?op \<in> {8, 24}"
    then have "cmd = Flush" "comcode_v0_v1_remap v1 ?op = Some (flush_command_handler v1)"
      using s(1) by (auto simp: command_of_def comcode_v0_v1_remap_def Let_def)
    then show ?thesis using flush_handled [OF c(1-4) op] s by auto
  qed
qed

lemma execute_command_handled:
  assumes c: "idle n c" "at_packet p hdr c" "request_ok p" "rel (app c) (m, i)" "i + 1 \<noteq> 0"
    and s: "command_of p = Some cmd" "sane cmd (m, i)" "cache_step cmd (m, i) = (r, s')" "n + length (answer_bytes p r) \<le> CHUNK_BUFFERSIZE"
  shows "\<exists>c'. execute_command v1_callback hdr c = Inr (PROTOCOL_BINARY_RESPONSE_SUCCESS, c') \<and> rel (app c') s' \<and> answers (answer_bytes p r) n c c'"
proof -
  obtain h rval c' where h: "comcode_v0_v1_remap v1 (req_opcode (request_of p)) = Some h" "h hdr c = Inr (rval, c')" "rel (app c') s'" "handled p r n c rval c'"
    using command_handled [OF c s] by blast
  show ?thesis using execute_handled [where cb = v1_callback and h = h, OF c(1-3) s(3) _ h(2,4)] h(1,3) by auto
qed

lemma execute_command_other:
  assumes c: "idle n c" "at_packet p hdr c" "request_ok p" "command_of p = None"
      "req_opcode (request_of p) \<notin> {PROTOCOL_BINARY_CMD_QUIT, PROTOCOL_BINARY_CMD_QUITQ}"
    and s: "served version p s = (bs, s')" "n + length bs \<le> CHUNK_BUFFERSIZE"
  shows "\<exists>c'. execute_command v1_callback hdr c = Inr (PROTOCOL_BINARY_RESPONSE_SUCCESS, c') \<and> app c' = app c \<and> s' = s \<and> answers bs n c c'"
proof -
  let ?op = "req_opcode (request_of p)" and ?opq = "req_opaque (request_of p)"
  note l = request_lengths [OF c(3)]
  have h: "header_at hdr c = request_of p" "current_command c = hdr" using header_at_packet [OF c(2) l(1)] c(2) by (simp_all add: at_packet_def)
  have s': "s' = s" using s(1) c(4) by (simp add: served_def Let_def)
  consider "?op = PROTOCOL_BINARY_CMD_NOOP" | "?op = PROTOCOL_BINARY_CMD_STAT" | "?op = PROTOCOL_BINARY_CMD_VERSION"
    | "?op \<notin> {PROTOCOL_BINARY_CMD_NOOP, PROTOCOL_BINARY_CMD_STAT, PROTOCOL_BINARY_CMD_VERSION}" by blast
  then show ?thesis
  proof cases
    case 1
    have bs: "bs = response_packet ?op PROTOCOL_BINARY_RESPONSE_SUCCESS ?opq 0 []" using s(1) c(4) 1 by (simp add: served_def)
    have n: "(case v1_noop v1 of None \<Rightarrow> c | Some f \<Rightarrow> c\<lparr>app := f (app c)\<rparr>) = c" using noop_same by (simp split: option.split)
    obtain c' where "raw_response_handler hdr bs c = Inr (PROTOCOL_BINARY_RESPONSE_SUCCESS, c')" "answers bs n c c'" "app c' = app c"
      using response_packet_idle [OF c(1), of ?op PROTOCOL_BINARY_RESPONSE_SUCCESS 0 "[]" ?opq hdr] 1 h unfolding bs by (auto simp: proper_def)
    then show ?thesis using 1 bs s' n h
      by (intro exI [of _ c']) (cases unknown; simp add: execute_command_def comcode_v0_v1_remap_def noop_command_handler_def reply_cas_def)
  next
    case 2
    have bs: "bs = response_packet ?op PROTOCOL_BINARY_RESPONSE_SUCCESS ?opq 0 []" using s(1) c(4) 2 by (simp add: served_def)
    have e: "req_extlen (request_of p) = 0"
      using c(3) 2 by (auto simp: request_ok_def memcached_binary_protocol_pedantic_check_request_def Let_def unat_eq_0)
    obtain stat where st: "v1_stat v1 = Some stat" "stat (key_text (request_key p)) (app c) = ([], [])" using stat_empty by blast
    obtain c' where "spool_all [bs, [], []] c = (PROTOCOL_BINARY_RESPONSE_SUCCESS, c')" "answers bs n c c'" "app c' = app c"
      using spool_all_idle [OF c(1), of "[bs, [], []]"] s(2) by auto
    then show ?thesis using 2 bs s' h st key_bytes_packet [OF c(2,3) e]
      by (intro exI [of _ c']) (cases unknown; simp add: execute_command_def comcode_v0_v1_remap_def stat_command_handler_def
          stat_response_handler_def response_packet_def del: spool_all.simps)
  next
    case 3
    have bs: "bs = response_packet ?op PROTOCOL_BINARY_RESPONSE_SUCCESS ?opq 0 version" using s(1) c(4) 3 by (simp add: served_def)
    obtain f where f: "v1_version v1 = Some f" "f (app c) = version" using version_text by blast
    define hd where "hd = take 24 bs"
    have hd: "bs = hd @ version" "hd = response_bytes \<lparr>res_magic = PROTOCOL_BINARY_RES, res_opcode = ?op, res_keylen = 0, res_extlen = 0,
              res_datatype = PROTOCOL_BINARY_RAW_BYTES, res_status = status_code PROTOCOL_BINARY_RESPONSE_SUCCESS,
              res_bodylen = word_of_nat (length version), res_opaque = ?opq, res_cas = 0\<rparr>"
      by (simp_all add: hd_def bs response_packet_def)
    obtain c' where "spool_all [hd, version] c = (PROTOCOL_BINARY_RESPONSE_SUCCESS, c')" "answers bs n c c'" "app c' = app c"
      using spool_all_idle [OF c(1), of "[hd, version]"] s(2) hd(1) by auto
    then show ?thesis using 3 s' h f
      by (intro exI [of _ c']) (cases unknown; simp add: execute_command_def comcode_v0_v1_remap_def version_command_handler_def
          version_response_handler_def hd(2) del: spool_all.simps)
  next
    case 4
    have bs: "bs = response_packet ?op PROTOCOL_BINARY_RESPONSE_UNKNOWN_COMMAND ?opq 0 []" using s(1) c(4) 4 by (simp add: served_def)
    obtain c' where "raw_response_handler hdr bs c = Inr (PROTOCOL_BINARY_RESPONSE_SUCCESS, c')" "answers bs n c c'" "app c' = app c"
      using response_packet_idle [OF c(1), of ?op PROTOCOL_BINARY_RESPONSE_UNKNOWN_COMMAND 0 "[]" ?opq hdr] h unfolding bs by (auto simp: proper_def)
    moreover have "comcode_v0_v1_remap v1 ?op = None"
      using c(4,5) 4 by (auto simp: command_of_def comcode_v0_v1_remap_def Let_def split: if_splits)
    ultimately show ?thesis using bs s' h
      by (intro exI [of _ c']) (cases unknown; simp add: execute_command_def unknown_sends)
  qed
qed

lemma execute_command_served:
  assumes c: "idle n c" "at_packet p hdr c" "rel (app c) s" "request_in s p"
    and s: "served version p s = (bs, s')" "n + length bs \<le> CHUNK_BUFFERSIZE"
  shows "\<exists>c'. execute_command v1_callback hdr c = Inr (PROTOCOL_BINARY_RESPONSE_SUCCESS, c') \<and> rel (app c') s' \<and> answers bs n c c'"
proof (cases "command_of p")
  case None
  then show ?thesis using execute_command_other [OF c(1,2) _ None _ s] c(3,4) by (auto simp: request_in_def)
next
  case (Some cmd)
  obtain m i where mi: "s = (m, i)" by (cases s)
  obtain r where r: "cache_step cmd s = (r, s')" "bs = answer_bytes p r" using s(1) Some by (auto simp: served_def split: prod.splits)
  show ?thesis
    using execute_command_handled [OF c(1,2) _ _ _ Some _ r(1) [unfolded mi] s(2) [unfolded r(2)]] c(3,4) Some r(2) by (auto simp: request_in_def mi)
qed

end

sublocale v1_application \<subseteq> server: packet_server "\<lparr>interface = V1 v1, unknown_command = unknown\<rparr>" rel request_in "served version"
proof unfold_locales
  show "request_ok p" if "request_in s p" for s p using that by (simp add: request_in_def)
qed (rule execute_command_served)

end
