(* ===== verification/Light_Interface.thy ===== *)
theory Light_Interface
  imports Protocol_V1
begin

text \<open>
  The server \<^verbatim>\<open>memcached_light\<close> on the protocol library: its handlers for version 0 of the interface, which build the
  packets themselves (\<^verbatim>\<open>example/interface_v0.cc\<close>, the default), the table of version 1 (\<^verbatim>\<open>example/interface_v1.cc\<close>) and the
  answer to unknown commands (\<^verbatim>\<open>example/memcached_light.cc\<close>).
\<close>

section \<open>Version 1\<close>

text \<open>The bytes of a text.\<close>

definition key_bytes :: "string \<Rightarrow> byte list" where
  "key_bytes s = map (\<lambda>ch. word_of_nat (of_char ch)) s"

definition interface_v1_impl :: "storage interface_v1" where
  "interface_v1_impl =
     \<lparr>v1_add = Some add_handler, v1_append = Some append_handler, v1_decrement = Some decrement_handler,
      v1_delete_object = Some delete_handler, v1_flush_object = Some (\<lambda>timeout. flush_handler), v1_get = Some get_handler,
      v1_increment = Some increment_handler, v1_noop = Some (\<lambda>st. st), v1_prepend = Some prepend_handler, v1_quit = Some (\<lambda>st. st),
      v1_replace = Some replace_handler, v1_set = Some set_handler, v1_stat = Some (\<lambda>key st. ([], [])),
      v1_version = Some (\<lambda>st. key_bytes ''0.1.1'')\<rparr>"

definition unknown :: "'s command_handler" where
  "unknown hdr c =
     raw_response_handler hdr
       (response_packet (req_opcode (header_at hdr c)) PROTOCOL_BINARY_RESPONSE_UNKNOWN_COMMAND (req_opaque (header_at hdr c)) 0 []) c"

definition light_v1 :: "storage callback" where
  "light_v1 = \<lparr>interface = V1 interface_v1_impl, unknown_command = Some unknown\<rparr>"

interpretation light_v1: v1_application interface_v1_impl "Some unknown" caches "key_bytes ''0.1.1''"
proof (unfold_locales, goal_cases)
  case (1 s m cmd r m')
  have "\<exists>f. v1_call interface_v1_impl cmd = Some f \<and> f s = handle cmd s"
    by (cases cmd) (simp_all add: interface_v1_impl_def answered_def counted_def)
  then show ?case using handle_ok [OF 1] by auto
qed (auto simp: interface_v1_impl_def key_bytes_def unknown_def)

section \<open>Version 0\<close>

text \<open>A response without key and extras to the request.\<close>

definition v0_respond :: "nat \<Rightarrow> protocol_binary_response_status \<Rightarrow> 64 word \<Rightarrow> byte list \<Rightarrow> ('s connection, protocol_binary_response_status) prog" where
  "v0_respond hdr status cas body c =
     raw_response_handler hdr (response_packet (req_opcode (header_at hdr c)) status (req_opaque (header_at hdr c)) cas body) c"

definition v0_noop_command_handler :: "storage command_handler" where
  "v0_noop_command_handler hdr c =
     raw_response_handler hdr (response_packet PROTOCOL_BINARY_CMD_NOOP PROTOCOL_BINARY_RESPONSE_SUCCESS (req_opaque (header_at hdr c)) 0 []) c"

definition v0_quit_command_handler :: "storage command_handler" where
  "v0_quit_command_handler hdr c =
     (if req_opcode (header_at hdr c) = PROTOCOL_BINARY_CMD_QUIT then
        run_bind
          (raw_response_handler hdr (response_packet PROTOCOL_BINARY_CMD_QUIT PROTOCOL_BINARY_RESPONSE_SUCCESS (req_opaque (header_at hdr c)) 0 []) c)
          (\<lambda>(rval, c). Inr (PROTOCOL_BINARY_RESPONSE_EINTERNAL, c))
      else Inr (PROTOCOL_BINARY_RESPONSE_EINTERNAL, c))"

text \<open>The response to a get is built in a union of 4096 bytes; what does not fit is copied beyond its end.\<close>

definition v0_get_command_handler :: "storage command_handler" where
  "v0_get_command_handler hdr c =
     (let h = header_at hdr c; opcode = req_opcode h
      in run_bind (bytes_at (packet_at hdr c) 24 (unat (req_keylen h))) (\<lambda>key.
         run_bind (get_item (key_text key) (app c)) (\<lambda>item.
           if item \<noteq> 0 then
             run_bind (deref item (app c)) (\<lambda>e.
               let key = (if opcode = PROTOCOL_BINARY_CMD_GETK \<or> opcode = PROTOCOL_BINARY_CMD_GETKQ then key_bytes (item_key e) else []);
                   msg = get_packet opcode (req_opaque h) (word_of_nat (length key)) (word_of_nat (length (item_data e))) (item_flags e) (item_cas e) @
                     key @ item_data e
               in if length msg > 4096 then Inl Undefined
                  else raw_response_handler hdr (msg @ replicate (4096 - length msg) 0) c)
           else if opcode = PROTOCOL_BINARY_CMD_GET \<or> opcode = PROTOCOL_BINARY_CMD_GETK then
             v0_respond hdr PROTOCOL_BINARY_RESPONSE_KEY_ENOENT 0 [] c
           else Inr (PROTOCOL_BINARY_RESPONSE_SUCCESS, c))))"

definition v0_delete_command_handler :: "storage command_handler" where
  "v0_delete_command_handler hdr c =
     run_bind (bytes_at (packet_at hdr c) 24 (unat (req_keylen (header_at hdr c)))) (\<lambda>key.
     run_bind (delete_item (key_text key) (app c)) (\<lambda>(found, st).
       let c = c\<lparr>app := st\<rparr>
       in if \<not> found then v0_respond hdr PROTOCOL_BINARY_RESPONSE_KEY_ENOENT 0 [] c
          else if req_opcode (header_at hdr c) = PROTOCOL_BINARY_CMD_DELETE then v0_respond hdr PROTOCOL_BINARY_RESPONSE_SUCCESS 0 [] c
          else Inr (PROTOCOL_BINARY_RESPONSE_SUCCESS, c)))"

definition v0_flush_command_handler :: "storage command_handler" where
  "v0_flush_command_handler hdr c =
     run_bind (flush (app c)) (\<lambda>st.
       let c = c\<lparr>app := st\<rparr>
       in if req_opcode (header_at hdr c) = PROTOCOL_BINARY_CMD_FLUSH then v0_respond hdr PROTOCOL_BINARY_RESPONSE_SUCCESS 0 [] c
          else Inr (PROTOCOL_BINARY_RESPONSE_SUCCESS, c))"

definition v0_arithmetic_command_handler :: "storage command_handler" where
  "v0_arithmetic_command_handler hdr c =
     (let opcode = req_opcode (header_at hdr c)
      in run_bind (counter_fields (packet_at hdr c)) (\<lambda>(key, delta, initial, expiration).
         run_bind (get_item (key_text key) (app c)) (\<lambda>item.
         run_bind
           (if item \<noteq> 0 then
              run_bind (deref item (app c)) (\<lambda>e.
              run_bind (counter_value (item_data e)) (\<lambda>old.
                let value =
                  (if opcode = PROTOCOL_BINARY_CMD_INCREMENT \<or> opcode = PROTOCOL_BINARY_CMD_INCREMENTQ then old + delta
                   else if delta > old then 0 else old - delta)
                in run_bind (delete_item (key_text key) (app c)) (\<lambda>(found, st).
                     Inr (value, word_of_int (item_exp e), item_flags e, st))))
            else Inr (initial, expiration, 0, app c))
           (\<lambda>(value, expiration, flags, st).
             let (item, st) = create_item (key_text key) None 8 flags (uint (expiration :: 32 word)) st
             in if item = 0 then v0_respond hdr PROTOCOL_BINARY_RESPONSE_ENOMEM 0 [] (c\<lparr>app := st\<rparr>)
                else
                  run_bind (update item (\<lambda>n. n\<lparr>item_data := counter_bytes value\<rparr>) st) (\<lambda>st.
                  run_bind (put_item item st) (\<lambda>st.
                  run_bind (deref item st) (\<lambda>e.
                    if opcode = PROTOCOL_BINARY_CMD_INCREMENTQ \<or> opcode = PROTOCOL_BINARY_CMD_DECREMENTQ
                    then Inr (PROTOCOL_BINARY_RESPONSE_SUCCESS, c\<lparr>app := st\<rparr>)
                    else v0_respond hdr PROTOCOL_BINARY_RESPONSE_SUCCESS (item_cas e) (be_bytes 8 value) (c\<lparr>app := st\<rparr>))))))))"

definition v0_version_command_handler :: "storage command_handler" where
  "v0_version_command_handler hdr c =
     raw_response_handler hdr
       (response_packet PROTOCOL_BINARY_CMD_VERSION PROTOCOL_BINARY_RESPONSE_SUCCESS (req_opaque (header_at hdr c)) 0 (key_bytes ''1.0.0'')) c"

definition v0_concat_command_handler :: "storage command_handler" where
  "v0_concat_command_handler hdr c =
     (let opcode = req_opcode (header_at hdr c); cas = req_cas (header_at hdr c)
      in run_bind (concat_fields (packet_at hdr c)) (\<lambda>(key, val).
         run_bind (get_item (key_text key) (app c)) (\<lambda>item.
           if item = 0 then Inr (PROTOCOL_BINARY_RESPONSE_KEY_ENOENT, c)
           else
             run_bind (deref item (app c)) (\<lambda>e.
             if cas \<noteq> 0 \<and> cas \<noteq> item_cas e then Inr (PROTOCOL_BINARY_RESPONSE_KEY_EEXISTS, c)
             else
               let (nitem, st) = create_item (key_text key) None (length (item_data e) + length val) (item_flags e) (item_exp e) (app c)
               in if nitem = 0 then Inr (PROTOCOL_BINARY_RESPONSE_ENOMEM, c\<lparr>app := st\<rparr>)
                  else
                    let new = (if opcode = PROTOCOL_BINARY_CMD_APPEND \<or> opcode = PROTOCOL_BINARY_CMD_APPENDQ then item_data e @ val else val @ item_data e)
                    in run_bind (update nitem (\<lambda>n. n\<lparr>item_data := new\<rparr>) st) (\<lambda>st.
                       run_bind (delete_item (key_text key) st) (\<lambda>(found, st).
                       run_bind (put_item nitem st) (\<lambda>st.
                       run_bind (deref nitem st) (\<lambda>e.
                         if opcode = PROTOCOL_BINARY_CMD_APPEND \<or> opcode = PROTOCOL_BINARY_CMD_PREPEND
                         then v0_respond hdr PROTOCOL_BINARY_RESPONSE_SUCCESS (item_cas e) [] (c\<lparr>app := st\<rparr>)
                         else Inr (PROTOCOL_BINARY_RESPONSE_SUCCESS, c\<lparr>app := st\<rparr>)))))))))"

text \<open>The length of a value is a \<^verbatim>\<open>size_t\<close> here.\<close>

definition v0_storage_length :: "request_header \<Rightarrow> nat" where
  "v0_storage_length h = unat ((ucast (req_bodylen h) :: 64 word) - ucast (req_keylen h) - 8)"

text \<open>The end of the handlers that store: a new item, and a response with its number unless the command is quiet.\<close>

definition v0_store :: "nat \<Rightarrow> byte \<Rightarrow> string \<Rightarrow> byte list \<Rightarrow> 32 word \<Rightarrow> int \<Rightarrow> storage \<Rightarrow> (storage connection, protocol_binary_response_status) prog" where
  "v0_store hdr loud key data flags timeout st c =
     (let (item, st) = create_item key (Some data) (length data) flags timeout st
      in if item = 0 then v0_respond hdr PROTOCOL_BINARY_RESPONSE_ENOMEM 0 [] (c\<lparr>app := st\<rparr>)
         else
           run_bind (put_item item st) (\<lambda>st.
             if req_opcode (header_at hdr c) = loud then
               run_bind (deref item st) (\<lambda>e. v0_respond hdr PROTOCOL_BINARY_RESPONSE_SUCCESS (item_cas e) [] (c\<lparr>app := st\<rparr>))
             else Inr (PROTOCOL_BINARY_RESPONSE_SUCCESS, c\<lparr>app := st\<rparr>)))"

definition v0_set_command_handler :: "storage command_handler" where
  "v0_set_command_handler hdr c =
     (let cas = req_cas (header_at hdr c)
      in run_bind (storage_fields (v0_storage_length (header_at hdr c)) (packet_at hdr c)) (\<lambda>(key, data, flags, timeout).
         run_bind
           (if cas \<noteq> 0 then
              run_bind (get_item (key_text key) (app c)) (\<lambda>item.
                if item \<noteq> 0 then run_bind (deref item (app c)) (\<lambda>e. Inr (item_cas e \<noteq> cas)) else Inr False)
            else Inr False) (\<lambda>other.
           if other then v0_respond hdr PROTOCOL_BINARY_RESPONSE_KEY_EEXISTS 0 [] c
           else
             run_bind (delete_item (key_text key) (app c)) (\<lambda>(found, st).
               v0_store hdr PROTOCOL_BINARY_CMD_SET (key_text key) data flags timeout st c))))"

definition v0_add_command_handler :: "storage command_handler" where
  "v0_add_command_handler hdr c =
     run_bind (storage_fields (v0_storage_length (header_at hdr c)) (packet_at hdr c)) (\<lambda>(key, data, flags, timeout).
     run_bind (get_item (key_text key) (app c)) (\<lambda>item.
       if item = 0 then v0_store hdr PROTOCOL_BINARY_CMD_ADD (key_text key) data flags timeout (app c) c
       else v0_respond hdr PROTOCOL_BINARY_RESPONSE_KEY_EEXISTS 0 [] c))"

definition v0_replace_command_handler :: "storage command_handler" where
  "v0_replace_command_handler hdr c =
     (let cas = req_cas (header_at hdr c)
      in run_bind (storage_fields (v0_storage_length (header_at hdr c)) (packet_at hdr c)) (\<lambda>(key, data, flags, timeout).
         run_bind (get_item (key_text key) (app c)) (\<lambda>item.
           if item = 0 then v0_respond hdr PROTOCOL_BINARY_RESPONSE_KEY_ENOENT 0 [] c
           else
             run_bind (deref item (app c)) (\<lambda>e.
             if cas = 0 \<or> cas = item_cas e then
               run_bind (delete_item (key_text key) (app c)) (\<lambda>(found, st).
                 v0_store hdr PROTOCOL_BINARY_CMD_REPLACE (key_text key) data flags timeout st c)
             else v0_respond hdr PROTOCOL_BINARY_RESPONSE_KEY_EEXISTS 0 [] c))))"

definition v0_stat_command_handler :: "storage command_handler" where
  "v0_stat_command_handler hdr c =
     raw_response_handler hdr (response_packet PROTOCOL_BINARY_CMD_STAT PROTOCOL_BINARY_RESPONSE_SUCCESS (req_opaque (header_at hdr c)) 0 []) c"

definition interface_v0_impl :: "byte \<Rightarrow> storage command_handler option" where
  "interface_v0_impl cc =
     (if cc = PROTOCOL_BINARY_CMD_GET \<or> cc = PROTOCOL_BINARY_CMD_GETQ \<or> cc = PROTOCOL_BINARY_CMD_GETK \<or> cc = PROTOCOL_BINARY_CMD_GETKQ
      then Some v0_get_command_handler
      else if cc = PROTOCOL_BINARY_CMD_SET \<or> cc = PROTOCOL_BINARY_CMD_SETQ then Some v0_set_command_handler
      else if cc = PROTOCOL_BINARY_CMD_ADD \<or> cc = PROTOCOL_BINARY_CMD_ADDQ then Some v0_add_command_handler
      else if cc = PROTOCOL_BINARY_CMD_REPLACE \<or> cc = PROTOCOL_BINARY_CMD_REPLACEQ then Some v0_replace_command_handler
      else if cc = PROTOCOL_BINARY_CMD_DELETE \<or> cc = PROTOCOL_BINARY_CMD_DELETEQ then Some v0_delete_command_handler
      else if cc = PROTOCOL_BINARY_CMD_INCREMENT \<or> cc = PROTOCOL_BINARY_CMD_INCREMENTQ \<or> cc = PROTOCOL_BINARY_CMD_DECREMENT \<or> cc = PROTOCOL_BINARY_CMD_DECREMENTQ
      then Some v0_arithmetic_command_handler
      else if cc = PROTOCOL_BINARY_CMD_QUIT \<or> cc = PROTOCOL_BINARY_CMD_QUITQ then Some v0_quit_command_handler
      else if cc = PROTOCOL_BINARY_CMD_FLUSH \<or> cc = PROTOCOL_BINARY_CMD_FLUSHQ then Some v0_flush_command_handler
      else if cc = PROTOCOL_BINARY_CMD_NOOP then Some v0_noop_command_handler
      else if cc = PROTOCOL_BINARY_CMD_VERSION then Some v0_version_command_handler
      else if cc = PROTOCOL_BINARY_CMD_APPEND \<or> cc = PROTOCOL_BINARY_CMD_PREPEND \<or> cc = PROTOCOL_BINARY_CMD_APPENDQ \<or> cc = PROTOCOL_BINARY_CMD_PREPENDQ
      then Some v0_concat_command_handler
      else if cc = PROTOCOL_BINARY_CMD_STAT then Some v0_stat_command_handler
      else None)"

definition light_v0 :: "storage callback" where
  "light_v0 = \<lparr>interface = V0 interface_v0_impl, unknown_command = Some unknown\<rparr>"

end
