(* ===== verification/Light_V0.thy ===== *)
theory Light_V0
  imports Light_Interface
begin

text \<open>
  \<^verbatim>\<open>memcached_light\<close> with version 0 of the interface.  Its commands are the steps of a cache that differs from the one of
  version 1 in three commands: a delete ignores the cas number, a flush empties the cache, and a counter keeps its
  flags.
\<close>

section \<open>The cache of version 0\<close>

definition counts_v0 :: "(64 word \<Rightarrow> 64 word \<Rightarrow> 64 word) \<Rightarrow> string \<Rightarrow> 64 word \<Rightarrow> 64 word \<Rightarrow> 32 word \<Rightarrow> cache \<Rightarrow> result \<times> cache" where
  "counts_v0 calc key delta initial expiration = (\<lambda>(m, c).
     let val = counter_next calc delta initial (m key);
         flags = (case m key of None \<Rightarrow> 0 | Some (d, f, x, i) \<Rightarrow> f)
     in keep_item key (counter_bytes val) flags (uint (counter_expires expiration (m key))) (Some val) (m, c))"

fun cache_step_v0 :: "command \<Rightarrow> cache \<Rightarrow> result \<times> cache" where
  "cache_step_v0 (Remove key cas) s = cache_step (Remove key 0) s"
| "cache_step_v0 Flush s = ((PROTOCOL_BINARY_RESPONSE_SUCCESS, None, None, None), (Map.empty, snd s))"
| "cache_step_v0 (Increment key delta initial expiration) s = counts_v0 (\<lambda>old delta. old + delta) key delta initial expiration s"
| "cache_step_v0 (Decrement key delta initial expiration) s = counts_v0 (\<lambda>old delta. if delta > old then 0 else old - delta) key delta initial expiration s"
| "cache_step_v0 cmd s = cache_step cmd s"

text \<open>A counter has eight bytes; the key of an increment may be long here.  The numbers of the items are not 0.\<close>

fun sane_v0 :: "command \<Rightarrow> cache \<Rightarrow> bool" where
  "sane_v0 (Increment key delta initial expiration) s \<longleftrightarrow> counter_ok key s"
| "sane_v0 (Decrement key delta initial expiration) s \<longleftrightarrow> counter_ok key s"
| "sane_v0 _ s \<longleftrightarrow> True"

definition numbered :: "cache \<Rightarrow> bool" where
  "numbered s \<longleftrightarrow> (\<forall>key d f x i. fst s key = Some (d, f, x, i) \<longrightarrow> i \<noteq> 0)"

lemma numbered_step: "numbered s \<Longrightarrow> snd s + 1 \<noteq> 0 \<Longrightarrow> numbered (snd (cache_step_v0 cmd s))"
  by (cases cmd; cases s) (auto simp: numbered_def failed_def keep_item_def guarded_def counts_v0_def cas_differs_def Let_def split: option.splits)

section \<open>Responses\<close>

text \<open>The end of a handler: a failure is sent, a success too unless the command is quiet.\<close>

definition v0_finish :: "nat \<Rightarrow> byte \<Rightarrow> protocol_binary_response_status \<Rightarrow> 64 word option \<Rightarrow> byte list \<Rightarrow> ('s connection, protocol_binary_response_status) prog" where
  "v0_finish hdr loud rc cas body c =
     (if rc \<noteq> PROTOCOL_BINARY_RESPONSE_SUCCESS then v0_respond hdr rc 0 [] c
      else if req_opcode (header_at hdr c) = loud then v0_respond hdr rc (case cas of None \<Rightarrow> 0 | Some i \<Rightarrow> i) body c
      else Inr (PROTOCOL_BINARY_RESPONSE_SUCCESS, c))"

lemma v0_finish_answers:
  assumes c: "idle n c" "at_packet p hdr c" "24 \<le> length p"
    and op: "req_opcode (request_of p) = loud \<or> quiet (req_opcode (request_of p))" "\<not> quiet loud"
      "req_opcode (request_of p) \<notin> {PROTOCOL_BINARY_CMD_GETQ, PROTOCOL_BINARY_CMD_GETKQ}"
    and body: "body = (case val of None \<Rightarrow> [] | Some v \<Rightarrow> be_bytes 8 v)"
      "rc = PROTOCOL_BINARY_RESPONSE_SUCCESS \<Longrightarrow> proper loud rc (case cas of None \<Rightarrow> 0 | Some i \<Rightarrow> i) body"
  shows "\<exists>c'. v0_finish hdr loud rc cas body (c\<lparr>app := s\<rparr>) = Inr (PROTOCOL_BINARY_RESPONSE_SUCCESS, c') \<and> app c' = s \<and>
    answers (answer_bytes p (rc, cas, val, None)) n c c'"
proof -
  have h: "header_at hdr c = request_of p" using header_at_packet [OF c(2,3)] .
  have R: "proper (req_opcode (request_of p)) status i bs \<Longrightarrow> \<exists>c'. v0_respond hdr status i bs (c\<lparr>app := s\<rparr>) = Inr (PROTOCOL_BINARY_RESPONSE_SUCCESS, c') \<and> app c' = s \<and>
      answers (response_packet (req_opcode (request_of p)) status (req_opaque (request_of p)) i bs) n c c'" for status i bs
    using response_packet_idle [of n "c\<lparr>app := s\<rparr>" "req_opcode (request_of p)" status i bs "req_opaque (request_of p)" hdr] c(1) h
    by (auto simp: v0_respond_def packet_at_fields answers_app)
  show ?thesis
  proof (cases "rc = PROTOCOL_BINARY_RESPONSE_SUCCESS")
    case False
    then show ?thesis using R [of rc 0 "[]"] op(3) by (auto simp: v0_finish_def answer_bytes_def proper_def Let_def)
  next
    case True
    show ?thesis
    proof (cases "req_opcode (request_of p) = loud")
      case loud: True
      show ?thesis using R [OF body(2) [OF True, folded loud]] True loud op(2) body(1)
        by (auto simp: v0_finish_def answer_bytes_def packet_at_fields h Let_def)
    next
      case False
      then show ?thesis using True op(1) answers_none [OF c(1), of s] by (auto simp: v0_finish_def answer_bytes_def packet_at_fields h Let_def)
    qed
  qed
qed

section \<open>Handlers\<close>

lemma v0_store_finish:
  assumes "(let (item, st) = create_item key (Some data) (length data) flags timeout st in store_new item st) = Inr (rc, cas, st')"
  shows "v0_store hdr loud key data flags timeout st c = v0_finish hdr loud rc cas [] (c\<lparr>app := st'\<rparr>)"
  using assms
  by (auto simp: v0_store_def store_new_def v0_finish_def run_bind_Inr_conv packet_at_fields Let_def split: prod.splits if_splits)

lemma app_same: "c\<lparr>app := app c\<rparr> = c"
  by (cases c) simp

lemma v0_set_finish:
  assumes "storage_fields (v0_storage_length (header_at hdr c)) (packet_at hdr c) = Inr (key, data, flags, timeout)"
    and "set_handler (key_text key) data flags timeout (req_cas (header_at hdr c)) (app c) = Inr (rc, cas, st')"
  shows "v0_set_command_handler hdr c = v0_finish hdr PROTOCOL_BINARY_CMD_SET rc cas [] (c\<lparr>app := st'\<rparr>)"
proof -
  let ?cas = "req_cas (header_at hdr c)" and ?key = "key_text key"
  let ?test = "\<lambda>differs. if ?cas \<noteq> 0 then run_bind (get_item ?key (app c)) (\<lambda>item.
      if item \<noteq> 0 then run_bind (deref item (app c)) (\<lambda>e. Inr (differs (item_cas e))) else Inr False) else Inr False"
  obtain other where t: "?test (\<lambda>i. ?cas \<noteq> i) = Inr other"
    "(if other then Inr (PROTOCOL_BINARY_RESPONSE_KEY_EEXISTS, None, app c)
      else run_bind (delete_item ?key (app c)) (\<lambda>(found, st).
        let (item, st) = create_item ?key (Some data) (length data) flags timeout st in store_new item st)) = Inr (rc, cas, st')"
    using assms(2) unfolding set_handler_def run_bind_Inr_conv by blast
  have e: "(\<lambda>e :: list_entry. Inr (item_cas e \<noteq> ?cas) :: fault + bool) = (\<lambda>e. Inr (?cas \<noteq> item_cas e))" by auto
  have t0: "?test (\<lambda>i. i \<noteq> ?cas) = Inr other" unfolding e by (rule t(1))
  show ?thesis
  proof (cases other)
    case True
    then show ?thesis using t(2) t0 assms(1) by (auto simp: v0_set_command_handler_def v0_finish_def app_same)
  next
    case False
    then obtain found st where d: "delete_item ?key (app c) = Inr (found, st)"
      "(let (item, st) = create_item ?key (Some data) (length data) flags timeout st in store_new item st) = Inr (rc, cas, st')"
      using t(2) by (auto simp: run_bind_Inr_conv)
    show ?thesis using False t0 d(1) assms(1) v0_store_finish [OF d(2)] by (simp add: v0_set_command_handler_def)
  qed
qed

lemma v0_add_finish:
  assumes "storage_fields (v0_storage_length (header_at hdr c)) (packet_at hdr c) = Inr (key, data, flags, timeout)"
    and "add_handler (key_text key) data flags timeout (app c) = Inr (rc, cas, st')"
  shows "v0_add_command_handler hdr c = v0_finish hdr PROTOCOL_BINARY_CMD_ADD rc cas [] (c\<lparr>app := st'\<rparr>)"
proof -
  obtain item where t: "get_item (key_text key) (app c) = Inr item"
    "(if item = 0 then let (item, st) = create_item (key_text key) (Some data) (length data) flags timeout (app c) in store_new item st
      else Inr (PROTOCOL_BINARY_RESPONSE_KEY_EEXISTS, None, app c)) = Inr (rc, cas, st')"
    using assms(2) unfolding add_handler_def run_bind_Inr_conv by blast
  show ?thesis
  proof (cases "item = 0")
    case True
    with t(2) have "(let (item, st) = create_item (key_text key) (Some data) (length data) flags timeout (app c) in store_new item st) = Inr (rc, cas, st')"
      by simp
    from v0_store_finish [OF this] show ?thesis using True t(1) assms(1) by (simp add: v0_add_command_handler_def)
  next
    case False
    then show ?thesis using t assms(1) by (auto simp: v0_add_command_handler_def v0_finish_def app_same)
  qed
qed

lemma v0_replace_finish:
  assumes "storage_fields (v0_storage_length (header_at hdr c)) (packet_at hdr c) = Inr (key, data, flags, timeout)"
    and "replace_handler (key_text key) data flags timeout (req_cas (header_at hdr c)) (app c) = Inr (rc, cas, st')"
  shows "v0_replace_command_handler hdr c = v0_finish hdr PROTOCOL_BINARY_CMD_REPLACE rc cas [] (c\<lparr>app := st'\<rparr>)"
proof -
  let ?cas = "req_cas (header_at hdr c)" and ?key = "key_text key"
  obtain item where t: "get_item ?key (app c) = Inr item"
    "(if item = 0 then Inr (PROTOCOL_BINARY_RESPONSE_KEY_ENOENT, None, app c)
      else run_bind (deref item (app c)) (\<lambda>e.
        if ?cas = 0 \<or> ?cas = item_cas e then run_bind (delete_item ?key (app c)) (\<lambda>(found, st).
          let (item, st) = create_item ?key (Some data) (length data) flags timeout st in store_new item st)
        else Inr (PROTOCOL_BINARY_RESPONSE_KEY_EEXISTS, None, app c))) = Inr (rc, cas, st')"
    using assms(2) unfolding replace_handler_def run_bind_Inr_conv by blast
  show ?thesis
  proof (cases "item = 0")
    case True
    then show ?thesis using t assms(1) by (auto simp: v0_replace_command_handler_def v0_finish_def app_same)
  next
    case False
    then obtain e where e: "deref item (app c) = Inr e"
      "(if ?cas = 0 \<or> ?cas = item_cas e then run_bind (delete_item ?key (app c)) (\<lambda>(found, st).
          let (item, st) = create_item ?key (Some data) (length data) flags timeout st in store_new item st)
        else Inr (PROTOCOL_BINARY_RESPONSE_KEY_EEXISTS, None, app c)) = Inr (rc, cas, st')"
      using t(2) by (auto simp: run_bind_Inr_conv)
    show ?thesis
    proof (cases "?cas = 0 \<or> ?cas = item_cas e")
      case True
      then obtain found st where d: "delete_item ?key (app c) = Inr (found, st)"
        "(let (item, st) = create_item ?key (Some data) (length data) flags timeout st in store_new item st) = Inr (rc, cas, st')"
        using e(2) by (auto simp: run_bind_Inr_conv)
      show ?thesis using False True t(1) e(1) d(1) assms(1) v0_store_finish [OF d(2)] by (simp add: v0_replace_command_handler_def)
    next
      case no: False
      then show ?thesis using False t(1) e assms(1) by (auto simp: v0_replace_command_handler_def v0_finish_def app_same)
    qed
  qed
qed

text \<open>Append and prepend return their failures.\<close>

lemma v0_concat_finish:
  assumes "concat_fields (packet_at hdr c) = Inr (key, val)"
    and "concat_handler both (key_text key) val (req_cas (header_at hdr c)) (app c) = Inr (rc, cas, st')"
    and "both = (if req_opcode (header_at hdr c) = PROTOCOL_BINARY_CMD_APPEND \<or> req_opcode (header_at hdr c) = PROTOCOL_BINARY_CMD_APPENDQ
      then (\<lambda>old new. old @ new) else (\<lambda>old new. new @ old))"
  shows "v0_concat_command_handler hdr c =
    (if rc \<noteq> PROTOCOL_BINARY_RESPONSE_SUCCESS then Inr (rc, c\<lparr>app := st'\<rparr>)
     else if req_opcode (header_at hdr c) = PROTOCOL_BINARY_CMD_APPEND \<or> req_opcode (header_at hdr c) = PROTOCOL_BINARY_CMD_PREPEND
     then v0_respond hdr rc (case cas of None \<Rightarrow> 0 | Some i \<Rightarrow> i) [] (c\<lparr>app := st'\<rparr>)
     else Inr (PROTOCOL_BINARY_RESPONSE_SUCCESS, c\<lparr>app := st'\<rparr>))"
proof -
  let ?cas = "req_cas (header_at hdr c)" and ?key = "key_text key"
  obtain item where t: "get_item ?key (app c) = Inr item" using assms(2) by (auto simp: concat_handler_def run_bind_Inr_conv)
  show ?thesis
  proof (cases "item = 0")
    case True
    then show ?thesis using t assms(1,2) by (auto simp: v0_concat_command_handler_def concat_handler_def app_same)
  next
    case False
    obtain e where e: "deref item (app c) = Inr e" using assms(2) t False by (auto simp: concat_handler_def run_bind_Inr_conv)
    obtain nitem st1 where n: "create_item ?key None (length (item_data e) + length val) (item_flags e) (item_exp e) (app c) = (nitem, st1)"
      by (cases "create_item ?key None (length (item_data e) + length val) (item_flags e) (item_exp e) (app c)")
    consider "?cas \<noteq> 0 \<and> ?cas \<noteq> item_cas e" | "\<not> (?cas \<noteq> 0 \<and> ?cas \<noteq> item_cas e)" "nitem = 0" | "\<not> (?cas \<noteq> 0 \<and> ?cas \<noteq> item_cas e)" "nitem \<noteq> 0" by blast
    then show ?thesis
    proof cases
      case 1
      then show ?thesis using t False e assms(1,2) by (auto simp: v0_concat_command_handler_def concat_handler_def app_same)
    next
      case 2
      then show ?thesis using t False e n assms(1,2) by (auto simp: v0_concat_command_handler_def concat_handler_def)
    next
      case 3
      then obtain st2 found st3 e' where u: "update nitem (\<lambda>n. n\<lparr>item_data := both (item_data e) val\<rparr>) st1 = Inr st2" "delete_item ?key st2 = Inr (found, st3)"
        "put_item nitem st3 = Inr st'" "deref nitem st' = Inr e'" "rc = PROTOCOL_BINARY_RESPONSE_SUCCESS" "cas = Some (item_cas e')"
        using t False e n assms(2) by (auto simp: concat_handler_def store_new_def run_bind_Inr_conv)
      show ?thesis
      proof (cases "req_opcode (header_at hdr c) = PROTOCOL_BINARY_CMD_APPEND \<or> req_opcode (header_at hdr c) = PROTOCOL_BINARY_CMD_APPENDQ")
        case True
        then show ?thesis using 3 t False e n u [unfolded assms(3)] assms(1) by (auto simp: v0_concat_command_handler_def)
      next
        case no: False
        then show ?thesis using 3 t False e n u [unfolded assms(3)] assms(1) by (auto simp: v0_concat_command_handler_def)
      qed
    qed
  qed
qed

lemma v0_arithmetic_finish:
  assumes M: "represents (app c) m" "allocs (app c) = []" and d: "counter_ok (key_text key) (m, i)"
    and F: "counter_fields (packet_at hdr c) = Inr (key, delta, initial, expiration)"
    and op: "(loud, calc) \<in> {(PROTOCOL_BINARY_CMD_INCREMENT, \<lambda>old delta. old + delta), (PROTOCOL_BINARY_CMD_DECREMENT, \<lambda>old delta. if delta > old then 0 else old - delta)}"
      "req_opcode (header_at hdr c) = loud \<or> req_opcode (header_at hdr c) = loud + 16"
    and val: "val = counter_next calc delta initial (m (key_text key))" "expires = counter_expires expiration (m (key_text key))"
      "flags = (case m (key_text key) of None \<Rightarrow> 0 | Some (d, f, x, i) \<Rightarrow> f)"
  shows "\<exists>st'. v0_arithmetic_command_handler hdr c = v0_finish hdr loud PROTOCOL_BINARY_RESPONSE_SUCCESS (Some (cas_count (app c) + 1)) (be_bytes 8 val) (c\<lparr>app := st'\<rparr>) \<and>
    represents st' (m(key_text key \<mapsto> (counter_bytes val, flags, uint expires, cas_count (app c) + 1))) \<and> allocs st' = [] \<and> cas_count st' = cas_count (app c) + 1"
proof -
  let ?key = "key_text key"
  define rest where "rest = (\<lambda>(value, expiration, flags, st).
    let (item, st) = create_item ?key None 8 flags (uint (expiration :: 32 word)) st
    in if item = 0 then v0_respond hdr PROTOCOL_BINARY_RESPONSE_ENOMEM 0 [] (c\<lparr>app := st\<rparr>)
       else
         run_bind (update item (\<lambda>n. n\<lparr>item_data := counter_bytes value\<rparr>) st) (\<lambda>st.
         run_bind (put_item item st) (\<lambda>st.
         run_bind (deref item st) (\<lambda>e.
           if req_opcode (header_at hdr c) = PROTOCOL_BINARY_CMD_INCREMENTQ \<or> req_opcode (header_at hdr c) = PROTOCOL_BINARY_CMD_DECREMENTQ
           then Inr (PROTOCOL_BINARY_RESPONSE_SUCCESS, c\<lparr>app := st\<rparr>)
           else v0_respond hdr PROTOCOL_BINARY_RESPONSE_SUCCESS (item_cas e) (be_bytes 8 value) (c\<lparr>app := st\<rparr>)))))"
  have R: "\<exists>st'. rest (val, expires, flags, st1) = v0_finish hdr loud PROTOCOL_BINARY_RESPONSE_SUCCESS (Some (cas_count (app c) + 1)) (be_bytes 8 val) (c\<lparr>app := st'\<rparr>) \<and>
      represents st' (m(?key \<mapsto> (counter_bytes val, flags, uint expires, cas_count (app c) + 1))) \<and> allocs st' = [] \<and> cas_count st' = cas_count (app c) + 1"
    if st1: "represents st1 (m(?key := None))" "allocs st1 = []" "cas_count st1 = cas_count (app c)" for st1
  proof -
    obtain st' where S: "(let (item, st) = create_item ?key None 8 flags (uint expires) st1
        in if item = 0 then Inr (None, PROTOCOL_BINARY_RESPONSE_ENOMEM, None, st)
           else run_bind (update item (\<lambda>n. n\<lparr>item_data := counter_bytes val\<rparr>) st) (\<lambda>st. run_bind (store_new item st) (\<lambda>a. Inr (Some val, a)))) =
      Inr (Some val, PROTOCOL_BINARY_RESPONSE_SUCCESS, Some (cas_count st1 + 1), st')"
      "represents st' ((m(?key := None))(?key \<mapsto> (counter_bytes val, flags, uint expires, cas_count st1 + 1)))" "allocs st' = []" "cas_count st' = cas_count st1 + 1"
      using store_counter [OF st1(1,2), of ?key flags "uint expires" val] by auto
    obtain item s2 s3 e where u: "create_item ?key None 8 flags (uint expires) st1 = (item, s2)" "item \<noteq> 0"
      "update item (\<lambda>n. n\<lparr>item_data := counter_bytes val\<rparr>) s2 = Inr s3" "put_item item s3 = Inr st'" "deref item st' = Inr e" "item_cas e = cas_count st1 + 1"
      using S(1) by (auto simp: store_new_def run_bind_Inr_conv split: prod.splits if_splits)
    have "loud \<in> {5, 6}" using op(1) by auto
    then have "rest (val, expires, flags, st1) = v0_finish hdr loud PROTOCOL_BINARY_RESPONSE_SUCCESS (Some (cas_count (app c) + 1)) (be_bytes 8 val) (c\<lparr>app := st'\<rparr>)"
      using u st1(3) op(2) by (auto simp: rest_def v0_finish_def packet_at_fields)
    then show ?thesis using S(2-4) st1(3) by auto
  qed
  show ?thesis
  proof (cases "m ?key")
    case None
    have "m(?key := None) = m" using None by auto
    then have "\<exists>st'. rest (val, expires, flags, app c) = v0_finish hdr loud PROTOCOL_BINARY_RESPONSE_SUCCESS (Some (cas_count (app c) + 1)) (be_bytes 8 val) (c\<lparr>app := st'\<rparr>) \<and>
        represents st' (m(?key \<mapsto> (counter_bytes val, flags, uint expires, cas_count (app c) + 1))) \<and> allocs st' = [] \<and> cas_count st' = cas_count (app c) + 1"
      using R [of "app c"] M by simp
    moreover have "v0_arithmetic_command_handler hdr c = rest (val, expires, flags, app c)"
      using None F get_item_represents(1) [OF M(1) None] val
      by (simp add: v0_arithmetic_command_handler_def rest_def counter_next_def counter_expires_def Let_def)
    ultimately show ?thesis by simp
  next
    case (Some it)
    from get_item_represents(2) [OF M(1) Some] obtain item e where
      G: "get_item ?key (app c) = Inr item" "item \<noteq> 0" "deref item (app c) = Inr e" "content e = it" by blast
    then have it: "m ?key = Some (item_data e, item_flags e, item_exp e, item_cas e)" using Some by (auto simp: content_def)
    obtain st1 where D: "delete_item ?key (app c) = Inr (True, st1)" "represents st1 (m(?key := None))" "allocs st1 = []" "cas_count st1 = cas_count (app c)"
      using delete_item_represents [OF M(1), of ?key] M(2) it by auto
    have l8: "8 \<le> length (item_data e)" using d it by (simp add: counter_ok_def)
    have "v0_arithmetic_command_handler hdr c = rest (val, expires, flags, st1)"
    proof (cases "loud = PROTOCOL_BINARY_CMD_INCREMENT")
      case True
      then have calc: "calc = (\<lambda>old delta. old + delta)" "req_opcode (header_at hdr c) = 5 \<or> req_opcode (header_at hdr c) = 21" using op by auto
      then show ?thesis using F G D(1) it l8 val
        by (auto simp: v0_arithmetic_command_handler_def rest_def counter_next_def counter_expires_def counter_value_def Let_def)
    next
      case False
      then have calc: "calc = (\<lambda>old delta. if delta > old then 0 else old - delta)" "req_opcode (header_at hdr c) = 6 \<or> req_opcode (header_at hdr c) = 22"
        using op by auto
      then show ?thesis using F G D(1) it l8 val
        by (auto simp: v0_arithmetic_command_handler_def rest_def counter_next_def counter_expires_def counter_value_def Let_def)
    qed
    then show ?thesis using R [OF D(2-4)] by simp
  qed
qed

section \<open>Commands\<close>

lemma v0_storage_fields:
  assumes "at_packet p hdr c" "request_ok p" "req_opcode (request_of p) \<in> {1, 2, 3, 17, 18, 19}"
  shows "storage_fields (v0_storage_length (request_of p)) (packet_at hdr c) =
    Inr (request_key p, request_value p, be_word (take 4 (drop 24 p)), uint (be_word (take 4 (drop 28 p)) :: 32 word))"
proof -
  let ?b = "req_bodylen (request_of p)" and ?k = "req_keylen (request_of p)"
  have e: "req_extlen (request_of p) = 8" using request_extlen(2) [OF assms(2,3)] .
  have l: "unat ?k + 8 \<le> unat ?b" using request_lengths [OF assms(2)] e by simp
  have b: "unat ?b < 2 ^ 32" "unat ?k < 2 ^ 16" using unsigned_less [of ?b] unsigned_less [of ?k] by simp_all
  have u: "unat (ucast ?b :: 64 word) = unat ?b" "unat (ucast ?k :: 64 word) = unat ?k"
    using b by (simp_all add: unsigned_ucast_eq take_bit_nat_eq_self)
  have "v0_storage_length (request_of p) = storage_length (request_of p)"
    using l u word_le_diff [of ?k 8 ?b] by (simp add: v0_storage_length_def storage_length_def unat_sub_if_size)
  then show ?thesis using storage_fields_packet [OF assms(1,2) e] by simp
qed

lemma v0_set_answers:
  assumes c: "idle n c" "at_packet p hdr c" "request_ok p" "caches (app c) (m, i)" "i + 1 \<noteq> 0"
    and op: "req_opcode (request_of p) \<in> {PROTOCOL_BINARY_CMD_SET, PROTOCOL_BINARY_CMD_SETQ}"
    and s: "cache_step (Store (key_text (request_key p)) (request_value p) (be_word (take 4 (drop 24 p))) (uint (be_word (take 4 (drop 28 p)) :: 32 word)) (req_cas (request_of p))) (m, i) = (r, s')"
  shows "\<exists>c'. v0_set_command_handler hdr c = Inr (PROTOCOL_BINARY_RESPONSE_SUCCESS, c') \<and> caches (app c') s' \<and> answers (answer_bytes p r) n c c'"
proof -
  note l = request_lengths(1) [OF c(3)] header_at_packet [OF c(2)]
  obtain rc cas st' where f: "set_handler (key_text (request_key p)) (request_value p) (be_word (take 4 (drop 24 p))) (uint (be_word (take 4 (drop 28 p)) :: 32 word)) (req_cas (request_of p)) (app c) = Inr (rc, cas, st')" "caches st' s'" "r = (rc, cas, None, None)"
    using handle_ok [OF c(4) _ s] by (auto simp: answered_def run_bind_Inr_conv)
  have "v0_set_command_handler hdr c = v0_finish hdr PROTOCOL_BINARY_CMD_SET rc cas [] (c\<lparr>app := st'\<rparr>)"
    using v0_set_finish [of hdr c] v0_storage_fields [OF c(2,3)] f(1) op l by auto
  then show ?thesis
    using v0_finish_answers [OF c(1,2) l(1), of PROTOCOL_BINARY_CMD_SET "[]" None rc cas st'] op f(2,3) c(5) cache_step_result [OF s [unfolded f(3)]]
    by (auto simp: quiet_def proper_def)
qed

lemma v0_add_answers:
  assumes c: "idle n c" "at_packet p hdr c" "request_ok p" "caches (app c) (m, i)" "i + 1 \<noteq> 0"
    and op: "req_opcode (request_of p) \<in> {PROTOCOL_BINARY_CMD_ADD, PROTOCOL_BINARY_CMD_ADDQ}"
    and s: "cache_step (Add (key_text (request_key p)) (request_value p) (be_word (take 4 (drop 24 p))) (uint (be_word (take 4 (drop 28 p)) :: 32 word))) (m, i) = (r, s')"
  shows "\<exists>c'. v0_add_command_handler hdr c = Inr (PROTOCOL_BINARY_RESPONSE_SUCCESS, c') \<and> caches (app c') s' \<and> answers (answer_bytes p r) n c c'"
proof -
  note l = request_lengths(1) [OF c(3)] header_at_packet [OF c(2)]
  obtain rc cas st' where f: "add_handler (key_text (request_key p)) (request_value p) (be_word (take 4 (drop 24 p))) (uint (be_word (take 4 (drop 28 p)) :: 32 word)) (app c) = Inr (rc, cas, st')" "caches st' s'" "r = (rc, cas, None, None)"
    using handle_ok [OF c(4) _ s] by (auto simp: answered_def run_bind_Inr_conv)
  have "v0_add_command_handler hdr c = v0_finish hdr PROTOCOL_BINARY_CMD_ADD rc cas [] (c\<lparr>app := st'\<rparr>)"
    using v0_add_finish [of hdr c] v0_storage_fields [OF c(2,3)] f(1) op l by auto
  then show ?thesis
    using v0_finish_answers [OF c(1,2) l(1), of PROTOCOL_BINARY_CMD_ADD "[]" None rc cas st'] op f(2,3) c(5) cache_step_result [OF s [unfolded f(3)]]
    by (auto simp: quiet_def proper_def)
qed

lemma v0_replace_answers:
  assumes c: "idle n c" "at_packet p hdr c" "request_ok p" "caches (app c) (m, i)" "i + 1 \<noteq> 0"
    and op: "req_opcode (request_of p) \<in> {PROTOCOL_BINARY_CMD_REPLACE, PROTOCOL_BINARY_CMD_REPLACEQ}"
    and s: "cache_step (Replace (key_text (request_key p)) (request_value p) (be_word (take 4 (drop 24 p))) (uint (be_word (take 4 (drop 28 p)) :: 32 word)) (req_cas (request_of p))) (m, i) = (r, s')"
  shows "\<exists>c'. v0_replace_command_handler hdr c = Inr (PROTOCOL_BINARY_RESPONSE_SUCCESS, c') \<and> caches (app c') s' \<and> answers (answer_bytes p r) n c c'"
proof -
  note l = request_lengths(1) [OF c(3)] header_at_packet [OF c(2)]
  obtain rc cas st' where f: "replace_handler (key_text (request_key p)) (request_value p) (be_word (take 4 (drop 24 p))) (uint (be_word (take 4 (drop 28 p)) :: 32 word)) (req_cas (request_of p)) (app c) = Inr (rc, cas, st')" "caches st' s'" "r = (rc, cas, None, None)"
    using handle_ok [OF c(4) _ s] by (auto simp: answered_def run_bind_Inr_conv)
  have "v0_replace_command_handler hdr c = v0_finish hdr PROTOCOL_BINARY_CMD_REPLACE rc cas [] (c\<lparr>app := st'\<rparr>)"
    using v0_replace_finish [of hdr c] v0_storage_fields [OF c(2,3)] f(1) op l by auto
  then show ?thesis
    using v0_finish_answers [OF c(1,2) l(1), of PROTOCOL_BINARY_CMD_REPLACE "[]" None rc cas st'] op f(2,3) c(5) cache_step_result [OF s [unfolded f(3)]]
    by (auto simp: quiet_def proper_def)
qed

lemma v0_concat_handled:
  assumes c: "idle n c" "at_packet p hdr c" "24 \<le> length p"
    and op: "(loud, hushed, both) \<in> {(PROTOCOL_BINARY_CMD_APPEND, PROTOCOL_BINARY_CMD_APPENDQ, \<lambda>old new. old @ new),
        (PROTOCOL_BINARY_CMD_PREPEND, PROTOCOL_BINARY_CMD_PREPENDQ, \<lambda>old new. new @ old)}"
      "req_opcode (request_of p) = loud \<or> req_opcode (request_of p) = hushed"
    and f: "concat_fields (packet_at hdr c) = Inr (key, val)"
      "concat_handler both (key_text key) val (req_cas (request_of p)) (app c) = Inr (rc, cas, st')"
      "rc = PROTOCOL_BINARY_RESPONSE_SUCCESS \<Longrightarrow> proper loud rc (case cas of None \<Rightarrow> 0 | Some i \<Rightarrow> i) []"
  shows "\<exists>rval c'. v0_concat_command_handler hdr c = Inr (rval, c') \<and> app c' = st' \<and> handled p (rc, cas, None, None) n c rval c'"
proof -
  have h: "header_at hdr c = request_of p" using header_at_packet [OF c(2,3)] .
  have q: "quiet hushed" "\<not> quiet loud" "loud \<notin> {9, 13}" "hushed \<notin> {9, 13}" "loud \<noteq> hushed" using op(1) by (auto simp: quiet_def)
  have both: "both = (if req_opcode (header_at hdr c) = PROTOCOL_BINARY_CMD_APPEND \<or> req_opcode (header_at hdr c) = PROTOCOL_BINARY_CMD_APPENDQ
      then (\<lambda>old new. old @ new) else (\<lambda>old new. new @ old))" using op h by auto
  have loud: "(req_opcode (header_at hdr c) = PROTOCOL_BINARY_CMD_APPEND \<or> req_opcode (header_at hdr c) = PROTOCOL_BINARY_CMD_PREPEND) \<longleftrightarrow> req_opcode (request_of p) = loud"
    using op h by auto
  show ?thesis
  proof (cases "rc = PROTOCOL_BINARY_RESPONSE_SUCCESS")
    case True
    have "v0_concat_command_handler hdr c = v0_finish hdr loud rc cas [] (c\<lparr>app := st'\<rparr>)"
      using v0_concat_finish [OF f(1) f(2) [folded h] both] True unfolding loud by (simp add: v0_finish_def packet_at_fields h)
    moreover obtain c' where "v0_finish hdr loud rc cas [] (c\<lparr>app := st'\<rparr>) = Inr (PROTOCOL_BINARY_RESPONSE_SUCCESS, c')" "app c' = st'"
        "answers (answer_bytes p (rc, cas, None, None)) n c c'"
      using v0_finish_answers [OF c, of loud "[]" None rc cas st'] op(2) q f(3) by auto
    ultimately show ?thesis using True by (auto simp: handled_def)
  next
    case False
    have "answer_bytes p (rc, cas, None, None) \<noteq> []" using False op(2) q by (auto simp: answer_bytes_def Let_def)
    then show ?thesis using v0_concat_finish [OF f(1) f(2) [folded h] both] False by (auto simp: handled_def)
  qed
qed

lemma v0_append_handled:
  assumes c: "idle n c" "at_packet p hdr c" "request_ok p" "caches (app c) (m, i)" "i + 1 \<noteq> 0"
    and op: "req_opcode (request_of p) \<in> {PROTOCOL_BINARY_CMD_APPEND, PROTOCOL_BINARY_CMD_APPENDQ}"
    and s: "cache_step (Append (key_text (request_key p)) (request_value p) (req_cas (request_of p))) (m, i) = (r, s')"
  shows "\<exists>rval c'. v0_concat_command_handler hdr c = Inr (rval, c') \<and> caches (app c') s' \<and> handled p r n c rval c'"
proof -
  note l = request_lengths(1) [OF c(3)] header_at_packet [OF c(2)] request_extlen(1) [OF c(3)]
  obtain rc cas st' where f: "concat_handler (\<lambda>old new. old @ new) (key_text (request_key p)) (request_value p) (req_cas (request_of p)) (app c) = Inr (rc, cas, st')"
    "caches st' s'" "r = (rc, cas, None, None)"
    using handle_ok [OF c(4) _ s] by (auto simp: answered_def run_bind_Inr_conv append_handler_def)
  show ?thesis using v0_concat_handled [OF c(1,2) l(1), where loud = PROTOCOL_BINARY_CMD_APPEND and hushed = PROTOCOL_BINARY_CMD_APPENDQ and both = "\<lambda>old new. old @ new" and key = "request_key p" and val = "request_value p"]
      op f l concat_fields_packet [OF c(2,3)] cache_step_result [OF s [unfolded f(3)]] c(5) by (auto simp: proper_def)
qed

lemma v0_prepend_handled:
  assumes c: "idle n c" "at_packet p hdr c" "request_ok p" "caches (app c) (m, i)" "i + 1 \<noteq> 0"
    and op: "req_opcode (request_of p) \<in> {PROTOCOL_BINARY_CMD_PREPEND, PROTOCOL_BINARY_CMD_PREPENDQ}"
    and s: "cache_step (Prepend (key_text (request_key p)) (request_value p) (req_cas (request_of p))) (m, i) = (r, s')"
  shows "\<exists>rval c'. v0_concat_command_handler hdr c = Inr (rval, c') \<and> caches (app c') s' \<and> handled p r n c rval c'"
proof -
  note l = request_lengths(1) [OF c(3)] header_at_packet [OF c(2)] request_extlen(1) [OF c(3)]
  obtain rc cas st' where f: "concat_handler (\<lambda>old new. new @ old) (key_text (request_key p)) (request_value p) (req_cas (request_of p)) (app c) = Inr (rc, cas, st')"
    "caches st' s'" "r = (rc, cas, None, None)"
    using handle_ok [OF c(4) _ s] by (auto simp: answered_def run_bind_Inr_conv prepend_handler_def)
  show ?thesis using v0_concat_handled [OF c(1,2) l(1), where loud = PROTOCOL_BINARY_CMD_PREPEND and hushed = PROTOCOL_BINARY_CMD_PREPENDQ and both = "\<lambda>old new. new @ old" and key = "request_key p" and val = "request_value p"]
      op f l concat_fields_packet [OF c(2,3)] cache_step_result [OF s [unfolded f(3)]] c(5) by (auto simp: proper_def)
qed

lemma v0_delete_answers:
  assumes c: "idle n c" "at_packet p hdr c" "request_ok p" "caches (app c) (m, i)"
    and op: "req_opcode (request_of p) \<in> {PROTOCOL_BINARY_CMD_DELETE, PROTOCOL_BINARY_CMD_DELETEQ}"
    and s: "cache_step (Remove (key_text (request_key p)) 0) (m, i) = (r, s')"
  shows "\<exists>c'. v0_delete_command_handler hdr c = Inr (PROTOCOL_BINARY_RESPONSE_SUCCESS, c') \<and> caches (app c') s' \<and> answers (answer_bytes p r) n c c'"
proof -
  let ?key = "key_text (request_key p)"
  let ?rc = "if m ?key = None then PROTOCOL_BINARY_RESPONSE_KEY_ENOENT else PROTOCOL_BINARY_RESPONSE_SUCCESS"
  note l = request_lengths(1) [OF c(3)] header_at_packet [OF c(2)]
  have e: "req_extlen (request_of p) = 0" using op request_extlen(1) [OF c(3)] by auto
  obtain st' where D: "delete_item ?key (app c) = Inr (m ?key \<noteq> None, st')" "represents st' (m(?key := None))" "allocs st' = []" "cas_count st' = i"
    using delete_item_represents [of "app c" m ?key] c(4) by (auto simp: caches_def)
  have "m ?key = None \<Longrightarrow> m(?key := None) = m" by auto
  then have r: "r = (?rc, None, None, None)" "caches st' s'"
    using s D(2-4) by (auto simp: guarded_def failed_def cas_differs_def caches_def split: option.splits)
  have "v0_delete_command_handler hdr c = v0_finish hdr PROTOCOL_BINARY_CMD_DELETE ?rc None [] (c\<lparr>app := st'\<rparr>)"
    using D(1) key_bytes_packet [OF c(2,3) e] by (auto simp: v0_delete_command_handler_def v0_finish_def packet_at_fields)
  then show ?thesis
    using v0_finish_answers [OF c(1,2) l(1), of PROTOCOL_BINARY_CMD_DELETE "[]" None ?rc None st'] op r
    by (auto simp: quiet_def proper_def)
qed

lemma v0_flush_answers:
  assumes c: "idle n c" "at_packet p hdr c" "request_ok p" "caches (app c) (m, i)"
    and op: "req_opcode (request_of p) \<in> {PROTOCOL_BINARY_CMD_FLUSH, PROTOCOL_BINARY_CMD_FLUSHQ}"
  shows "\<exists>c'. v0_flush_command_handler hdr c = Inr (PROTOCOL_BINARY_RESPONSE_SUCCESS, c') \<and> caches (app c') (Map.empty, i) \<and>
    answers (answer_bytes p (PROTOCOL_BINARY_RESPONSE_SUCCESS, None, None, None)) n c c'"
proof -
  note l = request_lengths(1) [OF c(3)]
  obtain st' where D: "flush (app c) = Inr st'" "caches st' (Map.empty, i)" using flush_represents [of "app c" m] c(4) by (auto simp: caches_def)
  have "v0_flush_command_handler hdr c = v0_finish hdr PROTOCOL_BINARY_CMD_FLUSH PROTOCOL_BINARY_RESPONSE_SUCCESS None [] (c\<lparr>app := st'\<rparr>)"
    using D(1) by (simp add: v0_flush_command_handler_def v0_finish_def packet_at_fields Let_def)
  then show ?thesis
    using v0_finish_answers [OF c(1,2) l(1), of PROTOCOL_BINARY_CMD_FLUSH "[]" None PROTOCOL_BINARY_RESPONSE_SUCCESS None st'] op D(2)
    by (auto simp: quiet_def proper_def)
qed

lemma v0_counted_answers:
  assumes c: "idle n c" "at_packet p hdr c" "request_ok p" "caches (app c) (m, i)" "i + 1 \<noteq> 0"
    and op: "(loud, calc) \<in> {(PROTOCOL_BINARY_CMD_INCREMENT, \<lambda>old delta. old + delta), (PROTOCOL_BINARY_CMD_DECREMENT, \<lambda>old delta. if delta > old then 0 else old - delta)}"
      "req_opcode (request_of p) = loud \<or> req_opcode (request_of p) = loud + 16"
    and s: "counter_ok (key_text (request_key p)) (m, i)" "counts_v0 calc (key_text (request_key p)) (be_word (take 8 (drop 24 p))) (be_word (take 8 (drop 32 p))) (be_word (take 4 (drop 40 p))) (m, i) = (r, s')"
  shows "\<exists>c'. v0_arithmetic_command_handler hdr c = Inr (PROTOCOL_BINARY_RESPONSE_SUCCESS, c') \<and> caches (app c') s' \<and> answers (answer_bytes p r) n c c'"
proof -
  let ?key = "key_text (request_key p)"
  note l = request_lengths(1) [OF c(3)] header_at_packet [OF c(2)]
  have o: "req_opcode (request_of p) \<in> {5, 6, 21, 22}" "loud \<in> {5, 6}" using op by auto
  have e: "req_extlen (request_of p) = 20" using request_extlen(3) [OF c(3)] o by auto
  define val where "val = counter_next calc (be_word (take 8 (drop 24 p))) (be_word (take 8 (drop 32 p))) (m ?key)"
  define flags where "flags = (case m ?key of None \<Rightarrow> 0 | Some (d, f, x, i) \<Rightarrow> f)"
  define expires where "expires = counter_expires (be_word (take 4 (drop 40 p))) (m ?key)"
  have M: "represents (app c) m" "allocs (app c) = []" "cas_count (app c) = i" using c(4) by (simp_all add: caches_def)
  have r: "r = (PROTOCOL_BINARY_RESPONSE_SUCCESS, Some (i + 1), Some val, None)" "s' = (m(?key \<mapsto> (counter_bytes val, flags, uint expires, i + 1)), i + 1)"
    using s(2) by (auto simp: counts_v0_def keep_item_def val_def flags_def expires_def Let_def)
  obtain st' where st': "v0_arithmetic_command_handler hdr c = v0_finish hdr loud PROTOCOL_BINARY_RESPONSE_SUCCESS (Some (i + 1)) (be_bytes 8 val) (c\<lparr>app := st'\<rparr>)"
    "represents st' (m(?key \<mapsto> (counter_bytes val, flags, uint expires, i + 1)))" "allocs st' = []" "cas_count st' = i + 1"
    using v0_arithmetic_finish [OF M(1,2) s(1) counter_fields_packet [OF c(2,3) e] op(1) _ val_def expires_def flags_def] op(2) l M(3) by auto
  have q: "\<not> quiet loud" "quiet (loud + 16)" "proper loud PROTOCOL_BINARY_RESPONSE_SUCCESS (i + 1) (be_bytes 8 val)"
    using o(2) c(5) by (auto simp: quiet_def proper_def)
  show ?thesis
    using v0_finish_answers [OF c(1,2) l(1), of loud "be_bytes 8 val" "Some val" PROTOCOL_BINARY_RESPONSE_SUCCESS "Some (i + 1)" st'] op(2) o q r st'
    by (auto simp: caches_def)
qed

lemma v0_increment_answers:
  assumes c: "idle n c" "at_packet p hdr c" "request_ok p" "caches (app c) (m, i)" "i + 1 \<noteq> 0"
    and op: "req_opcode (request_of p) \<in> {PROTOCOL_BINARY_CMD_INCREMENT, PROTOCOL_BINARY_CMD_INCREMENTQ}"
    and s: "sane_v0 (Increment (key_text (request_key p)) (be_word (take 8 (drop 24 p))) (be_word (take 8 (drop 32 p))) (be_word (take 4 (drop 40 p)))) (m, i)" "cache_step_v0 (Increment (key_text (request_key p)) (be_word (take 8 (drop 24 p))) (be_word (take 8 (drop 32 p))) (be_word (take 4 (drop 40 p)))) (m, i) = (r, s')"
  shows "\<exists>c'. v0_arithmetic_command_handler hdr c = Inr (PROTOCOL_BINARY_RESPONSE_SUCCESS, c') \<and> caches (app c') s' \<and> answers (answer_bytes p r) n c c'"
  using v0_counted_answers [OF c, of PROTOCOL_BINARY_CMD_INCREMENT "\<lambda>old delta. old + delta" r s'] op s by auto

lemma v0_decrement_answers:
  assumes c: "idle n c" "at_packet p hdr c" "request_ok p" "caches (app c) (m, i)" "i + 1 \<noteq> 0"
    and op: "req_opcode (request_of p) \<in> {PROTOCOL_BINARY_CMD_DECREMENT, PROTOCOL_BINARY_CMD_DECREMENTQ}"
    and s: "sane_v0 (Decrement (key_text (request_key p)) (be_word (take 8 (drop 24 p))) (be_word (take 8 (drop 32 p))) (be_word (take 4 (drop 40 p)))) (m, i)" "cache_step_v0 (Decrement (key_text (request_key p)) (be_word (take 8 (drop 24 p))) (be_word (take 8 (drop 32 p))) (be_word (take 4 (drop 40 p)))) (m, i) = (r, s')"
  shows "\<exists>c'. v0_arithmetic_command_handler hdr c = Inr (PROTOCOL_BINARY_RESPONSE_SUCCESS, c') \<and> caches (app c') s' \<and> answers (answer_bytes p r) n c c'"
  using v0_counted_answers [OF c, of PROTOCOL_BINARY_CMD_DECREMENT "\<lambda>old delta. if delta > old then 0 else old - delta" r s'] op s by auto


lemma key_round_trip: "key_bytes (key_text k) = k"
proof -
  have "word_of_nat (of_char (char_of (unat b))) = b" for b :: byte
  proof -
    have "unat b < 256" using unsigned_less [of b] by simp
    then show ?thesis by simp
  qed
  then show ?thesis by (simp add: key_bytes_def key_text_def comp_def map_idI)
qed

lemma v0_get_answers:
  assumes c: "idle n c" "at_packet p hdr c" "request_ok p" "caches (app c) (m, i)" "numbered (m, i)"
    and op: "req_opcode (request_of p) \<in> {PROTOCOL_BINARY_CMD_GET, PROTOCOL_BINARY_CMD_GETQ, PROTOCOL_BINARY_CMD_GETK, PROTOCOL_BINARY_CMD_GETKQ}"
    and s: "cache_step (Fetch (key_text (request_key p))) (m, i) = (r, s')" "length (answer_bytes p r) \<le> 4096"
  shows "\<exists>c'. v0_get_command_handler hdr c = Inr (PROTOCOL_BINARY_RESPONSE_SUCCESS, c') \<and> caches (app c') s' \<and> answers (answer_bytes p r) n c c'"
proof -
  let ?op = "req_opcode (request_of p)" and ?opq = "req_opaque (request_of p)" and ?key = "key_text (request_key p)"
  note l = request_lengths [OF c(3)]
  have h: "header_at hdr c = request_of p" using header_at_packet [OF c(2) l(1)] .
  have e: "req_extlen (request_of p) = 0" using op request_extlen(1) [OF c(3)] by auto
  have M: "represents (app c) m" using c(4) by (simp add: caches_def)
  have k0: "unat (req_keylen (request_of p)) = length p - 24" "0 < unat (req_keylen (request_of p))"
    using c(3) op l(2) by (auto simp: request_ok_def memcached_binary_protocol_pedantic_check_request_def Let_def)
  have k: "length (request_key p) = unat (req_keylen (request_of p))" using k0 l e by (simp add: request_key_def)
  show ?thesis
  proof (cases "m ?key")
    case None
    then have r: "r = (PROTOCOL_BINARY_RESPONSE_KEY_ENOENT, None, None, None)" "s' = (m, i)" using s(1) by (auto simp: guarded_def failed_def)
    obtain c' where "v0_respond hdr PROTOCOL_BINARY_RESPONSE_KEY_ENOENT 0 [] c = Inr (PROTOCOL_BINARY_RESPONSE_SUCCESS, c')"
      "answers (response_packet ?op PROTOCOL_BINARY_RESPONSE_KEY_ENOENT ?opq 0 []) n c c'" "app c' = app c"
      using response_packet_idle [OF c(1), of ?op PROTOCOL_BINARY_RESPONSE_KEY_ENOENT 0 "[]" ?opq hdr] h by (auto simp: v0_respond_def proper_def)
    then show ?thesis using op r c(4) get_item_represents(1) [OF M None] key_bytes_packet [OF c(2,3) e] answers_none [OF c(1), of "app c"]
      by (auto simp: v0_get_command_handler_def h answer_bytes_def Let_def app_same)
  next
    case (Some it)
    from get_item_represents(2) [OF M Some] obtain item it' where
      G: "get_item ?key (app c) = Inr item" "item \<noteq> 0" "deref item (app c) = Inr it'" "content it' = it" "item_key it' = ?key" by blast
    define d f j where "d = item_data it'" and "f = item_flags it'" and "j = item_cas it'"
    have it: "m ?key = Some (d, f, item_exp it', j)" using Some G(4) by (auto simp: content_def d_def f_def j_def)
    define key where "key = (if ?op \<in> {PROTOCOL_BINARY_CMD_GET, PROTOCOL_BINARY_CMD_GETQ} then [] else request_key p)"
    have r: "r = (PROTOCOL_BINARY_RESPONSE_SUCCESS, None, None, Some (d, f, j))" "s' = (m, i)" using s(1) it by (auto simp: guarded_def cas_differs_def)
    define msg where "msg = answer_bytes p r"
    have msg: "msg = get_packet ?op ?opq (word_of_nat (length key)) (word_of_nat (length d)) f j @ key @ d"
      by (simp add: msg_def answer_bytes_def r key_def Let_def)
    have j: "j \<noteq> 0" using c(5) it by (auto simp: numbered_def)
    have len: "length (be_bytes 4 f @ key @ d) \<le> 4072" using s(2) unfolding msg_def [symmetric] msg by (simp add: get_packet_def)
    have kl: "length key \<le> 4072" "length d \<le> 4072" using len by auto
    define h' where "h' = \<lparr>res_magic = PROTOCOL_BINARY_RES, res_opcode = ?op, res_keylen = word_of_nat (length key), res_extlen = 4,
       res_datatype = PROTOCOL_BINARY_RAW_BYTES, res_status = status_code PROTOCOL_BINARY_RESPONSE_SUCCESS,
       res_bodylen = word_of_nat (length d) + ucast (word_of_nat (length key) :: 16 word) + 4, res_opaque = ?opq, res_cas = j\<rparr>"
    have mh: "msg = response_bytes h' @ be_bytes 4 f @ key @ d" by (simp add: msg get_packet_def h'_def)
    have uk: "unat (word_of_nat (length key) :: 16 word) = length key" "unat (word_of_nat (length d) :: 32 word) = length d"
      using kl by (simp_all add: unat_of_nat)
    have body: "length (be_bytes 4 f @ key @ d) = unat (res_bodylen h')"
      using kl uk len by (simp add: h'_def unat_word_ariths unat_ucast_16_32)
    have kz: "(word_of_nat (length key) :: 16 word) = 0 \<longleftrightarrow> key = []" using uk(1) by (metis length_0_conv unat_eq_0)
    have ped: "memcached_binary_protocol_pedantic_check_response (request_of p) h'"
      using op j kz k k0(2) by (auto simp: memcached_binary_protocol_pedantic_check_response_def h'_def key_def Let_def)
    obtain c' where c': "raw_response_handler hdr (msg @ replicate (4096 - length msg) 0) c = Inr (PROTOCOL_BINARY_RESPONSE_SUCCESS, c')"
      "answers msg n c c'" "app c' = app c"
      using raw_response_idle [OF c(1) mh body, of hdr "replicate (4096 - length msg) 0"] ped h by auto
    have kk: "(if ?op = PROTOCOL_BINARY_CMD_GETK \<or> ?op = PROTOCOL_BINARY_CMD_GETKQ then key_bytes (item_key it') else []) = key"
      using op G(5) by (auto simp: key_def key_round_trip)
    have "v0_get_command_handler hdr c = (if length msg > 4096 then Inl Undefined else raw_response_handler hdr (msg @ replicate (4096 - length msg) 0) c)"
      using G(1-3) key_bytes_packet [OF c(2,3) e] unfolding v0_get_command_handler_def h Let_def msg d_def f_def j_def by (simp add: kk h)
    then have "v0_get_command_handler hdr c = raw_response_handler hdr (msg @ replicate (4096 - length msg) 0) c" using s(2) by (simp add: msg_def)
    then show ?thesis using c' r(2) c(4) by (simp add: msg_def)
  qed
qed

text \<open>A value that does not fit into the union overwrites the stack.\<close>

lemma v0_get_overflow:
  assumes "at_packet p hdr c" "request_ok p" "represents (app c) m"
    and "req_opcode (request_of p) \<in> {PROTOCOL_BINARY_CMD_GET, PROTOCOL_BINARY_CMD_GETQ, PROTOCOL_BINARY_CMD_GETK, PROTOCOL_BINARY_CMD_GETKQ}"
    and "m (key_text (request_key p)) = Some (d, f, x, i)" "4068 < length d"
  shows "execute_command light_v0 hdr c = Inl Undefined"
proof -
  have h: "header_at hdr c = request_of p" using header_at_packet [OF assms(1)] request_lengths(1) [OF assms(2)] by simp
  have e: "req_extlen (request_of p) = 0" using assms(4) request_extlen(1) [OF assms(2)] by auto
  from get_item_represents(2) [OF assms(3,5)] obtain item it where
    G: "get_item (key_text (request_key p)) (app c) = Inr item" "item \<noteq> 0" "deref item (app c) = Inr it" "item_data it = d"
    by (auto simp: content_def)
  have "v0_get_command_handler hdr c = Inl Undefined"
    using G key_bytes_packet [OF assms(1,2) e] assms(6) unfolding v0_get_command_handler_def Let_def h by (simp add: get_packet_def h)
  moreover have "interface_v0_impl (req_opcode (request_of p)) = Some v0_get_command_handler" using assms(4) by (auto simp: interface_v0_impl_def)
  ultimately show ?thesis by (simp add: execute_command_def light_v0_def h)
qed

section \<open>The server\<close>

definition served_v0 :: "byte list \<Rightarrow> cache \<Rightarrow> byte list \<times> cache" where
  "served_v0 p s =
     (case command_of p of
        Some cmd \<Rightarrow> (case cache_step_v0 cmd s of (r, s') \<Rightarrow> (answer_bytes p r, s'))
      | None \<Rightarrow> served (key_bytes ''1.0.0'') p s)"

definition request_in_v0 :: "cache \<Rightarrow> byte list \<Rightarrow> bool" where
  "request_in_v0 s p \<longleftrightarrow> request_ok p \<and> req_opcode (request_of p) \<notin> {PROTOCOL_BINARY_CMD_QUIT, PROTOCOL_BINARY_CMD_QUITQ} \<and>
     (case command_of p of None \<Rightarrow> True | Some cmd \<Rightarrow> sane_v0 cmd s) \<and> snd s + 1 \<noteq> 0 \<and> numbered s"

lemma execute_direct:
  "interface_v0_impl (req_opcode (header_at hdr c)) = Some h \<Longrightarrow> h hdr c = Inr (PROTOCOL_BINARY_RESPONSE_SUCCESS, c') \<Longrightarrow>
    execute_command light_v0 hdr c = Inr (PROTOCOL_BINARY_RESPONSE_SUCCESS, c')"
  by (simp add: execute_command_def light_v0_def)

lemma execute_v0_command:
  assumes c: "idle n c" "at_packet p hdr c" "request_ok p" "caches (app c) (m, i)" "i + 1 \<noteq> 0" "numbered (m, i)"
    and s: "command_of p = Some cmd" "sane_v0 cmd (m, i)" "cache_step_v0 cmd (m, i) = (r, s')" "length (answer_bytes p r) \<le> 4096"
  shows "\<exists>c'. execute_command light_v0 hdr c = Inr (PROTOCOL_BINARY_RESPONSE_SUCCESS, c') \<and> caches (app c') s' \<and> answers (answer_bytes p r) n c c'"
proof -
  let ?op = "req_opcode (request_of p)"
  have h: "header_at hdr c = request_of p" using header_at_packet [OF c(2) request_lengths(1) [OF c(3)]] .
  have D: ?thesis if "interface_v0_impl ?op = Some f"
      "\<exists>c'. f hdr c = Inr (PROTOCOL_BINARY_RESPONSE_SUCCESS, c') \<and> caches (app c') s' \<and> answers (answer_bytes p r) n c c'" for f
    using that execute_direct [of hdr c f] h by auto
  have H: ?thesis if "interface_v0_impl ?op = Some f" "cache_step cmd (m, i) = (r, s')"
      "\<exists>rval c'. f hdr c = Inr (rval, c') \<and> caches (app c') s' \<and> handled p r n c rval c'" for f
    using that execute_handled [where cb = light_v0 and h = f, OF c(1-3) that(2)] by (fastforce simp: light_v0_def)
  have "?op \<in> {0, 9, 12, 13} \<or> ?op \<in> {1, 17} \<or> ?op \<in> {2, 18} \<or> ?op \<in> {3, 19} \<or> ?op \<in> {14, 25} \<or> ?op \<in> {15, 26} \<or> ?op \<in> {4, 20} \<or>
      ?op \<in> {5, 21} \<or> ?op \<in> {6, 22} \<or> ?op \<in> {8, 24}"
    using s(1) by (auto simp: command_of_def Let_def split: if_splits)
  then show ?thesis
  proof (elim disjE)
    assume op: "?op \<in> {0, 9, 12, 13}"
    then have "cmd = Fetch (key_text (request_key p))" "interface_v0_impl ?op = Some v0_get_command_handler"
      using s(1) by (auto simp: command_of_def interface_v0_impl_def Let_def)
    then show ?thesis using v0_get_answers [OF c(1-4,6) op] s by (intro D [of v0_get_command_handler]) auto
  next
    assume op: "?op \<in> {1, 17}"
    then have "cmd = Store (key_text (request_key p)) (request_value p) (be_word (take 4 (drop 24 p))) (uint (be_word (take 4 (drop 28 p)) :: 32 word)) (req_cas (request_of p))" "interface_v0_impl ?op = Some v0_set_command_handler"
      using s(1) by (auto simp: command_of_def interface_v0_impl_def Let_def)
    then show ?thesis using v0_set_answers [OF c(1-5) op] s by (intro D [of v0_set_command_handler]) auto
  next
    assume op: "?op \<in> {2, 18}"
    then have "cmd = Add (key_text (request_key p)) (request_value p) (be_word (take 4 (drop 24 p))) (uint (be_word (take 4 (drop 28 p)) :: 32 word))" "interface_v0_impl ?op = Some v0_add_command_handler"
      using s(1) by (auto simp: command_of_def interface_v0_impl_def Let_def)
    then show ?thesis using v0_add_answers [OF c(1-5) op] s by (intro D [of v0_add_command_handler]) auto
  next
    assume op: "?op \<in> {3, 19}"
    then have "cmd = Replace (key_text (request_key p)) (request_value p) (be_word (take 4 (drop 24 p))) (uint (be_word (take 4 (drop 28 p)) :: 32 word)) (req_cas (request_of p))" "interface_v0_impl ?op = Some v0_replace_command_handler"
      using s(1) by (auto simp: command_of_def interface_v0_impl_def Let_def)
    then show ?thesis using v0_replace_answers [OF c(1-5) op] s by (intro D [of v0_replace_command_handler]) auto
  next
    assume op: "?op \<in> {14, 25}"
    then have "cmd = Append (key_text (request_key p)) (request_value p) (req_cas (request_of p))" "interface_v0_impl ?op = Some v0_concat_command_handler"
      using s(1) by (auto simp: command_of_def interface_v0_impl_def Let_def)
    then show ?thesis using v0_append_handled [OF c(1-5) op] s by (intro H [of v0_concat_command_handler]) auto
  next
    assume op: "?op \<in> {15, 26}"
    then have "cmd = Prepend (key_text (request_key p)) (request_value p) (req_cas (request_of p))" "interface_v0_impl ?op = Some v0_concat_command_handler"
      using s(1) by (auto simp: command_of_def interface_v0_impl_def Let_def)
    then show ?thesis using v0_prepend_handled [OF c(1-5) op] s by (intro H [of v0_concat_command_handler]) auto
  next
    assume op: "?op \<in> {4, 20}"
    then have "cmd = Remove (key_text (request_key p)) (req_cas (request_of p))" "interface_v0_impl ?op = Some v0_delete_command_handler"
      using s(1) by (auto simp: command_of_def interface_v0_impl_def Let_def)
    then show ?thesis using v0_delete_answers [OF c(1-4) op] s by (intro D [of v0_delete_command_handler]) auto
  next
    assume op: "?op \<in> {5, 21}"
    then have "cmd = Increment (key_text (request_key p)) (be_word (take 8 (drop 24 p))) (be_word (take 8 (drop 32 p))) (be_word (take 4 (drop 40 p)))" "interface_v0_impl ?op = Some v0_arithmetic_command_handler"
      using s(1) by (auto simp: command_of_def interface_v0_impl_def Let_def)
    then show ?thesis using v0_increment_answers [OF c(1-5) op] s by (intro D [of v0_arithmetic_command_handler]) auto
  next
    assume op: "?op \<in> {6, 22}"
    then have "cmd = Decrement (key_text (request_key p)) (be_word (take 8 (drop 24 p))) (be_word (take 8 (drop 32 p))) (be_word (take 4 (drop 40 p)))" "interface_v0_impl ?op = Some v0_arithmetic_command_handler"
      using s(1) by (auto simp: command_of_def interface_v0_impl_def Let_def)
    then show ?thesis using v0_decrement_answers [OF c(1-5) op] s by (intro D [of v0_arithmetic_command_handler]) auto
  next
    assume op: "?op \<in> {8, 24}"
    then have "cmd = Flush" "interface_v0_impl ?op = Some v0_flush_command_handler"
      using s(1) by (auto simp: command_of_def interface_v0_impl_def Let_def)
    then show ?thesis using v0_flush_answers [OF c(1-4) op] s by (intro D [of v0_flush_command_handler]) auto
  qed
qed

lemma execute_v0_other:
  assumes c: "idle n c" "at_packet p hdr c" "request_ok p" "command_of p = None"
      "req_opcode (request_of p) \<notin> {PROTOCOL_BINARY_CMD_QUIT, PROTOCOL_BINARY_CMD_QUITQ}"
    and s: "served (key_bytes ''1.0.0'') p s = (bs, s')"
  shows "\<exists>c'. execute_command light_v0 hdr c = Inr (PROTOCOL_BINARY_RESPONSE_SUCCESS, c') \<and> app c' = app c \<and> s' = s \<and> answers bs n c c'"
proof -
  let ?op = "req_opcode (request_of p)" and ?opq = "req_opaque (request_of p)"
  define known where "known \<longleftrightarrow> ?op \<in> {PROTOCOL_BINARY_CMD_NOOP, PROTOCOL_BINARY_CMD_STAT, PROTOCOL_BINARY_CMD_VERSION}"
  define body where "body = (if ?op = PROTOCOL_BINARY_CMD_VERSION then key_bytes ''1.0.0'' else [])"
  define status where "status = (if known then PROTOCOL_BINARY_RESPONSE_SUCCESS else PROTOCOL_BINARY_RESPONSE_UNKNOWN_COMMAND)"
  have h: "header_at hdr c = request_of p" using header_at_packet [OF c(2) request_lengths(1) [OF c(3)]] .
  have bs: "bs = response_packet ?op status ?opq 0 body" "s' = s"
    using s c(4) by (auto simp: served_def status_def known_def body_def Let_def split: if_splits)
  have v: "length (key_bytes ''1.0.0'') = 5" by (simp add: key_bytes_def)
  have l: "length body = unat (word_of_nat (length body) :: 32 word)" using v by (simp add: body_def)
  obtain c' where c': "raw_response_handler hdr bs c = Inr (PROTOCOL_BINARY_RESPONSE_SUCCESS, c')" "answers bs n c c'" "app c' = app c"
  proof -
    have "\<exists>c'. raw_response_handler hdr (bs @ []) c = Inr (PROTOCOL_BINARY_RESPONSE_SUCCESS, c') \<and> answers bs n c c' \<and> app c' = app c"
      by (rule raw_response_idle [OF c(1) bs(1) [unfolded response_packet_def]])
        (use l v h in \<open>auto simp: memcached_binary_protocol_pedantic_check_response_def status_def known_def body_def Let_def\<close>)
    then show ?thesis using that by auto
  qed
  have "execute_command light_v0 hdr c = Inr (PROTOCOL_BINARY_RESPONSE_SUCCESS, c')"
  proof (cases known)
    case True
    have "\<exists>f. interface_v0_impl ?op = Some f \<and> f hdr c = raw_response_handler hdr bs c"
      using True by (auto simp: known_def interface_v0_impl_def bs status_def body_def h
          v0_noop_command_handler_def v0_stat_command_handler_def v0_version_command_handler_def)
    then show ?thesis using c'(1) execute_direct [of hdr c] h by auto
  next
    case False
    have "interface_v0_impl ?op = None" using c(4,5) False by (auto simp: command_of_def interface_v0_impl_def known_def Let_def split: if_splits)
    then show ?thesis using c'(1) False by (simp add: execute_command_def light_v0_def h unknown_def bs status_def body_def known_def)
  qed
  then show ?thesis using c'(2,3) bs(2) by auto
qed

interpretation light_v0: packet_server light_v0 caches request_in_v0 served_v0
proof (unfold_locales, goal_cases)
  case (1 s p)
  then show ?case by (simp add: request_in_v0_def)
next
  case (2 n c p hdr s bs s')
  obtain m i where s: "s = (m, i)" by (cases s)
  have l: "length bs \<le> 4096" using 2(6) by (simp add: CHUNK_BUFFERSIZE_def)
  show ?case
  proof (cases "command_of p")
    case None
    then show ?thesis using execute_v0_other [OF 2(1,2) _ None, of s bs s'] 2(3-5) by (auto simp: request_in_v0_def served_v0_def)
  next
    case (Some cmd)
    obtain r where r: "cache_step_v0 cmd (m, i) = (r, s')" "bs = answer_bytes p r" using 2(5) Some s by (auto simp: served_v0_def split: prod.splits)
    show ?thesis using execute_v0_command [OF 2(1,2) _ _ _ _ Some _ r(1)] 2(3,4) Some l unfolding r(2) s by (auto simp: request_in_v0_def)
  qed
qed

section \<open>The form of the answers\<close>

text \<open>What a response has to say of the request it answers; no response at all is the answer of a quiet command.\<close>

definition response_to :: "request_header \<Rightarrow> byte list \<Rightarrow> bool" where
  "response_to q bs \<longleftrightarrow> bs = [] \<or>
     (24 \<le> length bs \<and> length bs = 24 + unat (res_bodylen (response_of bs)) \<and>
      res_magic (response_of bs) = PROTOCOL_BINARY_RES \<and> res_opcode (response_of bs) = req_opcode q \<and>
      res_opaque (response_of bs) = req_opaque q \<and> res_datatype (response_of bs) = PROTOCOL_BINARY_RAW_BYTES \<and>
      unat (res_extlen (response_of bs)) + unat (res_keylen (response_of bs)) \<le> unat (res_bodylen (response_of bs)))"

lemma response_packet_typed:
  "length body < 2 ^ 32 \<Longrightarrow> opcode = req_opcode q \<Longrightarrow> opaque = req_opaque q \<Longrightarrow> response_to q (response_packet opcode status opaque cas body)"
  by (simp add: response_to_def response_packet_def response_of_bytes unat_of_nat)

lemma get_packet_typed:
  assumes "length key + length data < 2 ^ 16" "opcode = req_opcode q" "opaque = req_opaque q"
  shows "response_to q (get_packet opcode opaque (word_of_nat (length key)) (word_of_nat (length data)) flags cas @ key @ data)"
proof -
  have u: "unat (word_of_nat (length key) :: 16 word) = length key" "unat (word_of_nat (length data) :: 32 word) = length data"
    using assms(1) by (simp_all add: unat_of_nat)
  then have "unat (word_of_nat (length data) + ucast (word_of_nat (length key) :: 16 word) + 4 :: 32 word) = length data + length key + 4"
    using assms(1) by (simp add: unat_word_ariths unat_ucast_16_32)
  then show ?thesis using assms(2,3) u by (simp add: response_to_def get_packet_def response_of_bytes)
qed

lemma answer_typed:
  assumes "length (answer_bytes p r) < 2 ^ 16"
  shows "response_to (request_of p) (answer_bytes p r)"
proof -
  obtain rc cas val item where r: "r = (rc, cas, val, item)" by (cases r)
  show ?thesis
  proof (cases "rc = PROTOCOL_BINARY_RESPONSE_SUCCESS \<and> item \<noteq> None")
    case True
    then obtain d f i where item: "item = Some (d, f, i)" by auto
    show ?thesis using assms True get_packet_typed [of _ d _ "request_of p"]
      by (simp add: r item answer_bytes_def Let_def get_packet_def)
  next
    case False
    then show ?thesis using response_packet_typed [of _ _ "request_of p"]
      by (auto simp: r answer_bytes_def Let_def response_to_def [of _ "[]"] split: option.split)
  qed
qed

lemma served_v0_typed:
  assumes "length (fst (served_v0 p s)) < 2 ^ 16"
  shows "response_to (request_of p) (fst (served_v0 p s))"
proof (cases "command_of p")
  case None
  then show ?thesis by (auto simp: served_v0_def served_def key_bytes_def Let_def intro!: response_packet_typed)
next
  case (Some cmd)
  then show ?thesis using assms answer_typed by (auto simp: served_v0_def split: prod.splits)
qed

end
