(* ===== verification/Raid6_Encode.thy ===== *)
theory Raid6_Encode
  imports Cauchy_Correct Codec_Correct
begin

unbundle bit_operations_syntax

text \<open>
  The encoder for RAID-6 of \<^verbatim>\<open>reed_sol.c\<close>: \<^verbatim>\<open>reed_sol_r6_encode\<close> adds the devices up and evaluates the second row by Horner's
  rule, doubling all elements of a word at once; it leaves what \<^verbatim>\<open>jerasure_matrix_encode\<close> leaves with the RAID-6 matrix.
\<close>

section \<open>The masks\<close>

definition r6_ok :: "r6 \<Rightarrow> bool" where
  "r6_ok s \<longleftrightarrow> (prim32 s = -1 \<or> prim32 s = 0x400007) \<and>
     (prim08 s = -1 \<or> prim08 s = 0x1d1d1d1d \<and> mask08_1 s = 0xfefefefe \<and> mask08_2 s = 0x80808080) \<and>
     (prim16 s = -1 \<or> prim16 s = 0x100b100b \<and> mask16_1 s = 0xfffefffe \<and> mask16_2 s = 0x80008000)"

lemma r6_ok_init: "r6_ok r6_init"
  by (simp add: r6_ok_def r6_init_def)

lemma high_doubled:
  "gmul 8 0x80 2 = 0x1d" "gmul 16 0x8000 2 = 0x100b" "gmul 32 0x80000000 2 = 0x400007"
proof -
  have "gmul 8 0x80 2 = shift_next 8 0x80" "gmul 16 0x8000 2 = shift_next 16 0x8000" "gmul 32 0x80000000 2 = shift_next 32 0x80000000"
    by (rule shift_next_gmul; simp add: gf_width_def gf_elem_def; code_simp)+
  moreover have "shift_next 8 0x80 = 0x1d" "shift_next 16 0x8000 = 0x100b" "shift_next 32 0x80000000 = 0x400007" by code_simp+
  ultimately show "gmul 8 0x80 2 = 0x1d" "gmul 16 0x8000 2 = 0x100b" "gmul 32 0x80000000 2 = 0x400007" by simp_all
qed

lemma w08_masks_ok:
  assumes "r6_ok s"
  shows "\<exists>s'. w08_masks s = Inr s' \<and> r6_ok s' \<and> prim08 s' = 0x1d1d1d1d \<and> mask08_1 s' = 0xfefefefe \<and> mask08_2 s' = 0x80808080"
proof (cases "prim08 s = -1")
  case True
  have "smear 4 8 0 0x1d = Inr 0x1d1d1d1d" "smear 4 8 0 0xfe = Inr 0xfefefefe" "smear 4 8 0 0x80 = Inr 0x80808080" by code_simp+
  then show ?thesis using True assms high_doubled by (simp add: w08_masks_def r6_ok_def)
qed (use assms in \<open>auto simp: w08_masks_def r6_ok_def\<close>)

lemma w16_masks_ok:
  assumes "r6_ok s"
  shows "\<exists>s'. w16_masks s = Inr s' \<and> r6_ok s' \<and> prim16 s' = 0x100b100b \<and> mask16_1 s' = 0xfffefffe \<and> mask16_2 s' = 0x80008000"
proof (cases "prim16 s = -1")
  case True
  have "smear 2 16 0 0x100b = Inr 0x100b100b" "smear 2 16 0 0xfffe = Inr 0xfffefffe" "smear 2 16 0 0x8000 = Inr 0x80008000" by code_simp+
  then show ?thesis using True assms high_doubled by (simp add: w16_masks_def r6_ok_def)
qed (use assms in \<open>auto simp: w16_masks_def r6_ok_def\<close>)

section \<open>Elements in a word\<close>

text \<open>Element \<open>q\<close> of \<open>w\<close> bits of a word.\<close>

definition lane :: "nat \<Rightarrow> nat \<Rightarrow> cint \<Rightarrow> cint" where
  "lane w q v = take_bit w (drop_bit (w * q) v)"

lemma bit_lane: "bit (lane w q v) n \<longleftrightarrow> n < w \<and> bit v (w * q + n)"
  by (auto simp: lane_def bitsimps bit_simps)

lemma rd_lane:
  assumes "code_width w s" "q < 4 div s"
  shows "rd s r (4 div s * i + q) = lane w q (rd 4 r i)"
proof (rule bit_word_eqI)
  fix n
  note w = code_width_simps [OF assms(1)]
  have s: "s * (4 div s) = 4" using assms(1) by (auto simp: code_width_def)
  show "bit (rd s r (4 div s * i + q)) n = bit (lane w q (rd 4 r i)) n"
  proof (cases "n < w")
    case True
    have "s * Suc q \<le> s * (4 div s)" using assms(2) by (intro mult_le_mono2) simp
    then have "w * q + n < 32" using True w(4) s by simp
    moreover have "(w * q + n) div 8 = s * q + n div 8" "(w * q + n) mod 8 = n mod 8" using w(4) by (simp_all add: mult.assoc)
    moreover have "s * (4 div s * i + q) = 4 * i + s * q" using s by (simp add: distrib_left flip: mult.assoc)
    ultimately show ?thesis using True w by (simp add: bit_rd bit_lane add.assoc)
  qed (use w in \<open>simp add: bit_rd bit_lane\<close>)
qed

text \<open>The three ways to double all elements of a word.\<close>

lemma double_32: "lane 32 0 (push_bit 1 v XOR (if v AND 0x80000000 \<noteq> 0 then 0x400007 else 0)) = shift_next 32 (lane 32 0 v)"
proof -
  have "(0x80000000 :: cint) = push_bit 31 1" by simp
  then have "v AND 0x80000000 \<noteq> 0 \<longleftrightarrow> bit v 31" by (simp only: and_push_bit_1)
  moreover have "gf_elem 32 v" by (rule gf_elem_32)
  moreover have "prim_poly 32 = 0x400007" by code_simp
  ultimately show ?thesis by (simp add: lane_def shift_next_eq take_bit_full)
qed

lemma lane_ops:
  "lane w q (x XOR y) = lane w q x XOR lane w q y" "lane w q (x AND y) = lane w q x AND lane w q y" "lane w q 0 = 0"
  by (auto intro!: bit_word_eqI simp: bit_lane bit_simps)

lemma lane_elem [simp]: "gf_elem w (lane w q v)"
  by (simp add: gf_elem_bit bit_lane)

lemma lane_shift:
  assumes "0 < w" "w + w * q \<le> 32"
  shows "lane w q (push_bit 1 v) AND push_bit 1 (mask (w - 1)) = take_bit w (push_bit 1 (lane w q v))"
proof (rule bit_word_eqI)
  fix n
  show "bit (lane w q (push_bit 1 v) AND push_bit 1 (mask (w - 1))) n = bit (take_bit w (push_bit 1 (lane w q v))) n"
    using assms unfolding bit_and_iff bit_lane bit_take_bit_iff bit_push_bit_iff bit_mask_iff possible_bit_word by auto
qed

text \<open>Elements all of whose bits are the highest bit of the element of \<open>v\<close>.\<close>

lemma and_or_right: "(v :: cint) AND (a OR b) = (v AND a) OR (v AND b)"
  by (rule bit_word_eqI) (auto simp: bit_simps)

lemma and_bit_1: "(v :: cint) AND push_bit i 1 = (if bit v i then push_bit i 1 else 0)"
  by (rule bit_word_eqI) (simp only: bit_and_iff bit_push_1 split: if_split, auto)

lemma spread_8:
  fixes v :: cint
  defines "t \<equiv> v AND 0x80808080"
  shows "push_bit 1 t - drop_bit 7 t = (if bit v 7 then 0xff else 0) OR (if bit v 15 then 0xff00 else 0) OR
    (if bit v 23 then 0xff0000 else 0) OR (if bit v 31 then 0xff000000 else 0)"
proof -
  have "t = v AND (push_bit 7 1 OR push_bit 15 1 OR push_bit 23 1 OR push_bit 31 1)" by (simp add: t_def)
  also have "\<dots> = (if bit v 7 then push_bit 7 1 else 0) OR (if bit v 15 then push_bit 15 1 else 0) OR
      (if bit v 23 then push_bit 23 1 else 0) OR (if bit v 31 then push_bit 31 1 else 0)" by (simp only: and_or_right and_bit_1)
  finally show ?thesis by (cases "bit v 7"; cases "bit v 15"; cases "bit v 23"; cases "bit v 31"; simp)
qed

lemma spread_16:
  fixes v :: cint
  defines "t \<equiv> v AND 0x80008000"
  shows "push_bit 1 t - drop_bit 15 t = (if bit v 15 then 0xffff else 0) OR (if bit v 31 then 0xffff0000 else 0)"
proof -
  have "t = v AND (push_bit 15 1 OR push_bit 31 1)" by (simp add: t_def)
  also have "\<dots> = (if bit v 15 then push_bit 15 1 else 0) OR (if bit v 31 then push_bit 31 1 else 0)" by (simp only: and_or_right and_bit_1)
  finally show ?thesis by (cases "bit v 15"; cases "bit v 31"; simp)
qed

lemma double_8:
  fixes v :: cint
  defines "t \<equiv> v AND 0x80808080"
  assumes "q < 4"
  shows "lane 8 q ((push_bit 1 v AND 0xfefefefe) XOR ((push_bit 1 t - drop_bit 7 t) AND 0x1d1d1d1d)) = shift_next 8 (lane 8 q v)"
proof -
  have q: "q = 0 \<or> q = 1 \<or> q = 2 \<or> q = 3" using assms(2) by linarith
  have m: "lane 8 q 0xfefefefe = push_bit 1 (mask 7)" "lane 8 q 0x1d1d1d1d = 0x1d" using q by (elim disjE; simp add: lane_def mask_numeral)+
  have sp: "lane 8 q (push_bit 1 t - drop_bit 7 t) = (if bit (lane 8 q v) 7 then 0xff else 0)"
    unfolding t_def spread_8 using q
    by (elim disjE; cases "bit v 7"; cases "bit v 15"; cases "bit v 23"; cases "bit v 31"; simp add: bit_lane; simp add: lane_def)
  have "prim_poly 8 = 0x11d" by code_simp
  then have "shift_next 8 (lane 8 q v) = take_bit 8 (push_bit 1 (lane 8 q v)) XOR (if bit (lane 8 q v) 7 then 0x1d else 0)"
    by (simp add: shift_next_eq take_bit_xor)
  then show ?thesis using lane_shift [of 8 q v] q unfolding lane_ops m sp by auto
qed

lemma double_16:
  fixes v :: cint
  defines "t \<equiv> v AND 0x80008000"
  assumes "q < 2"
  shows "lane 16 q ((push_bit 1 v AND 0xfffefffe) XOR ((push_bit 1 t - drop_bit 15 t) AND 0x100b100b)) = shift_next 16 (lane 16 q v)"
proof -
  have q: "q = 0 \<or> q = 1" using assms(2) by linarith
  have m: "lane 16 q 0xfffefffe = push_bit 1 (mask 15)" "lane 16 q 0x100b100b = 0x100b" using q by (elim disjE; simp add: lane_def mask_numeral)+
  have sp: "lane 16 q (push_bit 1 t - drop_bit 15 t) = (if bit (lane 16 q v) 15 then 0xffff else 0)"
    unfolding t_def spread_16 using q by (elim disjE; cases "bit v 15"; cases "bit v 31"; simp add: bit_lane; simp add: lane_def)
  have "prim_poly 16 = 0x1100b" by code_simp
  then have "shift_next 16 (lane 16 q v) = take_bit 16 (push_bit 1 (lane 16 q v)) XOR (if bit (lane 16 q v) 15 then 0x100b else 0)"
    by (simp add: shift_next_eq take_bit_xor)
  then show ?thesis using lane_shift [of 16 q v] q unfolding lane_ops m sp by auto
qed

section \<open>Doubling a region\<close>

lemma double_loop:
  assumes "code_width w s" "length r = 4 * c"
    and step: "\<And>v q. q < 4 div s \<Longrightarrow> lane w q (step v) = shift_next w (lane w q v)"
  shows "\<exists>t. cfor 0 c (\<lambda>i r. run_bind (load_elt 4 r i) (\<lambda>v. store_elt 4 r i (step v))) r = Inr t \<and> length t = 4 * c \<and>
    (\<forall>p < 4 div s * c. rd s t p = shift_next w (rd s r p))"
proof -
  have "\<exists>t. cfor 0 c (\<lambda>i r. run_bind (load_elt 4 r i) (\<lambda>v. store_elt 4 r i (step v))) r = Inr t \<and> elts_ok 4 c t (\<lambda>i. step (rd 4 r i))"
  proof (rule elt_loop)
    fix i t assume "i < c" "length t = 4 * c" "rd 4 t i = rd 4 r i"
    then show "run_bind (load_elt 4 t i) (\<lambda>v. store_elt 4 t i (step v)) = Inr (wr 4 t i (step (rd 4 r i))) \<and> gf_elem (8 * 4) (step (rd 4 r i))"
      using elt_bound [of i c 4] by (simp add: load_elt_def store_elt_def)
  qed (use assms in simp_all)
  then obtain t where t: "cfor 0 c (\<lambda>i r. run_bind (load_elt 4 r i) (\<lambda>v. store_elt 4 r i (step v))) r = Inr t"
    "length t = 4 * c" "\<And>i. i < c \<Longrightarrow> rd 4 t i = step (rd 4 r i)" by (auto simp: elts_ok_def)
  have "rd s t p = shift_next w (rd s r p)" if p: "p < 4 div s * c" for p
  proof -
    have d: "0 < 4 div s" using assms(1) by (auto simp: code_width_def)
    define i q where "i = p div (4 div s)" and "q = p mod (4 div s)"
    have "p = 4 div s * i + q" "q < 4 div s" "i < c" using d p by (simp_all add: i_def q_def less_mult_imp_div_less mult.commute)
    then show ?thesis using rd_lane [OF assms(1), of q] t(3) step by simp
  qed
  then show ?thesis using t(1,2) by blast
qed

lemma r6_double_ok:
  assumes w: "code_width w s" and s0: "r6_ok s0" and r: "length r = sz" "8 dvd sz" "sz = s * n"
  shows "\<exists>t s'. r6_double w r sz s0 = Inr (Some t, s') \<and> r6_ok s' \<and> length t = sz \<and> (\<forall>p < n. rd s t p = shift_next w (rd s r p))"
proof -
  obtain c where c: "sz = 4 * c" using r(2) dvd_trans [of 4 8 sz] by auto
  have n: "n = 4 div s * c" using w c r(3) by (auto simp: code_width_def)
  have rounds: "(sz + 3) div 4 = c" using c by simp
  have len: "length r = 4 * c" using r(1) c by simp
  consider "w = 8" "s = 1" | "w = 16" "s = 2" | "w = 32" "s = 4" using w by (auto simp: code_width_def)
  then show ?thesis
  proof cases
    case 1
    obtain s' where s': "w08_masks s0 = Inr s'" "r6_ok s'" "prim08 s' = 0x1d1d1d1d" "mask08_1 s' = 0xfefefefe" "mask08_2 s' = 0x80808080"
      using w08_masks_ok [OF s0] by blast
    obtain t where t: "cfor 0 c (\<lambda>i r. run_bind (load_elt 4 r i) (\<lambda>v. store_elt 4 r i
        ((push_bit 1 v AND 0xfefefefe) XOR ((push_bit 1 (v AND 0x80808080) - drop_bit 7 (v AND 0x80808080)) AND 0x1d1d1d1d)))) r = Inr t"
      "length t = 4 * c" "\<forall>p < 4 div s * c. rd s t p = shift_next w (rd s r p)"
      using double_loop [OF w len, of "\<lambda>v. (push_bit 1 v AND 0xfefefefe) XOR ((push_bit 1 (v AND 0x80808080) - drop_bit 7 (v AND 0x80808080)) AND 0x1d1d1d1d)"] double_8
      unfolding 1 by fastforce
    then have "reed_sol_galois_w08_region_multby_2 r sz s0 = Inr (t, s')"
      unfolding reed_sol_galois_w08_region_multby_2_def s' rounds Let_def run_bind_simps by simp
    then show ?thesis using 1 s'(2) t(2,3) n c by (simp add: r6_double_def)
  next
    case 2
    obtain s' where s': "w16_masks s0 = Inr s'" "r6_ok s'" "prim16 s' = 0x100b100b" "mask16_1 s' = 0xfffefffe" "mask16_2 s' = 0x80008000"
      using w16_masks_ok [OF s0] by blast
    obtain t where t: "cfor 0 c (\<lambda>i r. run_bind (load_elt 4 r i) (\<lambda>v. store_elt 4 r i
        ((push_bit 1 v AND 0xfffefffe) XOR ((push_bit 1 (v AND 0x80008000) - drop_bit 15 (v AND 0x80008000)) AND 0x100b100b)))) r = Inr t"
      "length t = 4 * c" "\<forall>p < 4 div s * c. rd s t p = shift_next w (rd s r p)"
      using double_loop [OF w len, of "\<lambda>v. (push_bit 1 v AND 0xfffefffe) XOR ((push_bit 1 (v AND 0x80008000) - drop_bit 15 (v AND 0x80008000)) AND 0x100b100b)"] double_16
      unfolding 2 by fastforce
    then have "reed_sol_galois_w16_region_multby_2 r sz s0 = Inr (t, s')"
      unfolding reed_sol_galois_w16_region_multby_2_def s' rounds Let_def run_bind_simps by simp
    then show ?thesis using 2 s'(2) t(2,3) n c by (simp add: r6_double_def)
  next
    case 3
    define s' where "s' = (if prim32 s0 = -1 then s0\<lparr>prim32 := gmul 32 (push_bit 31 1) 2\<rparr> else s0)"
    have s': "prim32 s' = 0x400007" "r6_ok s'" using s0 high_doubled(3) by (auto simp: s'_def r6_ok_def)
    obtain t where t: "cfor 0 c (\<lambda>i r. run_bind (load_elt 4 r i) (\<lambda>v. store_elt 4 r i
        (push_bit 1 v XOR (if v AND 0x80000000 \<noteq> 0 then 0x400007 else 0)))) r = Inr t"
      "length t = 4 * c" "\<forall>p < 4 div s * c. rd s t p = shift_next w (rd s r p)"
      using double_loop [OF w len, of "\<lambda>v. push_bit 1 v XOR (if v AND 0x80000000 \<noteq> 0 then 0x400007 else 0)"] double_32
      unfolding 3 by fastforce
    then have "reed_sol_galois_w32_region_multby_2 r sz s0 = Inr (t, s')"
      unfolding reed_sol_galois_w32_region_multby_2_def s'_def [symmetric] s' rounds Let_def run_bind_simps by simp
    then show ?thesis using 3 s'(2) t(2,3) n c by (simp add: r6_double_def)
  qed
qed

section \<open>The two passes\<close>

lemma r6_first_ok:
  assumes w: "code_width w s" and sz: "8 dvd sz" "sz = s * n" and ok: "coder_ok k 2 sz st" and k: "0 < k"
  shows "\<exists>st'. cfor 1 k (\<lambda>i st. run_bind (buf k st k) (\<lambda>p. run_bind (buf k st i) (\<lambda>d.
      run_bind (galois_region_xor p d p sz) (\<lambda>p. Inr (set_buf k k p st))))) (set_buf k k (dev k st 0) st) = Inr st' \<and>
    coder_ok k 2 sz st' \<and> (\<forall>j < k + 2. j \<noteq> k \<longrightarrow> dev k st' j = dev k st j) \<and>
    (\<forall>p < n. rd s (dev k st' k) p = xsum (\<lambda>j. rd s (dev k st j) p) {..<k})"
proof (rule cfor_total [where P = "\<lambda>i st'. coder_ok k 2 sz st' \<and> (\<forall>j < k + 2. j \<noteq> k \<longrightarrow> dev k st' j = dev k st j) \<and>
    (\<forall>p < n. rd s (dev k st' k) p = xsum (\<lambda>j. rd s (dev k st j) p) {..<i})"])
  fix i u assume i: "1 \<le> i" "i < k" and P: "coder_ok k 2 sz u \<and> (\<forall>j < k + 2. j \<noteq> k \<longrightarrow> dev k u j = dev k st j) \<and>
    (\<forall>p < n. rd s (dev k u k) p = xsum (\<lambda>j. rd s (dev k st j) p) {..<i})"
  obtain t where t: "galois_region_xor (dev k u k) (dev k u i) (dev k u k) sz = Inr t" "length t = sz"
      "\<forall>p < n. rd s t p = rd s (dev k u k) p XOR rd s (dev k u i) p"
    using region_xor_elements [OF code_width_simps(3) [OF w] coder_ok_dev coder_ok_dev coder_ok_dev sz, of k 2 u k k 2 u i k 2 u k] P i by auto
  have "{..<Suc i} = insert i {..<i}" by auto
  then have "coder_ok k 2 sz (set_buf k k t u) \<and> (\<forall>j < k + 2. j \<noteq> k \<longrightarrow> dev k (set_buf k k t u) j = dev k st j) \<and>
      (\<forall>p < n. rd s (dev k (set_buf k k t u) k) p = xsum (\<lambda>j. rd s (dev k st j) p) {..<Suc i})"
    using P t(2,3) i dev_set_buf [of k 2 sz u k _ t] coder_ok_set_buf [of k 2 sz u k t] by (auto simp: xor.commute)
  moreover have "buf k u k = Inr (dev k u k)" "buf k u i = Inr (dev k u i)" using buf_dev [of k 2 sz u] P i by simp_all
  ultimately show "\<exists>s'. run_bind (buf k u k) (\<lambda>p. run_bind (buf k u i) (\<lambda>d. run_bind (galois_region_xor p d p sz) (\<lambda>p. Inr (set_buf k k p u)))) = Inr s' \<and>
      coder_ok k 2 sz s' \<and> (\<forall>j < k + 2. j \<noteq> k \<longrightarrow> dev k s' j = dev k st j) \<and> (\<forall>p < n. rd s (dev k s' k) p = xsum (\<lambda>j. rd s (dev k st j) p) {..<Suc i})"
    using t(1) by simp
qed (use ok k dev_set_buf [OF ok, of k _ "dev k st 0"] coder_ok_set_buf [OF ok, of k "dev k st 0"] in \<open>auto simp: coder_ok_dev lessThan_Suc\<close>)

lemma r6_second_ok:
  assumes w: "code_width w s" and sz: "8 dvd sz" "sz = s * n"
    and d: "\<And>j p. j < k \<Longrightarrow> D j p = rd s (dev k st0 j) p"
  shows "r6_ok s0 \<Longrightarrow> coder_ok k 2 sz st \<Longrightarrow> i < k \<Longrightarrow> \<forall>j < k. dev k st j = dev k st0 j \<Longrightarrow>
    \<forall>p < n. rd s (dev k st (k + 1)) p = xsum (\<lambda>j. shift_pow w (j - i) (D j p)) {i..<k} \<Longrightarrow>
    \<exists>s' st'. r6_second k w sz i (s0, st) = Inr (1, s', st') \<and> r6_ok s' \<and> coder_ok k 2 sz st' \<and>
      (\<forall>j < k + 2. j \<noteq> k + 1 \<longrightarrow> dev k st' j = dev k st j) \<and>
      (\<forall>p < n. rd s (dev k st' (k + 1)) p = xsum (\<lambda>j. shift_pow w j (D j p)) {..<k})"
proof (induction i arbitrary: s0 st)
  case 0
  then show ?case by (intro exI [of _ s0] exI [of _ st]) (simp add: atLeast0LessThan)
next
  case (Suc i)
  note ws = code_width_simps [OF w]
  have w32: "1 \<le> w" "w \<le> 32" using ws by auto
  obtain q s1 where q: "r6_double w (dev k st (k + 1)) sz s0 = Inr (Some q, s1)" "r6_ok s1" "length q = sz"
      "\<forall>p < n. rd s q p = shift_next w (rd s (dev k st (k + 1)) p)"
    using r6_double_ok [OF w Suc.prems(1) _ sz(1) sz(2), of "dev k st (k + 1)"] Suc.prems(2) by (auto simp: coder_ok_dev)
  obtain t where t: "galois_region_xor q (dev k st i) q sz = Inr t" "length t = sz"
      "\<forall>p < n. rd s t p = rd s q p XOR rd s (dev k st i) p"
    using region_xor_elements [of s q sz "dev k st i" q n] ws(3) q(3) Suc.prems(2,3) sz by (auto simp: coder_ok_dev)
  define st1 where "st1 = set_buf k (k + 1) t st"
  have st1: "coder_ok k 2 sz st1" "\<And>j. j < k + 2 \<Longrightarrow> dev k st1 j = (if j = k + 1 then t else dev k st j)"
    using coder_ok_set_buf [OF Suc.prems(2), of "k + 1" t] dev_set_buf [OF Suc.prems(2), of "k + 1" _ t] t(2) by (simp_all add: st1_def)
  have e: "gf_elem w (D j p)" if "j < k" for j p using d [OF that] rd_elem [of s] ws(3,4) by simp
  have "rd s t p = xsum (\<lambda>j. shift_pow w (j - i) (D j p)) {i..<k}" if p: "p < n" for p
  proof -
    have "shift_next w (xsum (\<lambda>j. shift_pow w (j - Suc i) (D j p)) {Suc i..<k}) = shift_pow w 1 (xsum (\<lambda>j. shift_pow w (j - Suc i) (D j p)) {Suc i..<k})" by simp
    also have "\<dots> = xsum (\<lambda>j. shift_pow w 1 (shift_pow w (j - Suc i) (D j p))) {Suc i..<k}"
      by (rule shift_pow_xsum [OF w32]) (use e w32 in auto)
    also have "\<dots> = xsum (\<lambda>j. shift_pow w (j - i) (D j p)) {Suc i..<k}"
      by (rule xs.cong) (auto simp: Suc_diff_Suc simp flip: funpow.simps(2) [unfolded comp_def, THEN fun_cong] dest!: Suc_le_lessD)
    finally have "rd s q p = xsum (\<lambda>j. shift_pow w (j - i) (D j p)) {Suc i..<k}" using q(4) Suc.prems(5) p by simp
    moreover have "{i..<k} = insert i {Suc i..<k}" using Suc.prems(3) by auto
    moreover have "rd s (dev k st i) p = D i p" using d Suc.prems(3,4) by simp
    ultimately show ?thesis using t(3) p by (simp add: xor.commute)
  qed
  then obtain s' st' where R: "r6_second k w sz i (s1, st1) = Inr (1, s', st')" "r6_ok s'" "coder_ok k 2 sz st'"
      "\<forall>j < k + 2. j \<noteq> k + 1 \<longrightarrow> dev k st' j = dev k st1 j"
      "\<forall>p < n. rd s (dev k st' (k + 1)) p = xsum (\<lambda>j. shift_pow w j (D j p)) {..<k}"
    using Suc.IH [OF q(2) st1(1)] Suc.prems(3,4) st1(2) by auto
  have "buf k st (k + 1) = Inr (dev k st (k + 1))" "buf k st i = Inr (dev k st i)" using Suc.prems(2,3) by (auto intro: buf_dev)
  then have "r6_second k w sz (Suc i) (s0, st) = Inr (1, s', st')" using q(1) t(1) R(1) by (simp add: st1_def)
  then show ?case using R st1(2) by auto
qed

lemma gmul_shift_pow:
  assumes "gf_width w" "gf_elem w x"
  shows "gmul w (shift_pow w j 1) x = shift_pow w j x"
proof -
  have w: "1 \<le> w" "w \<le> 32" using assms(1) by simp_all
  then have "gf_mul w (shift_pow w j 1) x = gf_mul w x (shift_pow w j 1)" using assms(2) by (intro gf_mul_commute) simp_all
  then show ?thesis using w assms gf_mul_shift_pow [OF w, of 1 x j] by (simp add: gmul_eq gf_mul_1_right)
qed

lemma r6_coding_matrix:
  assumes w: "code_width w s" and k: "0 < k" and matrix: "reed_sol_r6_coding_matrix k w = Some matrix"
  shows "coding_matrix k 2 w matrix"
  unfolding coding_matrix_def
proof (intro conjI allI impI)
  have w32: "1 \<le> w" "w \<le> 32" using code_width_simps [OF w] by auto
  have m: "length matrix = k * 2" "\<forall>j < k. matrix ! j = 1 \<and> matrix ! (k + j) = shift_pow w j 1"
    using r6_matrix_entries [of w k] code_width_simps(5) [OF w] k matrix by auto
  show "length matrix = k * 2" by (rule m(1))
  show "gf_elem w (matrix ! i)" if "i < k * 2" for i
  proof (cases "i < k")
    case False
    then obtain j where "i = k + j" using le_Suc_ex by (metis not_less)
    then show ?thesis using that m(2) w32 by simp
  qed (use m(2) w32 in simp)
  show "\<exists>j < k. matrix ! (i * k + j) \<noteq> 0" if "i < 2" for i
  proof -
    have "matrix ! (i * k + 0) = 1" using that m(2) [rule_format, OF k] by (auto simp: less_2_cases_iff)
    then show ?thesis using k by (intro exI [of _ 0]) simp
  qed
qed

text \<open>Encoding with the two passes is encoding with the RAID-6 matrix.\<close>

lemma r6_encode_equivalent:
  assumes w: "code_width w s" and sz: "8 dvd sz" "sz = s * n" and ok: "coder_ok k 2 sz st" and k: "0 < k" and s0: "r6_ok s0"
    and matrix: "reed_sol_r6_coding_matrix k w = Some matrix"
  shows "\<exists>s' st1 st2. reed_sol_r6_encode k w sz (s0, st) = Inr (1, s', st1) \<and> r6_ok s' \<and> coder_ok k 2 sz st1 \<and>
    jerasure_matrix_encode k 2 w matrix sz st = Inr st2 \<and> (\<forall>i < k + 2. dev k st1 i = dev k st2 i)"
proof -
  note ws = code_width_simps [OF w]
  have w32: "1 \<le> w" "w \<le> 32" using ws by auto
  have m: "length matrix = k * 2" "\<forall>j < k. matrix ! j = 1 \<and> matrix ! (k + j) = shift_pow w j 1"
    using r6_matrix_entries [of w k] ws(5) k matrix by auto
  define D where "D = (\<lambda>j p. rd s (dev k st j) p)"
  have e: "gf_elem w (D j p)" for j p using rd_elem [of s] ws(3,4) by (simp add: D_def)
  obtain u where u: "cfor 1 k (\<lambda>i st. run_bind (buf k st k) (\<lambda>p. run_bind (buf k st i) (\<lambda>d.
      run_bind (galois_region_xor p d p sz) (\<lambda>p. Inr (set_buf k k p st))))) (set_buf k k (dev k st 0) st) = Inr u"
    "coder_ok k 2 sz u" "\<forall>j < k + 2. j \<noteq> k \<longrightarrow> dev k u j = dev k st j" "\<forall>p < n. rd s (dev k u k) p = xsum (\<lambda>j. D j p) {..<k}"
    using r6_first_ok [OF w sz ok k] unfolding D_def by blast
  define v where "v = set_buf k (k + 1) (dev k u (k - 1)) u"
  have v: "coder_ok k 2 sz v" "\<And>j. j < k + 2 \<Longrightarrow> dev k v j = (if j = k + 1 then dev k u (k - 1) else dev k u j)"
    using coder_ok_set_buf [OF u(2), of "k + 1"] dev_set_buf [OF u(2), of "k + 1"] coder_ok_dev [OF u(2), of "k - 1"] by (simp_all add: v_def)
  have "{k - 1..<k} = {k - 1}" using k by auto
  then have "\<forall>p < n. rd s (dev k v (k + 1)) p = xsum (\<lambda>j. shift_pow w (j - (k - 1)) (D j p)) {k - 1..<k}"
    using v(2) u(3) k by (simp add: D_def)
  then obtain s' st1 where r: "r6_second k w sz (k - 1) (s0, v) = Inr (1, s', st1)" "r6_ok s'" "coder_ok k 2 sz st1"
      "\<forall>j < k + 2. j \<noteq> k + 1 \<longrightarrow> dev k st1 j = dev k v j" "\<forall>p < n. rd s (dev k st1 (k + 1)) p = xsum (\<lambda>j. shift_pow w j (D j p)) {..<k}"
    using r6_second_ok [OF w sz, of k D st s0 v "k - 1"] s0 v u(3) k by (auto simp: D_def)
  have enc: "reed_sol_r6_encode k w sz (s0, st) = Inr (1, s', st1)"
  proof -
    have b: "buf k st k = Inr (dev k st k)" "buf k st 0 = Inr (dev k st 0)" "buf k u (k + 1) = Inr (dev k u (k + 1))" "buf k u (k - 1) = Inr (dev k u (k - 1))"
      by (rule buf_dev [OF ok] buf_dev [OF u(2)]; simp)+
    have c: "memcpy (dev k st k) (dev k st 0) sz = Inr (dev k st 0)" "memcpy (dev k u (k + 1)) (dev k u (k - 1)) sz = Inr (dev k u (k - 1))"
      using coder_ok_dev [OF ok] coder_ok_dev [OF u(2)] by (simp_all add: memcpy_def)
    show ?thesis using k r(1) by (simp only: reed_sol_r6_encode_def prod.case b c run_bind_simps u(1) flip: v_def) simp
  qed
  from matrix_encode_ok [OF w sz ok r6_coding_matrix [OF w k matrix]] obtain st2 where st2: "jerasure_matrix_encode k 2 w matrix sz st = Inr st2" "coder_ok k 2 sz st2"
      "\<forall>j < k. dev k st2 j = dev k st j"
      "\<forall>i < 2. \<forall>p < n. rd s (dev k st2 (k + i)) p = xsum (\<lambda>j. gmul w (matrix ! (i * k + j)) (D j p)) {..<k}"
    unfolding D_def by blast
  have rows: "rd s (dev k st2 k) p = xsum (\<lambda>j. gmul w (matrix ! j) (D j p)) {..<k}"
    "rd s (dev k st2 (k + 1)) p = xsum (\<lambda>j. gmul w (matrix ! (k + j)) (D j p)) {..<k}" if "p < n" for p
    using that st2(4) [rule_format, of 0 p] st2(4) [rule_format, of 1 p] by simp_all
  have len: "length (dev k st1 i) = s * n" "length (dev k st2 i) = s * n" if "i < k + 2" for i
    using that coder_ok_dev [OF r(3)] coder_ok_dev [OF st2(2)] sz(2) by simp_all
  have "dev k st1 i = dev k st2 i" if i: "i < k + 2" for i
  proof -
    consider "i < k" | "i = k" | "i = k + 1" using i by linarith
    then show ?thesis
    proof cases
      case 1
      then show ?thesis using r(4) v(2) u(3) st2(3) by simp
    next
      case 2
      have "xsum (\<lambda>j. gmul w (matrix ! j) (D j p)) {..<k} = xsum (\<lambda>j. D j p) {..<k}" for p
        by (rule xs.cong) (use m e ws w32 in \<open>auto simp: gmul_eq gf_mul_1_left\<close>)
      then have "rd s (dev k st1 k) p = rd s (dev k st2 k) p" if "p < n" for p using that rows r(4) v(2) u(4) by simp
      then show ?thesis unfolding 2 using len ws(2,3) by (intro rd_ext [of s _ n]) simp_all
    next
      case 3
      have "gmul w (shift_pow w j 1) (D j p) = shift_pow w j (D j p)" for j p by (rule gmul_shift_pow [OF ws(1) e])
      then have "xsum (\<lambda>j. gmul w (matrix ! (k + j)) (D j p)) {..<k} = xsum (\<lambda>j. shift_pow w j (D j p)) {..<k}" for p
        by (intro xs.cong) (use m in auto)
      then have "rd s (dev k st1 (k + 1)) p = rd s (dev k st2 (k + 1)) p" if "p < n" for p using that rows r(5) by simp
      then show ?thesis unfolding 3 using len ws(2,3) by (intro rd_ext [of s _ n]) simp_all
    qed
  qed
  then show ?thesis using enc r(2,3) st2(1) by blast
qed

end
