(* ===== verification/Spec2Isabelle.thy ===== *)
theory Spec2Isabelle
  imports Lrc_Example Light_V0 Raid6_Encode
begin

text \<open>
  A store of values under locally repairable codes: a client library (libmemcached, changed), the erasure coding library
  it calls (Jerasure 1.2A) and the server that the repository ships (\<^verbatim>\<open>memcached_light\<close> on \<^verbatim>\<open>libmemcachedprotocol\<close>).
  Paths are below \<^verbatim>\<open>src/libmemcached-1.0.18\<close>.

  \<^bold>\<open>The program.\<close>  \<^verbatim>\<open>memcached_set\<close> (\<^verbatim>\<open>libmemcached/storage.cc\<close>) cuts a value into \<open>k\<close> data blocks, computes the global parity
  blocks with a Vandermonde matrix and one local parity block per group of \<open>r\<close> blocks, reads on first use the file that
  assigns servers and nodes to racks, gives every node a server of its rack, and sends block \<open>i\<close> under the key of the
  value with the two digits of \<open>i\<close> to the server of node \<open>i\<close>.  \<^verbatim>\<open>memcached_get\<close> (\<^verbatim>\<open>libmemcached/get.cc\<close>) asks for all data
  blocks, restores a lost one from its group and joins the value; \<^verbatim>\<open>memcached_repair\<close> restores the block of a node;
  \<^verbatim>\<open>memcached_delete_by_key_lrc\<close> (\<^verbatim>\<open>libmemcached/delete.cc\<close>) drops a block.  A server reads packets of the binary
  protocol from its connections (\<^verbatim>\<open>libmemcachedprotocol/handler.c\<close>, \<^verbatim>\<open>binary_handler.c\<close>), calls the handlers of
  \<^verbatim>\<open>example/interface_v0.cc\<close> or \<^verbatim>\<open>example/interface_v1.cc\<close> and these the ring of items of \<^verbatim>\<open>example/storage.cc\<close>.

  \<^bold>\<open>Theories.\<close>
  \<^item> \<open>C_Prelude\<close>: faults (\<^verbatim>\<open>exit\<close>, undefined behaviour, endless loops) as values of a sum, sequencing, counted loops, big
    exclusive or, collections of facts.
  \<^item> Fields: \<open>Galois_Shift\<close> and \<open>Galois_Field\<close> (multiplication by shifting, the order of the polynomial by certificates),
    \<open>Galois_Tables\<close> (the definitions of \<^verbatim>\<open>Jerasure-1.2A/galois.c\<close>: log tables, product tables, split tables, all in a
    record of global pointers with the outcomes of \<^verbatim>\<open>malloc\<close>), \<open>Galois_Correct\<close> and \<open>Galois_State\<close> (every table is right
    in every reachable state), \<open>Galois_Regions\<close>, \<open>Regions_Correct\<close> (products of whole regions of bytes).  The locale
    \<open>xor_field\<close> is the interface of the matrix theories, interpreted for every width through \<open>galois_width\<close> and for bits.
  \<^item> Matrices: \<open>Gauss\<close>, \<open>Mds\<close>, \<open>Mds_Cauchy\<close> (elimination; matrices that survive every loss), \<open>Jerasure_Matrix\<close>,
    \<open>Jerasure_Inverse\<close> (\<^verbatim>\<open>jerasure.c\<close>: inversion, decoding matrices), \<open>Reed_Sol\<close>, \<open>Reed_Sol_Correct\<close> (\<^verbatim>\<open>reed_sol.c\<close>), \<open>Cauchy\<close>,
    \<open>Cauchy_Tables\<close>, \<open>Cauchy_Correct\<close> (\<^verbatim>\<open>cauchy_best_r6.c\<close>), \<open>Bitmatrix_Make\<close> (from elements to bits).
  \<^item> Coding: \<open>Jerasure_Codec\<close>, \<open>Codec_Correct\<close> (encoding and decoding of devices of bytes), \<open>Jerasure_Schedule\<close>,
    \<open>Schedule_Correct\<close>, \<open>Bitmatrix_Correct\<close>, \<open>Bitmatrix_Decode\<close> (bit matrices and schedules of packets),
    \<open>Schedule_Plan\<close>, \<open>Schedule_Rows\<close>, \<open>Schedule_Decode\<close> (schedules that decode, and their cache), \<open>Raid6_Encode\<close> (doubling of
    regions with masks), \<open>Round_Trip\<close> (the locale \<open>code_maker\<close> and its interpretations for the codes).
  \<^item> Client: \<open>Lrc_Blocks\<close>, \<open>Lrc_Blocks_Correct\<close> (a value and its blocks), \<open>Lrc_Client\<close> (definitions of the operations of the
    client, of the rack file and of the placement), \<open>Lrc_Store\<close>, \<open>Lrc_Read\<close>, \<open>Lrc_Placement\<close>, \<open>Lrc_Session\<close> (store, read and
    repair, placement, sessions of requests with losses in between), \<open>Lrc_Limits\<close> (inputs on which the code fails),
    \<open>Lrc_Example\<close> (a concrete cluster).  The servers are a \<open>service\<close>, its laws the locale \<open>kv_service\<close>; \<open>Light_Service\<close>
    interprets it with \<^verbatim>\<open>memcached_light\<close>.
  \<^item> Server: \<open>Light_Storage\<close>, \<open>Light_Storage_Correct\<close> (ring of items in a heap, handlers of version 1), \<open>Light_Cache\<close> (the
    abstract cache: a map and the last cas number), \<open>Light_Service\<close>.
  \<^item> Protocol: \<open>Protocol_Packet\<close> (headers as bytes, \<^verbatim>\<open>pedantic.c\<close>), \<open>Protocol_Output\<close> (connections, the queue of output),
    \<open>Protocol_Binary\<close> (\<^verbatim>\<open>binary_handler.c\<close> and the loops of \<^verbatim>\<open>handler.c\<close>), \<open>Protocol_Correct\<close>, \<open>Protocol_Stream\<close>, \<open>Protocol_V1\<close>
    (a stream of requests is a sequence of steps of the cache; the locales \<open>packet_server\<close> and \<open>v1_application\<close>),
    \<open>Light_Interface\<close> (handlers of version 0, tables of both versions), \<open>Light_V0\<close>.

  \<^bold>\<open>State and correspondence.\<close>  Definitions have the names of the C functions where HOL allows it; a loop or a branch with
  a definition of its own is named after what it does.  Global variables are fields of records (\<open>galois\<close>, \<open>r6\<close>, \<open>cauchy\<close>,
  \<open>storage\<close>), structures are records (\<open>memcached\<close>, \<open>list_entry\<close>, \<open>connection\<close>, \<open>chunk\<close>), an \<^verbatim>\<open>int\<close> that holds field elements
  or whose overflow matters is a word, buffers are lists of bytes, pointers into buffers are indices, pointers to list
  entries are addresses of a heap.  What the environment decides (allocations, results of \<^verbatim>\<open>send\<close> and \<^verbatim>\<open>recv\<close>, contents of
  fresh memory) is part of the state or an argument, so theorems hold for all of it.

  \<^bold>\<open>What is shown.\<close>  Products, quotients, regions and inverses are those of the field; encoding, loss of at most \<open>m\<close> devices
  and decoding give back all devices for the Vandermonde code on elements and the Cauchy codes on packets of bits, with the
  decoding matrix, with a decoding schedule and with the cache of schedules; schedules compute their bit matrix; RAID-6 encoding by doubling equals encoding with its matrix.  A value is
  stored, read, repaired and deleted as the abstract store says, along every session of permitted requests with losses,
  with servers that obey the protocol and with \<^verbatim>\<open>memcached_light\<close> in particular.  The handlers of \<^verbatim>\<open>memcached_light\<close> refine the
  abstract cache, in both versions of the interface also behind the protocol, byte by byte: requests are executed in
  their order and answered in that order.  The error properties name inputs where the code leaves defined behaviour.

  \<^bold>\<open>Bounds and fuel.\<close>  Recursion is structural or has a measure, except for four loops with fuel: \<open>smear\<close> (32 doublings of
  a mask of 32 bits), \<open>smart_rows\<close> and \<open>smart_scan\<close> (one step per row of the bit matrix, \<open>m * w\<close>), \<open>walk\<close> and \<open>free_all\<close> (one
  step per allocated entry, \<^verbatim>\<open>brk\<close>); running out of fuel is the fault \<open>Hang\<close> or a visibly wrong result, and the
  correctness theorems show that it does not happen.  \<open>gmul\<close> and \<open>gdiv\<close> evaluate \<^verbatim>\<open>galois_single_multiply\<close> and
  \<^verbatim>\<open>galois_single_divide\<close> from the initial state of the tables.  Keys are texts without a zero byte, not empty and short
  enough for the two digits; the theorems on the protocol are about answers that fit into one chunk of output, because
  longer ones are garbled (\<open>spool_output_long\<close>).  Malformed packets that make a handler read outside the input buffer are
  undefined behaviour.

  \<^bold>\<open>Not modelled.\<close>  Failing allocations of temporary buffers in \<^verbatim>\<open>jerasure.c\<close> and the release of memory there; functions that
  only print; \<^verbatim>\<open>liberation.c\<close>; the text protocol (\<^verbatim>\<open>ascii_handler.c\<close>), which is a parameter of \<open>determine_protocol\<close>; the buffer
  cache (\<^verbatim>\<open>cache.c\<close>); sockets, options and the event loop of \<^verbatim>\<open>memcached_light.cc\<close>; in the client the buffering of
  requests, the text and UDP protocols, encryption, triggers on delete, tests of keys, replicas in a multi-get, hosts and
  hashing; the configuration parser, the command line clients and the tests; the second copy of Jerasure under
  \<^verbatim>\<open>src/test_jerasure\<close>.
\<close>

unbundle bit_operations_syntax

section \<open>Galois arithmetic\<close>

text \<open>
  C18.  From any valid table state, \<^verbatim>\<open>galois_single_multiply\<close> of two elements of width \<open>w\<close> returns their
  product in the field, whichever of the four implementations the width selects; it keeps the tables
  valid, and it exits only when an allocation fails.
\<close>

theorem galois_single_multiply_correct:
  assumes "galois_ok st" "1 \<le> w" "w \<le> 32" "gf_elem w x" "gf_elem w y"
  shows "computes st (\<lambda>z. z = gf_mul w x y) (galois_single_multiply x y w st)"
  using assms by (rule single_multiply_ok)

theorem galois_single_multiply_correct_witness:
  "galois_ok galois_init \<and> gf_elem 8 87 \<and> gf_elem 8 131 \<and>
   computes galois_init (\<lambda>z. z = 49) (galois_single_multiply 87 131 8 galois_init)"
proof -
  have e: "gf_elem 8 87" "gf_elem 8 131" and m: "gf_mul 8 87 131 = 49" by code_simp+
  show ?thesis using galois_single_multiply_correct [OF galois_ok_init _ _ e] galois_ok_init e m by simp
qed

text \<open>
  C19.  For every width but 31, \<^verbatim>\<open>galois_single_divide\<close> returns the element whose product with the
  divisor is the dividend, by whichever implementation the width selects, and -1 for the divisor zero;
  the tables stay valid and the program exits only when an allocation fails.
\<close>

theorem galois_single_divide_correct:
  assumes "galois_ok st" "gf_width w" "gf_elem w x" "gf_elem w y"
  shows "computes st (\<lambda>z. if y = 0 then z = -1 else gf_elem w z \<and> gf_mul w y z = x) (galois_single_divide x y w st)"
  by (rule computes_mono [OF single_divide_ok [OF assms]]) (simp add: gf_quotient_def split: if_splits)

theorem galois_single_divide_correct_witness:
  "gf_elem 32 7 \<and> gf_elem 32 5 \<and>
   computes galois_init (\<lambda>z. gf_elem 32 z \<and> gf_mul 32 5 z = 7) (galois_single_divide 7 5 32 galois_init)"
proof -
  have e: "gf_elem 32 7" "gf_elem 32 5" by code_simp+
  have w: "gf_width 32" unfolding gf_width_def by auto
  show ?thesis using galois_single_divide_correct [OF galois_ok_init w e] e by simp
qed

text \<open>
  C35.  When the second allocation of \<^verbatim>\<open>galois_create_split_w8_tables\<close> fails, the first table has been
  freed but its pointer stays set: the next call reports success without building anything, and every
  product of nonzero elements of width 32 then reads freed memory.
\<close>

theorem galois_create_split_w8_tables_dangling:
  assumes "galois_split_w8 st 0 = NULL" "galois_mult_tables st 8 \<noteq> NULL" "mallocs st = True # False # oks"
  shows "\<exists>st'. galois_create_split_w8_tables st = Inr (-1, st') \<and>
    galois_create_split_w8_tables st' = Inr (0, st') \<and>
    (\<forall>x y. x \<noteq> 0 \<longrightarrow> y \<noteq> 0 \<longrightarrow> galois_single_multiply x y 32 st' = Inl Undefined)"
  using assms by (rule split_w8_dangling)

theorem galois_create_split_w8_tables_dangling_witness:
  "\<exists>st st'. galois_create_split_w8_tables st = Inr (-1, st') \<and> galois_create_split_w8_tables st' = Inr (0, st') \<and>
    galois_single_multiply 3 5 32 st' = Inl Undefined"
proof -
  let ?st = "galois_init\<lparr>galois_mult_tables := \<lambda>_. Table 0 [], mallocs := [True, False]\<rparr>"
  have "galois_split_w8 ?st 0 = NULL" "galois_mult_tables ?st 8 \<noteq> NULL" "mallocs ?st = [True, False]"
    by (simp_all add: galois_init_def)
  then obtain st' where "galois_create_split_w8_tables ?st = Inr (-1, st')" "galois_create_split_w8_tables st' = Inr (0, st')"
    "galois_single_multiply 3 5 32 st' = Inl Undefined"
    using galois_create_split_w8_tables_dangling [of ?st "[]"] by auto
  then show ?thesis by blast
qed

text \<open>
  C36.  The region products, for elements of 8, 16 and 32 bits: every element of the first region is multiplied by the
  factor, and the products are stored into the second region or added to it.
\<close>

theorem galois_region_multiply_correct:
  assumes "galois_ok st" "length r1 = 8 * n" "length r2 = 8 * n" "gf_elem 8 m8" "gf_elem 16 m16"
  shows "computes st (\<lambda>out. length out = 8 * n \<and>
      (\<forall>i < 8 * n. rd 1 out i = (if add then rd 1 r2 i else 0) XOR gf_mul 8 m8 (rd 1 r1 i)))
      (galois_w08_region_multiply r1 m8 (8 * n) (Some r2) add st) \<and>
    computes st (\<lambda>out. length out = 8 * n \<and>
      (\<forall>i < 4 * n. rd 2 out i = (if add then rd 2 r2 i else 0) XOR gf_mul 16 m16 (rd 2 r1 i)))
      (galois_w16_region_multiply r1 m16 (8 * n) (Some r2) add st) \<and>
    computes st (\<lambda>out. length out = 8 * n \<and>
      (\<forall>i < 2 * n. rd 4 out i = (if add then rd 4 r2 i else 0) XOR gf_mul 32 m32 (rd 4 r1 i)))
      (galois_w32_region_multiply r1 m32 (8 * n) (Some r2) add st)"
  using w08_region_multiply_ok [OF assms(1,4,2,3), of add] w16_region_multiply_ok [OF assms(1,5,2,3), of add]
    w32_region_multiply_ok [OF assms(1), of r1 "2 * n" r2 m32 add] assms(2,3)
  by (simp add: elts_ok_def region_result_def cong: if_cong split del: if_split)

theorem galois_region_multiply_correct_witness:
  "computes galois_init (\<lambda>out. length out = 8 \<and>
      (\<forall>i < 4. rd 2 out i = rd 2 (replicate 8 1) i XOR gf_mul 16 3 (rd 2 (replicate 8 7) i)))
    (galois_w16_region_multiply (replicate 8 7) 3 8 (Some (replicate 8 1)) True galois_init)"
proof -
  have "gf_elem 8 3" "gf_elem 16 3" by code_simp+
  then show ?thesis
    using galois_region_multiply_correct [OF galois_ok_init, of "replicate 8 7" 1 "replicate 8 1" 3 3 True] by simp
qed

section \<open>Matrices\<close>

text \<open>
  C17.  \<^verbatim>\<open>jerasure_invert_matrix\<close> returns 0 with a left inverse exactly when the matrix over the field is
  invertible, and -1 otherwise.
\<close>

theorem jerasure_invert_matrix_correct:
  assumes "gf_width w" "length mat = n * n" "length iv = n * n" "\<forall>r < n. \<forall>c < n. gf_elem w (ent n mat r c)"
  shows "case jerasure_invert_matrix mat iv n w of (rc, mat', iv') \<Rightarrow>
    if gf_invertible w n (ent n mat) then rc = 0 \<and> length iv' = n * n \<and> gf_left_inverse w n (ent n iv') (ent n mat) else rc = -1"
  using galois_width.invert_matrix_correct [OF galois_width.intro [OF assms(1)] assms(2,3)] assms(1,4)
  by (simp add: xor_field.elems_def [OF gf_field])

theorem jerasure_invert_matrix_correct_witness:
  "case jerasure_invert_matrix [1, 1, 1, 2] (replicate 4 0) 2 8 of (rc, mat', iv') \<Rightarrow>
    if gf_invertible 8 2 (ent 2 [1, 1, 1, 2]) then rc = 0 \<and> length iv' = 2 * 2 \<and> gf_left_inverse 8 2 (ent 2 iv') (ent 2 [1, 1, 1, 2]) else rc = -1"
proof -
  have w: "gf_width 8" unfolding gf_width_def by auto
  have "gf_elem 8 1" "gf_elem 8 2" by code_simp+
  then have "\<forall>r < 2. \<forall>c < 2. gf_elem 8 (ent 2 [1, 1, 1, 2] r c)" by (auto simp: less_2_cases_iff ent_def)
  then show ?thesis by (rule jerasure_invert_matrix_correct [OF w, rotated 2]) simp_all
qed

text \<open>
  C31.  \<^verbatim>\<open>jerasure_invert_bitmatrix\<close> returns 0 with a left inverse exactly when the matrix of bits is
  invertible, and -1 otherwise.
\<close>

theorem jerasure_invert_bitmatrix_correct:
  assumes "length mat = n * n" "length iv = n * n" "\<forall>r < n. \<forall>c < n. is_bit (ent n mat r c)"
  shows "case jerasure_invert_bitmatrix mat iv n of (rc, mat', iv') \<Rightarrow>
    if gf2.invertible n (ent n mat) then rc = 0 \<and> length iv' = n * n \<and> gf2.left_inverse n (ent n iv') (ent n mat) else rc = -1"
  by (rule invert_bitmatrix_correct [OF assms(1,2)]) (simp add: gf2.elems_def assms(3))

theorem jerasure_invert_bitmatrix_correct_witness:
  "case jerasure_invert_bitmatrix [1, 1, 0, 1] (replicate 4 0) 2 of (rc, mat', iv') \<Rightarrow>
    if gf2.invertible 2 (ent 2 [1, 1, 0, 1]) then rc = 0 \<and> length iv' = 2 * 2 \<and> gf2.left_inverse 2 (ent 2 iv') (ent 2 [1, 1, 0, 1]) else rc = -1"
proof -
  have "\<forall>r < 2. \<forall>c < 2. is_bit (ent 2 [1, 1, 0, 1] r c)" by (auto simp: less_2_cases_iff ent_def is_bit_def)
  then show ?thesis by (rule jerasure_invert_bitmatrix_correct [rotated 2]) simp_all
qed

section \<open>Matrix coding\<close>

text \<open>
  C15.  \<^verbatim>\<open>jerasure_matrix_encode\<close> leaves the data devices alone and puts into every coding device, element
  by element, the product of its row of the matrix and the data.
\<close>

theorem jerasure_matrix_encode_correct:
  assumes "code_width w s" "8 dvd s * n" "coder_ok k m (s * n) st" "coding_matrix k m w matrix"
  shows "\<exists>st'. jerasure_matrix_encode k m w matrix (s * n) st = Inr st' \<and> coder_ok k m (s * n) st' \<and>
    (\<forall>j < k. dev k st' j = dev k st j) \<and>
    (\<forall>i < m. \<forall>p < n. rd s (dev k st' (k + i)) p = xsum (\<lambda>j. gmul w (matrix ! (i * k + j)) (rd s (dev k st j) p)) {..<k})"
  using matrix_encode_ok [OF assms(1,2) refl assms(3,4)] .

theorem jerasure_matrix_encode_correct_witness:
  "\<exists>st'. jerasure_matrix_encode 2 1 8 [1, 2] 8 (fresh_coder [replicate 8 1, replicate 8 7] [replicate 8 0]) = Inr st' \<and>
    rd 1 (dev 2 st' 2) 3 = xsum (\<lambda>j. gmul 8 ([1, 2] ! j) (rd 1 ([replicate 8 1, replicate 8 7] ! j) 3)) {..<2}"
proof -
  let ?st = "fresh_coder [replicate 8 1, replicate 8 7] [replicate 8 0]"
  have "gf_elem 8 1" "gf_elem 8 2" by code_simp+
  then have m: "coding_matrix 2 1 8 [1, 2]" by (auto simp: coding_matrix_def less_2_cases_iff)
  have w: "code_width 8 1" by (simp add: code_width_def)
  have c: "coder_ok 2 1 8 ?st" using coder_ok_fresh [of "[replicate 8 1, replicate 8 7]" "[replicate 8 0]" 8] by (simp add: numeral_2_eq_2)
  obtain st' where st': "jerasure_matrix_encode 2 1 8 [1, 2] 8 ?st = Inr st'"
    "\<forall>p < 8. rd 1 (dev 2 st' 2) p = xsum (\<lambda>j. gmul 8 ([1, 2] ! j) (rd 1 (dev 2 ?st j) p)) {..<2}"
    using jerasure_matrix_encode_correct [OF w _ _ m, of 8 ?st] c by auto
  have "dev 2 ?st j = [replicate 8 1, replicate 8 7] ! j" if "j < 2" for j using that by (simp add: dev_def fresh_coder_def)
  then have "rd 1 (dev 2 st' 2) 3 = xsum (\<lambda>j. gmul 8 ([1, 2] ! j) (rd 1 ([replicate 8 1, replicate 8 7] ! j) 3)) {..<2}"
    using st'(2) by (simp cong: xs.cong_simp)
  then show ?thesis using st'(1) by blast
qed

text \<open>
  C10.  \<^verbatim>\<open>jerasure_matrix_decode\<close>: when at most \<open>m\<close> devices are lost and the rows of the surviving devices
  that it may choose are invertible, it returns 0 and every device holds its codeword again, whatever the
  buffers of the lost devices held; with \<^verbatim>\<open>row_k_ones\<close> the first row of the matrix must be ones.
\<close>

theorem jerasure_matrix_decode_correct:
  assumes "code_width w s" "8 dvd s * n" "coding_matrix k m w matrix" "codeword k m w s n matrix D" "valid_erasures k m es"
    "row_k_ones \<Longrightarrow> 0 < m \<and> (\<forall>j < k. matrix ! j = 1)" "coder_ok k m (s * n) st"
    "\<And>i. i < k + m \<Longrightarrow> i \<notin> erased_set es \<Longrightarrow> dev k st i = D i" "card (erased_set es) \<le> m" "mds_matrix k m w matrix"
  shows "\<exists>st'. jerasure_matrix_decode k m w matrix row_k_ones (es @ [-1]) (s * n) st = Inr (0, st') \<and>
    coder_ok k m (s * n) st' \<and> (\<forall>i < k + m. dev k st' i = D i)"
  by (rule matrix_decode_ok [OF assms(1-9)]) (use assms(10) in \<open>auto simp: mds_matrix_def\<close>)

theorem jerasure_matrix_decode_correct_witness:
  "\<exists>st'. jerasure_matrix_decode 2 1 8 [1, 1] True [0, -1] 8 (fresh_coder [replicate 8 0, replicate 8 7] [replicate 8 6]) = Inr (0, st') \<and>
    dev 2 st' 0 = replicate 8 1"
proof -
  let ?st = "fresh_coder [replicate 8 0, replicate 8 7] [replicate 8 6]" and ?D = "(!) [replicate 8 (1 :: byte), replicate 8 7, replicate 8 6]"
  have w: "code_width 8 1" by (simp add: code_width_def)
  obtain matrix where M: "reed_sol_vandermonde_coding_matrix 2 1 8 = Inr (Some matrix)" "coding_matrix 2 1 8 matrix"
      "mds_matrix 2 1 8 matrix" "\<forall>j < 2. matrix ! j = 1"
    using vandermonde_coding_ok [OF code_width_simps(1) [OF w], of 2 1] by auto
  have "length matrix = 2" using M(2) by (simp add: coding_matrix_def)
  then have m: "matrix = [1, 1]" using M(4) by (intro nth_equalityI) (auto simp: less_2_cases_iff)
  have one: "gmul 8 1 x = x" if "gf_elem 8 x" for x
    using that gmul_eq [of 8 1 x] gf_mul_1_left [of 8 x] by simp
  have r: "rd 1 (replicate 8 a) p = ucast a" if "p < 8" for a :: byte and p using that by (simp add: rd_def)
  have "gf_elem 8 1" "gf_elem 8 7" by code_simp+
  then have one: "gmul 8 1 1 = 1" "gmul 8 1 7 = 7" using one by blast+
  have two: "xsum f {..<2} = f 0 XOR f 1" for f :: "nat \<Rightarrow> cint" by (simp add: numeral_2_eq_2 lessThan_Suc xor.commute)
  have sum: "xsum (\<lambda>j. gmul 8 (matrix ! j) (rd 1 (?D j) p)) {..<2} = 6" if "p < 8" for p
    unfolding two m using one r [OF that] by simp
  have D: "codeword 2 1 8 1 8 matrix ?D" unfolding codeword_def
  proof (intro conjI allI impI)
    show "length (?D i) = 1 * 8" if "i < 2 + 1" for i using that by (auto simp: less_Suc_eq numeral_3_eq_3)
    show "rd 1 (?D (2 + i)) p = xsum (\<lambda>j. gmul 8 (matrix ! (i * 2 + j)) (rd 1 (?D j) p)) {..<2}" if "i < 1" "p < 8" for i p
      using that sum [OF that(2)] r [OF that(2), of 6] by simp
  qed
  have c: "coder_ok 2 1 8 ?st" using coder_ok_fresh [of "[replicate 8 0, replicate 8 7]" "[replicate 8 6]" 8] by (simp add: numeral_2_eq_2)
  have st: "dev 2 ?st i = ?D i" if "i < 3" "i \<notin> erased_set [0]" for i
    using that by (auto simp: dev_def fresh_coder_def erased_set_def less_Suc_eq numeral_3_eq_3)
  have "\<exists>st'. jerasure_matrix_decode 2 1 8 matrix True ([0] @ [-1]) (1 * 8) ?st = Inr (0, st') \<and>
      coder_ok 2 1 (1 * 8) st' \<and> (\<forall>i < 2 + 1. dev 2 st' i = ?D i)"
    by (rule jerasure_matrix_decode_correct [OF w _ M(2) _ _ _ _ _ _ M(3)])
      (use D c st M(4) in \<open>auto simp: valid_erasures_def erased_set_def\<close>)
  then show ?thesis using m by auto
qed

text \<open>
  C11.  The round trip of the Reed-Solomon code: encoding with the matrix of
  \<^verbatim>\<open>reed_sol_vandermonde_coding_matrix\<close> keeps the data; after the loss of any at most \<open>m\<close> devices,
  whatever their buffers then hold, decoding with \<^verbatim>\<open>row_k_ones\<close> set returns 0 and every device is as it
  was encoded.
\<close>

theorem vandermonde_round_trip:
  assumes "code_width w s" "8 dvd s * n" "0 < k" "0 < m" "k + m \<le> 2 ^ w" "coder_ok k m (s * n) st"
    "valid_erasures k m es" "card (erased_set es) \<le> m"
  shows "\<exists>matrix st1. reed_sol_vandermonde_coding_matrix k m w = Inr (Some matrix) \<and>
    jerasure_matrix_encode k m w matrix (s * n) st = Inr st1 \<and> (\<forall>j < k. dev k st1 j = dev k st j) \<and>
    (\<forall>st2. coder_ok k m (s * n) st2 \<longrightarrow> (\<forall>i < k + m. i \<notin> erased_set es \<longrightarrow> dev k st2 i = dev k st1 i) \<longrightarrow>
      (\<exists>st3. jerasure_matrix_decode k m w matrix True (es @ [-1]) (s * n) st2 = Inr (0, st3) \<and>
        coder_ok k m (s * n) st3 \<and> (\<forall>i < k + m. dev k st3 i = dev k st1 i)))"
  using vdm.round_trip_ones [OF assms(1,2) _ assms(6-8) assms(1), of True "[]"] assms(3-5) vandermonde_coding_ok [of w k m]
    code_width_simps(1) [OF assms(1)]
  by (auto simp: vandermonde_maker_def)

theorem vandermonde_round_trip_witness:
  "\<exists>matrix st1 st3. reed_sol_vandermonde_coding_matrix 2 2 8 = Inr (Some matrix) \<and>
    jerasure_matrix_encode 2 2 8 matrix 8 (fresh_coder [replicate 8 1, replicate 8 7] [replicate 8 0, replicate 8 0]) = Inr st1 \<and>
    jerasure_matrix_decode 2 2 8 matrix True [0, 1, -1] 8 (fresh_coder [replicate 8 0, replicate 8 0] (coding_ptrs st1)) = Inr (0, st3) \<and>
    dev 2 st3 0 = replicate 8 1 \<and> dev 2 st3 1 = replicate 8 7"
proof -
  let ?st = "fresh_coder [replicate 8 1, replicate 8 7] [replicate 8 0, replicate 8 0]"
  have w: "code_width 8 1" by (simp add: code_width_def)
  have c: "coder_ok 2 2 (1 * 8) ?st"
    using coder_ok_fresh [of "[replicate 8 1, replicate 8 7]" "[replicate 8 0, replicate 8 0]" 8] by (simp add: numeral_2_eq_2)
  have es: "valid_erasures 2 2 [0, 1]" "erased_set [0, 1] = {0, 1}" by (auto simp: valid_erasures_def erased_set_def)
  have "\<exists>matrix st1. reed_sol_vandermonde_coding_matrix 2 2 8 = Inr (Some matrix) \<and>
    jerasure_matrix_encode 2 2 8 matrix (1 * 8) ?st = Inr st1 \<and> (\<forall>j < 2. dev 2 st1 j = dev 2 ?st j) \<and>
    (\<forall>st2. coder_ok 2 2 (1 * 8) st2 \<longrightarrow> (\<forall>i < 2 + 2. i \<notin> erased_set [0, 1] \<longrightarrow> dev 2 st2 i = dev 2 st1 i) \<longrightarrow>
      (\<exists>st3. jerasure_matrix_decode 2 2 8 matrix True ([0, 1] @ [-1]) (1 * 8) st2 = Inr (0, st3) \<and>
        coder_ok 2 2 (1 * 8) st3 \<and> (\<forall>i < 2 + 2. dev 2 st3 i = dev 2 st1 i)))"
    by (rule vandermonde_round_trip [OF w _ _ _ _ c es(1)]) (use es(2) in auto)
  then obtain matrix st1 where M: "reed_sol_vandermonde_coding_matrix 2 2 8 = Inr (Some matrix)"
      "jerasure_matrix_encode 2 2 8 matrix (1 * 8) ?st = Inr st1" "\<forall>j < 2. dev 2 st1 j = dev 2 ?st j"
      "\<forall>st2. coder_ok 2 2 (1 * 8) st2 \<longrightarrow> (\<forall>i < 2 + 2. i \<notin> erased_set [0, 1] \<longrightarrow> dev 2 st2 i = dev 2 st1 i) \<longrightarrow>
      (\<exists>st3. jerasure_matrix_decode 2 2 8 matrix True ([0, 1] @ [-1]) (1 * 8) st2 = Inr (0, st3) \<and>
        coder_ok 2 2 (1 * 8) st3 \<and> (\<forall>i < 2 + 2. dev 2 st3 i = dev 2 st1 i))"
    by (elim exE conjE) (rule that)
  have m: "gf_width 8" "coding_matrix 2 2 8 matrix" using vandermonde_coding_ok [of 8 2 2] M(1) code_width_simps(1) [OF w] by auto
  have c1: "coder_ok 2 2 8 st1" using matrix_encode_ok [OF w _ _ _ m(2), of 8 8 ?st] c M(2) by auto
  let ?st2 = "fresh_coder [replicate 8 0, replicate 8 0] (coding_ptrs st1)"
  have l: "length (coding_ptrs st1) = 2" "\<forall>b \<in> set (coding_ptrs st1). length b = 8"
  proof -
    show l: "length (coding_ptrs st1) = 2" using c1 by (simp add: coder_ok_def)
    have "length (dev 2 st1 (2 + i)) = 8" if "i < 2" for i using coder_ok_dev [OF c1, of "2 + i"] that by simp
    then show "\<forall>b \<in> set (coding_ptrs st1). length b = 8" using l by (auto simp: in_set_conv_nth dev_def)
  qed
  then have c2: "coder_ok 2 2 8 ?st2"
    using coder_ok_fresh [of "[replicate 8 0, replicate 8 0]" "coding_ptrs st1" 8] by (simp add: numeral_2_eq_2)
  have "\<forall>i < 2 + 2. i \<notin> erased_set [0, 1] \<longrightarrow> dev 2 ?st2 i = dev 2 st1 i" unfolding es(2) by (simp add: dev_def fresh_coder_def)
  then obtain st3 where s3: "jerasure_matrix_decode 2 2 8 matrix True [0, 1, -1] 8 ?st2 = Inr (0, st3)" "\<forall>i < 4. dev 2 st3 i = dev 2 st1 i"
    using M(4) [THEN spec, of ?st2] c2 by auto
  have "dev 2 st1 0 = replicate 8 1" "dev 2 st1 1 = replicate 8 7" using M(3) by (auto simp: dev_def fresh_coder_def)
  then show ?thesis using M(1,2) s3 by (intro exI [of _ matrix] exI [of _ st1] exI [of _ st3]) auto
qed

section \<open>Matrices of codes\<close>

text \<open>
  C16.  \<^verbatim>\<open>reed_sol_vandermonde_coding_matrix\<close> never exits or returns the null pointer for \<open>k + m \<le> 2 ^ w\<close>;
  its matrix has a first row of ones and any \<open>k\<close> rows of its generator are invertible.
\<close>

theorem reed_sol_vandermonde_coding_matrix_correct:
  assumes "gf_width w" "k + m \<le> 2 ^ w" "0 < k" "0 < m"
  shows "\<exists>matrix. reed_sol_vandermonde_coding_matrix k m w = Inr (Some matrix) \<and> coding_matrix k m w matrix \<and>
    mds_matrix k m w matrix \<and> (\<forall>j < k. matrix ! j = 1)"
  using assms by (rule vandermonde_coding_ok)

theorem reed_sol_vandermonde_coding_matrix_correct_witness:
  "\<exists>matrix. reed_sol_vandermonde_coding_matrix 200 56 8 = Inr (Some matrix) \<and> coding_matrix 200 56 8 matrix \<and>
    mds_matrix 200 56 8 matrix \<and> (\<forall>j < 200. matrix ! j = 1)"
  by (rule reed_sol_vandermonde_coding_matrix_correct) (unfold gf_width_def, auto)

text \<open>
  C27.  \<^verbatim>\<open>cauchy_original_coding_matrix\<close> returns the null pointer exactly when the width is below 31 and
  the field too small; otherwise, when the field is large enough, any \<open>k\<close> rows of the generator are
  invertible.
\<close>

theorem cauchy_original_coding_matrix_correct:
  assumes "gf_width w" "0 < k"
  shows "if k + m \<le> 2 ^ w
    then \<exists>matrix. cauchy_original_coding_matrix k m w = Some matrix \<and> coding_matrix k m w matrix \<and> mds_matrix k m w matrix
    else w < 31 \<longrightarrow> cauchy_original_coding_matrix k m w = None"
  using original.made [OF assms(1), of k m] original_matrix_none [of w k m] assms(2) by auto

theorem cauchy_original_coding_matrix_correct_witness:
  "(\<exists>matrix. cauchy_original_coding_matrix 5 3 3 = Some matrix \<and> coding_matrix 5 3 3 matrix \<and> mds_matrix 5 3 3 matrix) \<and>
   cauchy_original_coding_matrix 5 4 3 = None"
proof -
  have w: "gf_width 3" unfolding gf_width_def by auto
  show ?thesis using cauchy_original_coding_matrix_correct [OF w, of 5 3] cauchy_original_coding_matrix_correct [OF w, of 5 4] by simp
qed

text \<open>
  C28.  \<^verbatim>\<open>cauchy_n_ones\<close> returns the number of ones of the bit matrix of an element, that is of its products
  with the powers of two below \<open>2 ^ w\<close>, in any state of its static tables, and keeps the tables valid.
\<close>

theorem cauchy_n_ones_correct:
  assumes "cauchy_ok s" "gf_width w" "2 \<le> w" "gf_elem w n"
  shows "\<exists>s'. cauchy_n_ones n w s = (int (\<Sum>i < w. card {b. bit (gmul w n (push_bit i 1)) b}), s') \<and> cauchy_ok s'"
proof -
  have b: "1 \<le> w" "w \<le> 32" using assms(2) by simp_all
  have "shift_pow w i n = gmul w n (push_bit i 1)" if "i < w" for i
  proof -
    have e: "gf_elem w (push_bit i 1)" using that unfolding gf_elem_bit bit_push_1 by auto
    have "shift_pow w i (gf_mul w n 1) = gf_mul w n (shift_pow w i 1)" using gf_mul_shift_pow [of w 1 n i] b by simp
    then show ?thesis using gf_mul_1_right [OF b assms(4)] shift_pow_1 [OF b that] gmul_eq [OF b assms(4) e] by simp
  qed
  then have "(\<Sum>i < w. card {b. bit (gmul w n (push_bit i 1)) b}) = block_ones w n"
    unfolding block_ones_def word_ones_def by (intro sum.cong) auto
  then show ?thesis using cauchy_n_ones_ok [OF assms] ones_setup_ok(1) [OF assms(1-3)] by auto
qed

theorem cauchy_n_ones_correct_witness:
  "\<exists>s'. cauchy_n_ones 7 4 cauchy_start = (int (\<Sum>i < 4. card {b. bit (gmul 4 7 (push_bit i 1)) b}), s') \<and> cauchy_ok s'"
proof -
  have w: "gf_width 4" unfolding gf_width_def by auto
  have "gf_elem 4 7" by code_simp
  then show ?thesis using cauchy_n_ones_correct [OF cauchy_ok_start w] by simp
qed





text \<open>
  C37.  \<^verbatim>\<open>reed_sol_r6_coding_matrix\<close> returns the null pointer for widths other than 8, 16 and 32; for
  these its matrix has a row of ones and a row of the powers of two, and for \<open>k < 2 ^ w\<close> any \<open>k\<close> rows of
  the generator are invertible.
\<close>

theorem reed_sol_r6_coding_matrix_correct:
  assumes "0 < k" "k < 2 ^ w"
  shows "if w = 8 \<or> w = 16 \<or> w = 32
    then \<exists>matrix. reed_sol_r6_coding_matrix k w = Some matrix \<and> coding_matrix k 2 w matrix \<and> mds_matrix k 2 w matrix \<and>
      (\<forall>j < k. matrix ! j = 1 \<and> matrix ! (k + j) = shift_pow w j 1)
    else reed_sol_r6_coding_matrix k w = None"
proof (cases "w = 8 \<or> w = 16 \<or> w = 32")
  case True
  then have "gf_width w" unfolding gf_width_def by auto
  then show ?thesis using raid6.made [of w k 2] r6_matrix_entries [OF True assms(1)] True assms by auto
qed (simp add: reed_sol_r6_coding_matrix_def)

theorem reed_sol_r6_coding_matrix_correct_witness:
  "(\<exists>matrix. reed_sol_r6_coding_matrix 255 8 = Some matrix \<and> mds_matrix 255 2 8 matrix) \<and> reed_sol_r6_coding_matrix 3 9 = None"
  using reed_sol_r6_coding_matrix_correct [of 255 8] reed_sol_r6_coding_matrix_correct [of 3 9] by auto

section \<open>Schedules\<close>

text \<open>
  C29.  \<^verbatim>\<open>jerasure_smart_bitmatrix_to_schedule\<close>, which takes rows off a linked list in the order of least
  work and may start a row from one done before, always ends; running its schedule or that of
  \<^verbatim>\<open>jerasure_dumb_bitmatrix_to_schedule\<close> puts into every packet of a coding device the sum of the data packets that its
  row selects and changes nothing else; the smart schedule is never longer than the dumb one, which has one operation for
  every one of the matrix.
\<close>

theorem jerasure_smart_bitmatrix_to_schedule_correct:
  assumes "bit_rows (m * w) (k * w) bitmatrix" "rows_nonzero (m * w) (k * w) bitmatrix" "0 < m * w"
  shows "\<exists>ops. jerasure_smart_bitmatrix_to_schedule k m w bitmatrix = Inr ops \<and> schedules k m w bitmatrix ops \<and>
    schedules k m w bitmatrix (jerasure_dumb_bitmatrix_to_schedule k m w bitmatrix) \<and>
    length ops \<le> length (jerasure_dumb_bitmatrix_to_schedule k m w bitmatrix) \<and>
    length (jerasure_dumb_bitmatrix_to_schedule k m w bitmatrix) = (\<Sum>i < m * w. card {j. j < k * w \<and> row_bit (k * w) bitmatrix i j})"
  using smart_schedules [OF assms] dumb_schedules [OF assms(2)] dumb_schedule_run [OF assms(2)] by blast

theorem jerasure_smart_bitmatrix_to_schedule_correct_witness:
  "\<exists>ops. jerasure_smart_bitmatrix_to_schedule 3 2 1 [1, 1, 1, 1, 1, 0] = Inr ops \<and> schedules 3 2 1 [1, 1, 1, 1, 1, 0] ops \<and>
    length ops = 4 \<and> length (jerasure_dumb_bitmatrix_to_schedule 3 2 1 [1, 1, 1, 1, 1, 0]) = 5"
proof -
  have b: "bit_rows (2 * 1) (3 * 1) [1, 1, 1, 1, 1, 0]" "rows_nonzero (2 * 1) (3 * 1) [1, 1, 1, 1, 1, 0]"
    by (auto simp: bit_rows_def rows_nonzero_def row_bit_def is_bit_def less_2_cases_iff less_Suc_eq numeral_3_eq_3)
  have "jerasure_smart_bitmatrix_to_schedule 3 2 1 [1, 1, 1, 1, 1, 0] =
      Inr [Op 0 0 4 0 False, Op 1 0 4 0 True, Op 4 0 3 0 False, Op 2 0 3 0 True]"
    and "length (jerasure_dumb_bitmatrix_to_schedule 3 2 1 [1, 1, 1, 1, 1, 0]) = 5" by code_simp+
  then show ?thesis using jerasure_smart_bitmatrix_to_schedule_correct [OF b] by simp
qed

text \<open>
  C30.  \<^verbatim>\<open>jerasure_schedule_encode\<close> with any schedule that computes the bit matrix, in particular both of the
  above, and \<^verbatim>\<open>jerasure_bitmatrix_encode\<close> leave the same bytes in every device.
\<close>

theorem jerasure_schedule_encode_equivalent:
  assumes "coder_ok k m (T * (n * w)) st" "8 dvd n" "0 < n * w" "length bitmatrix = k * m * w * w"
    "rows_nonzero (m * w) (k * w) bitmatrix" "schedules k m w bitmatrix ops"
  shows "\<exists>st1 st2. jerasure_schedule_encode k m w ops (T * (n * w)) n st = Inr st1 \<and>
    jerasure_bitmatrix_encode k m w bitmatrix (T * (n * w)) n st = Inr st2 \<and> (\<forall>i < k + m. dev k st1 i = dev k st2 i)"
  using assms by (rule schedule_encode_equiv)

theorem jerasure_schedule_encode_equivalent_witness:
  "\<exists>st1 st2. jerasure_schedule_encode 2 1 1 (jerasure_dumb_bitmatrix_to_schedule 2 1 1 [1, 1]) (2 * (8 * 1)) 8
      (fresh_coder [replicate 16 3, replicate 16 5] [replicate 16 0]) = Inr st1 \<and>
    jerasure_bitmatrix_encode 2 1 1 [1, 1] (2 * (8 * 1)) 8 (fresh_coder [replicate 16 3, replicate 16 5] [replicate 16 0]) = Inr st2 \<and>
    (\<forall>i < 2 + 1. dev 2 st1 i = dev 2 st2 i)"
proof -
  have nz: "rows_nonzero (1 * 1) (2 * 1) [1, 1]" by (auto simp: rows_nonzero_def row_bit_def intro!: exI [of _ 0])
  have c: "coder_ok 2 1 (2 * (8 * 1)) (fresh_coder [replicate 16 3, replicate 16 5] [replicate 16 0])"
    using coder_ok_fresh [of "[replicate 16 3, replicate 16 5]" "[replicate 16 0]" 16] by (simp add: numeral_2_eq_2)
  show ?thesis by (rule jerasure_schedule_encode_equivalent [OF c _ _ _ nz dumb_schedules [OF nz]]) auto
qed

section \<open>The client\<close>













text \<open>
  C34.  A value of fewer than \<open>8 * (k - 1)\<close> bytes, but not empty, does not reach into its last data block: the size of
  the last request wraps around, the array of that size cannot be allocated, and \<^verbatim>\<open>memcached_set\<close> ends the program.
\<close>

theorem memcached_set_short_value:
  assumes "service_ok svc" "client_ok svc ptr" "0 < number_of_b ptr" "rack_is_add ptr"
    "value \<noteq> []" "length value < 8 * (number_of_k ptr - 1)" "length value < 2 ^ 63"
  shows "memcached_set svc file key value ptr = Inl Exit"
  by (rule kv_service.set_short [OF kv_service.intro [OF assms(1)] assms(2-7)])

theorem memcached_set_short_value_witness:
  "\<exists>ptr. client_ok light_service ptr \<and> memcached_set light_service None ''k'' [1, 2, 3] ptr = Inl Exit"
proof -
  obtain ptr where t: "tracks light_service ptr [''k'' \<mapsto> (demo_value, {})]" "code_setup ptr = (5, 2, 2, False)" using demo_stored by blast
  then have "client_ok light_service ptr" "0 < number_of_b ptr" "rack_is_add ptr" "number_of_k ptr = 2" by (auto simp: tracks_def code_setup_def)
  then show ?thesis using memcached_set_short_value [OF light_service_ok, of ptr "[1, 2, 3]" None "''k''"] by auto
qed



text \<open>
  C33.  A successful read of a value of which no data block is lost frees a pointer that was never set, at the end of
  \<^verbatim>\<open>memcached_get_lrc\<close>: unless the memory that \<^verbatim>\<open>new\<close> returned was zero, the behaviour is undefined.
\<close>

theorem memcached_get_unset_pointer:
  assumes "service_ok svc" "client_ok svc ptr" "0 < number_of_b ptr" "lrc_stored svc key value E ptr"
    "\<not> data_lost (number_of_k ptr) (number_of_r ptr) E" "\<not> zeroed ptr"
  shows "memcached_get svc key (length value) ptr = Inl Undefined"
proof -
  obtain bs a where H: "lrc_holds svc key value bs a E ptr" using assms(4) unfolding lrc_stored_def by blast
  have d: "\<forall>d < number_of_k ptr. d + d div number_of_r ptr \<notin> E" using assms(5) by (auto simp: data_lost_def)
  note kv = kv_service.intro [OF assms(1)]
  show ?thesis using kv_service.get_whole [OF kv assms(2) H d] kv_service.memcached_get_lrc_eq [OF kv assms(2,3)] assms(6) by auto
qed

theorem memcached_get_unset_pointer_witness:
  "\<exists>ptr. client_ok light_service ptr \<and> memcached_get light_service ''k'' 20 ptr = Inl Undefined"
proof -
  obtain p where t: "tracks light_service p [''k'' \<mapsto> (demo_value, {})]" using demo_stored by blast
  let ?p = "p\<lparr>zeroed := False\<rparr>"
  have c: "client_ok light_service ?p" "0 < number_of_b ?p" using t by (auto simp: tracks_def client_ok_def)
  have "lrc_stored light_service ''k'' demo_value {} p" using t by (simp add: tracks_def)
  then have s: "lrc_stored light_service ''k'' demo_value {} ?p" by (simp add: lrc_stored_def lrc_holds_def)
  have d: "\<not> data_lost (number_of_k ?p) (number_of_r ?p) {}" "\<not> zeroed ?p" by (simp_all add: data_lost_def)
  show ?thesis using memcached_get_unset_pointer [OF light_service_ok c s d] c(1) demo_fields(4) by auto
qed

section \<open>Racks and blocks\<close>

text \<open>
  C23.  Round trip of the rack file: reading the text of a network core, the racks of the nodes and the servers of the
  racks with \<^verbatim>\<open>add_rack\<close> fills in exactly these, with every server unused.
\<close>

theorem add_rack_round_trip:
  assumes "text_ok (instances ptr) (number_of_n ptr) core nodes racks" "number_of_n ptr \<le> length (node2rack ptr)"
  shows "add_rack (Some (rack_text (instances ptr) core nodes racks)) ptr =
    Inr (ptr\<lparr>network_core_server_key := core, node2rack := nodes @ drop (number_of_n ptr) (node2rack ptr),
      rack_group := map (map (\<lambda>s. Some (s, False))) racks, rack_is_add := True\<rparr>)"
  using assms by (rule add_rack_ok)

theorem add_rack_round_trip_witness:
  "\<exists>ptr'. add_rack (Some demo_file) demo_client = Inr ptr' \<and> rack_group ptr' = [[Some (1, False), Some (2, False), Some (3, False)], [Some (4, False), Some (5, False)]]"
  using add_rack_round_trip [of demo_client 0 "[0, 0, 0, 1, 1]" "[[1, 2, 3], [4, 5]]"] demo_new demo_fields(6) by (simp add: client_new_def demo_file_def)

text \<open>
  C9.  The placement is safe: with racks that have servers enough, the nodes get servers that are pairwise different,
  each in the rack the file gives the node, and none of them the network core.
\<close>

theorem placement_separates:
  assumes "racks_ok (number_of_n ptr) core nodes racks" "text_ok (instances ptr) (number_of_n ptr) core nodes racks"
    "length (node2rack ptr) = 20" "length (node_rack ptr) = 20"
  shows "\<exists>ptr'. run_bind (add_rack (Some (rack_text (instances ptr) core nodes racks)) ptr) (cfor 0 (number_of_n ptr) place_node) = Inr ptr' \<and>
    (\<forall>i < number_of_n ptr. \<forall>j < number_of_n ptr. node2rack ptr' ! i = node2rack ptr' ! j \<longrightarrow> i = j) \<and>
    (\<forall>i < number_of_n ptr. node2rack ptr' ! i \<in> set (racks ! (nodes ! i)) \<and> node_rack ptr' ! i = nodes ! i \<and>
      node2rack ptr' ! i \<noteq> network_core_server_key ptr')"
proof -
  let ?n = "number_of_n ptr" and ?p = "placed core nodes racks ptr (number_of_n ptr)"
  have n: "?n \<le> 20" "core \<notin> set (concat racks)" using assms(1) by (auto simp: racks_ok_def)
  note N = placed_node2rack [OF assms(4) n(1)]
  have "node2rack ?p ! i \<in> set (racks ! (nodes ! i)) \<and> node_rack ?p ! i = nodes ! i \<and> node2rack ?p ! i \<noteq> network_core_server_key ?p"
    if "i < ?n" for i
    using N [OF that] node_server_in [OF assms(1) that] n(2) by (metis UN_I nth_mem set_concat)
  moreover have "i = j" if "i < ?n" "j < ?n" "node2rack ?p ! i = node2rack ?p ! j" for i j
    using node_server_inj [OF assms(1) that(1,2)] N that by simp
  ultimately show ?thesis using place_nodes_ok [OF assms] by blast
qed

theorem placement_separates_witness:
  "\<exists>ptr'. run_bind (add_rack (Some demo_file) demo_client) (cfor 0 5 place_node) = Inr ptr' \<and> node2rack ptr' ! 0 \<noteq> node2rack ptr' ! 1"
proof -
  have c: "racks_ok (number_of_n demo_client) 0 [0, 0, 0, 1, 1] [[1, 2, 3], [4, 5]]" "text_ok (instances demo_client) (number_of_n demo_client) 0 [0, 0, 0, 1, 1] [[1, 2, 3], [4, 5]]"
    "length (node2rack demo_client) = 20" "length (node_rack demo_client) = 20" using demo_new by (simp_all add: client_new_def)
  show ?thesis using placement_separates [OF c] demo_fields(6) unfolding demo_file_def by (metis One_nat_def one_less_numeral_iff semiring_norm(77) zero_neq_one zero_less_numeral numeral_eq_Suc)
qed

text \<open>
  C24.  \<^verbatim>\<open>determine_block_size_rs\<close> in its 32- and 64-bit arithmetic: the size of a block is a multiple of 8, \<open>k\<close> blocks
  hold the value, and less than \<open>8 * k\<close> bytes are added to it.
\<close>

theorem determine_block_size_rs_bounds:
  assumes "0 < unat k" "unat k < 2 ^ 28" "unat value_length + 8 * unat k < 2 ^ 64"
  shows "\<exists>bs. determine_block_size_rs value_length k = Inr bs \<and> 8 dvd unat bs \<and> unat value_length \<le> unat k * unat bs \<and>
    unat k * unat bs < unat value_length + 8 * unat k"
  using assms by (rule block_size_ok)

theorem determine_block_size_rs_bounds_witness:
  "determine_block_size_rs 20 2 = Inr 16 \<and> (\<exists>bs. determine_block_size_rs 20 2 = Inr bs \<and> 8 dvd unat bs \<and> 20 \<le> 2 * unat bs)"
proof -
  have "determine_block_size_rs 20 2 = Inr 16" by code_simp
  then show ?thesis using determine_block_size_rs_bounds [of 2 20] by auto
qed



section \<open>The server\<close>



section \<open>The protocol\<close>







text \<open>
  C21.  \<^verbatim>\<open>drain_output\<close> ends whatever the socket does, and loses, repeats and reorders nothing: the bytes that were sent
  followed by those that wait are the same before and after; only the queue, the wire and the error number change.
\<close>

theorem drain_output_lossless:
  assumes "chunks_ok c"
  shows "\<exists>ok c'. drain_output c = Inr (ok, c') \<and> chunks_ok c' \<and> wire c' @ pending c' = wire c @ pending c \<and> sends_only c c' \<and>
    (sends c = [] \<longrightarrow> ok \<and> chunks c' = [])"
  using drain_output_ok [OF assms] by auto

theorem drain_output_lossless_witness:
  "\<exists>ok c'. drain_output ((the (memcached_protocol_create_client True False [] [Sent 1, Send_interrupted, Send_would_block] [] ()))
      \<lparr>chunks := [\<lparr>chunk_data = [1, 2, 3], chunk_offset = 1\<rparr>]\<rparr>) = Inr (ok, c') \<and> wire c' @ pending c' = [2, 3]"
  using drain_output_lossless [of "(the (memcached_protocol_create_client True False [] [Sent 1, Send_interrupted, Send_would_block] [] ()))
      \<lparr>chunks := [\<lparr>chunk_data = [1, 2, 3], chunk_offset = 1\<rparr>]\<rparr>"]
  by (auto simp: memcached_protocol_create_client_def chunks_ok_def pending_def)

text \<open>
  C40.  With version 0 of the interface a get of a value of more than 4068 bytes writes beyond the end of the handler's
  buffer of 4096 bytes.
\<close>

theorem light_v0_get_overflow:
  assumes "at_packet p hdr c" "request_ok p" "caches (app c) s"
    and "req_opcode (request_of p) \<in> {PROTOCOL_BINARY_CMD_GET, PROTOCOL_BINARY_CMD_GETQ, PROTOCOL_BINARY_CMD_GETK, PROTOCOL_BINARY_CMD_GETKQ}"
    and "fst s (key_text (request_key p)) = Some (d, f, x, i)" "4068 < length d"
  shows "execute_command light_v0 hdr c = Inl Undefined"
  using v0_get_overflow [OF assms(1,2) _ assms(4), where m = "fst s"] assms(3,5,6) by (simp add: caches_def)

theorem light_v0_get_overflow_witness:
  "\<exists>st. execute_command light_v0 0
      (the (memcached_protocol_create_client True True ([0x80, 0x00, 0, 1, 0, 0, 0, 0, 0, 0, 0, 1, 0, 0, 0, 6, 0, 0, 0, 0, 0, 0, 0, 0] @ [0x61]) [] [] st)) =
    Inl Undefined"
proof -
  let ?p = "[0x80, 0x00, 0, 1, 0, 0, 0, 0, 0, 0, 0, 1, 0, 0, 0, 6, 0, 0, 0, 0, 0, 0, 0, 0] @ [0x61] :: byte list"
  let ?d = "replicate 4069 (0 :: byte)"
  have e: "caches empty_storage (Map.empty, 0)" using empty_represents by (simp add: caches_def empty_storage_def)
  obtain st where st: "caches st ([''a'' \<mapsto> (?d, 0, 0, 1)], 1)"
    using handle_ok [OF e, of "Store ''a'' ?d 0 0 0"] by (auto simp: keep_item_def cas_differs_def)
  have ok: "request_ok ?p" "key_text (request_key ?p) = ''a''" "req_opcode (request_of ?p) = 0" by code_simp+
  have "at_packet ?p 0 (the (memcached_protocol_create_client True True ?p [] [] st))"
    "caches (app (the (memcached_protocol_create_client True True ?p [] [] st))) ([''a'' \<mapsto> (?d, 0, 0, 1)], 1)"
    using st by (simp_all add: memcached_protocol_create_client_def at_packet_def packet_at_def)
  from light_v0_get_overflow [OF this(1) ok(1) this(2), of ?d 0 0 1] ok(2,3) show ?thesis by auto
qed

section \<open>Bit matrices and RAID-6\<close>

text \<open>
  C38.  The bit matrix of \<^verbatim>\<open>jerasure_matrix_to_bitmatrix\<close> multiplies bits as the matrix multiplies elements: bit
  \<open>l\<close> of the product of row \<open>i\<close> of the matrix and the elements \<open>y\<close> is the sum modulo two of the bits of \<open>y\<close> that row
  \<open>i * w + l\<close> of the bit matrix selects.
\<close>

theorem jerasure_matrix_to_bitmatrix_correct:
  assumes "gf_width w" "coding_matrix k m w matrix" "i < m" "l < w" "\<And>j. j < k \<Longrightarrow> gf_elem w (y j)"
  shows "bit (xsum (\<lambda>j. gmul w (matrix ! (i * k + j)) (y j)) {..<k}) l \<longleftrightarrow>
    odd (card {c. c < k * w \<and> jerasure_matrix_to_bitmatrix k m w matrix ! ((i * w + l) * (k * w) + c) \<noteq> 0 \<and> bit (y (c div w)) (c mod w)})"
  using to_bitmatrix_product [OF assms(1-4)] assms(5) by blast

theorem jerasure_matrix_to_bitmatrix_correct_witness:
  "bit (xsum (\<lambda>j. gmul 3 ([1, 1, 1, 2] ! (1 * 2 + j)) ([5, 6] ! j)) {..<2}) 1 \<longleftrightarrow>
    odd (card {c. c < 2 * 3 \<and> jerasure_matrix_to_bitmatrix 2 2 3 [1, 1, 1, 2] ! ((1 * 3 + 1) * (2 * 3) + c) \<noteq> 0 \<and> bit (([5, 6] :: cint list) ! (c div 3)) (c mod 3)})"
proof -
  have "gf_width 3" "gf_elem 3 1" "gf_elem 3 2" "gf_elem 3 5" "gf_elem 3 6" by code_simp+
  moreover from this have "coding_matrix 2 2 3 [1, 1, 1, 2]"
    by (auto simp: coding_matrix_def less_Suc_eq numeral_2_eq_2 numeral_3_eq_3 intro: exI [of _ 0])
  ultimately show ?thesis by (intro jerasure_matrix_to_bitmatrix_correct) (auto simp: less_2_cases_iff)
qed

text \<open>
  C12.  The round trip of the Cauchy code on packets: the matrix of \<^verbatim>\<open>cauchy_good_general_coding_matrix\<close> is turned into a bit
  matrix and the bit matrix into a schedule by the smart scheduler; encoding with the schedule keeps the data, and after the
  loss of any at most \<open>m\<close> devices, whatever their buffers then hold, \<^verbatim>\<open>jerasure_bitmatrix_decode\<close> returns 0 and every device
  is as it was encoded.
\<close>

theorem cauchy_bitmatrix_round_trip:
  assumes "gf_width w" "0 < k" "0 < m" "2 \<le> w" "k + m \<le> 2 ^ w" "m = 2 \<longrightarrow> w \<le> 8 \<or> cbest_max_k w < int k"
    "8 dvd n" "0 < n" "coder_ok k m (T * (n * w)) st" "valid_erasures k m es" "card (erased_set es) \<le> m"
  shows "\<exists>matrix s bitmatrix ops st1. cauchy_good_general_coding_matrix k m w cauchy_start = Inr (Some matrix, s) \<and>
    bitmatrix = jerasure_matrix_to_bitmatrix k m w matrix \<and> jerasure_smart_bitmatrix_to_schedule k m w bitmatrix = Inr ops \<and>
    jerasure_schedule_encode k m w ops (T * (n * w)) n st = Inr st1 \<and> coder_ok k m (T * (n * w)) st1 \<and> (\<forall>j < k. dev k st1 j = dev k st j) \<and>
    (\<forall>st2. coder_ok k m (T * (n * w)) st2 \<longrightarrow> (\<forall>i < k + m. i \<notin> erased_set es \<longrightarrow> dev k st2 i = dev k st1 i) \<longrightarrow>
      (\<exists>st3. jerasure_bitmatrix_decode k m w bitmatrix True (es @ [-1]) (T * (n * w)) n st2 = Inr (0, st3) \<and>
        coder_ok k m (T * (n * w)) st3 \<and> (\<forall>i < k + m. dev k st3 i = dev k st1 i)))"
proof -
  have fits: "0 < k \<and> 0 < m \<and> 2 \<le> w \<and> k + m \<le> 2 ^ w \<and> (m = 2 \<longrightarrow> w \<le> 8 \<or> cbest_max_k w < int k)" using assms(2-6) by blast
  have made: "\<exists>s. cauchy_good_general_coding_matrix k m w cauchy_start = Inr (Some matrix, s)" if "good_maker k m w = Some matrix" for matrix
    using that by (auto simp: good_maker_def split: sum.splits)
  show ?thesis using good.bit_round_trip_ones [OF assms(1,7,8) fits assms(3,9-11) assms(1) fits, of True "[]"] made by fastforce
qed

theorem cauchy_bitmatrix_round_trip_witness:
  "\<exists>matrix s ops st1 st3. cauchy_good_general_coding_matrix 2 2 3 cauchy_start = Inr (Some matrix, s) \<and>
    jerasure_smart_bitmatrix_to_schedule 2 2 3 (jerasure_matrix_to_bitmatrix 2 2 3 matrix) = Inr ops \<and>
    jerasure_schedule_encode 2 2 3 ops 24 8 (fresh_coder [replicate 24 1, replicate 24 7] [replicate 24 0, replicate 24 0]) = Inr st1 \<and>
    jerasure_bitmatrix_decode 2 2 3 (jerasure_matrix_to_bitmatrix 2 2 3 matrix) True [0, -1] 24 8 (set_buf 2 0 (replicate 24 0) st1) = Inr (0, st3) \<and>
    dev 2 st3 0 = replicate 24 1"
proof -
  let ?st = "fresh_coder [replicate 24 1, replicate 24 7] [replicate 24 0, replicate 24 0]"
  have c: "coder_ok 2 2 (1 * (8 * 3)) ?st"
    using coder_ok_fresh [of "[replicate 24 1, replicate 24 7]" "[replicate 24 0, replicate 24 0]" 24] by (simp add: numeral_2_eq_2)
  have es: "valid_erasures 2 2 [0]" "card (erased_set [0]) \<le> 2" "gf_width 3" by (auto simp: valid_erasures_def erased_set_def) code_simp
  have E: "erased_set [0] = {0}" by (simp add: erased_set_def)
  have "\<exists>matrix s bitmatrix ops st1. cauchy_good_general_coding_matrix 2 2 3 cauchy_start = Inr (Some matrix, s) \<and>
    bitmatrix = jerasure_matrix_to_bitmatrix 2 2 3 matrix \<and> jerasure_smart_bitmatrix_to_schedule 2 2 3 bitmatrix = Inr ops \<and>
    jerasure_schedule_encode 2 2 3 ops (1 * (8 * 3)) 8 ?st = Inr st1 \<and> coder_ok 2 2 (1 * (8 * 3)) st1 \<and> (\<forall>j < 2. dev 2 st1 j = dev 2 ?st j) \<and>
    (\<forall>st2. coder_ok 2 2 (1 * (8 * 3)) st2 \<longrightarrow> (\<forall>i < 2 + 2. i \<notin> erased_set [0] \<longrightarrow> dev 2 st2 i = dev 2 st1 i) \<longrightarrow>
      (\<exists>st3. jerasure_bitmatrix_decode 2 2 3 bitmatrix True ([0] @ [-1]) (1 * (8 * 3)) 8 st2 = Inr (0, st3) \<and>
        coder_ok 2 2 (1 * (8 * 3)) st3 \<and> (\<forall>i < 2 + 2. dev 2 st3 i = dev 2 st1 i)))"
    by (rule cauchy_bitmatrix_round_trip [OF es(3) _ _ _ _ _ _ _ c es(1,2)]) simp_all
  then obtain matrix s ops st1 where
      M: "cauchy_good_general_coding_matrix 2 2 3 cauchy_start = Inr (Some matrix, s)"
        "jerasure_smart_bitmatrix_to_schedule 2 2 3 (jerasure_matrix_to_bitmatrix 2 2 3 matrix) = Inr ops"
        "jerasure_schedule_encode 2 2 3 ops (1 * (8 * 3)) 8 ?st = Inr st1" "coder_ok 2 2 (1 * (8 * 3)) st1" "\<forall>j < 2. dev 2 st1 j = dev 2 ?st j"
      and D: "\<forall>st2. coder_ok 2 2 (1 * (8 * 3)) st2 \<longrightarrow> (\<forall>i < 2 + 2. i \<notin> erased_set [0] \<longrightarrow> dev 2 st2 i = dev 2 st1 i) \<longrightarrow>
      (\<exists>st3. jerasure_bitmatrix_decode 2 2 3 (jerasure_matrix_to_bitmatrix 2 2 3 matrix) True ([0] @ [-1]) (1 * (8 * 3)) 8 st2 = Inr (0, st3) \<and>
        coder_ok 2 2 (1 * (8 * 3)) st3 \<and> (\<forall>i < 2 + 2. dev 2 st3 i = dev 2 st1 i))"
    by (elim exE conjE) (hypsubst, rule that)
  let ?st2 = "set_buf 2 0 (replicate 24 0) st1"
  have "coder_ok 2 2 (1 * (8 * 3)) ?st2" by (rule coder_ok_set_buf [OF M(4)]) simp_all
  moreover have "\<forall>i < 2 + 2. i \<notin> erased_set [0] \<longrightarrow> dev 2 ?st2 i = dev 2 st1 i" unfolding E using dev_set_buf [OF M(4), of 0] by simp
  ultimately obtain st3 where "jerasure_bitmatrix_decode 2 2 3 (jerasure_matrix_to_bitmatrix 2 2 3 matrix) True [0, -1] 24 8 ?st2 = Inr (0, st3)"
      "dev 2 st3 0 = dev 2 st1 0" using D [THEN spec, of ?st2] by auto
  moreover have "dev 2 st1 0 = replicate 24 1" using M(5) by (simp add: dev_def fresh_coder_def)
  ultimately show ?thesis using M(1-3) by (intro exI [of _ matrix] exI [of _ s] exI [of _ ops] exI [of _ st1] exI [of _ st3]) simp
qed

text \<open>
  C13.  Decoding with schedules, for the same codes and any losses of at least one and at most \<open>m\<close> devices, listed once each:
  \<^verbatim>\<open>jerasure_schedule_decode_lazy\<close>, which computes all lost devices by one schedule made for the losses, returns 0 and restores
  every device, with either scheduler; for two coding devices \<^verbatim>\<open>jerasure_generate_schedule_cache\<close> makes its table without a fault
  and \<^verbatim>\<open>jerasure_schedule_decode_cache\<close> leaves the same state.
\<close>

theorem cauchy_schedule_round_trip:
  assumes "gf_width w" "0 < k" "0 < m" "2 \<le> w" "k + m \<le> 2 ^ w" "m = 2 \<longrightarrow> w \<le> 8 \<or> cbest_max_k w < int k"
    "8 dvd n" "0 < n" "coder_ok k m (T * (n * w)) st" "valid_erasures k m es" "card (erased_set es) \<le> m" "distinct es" "es \<noteq> []"
  shows "\<exists>matrix s bitmatrix ops st1. cauchy_good_general_coding_matrix k m w cauchy_start = Inr (Some matrix, s) \<and>
    bitmatrix = jerasure_matrix_to_bitmatrix k m w matrix \<and> jerasure_smart_bitmatrix_to_schedule k m w bitmatrix = Inr ops \<and>
    jerasure_schedule_encode k m w ops (T * (n * w)) n st = Inr st1 \<and> coder_ok k m (T * (n * w)) st1 \<and> (\<forall>j < k. dev k st1 j = dev k st j) \<and>
    (\<forall>smart st2. coder_ok k m (T * (n * w)) st2 \<longrightarrow> (\<forall>i < k + m. i \<notin> erased_set es \<longrightarrow> dev k st2 i = dev k st1 i) \<longrightarrow>
      (\<exists>st3. jerasure_schedule_decode_lazy k m w bitmatrix (es @ [-1]) (T * (n * w)) n smart st2 = Inr (0, st3) \<and>
        coder_ok k m (T * (n * w)) st3 \<and> (\<forall>i < k + m. dev k st3 i = dev k st1 i) \<and>
        (m = 2 \<longrightarrow> (\<exists>scache. jerasure_generate_schedule_cache k m w bitmatrix smart = Inr (Some scache) \<and>
          jerasure_schedule_decode_cache k m w scache (es @ [-1]) (T * (n * w)) n st2 = Inr (0, st3)))))"
proof -
  have fits: "0 < k \<and> 0 < m \<and> 2 \<le> w \<and> k + m \<le> 2 ^ w \<and> (m = 2 \<longrightarrow> w \<le> 8 \<or> cbest_max_k w < int k)" using assms(2-6) by blast
  have made: "\<exists>s. cauchy_good_general_coding_matrix k m w cauchy_start = Inr (Some matrix, s)" if "good_maker k m w = Some matrix" for matrix
    using that by (auto simp: good_maker_def split: sum.splits)
  from good.schedule_round_trip [OF assms(1,7,8) fits assms(3,9-13)] show ?thesis
    by (elim exE conjE) (frule made, elim exE, intro exI conjI, assumption, rule refl, assumption+)
qed

theorem cauchy_schedule_round_trip_witness:
  "\<exists>matrix s ops st1 st3 scache. cauchy_good_general_coding_matrix 2 2 3 cauchy_start = Inr (Some matrix, s) \<and>
    jerasure_smart_bitmatrix_to_schedule 2 2 3 (jerasure_matrix_to_bitmatrix 2 2 3 matrix) = Inr ops \<and>
    jerasure_schedule_encode 2 2 3 ops 24 8 (fresh_coder [replicate 24 1, replicate 24 7] [replicate 24 0, replicate 24 0]) = Inr st1 \<and>
    jerasure_schedule_decode_lazy 2 2 3 (jerasure_matrix_to_bitmatrix 2 2 3 matrix) [0, -1] 24 8 True (set_buf 2 0 (replicate 24 0) st1) = Inr (0, st3) \<and>
    jerasure_generate_schedule_cache 2 2 3 (jerasure_matrix_to_bitmatrix 2 2 3 matrix) True = Inr (Some scache) \<and>
    jerasure_schedule_decode_cache 2 2 3 scache [0, -1] 24 8 (set_buf 2 0 (replicate 24 0) st1) = Inr (0, st3) \<and> dev 2 st3 0 = replicate 24 1"
proof -
  let ?st = "fresh_coder [replicate 24 1, replicate 24 7] [replicate 24 0, replicate 24 0]"
  have c: "coder_ok 2 2 (1 * (8 * 3)) ?st"
    using coder_ok_fresh [of "[replicate 24 1, replicate 24 7]" "[replicate 24 0, replicate 24 0]" 24] by (simp add: numeral_2_eq_2)
  have es: "valid_erasures 2 2 [0]" "card (erased_set [0]) \<le> 2" "gf_width 3" by (auto simp: valid_erasures_def erased_set_def) code_simp
  have E: "erased_set [0] = {0}" by (simp add: erased_set_def)
  have "\<exists>matrix s bitmatrix ops st1. cauchy_good_general_coding_matrix 2 2 3 cauchy_start = Inr (Some matrix, s) \<and>
    bitmatrix = jerasure_matrix_to_bitmatrix 2 2 3 matrix \<and> jerasure_smart_bitmatrix_to_schedule 2 2 3 bitmatrix = Inr ops \<and>
    jerasure_schedule_encode 2 2 3 ops (1 * (8 * 3)) 8 ?st = Inr st1 \<and> coder_ok 2 2 (1 * (8 * 3)) st1 \<and> (\<forall>j < 2. dev 2 st1 j = dev 2 ?st j) \<and>
    (\<forall>smart st2. coder_ok 2 2 (1 * (8 * 3)) st2 \<longrightarrow> (\<forall>i < 2 + 2. i \<notin> erased_set [0] \<longrightarrow> dev 2 st2 i = dev 2 st1 i) \<longrightarrow>
      (\<exists>st3. jerasure_schedule_decode_lazy 2 2 3 bitmatrix ([0] @ [-1]) (1 * (8 * 3)) 8 smart st2 = Inr (0, st3) \<and>
        coder_ok 2 2 (1 * (8 * 3)) st3 \<and> (\<forall>i < 2 + 2. dev 2 st3 i = dev 2 st1 i) \<and>
        ((2::nat) = 2 \<longrightarrow> (\<exists>scache. jerasure_generate_schedule_cache 2 2 3 bitmatrix smart = Inr (Some scache) \<and>
          jerasure_schedule_decode_cache 2 2 3 scache ([0] @ [-1]) (1 * (8 * 3)) 8 st2 = Inr (0, st3)))))"
    by (rule cauchy_schedule_round_trip [OF es(3) _ _ _ _ _ _ _ c es(1,2)]) simp_all
  then obtain matrix s ops st1 where
      M: "cauchy_good_general_coding_matrix 2 2 3 cauchy_start = Inr (Some matrix, s)"
        "jerasure_smart_bitmatrix_to_schedule 2 2 3 (jerasure_matrix_to_bitmatrix 2 2 3 matrix) = Inr ops"
        "jerasure_schedule_encode 2 2 3 ops (1 * (8 * 3)) 8 ?st = Inr st1" "coder_ok 2 2 (1 * (8 * 3)) st1" "\<forall>j < 2. dev 2 st1 j = dev 2 ?st j"
      and D: "\<forall>smart st2. coder_ok 2 2 (1 * (8 * 3)) st2 \<longrightarrow> (\<forall>i < 2 + 2. i \<notin> erased_set [0] \<longrightarrow> dev 2 st2 i = dev 2 st1 i) \<longrightarrow>
      (\<exists>st3. jerasure_schedule_decode_lazy 2 2 3 (jerasure_matrix_to_bitmatrix 2 2 3 matrix) ([0] @ [-1]) (1 * (8 * 3)) 8 smart st2 = Inr (0, st3) \<and>
        coder_ok 2 2 (1 * (8 * 3)) st3 \<and> (\<forall>i < 2 + 2. dev 2 st3 i = dev 2 st1 i) \<and>
        ((2::nat) = 2 \<longrightarrow> (\<exists>scache. jerasure_generate_schedule_cache 2 2 3 (jerasure_matrix_to_bitmatrix 2 2 3 matrix) smart = Inr (Some scache) \<and>
          jerasure_schedule_decode_cache 2 2 3 scache ([0] @ [-1]) (1 * (8 * 3)) 8 st2 = Inr (0, st3))))"
    by (elim exE conjE) (hypsubst, rule that)
  let ?st2 = "set_buf 2 0 (replicate 24 0) st1"
  have "coder_ok 2 2 (1 * (8 * 3)) ?st2" by (rule coder_ok_set_buf [OF M(4)]) simp_all
  moreover have "\<forall>i < 2 + 2. i \<notin> erased_set [0] \<longrightarrow> dev 2 ?st2 i = dev 2 st1 i" unfolding E using dev_set_buf [OF M(4), of 0] by simp
  ultimately obtain st3 scache where "jerasure_schedule_decode_lazy 2 2 3 (jerasure_matrix_to_bitmatrix 2 2 3 matrix) [0, -1] 24 8 True ?st2 = Inr (0, st3)"
      "dev 2 st3 0 = dev 2 st1 0" "jerasure_generate_schedule_cache 2 2 3 (jerasure_matrix_to_bitmatrix 2 2 3 matrix) True = Inr (Some scache)"
      "jerasure_schedule_decode_cache 2 2 3 scache [0, -1] 24 8 ?st2 = Inr (0, st3)" using D [THEN spec, of True, THEN spec, of ?st2] by auto
  moreover have "dev 2 st1 0 = replicate 24 1" using M(5) by (simp add: dev_def fresh_coder_def)
  ultimately show ?thesis using M(1-3)
    by (intro exI [of _ matrix] exI [of _ s] exI [of _ ops] exI [of _ st1] exI [of _ st3] exI [of _ scache]) simp
qed

text \<open>
  C39.  \<^verbatim>\<open>reed_sol_r6_encode\<close>, which computes the two parity devices by adding and doubling regions several elements at a time,
  leaves the same bytes in every device as \<^verbatim>\<open>jerasure_matrix_encode\<close> with the matrix of \<^verbatim>\<open>reed_sol_r6_coding_matrix\<close>, from any
  state of its static masks that a former call may have left.
\<close>

theorem reed_sol_r6_encode_equivalent:
  assumes "code_width w s" "8 dvd sz" "sz = s * n" "coder_ok k 2 sz st" "0 < k" "r6_ok s0" "reed_sol_r6_coding_matrix k w = Some matrix"
  shows "\<exists>s' st1 st2. reed_sol_r6_encode k w sz (s0, st) = Inr (1, s', st1) \<and> r6_ok s' \<and>
    jerasure_matrix_encode k 2 w matrix sz st = Inr st2 \<and> (\<forall>i < k + 2. dev k st1 i = dev k st2 i)"
  using r6_encode_equivalent [OF assms] by blast

theorem reed_sol_r6_encode_equivalent_witness:
  "\<exists>matrix s' st1 st2. reed_sol_r6_coding_matrix 2 8 = Some matrix \<and>
    reed_sol_r6_encode 2 8 8 (r6_init, fresh_coder [replicate 8 1, replicate 8 0x83] [replicate 8 0, replicate 8 0]) = Inr (1, s', st1) \<and>
    jerasure_matrix_encode 2 2 8 matrix 8 (fresh_coder [replicate 8 1, replicate 8 0x83] [replicate 8 0, replicate 8 0]) = Inr st2 \<and>
    dev 2 st1 3 = dev 2 st2 3"
proof -
  let ?st = "fresh_coder [replicate 8 1, replicate 8 0x83] [replicate 8 0, replicate 8 0]"
  have c: "coder_ok 2 2 8 ?st"
    using coder_ok_fresh [of "[replicate 8 1, replicate 8 0x83]" "[replicate 8 0, replicate 8 0]" 8] by (simp add: numeral_2_eq_2)
  have w: "code_width 8 1" by (simp add: code_width_def)
  obtain matrix where M: "reed_sol_r6_coding_matrix 2 8 = Some matrix" using r6_matrix_entries [of 8 2] by auto
  from reed_sol_r6_encode_equivalent [OF w _ _ c _ r6_ok_init M, of 8] M show ?thesis by fastforce
qed

end
